(* ===== verification/Prelude.thy ===== *)
theory Prelude
  imports Main "HOL-Library.Word" "HOL-Library.Sublist"
begin

text \<open>
  The vocabulary the component theories share: the errors of the program as values, the
  outcome of a Go call (a result, an error return or a run-time panic), the operations of
  Go's \<open>strings\<close>, \<open>strconv\<close> and \<open>fmt\<close> packages the sources use, and the unspecified
  iteration order of Go maps.
\<close>

section \<open>Errors and outcomes\<close>

text \<open>
  The sentinel errors of \<open>mcnode/node.go\<close>, \<open>mcnode/gc.go\<close>, \<open>mc/entity.go\<close>, \<open>mc/nat.go\<close>
  and \<open>mc/util.go\<close>, and the string-carrying error types of \<open>mc/query\<close>, \<open>mc/message.go\<close>
  and \<open>mcnode\<close>. \<open>ExtErr\<close> is an error that a library returned and the program passes on.
\<close>

datatype go_error =
    UnknownStatement
  | UnknownObject
  | BadStatementBody
  | BadQuery
  | BadState
  | BadMethod
  | BadNamespace
  | BadResult
  | BadStatement
  | NoResult
  | MissingData
  | UnexpectedData
  | BadData
  | BadPush
  | BadResponse
  | BadRuleset
  | NodeOffline
  | NoDirectory
  | DirectoryError
  | LookupError
  | UnknownPeer
  | IllegalState
  | NodeMustBeOffline
  | MalformedEntityId
  | UnknownIdProvider
  | BadAddressSpec
  | BadHandle
  | IfconfigError
  | DecryptionError
  | EntityKeyNotFound string
  | PushError string
  | StreamError string
  | QueryEvalError string
  | QueryCompileError string
  | ValueError string
  | StrconvError string
  | ParseError
  | ExtErr string

text \<open>The texts of the errors (\<open>Error()\<close>), which travel in the messages of a stream.\<close>

fun err_text :: "go_error \<Rightarrow> string" where
  "err_text UnknownStatement = ''Unknown statement''"
| "err_text UnknownObject = ''Unknown Object''"
| "err_text BadStatementBody = ''Unrecognized statement body''"
| "err_text BadQuery = ''Unexpected query''"
| "err_text BadState = ''Unrecognized state''"
| "err_text BadMethod = ''Unsupported method''"
| "err_text BadNamespace = ''Illegal namespace''"
| "err_text BadResult = ''Bad result set''"
| "err_text BadStatement = ''Bad statement; verification failed''"
| "err_text NoResult = ''Empty result set''"
| "err_text MissingData = ''Missing statement metadata''"
| "err_text UnexpectedData = ''Unexpected data object''"
| "err_text BadData = ''Bad data object; hash mismatch''"
| "err_text BadPush = ''Bad push value; unexpected object''"
| "err_text BadResponse = ''Bad response; unexpected object''"
| "err_text BadRuleset = ''Bad auth ruleset; unexpected object''"
| "err_text NodeOffline = ''Node is offline''"
| "err_text NoDirectory = ''No directory server''"
| "err_text DirectoryError = ''Directory error''"
| "err_text LookupError = ''Peer lookup failure''"
| "err_text UnknownPeer = ''Unknown peer''"
| "err_text IllegalState = ''Illegal node state''"
| "err_text NodeMustBeOffline = ''Node must be offline''"
| "err_text MalformedEntityId = ''Malformed entity id''"
| "err_text UnknownIdProvider = ''Unknwon identity provider''"
| "err_text BadAddressSpec = ''Bad NAT address specification''"
| "err_text BadHandle = ''Bad handle''"
| "err_text IfconfigError = ''ifconfig service error''"
| "err_text DecryptionError = ''Private key decryption failed''"
| "err_text (EntityKeyNotFound s) = s"
| "err_text (PushError s) = s"
| "err_text (StreamError s) = s"
| "err_text (QueryEvalError s) = s"
| "err_text (QueryCompileError s) = s"
| "err_text (ValueError s) = s"
| "err_text (StrconvError s) = ''strconv: '' @ s"
| "err_text ParseError = ''parse error''"
| "err_text (ExtErr s) = s"

text \<open>
  A Go function with results \<open>(T, error)\<close> either returns a value, returns an error, or
  stops the goroutine with a run-time panic (a nil dereference, an index out of range, a
  failed type assertion).
\<close>

datatype 'a outcome = Ok 'a | Err go_error | Panic string

fun obind :: "'a outcome \<Rightarrow> ('a \<Rightarrow> 'b outcome) \<Rightarrow> 'b outcome" where
  "obind (Ok x) f = f x"
| "obind (Err e) f = Err e"
| "obind (Panic m) f = Panic m"

fun omap :: "('a \<Rightarrow> 'b outcome) \<Rightarrow> 'a list \<Rightarrow> 'b list outcome" where
  "omap f [] = Ok []"
| "omap f (x # xs) = obind (f x) (\<lambda>y. obind (omap f xs) (\<lambda>ys. Ok (y # ys)))"

fun ofold :: "('s \<Rightarrow> 'a \<Rightarrow> 's outcome) \<Rightarrow> 's \<Rightarrow> 'a list \<Rightarrow> 's outcome" where
  "ofold f s [] = Ok s"
| "ofold f s (x # xs) = obind (f s x) (\<lambda>s'. ofold f s' xs)"

fun panics :: "'a outcome \<Rightarrow> bool" where
  "panics (Panic m) = True"
| "panics (Ok x) = False"
| "panics (Err e) = False"

fun of_option :: "go_error \<Rightarrow> 'a option \<Rightarrow> 'a outcome" where
  "of_option e None = Err e"
| "of_option e (Some x) = Ok x"

lemma obind_eq_Ok [simp]: "obind m f = Ok y \<longleftrightarrow> (\<exists>x. m = Ok x \<and> f x = Ok y)"
  by (cases m) auto

lemma Ok_eq_obind [simp]: "Ok y = obind m f \<longleftrightarrow> (\<exists>x. m = Ok x \<and> f x = Ok y)"
  by (cases m) auto

lemma obind_assoc: "obind (obind m f) g = obind m (\<lambda>x. obind (f x) g)"
  by (cases m) auto

lemma obind_Ok_right [simp]: "obind m Ok = m"
  by (cases m) auto

lemma not_panics_obind:
  "\<not> panics m \<Longrightarrow> (\<And>x. m = Ok x \<Longrightarrow> \<not> panics (f x)) \<Longrightarrow> \<not> panics (obind m f)"
  by (cases m) auto

lemma of_option_Ok [simp]: "of_option e m = Ok x \<longleftrightarrow> m = Some x"
  by (cases m) auto

lemma of_option_not_panics [simp]: "\<not> panics (of_option e m)"
  by (cases m) auto

lemma omap_length: "omap f xs = Ok ys \<Longrightarrow> length ys = length xs"
  by (induction xs arbitrary: ys) auto

lemma omap_Ok_iff: "omap f xs = Ok ys \<longleftrightarrow> list_all2 (\<lambda>x y. f x = Ok y) xs ys"
proof (induction xs arbitrary: ys)
  case Nil
  then show ?case by auto
next
  case (Cons x xs)
  then show ?case by (cases ys) auto
qed

lemma omap_total: "(\<And>x. x \<in> set xs \<Longrightarrow> f x = Ok (g x)) \<Longrightarrow> omap f xs = Ok (map g xs)"
  by (induction xs) auto

lemma ofold_append: "ofold f s (xs @ ys) = obind (ofold f s xs) (\<lambda>s'. ofold f s' ys)"
  by (induction xs arbitrary: s) (auto simp: obind_assoc)

lemma ofold_total:
  "(\<And>s x. x \<in> set xs \<Longrightarrow> f s x = Ok (g s x)) \<Longrightarrow> ofold f s xs = Ok (foldl g s xs)"
  by (induction xs arbitrary: s) auto

text \<open>An invariant of the loop body is an invariant of the loop.\<close>

lemma ofold_invariant:
  assumes "ofold f s xs = Ok s'" and "I s"
    and "\<And>s x t. x \<in> set xs \<Longrightarrow> I s \<Longrightarrow> f s x = Ok t \<Longrightarrow> I t"
  shows "I s'"
  using assms
proof (induction xs arbitrary: s)
  case Nil
  then show ?case by simp
next
  case (Cons x xs)
  then obtain t where t: "f s x = Ok t" "ofold f t xs = Ok s'" by auto
  then have "I t" using Cons.prems by auto
  then show ?case using Cons.IH [OF t(2)] Cons.prems(3) by auto
qed

section \<open>Iteration order of Go maps\<close>

text \<open>
  A \<open>for range\<close> over a Go map visits the keys in an unspecified order. A map or set that is
  iterated over is kept as the duplicate-free list of its keys, and the loop runs over
  \<open>ord keys\<close>, where \<open>ord\<close> is a parameter that may permute the list in any way.
\<close>

definition map_order :: "('a list \<Rightarrow> 'a list) \<Rightarrow> bool" where
  "map_order ord \<longleftrightarrow> (\<forall>xs. set (ord xs) = set xs \<and> (distinct xs \<longrightarrow> distinct (ord xs)))"

lemma map_order_set: "map_order ord \<Longrightarrow> set (ord xs) = set xs"
  by (simp add: map_order_def)

lemma map_order_distinct: "map_order ord \<Longrightarrow> distinct xs \<Longrightarrow> distinct (ord xs)"
  by (simp add: map_order_def)

lemma map_order_length: "map_order ord \<Longrightarrow> distinct xs \<Longrightarrow> length (ord xs) = length xs"
  by (metis distinct_card map_order_distinct map_order_set)

lemma map_order_id: "map_order (\<lambda>xs. xs)"
  by (simp add: map_order_def)

lemma map_order_rev: "map_order rev"
  by (simp add: map_order_def)

text \<open>Inserting a key of a Go set \<open>map[T]bool\<close>.\<close>

definition set_add :: "'a \<Rightarrow> 'a list \<Rightarrow> 'a list" where
  "set_add x xs = (if x \<in> set xs then xs else xs @ [x])"

lemma set_set_add [simp]: "set (set_add x xs) = insert x (set xs)"
  by (auto simp: set_add_def)

lemma distinct_set_add [simp]: "distinct (set_add x xs) = distinct xs"
  by (auto simp: set_add_def)

definition set_adds :: "'a list \<Rightarrow> 'a list \<Rightarrow> 'a list" where
  "set_adds ys xs = foldl (\<lambda>acc y. set_add y acc) xs ys"

lemma set_set_adds [simp]: "set (set_adds ys xs) = set xs \<union> set ys"
  by (induction ys arbitrary: xs) (auto simp: set_adds_def)

lemma distinct_set_adds [simp]: "distinct (set_adds ys xs) = distinct xs"
  by (induction ys arbitrary: xs) (auto simp: set_adds_def)

section \<open>Strings\<close>

text \<open>
  A Go string is a sequence of bytes, here a list of \<open>char\<close>. The operations of the package
  \<open>strings\<close> the sources use; an index is \<open>None\<close> where Go returns a negative number.
\<close>

definition HasPrefix :: "string \<Rightarrow> string \<Rightarrow> bool" where
  "HasPrefix s p = prefix p s"

definition HasSuffix :: "string \<Rightarrow> string \<Rightarrow> bool" where
  "HasSuffix s p = suffix p s"

lemma HasPrefix_code [code]: "HasPrefix s p = (take (length p) s = p)"
  by (metis HasPrefix_def append_eq_conv_conj prefix_def take_is_prefix)

fun Index :: "string \<Rightarrow> char \<Rightarrow> nat option" where
  "Index [] c = None"
| "Index (x # s) c = (if x = c then Some 0 else map_option Suc (Index s c))"

fun LastIndex :: "string \<Rightarrow> char \<Rightarrow> nat option" where
  "LastIndex [] c = None"
| "LastIndex (x # s) c =
     (case LastIndex s c of
        Some i \<Rightarrow> Some (Suc i)
      | None \<Rightarrow> (if x = c then Some 0 else None))"

lemma Index_None [simp]: "Index s c = None \<longleftrightarrow> c \<notin> set s"
  by (induction s) auto

lemma LastIndex_None [simp]: "LastIndex s c = None \<longleftrightarrow> c \<notin> set s"
  by (induction s) (auto split: option.splits)

lemma Index_append: "c \<notin> set u \<Longrightarrow> Index (u @ c # v) c = Some (length u)"
  by (induction u) auto

lemma Index_Some: "Index s c = Some i \<Longrightarrow> s = take i s @ c # drop (Suc i) s \<and> c \<notin> set (take i s)"
  by (induction s arbitrary: i) (auto split: if_splits)

lemma LastIndex_append: "c \<notin> set v \<Longrightarrow> LastIndex (u @ c # v) c = Some (length u)"
proof (induction u)
  case Nil
  then show ?case by (auto split: option.splits)
next
  case (Cons x u)
  then show ?case by simp
qed

lemma LastIndex_Some:
  "LastIndex s c = Some i \<Longrightarrow> s = take i s @ c # drop (Suc i) s \<and> c \<notin> set (drop (Suc i) s)"
proof (induction s arbitrary: i)
  case Nil
  then show ?case by simp
next
  case (Cons x s)
  then show ?case
  proof (cases "LastIndex s c")
    case None
    moreover from None have "c \<notin> set s" by simp
    ultimately show ?thesis using Cons.prems by (auto simp del: LastIndex_None split: if_splits)
  next
    case (Some j)
    with Cons show ?thesis by auto
  qed
qed

text \<open>\<open>strings.Split\<close> on a one-character separator and \<open>strings.Join\<close>.\<close>

fun Split :: "string \<Rightarrow> char \<Rightarrow> string list" where
  "Split [] c = [[]]"
| "Split (x # s) c =
     (if x = c then [] # Split s c
      else (case Split s c of [] \<Rightarrow> [[x]] | w # ws \<Rightarrow> (x # w) # ws))"

fun Join :: "string list \<Rightarrow> string \<Rightarrow> string" where
  "Join [] sep = []"
| "Join [w] sep = w"
| "Join (w # ws) sep = w @ sep @ Join ws sep"

lemma Split_nonempty [simp]: "Split s c \<noteq> []"
  by (induction s) (auto split: list.splits)

lemma Split_no_sep: "c \<notin> set w \<Longrightarrow> Split w c = [w]"
  by (induction w) auto

lemma Split_append: "c \<notin> set w \<Longrightarrow> Split (w @ c # s) c = w # Split s c"
  by (induction w) auto

lemma Split_Join:
  "ws \<noteq> [] \<Longrightarrow> (\<forall>w \<in> set ws. c \<notin> set w) \<Longrightarrow> Split (Join ws [c]) c = ws"
  by (induction ws "[c]" rule: Join.induct) (auto simp: Split_no_sep Split_append)

lemma Join_Split: "Join (Split s c) [c] = s"
proof (induction s)
  case Nil
  then show ?case by simp
next
  case (Cons x s)
  obtain w ws where "Split s c = w # ws" by (metis Split_nonempty neq_Nil_conv)
  with Cons show ?case by (cases ws) auto
qed

text \<open>
  \<open>strings.TrimSpace\<close>, on the white space of ASCII (the code points above it that Go trims
  as well are sequences of several bytes and are left alone here).
\<close>

definition is_space :: "char \<Rightarrow> bool" where
  "is_space c \<longleftrightarrow> c \<in> {CHR '' '', CHR 0x09, CHR 0x0A, CHR 0x0B, CHR 0x0C, CHR 0x0D}"

definition TrimSpace :: "string \<Rightarrow> string" where
  "TrimSpace s = rev (dropWhile is_space (rev (dropWhile is_space s)))"

section \<open>Decimal integers\<close>

text \<open>
  \<open>fmt\<close>'s \<open>%d\<close> and \<open>strconv.Atoi\<close> for the 64-bit \<open>int\<close> of the platforms the program is
  built for. \<open>Atoi\<close> fails on an empty string, on a character that is no digit, and on a
  number outside the range of the type.
\<close>

definition digit_char :: "nat \<Rightarrow> char" where
  "digit_char d = char_of (48 + d)"

definition digit_val :: "char \<Rightarrow> int option" where
  "digit_val c = (let n = (of_char c :: int) in if 48 \<le> n \<and> n \<le> 57 then Some (n - 48) else None)"

fun nat_str :: "nat \<Rightarrow> string" where
  "nat_str n = (if n < 10 then [digit_char n] else nat_str (n div 10) @ [digit_char (n mod 10)])"

declare nat_str.simps [simp del]

definition int_str :: "int \<Rightarrow> string" where
  "int_str i = (if i < 0 then CHR ''-'' # nat_str (nat (- i)) else nat_str (nat i))"

fun digits_val :: "int \<Rightarrow> string \<Rightarrow> int option" where
  "digits_val acc [] = Some acc"
| "digits_val acc (c # s) =
     (case digit_val c of None \<Rightarrow> None | Some d \<Rightarrow> digits_val (10 * acc + d) s)"

definition int64_max :: int where
  "int64_max = 9223372036854775807"

definition in_int64 :: "int \<Rightarrow> bool" where
  "in_int64 i \<longleftrightarrow> - int64_max - 1 \<le> i \<and> i \<le> int64_max"

definition Atoi :: "string \<Rightarrow> int outcome" where
  "Atoi s =
     (let (neg, body) =
        (case s of c # r \<Rightarrow> (if c = CHR ''-'' then (True, r) else if c = CHR ''+'' then (False, r) else (False, s))
                 | [] \<Rightarrow> (False, s))
      in if body = [] then Err (StrconvError s)
         else (case digits_val 0 body of
                 None \<Rightarrow> Err (StrconvError s)
               | Some n \<Rightarrow>
                   (let i = (if neg then - n else n)
                    in if in_int64 i then Ok i else Err (StrconvError s))))"

lemma Atoi_not_panics [simp]: "\<not> panics (Atoi s)"
  by (auto simp: Atoi_def Let_def split: list.splits option.splits prod.splits)

lemma Atoi_range: "Atoi s = Ok i \<Longrightarrow> in_int64 i"
  by (auto simp: Atoi_def Let_def split: list.splits option.splits prod.splits if_splits)

lemma digit_val_digit_char [simp]: "d < 10 \<Longrightarrow> digit_val (digit_char d) = Some (int d)"
proof -
  assume "d < 10"
  then have "(of_char (char_of (48 + d)) :: nat) = 48 + d" by simp
  then have "(of_char (char_of (48 + d) :: char) :: int) = 48 + int d"
    by (metis of_nat_of_char of_nat_add of_nat_numeral)
  with \<open>d < 10\<close> show ?thesis by (simp add: digit_val_def digit_char_def)
qed

lemma digit_val_bounds: "digit_val c = Some d \<Longrightarrow> 0 \<le> d \<and> d \<le> 9"
  by (auto simp: digit_val_def Let_def split: if_splits)

lemma digits_val_nonneg: "0 \<le> acc \<Longrightarrow> digits_val acc s = Some n \<Longrightarrow> 0 \<le> n"
proof (induction s arbitrary: acc)
  case (Cons c s)
  then obtain d where "digit_val c = Some d" "digits_val (10 * acc + d) s = Some n"
    by (auto split: option.splits)
  moreover have "0 \<le> 10 * acc + d" using Cons.prems digit_val_bounds [OF calculation(1)] by simp
  ultimately show ?case using Cons.IH by blast
qed simp

lemma digits_val_append:
  "digits_val acc (s @ t) = (case digits_val acc s of None \<Rightarrow> None | Some n \<Rightarrow> digits_val n t)"
  by (induction s arbitrary: acc) (auto split: option.splits)

lemma digits_val_nat_str: "digits_val 0 (nat_str n) = Some (int n)"
proof (induction n rule: nat_str.induct)
  case (1 n)
  show ?case
  proof (cases "n < 10")
    case True
    then show ?thesis by (simp add: nat_str.simps [of n])
  next
    case False
    have "10 * int (n div 10) + int (n mod 10) = int n" by presburger
    with False 1 show ?thesis by (simp add: nat_str.simps [of n] digits_val_append)
  qed
qed

lemma nat_str_inject [simp]: "nat_str m = nat_str n \<longleftrightarrow> m = n"
  by (metis digits_val_nat_str option.inject of_nat_eq_iff)

lemma nat_str_nonempty [simp]: "nat_str n \<noteq> []"
  by (simp add: nat_str.simps [of n])

definition is_digit :: "char \<Rightarrow> bool" where
  "is_digit c \<longleftrightarrow> digit_val c \<noteq> None"

lemma nat_str_digits: "list_all is_digit (nat_str n)"
proof (induction n rule: nat_str.induct)
  case (1 n)
  then show ?case by (cases "n < 10") (auto simp: nat_str.simps [of n] is_digit_def)
qed

lemma nat_str_digit_set: "c \<in> set (nat_str n) \<Longrightarrow> is_digit c"
  using nat_str_digits [of n] by (auto simp: list_all_iff)

lemma digits_val_total: "list_all is_digit s \<Longrightarrow> \<exists>n. digits_val acc s = Some n"
  by (induction s arbitrary: acc) (auto simp: is_digit_def)

lemma not_is_digit [simp]: "\<not> is_digit (CHR ''-'')" "\<not> is_digit (CHR ''+'')" "\<not> is_digit (CHR '':'')"
  by (simp_all add: is_digit_def digit_val_def)

lemma Atoi_int_str:
  assumes "0 \<le> i" "i \<le> int64_max"
  shows "Atoi (int_str i) = Ok i"
proof -
  obtain c r where cr: "nat_str (nat i) = c # r" by (metis nat_str_nonempty neq_Nil_conv)
  then have "is_digit c" using nat_str_digit_set [of c "nat i"] by simp
  then have "c \<noteq> CHR ''-''" "c \<noteq> CHR ''+''" by auto
  with cr assms show ?thesis
    using digits_val_nat_str [of "nat i"]
    by (simp add: Atoi_def int_str_def in_int64_def int64_max_def)
qed

lemma int_str_inject: "int_str i = int_str j \<longleftrightarrow> i = j"
proof
  assume eq: "int_str i = int_str j"
  have no_minus: "nat_str n \<noteq> CHR ''-'' # r" for n r
    using nat_str_digit_set [of "CHR ''-''" n] by auto
  show "i = j"
    using eq no_minus no_minus [symmetric] by (auto simp: int_str_def split: if_splits)
qed simp

end
