(* ===== verification/Statement.thy ===== *)
theory Statement
  imports Prelude
begin

text \<open>
  Statements, the data the nodes exchange: the protocol buffer messages of
  \<open>proto/stmt.proto\<close> (Go structs in \<open>proto/stmt.pb.go\<close>) and the operations on them in
  \<open>mc/query/stmt.go\<close>: the set of well-known identifiers a statement refers to and the source
  of a statement.
\<close>

section \<open>Messages\<close>

text \<open>
  \<open>Statement.Body\<close> is a pointer that may be nil and \<open>StatementBody.Body\<close> an interface that may
  be nil (a message in which no alternative of the \<open>oneof\<close> is set): both are options.
  The alternatives, and the elements of repeated fields, are never nil in a message that was
  unmarshalled. \<open>Signature\<close> is a byte slice that may be nil.
\<close>

record simple_statement =
  s_Object :: string
  s_Refs :: "string list"
  s_Tags :: "string list"
  s_Deps :: "string list"

datatype statement =
    Statement (Id: string) (Publisher: string) (Namespace: string)
      (Body: "statement_body option") (Timestamp: int) (Signature: "string option")
and statement_body =
    StatementBody "body_oneof option"
and body_oneof =
    BodySimple simple_statement
  | BodyCompound "simple_statement list"
  | BodyEnvelope "statement list"
  | BodyArchive

definition with_signature :: "string option \<Rightarrow> statement \<Rightarrow> statement" where
  "with_signature sg st = Statement (Id st) (Publisher st) (Namespace st) (Body st) (Timestamp st) sg"

lemma with_signature_sel [simp]:
  "Id (with_signature sg st) = Id st"
  "Publisher (with_signature sg st) = Publisher st"
  "Namespace (with_signature sg st) = Namespace st"
  "Body (with_signature sg st) = Body st"
  "Timestamp (with_signature sg st) = Timestamp st"
  "Signature (with_signature sg st) = sg"
  by (simp_all add: with_signature_def)

lemma with_signature_twice [simp]: "with_signature a (with_signature b st) = with_signature a st"
  by (simp add: with_signature_def)

lemma with_signature_same [simp]: "with_signature (Signature st) st = st"
  by (cases st) (simp add: with_signature_def)

section \<open>Well-formedness\<close>

text \<open>
  \<open>bodies_set\<close>: no statement in the tree has a nil \<open>Body\<close>. The code dereferences \<open>Body\<close>
  without a check, so this is what keeps it from panicking.
  \<open>no_archive\<close>: no body in the tree is an archive or has an unset \<open>oneof\<close>.
\<close>

fun bodies_set :: "statement \<Rightarrow> bool" where
  "bodies_set (Statement i p n None t sg) = False"
| "bodies_set (Statement i p n (Some (StatementBody None)) t sg) = True"
| "bodies_set (Statement i p n (Some (StatementBody (Some (BodySimple s)))) t sg) = True"
| "bodies_set (Statement i p n (Some (StatementBody (Some (BodyCompound ss)))) t sg) = True"
| "bodies_set (Statement i p n (Some (StatementBody (Some (BodyEnvelope es)))) t sg) =
     list_all bodies_set es"
| "bodies_set (Statement i p n (Some (StatementBody (Some BodyArchive))) t sg) = True"

fun no_archive :: "statement \<Rightarrow> bool" where
  "no_archive (Statement i p n None t sg) = True"
| "no_archive (Statement i p n (Some (StatementBody None)) t sg) = False"
| "no_archive (Statement i p n (Some (StatementBody (Some (BodySimple s)))) t sg) = True"
| "no_archive (Statement i p n (Some (StatementBody (Some (BodyCompound ss)))) t sg) = True"
| "no_archive (Statement i p n (Some (StatementBody (Some (BodyEnvelope es)))) t sg) =
     list_all no_archive es"
| "no_archive (Statement i p n (Some (StatementBody (Some BodyArchive))) t sg) = False"

text \<open>The simple statements a statement is made of, in the order the code visits them.\<close>

fun simples :: "statement \<Rightarrow> simple_statement list" where
  "simples (Statement i p n None t sg) = []"
| "simples (Statement i p n (Some (StatementBody None)) t sg) = []"
| "simples (Statement i p n (Some (StatementBody (Some (BodySimple s)))) t sg) = [s]"
| "simples (Statement i p n (Some (StatementBody (Some (BodyCompound ss)))) t sg) = ss"
| "simples (Statement i p n (Some (StatementBody (Some (BodyEnvelope es)))) t sg) =
     concat (map simples es)"
| "simples (Statement i p n (Some (StatementBody (Some BodyArchive))) t sg) = []"

definition refs_of :: "statement \<Rightarrow> string list" where
  "refs_of st = concat (map s_Refs (simples st))"

lemma simples_with_signature [simp]: "simples (with_signature sg st) = simples st"
  by (cases st rule: simples.cases) (auto simp: with_signature_def)

lemma bodies_set_with_signature [simp]: "bodies_set (with_signature sg st) = bodies_set st"
  by (cases st rule: bodies_set.cases) (auto simp: with_signature_def)

section \<open>Statement references (mc/query/stmt.go)\<close>

text \<open>
  \<open>StatementRefSet\<close> is a \<open>map[string]bool\<close>; here the list of its keys. A nil \<open>Body\<close> panics;
  an unset \<open>oneof\<close> and an archive match no case and add nothing.
\<close>

definition mergeSimple :: "string list \<Rightarrow> simple_statement \<Rightarrow> string list" where
  "mergeSimple refs st = set_adds (s_Refs st) refs"

definition mergeCompound :: "string list \<Rightarrow> simple_statement list \<Rightarrow> string list" where
  "mergeCompound refs ss = foldl mergeSimple refs ss"

fun mergeStatement :: "string list \<Rightarrow> statement \<Rightarrow> string list outcome"
  and mergeEnvelope :: "string list \<Rightarrow> statement list \<Rightarrow> string list outcome" where
  "mergeStatement refs (Statement i p n None t sg) = Panic ''nil Body''"
| "mergeStatement refs (Statement i p n (Some (StatementBody None)) t sg) = Ok refs"
| "mergeStatement refs (Statement i p n (Some (StatementBody (Some (BodySimple s)))) t sg) =
     Ok (mergeSimple refs s)"
| "mergeStatement refs (Statement i p n (Some (StatementBody (Some (BodyCompound ss)))) t sg) =
     Ok (mergeCompound refs ss)"
| "mergeStatement refs (Statement i p n (Some (StatementBody (Some (BodyEnvelope es)))) t sg) =
     mergeEnvelope refs es"
| "mergeStatement refs (Statement i p n (Some (StatementBody (Some BodyArchive))) t sg) = Ok refs"
| "mergeEnvelope refs [] = Ok refs"
| "mergeEnvelope refs (e # es) = obind (mergeStatement refs e) (\<lambda>r. mergeEnvelope r es)"

definition StatementRefs :: "statement \<Rightarrow> string list outcome" where
  "StatementRefs st = mergeStatement [] st"

text \<open>\<open>List\<close> copies the keys in the iteration order of the map.\<close>

definition StatementRefSet_List :: "(string list \<Rightarrow> string list) \<Rightarrow> string list \<Rightarrow> string list" where
  "StatementRefSet_List ord refs = ord refs"

fun StatementSource :: "statement \<Rightarrow> string outcome" where
  "StatementSource (Statement i p n None t sg) = Panic ''nil Body''"
| "StatementSource (Statement i p n (Some (StatementBody None)) t sg) = Ok p"
| "StatementSource (Statement i p n (Some (StatementBody (Some (BodySimple s)))) t sg) = Ok p"
| "StatementSource (Statement i p n (Some (StatementBody (Some (BodyCompound ss)))) t sg) = Ok p"
| "StatementSource (Statement i p n (Some (StatementBody (Some (BodyEnvelope [])))) t sg) = Ok p"
| "StatementSource (Statement i p n (Some (StatementBody (Some (BodyEnvelope (e # es))))) t sg) =
     StatementSource e"
| "StatementSource (Statement i p n (Some (StatementBody (Some BodyArchive))) t sg) = Ok p"

section \<open>What they compute\<close>

lemma mergeCompound_set: "set (mergeCompound refs ss) = set refs \<union> set (concat (map s_Refs ss))"
  by (induction ss arbitrary: refs) (auto simp: mergeCompound_def mergeSimple_def)

lemma mergeCompound_distinct: "distinct (mergeCompound refs ss) = distinct refs"
  by (induction ss arbitrary: refs) (auto simp: mergeCompound_def mergeSimple_def)

lemma mergeStatement_Ok:
  "bodies_set st \<Longrightarrow> \<exists>rs. mergeStatement refs st = Ok rs \<and> set rs = set refs \<union> set (refs_of st) \<and>
     distinct rs = distinct refs"
  "list_all bodies_set es \<Longrightarrow> \<exists>rs. mergeEnvelope refs es = Ok rs \<and>
     set rs = set refs \<union> set (concat (map refs_of es)) \<and> distinct rs = distinct refs"
proof (induction refs st and refs es rule: mergeStatement_mergeEnvelope.induct)
  case (5 refs i p n es t sg)
  have "set (refs_of (Statement i p n (Some (StatementBody (Some (BodyEnvelope es)))) t sg)) =
      set (concat (map refs_of es))"
    by (auto simp: refs_of_def)
  with 5 show ?case by simp
next
  case (8 refs e es)
  from 8(3) have e: "bodies_set e" and es: "list_all bodies_set es" by simp_all
  from 8(1) [OF e] obtain r where r: "mergeStatement refs e = Ok r"
    "set r = set refs \<union> set (refs_of e)" "distinct r = distinct refs" by blast
  from 8(2) [OF es, of r] obtain rs where "mergeEnvelope r es = Ok rs"
    "set rs = set r \<union> set (concat (map refs_of es))" "distinct rs = distinct r" by blast
  with r show ?case by auto
qed (auto simp: refs_of_def mergeSimple_def mergeCompound_set mergeCompound_distinct)

lemma StatementRefs_Ok:
  assumes "bodies_set st"
  obtains rs where "StatementRefs st = Ok rs" "set rs = set (refs_of st)" "distinct rs"
  using mergeStatement_Ok(1) [OF assms, of "[]"] by (auto simp: StatementRefs_def)

lemma StatementSource_Ok: "bodies_set st \<Longrightarrow> \<exists>p. StatementSource st = Ok p"
  by (induction st rule: StatementSource.induct) auto

lemma mergeStatement_no_Err:
  "mergeStatement refs st \<noteq> Err er"
  "mergeEnvelope refs es \<noteq> Err er"
proof (induction refs st and refs es rule: mergeStatement_mergeEnvelope.induct)
  case (8 refs e es)
  then show ?case by (cases "mergeStatement refs e") auto
qed auto

lemma StatementSource_no_Err: "StatementSource st \<noteq> Err er"
  by (induction st rule: StatementSource.induct) auto

end
