(* ===== verification/Query.thy ===== *)
theory Query
  imports Statement
begin

text \<open>
  The abstract syntax of MCQL queries (\<open>mc/query/query.go\<close>) and the well-formedness of the
  queries the grammar can produce, which the evaluator and the compiler rely on.
\<close>

section \<open>Queries\<close>

text \<open>
  The interfaces \<open>QuerySelector\<close> and \<open>QueryCriteria\<close> with their implementations are
  datatypes; a nil interface, and a nil \<open>QueryOrder\<close>, is \<open>None\<close>. A criterion carries its
  operator, selector and value in the order of the Go struct.
\<close>

datatype QueryOp = OpSelect | OpDelete

datatype QuerySelector =
    SimpleSelector string
  | CompoundSelector "string list"
  | FunctionSelector string string

datatype QueryCriteria =
    ValueCriteria string string string
  | RangeCriteria string string int
  | IndexCriteria string string
  | CompoundCriteria string QueryCriteria QueryCriteria
  | NegatedCriteria QueryCriteria

record QueryOrderSpec =
  o_sel :: string
  o_dir :: string

record Query =
  q_Op :: QueryOp
  q_namespace :: string
  q_selector :: "QuerySelector option"
  q_criteria :: "QueryCriteria option"
  q_order :: "QueryOrderSpec list option"
  q_limit :: int

text \<open>The zero value \<open>Query{}\<close>.\<close>

definition empty_query :: Query where
  "empty_query = \<lparr>q_Op = OpSelect, q_namespace = [], q_selector = None, q_criteria = None,
     q_order = None, q_limit = 0\<rparr>"

definition WithLimit :: "Query \<Rightarrow> int \<Rightarrow> Query" where
  "WithLimit q limit = q\<lparr>q_limit := limit\<rparr>"

definition IsSimpleSelect :: "Query \<Rightarrow> string \<Rightarrow> bool" where
  "IsSimpleSelect q sel =
     (if q_Op q \<noteq> OpSelect then False
      else (case q_selector q of Some (SimpleSelector ssel) \<Rightarrow> sel = ssel | _ \<Rightarrow> False))"

definition WithSimpleSelect :: "Query \<Rightarrow> string \<Rightarrow> Query" where
  "WithSimpleSelect q sel = q\<lparr>q_selector := Some (SimpleSelector sel)\<rparr>"

fun selectorType :: "QuerySelector \<Rightarrow> string" where
  "selectorType (SimpleSelector s) = ''simple''"
| "selectorType (CompoundSelector ss) = ''compound''"
| "selectorType (FunctionSelector op sel) = ''function''"

fun criteriaType :: "QueryCriteria \<Rightarrow> string" where
  "criteriaType (ValueCriteria op sel val) = ''value''"
| "criteriaType (RangeCriteria op sel val) = ''range''"
| "criteriaType (IndexCriteria sel val) = ''index''"
| "criteriaType (CompoundCriteria op l r) = ''compound''"
| "criteriaType (NegatedCriteria e) = ''negated''"

lemma IsSimpleSelect_iff:
  "IsSimpleSelect q sel \<longleftrightarrow> q_Op q = OpSelect \<and> q_selector q = Some (SimpleSelector sel)"
  by (auto simp: IsSimpleSelect_def split: option.splits QuerySelector.splits)

section \<open>Characters of the lexemes\<close>

definition is_alpha :: "char \<Rightarrow> bool" where
  "is_alpha c = (let n = (of_char c :: nat) in (65 \<le> n \<and> n \<le> 90) \<or> (97 \<le> n \<and> n \<le> 122))"

definition is_alnum :: "char \<Rightarrow> bool" where
  "is_alnum c = (is_alpha c \<or> is_digit c)"

definition ns_char :: "char \<Rightarrow> bool" where
  "ns_char c = (is_alnum c \<or> c = CHR ''-'')"

definition id_char :: "char \<Rightarrow> bool" where
  "id_char c = (is_alnum c \<or> c = CHR '':'')"

definition wki_char :: "char \<Rightarrow> bool" where
  "wki_char c = (is_alnum c \<or> c \<in> {CHR ''-'', CHR '':'', CHR ''_'', CHR ''/'', CHR ''.''})"

lemma alnum_not_special:
  "\<not> is_alnum (CHR 0x27)" "\<not> is_alnum (CHR '' '')" "\<not> is_alnum (CHR ''*'')" "\<not> is_alnum (CHR ''.'')"
  "\<not> is_alnum (CHR '')'')" "\<not> is_alnum (CHR '','')" "\<not> is_alnum (CHR ''('')" "\<not> is_alnum (CHR '':'')"
  "\<not> is_alnum (CHR ''='')" "\<not> is_alnum (CHR ''-'')"
  by (simp_all add: is_alnum_def is_alpha_def is_digit_def digit_val_def)

lemma ns_char_not_special [simp]:
  "\<not> ns_char (CHR 0x27)" "\<not> ns_char (CHR '' '')" "\<not> ns_char (CHR ''*'')" "\<not> ns_char (CHR ''.'')"
  by (simp_all add: ns_char_def alnum_not_special)

lemma id_char_not_special [simp]:
  "\<not> id_char (CHR 0x27)" "\<not> id_char (CHR '' '')" "\<not> id_char (CHR '')'')"
  by (simp_all add: id_char_def alnum_not_special)

lemma wki_char_not_special [simp]:
  "\<not> wki_char (CHR 0x27)" "\<not> wki_char (CHR '' '')" "\<not> wki_char (CHR '')'')"
  by (simp_all add: wki_char_def alnum_not_special)

lemma is_alnum_id_char: "is_alnum c \<Longrightarrow> id_char c"
  by (simp add: id_char_def)

definition word_of :: "(char \<Rightarrow> bool) \<Rightarrow> string \<Rightarrow> bool" where
  "word_of P w = (w \<noteq> [] \<and> list_all P w)"

lemma word_of_not_in: "word_of P w \<Longrightarrow> \<not> P c \<Longrightarrow> c \<notin> set w"
  by (auto simp: word_of_def list_all_iff)

section \<open>Well-formed queries\<close>

definition simple_ops :: "string list" where
  "simple_ops = [''*'', ''body'', ''id'', ''publisher'', ''namespace'', ''source'', ''timestamp'', ''counter'']"

definition function_ops :: "string list" where
  "function_ops = [''COUNT'', ''MIN'', ''MAX'']"

definition order_ops :: "string list" where
  "order_ops = [''id'', ''namespace'', ''publisher'', ''source'', ''timestamp'', ''counter'']"

text \<open>
  A namespace is \<open>*\<close>, or parts separated by dots of which the last may be \<open>*\<close> when there
  is one before it. \<open>ns_parts\<close> builds it from its parts and the wildcard flag.
\<close>

definition ns_render :: "string list \<Rightarrow> bool \<Rightarrow> string" where
  "ns_render ps wild = Join ps ''.'' @ (if wild then ''.*'' else [])"

definition wf_namespace :: "string \<Rightarrow> bool" where
  "wf_namespace ns \<longleftrightarrow>
     ns = ''*'' \<or> (\<exists>ps wild. ps \<noteq> [] \<and> list_all (word_of ns_char) ps \<and> ns = ns_render ps wild)"

fun wf_selector :: "QuerySelector \<Rightarrow> bool" where
  "wf_selector (SimpleSelector s) = (s \<in> set simple_ops)"
| "wf_selector (CompoundSelector ss) = (ss \<noteq> [] \<and> set ss \<subseteq> set simple_ops)"
| "wf_selector (FunctionSelector op s) = (op \<in> set function_ops \<and> s \<in> set simple_ops)"

fun wf_criteria :: "QueryCriteria \<Rightarrow> bool" where
  "wf_criteria (ValueCriteria op sel val) =
     (op \<in> {''='', ''!=''} \<and>
      ((sel = ''id'' \<and> word_of id_char val) \<or>
       (sel \<in> {''publisher'', ''source''} \<and> word_of is_alnum val)))"
| "wf_criteria (RangeCriteria op sel val) =
     (op \<in> {''<='', ''<'', ''='', ''!='', ''>='', ''>''} \<and> sel \<in> {''timestamp'', ''counter''} \<and>
      0 \<le> val \<and> val \<le> int64_max)"
| "wf_criteria (IndexCriteria sel val) = (sel = ''wki'' \<and> word_of wki_char val)"
| "wf_criteria (CompoundCriteria op l r) =
     (op \<in> {''AND'', ''OR''} \<and> wf_criteria l \<and> wf_criteria r)"
| "wf_criteria (NegatedCriteria e) = wf_criteria e"

definition wf_order :: "QueryOrderSpec list \<Rightarrow> bool" where
  "wf_order specs =
     (specs \<noteq> [] \<and> list_all (\<lambda>sp. o_sel sp \<in> set order_ops \<and> o_dir sp \<in> {[], ''ASC'', ''DESC''}) specs)"

definition wf_query :: "Query \<Rightarrow> bool" where
  "wf_query q =
     (wf_namespace (q_namespace q) \<and>
      pred_option wf_criteria (q_criteria q) \<and>
      0 \<le> q_limit q \<and> q_limit q \<le> int64_max \<and>
      (case q_Op q of
         OpSelect \<Rightarrow> (\<exists>sel. q_selector q = Some sel \<and> wf_selector sel) \<and> pred_option wf_order (q_order q)
       | OpDelete \<Rightarrow> q_selector q = Some (SimpleSelector ''id'') \<and> q_order q = None))"

lemma wf_query_selector:
  assumes "wf_query q"
  obtains sel where "q_selector q = Some sel" "wf_selector sel"
proof (cases "q_Op q")
  case OpSelect
  with assms that show ?thesis by (auto simp: wf_query_def)
next
  case OpDelete
  with assms have "q_selector q = Some (SimpleSelector ''id'')" by (simp add: wf_query_def)
  then show ?thesis using that by (auto simp: simple_ops_def)
qed

lemma wf_query_wf_selector: "wf_query q \<Longrightarrow> q_selector q = Some sel \<Longrightarrow> wf_selector sel"
  by (erule wf_query_selector) simp

lemma ns_render_chars:
  "list_all (word_of ns_char) ps \<Longrightarrow> c \<in> set (ns_render ps wild) \<Longrightarrow> ns_char c \<or> c = CHR ''.'' \<or> c = CHR ''*''"
proof -
  have "list_all (word_of ns_char) ps \<Longrightarrow> c \<in> set (Join ps ''.'') \<Longrightarrow> ns_char c \<or> c = CHR ''.''" for c
    by (induction ps "''.''" rule: Join.induct) (auto simp: word_of_def list_all_iff)
  then show "list_all (word_of ns_char) ps \<Longrightarrow> c \<in> set (ns_render ps wild) \<Longrightarrow>
      ns_char c \<or> c = CHR ''.'' \<or> c = CHR ''*''"
    by (auto simp: ns_render_def split: if_splits)
qed

lemma wf_namespace_chars:
  "wf_namespace ns \<Longrightarrow> c \<in> set ns \<Longrightarrow> ns_char c \<or> c = CHR ''.'' \<or> c = CHR ''*''"
  by (auto simp: wf_namespace_def dest: ns_render_chars)

lemma Join_nonempty: "ws \<noteq> [] \<Longrightarrow> (\<forall>w \<in> set ws. w \<noteq> []) \<Longrightarrow> Join ws sep \<noteq> []"
  by (induction ws sep rule: Join.induct) auto

lemma Join_last:
  "ws \<noteq> [] \<Longrightarrow> (\<forall>w \<in> set ws. w \<noteq> []) \<Longrightarrow> last (Join ws sep) = last (last ws)"
proof (induction ws sep rule: Join.induct)
  case (3 w v vs sep)
  then have "Join (v # vs) sep \<noteq> []" by (intro Join_nonempty) auto
  with 3 show ?case by auto
qed auto

lemma wf_namespace_nonempty: "wf_namespace ns \<Longrightarrow> ns \<noteq> []"
  by (auto simp: wf_namespace_def ns_render_def word_of_def list_all_iff dest: Join_nonempty)

text \<open>The three shapes the code distinguishes by looking at the last character.\<close>

lemma wf_namespace_cases:
  assumes "wf_namespace ns"
  obtains (any) "ns = ''*''"
  | (prefix) pre where "ns = pre @ ''.*''" "ns \<noteq> ''*''" "pre \<noteq> []"
  | (exact) "ns \<noteq> ''*''" "ns \<noteq> []" "last ns \<noteq> CHR ''*''"
proof (cases "ns = ''*''")
  case True
  then show ?thesis by (rule any)
next
  case False
  with assms obtain ps wild where ps: "ps \<noteq> []" "list_all (word_of ns_char) ps"
    and ns: "ns = ns_render ps wild" by (auto simp: wf_namespace_def)
  have ne: "\<forall>w \<in> set ps. w \<noteq> []" using ps(2) by (auto simp: list_all_iff word_of_def)
  have J: "Join ps ''.'' \<noteq> []" using ps(1) ne by (rule Join_nonempty)
  show ?thesis
  proof (cases wild)
    case True
    then show ?thesis using prefix [of "Join ps ''.''"] ns J False by (simp add: ns_render_def)
  next
    case F: False
    have "last ps \<in> set ps" using ps(1) by simp
    then have "last (last ps) \<in> set (last ps)" "word_of ns_char (last ps)"
      using ne ps(2) by (auto simp: list_all_iff)
    then have "ns_char (last (last ps))" by (auto simp: word_of_def list_all_iff)
    moreover have "last ns = last (last ps)"
      using ns F Join_last [OF ps(1) ne] by (simp add: ns_render_def)
    ultimately have "last ns \<noteq> CHR ''*''" by auto
    then show ?thesis using exact [OF False] J ns F by (simp add: ns_render_def)
  qed
qed

end
