(* ===== verification/QueryEval.thy ===== *)
theory QueryEval
  imports Query
begin

text \<open>
  The in-memory query evaluator of \<open>mc/query/eval.go\<close>: the filters a query compiles to, the
  three result sets, and \<open>EvalQuery\<close>; then what an evaluation returns.
\<close>

section \<open>Values\<close>

text \<open>
  The evaluator works on \<open>[]*pb.Statement\<close> and compares pointers when it collects \<open>*\<close> and
  \<open>body\<close>. \<open>stmt_ptr\<close> is such a pointer: the address of the statement, the address its \<open>Body\<close>
  pointer holds, and the statement itself. An \<open>interface{}\<close> value carries its dynamic type:
  \<open>VInt\<close> (\<open>int\<close>) and \<open>VInt64\<close> (\<open>int64\<close>) are different values.
\<close>

record stmt_ptr =
  p_addr :: nat
  p_body :: nat
  p_stmt :: statement

datatype gvalue =
    VInt int
  | VInt64 int
  | VString string
  | VStmt stmt_ptr
  | VBody "(nat \<times> statement_body) option"
  | VMap "string \<Rightarrow> gvalue option"

type_synonym StatementFilter = "stmt_ptr \<Rightarrow> bool outcome"
type_synonym StatementSelector = "stmt_ptr \<Rightarrow> gvalue outcome"

section \<open>Filters\<close>

definition idCriteriaFilter :: "stmt_ptr \<Rightarrow> string" where
  "idCriteriaFilter p = Id (p_stmt p)"

definition publisherCriteriaFilter :: "stmt_ptr \<Rightarrow> string" where
  "publisherCriteriaFilter p = Publisher (p_stmt p)"

definition sourceCriteriaFilter :: "stmt_ptr \<Rightarrow> string" where
  "sourceCriteriaFilter p = Publisher (p_stmt p)"

definition valueCriteriaFilterSelect :: "string \<Rightarrow> (stmt_ptr \<Rightarrow> string) option" where
  "valueCriteriaFilterSelect = map_of
     [(''id'', idCriteriaFilter), (''publisher'', publisherCriteriaFilter), (''source'', sourceCriteriaFilter)]"

definition valueCriteriaFilterCompare :: "string \<Rightarrow> (string \<Rightarrow> string \<Rightarrow> bool) option" where
  "valueCriteriaFilterCompare = map_of [(''='', \<lambda>a b. a = b), (''!='', \<lambda>a b. a \<noteq> b)]"

definition rangeCriteriaFilterCompare :: "string \<Rightarrow> (int \<Rightarrow> int \<Rightarrow> bool) option" where
  "rangeCriteriaFilterCompare = map_of
     [(''<='', \<lambda>a b. a \<le> b), (''<'', \<lambda>a b. a < b), (''='', \<lambda>a b. a = b),
      (''!='', \<lambda>a b. a \<noteq> b), (''>='', \<lambda>a b. a \<ge> b), (''>'', \<lambda>a b. a > b)]"

definition timestampCriteriaFilter :: "stmt_ptr \<Rightarrow> int" where
  "timestampCriteriaFilter p = Timestamp (p_stmt p)"

definition counterCriteriaFilter :: "stmt_ptr \<Rightarrow> int" where
  "counterCriteriaFilter p = 0"

definition rangeCriteriaFilterSelect :: "string \<Rightarrow> (stmt_ptr \<Rightarrow> int) option" where
  "rangeCriteriaFilterSelect = map_of
     [(''timestamp'', timestampCriteriaFilter), (''counter'', counterCriteriaFilter)]"

definition wkiCriteriaFilter :: "(string list \<Rightarrow> string list) \<Rightarrow> stmt_ptr \<Rightarrow> string list outcome" where
  "wkiCriteriaFilter ord p = obind (StatementRefs (p_stmt p)) (\<lambda>r. Ok (StatementRefSet_List ord r))"

fun indexCriteriaContains :: "string list \<Rightarrow> string \<Rightarrow> bool" where
  "indexCriteriaContains [] val = False"
| "indexCriteriaContains (key # keys) val = (if key = val then True else indexCriteriaContains keys val)"

definition indexCriteriaFilterSelect ::
  "(string list \<Rightarrow> string list) \<Rightarrow> string \<Rightarrow> (stmt_ptr \<Rightarrow> string list outcome) option" where
  "indexCriteriaFilterSelect ord = map_of [(''wki'', wkiCriteriaFilter ord)]"

definition compoundCriteriaAND :: "stmt_ptr \<Rightarrow> StatementFilter \<Rightarrow> StatementFilter \<Rightarrow> bool outcome" where
  "compoundCriteriaAND p left right = obind (left p) (\<lambda>b. if b then right p else Ok False)"

definition compoundCriteriaOR :: "stmt_ptr \<Rightarrow> StatementFilter \<Rightarrow> StatementFilter \<Rightarrow> bool outcome" where
  "compoundCriteriaOR p left right = obind (left p) (\<lambda>b. if b then Ok True else right p)"

definition compoundCriteriaFilters ::
  "string \<Rightarrow> (stmt_ptr \<Rightarrow> StatementFilter \<Rightarrow> StatementFilter \<Rightarrow> bool outcome) option" where
  "compoundCriteriaFilters = map_of [(''AND'', compoundCriteriaAND), (''OR'', compoundCriteriaOR)]"

definition emptyFilter :: StatementFilter where
  "emptyFilter p = Ok True"

text \<open>\<open>ns[len(ns)-1]\<close> panics on the empty string; \<open>ns[:len(ns)-2]\<close> drops the last two bytes.\<close>

definition makeNamespaceFilter :: "Query \<Rightarrow> StatementFilter outcome" where
  "makeNamespaceFilter q =
     (let ns = q_namespace q in
      if ns = ''*'' then Ok emptyFilter
      else if ns = [] then Panic ''index out of range''
      else if last ns = CHR ''*'' then
        (let pre = take (length ns - 2) ns
         in Ok (\<lambda>p. Ok (HasPrefix (Namespace (p_stmt p)) pre)))
      else Ok (\<lambda>p. Ok (Namespace (p_stmt p) = ns)))"

fun makeCriteriaFilterF :: "(string list \<Rightarrow> string list) \<Rightarrow> QueryCriteria \<Rightarrow> StatementFilter outcome" where
  "makeCriteriaFilterF ord (ValueCriteria op sel val) =
     obind (of_option (QueryEvalError (''Unexpected criteria selector: '' @ sel))
              (valueCriteriaFilterSelect sel)) (\<lambda>getf.
     obind (of_option (QueryEvalError (''Unexpected criteria operator: '' @ op))
              (valueCriteriaFilterCompare op)) (\<lambda>cmpf.
     Ok (\<lambda>p. Ok (cmpf (getf p) val))))"
| "makeCriteriaFilterF ord (RangeCriteria op sel val) =
     obind (of_option (QueryEvalError (''Unexpected criteria selector: '' @ sel))
              (rangeCriteriaFilterSelect sel)) (\<lambda>getf.
     obind (of_option (QueryEvalError (''Unexpected criteria range op: '' @ op))
              (rangeCriteriaFilterCompare op)) (\<lambda>cmpf.
     Ok (\<lambda>p. Ok (cmpf (getf p) val))))"
| "makeCriteriaFilterF ord (IndexCriteria sel val) =
     obind (of_option (QueryEvalError (''Unexpected index selector: '' @ sel))
              (indexCriteriaFilterSelect ord sel)) (\<lambda>getf.
     Ok (\<lambda>p. obind (getf p) (\<lambda>keys. Ok (indexCriteriaContains keys val))))"
| "makeCriteriaFilterF ord (CompoundCriteria op l r) =
     obind (of_option (QueryEvalError (''Unexpected criteria combinator: '' @ op))
              (compoundCriteriaFilters op)) (\<lambda>comb.
     obind (makeCriteriaFilterF ord l) (\<lambda>left.
     obind (makeCriteriaFilterF ord r) (\<lambda>right.
     Ok (\<lambda>p. comb p left right))))"
| "makeCriteriaFilterF ord (NegatedCriteria e) =
     obind (makeCriteriaFilterF ord e) (\<lambda>cf. Ok (\<lambda>p. obind (cf p) (\<lambda>b. Ok (\<not> b))))"

definition makeCriteriaFilter :: "(string list \<Rightarrow> string list) \<Rightarrow> Query \<Rightarrow> StatementFilter outcome" where
  "makeCriteriaFilter ord q =
     (case q_criteria q of None \<Rightarrow> Ok emptyFilter | Some c \<Rightarrow> makeCriteriaFilterF ord c)"

section \<open>Selectors\<close>

definition simpleSelectorAll :: StatementSelector where
  "simpleSelectorAll p = Ok (VStmt p)"

definition simpleSelectorBody :: StatementSelector where
  "simpleSelectorBody p = Ok (VBody (map_option (\<lambda>b. (p_body p, b)) (Body (p_stmt p))))"

definition simpleSelectorId :: StatementSelector where
  "simpleSelectorId p = Ok (VString (Id (p_stmt p)))"

definition simpleSelectorPublisher :: StatementSelector where
  "simpleSelectorPublisher p = Ok (VString (Publisher (p_stmt p)))"

definition simpleSelectorNamespace :: StatementSelector where
  "simpleSelectorNamespace p = Ok (VString (Namespace (p_stmt p)))"

definition simpleSelectorSource :: StatementSelector where
  "simpleSelectorSource p = obind (StatementSource (p_stmt p)) (\<lambda>s. Ok (VString s))"

definition simpleSelectorTimestamp :: StatementSelector where
  "simpleSelectorTimestamp p = Ok (VInt64 (Timestamp (p_stmt p)))"

text \<open>\<open>return 0\<close> in a function that returns an \<open>interface{}\<close>: the constant has type \<open>int\<close>.\<close>

definition simpleSelectorCounter :: StatementSelector where
  "simpleSelectorCounter p = Ok (VInt 0)"

definition simpleSelectors :: "string \<Rightarrow> StatementSelector option" where
  "simpleSelectors = map_of
     [(''*'', simpleSelectorAll), (''body'', simpleSelectorBody), (''id'', simpleSelectorId),
      (''publisher'', simpleSelectorPublisher), (''namespace'', simpleSelectorNamespace),
      (''source'', simpleSelectorSource), (''timestamp'', simpleSelectorTimestamp),
      (''counter'', simpleSelectorCounter)]"

section \<open>Function selectors\<close>

definition countFunctionSelector :: "gvalue list \<Rightarrow> gvalue list outcome" where
  "countFunctionSelector res = Ok [VInt (int (length res))]"

text \<open>The type assertion \<open>val.(int64)\<close>.\<close>

fun assert_int64 :: "gvalue \<Rightarrow> int outcome" where
  "assert_int64 (VInt64 i) = Ok i"
| "assert_int64 _ = Panic ''interface conversion: interface is not int64''"

fun minFunctionSelector :: "gvalue list \<Rightarrow> gvalue list outcome" where
  "minFunctionSelector [] = Ok [VInt 0]"
| "minFunctionSelector (v # vs) =
     obind (assert_int64 v) (\<lambda>m0.
     obind (ofold (\<lambda>m val. obind (assert_int64 val) (\<lambda>xval. Ok (if xval < m then xval else m))) m0 vs) (\<lambda>m.
     Ok [VInt64 m]))"

fun maxFunctionSelector :: "gvalue list \<Rightarrow> gvalue list outcome" where
  "maxFunctionSelector [] = Ok [VInt 0]"
| "maxFunctionSelector (v # vs) =
     obind (assert_int64 v) (\<lambda>m0.
     obind (ofold (\<lambda>m val. obind (assert_int64 val) (\<lambda>xval. Ok (if xval > m then xval else m))) m0 vs) (\<lambda>m.
     Ok [VInt64 m]))"

definition functionSelectors :: "string \<Rightarrow> (gvalue list \<Rightarrow> gvalue list outcome) option" where
  "functionSelectors = map_of
     [(''COUNT'', countFunctionSelector), (''MIN'', minFunctionSelector), (''MAX'', maxFunctionSelector)]"

definition functionAllowedSelectors :: "string \<Rightarrow> string list option" where
  "functionAllowedSelectors = map_of
     [(''COUNT'', [''*'', ''body'', ''id'', ''publisher'', ''namespace'', ''source'', ''timestamp'', ''counter'']),
      (''MIN'', [''timestamp'', ''counter'']), (''MAX'', [''timestamp'', ''counter''])]"

definition checkFunctionSelector :: "string \<Rightarrow> string \<Rightarrow> bool" where
  "checkFunctionSelector op sel =
     (case functionAllowedSelectors op of None \<Rightarrow> False | Some valid \<Rightarrow> sel \<in> set valid)"

section \<open>Result sets\<close>

text \<open>
  The three implementations of the interface \<open>QueryResultSet\<close>. A Go map used as a set
  (\<open>rset\<close> of a simple result set) is the list of its keys; the fields are in the order of the
  Go structs. A function result set wraps a simple one.
\<close>

datatype result_set =
    SimpleResultSet "gvalue list" "gvalue list" StatementSelector int
  | CompoundResultSet "gvalue list" StatementSelector int
  | FunctionResultSet result_set "gvalue list \<Rightarrow> gvalue list outcome" "gvalue list"

definition makeSimpleResultSet :: "StatementSelector \<Rightarrow> int \<Rightarrow> result_set" where
  "makeSimpleResultSet getf limit = SimpleResultSet [] [] getf limit"

definition makeCompoundStatementSelector :: "string list \<Rightarrow> StatementSelector list \<Rightarrow> StatementSelector" where
  "makeCompoundStatementSelector sels getfs p =
     obind (ofold (\<lambda>val (sel, getf). obind (getf p) (\<lambda>v. Ok (val(sel \<mapsto> v)))) Map.empty (zip sels getfs))
       (\<lambda>val. Ok (VMap val))"

definition makeCompoundResultSet :: "string list \<Rightarrow> StatementSelector list \<Rightarrow> int \<Rightarrow> result_set" where
  "makeCompoundResultSet sels getfs limit =
     CompoundResultSet [] (makeCompoundStatementSelector sels getfs) limit"

definition makeFunctionResultSet ::
  "(gvalue list \<Rightarrow> gvalue list outcome) \<Rightarrow> StatementSelector \<Rightarrow> int \<Rightarrow> result_set" where
  "makeFunctionResultSet fn getf limit = FunctionResultSet (makeSimpleResultSet getf limit) fn []"

fun rs_begin :: "result_set \<Rightarrow> result_set" where
  "rs_begin (SimpleResultSet rset res getf limit) = SimpleResultSet rset res getf limit"
| "rs_begin (CompoundResultSet rset getf limit) = CompoundResultSet [] getf limit"
| "rs_begin (FunctionResultSet rs fn res) = FunctionResultSet (rs_begin rs) fn res"

fun rs_add :: "result_set \<Rightarrow> stmt_ptr \<Rightarrow> result_set outcome" where
  "rs_add (SimpleResultSet rset res getf limit) p =
     (if limit = 0 \<or> int (length rset) < limit
      then obind (getf p) (\<lambda>v. Ok (SimpleResultSet (set_add v rset) res getf limit))
      else Ok (SimpleResultSet rset res getf limit))"
| "rs_add (CompoundResultSet rset getf limit) p =
     obind (getf p) (\<lambda>v. Ok (CompoundResultSet (rset @ [v]) getf limit))"
| "rs_add (FunctionResultSet rs fn res) p = obind (rs_add rs p) (\<lambda>rs'. Ok (FunctionResultSet rs' fn res))"

fun rs_result :: "result_set \<Rightarrow> gvalue list" where
  "rs_result (SimpleResultSet rset res getf limit) = res"
| "rs_result (CompoundResultSet rset getf limit) = rset"
| "rs_result (FunctionResultSet rs fn res) = res"

fun rs_end :: "(gvalue list \<Rightarrow> gvalue list) \<Rightarrow> result_set \<Rightarrow> result_set outcome" where
  "rs_end ord (SimpleResultSet rset res getf limit) = Ok (SimpleResultSet [] (ord rset) getf limit)"
| "rs_end ord (CompoundResultSet rset getf limit) = Ok (CompoundResultSet rset getf limit)"
| "rs_end ord (FunctionResultSet rs fn res) =
     obind (rs_end ord rs) (\<lambda>rs'. obind (fn (rs_result rs')) (\<lambda>r. Ok (FunctionResultSet rs' fn r)))"

definition makeResultSet :: "Query \<Rightarrow> result_set outcome" where
  "makeResultSet q =
     (case q_selector q of
        Some (SimpleSelector sel) \<Rightarrow>
          obind (of_option (QueryEvalError (''Unexpected selector: '' @ sel)) (simpleSelectors sel)) (\<lambda>getf.
          Ok (makeSimpleResultSet getf (q_limit q)))
      | Some (CompoundSelector sels) \<Rightarrow>
          obind (omap (\<lambda>key. of_option (QueryEvalError (''Unexpected selector: '' @ key)) (simpleSelectors key)) sels)
            (\<lambda>getfs. Ok (makeCompoundResultSet sels getfs (q_limit q)))
      | Some (FunctionSelector op sel) \<Rightarrow>
          (if \<not> checkFunctionSelector op sel
           then Err (QueryEvalError (''Illegal selector: '' @ op @ ''('' @ sel @ '')''))
           else
             obind (of_option (QueryEvalError (''Unexpected selector: '' @ op)) (functionSelectors op)) (\<lambda>fn.
             obind (of_option (QueryEvalError (''Unexpected selector: '' @ sel)) (simpleSelectors sel)) (\<lambda>getf.
             Ok (makeFunctionResultSet fn getf (q_limit q)))))
      | None \<Rightarrow> Err (QueryEvalError ''Unexpected selector type: <nil>''))"

section \<open>Evaluation\<close>

definition eval_step :: "StatementFilter \<Rightarrow> StatementFilter \<Rightarrow> result_set \<Rightarrow> stmt_ptr \<Rightarrow> result_set outcome" where
  "eval_step nsfilter cfilter rs p =
     obind (nsfilter p) (\<lambda>b. if b then obind (cfilter p) (\<lambda>c. if c then rs_add rs p else Ok rs) else Ok rs)"

definition EvalQuery ::
  "(string list \<Rightarrow> string list) \<Rightarrow> (gvalue list \<Rightarrow> gvalue list) \<Rightarrow> Query \<Rightarrow> stmt_ptr list \<Rightarrow> gvalue list outcome" where
  "EvalQuery sord vord q stmts =
     obind (makeNamespaceFilter q) (\<lambda>nsfilter.
     obind (makeCriteriaFilter sord q) (\<lambda>cfilter.
     obind (makeResultSet q) (\<lambda>rs.
     obind (ofold (eval_step nsfilter cfilter) (rs_begin rs) stmts) (\<lambda>rs'.
     obind (rs_end vord rs') (\<lambda>rs''.
     Ok (rs_result rs''))))))"

end
