(* ===== verification/EvalCorrect.thy ===== *)
theory EvalCorrect
  imports QueryEval
begin

text \<open>
  What \<open>EvalQuery\<close> returns: the declarative meaning of namespaces and criteria, the contract
  of the interface \<open>QueryResultSet\<close> as a locale with its three implementations as
  interpretations, and the results of simple, compound and function selects.
\<close>

section \<open>The meaning of a query\<close>

definition ns_holds :: "string \<Rightarrow> string \<Rightarrow> bool" where
  "ns_holds ns s =
     (if ns = ''*'' then True
      else if last ns = CHR ''*'' then HasPrefix s (take (length ns - 2) ns)
      else s = ns)"

definition value_op :: "string \<Rightarrow> string \<Rightarrow> string \<Rightarrow> bool" where
  "value_op op a b = (if op = ''='' then a = b else a \<noteq> b)"

definition range_op :: "string \<Rightarrow> int \<Rightarrow> int \<Rightarrow> bool" where
  "range_op op a b =
     (if op = ''<='' then a \<le> b else if op = ''<'' then a < b else if op = ''='' then a = b
      else if op = ''!='' then a \<noteq> b else if op = ''>='' then b \<le> a else b < a)"

fun crit_holds :: "QueryCriteria \<Rightarrow> statement \<Rightarrow> bool" where
  "crit_holds (ValueCriteria op sel val) st =
     value_op op (if sel = ''id'' then Id st else Publisher st) val"
| "crit_holds (RangeCriteria op sel val) st =
     range_op op (if sel = ''timestamp'' then Timestamp st else 0) val"
| "crit_holds (IndexCriteria sel val) st = (val \<in> set (refs_of st))"
| "crit_holds (CompoundCriteria op l r) st =
     (if op = ''AND'' then crit_holds l st \<and> crit_holds r st else crit_holds l st \<or> crit_holds r st)"
| "crit_holds (NegatedCriteria e) st = (\<not> crit_holds e st)"

definition query_holds :: "Query \<Rightarrow> stmt_ptr \<Rightarrow> bool" where
  "query_holds q p =
     (ns_holds (q_namespace q) (Namespace (p_stmt p)) \<and>
      (case q_criteria q of None \<Rightarrow> True | Some c \<Rightarrow> crit_holds c (p_stmt p)))"

definition matching :: "Query \<Rightarrow> stmt_ptr list \<Rightarrow> stmt_ptr list" where
  "matching q stmts = filter (query_holds q) stmts"

text \<open>The value a selector that returns extracts.\<close>

definition ok_value :: "StatementSelector \<Rightarrow> stmt_ptr \<Rightarrow> gvalue" where
  "ok_value getf p = (case getf p of Ok v \<Rightarrow> v | _ \<Rightarrow> VInt 0)"

definition sel_value :: "string \<Rightarrow> stmt_ptr \<Rightarrow> gvalue" where
  "sel_value sel p = (case simpleSelectors sel of Some getf \<Rightarrow> ok_value getf p | None \<Rightarrow> VInt 0)"

section \<open>Filters\<close>

lemma makeNamespaceFilter_Ok:
  "q_namespace q \<noteq> [] \<Longrightarrow>
   makeNamespaceFilter q = Ok (\<lambda>p. Ok (ns_holds (q_namespace q) (Namespace (p_stmt p))))"
  by (simp add: makeNamespaceFilter_def ns_holds_def Let_def emptyFilter_def fun_eq_iff)

lemma indexCriteriaContains_iff: "indexCriteriaContains keys val \<longleftrightarrow> val \<in> set keys"
  by (induction keys) auto

lemmas filter_tables =
  valueCriteriaFilterSelect_def valueCriteriaFilterCompare_def rangeCriteriaFilterSelect_def
  rangeCriteriaFilterCompare_def indexCriteriaFilterSelect_def compoundCriteriaFilters_def

lemma wkiCriteriaFilter_Ok:
  assumes "map_order ord" "bodies_set (p_stmt p)"
  obtains keys where "wkiCriteriaFilter ord p = Ok keys" "set keys = set (refs_of (p_stmt p))"
proof -
  from StatementRefs_Ok [OF assms(2)] obtain rs where
    "StatementRefs (p_stmt p) = Ok rs" "set rs = set (refs_of (p_stmt p))" by metis
  then show ?thesis
    using that map_order_set [OF assms(1)] by (simp add: wkiCriteriaFilter_def StatementRefSet_List_def)
qed

lemma makeCriteriaFilterF_Ok:
  assumes "wf_criteria c" and ord: "map_order ord"
  shows "\<exists>f. makeCriteriaFilterF ord c = Ok f \<and>
    (\<forall>p. bodies_set (p_stmt p) \<longrightarrow> f p = Ok (crit_holds c (p_stmt p)))"
  using assms(1)
proof (induction c)
  case (ValueCriteria op sel val)
  then show ?case
    by (auto simp: filter_tables value_op_def idCriteriaFilter_def publisherCriteriaFilter_def
        sourceCriteriaFilter_def)
next
  case (RangeCriteria op sel val)
  then show ?case
    by (auto simp: filter_tables range_op_def timestampCriteriaFilter_def counterCriteriaFilter_def)
next
  case (IndexCriteria sel val)
  have "obind (wkiCriteriaFilter ord p) (\<lambda>keys. Ok (indexCriteriaContains keys val)) =
      Ok (val \<in> set (refs_of (p_stmt p)))" if bodies: "bodies_set (p_stmt p)" for p
  proof -
    obtain keys where "wkiCriteriaFilter ord p = Ok keys" "set keys = set (refs_of (p_stmt p))"
      using wkiCriteriaFilter_Ok [OF ord bodies] .
    then show ?thesis by (simp add: indexCriteriaContains_iff)
  qed
  with IndexCriteria show ?case by (simp add: filter_tables)
next
  case (CompoundCriteria op l r)
  then obtain f g where
    "makeCriteriaFilterF ord l = Ok f" "\<And>p. bodies_set (p_stmt p) \<Longrightarrow> f p = Ok (crit_holds l (p_stmt p))"
    "makeCriteriaFilterF ord r = Ok g" "\<And>p. bodies_set (p_stmt p) \<Longrightarrow> g p = Ok (crit_holds r (p_stmt p))"
    by auto
  with CompoundCriteria.prems show ?case
    by (auto simp: filter_tables compoundCriteriaAND_def compoundCriteriaOR_def)
next
  case (NegatedCriteria e)
  then show ?case by fastforce
qed

lemma makeCriteriaFilter_Ok:
  assumes "pred_option wf_criteria (q_criteria q)" "map_order ord"
  obtains f where "makeCriteriaFilter ord q = Ok f"
    "\<And>p. bodies_set (p_stmt p) \<Longrightarrow>
       f p = Ok (case q_criteria q of None \<Rightarrow> True | Some c \<Rightarrow> crit_holds c (p_stmt p))"
proof (cases "q_criteria q")
  case None
  then show ?thesis using that [of emptyFilter] by (simp add: makeCriteriaFilter_def emptyFilter_def)
next
  case (Some c)
  then show ?thesis
    using assms makeCriteriaFilterF_Ok [of c ord] that by (auto simp: makeCriteriaFilter_def)
qed

lemma eval_loop:
  assumes "\<And>p. nsf p = Ok (a p)" "\<And>p. bodies_set (p_stmt p) \<Longrightarrow> cf p = Ok (b p)"
    and "\<forall>p \<in> set stmts. bodies_set (p_stmt p)"
  shows "ofold (eval_step nsf cf) rs stmts = ofold rs_add rs (filter (\<lambda>p. a p \<and> b p) stmts)"
  using assms(3) by (induction stmts arbitrary: rs) (auto simp: eval_step_def assms)

text \<open>
  For a well-formed query over statements with bodies, \<open>EvalQuery\<close> feeds exactly the matching
  statements to its result set.
\<close>

lemma EvalQuery_matching:
  assumes "wf_query q" "map_order sord" "\<forall>p \<in> set stmts. bodies_set (p_stmt p)"
  shows "EvalQuery sord vord q stmts =
    obind (makeResultSet q) (\<lambda>rs.
    obind (ofold rs_add (rs_begin rs) (matching q stmts)) (\<lambda>rs'.
    obind (rs_end vord rs') (\<lambda>r. Ok (rs_result r))))"
proof -
  have "q_namespace q \<noteq> []" using assms(1) by (auto simp: wf_query_def dest: wf_namespace_nonempty)
  note ns = makeNamespaceFilter_Ok [OF this]
  from assms(1) have "pred_option wf_criteria (q_criteria q)" by (simp add: wf_query_def)
  then obtain cf where cf: "makeCriteriaFilter sord q = Ok cf"
    "\<And>p. bodies_set (p_stmt p) \<Longrightarrow>
       cf p = Ok (case q_criteria q of None \<Rightarrow> True | Some c \<Rightarrow> crit_holds c (p_stmt p))"
    using makeCriteriaFilter_Ok assms(2) by blast
  have "matching q stmts = filter (\<lambda>p. ns_holds (q_namespace q) (Namespace (p_stmt p)) \<and>
      (case q_criteria q of None \<Rightarrow> True | Some c \<Rightarrow> crit_holds c (p_stmt p))) stmts"
    unfolding matching_def query_holds_def ..
  with eval_loop [OF _ cf(2) assms(3)] show ?thesis
    by (simp add: EvalQuery_def ns cf(1))
qed

section \<open>The contract of QueryResultSet\<close>

text \<open>
  A client adds statements one by one and reads the result at the end. \<open>holds rs vs\<close> says that
  the result set has kept the values \<open>vs\<close>; \<open>keep\<close> is how one more value is kept, \<open>answer\<close>
  what the result is. \<open>good\<close> are the statements the selector returns on.
\<close>

locale query_result_set =
  fixes rbegin :: "'rs \<Rightarrow> 'rs"
    and radd :: "'rs \<Rightarrow> stmt_ptr \<Rightarrow> 'rs outcome"
    and rend :: "'rs \<Rightarrow> 'rs outcome"
    and rresult :: "'rs \<Rightarrow> gvalue list"
    and holds :: "'rs \<Rightarrow> gvalue list \<Rightarrow> bool"
    and keep :: "gvalue list \<Rightarrow> gvalue \<Rightarrow> gvalue list"
    and val :: "stmt_ptr \<Rightarrow> gvalue"
    and good :: "stmt_ptr \<Rightarrow> bool"
    and answer :: "gvalue list \<Rightarrow> gvalue list outcome"
  assumes begin_holds: "holds rs [] \<Longrightarrow> holds (rbegin rs) []"
    and add_holds: "holds rs vs \<Longrightarrow> good p \<Longrightarrow> \<exists>rs'. radd rs p = Ok rs' \<and> holds rs' (keep vs (val p))"
    and end_answers: "holds rs vs \<Longrightarrow> obind (rend rs) (\<lambda>r. Ok (rresult r)) = answer vs"
begin

lemma adds_hold:
  "holds rs vs \<Longrightarrow> \<forall>p \<in> set ps. good p \<Longrightarrow>
   \<exists>rs'. ofold radd rs ps = Ok rs' \<and> holds rs' (foldl keep vs (map val ps))"
proof (induction ps arbitrary: rs vs)
  case Nil
  then show ?case by simp
next
  case (Cons p ps)
  then obtain rs' where "radd rs p = Ok rs'" "holds rs' (keep vs (val p))"
    using add_holds by fastforce
  with Cons show ?case by auto
qed

lemma collects:
  assumes "holds rs []" "\<forall>p \<in> set ps. good p"
  shows "obind (ofold radd (rbegin rs) ps) (\<lambda>rs'. obind (rend rs') (\<lambda>r. Ok (rresult r))) =
    answer (foldl keep [] (map val ps))"
  using adds_hold [OF begin_holds [OF assms(1)] assms(2)] end_answers by auto

end

definition keep_limited :: "int \<Rightarrow> gvalue list \<Rightarrow> gvalue \<Rightarrow> gvalue list" where
  "keep_limited limit vs v = (if limit = 0 \<or> int (length vs) < limit then set_add v vs else vs)"

definition selects :: "StatementSelector \<Rightarrow> stmt_ptr \<Rightarrow> bool" where
  "selects getf p \<longleftrightarrow> (\<exists>v. getf p = Ok v)"

fun simple_holds :: "StatementSelector \<Rightarrow> int \<Rightarrow> result_set \<Rightarrow> gvalue list \<Rightarrow> bool" where
  "simple_holds getf limit (SimpleResultSet rset res g l) vs = (rset = vs \<and> g = getf \<and> l = limit)"
| "simple_holds getf limit _ vs = False"

fun compound_holds :: "StatementSelector \<Rightarrow> result_set \<Rightarrow> gvalue list \<Rightarrow> bool" where
  "compound_holds getf (CompoundResultSet rset g l) vs = (rset = vs \<and> g = getf)"
| "compound_holds getf _ vs = False"

fun function_holds ::
  "StatementSelector \<Rightarrow> int \<Rightarrow> (gvalue list \<Rightarrow> gvalue list outcome) \<Rightarrow> result_set \<Rightarrow> gvalue list \<Rightarrow> bool" where
  "function_holds getf limit fn (FunctionResultSet rs f res) vs = (simple_holds getf limit rs vs \<and> f = fn)"
| "function_holds getf limit fn _ vs = False"

lemma simple_holds_iff:
  "simple_holds getf limit rs vs \<longleftrightarrow> (\<exists>res. rs = SimpleResultSet vs res getf limit)"
  by (cases rs) auto

lemma compound_holds_iff:
  "compound_holds getf rs vs \<longleftrightarrow> (\<exists>l. rs = CompoundResultSet vs getf l)"
  by (cases rs) auto

lemma function_holds_iff:
  "function_holds getf limit fn rs vs \<longleftrightarrow>
   (\<exists>res r. rs = FunctionResultSet (SimpleResultSet vs res getf limit) fn r)"
  by (cases rs) (auto simp: simple_holds_iff)

interpretation simple_rs: query_result_set rs_begin rs_add "rs_end ord" rs_result
  "simple_holds getf limit" "keep_limited limit" "ok_value getf" "selects getf" "\<lambda>vs. Ok (ord vs)"
  for ord getf limit
  by unfold_locales
    (auto simp: simple_holds_iff keep_limited_def ok_value_def selects_def)

interpretation compound_rs: query_result_set rs_begin rs_add "rs_end ord" rs_result
  "compound_holds getf" "\<lambda>vs v. vs @ [v]" "ok_value getf" "selects getf" Ok
  for ord getf
  by unfold_locales (auto simp: compound_holds_iff ok_value_def selects_def)

interpretation function_rs: query_result_set rs_begin rs_add "rs_end ord" rs_result
  "function_holds getf limit fn" "keep_limited limit" "ok_value getf" "selects getf" "\<lambda>vs. fn (ord vs)"
  for ord getf limit fn
  by unfold_locales
    (auto simp: function_holds_iff keep_limited_def ok_value_def selects_def obind_assoc)

section \<open>Values kept under a limit\<close>

lemma keep_limited_foldl:
  "distinct vs \<Longrightarrow> distinct (foldl (keep_limited limit) vs xs) \<and>
   set vs \<subseteq> set (foldl (keep_limited limit) vs xs) \<and>
   set (foldl (keep_limited limit) vs xs) \<subseteq> set vs \<union> set xs"
proof (induction xs arbitrary: vs)
  case (Cons x xs)
  have "distinct (keep_limited limit vs x)" "set vs \<subseteq> set (keep_limited limit vs x)"
    "set (keep_limited limit vs x) \<subseteq> insert x (set vs)"
    using Cons.prems by (auto simp: keep_limited_def)
  then show ?case using Cons.IH [of "keep_limited limit vs x"] by auto
qed simp

lemma keep_unlimited_set: "set (foldl (keep_limited 0) vs xs) = set vs \<union> set xs"
  by (induction xs arbitrary: vs) (auto simp: keep_limited_def)

lemma keep_limited_full: "limit \<noteq> 0 \<Longrightarrow> int (length vs) \<ge> limit \<Longrightarrow> foldl (keep_limited limit) vs xs = vs"
  by (induction xs) (auto simp: keep_limited_def)

lemma keep_limited_length:
  assumes "0 < limit" "distinct vs" "int (length vs) \<le> limit"
  shows "int (length (foldl (keep_limited limit) vs xs)) = min limit (int (card (set vs \<union> set xs)))"
  using assms
proof (induction xs arbitrary: vs)
  case Nil
  then show ?case by (simp add: distinct_card)
next
  case (Cons x xs)
  show ?case
  proof (cases "int (length vs) < limit")
    case True
    then have keep: "keep_limited limit vs x = set_add x vs" by (simp add: keep_limited_def)
    have "int (length (set_add x vs)) \<le> limit" using True by (simp add: set_add_def)
    with Cons True show ?thesis by (simp add: keep)
  next
    case False
    then have full: "int (length vs) = limit" using Cons.prems by simp
    have "card (set vs) \<le> card (set vs \<union> set (x # xs))" by (intro card_mono) auto
    then have "limit \<le> int (card (set vs \<union> set (x # xs)))"
      using full Cons.prems(2) by (simp add: distinct_card)
    moreover have "foldl (keep_limited limit) vs (x # xs) = vs"
      using full Cons.prems(1) by (intro keep_limited_full) auto
    ultimately show ?thesis using full by simp
  qed
qed

lemma keep_limited_nonempty:
  assumes "xs \<noteq> []" "0 \<le> limit"
  shows "foldl (keep_limited limit) [] xs \<noteq> []"
proof -
  obtain x ys where xs: "xs = x # ys" using assms by (cases xs) auto
  have "x \<in> set (keep_limited limit [] x)" using assms by (auto simp: keep_limited_def)
  then have "x \<in> set (foldl (keep_limited limit) (keep_limited limit [] x) ys)"
    using keep_limited_foldl [of "keep_limited limit [] x" limit ys] by (auto simp: keep_limited_def)
  then show ?thesis by (auto simp: xs)
qed

section \<open>Selectors\<close>

lemma simpleSelectors_selects:
  assumes "s \<in> set simple_ops"
  obtains getf where "simpleSelectors s = Some getf" "ok_value getf = sel_value s"
    "\<And>p. bodies_set (p_stmt p) \<Longrightarrow> selects getf p"
proof -
  from assms have
    "\<exists>getf. simpleSelectors s = Some getf \<and> (\<forall>p. bodies_set (p_stmt p) \<longrightarrow> selects getf p)"
    by (auto simp: simple_ops_def simpleSelectors_def selects_def simpleSelectorAll_def
        simpleSelectorBody_def simpleSelectorId_def simpleSelectorPublisher_def
        simpleSelectorNamespace_def simpleSelectorSource_def simpleSelectorTimestamp_def
        simpleSelectorCounter_def dest: StatementSource_Ok)
  then obtain getf where "simpleSelectors s = Some getf"
    "\<forall>p. bodies_set (p_stmt p) \<longrightarrow> selects getf p" by blast
  then show ?thesis by (intro that) (auto simp: sel_value_def fun_eq_iff)
qed

lemma matching_bodies:
  "\<forall>p \<in> set stmts. bodies_set (p_stmt p) \<Longrightarrow> \<forall>p \<in> set (matching q stmts). bodies_set (p_stmt p)"
  by (auto simp: matching_def)

lemma EvalQuery_simple:
  assumes "wf_query q" "map_order sord" "\<forall>p \<in> set stmts. bodies_set (p_stmt p)"
    and sel: "q_selector q = Some (SimpleSelector s)"
  shows "EvalQuery sord vord q stmts =
    Ok (vord (foldl (keep_limited (q_limit q)) [] (map (sel_value s) (matching q stmts))))"
proof -
  from assms(1) sel have "s \<in> set simple_ops" by (auto dest: wf_query_wf_selector)
  then obtain getf where g: "simpleSelectors s = Some getf" "ok_value getf = sel_value s"
    "\<And>p. bodies_set (p_stmt p) \<Longrightarrow> selects getf p" using simpleSelectors_selects by blast
  have "\<forall>p \<in> set (matching q stmts). selects getf p"
    using matching_bodies [OF assms(3)] g(3) by blast
  then show ?thesis
    using simple_rs.collects [of getf "q_limit q" "makeSimpleResultSet getf (q_limit q)"]
    by (simp add: EvalQuery_matching [OF assms(1-3)] makeResultSet_def sel g(1)
        makeSimpleResultSet_def flip: g(2))
qed

lemma EvalQuery_function:
  assumes "wf_query q" "map_order sord" "\<forall>p \<in> set stmts. bodies_set (p_stmt p)"
    and sel: "q_selector q = Some (FunctionSelector op s)"
    and ok: "checkFunctionSelector op s" "functionSelectors op = Some fn"
  shows "EvalQuery sord vord q stmts =
    fn (vord (foldl (keep_limited (q_limit q)) [] (map (sel_value s) (matching q stmts))))"
proof -
  from assms(1) sel have "s \<in> set simple_ops" by (auto dest: wf_query_wf_selector)
  then obtain getf where g: "simpleSelectors s = Some getf" "ok_value getf = sel_value s"
    "\<And>p. bodies_set (p_stmt p) \<Longrightarrow> selects getf p" using simpleSelectors_selects by blast
  have "\<forall>p \<in> set (matching q stmts). selects getf p"
    using matching_bodies [OF assms(3)] g(3) by blast
  then show ?thesis
    using function_rs.collects [of getf "q_limit q" fn "makeFunctionResultSet fn getf (q_limit q)"]
    by (simp add: EvalQuery_matching [OF assms(1-3)] makeResultSet_def sel g(1) ok
        makeSimpleResultSet_def makeFunctionResultSet_def flip: g(2))
qed

section \<open>Compound selectors\<close>

lemma compound_fold:
  assumes "list_all2 (\<lambda>s f. f p = Ok (sel_value s p)) sels getfs"
  shows "ofold (\<lambda>val (sel, getf). obind (getf p) (\<lambda>v. Ok (val(sel \<mapsto> v)))) m0 (zip sels getfs) =
    Ok (\<lambda>s. if s \<in> set sels then Some (sel_value s p) else m0 s)"
  using assms
proof (induction sels getfs arbitrary: m0 rule: list_all2_induct)
  case Nil
  then show ?case by simp
next
  case (Cons s sels f getfs)
  have "(\<lambda>s'. if s' \<in> set sels then Some (sel_value s' p) else (m0(s \<mapsto> sel_value s p)) s') =
      (\<lambda>s'. if s' \<in> set (s # sels) then Some (sel_value s' p) else m0 s')"
    by (auto simp: fun_eq_iff)
  with Cons.IH [of "m0(s \<mapsto> sel_value s p)"] Cons.hyps(1) show ?case by simp
qed

definition compound_value :: "string list \<Rightarrow> stmt_ptr \<Rightarrow> gvalue" where
  "compound_value sels p = VMap (\<lambda>s. if s \<in> set sels then Some (sel_value s p) else None)"

lemma compound_selector_Ok:
  assumes "set sels \<subseteq> set simple_ops"
  obtains getfs where
    "omap (\<lambda>key. of_option (QueryEvalError (''Unexpected selector: '' @ key)) (simpleSelectors key)) sels = Ok getfs"
    "\<forall>p. bodies_set (p_stmt p) \<longrightarrow> makeCompoundStatementSelector sels getfs p = Ok (compound_value sels p)"
proof -
  define getfs where "getfs = map (\<lambda>s. the (simpleSelectors s)) sels"
  have one: "simpleSelectors s = Some (the (simpleSelectors s))"
    "bodies_set (p_stmt p) \<Longrightarrow> the (simpleSelectors s) p = Ok (sel_value s p)" if "s \<in> set sels" for s p
  proof -
    have "s \<in> set simple_ops" using that assms by blast
    then obtain getf where "simpleSelectors s = Some getf" "\<And>p. bodies_set (p_stmt p) \<Longrightarrow> selects getf p"
      using simpleSelectors_selects by blast
    then show "simpleSelectors s = Some (the (simpleSelectors s))"
      "bodies_set (p_stmt p) \<Longrightarrow> the (simpleSelectors s) p = Ok (sel_value s p)"
      by (fastforce simp: sel_value_def ok_value_def selects_def)+
  qed
  have "omap (\<lambda>key. of_option (QueryEvalError (''Unexpected selector: '' @ key)) (simpleSelectors key)) sels = Ok getfs"
    unfolding getfs_def using one(1) by (intro omap_total) simp
  moreover have "makeCompoundStatementSelector sels getfs p = Ok (compound_value sels p)"
    if "bodies_set (p_stmt p)" for p
  proof -
    have "list_all2 (\<lambda>s f. f p = Ok (sel_value s p)) sels getfs"
      unfolding getfs_def list.rel_map(2) using one(2) that by (auto intro: list.rel_refl_strong)
    from compound_fold [OF this, of Map.empty] show ?thesis
      by (auto simp: makeCompoundStatementSelector_def compound_value_def)
  qed
  ultimately show ?thesis using that by blast
qed

section \<open>Function selectors\<close>

lemma min_fold:
  "ofold (\<lambda>m val. obind (assert_int64 val) (\<lambda>xval. Ok (if xval < m then xval else m))) m0 (map VInt64 ts) =
   Ok (Min (insert m0 (set ts)))"
proof (induction ts arbitrary: m0)
  case (Cons t ts)
  have "min m0 t = (if t < m0 then t else m0)" by auto
  with Cons show ?case by (cases "ts = []") (auto simp: insert_commute min.assoc)
qed simp

lemma max_fold:
  "ofold (\<lambda>m val. obind (assert_int64 val) (\<lambda>xval. Ok (if xval > m then xval else m))) m0 (map VInt64 ts) =
   Ok (Max (insert m0 (set ts)))"
proof (induction ts arbitrary: m0)
  case (Cons t ts)
  have "max m0 t = (if t > m0 then t else m0)" by auto
  with Cons show ?case by (cases "ts = []") (auto simp: insert_commute max.assoc)
qed simp

lemma set_VInt64: "set vs = VInt64 ` T \<Longrightarrow> \<exists>ts. vs = map VInt64 ts \<and> set ts = T"
proof (intro exI conjI)
  let ?ts = "map (\<lambda>v. case v of VInt64 i \<Rightarrow> i | _ \<Rightarrow> 0) vs"
  assume eq: "set vs = VInt64 ` T"
  then show "vs = map VInt64 ?ts"
    by (auto simp: comp_def intro!: map_idI [symmetric])
  show "set ?ts = T" by (simp add: eq image_image)
qed

lemma minFunctionSelector_Min:
  "set vs = VInt64 ` T \<Longrightarrow> T \<noteq> {} \<Longrightarrow> minFunctionSelector vs = Ok [VInt64 (Min T)]"
proof -
  assume "set vs = VInt64 ` T" "T \<noteq> {}"
  then obtain t ts where "vs = map VInt64 (t # ts)" "T = set (t # ts)"
    by (metis set_VInt64 list.exhaust set_empty)
  then show ?thesis by (simp add: min_fold)
qed

lemma maxFunctionSelector_Max:
  "set vs = VInt64 ` T \<Longrightarrow> T \<noteq> {} \<Longrightarrow> maxFunctionSelector vs = Ok [VInt64 (Max T)]"
proof -
  assume "set vs = VInt64 ` T" "T \<noteq> {}"
  then obtain t ts where "vs = map VInt64 (t # ts)" "T = set (t # ts)"
    by (metis set_VInt64 list.exhaust set_empty)
  then show ?thesis by (simp add: max_fold)
qed

lemma sel_value_timestamp: "sel_value ''timestamp'' = (\<lambda>p. VInt64 (Timestamp (p_stmt p)))"
  by (simp add: sel_value_def simpleSelectors_def ok_value_def simpleSelectorTimestamp_def fun_eq_iff)

lemma sel_value_counter: "sel_value ''counter'' = (\<lambda>p. VInt 0)"
  by (simp add: sel_value_def simpleSelectors_def ok_value_def simpleSelectorCounter_def fun_eq_iff)

section \<open>A sample\<close>

text \<open>A statement, a second one from the same publisher, and queries over them, for the witnesses.\<close>

definition sample_stmt :: "string \<Rightarrow> int \<Rightarrow> statement" where
  "sample_stmt i t = Statement i ''pub'' ''foo.a''
     (Some (StatementBody (Some (BodySimple \<lparr>s_Object = ''obj'', s_Refs = [''w''], s_Tags = [], s_Deps = []\<rparr>))))
     t (Some ''sig'')"

definition sample_stmts :: "stmt_ptr list" where
  "sample_stmts = [\<lparr>p_addr = 1, p_body = 10, p_stmt = sample_stmt ''a'' 7\<rparr>,
                   \<lparr>p_addr = 2, p_body = 20, p_stmt = sample_stmt ''b'' 5\<rparr>]"

definition sample_query :: "QuerySelector \<Rightarrow> int \<Rightarrow> Query" where
  "sample_query sel limit = \<lparr>q_Op = OpSelect, q_namespace = ''foo.*'', q_selector = Some sel,
     q_criteria = Some (IndexCriteria ''wki'' ''w''), q_order = None, q_limit = limit\<rparr>"

lemma sample_query_sel [simp]:
  "q_selector (sample_query sel limit) = Some sel" "q_limit (sample_query sel limit) = limit"
  by (simp_all add: sample_query_def)

lemma sample_query_wf:
  "wf_selector sel \<Longrightarrow> 0 \<le> limit \<Longrightarrow> limit \<le> 100 \<Longrightarrow> wf_query (sample_query sel limit)"
proof -
  have "wf_namespace ''foo.*''"
    unfolding wf_namespace_def
    by (rule disjI2, rule exI [of _ "[''foo'']"], rule exI [of _ True])
      (simp add: ns_render_def word_of_def ns_char_def is_alnum_def is_alpha_def)
  then show "wf_selector sel \<Longrightarrow> 0 \<le> limit \<Longrightarrow> limit \<le> 100 \<Longrightarrow> wf_query (sample_query sel limit)"
    by (simp add: wf_query_def sample_query_def word_of_def wki_char_def is_alnum_def is_alpha_def int64_max_def)
qed

lemma sample_bodies: "\<forall>p \<in> set sample_stmts. bodies_set (p_stmt p)"
  by (simp add: sample_stmts_def sample_stmt_def)

lemma sample_matching: "matching (sample_query sel limit) sample_stmts = sample_stmts"
  by (simp add: matching_def query_holds_def sample_query_def sample_stmts_def sample_stmt_def
      ns_holds_def HasPrefix_code refs_of_def)

section \<open>Properties\<close>

text \<open>C37: a simple select returns, without duplicates, values of the selector on statements that
  match the query's namespace and criteria; without a limit it returns all of them, with a limit
  as many as the limit allows. It does not panic or fail, whatever the order of map iteration.\<close>

theorem eval_simple_select:
  assumes "wf_query q" "map_order sord" "map_order vord"
    and "\<forall>p \<in> set stmts. bodies_set (p_stmt p)"
    and "q_selector q = Some (SimpleSelector s)"
  shows "\<exists>res. EvalQuery sord vord q stmts = Ok res \<and> distinct res \<and>
    set res \<subseteq> sel_value s ` set (matching q stmts) \<and>
    (q_limit q = 0 \<longrightarrow> set res = sel_value s ` set (matching q stmts)) \<and>
    (q_limit q > 0 \<longrightarrow>
      int (length res) = min (q_limit q) (int (card (sel_value s ` set (matching q stmts)))))"
proof -
  let ?kept = "foldl (keep_limited (q_limit q)) [] (map (sel_value s) (matching q stmts))"
  have d: "distinct ?kept" "set ?kept \<subseteq> sel_value s ` set (matching q stmts)"
    using keep_limited_foldl [of "[]" "q_limit q"] by fastforce+
  have "q_limit q = 0 \<Longrightarrow> set ?kept = sel_value s ` set (matching q stmts)"
    by (simp add: keep_unlimited_set)
  moreover have "q_limit q > 0 \<Longrightarrow>
      int (length ?kept) = min (q_limit q) (int (card (sel_value s ` set (matching q stmts))))"
    by (simp add: keep_limited_length)
  ultimately show ?thesis
    using d by (simp add: EvalQuery_simple [OF assms(1,2,4,5)] map_order_set [OF assms(3)]
        map_order_distinct [OF assms(3)] map_order_length [OF assms(3)])
qed

theorem eval_simple_select_witness:
  "\<exists>res. EvalQuery (\<lambda>xs. xs) rev (sample_query (SimpleSelector ''publisher'') 0) sample_stmts = Ok res \<and>
     set res = {VString ''pub''}"
proof -
  have v: "sel_value ''publisher'' p = VString (Publisher (p_stmt p))" for p
    by (simp add: sel_value_def simpleSelectors_def ok_value_def simpleSelectorPublisher_def)
  have "wf_query (sample_query (SimpleSelector ''publisher'') 0)"
    by (rule sample_query_wf) (simp_all add: simple_ops_def)
  from eval_simple_select [OF this map_order_id map_order_rev sample_bodies, of "''publisher''"]
  show ?thesis
    by (simp add: sample_matching v image_def)
      (auto simp: sample_stmts_def sample_stmt_def)
qed

text \<open>\<open>SELECT COUNT(s)\<close> returns the number of distinct values of the selector among the
  matching statements, capped by the limit of the query.\<close>

theorem eval_count:
  assumes "wf_query q" "map_order sord" "map_order vord"
    and "\<forall>p \<in> set stmts. bodies_set (p_stmt p)"
    and "q_selector q = Some (FunctionSelector ''COUNT'' s)"
  shows "EvalQuery sord vord q stmts =
    Ok [VInt (let n = int (card (sel_value s ` set (matching q stmts)))
              in if q_limit q = 0 then n else min (q_limit q) n)]"
proof -
  let ?kept = "foldl (keep_limited (q_limit q)) [] (map (sel_value s) (matching q stmts))"
  have d: "distinct ?kept" using keep_limited_foldl [of "[]" "q_limit q"] by simp
  have "s \<in> set simple_ops" using wf_query_wf_selector [OF assms(1,5)] by simp
  then have "checkFunctionSelector ''COUNT'' s"
    by (simp add: checkFunctionSelector_def functionAllowedSelectors_def simple_ops_def)
  note ev = EvalQuery_function [OF assms(1,2,4,5) this, of countFunctionSelector vord]
  have "int (length ?kept) = (let n = int (card (sel_value s ` set (matching q stmts)))
      in if q_limit q = 0 then n else min (q_limit q) n)"
  proof (cases "q_limit q = 0")
    case True
    then show ?thesis using distinct_card [OF d] by (simp add: keep_unlimited_set)
  next
    case False
    moreover have "0 \<le> q_limit q" using assms(1) by (simp add: wf_query_def)
    ultimately show ?thesis by (simp add: keep_limited_length)
  qed
  then show ?thesis
    using ev map_order_length [OF assms(3) d]
    by (simp add: functionSelectors_def countFunctionSelector_def)
qed

theorem eval_count_witness:
  "EvalQuery (\<lambda>xs. xs) (\<lambda>xs. xs) (sample_query (FunctionSelector ''COUNT'' ''id'') 0) sample_stmts = Ok [VInt 2]"
proof -
  have v: "sel_value ''id'' p = VString (Id (p_stmt p))" for p
    by (simp add: sel_value_def simpleSelectors_def ok_value_def simpleSelectorId_def)
  have "wf_query (sample_query (FunctionSelector ''COUNT'' ''id'') 0)"
    by (rule sample_query_wf) (simp_all add: simple_ops_def function_ops_def)
  from eval_count [OF this map_order_id map_order_id sample_bodies, of "''id''"]
  show ?thesis
    by (simp add: sample_matching v) (simp add: sample_stmts_def sample_stmt_def)
qed

text \<open>\<open>MIN(timestamp)\<close> and \<open>MAX(timestamp)\<close> without a limit return the least and the greatest
  timestamp of the matching statements as an \<open>int64\<close>, and the \<open>int\<close> 0 when none matches.\<close>

theorem eval_min_max_timestamp:
  assumes "wf_query q" "map_order sord" "map_order vord"
    and "\<forall>p \<in> set stmts. bodies_set (p_stmt p)"
    and "q_selector q = Some (FunctionSelector op ''timestamp'')" "op \<in> {''MIN'', ''MAX''}" "q_limit q = 0"
  shows "EvalQuery sord vord q stmts =
    Ok [if matching q stmts = [] then VInt 0
        else VInt64 ((if op = ''MIN'' then Min else Max) ((\<lambda>p. Timestamp (p_stmt p)) ` set (matching q stmts)))]"
proof -
  let ?kept = "foldl (keep_limited 0) [] (map (sel_value ''timestamp'') (matching q stmts))"
  let ?T = "(\<lambda>p. Timestamp (p_stmt p)) ` set (matching q stmts)"
  have ok: "checkFunctionSelector op ''timestamp''"
    using assms(6) by (auto simp: checkFunctionSelector_def functionAllowedSelectors_def)
  have kept: "set (vord ?kept) = VInt64 ` ?T"
    by (simp add: map_order_set [OF assms(3)] keep_unlimited_set sel_value_timestamp image_image)
  have none: "matching q stmts = [] \<Longrightarrow> vord ?kept = []" using kept by simp
  show ?thesis
  proof (cases "op = ''MIN''")
    case True
    then show ?thesis
      using EvalQuery_function [OF assms(1,2,4,5) ok, of minFunctionSelector vord] none
        minFunctionSelector_Min [OF kept] by (auto simp: functionSelectors_def assms(7))
  next
    case False
    with assms(6) have "op = ''MAX''" by simp
    then show ?thesis
      using EvalQuery_function [OF assms(1,2,4,5) ok, of maxFunctionSelector vord] none
        maxFunctionSelector_Max [OF kept] by (auto simp: functionSelectors_def assms(7))
  qed
qed

theorem eval_min_max_timestamp_witness:
  "EvalQuery (\<lambda>xs. xs) rev (sample_query (FunctionSelector ''MIN'' ''timestamp'') 0) sample_stmts = Ok [VInt64 5]"
proof -
  have "wf_query (sample_query (FunctionSelector ''MIN'' ''timestamp'') 0)"
    by (rule sample_query_wf) (simp_all add: simple_ops_def function_ops_def)
  from eval_min_max_timestamp [OF this map_order_id map_order_rev sample_bodies, of "''MIN''"]
  show ?thesis
    by (simp add: sample_matching) (simp add: sample_stmts_def sample_stmt_def)
qed

text \<open>\<open>MIN(counter)\<close> and \<open>MAX(counter)\<close> pass the selector check, but the evaluator panics on
  them as soon as one statement matches: the counter selector returns an \<open>int\<close>, the function
  asserts \<open>int64\<close>.\<close>

theorem eval_min_max_counter_panics:
  assumes "wf_query q" "map_order sord" "map_order vord"
    and "\<forall>p \<in> set stmts. bodies_set (p_stmt p)"
    and "q_selector q = Some (FunctionSelector op ''counter'')" "op \<in> {''MIN'', ''MAX''}"
    and "matching q stmts \<noteq> []"
  shows "checkFunctionSelector op ''counter'' \<and> panics (EvalQuery sord vord q stmts)"
proof -
  let ?kept = "foldl (keep_limited (q_limit q)) [] (map (sel_value ''counter'') (matching q stmts))"
  have ok: "checkFunctionSelector op ''counter''"
    using assms(6) by (auto simp: checkFunctionSelector_def functionAllowedSelectors_def)
  have "?kept \<noteq> []"
    using assms(1,7) by (intro keep_limited_nonempty) (auto simp: wf_query_def)
  moreover have "set ?kept \<subseteq> {VInt 0}"
    using keep_limited_foldl [of "[]" "q_limit q" "map (sel_value ''counter'') (matching q stmts)"]
    by (auto simp: sel_value_counter)
  ultimately obtain vs where vs: "vord ?kept = VInt 0 # vs"
    using map_order_set [OF assms(3), of ?kept] by (cases "vord ?kept") auto
  show ?thesis
    using assms(6) EvalQuery_function [OF assms(1,2,4,5) ok, of minFunctionSelector vord]
      EvalQuery_function [OF assms(1,2,4,5) ok, of maxFunctionSelector vord] vs ok
    by (auto simp: functionSelectors_def)
qed

theorem eval_min_max_counter_panics_witness:
  "panics (EvalQuery (\<lambda>xs. xs) (\<lambda>xs. xs) (sample_query (FunctionSelector ''MIN'' ''counter'') 0) sample_stmts)"
proof -
  have "wf_query (sample_query (FunctionSelector ''MIN'' ''counter'') 0)"
    by (rule sample_query_wf) (simp_all add: simple_ops_def function_ops_def)
  from eval_min_max_counter_panics [OF this map_order_id map_order_id sample_bodies, of "''MIN''"]
  show ?thesis
    by (simp add: sample_matching) (simp add: sample_stmts_def)
qed

lemma EvalQuery_compound:
  assumes "wf_query q" "map_order sord"
    and "\<forall>p \<in> set stmts. bodies_set (p_stmt p)"
    and sel: "q_selector q = Some (CompoundSelector ss)"
  shows "EvalQuery sord vord q stmts = Ok (map (compound_value ss) (matching q stmts))"
proof -
  have "set ss \<subseteq> set simple_ops" using wf_query_wf_selector [OF assms(1) sel] by simp
  then obtain getfs where g:
    "omap (\<lambda>key. of_option (QueryEvalError (''Unexpected selector: '' @ key)) (simpleSelectors key)) ss = Ok getfs"
    "\<forall>p. bodies_set (p_stmt p) \<longrightarrow> makeCompoundStatementSelector ss getfs p = Ok (compound_value ss p)"
    by (rule compound_selector_Ok)
  let ?getf = "makeCompoundStatementSelector ss getfs"
  have b: "\<forall>p \<in> set (matching q stmts). bodies_set (p_stmt p)" by (rule matching_bodies [OF assms(3)])
  then have "\<forall>p \<in> set (matching q stmts). selects ?getf p" using g(2) by (auto simp: selects_def)
  moreover have "compound_holds ?getf (makeCompoundResultSet ss getfs (q_limit q)) []"
    by (simp add: makeCompoundResultSet_def)
  moreover have "map (ok_value ?getf) (matching q stmts) = map (compound_value ss) (matching q stmts)"
    using b g(2) by (auto simp: ok_value_def)
  moreover have "foldl (\<lambda>vs v. vs @ [v]) ([] :: gvalue list) xs = xs" for xs
    by (induction xs rule: rev_induct) auto
  moreover have "makeResultSet q = Ok (makeCompoundResultSet ss getfs (q_limit q))"
    using g(1) by (simp add: makeResultSet_def sel)
  ultimately show ?thesis
    using compound_rs.collects [of ?getf "makeCompoundResultSet ss getfs (q_limit q)" "matching q stmts" vord]
    by (simp add: EvalQuery_matching [OF assms(1-3)] del: obind_eq_Ok)
qed

text \<open>a compound select returns one object per matching statement, in the order of the
  statements, whose fields are the selectors; the limit of the query is ignored.\<close>

theorem eval_compound_select:
  assumes "wf_query q" "map_order sord"
    and "\<forall>p \<in> set stmts. bodies_set (p_stmt p)"
    and sel: "q_selector q = Some (CompoundSelector ss)"
  shows "EvalQuery sord vord q stmts = Ok (map (compound_value ss) (matching q stmts))"
  by (rule EvalQuery_compound [OF assms])

theorem eval_compound_select_witness:
  "\<exists>res. EvalQuery (\<lambda>xs. xs) (\<lambda>xs. xs) (sample_query (CompoundSelector [''id'']) 1) sample_stmts = Ok res \<and>
     length res = 2"
proof -
  have "wf_query (sample_query (CompoundSelector [''id'']) 1)"
    by (rule sample_query_wf) (simp_all add: simple_ops_def)
  from eval_compound_select [OF this map_order_id sample_bodies, of "[''id'']"]
  show ?thesis
    by (simp add: sample_matching) (simp add: sample_stmts_def)
qed

end
