(* ===== verification/QueryParse.thy ===== *)
theory QueryParse
  imports Query
begin

text \<open>
  The query parser: the semantic actions and their stack (\<open>mc/query/parse.go\<close>), the replay of
  the token list (\<open>Execute\<close> in \<open>mc/query/query.peg.go\<close>) and the rules of the grammar
  (\<open>mc/query/query.peg\<close>, compiled to \<open>mc/query/query.peg.go\<close>).
\<close>

section \<open>Parse state and actions (parse.go)\<close>

text \<open>
  The stack is a list of \<open>interface{}\<close> values: strings, criteria and pointers to order
  specifications. \<open>pop\<close> and \<open>top\<close> on an empty stack dereference a nil pointer; the type
  assertions panic on a value of another type.
\<close>

datatype stack_item =
    StStr string
  | StCrit QueryCriteria
  | StOrder QueryOrderSpec

record ParseState =
  ps_query :: Query
  ps_stack :: "stack_item list"
  ps_err :: "go_error option"

definition init_ParseState :: ParseState where
  "init_ParseState = \<lparr>ps_query = empty_query, ps_stack = [], ps_err = None\<rparr>"

definition push :: "stack_item \<Rightarrow> ParseState \<Rightarrow> ParseState" where
  "push val ps = ps\<lparr>ps_stack := val # ps_stack ps\<rparr>"

definition pop :: "ParseState \<Rightarrow> (stack_item \<times> ParseState) outcome" where
  "pop ps = (case ps_stack ps of [] \<Rightarrow> Panic ''nil stack'' | cell # rest \<Rightarrow> Ok (cell, ps\<lparr>ps_stack := rest\<rparr>))"

definition sklen :: "ParseState \<Rightarrow> nat" where
  "sklen ps = length (ps_stack ps)"

fun assert_str :: "stack_item \<Rightarrow> string outcome" where
  "assert_str (StStr s) = Ok s"
| "assert_str _ = Panic ''interface conversion: not string''"

fun assert_crit :: "stack_item \<Rightarrow> QueryCriteria outcome" where
  "assert_crit (StCrit c) = Ok c"
| "assert_crit _ = Panic ''interface conversion: not QueryCriteria''"

fun assert_order :: "stack_item \<Rightarrow> QueryOrderSpec outcome" where
  "assert_order (StOrder sp) = Ok sp"
| "assert_order _ = Panic ''interface conversion: not *QueryOrderSpec''"

definition pop_str :: "ParseState \<Rightarrow> (string \<times> ParseState) outcome" where
  "pop_str ps = obind (pop ps) (\<lambda>(v, ps'). obind (assert_str v) (\<lambda>s. Ok (s, ps')))"

definition pop_crit :: "ParseState \<Rightarrow> (QueryCriteria \<times> ParseState) outcome" where
  "pop_crit ps = obind (pop ps) (\<lambda>(v, ps'). obind (assert_crit v) (\<lambda>c. Ok (c, ps')))"

definition pop_order :: "ParseState \<Rightarrow> (QueryOrderSpec \<times> ParseState) outcome" where
  "pop_order ps = obind (pop ps) (\<lambda>(v, ps'). obind (assert_order v) (\<lambda>sp. Ok (sp, ps')))"

definition setSelectOp :: "ParseState \<Rightarrow> ParseState outcome" where
  "setSelectOp ps = Ok (ps\<lparr>ps_query := (ps_query ps)\<lparr>q_Op := OpSelect\<rparr>\<rparr>)"

definition setDeleteOp :: "ParseState \<Rightarrow> ParseState outcome" where
  "setDeleteOp ps =
     Ok (ps\<lparr>ps_query := (ps_query ps)\<lparr>q_Op := OpDelete, q_selector := Some (SimpleSelector ''id'')\<rparr>\<rparr>)"

definition setSimpleSelector :: "ParseState \<Rightarrow> ParseState outcome" where
  "setSimpleSelector ps = obind (pop_str ps) (\<lambda>(sel, ps').
     Ok (ps'\<lparr>ps_query := (ps_query ps')\<lparr>q_selector := Some (SimpleSelector sel)\<rparr>\<rparr>))"

text \<open>The loop fills the slice from its end, which is consing onto the part filled so far.\<close>

fun pop_strs :: "nat \<Rightarrow> string list \<Rightarrow> ParseState \<Rightarrow> (string list \<times> ParseState) outcome" where
  "pop_strs 0 sels ps = Ok (sels, ps)"
| "pop_strs (Suc n) sels ps = obind (pop_str ps) (\<lambda>(sel, ps'). pop_strs n (sel # sels) ps')"

definition setCompoundSelector :: "ParseState \<Rightarrow> ParseState outcome" where
  "setCompoundSelector ps = obind (pop_strs (sklen ps) [] ps) (\<lambda>(sels, ps').
     Ok (ps'\<lparr>ps_query := (ps_query ps')\<lparr>q_selector := Some (CompoundSelector sels)\<rparr>\<rparr>))"

definition setFunctionSelector :: "ParseState \<Rightarrow> ParseState outcome" where
  "setFunctionSelector ps = obind (pop_str ps) (\<lambda>(sel, ps1). obind (pop_str ps1) (\<lambda>(op, ps2).
     Ok (ps2\<lparr>ps_query := (ps_query ps2)\<lparr>q_selector := Some (FunctionSelector op sel)\<rparr>\<rparr>)))"

definition setNamespace :: "string \<Rightarrow> ParseState \<Rightarrow> ParseState outcome" where
  "setNamespace ns ps = Ok (ps\<lparr>ps_query := (ps_query ps)\<lparr>q_namespace := ns\<rparr>\<rparr>)"

definition setCriteria :: "ParseState \<Rightarrow> ParseState outcome" where
  "setCriteria ps = obind (pop_crit ps) (\<lambda>(c, ps').
     Ok (ps'\<lparr>ps_query := (ps_query ps')\<lparr>q_criteria := Some c\<rparr>\<rparr>))"

definition addValueCriteria :: "ParseState \<Rightarrow> ParseState outcome" where
  "addValueCriteria ps = obind (pop_str ps) (\<lambda>(val, ps1). obind (pop_str ps1) (\<lambda>(op, ps2).
     obind (pop_str ps2) (\<lambda>(sel, ps3). Ok (push (StCrit (ValueCriteria op sel val)) ps3))))"

definition addRangeCriteria :: "ParseState \<Rightarrow> ParseState outcome" where
  "addRangeCriteria ps = obind (pop_str ps) (\<lambda>(vstr, ps1). obind (pop_str ps1) (\<lambda>(op, ps2).
     obind (pop_str ps2) (\<lambda>(sel, ps3).
     (case Atoi vstr of
        Ok val \<Rightarrow> Ok (push (StCrit (RangeCriteria op sel val)) ps3)
      | Err e \<Rightarrow> Ok (push (StCrit (RangeCriteria op sel 0)) (ps3\<lparr>ps_err := Some e\<rparr>))
      | Panic m \<Rightarrow> Panic m))))"

definition addIndexCriteria :: "ParseState \<Rightarrow> ParseState outcome" where
  "addIndexCriteria ps = obind (pop_str ps) (\<lambda>(val, ps1). obind (pop_str ps1) (\<lambda>(sel, ps2).
     Ok (push (StCrit (IndexCriteria sel val)) ps2)))"

definition addCompoundCriteria :: "ParseState \<Rightarrow> ParseState outcome" where
  "addCompoundCriteria ps = obind (pop_crit ps) (\<lambda>(right, ps1). obind (pop_str ps1) (\<lambda>(op, ps2).
     obind (pop_crit ps2) (\<lambda>(left, ps3). Ok (push (StCrit (CompoundCriteria op left right)) ps3))))"

definition addNegatedCriteria :: "ParseState \<Rightarrow> ParseState outcome" where
  "addNegatedCriteria ps = obind (pop_crit ps) (\<lambda>(e, ps'). Ok (push (StCrit (NegatedCriteria e)) ps'))"

fun pop_orders :: "nat \<Rightarrow> QueryOrderSpec list \<Rightarrow> ParseState \<Rightarrow> (QueryOrderSpec list \<times> ParseState) outcome" where
  "pop_orders 0 specs ps = Ok (specs, ps)"
| "pop_orders (Suc n) specs ps = obind (pop_order ps) (\<lambda>(sp, ps'). pop_orders n (sp # specs) ps')"

definition setOrder :: "ParseState \<Rightarrow> ParseState outcome" where
  "setOrder ps = obind (pop_orders (sklen ps) [] ps) (\<lambda>(specs, ps').
     Ok (ps'\<lparr>ps_query := (ps_query ps')\<lparr>q_order := Some specs\<rparr>\<rparr>))"

definition addOrderSelector :: "ParseState \<Rightarrow> ParseState outcome" where
  "addOrderSelector ps = obind (pop_str ps) (\<lambda>(sel, ps'). Ok (push (StOrder \<lparr>o_sel = sel, o_dir = []\<rparr>) ps'))"

text \<open>The assignment through the pointer on top of the stack: no other reference to it exists.\<close>

definition setOrderDir :: "ParseState \<Rightarrow> ParseState outcome" where
  "setOrderDir ps = obind (pop_str ps) (\<lambda>(dir, ps1). obind (pop_order ps1) (\<lambda>(sp, ps2).
     Ok (push (StOrder (sp\<lparr>o_dir := dir\<rparr>)) ps2)))"

definition setLimit :: "string \<Rightarrow> ParseState \<Rightarrow> ParseState outcome" where
  "setLimit x ps =
     (case Atoi x of
        Ok lim \<Rightarrow> Ok (ps\<lparr>ps_query := (ps_query ps)\<lparr>q_limit := lim\<rparr>\<rparr>)
      | Err e \<Rightarrow> Ok (ps\<lparr>ps_query := (ps_query ps)\<lparr>q_limit := 0\<rparr>, ps_err := Some e\<rparr>)
      | Panic m \<Rightarrow> Panic m)"

section \<open>Tokens and Execute (query.peg.go)\<close>

text \<open>
  Of the token tree only the text captures and the actions matter to \<open>Execute\<close>; a capture
  token stands for the text between its positions. \<open>APush\<close> is the action \<open>p.push(text)\<close>.
\<close>

datatype action =
    ASetSelectOp | ASetDeleteOp | ASetSimpleSelector | ASetCompoundSelector | ASetFunctionSelector
  | APush | ASetNamespace | ASetCriteria | AAddCompoundCriteria | AAddNegatedCriteria
  | AAddValueCriteria | AAddRangeCriteria | AAddIndexCriteria
  | ASetOrder | AAddOrderSelector | ASetOrderDir | ASetLimit

datatype token = PegText string | Act action

fun run_action :: "action \<Rightarrow> string \<Rightarrow> ParseState \<Rightarrow> ParseState outcome" where
  "run_action ASetSelectOp text ps = setSelectOp ps"
| "run_action ASetDeleteOp text ps = setDeleteOp ps"
| "run_action ASetSimpleSelector text ps = setSimpleSelector ps"
| "run_action ASetCompoundSelector text ps = setCompoundSelector ps"
| "run_action ASetFunctionSelector text ps = setFunctionSelector ps"
| "run_action APush text ps = Ok (push (StStr text) ps)"
| "run_action ASetNamespace text ps = setNamespace text ps"
| "run_action ASetCriteria text ps = setCriteria ps"
| "run_action AAddCompoundCriteria text ps = addCompoundCriteria ps"
| "run_action AAddNegatedCriteria text ps = addNegatedCriteria ps"
| "run_action AAddValueCriteria text ps = addValueCriteria ps"
| "run_action AAddRangeCriteria text ps = addRangeCriteria ps"
| "run_action AAddIndexCriteria text ps = addIndexCriteria ps"
| "run_action ASetOrder text ps = setOrder ps"
| "run_action AAddOrderSelector text ps = addOrderSelector ps"
| "run_action ASetOrderDir text ps = setOrderDir ps"
| "run_action ASetLimit text ps = setLimit text ps"

fun exec_token :: "string \<times> ParseState \<Rightarrow> token \<Rightarrow> (string \<times> ParseState) outcome" where
  "exec_token (text, ps) (PegText w) = Ok (w, ps)"
| "exec_token (text, ps) (Act a) = obind (run_action a text ps) (\<lambda>ps'. Ok (text, ps'))"

definition run_tokens :: "string \<times> ParseState \<Rightarrow> token list \<Rightarrow> (string \<times> ParseState) outcome" where
  "run_tokens st toks = ofold exec_token st toks"

definition Execute :: "token list \<Rightarrow> ParseState \<Rightarrow> ParseState outcome" where
  "Execute toks ps = obind (run_tokens ([], ps) toks) (\<lambda>(text, ps'). Ok ps')"

section \<open>Rules\<close>

text \<open>
  A rule maps the input from the current position to the tokens it adds and the remaining
  input; \<open>None\<close> is a failed match, after which the generated code restores position and
  token index. The combinators are the shapes the generator emits: a character or literal
  test, a sequence, ordered choice, \<open>?\<close>, \<open>*\<close>, \<open>+\<close>, a \<open>switch\<close> on the next character, the
  capture \<open>< ... >\<close>, an action and the end of input. The guard in \<open>p_star\<close> stops on a
  match that consumes nothing, on which the generated loop would not end; no rule below it
  matches the empty string.
\<close>

type_synonym parser = "string \<Rightarrow> (token list \<times> string) option"

definition p_lit :: "string \<Rightarrow> parser" where
  "p_lit w s = (if HasPrefix s w then Some ([], drop (length w) s) else None)"

definition p_class :: "(char \<Rightarrow> bool) \<Rightarrow> parser" where
  "p_class P s = (case s of [] \<Rightarrow> None | c # r \<Rightarrow> if P c then Some ([], r) else None)"

definition p_seq :: "parser \<Rightarrow> parser \<Rightarrow> parser" where
  "p_seq p q s = (case p s of None \<Rightarrow> None
     | Some (t, r) \<Rightarrow> (case q r of None \<Rightarrow> None | Some (u, r') \<Rightarrow> Some (t @ u, r')))"

definition p_empty :: parser where
  "p_empty s = Some ([], s)"

fun p_seqs :: "parser list \<Rightarrow> parser" where
  "p_seqs [] = p_empty"
| "p_seqs [p] = p"
| "p_seqs (p # ps) = p_seq p (p_seqs ps)"

definition p_alt :: "parser \<Rightarrow> parser \<Rightarrow> parser" where
  "p_alt p q s = (case p s of None \<Rightarrow> q s | Some r \<Rightarrow> Some r)"

definition p_opt :: "parser \<Rightarrow> parser" where
  "p_opt p s = (case p s of None \<Rightarrow> Some ([], s) | Some r \<Rightarrow> Some r)"

function p_star :: "parser \<Rightarrow> parser" where
  "p_star p s = (case p s of None \<Rightarrow> Some ([], s)
     | Some (t, r) \<Rightarrow>
         (if length r < length s
          then (case p_star p r of None \<Rightarrow> None | Some (u, r') \<Rightarrow> Some (t @ u, r'))
          else Some ([], s)))"
  by pat_completeness auto
termination
  by (relation "measure (\<lambda>(p, s). length s)") auto

declare p_star.simps [simp del]

definition p_plus :: "parser \<Rightarrow> parser" where
  "p_plus p = p_seq p (p_star p)"

fun p_switch :: "(char list \<times> parser) list \<Rightarrow> parser \<Rightarrow> parser" where
  "p_switch [] dflt s = dflt s"
| "p_switch ((cs, p) # cases) dflt s =
     (case s of [] \<Rightarrow> dflt s | c # _ \<Rightarrow> if c \<in> set cs then p s else p_switch cases dflt s)"

definition p_text :: "parser \<Rightarrow> parser" where
  "p_text p s = (case p s of None \<Rightarrow> None
     | Some (t, r) \<Rightarrow> Some (t @ [PegText (take (length s - length r) s)], r))"

definition p_act :: "action \<Rightarrow> parser" where
  "p_act a s = Some ([Act a], s)"

definition p_EOF :: parser where
  "p_EOF s = (case s of [] \<Rightarrow> Some ([], s) | _ \<Rightarrow> None)"

section \<open>Lexemes\<close>

definition p_EOL :: parser where
  "p_EOL = p_alt (p_lit [CHR 0x0D, CHR 0x0A]) (p_alt (p_lit [CHR 0x0A]) (p_lit [CHR 0x0D]))"

definition p_WhiteSpace :: parser where
  "p_WhiteSpace = p_switch [([CHR 0x09], p_lit [CHR 0x09]), ('' '', p_lit '' '')] p_EOL"

definition p_WS :: parser where
  "p_WS = p_plus p_WhiteSpace"

definition p_WSX :: parser where
  "p_WSX = p_star p_WhiteSpace"

definition p_StatementId :: parser where
  "p_StatementId = p_text (p_plus (p_class id_char))"

definition p_PublisherId :: parser where
  "p_PublisherId = p_text (p_plus (p_class is_alnum))"

definition p_WKI :: parser where
  "p_WKI = p_text (p_plus (p_class wki_char))"

definition p_UInt :: parser where
  "p_UInt = p_text (p_plus (p_class is_digit))"

section \<open>Selectors and sources\<close>

definition p_SimpleSelector :: parser where
  "p_SimpleSelector = p_seqs
     [p_text (p_switch
        [(''c'', p_lit ''counter''), (''t'', p_lit ''timestamp''), (''s'', p_lit ''source''),
         (''n'', p_lit ''namespace''), (''p'', p_lit ''publisher''), (''i'', p_lit ''id''),
         (''b'', p_lit ''body'')] (p_lit ''*'')),
      p_act APush]"

definition p_CompoundSelector :: parser where
  "p_CompoundSelector = p_seqs
     [p_lit ''('', p_SimpleSelector, p_star (p_seqs [p_lit '','', p_WSX, p_SimpleSelector]), p_lit '')'']"

definition p_Function :: parser where
  "p_Function = p_seqs
     [p_text (p_alt (p_lit ''COUNT'') (p_alt (p_lit ''MIN'') (p_lit ''MAX''))), p_act APush]"

definition p_FunctionSelector :: parser where
  "p_FunctionSelector = p_seqs [p_Function, p_lit ''('', p_SimpleSelector, p_lit '')'']"

definition p_Selector :: parser where
  "p_Selector = p_switch
     [(''CM'', p_seqs [p_FunctionSelector, p_act ASetFunctionSelector]),
      (''('', p_seqs [p_CompoundSelector, p_act ASetCompoundSelector])]
     (p_seqs [p_SimpleSelector, p_act ASetSimpleSelector])"

definition p_NamespacePart :: parser where
  "p_NamespacePart = p_plus (p_class ns_char)"

definition p_Wildcard :: parser where
  "p_Wildcard = p_lit ''*''"

definition p_Namespace :: parser where
  "p_Namespace = p_alt
     (p_text (p_seqs [p_NamespacePart, p_star (p_seqs [p_lit ''.'', p_NamespacePart]),
                      p_opt (p_seqs [p_lit ''.'', p_Wildcard])]))
     (p_text p_Wildcard)"

definition p_Source :: parser where
  "p_Source = p_seqs [p_lit ''FROM'', p_WS, p_Namespace, p_act ASetNamespace]"

section \<open>Criteria\<close>

definition p_ValueCompare :: parser where
  "p_ValueCompare = p_seqs [p_text (p_alt (p_lit ''='') (p_lit ''!='')), p_act APush]"

definition p_IdCriteria :: parser where
  "p_IdCriteria = p_seqs
     [p_text (p_lit ''id''), p_act APush, p_WSX, p_ValueCompare, p_WSX, p_StatementId, p_act APush]"

definition p_PublisherCriteria :: parser where
  "p_PublisherCriteria = p_seqs
     [p_text (p_lit ''publisher''), p_act APush, p_WSX, p_ValueCompare, p_WSX, p_PublisherId, p_act APush]"

definition p_SourceCriteria :: parser where
  "p_SourceCriteria = p_seqs
     [p_text (p_lit ''source''), p_act APush, p_WSX, p_ValueCompare, p_WSX, p_PublisherId, p_act APush]"

definition p_ValueCriteria :: parser where
  "p_ValueCriteria = p_switch [(''s'', p_SourceCriteria), (''p'', p_PublisherCriteria)] p_IdCriteria"

definition p_RangeSelector :: parser where
  "p_RangeSelector = p_seqs [p_text (p_alt (p_lit ''timestamp'') (p_lit ''counter'')), p_act APush]"

definition p_Comparison :: parser where
  "p_Comparison = p_seqs
     [p_text (p_alt (p_lit ''<='') (p_alt (p_lit ''>='')
        (p_switch [(''>'', p_lit ''>''), (''!'', p_lit ''!=''), (''='', p_lit ''='')] (p_lit ''<'')))),
      p_act APush]"

definition p_RangeCriteria :: parser where
  "p_RangeCriteria = p_seqs [p_RangeSelector, p_WSX, p_Comparison, p_WSX, p_UInt, p_act APush]"

definition p_WKICriteria :: parser where
  "p_WKICriteria = p_seqs
     [p_text (p_lit ''wki''), p_act APush, p_WSX, p_lit ''='', p_WSX, p_WKI, p_act APush]"

definition p_SimpleCriteria :: parser where
  "p_SimpleCriteria = p_switch
     [(''w'', p_seqs [p_WKICriteria, p_act AAddIndexCriteria]),
      (''ct'', p_seqs [p_RangeCriteria, p_act AAddRangeCriteria])]
     (p_seqs [p_ValueCriteria, p_act AAddValueCriteria])"

definition p_Boolean :: parser where
  "p_Boolean = p_seqs [p_text (p_alt (p_lit ''AND'') (p_lit ''OR'')), p_act APush]"

text \<open>
  \<open>MultiCriteria\<close> and \<open>CompoundCriteria\<close> call each other; the first is a function of the
  second. The fuel bounds the nesting depth: every call of \<open>CompoundCriteria\<close> from itself
  comes after a character was consumed, so the length of the input is enough
  (\<open>criteria_rule\<close> in \<open>ParseRoundTrip\<close>).
\<close>

definition p_MultiCriteria :: "parser \<Rightarrow> parser" where
  "p_MultiCriteria compound = p_seqs
     [compound, p_star (p_seqs [p_WS, p_Boolean, p_WS, compound, p_act AAddCompoundCriteria])]"

fun p_CompoundCriteria :: "nat \<Rightarrow> parser" where
  "p_CompoundCriteria 0 s = None"
| "p_CompoundCriteria (Suc n) s = p_switch
     [(''N'', p_seqs [p_lit ''NOT'', p_WS, p_CompoundCriteria n, p_act AAddNegatedCriteria]),
      (''('', p_seqs [p_lit ''('', p_MultiCriteria (p_CompoundCriteria n), p_lit '')''])]
     p_SimpleCriteria s"

definition p_Compound :: parser where
  "p_Compound s = p_CompoundCriteria (Suc (length s)) s"

definition p_Criteria :: parser where
  "p_Criteria = p_seqs [p_lit ''WHERE'', p_WS, p_MultiCriteria p_Compound, p_act ASetCriteria]"

section \<open>Order, limit and statements\<close>

definition p_OrderSelector :: parser where
  "p_OrderSelector = p_seqs
     [p_text (p_switch
        [(''c'', p_lit ''counter''), (''t'', p_lit ''timestamp''), (''s'', p_lit ''source''),
         (''p'', p_lit ''publisher''), (''n'', p_lit ''namespace'')] (p_lit ''id'')),
      p_act APush]"

definition p_OrderDir :: parser where
  "p_OrderDir = p_seqs [p_text (p_alt (p_lit ''ASC'') (p_lit ''DESC'')), p_act APush]"

definition p_OrderSelectorSpec :: parser where
  "p_OrderSelectorSpec = p_seqs
     [p_OrderSelector, p_act AAddOrderSelector, p_opt (p_seqs [p_WS, p_OrderDir, p_act ASetOrderDir])]"

definition p_OrderSpec :: parser where
  "p_OrderSpec = p_seqs
     [p_OrderSelectorSpec, p_star (p_seqs [p_lit '','', p_WSX, p_OrderSelectorSpec])]"

definition p_Order :: parser where
  "p_Order = p_seqs [p_lit ''ORDER'', p_WS, p_lit ''BY'', p_WS, p_OrderSpec, p_act ASetOrder]"

definition p_Limit :: parser where
  "p_Limit = p_seqs [p_lit ''LIMIT'', p_WS, p_UInt, p_act ASetLimit]"

definition p_Select :: parser where
  "p_Select = p_seqs
     [p_lit ''SELECT'', p_WS, p_Selector, p_WS, p_Source, p_opt (p_seqs [p_WS, p_Criteria]),
      p_opt (p_seqs [p_WS, p_Order]), p_opt (p_seqs [p_WS, p_Limit])]"

definition p_Delete :: parser where
  "p_Delete = p_seqs
     [p_lit ''DELETE'', p_WS, p_Source, p_opt (p_seqs [p_WS, p_Criteria]), p_opt (p_seqs [p_WS, p_Limit])]"

definition p_Grammar :: parser where
  "p_Grammar = p_alt (p_seqs [p_Select, p_WSX, p_EOF, p_act ASetSelectOp])
                     (p_seqs [p_Delete, p_WSX, p_EOF, p_act ASetDeleteOp])"

definition ParseQuery :: "string \<Rightarrow> Query outcome" where
  "ParseQuery qs =
     (case p_Grammar qs of
        None \<Rightarrow> Err ParseError
      | Some (toks, rest) \<Rightarrow>
          obind (Execute toks init_ParseState) (\<lambda>ps.
            (case ps_err ps of Some e \<Rightarrow> Err e | None \<Rightarrow> Ok (ps_query ps))))"

end
