(* ===== verification/ParseSafe.thy ===== *)
theory ParseSafe
  imports QueryParse
begin

text \<open>
  A small Hoare logic for the rules of the grammar, relating what a rule matches to what the
  replay of its tokens does to the parse state, and its two main results: \<open>ParseQuery\<close> never
  panics (no pop of an empty stack, no failed type assertion), and every query it returns is
  well-formed.
\<close>

section \<open>Judgements\<close>

text \<open>
  \<open>lexes p T\<close>: the rule adds no token and the text it consumes satisfies \<open>T\<close>.
  \<open>captures p T\<close>: the rule adds one capture, of a text that satisfies \<open>T\<close>.
  \<open>triple P p Q\<close>: when the rule matches, replaying its tokens from a text and a state in
  \<open>P\<close> succeeds and ends in \<open>Q\<close>.
\<close>

definition lexes :: "parser \<Rightarrow> (string \<Rightarrow> bool) \<Rightarrow> bool" where
  "lexes p T \<longleftrightarrow> (\<forall>s toks r. p s = Some (toks, r) \<longrightarrow> toks = [] \<and> (\<exists>w. s = w @ r \<and> T w))"

definition captures :: "parser \<Rightarrow> (string \<Rightarrow> bool) \<Rightarrow> bool" where
  "captures p T \<longleftrightarrow> (\<forall>s toks r. p s = Some (toks, r) \<longrightarrow> (\<exists>w. toks = [PegText w] \<and> s = w @ r \<and> T w))"

definition triple ::
  "(string \<Rightarrow> ParseState \<Rightarrow> bool) \<Rightarrow> parser \<Rightarrow> (string \<Rightarrow> ParseState \<Rightarrow> bool) \<Rightarrow> bool" where
  "triple P p Q \<longleftrightarrow> (\<forall>s toks r t ps. p s = Some (toks, r) \<longrightarrow> P t ps \<longrightarrow>
     (\<exists>t' ps'. run_tokens (t, ps) toks = Ok (t', ps') \<and> Q t' ps'))"

lemma run_tokens_Nil [simp]: "run_tokens st [] = Ok st"
  by (simp add: run_tokens_def)

lemma run_tokens_append: "run_tokens st (a @ b) = obind (run_tokens st a) (\<lambda>st'. run_tokens st' b)"
  by (simp add: run_tokens_def ofold_append)

lemma run_tokens_single [simp]: "run_tokens st [tok] = exec_token st tok"
  by (simp add: run_tokens_def)

lemma run_tokens_Cons: "run_tokens st (tok # toks) = obind (exec_token st tok) (\<lambda>st'. run_tokens st' toks)"
  by (simp add: run_tokens_def)

lemma p_seq_Some:
  "p_seq p q s = Some (toks, r') \<longleftrightarrow>
   (\<exists>t r u. p s = Some (t, r) \<and> q r = Some (u, r') \<and> toks = t @ u)"
  by (auto simp: p_seq_def split: option.splits)

lemma p_seq_assoc: "p_seq (p_seq p q) r = p_seq p (p_seq q r)"
  by (auto simp: p_seq_def fun_eq_iff split: option.splits)

lemma p_seqs_Cons [simp]: "qs \<noteq> [] \<Longrightarrow> p_seqs (p # qs) = p_seq p (p_seqs qs)"
  by (cases qs) auto

lemma p_star_induct_rule:
  assumes "p_star p s = Some (toks, r)"
    and "\<And>s. Q s [] s"
    and "\<And>s t r u r'. p s = Some (t, r) \<Longrightarrow> p_star p r = Some (u, r') \<Longrightarrow> Q r u r' \<Longrightarrow> Q s (t @ u) r'"
  shows "Q s toks r"
  using assms(1)
proof (induction s arbitrary: toks r rule: measure_induct_rule [where f = length])
  case (less s)
  show ?case
  proof (cases "p s")
    case None
    with less.prems show ?thesis by (simp add: p_star.simps [of p s] assms(2))
  next
    case (Some a)
    obtain t r1 where a: "a = (t, r1)" by fastforce
    with Some have ps: "p s = Some (t, r1)" by simp
    show ?thesis
    proof (cases "length r1 < length s")
      case True
      then obtain u where "p_star p r1 = Some (u, r)" "toks = t @ u"
        using less.prems ps by (auto simp: p_star.simps [of p s] split: option.splits)
      note u = this
      have "Q r1 u r" using True u(1) by (rule less.IH)
      then show ?thesis using assms(3) [OF ps u(1)] u(2) by simp
    next
      case False
      with less.prems ps show ?thesis by (simp add: p_star.simps [of p s] assms(2))
    qed
  qed
qed

section \<open>Lexical rules\<close>

lemma lexes_lit: "lexes (p_lit w) (\<lambda>x. x = w)"
  by (auto simp: lexes_def p_lit_def HasPrefix_def prefix_def split: if_splits)

lemma lexes_class: "lexes (p_class P) (\<lambda>x. \<exists>c. x = [c] \<and> P c)"
  by (auto simp: lexes_def p_class_def split: list.splits if_splits)

lemma lexes_conseq: "lexes p T \<Longrightarrow> (\<And>w. T w \<Longrightarrow> T' w) \<Longrightarrow> lexes p T'"
  by (auto simp: lexes_def) blast

lemma lexes_seq: "lexes p T \<Longrightarrow> lexes q U \<Longrightarrow> lexes (p_seq p q) (\<lambda>x. \<exists>v w. x = v @ w \<and> T v \<and> U w)"
  unfolding lexes_def p_seq_Some by (metis append.assoc append_Nil)

lemma lexes_alt: "lexes p T \<Longrightarrow> lexes q T \<Longrightarrow> lexes (p_alt p q) T"
  by (auto simp: lexes_def p_alt_def split: option.splits)

lemma lexes_opt: "lexes p T \<Longrightarrow> lexes (p_opt p) (\<lambda>x. x = [] \<or> T x)"
  unfolding lexes_def p_opt_def by (fastforce split: option.splits)

lemma lexes_switch_Nil: "lexes d T \<Longrightarrow> lexes (p_switch [] d) T"
  by (simp add: lexes_def)

lemma lexes_switch_Cons: "lexes p T \<Longrightarrow> lexes (p_switch cases d) T \<Longrightarrow> lexes (p_switch ((cs, p) # cases) d) T"
proof (unfold lexes_def, intro allI impI)
  fix s toks r
  assume p: "\<forall>s toks r. p s = Some (toks, r) \<longrightarrow> toks = [] \<and> (\<exists>w. s = w @ r \<and> T w)"
    and c: "\<forall>s toks r. p_switch cases d s = Some (toks, r) \<longrightarrow> toks = [] \<and> (\<exists>w. s = w @ r \<and> T w)"
    and m: "p_switch ((cs, p) # cases) d s = Some (toks, r)"
  have "p s = Some (toks, r) \<or> p_switch cases d s = Some (toks, r)"
  proof (cases s)
    case Nil
    have "p_switch cases d [] = d []" by (cases cases) auto
    with Nil m show ?thesis by simp
  next
    case (Cons a list)
    with m show ?thesis by (auto split: if_splits)
  qed
  with p c show "toks = [] \<and> (\<exists>w. s = w @ r \<and> T w)" by blast
qed

lemmas lexes_switch = lexes_switch_Cons lexes_switch_Nil

lemma lexes_star:
  assumes "lexes p T" and "T' []" and "\<And>v w. T v \<Longrightarrow> T' w \<Longrightarrow> T' (v @ w)"
  shows "lexes (p_star p) T'"
proof (unfold lexes_def, intro allI impI)
  fix s toks r
  assume "p_star p s = Some (toks, r)"
  then show "toks = [] \<and> (\<exists>w. s = w @ r \<and> T' w)"
  proof (rule p_star_induct_rule)
    fix s t r r' and u :: "token list"
    assume p: "p s = Some (t, r)" and IH: "u = [] \<and> (\<exists>w. r = w @ r' \<and> T' w)"
    from p assms(1) obtain v where v: "t = []" "s = v @ r" "T v" unfolding lexes_def by blast
    with IH assms(3) show "t @ u = [] \<and> (\<exists>w. s = w @ r' \<and> T' w)" by auto
  qed (use assms(2) in auto)
qed

lemma lexes_any: "lexes p T \<Longrightarrow> lexes p (\<lambda>x. True)"
  unfolding lexes_def by blast

lemma lexes_word: "lexes (p_plus (p_class P)) (word_of P)"
proof -
  have "lexes (p_star (p_class P)) (list_all P)"
    by (rule lexes_star [OF lexes_class]) auto
  from lexes_seq [OF lexes_class this] show ?thesis
    unfolding p_plus_def by (rule lexes_conseq) (auto simp: word_of_def)
qed

lemma lexes_WSX: "lexes p_WSX (\<lambda>x. True)" and lexes_WS: "lexes p_WS (\<lambda>x. True)"
proof -
  have w: "lexes p_WhiteSpace (\<lambda>x. True)"
    unfolding p_WhiteSpace_def p_EOL_def by (intro lexes_switch lexes_alt lexes_any [OF lexes_lit])
  then have "lexes (p_star p_WhiteSpace) (\<lambda>x. True)" by (rule lexes_star) auto
  then show "lexes p_WSX (\<lambda>x. True)" "lexes p_WS (\<lambda>x. True)"
    unfolding p_WSX_def p_WS_def p_plus_def using w by (auto intro: lexes_any lexes_seq)
qed

lemma captures_text: "lexes p T \<Longrightarrow> captures (p_text p) T"
  by (fastforce simp: captures_def lexes_def p_text_def split: option.splits)

lemma captures_alt: "captures p T \<Longrightarrow> captures q T \<Longrightarrow> captures (p_alt p q) T"
  by (auto simp: captures_def p_alt_def split: option.splits)

lemma captures_conseq: "captures p T \<Longrightarrow> (\<And>w. T w \<Longrightarrow> T' w) \<Longrightarrow> captures p T'"
  by (auto simp: captures_def) blast

lemma captures_Namespace: "captures p_Namespace wf_namespace"
proof -
  define tail where "tail = (\<lambda>x. \<exists>ps. list_all (word_of ns_char) ps \<and> x = concat (map ((#) (CHR ''.'')) ps))"
  have part: "lexes (p_seqs [p_lit ''.'', p_NamespacePart]) (\<lambda>x. \<exists>w. x = ''.'' @ w \<and> word_of ns_char w)"
    unfolding p_NamespacePart_def by (simp, rule lexes_conseq [OF lexes_seq [OF lexes_lit lexes_word]]) auto
  have star: "lexes (p_star (p_seqs [p_lit ''.'', p_NamespacePart])) tail"
  proof (rule lexes_star [OF part])
    show "tail []" unfolding tail_def by (intro exI [of _ "[]"]) simp
    fix v w assume "\<exists>u. v = ''.'' @ u \<and> word_of ns_char u" "tail w"
    then obtain u ps where "v = ''.'' @ u" "word_of ns_char u" "list_all (word_of ns_char) ps"
      "w = concat (map ((#) (CHR ''.'')) ps)" unfolding tail_def by blast
    then show "tail (v @ w)" unfolding tail_def by (intro exI [of _ "u # ps"]) simp
  qed
  have wild: "lexes (p_opt (p_seqs [p_lit ''.'', p_Wildcard])) (\<lambda>x. x = [] \<or> x = ''.*'')"
    unfolding p_Wildcard_def
    by (simp, rule lexes_opt, rule lexes_conseq [OF lexes_seq [OF lexes_lit lexes_lit]]) auto
  have join: "u @ concat (map ((#) (CHR ''.'')) ps) = Join (u # ps) ''.''" for u ps
  proof (induction ps arbitrary: u)
    case (Cons a ps)
    have "Join ((c # a) # ps) sep = c # Join (a # ps) sep" for c sep by (cases ps) auto
    with Cons [of a] show ?case by simp
  qed simp
  have wf: "wf_namespace (u @ v @ w)"
    if "word_of ns_char u" "tail v" "w = [] \<or> w = ''.*''" for u v w
  proof -
    from that(2) obtain ps where ps: "list_all (word_of ns_char) ps" "v = concat (map ((#) (CHR ''.'')) ps)"
      unfolding tail_def by auto
    have "u @ v @ w = ns_render (u # ps) (w \<noteq> [])"
      using that(3) join [of u ps] ps(2) by (auto simp: ns_render_def)
    then show ?thesis unfolding wf_namespace_def using that(1) ps(1) by (intro disjI2 exI [of _ "u # ps"] exI) auto
  qed
  show ?thesis
    unfolding p_Namespace_def
  proof (rule captures_alt)
    show "captures (p_text (p_seqs [p_NamespacePart, p_star (p_seqs [p_lit ''.'', p_NamespacePart]),
        p_opt (p_seqs [p_lit ''.'', p_Wildcard])])) wf_namespace"
      apply (rule captures_text)
      apply (subst p_seqs_Cons, simp)
      apply (subst p_seqs_Cons, simp)
      apply (subst p_seqs.simps(2))
      apply (rule lexes_conseq [OF lexes_seq [OF _ lexes_seq [OF star wild]]])
       apply (unfold p_NamespacePart_def, rule lexes_word)
      using wf by blast
    show "captures (p_text p_Wildcard) wf_namespace"
      unfolding p_Wildcard_def
      by (rule captures_text, rule lexes_conseq [OF lexes_lit]) (simp add: wf_namespace_def)
  qed
qed

section \<open>Rules that work on the stack\<close>

text \<open>
  \<open>tr I p J\<close>: whatever lies below, when the top of the stack satisfies \<open>I\<close>, replaying the
  tokens of \<open>p\<close> turns that top into one that satisfies \<open>J\<close>; besides the stack, only the
  error field may change.
\<close>

definition stk :: "ParseState \<Rightarrow> (stack_item list \<Rightarrow> bool) \<Rightarrow> string \<Rightarrow> ParseState \<Rightarrow> bool" where
  "stk ps0 I t ps \<longleftrightarrow>
     ps_query ps = ps_query ps0 \<and> (\<exists>items. I items \<and> ps_stack ps = items @ ps_stack ps0)"

definition tr :: "(stack_item list \<Rightarrow> bool) \<Rightarrow> parser \<Rightarrow> (stack_item list \<Rightarrow> bool) \<Rightarrow> bool" where
  "tr I p J \<longleftrightarrow> (\<forall>ps0. triple (stk ps0 I) p (stk ps0 J))"

definition nil :: "stack_item list \<Rightarrow> bool" where
  "nil items \<longleftrightarrow> items = []"

lemma triple_conseq:
  "triple P p Q \<Longrightarrow> (\<And>t ps. P' t ps \<Longrightarrow> P t ps) \<Longrightarrow> (\<And>t ps. Q t ps \<Longrightarrow> Q' t ps) \<Longrightarrow> triple P' p Q'"
  unfolding triple_def by blast

lemma triple_seq:
  assumes "triple P p Q" "triple Q q R"
  shows "triple P (p_seq p q) R"
  unfolding triple_def p_seq_Some
proof (intro allI impI, elim exE conjE)
  fix s toks r t ps t1 r1 u
  assume "p s = Some (t1, r1)" "P t ps"
  with assms(1) obtain t' ps' where 1: "run_tokens (t, ps) t1 = Ok (t', ps')" "Q t' ps'"
    unfolding triple_def by blast
  assume "q r1 = Some (u, r)" "toks = t1 @ u"
  with 1 assms(2) show "\<exists>t' ps'. run_tokens (t, ps) toks = Ok (t', ps') \<and> R t' ps'"
    unfolding triple_def by (simp add: run_tokens_append) blast
qed

lemma triple_lexes: "lexes p T \<Longrightarrow> triple P p P"
  unfolding triple_def lexes_def by fastforce

lemma triple_act:
  "(\<And>t ps. P t ps \<Longrightarrow> \<exists>ps'. run_action a t ps = Ok ps' \<and> Q t ps') \<Longrightarrow> triple P (p_act a) Q"
  unfolding triple_def p_act_def by fastforce

lemma triple_captures:
  "captures p T \<Longrightarrow> (\<And>t ps w. P t ps \<Longrightarrow> T w \<Longrightarrow> Q w ps) \<Longrightarrow> triple P p Q"
  unfolding triple_def captures_def by fastforce

lemma triple_alt: "triple P p Q \<Longrightarrow> triple P q Q \<Longrightarrow> triple P (p_alt p q) Q"
  unfolding triple_def p_alt_def by (auto split: option.splits)

lemma triple_opt: "triple P p Q \<Longrightarrow> (\<And>t ps. P t ps \<Longrightarrow> Q t ps) \<Longrightarrow> triple P (p_opt p) Q"
  unfolding triple_def p_opt_def by (fastforce split: option.splits)

lemma p_switch_cases:
  assumes "p_switch ((cs, p) # cases) d s = Some x"
  shows "p s = Some x \<or> p_switch cases d s = Some x"
proof (cases s)
  case Nil
  have "p_switch cases d [] = d []" by (cases cases) auto
  with Nil assms show ?thesis by simp
next
  case (Cons a list)
  with assms show ?thesis by (auto split: if_splits)
qed

lemma triple_switch_Cons:
  "triple P p Q \<Longrightarrow> triple P (p_switch cases d) Q \<Longrightarrow> triple P (p_switch ((cs, p) # cases) d) Q"
  unfolding triple_def by (blast dest!: p_switch_cases)

lemma triple_switch_Nil: "triple P d Q \<Longrightarrow> triple P (p_switch [] d) Q"
  by (simp add: triple_def)

lemma triple_star:
  assumes "triple P p P"
  shows "triple P (p_star p) P"
proof -
  have "\<forall>t ps. P t ps \<longrightarrow> (\<exists>t' ps'. run_tokens (t, ps) toks = Ok (t', ps') \<and> P t' ps')"
    if "p_star p s = Some (toks, r)" for s toks r
    using that
  proof (rule p_star_induct_rule [where Q = "\<lambda>s toks r. \<forall>t ps. P t ps \<longrightarrow>
      (\<exists>t' ps'. run_tokens (t, ps) toks = Ok (t', ps') \<and> P t' ps')"])
    fix s t1 r r' and u :: "token list"
    assume "p s = Some (t1, r)"
      and IH: "\<forall>t ps. P t ps \<longrightarrow> (\<exists>t' ps'. run_tokens (t, ps) u = Ok (t', ps') \<and> P t' ps')"
    with assms show "\<forall>t ps. P t ps \<longrightarrow> (\<exists>t' ps'. run_tokens (t, ps) (t1 @ u) = Ok (t', ps') \<and> P t' ps')"
      unfolding triple_def by (simp add: run_tokens_append) blast
  qed simp
  then show ?thesis unfolding triple_def by blast
qed

lemma stk_mono: "stk ps0 I t ps \<Longrightarrow> (\<And>i. I i \<Longrightarrow> J i) \<Longrightarrow> stk ps0 J t ps"
  unfolding stk_def by blast

lemma tr_conseq:
  assumes "tr I p J" "\<And>i. I' i \<Longrightarrow> I i" "\<And>i. J i \<Longrightarrow> J' i"
  shows "tr I' p J'"
  unfolding tr_def
proof
  fix ps0
  from assms(1) have "triple (stk ps0 I) p (stk ps0 J)" by (simp add: tr_def)
  then show "triple (stk ps0 I') p (stk ps0 J')"
    by (rule triple_conseq) (erule stk_mono, erule assms(2,3))+
qed

lemma tr_seq: "tr I p J \<Longrightarrow> tr J q K \<Longrightarrow> tr I (p_seq p q) K"
  unfolding tr_def by (blast intro: triple_seq)

lemma tr_lexes: "lexes p T \<Longrightarrow> tr I p I"
  unfolding tr_def by (blast intro: triple_lexes)

lemma tr_alt: "tr I p J \<Longrightarrow> tr I q J \<Longrightarrow> tr I (p_alt p q) J"
  unfolding tr_def by (blast intro: triple_alt)

lemma tr_star: "tr I p I \<Longrightarrow> tr I (p_star p) I"
  unfolding tr_def by (blast intro: triple_star)

lemma tr_switch_Cons: "tr I p J \<Longrightarrow> tr I (p_switch cases d) J \<Longrightarrow> tr I (p_switch ((cs, p) # cases) d) J"
  unfolding tr_def by (blast intro: triple_switch_Cons)

lemma tr_switch_Nil: "tr I d J \<Longrightarrow> tr I (p_switch [] d) J"
  unfolding tr_def by (blast intro: triple_switch_Nil)

lemmas tr_switch = tr_switch_Cons tr_switch_Nil

text \<open>The frame: what a rule pushes comes on top of what is there.\<close>

lemma tr_frame:
  assumes "tr nil p J" and "\<And>a b. I a \<Longrightarrow> J b \<Longrightarrow> K (b @ a)"
  shows "tr I p K"
  unfolding tr_def triple_def
proof (intro allI impI)
  fix ps0 s toks r t ps
  assume m: "p s = Some (toks, r)" and i: "stk ps0 I t ps"
  from i obtain a where a: "I a" "ps_stack ps = a @ ps_stack ps0" "ps_query ps = ps_query ps0"
    unfolding stk_def by blast
  have "stk ps nil t ps" by (simp add: stk_def nil_def)
  with m assms(1) obtain t' ps' where r: "run_tokens (t, ps) toks = Ok (t', ps')" "stk ps J t' ps'"
    unfolding tr_def triple_def by blast
  then obtain b where "J b" "ps_stack ps' = b @ ps_stack ps" "ps_query ps' = ps_query ps"
    unfolding stk_def by blast
  with a assms(2) have "stk ps0 K t' ps'"
    unfolding stk_def by (intro conjI exI [of _ "b @ a"]) simp_all
  with r(1) show "\<exists>t' ps'. run_tokens (t, ps) toks = Ok (t', ps') \<and> stk ps0 K t' ps'" by blast
qed

lemma tr_act:
  assumes "\<And>t ps i rest. I i \<Longrightarrow> ps_stack ps = i @ rest \<Longrightarrow>
    \<exists>ps' j. run_action a t ps = Ok ps' \<and> ps_query ps' = ps_query ps \<and> J j \<and> ps_stack ps' = j @ rest"
  shows "tr I (p_act a) J"
  unfolding tr_def
proof (intro allI triple_act)
  fix ps0 t ps assume "stk ps0 I t ps"
  then obtain i where i: "I i" "ps_stack ps = i @ ps_stack ps0" "ps_query ps = ps_query ps0"
    unfolding stk_def by blast
  from assms [OF i(1,2), of t] i(3)
  show "\<exists>ps'. run_action a t ps = Ok ps' \<and> stk ps0 J t ps'" unfolding stk_def by metis
qed

lemma tr_push:
  assumes "captures p T"
  shows "tr I (p_seq p (p_act APush)) (\<lambda>i. \<exists>w j. T w \<and> I j \<and> i = StStr w # j)"
proof -
  have "triple (stk ps0 I) (p_seq p (p_act APush)) (stk ps0 (\<lambda>i. \<exists>w j. T w \<and> I j \<and> i = StStr w # j))" for ps0
  proof (rule triple_seq)
    show "triple (stk ps0 I) p (\<lambda>t ps. T t \<and> stk ps0 I t ps)"
      by (rule triple_captures [OF assms]) (auto simp: stk_def)
    show "triple (\<lambda>t ps. T t \<and> stk ps0 I t ps) (p_act APush) (stk ps0 (\<lambda>i. \<exists>w j. T w \<and> I j \<and> i = StStr w # j))"
      by (rule triple_act) (auto simp: push_def stk_def)
  qed
  then show ?thesis by (simp add: tr_def)
qed

lemma tr_push_seq:
  "captures p T \<Longrightarrow> tr (\<lambda>i. \<exists>w j. T w \<and> I j \<and> i = StStr w # j) rest K \<Longrightarrow>
   tr I (p_seq p (p_seq (p_act APush) rest)) K"
  unfolding p_seq_assoc [symmetric] by (rule tr_seq [OF tr_push])

lemma tr_opt: "tr I p I \<Longrightarrow> tr I (p_opt p) I"
  unfolding tr_def by (blast intro: triple_opt)

section \<open>Criteria\<close>

definition one_crit :: "stack_item list \<Rightarrow> bool" where
  "one_crit i \<longleftrightarrow> (\<exists>c. wf_criteria c \<and> i = [StCrit c])"

definition three_strs :: "(string \<Rightarrow> string \<Rightarrow> string \<Rightarrow> bool) \<Rightarrow> stack_item list \<Rightarrow> bool" where
  "three_strs R i \<longleftrightarrow> (\<exists>sel op val. R sel op val \<and> i = [StStr val, StStr op, StStr sel])"

lemmas pops = pop_str_def pop_crit_def pop_order_def pop_def push_def

lemma tr_ValueCompare:
  "tr I p_ValueCompare (\<lambda>i. \<exists>w j. w \<in> {''='', ''!=''} \<and> I j \<and> i = StStr w # j)"
  unfolding p_ValueCompare_def p_seqs.simps
  by (rule tr_push, rule captures_text, rule lexes_alt; rule lexes_conseq [OF lexes_lit]) auto

lemma tr_value_form:
  assumes "captures val T"
  shows "tr nil (p_seqs [p_text (p_lit name), p_act APush, p_WSX, p_ValueCompare, p_WSX, val, p_act APush])
    (three_strs (\<lambda>sel op v. sel = name \<and> op \<in> {''='', ''!=''} \<and> T v))"
proof -
  have "tr nil (p_seqs [p_text (p_lit name), p_act APush, p_WSX, p_ValueCompare, p_WSX, val, p_act APush])
    (\<lambda>i. \<exists>w j. T w \<and> (\<exists>v k. v \<in> {''='', ''!=''} \<and> (\<exists>u l. u = name \<and> nil l \<and> k = StStr u # l) \<and> j = StStr v # k) \<and>
      i = StStr w # j)"
    unfolding p_seqs.simps
    by (rule tr_push_seq [OF captures_text [OF lexes_lit]],
        rule tr_seq [OF tr_lexes [OF lexes_WSX]], rule tr_seq [OF tr_ValueCompare],
        rule tr_seq [OF tr_lexes [OF lexes_WSX]], rule tr_push [OF assms])
  then show ?thesis by (rule tr_conseq) (auto simp: three_strs_def nil_def)
qed

lemma captures_lexemes:
  "captures p_StatementId (word_of id_char)" "captures p_PublisherId (word_of is_alnum)"
  "captures p_WKI (word_of wki_char)" "captures p_UInt (word_of is_digit)"
  unfolding p_StatementId_def p_PublisherId_def p_WKI_def p_UInt_def
  by (rule captures_text [OF lexes_word])+

lemma tr_ValueCriteria:
  "tr nil p_ValueCriteria (three_strs (\<lambda>sel op v. wf_criteria (ValueCriteria op sel v)))"
  unfolding p_ValueCriteria_def
  by (intro tr_switch; unfold p_SourceCriteria_def p_PublisherCriteria_def p_IdCriteria_def,
      rule tr_conseq [OF tr_value_form [OF captures_lexemes(2)]]
           tr_conseq [OF tr_value_form [OF captures_lexemes(1)]])
     (auto simp: three_strs_def)

lemma Atoi_digits: "word_of is_digit w \<Longrightarrow> (\<exists>n. Atoi w = Ok n \<and> 0 \<le> n \<and> n \<le> int64_max) \<or> (\<exists>e. Atoi w = Err e)"
proof (cases "Atoi w")
  case (Ok n)
  assume w: "word_of is_digit w"
  then obtain c r where c: "w = c # r" "is_digit c" by (cases w) (auto simp: word_of_def)
  then have "c \<noteq> CHR ''-''" "c \<noteq> CHR ''+''" by auto
  with Ok c have "digits_val 0 w = Some n"
    by (auto simp: Atoi_def split: if_splits option.splits)
  with Ok Atoi_range [OF Ok] digits_val_nonneg [of 0 w n] show ?thesis by (simp add: in_int64_def)
qed (use Atoi_not_panics [of w] in auto)

lemma tr_RangeCriteria:
  "tr nil p_RangeCriteria (three_strs (\<lambda>sel op v. wf_criteria (RangeCriteria op sel 0) \<and> word_of is_digit v))"
proof -
  have sel: "captures (p_text (p_alt (p_lit ''timestamp'') (p_lit ''counter''))) (\<lambda>w. w \<in> {''timestamp'', ''counter''})"
    by (rule captures_text, rule lexes_alt; rule lexes_conseq [OF lexes_lit]) auto
  have cmp: "captures (p_text (p_alt (p_lit ''<='') (p_alt (p_lit ''>='')
        (p_switch [(''>'', p_lit ''>''), (''!'', p_lit ''!=''), (''='', p_lit ''='')] (p_lit ''<'')))))
      (\<lambda>w. w \<in> {''<='', ''<'', ''='', ''!='', ''>='', ''>''})"
    by (rule captures_text, intro lexes_alt lexes_switch; rule lexes_conseq [OF lexes_lit]) auto
  show ?thesis
    unfolding p_RangeCriteria_def p_RangeSelector_def p_Comparison_def p_seqs.simps
    by (rule tr_conseq [where I = nil], rule tr_seq [OF tr_push [OF sel]], rule tr_seq [OF tr_lexes [OF lexes_WSX]],
        rule tr_seq [OF tr_push [OF cmp]], rule tr_seq [OF tr_lexes [OF lexes_WSX]],
        rule tr_push [OF captures_lexemes(4)])
       (auto simp: three_strs_def nil_def int64_max_def)
qed

lemma tr_WKICriteria:
  "tr nil p_WKICriteria (\<lambda>i. \<exists>v. word_of wki_char v \<and> i = [StStr v, StStr ''wki''])"
  unfolding p_WKICriteria_def p_seqs.simps
  by (rule tr_conseq [where I = nil], rule tr_push_seq [OF captures_text [OF lexes_lit]],
      rule tr_seq [OF tr_lexes [OF lexes_WSX]], rule tr_seq [OF tr_lexes [OF lexes_lit]],
      rule tr_seq [OF tr_lexes [OF lexes_WSX]], rule tr_push [OF captures_lexemes(3)])
     (auto simp: nil_def)

lemma tr_SimpleCriteria: "tr nil p_SimpleCriteria one_crit"
  unfolding p_SimpleCriteria_def p_seqs.simps
proof (intro tr_switch)
  show "tr nil (p_seq p_WKICriteria (p_act AAddIndexCriteria)) one_crit"
    by (rule tr_seq [OF tr_WKICriteria], rule tr_act) (auto simp: addIndexCriteria_def pops one_crit_def)
  show "tr nil (p_seq p_RangeCriteria (p_act AAddRangeCriteria)) one_crit"
  proof (rule tr_seq [OF tr_RangeCriteria], rule tr_act)
    fix t i rest and ps :: ParseState
    assume "three_strs (\<lambda>sel op v. wf_criteria (RangeCriteria op sel 0) \<and> word_of is_digit v) i"
    then obtain sel op v where i: "i = [StStr v, StStr op, StStr sel]"
      "wf_criteria (RangeCriteria op sel 0)" "word_of is_digit v" by (auto simp: three_strs_def)
    assume "ps_stack ps = i @ rest"
    with i(1) Atoi_digits [OF i(3)] i(2)
    show "\<exists>ps' j. run_action AAddRangeCriteria t ps = Ok ps' \<and> ps_query ps' = ps_query ps \<and> one_crit j \<and>
        ps_stack ps' = j @ rest"
      by (auto simp: addRangeCriteria_def pops one_crit_def)
  qed
  show "tr nil (p_seq p_ValueCriteria (p_act AAddValueCriteria)) one_crit"
    by (rule tr_seq [OF tr_ValueCriteria], rule tr_act)
       (auto simp: addValueCriteria_def pops one_crit_def three_strs_def)
qed

lemma tr_MultiCriteria:
  assumes "tr nil p one_crit"
  shows "tr nil (p_MultiCriteria p) one_crit"
proof -
  have bool: "captures (p_text (p_alt (p_lit ''AND'') (p_lit ''OR''))) (\<lambda>w. w \<in> {''AND'', ''OR''})"
    by (rule captures_text, rule lexes_alt; rule lexes_conseq [OF lexes_lit]) auto
  define J where "J = (\<lambda>i. \<exists>w j. w \<in> {''AND'', ''OR''} \<and> one_crit j \<and> i = StStr w # j)"
  have "tr one_crit (p_seqs [p_WS, p_Boolean, p_WS, p, p_act AAddCompoundCriteria]) one_crit"
    unfolding p_seqs.simps p_Boolean_def
  proof (rule tr_seq [OF tr_lexes [OF lexes_WS]], rule tr_seq, rule tr_push [OF bool],
      rule tr_seq [OF tr_lexes [OF lexes_WS]], rule tr_seq)
    show "tr (\<lambda>i. \<exists>w j. w \<in> {''AND'', ''OR''} \<and> one_crit j \<and> i = StStr w # j) p
        (\<lambda>i. \<exists>r op l. i = [StCrit r, StStr op, StCrit l] \<and> wf_criteria (CompoundCriteria op l r))"
      by (rule tr_frame [OF assms]) (auto simp: one_crit_def)
    show "tr (\<lambda>i. \<exists>r op l. i = [StCrit r, StStr op, StCrit l] \<and> wf_criteria (CompoundCriteria op l r))
        (p_act AAddCompoundCriteria) one_crit"
      by (rule tr_act) (auto simp: addCompoundCriteria_def pops one_crit_def)
  qed
  then show ?thesis
    unfolding p_MultiCriteria_def p_seqs.simps by (intro tr_seq [OF assms] tr_star)
qed

lemma tr_CompoundCriteria: "tr nil (p_CompoundCriteria n) one_crit"
proof (induction n)
  case 0
  then show ?case by (simp add: tr_def triple_def)
next
  case (Suc n)
  have "tr nil (p_switch
     [(''N'', p_seqs [p_lit ''NOT'', p_WS, p_CompoundCriteria n, p_act AAddNegatedCriteria]),
      (''('', p_seqs [p_lit ''('', p_MultiCriteria (p_CompoundCriteria n), p_lit '')''])]
     p_SimpleCriteria) one_crit"
    unfolding p_seqs.simps
  proof (intro tr_switch)
    have "tr one_crit (p_act AAddNegatedCriteria) one_crit"
      by (rule tr_act) (auto simp: addNegatedCriteria_def pops one_crit_def)
    then show "tr nil (p_seq (p_lit ''NOT'') (p_seq p_WS (p_seq (p_CompoundCriteria n) (p_act AAddNegatedCriteria))))
        one_crit"
      by (intro tr_seq [OF tr_lexes [OF lexes_lit]] tr_seq [OF tr_lexes [OF lexes_WS]] tr_seq [OF Suc])
    show "tr nil (p_seq (p_lit ''('') (p_seq (p_MultiCriteria (p_CompoundCriteria n)) (p_lit '')''))) one_crit"
      by (intro tr_seq [OF tr_lexes [OF lexes_lit]] tr_seq [OF tr_MultiCriteria [OF Suc]] tr_lexes [OF lexes_lit])
  qed (rule tr_SimpleCriteria)
  then show ?case by (simp only: tr_def triple_def p_CompoundCriteria.simps)
qed

lemma tr_Compound: "tr nil p_Compound one_crit"
  using tr_CompoundCriteria unfolding tr_def triple_def p_Compound_def by blast

section \<open>Selectors and orders\<close>

definition strs :: "stack_item list \<Rightarrow> bool" where
  "strs i \<longleftrightarrow> i \<noteq> [] \<and> (\<forall>x \<in> set i. \<exists>w \<in> set simple_ops. x = StStr w)"

definition orders :: "stack_item list \<Rightarrow> bool" where
  "orders i \<longleftrightarrow> i \<noteq> [] \<and> (\<forall>x \<in> set i. \<exists>sp. wf_order [sp] \<and> x = StOrder sp)"

lemma captures_simple_op: "captures (p_text (p_switch
        [(''c'', p_lit ''counter''), (''t'', p_lit ''timestamp''), (''s'', p_lit ''source''),
         (''n'', p_lit ''namespace''), (''p'', p_lit ''publisher''), (''i'', p_lit ''id''),
         (''b'', p_lit ''body'')] (p_lit ''*''))) (\<lambda>w. w \<in> set simple_ops)"
  by (rule captures_text, intro lexes_switch; rule lexes_conseq [OF lexes_lit]) (auto simp: simple_ops_def)

lemma captures_order_op: "captures (p_text (p_switch
        [(''c'', p_lit ''counter''), (''t'', p_lit ''timestamp''), (''s'', p_lit ''source''),
         (''p'', p_lit ''publisher''), (''n'', p_lit ''namespace'')] (p_lit ''id''))) (\<lambda>w. w \<in> set order_ops)"
  by (rule captures_text, intro lexes_switch; rule lexes_conseq [OF lexes_lit]) (auto simp: order_ops_def)

lemma tr_SimpleSelector:
  "tr I p_SimpleSelector (\<lambda>i. \<exists>w j. w \<in> set simple_ops \<and> I j \<and> i = StStr w # j)"
  unfolding p_SimpleSelector_def p_seqs.simps by (rule tr_push [OF captures_simple_op])

lemma tr_CompoundSelector: "tr nil p_CompoundSelector strs"
proof -
  have 1: "tr nil p_SimpleSelector strs"
    by (rule tr_conseq [OF tr_SimpleSelector [of nil]]) (auto simp: strs_def nil_def)
  have "tr strs p_SimpleSelector strs"
    by (rule tr_conseq [OF tr_SimpleSelector [of strs]]) (auto simp: strs_def)
  then have star: "tr strs (p_star (p_seqs [p_lit '','', p_WSX, p_SimpleSelector])) strs"
    unfolding p_seqs.simps by (intro tr_star tr_seq [OF tr_lexes [OF lexes_lit]] tr_seq [OF tr_lexes [OF lexes_WSX]])
  show ?thesis unfolding p_CompoundSelector_def p_seqs.simps
    by (rule tr_seq [OF tr_lexes [OF lexes_lit]], rule tr_seq [OF 1],
        rule tr_seq [OF star [unfolded p_seqs.simps]], rule tr_lexes [OF lexes_lit])
qed

lemma tr_FunctionSelector: "tr nil p_FunctionSelector
  (\<lambda>i. \<exists>op sel. op \<in> set function_ops \<and> sel \<in> set simple_ops \<and> i = [StStr sel, StStr op])"
proof -
  have f: "captures (p_text (p_alt (p_lit ''COUNT'') (p_alt (p_lit ''MIN'') (p_lit ''MAX''))))
    (\<lambda>w. w \<in> set function_ops)"
    by (rule captures_text, intro lexes_alt; rule lexes_conseq [OF lexes_lit]) (auto simp: function_ops_def)
  show ?thesis
    unfolding p_FunctionSelector_def p_Function_def p_seqs.simps
    by (rule tr_conseq [where I = nil], rule tr_seq [OF tr_push [OF f]], rule tr_seq [OF tr_lexes [OF lexes_lit]],
        rule tr_seq [OF tr_SimpleSelector], rule tr_lexes [OF lexes_lit]) (auto simp: nil_def)
qed

lemma tr_OrderSelectorSpec: "tr nil p_OrderSelectorSpec (\<lambda>i. \<exists>sp. wf_order [sp] \<and> i = [StOrder sp])"
proof -
  define J where "J = (\<lambda>i. \<exists>sp. wf_order [sp] \<and> i = [StOrder sp])"
  have d: "captures (p_text (p_alt (p_lit ''ASC'') (p_lit ''DESC''))) (\<lambda>w. w \<in> {''ASC'', ''DESC''})"
    by (rule captures_text, intro lexes_alt; rule lexes_conseq [OF lexes_lit]) auto
  have "tr nil (p_seq (p_seq p_OrderSelector (p_act AAddOrderSelector))
      (p_opt (p_seq p_WS (p_seq p_OrderDir (p_act ASetOrderDir))))) J"
    unfolding p_OrderSelector_def p_OrderDir_def p_seqs.simps
  proof (rule tr_seq, rule tr_seq, rule tr_push [OF captures_order_op])
    show "tr (\<lambda>i. \<exists>w j. w \<in> set order_ops \<and> nil j \<and> i = StStr w # j) (p_act AAddOrderSelector) J"
      by (rule tr_act) (auto simp: addOrderSelector_def pops nil_def J_def wf_order_def)
    show "tr J (p_opt (p_seq p_WS (p_seq (p_seq (p_text (p_alt (p_lit ''ASC'') (p_lit ''DESC''))) (p_act APush))
        (p_act ASetOrderDir)))) J"
      by (intro tr_opt tr_seq [OF tr_lexes [OF lexes_WS]], rule tr_seq [OF tr_push [OF d]], rule tr_act)
         (auto simp: setOrderDir_def pops J_def wf_order_def)
  qed
  then show ?thesis unfolding p_OrderSelectorSpec_def p_seqs.simps J_def p_seq_assoc .
qed

lemma tr_OrderSpec: "tr nil p_OrderSpec orders"
proof -
  have "tr nil p_OrderSelectorSpec orders"
    by (rule tr_conseq [OF tr_OrderSelectorSpec]) (auto simp: orders_def)
  moreover have "tr orders p_OrderSelectorSpec orders"
    by (rule tr_frame [OF tr_OrderSelectorSpec]) (auto simp: orders_def)
  ultimately show ?thesis
    unfolding p_OrderSpec_def p_seqs.simps
    by (intro tr_seq [OF _ tr_star] tr_seq [OF tr_lexes [OF lexes_lit]] tr_seq [OF tr_lexes [OF lexes_WSX]])
qed

section \<open>Statements\<close>

text \<open>Between two clauses the stack is empty; \<open>at \<phi>\<close> is such a point, where the query satisfies \<open>\<phi>\<close>.\<close>

definition at :: "(Query \<Rightarrow> bool) \<Rightarrow> string \<Rightarrow> ParseState \<Rightarrow> bool" where
  "at \<phi> t ps \<longleftrightarrow> ps_stack ps = [] \<and> \<phi> (ps_query ps)"

lemma at_clause:
  assumes "tr nil p J"
    and "\<And>t ps. J (ps_stack ps) \<Longrightarrow> \<phi> (ps_query ps) \<Longrightarrow> \<exists>ps'. run_action a t ps = Ok ps' \<and> at \<psi> t ps'"
  shows "triple (at \<phi>) (p_seq p (p_act a)) (at \<psi>)"
proof (rule triple_seq)
  show "triple (at \<phi>) p (\<lambda>t ps. J (ps_stack ps) \<and> \<phi> (ps_query ps))"
    unfolding triple_def
  proof (intro allI impI)
    fix s toks r t ps
    assume p: "p s = Some (toks, r)" and a: "at \<phi> t ps"
    have "stk ps nil t ps" by (simp add: stk_def nil_def)
    with p assms(1) obtain t' ps' where r: "run_tokens (t, ps) toks = Ok (t', ps')" "stk ps J t' ps'"
      unfolding tr_def triple_def by blast
    moreover from r(2) a have "J (ps_stack ps') \<and> \<phi> (ps_query ps')" by (auto simp: stk_def at_def)
    ultimately show "\<exists>t' ps'. run_tokens (t, ps) toks = Ok (t', ps') \<and> J (ps_stack ps') \<and> \<phi> (ps_query ps')"
      by blast
  qed
  show "triple (\<lambda>t ps. J (ps_stack ps) \<and> \<phi> (ps_query ps)) (p_act a) (at \<psi>)"
    by (rule triple_act) (use assms(2) in blast)
qed

lemma at_captured:
  assumes "captures p T"
    and "\<And>t ps. T t \<Longrightarrow> at \<phi> t ps \<Longrightarrow> \<exists>ps'. run_action a t ps = Ok ps' \<and> at \<psi> t ps'"
  shows "triple (at \<phi>) (p_seq p (p_act a)) (at \<psi>)"
  by (rule triple_seq [OF triple_captures [OF assms(1), where Q = "\<lambda>t ps. T t \<and> at \<phi> t ps"] triple_act])
     (use assms(2) in \<open>auto simp: at_def\<close>)

lemma at_opt:
  "triple (at \<phi>) p (at \<psi>) \<Longrightarrow> (\<And>q. \<phi> q \<Longrightarrow> \<psi> q) \<Longrightarrow> triple (at \<phi>) (p_opt (p_seq p_WS p)) (at \<psi>)"
  by (rule triple_opt, rule triple_seq [OF triple_lexes [OF lexes_WS]]) (auto simp: at_def)

text \<open>A predicate for each part of the query; a clause changes one of them.\<close>

definition stage ::
  "(QuerySelector option \<Rightarrow> bool) \<Rightarrow> (string \<Rightarrow> bool) \<Rightarrow> (QueryCriteria option \<Rightarrow> bool) \<Rightarrow>
   (QueryOrderSpec list option \<Rightarrow> bool) \<Rightarrow> (int \<Rightarrow> bool) \<Rightarrow> Query \<Rightarrow> bool" where
  "stage S N K R L q \<longleftrightarrow>
     S (q_selector q) \<and> N (q_namespace q) \<and> K (q_criteria q) \<and> R (q_order q) \<and> L (q_limit q)"

definition has_selector :: "QuerySelector option \<Rightarrow> bool" where
  "has_selector s \<longleftrightarrow> (\<exists>sel. s = Some sel \<and> wf_selector sel)"

definition limit_ok :: "int \<Rightarrow> bool" where
  "limit_ok n \<longleftrightarrow> 0 \<le> n \<and> n \<le> int64_max"

lemma pop_strs_total:
  assumes "\<forall>x \<in> set i. \<exists>w \<in> W. x = StStr w" "ps_stack ps = i @ rest"
  shows "\<exists>ws. pop_strs (length i) acc ps = Ok (ws @ acc, ps\<lparr>ps_stack := rest\<rparr>) \<and>
    length ws = length i \<and> set ws \<subseteq> W"
  using assms
proof (induction i arbitrary: acc ps)
  case (Cons x i)
  then obtain w where w: "w \<in> W" "x = StStr w" by auto
  with Cons.prems have "pop_str ps = Ok (w, ps\<lparr>ps_stack := i @ rest\<rparr>)" by (simp add: pops)
  moreover from Cons.IH [of "ps\<lparr>ps_stack := i @ rest\<rparr>" "w # acc"] Cons.prems obtain ws where
    "pop_strs (length i) (w # acc) (ps\<lparr>ps_stack := i @ rest\<rparr>) = Ok (ws @ w # acc, ps\<lparr>ps_stack := rest\<rparr>)"
    "length ws = length i" "set ws \<subseteq> W" by auto
  ultimately show ?case using w by (intro exI [of _ "ws @ [w]"]) simp
qed simp

lemma pop_orders_total:
  assumes "\<forall>x \<in> set i. \<exists>w. W w \<and> x = StOrder w" "ps_stack ps = i @ rest"
  shows "\<exists>ws. pop_orders (length i) acc ps = Ok (ws @ acc, ps\<lparr>ps_stack := rest\<rparr>) \<and>
    length ws = length i \<and> (\<forall>w \<in> set ws. W w)"
  using assms
proof (induction i arbitrary: acc ps)
  case (Cons x i)
  then obtain w where w: "W w" "x = StOrder w" by auto
  with Cons.prems have "pop_order ps = Ok (w, ps\<lparr>ps_stack := i @ rest\<rparr>)" by (simp add: pops)
  moreover from Cons.IH [of "ps\<lparr>ps_stack := i @ rest\<rparr>" "w # acc"] Cons.prems obtain ws where
    "pop_orders (length i) (w # acc) (ps\<lparr>ps_stack := i @ rest\<rparr>) = Ok (ws @ w # acc, ps\<lparr>ps_stack := rest\<rparr>)"
    "length ws = length i" "\<forall>w \<in> set ws. W w" by auto
  ultimately show ?case using w by (intro exI [of _ "ws @ [w]"]) auto
qed simp

lemma at_Selector: "triple (at (stage S N K R L)) p_Selector (at (stage has_selector N K R L))"
  unfolding p_Selector_def p_seqs.simps
proof (intro triple_switch_Cons triple_switch_Nil)
  show "triple (at (stage S N K R L)) (p_seq p_FunctionSelector (p_act ASetFunctionSelector))
      (at (stage has_selector N K R L))"
    by (rule at_clause [OF tr_FunctionSelector])
       (auto simp: setFunctionSelector_def pops at_def has_selector_def stage_def)
  show "triple (at (stage S N K R L)) (p_seq p_SimpleSelector (p_act ASetSimpleSelector))
      (at (stage has_selector N K R L))"
    by (rule at_clause [OF tr_SimpleSelector [of nil]])
       (auto simp: setSimpleSelector_def pops at_def has_selector_def stage_def nil_def)
  show "triple (at (stage S N K R L)) (p_seq p_CompoundSelector (p_act ASetCompoundSelector))
      (at (stage has_selector N K R L))"
  proof (rule at_clause [OF tr_CompoundSelector])
    fix t and ps :: ParseState
    assume s: "strs (ps_stack ps)" and b: "stage S N K R L (ps_query ps)"
    from s pop_strs_total [of "ps_stack ps" "set simple_ops" ps "[]" "[]"] obtain ws where
      "pop_strs (sklen ps) [] ps = Ok (ws, ps\<lparr>ps_stack := []\<rparr>)" "ws \<noteq> []" "set ws \<subseteq> set simple_ops"
      unfolding strs_def sklen_def by force
    with b show "\<exists>ps'. run_action ASetCompoundSelector t ps = Ok ps' \<and> at (stage has_selector N K R L) t ps'"
      by (simp add: setCompoundSelector_def at_def has_selector_def stage_def)
  qed
qed

lemma at_Source: "triple (at (stage S N K R L)) p_Source (at (stage S wf_namespace K R L))"
proof -
  have "triple (at (stage S N K R L)) (p_seq p_Namespace (p_act ASetNamespace)) (at (stage S wf_namespace K R L))"
    by (rule at_captured [OF captures_Namespace]) (simp add: setNamespace_def at_def stage_def)
  then show ?thesis unfolding p_Source_def p_seqs.simps
    by (intro triple_seq [OF triple_lexes [OF lexes_lit]] triple_seq [OF triple_lexes [OF lexes_WS]])
qed

lemma at_Criteria:
  "triple (at (stage S N K R L)) p_Criteria (at (stage S N (pred_option wf_criteria) R L))"
proof -
  have "triple (at (stage S N K R L)) (p_seq (p_MultiCriteria p_Compound) (p_act ASetCriteria))
      (at (stage S N (pred_option wf_criteria) R L))"
    by (rule at_clause [OF tr_MultiCriteria [OF tr_Compound]])
       (auto simp: setCriteria_def pops one_crit_def at_def stage_def)
  then show ?thesis unfolding p_Criteria_def p_seqs.simps
    by (intro triple_seq [OF triple_lexes [OF lexes_lit]] triple_seq [OF triple_lexes [OF lexes_WS]])
qed

lemma at_Order: "triple (at (stage S N K R L)) p_Order (at (stage S N K (pred_option wf_order) L))"
proof -
  have "triple (at (stage S N K R L)) (p_seq p_OrderSpec (p_act ASetOrder))
      (at (stage S N K (pred_option wf_order) L))"
  proof (rule at_clause [OF tr_OrderSpec])
    fix t and ps :: ParseState
    assume s: "orders (ps_stack ps)" and b: "stage S N K R L (ps_query ps)"
    from s pop_orders_total [of "ps_stack ps" "\<lambda>sp. wf_order [sp]" ps "[]" "[]"] obtain ws where
      "pop_orders (sklen ps) [] ps = Ok (ws, ps\<lparr>ps_stack := []\<rparr>)" "ws \<noteq> []" "\<forall>w \<in> set ws. wf_order [w]"
      unfolding orders_def sklen_def by force
    moreover from this(2,3) have "wf_order ws" by (auto simp: wf_order_def list_all_iff)
    ultimately show "\<exists>ps'. run_action ASetOrder t ps = Ok ps' \<and> at (stage S N K (pred_option wf_order) L) t ps'"
      using b by (simp add: setOrder_def at_def stage_def)
  qed
  then show ?thesis unfolding p_Order_def p_seqs.simps
    by (intro triple_seq [OF triple_lexes [OF lexes_lit]] triple_seq [OF triple_lexes [OF lexes_WS]])
qed

lemma at_Limit: "triple (at (stage S N K R L)) p_Limit (at (stage S N K R limit_ok))"
proof -
  have "triple (at (stage S N K R L)) (p_seq p_UInt (p_act ASetLimit)) (at (stage S N K R limit_ok))"
  proof (rule at_captured [OF captures_lexemes(4)])
    fix t and ps :: ParseState
    assume "word_of is_digit t" "at (stage S N K R L) t ps"
    then show "\<exists>ps'. run_action ASetLimit t ps = Ok ps' \<and> at (stage S N K R limit_ok) t ps'"
      using Atoi_digits [of t] by (auto simp: setLimit_def at_def stage_def limit_ok_def int64_max_def)
  qed
  then show ?thesis unfolding p_Limit_def p_seqs.simps
    by (intro triple_seq [OF triple_lexes [OF lexes_lit]] triple_seq [OF triple_lexes [OF lexes_WS]])
qed

abbreviation at_start :: "string \<Rightarrow> ParseState \<Rightarrow> bool" where
  "at_start \<equiv> at (stage (\<lambda>s. True) (\<lambda>ns. True) (\<lambda>c. c = None) (\<lambda>specs. specs = None) (\<lambda>n. n = 0))"

lemma at_Select:
  "triple at_start p_Select (at (stage has_selector wf_namespace (pred_option wf_criteria) (pred_option wf_order) limit_ok))"
proof -
  have "triple (at (stage has_selector wf_namespace (\<lambda>c. c = None) (\<lambda>specs. specs = None) (\<lambda>n. n = 0)))
      (p_opt (p_seq p_WS p_Criteria))
      (at (stage has_selector wf_namespace (pred_option wf_criteria) (\<lambda>specs. specs = None) (\<lambda>n. n = 0)))"
    by (rule at_opt [OF at_Criteria]) (auto simp: stage_def)
  moreover have "triple (at (stage has_selector wf_namespace (pred_option wf_criteria) (\<lambda>specs. specs = None) (\<lambda>n. n = 0)))
      (p_opt (p_seq p_WS p_Order))
      (at (stage has_selector wf_namespace (pred_option wf_criteria) (pred_option wf_order) (\<lambda>n. n = 0)))"
    by (rule at_opt [OF at_Order]) (auto simp: stage_def)
  moreover have "triple (at (stage has_selector wf_namespace (pred_option wf_criteria) (pred_option wf_order) (\<lambda>n. n = 0)))
      (p_opt (p_seq p_WS p_Limit))
      (at (stage has_selector wf_namespace (pred_option wf_criteria) (pred_option wf_order) limit_ok))"
    by (rule at_opt [OF at_Limit]) (auto simp: stage_def limit_ok_def int64_max_def)
  ultimately show ?thesis unfolding p_Select_def p_seqs.simps
    by (intro triple_seq [OF triple_lexes [OF lexes_lit]] triple_seq [OF triple_lexes [OF lexes_WS]]
        triple_seq [OF at_Selector] triple_seq [OF at_Source] triple_seq)
qed

lemma at_Delete:
  "triple at_start p_Delete
     (at (stage (\<lambda>s. True) wf_namespace (pred_option wf_criteria) (\<lambda>specs. specs = None) limit_ok))"
proof -
  have "triple (at (stage (\<lambda>s. True) wf_namespace (\<lambda>c. c = None) (\<lambda>specs. specs = None) (\<lambda>n. n = 0)))
      (p_opt (p_seq p_WS p_Criteria))
      (at (stage (\<lambda>s. True) wf_namespace (pred_option wf_criteria) (\<lambda>specs. specs = None) (\<lambda>n. n = 0)))"
    by (rule at_opt [OF at_Criteria]) (auto simp: stage_def)
  moreover have "triple (at (stage (\<lambda>s. True) wf_namespace (pred_option wf_criteria) (\<lambda>specs. specs = None) (\<lambda>n. n = 0)))
      (p_opt (p_seq p_WS p_Limit))
      (at (stage (\<lambda>s. True) wf_namespace (pred_option wf_criteria) (\<lambda>specs. specs = None) limit_ok))"
    by (rule at_opt [OF at_Limit]) (auto simp: stage_def limit_ok_def int64_max_def)
  ultimately show ?thesis unfolding p_Delete_def p_seqs.simps
    by (intro triple_seq [OF triple_lexes [OF lexes_lit]] triple_seq [OF triple_lexes [OF lexes_WS]]
        triple_seq [OF at_Source] triple_seq)
qed

lemma lexes_EOF: "lexes p_EOF (\<lambda>w. True)"
  by (auto simp: lexes_def p_EOF_def split: list.splits)

lemma at_Grammar: "triple at_start p_Grammar (at wf_query)"
proof -
  have "triple at_start (p_seqs [p_Select, p_WSX, p_EOF, p_act ASetSelectOp]) (at wf_query)"
    unfolding p_seqs.simps
    by (rule triple_seq [OF at_Select], rule triple_seq [OF triple_lexes [OF lexes_WSX]],
        rule triple_seq [OF triple_lexes [OF lexes_EOF]], rule triple_act)
       (auto simp: setSelectOp_def at_def stage_def wf_query_def has_selector_def limit_ok_def)
  moreover have "triple at_start (p_seqs [p_Delete, p_WSX, p_EOF, p_act ASetDeleteOp]) (at wf_query)"
    unfolding p_seqs.simps
    by (rule triple_seq [OF at_Delete], rule triple_seq [OF triple_lexes [OF lexes_WSX]],
        rule triple_seq [OF triple_lexes [OF lexes_EOF]], rule triple_act)
       (auto simp: setDeleteOp_def at_def stage_def wf_query_def has_selector_def limit_ok_def)
  ultimately show ?thesis unfolding p_Grammar_def by (rule triple_alt)
qed

lemma Execute_Grammar:
  assumes "p_Grammar qs = Some (toks, rest)"
  obtains ps where "Execute toks init_ParseState = Ok ps" "wf_query (ps_query ps)"
proof -
  have "at_start [] init_ParseState"
    by (simp add: at_def stage_def init_ParseState_def empty_query_def)
  with assms at_Grammar obtain t' ps where "run_tokens ([], init_ParseState) toks = Ok (t', ps)" "at wf_query t' ps"
    unfolding triple_def by blast
  then show thesis using that by (simp add: Execute_def at_def)
qed

section \<open>Results\<close>

text \<open>C33: The parser never panics: whatever the query string, replaying the tokens of a match pops
  no empty stack and fails no type assertion; \<open>ParseQuery\<close> returns a query or an error.\<close>

theorem ParseQuery_never_panics: "\<not> panics (ParseQuery qs)"
proof (cases "p_Grammar qs")
  case (Some a)
  obtain toks rest where a: "a = (toks, rest)" by fastforce
  with Some obtain ps where "Execute toks init_ParseState = Ok ps" by (auto elim: Execute_Grammar)
  with Some a show ?thesis by (simp add: ParseQuery_def split: option.splits)
qed (simp add: ParseQuery_def)

text \<open>C34: Every query the parser returns is well-formed: its selector, namespace, operators, values
  and order directions are the grammar's, its limit and range values fit an int64, and a DELETE
  selects the id and has no order.\<close>

theorem ParseQuery_wf:
  assumes "ParseQuery qs = Ok q"
  shows "wf_query q"
proof (cases "p_Grammar qs")
  case (Some a)
  obtain toks rest where a: "a = (toks, rest)" by fastforce
  with Some obtain ps where "Execute toks init_ParseState = Ok ps" "wf_query (ps_query ps)"
    by (auto elim: Execute_Grammar)
  with assms Some a show ?thesis by (auto simp: ParseQuery_def split: option.splits)
qed (use assms in \<open>simp add: ParseQuery_def\<close>)

theorem ParseQuery_wf_witness:
  "\<exists>q. ParseQuery ''DELETE FROM foo.* WHERE publisher = abc AND counter > 3 LIMIT 7'' = Ok q \<and> wf_query q"
proof -
  have "ParseQuery ''DELETE FROM foo.* WHERE publisher = abc AND counter > 3 LIMIT 7'' =
    Ok \<lparr>q_Op = OpDelete, q_namespace = ''foo.*'', q_selector = Some (SimpleSelector ''id''),
     q_criteria = Some (CompoundCriteria ''AND'' (ValueCriteria ''='' ''publisher'' ''abc'') (RangeCriteria ''>'' ''counter'' 3)),
     q_order = None, q_limit = 7\<rparr>"
    by code_simp
  from this ParseQuery_wf [OF this] show ?thesis by blast
qed

end
