(* ===== verification/ParseRoundTrip.thy ===== *)
theory ParseRoundTrip
  imports ParseSafe
begin

text \<open>
  The nesting of criteria needs no fuel bound of its own: \<open>p_Compound\<close> satisfies the equation
  of the grammar. On it rests the round trip: a printer of queries, and the theorem that the
  parser returns every well-formed query from its printed form.
\<close>

section \<open>The recursive rule\<close>

definition agree :: "nat \<Rightarrow> parser \<Rightarrow> parser \<Rightarrow> bool" where
  "agree k p q \<longleftrightarrow> (\<forall>s. length s \<le> k \<longrightarrow> p s = q s)"

definition shrinks :: "parser \<Rightarrow> bool" where
  "shrinks p \<longleftrightarrow> (\<forall>s toks r. p s = Some (toks, r) \<longrightarrow> length r \<le> length s)"

lemma shrinks_lexes: "lexes p T \<Longrightarrow> shrinks p"
  unfolding shrinks_def lexes_def by fastforce

lemma shrinks_captures: "captures p T \<Longrightarrow> shrinks p"
  unfolding shrinks_def captures_def by fastforce

lemma shrinks_seq: "shrinks p \<Longrightarrow> shrinks q \<Longrightarrow> shrinks (p_seq p q)"
  unfolding shrinks_def p_seq_Some by (meson order_trans)

lemma shrinks_act: "shrinks (p_act a)"
  by (simp add: shrinks_def p_act_def)

lemma shrinks_star: "shrinks p \<Longrightarrow> shrinks (p_star p)"
  unfolding shrinks_def
proof (intro allI impI)
  fix s toks r
  assume p: "\<forall>s toks r. p s = Some (toks, r) \<longrightarrow> length r \<le> length s" and "p_star p s = Some (toks, r)"
  from this(2) show "length r \<le> length s"
  proof (rule p_star_induct_rule)
    show "length r' \<le> length s" if "p s = Some (t, r)" "length r' \<le> length r" for s t r r'
      using that p by (meson order_trans)
  qed simp
qed

lemma shrinks_switch_Cons: "shrinks p \<Longrightarrow> shrinks (p_switch cases d) \<Longrightarrow> shrinks (p_switch ((cs, p) # cases) d)"
  unfolding shrinks_def by (blast dest!: p_switch_cases)

lemma shrinks_switch_Nil: "shrinks d \<Longrightarrow> shrinks (p_switch [] d)"
  by (simp add: shrinks_def)

lemma agree_refl [simp]: "agree k p p"
  by (simp add: agree_def)

lemma agree_seq: "shrinks p \<Longrightarrow> agree k p p' \<Longrightarrow> agree k q q' \<Longrightarrow> agree k (p_seq p q) (p_seq p' q')"
  unfolding agree_def shrinks_def p_seq_def by (fastforce split: option.splits)

lemma agree_lit_seq:
  assumes "w \<noteq> []" "agree k q q'"
  shows "agree (Suc k) (p_seq (p_lit w) q) (p_seq (p_lit w) q')"
  unfolding agree_def
proof (intro allI impI)
  fix s :: string assume s: "length s \<le> Suc k"
  have "length (drop (length w) s) \<le> k" using s assms(1) by (cases w) auto
  with assms(2) have "q (drop (length w) s) = q' (drop (length w) s)" by (simp add: agree_def)
  then show "p_seq (p_lit w) q s = p_seq (p_lit w) q' s" by (simp add: p_seq_def p_lit_def)
qed

lemma agree_star:
  assumes "shrinks p" "agree k p p'"
  shows "agree k (p_star p) (p_star p')"
proof -
  have "length s \<le> k \<Longrightarrow> p_star p s = p_star p' s" for s
  proof (induction s rule: measure_induct_rule [where f = length])
    case (less s)
    then have "p s = p' s" using assms(2) by (simp add: agree_def)
    moreover have "p_star p r = p_star p' r" if "length r < length s" for r
      using less that by simp
    ultimately show ?case by (simp add: p_star.simps [of p s] p_star.simps [of p' s] split: option.splits)
  qed
  then show ?thesis by (simp add: agree_def)
qed

lemma agree_switch_Cons:
  "agree k p p' \<Longrightarrow> agree k (p_switch cs d) (p_switch cs' d) \<Longrightarrow>
   agree k (p_switch ((c, p) # cs) d) (p_switch ((c, p') # cs') d)"
proof -
  assume a: "agree k p p'" "agree k (p_switch cs d) (p_switch cs' d)"
  have "p_switch xs d [] = d []" for xs by (cases xs) auto
  with a show ?thesis by (auto simp: agree_def split: list.splits)
qed

lemma shrinks_tr_pieces:
  "shrinks (p_lit w)" "shrinks p_WS" "shrinks p_Boolean" "shrinks p_SimpleCriteria"
proof -
  note c = shrinks_captures [OF captures_text [OF lexes_any [OF lexes_lit]]]
    shrinks_captures [OF captures_text [OF lexes_alt [OF lexes_any [OF lexes_lit] lexes_any [OF lexes_lit]]]]
    captures_lexemes [THEN shrinks_captures] shrinks_lexes [OF lexes_WSX] shrinks_act
    shrinks_lexes [OF lexes_lit]
  have cmp: "captures (p_text (p_alt (p_lit ''<='') (p_alt (p_lit ''>='')
        (p_switch [(''>'', p_lit ''>''), (''!'', p_lit ''!=''), (''='', p_lit ''='')] (p_lit ''<'')))))
      (\<lambda>w. True)"
    by (rule captures_text, intro lexes_alt lexes_switch; rule lexes_any [OF lexes_lit])
  show "shrinks p_SimpleCriteria"
    unfolding p_SimpleCriteria_def p_WKICriteria_def p_RangeCriteria_def p_RangeSelector_def p_Comparison_def
      p_ValueCriteria_def p_IdCriteria_def p_PublisherCriteria_def p_SourceCriteria_def p_ValueCompare_def
      p_seqs.simps
    by (intro shrinks_switch_Cons shrinks_switch_Nil shrinks_seq c shrinks_captures [OF cmp])
  show "shrinks p_Boolean" unfolding p_Boolean_def p_seqs.simps by (intro shrinks_seq c)
  show "shrinks (p_lit w)" "shrinks p_WS" by (rule c, rule shrinks_lexes [OF lexes_WS])
qed

lemma shrinks_Multi: "shrinks p \<Longrightarrow> shrinks (p_MultiCriteria p)"
  unfolding p_MultiCriteria_def p_seqs.simps
  by (intro shrinks_seq shrinks_star shrinks_act shrinks_tr_pieces)

lemma shrinks_CompoundCriteria: "shrinks (p_CompoundCriteria n)"
proof (induction n)
  case 0
  then show ?case by (simp add: shrinks_def)
next
  case (Suc n)
  have "shrinks (p_switch
     [(''N'', p_seqs [p_lit ''NOT'', p_WS, p_CompoundCriteria n, p_act AAddNegatedCriteria]),
      (''('', p_seqs [p_lit ''('', p_MultiCriteria (p_CompoundCriteria n), p_lit '')''])]
     p_SimpleCriteria)"
    unfolding p_seqs.simps
    by (intro shrinks_switch_Cons shrinks_switch_Nil shrinks_seq shrinks_act shrinks_tr_pieces shrinks_Multi Suc)
  then show ?case by (simp only: shrinks_def p_CompoundCriteria.simps)
qed

lemma agree_Multi: "shrinks p \<Longrightarrow> agree k p p' \<Longrightarrow> agree k (p_MultiCriteria p) (p_MultiCriteria p')"
  unfolding p_MultiCriteria_def p_seqs.simps
  by (intro agree_seq agree_star agree_refl shrinks_seq shrinks_act shrinks_tr_pieces)

definition compound_step :: "parser \<Rightarrow> parser" where
  "compound_step p = p_switch
     [(''N'', p_seqs [p_lit ''NOT'', p_WS, p, p_act AAddNegatedCriteria]),
      (''('', p_seqs [p_lit ''('', p_MultiCriteria p, p_lit '')''])]
     p_SimpleCriteria"

lemma CompoundCriteria_Suc: "p_CompoundCriteria (Suc n) = compound_step (p_CompoundCriteria n)"
  by (rule ext) (simp add: compound_step_def)

lemma agree_step:
  assumes "shrinks p" "agree k p p'"
  shows "agree (Suc k) (compound_step p) (compound_step p')"
  unfolding compound_step_def p_seqs.simps
  by (intro agree_switch_Cons agree_refl agree_lit_seq agree_seq agree_Multi assms shrinks_tr_pieces shrinks_Multi)
     simp_all

lemma agree_base: "agree 0 (p_CompoundCriteria (Suc n)) (p_CompoundCriteria (Suc m))"
  by (simp add: agree_def)

lemma agree_CompoundCriteria: "n \<le> m \<Longrightarrow> agree n (p_CompoundCriteria (Suc n)) (p_CompoundCriteria (Suc m))"
proof (induction n arbitrary: m)
  case 0
  show ?case by (rule agree_base)
next
  case (Suc n)
  from Suc.prems obtain m' where m: "m = Suc m'" "n \<le> m'" by (cases m) auto
  from agree_step [OF shrinks_CompoundCriteria Suc.IH [OF m(2)]] m(1)
  show ?case by (simp only: CompoundCriteria_Suc [of "Suc n"] CompoundCriteria_Suc [of "Suc m'"])
qed

lemma agree_Compound: "agree n (p_CompoundCriteria (Suc n)) p_Compound"
  unfolding agree_def
proof (intro allI impI)
  fix s :: string assume "length s \<le> n"
  from agree_CompoundCriteria [OF this] show "p_CompoundCriteria (Suc n) s = p_Compound s"
    by (simp only: agree_def p_Compound_def)
qed

text \<open>The criteria rule satisfies the grammar's own recursive equation.\<close>

lemma p_Compound_unfold:
  "p_Compound = p_switch
     [(''N'', p_seqs [p_lit ''NOT'', p_WS, p_Compound, p_act AAddNegatedCriteria]),
      (''('', p_seqs [p_lit ''('', p_MultiCriteria p_Compound, p_lit '')''])]
     p_SimpleCriteria"
proof
  fix s
  have "p_Compound s = compound_step p_Compound s"
  proof (cases s)
    case Nil
    then show ?thesis by (simp add: p_Compound_def compound_step_def)
  next
    case (Cons c r)
    then have "p_Compound s = compound_step (p_CompoundCriteria (Suc (length r))) s"
      by (simp only: p_Compound_def CompoundCriteria_Suc [of "Suc (length r)"] list.size add_Suc_right add_0_right)
    also have "\<dots> = compound_step p_Compound s"
      using agree_step [OF shrinks_CompoundCriteria agree_Compound, of "length r"] Cons
      by (simp only: agree_def) simp
    finally show ?thesis .
  qed
  then show "p_Compound s = p_switch
     [(''N'', p_seqs [p_lit ''NOT'', p_WS, p_Compound, p_act AAddNegatedCriteria]),
      (''('', p_seqs [p_lit ''('', p_MultiCriteria p_Compound, p_lit '')''])]
     p_SimpleCriteria s" by (simp only: compound_step_def)
qed

text \<open>The fuel the model gives the criteria rule never runs out: any fuel above the length of the
  input gives the same match, and the rule satisfies the grammar's own recursive equation.\<close>

lemma criteria_fuel_enough:
  assumes "length s \<le> n"
  shows "p_CompoundCriteria (Suc n) s = p_Compound s \<and>
    p_Compound s = p_switch
     [(''N'', p_seqs [p_lit ''NOT'', p_WS, p_Compound, p_act AAddNegatedCriteria]),
      (''('', p_seqs [p_lit ''('', p_MultiCriteria p_Compound, p_lit '')''])]
     p_SimpleCriteria s"
proof
  have "agree (length s) (p_CompoundCriteria (Suc (length s))) (p_CompoundCriteria (Suc n))"
    by (rule agree_CompoundCriteria [OF assms])
  then show "p_CompoundCriteria (Suc n) s = p_Compound s"
    by (simp add: agree_def p_Compound_def del: p_CompoundCriteria.simps)
  show "p_Compound s = p_switch
     [(''N'', p_seqs [p_lit ''NOT'', p_WS, p_Compound, p_act AAddNegatedCriteria]),
      (''('', p_seqs [p_lit ''('', p_MultiCriteria p_Compound, p_lit '')''])]
     p_SimpleCriteria s"
    by (rule fun_cong [OF p_Compound_unfold])
qed

theorem criteria_fuel_enough_witness:
  "p_CompoundCriteria 31 ''(NOT wki=a OR counter>2)'' = p_Compound ''(NOT wki=a OR counter>2)'' \<and>
   p_Compound ''(NOT wki=a OR counter>2)'' \<noteq> None"
proof
  show "p_CompoundCriteria 31 ''(NOT wki=a OR counter>2)'' = p_Compound ''(NOT wki=a OR counter>2)''"
    using criteria_fuel_enough [of "''(NOT wki=a OR counter>2)''" 30] by (simp del: p_CompoundCriteria.simps)
  show "p_Compound ''(NOT wki=a OR counter>2)'' \<noteq> None" by code_simp
qed

section \<open>A printer\<close>

fun sel_str :: "QuerySelector \<Rightarrow> string" where
  "sel_str (SimpleSelector s) = s"
| "sel_str (CompoundSelector ss) = ''('' @ Join ss '', '' @ '')''"
| "sel_str (FunctionSelector op s) = op @ ''('' @ s @ '')''"

fun crit_str :: "QueryCriteria \<Rightarrow> string" where
  "crit_str (ValueCriteria op sel val) = sel @ op @ val"
| "crit_str (RangeCriteria op sel val) = sel @ op @ int_str val"
| "crit_str (IndexCriteria sel val) = sel @ ''='' @ val"
| "crit_str (CompoundCriteria op l r) = ''('' @ crit_str l @ '' '' @ op @ '' '' @ crit_str r @ '')''"
| "crit_str (NegatedCriteria e) = ''NOT '' @ crit_str e"

definition order_str :: "QueryOrderSpec \<Rightarrow> string" where
  "order_str sp = o_sel sp @ (if o_dir sp = [] then [] else '' '' @ o_dir sp)"

definition where_str :: "QueryCriteria option \<Rightarrow> string" where
  "where_str c = (case c of None \<Rightarrow> [] | Some c \<Rightarrow> '' WHERE '' @ crit_str c)"

definition orderby_str :: "QueryOrderSpec list option \<Rightarrow> string" where
  "orderby_str specs = (case specs of None \<Rightarrow> [] | Some specs \<Rightarrow> '' ORDER BY '' @ Join (map order_str specs) '', '')"

definition limit_str :: "int \<Rightarrow> string" where
  "limit_str n = (if n = 0 then [] else '' LIMIT '' @ int_str n)"

definition query_str :: "Query \<Rightarrow> string" where
  "query_str q =
     (case q_Op q of
        OpSelect \<Rightarrow> ''SELECT '' @ (case q_selector q of None \<Rightarrow> [] | Some sel \<Rightarrow> sel_str sel) @
          '' FROM '' @ q_namespace q @ where_str (q_criteria q) @ orderby_str (q_order q) @ limit_str (q_limit q)
      | OpDelete \<Rightarrow> ''DELETE FROM '' @ q_namespace q @ where_str (q_criteria q) @ limit_str (q_limit q))"

section \<open>Matching a known text\<close>

text \<open>
  \<open>takes p w r\<close>: on the text \<open>w\<close> before \<open>r\<close> the rule consumes \<open>w\<close> and adds no token.
  \<open>does p w r ps ps'\<close>: it consumes \<open>w\<close> and its tokens take the state \<open>ps\<close> to \<open>ps'\<close>.
\<close>

definition takes :: "parser \<Rightarrow> string \<Rightarrow> string \<Rightarrow> bool" where
  "takes p w r \<longleftrightarrow> p (w @ r) = Some ([], r)"

definition does :: "parser \<Rightarrow> string \<Rightarrow> string \<Rightarrow> ParseState \<Rightarrow> ParseState \<Rightarrow> bool" where
  "does p w r ps ps' \<longleftrightarrow>
     (\<exists>toks. p (w @ r) = Some (toks, r) \<and> (\<forall>t. \<exists>t'. run_tokens (t, ps) toks = Ok (t', ps')))"

lemma p_lit_append [simp]: "p_lit w (w @ r) = Some ([], r)"
  by (simp add: p_lit_def HasPrefix_def)

lemma takes_lit: "takes (p_lit w) w r"
  by (simp add: takes_def)

lemma takes_does: "takes p w r \<Longrightarrow> does p w r ps ps"
  by (simp add: takes_def does_def)

lemma takes_seq: "takes p v (w @ r) \<Longrightarrow> takes q w r \<Longrightarrow> takes (p_seq p q) (v @ w) r"
  by (simp add: takes_def p_seq_def)

lemma does_seq:
  assumes "does p v (w @ r) ps1 ps2" "does q w r ps2 ps3"
  shows "does (p_seq p q) (v @ w) r ps1 ps3"
proof -
  from assms(1) obtain a where a: "p (v @ w @ r) = Some (a, w @ r)"
    "\<And>t. \<exists>t'. run_tokens (t, ps1) a = Ok (t', ps2)" unfolding does_def by blast
  from assms(2) obtain b where b: "q (w @ r) = Some (b, r)"
    "\<And>t. \<exists>t'. run_tokens (t, ps2) b = Ok (t', ps3)" unfolding does_def by blast
  have "\<exists>t'. run_tokens (t, ps1) (a @ b) = Ok (t', ps3)" for t
  proof -
    from a(2) obtain t1 where "run_tokens (t, ps1) a = Ok (t1, ps2)" by blast
    moreover from b(2) obtain t2 where "run_tokens (t1, ps2) b = Ok (t2, ps3)" by blast
    ultimately show ?thesis by (simp add: run_tokens_append)
  qed
  moreover have "p_seq p q ((v @ w) @ r) = Some (a @ b, r)" using a(1) b(1) by (simp add: p_seq_def)
  ultimately show ?thesis unfolding does_def by blast
qed

lemma does_lit_seq: "does q w r ps ps' \<Longrightarrow> does (p_seq (p_lit v) q) (v @ w) r ps ps'"
  by (rule does_seq [OF takes_does [OF takes_lit]])

lemma does_act: "(\<And>t. run_action a t ps = Ok ps') \<Longrightarrow> does (p_act a) [] r ps ps'"
  by (auto simp: does_def p_act_def)

lemma does_seq_act:
  "does p w r ps1 ps2 \<Longrightarrow> (\<And>t. run_action a t ps2 = Ok ps3) \<Longrightarrow> does (p_seq p (p_act a)) w r ps1 ps3"
  using does_seq [of p w "[]" r ps1 ps2 "p_act a" ps3] does_act [of a ps2 ps3 r] by simp

lemma does_text_act:
  assumes "takes p w r" "run_action a w ps = Ok ps'"
  shows "does (p_seq (p_text p) (p_act a)) w r ps ps'"
  using assms by (simp add: takes_def does_def p_seq_def p_text_def p_act_def run_tokens_Cons)

lemma does_text_act_seq:
  assumes "takes p v (w @ r)" "run_action a v ps1 = Ok ps2" "does q w r ps2 ps3"
  shows "does (p_seq (p_text p) (p_seq (p_act a) q)) (v @ w) r ps1 ps3"
  unfolding p_seq_assoc [symmetric] by (rule does_seq [OF does_text_act [OF assms(1,2)] assms(3)])

definition stops :: "(char \<Rightarrow> bool) \<Rightarrow> string \<Rightarrow> bool" where
  "stops P r \<longleftrightarrow> (case r of [] \<Rightarrow> True | c # _ \<Rightarrow> \<not> P c)"

lemma stops_simps [simp]: "stops P []" "stops P (c # r) = (\<not> P c)"
  by (simp_all add: stops_def)

lemma takes_class_star: "list_all P w \<Longrightarrow> stops P r \<Longrightarrow> takes (p_star (p_class P)) w r"
proof (induction w)
  case Nil
  then show ?case
    by (auto simp: takes_def stops_def p_star.simps [of _ r] p_class_def split: list.splits)
next
  case (Cons c w)
  then show ?case
    by (simp add: takes_def p_star.simps [of _ "c # w @ r"] p_class_def)
qed

lemma takes_word: "word_of P w \<Longrightarrow> stops P r \<Longrightarrow> takes (p_plus (p_class P)) w r"
proof -
  assume w: "word_of P w" and r: "stops P r"
  from w obtain c v where c: "w = [c] @ v" "P c" "list_all P v" by (cases w) (auto simp: word_of_def)
  have "takes (p_class P) [c] (v @ r)" using c by (simp add: takes_def p_class_def)
  from takes_seq [OF this takes_class_star [OF c(3) r]] c(1) show ?thesis by (simp add: p_plus_def)
qed

definition blank_char :: "char \<Rightarrow> bool" where
  "blank_char c \<longleftrightarrow> c \<in> {CHR 0x09, CHR 0x0A, CHR 0x0D, CHR '' ''}"

lemma WhiteSpace_None: "stops blank_char r \<Longrightarrow> p_WhiteSpace r = None"
  by (cases r) (auto simp: p_WhiteSpace_def p_EOL_def p_alt_def p_lit_def HasPrefix_def blank_char_def)

lemma takes_WSX0: "stops blank_char r \<Longrightarrow> takes p_WSX [] r"
  by (simp add: takes_def p_WSX_def p_star.simps [of _ r] WhiteSpace_None)

lemma takes_WS: "stops blank_char r \<Longrightarrow> takes p_WS '' '' r"
  and takes_WSX: "stops blank_char r \<Longrightarrow> takes p_WSX '' '' r"
proof -
  assume r: "stops blank_char r"
  have 1: "p_WhiteSpace ('' '' @ r) = Some ([], r)"
    by (simp add: p_WhiteSpace_def p_lit_def HasPrefix_def)
  have 2: "p_star p_WhiteSpace r = Some ([], r)" using takes_WSX0 [OF r] by (simp add: takes_def p_WSX_def)
  show "takes p_WS '' '' r" using 1 2 by (simp add: takes_def p_WS_def p_plus_def p_seq_def)
  show "takes p_WSX '' '' r" using 1 2 by (simp add: takes_def p_WSX_def p_star.simps [of _ "CHR '' '' # r"])
qed

lemma does_WS_seq:
  "stops blank_char (w @ r) \<Longrightarrow> does q w r ps ps' \<Longrightarrow> does (p_seq p_WS q) ('' '' @ w) r ps ps'"
  by (rule does_seq [OF takes_does [OF takes_WS]])

lemma does_WSX0_seq:
  "stops blank_char (w @ r) \<Longrightarrow> does q w r ps ps' \<Longrightarrow> does (p_seq p_WSX q) w r ps ps'"
  using does_seq [OF takes_does [OF takes_WSX0], of w r q ps ps'] by simp

lemma does_star_Nil: "p r = None \<Longrightarrow> does (p_star p) [] r ps ps"
  by (simp add: does_def p_star.simps [of p r])

lemma does_star_Cons:
  assumes "does p v (w @ r) ps1 ps2" "v \<noteq> []" "does (p_star p) w r ps2 ps3"
  shows "does (p_star p) (v @ w) r ps1 ps3"
proof -
  from assms(1) obtain a where a: "p (v @ w @ r) = Some (a, w @ r)" unfolding does_def by blast
  from does_seq [OF assms(1,3)] a assms(2) show ?thesis
    by (simp add: does_def p_seq_def p_star.simps [of p "v @ w @ r"])
qed

lemma does_opt: "does p w r ps ps' \<Longrightarrow> does (p_opt p) w r ps ps'"
  by (auto simp: does_def p_opt_def)

lemma does_opt_None: "p r = None \<Longrightarrow> does (p_opt p) [] r ps ps"
  by (simp add: does_def p_opt_def)

lemma does_cong: "p (w @ r) = q (w @ r) \<Longrightarrow> does q w r ps ps' \<Longrightarrow> does p w r ps ps'"
  by (simp add: does_def)

lemma does_cong_seq:
  "p (w @ r) = p' (w @ r) \<Longrightarrow> does (p_seq p' q) w r ps ps' \<Longrightarrow> does (p_seq p q) w r ps ps'"
  by (rule does_cong) (simp_all add: p_seq_def)

section \<open>Criteria\<close>

definition follow :: "string \<Rightarrow> bool" where
  "follow r \<longleftrightarrow> (case r of [] \<Rightarrow> True | c # _ \<Rightarrow> c = CHR '' '' \<or> c = CHR '')'')"

lemma follow_simps [simp]: "follow []" "follow (c # r) = (c = CHR '' '' \<or> c = CHR '')'')"
  by (simp_all add: follow_def)

lemma follow_stops: "follow r \<Longrightarrow> \<not> P (CHR '' '') \<Longrightarrow> \<not> P (CHR '')'') \<Longrightarrow> stops P r"
  by (cases r) auto

lemma class_not_blank:
  "is_alnum c \<Longrightarrow> \<not> blank_char c" "id_char c \<Longrightarrow> \<not> blank_char c" "wki_char c \<Longrightarrow> \<not> blank_char c"
  "is_digit c \<Longrightarrow> \<not> blank_char c"
  by (auto simp: blank_char_def id_char_def wki_char_def is_alnum_def is_alpha_def is_digit_def digit_val_def)

lemma word_stops_blank:
  assumes "word_of P w" "\<And>c. P c \<Longrightarrow> \<not> blank_char c"
  shows "stops blank_char (w @ r)"
  using assms by (cases w) (auto simp: word_of_def)

lemma does_push_text: "takes p w r \<Longrightarrow> does (p_seq (p_text p) (p_act APush)) w r ps (push (StStr w) ps)"
  by (rule does_text_act) simp_all

lemma does_push_text_seq:
  "takes p v (w @ r) \<Longrightarrow> does q w r (push (StStr v) ps1) ps2 \<Longrightarrow>
   does (p_seq (p_text p) (p_seq (p_act APush) q)) (v @ w) r ps1 ps2"
  by (rule does_text_act_seq) simp_all

lemma takes_alt1: "takes p w r \<Longrightarrow> takes (p_alt p q) w r"
  by (simp add: takes_def p_alt_def)

lemma takes_alt2: "p (w @ r) = None \<Longrightarrow> takes q w r \<Longrightarrow> takes (p_alt p q) w r"
  by (simp add: takes_def p_alt_def)

lemma does_ValueCompare:
  "op \<in> {''='', ''!=''} \<Longrightarrow> does p_ValueCompare op r ps (push (StStr op) ps)"
  unfolding p_ValueCompare_def p_seqs.simps
  by (rule does_push_text) (auto simp: takes_def p_alt_def p_lit_def HasPrefix_code)

lemma does_value_form:
  assumes "op \<in> {''='', ''!=''}" "word_of P v" "\<And>c. P c \<Longrightarrow> \<not> blank_char c" "stops P r"
  shows "does (p_seqs [p_text (p_lit name), p_act APush, p_WSX, p_ValueCompare, p_WSX,
      p_text (p_plus (p_class P)), p_act APush]) (name @ op @ v) r ps
    (push (StStr v) (push (StStr op) (push (StStr name) ps)))"
  unfolding p_seqs.simps
proof (rule does_push_text_seq [OF takes_lit], rule does_WSX0_seq)
  show "stops blank_char ((op @ v) @ r)" using assms(1) by (auto simp: blank_char_def)
  have "does (p_seq p_WSX (p_seq (p_text (p_plus (p_class P))) (p_act APush))) v r
      (push (StStr op) (push (StStr name) ps)) (push (StStr v) (push (StStr op) (push (StStr name) ps)))"
    by (rule does_WSX0_seq [OF word_stops_blank [OF assms(2,3)]], assumption,
        rule does_push_text [OF takes_word [OF assms(2,4)]])
  then show "does (p_seq p_ValueCompare (p_seq p_WSX (p_seq (p_text (p_plus (p_class P))) (p_act APush)))) (op @ v) r
      (push (StStr name) ps) (push (StStr v) (push (StStr op) (push (StStr name) ps)))"
    by (rule does_seq [OF does_ValueCompare [OF assms(1)]])
qed

lemma does_ValueCriteria:
  assumes "wf_criteria (ValueCriteria op sel val)" "follow r"
  shows "does (p_seqs [p_ValueCriteria, p_act AAddValueCriteria]) (crit_str (ValueCriteria op sel val)) r ps
    (push (StCrit (ValueCriteria op sel val)) ps)"
proof -
  from assms(1) have op: "op \<in> {''='', ''!=''}" by simp
  have stops: "stops id_char r" "stops is_alnum r"
    using assms(2) by (auto intro!: follow_stops simp: alnum_not_special)
  have "does p_ValueCriteria (sel @ op @ val) r ps (push (StStr val) (push (StStr op) (push (StStr sel) ps)))"
  proof (cases "sel = ''id''")
    case True
    with assms(1) have "word_of id_char val" by auto
    from does_value_form [OF op this class_not_blank(2) stops(1), of "''id''"] True
    show ?thesis
      by (intro does_cong [of p_ValueCriteria _ _ p_IdCriteria])
         (simp_all add: p_ValueCriteria_def p_IdCriteria_def p_StatementId_def)
  next
    case False
    with assms(1) have sel: "sel = ''publisher'' \<or> sel = ''source''" and "word_of is_alnum val" by auto
    note form = does_value_form [OF op this(2) class_not_blank(1) stops(2)]
    from sel show ?thesis
    proof
      assume s: "sel = ''publisher''"
      from form [of "''publisher''"] show ?thesis unfolding s
        by (intro does_cong [of p_ValueCriteria _ _ p_PublisherCriteria])
           (simp_all add: p_ValueCriteria_def p_PublisherCriteria_def p_PublisherId_def)
    next
      assume s: "sel = ''source''"
      from form [of "''source''"] show ?thesis unfolding s
        by (intro does_cong [of p_ValueCriteria _ _ p_SourceCriteria])
           (simp_all add: p_ValueCriteria_def p_SourceCriteria_def p_PublisherId_def)
    qed
  qed
  then show ?thesis
    unfolding p_seqs.simps crit_str.simps by (rule does_seq_act) (simp add: addValueCriteria_def pops)
qed

lemma takes_comparison:
  assumes "op \<in> {''<='', ''<'', ''='', ''!='', ''>='', ''>''}" "word_of is_digit v"
  shows "takes (p_alt (p_lit ''<='') (p_alt (p_lit ''>='')
        (p_switch [(''>'', p_lit ''>''), (''!'', p_lit ''!=''), (''='', p_lit ''='')] (p_lit ''<'')))) op (v @ r)"
proof -
  have not_digit_eq: "\<not> is_digit (CHR ''='')" by (simp add: is_digit_def digit_val_def)
  from assms(2) obtain c v' where v: "v = c # v'" "c \<noteq> CHR ''=''"
    using not_digit_eq by (cases v) (auto simp: word_of_def)
  show ?thesis
    using assms(1) v(2) unfolding v(1)
    by (elim insertE) (auto simp: takes_def p_alt_def p_lit_def HasPrefix_code)
qed

lemma int_str_nonneg: "0 \<le> i \<Longrightarrow> int_str i = nat_str (nat i)"
  by (simp add: int_str_def)

lemma word_int_str: "0 \<le> i \<Longrightarrow> word_of is_digit (int_str i)"
  by (simp add: int_str_nonneg word_of_def nat_str_digits)

lemma does_RangeCriteria:
  assumes "wf_criteria (RangeCriteria op sel val)" "follow r"
  shows "does (p_seqs [p_RangeCriteria, p_act AAddRangeCriteria]) (crit_str (RangeCriteria op sel val)) r ps
    (push (StCrit (RangeCriteria op sel val)) ps)"
proof -
  from assms(1) have op: "op \<in> {''<='', ''<'', ''='', ''!='', ''>='', ''>''}"
    and sel: "sel \<in> {''timestamp'', ''counter''}" and val: "0 \<le> val" "val \<le> int64_max" by auto
  note w = word_int_str [OF val(1)]
  have stops: "stops is_digit r"
    using assms(2) by (rule follow_stops) (simp_all add: is_digit_def digit_val_def)
  have sel1: "takes (p_alt (p_lit ''timestamp'') (p_lit ''counter'')) sel x" for x
    using sel by (auto simp: takes_def p_alt_def p_lit_def HasPrefix_code)
  have "does (p_seq p_WSX (p_seq p_UInt (p_act APush))) (int_str val) r
      (push (StStr op) (push (StStr sel) ps)) (push (StStr (int_str val)) (push (StStr op) (push (StStr sel) ps)))"
    unfolding p_UInt_def
    by (rule does_WSX0_seq [OF word_stops_blank [OF w class_not_blank(4)]], assumption,
        rule does_push_text [OF takes_word [OF w stops]])
  then have "does (p_seq p_Comparison (p_seq p_WSX (p_seq p_UInt (p_act APush)))) (op @ int_str val) r
      (push (StStr sel) ps) (push (StStr (int_str val)) (push (StStr op) (push (StStr sel) ps)))"
    unfolding p_Comparison_def p_seqs.simps
    by (rule does_seq [OF does_push_text [OF takes_comparison [OF op w]]])
  moreover have "stops blank_char ((op @ int_str val) @ r)" using op by (auto simp: blank_char_def)
  ultimately have "does p_RangeCriteria (sel @ op @ int_str val) r ps
      (push (StStr (int_str val)) (push (StStr op) (push (StStr sel) ps)))"
    unfolding p_RangeCriteria_def p_RangeSelector_def p_seqs.simps
    by (intro does_seq [OF does_push_text [OF sel1]] does_WSX0_seq)
  moreover have "Atoi (int_str val) = Ok val" using val by (intro Atoi_int_str) (simp add: in_int64_def)
  ultimately show ?thesis
    unfolding p_seqs.simps crit_str.simps by (elim does_seq_act) (simp add: addRangeCriteria_def pops)
qed

lemma does_WKICriteria:
  assumes "wf_criteria (IndexCriteria sel val)" "follow r"
  shows "does (p_seqs [p_WKICriteria, p_act AAddIndexCriteria]) (crit_str (IndexCriteria sel val)) r ps
    (push (StCrit (IndexCriteria sel val)) ps)"
proof -
  from assms(1) have sel: "sel = ''wki''" and w: "word_of wki_char val" by auto
  have stops: "stops wki_char r" using assms(2) by (rule follow_stops) simp_all
  have "does (p_seq p_WSX (p_seq p_WKI (p_act APush))) val r
      (push (StStr sel) ps) (push (StStr val) (push (StStr sel) ps))"
    unfolding p_WKI_def
    by (rule does_WSX0_seq [OF word_stops_blank [OF w class_not_blank(3)]], assumption,
        rule does_push_text [OF takes_word [OF w stops]])
  then have "does (p_seq (p_lit ''='') (p_seq p_WSX (p_seq p_WKI (p_act APush)))) (''='' @ val) r
      (push (StStr sel) ps) (push (StStr val) (push (StStr sel) ps))"
    by (rule does_lit_seq)
  then have "does p_WKICriteria (sel @ ''='' @ val) r ps (push (StStr val) (push (StStr sel) ps))"
    unfolding p_WKICriteria_def p_seqs.simps sel
    by (intro does_push_text_seq [OF takes_lit] does_WSX0_seq) (simp_all add: blank_char_def)
  then show ?thesis
    unfolding p_seqs.simps crit_str.simps by (rule does_seq_act) (simp add: addIndexCriteria_def pops)
qed

lemma p_Compound_Cons:
  "p_Compound (c # s) =
     (if c = CHR ''N'' then p_seqs [p_lit ''NOT'', p_WS, p_Compound, p_act AAddNegatedCriteria] (c # s)
      else if c = CHR ''('' then p_seqs [p_lit ''('', p_MultiCriteria p_Compound, p_lit '')''] (c # s)
      else p_SimpleCriteria (c # s))"
  by (subst p_Compound_unfold) simp

text \<open>The first character decides which alternative a simple criterion takes.\<close>

lemma p_Compound_simple:
  "wf_criteria (ValueCriteria op sel val) \<Longrightarrow>
     p_Compound (sel @ w) = p_seqs [p_ValueCriteria, p_act AAddValueCriteria] (sel @ w)"
  "wf_criteria (RangeCriteria op sel i) \<Longrightarrow>
     p_Compound (sel @ w) = p_seqs [p_RangeCriteria, p_act AAddRangeCriteria] (sel @ w)"
  "p_Compound (''wki'' @ w) = p_seqs [p_WKICriteria, p_act AAddIndexCriteria] (''wki'' @ w)"
  by (auto simp: p_Compound_Cons p_SimpleCriteria_def)

text \<open>No criterion starts with a blank, and after one no further \<open>AND\<close> or \<open>OR\<close> follows by accident.\<close>

lemma crit_str_not_blank: "wf_criteria c \<Longrightarrow> stops blank_char (crit_str c @ r)"
  by (cases c) (auto simp: blank_char_def)

definition no_boolean :: "string \<Rightarrow> bool" where
  "no_boolean r \<longleftrightarrow> p_seqs [p_WS, p_Boolean, p_WS, p_Compound, p_act AAddCompoundCriteria] r = None"

lemma no_boolean_close: "no_boolean ('')'' @ r)"
  by (simp add: no_boolean_def p_seq_def p_WS_def p_plus_def p_WhiteSpace_def p_EOL_def p_alt_def p_lit_def
      HasPrefix_code)

lemma does_MultiCriteria_one:
  "does p_Compound w r ps ps' \<Longrightarrow> no_boolean r \<Longrightarrow> does (p_MultiCriteria p_Compound) w r ps ps'"
proof -
  assume "does p_Compound w r ps ps'" "no_boolean r"
  then have "does (p_MultiCriteria p_Compound) (w @ []) r ps ps'"
    unfolding p_MultiCriteria_def p_seqs.simps(2) p_seqs.simps(3) [of p_Compound]
    by (intro does_seq [OF _ does_star_Nil]) (simp_all add: no_boolean_def)
  then show ?thesis by simp
qed

lemma does_Compound:
  "wf_criteria c \<Longrightarrow> follow r \<Longrightarrow> does p_Compound (crit_str c) r ps (push (StCrit c) ps)"
proof (induction c arbitrary: r ps)
  case (ValueCriteria op sel val)
  show ?case
    by (rule does_cong [OF _ does_ValueCriteria [OF ValueCriteria]])
       (use p_Compound_simple(1) [OF ValueCriteria(1)] in simp)
next
  case (RangeCriteria op sel val)
  show ?case
    by (rule does_cong [OF _ does_RangeCriteria [OF RangeCriteria]])
       (use p_Compound_simple(2) [OF RangeCriteria(1)] in simp)
next
  case (IndexCriteria sel val)
  show ?case
    by (rule does_cong [OF _ does_WKICriteria [OF IndexCriteria]])
       (use p_Compound_simple(3) IndexCriteria(1) in simp)
next
  case (CompoundCriteria op a b)
  then have wf: "wf_criteria a" "wf_criteria b" "op \<in> {''AND'', ''OR''}" by auto
  define ps1 where "ps1 = push (StCrit a) ps"
  have op: "takes (p_alt (p_lit ''AND'') (p_lit ''OR'')) op x" for x
    using wf(3) by (auto simp: takes_def p_alt_def p_lit_def HasPrefix_code)
  have opb: "stops blank_char ((op @ x) @ y)" for x y using wf(3) by (auto simp: blank_char_def)
  have "does (p_seq p_WS (p_seq p_Compound (p_act AAddCompoundCriteria))) ('' '' @ crit_str b) ('')'' @ r)
      (push (StStr op) ps1) (push (StCrit (CompoundCriteria op a b)) ps)"
    by (intro does_WS_seq crit_str_not_blank wf(2), rule does_seq_act [OF CompoundCriteria.IH(2) [OF wf(2)]])
       (simp_all add: addCompoundCriteria_def pops ps1_def)
  then have body: "does (p_seqs [p_WS, p_Boolean, p_WS, p_Compound, p_act AAddCompoundCriteria])
      ('' '' @ op @ '' '' @ crit_str b) ('')'' @ r) ps1 (push (StCrit (CompoundCriteria op a b)) ps)"
    unfolding p_seqs.simps p_Boolean_def
    by (intro does_WS_seq [OF opb] does_seq [OF does_push_text [OF op]])
  have "does (p_star (p_seqs [p_WS, p_Boolean, p_WS, p_Compound, p_act AAddCompoundCriteria]))
      (('' '' @ op @ '' '' @ crit_str b) @ []) ('')'' @ r) ps1 (push (StCrit (CompoundCriteria op a b)) ps)"
    by (rule does_star_Cons [OF _ _ does_star_Nil])
       (use body no_boolean_close in \<open>simp_all add: no_boolean_def\<close>)
  moreover have "does p_Compound (crit_str a) (('' '' @ op @ '' '' @ crit_str b) @ '')'' @ r) ps ps1"
    unfolding ps1_def by (rule CompoundCriteria.IH(1) [OF wf(1)]) simp
  ultimately have "does (p_MultiCriteria p_Compound) (crit_str a @ '' '' @ op @ '' '' @ crit_str b) ('')'' @ r)
      ps (push (StCrit (CompoundCriteria op a b)) ps)"
    unfolding p_MultiCriteria_def p_seqs.simps(2,3) by (intro does_seq) simp_all
  from does_lit_seq [OF does_seq [OF this takes_does [OF takes_lit]], of "''(''"]
  have "does (p_seqs [p_lit ''('', p_MultiCriteria p_Compound, p_lit '')''])
      (crit_str (CompoundCriteria op a b)) r ps (push (StCrit (CompoundCriteria op a b)) ps)" by simp
  then show ?case by (rule does_cong [rotated]) (simp add: p_Compound_Cons)
next
  case (NegatedCriteria e)
  then have wf: "wf_criteria e" by simp
  have "does (p_seqs [p_lit ''NOT'', p_WS, p_Compound, p_act AAddNegatedCriteria]) (''NOT'' @ '' '' @ crit_str e) r ps
      (push (StCrit (NegatedCriteria e)) ps)"
    unfolding p_seqs.simps
    by (intro does_lit_seq does_WS_seq crit_str_not_blank wf, rule does_seq_act [OF NegatedCriteria.IH [OF wf]])
       (simp_all add: NegatedCriteria addNegatedCriteria_def pops)
  then have "does (p_seqs [p_lit ''NOT'', p_WS, p_Compound, p_act AAddNegatedCriteria])
      (crit_str (NegatedCriteria e)) r ps (push (StCrit (NegatedCriteria e)) ps)" by simp
  then show ?case by (rule does_cong [rotated]) (simp add: p_Compound_Cons)
qed

section \<open>Clauses\<close>

abbreviation idle :: "Query \<Rightarrow> ParseState" where
  "idle q \<equiv> \<lparr>ps_query = q, ps_stack = [], ps_err = None\<rparr>"

lemma simple_op_takes:
  "w \<in> set simple_ops \<Longrightarrow> takes (p_switch
        [(''c'', p_lit ''counter''), (''t'', p_lit ''timestamp''), (''s'', p_lit ''source''),
         (''n'', p_lit ''namespace''), (''p'', p_lit ''publisher''), (''i'', p_lit ''id''),
         (''b'', p_lit ''body'')] (p_lit ''*'')) w r"
  by (auto simp: simple_ops_def takes_def p_lit_def HasPrefix_code)

lemma order_op_takes:
  "w \<in> set order_ops \<Longrightarrow> takes (p_switch
        [(''c'', p_lit ''counter''), (''t'', p_lit ''timestamp''), (''s'', p_lit ''source''),
         (''p'', p_lit ''publisher''), (''n'', p_lit ''namespace'')] (p_lit ''id'')) w r"
  by (auto simp: order_ops_def takes_def p_lit_def HasPrefix_code)

lemma does_SimpleSelector: "w \<in> set simple_ops \<Longrightarrow> does p_SimpleSelector w r ps (push (StStr w) ps)"
  unfolding p_SimpleSelector_def p_seqs.simps by (rule does_push_text [OF simple_op_takes])

lemma ops_not_blank:
  "w \<in> set simple_ops \<Longrightarrow> stops blank_char (w @ r)" "w \<in> set order_ops \<Longrightarrow> stops blank_char (w @ r)"
  by (auto simp: simple_ops_def order_ops_def blank_char_def)

lemma Join_Cons: "ws \<noteq> [] \<Longrightarrow> Join (w # ws) sep = w @ sep @ Join ws sep"
  by (cases ws) auto

text \<open>A list separated by \<open>, \<close>, as the selectors and orders are.\<close>

lemma does_separated:
  assumes item: "\<And>x r ps. x \<in> set xs \<Longrightarrow> fol r \<Longrightarrow> does p (f x) r ps (push (g x) ps)"
    and blank: "\<And>x r. x \<in> set xs \<Longrightarrow> stops blank_char (f x @ r)"
    and stop: "stops (\<lambda>c. c = CHR '','') r" "fol r" and comma: "\<And>r. fol ('','' @ r)"
  shows "does (p_star (p_seqs [p_lit '','', p_WSX, p])) (concat (map (\<lambda>x. '', '' @ f x) xs)) r ps
    (ps\<lparr>ps_stack := rev (map g xs) @ ps_stack ps\<rparr>)"
  using assms(1,2)
proof (induction xs arbitrary: ps)
  case Nil
  have "p_seqs [p_lit '','', p_WSX, p] r = None"
    using stop by (cases r) (auto simp: p_seq_def p_lit_def HasPrefix_code)
  then have "does (p_star (p_seqs [p_lit '','', p_WSX, p])) [] r ps ps" by (rule does_star_Nil)
  then show ?case by simp
next
  case (Cons x xs)
  let ?more = "concat (map (\<lambda>x. '', '' @ f x) xs)"
  have "fol (?more @ r)" using stop comma by (cases xs) auto
  then have "does p (f x) (?more @ r) ps (push (g x) ps)" using Cons.prems(1) [of x] by simp
  note x = this
  have "does (p_seq p_WSX p) ('' '' @ f x) (?more @ r) ps (push (g x) ps)"
    by (rule does_seq [OF takes_does [OF takes_WSX] x]) (use Cons.prems(2) [of x] in simp)
  then have "does (p_seqs [p_lit '','', p_WSX, p]) ('','' @ '' '' @ f x) (?more @ r) ps (push (g x) ps)"
    unfolding p_seqs.simps by (rule does_lit_seq)
  moreover have "does (p_star (p_seqs [p_lit '','', p_WSX, p])) ?more r (push (g x) ps)
      ((push (g x) ps)\<lparr>ps_stack := rev (map g xs) @ ps_stack (push (g x) ps)\<rparr>)"
    using Cons.prems by (intro Cons.IH) auto
  ultimately have "does (p_star (p_seqs [p_lit '','', p_WSX, p])) (('','' @ '' '' @ f x) @ ?more) r ps
      ((push (g x) ps)\<lparr>ps_stack := rev (map g xs) @ ps_stack (push (g x) ps)\<rparr>)"
    by (intro does_star_Cons [where v = "'','' @ '' '' @ f x"]) simp_all
  then show ?case by (simp add: push_def)
qed

lemma Join_separated: "xs \<noteq> [] \<Longrightarrow> Join (map f xs) '', '' = f (hd xs) @ concat (map (\<lambda>x. '', '' @ f x) (tl xs))"
proof (induction xs)
  case (Cons x xs)
  then show ?case by (cases xs) auto
qed simp

lemma pop_strs_rev: "ps_stack ps = rev (map StStr ws) \<Longrightarrow> pop_strs (length ws) acc ps = Ok (ws @ acc, ps\<lparr>ps_stack := []\<rparr>)"
proof (induction ws arbitrary: acc ps rule: rev_induct)
  case (snoc w ws)
  then show ?case by (simp add: pops)
qed simp

lemma pop_orders_rev:
  "ps_stack ps = rev (map StOrder ws) \<Longrightarrow> pop_orders (length ws) acc ps = Ok (ws @ acc, ps\<lparr>ps_stack := []\<rparr>)"
proof (induction ws arbitrary: acc ps rule: rev_induct)
  case (snoc w ws)
  then show ?case by (simp add: pops)
qed simp

lemma does_Selector:
  assumes "wf_selector sel"
  shows "does p_Selector (sel_str sel) r (idle q) (idle (q\<lparr>q_selector := Some sel\<rparr>))"
proof (cases sel)
  case (SimpleSelector w)
  with assms have w: "w \<in> set simple_ops" by simp
  have "does (p_seqs [p_SimpleSelector, p_act ASetSimpleSelector]) w r (idle q) (idle (q\<lparr>q_selector := Some sel\<rparr>))"
    unfolding p_seqs.simps
    by (rule does_seq_act [OF does_SimpleSelector [OF w]]) (simp add: setSimpleSelector_def pops SimpleSelector)
  moreover have "p_Selector (w @ r) = p_seqs [p_SimpleSelector, p_act ASetSimpleSelector] (w @ r)"
    using w by (auto simp: p_Selector_def simple_ops_def)
  ultimately show ?thesis using SimpleSelector by (auto intro: does_cong)
next
  case (CompoundSelector ws)
  with assms have ws: "ws \<noteq> []" "set ws \<subseteq> set simple_ops" by auto
  let ?ps = "(idle q)\<lparr>ps_stack := rev (map StStr ws)\<rparr>"
  let ?more = "concat (map (\<lambda>x. '', '' @ x) (tl ws))"
  obtain w vs where c: "ws = w # vs" using ws(1) by (cases ws) auto
  have hd: "does p_SimpleSelector w (?more @ '')'' @ r) (idle q) (push (StStr w) (idle q))"
    by (rule does_SimpleSelector) (use ws c in auto)
  have star: "does (p_star (p_seqs [p_lit '','', p_WSX, p_SimpleSelector])) (concat (map (\<lambda>x. '', '' @ x) vs)) ('')'' @ r)
      (push (StStr w) (idle q)) ((push (StStr w) (idle q))\<lparr>ps_stack := rev (map StStr vs) @ ps_stack (push (StStr w) (idle q))\<rparr>)"
  proof (rule does_separated)
    show "does p_SimpleSelector x r ps (push (StStr x) ps)" if "x \<in> set vs" for x r ps
      using that ws c by (intro does_SimpleSelector) auto
    show "stops blank_char (x @ r)" if "x \<in> set vs" for x r
      using that ws c by (intro ops_not_blank(1)) auto
  qed (rule TrueI | simp)+
  have "does (p_seq p_SimpleSelector (p_seq (p_star (p_seqs [p_lit '','', p_WSX, p_SimpleSelector])) (p_lit '')'')))
      (w @ ?more @ '')'') r (idle q) ?ps"
    using does_seq [OF _ does_seq [OF star takes_does [OF takes_lit]], of p_SimpleSelector w "idle q"] hd
    unfolding c by (simp add: push_def)
  then have "does p_CompoundSelector (''('' @ w @ ?more @ '')'') r (idle q) ?ps"
    unfolding p_CompoundSelector_def p_seqs.simps(2,3) by (rule does_lit_seq)
  moreover have "sel_str sel = ''('' @ w @ ?more @ '')''"
    using CompoundSelector c Join_separated [OF ws(1), of "\<lambda>x. x"] by simp
  moreover have "run_action ASetCompoundSelector t ?ps = Ok (idle (q\<lparr>q_selector := Some sel\<rparr>))" for t
    using pop_strs_rev [of ?ps ws "[]"] CompoundSelector by (simp add: setCompoundSelector_def sklen_def)
  ultimately have "does (p_seqs [p_CompoundSelector, p_act ASetCompoundSelector]) (sel_str sel) r (idle q)
      (idle (q\<lparr>q_selector := Some sel\<rparr>))"
    unfolding p_seqs.simps by (metis does_seq_act)
  then show ?thesis by (rule does_cong [rotated]) (simp add: CompoundSelector p_Selector_def)
next
  case (FunctionSelector f w)
  with assms have w: "w \<in> set simple_ops" and f: "f \<in> set function_ops" by auto
  have "takes (p_alt (p_lit ''COUNT'') (p_alt (p_lit ''MIN'') (p_lit ''MAX''))) f x" for x
    using f by (auto simp: function_ops_def takes_def p_alt_def p_lit_def HasPrefix_code)
  then have "does p_FunctionSelector (f @ ''('' @ w @ '')'') r (idle q) (push (StStr w) (push (StStr f) (idle q)))"
    unfolding p_FunctionSelector_def p_Function_def p_seqs.simps
    by (intro does_seq [OF does_push_text] does_lit_seq does_seq [OF does_SimpleSelector [OF w]] takes_does [OF takes_lit])
  then have "does (p_seqs [p_FunctionSelector, p_act ASetFunctionSelector]) (sel_str sel) r (idle q)
      (idle (q\<lparr>q_selector := Some sel\<rparr>))"
    unfolding p_seqs.simps FunctionSelector sel_str.simps
    by (rule does_seq_act) (simp add: setFunctionSelector_def pops)
  then show ?thesis
    by (rule does_cong [rotated]) (use f in \<open>auto simp: FunctionSelector p_Selector_def function_ops_def\<close>)
qed

text \<open>The text after a clause: the end, or a blank before the next clause.\<close>

definition clause_end :: "string \<Rightarrow> bool" where
  "clause_end r \<longleftrightarrow> stops (\<lambda>c. c \<noteq> CHR '' '') r"

lemma clause_end_simps [simp]: "clause_end []" "clause_end (c # r) = (c = CHR '' '')"
  by (simp_all add: clause_end_def)

lemma clause_end_follow: "clause_end r \<Longrightarrow> follow r"
  by (cases r) auto

lemma clause_end_stops: "clause_end r \<Longrightarrow> \<not> P (CHR '' '') \<Longrightarrow> stops P r"
  by (cases r) auto

lemma takes_star_parts:
  assumes "list_all (word_of ns_char) ps" "stops ns_char r"
    and "p_seqs [p_lit ''.'', p_NamespacePart] r = None"
  shows "takes (p_star (p_seqs [p_lit ''.'', p_NamespacePart])) (concat (map ((#) (CHR ''.'')) ps)) r"
  using assms
proof (induction ps)
  case Nil
  then show ?case by (simp add: takes_def p_star.simps [of _ r])
next
  case (Cons w ps)
  let ?more = "concat (map ((#) (CHR ''.'')) ps)"
  have "stops ns_char (?more @ r)" using Cons.prems by (cases ps) auto
  then have "takes (p_seqs [p_lit ''.'', p_NamespacePart]) (''.'' @ w) (?more @ r)"
    unfolding p_seqs.simps p_NamespacePart_def using Cons.prems by (intro takes_seq takes_lit takes_word) auto
  moreover have "takes (p_star (p_seqs [p_lit ''.'', p_NamespacePart])) ?more r" using Cons by auto
  ultimately show ?case by (simp add: takes_def p_star.simps [of _ "CHR ''.'' # w @ ?more @ r"])
qed

lemma Namespace_parts:
  assumes "ps \<noteq> []" "list_all (word_of ns_char) ps" "clause_end r"
  shows "takes (p_seqs [p_NamespacePart, p_star (p_seqs [p_lit ''.'', p_NamespacePart]),
    p_opt (p_seqs [p_lit ''.'', p_Wildcard])]) (ns_render ps wild) r"
proof -
  obtain w vs where c: "ps = w # vs" using assms(1) by (cases ps) auto
  let ?more = "concat (map ((#) (CHR ''.'')) vs)"
  let ?wild = "if wild then ''.*'' else []"
  have J: "Join (w # vs) ''.'' = w @ ?more" by (induction vs arbitrary: w) auto
  have r: "stops ns_char r" using assms(3) by (rule clause_end_stops) simp
  have no_dot: "p_lit ''.'' r = None" using assms(3) by (cases r) (auto simp: p_lit_def HasPrefix_code)
  have no_part: "p_NamespacePart (CHR ''*'' # r) = None"
    by (simp add: p_NamespacePart_def p_plus_def p_seq_def p_class_def)
  have wild_stops: "stops ns_char (?wild @ r)" using r by auto
  have "p_seqs [p_lit ''.'', p_NamespacePart] (?wild @ r) = None"
    using no_dot no_part by (auto simp: p_seq_def p_lit_def HasPrefix_code)
  then have star: "takes (p_star (p_seqs [p_lit ''.'', p_NamespacePart])) ?more (?wild @ r)"
    using assms(2) c wild_stops by (intro takes_star_parts) auto
  have opt: "takes (p_opt (p_seqs [p_lit ''.'', p_Wildcard])) ?wild r"
    using no_dot by (auto simp: takes_def p_opt_def p_seq_def p_Wildcard_def p_lit_def HasPrefix_code)
  have "stops ns_char (?more @ ?wild @ r)" using wild_stops by (cases vs) auto
  then have "takes p_NamespacePart w (?more @ ?wild @ r)"
    unfolding p_NamespacePart_def using assms(2) c by (intro takes_word) auto
  then have "takes (p_seqs [p_NamespacePart, p_star (p_seqs [p_lit ''.'', p_NamespacePart]),
      p_opt (p_seqs [p_lit ''.'', p_Wildcard])]) (w @ ?more @ ?wild) r"
    unfolding p_seqs.simps(2,3) using star opt by (intro takes_seq) simp_all
  then show ?thesis using c J by (simp add: ns_render_def)
qed

lemma does_Source:
  assumes "wf_namespace ns" "clause_end r"
  shows "does p_Source (''FROM '' @ ns) r (idle q) (idle (q\<lparr>q_namespace := ns\<rparr>))"
proof -
  have act: "run_action ASetNamespace ns (idle q) = Ok (idle (q\<lparr>q_namespace := ns\<rparr>))"
    by (simp add: setNamespace_def)
  let ?parts = "p_seqs [p_NamespacePart, p_star (p_seqs [p_lit ''.'', p_NamespacePart]),
    p_opt (p_seqs [p_lit ''.'', p_Wildcard])]"
  have "does (p_seq p_Namespace (p_act ASetNamespace)) ns r (idle q) (idle (q\<lparr>q_namespace := ns\<rparr>))"
  proof (cases "ns = ''*''")
    case True
    have "does (p_seq (p_text p_Wildcard) (p_act ASetNamespace)) ns r (idle q) (idle (q\<lparr>q_namespace := ns\<rparr>))"
      by (rule does_text_act [OF _ act]) (simp add: True p_Wildcard_def takes_def p_lit_def HasPrefix_code)
    moreover have "p_Namespace (ns @ r) = p_text p_Wildcard (ns @ r)"
      by (simp add: True p_Namespace_def p_alt_def p_text_def p_NamespacePart_def p_plus_def p_seq_def p_class_def)
    ultimately show ?thesis by (rule does_cong_seq [rotated])
  next
    case False
    with assms(1) obtain ps wild where "ps \<noteq> []" "list_all (word_of ns_char) ps" "ns = ns_render ps wild"
      by (auto simp: wf_namespace_def)
    then have t: "takes ?parts ns r" using Namespace_parts assms(2) by blast
    then have "p_Namespace (ns @ r) = p_text ?parts (ns @ r)"
      by (simp add: p_Namespace_def p_alt_def p_text_def takes_def del: p_seqs_Cons)
    then show ?thesis by (rule does_cong_seq [OF _ does_text_act [OF t act]])
  qed
  moreover have "stops blank_char (ns @ r)"
  proof (cases ns)
    case (Cons c v)
    then have "ns_char c \<or> c = CHR ''.'' \<or> c = CHR ''*''" using wf_namespace_chars [OF assms(1)] by simp
    with Cons show ?thesis using class_not_blank(1) [of c] by (auto simp: ns_char_def blank_char_def)
  qed (use wf_namespace_nonempty [OF assms(1)] in simp)
  ultimately have "does p_Source (''FROM'' @ '' '' @ ns) r (idle q) (idle (q\<lparr>q_namespace := ns\<rparr>))"
    unfolding p_Source_def p_seqs.simps by (intro does_lit_seq does_WS_seq)
  then show ?thesis by simp
qed

lemma takes_WS_seq:
  "stops blank_char (w @ r) \<Longrightarrow> does q w r ps ps' \<Longrightarrow> does (p_opt (p_seq p_WS q)) ('' '' @ w) r ps ps'"
  by (intro does_opt does_WS_seq)

text \<open>An optional clause is skipped when the text goes on with another keyword.\<close>

lemma skip_clause:
  assumes "r = [] \<or> (\<exists>c v. r = '' '' @ c # v \<and> \<not> blank_char c \<and> c \<noteq> k)" "w = k # w'"
  shows "does (p_opt (p_seq p_WS (p_seq (p_lit w) q))) [] r ps ps"
proof (rule does_opt_None)
  from assms(1) show "p_seq p_WS (p_seq (p_lit w) q) r = None"
  proof (elim disjE exE conjE)
    assume "r = []"
    then show ?thesis by (simp add: p_seq_def p_WS_def p_plus_def WhiteSpace_None)
  next
    fix c v assume c: "r = '' '' @ c # v" "\<not> blank_char c" "c \<noteq> k"
    then have "p_WS r = Some ([], c # v)" using takes_WS [of "c # v"] by (simp add: takes_def)
    with c(3) assms(2) show ?thesis by (simp add: p_seq_def p_lit_def HasPrefix_code)
  qed
qed

definition next_keyword :: "char set \<Rightarrow> string \<Rightarrow> bool" where
  "next_keyword K r \<longleftrightarrow> r = [] \<or> (\<exists>c v. r = '' '' @ c # v \<and> c \<in> K)"

lemma next_keyword_clause_end: "next_keyword K r \<Longrightarrow> clause_end r"
  by (auto simp: next_keyword_def)

lemma next_keyword_no_boolean:
  assumes "next_keyword {CHR ''O'', CHR ''L''} r" "p_Boolean (tl r) = None \<or> (\<exists>v. r = '' ORDER'' @ v)"
  shows "no_boolean r"
proof (cases r)
  case Nil
  then show ?thesis by (simp add: no_boolean_def p_seq_def p_WS_def p_plus_def WhiteSpace_None)
next
  case (Cons x xs)
  with assms(1) obtain c v where r: "r = '' '' @ c # v" "c \<in> {CHR ''O'', CHR ''L''}"
    by (auto simp: next_keyword_def)
  then have ws: "p_WS r = Some ([], c # v)"
    using takes_WS [of "c # v"] by (auto simp: takes_def blank_char_def)
  from assms(2) show ?thesis
  proof
    assume "p_Boolean (tl r) = None"
    with ws r show ?thesis by (simp add: no_boolean_def p_seq_def)
  next
    assume "\<exists>v. r = '' ORDER'' @ v"
    then obtain v' where "c # v = ''ORDER'' @ v'" using r by auto
    moreover have "p_WS (''DER'' @ v') = None"
      by (simp add: p_WS_def p_plus_def p_seq_def WhiteSpace_None blank_char_def)
    moreover have "p_Boolean (''ORDER'' @ v') = Some ([PegText ''OR'', Act APush], ''DER'' @ v')"
      by (simp add: p_Boolean_def p_seq_def p_text_def p_alt_def p_lit_def p_act_def HasPrefix_code)
    ultimately show ?thesis using ws by (simp add: no_boolean_def p_seq_def)
  qed
qed

lemma clause_tails:
  "next_keyword {CHR ''L''} (limit_str n)"
  "next_keyword {CHR ''O'', CHR ''L''} (orderby_str specs @ limit_str n)"
  "next_keyword {CHR ''W'', CHR ''O'', CHR ''L''} (where_str c @ orderby_str specs @ limit_str n)"
  by (auto simp: next_keyword_def limit_str_def orderby_str_def where_str_def split: option.splits)

lemma tails_no_boolean: "no_boolean (orderby_str specs @ limit_str n)"
proof (rule next_keyword_no_boolean)
  show "next_keyword {CHR ''O'', CHR ''L''} (orderby_str specs @ limit_str n)" by (rule clause_tails)
  show "p_Boolean (tl (orderby_str specs @ limit_str n)) = None \<or> (\<exists>v. orderby_str specs @ limit_str n = '' ORDER'' @ v)"
    by (auto simp: limit_str_def orderby_str_def p_Boolean_def p_seq_def p_text_def p_alt_def p_lit_def HasPrefix_code
        split: option.splits)
qed

lemma does_where:
  assumes "pred_option wf_criteria c" "r = orderby_str specs @ limit_str n" "q_criteria q = None"
  shows "does (p_opt (p_seq p_WS p_Criteria)) (where_str c) r (idle q) (idle (q\<lparr>q_criteria := c\<rparr>))"
proof (cases c)
  case None
  have "does (p_opt (p_seq p_WS p_Criteria)) [] r (idle q) (idle q)"
    unfolding p_Criteria_def p_seqs.simps
    by (rule skip_clause [of r "CHR ''W''"])
       (use clause_tails(2) [of specs n] assms(2) in \<open>auto simp: next_keyword_def blank_char_def\<close>)
  moreover have "q\<lparr>q_criteria := c\<rparr> = q" using None assms(3) by (cases q) simp
  ultimately show ?thesis using None by (simp add: where_str_def)
next
  case (Some c')
  with assms(1) have wf: "wf_criteria c'" by simp
  have "follow r"
    unfolding assms(2) by (rule clause_end_follow [OF next_keyword_clause_end [OF clause_tails(2)]])
  then have "does (p_MultiCriteria p_Compound) (crit_str c') r (idle q) (push (StCrit c') (idle q))"
    using does_MultiCriteria_one [OF does_Compound [OF wf]] tails_no_boolean assms(2) by blast
  then have "does (p_seq (p_MultiCriteria p_Compound) (p_act ASetCriteria)) (crit_str c') r (idle q)
      (idle (q\<lparr>q_criteria := c\<rparr>))"
    by (rule does_seq_act) (simp add: setCriteria_def pops Some)
  then have "does p_Criteria (''WHERE'' @ '' '' @ crit_str c') r (idle q) (idle (q\<lparr>q_criteria := c\<rparr>))"
    unfolding p_Criteria_def p_seqs.simps by (intro does_lit_seq does_WS_seq crit_str_not_blank wf)
  from takes_WS_seq [OF _ this] show ?thesis by (simp add: where_str_def Some blank_char_def)
qed

lemma does_limit:
  assumes "0 \<le> n" "n \<le> int64_max" "q_limit q = 0"
  shows "does (p_opt (p_seq p_WS p_Limit)) (limit_str n) [] (idle q) (idle (q\<lparr>q_limit := n\<rparr>))"
proof (cases "n = 0")
  case True
  have "does (p_opt (p_seq p_WS p_Limit)) [] [] (idle q) (idle q)"
    unfolding p_Limit_def p_seqs.simps by (rule skip_clause) simp_all
  moreover have "q\<lparr>q_limit := n\<rparr> = q" using True assms(3) by (cases q) simp
  ultimately show ?thesis using True by (simp add: limit_str_def)
next
  case False
  note w = word_int_str [OF assms(1)]
  have "Atoi (int_str n) = Ok n" using assms by (intro Atoi_int_str) (simp add: in_int64_def)
  then have "does (p_seq p_UInt (p_act ASetLimit)) (int_str n) [] (idle q) (idle (q\<lparr>q_limit := n\<rparr>))"
    unfolding p_UInt_def by (intro does_text_act takes_word w) (simp_all add: setLimit_def)
  then have "does p_Limit (''LIMIT'' @ '' '' @ int_str n) [] (idle q) (idle (q\<lparr>q_limit := n\<rparr>))"
    unfolding p_Limit_def p_seqs.simps
    by (intro does_lit_seq does_WS_seq word_stops_blank [OF w] class_not_blank(4))
  from takes_WS_seq [OF _ this] False show ?thesis by (simp add: limit_str_def blank_char_def)
qed

section \<open>Orders\<close>

definition no_dir :: "string \<Rightarrow> bool" where
  "no_dir r \<longleftrightarrow> p_seq p_WS (p_seq p_OrderDir (p_act ASetOrderDir)) r = None"

lemma no_dir_comma: "no_dir ('','' @ r)"
  by (simp add: no_dir_def p_seq_def p_WS_def p_plus_def WhiteSpace_None blank_char_def)

lemma no_dir_limit: "no_dir (limit_str n)"
proof (cases "n = 0")
  case True
  then show ?thesis by (simp add: no_dir_def limit_str_def p_seq_def p_WS_def p_plus_def WhiteSpace_None)
next
  case False
  have "p_WS ('' '' @ ''LIMIT '' @ int_str n) = Some ([], ''LIMIT '' @ int_str n)"
    using takes_WS [of "''LIMIT '' @ int_str n"] by (simp add: takes_def blank_char_def)
  with False show ?thesis
    by (simp add: no_dir_def limit_str_def p_seq_def p_OrderDir_def p_text_def p_alt_def p_lit_def HasPrefix_code)
qed

lemma does_OrderSelectorSpec:
  assumes "wf_order [sp]" "no_dir r"
  shows "does p_OrderSelectorSpec (order_str sp) r ps (push (StOrder sp) ps)"
proof -
  from assms(1) have sel: "o_sel sp \<in> set order_ops" and dir: "o_dir sp \<in> {[], ''ASC'', ''DESC''}"
    by (simp_all add: wf_order_def)
  let ?sp = "\<lparr>o_sel = o_sel sp, o_dir = []\<rparr>"
  let ?tail = "if o_dir sp = [] then [] else '' '' @ o_dir sp"
  have opt: "does (p_opt (p_seq p_WS (p_seq p_OrderDir (p_act ASetOrderDir)))) ?tail r (push (StOrder ?sp) ps)
      (push (StOrder sp) ps)"
  proof (cases "o_dir sp = []")
    case True
    then have e: "?sp = sp" by (cases sp) simp
    have "does (p_opt (p_seq p_WS (p_seq p_OrderDir (p_act ASetOrderDir)))) [] r (push (StOrder ?sp) ps)
        (push (StOrder ?sp) ps)"
      using assms(2) by (intro does_opt_None) (simp add: no_dir_def)
    then show ?thesis using True unfolding e by simp
  next
    case False
    have t: "takes (p_alt (p_lit ''ASC'') (p_lit ''DESC'')) (o_dir sp) r"
      using dir False by (auto simp: takes_def p_alt_def p_lit_def HasPrefix_code)
    have "does (p_seq p_OrderDir (p_act ASetOrderDir)) (o_dir sp) r (push (StOrder ?sp) ps) (push (StOrder sp) ps)"
      unfolding p_OrderDir_def p_seqs.simps
      by (rule does_seq_act [OF does_push_text [OF t]]) (simp add: setOrderDir_def pops)
    moreover have "stops blank_char (o_dir sp @ r)" using dir False by (auto simp: blank_char_def)
    ultimately have "does (p_opt (p_seq p_WS (p_seq p_OrderDir (p_act ASetOrderDir)))) ('' '' @ o_dir sp) r
        (push (StOrder ?sp) ps) (push (StOrder sp) ps)" by (intro takes_WS_seq)
    with False show ?thesis by simp
  qed
  have "does p_OrderSelector (o_sel sp) (?tail @ r) ps (push (StStr (o_sel sp)) ps)"
    unfolding p_OrderSelector_def p_seqs.simps by (rule does_push_text [OF order_op_takes [OF sel]])
  then have "does (p_seq p_OrderSelector (p_act AAddOrderSelector)) (o_sel sp) (?tail @ r) ps (push (StOrder ?sp) ps)"
    by (rule does_seq_act) (simp add: addOrderSelector_def pops)
  from does_seq [OF this opt] show ?thesis
    unfolding p_OrderSelectorSpec_def p_seqs.simps order_str_def p_seq_assoc .
qed

lemma order_str_not_blank: "wf_order [sp] \<Longrightarrow> stops blank_char (order_str sp @ r)"
  unfolding order_str_def append_assoc by (rule ops_not_blank(2)) (simp add: wf_order_def)

lemma does_Order:
  assumes "pred_option wf_order specs" "r = limit_str n" "q_order q = None"
  shows "does (p_opt (p_seq p_WS p_Order)) (orderby_str specs) r (idle q) (idle (q\<lparr>q_order := specs\<rparr>))"
proof (cases specs)
  case None
  have "does (p_opt (p_seq p_WS p_Order)) [] r (idle q) (idle q)"
    unfolding p_Order_def p_seqs.simps
    by (rule skip_clause [of r "CHR ''O''"])
       (use clause_tails(1) [of n] assms(2) in \<open>auto simp: next_keyword_def blank_char_def\<close>)
  moreover have "q\<lparr>q_order := specs\<rparr> = q" using None assms(3) by (cases q) simp
  ultimately show ?thesis using None by (simp add: orderby_str_def)
next
  case (Some sps)
  with assms(1) have wf: "sps \<noteq> []" "\<And>x. x \<in> set sps \<Longrightarrow> wf_order [x]"
    by (auto simp: wf_order_def list_all_iff)
  obtain x xs where c: "sps = x # xs" using wf(1) by (cases sps) auto
  let ?more = "concat (map (\<lambda>x. '', '' @ order_str x) xs)"
  have fol: "no_dir r" using no_dir_limit assms(2) by simp
  have more: "no_dir (?more @ r)" using fol no_dir_comma by (cases xs) auto
  have star: "does (p_star (p_seqs [p_lit '','', p_WSX, p_OrderSelectorSpec])) ?more r (push (StOrder x) (idle q))
      ((push (StOrder x) (idle q))\<lparr>ps_stack := rev (map StOrder xs) @ ps_stack (push (StOrder x) (idle q))\<rparr>)"
  proof (rule does_separated [where fol = no_dir])
    show "does p_OrderSelectorSpec (order_str y) r ps (push (StOrder y) ps)" if "y \<in> set xs" "no_dir r" for y r ps
      using that wf c by (intro does_OrderSelectorSpec) auto
    show "stops blank_char (order_str y @ r)" if "y \<in> set xs" for y r
      using that wf c by (intro order_str_not_blank) auto
    show "stops (\<lambda>c. c = CHR '','') r"
      using clause_end_stops [OF next_keyword_clause_end [OF clause_tails(1)]] assms(2) by simp
  qed (use fol no_dir_comma in simp_all)
  have "does p_OrderSpec (order_str x @ ?more) r (idle q) ((idle q)\<lparr>ps_stack := rev (map StOrder sps)\<rparr>)"
    using does_seq [OF does_OrderSelectorSpec [OF wf(2) more] star] c
    by (simp add: p_OrderSpec_def push_def)
  then have "does (p_seq p_OrderSpec (p_act ASetOrder)) (order_str x @ ?more) r (idle q)
      (idle (q\<lparr>q_order := specs\<rparr>))"
    by (rule does_seq_act)
       (use pop_orders_rev [of "(idle q)\<lparr>ps_stack := rev (map StOrder sps)\<rparr>" sps "[]"] Some
        in \<open>simp add: setOrder_def sklen_def\<close>)
  moreover have "stops blank_char ((order_str x @ ?more) @ r)"
    using order_str_not_blank [OF wf(2), of x "?more @ r"] c by simp
  ultimately have "does p_Order (''ORDER'' @ '' '' @ ''BY'' @ '' '' @ order_str x @ ?more) r (idle q)
      (idle (q\<lparr>q_order := specs\<rparr>))"
    unfolding p_Order_def p_seqs.simps
    by (intro does_lit_seq does_WS_seq) (simp_all add: blank_char_def)
  from takes_WS_seq [OF _ this] show ?thesis
    using Join_separated [OF wf(1), of order_str] c by (simp add: orderby_str_def Some blank_char_def)
qed

section \<open>The round trip\<close>

lemma sel_str_not_blank: "wf_selector sel \<Longrightarrow> stops blank_char (sel_str sel @ r)"
  by (cases sel) (auto simp: simple_ops_def function_ops_def blank_char_def)

lemma does_clauses:
  assumes "wf_query q"
  shows "does p_Source (''FROM '' @ q_namespace q) (where_str (q_criteria q) @ orderby_str specs @ limit_str (q_limit q))
     (idle q0) (idle (q0\<lparr>q_namespace := q_namespace q\<rparr>))"
  using assms next_keyword_clause_end [OF clause_tails(3)]
  by (intro does_Source) (simp_all add: wf_query_def)

lemma does_Select:
  assumes "wf_query q" "q_Op q = OpSelect"
  shows "does p_Select (query_str q) [] (idle empty_query) (idle (q\<lparr>q_Op := q_Op empty_query\<rparr>))"
proof -
  from assms obtain sel where sel: "q_selector q = Some sel" "wf_selector sel"
    and wf: "wf_namespace (q_namespace q)" "pred_option wf_criteria (q_criteria q)"
      "pred_option wf_order (q_order q)" "0 \<le> q_limit q" "q_limit q \<le> int64_max"
    by (auto simp: wf_query_def)
  define q1 where "q1 = empty_query\<lparr>q_selector := Some sel\<rparr>"
  define q2 where "q2 = q1\<lparr>q_namespace := q_namespace q\<rparr>"
  define q3 where "q3 = q2\<lparr>q_criteria := q_criteria q\<rparr>"
  define q4 where "q4 = q3\<lparr>q_order := q_order q\<rparr>"
  note qs = q1_def q2_def q3_def q4_def empty_query_def
  let ?l = "limit_str (q_limit q)" and ?o = "orderby_str (q_order q)" and ?w = "where_str (q_criteria q)"
  have "does (p_opt (p_seq p_WS p_Limit)) ?l [] (idle q4) (idle (q4\<lparr>q_limit := q_limit q\<rparr>))"
    by (rule does_limit [OF wf(4,5)]) (simp add: qs)
  moreover have "q4\<lparr>q_limit := q_limit q\<rparr> = q\<lparr>q_Op := q_Op empty_query\<rparr>" by (cases q) (use sel in \<open>simp add: qs\<close>)
  ultimately have l: "does (p_opt (p_seq p_WS p_Limit)) ?l [] (idle q4) (idle (q\<lparr>q_Op := q_Op empty_query\<rparr>))"
    by simp
  have o: "does (p_opt (p_seq p_WS p_Order)) ?o (?l @ []) (idle q3) (idle q4)"
    unfolding q4_def by (rule does_Order [OF wf(3)]) (simp_all add: qs)
  have w: "does (p_opt (p_seq p_WS p_Criteria)) ?w ((?o @ ?l) @ []) (idle q2) (idle q3)"
    unfolding q3_def by (rule does_where [OF wf(2)]) (simp_all add: qs)
  have s: "does p_Source (''FROM '' @ q_namespace q) ((?w @ ?o @ ?l) @ []) (idle q1) (idle q2)"
    unfolding q2_def append_Nil2 by (rule does_clauses [OF assms(1)])
  note tail = does_seq [OF s does_seq [OF w does_seq [OF o l]]]
  have b: "stops blank_char (((''FROM '' @ q_namespace q) @ ?w @ ?o @ ?l) @ [])" by (simp add: blank_char_def)
  have sl: "does p_Selector (sel_str sel) x (idle empty_query) (idle q1)" for x
    unfolding q1_def by (rule does_Selector [OF sel(2)])
  have "does p_Select (''SELECT'' @ '' '' @ sel_str sel @ '' '' @ (''FROM '' @ q_namespace q) @ ?w @ ?o @ ?l) []
      (idle empty_query) (idle (q\<lparr>q_Op := q_Op empty_query\<rparr>))"
    unfolding p_Select_def p_seqs.simps
    by (intro does_lit_seq does_WS_seq does_seq [OF sl] tail b)
       (use sel_str_not_blank [OF sel(2)] in simp)
  then show ?thesis by (simp add: query_str_def assms(2) sel(1))
qed

lemma does_Delete:
  assumes "wf_query q" "q_Op q = OpDelete"
  shows "does p_Delete (query_str q) [] (idle empty_query)
    (idle (q\<lparr>q_Op := q_Op empty_query, q_selector := q_selector empty_query\<rparr>))"
proof -
  from assms have wf: "wf_namespace (q_namespace q)" "pred_option wf_criteria (q_criteria q)"
      "q_order q = None" "0 \<le> q_limit q" "q_limit q \<le> int64_max"
    by (auto simp: wf_query_def)
  define q2 where "q2 = empty_query\<lparr>q_namespace := q_namespace q\<rparr>"
  define q3 where "q3 = q2\<lparr>q_criteria := q_criteria q\<rparr>"
  note qs = q2_def q3_def empty_query_def
  let ?l = "limit_str (q_limit q)" and ?w = "where_str (q_criteria q)"
  have "does (p_opt (p_seq p_WS p_Limit)) ?l [] (idle q3) (idle (q3\<lparr>q_limit := q_limit q\<rparr>))"
    by (rule does_limit [OF wf(4,5)]) (simp add: qs)
  moreover have "q3\<lparr>q_limit := q_limit q\<rparr> = q\<lparr>q_Op := q_Op empty_query, q_selector := q_selector empty_query\<rparr>"
    by (cases q) (use wf(3) in \<open>simp add: qs\<close>)
  ultimately have l: "does (p_opt (p_seq p_WS p_Limit)) ?l [] (idle q3)
      (idle (q\<lparr>q_Op := q_Op empty_query, q_selector := q_selector empty_query\<rparr>))" by simp
  have w: "does (p_opt (p_seq p_WS p_Criteria)) ?w (?l @ []) (idle q2) (idle q3)"
    unfolding q3_def
    by (rule does_where [OF wf(2), where specs = None]) (simp_all add: qs orderby_str_def)
  have s: "does p_Source (''FROM '' @ q_namespace q) ((?w @ ?l) @ []) (idle empty_query) (idle q2)"
    using does_clauses [OF assms(1), of None empty_query] unfolding q2_def by (simp add: orderby_str_def)
  note tail = does_seq [OF s does_seq [OF w l]]
  have b: "stops blank_char (((''FROM '' @ q_namespace q) @ ?w @ ?l) @ [])" by (simp add: blank_char_def)
  have "does p_Delete (''DELETE'' @ '' '' @ (''FROM '' @ q_namespace q) @ ?w @ ?l) []
      (idle empty_query) (idle (q\<lparr>q_Op := q_Op empty_query, q_selector := q_selector empty_query\<rparr>))"
    unfolding p_Delete_def p_seqs.simps by (intro does_lit_seq does_WS_seq tail b)
  then show ?thesis by (simp add: query_str_def assms(2))
qed

lemma does_tail:
  assumes "does p w [] (idle empty_query) (idle q')" "\<And>t. run_action a t (idle q') = Ok (idle q)"
  shows "does (p_seqs [p, p_WSX, p_EOF, p_act a]) w [] (idle empty_query) (idle q)"
proof -
  have "does (p_seq p_WSX (p_seq p_EOF (p_act a))) [] [] (idle q') (idle q)"
    using assms(2) does_WSX0_seq [of "[]" "[]" "p_seq p_EOF (p_act a)" "idle q'" "idle q"]
    by (simp add: does_def p_seq_def p_EOF_def p_act_def)
  from does_seq [OF _ this, of p w] assms(1) show ?thesis by simp
qed

lemma does_Grammar:
  assumes "wf_query q"
  shows "does p_Grammar (query_str q) [] (idle empty_query) (idle q)"
proof (cases "q_Op q")
  case OpSelect
  have "run_action ASetSelectOp t (idle (q\<lparr>q_Op := q_Op empty_query\<rparr>)) = Ok (idle q)" for t
    by (cases q) (use OpSelect in \<open>simp add: setSelectOp_def\<close>)
  from does_tail [OF does_Select [OF assms OpSelect] this] show ?thesis
    by (auto simp: does_def p_Grammar_def p_alt_def)
next
  case OpDelete
  from assms OpDelete have sel: "q_selector q = Some (SimpleSelector ''id'')" by (simp add: wf_query_def)
  have "run_action ASetDeleteOp t (idle (q\<lparr>q_Op := q_Op empty_query, q_selector := q_selector empty_query\<rparr>)) =
      Ok (idle q)" for t
    by (cases q) (use OpDelete sel in \<open>simp add: setDeleteOp_def\<close>)
  from does_tail [OF does_Delete [OF assms OpDelete] this]
  have "does (p_seqs [p_Delete, p_WSX, p_EOF, p_act ASetDeleteOp]) (query_str q) [] (idle empty_query) (idle q)" .
  moreover have "p_seqs [p_Select, p_WSX, p_EOF, p_act ASetSelectOp] (query_str q @ []) = None"
    by (simp add: query_str_def OpDelete p_Select_def p_seq_def p_lit_def HasPrefix_code)
  ultimately show ?thesis
    by (simp only: does_def p_Grammar_def p_alt_def option.case)
qed

text \<open>C32: Every well-formed query is the result of parsing its printed form: the grammar reaches every
  selector, criteria tree, order and limit, and the actions build exactly the tree that was
  written.\<close>

theorem ParseQuery_query_str:
  assumes "wf_query q"
  shows "ParseQuery (query_str q) = Ok q"
proof -
  from does_Grammar [OF assms] obtain toks t' where
    "p_Grammar (query_str q) = Some (toks, [])" "run_tokens ([], idle empty_query) toks = Ok (t', idle q)"
    unfolding does_def by fastforce
  then show ?thesis by (simp add: ParseQuery_def Execute_def init_ParseState_def)
qed

definition printed_query :: Query where
  "printed_query = \<lparr>q_Op = OpSelect, q_namespace = ''images.dpla.*'', q_selector = Some (CompoundSelector [''id'', ''body'']),
     q_criteria = Some (CompoundCriteria ''OR'' (NegatedCriteria (IndexCriteria ''wki'' ''dpla:42''))
       (RangeCriteria ''>='' ''counter'' 10)),
     q_order = Some [\<lparr>o_sel = ''timestamp'', o_dir = ''DESC''\<rparr>, \<lparr>o_sel = ''id'', o_dir = []\<rparr>], q_limit = 5\<rparr>"

lemma printed_query_wf: "wf_query printed_query"
  unfolding wf_query_def wf_namespace_def
  by (intro conjI disjI2 exI [of _ "[''images'', ''dpla'']"] exI [of _ True])
     (simp_all add: printed_query_def ns_render_def word_of_def simple_ops_def order_ops_def wf_order_def
       ns_char_def wki_char_def is_alnum_def is_alpha_def is_digit_def digit_val_def int64_max_def)

theorem ParseQuery_query_str_witness: "ParseQuery (query_str printed_query) = Ok printed_query"
  by (rule ParseQuery_query_str [OF printed_query_wf])

lemma printed_query_str: "query_str printed_query =
   ''SELECT (id, body) FROM images.dpla.* WHERE (NOT wki=dpla:42 OR counter>=10) ORDER BY timestamp DESC, id LIMIT 5''"
  by code_simp

end
