(* ===== verification/QueryCompile.thy ===== *)
theory QueryCompile
  imports QueryEval "HOL-Library.AList"
begin

text \<open>
  The query compiler of \<open>mc/query/compile.go\<close>: the SQL text a query becomes, the choice of
  tables, and the row selectors that read values off a result row.
\<close>

section \<open>Table choice\<close>

definition statementSelectorp :: "string \<Rightarrow> bool" where
  "statementSelectorp s = (s \<in> {''*'', ''body'', ''id''})"

definition envelopeSelectorp :: "string \<Rightarrow> bool" where
  "envelopeSelectorp s =
     (s \<in> {''id'', ''publisher'', ''namespace'', ''source'', ''timestamp'', ''counter''})"

fun selectorp :: "QuerySelector option \<Rightarrow> (string \<Rightarrow> bool) \<Rightarrow> bool \<Rightarrow> bool" where
  "selectorp (Some (SimpleSelector sel)) tbl funp = tbl sel"
| "selectorp (Some (CompoundSelector sels)) tbl funp = list_all tbl sels"
| "selectorp (Some (FunctionSelector op sel)) tbl funp = funp"
| "selectorp None tbl funp = False"

definition isStatementSelector :: "QuerySelector option \<Rightarrow> bool" where
  "isStatementSelector sel = selectorp sel statementSelectorp False"

definition isEnvelopeSelector :: "QuerySelector option \<Rightarrow> bool" where
  "isEnvelopeSelector sel = selectorp sel envelopeSelectorp True"

fun isStatementCriteria :: "QueryCriteria \<Rightarrow> bool" where
  "isStatementCriteria (ValueCriteria op sel val) = (sel = ''id'')"
| "isStatementCriteria (CompoundCriteria op l r) = (isStatementCriteria l \<and> isStatementCriteria r)"
| "isStatementCriteria (NegatedCriteria e) = isStatementCriteria e"
| "isStatementCriteria _ = False"

fun isIndexCriteria :: "QueryCriteria \<Rightarrow> bool" where
  "isIndexCriteria (IndexCriteria sel val) = True"
| "isIndexCriteria (CompoundCriteria op l r) = (isIndexCriteria l \<or> isIndexCriteria r)"
| "isIndexCriteria (NegatedCriteria e) = isIndexCriteria e"
| "isIndexCriteria _ = False"

definition isStatementQuery :: "Query \<Rightarrow> bool" where
  "isStatementQuery q =
     (q_namespace q = ''*'' \<and> isStatementSelector (q_selector q) \<and>
      (case q_criteria q of None \<Rightarrow> True | Some c \<Rightarrow> isStatementCriteria c) \<and>
      q_order q = None)"

definition isEnvelopeQuery :: "Query \<Rightarrow> bool" where
  "isEnvelopeQuery q = isEnvelopeSelector (q_selector q)"

text \<open>The map from index selectors to their tables, as the list of its entries.\<close>

definition indexCriteriaTableNames :: "string \<Rightarrow> string option" where
  "indexCriteriaTableNames = map_of [(''wki'', ''Refs'')]"

fun collectIndexCriteriaTables ::
  "(string \<times> string) list \<Rightarrow> QueryCriteria \<Rightarrow> (string \<times> string) list outcome" where
  "collectIndexCriteriaTables tabs (IndexCriteria sel val) =
     obind (of_option (QueryCompileError (''Unexpected index selector: '' @ sel)) (indexCriteriaTableNames sel))
       (\<lambda>tab. Ok (AList.update sel tab tabs))"
| "collectIndexCriteriaTables tabs (CompoundCriteria op l r) =
     obind (collectIndexCriteriaTables tabs l) (\<lambda>tabs'. collectIndexCriteriaTables tabs' r)"
| "collectIndexCriteriaTables tabs (NegatedCriteria e) = collectIndexCriteriaTables tabs e"
| "collectIndexCriteriaTables tabs _ = Ok tabs"

definition indexCriteriaTables :: "QueryCriteria \<Rightarrow> (string \<times> string) list outcome" where
  "indexCriteriaTables c = collectIndexCriteriaTables [] c"

section \<open>Columns\<close>

definition disambigSelector :: "string \<Rightarrow> bool \<Rightarrow> string" where
  "disambigSelector col join =
     (if \<not> join then col else if col = ''id'' then ''Envelope.id'' else col)"

definition selectorColumn :: "string \<Rightarrow> (string \<Rightarrow> string option) \<Rightarrow> string" where
  "selectorColumn sel rename = (case rename sel of None \<Rightarrow> sel | Some col \<Rightarrow> col)"

definition selectorColumnSimple :: "string \<Rightarrow> string option" where
  "selectorColumnSimple = map_of
     [(''*'', ''data''), (''body'', ''data''), (''namespace'', ''DISTINCT namespace''),
      (''publisher'', ''DISTINCT publisher''), (''source'', ''DISTINCT source'')]"

definition selectorColumnCompound :: "string \<Rightarrow> string option" where
  "selectorColumnCompound = map_of [(''*'', ''data''), (''body'', ''data'')]"

definition selectorColumnFun :: "string \<Rightarrow> string option" where
  "selectorColumnFun = map_of
     [(''*'', ''1''), (''body'', ''1''), (''namespace'', ''DISTINCT namespace''),
      (''publisher'', ''DISTINCT publisher''), (''source'', ''DISTINCT source'')]"

definition compileQueryColumns :: "Query \<Rightarrow> bool \<Rightarrow> string outcome" where
  "compileQueryColumns q join =
     (case q_selector q of
        Some (SimpleSelector sel) \<Rightarrow> Ok (disambigSelector (selectorColumn sel selectorColumnSimple) join)
      | Some (CompoundSelector sels) \<Rightarrow>
          (if length sels = 1
           then Ok (disambigSelector (selectorColumn (sels ! 0) selectorColumnSimple) join)
           else Ok (Join (map (\<lambda>s. disambigSelector (selectorColumn s selectorColumnCompound) join) sels) '', ''))
      | Some (FunctionSelector op sel) \<Rightarrow>
          (if \<not> checkFunctionSelector op sel
           then Err (QueryCompileError (''Illegal selector: '' @ op @ ''('' @ sel @ '')''))
           else Ok (op @ ''('' @ disambigSelector (selectorColumn sel selectorColumnFun) join @ '')''))
      | None \<Rightarrow> Err (QueryCompileError ''Unexpected selector type: <nil>''))"

section \<open>Criteria and order\<close>

definition compileNamespaceCriteria :: "string \<Rightarrow> string outcome" where
  "compileNamespaceCriteria ns =
     (if ns = ''*'' then Ok []
      else if ns = [] then Panic ''index out of range''
      else if last ns = CHR ''*'' then
        Ok (''namespace LIKE '' @ [CHR 0x27] @ take (length ns - 2) ns @ ''%'' @ [CHR 0x27])
      else Ok (''namespace = '' @ [CHR 0x27] @ ns @ [CHR 0x27]))"

fun compileSelectorCriteria :: "QueryCriteria \<Rightarrow> bool \<Rightarrow> string" where
  "compileSelectorCriteria (ValueCriteria op sel val) join =
     disambigSelector sel join @ '' '' @ op @ '' '' @ [CHR 0x27] @ val @ [CHR 0x27]"
| "compileSelectorCriteria (RangeCriteria op sel val) join = sel @ '' '' @ op @ '' '' @ int_str val"
| "compileSelectorCriteria (IndexCriteria sel val) join = sel @ '' = '' @ [CHR 0x27] @ val @ [CHR 0x27]"
| "compileSelectorCriteria (CompoundCriteria op l r) join =
     ''('' @ compileSelectorCriteria l join @ '' '' @ op @ '' '' @ compileSelectorCriteria r join @ '')''"
| "compileSelectorCriteria (NegatedCriteria e) join = ''NOT '' @ compileSelectorCriteria e join"

definition compileQueryCriteria :: "Query \<Rightarrow> bool \<Rightarrow> string outcome" where
  "compileQueryCriteria q join =
     obind (compileNamespaceCriteria (q_namespace q)) (\<lambda>nscrit.
       (case q_criteria q of
          None \<Rightarrow> Ok nscrit
        | Some c \<Rightarrow>
            (let scrit = compileSelectorCriteria c join
             in Ok (if nscrit \<noteq> [] then nscrit @ '' AND '' @ scrit else scrit))))"

definition compileQueryOrder :: "Query \<Rightarrow> bool \<Rightarrow> string" where
  "compileQueryOrder q join =
     (case q_order q of
        None \<Rightarrow> []
      | Some specs \<Rightarrow>
          Join (map (\<lambda>sp. let str = disambigSelector (o_sel sp) join
                          in if o_dir sp \<noteq> [] then str @ '' '' @ o_dir sp else str) specs) '', '')"

section \<open>Row selectors\<close>

text \<open>
  A row selector allocates a destination for each column (\<open>ptr\<close>), has \<open>database/sql\<close> write the
  row into them, and converts what was written (\<open>value\<close>). \<open>dest\<close> is the type of a destination,
  \<open>cell\<close> a destination with its contents. The scanner is \<open>database/sql\<close>, not under \<open>src/\<close>: a
  function from destinations to cells. So is \<open>Unmarshal\<close>. The values are those of an
  evaluation without the addresses of the pointers, which are fresh.
\<close>

datatype dest = DRawBytes | DString | DInt | DInt64 | DNullInt64

datatype cell =
    CRawBytes string
  | CString string
  | CInt int
  | CInt64 int
  | CNullInt64 "int option"

datatype row_value =
    RInt int
  | RInt64 int
  | RString string
  | RStmt statement
  | RBody "statement_body option"
  | RMap "string \<Rightarrow> row_value option"

datatype SimpleRowSelector =
    RowSelectStatement | RowSelectBody | RowSelectString | RowSelectInt | RowSelectInt64 | RowSelectNullInt64

datatype RowSelector =
    RowSelectSimple SimpleRowSelector
  | RowSelectCompound "string list" "SimpleRowSelector list"

type_synonym RowScanner = "dest list \<Rightarrow> cell list outcome"

fun rs_ptr :: "SimpleRowSelector \<Rightarrow> dest" where
  "rs_ptr RowSelectStatement = DRawBytes"
| "rs_ptr RowSelectBody = DRawBytes"
| "rs_ptr RowSelectString = DString"
| "rs_ptr RowSelectInt = DInt"
| "rs_ptr RowSelectInt64 = DInt64"
| "rs_ptr RowSelectNullInt64 = DNullInt64"

text \<open>The last equation is a cell of another type than its destination, which Go's types exclude.\<close>

fun rs_value :: "(string \<Rightarrow> statement outcome) \<Rightarrow> SimpleRowSelector \<Rightarrow> cell \<Rightarrow> row_value outcome" where
  "rs_value unmarshal RowSelectStatement (CRawBytes b) = obind (unmarshal b) (\<lambda>st. Ok (RStmt st))"
| "rs_value unmarshal RowSelectBody (CRawBytes b) = obind (unmarshal b) (\<lambda>st. Ok (RBody (Body st)))"
| "rs_value unmarshal RowSelectString (CString s) = Ok (RString s)"
| "rs_value unmarshal RowSelectInt (CInt i) = Ok (RInt i)"
| "rs_value unmarshal RowSelectInt64 (CInt64 i) = Ok (RInt64 i)"
| "rs_value unmarshal RowSelectNullInt64 (CNullInt64 v) =
     (case v of Some i \<Rightarrow> Ok (RInt64 i) | None \<Rightarrow> Ok (RInt 0))"
| "rs_value unmarshal _ _ = Panic ''cell of another type''"

fun Scan :: "(string \<Rightarrow> statement outcome) \<Rightarrow> RowSelector \<Rightarrow> RowScanner \<Rightarrow> row_value outcome" where
  "Scan unmarshal (RowSelectSimple rs) src =
     obind (src [rs_ptr rs]) (\<lambda>cells. rs_value unmarshal rs (hd cells))"
| "Scan unmarshal (RowSelectCompound sels srs) src =
     obind (src (map rs_ptr srs)) (\<lambda>cells.
     obind (ofold (\<lambda>obj (sel, rs, cell). obind (rs_value unmarshal rs cell) (\<lambda>val. Ok (obj(sel \<mapsto> val))))
              Map.empty (zip sels (zip srs cells)))
       (\<lambda>obj. Ok (RMap obj)))"

definition makeSimpleRowSelector :: "string \<Rightarrow> SimpleRowSelector option" where
  "makeSimpleRowSelector = map_of
     [(''*'', RowSelectStatement), (''body'', RowSelectBody), (''id'', RowSelectString),
      (''namespace'', RowSelectString), (''publisher'', RowSelectString), (''source'', RowSelectString),
      (''timestamp'', RowSelectInt64), (''counter'', RowSelectInt64)]"

definition makeFunRowSelector :: "string \<Rightarrow> SimpleRowSelector option" where
  "makeFunRowSelector = map_of
     [(''COUNT'', RowSelectInt), (''MIN'', RowSelectNullInt64), (''MAX'', RowSelectNullInt64)]"

definition compileQueryRowSelector :: "Query \<Rightarrow> RowSelector outcome" where
  "compileQueryRowSelector q =
     (case q_selector q of
        Some (SimpleSelector sel) \<Rightarrow>
          obind (of_option (QueryCompileError (''Unexpected selector: '' @ sel)) (makeSimpleRowSelector sel))
            (\<lambda>rs. Ok (RowSelectSimple rs))
      | Some (CompoundSelector sels) \<Rightarrow>
          obind (omap (\<lambda>s. of_option (QueryCompileError (''Unexpected selector: ['' @ Join sels '' '' @ '']''))
                             (makeSimpleRowSelector s)) sels)
            (\<lambda>srs. Ok (RowSelectCompound sels srs))
      | Some (FunctionSelector op sel) \<Rightarrow>
          obind (of_option (QueryCompileError (''Unexpected function: '' @ op)) (makeFunRowSelector op))
            (\<lambda>rs. Ok (RowSelectSimple rs))
      | None \<Rightarrow> Err (QueryCompileError ''Unexpected selector type: <nil>''))"

section \<open>Compilation\<close>

text \<open>
  \<open>compileFrom\<close> is the text up to the criteria: the \<open>%s\<close> of the columns is filled in after the
  joins are appended, which do not contain one. The joins range over a Go map of at most one
  entry.
\<close>

definition compileFrom :: "Query \<Rightarrow> string \<times> bool" where
  "compileFrom q =
     (if isStatementQuery q then ('' FROM Statement'', False)
      else if isEnvelopeQuery q then ('' FROM Envelope'', False)
      else ('' FROM Statement JOIN Envelope ON Statement.id = Envelope.id'', True))"

definition compileJoins :: "Query \<Rightarrow> (string \<times> bool) outcome" where
  "compileJoins q =
     (let (from, join) = compileFrom q in
      (case q_criteria q of
         None \<Rightarrow> Ok (from, join)
       | Some c \<Rightarrow>
           if isIndexCriteria c
           then obind (indexCriteriaTables c) (\<lambda>tabs.
             Ok (foldl (\<lambda>s (sel, tab). s @ '' JOIN '' @ tab @ '' ON Envelope.id = '' @ tab @ ''.id'') from tabs, True))
           else Ok (from, join)))"

definition CompileQuery :: "Query \<Rightarrow> (string \<times> RowSelector) outcome" where
  "CompileQuery q =
     obind (compileJoins q) (\<lambda>(from, join).
     obind (compileQueryColumns q join) (\<lambda>cols.
     let sqlq = ''SELECT '' @ cols @ from in
     obind (compileQueryCriteria q join) (\<lambda>crit.
     let sqlq = (if crit \<noteq> [] then sqlq @ '' WHERE '' @ crit else sqlq);
         order = compileQueryOrder q join;
         sqlq = (if order \<noteq> [] then sqlq @ '' ORDER BY '' @ order else sqlq);
         sqlq = (if q_limit q > 0 then sqlq @ '' LIMIT '' @ int_str (q_limit q) else sqlq) in
     obind (compileQueryRowSelector q) (\<lambda>rsel.
     Ok (sqlq, rsel)))))"

section \<open>The schema\<close>

text \<open>
  The tables of \<open>createTables\<close> (\<open>mcnode/db.go\<close>) and their columns, which the compiled text
  refers to.
\<close>

definition createTables :: "string \<Rightarrow> string list option" where
  "createTables = map_of
     [(''Statement'', [''id'', ''data'']),
      (''Envelope'', [''counter'', ''id'', ''namespace'', ''publisher'', ''source'', ''timestamp'']),
      (''Refs'', [''id'', ''wki''])]"

end
