(* ===== verification/CompileCorrect.thy ===== *)
theory CompileCorrect
  imports QueryCompile EvalCorrect
begin

text \<open>
  What the compiled SQL is, read back by the tokens of SQL: the values of the query come back
  as the string literals and nothing else of the query reaches the text, every column is a
  column of exactly one table of the FROM clause, and the row selector returns for a row the
  value the evaluator returns for the statement.
\<close>

section \<open>SQL tokens\<close>

text \<open>
  A string literal is quoted by single quotes, a quote in it is doubled; a word is a maximal run of letters, digits and
  \<open>.\<close>, \<open>_\<close>; an operator a maximal run of \<open>= ! < >\<close>. \<open>None\<close> is an unterminated literal or another
  character.
\<close>

datatype sql_token = TLit string | TWord string | TOp string | TSym char

definition sql_word_char :: "char \<Rightarrow> bool" where
  "sql_word_char c \<longleftrightarrow> is_alnum c \<or> c = CHR ''.'' \<or> c = CHR ''_''"

definition sql_op_char :: "char \<Rightarrow> bool" where
  "sql_op_char c \<longleftrightarrow> c \<in> {CHR ''='', CHR ''!'', CHR ''<'', CHR ''>''}"

abbreviation quote :: char where
  "quote \<equiv> CHR 0x27"

fun sql_literal :: "string \<Rightarrow> (string \<times> string) option" where
  "sql_literal [] = None"
| "sql_literal (c # s) =
     (if c = quote
      then (case s of d # r \<Rightarrow> (if d = quote then map_option (apfst ((#) quote)) (sql_literal r) else Some ([], s))
                    | [] \<Rightarrow> Some ([], []))
      else map_option (apfst ((#) c)) (sql_literal s))"

lemma sql_literal_length: "sql_literal s = Some (v, r) \<Longrightarrow> length r < length s"
  by (induction s arbitrary: v rule: sql_literal.induct)
     (fastforce split: if_splits list.splits)+

function sql_lex :: "string \<Rightarrow> sql_token list option" where
  "sql_lex s =
     (case s of
        [] \<Rightarrow> Some []
      | c # r \<Rightarrow>
          if c = CHR '' '' then sql_lex r
          else if c = quote then
            (case sql_literal r of None \<Rightarrow> None | Some (v, r') \<Rightarrow> map_option ((#) (TLit v)) (sql_lex r'))
          else if sql_word_char c then
            map_option ((#) (TWord (takeWhile sql_word_char s))) (sql_lex (dropWhile sql_word_char r))
          else if sql_op_char c then
            map_option ((#) (TOp (takeWhile sql_op_char s))) (sql_lex (dropWhile sql_op_char r))
          else if c \<in> {CHR ''('', CHR '')'', CHR '',''} then map_option ((#) (TSym c)) (sql_lex r)
          else None)"
  by pat_completeness auto
termination
  by (relation "measure length") (auto simp: sql_literal_length less_Suc_eq_le length_dropWhile_le dest!: sql_literal_length)

declare sql_lex.simps [simp del]

definition boundary :: "string \<Rightarrow> bool" where
  "boundary r \<longleftrightarrow> (case r of [] \<Rightarrow> True | c # _ \<Rightarrow> c \<in> {CHR '' '', CHR ''('', CHR '')'', CHR '',''})"

lemma boundary_simps [simp]:
  "boundary []" "boundary (c # r) \<longleftrightarrow> c \<in> {CHR '' '', CHR ''('', CHR '')'', CHR '',''}"
  by (simp_all add: boundary_def)

text \<open>\<open>reads s ts\<close>: before a token boundary, the text \<open>s\<close> is the tokens \<open>ts\<close>.\<close>

definition prepend :: "sql_token list \<Rightarrow> sql_token list option \<Rightarrow> sql_token list option" where
  "prepend ts m = map_option (\<lambda>x. ts @ x) m"

lemma prepend_simps [simp]:
  "prepend [] m = m" "prepend a (prepend b m) = prepend (a @ b) m" "map_option ((#) t) m = prepend [t] m"
  "prepend ts None = None" "prepend ts (Some x) = Some (ts @ x)"
  by (cases m; simp add: prepend_def)+

definition reads :: "string \<Rightarrow> sql_token list \<Rightarrow> bool" where
  "reads s ts \<longleftrightarrow> (\<forall>r. boundary r \<longrightarrow> sql_lex (s @ r) = prepend ts (sql_lex r))"

lemma reads_lex: "reads s ts \<Longrightarrow> sql_lex s = Some ts"
  unfolding reads_def by (drule spec [of _ "[]"]) (simp add: sql_lex.simps [of "[]"])

lemma sql_char_classes [simp]:
  "\<not> sql_word_char (CHR '' '')" "\<not> sql_word_char (CHR '')'')" "\<not> sql_word_char (CHR '','')" "\<not> sql_word_char (CHR ''('')"
  "\<not> sql_word_char quote" "\<not> sql_op_char (CHR '' '')" "\<not> sql_op_char (CHR '')'')" "\<not> sql_op_char (CHR '','')"
  "\<not> sql_op_char (CHR ''('')"
  by (simp_all add: sql_word_char_def sql_op_char_def alnum_not_special)

lemma reads_Nil: "reads [] []"
  by (simp add: reads_def)

lemma reads_word: "word_of sql_word_char w \<Longrightarrow> reads w [TWord w]"
  unfolding reads_def
proof (intro allI impI)
  fix r assume w: "word_of sql_word_char w" and r: "boundary r"
  from w obtain c v where c: "w = c # v" "sql_word_char c" "list_all sql_word_char v" by (cases w) (auto simp: word_of_def)
  have t: "takeWhile sql_word_char (v @ r) = v" "dropWhile sql_word_char (v @ r) = r"
    using c(3) r by (induction v) (cases r; auto)+
  have n: "c \<noteq> CHR '' ''" "c \<noteq> quote" using c(2) by auto
  show "sql_lex (w @ r) = prepend [TWord w] (sql_lex r)"
    by (subst sql_lex.simps) (use c n t in simp)
qed

lemma reads_op: "word_of sql_op_char w \<Longrightarrow> reads w [TOp w]"
  unfolding reads_def
proof (intro allI impI)
  fix r assume w: "word_of sql_op_char w" and r: "boundary r"
  from w obtain c v where c: "w = c # v" "sql_op_char c" "list_all sql_op_char v" by (cases w) (auto simp: word_of_def)
  have t: "takeWhile sql_op_char (v @ r) = v" "dropWhile sql_op_char (v @ r) = r"
    using c(3) r by (induction v) (cases r; auto)+
  have n: "c \<noteq> CHR '' ''" "c \<noteq> quote" "\<not> sql_word_char c"
    using c(2) by (auto simp: sql_op_char_def sql_word_char_def is_alnum_def is_alpha_def is_digit_def digit_val_def)
  show "sql_lex (w @ r) = prepend [TOp w] (sql_lex r)"
    by (subst sql_lex.simps) (use c n t in simp)
qed

lemma reads_literal: "quote \<notin> set v \<Longrightarrow> reads (quote # v @ [quote]) [TLit v]"
  unfolding reads_def
proof (intro allI impI)
  fix r assume v: "quote \<notin> set v" and r: "boundary r"
  have "sql_literal (v @ quote # r) = Some (v, r)"
    using v r by (induction v) (auto split: list.splits)
  then show "sql_lex ((quote # v @ [quote]) @ r) = prepend [TLit v] (sql_lex r)"
    by (subst sql_lex.simps) simp
qed

lemma sql_lex_space [simp]: "sql_lex (CHR '' '' # r) = sql_lex r"
  by (subst sql_lex.simps) simp

lemma sql_lex_sym:
  "c \<in> {CHR ''('', CHR '')'', CHR '',''} \<Longrightarrow> sql_lex (c # r) = prepend [TSym c] (sql_lex r)"
  by (subst sql_lex.simps) auto

lemma reads_space: "reads s t \<Longrightarrow> reads u v \<Longrightarrow> reads (s @ '' '' @ u) (t @ v)"
  by (simp add: reads_def)

lemma reads_space0: "reads u v \<Longrightarrow> reads ('' '' @ u) v"
  by (simp add: reads_def)

lemma reads_append_space: "reads s t \<Longrightarrow> reads ('' '' @ u) v \<Longrightarrow> reads (s @ '' '' @ u) (t @ v)"
  by (simp add: reads_def)

lemma reads_paren: "reads s t \<Longrightarrow> reads (''('' @ s @ '')'') (TSym (CHR ''('') # t @ [TSym (CHR '')'')])"
  by (simp add: reads_def sql_lex_sym)

lemma reads_call: "reads f t \<Longrightarrow> reads s u \<Longrightarrow> reads (f @ ''('' @ s @ '')'') (t @ TSym (CHR ''('') # u @ [TSym (CHR '')'')])"
  by (simp add: reads_def sql_lex_sym)

lemma reads_comma: "reads s t \<Longrightarrow> reads u v \<Longrightarrow> reads (s @ '', '' @ u) (t @ TSym (CHR '','') # v)"
  by (simp add: reads_def sql_lex_sym)

text \<open>A constant text with single blanks, by its words.\<close>

definition const_tokens :: "string \<Rightarrow> sql_token list" where
  "const_tokens s = map (\<lambda>w. if list_all sql_op_char w then TOp w else TWord w) (Split s (CHR '' ''))"

lemma reads_Join:
  "ws \<noteq> [] \<Longrightarrow> (\<forall>w \<in> set ws. reads w [f w]) \<Longrightarrow> reads (Join ws '' '') (map f ws)"
proof (induction ws)
  case (Cons w ws)
  show ?case
  proof (cases "ws = []")
    case False
    with Cons have "reads (w @ '' '' @ Join ws '' '') ([f w] @ map f ws)" by (intro reads_space) auto
    with False show ?thesis by (cases ws) auto
  qed (use Cons in simp)
qed simp

lemma word_not_op: "word_of sql_word_char w \<Longrightarrow> \<not> list_all sql_op_char w"
  by (cases w) (auto simp: word_of_def sql_op_char_def sql_word_char_def is_alnum_def is_alpha_def is_digit_def
      digit_val_def)

lemma reads_const:
  assumes "list_all (\<lambda>w. word_of sql_word_char w \<or> word_of sql_op_char w) (Split s (CHR '' ''))"
  shows "reads s (const_tokens s)"
proof -
  have "reads w [if list_all sql_op_char w then TOp w else TWord w]" if "w \<in> set (Split s (CHR '' ''))" for w
    using assms that word_not_op [of w] reads_word [of w] reads_op [of w] by (auto simp: list_all_iff word_of_def)
  then have "reads (Join (Split s (CHR '' '')) '' '') (const_tokens s)"
    unfolding const_tokens_def by (intro reads_Join) auto
  then show ?thesis by (simp add: Join_Split)
qed

section \<open>The tokens of the parts\<close>

fun crit_tokens :: "bool \<Rightarrow> QueryCriteria \<Rightarrow> sql_token list" where
  "crit_tokens join (ValueCriteria op sel val) = [TWord (disambigSelector sel join), TOp op, TLit val]"
| "crit_tokens join (RangeCriteria op sel val) = [TWord sel, TOp op, TWord (int_str val)]"
| "crit_tokens join (IndexCriteria sel val) = [TWord sel, TOp ''='', TLit val]"
| "crit_tokens join (CompoundCriteria op l r) =
     TSym (CHR ''('') # crit_tokens join l @ TWord op # crit_tokens join r @ [TSym (CHR '')'')]"
| "crit_tokens join (NegatedCriteria e) = TWord ''NOT'' # crit_tokens join e"

lemma sql_word_chars:
  "is_alnum c \<Longrightarrow> sql_word_char c" "is_digit c \<Longrightarrow> sql_word_char c"
  by (simp_all add: sql_word_char_def is_alnum_def)

lemma sql_word_int_str: "0 \<le> i \<Longrightarrow> word_of sql_word_char (int_str i)"
  using nat_str_digits [of "nat i"] by (auto simp: word_of_def int_str_def list_all_iff sql_word_chars)

lemma no_quote:
  "word_of id_char v \<Longrightarrow> quote \<notin> set v" "word_of wki_char v \<Longrightarrow> quote \<notin> set v" "word_of is_alnum v \<Longrightarrow> quote \<notin> set v"
  by (auto elim!: word_of_not_in [THEN notE, rotated 2] simp: alnum_not_special)

lemma word_ops:
  "op \<in> {''<='', ''<'', ''='', ''!='', ''>='', ''>''} \<Longrightarrow> word_of sql_op_char op"
  by (auto simp: word_of_def sql_op_char_def)

definition sql_columns :: "string list" where
  "sql_columns = [''id'', ''publisher'', ''namespace'', ''source'', ''timestamp'', ''counter'', ''wki'', ''data'', ''1'']"

definition sql_keywords :: "string list" where
  "sql_keywords = [''AND'', ''OR'', ''NOT'', ''ASC'', ''DESC'', ''LIMIT'', ''WHERE'', ''ORDER'', ''BY'', ''LIKE'',
     ''SELECT'', ''COUNT'', ''MIN'', ''MAX'', ''DISTINCT'', ''FROM'', ''JOIN'', ''ON'']"

lemma words_sql: "list_all (word_of sql_word_char) (''Envelope.id'' # sql_columns @ sql_keywords)"
  by code_simp

lemma word_column: "sel \<in> set sql_columns \<Longrightarrow> word_of sql_word_char sel"
  and word_keyword: "w \<in> set sql_keywords \<Longrightarrow> word_of sql_word_char w"
  and word_disambig: "sel \<in> set sql_columns \<Longrightarrow> word_of sql_word_char (disambigSelector sel join)"
  using words_sql by (simp_all add: list_all_iff disambigSelector_def)

lemma ops_are_names:
  "list_all (\<lambda>w. w \<in> set sql_keywords) function_ops" "list_all (\<lambda>w. w \<in> set sql_columns) order_ops"
  by code_simp+

lemma some_columns:
  "''id'' \<in> set sql_columns" "''publisher'' \<in> set sql_columns" "''source'' \<in> set sql_columns"
  "''timestamp'' \<in> set sql_columns" "''counter'' \<in> set sql_columns" "''wki'' \<in> set sql_columns"
  "''namespace'' \<in> set sql_columns" "''AND'' \<in> set sql_keywords" "''OR'' \<in> set sql_keywords"
  "''NOT'' \<in> set sql_keywords" "''LIKE'' \<in> set sql_keywords" "''ASC'' \<in> set sql_keywords"
  "''DESC'' \<in> set sql_keywords" "''LIMIT'' \<in> set sql_keywords" "''WHERE'' \<in> set sql_keywords"
  "''ORDER'' \<in> set sql_keywords" "''BY'' \<in> set sql_keywords" "''SELECT'' \<in> set sql_keywords"
  by (simp_all add: sql_columns_def sql_keywords_def)

lemmas word_name = word_column [OF some_columns(1)] word_column [OF some_columns(2)] word_column [OF some_columns(3)]
  word_column [OF some_columns(4)] word_column [OF some_columns(5)] word_column [OF some_columns(6)]
  word_column [OF some_columns(7)] some_columns(8-18) [THEN word_keyword]

lemma reads_criteria: "wf_criteria c \<Longrightarrow> reads (compileSelectorCriteria c join) (crit_tokens join c)"
proof (induction c)
  case (ValueCriteria op sel val)
  then have "word_of sql_op_char op" "word_of sql_word_char (disambigSelector sel join)" "quote \<notin> set val"
    by (auto intro: word_ops word_disambig some_columns dest: no_quote)
  then have "reads (disambigSelector sel join @ '' '' @ op @ '' '' @ quote # val @ [quote])
      ([TWord (disambigSelector sel join)] @ [TOp op] @ [TLit val])"
    by (intro reads_space reads_word reads_op reads_literal)
  then show ?case by simp
next
  case (RangeCriteria op sel val)
  then have "word_of sql_op_char op" "word_of sql_word_char sel" "word_of sql_word_char (int_str val)"
    by (auto intro: word_ops word_name sql_word_int_str)
  then have "reads (sel @ '' '' @ op @ '' '' @ int_str val) ([TWord sel] @ [TOp op] @ [TWord (int_str val)])"
    by (intro reads_space reads_word reads_op)
  then show ?case by simp
next
  case (IndexCriteria sel val)
  then have "word_of sql_op_char ''=''" "word_of sql_word_char sel" "quote \<notin> set val"
    by (auto intro: word_ops word_name dest: no_quote)
  then have "reads (sel @ '' '' @ ''='' @ '' '' @ quote # val @ [quote]) ([TWord sel] @ [TOp ''=''] @ [TLit val])"
    by (intro reads_space reads_word reads_op reads_literal)
  then show ?case by simp
next
  case (CompoundCriteria op l r)
  then have "word_of sql_word_char op" by (auto intro: word_name)
  with CompoundCriteria have "reads (''('' @ (compileSelectorCriteria l join @ '' '' @ op @ '' '' @ compileSelectorCriteria r join) @ '')'')
      (TSym (CHR ''('') # (crit_tokens join l @ [TWord op] @ crit_tokens join r) @ [TSym (CHR '')'')])"
    by (intro reads_paren reads_space reads_word) simp_all
  then show ?case by simp
next
  case (NegatedCriteria e)
  then have "reads (''NOT'' @ '' '' @ compileSelectorCriteria e join) ([TWord ''NOT''] @ crit_tokens join e)"
    by (intro reads_space reads_word word_name) simp_all
  then show ?case by simp
qed

definition ns_tokens :: "string \<Rightarrow> sql_token list" where
  "ns_tokens ns =
     (if ns = ''*'' then []
      else if last ns = CHR ''*'' then [TWord ''namespace'', TWord ''LIKE'', TLit (take (length ns - 2) ns @ ''%'')]
      else [TWord ''namespace'', TOp ''='', TLit ns])"

lemma reads_namespace:
  assumes "wf_namespace ns"
  obtains s where "compileNamespaceCriteria ns = Ok s" "reads s (ns_tokens ns)" "s = [] \<longleftrightarrow> ns = ''*''"
proof -
  have q: "quote \<notin> set ns" using wf_namespace_chars [OF assms] by fastforce
  have lit: "reads (''namespace'' @ '' '' @ op @ '' '' @ quote # v @ [quote]) ([TWord ''namespace''] @ t @ [TLit v])"
    if "reads op t" "quote \<notin> set v" for op t v
    using that by (intro reads_space reads_word reads_literal word_name) simp_all
  from assms show thesis
  proof (cases rule: wf_namespace_cases)
    case any
    then show thesis using that reads_Nil by (simp add: compileNamespaceCriteria_def ns_tokens_def)
  next
    case (prefix pre)
    then have "quote \<notin> set (pre @ ''%'')" using q by auto
    from lit [OF reads_word this, of "''LIKE''"]
    have A: "reads (''namespace LIKE '' @ [quote] @ pre @ ''%'' @ [quote]) (ns_tokens ns)"
      using prefix by (simp add: ns_tokens_def word_name)
    have B: "compileNamespaceCriteria ns = Ok (''namespace LIKE '' @ [quote] @ pre @ ''%'' @ [quote])"
      using prefix by (simp add: compileNamespaceCriteria_def)
    show thesis by (rule that [OF B A]) (use prefix in simp)
  next
    case exact
    from lit [OF reads_op q, of "''=''"] have A: "reads (''namespace = '' @ [quote] @ ns @ [quote]) (ns_tokens ns)"
      using exact by (simp add: ns_tokens_def word_ops)
    have B: "compileNamespaceCriteria ns = Ok (''namespace = '' @ [quote] @ ns @ [quote])"
      using exact by (simp add: compileNamespaceCriteria_def)
    show thesis by (rule that [OF B A]) (use exact in simp)
  qed
qed

fun comma_tokens :: "sql_token list list \<Rightarrow> sql_token list" where
  "comma_tokens [] = []"
| "comma_tokens [t] = t"
| "comma_tokens (t # ts) = t @ TSym (CHR '','') # comma_tokens ts"

lemma reads_comma_Join: "list_all2 reads ss ts \<Longrightarrow> reads (Join ss '', '') (comma_tokens ts)"
proof (induction ss ts rule: list_all2_induct)
  case Nil
  show ?case by (simp add: reads_Nil)
next
  case (Cons s ss t ts)
  show ?case
  proof (cases ss)
    case Nil
    with Cons show ?thesis by simp
  next
    case c: (Cons s' ss')
    with Cons(2) obtain t' ts' where "ts = t' # ts'" by (cases ts) auto
    with c reads_comma [OF Cons(1,3)] show ?thesis by simp
  qed
qed

definition order_tokens :: "bool \<Rightarrow> QueryOrderSpec list \<Rightarrow> sql_token list" where
  "order_tokens join specs = comma_tokens (map (\<lambda>sp. TWord (disambigSelector (o_sel sp) join) #
     (if o_dir sp = [] then [] else [TWord (o_dir sp)])) specs)"

lemma reads_order:
  assumes "wf_order specs"
  shows "reads (Join (map (\<lambda>sp. let str = disambigSelector (o_sel sp) join
    in if o_dir sp \<noteq> [] then str @ '' '' @ o_dir sp else str) specs) '', '') (order_tokens join specs)"
  unfolding order_tokens_def
proof (rule reads_comma_Join, unfold list_all2_map1 list_all2_map2, rule list_all2_same [THEN iffD2], rule ballI)
  fix sp assume "sp \<in> set specs"
  with assms have sel: "o_sel sp \<in> set order_ops" and dir: "o_dir sp \<in> {[], ''ASC'', ''DESC''}"
    by (auto simp: wf_order_def list_all_iff)
  from sel have "word_of sql_word_char (disambigSelector (o_sel sp) join)"
    using ops_are_names(2) by (intro word_disambig) (simp add: list_all_iff)
  moreover have "o_dir sp = [] \<or> word_of sql_word_char (o_dir sp)" using dir by (auto intro: word_name)
  ultimately show "reads (let str = disambigSelector (o_sel sp) join
      in if o_dir sp \<noteq> [] then str @ '' '' @ o_dir sp else str)
    (TWord (disambigSelector (o_sel sp) join) # (if o_dir sp = [] then [] else [TWord (o_dir sp)]))"
    using reads_space [OF reads_word reads_word] reads_word by (auto simp: Let_def)
qed

section \<open>Columns and tables\<close>

definition plain_text :: "string \<Rightarrow> bool" where
  "plain_text s \<longleftrightarrow> list_all (\<lambda>w. word_of sql_word_char w \<or> word_of sql_op_char w) (Split s (CHR '' ''))"

lemma plain_columns:
  "list_all (\<lambda>sel. list_all (\<lambda>join.
     plain_text (disambigSelector (selectorColumn sel selectorColumnSimple) join) \<and>
     plain_text (disambigSelector (selectorColumn sel selectorColumnCompound) join) \<and>
     plain_text (disambigSelector (selectorColumn sel selectorColumnFun) join)) [True, False]) simple_ops"
  by code_simp

lemma reads_column:
  assumes "sel \<in> set simple_ops" "tbl \<in> {selectorColumnSimple, selectorColumnCompound, selectorColumnFun}"
  shows "reads (disambigSelector (selectorColumn sel tbl) join) (const_tokens (disambigSelector (selectorColumn sel tbl) join))"
proof (rule reads_const)
  let ?plain = "\<lambda>tbl join. plain_text (disambigSelector (selectorColumn sel tbl) join)"
  have "list_all (\<lambda>join. ?plain selectorColumnSimple join \<and> ?plain selectorColumnCompound join \<and>
      ?plain selectorColumnFun join) [True, False]"
    using plain_columns assms(1) unfolding list_all_iff by blast
  then have "?plain selectorColumnSimple join" "?plain selectorColumnCompound join" "?plain selectorColumnFun join"
    by (cases join; simp)+
  with assms(2) have "?plain tbl join" by blast
  then show "list_all (\<lambda>w. word_of sql_word_char w \<or> word_of sql_op_char w)
      (Split (disambigSelector (selectorColumn sel tbl) join) (CHR '' ''))" by (simp add: plain_text_def)
qed

fun column_tokens :: "bool \<Rightarrow> QuerySelector \<Rightarrow> sql_token list" where
  "column_tokens join (SimpleSelector sel) =
     const_tokens (disambigSelector (selectorColumn sel selectorColumnSimple) join)"
| "column_tokens join (CompoundSelector sels) =
     (if length sels = 1 then const_tokens (disambigSelector (selectorColumn (sels ! 0) selectorColumnSimple) join)
      else comma_tokens (map (\<lambda>s. const_tokens (disambigSelector (selectorColumn s selectorColumnCompound) join)) sels))"
| "column_tokens join (FunctionSelector op sel) =
     [TWord op] @ TSym (CHR ''('') # const_tokens (disambigSelector (selectorColumn sel selectorColumnFun) join) @
       [TSym (CHR '')'')]"

lemma reads_columns:
  assumes "q_selector q = Some sel" "wf_selector sel" "compileQueryColumns q join = Ok cols"
  shows "reads cols (column_tokens join sel)"
proof (cases sel)
  case (SimpleSelector s)
  with assms show ?thesis by (auto simp: compileQueryColumns_def intro!: reads_column)
next
  case (CompoundSelector ss)
  with assms have ss: "ss \<noteq> []" "set ss \<subseteq> set simple_ops" by auto
  have "reads (Join (map (\<lambda>s. disambigSelector (selectorColumn s selectorColumnCompound) join) ss) '', '')
      (comma_tokens (map (\<lambda>s. const_tokens (disambigSelector (selectorColumn s selectorColumnCompound) join)) ss))"
    by (rule reads_comma_Join) (use ss in \<open>auto simp: list_all2_map1 list_all2_map2 intro!: list_all2_same [THEN iffD2] reads_column\<close>)
  moreover have "ss ! 0 \<in> set simple_ops" using ss by (cases ss) auto
  then have "reads (disambigSelector (selectorColumn (ss ! 0) selectorColumnSimple) join)
      (const_tokens (disambigSelector (selectorColumn (ss ! 0) selectorColumnSimple) join))"
    by (rule reads_column) simp
  moreover have "cols = (if length ss = 1 then disambigSelector (selectorColumn (ss ! 0) selectorColumnSimple) join
      else Join (map (\<lambda>s. disambigSelector (selectorColumn s selectorColumnCompound) join) ss) '', '')"
    using assms(1,3) CompoundSelector by (simp add: compileQueryColumns_def split: if_splits)
  ultimately show ?thesis unfolding CompoundSelector column_tokens.simps by presburger
next
  case (FunctionSelector op s)
  with assms have f: "op \<in> set function_ops" and s: "s \<in> set simple_ops" by simp_all
  from f have op: "word_of sql_word_char op" using ops_are_names(1) by (simp add: list_all_iff word_keyword)
  have "reads (op @ ''('' @ disambigSelector (selectorColumn s selectorColumnFun) join @ '')'') (column_tokens join sel)"
    unfolding FunctionSelector column_tokens.simps
    by (rule reads_call [OF reads_word [OF op] reads_column [OF s]]) simp
  with assms FunctionSelector show ?thesis by (auto simp: compileQueryColumns_def split: if_splits)
qed

lemma collect_tables:
  "wf_criteria c \<Longrightarrow> tabs \<in> {[], [(''wki'', ''Refs'')]} \<Longrightarrow>
   collectIndexCriteriaTables tabs c = Ok (if isIndexCriteria c then [(''wki'', ''Refs'')] else tabs)"
  by (induction c arbitrary: tabs) (auto simp: indexCriteriaTableNames_def)

definition from_texts :: "string list" where
  "from_texts = ['' FROM Statement'', '' FROM Envelope'',
     '' FROM Statement JOIN Envelope ON Statement.id = Envelope.id'']"

definition index_join :: string where
  "index_join = '' JOIN Refs ON Envelope.id = Refs.id''"

definition has_index :: "Query \<Rightarrow> bool" where
  "has_index q = (case q_criteria q of None \<Rightarrow> False | Some c \<Rightarrow> isIndexCriteria c)"

lemma compileJoins_Ok:
  assumes "wf_query q"
  shows "compileJoins q = Ok (fst (compileFrom q) @ (if has_index q then index_join else []),
    snd (compileFrom q) \<or> has_index q)"
proof (cases "q_criteria q")
  case (Some c)
  with assms have "wf_criteria c" by (simp add: wf_query_def)
  from collect_tables [OF this, of "[]"] Some show ?thesis
    by (simp add: compileJoins_def has_index_def indexCriteriaTables_def index_join_def split: prod.splits)
qed (simp add: compileJoins_def has_index_def split: prod.splits)

section \<open>The tokens of a compiled query\<close>

definition where_tokens :: "bool \<Rightarrow> Query \<Rightarrow> sql_token list" where
  "where_tokens join q = ns_tokens (q_namespace q) @
     (case q_criteria q of None \<Rightarrow> []
      | Some c \<Rightarrow> (if q_namespace q = ''*'' then [] else [TWord ''AND'']) @ crit_tokens join c)"

definition query_tokens :: "Query \<Rightarrow> sql_token list" where
  "query_tokens q =
     (let join = (snd (compileFrom q) \<or> has_index q) in
      [TWord ''SELECT''] @ column_tokens join (the (q_selector q)) @ const_tokens (tl (fst (compileFrom q))) @
      (if has_index q then const_tokens (tl index_join) else []) @
      (if where_tokens join q = [] then [] else [TWord ''WHERE''] @ where_tokens join q) @
      (case q_order q of None \<Rightarrow> [] | Some specs \<Rightarrow> [TWord ''ORDER''] @ [TWord ''BY''] @ order_tokens join specs) @
      (if q_limit q > 0 then [TWord ''LIMIT''] @ [TWord (int_str (q_limit q))] else []))"

definition clause :: "string \<Rightarrow> bool" where
  "clause s \<longleftrightarrow> s = [] \<or> hd s = CHR '' ''"

lemma clause_simps [simp]: "clause []" "clause (c # s) \<longleftrightarrow> c = CHR '' ''"
  by (simp_all add: clause_def)

lemma clause_append: "clause s \<Longrightarrow> clause r \<Longrightarrow> clause (s @ r)"
  by (cases s) (auto simp: clause_def)

lemma reads_clause:
  assumes "reads s t" "reads r v" "clause r"
  shows "reads (s @ r) (t @ v)"
  unfolding reads_def
proof (intro allI impI)
  fix x assume x: "boundary x"
  have "boundary (r @ x)" using assms(3) x by (cases r) auto
  with assms(1,2) x show "sql_lex ((s @ r) @ x) = prepend (t @ v) (sql_lex x)"
    unfolding reads_def append_assoc by simp
qed

lemma compileFrom_text: "fst (compileFrom q) \<in> set from_texts"
  by (auto simp: compileFrom_def from_texts_def)

lemma const_clauses: "list_all (\<lambda>s. s \<noteq> [] \<and> hd s = CHR '' '' \<and> plain_text (tl s)) (index_join # from_texts)"
  by code_simp

lemma reads_const_clause:
  assumes "s \<in> set (index_join # from_texts)"
  shows "reads s (const_tokens (tl s))" "clause s"
proof -
  from assms const_clauses have s: "s \<noteq> []" "hd s = CHR '' ''" "plain_text (tl s)" by (auto simp: list_all_iff)
  then obtain r where r: "s = '' '' @ r" by (cases s) auto
  with s(3) have "reads r (const_tokens r)" unfolding plain_text_def by (intro reads_const) simp
  with r reads_space0 show "reads s (const_tokens (tl s))" by simp
  show "clause s" using r by simp
qed

lemma criteria_text_nonempty: "compileSelectorCriteria c join \<noteq> []"
  by (cases c) auto

lemma reads_where:
  assumes "wf_query q" "compileQueryCriteria q join = Ok crit"
  shows "reads crit (where_tokens join q) \<and> (crit = [] \<longleftrightarrow> where_tokens join q = [])"
proof -
  from assms(1) have ns: "wf_namespace (q_namespace q)" by (simp add: wf_query_def)
  obtain s where s: "compileNamespaceCriteria (q_namespace q) = Ok s" "reads s (ns_tokens (q_namespace q))"
    "s = [] \<longleftrightarrow> q_namespace q = ''*''" using reads_namespace [OF ns] by blast
  have star: "ns_tokens (q_namespace q) = [] \<longleftrightarrow> q_namespace q = ''*''" by (simp add: ns_tokens_def)
  show ?thesis
  proof (cases "q_criteria q")
    case None
    with s assms(2) star show ?thesis by (simp add: compileQueryCriteria_def where_tokens_def)
  next
    case (Some c)
    with assms(1) have c: "reads (compileSelectorCriteria c join) (crit_tokens join c)"
      by (intro reads_criteria) (simp add: wf_query_def)
    have ne: "crit_tokens join c \<noteq> []" by (cases c) auto
    show ?thesis
    proof (cases "q_namespace q = ''*''")
      case True
      with Some s assms(2) c ne criteria_text_nonempty [of c join] star show ?thesis
        by (simp add: compileQueryCriteria_def where_tokens_def)
    next
      case False
      have "reads (s @ '' '' @ ''AND'' @ '' '' @ compileSelectorCriteria c join)
          (ns_tokens (q_namespace q) @ [TWord ''AND''] @ crit_tokens join c)"
        by (intro reads_space s(2) c reads_word word_name)
      with False Some s assms(2) ne show ?thesis
        by (auto simp: compileQueryCriteria_def where_tokens_def)
    qed
  qed
qed

lemma order_text_nonempty:
  assumes "wf_order specs"
  shows "Join (map (\<lambda>sp. let str = disambigSelector (o_sel sp) join
    in if o_dir sp \<noteq> [] then str @ '' '' @ o_dir sp else str) specs) '', '' \<noteq> []"
proof (rule Join_nonempty)
  show "\<forall>w \<in> set (map (\<lambda>sp. let str = disambigSelector (o_sel sp) join
    in if o_dir sp \<noteq> [] then str @ '' '' @ o_dir sp else str) specs). w \<noteq> []"
    using assms by (auto simp: Let_def disambigSelector_def wf_order_def list_all_iff order_ops_def)
qed (use assms in \<open>simp add: wf_order_def\<close>)

lemma CompileQuery_tokens:
  assumes "wf_query q" "CompileQuery q = Ok (sql, rs)"
  shows "sql_lex sql = Some (query_tokens q)"
proof -
  define join where "join = (snd (compileFrom q) \<or> has_index q)"
  obtain sel where sel: "q_selector q = Some sel" "wf_selector sel" using assms(1) by (rule wf_query_selector)
  have ord: "pred_option wf_order (q_order q)" using assms(1) by (auto simp: wf_query_def split: QueryOp.splits)
  define idx where "idx = (if has_index q then index_join else [])"
  define order where "order = compileQueryOrder q join"
  from assms(2) compileJoins_Ok [OF assms(1)] obtain cols crit where
    cols: "compileQueryColumns q join = Ok cols" and crit: "compileQueryCriteria q join = Ok crit" and
    sql: "sql = ''SELECT'' @ '' '' @ cols @ fst (compileFrom q) @ idx @ (if crit = [] then [] else '' '' @ ''WHERE'' @ '' '' @ crit) @
      (if order = [] then [] else '' '' @ ''ORDER'' @ '' '' @ ''BY'' @ '' '' @ order) @
      (if q_limit q > 0 then '' '' @ ''LIMIT'' @ '' '' @ int_str (q_limit q) else [])"
    by (auto simp: CompileQuery_def Let_def join_def idx_def order_def split: if_splits)
  let ?w = "if where_tokens join q = [] then [] else [TWord ''WHERE''] @ where_tokens join q"
  let ?o = "case q_order q of None \<Rightarrow> [] | Some specs \<Rightarrow> [TWord ''ORDER''] @ [TWord ''BY''] @ order_tokens join specs"
  let ?l = "if q_limit q > 0 then [TWord ''LIMIT''] @ [TWord (int_str (q_limit q))] else []"
  have l: "reads (if q_limit q > 0 then '' '' @ ''LIMIT'' @ '' '' @ int_str (q_limit q) else []) ?l"
  proof (cases "q_limit q > 0")
    case True
    have "reads ('' '' @ ''LIMIT'' @ '' '' @ int_str (q_limit q)) ?l"
      using True sql_word_int_str [of "q_limit q"] by (simp only: if_True) (intro reads_space0 reads_space reads_word word_name; simp)
    then show ?thesis using True by simp
  next
    case False
    then show ?thesis by (simp only: if_False reads_Nil)
  qed
  have o: "reads (if order = [] then [] else '' '' @ ''ORDER'' @ '' '' @ ''BY'' @ '' '' @ order) ?o"
  proof (cases "q_order q")
    case None
    then show ?thesis by (simp add: order_def compileQueryOrder_def reads_Nil)
  next
    case (Some specs)
    with ord have wf: "wf_order specs" by simp
    have "reads ('' '' @ ''ORDER'' @ '' '' @ ''BY'' @ '' '' @ order) ([TWord ''ORDER''] @ [TWord ''BY''] @ order_tokens join specs)"
      using reads_order [OF wf, of join] Some unfolding order_def compileQueryOrder_def
      by (intro reads_space0 reads_space reads_word word_name) simp
    moreover have "order \<noteq> []" using order_text_nonempty [OF wf, of join] Some by (simp add: order_def compileQueryOrder_def)
    ultimately show ?thesis using Some by simp
  qed
  have w: "reads (if crit = [] then [] else '' '' @ ''WHERE'' @ '' '' @ crit) ?w"
  proof (cases "crit = []")
    case True
    then show ?thesis using reads_where [OF assms(1) crit] by (simp add: reads_Nil)
  next
    case False
    have "reads ('' '' @ ''WHERE'' @ '' '' @ crit) ([TWord ''WHERE''] @ where_tokens join q)"
      using reads_where [OF assms(1) crit] by (intro reads_space0 reads_space reads_word word_name) simp
    with False reads_where [OF assms(1) crit] show ?thesis by simp
  qed
  have i: "reads idx (if has_index q then const_tokens (tl index_join) else [])" "clause idx"
    using reads_const_clause [of index_join] reads_Nil by (simp_all add: idx_def)
  note f = reads_const_clause [of "fst (compileFrom q)"]
  have f: "reads (fst (compileFrom q)) (const_tokens (tl (fst (compileFrom q))))" "clause (fst (compileFrom q))"
    using compileFrom_text [of q] by (auto intro: f)
  have "reads sql ([TWord ''SELECT''] @ column_tokens join sel @ const_tokens (tl (fst (compileFrom q))) @
      (if has_index q then const_tokens (tl index_join) else []) @ ?w @ ?o @ ?l)"
    unfolding sql
    by (intro reads_space reads_word word_name reads_clause [OF reads_columns [OF sel cols]]
        reads_clause [OF f(1)] reads_clause [OF i(1)] reads_clause [OF w] reads_clause [OF o l]
        clause_append f(2) i(2)) simp_all
  then show ?thesis unfolding query_tokens_def Let_def join_def [symmetric] sel(1) option.sel by (rule reads_lex)
qed

section \<open>Literals and words\<close>

definition literals :: "sql_token list \<Rightarrow> string list" where
  "literals toks = concat (map (\<lambda>t. case t of TLit v \<Rightarrow> [v] | _ \<Rightarrow> []) toks)"

definition sql_words :: "sql_token list \<Rightarrow> string list" where
  "sql_words toks = concat (map (\<lambda>t. case t of TWord w \<Rightarrow> [w] | _ \<Rightarrow> []) toks)"

lemma literals_simps [simp]:
  "literals [] = []" "literals (TLit v # ts) = v # literals ts" "literals (TWord w # ts) = literals ts"
  "literals (TOp w # ts) = literals ts" "literals (TSym c # ts) = literals ts"
  "literals (ts @ us) = literals ts @ literals us"
  by (simp_all add: literals_def)

lemma sql_words_simps [simp]:
  "sql_words [] = []" "sql_words (TLit v # ts) = sql_words ts" "sql_words (TWord w # ts) = w # sql_words ts"
  "sql_words (TOp w # ts) = sql_words ts" "sql_words (TSym c # ts) = sql_words ts"
  "sql_words (ts @ us) = sql_words ts @ sql_words us"
  by (simp_all add: sql_words_def)

lemma comma_tokens_parts [simp]:
  "literals (comma_tokens ts) = concat (map literals ts)"
  "sql_words (comma_tokens ts) = concat (map sql_words ts)"
  by (induction ts rule: comma_tokens.induct) simp_all

lemma const_literals [simp]: "literals (const_tokens s) = []"
  unfolding const_tokens_def by (induction "Split s (CHR '' '')") (auto simp: literals_def)

text \<open>What of the query is data: the string values, and the numbers.\<close>

fun crit_literals :: "QueryCriteria \<Rightarrow> string list" where
  "crit_literals (ValueCriteria op sel val) = [val]"
| "crit_literals (RangeCriteria op sel val) = []"
| "crit_literals (IndexCriteria sel val) = [val]"
| "crit_literals (CompoundCriteria op l r) = crit_literals l @ crit_literals r"
| "crit_literals (NegatedCriteria e) = crit_literals e"

fun crit_numbers :: "QueryCriteria \<Rightarrow> int list" where
  "crit_numbers (RangeCriteria op sel val) = [val]"
| "crit_numbers (CompoundCriteria op l r) = crit_numbers l @ crit_numbers r"
| "crit_numbers (NegatedCriteria e) = crit_numbers e"
| "crit_numbers _ = []"

fun crit_sels :: "QueryCriteria \<Rightarrow> string list" where
  "crit_sels (ValueCriteria op sel val) = [sel]"
| "crit_sels (RangeCriteria op sel val) = [sel]"
| "crit_sels (IndexCriteria sel val) = [sel]"
| "crit_sels (CompoundCriteria op l r) = crit_sels l @ crit_sels r"
| "crit_sels (NegatedCriteria e) = crit_sels e"

definition namespace_literals :: "string \<Rightarrow> string list" where
  "namespace_literals ns =
     (if ns = ''*'' then [] else if last ns = CHR ''*'' then [take (length ns - 2) ns @ ''%''] else [ns])"

definition query_literals :: "Query \<Rightarrow> string list" where
  "query_literals q = namespace_literals (q_namespace q) @
     (case q_criteria q of None \<Rightarrow> [] | Some c \<Rightarrow> crit_literals c)"

definition query_numbers :: "Query \<Rightarrow> int list" where
  "query_numbers q = q_limit q # (case q_criteria q of None \<Rightarrow> [] | Some c \<Rightarrow> crit_numbers c)"

definition sql_tables :: "string list" where
  "sql_tables = [''Statement'', ''Envelope'', ''Refs'', ''Statement.id'', ''Envelope.id'', ''Refs.id'']"

lemma crit_tokens_literals: "literals (crit_tokens join c) = crit_literals c"
  by (induction c) simp_all

lemma crit_tokens_words:
  "wf_criteria c \<Longrightarrow> set (sql_words (crit_tokens join c)) \<subseteq>
     {''AND'', ''OR'', ''NOT''} \<union> (\<lambda>s. disambigSelector s join) ` set (crit_sels c) \<union> int_str ` set (crit_numbers c)"
proof (induction c)
  case (CompoundCriteria op l r)
  then show ?case by (simp del: insert_subset) blast
next
  case (NegatedCriteria e)
  then show ?case by (simp del: insert_subset) blast
next
  case (RangeCriteria op sel val)
  then have "disambigSelector sel join = sel" by (auto simp: disambigSelector_def)
  then show ?case by simp
qed (simp_all add: disambigSelector_def)

lemma crit_sels_wf:
  "wf_criteria c \<Longrightarrow> set (crit_sels c) \<subseteq> {''id'', ''publisher'', ''source'', ''timestamp'', ''counter'', ''wki''}"
  by (induction c) auto

lemma crit_sels_index: "wf_criteria c \<Longrightarrow> \<not> isIndexCriteria c \<Longrightarrow> ''wki'' \<notin> set (crit_sels c)"
  by (induction c) auto

lemma crit_sels_statement: "wf_criteria c \<Longrightarrow> isStatementCriteria c \<Longrightarrow> set (crit_sels c) \<subseteq> {''id''}"
  by (induction c) auto

definition env_words :: "bool \<Rightarrow> string list" where
  "env_words join = [''DISTINCT'', ''1'', ''COUNT'', ''MIN'', ''MAX'', ''publisher'', ''namespace'', ''source'', ''timestamp'', ''counter'',
     if join then ''Envelope.id'' else ''id'']"

definition words_within :: "string \<Rightarrow> string list \<Rightarrow> bool" where
  "words_within s ws \<longleftrightarrow> list_all (\<lambda>w. w \<in> set ws) (sql_words (const_tokens s))"

lemma column_words:
  "list_all (\<lambda>s. words_within (disambigSelector (selectorColumn s selectorColumnSimple) False) [''data'', ''id''] \<and>
     words_within (disambigSelector (selectorColumn s selectorColumnCompound) False) [''data'', ''id'']) [''*'', ''body'', ''id'']"
  "list_all (\<lambda>j. list_all (\<lambda>s. words_within (disambigSelector (selectorColumn s selectorColumnSimple) j) (env_words j) \<and>
     words_within (disambigSelector (selectorColumn s selectorColumnCompound) j) (env_words j)) order_ops) [True, False]"
  "list_all (\<lambda>j. list_all (\<lambda>s. words_within (disambigSelector (selectorColumn s selectorColumnFun) j) (env_words j)) simple_ops) [True, False]"
  "list_all (\<lambda>s. words_within (disambigSelector (selectorColumn s selectorColumnSimple) True) (''data'' # env_words True) \<and>
     words_within (disambigSelector (selectorColumn s selectorColumnCompound) True) (''data'' # env_words True)) simple_ops"
  by code_simp+

text \<open>The words of the columns, in the three cases of the FROM clause.\<close>

lemma column_tokens_literals [simp]: "literals (column_tokens join sel) = []"
  by (cases sel) (simp_all add: comp_def)

lemma within_set: "words_within s ws \<longleftrightarrow> set (sql_words (const_tokens s)) \<subseteq> set ws"
  by (auto simp: words_within_def list_all_iff)

lemma simple_compound_words:
  assumes "case sel of SimpleSelector s \<Rightarrow> P s | CompoundSelector ss \<Rightarrow> ss \<noteq> [] \<and> list_all P ss | FunctionSelector op s \<Rightarrow> False"
    and "\<And>s. P s \<Longrightarrow> words_within (disambigSelector (selectorColumn s selectorColumnSimple) join) ws \<and>
      words_within (disambigSelector (selectorColumn s selectorColumnCompound) join) ws"
  shows "set (sql_words (column_tokens join sel)) \<subseteq> set ws"
proof (cases sel)
  case (SimpleSelector s)
  with assms show ?thesis by (simp add: within_set)
next
  case (CompoundSelector ss)
  with assms(1) have "P (ss ! 0)" "\<forall>s \<in> set ss. P s" by (cases ss; auto simp: list_all_iff)+
  then have "words_within (disambigSelector (selectorColumn (ss ! 0) selectorColumnSimple) join) ws"
    "\<forall>s \<in> set ss. words_within (disambigSelector (selectorColumn s selectorColumnCompound) join) ws"
    using assms(2) by blast+
  then show ?thesis using CompoundSelector by (auto simp: within_set)
qed (use assms(1) in simp)

lemma column_words_statement:
  assumes "isStatementSelector (Some sel)" "wf_selector sel"
  shows "set (sql_words (column_tokens False sel)) \<subseteq> {''data'', ''id''}"
proof -
  have "set (sql_words (column_tokens False sel)) \<subseteq> set [''data'', ''id'']"
  proof (rule simple_compound_words [where P = statementSelectorp])
    show "case sel of SimpleSelector s \<Rightarrow> statementSelectorp s
       | CompoundSelector ss \<Rightarrow> ss \<noteq> [] \<and> list_all statementSelectorp ss | FunctionSelector op s \<Rightarrow> False"
      using assms by (cases sel) (simp_all add: isStatementSelector_def)
    fix s assume "statementSelectorp s"
    then have "s \<in> set [''*'', ''body'', ''id'']" by (auto simp: statementSelectorp_def)
    with column_words(1) show "words_within (disambigSelector (selectorColumn s selectorColumnSimple) False) [''data'', ''id''] \<and>
      words_within (disambigSelector (selectorColumn s selectorColumnCompound) False) [''data'', ''id'']"
      unfolding list_all_iff by blast
  qed
  then show ?thesis by simp
qed

lemma column_words_envelope:
  assumes "isEnvelopeSelector (Some sel)" "wf_selector sel"
  shows "set (sql_words (column_tokens join sel)) \<subseteq> set (env_words join)"
proof (cases "\<exists>op s. sel = FunctionSelector op s")
  case True
  then obtain op s where f: "sel = FunctionSelector op s" by blast
  with assms(2) have "s \<in> set simple_ops" "op \<in> {''COUNT'', ''MIN'', ''MAX''}" by (auto simp: function_ops_def)
  moreover have "words_within (disambigSelector (selectorColumn s selectorColumnFun) join) (env_words join)"
    using column_words(3) \<open>s \<in> set simple_ops\<close> unfolding list_all_iff by (cases join) simp_all
  ultimately show ?thesis using f by (auto simp: within_set env_words_def)
next
  case False
  show ?thesis
  proof (rule simple_compound_words [where P = envelopeSelectorp])
    show "case sel of SimpleSelector s \<Rightarrow> envelopeSelectorp s
       | CompoundSelector ss \<Rightarrow> ss \<noteq> [] \<and> list_all envelopeSelectorp ss | FunctionSelector op s \<Rightarrow> False"
      using assms False by (cases sel) (simp_all add: isEnvelopeSelector_def)
    fix s assume "envelopeSelectorp s"
    then have "s \<in> set order_ops" by (auto simp: envelopeSelectorp_def order_ops_def)
    with column_words(2) show "words_within (disambigSelector (selectorColumn s selectorColumnSimple) join) (env_words join) \<and>
      words_within (disambigSelector (selectorColumn s selectorColumnCompound) join) (env_words join)"
      unfolding list_all_iff by (cases join) simp_all
  qed
qed

lemma column_words_join:
  assumes "wf_selector sel" "\<not> isEnvelopeSelector (Some sel)"
  shows "set (sql_words (column_tokens True sel)) \<subseteq> insert ''data'' (set (env_words True))"
proof -
  have "set (sql_words (column_tokens True sel)) \<subseteq> set (''data'' # env_words True)"
  proof (rule simple_compound_words [where P = "\<lambda>s. s \<in> set simple_ops"])
    show "case sel of SimpleSelector s \<Rightarrow> s \<in> set simple_ops
       | CompoundSelector ss \<Rightarrow> ss \<noteq> [] \<and> list_all (\<lambda>s. s \<in> set simple_ops) ss | FunctionSelector op s \<Rightarrow> False"
      using assms by (cases sel) (auto simp: isEnvelopeSelector_def list_all_iff)
    show "words_within (disambigSelector (selectorColumn s selectorColumnSimple) True) (''data'' # env_words True) \<and>
      words_within (disambigSelector (selectorColumn s selectorColumnCompound) True) (''data'' # env_words True)"
      if "s \<in> set simple_ops" for s
      using column_words(4) that unfolding list_all_iff by blast
  qed
  then show ?thesis by simp
qed

section \<open>Words of the whole text\<close>

lemma int_str_not_name:
  assumes "0 \<le> i" "w \<in> set (''id'' # ''data'' # ''publisher'' # ''namespace'' # ''source'' # ''timestamp'' # ''counter'' # ''wki'' # sql_tables)"
  shows "int_str i \<noteq> w"
proof
  assume e: "int_str i = w"
  have names: "list_all (\<lambda>w. w \<noteq> [] \<and> \<not> is_digit (hd w))
     (''id'' # ''data'' # ''publisher'' # ''namespace'' # ''source'' # ''timestamp'' # ''counter'' # ''wki'' # sql_tables)"
    by code_simp
  then have "w \<noteq> [] \<and> \<not> is_digit (hd w)" using assms(2) unfolding list_all_iff by blast
  moreover have "is_digit (hd (int_str i))"
    using nat_str_digit_set [of "hd (int_str i)" "nat i"] assms(1) by (simp add: int_str_def)
  ultimately show False using e by simp
qed

definition crit_words :: "Query \<Rightarrow> string set" where
  "crit_words q = (case q_criteria q of None \<Rightarrow> {} | Some c \<Rightarrow> set (crit_sels c))"

definition order_words :: "Query \<Rightarrow> string set" where
  "order_words q = (case q_order q of None \<Rightarrow> {} | Some specs \<Rightarrow> o_sel ` set specs)"

lemma order_tokens_words:
  "wf_order specs \<Longrightarrow> set (sql_words (order_tokens join specs)) \<subseteq>
     {''ASC'', ''DESC''} \<union> (\<lambda>s. disambigSelector s join) ` o_sel ` set specs"
  by (fastforce simp: order_tokens_def wf_order_def list_all_iff split: if_splits)

lemma order_tokens_literals [simp]: "literals (order_tokens join specs) = []"
  by (induction specs) (auto simp: order_tokens_def comp_def)

lemma ns_tokens_words: "set (sql_words (ns_tokens ns)) \<subseteq> (if ns = ''*'' then {} else {''namespace'', ''LIKE''})"
  by (simp add: ns_tokens_def)

text \<open>The words outside the FROM clause: keywords, numbers, and the columns of the three parts.\<close>

lemma query_tokens_words:
  assumes "wf_query q" "q_selector q = Some sel"
    and "join = (snd (compileFrom q) \<or> has_index q)"
  shows "set (sql_words (query_tokens q)) \<subseteq>
    set (sql_words (const_tokens (tl (fst (compileFrom q))))) \<union>
    (if has_index q then set (sql_words (const_tokens (tl index_join))) else {}) \<union>
    set (sql_words (column_tokens join sel)) \<union>
    set sql_keywords \<union> int_str ` set (query_numbers q) \<union>
    (\<lambda>s. disambigSelector s join) ` (crit_words q \<union> order_words q) \<union>
    (if q_namespace q = ''*'' then {} else {''namespace''})"
proof -
  have ord: "pred_option wf_order (q_order q)" using assms(1) by (auto simp: wf_query_def split: QueryOp.splits)
  have crit: "pred_option wf_criteria (q_criteria q)" using assms(1) by (simp add: wf_query_def)
  have kw: "{''AND'', ''OR'', ''NOT'', ''ASC'', ''DESC'', ''LIKE'', ''SELECT'', ''WHERE'', ''ORDER'', ''BY'', ''LIMIT''}
      \<subseteq> set sql_keywords"
    by (simp add: sql_keywords_def)
  have w: "set (sql_words (where_tokens join q)) \<subseteq> (if q_namespace q = ''*'' then {} else {''namespace'', ''LIKE''}) \<union>
      {''AND'', ''OR'', ''NOT''} \<union> (\<lambda>s. disambigSelector s join) ` crit_words q \<union> int_str ` set (query_numbers q)"
  proof (cases "q_criteria q")
    case None
    then have e: "where_tokens join q = ns_tokens (q_namespace q)" by (simp add: where_tokens_def)
    show ?thesis unfolding e using ns_tokens_words [of "q_namespace q"] by blast
  next
    case (Some c)
    with crit have "wf_criteria c" by simp
    note c = crit_tokens_words [OF this, of join]
    have e: "set (sql_words (where_tokens join q)) \<subseteq>
        set (sql_words (ns_tokens (q_namespace q))) \<union> {''AND''} \<union> set (sql_words (crit_tokens join c))"
      using Some by (auto simp: where_tokens_def)
    have n: "crit_words q = set (crit_sels c)" "set (crit_numbers c) \<subseteq> set (query_numbers q)"
      using Some by (auto simp: crit_words_def query_numbers_def)
    from e c ns_tokens_words [of "q_namespace q"] show ?thesis unfolding n(1) using n(2) by blast
  qed
  have o: "set (sql_words (case q_order q of None \<Rightarrow> [] | Some specs \<Rightarrow> [TWord ''ORDER''] @ [TWord ''BY''] @ order_tokens join specs)) \<subseteq>
      {''ORDER'', ''BY'', ''ASC'', ''DESC''} \<union> (\<lambda>s. disambigSelector s join) ` order_words q"
  proof (cases "q_order q")
    case (Some specs)
    with ord order_tokens_words [of specs join] show ?thesis by (simp add: order_words_def) blast
  qed simp
  have l: "set (sql_words (if q_limit q > 0 then [TWord ''LIMIT''] @ [TWord (int_str (q_limit q))] else [])) \<subseteq>
      {''LIMIT''} \<union> int_str ` set (query_numbers q)"
    by (simp add: query_numbers_def)
  have ww: "set (sql_words (if where_tokens join q = [] then [] else [TWord ''WHERE''] @ where_tokens join q)) \<subseteq>
      {''WHERE''} \<union> set (sql_words (where_tokens join q))" by simp
  have "set (sql_words (query_tokens q)) = {''SELECT''} \<union> set (sql_words (column_tokens join sel)) \<union>
    set (sql_words (const_tokens (tl (fst (compileFrom q))))) \<union>
    set (sql_words (if has_index q then const_tokens (tl index_join) else [])) \<union>
    set (sql_words (if where_tokens join q = [] then [] else [TWord ''WHERE''] @ where_tokens join q)) \<union>
    set (sql_words (case q_order q of None \<Rightarrow> [] | Some specs \<Rightarrow> [TWord ''ORDER''] @ [TWord ''BY''] @ order_tokens join specs)) \<union>
    set (sql_words (if q_limit q > 0 then [TWord ''LIMIT''] @ [TWord (int_str (q_limit q))] else []))"
    unfolding query_tokens_def Let_def assms(3) [symmetric] assms(2) option.sel
    by (simp only: sql_words_simps set_append list.set Un_assoc)
  also have "\<dots> \<subseteq> set (sql_words (const_tokens (tl (fst (compileFrom q))))) \<union>
    (if has_index q then set (sql_words (const_tokens (tl index_join))) else {}) \<union>
    set (sql_words (column_tokens join sel)) \<union>
    set sql_keywords \<union> int_str ` set (query_numbers q) \<union>
    (\<lambda>s. disambigSelector s join) ` (crit_words q \<union> order_words q) \<union>
    (if q_namespace q = ''*'' then {} else {''namespace''})"
  proof -
    let ?K = "set sql_keywords" and ?N = "int_str ` set (query_numbers q)"
    let ?D = "(\<lambda>s. disambigSelector s join) ` (crit_words q \<union> order_words q)"
    let ?S = "if q_namespace q = ''*'' then {} else {''namespace''}"
    have k: "{''AND'', ''OR'', ''NOT''} \<subseteq> ?K" "{''ORDER'', ''BY'', ''ASC'', ''DESC''} \<subseteq> ?K" "{''LIMIT''} \<subseteq> ?K"
      "{''WHERE''} \<subseteq> ?K" "{''SELECT''} \<subseteq> ?K"
      by (simp_all add: sql_keywords_def)
    have n: "(if q_namespace q = ''*'' then {} else {''namespace'', ''LIKE''}) \<subseteq> ?S \<union> ?K" using kw by simp
    have "set (sql_words (where_tokens join q)) \<subseteq> ?S \<union> ?K \<union> ?D \<union> ?N" using w n k(1) by blast
    then have ww': "set (sql_words (if where_tokens join q = [] then [] else [TWord ''WHERE''] @ where_tokens join q))
        \<subseteq> ?S \<union> ?K \<union> ?D \<union> ?N" using ww k(4) by blast
    have o': "set (sql_words (case q_order q of None \<Rightarrow> [] | Some specs \<Rightarrow> [TWord ''ORDER''] @ [TWord ''BY''] @ order_tokens join specs))
        \<subseteq> ?K \<union> ?D" using o k(2) by blast
    have l': "set (sql_words (if q_limit q > 0 then [TWord ''LIMIT''] @ [TWord (int_str (q_limit q))] else [])) \<subseteq> ?K \<union> ?N"
      using l k(3) by blast
    have i: "set (sql_words (if has_index q then const_tokens (tl index_join) else [])) =
        (if has_index q then set (sql_words (const_tokens (tl index_join))) else {})" by simp
    show ?thesis unfolding i using k(5) by (intro Un_least; (use ww' o' l' in blast))
  qed
  finally show ?thesis .
qed

lemma query_tokens_literals:
  assumes "wf_query q"
  shows "literals (query_tokens q) = query_literals q"
proof -
  have "literals (where_tokens join q) = query_literals q" for join
    by (simp add: where_tokens_def query_literals_def ns_tokens_def namespace_literals_def crit_tokens_literals
        split: option.splits)
  moreover have "where_tokens join q = [] \<Longrightarrow> query_literals q = []" for join
    using calculation [of join] by (metis literals_simps(1))
  ultimately show ?thesis by (simp add: query_tokens_def Let_def split: option.splits)
qed

definition sql_vocabulary :: "string list" where
  "sql_vocabulary = sql_keywords @ sql_columns @ sql_tables"

lemma env_words_vocabulary: "set (env_words j) \<subseteq> set sql_vocabulary"
  by (cases j) (simp_all add: env_words_def sql_vocabulary_def sql_keywords_def sql_columns_def sql_tables_def)

lemma column_words_vocabulary:
  assumes "q_selector q = Some sel" "wf_selector sel" "join = (snd (compileFrom q) \<or> has_index q)"
  shows "set (sql_words (column_tokens join sel)) \<subseteq> set sql_vocabulary"
proof -
  have "''data'' \<in> set sql_vocabulary" "''id'' \<in> set sql_vocabulary"
    by (simp_all add: sql_vocabulary_def sql_columns_def)
  then show ?thesis
    using column_words_envelope [OF _ assms(2), of join] column_words_join [OF assms(2)]
      column_words_statement [OF _ assms(2)] env_words_vocabulary [of join] env_words_vocabulary [of True] assms(1,3)
    by (cases "isEnvelopeSelector (Some sel)"; cases join)
       (auto simp: compileFrom_def isStatementQuery_def isEnvelopeQuery_def split: if_splits)
qed

lemma named_columns:
  assumes "wf_query q"
  shows "crit_words q \<union> order_words q \<subseteq> set sql_columns"
proof (intro Un_least subsetI)
  fix w assume "w \<in> crit_words q"
  then obtain c where "q_criteria q = Some c" "w \<in> set (crit_sels c)" by (auto simp: crit_words_def split: option.splits)
  with assms crit_sels_wf [of c] show "w \<in> set sql_columns" by (fastforce simp: wf_query_def sql_columns_def)
next
  fix w assume "w \<in> order_words q"
  then obtain specs sp where "q_order q = Some specs" "sp \<in> set specs" "w = o_sel sp"
    by (auto simp: order_words_def split: option.splits)
  with assms have "w \<in> set order_ops"
    by (auto simp: wf_query_def wf_order_def list_all_iff split: QueryOp.splits)
  with ops_are_names(2) show "w \<in> set sql_columns" by (simp add: list_all_iff)
qed

lemma from_vocabulary:
  "set (sql_words (const_tokens (tl (fst (compileFrom q))))) \<subseteq> set sql_vocabulary"
  "set (sql_words (const_tokens (tl index_join))) \<subseteq> set sql_vocabulary"
proof -
  have "list_all (\<lambda>s. list_all (\<lambda>w. w \<in> set sql_vocabulary) (sql_words (const_tokens (tl s)))) (index_join # from_texts)"
    by code_simp
  then show "set (sql_words (const_tokens (tl (fst (compileFrom q))))) \<subseteq> set sql_vocabulary"
      "set (sql_words (const_tokens (tl index_join))) \<subseteq> set sql_vocabulary"
    using compileFrom_text [of q] by (auto simp: list_all_iff)
qed

text \<open>C38: Whatever values a query holds, the SQL text it compiles to is a sequence of SQL tokens whose string
  literals are exactly the namespace pattern and the values of the criteria, in order, and whose
  words are the fixed keywords, tables and columns and the decimal numbers of the query: no value
  escapes its quotes.\<close>

theorem compile_no_injection:
  assumes "wf_query q" "CompileQuery q = Ok (sql, rs)"
  shows "\<exists>toks. sql_lex sql = Some toks \<and> literals toks = query_literals q \<and>
    set (sql_words toks) \<subseteq> set sql_vocabulary \<union> int_str ` set (query_numbers q)"
proof (intro exI conjI)
  show "sql_lex sql = Some (query_tokens q)" by (rule CompileQuery_tokens [OF assms])
  show "literals (query_tokens q) = query_literals q" by (rule query_tokens_literals [OF assms(1)])
  obtain sel where sel: "q_selector q = Some sel" "wf_selector sel" using assms(1) by (rule wf_query_selector)
  define join where "join = (snd (compileFrom q) \<or> has_index q)"
  note column_words_vocabulary [OF sel join_def]
  moreover have "(\<lambda>s. disambigSelector s join) ` (crit_words q \<union> order_words q) \<subseteq> set sql_vocabulary"
    using named_columns [OF assms(1)] by (auto simp: disambigSelector_def sql_vocabulary_def sql_tables_def)
  moreover have "set sql_keywords \<subseteq> set sql_vocabulary" unfolding sql_vocabulary_def set_append by blast
  moreover have ns: "''namespace'' \<in> set sql_vocabulary" by (simp add: sql_vocabulary_def sql_columns_def)
  moreover have "(if has_index q then set (sql_words (const_tokens (tl index_join))) else {}) \<subseteq> set sql_vocabulary"
    using from_vocabulary(2) by simp
  moreover have "(if q_namespace q = ''*'' then {} else {''namespace''}) \<subseteq> set sql_vocabulary" using ns by simp
  ultimately show "set (sql_words (query_tokens q)) \<subseteq> set sql_vocabulary \<union> int_str ` set (query_numbers q)"
    using from_vocabulary(1) [of q] by (intro order_trans [OF query_tokens_words [OF assms(1) sel(1) join_def]] Un_least) blast+
qed

definition compile_sample :: Query where
  "compile_sample = \<lparr>q_Op = OpSelect, q_namespace = ''images.*'', q_selector = Some (SimpleSelector ''body''),
     q_criteria = Some (IndexCriteria ''wki'' ''dpla:42''), q_order = None, q_limit = 5\<rparr>"

definition compile_sample_sql :: string where
  "compile_sample_sql = ''SELECT data FROM Statement JOIN Envelope ON Statement.id = Envelope.id JOIN Refs ON Envelope.id = Refs.id WHERE namespace LIKE ''
     @ [quote] @ ''images%'' @ [quote] @ '' AND wki = '' @ [quote] @ ''dpla:42'' @ [quote] @ '' LIMIT 5''"

lemma compile_sample_wf: "wf_query compile_sample"
  unfolding wf_query_def wf_namespace_def
  by (intro conjI disjI2 exI [of _ "[''images'']"] exI [of _ True])
     (simp_all add: compile_sample_def ns_render_def word_of_def simple_ops_def
       ns_char_def wki_char_def is_alnum_def is_alpha_def is_digit_def digit_val_def int64_max_def)

lemma compile_sample_Ok: "CompileQuery compile_sample = Ok (compile_sample_sql, RowSelectSimple RowSelectBody)"
  by code_simp

theorem compile_no_injection_witness:
  "\<exists>toks. sql_lex compile_sample_sql = Some toks \<and> literals toks = [''images%'', ''dpla:42''] \<and>
    set (sql_words toks) \<subseteq> set sql_vocabulary \<union> int_str ` {5}"
proof -
  have q: "query_literals compile_sample = [''images%'', ''dpla:42'']" "query_numbers compile_sample = [5]"
    by code_simp+
  from compile_no_injection [OF compile_sample_wf compile_sample_Ok] show ?thesis unfolding q by simp
qed

section \<open>Column resolution\<close>

definition schema_tables :: "string list" where
  "schema_tables = [''Statement'', ''Envelope'', ''Refs'']"

definition schema_columns :: "string list" where
  "schema_columns = concat (map (\<lambda>t. the (createTables t)) schema_tables)"

text \<open>The tables of the text that have the column.\<close>

definition tables_with :: "string set \<Rightarrow> string \<Rightarrow> string list" where
  "tables_with W w = filter (\<lambda>t. t \<in> W \<and> w \<in> set (the (createTables t))) schema_tables"

lemma tables_with_simps:
  "length (tables_with W ''data'') = (if ''Statement'' \<in> W then 1 else 0)"
  "length (tables_with W ''id'') = (if ''Statement'' \<in> W then 1 else 0) + (if ''Envelope'' \<in> W then 1 else 0) +
     (if ''Refs'' \<in> W then 1 else 0)"
  "length (tables_with W ''wki'') = (if ''Refs'' \<in> W then 1 else 0)"
  "w \<in> {''publisher'', ''namespace'', ''source'', ''timestamp'', ''counter''} \<Longrightarrow>
     length (tables_with W w) = (if ''Envelope'' \<in> W then 1 else 0)"
  by (auto simp: tables_with_def schema_tables_def createTables_def)

definition env_columns :: "bool \<Rightarrow> string set" where
  "env_columns join = {''publisher'', ''namespace'', ''source'', ''timestamp'', ''counter''} \<union> (if join then {} else {''id''})"

lemma crit_words_wf: "wf_query q \<Longrightarrow> crit_words q \<subseteq> {''id'', ''publisher'', ''source'', ''timestamp'', ''counter'', ''wki''}"
  using crit_sels_wf by (cases "q_criteria q") (simp_all add: crit_words_def wf_query_def)

lemma order_words_wf: "wf_query q \<Longrightarrow> order_words q \<subseteq> set order_ops"
  by (auto simp: order_words_def wf_query_def wf_order_def list_all_iff split: option.splits QueryOp.splits)

lemma name_image: "(\<forall>i \<in> set is. 0 \<le> i) \<Longrightarrow> w \<in> int_str ` set is \<Longrightarrow>
   w \<notin> set (''id'' # ''data'' # ''publisher'' # ''namespace'' # ''source'' # ''timestamp'' # ''counter'' # ''wki'' # sql_tables)"
  using int_str_not_name by blast

lemma query_numbers_nonneg:
  assumes "wf_query q"
  shows "\<forall>i \<in> set (query_numbers q). 0 \<le> i"
proof -
  have "wf_criteria c \<Longrightarrow> \<forall>i \<in> set (crit_numbers c). 0 \<le> i" for c by (induction c) auto
  note crit = this
  show ?thesis
  proof (cases "q_criteria q")
    case (Some c)
    with assms crit [of c] show ?thesis by (auto simp: query_numbers_def wf_query_def)
  qed (use assms in \<open>simp add: query_numbers_def wf_query_def\<close>)
qed

text \<open>
  \<open>resolved W\<close>: of the words of a text, every column is a column of exactly one of its tables,
  and every qualified \<open>id\<close> is of one of its tables.
\<close>

definition resolved :: "string set \<Rightarrow> bool" where
  "resolved W \<longleftrightarrow>
     (\<forall>w \<in> W. w \<in> set schema_columns \<longrightarrow> length (tables_with W w) = 1) \<and>
     (\<forall>t \<in> set schema_tables. t @ ''.id'' \<in> W \<longrightarrow> t \<in> W)"

definition resolves :: "string list \<Rightarrow> string list \<Rightarrow> bool" where
  "resolves T B \<longleftrightarrow>
     list_all (\<lambda>t. t \<in> set B \<longrightarrow> t \<in> set T) schema_tables \<and>
     list_all (\<lambda>w. w \<in> set schema_columns \<longrightarrow> length (filter (\<lambda>t. t \<in> set T \<and> w \<in> set (the (createTables t))) schema_tables) = 1) B \<and>
     list_all (\<lambda>t. t @ ''.id'' \<in> set B \<longrightarrow> t \<in> set T) schema_tables"

lemma resolved_bound:
  assumes "resolves T B" "W \<subseteq> set B \<union> int_str ` set is" "\<forall>i \<in> set is. 0 \<le> i" "set T \<subseteq> W" "set T \<subseteq> set schema_tables"
  shows "resolved W"
proof -
  have names: "set schema_columns \<union> set schema_tables \<union> (\<lambda>t. t @ ''.id'') ` set schema_tables \<subseteq>
      set (''id'' # ''data'' # ''publisher'' # ''namespace'' # ''source'' # ''timestamp'' # ''counter'' # ''wki'' # sql_tables)"
    by (simp add: schema_columns_def schema_tables_def createTables_def sql_tables_def)
  have in_B: "w \<in> set B" if "w \<in> W" "w \<in> set schema_columns \<union> set schema_tables \<union> (\<lambda>t. t @ ''.id'') ` set schema_tables" for w
    using that assms(2) name_image [OF assms(3), of w] names by blast
  have T: "t \<in> W \<longleftrightarrow> t \<in> set T" if "t \<in> set schema_tables" for t
    using that assms(1,4) in_B [of t] by (auto simp: resolves_def list_all_iff)
  have eq: "tables_with W w = filter (\<lambda>t. t \<in> set T \<and> w \<in> set (the (createTables t))) schema_tables" for w
    unfolding tables_with_def using T by (intro filter_cong) auto
  show ?thesis
    unfolding resolved_def eq
  proof (intro conjI ballI impI)
    fix w assume w: "w \<in> W" "w \<in> set schema_columns"
    then have "w \<in> set B" by (intro in_B) simp_all
    with assms(1) w(2) show "length (filter (\<lambda>t. t \<in> set T \<and> w \<in> set (the (createTables t))) schema_tables) = 1"
      unfolding resolves_def list_all_iff by blast
  next
    fix t assume t: "t \<in> set schema_tables" "t @ ''.id'' \<in> W"
    then have "t @ ''.id'' \<in> set B" by (intro in_B) simp_all
    with assms(1) t(1) have "t \<in> set T" unfolding resolves_def list_all_iff by blast
    with T [OF t(1)] show "t \<in> W" by simp
  qed
qed

definition stage_words :: "bool \<Rightarrow> string list" where
  "stage_words join = env_words join @ sql_keywords"

text \<open>The words of the five shapes of a compiled query resolve.\<close>

lemma shapes_resolve:
  "resolves [''Statement''] ([''FROM'', ''Statement'', ''data'', ''id''] @ sql_keywords)"
  "resolves [''Envelope''] ([''FROM'', ''Envelope''] @ stage_words False)"
  "resolves [''Envelope'', ''Refs''] ([''FROM'', ''Envelope'', ''JOIN'', ''Refs'', ''ON'', ''Envelope.id'', ''Refs.id'', ''wki''] @ stage_words True)"
  "resolves [''Statement'', ''Envelope''] ([''FROM'', ''Statement'', ''JOIN'', ''Envelope'', ''ON'', ''Statement.id'', ''Envelope.id'', ''data''] @ stage_words True)"
  "resolves [''Statement'', ''Envelope'', ''Refs''] ([''FROM'', ''Statement'', ''JOIN'', ''Envelope'', ''Refs'', ''ON'', ''Statement.id'', ''Envelope.id'', ''Refs.id'', ''wki'', ''data''] @ stage_words True)"
  by code_simp+

lemma from_words:
  "sql_words (const_tokens (tl '' FROM Statement'')) = [''FROM'', ''Statement'']"
  "sql_words (const_tokens (tl '' FROM Envelope'')) = [''FROM'', ''Envelope'']"
  "sql_words (const_tokens (tl '' FROM Statement JOIN Envelope ON Statement.id = Envelope.id'')) =
     [''FROM'', ''Statement'', ''JOIN'', ''Envelope'', ''ON'', ''Statement.id'', ''Envelope.id'']"
  "sql_words (const_tokens (tl index_join)) = [''JOIN'', ''Refs'', ''ON'', ''Envelope.id'', ''Refs.id'']"
  by code_simp+

lemma from_words_subset:
  "set (sql_words (const_tokens (tl (fst (compileFrom q))))) \<subseteq> set (sql_words (query_tokens q))"
  "has_index q \<Longrightarrow> set (sql_words (const_tokens (tl index_join))) \<subseteq> set (sql_words (query_tokens q))"
  unfolding query_tokens_def Let_def by (simp_all only: sql_words_simps set_append if_True) blast+

text \<open>The columns outside the FROM clause, by the choice of tables.\<close>

lemma disambig_image:
  assumes "wf_query q"
  shows "(\<lambda>s. disambigSelector s join) ` (crit_words q \<union> order_words q) \<union>
    (if q_namespace q = ''*'' then {} else {''namespace''}) \<subseteq>
    set (env_words join) \<union> (if has_index q then {''wki''} else {})"
proof -
  have e: "disambigSelector s join \<in> set (env_words join)" if "s \<in> set order_ops" for s
    using that by (auto simp: order_ops_def env_words_def disambigSelector_def)
  have c: "disambigSelector s join \<in> set (env_words join) \<union> (if has_index q then {''wki''} else {})"
    if "s \<in> crit_words q" for s
  proof (cases "s = ''wki''")
    case True
    with that crit_sels_index assms have "has_index q"
      by (auto simp: crit_words_def has_index_def wf_query_def split: option.splits)
    with True show ?thesis by (simp add: disambigSelector_def)
  next
    case False
    with that crit_words_wf [OF assms] have "s \<in> set order_ops" unfolding order_ops_def by fastforce
    then show ?thesis using e by simp
  qed
  have "''namespace'' \<in> set (env_words join)" by (simp add: env_words_def)
  then have n: "(if q_namespace q = ''*'' then {} else {''namespace''}) \<subseteq> set (env_words join)" by simp
  have o: "(\<lambda>s. disambigSelector s join) ` order_words q \<subseteq> set (env_words join)"
    using e order_words_wf [OF assms] by blast
  have "(\<lambda>s. disambigSelector s join) ` crit_words q \<subseteq> set (env_words join) \<union> (if has_index q then {''wki''} else {})"
    using c by blast
  with n o show ?thesis unfolding image_Un by blast
qed

text \<open>A query other than a statement query resolves when the words of its FROM clause and columns do.\<close>

lemma shape_resolved:
  assumes "wf_query q" "q_selector q = Some sel" "resolves T (B @ stage_words join)"
    and join: "join = (snd (compileFrom q) \<or> has_index q)"
    and words: "set (sql_words (const_tokens (tl (fst (compileFrom q))))) \<subseteq> set B"
    "has_index q \<Longrightarrow> set (sql_words (const_tokens (tl index_join))) \<subseteq> set B \<and> ''wki'' \<in> set B"
    "set (sql_words (column_tokens join sel)) \<subseteq> set B \<union> set (env_words join)"
    and T: "set T \<subseteq> set (sql_words (const_tokens (tl (fst (compileFrom q))))) \<union>
      (if has_index q then set (sql_words (const_tokens (tl index_join))) else {})" "set T \<subseteq> set schema_tables"
  shows "resolved (set (sql_words (query_tokens q)))"
proof (rule resolved_bound [OF assms(3) _ query_numbers_nonneg [OF assms(1)] _ T(2)])
  have I: "(if has_index q then set (sql_words (const_tokens (tl index_join))) else {}) \<subseteq> set B"
    "(if has_index q then {''wki''} else {}) \<subseteq> set B" using words(2) by simp_all
  show "set (sql_words (query_tokens q)) \<subseteq> set (B @ stage_words join) \<union> int_str ` set (query_numbers q)"
    using query_tokens_words [OF assms(1,2) join] disambig_image [OF assms(1), of join] words(1,3) I
    unfolding stage_words_def set_append by blast
  have "(if has_index q then set (sql_words (const_tokens (tl index_join))) else {}) \<subseteq> set (sql_words (query_tokens q))"
    using from_words_subset(2) [of q] by simp
  with T(1) from_words_subset(1) [of q] show "set T \<subseteq> set (sql_words (query_tokens q))" by blast
qed

lemma statement_query_resolved:
  assumes "wf_query q" "q_selector q = Some sel" "wf_selector sel" "isStatementQuery q"
  shows "resolved (set (sql_words (query_tokens q)))"
proof -
  have st: "q_namespace q = ''*''" "isStatementSelector (Some sel)" "q_order q = None"
    "case q_criteria q of None \<Rightarrow> True | Some c \<Rightarrow> isStatementCriteria c"
    using assms(2,4) by (simp_all add: isStatementQuery_def)
  have no_index: "isStatementCriteria c \<Longrightarrow> \<not> isIndexCriteria c" for c by (induction c) auto
  have c: "crit_words q \<subseteq> {''id''}" "\<not> has_index q"
    using st(4) assms(1) crit_sels_statement no_index
    by (auto simp: crit_words_def has_index_def wf_query_def split: option.splits)
  have f: "compileFrom q = ('' FROM Statement'', False)" using assms(4) by (simp add: compileFrom_def)
  have o: "order_words q = {}" using st(3) by (simp add: order_words_def)
  have "set (sql_words (query_tokens q)) \<subseteq>
      set ([''FROM'', ''Statement'', ''data'', ''id''] @ sql_keywords) \<union> int_str ` set (query_numbers q)"
    using query_tokens_words [OF assms(1,2), of False] column_words_statement [OF st(2) assms(3)] c st(1) f o from_words(1)
    by (auto simp: disambigSelector_def)
  then show ?thesis
    by (rule resolved_bound [OF shapes_resolve(1) _ query_numbers_nonneg [OF assms(1)]])
       (use from_words_subset(1) [of q] f from_words(1) in \<open>simp_all add: schema_tables_def\<close>)
qed

lemma envelope_query_resolved:
  assumes "wf_query q" "q_selector q = Some sel" "wf_selector sel" "\<not> isStatementQuery q" "isEnvelopeQuery q"
  shows "resolved (set (sql_words (query_tokens q)))"
proof -
  have f: "compileFrom q = ('' FROM Envelope'', False)" using assms(4,5) by (simp add: compileFrom_def)
  have cols: "set (sql_words (column_tokens j sel)) \<subseteq> set (env_words j)" for j
    using assms(2,5) by (intro column_words_envelope assms(3)) (simp add: isEnvelopeQuery_def)
  have F: "sql_words (const_tokens (tl (fst (compileFrom q)))) = [''FROM'', ''Envelope'']"
    unfolding f fst_conv by (rule from_words(2))
  show ?thesis
  proof (cases "has_index q")
    case True
    show ?thesis
    proof (rule shape_resolved [OF assms(1,2) shapes_resolve(3)])
      show "True = (snd (compileFrom q) \<or> has_index q)" using f True by simp
    qed (unfold F, simp_all add: True from_words(4) schema_tables_def del: list.sel, (rule cols | rule subset_insertI2)+)
  next
    case False
    show ?thesis
    proof (rule shape_resolved [OF assms(1,2) shapes_resolve(2)])
      show "False = (snd (compileFrom q) \<or> has_index q)" using f False by simp
    qed (unfold F, simp_all add: False from_words(4) schema_tables_def del: list.sel, (rule cols | rule subset_insertI2)+)
  qed
qed

lemma join_query_resolved:
  assumes "wf_query q" "q_selector q = Some sel" "wf_selector sel" "\<not> isStatementQuery q" "\<not> isEnvelopeQuery q"
  shows "resolved (set (sql_words (query_tokens q)))"
proof -
  have f: "compileFrom q = ('' FROM Statement JOIN Envelope ON Statement.id = Envelope.id'', True)"
    using assms(4,5) by (simp add: compileFrom_def)
  have cols: "set (sql_words (column_tokens True sel)) \<subseteq> insert ''data'' (set (env_words True))"
    using assms(2,5) by (intro column_words_join assms(3)) (simp add: isEnvelopeQuery_def)
  have F: "sql_words (const_tokens (tl (fst (compileFrom q)))) =
      [''FROM'', ''Statement'', ''JOIN'', ''Envelope'', ''ON'', ''Statement.id'', ''Envelope.id'']"
    unfolding f fst_conv by (rule from_words(3))
  show ?thesis
  proof (cases "has_index q")
    case True
    show ?thesis
    proof (rule shape_resolved [OF assms(1,2) shapes_resolve(5)])
      show "True = (snd (compileFrom q) \<or> has_index q)" using f True by simp
    qed (unfold F, simp_all add: True from_words(4) schema_tables_def del: list.sel, (rule cols | rule subset_insertI2)+)
  next
    case False
    show ?thesis
    proof (rule shape_resolved [OF assms(1,2) shapes_resolve(4)])
      show "True = (snd (compileFrom q) \<or> has_index q)" using f False by simp
    qed (unfold F, simp_all add: False from_words(4) schema_tables_def del: list.sel, (rule cols | rule subset_insertI2)+)
  qed
qed

text \<open>In the SQL text of a compiled query every column name is a column of exactly one of the
  tables of its FROM clause, and every qualified id is of one of them: the choice of tables covers
  the selector, the criteria and the order, and no reference is ambiguous.\<close>

theorem compile_columns_resolve:
  assumes "wf_query q" "CompileQuery q = Ok (sql, rs)"
  shows "\<exists>toks. sql_lex sql = Some toks \<and> resolved (set (sql_words toks))"
proof (intro exI conjI)
  show "sql_lex sql = Some (query_tokens q)" by (rule CompileQuery_tokens [OF assms])
  obtain sel where sel: "q_selector q = Some sel" "wf_selector sel" using assms(1) by (rule wf_query_selector)
  show "resolved (set (sql_words (query_tokens q)))"
    using statement_query_resolved [OF assms(1) sel] envelope_query_resolved [OF assms(1) sel]
      join_query_resolved [OF assms(1) sel] by blast
qed

theorem compile_columns_resolve_witness:
  "\<exists>toks. sql_lex compile_sample_sql = Some toks \<and> resolved (set (sql_words toks))"
  by (rule compile_columns_resolve [OF compile_sample_wf compile_sample_Ok])

section \<open>Which queries compile\<close>

lemma simple_tables:
  "s \<in> set simple_ops \<Longrightarrow> \<exists>rs getf. makeSimpleRowSelector s = Some rs \<and> simpleSelectors s = Some getf"
  by (auto simp: simple_ops_def makeSimpleRowSelector_def simpleSelectors_def)

lemma compile_selector:
  assumes "q_selector q = Some sel" "wf_selector sel"
  shows "(\<exists>cols rs. compileQueryColumns q join = Ok cols \<and> compileQueryRowSelector q = Ok rs) \<and> (\<exists>rs. makeResultSet q = Ok rs) \<or>
    (\<exists>e e'. compileQueryColumns q join = Err e \<and> makeResultSet q = Err e')"
proof (cases sel)
  case (SimpleSelector s)
  with assms simple_tables [of s] show ?thesis
    by (auto simp: compileQueryColumns_def compileQueryRowSelector_def makeResultSet_def)
next
  case (CompoundSelector ss)
  then have ss: "set ss \<subseteq> set simple_ops" using assms(2) by simp
  have "\<exists>srs. omap (\<lambda>s. of_option e (makeSimpleRowSelector s)) ss = Ok srs" for e
    using ss simple_tables
    by (intro exI [of _ "map (\<lambda>s. the (makeSimpleRowSelector s)) ss"] omap_total) fastforce
  moreover obtain getfs where
    "omap (\<lambda>key. of_option (QueryEvalError (''Unexpected selector: '' @ key)) (simpleSelectors key)) ss = Ok getfs"
    using ss by (rule compound_selector_Ok)
  ultimately show ?thesis using assms(1) CompoundSelector
    by (auto simp: compileQueryColumns_def compileQueryRowSelector_def makeResultSet_def)
next
  case (FunctionSelector op s)
  then have "s \<in> set simple_ops" "op \<in> {''COUNT'', ''MIN'', ''MAX''}" using assms(2) by (auto simp: function_ops_def)
  then have "(\<exists>f. functionSelectors op = Some f) \<and> (\<exists>rs. makeFunRowSelector op = Some rs) \<and> (\<exists>g. simpleSelectors s = Some g)"
    using simple_tables [of s] by (auto simp: functionSelectors_def makeFunRowSelector_def)
  with assms(1) FunctionSelector show ?thesis
    by (auto simp: compileQueryColumns_def compileQueryRowSelector_def makeResultSet_def)
qed

text \<open>The compiler accepts exactly the well-formed queries the evaluator accepts, those whose function
  selector is allowed for its column, and never panics on a well-formed query.\<close>

theorem compile_accepts:
  assumes "wf_query q"
  shows "((\<exists>r. CompileQuery q = Ok r) \<longleftrightarrow> (\<exists>rs. makeResultSet q = Ok rs)) \<and> \<not> panics (CompileQuery q)"
proof -
  obtain sel where sel: "q_selector q = Some sel" "wf_selector sel" using assms by (rule wf_query_selector)
  let ?join = "snd (compileFrom q) \<or> has_index q"
  from assms have "wf_namespace (q_namespace q)" by (simp add: wf_query_def)
  then obtain ns where "compileNamespaceCriteria (q_namespace q) = Ok ns" by (rule reads_namespace)
  then obtain crit where "compileQueryCriteria q ?join = Ok crit"
    by (cases "q_criteria q") (simp_all add: compileQueryCriteria_def Let_def)
  with compile_selector [OF sel, of ?join] compileJoins_Ok [OF assms] show ?thesis
    by (auto simp: CompileQuery_def Let_def)
qed

theorem compile_accepts_witness:
  "(\<exists>r. CompileQuery compile_sample = Ok r) \<and> (\<exists>rs. makeResultSet compile_sample = Ok rs) \<and>
   \<not> panics (CompileQuery compile_sample)"
  using compile_accepts [OF compile_sample_wf] compile_sample_Ok by blast

section \<open>Rows and statements\<close>

text \<open>
  A row of the tables holds of a statement: its marshalled bytes, the columns of its envelope
  and the counter the database assigned. \<open>row_cell\<close> is what \<open>database/sql\<close> writes for the column
  of a simple selector; \<open>strip\<close> forgets the addresses in an evaluator value.
\<close>

primrec strip :: "gvalue \<Rightarrow> row_value" where
  "strip (VInt i) = RInt i"
| "strip (VInt64 i) = RInt64 i"
| "strip (VString s) = RString s"
| "strip (VStmt p) = RStmt (p_stmt p)"
| "strip (VBody b) = RBody (map_option snd b)"
| "strip (VMap m) = RMap (\<lambda>s. map_option strip (m s))"

definition row_cell :: "(statement \<Rightarrow> string) \<Rightarrow> int \<Rightarrow> statement \<Rightarrow> string \<Rightarrow> cell" where
  "row_cell marshal n st sel =
     (if sel \<in> {''*'', ''body''} then CRawBytes (marshal st)
      else if sel = ''id'' then CString (Id st)
      else if sel = ''publisher'' then CString (Publisher st)
      else if sel = ''namespace'' then CString (Namespace st)
      else if sel = ''source'' then CString (case StatementSource st of Ok s \<Rightarrow> s | _ \<Rightarrow> [])
      else if sel = ''timestamp'' then CInt64 (Timestamp st)
      else CInt64 n)"

lemma rs_value_strip:
  assumes "s \<in> set simple_ops" "s \<noteq> ''counter''" "bodies_set (p_stmt p)" "unmarshal (marshal (p_stmt p)) = Ok (p_stmt p)"
    and "makeSimpleRowSelector s = Some rs"
  shows "rs_value unmarshal rs (row_cell marshal n (p_stmt p) s) = Ok (strip (sel_value s p))"
proof -
  obtain src where "StatementSource (p_stmt p) = Ok src" using StatementSource_Ok assms(3) by blast
  note source = this
  have "s \<in> {''*'', ''body'', ''id'', ''publisher'', ''namespace'', ''source'', ''timestamp''}"
    using assms(1,2) by (simp add: simple_ops_def)
  then show ?thesis
  proof (elim insertE emptyE)
    assume s: "s = ''source''"
    then have "rs = RowSelectString" "sel_value s p = VString src" "row_cell marshal n (p_stmt p) s = CString src"
      using assms(5) source by (simp_all add: makeSimpleRowSelector_def row_cell_def sel_value_def ok_value_def
          simpleSelectors_def simpleSelectorSource_def)
    then show ?thesis by simp
  qed (use assms(4,5) in \<open>simp_all add: makeSimpleRowSelector_def row_cell_def sel_value_def ok_value_def simpleSelectors_def
        simpleSelectorAll_def simpleSelectorBody_def simpleSelectorId_def simpleSelectorPublisher_def
        simpleSelectorNamespace_def simpleSelectorTimestamp_def option.map_comp comp_def option.map_ident\<close>)
qed

lemma scan_fold:
  assumes "\<forall>s \<in> set ss. rs_value unmarshal (the (makeSimpleRowSelector s)) (c s) = Ok (v s)"
  shows "ofold (\<lambda>obj (sel, rs, cell). obind (rs_value unmarshal rs cell) (\<lambda>val. Ok (obj(sel \<mapsto> val)))) m
      (zip ss (zip (map (\<lambda>s. the (makeSimpleRowSelector s)) ss) (map c ss))) =
    Ok (\<lambda>s. if s \<in> set ss then Some (v s) else m s)"
  using assms
proof (induction ss arbitrary: m)
  case (Cons s ss)
  from Cons.IH [of "m(s \<mapsto> v s)"] Cons.prems show ?case by simp (rule ext, simp)
qed simp

text \<open>Reading a row back gives what evaluating the statement gives: for every selector without the
  counter, the row selector of the compiled query returns from the row of a statement the value
  the in-memory evaluator selects from it, of the same dynamic type. Marshalling is a round trip,
  as protocol buffers promise.\<close>

theorem scan_matches_eval:
  assumes "bodies_set (p_stmt p)" "unmarshal (marshal (p_stmt p)) = Ok (p_stmt p)"
    and "set ss \<subseteq> set simple_ops" "''counter'' \<notin> set ss"
    and "q_selector q = Some (CompoundSelector ss) \<or> (\<exists>s. ss = [s] \<and> q_selector q = Some (SimpleSelector s))"
    and "compileQueryRowSelector q = Ok rs"
  shows "Scan unmarshal rs (\<lambda>dests. Ok (map (row_cell marshal n (p_stmt p)) ss)) =
    Ok (if q_selector q = Some (CompoundSelector ss) then strip (compound_value ss p) else strip (sel_value (hd ss) p))"
proof -
  have v: "\<forall>s \<in> set ss. rs_value unmarshal (the (makeSimpleRowSelector s)) (row_cell marshal n (p_stmt p) s) =
      Ok (strip (sel_value s p))"
  proof
    fix s assume "s \<in> set ss"
    then have s: "s \<in> set simple_ops" "s \<noteq> ''counter''" using assms(3,4) by auto
    from simple_tables [OF s(1)] obtain r where "makeSimpleRowSelector s = Some r" by blast
    with rs_value_strip [where unmarshal = unmarshal and marshal = marshal, OF s assms(1,2), of r] show "rs_value unmarshal (the (makeSimpleRowSelector s)) (row_cell marshal n (p_stmt p) s) =
      Ok (strip (sel_value s p))" by simp
  qed
  from assms(5) show ?thesis
  proof
    assume sel: "q_selector q = Some (CompoundSelector ss)"
    have "omap (\<lambda>s. of_option e (makeSimpleRowSelector s)) ss = Ok (map (\<lambda>s. the (makeSimpleRowSelector s)) ss)" for e
      using assms(3) simple_tables by (intro omap_total) fastforce
    with assms(6) sel have rs: "rs = RowSelectCompound ss (map (\<lambda>s. the (makeSimpleRowSelector s)) ss)"
      by (simp add: compileQueryRowSelector_def)
    have "strip (compound_value ss p) = RMap (\<lambda>s. if s \<in> set ss then Some (strip (sel_value s p)) else None)"
      by (simp add: compound_value_def fun_eq_iff)
    with scan_fold [OF v, of Map.empty] show ?thesis by (simp add: rs sel)
  next
    assume "\<exists>s. ss = [s] \<and> q_selector q = Some (SimpleSelector s)"
    then obtain s where s: "ss = [s]" "q_selector q = Some (SimpleSelector s)" by blast
    then have "rs = RowSelectSimple (the (makeSimpleRowSelector s))" using assms(6) by (auto simp: compileQueryRowSelector_def)
    with s v show ?thesis by simp
  qed
qed

theorem scan_matches_eval_witness:
  "Scan (\<lambda>b. Ok (p_stmt (hd sample_stmts))) (RowSelectCompound [''id'', ''source''] [RowSelectString, RowSelectString])
     (\<lambda>dests. Ok (map (row_cell (\<lambda>st. []) 7 (p_stmt (hd sample_stmts))) [''id'', ''source''])) =
   Ok (strip (compound_value [''id'', ''source''] (hd sample_stmts)))"
proof -
  have b: "bodies_set (p_stmt (hd sample_stmts))" using sample_bodies by (simp add: sample_stmts_def)
  let ?q = "empty_query\<lparr>q_selector := Some (CompoundSelector [''id'', ''source''])\<rparr>"
  have "compileQueryRowSelector ?q = Ok (RowSelectCompound [''id'', ''source''] [RowSelectString, RowSelectString])"
    by (simp add: compileQueryRowSelector_def makeSimpleRowSelector_def)
  from scan_matches_eval [OF b _ _ _ _ this, of "\<lambda>b. Ok (p_stmt (hd sample_stmts))" "\<lambda>st. []" "[''id'', ''source'']" 7]
  show ?thesis by (simp add: simple_ops_def)
qed

lemma distinct_columns:
  "list_all (\<lambda>s. list_all (\<lambda>j. const_tokens (disambigSelector (selectorColumn s selectorColumnSimple) j) =
     [TWord ''DISTINCT'', TWord s]) [True, False]) [''namespace'', ''publisher'', ''source'']"
  by code_simp

text \<open>A compound selector of one column is compiled to a DISTINCT select, as the simple selector is,
  while the evaluator returns an object for every matching statement; the comment in
  \<open>eval.go\<close> promises as many objects as statements.\<close>

theorem compile_single_compound_distinct:
  assumes "wf_query q" "q_selector q = Some (CompoundSelector [s])" "s \<in> {''namespace'', ''publisher'', ''source''}"
  shows "(\<exists>sql rs toks. CompileQuery q = Ok (sql, rs) \<and>
      sql_lex sql = Some (TWord ''SELECT'' # TWord ''DISTINCT'' # TWord s # toks)) \<and>
    (\<forall>sord vord stmts. map_order sord \<longrightarrow> (\<forall>p \<in> set stmts. bodies_set (p_stmt p)) \<longrightarrow>
      (\<exists>res. EvalQuery sord vord q stmts = Ok res \<and> length res = length (matching q stmts)))"
proof
  have "set [s] \<subseteq> set simple_ops" using assms(3) by (auto simp: simple_ops_def)
  then obtain getfs where
    "omap (\<lambda>key. of_option (QueryEvalError (''Unexpected selector: '' @ key)) (simpleSelectors key)) [s] = Ok getfs"
    by (rule compound_selector_Ok)
  then have "makeResultSet q = Ok (makeCompoundResultSet [s] getfs (q_limit q))"
    using assms(2) unfolding makeResultSet_def by (simp del: omap.simps)
  obtain r where "CompileQuery q = Ok r"
  proof -
    from assms(1) have "wf_namespace (q_namespace q)" by (simp add: wf_query_def)
    then obtain ns where "compileNamespaceCriteria (q_namespace q) = Ok ns" by (rule reads_namespace)
    then obtain crit where "compileQueryCriteria q (snd (compileFrom q) \<or> has_index q) = Ok crit"
      by (cases "q_criteria q") (simp_all add: compileQueryCriteria_def Let_def)
    with compile_selector [OF assms(2) wf_query_wf_selector [OF assms(1,2)], of "snd (compileFrom q) \<or> has_index q"]
      compileJoins_Ok [OF assms(1)] \<open>makeResultSet q = _\<close> that show thesis
      by (auto simp: CompileQuery_def Let_def)
  qed
  then obtain sql rs where Ok: "CompileQuery q = Ok (sql, rs)" by (cases r) auto
  have "const_tokens (disambigSelector (selectorColumn s selectorColumnSimple) j) = [TWord ''DISTINCT'', TWord s]" for j
  proof -
    have "list_all (\<lambda>j. const_tokens (disambigSelector (selectorColumn s selectorColumnSimple) j) =
        [TWord ''DISTINCT'', TWord s]) [True, False]"
      using distinct_columns assms(3) unfolding list_all_iff list.set by blast
    then show ?thesis by (cases j) simp_all
  qed
  then have "\<exists>toks. query_tokens q = TWord ''SELECT'' # TWord ''DISTINCT'' # TWord s # toks"
    using assms(2) by (simp add: query_tokens_def Let_def)
  with CompileQuery_tokens [OF assms(1) Ok] Ok show "\<exists>sql rs toks. CompileQuery q = Ok (sql, rs) \<and>
      sql_lex sql = Some (TWord ''SELECT'' # TWord ''DISTINCT'' # TWord s # toks)" by metis
next
  show "\<forall>sord vord stmts. map_order sord \<longrightarrow> (\<forall>p \<in> set stmts. bodies_set (p_stmt p)) \<longrightarrow>
      (\<exists>res. EvalQuery sord vord q stmts = Ok res \<and> length res = length (matching q stmts))"
    using EvalQuery_compound [OF assms(1) _ _ assms(2)] by simp
qed

theorem compile_single_compound_distinct_witness:
  "\<exists>sql rs toks. CompileQuery (sample_query (CompoundSelector [''publisher'']) 0) = Ok (sql, rs) \<and>
      sql_lex sql = Some (TWord ''SELECT'' # TWord ''DISTINCT'' # TWord ''publisher'' # toks)"
proof -
  have "wf_query (sample_query (CompoundSelector [''publisher'']) 0)"
    by (rule sample_query_wf) (simp_all add: simple_ops_def)
  from compile_single_compound_distinct [OF this, of "''publisher''"] show ?thesis by (simp add: sample_query_def)
qed

end
