(* ===== verification/StatementDB.thy ===== *)
theory StatementDB
  imports QueryCompile
begin

text \<open>
  The statement database of \<open>mcnode/db.go\<close>: three SQL tables, the prepared statements that
  change them, and the operations, each a transaction. Two components are not under \<open>src/\<close> and
  are parameters: the protocol buffer library (\<open>marshal\<close>, \<open>unmarshal\<close>) and the SQLite engine, of which
  the model fixes the documented effect of the prepared statements of \<open>prepareStatements\<close> and leaves open
  which calls fail (\<open>faults\<close>) and what a SELECT returns (\<open>engine\<close>).
\<close>

section \<open>Tables\<close>

record env_row =
  e_counter :: int
  e_id :: string
  e_namespace :: string
  e_publisher :: string
  e_source :: string
  e_timestamp :: int

record tables =
  t_stmt :: "(string \<times> string) list"
  t_env :: "env_row list"
  t_refs :: "(string \<times> string) list"
  t_next :: int

text \<open>
  A database: the committed tables, the number of engine calls made so far, which indexes the
  oracle of failing calls, and the number of transactions that were begun and never ended.
\<close>

record sqldb =
  db_tables :: tables
  db_time :: nat
  db_open :: nat

type_synonym faults = "nat \<Rightarrow> string option"

text \<open>
  The errors of the engine: the extended codes of the two uniqueness violations, and any other
  failure of a call, which has another code.
\<close>

definition ErrConstraintPrimaryKey :: go_error where
  "ErrConstraintPrimaryKey = ExtErr ''sqlite: PRIMARY KEY''"

definition ErrConstraintUnique :: go_error where
  "ErrConstraintUnique = ExtErr ''sqlite: UNIQUE''"

definition engine_error :: "string \<Rightarrow> go_error" where
  "engine_error msg = ExtErr (''engine: '' @ msg)"

section \<open>Prepared statements\<close>

text \<open>\<open>INSERT INTO Statement VALUES (?, ?)\<close>, \<open>id\<close> is the primary key.\<close>

definition insertStmtData :: "string \<Rightarrow> string \<Rightarrow> tables \<Rightarrow> tables outcome" where
  "insertStmtData i d t =
     (if i \<in> fst ` set (t_stmt t) then Err ErrConstraintPrimaryKey
      else Ok (t\<lparr>t_stmt := t_stmt t @ [(i, d)]\<rparr>))"

text \<open>
  \<open>INSERT INTO Envelope VALUES (NULL, ?, ?, ?, ?, ?)\<close>: the counter is AUTOINCREMENT, \<open>id\<close> has a
  unique index.
\<close>

definition insertStmtEnvelope :: "string \<Rightarrow> string \<Rightarrow> string \<Rightarrow> string \<Rightarrow> int \<Rightarrow> tables \<Rightarrow> tables outcome" where
  "insertStmtEnvelope i ns p src ts t =
     (if i \<in> e_id ` set (t_env t) then Err ErrConstraintUnique
      else Ok (t\<lparr>t_env := t_env t @ [\<lparr>e_counter = t_next t, e_id = i, e_namespace = ns, e_publisher = p,
                                     e_source = src, e_timestamp = ts\<rparr>],
                t_next := t_next t + 1\<rparr>))"

text \<open>\<open>INSERT INTO Refs VALUES (?, ?)\<close>.\<close>

definition insertStmtRefs :: "string \<Rightarrow> string \<Rightarrow> tables \<Rightarrow> tables outcome" where
  "insertStmtRefs i wki t = Ok (t\<lparr>t_refs := t_refs t @ [(i, wki)]\<rparr>)"

text \<open>\<open>SELECT data FROM Statement WHERE id = ?\<close>.\<close>

definition selectStmtData :: "string \<Rightarrow> tables \<Rightarrow> string option" where
  "selectStmtData i t = map_of (t_stmt t) i"

definition deleteStmtData :: "string \<Rightarrow> tables \<Rightarrow> tables outcome" where
  "deleteStmtData i t = Ok (t\<lparr>t_stmt := filter (\<lambda>r. fst r \<noteq> i) (t_stmt t)\<rparr>)"

definition deleteStmtEnvelope :: "string \<Rightarrow> tables \<Rightarrow> tables outcome" where
  "deleteStmtEnvelope i t = Ok (t\<lparr>t_env := filter (\<lambda>r. e_id r \<noteq> i) (t_env t)\<rparr>)"

definition deleteStmtRefs :: "string \<Rightarrow> tables \<Rightarrow> tables outcome" where
  "deleteStmtRefs i t = Ok (t\<lparr>t_refs := filter (\<lambda>r. fst r \<noteq> i) (t_refs t)\<rparr>)"

section \<open>Transactions\<close>

text \<open>
  A transaction (\<open>sql.Tx\<close>) is active, with the tables as it has changed them so far, or done: rolled back or committed.
  What a handler does with it runs over the transaction and the call counter. \<open>Exec\<close> is one engine call: it fails when the oracle
  says so. Nothing ends a transaction but the calls the code makes: \<open>Commit\<close>, after which it is done even when the
  call fails, and \<open>Rollback\<close>, whose own error is never looked at.
\<close>

datatype tx_state = Active tables | RolledBack | Committed tables

type_synonym 'a tx = "tx_state \<times> nat \<Rightarrow> 'a outcome \<times> tx_state \<times> nat"

definition tx_return :: "'a \<Rightarrow> 'a tx" where
  "tx_return x s = (Ok x, s)"

definition tx_bind :: "'a tx \<Rightarrow> ('a \<Rightarrow> 'b tx) \<Rightarrow> 'b tx" where
  "tx_bind m f s = (case m s of (Ok x, s') \<Rightarrow> f x s' | (Err e, s') \<Rightarrow> (Err e, s') | (Panic p, s') \<Rightarrow> (Panic p, s'))"

definition tx_lift :: "'a outcome \<Rightarrow> 'a tx" where
  "tx_lift m s = (m, s)"

definition ErrTxDone :: go_error where
  "ErrTxDone = ExtErr ''sql: transaction has already been committed or rolled back''"

definition Exec :: "faults \<Rightarrow> (tables \<Rightarrow> tables outcome) \<Rightarrow> unit tx" where
  "Exec fl q = (\<lambda>(st, n).
     (case st of
        Active t \<Rightarrow>
          (case fl n of
             Some msg \<Rightarrow> (Err (engine_error msg), Active t, Suc n)
           | None \<Rightarrow> (case q t of Ok t' \<Rightarrow> (Ok (), Active t', Suc n) | Err e \<Rightarrow> (Err e, Active t, Suc n) | Panic p \<Rightarrow> (Panic p, Active t, Suc n)))
      | _ \<Rightarrow> (Err ErrTxDone, st, n)))"

definition Rollback :: "tx_state \<Rightarrow> tx_state" where
  "Rollback st = (case st of Active t \<Rightarrow> RolledBack | _ \<Rightarrow> st)"

definition Commit :: "faults \<Rightarrow> unit tx" where
  "Commit fl = (\<lambda>(st, n).
     (case st of
        Active t \<Rightarrow> (case fl n of Some msg \<Rightarrow> (Err (engine_error msg), RolledBack, Suc n) | None \<Rightarrow> (Ok (), Committed t, Suc n))
      | _ \<Rightarrow> (Err ErrTxDone, st, n)))"

text \<open>\<open>if err != nil { tx.Rollback(); return err }\<close>; a panic skips it.\<close>

definition or_rollback :: "'a tx \<Rightarrow> 'a tx" where
  "or_rollback m s = (case m s of (Err e, st, n) \<Rightarrow> (Err e, Rollback st, n) | r \<Rightarrow> r)"

fun tx_each :: "('a \<Rightarrow> unit tx) \<Rightarrow> 'a list \<Rightarrow> unit tx" where
  "tx_each f [] = tx_return ()"
| "tx_each f (x # xs) = tx_bind (f x) (\<lambda>_. tx_each f xs)"

text \<open>\<open>err = tx.Commit(); if err != nil { return err }; return x\<close>.\<close>

definition commit_return :: "faults \<Rightarrow> 'a \<Rightarrow> 'a tx" where
  "commit_return fl x = tx_bind (Commit fl) (\<lambda>u. tx_return x)"

text \<open>
  What follows \<open>tx, err := sdb.db.Begin()\<close> in a handler: the engine refuses it while another transaction holds
  the write lock, which one that was never ended does until the process ends. When the handler is left, the committed tables
  are those of the transaction when it was committed, the old ones otherwise; a transaction that is still active stays open.
\<close>

definition with_tx :: "faults \<Rightarrow> 'a tx \<Rightarrow> sqldb \<Rightarrow> 'a outcome \<times> sqldb" where
  "with_tx fl body db =
     (if db_open db > 0 then (Err (engine_error ''database is locked''), db\<lparr>db_time := Suc (db_time db)\<rparr>)
      else (case fl (db_time db) of
              Some msg \<Rightarrow> (Err (engine_error msg), db\<lparr>db_time := Suc (db_time db)\<rparr>)
            | None \<Rightarrow>
                (case body (Active (db_tables db), Suc (db_time db)) of
                   (r, Committed t, n) \<Rightarrow> (r, db\<lparr>db_tables := t, db_time := n\<rparr>)
                 | (r, RolledBack, n) \<Rightarrow> (r, db\<lparr>db_time := n\<rparr>)
                 | (r, Active t, n) \<Rightarrow> (r, db\<lparr>db_time := n, db_open := Suc (db_open db)\<rparr>))))"

section \<open>Put, PutBatch, Get\<close>

text \<open>\<open>marshal\<close> is \<open>ggproto.Marshal\<close>: the bytes, or \<open>None\<close> for an error of the library.\<close>

definition MarshalError :: go_error where
  "MarshalError = ExtErr ''proto: Marshal''"

text \<open>
  The rows of one statement after the data row; \<open>rord\<close> is the iteration order of the Go map
  of references.
\<close>

definition insertMeta :: "faults \<Rightarrow> (string list \<Rightarrow> string list) \<Rightarrow> statement \<Rightarrow> unit tx" where
  "insertMeta fl rord st =
     tx_bind (tx_lift (StatementSource st)) (\<lambda>src.
     tx_bind (or_rollback (Exec fl (insertStmtEnvelope (Id st) (Namespace st) (Publisher st) src (Timestamp st)))) (\<lambda>_.
     tx_bind (tx_lift (StatementRefs st)) (\<lambda>refs.
     tx_each (\<lambda>wki. or_rollback (Exec fl (insertStmtRefs (Id st) wki))) (rord refs))))"

definition db_Put ::
  "faults \<Rightarrow> (string list \<Rightarrow> string list) \<Rightarrow> (statement \<Rightarrow> string option) \<Rightarrow> statement \<Rightarrow> sqldb \<Rightarrow> unit outcome \<times> sqldb" where
  "db_Put fl rord marshal st db =
     (case marshal st of
        None \<Rightarrow> (Err MarshalError, db)
      | Some bytes \<Rightarrow>
          with_tx fl (tx_bind (or_rollback (Exec fl (insertStmtData (Id st) bytes))) (\<lambda>_.
                      tx_bind (insertMeta fl rord st) (\<lambda>_. Commit fl))) db)"

definition putOne ::
  "faults \<Rightarrow> (string list \<Rightarrow> string list) \<Rightarrow> (statement \<Rightarrow> string option) \<Rightarrow> statement \<Rightarrow> unit tx" where
  "putOne fl rord marshal st =
     tx_bind (or_rollback (tx_lift (of_option MarshalError (marshal st)))) (\<lambda>bytes.
     tx_bind (or_rollback (Exec fl (insertStmtData (Id st) bytes))) (\<lambda>_. insertMeta fl rord st))"

definition db_PutBatch ::
  "faults \<Rightarrow> (string list \<Rightarrow> string list) \<Rightarrow> (statement \<Rightarrow> string option) \<Rightarrow> statement list \<Rightarrow> sqldb \<Rightarrow> unit outcome \<times> sqldb" where
  "db_PutBatch fl rord marshal sts db = with_tx fl (tx_bind (tx_each (putOne fl rord marshal) sts) (\<lambda>_. Commit fl)) db"

definition db_Get :: "faults \<Rightarrow> (string \<Rightarrow> statement outcome) \<Rightarrow> string \<Rightarrow> sqldb \<Rightarrow> statement outcome \<times> sqldb" where
  "db_Get fl unmarshal i db =
     (let db' = db\<lparr>db_time := Suc (db_time db)\<rparr> in
      (case fl (db_time db) of
         Some msg \<Rightarrow> (Err (engine_error msg), db')
       | None \<Rightarrow>
          (case selectStmtData i (db_tables db) of
             None \<Rightarrow> (Err UnknownStatement, db')
           | Some bytes \<Rightarrow> (unmarshal bytes, db'))))"

section \<open>Merge, MergeBatch\<close>

definition db_Merge ::
  "faults \<Rightarrow> (string list \<Rightarrow> string list) \<Rightarrow> (statement \<Rightarrow> string option) \<Rightarrow> statement \<Rightarrow> sqldb \<Rightarrow> bool outcome \<times> sqldb" where
  "db_Merge fl rord marshal st db =
     (case db_Put fl rord marshal st db of
        (Ok u, db') \<Rightarrow> (Ok True, db')
      | (Err e, db') \<Rightarrow> (if e = ErrConstraintPrimaryKey then (Ok False, db') else (Err e, db'))
      | (Panic p, db') \<Rightarrow> (Panic p, db'))"

text \<open>One statement of the batch; the result is whether it was new.\<close>

definition mergeOne ::
  "faults \<Rightarrow> (string list \<Rightarrow> string list) \<Rightarrow> (statement \<Rightarrow> string option) \<Rightarrow> statement \<Rightarrow> bool tx" where
  "mergeOne fl rord marshal st =
     tx_bind (or_rollback (tx_lift (of_option MarshalError (marshal st)))) (\<lambda>bytes s.
       (case Exec fl (insertStmtData (Id st) bytes) s of
          (Ok u, s') \<Rightarrow> tx_bind (insertMeta fl rord st) (\<lambda>_. tx_return True) s'
        | (Err e, st', n) \<Rightarrow> (if e = ErrConstraintPrimaryKey then tx_return False (st', n) else (Err e, Rollback st', n))
        | (Panic p, s') \<Rightarrow> (Panic p, s')))"

fun mergeLoop ::
  "faults \<Rightarrow> (string list \<Rightarrow> string list) \<Rightarrow> (statement \<Rightarrow> string option) \<Rightarrow> int \<Rightarrow> statement list \<Rightarrow> int tx" where
  "mergeLoop fl rord marshal count [] = tx_return count"
| "mergeLoop fl rord marshal count (st # sts) =
     tx_bind (mergeOne fl rord marshal st) (\<lambda>new.
       mergeLoop fl rord marshal (if new then count + 1 else count) sts)"

definition db_MergeBatch ::
  "faults \<Rightarrow> (string list \<Rightarrow> string list) \<Rightarrow> (statement \<Rightarrow> string option) \<Rightarrow> statement list \<Rightarrow> sqldb \<Rightarrow> int outcome \<times> sqldb" where
  "db_MergeBatch fl rord marshal sts db = with_tx fl (tx_bind (mergeLoop fl rord marshal 0 sts) (commit_return fl)) db"

section \<open>Queries\<close>

text \<open>
  \<open>engine\<close> is what \<open>db.Query(sq)\<close> and the iteration of its rows yield: an error of the call, or
  the rows that \<open>Next\<close> delivers together with the error after which it stopped, which the code
  never asks for (\<open>rows.Err\<close>). An engine whose iteration fails half-way is thus one that yields some of the
  rows and \<open>Some\<close> error: \<open>Query\<close>, \<open>QueryStream\<close> and \<open>Delete\<close> take them for all of the rows.
\<close>

type_synonym engine = "string \<Rightarrow> tables \<Rightarrow> (RowScanner list \<times> go_error option) outcome"

definition db_Query ::
  "engine \<Rightarrow> (string \<Rightarrow> statement outcome) \<Rightarrow> Query \<Rightarrow> sqldb \<Rightarrow> row_value list outcome" where
  "db_Query eng unmarshal q db =
     obind (CompileQuery q) (\<lambda>(sq, rsel).
     obind (eng sq (db_tables db)) (\<lambda>(rows, err).
     omap (Scan unmarshal rsel) rows))"

datatype stream_item = SVal row_value | SErr string

text \<open>The goroutine of \<open>QueryStream\<close>, when the receiver takes every item.\<close>

fun stream_rows :: "(string \<Rightarrow> statement outcome) \<Rightarrow> RowSelector \<Rightarrow> RowScanner list \<Rightarrow> stream_item list outcome" where
  "stream_rows unmarshal rsel [] = Ok []"
| "stream_rows unmarshal rsel (row # rows) =
     (case Scan unmarshal rsel row of
        Ok obj \<Rightarrow> obind (stream_rows unmarshal rsel rows) (\<lambda>items. Ok (SVal obj # items))
      | Err e \<Rightarrow> Ok [SErr (err_text e)]
      | Panic p \<Rightarrow> Panic p)"

definition db_QueryStream ::
  "engine \<Rightarrow> (string \<Rightarrow> statement outcome) \<Rightarrow> Query \<Rightarrow> sqldb \<Rightarrow> stream_item list outcome" where
  "db_QueryStream eng unmarshal q db =
     obind (CompileQuery q) (\<lambda>(sq, rsel).
     obind (eng sq (db_tables db)) (\<lambda>(rows, err).
     stream_rows unmarshal rsel rows))"

text \<open>
  \<open>sql.Row\<close>, what \<open>QueryRow\<close> returns: its \<open>Scan\<close> refuses a raw bytes destination before it looks
  for a row, and reports the error of the iteration or \<open>ErrNoRows\<close> when there is none.
\<close>

definition ErrNoRows :: go_error where
  "ErrNoRows = ExtErr ''sql: no rows in result set''"

definition sql_Row :: "RowScanner list \<times> go_error option \<Rightarrow> RowScanner" where
  "sql_Row = (\<lambda>(rows, err) dests.
     (if DRawBytes \<in> set dests then Err (ExtErr ''sql: RawBytes is not allowed on Row.Scan'')
      else (case rows of
              row # _ \<Rightarrow> row dests
            | [] \<Rightarrow> (case err of Some e \<Rightarrow> Err e | None \<Rightarrow> Err ErrNoRows))))"

definition db_QueryOne ::
  "engine \<Rightarrow> (string \<Rightarrow> statement outcome) \<Rightarrow> Query \<Rightarrow> sqldb \<Rightarrow> row_value outcome" where
  "db_QueryOne eng unmarshal q db =
     obind (CompileQuery q) (\<lambda>(sq, rsel).
     obind (eng sq (db_tables db)) (\<lambda>res.
       (case Scan unmarshal rsel (sql_Row res) of
          Err e \<Rightarrow> Err (if e = ErrNoRows then NoResult else e)
        | r \<Rightarrow> r)))"

section \<open>Delete\<close>

definition deleteOne :: "faults \<Rightarrow> string \<Rightarrow> unit tx" where
  "deleteOne fl i =
     tx_bind (or_rollback (Exec fl (deleteStmtData i))) (\<lambda>_.
     tx_bind (or_rollback (Exec fl (deleteStmtEnvelope i))) (\<lambda>_.
     or_rollback (Exec fl (deleteStmtRefs i))))"

fun deleteLoop :: "faults \<Rightarrow> int \<Rightarrow> stream_item list \<Rightarrow> int tx" where
  "deleteLoop fl count [] = tx_return count"
| "deleteLoop fl count (SVal (RString i) # items) =
     tx_bind (deleteOne fl i) (\<lambda>_. deleteLoop fl (count + 1) items)"
| "deleteLoop fl count (SErr msg # items) = or_rollback (tx_lift (Err (StreamError msg)))"
| "deleteLoop fl count (SVal v # items) = or_rollback (tx_lift (Err BadResult))"

definition db_Delete ::
  "faults \<Rightarrow> engine \<Rightarrow> (string \<Rightarrow> statement outcome) \<Rightarrow> Query \<Rightarrow> sqldb \<Rightarrow> int outcome \<times> sqldb" where
  "db_Delete fl eng unmarshal q db =
     (if q_Op q \<noteq> OpDelete then (Err BadQuery, db)
      else (case db_QueryStream eng unmarshal q db of
              Err e \<Rightarrow> (Err e, db)
            | Panic p \<Rightarrow> (Panic p, db)
            | Ok items \<Rightarrow> with_tx fl (tx_bind (deleteLoop fl 0 items) (commit_return fl)) db))"

end
