(* ===== verification/DBCorrect.thy ===== *)
theory DBCorrect
  imports StatementDB
begin

text \<open>
  The statement database as its clients see it: atomic operations, the agreement of the three
  tables, a map from ids to stored bytes that Put, PutBatch and the merges extend and Delete
  shrinks. The contract is the locale \<open>statement_store\<close>, interpreted on the operations of
  \<open>mcnode/db.go\<close> for every oracle of engine faults.
\<close>

section \<open>Transactions\<close>

lemma tx_bind_Ok:
  "tx_bind m f s = (Ok y, s') \<longleftrightarrow> (\<exists>x s1. m s = (Ok x, s1) \<and> f x s1 = (Ok y, s'))"
  by (auto simp: tx_bind_def split: prod.splits outcome.splits)

lemma tx_bind_Err:
  "tx_bind m f s = (Err e, s') \<longleftrightarrow> m s = (Err e, s') \<or> (\<exists>x s1. m s = (Ok x, s1) \<and> f x s1 = (Err e, s'))"
  by (auto simp: tx_bind_def split: prod.splits outcome.splits)

lemma tx_return_Ok [simp]: "tx_return x s = (Ok y, s') \<longleftrightarrow> x = y \<and> s = s'"
  by (simp add: tx_return_def)

lemma tx_lift_Ok [simp]: "tx_lift m s = (Ok y, s') \<longleftrightarrow> m = Ok y \<and> s = s'"
  by (auto simp: tx_lift_def)

lemma Exec_Ok: "Exec fl q (Active t, n) = (Ok u, st, n') \<longleftrightarrow> (\<exists>t'. fl n = None \<and> q t = Ok t' \<and> st = Active t' \<and> n' = Suc n)"
  by (auto simp: Exec_def split: option.splits outcome.splits)

lemma or_rollback_Ok [simp]: "or_rollback m s = (Ok x, s') \<longleftrightarrow> m s = (Ok x, s')"
  by (auto simp: or_rollback_def split: prod.splits outcome.splits)

lemma or_rollback_Err: "or_rollback m s = (Err e, s') \<longleftrightarrow> (\<exists>st n. m s = (Err e, st, n) \<and> s' = (Rollback st, n))"
  by (auto simp: or_rollback_def split: prod.splits outcome.splits)

lemma tx_bind_assoc: "tx_bind (tx_bind m f) g = tx_bind m (\<lambda>x. tx_bind (f x) g)"
  by (rule ext) (auto simp: tx_bind_def split: prod.splits outcome.splits)

lemma tx_bind_return [simp]: "tx_bind m tx_return = m"
  by (rule ext) (auto simp: tx_bind_def tx_return_def split: prod.splits outcome.splits)

lemma tx_bind_return_unit [simp]: "tx_bind m (\<lambda>_. tx_return ()) = (m :: unit tx)"
  using tx_bind_return [of m] by (simp add: tx_return_def cong: tx_bind_def)

text \<open>
  The discipline of the handlers: a part of a transaction leaves it active when it succeeds, rolls it back when it returns an
  error, and leaves it active, too, when it panics.
\<close>

definition tx_ok :: "'a tx \<Rightarrow> bool" where
  "tx_ok m \<longleftrightarrow> (\<forall>t n r st n'. m (Active t, n) = (r, st, n') \<longrightarrow>
     (case r of Err e \<Rightarrow> st = RolledBack | _ \<Rightarrow> \<exists>t'. st = Active t'))"

lemma tx_ok_Ok: "tx_ok m \<Longrightarrow> m (Active t, n) = (Ok x, st, n') \<Longrightarrow> \<exists>t'. st = Active t'"
  by (fastforce simp: tx_ok_def)

named_theorems tx_oks

lemma tx_ok_return [tx_oks]: "tx_ok (tx_return x)"
  by (simp add: tx_ok_def tx_return_def)

lemma tx_ok_exec [tx_oks]: "tx_ok (or_rollback (Exec fl q))"
  by (auto simp: tx_ok_def or_rollback_def Exec_def Rollback_def split: option.splits outcome.splits)

lemma tx_ok_lift [tx_oks]: "tx_ok (or_rollback (tx_lift m))"
  by (auto simp: tx_ok_def or_rollback_def tx_lift_def Rollback_def split: outcome.splits)

lemma tx_ok_lift_no_Err: "\<forall>e. m \<noteq> Err e \<Longrightarrow> tx_ok (tx_lift m)"
  by (cases m) (auto simp: tx_ok_def tx_lift_def)

lemma tx_ok_bind [tx_oks]:
  assumes "tx_ok m" "\<And>x. tx_ok (f x)"
  shows "tx_ok (tx_bind m f)"
  unfolding tx_ok_def
proof (intro allI impI)
  fix t n r st n' assume b: "tx_bind m f (Active t, n) = (r, st, n')"
  obtain r1 st1 n1 where m: "m (Active t, n) = (r1, st1, n1)" by (metis prod_cases3)
  show "case r of Err e \<Rightarrow> st = RolledBack | _ \<Rightarrow> \<exists>t'. st = Active t'"
  proof (cases r1)
    case (Ok x)
    with m tx_ok_Ok [OF assms(1)] obtain t1 where "st1 = Active t1" by blast
    with b m Ok have "f x (Active t1, n1) = (r, st, n')" by (simp add: tx_bind_def)
    with assms(2) [of x] show ?thesis unfolding tx_ok_def by blast
  next
    case (Err e)
    with m assms(1) have "st1 = RolledBack" by (fastforce simp: tx_ok_def)
    with b m Err show ?thesis by (auto simp: tx_bind_def)
  next
    case (Panic p)
    with m assms(1) have "\<exists>t'. st1 = Active t'" by (fastforce simp: tx_ok_def)
    with b m Panic show ?thesis by (auto simp: tx_bind_def)
  qed
qed

lemma tx_ok_each [tx_oks]: "(\<And>x. tx_ok (f x)) \<Longrightarrow> tx_ok (tx_each f xs)"
  by (induction xs) (auto intro: tx_oks)

lemma tx_ok_insertMeta [tx_oks]: "tx_ok (insertMeta fl rord st)"
  unfolding insertMeta_def using StatementSource_no_Err mergeStatement_no_Err(1) [of "[]" st]
  by (intro tx_oks tx_ok_lift_no_Err) (auto simp: StatementRefs_def)

lemma tx_ok_putOne [tx_oks]: "tx_ok (putOne fl rord marshal st)"
  unfolding putOne_def by (intro tx_oks)

lemma tx_ok_mergeOne [tx_oks]: "tx_ok (mergeOne fl rord marshal st)"
  unfolding mergeOne_def
proof (intro tx_oks)
  fix bytes
  let ?rest = "tx_bind (insertMeta fl rord st) (\<lambda>_. tx_return True)"
  have "tx_ok ?rest" by (intro tx_oks)
  then show "tx_ok (\<lambda>s. case Exec fl (insertStmtData (Id st) bytes) s of
      (Ok u, s') \<Rightarrow> ?rest s'
    | (Err e, st', n) \<Rightarrow> (if e = ErrConstraintPrimaryKey then tx_return False (st', n) else (Err e, Rollback st', n))
    | (Panic p, s') \<Rightarrow> (Panic p, s'))"
    by (fastforce simp: tx_ok_def Exec_def Rollback_def tx_return_def split: option.splits outcome.splits if_splits)
qed

lemma tx_ok_mergeLoop [tx_oks]: "tx_ok (mergeLoop fl rord marshal c sts)"
  by (induction sts arbitrary: c) (auto intro: tx_oks)

lemma tx_ok_deleteLoop [tx_oks]: "tx_ok (deleteLoop fl c items)"
  by (induction fl c items rule: deleteLoop.induct) (auto simp: deleteOne_def intro: tx_oks)

text \<open>
  Atomicity: a disciplined handler that ends with the commit changes the committed tables as a whole when it succeeds
  and not at all otherwise; and unless it panics, its transaction is ended.
\<close>

lemma with_tx_cases:
  assumes "with_tx fl (tx_bind m (commit_return fl)) db = (r, db')" "tx_ok m"
  obtains (Ok) x n n' where "r = Ok x" "m (Active (db_tables db), n) = (Ok x, Active (db_tables db'), n')" "db_open db' = db_open db"
  | (Err) e where "r = Err e" "db_tables db' = db_tables db" "db_open db' = db_open db"
      "(\<exists>msg. e = engine_error msg) \<or> (\<exists>n s'. m (Active (db_tables db), n) = (Err e, s'))"
  | (Panic) p where "r = Panic p" "db_tables db' = db_tables db"
proof (cases "db_open db > 0 \<or> fl (db_time db) \<noteq> None")
  case True
  with assms(1) have "\<exists>msg. r = Err (engine_error msg) \<and> db_tables db' = db_tables db \<and> db_open db' = db_open db"
    by (auto simp: with_tx_def split: if_splits)
  then show thesis using Err by blast
next
  case False
  obtain r1 st1 n1 where m: "m (Active (db_tables db), Suc (db_time db)) = (r1, st1, n1)" by (metis prod_cases3)
  show thesis
  proof (cases r1)
    case r1: (Ok x)
    with m tx_ok_Ok [OF assms(2)] obtain t1 where t1: "st1 = Active t1" by blast
    show thesis
    proof (cases "fl n1")
      case None
      with assms(1) False m r1 t1 have "r = Ok x" "db_tables db' = t1" "db_open db' = db_open db"
        by (auto simp: with_tx_def tx_bind_def commit_return_def Commit_def tx_return_def)
      with m r1 t1 Ok show thesis by simp
    next
      case (Some msg)
      with assms(1) False m r1 t1 have "r = Err (engine_error msg)" "db_tables db' = db_tables db" "db_open db' = db_open db"
        by (auto simp: with_tx_def tx_bind_def commit_return_def Commit_def tx_return_def)
      then show thesis using Err by blast
    qed
  next
    case r1: (Err e)
    with m assms(2) have "st1 = RolledBack" by (fastforce simp: tx_ok_def)
    with assms(1) False m r1 have "r = Err e" "db_tables db' = db_tables db" "db_open db' = db_open db" by (auto simp: with_tx_def tx_bind_def)
    with m r1 Err show thesis by blast
  next
    case r1: (Panic p)
    with m assms(2) have "\<exists>t'. st1 = Active t'" by (fastforce simp: tx_ok_def)
    with assms(1) False m r1 Panic show thesis by (auto simp: with_tx_def tx_bind_def)
  qed
qed

lemma with_tx_fails:
  "with_tx fl (tx_bind m (commit_return fl)) db = (r, db') \<Longrightarrow> tx_ok m \<Longrightarrow> (\<forall>x. r \<noteq> Ok x) \<Longrightarrow> db_tables db' = db_tables db"
  by (erule with_tx_cases) simp_all

lemma with_tx_Ok:
  assumes "with_tx fl (tx_bind m (commit_return fl)) db = (Ok x, db')" "tx_ok m"
  obtains n n' where "m (Active (db_tables db), n) = (Ok x, Active (db_tables db'), n')"
  using assms by (rule with_tx_cases) (auto intro: that)

lemma with_tx_total:
  assumes "\<And>n. \<exists>n'. m (Active (db_tables db), n) = (Ok x, Active t', n')" "db_open db = 0"
  shows "\<exists>db'. with_tx (\<lambda>n. None) (tx_bind m (commit_return (\<lambda>n. None))) db = (Ok x, db') \<and> db_tables db' = t'"
proof -
  obtain n' where "m (Active (db_tables db), Suc (db_time db)) = (Ok x, Active t', n')" using assms(1) by blast
  then show ?thesis using assms(2) by (simp add: with_tx_def tx_bind_def commit_return_def Commit_def tx_return_def)
qed

lemma Commit_return: "(\<lambda>u. Commit fl) = commit_return fl"
  by (rule ext) (simp add: commit_return_def)

lemma db_PutBatch_eq: "db_PutBatch fl rord marshal sts db = with_tx fl (tx_bind (tx_each (putOne fl rord marshal) sts) (commit_return fl)) db"
  by (simp add: db_PutBatch_def Commit_return)

section \<open>What an insertion does\<close>

definition env_row_of :: "int \<Rightarrow> string \<Rightarrow> statement \<Rightarrow> env_row" where
  "env_row_of n src st = \<lparr>e_counter = n, e_id = Id st, e_namespace = Namespace st, e_publisher = Publisher st,
     e_source = src, e_timestamp = Timestamp st\<rparr>"

text \<open>The tables with the rows of a statement.\<close>

definition put_tables :: "(string list \<Rightarrow> string list) \<Rightarrow> string \<Rightarrow> string \<Rightarrow> string list \<Rightarrow> statement \<Rightarrow> tables \<Rightarrow> tables" where
  "put_tables rord bytes src refs st t =
     \<lparr>t_stmt = t_stmt t @ [(Id st, bytes)], t_env = t_env t @ [env_row_of (t_next t) src st],
      t_refs = t_refs t @ map (Pair (Id st)) (rord refs), t_next = t_next t + 1\<rparr>"

definition stmt_ids :: "tables \<Rightarrow> string set" where
  "stmt_ids t = fst ` set (t_stmt t)"

definition env_ids :: "tables \<Rightarrow> string set" where
  "env_ids t = e_id ` set (t_env t)"

lemma insert_refs_Ok:
  "tx_each (\<lambda>wki. or_rollback (Exec fl (insertStmtRefs i wki))) ws (Active t, n) = (Ok u, st', n') \<Longrightarrow>
   st' = Active (t\<lparr>t_refs := t_refs t @ map (Pair i) ws\<rparr>)"
proof (induction ws arbitrary: t n)
  case (Cons w ws)
  then obtain t1 n1 where 1: "insertStmtRefs i w t = Ok t1"
    "tx_each (\<lambda>wki. or_rollback (Exec fl (insertStmtRefs i wki))) ws (Active t1, n1) = (Ok u, st', n')"
    by (auto simp: tx_bind_Ok Exec_Ok)
  from 1(1) have "t1 = t\<lparr>t_refs := t_refs t @ [(i, w)]\<rparr>" by (simp add: insertStmtRefs_def)
  with Cons.IH [OF 1(2)] show ?case by simp
qed auto

lemma insertAll_Ok:
  assumes "tx_bind (or_rollback (Exec fl (insertStmtData (Id st) bytes))) (\<lambda>_. insertMeta fl rord st) (Active t, n) = (Ok u, st', n')"
  obtains src refs where "StatementSource st = Ok src" "StatementRefs st = Ok refs"
    "st' = Active (put_tables rord bytes src refs st t)" "Id st \<notin> stmt_ids t" "Id st \<notin> env_ids t"
proof -
  from assms obtain src refs t1 t2 n2 where
    d: "insertStmtData (Id st) bytes t = Ok t1" and s: "StatementSource st = Ok src" and r: "StatementRefs st = Ok refs"
    and e: "insertStmtEnvelope (Id st) (Namespace st) (Publisher st) src (Timestamp st) t1 = Ok t2"
    and w: "tx_each (\<lambda>wki. or_rollback (Exec fl (insertStmtRefs (Id st) wki))) (rord refs) (Active t2, n2) = (Ok u, st', n')"
    by (auto simp: insertMeta_def tx_bind_Ok Exec_Ok)
  from d have d: "t1 = t\<lparr>t_stmt := t_stmt t @ [(Id st, bytes)]\<rparr>" "Id st \<notin> stmt_ids t"
    by (auto simp: insertStmtData_def stmt_ids_def split: if_splits)
  from e d(1) have e: "t2 = t1\<lparr>t_env := t_env t @ [env_row_of (t_next t) src st], t_next := t_next t + 1\<rparr>" "Id st \<notin> env_ids t"
    by (auto simp: insertStmtEnvelope_def env_row_of_def env_ids_def split: if_splits)
  have "st' = Active (put_tables rord bytes src refs st t)"
    using insert_refs_Ok [OF w] d(1) e(1) by (cases t) (simp add: put_tables_def)
  with s r d(2) e(2) that show thesis by blast
qed

lemma or_rollback_None: "or_rollback (Exec (\<lambda>n. None) q) (Active t, n) =
  (case q t of Ok t' \<Rightarrow> (Ok (), Active t', Suc n) | Err e \<Rightarrow> (Err e, RolledBack, Suc n) | Panic p \<Rightarrow> (Panic p, Active t, Suc n))"
  by (simp add: or_rollback_def Exec_def Rollback_def split: outcome.split)

lemma insert_refs_total:
  "\<exists>n'. tx_each (\<lambda>wki. or_rollback (Exec (\<lambda>n. None) (insertStmtRefs i wki))) ws (Active t, n) =
    (Ok (), Active (t\<lparr>t_refs := t_refs t @ map (Pair i) ws\<rparr>), n')"
proof (induction ws arbitrary: t n)
  case (Cons w ws)
  from Cons.IH [of "t\<lparr>t_refs := t_refs t @ [(i, w)]\<rparr>" "Suc n"] show ?case
    by (simp add: tx_bind_def or_rollback_None insertStmtRefs_def)
qed (simp add: tx_return_def)

lemma insertAll_total:
  assumes "StatementSource st = Ok src" "StatementRefs st = Ok refs" "Id st \<notin> stmt_ids t" "Id st \<notin> env_ids t"
  shows "\<exists>n'. tx_bind (or_rollback (Exec (\<lambda>n. None) (insertStmtData (Id st) bytes))) (\<lambda>_. insertMeta (\<lambda>n. None) rord st) (Active t, n) =
    (Ok (), Active (put_tables rord bytes src refs st t), n')"
proof -
  let ?t = "t\<lparr>t_stmt := t_stmt t @ [(Id st, bytes)], t_env := t_env t @ [env_row_of (t_next t) src st], t_next := t_next t + 1\<rparr>"
  obtain n' where "tx_each (\<lambda>wki. or_rollback (Exec (\<lambda>n. None) (insertStmtRefs (Id st) wki))) (rord refs) (Active ?t, Suc (Suc n)) =
      (Ok (), Active (?t\<lparr>t_refs := t_refs ?t @ map (Pair (Id st)) (rord refs)\<rparr>), n')"
    using insert_refs_total by blast
  moreover have "?t\<lparr>t_refs := t_refs ?t @ map (Pair (Id st)) (rord refs)\<rparr> = put_tables rord bytes src refs st t"
    by (cases t) (simp add: put_tables_def)
  ultimately show ?thesis
    using assms by (simp add: tx_bind_def or_rollback_None insertMeta_def tx_lift_def insertStmtData_def insertStmtEnvelope_def
        stmt_ids_def env_ids_def env_row_of_def)
qed

section \<open>The invariant of the tables\<close>

text \<open>
  The three tables agree: ids are unique in the statements and in the envelopes, the same ids in
  both, references only of stored statements, counters unique and below the next one.
\<close>

definition tables_ok :: "tables \<Rightarrow> bool" where
  "tables_ok t \<longleftrightarrow>
     distinct (map fst (t_stmt t)) \<and> distinct (map e_id (t_env t)) \<and> stmt_ids t = env_ids t \<and>
     fst ` set (t_refs t) \<subseteq> stmt_ids t \<and> distinct (map e_counter (t_env t)) \<and>
     (\<forall>r \<in> set (t_env t). e_counter r < t_next t)"

lemma put_tables_ok:
  assumes "tables_ok t" "Id st \<notin> stmt_ids t"
  shows "tables_ok (put_tables rord bytes src refs st t)"
proof -
  have ids: "stmt_ids (put_tables rord bytes src refs st t) = insert (Id st) (stmt_ids t)"
    "env_ids (put_tables rord bytes src refs st t) = insert (Id st) (env_ids t)"
    "fst ` set (t_refs (put_tables rord bytes src refs st t)) \<subseteq> insert (Id st) (fst ` set (t_refs t))"
    by (auto simp: stmt_ids_def env_ids_def put_tables_def env_row_of_def)
  have "Id st \<notin> fst ` set (t_stmt t)" "Id st \<notin> e_id ` set (t_env t)"
    using assms by (simp_all add: tables_ok_def stmt_ids_def env_ids_def)
  then show ?thesis
    using assms ids(3) unfolding tables_ok_def ids(1,2) by (auto simp: put_tables_def env_row_of_def)
qed

text \<open>The tables without the rows of an id.\<close>

definition delete_tables :: "string \<Rightarrow> tables \<Rightarrow> tables" where
  "delete_tables i t =
     \<lparr>t_stmt = filter (\<lambda>r. fst r \<noteq> i) (t_stmt t), t_env = filter (\<lambda>r. e_id r \<noteq> i) (t_env t),
      t_refs = filter (\<lambda>r. fst r \<noteq> i) (t_refs t), t_next = t_next t\<rparr>"

lemma delete_tables_ok:
  assumes "tables_ok t"
  shows "tables_ok (delete_tables i t)"
proof -
  have d: "distinct (map f xs) \<Longrightarrow> distinct (map f (filter P xs))" for f :: "'a \<Rightarrow> 'b" and P xs
    by (simp add: distinct_map inj_on_def)
  have ids: "stmt_ids (delete_tables i t) = stmt_ids t - {i}" "env_ids (delete_tables i t) = env_ids t - {i}"
    "fst ` set (t_refs (delete_tables i t)) = fst ` set (t_refs t) - {i}"
    by (auto simp: stmt_ids_def env_ids_def delete_tables_def)
  show ?thesis
    using assms unfolding tables_ok_def ids by (auto simp: delete_tables_def intro: d)
qed

lemma putOne_stored:
  assumes "putOne fl rord marshal st (Active t, n) = (Ok u, st', n')"
  obtains bytes src refs where "marshal st = Some bytes" "StatementSource st = Ok src" "StatementRefs st = Ok refs"
    "st' = Active (put_tables rord bytes src refs st t)" "Id st \<notin> stmt_ids t"
proof -
  from assms obtain bytes where "marshal st = Some bytes"
    "tx_bind (or_rollback (Exec fl (insertStmtData (Id st) bytes))) (\<lambda>_. insertMeta fl rord st) (Active t, n) = (Ok u, st', n')"
    unfolding putOne_def tx_bind_Ok [of "or_rollback (tx_lift _)"] or_rollback_Ok tx_lift_Ok of_option_Ok by blast
  with that show thesis by (blast elim: insertAll_Ok)
qed

section \<open>Batches\<close>

text \<open>The map from ids to stored bytes, and what a batch does to it.\<close>

definition stored :: "sqldb \<Rightarrow> string \<Rightarrow> string option" where
  "stored db = map_of (t_stmt (db_tables db))"

fun put_all :: "(statement \<Rightarrow> string option) \<Rightarrow> statement list \<Rightarrow> (string \<Rightarrow> string option) \<Rightarrow> (string \<Rightarrow> string option) option" where
  "put_all marshal [] m = Some m"
| "put_all marshal (st # sts) m =
     (case marshal st of
        Some b \<Rightarrow> if m (Id st) = None then put_all marshal sts (m(Id st \<mapsto> b)) else None
      | None \<Rightarrow> None)"

fun merge_all ::
  "(statement \<Rightarrow> string option) \<Rightarrow> int \<Rightarrow> statement list \<Rightarrow> (string \<Rightarrow> string option) \<Rightarrow> (int \<times> (string \<Rightarrow> string option)) option" where
  "merge_all marshal c [] m = Some (c, m)"
| "merge_all marshal c (st # sts) m =
     (case marshal st of
        Some b \<Rightarrow> if m (Id st) = None then merge_all marshal (c + 1) sts (m(Id st \<mapsto> b)) else merge_all marshal c sts m
      | None \<Rightarrow> None)"

lemma map_of_append_new: "i \<notin> fst ` set xs \<Longrightarrow> map_of (xs @ [(i, b)]) = (map_of xs)(i \<mapsto> b)"
  by (rule ext) (auto simp: map_add_def map_of_eq_None_iff [THEN iffD2] split: option.splits)

lemma map_of_None_ids: "map_of (t_stmt t) i = None \<longleftrightarrow> i \<notin> stmt_ids t"
  by (simp add: stmt_ids_def map_of_eq_None_iff)

lemma put_tables_stored:
  "Id st \<notin> stmt_ids t \<Longrightarrow> map_of (t_stmt (put_tables rord bytes src refs st t)) = (map_of (t_stmt t))(Id st \<mapsto> bytes)"
  by (simp add: put_tables_def map_of_append_new stmt_ids_def del: map_of_append fun_upd_apply)

lemma putBatch_loop:
  "tx_each (putOne fl rord marshal) sts (Active t, n) = (Ok u, Active t', n') \<Longrightarrow>
   put_all marshal sts (map_of (t_stmt t)) = Some (map_of (t_stmt t'))"
proof (induction sts arbitrary: t n)
  case (Cons st sts)
  then obtain v st1 n1 where 1: "putOne fl rord marshal st (Active t, n) = (Ok v, st1, n1)"
    "tx_each (putOne fl rord marshal) sts (st1, n1) = (Ok u, Active t', n')" by (auto simp: tx_bind_Ok)
  from 1(1) obtain bytes src refs where "marshal st = Some bytes" "st1 = Active (put_tables rord bytes src refs st t)" "Id st \<notin> stmt_ids t"
    by (rule putOne_stored)
  note st1 = this
  from 1(2) have "tx_each (putOne fl rord marshal) sts (Active (put_tables rord bytes src refs st t), n1) = (Ok u, Active t', n')" by (simp add: st1)
  from Cons.IH [OF this] st1 show ?case
    by (simp add: put_tables_stored map_of_None_ids del: fun_upd_apply)
qed simp

lemma Exec_insert_PK:
  "Exec fl (insertStmtData i d) (Active t, n) = (Err ErrConstraintPrimaryKey, st', n') \<Longrightarrow> i \<in> stmt_ids t \<and> st' = Active t"
  by (auto simp: Exec_def insertStmtData_def stmt_ids_def engine_error_def ErrConstraintPrimaryKey_def
      split: option.splits if_splits)

lemma mergeOne_Ok:
  assumes "mergeOne fl rord marshal st (Active t, n) = (Ok new, st', n')"
  shows "(\<exists>bytes src refs. marshal st = Some bytes \<and> new \<and> Id st \<notin> stmt_ids t \<and> st' = Active (put_tables rord bytes src refs st t) \<and>
      StatementSource st = Ok src \<and> StatementRefs st = Ok refs) \<or>
    (\<exists>bytes. marshal st = Some bytes \<and> \<not> new \<and> Id st \<in> stmt_ids t \<and> st' = Active t)"
proof -
  from assms obtain bytes where b: "marshal st = Some bytes" by (auto simp: mergeOne_def tx_bind_Ok)
  let ?e = "Exec fl (insertStmtData (Id st) bytes) (Active t, n)"
  from assms b have m: "(case ?e of
      (Ok u, s') \<Rightarrow> tx_bind (insertMeta fl rord st) (\<lambda>_. tx_return True) s'
    | (Err e, st', n) \<Rightarrow> (if e = ErrConstraintPrimaryKey then tx_return False (st', n) else (Err e, Rollback st', n))
    | (Panic p, s') \<Rightarrow> (Panic p, s')) = (Ok new, st', n')"
    by (simp add: mergeOne_def tx_bind_def tx_lift_def or_rollback_def)
  obtain r st1 n1 where e: "?e = (r, st1, n1)" by (cases ?e) auto
  show ?thesis
  proof (cases r)
    case (Ok u)
    with m e have new: "new" and i: "insertMeta fl rord st (st1, n1) = (Ok (), st', n')" by (auto simp: tx_bind_Ok)
    have "tx_bind (or_rollback (Exec fl (insertStmtData (Id st) bytes))) (\<lambda>_. insertMeta fl rord st) (Active t, n) = (Ok (), st', n')"
      using e Ok i by (simp add: tx_bind_def or_rollback_def)
    with b new show ?thesis by (elim insertAll_Ok) blast
  next
    case (Err err)
    with m e have "err = ErrConstraintPrimaryKey" "\<not> new" "st' = st1" by (auto split: if_splits)
    with e Err Exec_insert_PK b show ?thesis by blast
  next
    case (Panic p)
    with m e show ?thesis by simp
  qed
qed

lemma merge_loop:
  "mergeLoop fl rord marshal c sts (Active t, n) = (Ok c', Active t', n') \<Longrightarrow>
   merge_all marshal c sts (map_of (t_stmt t)) = Some (c', map_of (t_stmt t'))"
proof (induction sts arbitrary: t n c)
  case (Cons st sts)
  then obtain new st1 n1 where 1: "mergeOne fl rord marshal st (Active t, n) = (Ok new, st1, n1)"
    "mergeLoop fl rord marshal (if new then c + 1 else c) sts (st1, n1) = (Ok c', Active t', n')" by (auto simp: tx_bind_Ok)
  from mergeOne_Ok [OF 1(1)] show ?case
  proof (elim disjE exE conjE)
    fix bytes src refs
    assume "marshal st = Some bytes" "new" "Id st \<notin> stmt_ids t" "st1 = Active (put_tables rord bytes src refs st t)"
    note st1 = this
    from 1(2) st1 have "mergeLoop fl rord marshal (c + 1) sts (Active (put_tables rord bytes src refs st t), n1) = (Ok c', Active t', n')" by simp
    from Cons.IH [OF this] st1 show ?case
      by (simp add: put_tables_stored map_of_None_ids del: fun_upd_apply)
  next
    fix bytes
    assume st1: "marshal st = Some bytes" "\<not> new" "Id st \<in> stmt_ids t" "st1 = Active t"
    with 1(2) have "mergeLoop fl rord marshal c sts (Active t, n1) = (Ok c', Active t', n')" by simp
    with Cons.IH st1 show ?case by (simp add: map_of_None_ids del: fun_upd_apply)
  qed
qed auto

section \<open>Deletion\<close>

lemma deleteOne_Ok: "deleteOne fl i (Active t, n) = (Ok u, st', n') \<Longrightarrow> st' = Active (delete_tables i t)"
  by (auto simp: deleteOne_def tx_bind_Ok Exec_Ok deleteStmtData_def deleteStmtEnvelope_def deleteStmtRefs_def
      delete_tables_def)

fun string_items :: "stream_item list \<Rightarrow> string list option" where
  "string_items [] = Some []"
| "string_items (SVal (RString i) # items) = map_option ((#) i) (string_items items)"
| "string_items _ = None"

lemma delete_loop:
  "deleteLoop fl c items (Active t, n) = (Ok c', Active t', n') \<Longrightarrow>
   \<exists>ids. string_items items = Some ids \<and> c' = c + int (length ids) \<and> t' = fold delete_tables ids t"
proof (induction fl c items arbitrary: t n rule: deleteLoop.induct)
  case (2 fl c i items)
  then obtain st1 n1 where 1: "deleteOne fl i (Active t, n) = (Ok (), st1, n1)" "deleteLoop fl (c + 1) items (st1, n1) = (Ok c', Active t', n')"
    by (auto simp: tx_bind_Ok)
  from deleteOne_Ok [OF 1(1)] 1(2) "2.IH" show ?case by fastforce
qed auto

lemma fold_delete_tables:
  "fold delete_tables ids t =
     \<lparr>t_stmt = filter (\<lambda>r. fst r \<notin> set ids) (t_stmt t), t_env = filter (\<lambda>r. e_id r \<notin> set ids) (t_env t),
      t_refs = filter (\<lambda>r. fst r \<notin> set ids) (t_refs t), t_next = t_next t\<rparr>"
proof (induction ids arbitrary: t)
  case (Cons i ids)
  then show ?case by (simp add: delete_tables_def conj_commute)
qed simp

section \<open>The contract\<close>

lemma map_le_upd:
  assumes "m(i \<mapsto> b) \<subseteq>\<^sub>m m'"
  shows "m' i = Some b" "m i = None \<Longrightarrow> m \<subseteq>\<^sub>m m'"
proof -
  from assms have le: "\<And>j. j \<in> dom (m(i \<mapsto> b)) \<Longrightarrow> (m(i \<mapsto> b)) j = m' j" unfolding map_le_def by blast
  from le [of i] show "m' i = Some b" by simp
  assume "m i = None"
  show "m \<subseteq>\<^sub>m m'"
    unfolding map_le_def
  proof
    fix j assume "j \<in> dom m"
    with \<open>m i = None\<close> le [of j] show "m j = m' j" by (cases "j = i") auto
  qed
qed

lemma merge_all_spec:
  "merge_all marshal c sts m = Some (c', m') \<Longrightarrow>
   c' = c + int (card (Id ` set sts - dom m)) \<and> dom m' = dom m \<union> Id ` set sts \<and> m \<subseteq>\<^sub>m m' \<and>
   (\<forall>i \<in> dom m' - dom m. \<exists>st \<in> set sts. Id st = i \<and> marshal st = Some (the (m' i)))"
proof (induction sts arbitrary: c m)
  case (Cons st sts)
  then obtain b where b: "marshal st = Some b" by (auto split: option.splits)
  show ?case
  proof (cases "m (Id st) = None")
    case True
    with Cons.prems b have "merge_all marshal (c + 1) sts (m(Id st \<mapsto> b)) = Some (c', m')"
      by (simp del: fun_upd_apply)
    moreover have D: "dom (m(Id st \<mapsto> b)) = insert (Id st) (dom m)" by simp
    ultimately have IH: "c' = c + 1 + int (card (Id ` set sts - insert (Id st) (dom m)))"
      "dom m' = insert (Id st) (dom m) \<union> Id ` set sts" "m(Id st \<mapsto> b) \<subseteq>\<^sub>m m'"
      "\<forall>i \<in> dom m' - insert (Id st) (dom m). \<exists>st \<in> set sts. Id st = i \<and> marshal st = Some (the (m' i))"
      using Cons.IH by (metis D)+
    note le = map_le_upd [OF IH(3)]
    have "Id ` set (st # sts) - dom m = insert (Id st) (Id ` set sts - insert (Id st) (dom m))"
      using True by auto
    then have "card (Id ` set (st # sts) - dom m) = Suc (card (Id ` set sts - insert (Id st) (dom m)))"
      by simp
    with IH(1) have c: "c' = c + int (card (Id ` set (st # sts) - dom m))" by simp
    have "\<exists>st' \<in> set (st # sts). Id st' = i \<and> marshal st' = Some (the (m' i))" if "i \<in> dom m' - dom m" for i
    proof (cases "i = Id st")
      case True
      with le(1) b show ?thesis by simp
    next
      case False
      with that IH(4) show ?thesis by auto
    qed
    with c IH(2) le(2) True show ?thesis by (intro conjI ballI) auto
  next
    case False
    with Cons.prems b have "merge_all marshal c sts m = Some (c', m')" by auto
    note IH = Cons.IH [OF this]
    moreover have "Id ` set (st # sts) - dom m = Id ` set sts - dom m" using False by auto
    moreover have "\<forall>i \<in> dom m' - dom m. \<exists>st' \<in> set (st # sts). Id st' = i \<and> marshal st' = Some (the (m' i))"
      using IH unfolding list.set by blast
    ultimately show ?thesis using False by (intro conjI) auto
  qed
qed simp

lemma put_all_spec:
  "put_all marshal sts m = Some m' \<Longrightarrow>
   dom m' = dom m \<union> Id ` set sts \<and> m \<subseteq>\<^sub>m m' \<and> distinct (map Id sts) \<and> Id ` set sts \<inter> dom m = {} \<and>
   (\<forall>st \<in> set sts. m' (Id st) \<noteq> None \<and> marshal st = Some (the (m' (Id st))))"
proof (induction sts arbitrary: m)
  case (Cons st sts)
  then obtain b where b: "marshal st = Some b" "m (Id st) = None" "put_all marshal sts (m(Id st \<mapsto> b)) = Some m'"
    by (auto split: option.splits if_splits)
  note IH = Cons.IH [OF b(3)]
  have "m' (Id st) = Some b" "m \<subseteq>\<^sub>m m'" using IH b(2) map_le_upd [of m "Id st" b m'] by blast+
  moreover have "Id st \<notin> Id ` set sts" using IH by auto
  moreover have "Id ` set sts \<inter> dom m = {}" using IH by auto
  ultimately show ?case using IH b by auto
qed simp

text \<open>
  What a client of the database relies on: a successful insertion adds exactly the bytes of the
  statements under new ids, a merge the bytes of those whose id is new, and an operation that
  fails changes nothing. The client's \<open>merge_count\<close>, \<open>merge_again\<close> and \<open>put_batch_new\<close> follow.
\<close>

locale statement_store =
  fixes content :: "'db \<Rightarrow> string \<Rightarrow> string option"
    and marshal :: "statement \<Rightarrow> string option"
    and put :: "statement \<Rightarrow> 'db \<Rightarrow> unit outcome \<times> 'db"
    and put_batch :: "statement list \<Rightarrow> 'db \<Rightarrow> unit outcome \<times> 'db"
    and merge :: "statement \<Rightarrow> 'db \<Rightarrow> bool outcome \<times> 'db"
    and merge_batch :: "statement list \<Rightarrow> 'db \<Rightarrow> int outcome \<times> 'db"
  assumes put_law: "put st db = (Ok u, db') \<Longrightarrow> put_all marshal [st] (content db) = Some (content db')"
    and put_batch_law: "put_batch sts db = (Ok u, db') \<Longrightarrow> put_all marshal sts (content db) = Some (content db')"
    and merge_law: "merge st db = (Ok new, db') \<Longrightarrow>
      merge_all marshal 0 [st] (content db) = Some (if new then 1 else 0, content db')"
    and merge_batch_law: "merge_batch sts db = (Ok c, db') \<Longrightarrow> merge_all marshal 0 sts (content db) = Some (c, content db')"
    and put_fails: "put st db = (r, db') \<Longrightarrow> (\<forall>u. r \<noteq> Ok u) \<Longrightarrow> content db' = content db"
    and put_batch_fails: "put_batch sts db = (r, db') \<Longrightarrow> (\<forall>u. r \<noteq> Ok u) \<Longrightarrow> content db' = content db"
    and merge_fails: "merge st db = (rm, db') \<Longrightarrow> (\<forall>b. rm \<noteq> Ok b) \<Longrightarrow> content db' = content db"
    and merge_batch_fails: "merge_batch sts db = (rb, db') \<Longrightarrow> (\<forall>c. rb \<noteq> Ok c) \<Longrightarrow> content db' = content db"
begin

lemma merge_count:
  assumes "merge_batch sts db = (Ok c, db')"
  shows "c = int (card (Id ` set sts - dom (content db)))" "dom (content db') = dom (content db) \<union> Id ` set sts"
    "content db \<subseteq>\<^sub>m content db'"
  using merge_all_spec [OF merge_batch_law [OF assms]] by simp_all

lemma merge_new:
  assumes "merge_batch sts db = (Ok c, db')" "i \<in> dom (content db') - dom (content db)"
  obtains st where "st \<in> set sts" "Id st = i" "marshal st = Some (the (content db' i))"
  using merge_all_spec [OF merge_batch_law [OF assms(1)]] assms(2) by blast

text \<open>Merging again adds nothing.\<close>

lemma merge_again:
  assumes "merge_batch sts db = (Ok c, db1)" "merge_batch sts db1 = (Ok c2, db2)"
  shows "c2 = 0" "content db2 = content db1"
proof -
  note 1 = merge_count [OF assms(1)] and 2 = merge_count [OF assms(2)]
  have sub: "Id ` set sts - dom (content db1) = {}" using 1(2) by blast
  with 2(1) show "c2 = 0" by simp
  have "dom (content db2) = dom (content db1)" using 1(2) 2(2) by blast
  with 2(3) show "content db2 = content db1" by (metis map_le_antisym map_le_def)
qed

lemma put_batch_new:
  assumes "put_batch sts db = (Ok u, db')"
  shows "distinct (map Id sts)" "Id ` set sts \<inter> dom (content db) = {}" "content db \<subseteq>\<^sub>m content db'"
    "st \<in> set sts \<Longrightarrow> content db' (Id st) \<noteq> None \<and> marshal st = Some (the (content db' (Id st)))"
  using put_all_spec [OF put_batch_law [OF assms]] by simp_all

text \<open>No operation loses or changes what is stored.\<close>

lemma grows:
  "put st db = (ru, db') \<Longrightarrow> content db \<subseteq>\<^sub>m content db'"
  "put_batch sts db = (ru, db') \<Longrightarrow> content db \<subseteq>\<^sub>m content db'"
  "merge st db = (rm, db') \<Longrightarrow> content db \<subseteq>\<^sub>m content db'"
  "merge_batch sts db = (rb, db') \<Longrightarrow> content db \<subseteq>\<^sub>m content db'"
proof -
  show "put st db = (ru, db') \<Longrightarrow> content db \<subseteq>\<^sub>m content db'"
    using put_fails put_law [THEN put_all_spec] by (cases ru) (auto simp: map_le_def)
  show "put_batch sts db = (ru, db') \<Longrightarrow> content db \<subseteq>\<^sub>m content db'"
    using put_batch_fails put_batch_law [THEN put_all_spec] by (cases ru) (auto simp: map_le_def)
  show "merge st db = (rm, db') \<Longrightarrow> content db \<subseteq>\<^sub>m content db'"
    using merge_fails merge_law [THEN merge_all_spec] by (cases rm) (auto simp: map_le_def)
  show "merge_batch sts db = (rb, db') \<Longrightarrow> content db \<subseteq>\<^sub>m content db'"
    using merge_batch_fails merge_batch_law [THEN merge_all_spec] by (cases rb) (auto simp: map_le_def)
qed

end

lemma db_Put_eq: "db_Put fl rord marshal st db =
   (case marshal st of Some bytes \<Rightarrow> with_tx fl (tx_bind (tx_each (putOne fl rord marshal) [st]) (commit_return fl)) db
    | None \<Rightarrow> (Err MarshalError, db))"
proof (cases "marshal st")
  case (Some bytes)
  have "tx_each (putOne fl rord marshal) [st] =
      tx_bind (or_rollback (Exec fl (insertStmtData (Id st) bytes))) (\<lambda>_. insertMeta fl rord st)"
    by (simp add: putOne_def Some tx_bind_def tx_lift_def or_rollback_def fun_eq_iff)
  then show ?thesis by (simp add: db_Put_def Some tx_bind_assoc Commit_return)
qed (simp_all add: db_Put_def)

lemma db_Put_Ok:
  "db_Put fl rord marshal st db = (Ok u, db') \<Longrightarrow> with_tx fl (tx_bind (tx_each (putOne fl rord marshal) [st]) (commit_return fl)) db = (Ok u, db')"
  by (simp add: db_Put_eq split: option.splits)

lemma tx_ok_puts: "tx_ok (tx_each (putOne fl rord marshal) sts)"
  by (intro tx_oks)

lemma db_Put_fails:
  "db_Put fl rord marshal st db = (r, db') \<Longrightarrow> (\<forall>u. r \<noteq> Ok u) \<Longrightarrow> db_tables db' = db_tables db"
  using with_tx_fails [OF _ tx_ok_puts, of fl fl rord marshal "[st]"] by (auto simp: db_Put_eq simp del: tx_each.simps split: option.splits)

lemma db_PutBatch_fails:
  "db_PutBatch fl rord marshal sts db = (r, db') \<Longrightarrow> (\<forall>u. r \<noteq> Ok u) \<Longrightarrow> db_tables db' = db_tables db"
  unfolding db_PutBatch_eq by (rule with_tx_fails [OF _ tx_ok_puts])

lemma db_MergeBatch_fails:
  "db_MergeBatch fl rord marshal sts db = (r, db') \<Longrightarrow> (\<forall>c. r \<noteq> Ok c) \<Longrightarrow> db_tables db' = db_tables db"
  unfolding db_MergeBatch_def by (rule with_tx_fails [OF _ tx_ok_mergeLoop])

lemma db_Delete_fails:
  "db_Delete fl eng unmarshal q db = (r, db') \<Longrightarrow> (\<forall>c. r \<noteq> Ok c) \<Longrightarrow> db_tables db' = db_tables db"
  using with_tx_fails [OF _ tx_ok_deleteLoop] by (fastforce simp: db_Delete_def split: if_splits outcome.splits)

section \<open>The database implements the contract\<close>

lemma stored_same: "db_tables db' = db_tables db \<Longrightarrow> stored db' = stored db"
  by (simp add: stored_def)

lemma PutBatch_law:
  assumes "db_PutBatch fl rord marshal sts db = (Ok u, db')"
  shows "put_all marshal sts (stored db) = Some (stored db')"
  using assms putBatch_loop tx_ok_puts unfolding db_PutBatch_eq stored_def by (blast elim!: with_tx_Ok)

lemma Put_law:
  assumes "db_Put fl rord marshal st db = (Ok u, db')"
  shows "put_all marshal [st] (stored db) = Some (stored db')"
  using db_Put_Ok [OF assms] PutBatch_law [of fl rord marshal "[st]" db u db'] unfolding db_PutBatch_eq by blast

lemma MergeBatch_law:
  assumes "db_MergeBatch fl rord marshal sts db = (Ok c, db')"
  shows "merge_all marshal 0 sts (stored db) = Some (c, stored db')"
  using assms merge_loop tx_ok_mergeLoop unfolding db_MergeBatch_def stored_def by (blast elim!: with_tx_Ok)

lemma Put_constraint:
  assumes "db_Put fl rord marshal st db = (Err ErrConstraintPrimaryKey, db')"
  shows "stored db (Id st) \<noteq> None \<and> (\<exists>b. marshal st = Some b)"
proof -
  from assms obtain b where b: "marshal st = Some b"
    by (auto simp: db_Put_def MarshalError_def ErrConstraintPrimaryKey_def split: option.splits)
  let ?e = "ErrConstraintPrimaryKey"
  have exec: "or_rollback (Exec fl q) (Active t, n) = (Err ?e, s') \<Longrightarrow> q t = Err ?e" for q t n s'
    by (auto simp: or_rollback_Err Exec_def engine_error_def ErrConstraintPrimaryKey_def split: option.splits outcome.splits)
  have env: "\<not> (or_rollback (Exec fl (insertStmtEnvelope i ns p src ts)) (Active t, n) = (Err ?e, s'))" for i ns p src ts t n s'
    using exec by (fastforce simp: insertStmtEnvelope_def ErrConstraintUnique_def ErrConstraintPrimaryKey_def split: if_splits)
  have refs: "\<not> (tx_each (\<lambda>wki. or_rollback (Exec fl (insertStmtRefs i wki))) ws (Active t, n) = (Err ?e, s'))" for i ws t n s'
  proof (induction ws arbitrary: t n)
    case (Cons w ws)
    have "\<not> (or_rollback (Exec fl (insertStmtRefs i w)) (Active t, n) = (Err ?e, s'))" using exec by (fastforce simp: insertStmtRefs_def)
    with Cons show ?case by (auto simp: tx_bind_Err Exec_Ok)
  qed (simp add: tx_return_def)
  have meta: "\<not> (insertMeta fl rord st (Active t, n) = (Err ?e, s'))" for t n s'
    using env refs StatementSource_no_Err [of st ?e] mergeStatement_no_Err(1) [of "[]" st ?e]
    by (cases s') (auto simp: insertMeta_def tx_bind_Err Exec_Ok tx_lift_def StatementRefs_def)
  from assms(1) b have "with_tx fl (tx_bind (tx_bind (or_rollback (Exec fl (insertStmtData (Id st) b))) (\<lambda>_. insertMeta fl rord st)) (commit_return fl)) db =
      (Err ?e, db')"
    by (simp add: db_Put_def Commit_return tx_bind_assoc)
  moreover have "tx_ok (tx_bind (or_rollback (Exec fl (insertStmtData (Id st) b))) (\<lambda>_. insertMeta fl rord st))" by (intro tx_oks)
  ultimately obtain n s' where "tx_bind (or_rollback (Exec fl (insertStmtData (Id st) b))) (\<lambda>_. insertMeta fl rord st) (Active (db_tables db), n) = (Err ?e, s')"
    by (rule with_tx_cases) (auto simp: engine_error_def ErrConstraintPrimaryKey_def)
  then have "or_rollback (Exec fl (insertStmtData (Id st) b)) (Active (db_tables db), n) = (Err ?e, s')"
    using meta by (cases s') (auto simp: tx_bind_Err Exec_Ok)
  then have "insertStmtData (Id st) b (db_tables db) = Err ?e" by (rule exec)
  with b show ?thesis by (auto simp: insertStmtData_def stored_def map_of_None_ids stmt_ids_def split: if_splits)
qed

lemma Merge_cases:
  assumes "db_Merge fl rord marshal st db = (Ok new, db')"
  shows "if new then db_Put fl rord marshal st db = (Ok (), db')
    else db_Put fl rord marshal st db = (Err ErrConstraintPrimaryKey, db')"
  using assms by (auto simp: db_Merge_def split: prod.splits outcome.splits if_splits)

lemma Merge_fails:
  "db_Merge fl rord marshal st db = (r, db') \<Longrightarrow> (\<forall>b. r \<noteq> Ok b) \<Longrightarrow> db_tables db' = db_tables db"
  by (auto simp: db_Merge_def split: prod.splits outcome.splits if_splits dest: db_Put_fails)

text \<open>For every oracle of faults, iteration order of references and marshalling function.\<close>

interpretation sqlite: statement_store stored marshal "db_Put fl rord marshal" "db_PutBatch fl rord marshal"
  "db_Merge fl rord marshal" "db_MergeBatch fl rord marshal"
  for fl rord marshal
proof
  fix st db new db' assume m: "db_Merge fl rord marshal st db = (Ok new, db')"
  show "merge_all marshal 0 [st] (stored db) = Some (if new then 1 else 0, stored db')"
  proof (cases new)
    case True
    with Merge_cases [OF m] have "db_Put fl rord marshal st db = (Ok (), db')" by simp
    then have "put_all marshal [st] (stored db) = Some (stored db')" by (rule Put_law)
    with True show ?thesis by (auto split: option.splits if_splits)
  next
    case False
    with Merge_cases [OF m] have p: "db_Put fl rord marshal st db = (Err ErrConstraintPrimaryKey, db')" by simp
    from Put_constraint [OF p] stored_same [OF db_Put_fails [OF p]] False show ?thesis by auto
  qed
next
  fix st db u db' assume "db_Put fl rord marshal st db = (Ok u, db')"
  then show "put_all marshal [st] (stored db) = Some (stored db')" by (rule Put_law)
next
  fix sts db u db' assume "db_PutBatch fl rord marshal sts db = (Ok u, db')"
  then show "put_all marshal sts (stored db) = Some (stored db')" by (rule PutBatch_law)
next
  fix sts db c db' assume "db_MergeBatch fl rord marshal sts db = (Ok c, db')"
  then show "merge_all marshal 0 sts (stored db) = Some (c, stored db')" by (rule MergeBatch_law)
next
  fix st db r db' assume "db_Put fl rord marshal st db = (r, db')" "\<forall>u. r \<noteq> Ok u"
  then show "stored db' = stored db" by (rule stored_same [OF db_Put_fails])
next
  fix sts db r db' assume "db_PutBatch fl rord marshal sts db = (r, db')" "\<forall>u. r \<noteq> Ok u"
  then show "stored db' = stored db" by (rule stored_same [OF db_PutBatch_fails])
next
  fix st db rm db' assume "db_Merge fl rord marshal st db = (rm, db')" "\<forall>b. rm \<noteq> Ok b"
  then show "stored db' = stored db" by (rule stored_same [OF Merge_fails])
next
  fix sts db rb db' assume "db_MergeBatch fl rord marshal sts db = (rb, db')" "\<forall>c. rb \<noteq> Ok c"
  then show "stored db' = stored db" by (rule stored_same [OF db_MergeBatch_fails])
qed

section \<open>Results\<close>

lemma Delete_Ok:
  assumes "db_Delete fl eng unmarshal q db = (Ok c, db')"
  obtains items ids where "db_QueryStream eng unmarshal q db = Ok items" "string_items items = Some ids"
    "c = int (length ids)" "db_tables db' = fold delete_tables ids (db_tables db)" "q_Op q = OpDelete"
proof -
  from assms obtain items where q: "q_Op q = OpDelete" "db_QueryStream eng unmarshal q db = Ok items"
    and "with_tx fl (tx_bind (deleteLoop fl 0 items) (commit_return fl)) db = (Ok c, db')"
    by (auto simp: db_Delete_def split: if_splits outcome.splits)
  from this(3) tx_ok_deleteLoop obtain n n' where "deleteLoop fl 0 items (Active (db_tables db), n) = (Ok c, Active (db_tables db'), n')"
    by (rule with_tx_Ok)
  from delete_loop [OF this] q that show thesis by auto
qed

text \<open>What an operation that returns an error leaves: the tables, and no transaction of its own.\<close>

definition kept :: "sqldb \<Rightarrow> sqldb \<Rightarrow> bool" where
  "kept db db' \<longleftrightarrow> db_tables db' = db_tables db \<and> db_open db' = db_open db"

lemma PutBatch_atomic:
  "case db_PutBatch fl rord marshal sts db of
      (Ok u, db') \<Rightarrow> put_all marshal sts (stored db) = Some (stored db') \<and> db_open db' = db_open db
    | (Err e, db') \<Rightarrow> kept db db' | (Panic p, db') \<Rightarrow> db_tables db' = db_tables db"
proof -
  obtain r db' where d: "db_PutBatch fl rord marshal sts db = (r, db')" by fastforce
  from d [unfolded db_PutBatch_eq] tx_ok_puts show ?thesis
    by (rule with_tx_cases) (use d PutBatch_law in \<open>auto simp: kept_def\<close>)
qed

lemma Put_atomic:
  "case db_Put fl rord marshal st db of
      (Ok u, db') \<Rightarrow> put_all marshal [st] (stored db) = Some (stored db') \<and> db_open db' = db_open db
    | (Err e, db') \<Rightarrow> kept db db' | (Panic p, db') \<Rightarrow> db_tables db' = db_tables db"
proof (cases "marshal st")
  case None
  then show ?thesis by (simp add: db_Put_eq kept_def)
next
  case (Some bytes)
  then have "db_Put fl rord marshal st db = db_PutBatch fl rord marshal [st] db" by (simp add: db_Put_eq db_PutBatch_eq del: tx_each.simps)
  with PutBatch_atomic [where fl = fl and rord = rord and marshal = marshal and sts = "[st]" and db = db] show ?thesis by simp
qed

lemma MergeBatch_atomic:
  "case db_MergeBatch fl rord marshal sts db of
      (Ok c, db') \<Rightarrow> merge_all marshal 0 sts (stored db) = Some (c, stored db') \<and> db_open db' = db_open db
    | (Err e, db') \<Rightarrow> kept db db' | (Panic p, db') \<Rightarrow> db_tables db' = db_tables db"
proof -
  obtain r db' where d: "db_MergeBatch fl rord marshal sts db = (r, db')" by fastforce
  from d [unfolded db_MergeBatch_def] tx_ok_mergeLoop show ?thesis
    by (rule with_tx_cases) (use d MergeBatch_law in \<open>auto simp: kept_def\<close>)
qed

lemma streamed_rows:
  "stream_rows unmarshal rsel rows = Ok items \<Longrightarrow> string_items items = Some ids \<Longrightarrow> omap (Scan unmarshal rsel) rows = Ok (map RString ids)"
proof (induction rows arbitrary: items ids)
  case (Cons row rows)
  then obtain obj where obj: "Scan unmarshal rsel row = Ok obj" by (cases "Scan unmarshal rsel row") auto
  with Cons.prems obtain rest where rest: "stream_rows unmarshal rsel rows = Ok rest" "items = SVal obj # rest" by (cases "stream_rows unmarshal rsel rows") auto
  with Cons.prems(2) obtain i js where "obj = RString i" "string_items rest = Some js" "ids = i # js" by (cases obj) auto
  with Cons.IH [OF rest(1)] obj show ?case by simp
qed simp

lemma Delete_atomic:
  "case db_Delete fl eng unmarshal q db of
      (Ok c, db') \<Rightarrow> (\<exists>sq rsel rows err ids. CompileQuery q = Ok (sq, rsel) \<and> eng sq (db_tables db) = Ok (rows, err) \<and>
        omap (Scan unmarshal rsel) rows = Ok (map RString ids) \<and> c = int (length ids) \<and>
        db_tables db' = fold delete_tables ids (db_tables db)) \<and> db_open db' = db_open db
    | (Err e, db') \<Rightarrow> kept db db' | (Panic p, db') \<Rightarrow> db_tables db' = db_tables db"
proof (cases "q_Op q = OpDelete \<and> (\<exists>items. db_QueryStream eng unmarshal q db = Ok items)")
  case True
  then obtain items where q: "q_Op q = OpDelete" "db_QueryStream eng unmarshal q db = Ok items" by blast
  obtain r db' where d: "db_Delete fl eng unmarshal q db = (r, db')" by fastforce
  with q have w: "with_tx fl (tx_bind (deleteLoop fl 0 items) (commit_return fl)) db = (r, db')" by (simp add: db_Delete_def)
  from w tx_ok_deleteLoop show ?thesis
  proof (rule with_tx_cases)
    fix c n n' assume c: "r = Ok c" "deleteLoop fl 0 items (Active (db_tables db), n) = (Ok c, Active (db_tables db'), n')" "db_open db' = db_open db"
    from delete_loop [OF c(2)] obtain ids where ids: "string_items items = Some ids" "c = int (length ids)"
      "db_tables db' = fold delete_tables ids (db_tables db)" by auto
    from q(2) obtain sq rsel rows err where "CompileQuery q = Ok (sq, rsel)" "eng sq (db_tables db) = Ok (rows, err)"
      "stream_rows unmarshal rsel rows = Ok items" by (auto simp: db_QueryStream_def)
    with ids streamed_rows d c show ?thesis by auto
  qed (use d in \<open>auto simp: kept_def\<close>)
next
  case False
  then show ?thesis by (auto simp: db_Delete_def kept_def split: outcome.split)
qed

text \<open>A statement and a database for the witness.\<close>

definition atomic_stmt :: statement where
  "atomic_stmt = Statement ''Qa'' ''p'' ''ns''
     (Some (StatementBody (Some (BodySimple \<lparr>s_Object = ''o'', s_Refs = [''r''], s_Tags = [], s_Deps = []\<rparr>)))) 0 None"

definition atomic_db :: sqldb where
  "atomic_db = \<lparr>db_tables = \<lparr>t_stmt = [], t_env = [], t_refs = [], t_next = 1\<rparr>, db_time = 0, db_open = 0\<rparr>"



text \<open>
  What holds of the tables whatever the database does: a condition that the rows of a new statement keep, and
  the deletion of the rows of an id, is kept by every operation, whether it succeeds or fails.
\<close>

locale table_invariant =
  fixes marshal :: "statement \<Rightarrow> string option" and rord :: "string list \<Rightarrow> string list" and I :: "tables \<Rightarrow> bool"
  assumes put_tables: "I t \<Longrightarrow> marshal st = Some bytes \<Longrightarrow> StatementSource st = Ok src \<Longrightarrow> StatementRefs st = Ok refs \<Longrightarrow>
      Id st \<notin> stmt_ids t \<Longrightarrow> I (put_tables rord bytes src refs st t)"
    and delete_tables: "I t \<Longrightarrow> I (delete_tables i t)"
begin

lemma put_each: "tx_each (putOne fl rord marshal) sts (Active t, n) = (Ok u, Active t', n') \<Longrightarrow> I t \<Longrightarrow> I t'"
proof (induction sts arbitrary: t n)
  case (Cons st sts)
  then obtain v st1 n1 where 1: "putOne fl rord marshal st (Active t, n) = (Ok v, st1, n1)"
    "tx_each (putOne fl rord marshal) sts (st1, n1) = (Ok u, Active t', n')" by (auto simp: tx_bind_Ok)
  from 1(1) Cons.prems(2) obtain t1 where "st1 = Active t1" "I t1" by (blast elim: putOne_stored intro: put_tables)
  with Cons.IH 1(2) show ?case by blast
qed simp

lemma merge_each: "mergeLoop fl rord marshal c sts (Active t, n) = (Ok c', Active t', n') \<Longrightarrow> I t \<Longrightarrow> I t'"
proof (induction sts arbitrary: t n c)
  case (Cons st sts)
  then obtain new st1 n1 where 1: "mergeOne fl rord marshal st (Active t, n) = (Ok new, st1, n1)"
    "mergeLoop fl rord marshal (if new then c + 1 else c) sts (st1, n1) = (Ok c', Active t', n')" by (auto simp: tx_bind_Ok)
  from mergeOne_Ok [OF 1(1)] Cons.prems(2) obtain t1 where "st1 = Active t1" "I t1" by (auto intro: put_tables)
  with Cons.IH 1(2) show ?case by blast
qed simp

lemma delete_each: "I t \<Longrightarrow> I (fold delete_tables ids t)"
  by (induction ids arbitrary: t) (simp_all add: delete_tables)

lemma PutBatch_keeps:
  assumes "I (db_tables db)"
  shows "I (db_tables (snd (db_PutBatch fl rord marshal sts db)))"
proof (cases "db_PutBatch fl rord marshal sts db")
  case (Pair r db')
  show ?thesis
  proof (cases r)
    case (Ok u)
    with Pair put_each assms tx_ok_puts show ?thesis unfolding db_PutBatch_eq by (auto elim!: with_tx_Ok)
  qed (use db_PutBatch_fails [OF Pair] Pair assms in simp_all)
qed

lemma Put_keeps:
  assumes "I (db_tables db)"
  shows "I (db_tables (snd (db_Put fl rord marshal st db)))"
proof (cases "db_Put fl rord marshal st db")
  case (Pair r db')
  show ?thesis
  proof (cases r)
    case (Ok u)
    with Pair have "db_PutBatch fl rord marshal [st] db = (Ok u, db')" using db_Put_Ok by (simp add: db_PutBatch_eq del: tx_each.simps)
    with PutBatch_keeps [OF assms, of fl "[st]"] Pair show ?thesis by simp
  qed (use db_Put_fails [OF Pair] Pair assms in simp_all)
qed

lemma Merge_keeps: "I (db_tables db) \<Longrightarrow> I (db_tables (snd (db_Merge fl rord marshal st db)))"
  using Put_keeps [of db fl st] by (auto simp: db_Merge_def split: prod.splits outcome.splits)

lemma MergeBatch_keeps:
  assumes "I (db_tables db)"
  shows "I (db_tables (snd (db_MergeBatch fl rord marshal sts db)))"
proof (cases "db_MergeBatch fl rord marshal sts db")
  case (Pair r db')
  show ?thesis
  proof (cases r)
    case (Ok c)
    with Pair merge_each assms tx_ok_mergeLoop show ?thesis unfolding db_MergeBatch_def by (auto elim!: with_tx_Ok)
  qed (use db_MergeBatch_fails [OF Pair] Pair assms in simp_all)
qed

lemma Delete_keeps:
  assumes "I (db_tables db)"
  shows "I (db_tables (snd (db_Delete fl eng unmarshal q db)))"
proof (cases "db_Delete fl eng unmarshal q db")
  case (Pair r db')
  show ?thesis
  proof (cases r)
    case (Ok c)
    with Pair have "db_Delete fl eng unmarshal q db = (Ok c, db')" by simp
    then obtain ids where "db_tables db' = fold delete_tables ids (db_tables db)" by (rule Delete_Ok)
    with Pair show ?thesis by (simp add: delete_each assms)
  qed (use db_Delete_fails [OF Pair] Pair assms in simp_all)
qed

end

interpretation agreeing: table_invariant marshal rord tables_ok
  by unfold_locales (simp_all add: put_tables_ok delete_tables_ok)

lemma Put_tables_ok: "tables_ok (db_tables db) \<Longrightarrow> tables_ok (db_tables (snd (db_Put fl rord marshal st db)))"
  by (rule agreeing.Put_keeps)

lemma PutBatch_tables_ok: "tables_ok (db_tables db) \<Longrightarrow> tables_ok (db_tables (snd (db_PutBatch fl rord marshal sts db)))"
  by (rule agreeing.PutBatch_keeps)

lemma MergeBatch_tables_ok: "tables_ok (db_tables db) \<Longrightarrow> tables_ok (db_tables (snd (db_MergeBatch fl rord marshal sts db)))"
  by (rule agreeing.MergeBatch_keeps)

lemma Delete_tables_ok: "tables_ok (db_tables db) \<Longrightarrow> tables_ok (db_tables (snd (db_Delete fl eng unmarshal q db)))"
  by (rule agreeing.Delete_keeps)

text \<open>Every operation keeps the agreement of the three tables, succeed or fail: unique ids, an envelope
  for every statement and a statement for every envelope, references of stored statements only,
  and unique counters below the next.\<close>

theorem db_keeps_tables_ok:
  assumes "tables_ok (db_tables db)"
  shows "tables_ok (db_tables (snd (db_Put fl rord marshal st db))) \<and>
    tables_ok (db_tables (snd (db_PutBatch fl rord marshal sts db))) \<and>
    tables_ok (db_tables (snd (db_Merge fl rord marshal st db))) \<and>
    tables_ok (db_tables (snd (db_MergeBatch fl rord marshal sts db))) \<and>
    tables_ok (db_tables (snd (db_Delete fl eng unmarshal q db)))"
  using assms
  by (simp add: Put_tables_ok PutBatch_tables_ok MergeBatch_tables_ok Delete_tables_ok agreeing.Merge_keeps)

text \<open>A statement and a database for the witnesses.\<close>

definition sample_stmt :: "string \<Rightarrow> statement" where
  "sample_stmt i = Statement i ''p'' ''ns''
     (Some (StatementBody (Some (BodySimple \<lparr>s_Object = ''o'', s_Refs = [''r''], s_Tags = [], s_Deps = []\<rparr>)))) 7 None"

definition empty_db :: sqldb where
  "empty_db = \<lparr>db_tables = \<lparr>t_stmt = [], t_env = [], t_refs = [], t_next = 1\<rparr>, db_time = 0, db_open = 0\<rparr>"

definition sample_marshal :: "statement \<Rightarrow> string option" where
  "sample_marshal st = (if st = sample_stmt ''Qa'' then Some ''1'' else if st = sample_stmt ''Qb'' then Some ''2'' else None)"

definition sample_unmarshal :: "string \<Rightarrow> statement outcome" where
  "sample_unmarshal b = (if b = ''1'' then Ok (sample_stmt ''Qa'') else Ok (sample_stmt ''Qb''))"

lemma sample_roundtrip: "sample_marshal st = Some b \<Longrightarrow> sample_unmarshal b = Ok st"
  by (auto simp: sample_marshal_def sample_unmarshal_def split: if_splits)

lemma empty_db_ok: "tables_ok (db_tables empty_db)"
  by (simp add: tables_ok_def empty_db_def stmt_ids_def env_ids_def)

lemma empty_db_open: "db_open empty_db = 0"
  by (simp add: empty_db_def)

theorem db_keeps_tables_ok_witness:
  "tables_ok (db_tables (snd (db_Put (\<lambda>n. None) (\<lambda>xs. xs) sample_marshal (sample_stmt ''Qa'') empty_db)))"
  using db_keeps_tables_ok [OF empty_db_ok] by blast

section \<open>Lookups after insertions\<close>

lemma db_Get_result:
  "fl (db_time db) = None \<Longrightarrow> fst (db_Get fl unmarshal i db) =
     (case stored db i of None \<Rightarrow> Err UnknownStatement | Some b \<Rightarrow> unmarshal b)"
  by (simp add: db_Get_def selectStmtData_def stored_def Let_def split: option.splits)

lemma stored_Put:
  assumes "db_Put fl rord marshal st db = (Ok u, db')"
  shows "\<exists>b. stored db' (Id st) = Some b \<and> marshal st = Some b"
  using sqlite.put_law [OF assms] by (auto split: option.splits if_splits dest!: sym [of "fun_upd _ _ _"])

text \<open>Durability: after a Put that succeeded, and whatever batch was merged or put since, with or
  without success, Get of the id returns the statement; Get of an id that is not stored is
  UnknownStatement. The protocol buffer library is assumed to unmarshal what it marshalled.\<close>

theorem db_get_after_put:
  assumes "\<And>s b. marshal s = Some b \<Longrightarrow> unmarshal b = Ok s"
    and "db_Put fl rord marshal st db = (Ok u, db1)"
    and "db_MergeBatch fl rord marshal sts db1 = (rm, db2)" "db_PutBatch fl rord marshal sts' db2 = (rp, db3)"
    and "fl (db_time db3) = None"
  shows "fst (db_Get fl unmarshal (Id st) db3) = Ok st \<and>
    (i \<notin> dom (stored db3) \<longrightarrow> fst (db_Get fl unmarshal i db3) = Err UnknownStatement)"
proof -
  obtain b where b: "stored db1 (Id st) = Some b" "marshal st = Some b" using stored_Put [OF assms(2)] by blast
  have "stored db1 \<subseteq>\<^sub>m stored db2" "stored db2 \<subseteq>\<^sub>m stored db3"
    using sqlite.grows(4) [OF assms(3)] sqlite.grows(2) [OF assms(4)] by simp_all
  with b(1) have "stored db3 (Id st) = Some b" by (metis domI map_le_def)
  with b(2) show ?thesis by (auto simp: db_Get_result [of fl db3, OF assms(5)] assms(1) split: option.splits)
qed

theorem db_get_after_put_witness:
  "let db1 = snd (db_Put (\<lambda>n. None) (\<lambda>xs. xs) sample_marshal (sample_stmt ''Qa'') empty_db);
       db2 = snd (db_MergeBatch (\<lambda>n. None) (\<lambda>xs. xs) sample_marshal [sample_stmt ''Qb''] db1);
       db3 = snd (db_PutBatch (\<lambda>n. None) (\<lambda>xs. xs) sample_marshal [sample_stmt ''Qb''] db2)
   in fst (db_Get (\<lambda>n. None) sample_unmarshal ''Qa'' db3) = Ok (sample_stmt ''Qa'')"
proof -
  let ?p = "db_Put (\<lambda>n. None) (\<lambda>xs. xs) sample_marshal (sample_stmt ''Qa'') empty_db"
  let ?m = "db_MergeBatch (\<lambda>n. None) (\<lambda>xs. xs) sample_marshal [sample_stmt ''Qb''] (snd ?p)"
  let ?b = "db_PutBatch (\<lambda>n. None) (\<lambda>xs. xs) sample_marshal [sample_stmt ''Qb''] (snd ?m)"
  have "fst ?p = Ok ()" by code_simp
  then have "?p = (Ok (), snd ?p)" by (metis prod.collapse)
  from db_get_after_put [of sample_marshal sample_unmarshal, OF sample_roundtrip this, of "[sample_stmt ''Qb'']" "fst ?m" "snd ?m"
      "[sample_stmt ''Qb'']" "fst ?b" "snd ?b"]
  show ?thesis by (simp add: Let_def sample_stmt_def)
qed

text \<open>MergeBatch returns the number of statements that were new, stores exactly them beside what was
  there, and merging the same batch again returns 0 and changes nothing.\<close>

theorem db_merge_batch_counts:
  assumes "db_MergeBatch fl rord marshal sts db = (Ok c, db1)" "db_MergeBatch fl rord marshal sts db1 = (Ok c2, db2)"
  shows "c = int (card (Id ` set sts - dom (stored db))) \<and> dom (stored db1) = dom (stored db) \<union> Id ` set sts \<and>
    stored db \<subseteq>\<^sub>m stored db1 \<and> c2 = 0 \<and> stored db2 = stored db1"
  using sqlite.merge_count [OF assms(1)] sqlite.merge_again [OF assms] by blast

theorem db_merge_batch_counts_witness:
  "\<exists>c. fst (db_MergeBatch (\<lambda>n. None) (\<lambda>xs. xs) sample_marshal [sample_stmt ''Qb'', sample_stmt ''Qa'', sample_stmt ''Qb''] empty_db) = Ok c \<and>
    c = int (card (Id ` set [sample_stmt ''Qb'', sample_stmt ''Qa'', sample_stmt ''Qb''] - dom (stored empty_db))) \<and> c = 2"
proof -
  let ?sts = "[sample_stmt ''Qb'', sample_stmt ''Qa'', sample_stmt ''Qb'']"
  let ?m = "db_MergeBatch (\<lambda>n. None) (\<lambda>xs. xs) sample_marshal ?sts empty_db"
  let ?m2 = "db_MergeBatch (\<lambda>n. None) (\<lambda>xs. xs) sample_marshal ?sts (snd ?m)"
  have 1: "fst ?m = Ok 2" "fst ?m2 = Ok 0" by code_simp+
  then have "?m = (Ok 2, snd ?m)" "?m2 = (Ok 0, snd ?m2)" by (metis prod.collapse)+
  from db_merge_batch_counts [OF this] 1 show ?thesis by simp
qed

text \<open>DELETE removes from all three tables exactly the rows of the ids that the compiled SELECT
  streamed, keeps every other row, and returns the number of ids streamed.\<close>

theorem db_delete_exact:
  assumes "db_Delete fl eng unmarshal q db = (Ok c, db')"
  shows "\<exists>ids. db_QueryStream eng unmarshal q db = Ok (map (SVal \<circ> RString) ids) \<and> c = int (length ids) \<and>
    t_stmt (db_tables db') = filter (\<lambda>r. fst r \<notin> set ids) (t_stmt (db_tables db)) \<and>
    t_env (db_tables db') = filter (\<lambda>r. e_id r \<notin> set ids) (t_env (db_tables db)) \<and>
    t_refs (db_tables db') = filter (\<lambda>r. fst r \<notin> set ids) (t_refs (db_tables db))"
proof -
  have items: "string_items items = Some ids \<Longrightarrow> items = map (SVal \<circ> RString) ids" for items ids
    by (induction items arbitrary: ids rule: string_items.induct) auto
  from assms show ?thesis
    by (rule Delete_Ok) (auto simp: fold_delete_tables dest: items)
qed

definition sample_engine :: engine where
  "sample_engine = (\<lambda>sq t. Ok ([\<lambda>dests. Ok [CString ''Qa'']], None))"

theorem db_delete_exact_witness:
  "let q = empty_query\<lparr>q_Op := OpDelete, q_namespace := ''*'', q_selector := Some (SimpleSelector ''id'')\<rparr>;
       db = snd (db_Put (\<lambda>n. None) (\<lambda>xs. xs) sample_marshal (sample_stmt ''Qa'') empty_db);
       db' = snd (db_Delete (\<lambda>n. None) sample_engine sample_unmarshal q db)
   in t_refs (db_tables db) = [(''Qa'', ''r'')] \<and> t_refs (db_tables db') = []"
proof -
  let ?q = "empty_query\<lparr>q_Op := OpDelete, q_namespace := ''*'', q_selector := Some (SimpleSelector ''id'')\<rparr>"
  let ?db = "snd (db_Put (\<lambda>n. None) (\<lambda>xs. xs) sample_marshal (sample_stmt ''Qa'') empty_db)"
  let ?d = "db_Delete (\<lambda>n. None) sample_engine sample_unmarshal ?q ?db"
  have 1: "fst ?d = Ok 1" "t_refs (db_tables ?db) = [(''Qa'', ''r'')]"
    "(case db_QueryStream sample_engine sample_unmarshal ?q ?db of Ok items \<Rightarrow> string_items items | _ \<Rightarrow> None) = Some [''Qa'']"
    by code_simp+
  have items: "string_items (map (SVal \<circ> RString) ids) = Some ids" for ids by (induction ids) simp_all
  from 1(1) have "?d = (Ok 1, snd ?d)" by (metis prod.collapse)
  from db_delete_exact [OF this] 1(2,3) show ?thesis by (auto simp: Let_def items)
qed

text \<open>An engine that stops the iteration with an error after the first of two rows: Delete commits what it has read so far and reports success.\<close>

definition stopped_engine :: engine where
  "stopped_engine = (\<lambda>sq t. Ok ([\<lambda>dests. Ok [CString ''Qa'']], Some (engine_error ''disk I/O error'')))"

theorem delete_stops_early:
  "let q = empty_query\<lparr>q_Op := OpDelete, q_namespace := ''*'', q_selector := Some (SimpleSelector ''id'')\<rparr>;
       db = snd (db_PutBatch (\<lambda>n. None) (\<lambda>xs. xs) sample_marshal [sample_stmt ''Qa'', sample_stmt ''Qb''] empty_db);
       r = db_Delete (\<lambda>n. None) stopped_engine sample_unmarshal q db
   in fst r = Ok 1 \<and> t_stmt (db_tables db) = [(''Qa'', ''1''), (''Qb'', ''2'')] \<and> t_stmt (db_tables (snd r)) = [(''Qb'', ''2'')]"
  by code_simp

section \<open>Success without faults\<close>

lemma mergeOne_total:
  assumes "StatementSource st = Ok src" "StatementRefs st = Ok refs" "marshal st = Some bytes" "stmt_ids t = env_ids t"
  shows "\<exists>n'. mergeOne (\<lambda>n. None) rord marshal st (Active t, n) =
    (if Id st \<in> stmt_ids t then (Ok False, Active t, n') else (Ok True, Active (put_tables rord bytes src refs st t), n'))"
proof (cases "Id st \<in> stmt_ids t")
  case True
  with assms(3) show ?thesis
    by (simp add: mergeOne_def tx_bind_def tx_lift_def or_rollback_def Exec_def insertStmtData_def stmt_ids_def tx_return_def)
next
  case False
  with assms obtain n' where "tx_bind (or_rollback (Exec (\<lambda>n. None) (insertStmtData (Id st) bytes))) (\<lambda>_. insertMeta (\<lambda>n. None) rord st) (Active t, n) =
      (Ok (), Active (put_tables rord bytes src refs st t), n')"
    using insertAll_total [of st src refs t bytes rord n] by auto
  moreover have "insertStmtData (Id st) bytes t = Ok (t\<lparr>t_stmt := t_stmt t @ [(Id st, bytes)]\<rparr>)"
    using False by (simp add: insertStmtData_def stmt_ids_def)
  ultimately show ?thesis using assms(3) False
    by (simp add: mergeOne_def tx_bind_def tx_lift_def or_rollback_def Exec_def tx_return_def)
qed

lemma mergeLoop_total:
  assumes "\<And>st. st \<in> set sts \<Longrightarrow> bodies_set st \<and> (\<exists>b. marshal st = Some b)" "tables_ok t"
  shows "\<exists>c' t' n'. mergeLoop (\<lambda>n. None) rord marshal c sts (Active t, n) = (Ok c', Active t', n')"
  using assms
proof (induction sts arbitrary: c t n)
  case (Cons st sts)
  from Cons.prems(1) obtain b where b: "bodies_set st" "marshal st = Some b" by auto
  obtain src where src: "StatementSource st = Ok src" using StatementSource_Ok [OF b(1)] by blast
  obtain refs where refs: "StatementRefs st = Ok refs" using StatementRefs_Ok [OF b(1)] by blast
  obtain n' where m: "mergeOne (\<lambda>n. None) rord marshal st (Active t, n) =
      (if Id st \<in> stmt_ids t then (Ok False, Active t, n') else (Ok True, Active (put_tables rord b src refs st t), n'))"
    using mergeOne_total [of st src refs marshal b t rord n] src refs b(2) Cons.prems(2) unfolding tables_ok_def by blast
  have ok: "tables_ok (if Id st \<in> stmt_ids t then t else put_tables rord b src refs st t)"
    using Cons.prems(2) by (simp add: put_tables_ok)
  have "\<exists>c' t' n''. mergeLoop (\<lambda>n. None) rord marshal c1 sts (Active (if Id st \<in> stmt_ids t then t else put_tables rord b src refs st t), n') =
      (Ok c', Active t', n'')" for c1
    using Cons.IH [OF _ ok] Cons.prems(1) by simp
  with m show ?case by (auto simp: tx_bind_def split: if_splits)
qed (simp add: tx_return_def)

text \<open>Without engine faults a batch of statements whose bodies are set is always merged, over any consistent
  database: no panic and no error, duplicates and statements that are stored included.\<close>

theorem db_merge_batch_succeeds:
  assumes "\<And>st. st \<in> set sts \<Longrightarrow> bodies_set st \<and> (\<exists>b. marshal st = Some b)" "tables_ok (db_tables db)" "db_open db = 0"
  shows "\<exists>db'. db_MergeBatch (\<lambda>n. None) rord marshal sts db = (Ok (int (card (Id ` set sts - dom (stored db)))), db')"
proof -
  obtain c t n where "mergeLoop (\<lambda>n. None) rord marshal 0 sts (Active (db_tables db), Suc (db_time db)) = (Ok c, Active t, n)"
    using mergeLoop_total [OF assms(1,2)] by blast
  then have "\<exists>db'. db_MergeBatch (\<lambda>n. None) rord marshal sts db = (Ok c, db')"
    using assms(3) by (simp add: db_MergeBatch_def with_tx_def tx_bind_def commit_return_def Commit_def tx_return_def)
  then show ?thesis using sqlite.merge_count(1) by blast
qed

theorem db_merge_batch_succeeds_witness:
  "\<exists>db'. db_MergeBatch (\<lambda>n. None) rev sample_marshal [sample_stmt ''Qb'', sample_stmt ''Qb'', sample_stmt ''Qa''] empty_db = (Ok 2, db')"
proof -
  let ?sts = "[sample_stmt ''Qb'', sample_stmt ''Qb'', sample_stmt ''Qa'']"
  have 1: "\<And>st. st \<in> set ?sts \<Longrightarrow> bodies_set st \<and> (\<exists>b. sample_marshal st = Some b)"
    by (auto simp: sample_marshal_def sample_stmt_def)
  have 2: "card (Id ` set ?sts - dom (stored empty_db)) = 2"
    by (simp add: sample_stmt_def stored_def empty_db_def)
  show ?thesis using db_merge_batch_succeeds [where sts = ?sts and rord = rev, OF 1 empty_db_ok empty_db_open] unfolding 2 by simp
qed

end
