(* ===== verification/Json.thy ===== *)
theory Json
  imports Prelude "HOL-Library.AList"
begin

text \<open>
  What the sources use of \<open>encoding/json\<close> and \<open>encoding/base64\<close>: JSON values and the fields of
  a struct, the strings that survive the encoding, and standard base64. A JSON text is represented by the
  value it stands for.
\<close>

section \<open>Values\<close>

text \<open>An object is the list of its members. A number is kept as its text.\<close>

datatype json = JNull | JBool bool | JNum string | JStr string | JArr "json list" | JObj "(string \<times> json) list"

definition json_err :: "string \<Rightarrow> 'a outcome" where
  "json_err what = Err (ExtErr (''json: '' @ what))"

lemma json_err_not_Ok [simp]: "json_err what \<noteq> Ok x"
  by (simp add: json_err_def)

text \<open>A new key of an association list goes to its end.\<close>

lemma update_new: "map_of xs k = None \<Longrightarrow> AList.update k v xs = xs @ [(k, v)]"
  by (induction xs) (auto split: if_splits)

lemma omap_map_back: "\<forall>x \<in> set xs. f (g x) = Ok x \<Longrightarrow> omap f (map g xs) = Ok xs"
  by (induction xs) auto

section \<open>Fields of structs\<close>

definition lower_char :: "char \<Rightarrow> char" where
  "lower_char c = (let n = (of_char c :: nat) in if 65 \<le> n \<and> n \<le> 90 then char_of (n + 32) else c)"

text \<open>
  The members of an object that set a field: the name is compared ignoring the case (of ASCII), a null sets nothing.
  Every one is decoded, and the last one counts.
\<close>

definition json_fields :: "string \<Rightarrow> (string \<times> json) list \<Rightarrow> json list" where
  "json_fields name obj =
     map snd (filter (\<lambda>(k, v). map lower_char k = map lower_char name \<and> v \<noteq> JNull) obj)"

definition get_field :: "(json \<Rightarrow> 'a outcome) \<Rightarrow> 'a \<Rightarrow> string \<Rightarrow> (string \<times> json) list \<Rightarrow> 'a outcome" where
  "get_field dec zero name obj =
     obind (omap dec (json_fields name obj)) (\<lambda>vs. Ok (if vs = [] then zero else last vs))"

fun dec_string :: "json \<Rightarrow> string outcome" where
  "dec_string (JStr s) = Ok s"
| "dec_string v = json_err ''cannot unmarshal into string''"

text \<open>An element that is null is the zero value.\<close>

fun dec_strings :: "json \<Rightarrow> string list outcome" where
  "dec_strings (JArr vs) = omap (\<lambda>v. if v = JNull then Ok [] else dec_string v) vs"
| "dec_strings v = json_err ''cannot unmarshal into []string''"

fun dec_object :: "json \<Rightarrow> (string \<times> json) list outcome" where
  "dec_object (JObj obj) = Ok obj"
| "dec_object v = json_err ''cannot unmarshal into map''"

text \<open>The member of a \<open>map[string]interface{}\<close>; nil for a missing one.\<close>

definition json_get :: "string \<Rightarrow> (string \<times> json) list \<Rightarrow> json" where
  "json_get k obj = (case map_of (rev obj) k of None \<Rightarrow> JNull | Some v \<Rightarrow> v)"

section \<open>Strings\<close>

text \<open>
  The encoder replaces every byte that is not part of a UTF-8 sequence by the replacement
  character U+FFFD. \<open>rune_len\<close> is the number of further bytes of the sequence at the front.
\<close>

definition in_range :: "nat \<Rightarrow> nat \<Rightarrow> nat \<Rightarrow> bool" where
  "in_range lo hi n = (lo \<le> n \<and> n \<le> hi)"

definition rune_len :: "nat list \<Rightarrow> nat option" where
  "rune_len bs =
     (case bs of
        [] \<Rightarrow> None
      | b0 # r \<Rightarrow>
          (if b0 < 128 then Some 0
           else if in_range 194 223 b0 \<and> list_all (in_range 128 191) (take 1 r) \<and> 1 \<le> length r then Some 1
           else if in_range 224 239 b0 \<and> 2 \<le> length r \<and>
             in_range (if b0 = 224 then 160 else 128) (if b0 = 237 then 159 else 191) (r ! 0) \<and> in_range 128 191 (r ! 1) then Some 2
           else if in_range 240 244 b0 \<and> 3 \<le> length r \<and>
             in_range (if b0 = 240 then 144 else 128) (if b0 = 244 then 143 else 191) (r ! 0) \<and> in_range 128 191 (r ! 1) \<and>
             in_range 128 191 (r ! 2) then Some 3
           else None))"

fun coerce_utf8 :: "string \<Rightarrow> string" where
  "coerce_utf8 [] = []"
| "coerce_utf8 (c # s) =
     (case rune_len (map of_char (take 4 (c # s))) of
        Some n \<Rightarrow> c # take n s @ coerce_utf8 (drop n s)
      | None \<Rightarrow> CHR 0xEF # CHR 0xBF # CHR 0xBD # coerce_utf8 s)"

definition valid_utf8 :: "string \<Rightarrow> bool" where
  "valid_utf8 s \<longleftrightarrow> coerce_utf8 s = s"

definition enc_string :: "string \<Rightarrow> json" where
  "enc_string s = JStr (coerce_utf8 s)"

definition is_ascii :: "string \<Rightarrow> bool" where
  "is_ascii s \<longleftrightarrow> (\<forall>c \<in> set s. (of_char c :: nat) < 128)"

lemma ascii_valid: "is_ascii s \<Longrightarrow> valid_utf8 s"
  unfolding valid_utf8_def by (induction s) (simp_all add: is_ascii_def rune_len_def)

text \<open>What was decoded once is valid from then on.\<close>

lemma enc_string_valid: "valid_utf8 s \<Longrightarrow> dec_string (enc_string s) = Ok s"
  by (simp add: enc_string_def valid_utf8_def)

section \<open>Base64\<close>

text \<open>
  \<open>base64.StdEncoding\<close>: groups of four characters for three bytes, the last one padded. The
  decoder skips line breaks and ignores left-over bits.
\<close>

definition b64_val :: "char \<Rightarrow> nat option" where
  "b64_val c = (let n = (of_char c :: nat) in
     if 65 \<le> n \<and> n \<le> 90 then Some (n - 65) else if 97 \<le> n \<and> n \<le> 122 then Some (n - 71)
     else if 48 \<le> n \<and> n \<le> 57 then Some (n + 4) else if n = 43 then Some 62 else if n = 47 then Some 63 else None)"

definition b64_char :: "nat \<Rightarrow> char" where
  "b64_char v = char_of (if v < 26 then v + 65 else if v < 52 then v + 71 else if v < 62 then v - 4 else if v = 62 then 43 else (47 :: nat))"

definition b64_error :: "'a outcome" where
  "b64_error = Err (ExtErr ''illegal base64 data'')"

definition b64_byte :: "nat \<Rightarrow> char" where
  "b64_byte n = char_of (n mod 256)"

fun b64_groups :: "string \<Rightarrow> string outcome" where
  "b64_groups [] = Ok []"
| "b64_groups (a # b # c # d # s) =
     (case (b64_val a, b64_val b) of
        (Some va, Some vb) \<Rightarrow>
          (case (b64_val c, b64_val d) of
             (Some vc, Some vd) \<Rightarrow>
               obind (b64_groups s) (\<lambda>bs.
                 Ok (b64_byte (va * 4 + vb div 16) # b64_byte (vb * 16 + vc div 4) # b64_byte (vc * 64 + vd) # bs))
           | (Some vc, None) \<Rightarrow>
               (if d = CHR ''='' \<and> s = [] then Ok [b64_byte (va * 4 + vb div 16), b64_byte (vb * 16 + vc div 4)] else b64_error)
           | (None, _) \<Rightarrow>
               (if c = CHR ''='' \<and> d = CHR ''='' \<and> s = [] then Ok [b64_byte (va * 4 + vb div 16)] else b64_error))
      | _ \<Rightarrow> b64_error)"
| "b64_groups s = b64_error"

definition b64_decode :: "string \<Rightarrow> string outcome" where
  "b64_decode s = b64_groups (filter (\<lambda>c. c \<noteq> CHR 0x0A \<and> c \<noteq> CHR 0x0D) s)"

fun b64_encode :: "string \<Rightarrow> string" where
  "b64_encode [] = []"
| "b64_encode [x] = (let n = of_char x in [b64_char (n div 4), b64_char (n mod 4 * 16), CHR ''='', CHR ''=''])"
| "b64_encode [x, y] = (let n = of_char x; m = of_char y in
     [b64_char (n div 4), b64_char (n mod 4 * 16 + m div 16), b64_char (m mod 16 * 4), CHR ''=''])"
| "b64_encode (x # y # z # s) = (let n = of_char x; m = of_char y; k = of_char z in
     b64_char (n div 4) # b64_char (n mod 4 * 16 + m div 16) # b64_char (m mod 16 * 4 + k div 64) # b64_char (k mod 64) # b64_encode s)"

lemma b64_val_char: "v < 64 \<Longrightarrow> b64_val (b64_char v) = Some v"
  by (auto simp: b64_val_def b64_char_def Let_def split: if_splits)

lemma b64_char_clean: "v < 64 \<Longrightarrow> b64_char v \<noteq> CHR 0x0A" "v < 64 \<Longrightarrow> b64_char v \<noteq> CHR 0x0D" "v < 64 \<Longrightarrow> b64_char v \<noteq> CHR ''=''"
proof -
  have "b64_val (CHR 0x0A) = None" "b64_val (CHR 0x0D) = None" "b64_val (CHR ''='') = None" by (simp_all add: b64_val_def)
  then show "v < 64 \<Longrightarrow> b64_char v \<noteq> CHR 0x0A" "v < 64 \<Longrightarrow> b64_char v \<noteq> CHR 0x0D" "v < 64 \<Longrightarrow> b64_char v \<noteq> CHR ''=''"
    using b64_val_char [of v] by auto
qed

text \<open>The six-bit parts of a group of bytes, and the bytes they give.\<close>

lemma b64_parts:
  fixes n m k :: nat
  shows "n < 256 \<Longrightarrow> n div 4 < 64" "m < 256 \<Longrightarrow> n mod 4 * 16 + m div 16 < 64" "k < 256 \<Longrightarrow> m mod 16 * 4 + k div 64 < 64"
    "k mod 64 < 64" "n mod 4 * 16 < 64" "m mod 16 * 4 < 64"
  by linarith+

lemma b64_first: "m < 256 \<Longrightarrow> n div 4 * 4 + (n mod 4 * 16 + m div 16) div 16 = n" "n div 4 * 4 + n mod 4 * 16 div 16 = n" for n m :: nat
proof -
  show "n div 4 * 4 + n mod 4 * 16 div 16 = n" by simp
  assume "m < 256"
  then have "(n mod 4 * 16 + m div 16) div 16 = n mod 4" by linarith
  then show "n div 4 * 4 + (n mod 4 * 16 + m div 16) div 16 = n" by simp
qed

lemma b64_second:
  fixes n m k :: nat
  assumes "m < 256"
  shows "k < 256 \<Longrightarrow> ((n mod 4 * 16 + m div 16) * 16 + (m mod 16 * 4 + k div 64) div 4) mod 256 = m"
    "((n mod 4 * 16 + m div 16) * 16 + m mod 16 * 4 div 4) mod 256 = m"
proof -
  have "(n mod 4 * 16 + m div 16) * 16 + m mod 16 = n mod 4 * 256 + m" by (simp add: algebra_simps)
  with assms have *: "((n mod 4 * 16 + m div 16) * 16 + m mod 16) mod 256 = m" by simp
  then show "((n mod 4 * 16 + m div 16) * 16 + m mod 16 * 4 div 4) mod 256 = m" by simp
  assume "k < 256"
  then have "(m mod 16 * 4 + k div 64) div 4 = m mod 16" by linarith
  with * show "((n mod 4 * 16 + m div 16) * 16 + (m mod 16 * 4 + k div 64) div 4) mod 256 = m" by simp
qed

lemma b64_third: "k < 256 \<Longrightarrow> ((m mod 16 * 4 + k div 64) * 64 + k mod 64) mod 256 = k" for m k :: nat
proof -
  assume "k < 256"
  have "(m mod 16 * 4 + k div 64) * 64 + k mod 64 = m mod 16 * 256 + k" by (simp add: algebra_simps)
  with \<open>k < 256\<close> show ?thesis by simp
qed

lemma b64_byte_eq: "n mod 256 = of_char x \<Longrightarrow> b64_byte n = x"
  by (simp add: b64_byte_def)

lemmas b64_simps = Let_def b64_val_char b64_char_clean b64_parts b64_first b64_second b64_third b64_byte_eq

lemma b64_rest: "(of_char y :: nat) div 16 div 16 = 0" "(of_char z :: nat) div 64 div 4 = 0"
  "b64_byte (of_char x) = x" "b64_byte (of_char x + 256 * n) = x"
  using nat_of_char_less_256 [of y] nat_of_char_less_256 [of z] by (simp_all add: div_mult2_eq [symmetric] b64_byte_def)

lemma b64_pad: "b64_val (CHR ''='') = None"
  by (simp add: b64_val_def)

lemma b64_encode_clean: "filter (\<lambda>c. c \<noteq> CHR 0x0A \<and> c \<noteq> CHR 0x0D) (b64_encode s) = b64_encode s"
  by (induction s rule: b64_encode.induct) (simp_all add: b64_simps)

lemma b64_roundtrip: "b64_decode (b64_encode s) = Ok s"
proof -
  have "b64_groups (b64_encode s) = Ok s"
    by (induction s rule: b64_encode.induct) (simp_all add: b64_simps b64_pad b64_rest)
  then show ?thesis by (simp add: b64_decode_def b64_encode_clean)
qed

end
