(* ===== verification/Entity.thy ===== *)
theory Entity
  imports Json
begin

text \<open>
  Entities and their keys (\<open>mc/entity.go\<close>): the form of an entity id, and looking up the public key
  of an entity with one of the identity providers. What the providers answer, the multihash
  library and the key format are parameters, in the record \<open>entity_env\<close>.
\<close>

section \<open>Entity ids\<close>

definition urx_char :: "char \<Rightarrow> bool" where
  "urx_char c = (let n = (of_char c :: nat) in
     (97 \<le> n \<and> n \<le> 122) \<or> (65 \<le> n \<and> n \<le> 90) \<or> (48 \<le> n \<and> n \<le> 57) \<or> n = 46 \<or> n = 45)"

definition urx :: "string \<Rightarrow> bool" where
  "urx user = (user \<noteq> [] \<and> list_all urx_char user)"

definition providers :: "string list" where
  "providers = [''blockstack'', ''keybase'']"

definition CheckEntityId :: "string \<Rightarrow> unit outcome" where
  "CheckEntityId entity =
     (case Index entity (CHR '':'') of
        None \<Rightarrow> Err MalformedEntityId
      | Some ix \<Rightarrow>
          (if \<not> urx (drop (Suc ix) entity) then Err MalformedEntityId
           else if take ix entity \<notin> set providers then Err UnknownIdProvider
           else Ok ()))"

section \<open>Providers\<close>

text \<open>
  The result of the command \<open>blockstack\<close>: the JSON value it writes (\<open>None\<close> when it is no JSON), a failure
  with a message, or an error of running it. The answer of the Keybase server: its status code, status line and
  JSON body.
\<close>

datatype exec_result = ExecOut "json option" | ExecExit string | ExecErr go_error

record 'k entity_env =
  ee_FromB58 :: "string \<Rightarrow> string outcome"
  ee_Sum :: "string \<Rightarrow> char \<Rightarrow> string outcome"
  ee_UnmarshalKey :: "string \<Rightarrow> 'k outcome"
  ee_exec :: "string \<Rightarrow> exec_result"
  ee_get :: "string \<Rightarrow> (int \<times> string \<times> json option) outcome"

definition entityKeyNotFound :: "string \<Rightarrow> go_error" where
  "entityKeyNotFound what = EntityKeyNotFound (''Entity key not found: '' @ what)"

text \<open>\<open>Sum\<close> is called with the family of the expected hash, its first byte.\<close>

definition unmarshalEntityKeyBytes :: "'k entity_env \<Rightarrow> string \<Rightarrow> string \<Rightarrow> 'k outcome" where
  "unmarshalEntityKeyBytes env key khash =
     (case khash of
        [] \<Rightarrow> Panic ''index out of range''
      | code # r \<Rightarrow>
          obind (ee_Sum env key code) (\<lambda>hash.
          if hash \<noteq> khash then Err (entityKeyNotFound ''Key hash mismatch'')
          else ee_UnmarshalKey env key))"

definition unmarshalEntityKey :: "'k entity_env \<Rightarrow> string \<Rightarrow> string \<Rightarrow> 'k outcome" where
  "unmarshalEntityKey env key khash = obind (b64_decode key) (\<lambda>data. unmarshalEntityKeyBytes env data khash)"

text \<open>
  The loop over the accounts: the first one of the service \<open>mediachain\<close> decides; without a
  text identifier it ends the loop.
\<close>

fun findAccount :: "json list \<Rightarrow> string option" where
  "findAccount [] = None"
| "findAccount (acct # accts) =
     (case acct of
        JObj xacct \<Rightarrow>
          (case json_get ''service'' xacct of
             JStr svc \<Rightarrow>
               (if svc \<noteq> ''mediachain'' then findAccount accts
                else (case json_get ''identifier'' xacct of JStr key \<Rightarrow> Some key | _ \<Rightarrow> None))
           | _ \<Rightarrow> findAccount accts)
      | _ \<Rightarrow> findAccount accts)"

definition profileKey :: "(string \<times> json) list \<Rightarrow> string outcome" where
  "profileKey res =
     (case json_get ''profile'' res of
        JObj prof \<Rightarrow>
          (case json_get ''account'' prof of
             JArr accts \<Rightarrow>
               (case findAccount accts of
                  Some key \<Rightarrow> Ok key
                | None \<Rightarrow> Err (entityKeyNotFound ''No mediachain account in blockstack profile''))
           | _ \<Rightarrow> Err (entityKeyNotFound ''Missing or malformed blockstack account list''))
      | _ \<Rightarrow> Err (entityKeyNotFound ''Missing or malformed blockstack profile''))"

definition runBlockstack :: "'k entity_env \<Rightarrow> string \<Rightarrow> json outcome" where
  "runBlockstack env user =
     (case ee_exec env user of
        ExecExit stderr \<Rightarrow> Err (ExtErr (''blockstack error: '' @ stderr))
      | ExecErr e \<Rightarrow> Err e
      | ExecOut None \<Rightarrow> json_err ''invalid''
      | ExecOut (Some out) \<Rightarrow> Ok out)"

definition lookupBlockstack :: "'k entity_env \<Rightarrow> string \<Rightarrow> string \<Rightarrow> 'k outcome" where
  "lookupBlockstack env user keyId =
     obind (ee_FromB58 env keyId) (\<lambda>khash.
     obind (runBlockstack env user) (\<lambda>out.
     obind (if out = JNull then Ok [] else dec_object out) (\<lambda>res.
     obind (profileKey res) (\<lambda>key. unmarshalEntityKey env key khash))))"

text \<open>\<open>EntityId\<close>: the id of a key and its bytes, which are base64 in JSON.\<close>

record EntityId =
  ei_KeyId :: string
  ei_Key :: string

fun dec_bytes :: "json \<Rightarrow> string outcome" where
  "dec_bytes (JStr s) = b64_decode s"
| "dec_bytes v = json_err ''cannot unmarshal into []byte''"

definition dec_EntityId :: "json \<Rightarrow> EntityId outcome" where
  "dec_EntityId v =
     (if v = JNull then Ok \<lparr>ei_KeyId = [], ei_Key = []\<rparr>
      else obind (dec_object v) (\<lambda>obj.
           obind (get_field dec_string [] ''keyId'' obj) (\<lambda>kid.
           obind (get_field dec_bytes [] ''key'' obj) (\<lambda>key. Ok \<lparr>ei_KeyId = kid, ei_Key = key\<rparr>))))"

definition enc_EntityId :: "EntityId \<Rightarrow> json" where
  "enc_EntityId e = JObj [(''keyId'', enc_string (ei_KeyId e)), (''key'', JStr (b64_encode (ei_Key e)))]"

definition lookupKeybase :: "'k entity_env \<Rightarrow> string \<Rightarrow> string \<Rightarrow> 'k outcome" where
  "lookupKeybase env user keyId =
     obind (ee_FromB58 env keyId) (\<lambda>khash.
     obind (ee_get env (''https://'' @ user @ ''.keybase.pub/mediachain.json'')) (\<lambda>(status, line, body).
     if status = 404 then Err (entityKeyNotFound ''Error retrieving mediachain id from keybase: 404 Not Found'')
     else if status \<noteq> 200 then Err (ExtErr (''keybase error: '' @ int_str status @ '' '' @ line))
     else (case body of
             None \<Rightarrow> json_err ''invalid''
           | Some v \<Rightarrow>
               obind (dec_EntityId v) (\<lambda>pub.
               if ei_KeyId pub \<noteq> keyId then Err (entityKeyNotFound ''Key id mismatch'')
               else unmarshalEntityKeyBytes env (ei_Key pub) khash))))"

definition LookupEntityKey :: "'k entity_env \<Rightarrow> string \<Rightarrow> string \<Rightarrow> 'k outcome" where
  "LookupEntityKey env entity keyId =
     obind (CheckEntityId entity) (\<lambda>_.
     (case Index entity (CHR '':'') of
        None \<Rightarrow> Panic ''slice bounds out of range''
      | Some ix \<Rightarrow>
          (if take ix entity = ''blockstack'' then lookupBlockstack env (drop (Suc ix) entity) keyId
           else if take ix entity = ''keybase'' then lookupKeybase env (drop (Suc ix) entity) keyId
           else Panic ''nil function'')))"

section \<open>Correctness\<close>

lemma CheckEntityId_iff:
  "CheckEntityId entity = Ok () \<longleftrightarrow> (\<exists>prov user. entity = prov @ '':'' @ user \<and> prov \<in> set providers \<and> urx user)"
proof
  assume "CheckEntityId entity = Ok ()"
  then obtain ix where ix: "Index entity (CHR '':'') = Some ix" "urx (drop (Suc ix) entity)" "take ix entity \<in> set providers"
    by (auto simp: CheckEntityId_def simp del: Index_None split: option.splits if_splits)
  from Index_Some [OF ix(1)] have "entity = take ix entity @ '':'' @ drop (Suc ix) entity" by simp
  with ix show "\<exists>prov user. entity = prov @ '':'' @ user \<and> prov \<in> set providers \<and> urx user" by blast
next
  assume "\<exists>prov user. entity = prov @ '':'' @ user \<and> prov \<in> set providers \<and> urx user"
  then obtain prov user where e: "entity = prov @ '':'' @ user" "prov \<in> set providers" "urx user" by blast
  from e(2) have "CHR '':'' \<notin> set prov" by (auto simp: providers_def)
  from Index_append [OF this, of user] e show "CheckEntityId entity = Ok ()" by (simp add: CheckEntityId_def)
qed

text \<open>The key of an entity id that a provider stands for: some bytes with the expected hash decode to it.\<close>

definition key_of_hash :: "'k entity_env \<Rightarrow> string \<Rightarrow> 'k \<Rightarrow> bool" where
  "key_of_hash env keyId k \<longleftrightarrow>
     (\<exists>khash bytes code r. ee_FromB58 env keyId = Ok khash \<and> khash = code # r \<and>
        ee_Sum env bytes code = Ok khash \<and> ee_UnmarshalKey env bytes = Ok k)"

lemma unmarshalEntityKeyBytes_Ok:
  assumes "unmarshalEntityKeyBytes env key khash = Ok k" "ee_FromB58 env keyId = Ok khash"
  shows "key_of_hash env keyId k"
  using assms unfolding unmarshalEntityKeyBytes_def key_of_hash_def by (force split: list.splits if_splits)

lemma lookupBlockstack_Ok: "lookupBlockstack env user keyId = Ok k \<Longrightarrow> key_of_hash env keyId k"
  by (auto simp: lookupBlockstack_def unmarshalEntityKey_def intro: unmarshalEntityKeyBytes_Ok)

lemma lookupKeybase_Ok: "lookupKeybase env user keyId = Ok k \<Longrightarrow> key_of_hash env keyId k"
  by (auto simp: lookupKeybase_def intro: unmarshalEntityKeyBytes_Ok split: option.splits if_splits)

text \<open>C31: A key that is found for an entity is the one its key id names, whatever the providers answer: it is decoded from
  bytes that hash to the key id, and the entity id is a known provider and a user name.\<close>

theorem entity_key_matches:
  assumes "LookupEntityKey env entity keyId = Ok k"
  shows "key_of_hash env keyId k \<and> (\<exists>prov user. entity = prov @ '':'' @ user \<and> prov \<in> set providers \<and> urx user)"
proof
  from assms show "key_of_hash env keyId k"
    by (auto simp: LookupEntityKey_def intro: lookupBlockstack_Ok lookupKeybase_Ok split: option.splits if_splits)
  from assms have "CheckEntityId entity = Ok ()" by (auto simp: LookupEntityKey_def)
  then show "\<exists>prov user. entity = prov @ '':'' @ user \<and> prov \<in> set providers \<and> urx user" by (simp add: CheckEntityId_iff)
qed

text \<open>
  When the hashes are collision free on the answers, what a provider publishes in the documented form
  is found: here for Keybase.
\<close>

lemma dec_enc_EntityId: "valid_utf8 (ei_KeyId e) \<Longrightarrow> dec_EntityId (enc_EntityId e) = Ok e"
  by (simp add: dec_EntityId_def enc_EntityId_def get_field_def json_fields_def lower_char_def enc_string_def
      valid_utf8_def b64_roundtrip)

lemma lookupKeybase_finds:
  assumes "ee_FromB58 env keyId = Ok (code # r)" "ee_Sum env key code = Ok (code # r)" "ee_UnmarshalKey env key = Ok k"
    and "valid_utf8 keyId"
    and "ee_get env (''https://'' @ user @ ''.keybase.pub/mediachain.json'') = Ok (200, ''200 OK'', Some (enc_EntityId \<lparr>ei_KeyId = keyId, ei_Key = key\<rparr>))"
  shows "lookupKeybase env user keyId = Ok k"
  using assms by (simp add: lookupKeybase_def dec_enc_EntityId unmarshalEntityKeyBytes_def)

text \<open>Providers for the witness: a hash is a family and the bytes.\<close>

definition sample_providers :: "string entity_env" where
  "sample_providers = \<lparr>ee_FromB58 = (\<lambda>s. Ok s), ee_Sum = (\<lambda>key code. Ok (code # key)), ee_UnmarshalKey = (\<lambda>b. Ok b),
     ee_exec = (\<lambda>user. ExecOut (Some (JObj [(''profile'', JObj [(''account'',
       JArr [JNull, JObj [(''service'', JStr ''twitter'')], JObj [(''service'', JStr ''mediachain''), (''identifier'', JStr (b64_encode ''abc''))]])])]))),
     ee_get = (\<lambda>url. Ok (200, ''200 OK'', Some (enc_EntityId \<lparr>ei_KeyId = ''Qabc'', ei_Key = ''abc''\<rparr>)))\<rparr>"

theorem entity_key_matches_witness:
  "key_of_hash sample_providers ''Qabc'' ''abc'' \<and>
   (\<exists>prov user. ''blockstack:vyzo.id'' = prov @ '':'' @ user \<and> prov \<in> set providers \<and> urx user)"
proof -
  have "LookupEntityKey sample_providers ''blockstack:vyzo.id'' ''Qabc'' = Ok ''abc''" by code_simp
  from entity_key_matches [OF this] show ?thesis .
qed

end
