(* ===== verification/Manifest.thy ===== *)
theory Manifest
  imports Entity
begin

text \<open>
  Manifests, statements of an entity about its nodes (\<open>proto/manifest.pb.go\<close>), and the
  directory's store of them (\<open>mcdir/mfs.go\<close>). The store only keeps manifests that verify under a key of
  their entity. Parameters: the encoding of a manifest, the digest and the text of a multihash, the signature
  check, and the looking up of keys of \<open>Entity\<close>.
\<close>

section \<open>Messages\<close>

record node_manifest =
  nm_Peer :: string
  nm_Publisher :: string

text \<open>\<open>ManifestBody\<close> has one alternative; nil bodies and an unset alternative are options.\<close>

datatype manifest_body = ManifestBody "node_manifest option"

record manifest =
  mf_Entity :: string
  mf_KeyId :: string
  mf_Body :: "manifest_body option"
  mf_Timestamp :: int
  mf_Signature :: "string option"

record 'k manifest_lib =
  ml_marshal :: "manifest \<Rightarrow> string outcome"
  ml_hash58 :: "string \<Rightarrow> string"
  ml_verify :: "'k \<Rightarrow> string \<Rightarrow> string option \<Rightarrow> bool outcome"

definition hashManifest :: "'k manifest_lib \<Rightarrow> manifest \<Rightarrow> string outcome" where
  "hashManifest ml mf = obind (ml_marshal ml mf) (\<lambda>bytes. Ok (ml_hash58 ml bytes))"

definition verifyManifest :: "'k manifest_lib \<Rightarrow> manifest \<Rightarrow> 'k \<Rightarrow> bool outcome" where
  "verifyManifest ml mf pubk =
     obind (ml_marshal ml (mf\<lparr>mf_Signature := None\<rparr>)) (\<lambda>bytes. ml_verify ml pubk bytes (mf_Signature mf))"

section \<open>The store\<close>

record 'p manifest_record =
  mr_mf :: manifest
  mr_src :: 'p

record ('p, 'k) manifest_store =
  ms_mf :: "(string \<times> 'p manifest_record) list"
  ms_keys :: "(string \<times> 'k) list"

definition NewManifestStore :: "('p, 'k) manifest_store" where
  "NewManifestStore = \<lparr>ms_mf = [], ms_keys = []\<rparr>"

text \<open>
  The lock of the store is released while a key is looked up: \<open>others\<close> is what other
  goroutines do to the store in between.
\<close>

definition manifestKey ::
  "'k entity_env \<Rightarrow> (('p, 'k) manifest_store \<Rightarrow> ('p, 'k) manifest_store) \<Rightarrow> manifest \<Rightarrow> ('p, 'k) manifest_store \<Rightarrow>
   'k outcome \<times> ('p, 'k) manifest_store" where
  "manifestKey env others mf s =
     (let kid = mf_Entity mf @ '':'' @ mf_KeyId mf in
      case map_of (ms_keys s) kid of
        Some pubk \<Rightarrow> (Ok pubk, s)
      | None \<Rightarrow>
          (case LookupEntityKey env (mf_Entity mf) (mf_KeyId mf) of
             Ok pubk \<Rightarrow> (Ok pubk, (others s)\<lparr>ms_keys := AList.update kid pubk (ms_keys (others s))\<rparr>)
           | Err e \<Rightarrow> (Err e, others s)
           | Panic m \<Rightarrow> (Panic m, others s)))"

text \<open>A run-time panic ends the directory; the store is then as it was.\<close>

definition putManifest ::
  "'k manifest_lib \<Rightarrow> 'k entity_env \<Rightarrow> (('p, 'k) manifest_store \<Rightarrow> ('p, 'k) manifest_store) \<Rightarrow> 'p \<Rightarrow> manifest \<Rightarrow>
   ('p, 'k) manifest_store \<Rightarrow> ('p, 'k) manifest_store" where
  "putManifest ml env others src mf s =
     (case hashManifest ml mf of
        Ok mfh \<Rightarrow>
          (if map_of (ms_mf s) mfh \<noteq> None then s
           else (case manifestKey env others mf s of
                   (Ok pubk, s') \<Rightarrow>
                     (case verifyManifest ml mf pubk of
                        Ok True \<Rightarrow> s'\<lparr>ms_mf := AList.update mfh \<lparr>mr_mf = mf, mr_src = src\<rparr> (ms_mf s')\<rparr>
                      | _ \<Rightarrow> s')
                 | (_, s') \<Rightarrow> s'))
      | _ \<Rightarrow> s)"

definition mfs_Put ::
  "'k manifest_lib \<Rightarrow> (nat \<Rightarrow> 'k entity_env) \<Rightarrow> (nat \<Rightarrow> ('p, 'k) manifest_store \<Rightarrow> ('p, 'k) manifest_store) \<Rightarrow>
   'p \<Rightarrow> manifest list \<Rightarrow> ('p, 'k) manifest_store \<Rightarrow> ('p, 'k) manifest_store" where
  "mfs_Put ml env others src lst s =
     fold (\<lambda>(x, mf). putManifest ml (env x) (others x) src mf) (enumerate 0 lst) s"

definition mfs_Remove :: "'p \<Rightarrow> ('p, 'k) manifest_store \<Rightarrow> ('p, 'k) manifest_store" where
  "mfs_Remove src s = s\<lparr>ms_mf := filter (\<lambda>(mfh, mfr). mr_src mfr \<noteq> src) (ms_mf s)\<rparr>"

text \<open>\<open>ord\<close> is the order of the iteration over the map.\<close>

definition lookupManifest :: "(string list \<Rightarrow> string list) \<Rightarrow> (manifest \<Rightarrow> bool) \<Rightarrow> ('p, 'k) manifest_store \<Rightarrow> manifest list" where
  "lookupManifest ord f s =
     filter f (map (\<lambda>mfh. mr_mf (the (map_of (ms_mf s) mfh))) (ord (map fst (ms_mf s))))"

definition entityFilter :: "string \<Rightarrow> manifest \<Rightarrow> bool" where
  "entityFilter entity mf =
     (if entity = [] \<or> entity = ''*'' then True
      else if HasSuffix entity ''*'' then HasPrefix (mf_Entity mf) (take (length entity - 1) entity)
      else mf_Entity mf = entity)"

definition mfs_Lookup :: "(string list \<Rightarrow> string list) \<Rightarrow> string \<Rightarrow> ('p, 'k) manifest_store \<Rightarrow> manifest list" where
  "mfs_Lookup ord entity s = lookupManifest ord (entityFilter entity) s"

section \<open>Only verified manifests\<close>

text \<open>The parts of the environment that do not change over time.\<close>

definition same_hashes :: "'k entity_env \<Rightarrow> 'k entity_env \<Rightarrow> bool" where
  "same_hashes env env' \<longleftrightarrow>
     ee_FromB58 env = ee_FromB58 env' \<and> ee_Sum env = ee_Sum env' \<and> ee_UnmarshalKey env = ee_UnmarshalKey env'"

lemma key_of_hash_same: "same_hashes env env' \<Longrightarrow> key_of_hash env keyId k = key_of_hash env' keyId k"
  by (simp add: key_of_hash_def same_hashes_def)

text \<open>The text under which a key is cached names an entity and a key id, and the key is the one of the key id.\<close>

definition kid_ok :: "'k entity_env \<Rightarrow> string \<Rightarrow> 'k \<Rightarrow> bool" where
  "kid_ok env kid k \<longleftrightarrow>
     (\<exists>entity keyId. kid = entity @ '':'' @ keyId \<and> CheckEntityId entity = Ok () \<and> key_of_hash env keyId k)"

definition vouched :: "'k manifest_lib \<Rightarrow> 'k entity_env \<Rightarrow> manifest \<Rightarrow> bool" where
  "vouched ml env mf \<longleftrightarrow> (\<exists>k. kid_ok env (mf_Entity mf @ '':'' @ mf_KeyId mf) k \<and> verifyManifest ml mf k = Ok True)"

text \<open>A manifest with a well-formed entity is vouched for by the key of its own key id.\<close>

definition signed_by_entity :: "'k manifest_lib \<Rightarrow> 'k entity_env \<Rightarrow> manifest \<Rightarrow> bool" where
  "signed_by_entity ml env mf \<longleftrightarrow> (\<exists>k. key_of_hash env (mf_KeyId mf) k \<and> verifyManifest ml mf k = Ok True)"

lemma first_split: "u @ c # v = u' @ c # v' \<Longrightarrow> c \<notin> set u \<Longrightarrow> c \<notin> set u' \<Longrightarrow> u = u' \<and> v = v'" for u :: string
proof -
  assume eq: "u @ c # v = u' @ c # v'" and c: "c \<notin> set u" "c \<notin> set u'"
  from Index_append [OF c(1), of v] Index_append [OF c(2), of v'] eq have "length u = length u'" by simp
  with eq show ?thesis by simp
qed

lemma vouched_signed:
  assumes "vouched ml env mf" "CheckEntityId (mf_Entity mf) = Ok ()"
  shows "signed_by_entity ml env mf"
proof -
  have colon: "CHR '':'' \<notin> set prov" "CHR '':'' \<notin> set user" if "prov \<in> set providers" "urx user" for prov user
    using that by (auto simp: providers_def urx_def urx_char_def list_all_iff)
  from assms(1) obtain k entity keyId where k: "mf_Entity mf @ '':'' @ mf_KeyId mf = entity @ '':'' @ keyId"
      "CheckEntityId entity = Ok ()" "key_of_hash env keyId k" "verifyManifest ml mf k = Ok True"
    by (auto simp: vouched_def kid_ok_def)
  from k(2) assms(2) obtain p u p' u' where e: "entity = p @ '':'' @ u" "p \<in> set providers" "urx u"
      "mf_Entity mf = p' @ '':'' @ u'" "p' \<in> set providers" "urx u'"
    by (auto simp: CheckEntityId_iff)
  from k(1) e have "p' @ CHR '':'' # (u' @ CHR '':'' # mf_KeyId mf) = p @ CHR '':'' # (u @ CHR '':'' # keyId)" by simp
  from first_split [OF this colon(1) [OF e(5,6)] colon(1) [OF e(2,3)]]
  have "u' @ CHR '':'' # mf_KeyId mf = u @ CHR '':'' # keyId" by simp
  from first_split [OF this colon(2) [OF e(5,6)] colon(2) [OF e(2,3)]] have "mf_KeyId mf = keyId" by simp
  with k show ?thesis by (auto simp: signed_by_entity_def)
qed

definition store_ok :: "'k manifest_lib \<Rightarrow> 'k entity_env \<Rightarrow> ('p, 'k) manifest_store \<Rightarrow> bool" where
  "store_ok ml env s \<longleftrightarrow>
     distinct (map fst (ms_mf s)) \<and>
     (\<forall>(h, r) \<in> set (ms_mf s). hashManifest ml (mr_mf r) = Ok h \<and> vouched ml env (mr_mf r)) \<and>
     (\<forall>kid k. map_of (ms_keys s) kid = Some k \<longrightarrow> kid_ok env kid k)"

lemma store_ok_new [simp]: "store_ok ml env NewManifestStore"
  by (simp add: store_ok_def NewManifestStore_def)

lemma manifestKey_ok:
  assumes "store_ok ml env0 s" "store_ok ml env0 (others s)" "same_hashes env env0" "manifestKey env others mf s = (r, s')"
  shows "store_ok ml env0 s'" "r = Ok k \<Longrightarrow> kid_ok env0 (mf_Entity mf @ '':'' @ mf_KeyId mf) k"
proof -
  let ?kid = "mf_Entity mf @ '':'' @ mf_KeyId mf"
  have new: "kid_ok env0 ?kid k" if "LookupEntityKey env (mf_Entity mf) (mf_KeyId mf) = Ok k" for k
  proof -
    from that have "CheckEntityId (mf_Entity mf) = Ok ()" by (auto simp: LookupEntityKey_def)
    moreover have "key_of_hash env (mf_KeyId mf) k"
      using that by (auto simp: LookupEntityKey_def intro: lookupBlockstack_Ok lookupKeybase_Ok split: option.splits if_splits)
    ultimately show ?thesis using key_of_hash_same [OF assms(3)] by (auto simp: kid_ok_def)
  qed
  show "store_ok ml env0 s'"
  proof (cases "map_of (ms_keys s) ?kid")
    case None
    with assms(2,4) new show ?thesis
      by (auto simp: manifestKey_def store_ok_def update_conv' split: outcome.splits if_splits)
  qed (use assms in \<open>simp add: manifestKey_def Let_def\<close>)
  show "kid_ok env0 ?kid k" if "r = Ok k"
    using that assms(1,4) new
    by (auto simp: manifestKey_def Let_def store_ok_def split: option.splits outcome.splits)
qed

lemma set_update_subset: "set (AList.update k v xs) \<subseteq> insert (k, v) (set xs)"
  by (induction xs) auto

lemma putManifest_ok:
  assumes "store_ok ml env0 s" "store_ok ml env0 (others s)" "same_hashes env env0"
  shows "store_ok ml env0 (putManifest ml env others src mf s)"
proof -
  obtain r s' where k: "manifestKey env others mf s = (r, s')" by fastforce
  note ok = manifestKey_ok [OF assms k]
  have "store_ok ml env0 (s'\<lparr>ms_mf := AList.update h \<lparr>mr_mf = mf, mr_src = src\<rparr> (ms_mf s')\<rparr>)"
    if "hashManifest ml mf = Ok h" "r = Ok pubk" "verifyManifest ml mf pubk = Ok True" for h pubk
  proof -
    from that ok(2) have "vouched ml env0 mf" by (auto simp: vouched_def)
    with ok(1) that(1) set_update_subset [of h "\<lparr>mr_mf = mf, mr_src = src\<rparr>" "ms_mf s'"] show ?thesis
      by (auto simp: store_ok_def distinct_update)
  qed
  with ok(1) assms(1) k show ?thesis
    by (auto simp: putManifest_def split: outcome.splits bool.splits)
qed

lemma mfs_Remove_ok: "store_ok ml env s \<Longrightarrow> store_ok ml env (mfs_Remove src s)"
  by (auto simp: store_ok_def mfs_Remove_def distinct_map_filter)

text \<open>
  The stores that concurrent goroutines can bring about: while a key is looked up, the store can become any
  other reachable one.
\<close>

inductive store_reach :: "'k manifest_lib \<Rightarrow> 'k entity_env \<Rightarrow> ('p, 'k) manifest_store \<Rightarrow> bool" for ml env0 where
  new: "store_reach ml env0 NewManifestStore"
| put: "store_reach ml env0 s \<Longrightarrow> store_reach ml env0 s' \<Longrightarrow> same_hashes env env0 \<Longrightarrow>
    store_reach ml env0 (putManifest ml env (\<lambda>_. s') src mf s)"
| remove: "store_reach ml env0 s \<Longrightarrow> store_reach ml env0 (mfs_Remove src s)"

lemma store_reach_put:
  assumes "store_reach ml env0 s" "store_reach ml env0 (others s)" "same_hashes env env0"
  shows "store_reach ml env0 (putManifest ml env others src mf s)"
proof -
  have "putManifest ml env others src mf s = putManifest ml env (\<lambda>_. others s) src mf s"
    by (simp only: putManifest_def manifestKey_def)
  with store_reach.put [OF assms] show ?thesis by simp
qed

lemma store_reach_ok: "store_reach ml env0 s \<Longrightarrow> store_ok ml env0 s"
  by (induction rule: store_reach.induct) (simp_all add: putManifest_ok mfs_Remove_ok)

lemma lookup_set:
  assumes "map_order ord" "distinct (map fst (ms_mf s))"
  shows "set (mfs_Lookup ord entity s) = {mf. entityFilter entity mf \<and> mf \<in> mr_mf ` snd ` set (ms_mf s)}"
proof -
  have "mr_mf (the (map_of (ms_mf s) h)) = mr_mf r" if "(h, r) \<in> set (ms_mf s)" for h r
    using assms(2) that by simp
  then have "(\<lambda>h. mr_mf (the (map_of (ms_mf s) h))) ` fst ` set (ms_mf s) = mr_mf ` snd ` set (ms_mf s)" by force
  with map_order_set [OF assms(1), of "map fst (ms_mf s)"] show ?thesis
    by (auto simp: mfs_Lookup_def lookupManifest_def)
qed


text \<open>
  Libraries for the witnesses: the bytes of a manifest show its entity and its key id, and a signature is a
  key and the signed bytes.
\<close>

definition sample_ml :: "string manifest_lib" where
  "sample_ml = \<lparr>ml_marshal = (\<lambda>mf. Ok (mf_Entity mf @ '';'' @ mf_KeyId mf)), ml_hash58 = (\<lambda>b. CHR ''Q'' # b),
     ml_verify = (\<lambda>k b sig. Ok (sig = Some (k @ b)))\<rparr>"

definition sample_manifest :: "string \<Rightarrow> string \<Rightarrow> manifest" where
  "sample_manifest entity keyId = \<lparr>mf_Entity = entity, mf_KeyId = keyId, mf_Body = None, mf_Timestamp = 1,
     mf_Signature = Some (''abc'' @ entity @ '';'' @ keyId)\<rparr>"

definition sample_store :: "(nat, string) manifest_store" where
  "sample_store = mfs_Put sample_ml (\<lambda>_. sample_providers) (\<lambda>_ s. s) 7
     [sample_manifest ''keybase:vyzo'' ''Qabc'', sample_manifest ''keybase:eve'' ''Qother'']
     NewManifestStore"

lemma sample_store_reach: "store_reach sample_ml sample_providers sample_store"
  unfolding sample_store_def mfs_Put_def
  by (auto simp: enumerate_eq_zip upt_rec same_hashes_def intro!: store_reach_put store_reach.new)


text \<open>
  The cache of keys does not separate the entity from the key id: once the key of \<open>keybase:vyzo\<close> is
  known, a manifest of the entity \<open>keybase\<close>, which is no entity, is accepted with a key id
  that starts with the user.
\<close>

theorem manifest_of_no_entity:
  "let mf = sample_manifest ''keybase'' ''vyzo:Qabc'';
       s = mfs_Put sample_ml (\<lambda>_. sample_providers) (\<lambda>_ s. s) 7 [sample_manifest ''keybase:vyzo'' ''Qabc'', mf] NewManifestStore
   in CheckEntityId (mf_Entity mf) = Err MalformedEntityId \<and> mf \<in> set (mfs_Lookup (\<lambda>xs. xs) ''keybase'' s)"
  by code_simp

section \<open>The interface of the directory\<close>

text \<open>What the directory relies on (\<open>ManifestStore\<close> in \<open>mcdir/dir.go\<close>). \<open>'w\<close> is what the identity providers answer.\<close>

locale manifest_keeper =
  fixes inv :: "'s \<Rightarrow> bool"
    and fair :: "'w \<Rightarrow> bool"
    and put :: "'w \<Rightarrow> 'p \<Rightarrow> manifest list \<Rightarrow> 's \<Rightarrow> 's"
    and remove :: "'p \<Rightarrow> 's \<Rightarrow> 's"
    and records :: "'s \<Rightarrow> (manifest \<times> 'p) set"
    and good :: "manifest \<Rightarrow> bool"
  assumes put_inv: "fair w \<Longrightarrow> inv s \<Longrightarrow> inv (put w p ms s)"
    and remove_inv: "inv s \<Longrightarrow> inv (remove p s)"
    and put_records: "records (put w p ms s) \<subseteq> records s \<union> set ms \<times> {p}"
    and put_grows: "records s \<subseteq> records (put w p ms s)"
    and remove_records: "records (remove p s) = {r \<in> records s. snd r \<noteq> p}"
    and inv_good: "inv s \<Longrightarrow> r \<in> records s \<Longrightarrow> good (fst r)"
begin

lemma put_sources: "snd ` records s \<subseteq> P \<Longrightarrow> p \<in> P \<Longrightarrow> snd ` records (put w p ms s) \<subseteq> P"
  using put_records [of w p ms s] by fastforce

lemma remove_sources: "snd ` records s \<subseteq> insert p P \<Longrightarrow> snd ` records (remove p s) \<subseteq> P"
  by (auto simp: remove_records)

lemma put_only_good: "fair w \<Longrightarrow> inv s \<Longrightarrow> r \<in> records (put w p ms s) \<Longrightarrow> good (fst r) \<and> (r \<in> records s \<or> snd r = p)"
  using put_inv inv_good put_records [of w p ms s] by fastforce

end

definition store_records :: "('p, 'k) manifest_store \<Rightarrow> (manifest \<times> 'p) set" where
  "store_records s = (\<lambda>(h, r). (mr_mf r, mr_src r)) ` set (ms_mf s)"

definition put_alone ::
  "'k manifest_lib \<Rightarrow> (nat \<Rightarrow> 'k entity_env) \<Rightarrow> 'p \<Rightarrow> manifest list \<Rightarrow> ('p, 'k) manifest_store \<Rightarrow> ('p, 'k) manifest_store" where
  "put_alone ml env = mfs_Put ml env (\<lambda>_ s. s)"

lemma putManifest_records:
  "store_records (putManifest ml env (\<lambda>s. s) src mf s) \<subseteq> insert (mf, src) (store_records s) \<and>
   store_records s \<subseteq> store_records (putManifest ml env (\<lambda>s. s) src mf s)"
proof -
  obtain r s' where k: "manifestKey env (\<lambda>s. s) mf s = (r, s')" by fastforce
  have same: "ms_mf s' = ms_mf s" using k by (auto simp: manifestKey_def Let_def split: option.splits outcome.splits)
  show ?thesis
    using k same by (auto simp: putManifest_def store_records_def update_new split: outcome.splits bool.splits)
qed

lemma put_alone_records:
  "store_records (put_alone ml env src lst s) \<subseteq> store_records s \<union> set lst \<times> {src} \<and>
   store_records s \<subseteq> store_records (put_alone ml env src lst s)"
  unfolding put_alone_def mfs_Put_def
proof (induction lst arbitrary: s rule: rev_induct)
  case (snoc mf lst)
  let ?s = "fold (\<lambda>(x, mf). putManifest ml (env x) (\<lambda>s. s) src mf) (enumerate 0 lst) s"
  have "store_records ?s \<subseteq> store_records s \<union> set lst \<times> {src}" "store_records s \<subseteq> store_records ?s"
    using snoc by blast+
  with putManifest_records [of ml "env (length lst)" src mf ?s] show ?case
    by (simp add: enumerate_append_eq) blast
qed simp

lemma put_alone_ok: "(\<forall>x. same_hashes (env x) env0) \<Longrightarrow> store_ok ml env0 s \<Longrightarrow> store_ok ml env0 (put_alone ml env src lst s)"
  unfolding put_alone_def mfs_Put_def
  by (induction lst arbitrary: s rule: rev_induct) (simp_all add: enumerate_append_eq putManifest_ok)

interpretation mfs: manifest_keeper "store_ok ml env0" "\<lambda>env. \<forall>x. same_hashes (env x) env0" "put_alone ml" mfs_Remove
    store_records "vouched ml env0" for ml :: "'k manifest_lib" and env0
proof unfold_locales
  show "store_records (mfs_Remove p s) = {r \<in> store_records s. snd r \<noteq> p}" for p and s :: "('p, 'k) manifest_store"
    by (auto simp: store_records_def mfs_Remove_def)
  show "store_ok ml env0 s \<Longrightarrow> r \<in> store_records s \<Longrightarrow> vouched ml env0 (fst r)" for r and s :: "('p, 'k) manifest_store"
    by (auto simp: store_records_def store_ok_def)
qed (rule put_alone_ok mfs_Remove_ok put_alone_records [THEN conjunct1] put_alone_records [THEN conjunct2]; assumption)+

end
