(* ===== verification/Handles.thy ===== *)
theory Handles
  imports Prelude
begin

text \<open>
  Peer handles and address classes (\<open>mc/util.go\<close>), and the conversion of peer infos to messages
  (\<open>mc/message.go\<close>). Peer ids and multiaddresses are types of libraries: their texts, parsers and
  encodings are in the record \<open>net_lib\<close>. IP addresses and networks are those of Go's package
  \<open>net\<close>, byte lists.
\<close>

section \<open>Libraries\<close>

record ('p, 'a) net_lib =
  nl_Pretty :: "'p \<Rightarrow> string"
  nl_IDB58Decode :: "string \<Rightarrow> 'p outcome"
  nl_String :: "'a \<Rightarrow> string"
  nl_NewMultiaddr :: "string \<Rightarrow> 'a outcome"
  nl_Bytes :: "'a \<Rightarrow> string"
  nl_NewMultiaddrBytes :: "string \<Rightarrow> 'a outcome"
  nl_IP4 :: "'a \<Rightarrow> string outcome"

record ('p, 'a) peer_info =
  pi_ID :: 'p
  pi_Addrs :: "'a list"

text \<open>
  The documented laws: a text or an encoding reads back, a base58 id has no slash, and the text of
  a multiaddress is not empty.
\<close>

definition net_lib_ok :: "('p, 'a) net_lib \<Rightarrow> bool" where
  "net_lib_ok nl \<longleftrightarrow>
     (\<forall>p. nl_IDB58Decode nl (nl_Pretty nl p) = Ok p \<and> CHR ''/'' \<notin> set (nl_Pretty nl p)) \<and>
     (\<forall>a. nl_NewMultiaddr nl (nl_String nl a) = Ok a \<and> nl_String nl a \<noteq> []) \<and>
     (\<forall>a. nl_NewMultiaddrBytes nl (nl_Bytes nl a) = Ok a)"

lemma net_lib_inj: "net_lib_ok nl \<Longrightarrow> nl_Pretty nl p = nl_Pretty nl q \<Longrightarrow> p = q"
  by (metis net_lib_ok_def outcome.inject(1))

section \<open>Handles\<close>

definition FormatHandle :: "('p, 'a) net_lib \<Rightarrow> ('p, 'a) peer_info \<Rightarrow> string" where
  "FormatHandle nl pi =
     (if length (pi_Addrs pi) > 0
      then nl_String nl (pi_Addrs pi ! 0) @ ''/p2p/'' @ nl_Pretty nl (pi_ID pi)
      else ''/p2p/'' @ nl_Pretty nl (pi_ID pi))"

definition ParseHandleId :: "('p, 'a) net_lib \<Rightarrow> string \<Rightarrow> ('p, 'a) peer_info outcome" where
  "ParseHandleId nl str = obind (nl_IDB58Decode nl str) (\<lambda>pid. Ok \<lparr>pi_ID = pid, pi_Addrs = []\<rparr>)"

definition ParseHandle :: "('p, 'a) net_lib \<Rightarrow> string \<Rightarrow> ('p, 'a) peer_info outcome" where
  "ParseHandle nl str =
     (case LastIndex str (CHR ''/'') of
        None \<Rightarrow> ParseHandleId nl str
      | Some ix \<Rightarrow>
          (let addr = (case LastIndex (take ix str) (CHR ''/'') of
                         None \<Rightarrow> take ix str
                       | Some iy \<Rightarrow> (if drop (Suc iy) (take ix str) = ''p2p'' then take iy str else take ix str))
           in obind (nl_IDB58Decode nl (drop (Suc ix) str)) (\<lambda>pid.
              if addr = [] then Ok \<lparr>pi_ID = pid, pi_Addrs = []\<rparr>
              else obind (nl_NewMultiaddr nl addr) (\<lambda>maddr. Ok \<lparr>pi_ID = pid, pi_Addrs = [maddr]\<rparr>))))"

text \<open>A handle is an address part and an id without a slash.\<close>

lemma ParseHandle_p2p:
  assumes "CHR ''/'' \<notin> set i"
  shows "ParseHandle nl (addr @ ''/p2p/'' @ i) = obind (nl_IDB58Decode nl i) (\<lambda>pid.
    if addr = [] then Ok \<lparr>pi_ID = pid, pi_Addrs = []\<rparr>
    else obind (nl_NewMultiaddr nl addr) (\<lambda>maddr. Ok \<lparr>pi_ID = pid, pi_Addrs = [maddr]\<rparr>))"
proof -
  let ?s = "(addr @ ''/p2p'') @ CHR ''/'' # i"
  have 1: "LastIndex ?s (CHR ''/'') = Some (length addr + 4)" using LastIndex_append [OF assms, of "addr @ ''/p2p''"] by simp
  have 2: "LastIndex (addr @ CHR ''/'' # ''p2p'') (CHR ''/'') = Some (length addr)" by (rule LastIndex_append) simp
  have "ParseHandle nl ?s = obind (nl_IDB58Decode nl i) (\<lambda>pid.
    if addr = [] then Ok \<lparr>pi_ID = pid, pi_Addrs = []\<rparr>
    else obind (nl_NewMultiaddr nl addr) (\<lambda>maddr. Ok \<lparr>pi_ID = pid, pi_Addrs = [maddr]\<rparr>))"
    using 2 unfolding ParseHandle_def 1 by simp
  then show ?thesis by simp
qed

lemma ParseHandle_FormatHandle:
  assumes "net_lib_ok nl"
  shows "ParseHandle nl (FormatHandle nl pi) = Ok (pi\<lparr>pi_Addrs := take 1 (pi_Addrs pi)\<rparr>)"
proof -
  have id: "nl_IDB58Decode nl (nl_Pretty nl p) = Ok p" "CHR ''/'' \<notin> set (nl_Pretty nl p)" for p
    using assms by (simp_all add: net_lib_ok_def)
  have addr: "nl_NewMultiaddr nl (nl_String nl a) = Ok a" "nl_String nl a \<noteq> []" for a
    using assms by (simp_all add: net_lib_ok_def)
  show ?thesis
    using ParseHandle_p2p [OF id(2), of nl "nl_String nl (pi_Addrs pi ! 0)" "pi_ID pi"] ParseHandle_p2p [OF id(2), of nl "[]" "pi_ID pi"]
    by (cases pi; cases "pi_Addrs pi") (auto simp: FormatHandle_def id addr)
qed

text \<open>A handle reads back as the peer it was made of, with its first address when it has one; and the forms
  that are accepted for backward compatibility, an address followed by an id and an id alone,
  read as the same peers.\<close>

theorem handle_roundtrip:
  assumes "net_lib_ok nl"
  shows "ParseHandle nl (FormatHandle nl pi) = Ok (pi\<lparr>pi_Addrs := take 1 (pi_Addrs pi)\<rparr>) \<and>
    ParseHandle nl (nl_Pretty nl p) = Ok \<lparr>pi_ID = p, pi_Addrs = []\<rparr> \<and>
    (\<not> HasSuffix (nl_String nl a) ''/p2p'' \<longrightarrow>
      ParseHandle nl (nl_String nl a @ ''/'' @ nl_Pretty nl p) = Ok \<lparr>pi_ID = p, pi_Addrs = [a]\<rparr>)"
proof (intro conjI impI)
  have id: "nl_IDB58Decode nl (nl_Pretty nl p) = Ok p" "CHR ''/'' \<notin> set (nl_Pretty nl p)" for p
    using assms by (simp_all add: net_lib_ok_def)
  have addr: "nl_NewMultiaddr nl (nl_String nl a) = Ok a" "nl_String nl a \<noteq> []" for a
    using assms by (simp_all add: net_lib_ok_def)
  show "ParseHandle nl (FormatHandle nl pi) = Ok (pi\<lparr>pi_Addrs := take 1 (pi_Addrs pi)\<rparr>)"
    by (rule ParseHandle_FormatHandle [OF assms])
  show "ParseHandle nl (nl_Pretty nl p) = Ok \<lparr>pi_ID = p, pi_Addrs = []\<rparr>"
    using id(2) [of p] by (simp add: ParseHandle_def ParseHandleId_def id(1) LastIndex_None [THEN iffD2])
  assume ns: "\<not> HasSuffix (nl_String nl a) ''/p2p''"
  let ?s = "nl_String nl a @ CHR ''/'' # nl_Pretty nl p"
  have 1: "LastIndex ?s (CHR ''/'') = Some (length (nl_String nl a))" by (rule LastIndex_append [OF id(2)])
  have "drop (Suc iy) (nl_String nl a) \<noteq> ''p2p''" if "LastIndex (nl_String nl a) (CHR ''/'') = Some iy" for iy
    using LastIndex_Some [OF that] ns by (metis HasSuffix_def suffix_def append_Cons append_Nil)
  then show "ParseHandle nl (nl_String nl a @ ''/'' @ nl_Pretty nl p) = Ok \<lparr>pi_ID = p, pi_Addrs = [a]\<rparr>"
    unfolding append_Cons append_Nil ParseHandle_def 1 by (simp add: id addr split: option.splits)
qed

text \<open>A library for the witnesses: numbers as peers and texts, after a slash, as addresses.\<close>

definition text_lib :: "(nat, string) net_lib" where
  "text_lib = \<lparr>nl_Pretty = nat_str,
     nl_IDB58Decode = (\<lambda>s. case digits_val 0 s of None \<Rightarrow> Err (ExtErr ''base58'') | Some n \<Rightarrow> Ok (nat n)),
     nl_String = (\<lambda>a. CHR ''/'' # a), nl_NewMultiaddr = (\<lambda>s. Ok (tl s)),
     nl_Bytes = (\<lambda>a. a), nl_NewMultiaddrBytes = Ok,
     nl_IP4 = (\<lambda>a. if take 4 a = ''ip4/'' then Ok (hd (Split (drop 4 a) (CHR ''/''))) else Err (ExtErr ''protocol''))\<rparr>"

lemma text_lib_ok: "net_lib_ok text_lib"
proof -
  have "CHR ''/'' \<notin> set (nat_str n)" for n
    using nat_str_digit_set [of "CHR ''/''" n] by (auto simp: is_digit_def digit_val_def)
  then show ?thesis by (simp add: net_lib_ok_def text_lib_def digits_val_nat_str)
qed

theorem handle_roundtrip_witness:
  "ParseHandle text_lib (FormatHandle text_lib \<lparr>pi_ID = 27, pi_Addrs = [''ip4/1.2.3.4/tcp/9001'', ''ip4/127.0.0.1'']\<rparr>) =
     Ok \<lparr>pi_ID = 27, pi_Addrs = [''ip4/1.2.3.4/tcp/9001'']\<rparr> \<and>
   ParseHandle text_lib (nat_str 27) = Ok \<lparr>pi_ID = 27, pi_Addrs = []\<rparr>"
  using handle_roundtrip [OF text_lib_ok, of "\<lparr>pi_ID = 27, pi_Addrs = [''ip4/1.2.3.4/tcp/9001'', ''ip4/127.0.0.1'']\<rparr>" 27]
  by (simp add: text_lib_def)

section \<open>Peer infos in messages\<close>

text \<open>\<open>pb.PeerInfo\<close>: the text of the id and the encodings of the addresses.\<close>

record pb_peer_info =
  pb_Id :: string
  pb_Addr :: "string list"

definition PBFromPeerInfo :: "('p, 'a) net_lib \<Rightarrow> ('p, 'a) peer_info \<Rightarrow> pb_peer_info" where
  "PBFromPeerInfo nl pinfo = \<lparr>pb_Id = nl_Pretty nl (pi_ID pinfo), pb_Addr = map (nl_Bytes nl) (pi_Addrs pinfo)\<rparr>"

definition PBToPeerInfo :: "('p, 'a) net_lib \<Rightarrow> pb_peer_info \<Rightarrow> ('p, 'a) peer_info outcome" where
  "PBToPeerInfo nl pbpi =
     obind (nl_IDB58Decode nl (pb_Id pbpi)) (\<lambda>pid.
     obind (omap (nl_NewMultiaddrBytes nl) (pb_Addr pbpi)) (\<lambda>addrs.
     Ok \<lparr>pi_ID = pid, pi_Addrs = addrs\<rparr>))"

lemma PBToPeerInfo_PBFromPeerInfo: "net_lib_ok nl \<Longrightarrow> PBToPeerInfo nl (PBFromPeerInfo nl pi) = Ok pi"
proof -
  assume "net_lib_ok nl"
  then have "omap (nl_NewMultiaddrBytes nl) (map (nl_Bytes nl) as) = Ok as" for as
    by (induction as) (simp_all add: net_lib_ok_def)
  with \<open>net_lib_ok nl\<close> show ?thesis by (simp add: PBToPeerInfo_def PBFromPeerInfo_def net_lib_ok_def)
qed

section \<open>Networks\<close>

unbundle bit_operations_syntax

text \<open>
  \<open>net.ParseIP\<close> on dotted decimals: four decimal numbers of at most 255 between dots. The texts it is
  applied to are those of an \<open>ip4\<close> component, never of the IPv6 syntax.
\<close>

definition parse_octet :: "string \<Rightarrow> 8 word option" where
  "parse_octet s = (if s = [] then None else
     (case digits_val 0 s of None \<Rightarrow> None | Some n \<Rightarrow> if n \<le> 255 then Some (word_of_int n) else None))"

definition ParseIP :: "string \<Rightarrow> 8 word list option" where
  "ParseIP s =
     (case map parse_octet (Split s (CHR ''.'')) of
        [Some a, Some b, Some c, Some d] \<Rightarrow> Some [a, b, c, d]
      | _ \<Rightarrow> None)"

text \<open>\<open>net.IPNet\<close>: the network and the mask, four bytes each.\<close>

type_synonym ip_net = "8 word list \<times> 8 word list"

text \<open>The byte of a mask of \<open>n\<close> bits that starts at bit \<open>k\<close>.\<close>

definition CIDRMask :: "nat \<Rightarrow> 8 word list" where
  "CIDRMask n = map (\<lambda>k. push_bit (8 - min 8 (n - k)) (- 1)) [0, 8, 16, 24]"

definition Mask :: "8 word list \<Rightarrow> 8 word list \<Rightarrow> 8 word list" where
  "Mask ip m = map2 (AND) ip m"

definition ParseCIDR :: "string \<Rightarrow> ip_net outcome" where
  "ParseCIDR s =
     (case Split s (CHR ''/'') of
        [addr, bits] \<Rightarrow>
          (case (ParseIP addr, digits_val 0 bits) of
             (Some ip, Some n) \<Rightarrow>
               (if bits \<noteq> [] \<and> n \<le> 32 then Ok (Mask ip (CIDRMask (nat n)), CIDRMask (nat n)) else Err (ExtErr ''invalid CIDR address''))
           | _ \<Rightarrow> Err (ExtErr ''invalid CIDR address''))
      | _ \<Rightarrow> Err (ExtErr ''invalid CIDR address''))"

definition Contains :: "ip_net \<Rightarrow> 8 word list \<Rightarrow> bool" where
  "Contains n ip = (Mask ip (snd n) = Mask (fst n) (snd n))"

definition isAddrSubnet :: "('p, 'a) net_lib \<Rightarrow> 'a \<Rightarrow> ip_net list \<Rightarrow> bool" where
  "isAddrSubnet nl addr nets =
     (case nl_IP4 nl addr of
        Ok ipstr \<Rightarrow> (case ParseIP ipstr of None \<Rightarrow> False | Some ip \<Rightarrow> list_ex (\<lambda>n. Contains n ip) nets)
      | _ \<Rightarrow> False)"

definition localhostCIDR :: "string list" where
  "localhostCIDR = [''127.0.0.0/8'']"

definition linkLocalCIDR :: "string list" where
  "linkLocalCIDR = [''169.254.0.0/16'']"

definition privateCIDR :: "string list" where
  "privateCIDR = [''10.0.0.0/8'', ''100.64.0.0/10'', ''172.16.0.0/12'', ''192.168.0.0/16'']"

definition unroutableCIDR :: "string list" where
  "unroutableCIDR = [''0.0.0.0/8'', ''127.0.0.0/8'', ''169.254.0.0/16'']"

definition internalCIDR :: "string list" where
  "internalCIDR = [''0.0.0.0/8'', ''127.0.0.0/8'', ''169.254.0.0/16'', ''10.0.0.0/8'', ''100.64.0.0/10'', ''172.16.0.0/12'', ''192.168.0.0/16'']"

text \<open>A network that does not parse ends the program at its start (\<open>log.Fatal\<close>).\<close>

definition makeSubnetSpec :: "string list \<Rightarrow> ip_net list outcome" where
  "makeSubnetSpec subnets = omap (\<lambda>s. case ParseCIDR s of Ok n \<Rightarrow> Ok n | _ \<Rightarrow> Panic ''fatal'') subnets"

fun subnets_of :: "ip_net list outcome \<Rightarrow> ip_net list" where
  "subnets_of (Ok nets) = nets"
| "subnets_of _ = []"

definition IsLocalhostAddr :: "('p, 'a) net_lib \<Rightarrow> 'a \<Rightarrow> bool" where
  "IsLocalhostAddr nl addr = isAddrSubnet nl addr (subnets_of (makeSubnetSpec localhostCIDR))"

definition IsLinkLocalAddr :: "('p, 'a) net_lib \<Rightarrow> 'a \<Rightarrow> bool" where
  "IsLinkLocalAddr nl addr = isAddrSubnet nl addr (subnets_of (makeSubnetSpec linkLocalCIDR))"

definition IsPrivateAddr :: "('p, 'a) net_lib \<Rightarrow> 'a \<Rightarrow> bool" where
  "IsPrivateAddr nl addr = isAddrSubnet nl addr (subnets_of (makeSubnetSpec privateCIDR))"

definition IsRoutableAddr :: "('p, 'a) net_lib \<Rightarrow> 'a \<Rightarrow> bool" where
  "IsRoutableAddr nl addr = (\<not> isAddrSubnet nl addr (subnets_of (makeSubnetSpec unroutableCIDR)))"

definition IsPublicAddr :: "('p, 'a) net_lib \<Rightarrow> 'a \<Rightarrow> bool" where
  "IsPublicAddr nl addr = (\<not> isAddrSubnet nl addr (subnets_of (makeSubnetSpec internalCIDR)))"

definition FilterAddrs :: "'a list \<Rightarrow> ('a \<Rightarrow> bool) \<Rightarrow> 'a list" where
  "FilterAddrs addrs predf = filter predf addrs"

text \<open>The networks the texts stand for.\<close>

lemma subnets:
  "makeSubnetSpec localhostCIDR = Ok [([127, 0, 0, 0], [255, 0, 0, 0])]"
  "makeSubnetSpec linkLocalCIDR = Ok [([169, 254, 0, 0], [255, 255, 0, 0])]"
  "makeSubnetSpec privateCIDR = Ok [([10, 0, 0, 0], [255, 0, 0, 0]), ([100, 64, 0, 0], [255, 192, 0, 0]),
     ([172, 16, 0, 0], [255, 240, 0, 0]), ([192, 168, 0, 0], [255, 255, 0, 0])]"
  "makeSubnetSpec unroutableCIDR = Ok [([0, 0, 0, 0], [255, 0, 0, 0]), ([127, 0, 0, 0], [255, 0, 0, 0]), ([169, 254, 0, 0], [255, 255, 0, 0])]"
  "makeSubnetSpec internalCIDR = Ok [([0, 0, 0, 0], [255, 0, 0, 0]), ([127, 0, 0, 0], [255, 0, 0, 0]), ([169, 254, 0, 0], [255, 255, 0, 0]),
     ([10, 0, 0, 0], [255, 0, 0, 0]), ([100, 64, 0, 0], [255, 192, 0, 0]), ([172, 16, 0, 0], [255, 240, 0, 0]), ([192, 168, 0, 0], [255, 255, 0, 0])]"
  by code_simp+

lemma byte_masks:
  fixes b :: "8 word"
  shows "b AND 255 = b" "b AND 0 = 0" "b AND 192 = 64 \<longleftrightarrow> 64 \<le> b \<and> b < 128" "b AND 240 = 16 \<longleftrightarrow> 16 \<le> b \<and> b < 32"
proof -
  have *: "list_all (\<lambda>n. ((of_nat n :: 8 word) AND 192 = 64 \<longleftrightarrow> 64 \<le> n \<and> n < 128) \<and>
      ((of_nat n :: 8 word) AND 240 = 16 \<longleftrightarrow> 16 \<le> n \<and> n < 32)) [0 ..< 256]"
    by code_simp
  have "unat b \<in> set [0 ..< 256]" using unsigned_less [of b] by simp
  with * have "((of_nat (unat b) :: 8 word) AND 192 = 64 \<longleftrightarrow> 64 \<le> unat b \<and> unat b < 128) \<and>
      ((of_nat (unat b) :: 8 word) AND 240 = 16 \<longleftrightarrow> 16 \<le> unat b \<and> unat b < 32)" unfolding list_all_iff by (rule bspec)
  then show "b AND 192 = 64 \<longleftrightarrow> 64 \<le> b \<and> b < 128" "b AND 240 = 16 \<longleftrightarrow> 16 \<le> b \<and> b < 32"
    by (simp_all add: word_le_nat_alt word_less_nat_alt)
  have "(255 :: 8 word) = - 1" by simp
  then show "b AND 255 = b" by (simp only: bit.conj_one_right)
  show "b AND 0 = 0" by simp
qed

text \<open>The address classes by the first two octets of an IPv4 address: private addresses are those of RFC 1918
  and of carrier-grade NAT; an address is routable unless it is of network 0, a loopback or a
  link-local address; and the public addresses, whatever the protocol, are the routable ones that are not
  private. An address without IPv4 is public.\<close>

theorem address_classes:
  assumes "nl_IP4 nl addr = Ok s" and "ParseIP s = Some [a, b, c, d]"
  shows "(IsPrivateAddr nl addr \<longleftrightarrow>
       a = 10 \<or> (a = 100 \<and> 64 \<le> b \<and> b < 128) \<or> (a = 172 \<and> 16 \<le> b \<and> b < 32) \<or> (a = 192 \<and> b = 168)) \<and>
     (IsRoutableAddr nl addr \<longleftrightarrow> a \<noteq> 0 \<and> a \<noteq> 127 \<and> \<not> (a = 169 \<and> b = 254)) \<and>
     (IsPublicAddr nl addr' \<longleftrightarrow> IsRoutableAddr nl addr' \<and> \<not> IsPrivateAddr nl addr') \<and>
     (IsPublicAddr nl addr' \<longrightarrow> \<not> IsLocalhostAddr nl addr' \<and> \<not> IsLinkLocalAddr nl addr')"
proof (intro conjI impI)
  show "IsPrivateAddr nl addr \<longleftrightarrow>
       a = 10 \<or> (a = 100 \<and> 64 \<le> b \<and> b < 128) \<or> (a = 172 \<and> 16 \<le> b \<and> b < 32) \<or> (a = 192 \<and> b = 168)"
    using assms by (simp add: IsPrivateAddr_def subnets isAddrSubnet_def Contains_def Mask_def byte_masks)
  show "IsRoutableAddr nl addr \<longleftrightarrow> a \<noteq> 0 \<and> a \<noteq> 127 \<and> \<not> (a = 169 \<and> b = 254)"
    using assms by (simp add: IsRoutableAddr_def subnets isAddrSubnet_def Contains_def Mask_def byte_masks)
  show "IsPublicAddr nl addr' \<longleftrightarrow> IsRoutableAddr nl addr' \<and> \<not> IsPrivateAddr nl addr'"
    by (simp add: IsPublicAddr_def IsRoutableAddr_def IsPrivateAddr_def subnets isAddrSubnet_def split: outcome.split option.split)
  assume "IsPublicAddr nl addr'"
  then show "\<not> IsLocalhostAddr nl addr'" "\<not> IsLinkLocalAddr nl addr'"
    by (auto simp: IsPublicAddr_def IsLocalhostAddr_def IsLinkLocalAddr_def subnets isAddrSubnet_def split: outcome.splits option.splits)
qed

theorem address_classes_witness:
  "IsPrivateAddr text_lib ''ip4/172.31.9.1/tcp/9001'' \<and> IsRoutableAddr text_lib ''ip4/172.31.9.1/tcp/9001''"
proof -
  have "nl_IP4 text_lib ''ip4/172.31.9.1/tcp/9001'' = Ok ''172.31.9.1''" "ParseIP ''172.31.9.1'' = Some [172, 31, 9, 1]"
    by code_simp+
  from address_classes [OF this] show ?thesis by simp
qed

end
