(* ===== verification/Auth.thy ===== *)
theory Auth
  imports Handles Json
begin

text \<open>
  Which peers may push to which namespaces (\<open>PeerAuth\<close> in \<open>mcnode/node.go\<close>): the rules of a peer,
  their meaning, changing them, and their JSON form.
\<close>

section \<open>Rules\<close>

text \<open>The \<open>map[p2p_peer.ID][]string\<close> of the rules, as the list of its entries. No rules list is nil.\<close>

type_synonym 'p rules = "('p \<times> string list) list"

fun authorizeAllow :: "string list \<Rightarrow> string \<Rightarrow> bool" where
  "authorizeAllow [] ns = False"
| "authorizeAllow (rule # rules) ns =
     (if rule = ''*'' then True
      else if HasSuffix rule ''.*''
      then (if HasPrefix ns (take (length rule - 2) rule) then True else authorizeAllow rules ns)
      else if rule = ns then True
      else authorizeAllow rules ns)"

definition getRules :: "'p \<Rightarrow> 'p rules \<Rightarrow> string list" where
  "getRules pid peers = (case map_of peers pid of None \<Rightarrow> [] | Some rules \<Rightarrow> rules)"

definition setRules :: "'p \<Rightarrow> string list \<Rightarrow> 'p rules \<Rightarrow> 'p rules" where
  "setRules pid rules peers = AList.update pid rules peers"

definition clearRules :: "'p \<Rightarrow> 'p rules \<Rightarrow> 'p rules" where
  "clearRules pid peers = AList.delete pid peers"

definition authorize :: "'p rules \<Rightarrow> 'p \<Rightarrow> string list \<Rightarrow> bool" where
  "authorize peers pid nss =
     (if length nss = 0 then False
      else (let rules = getRules pid peers in
            if length rules = 0 then False else list_all (authorizeAllow rules) nss))"

section \<open>JSON form\<close>

text \<open>Iterating over the peers or the members of an object takes any order \<open>ord\<close>.\<close>

definition auth_toJSON :: "('p, 'a) net_lib \<Rightarrow> 'p rules \<Rightarrow> (string \<times> string list) list" where
  "auth_toJSON nl peers = foldl (\<lambda>rmap (pid, rules). AList.update (nl_Pretty nl pid) rules rmap) [] peers"

definition fromJSON_rule :: "json \<Rightarrow> string outcome" where
  "fromJSON_rule xxrule = (case xxrule of JStr rule \<Rightarrow> Ok rule | _ \<Rightarrow> Err BadRuleset)"

definition fromJSON_peer :: "('p, 'a) net_lib \<Rightarrow> 'p rules \<Rightarrow> string \<times> json \<Rightarrow> 'p rules outcome" where
  "fromJSON_peer nl peers = (\<lambda>(id58, xrules).
     obind (nl_IDB58Decode nl id58) (\<lambda>pid.
     (case xrules of
        JArr xxrules \<Rightarrow> obind (omap fromJSON_rule xxrules) (\<lambda>rules. Ok (AList.update pid rules peers))
      | _ \<Rightarrow> Err BadRuleset)))"

text \<open>An error leaves the rules read so far in place.\<close>

fun fromJSON_peers :: "('p, 'a) net_lib \<Rightarrow> (string \<times> json) list \<Rightarrow> 'p rules \<Rightarrow> unit outcome \<times> 'p rules" where
  "fromJSON_peers nl [] peers = (Ok (), peers)"
| "fromJSON_peers nl (kv # rmap) peers =
     (case fromJSON_peer nl peers kv of
        Ok peers' \<Rightarrow> fromJSON_peers nl rmap peers'
      | Err e \<Rightarrow> (Err e, peers)
      | Panic m \<Rightarrow> (Panic m, peers))"

definition auth_fromJSON ::
  "('p, 'a) net_lib \<Rightarrow> ((string \<times> json) list \<Rightarrow> (string \<times> json) list) \<Rightarrow> (string \<times> json) list \<Rightarrow> unit outcome \<times> 'p rules" where
  "auth_fromJSON nl ord rmap = fromJSON_peers nl (ord rmap) []"

section \<open>What the rules allow\<close>

text \<open>The namespaces a rule stands for. The wildcard \<open>foo.*\<close> allows every namespace that starts with \<open>foo\<close>.\<close>

definition rule_allows :: "string \<Rightarrow> string \<Rightarrow> bool" where
  "rule_allows rule ns \<longleftrightarrow>
     rule = ''*'' \<or> (\<exists>pre. rule = pre @ ''.*'' \<and> prefix pre ns) \<or> (rule = ns \<and> \<not> HasSuffix rule ''.*'')"

lemma rule_allows_code: "rule_allows rule ns \<longleftrightarrow> rule = ''*'' \<or>
    (if HasSuffix rule ''.*'' then HasPrefix ns (take (length rule - 2) rule) else rule = ns)"
  by (auto simp: rule_allows_def HasSuffix_def HasPrefix_def suffix_def)

lemma authorizeAllow_iff: "authorizeAllow rules ns \<longleftrightarrow> (\<exists>rule \<in> set rules. rule_allows rule ns)"
  by (induction rules) (auto simp: rule_allows_code)

lemma authorize_iff:
  "authorize peers pid nss \<longleftrightarrow> nss \<noteq> [] \<and> (\<forall>ns \<in> set nss. \<exists>rule \<in> set (getRules pid peers). rule_allows rule ns)"
  by (cases nss) (auto simp: authorize_def Let_def list_all_iff authorizeAllow_iff)

text \<open>
  What the push protocol relies on: changing the rules of a peer has that effect on the peer and no effect on the others, and
  a peer without rules may do nothing.
\<close>

locale push_rules =
  fixes get :: "'p \<Rightarrow> 'r \<Rightarrow> string list"
    and put :: "'p \<Rightarrow> string list \<Rightarrow> 'r \<Rightarrow> 'r"
    and clear :: "'p \<Rightarrow> 'r \<Rightarrow> 'r"
    and allowed :: "'r \<Rightarrow> 'p \<Rightarrow> string list \<Rightarrow> bool"
  assumes get_put: "get pid (put pid' rules r) = (if pid = pid' then rules else get pid r)"
    and get_clear: "get pid (clear pid' r) = (if pid = pid' then [] else get pid r)"
    and allowed_iff: "allowed r pid nss \<longleftrightarrow> nss \<noteq> [] \<and> (\<forall>ns \<in> set nss. \<exists>rule \<in> set (get pid r). rule_allows rule ns)"
begin

lemma allowed_other: "pid \<noteq> pid' \<Longrightarrow> allowed (put pid' rules r) pid nss = allowed r pid nss"
  "pid \<noteq> pid' \<Longrightarrow> allowed (clear pid' r) pid nss = allowed r pid nss"
  by (simp_all add: allowed_iff get_put get_clear)

lemma allowed_cleared: "\<not> allowed (clear pid r) pid nss"
  by (cases nss) (auto simp: allowed_iff get_clear)

lemma allowed_put: "allowed (put pid rules r) pid nss \<longleftrightarrow> nss \<noteq> [] \<and> (\<forall>ns \<in> set nss. \<exists>rule \<in> set rules. rule_allows rule ns)"
  by (simp add: allowed_iff get_put)

lemma allowed_subset: "allowed r pid nss \<Longrightarrow> nss' \<noteq> [] \<Longrightarrow> set nss' \<subseteq> set nss \<Longrightarrow> allowed r pid nss'"
  by (auto simp: allowed_iff)

end

interpretation peer_auth: push_rules getRules setRules clearRules authorize
  by unfold_locales (simp_all add: getRules_def setRules_def clearRules_def update_conv' delete_conv' authorize_iff)

section \<open>Reading back\<close>

lemma fromJSON_rules: "omap fromJSON_rule (map JStr rules) = Ok rules"
  by (induction rules) (simp_all add: fromJSON_rule_def)

lemma auth_toJSON_eq:
  assumes "net_lib_ok nl" "distinct (map fst peers)"
  shows "auth_toJSON nl peers = map (\<lambda>(pid, rules). (nl_Pretty nl pid, rules)) peers"
proof -
  note inj = net_lib_inj [OF assms(1)]
  have "foldl (\<lambda>rmap (pid, rules). AList.update (nl_Pretty nl pid) rules rmap) acc peers =
      acc @ map (\<lambda>(pid, rules). (nl_Pretty nl pid, rules)) peers"
    if "distinct (map fst peers)" "\<forall>p \<in> fst ` set peers. nl_Pretty nl p \<notin> fst ` set acc" for acc
    using that
  proof (induction peers arbitrary: acc)
    case (Cons x peers)
    obtain p r where x: "x = (p, r)" by fastforce
    from Cons.prems x have "AList.update (nl_Pretty nl p) r acc = acc @ [(nl_Pretty nl p, r)]" by (simp add: update_new map_of_eq_None_iff)
    moreover have "\<forall>q \<in> fst ` set peers. nl_Pretty nl q \<notin> fst ` set (acc @ [(nl_Pretty nl p, r)])"
    proof
      fix q assume "q \<in> fst ` set peers"
      with Cons.prems x have "q \<noteq> p" "nl_Pretty nl q \<notin> fst ` set acc" by auto
      with inj show "nl_Pretty nl q \<notin> fst ` set (acc @ [(nl_Pretty nl p, r)])" by auto
    qed
    ultimately show ?case using Cons.IH [of "acc @ [(nl_Pretty nl p, r)]"] Cons.prems(1) x by simp
  qed simp
  with assms(2) show ?thesis by (simp add: auth_toJSON_def)
qed

lemma fromJSON_peers_back:
  assumes "net_lib_ok nl"
  shows "distinct (map fst peers) \<Longrightarrow> \<forall>p \<in> fst ` set peers. p \<notin> fst ` set acc \<Longrightarrow>
    fromJSON_peers nl (map (\<lambda>(pid, rules). (nl_Pretty nl pid, JArr (map JStr rules))) peers) acc = (Ok (), acc @ peers)"
proof (induction peers arbitrary: acc)
  case (Cons x peers)
  obtain p r where x: "x = (p, r)" by fastforce
  from assms have "nl_IDB58Decode nl (nl_Pretty nl p) = Ok p" by (simp add: net_lib_ok_def)
  then have "fromJSON_peer nl acc (nl_Pretty nl p, JArr (map JStr r)) = Ok (acc @ [(p, r)])"
    using Cons.prems x by (simp add: fromJSON_peer_def fromJSON_rules update_new map_of_eq_None_iff)
  moreover have "\<forall>q \<in> fst ` set peers. q \<notin> fst ` set (acc @ [(p, r)])"
  proof
    fix q assume "q \<in> fst ` set peers"
    with Cons.prems x have "q \<noteq> p" "q \<notin> fst ` set acc" by auto
    then show "q \<notin> fst ` set (acc @ [(p, r)])" by auto
  qed
  ultimately show ?case using Cons.IH [of "acc @ [(p, r)]"] Cons.prems(1) x by simp
qed simp

text \<open>The members may be visited in any order.\<close>

lemma fromJSON_any_order:
  assumes "net_lib_ok nl" "map_order ord" "distinct (map fst peers)"
  shows "\<exists>peers'. auth_fromJSON nl ord (map (\<lambda>(pid, rules). (nl_Pretty nl pid, JArr (map JStr rules))) peers) = (Ok (), peers') \<and>
    map_of peers' = map_of peers"
proof -
  let ?f = "\<lambda>(pid, rules). (nl_Pretty nl pid, JArr (map JStr rules))"
  have inj: "inj ?f"
  proof (rule injI)
    fix x y assume eq: "?f x = ?f y"
    obtain p r q t where xy: "x = (p, r)" "y = (q, t)" by fastforce
    with eq have e: "nl_Pretty nl p = nl_Pretty nl q" "map JStr r = map JStr t" by simp_all
    have "inj JStr" by (simp add: inj_def)
    from net_lib_inj [OF assms(1) e(1)] iffD1 [OF inj_map_eq_map [OF this] e(2)] xy show "x = y" by simp
  qed
  have "set (ord (map ?f peers)) = ?f ` set peers" using map_order_set [OF assms(2)] by simp
  then have "\<forall>y \<in> set (ord (map ?f peers)). \<exists>x. y = ?f x" by auto
  then have "\<exists>peers'. ord (map ?f peers) = map ?f peers'" by (simp only: ex_map_conv)
  then obtain peers' where p: "ord (map ?f peers) = map ?f peers'" by (rule exE)
  with \<open>set (ord (map ?f peers)) = ?f ` set peers\<close> have "?f ` set peers' = ?f ` set peers" by (simp only: list.set_map)
  then have same: "set peers' = set peers" using inj by (simp only: inj_image_eq_iff)
  have "distinct peers" using assms(3) distinct_map by blast
  then have "distinct (map ?f peers)" using inj_on_subset [OF inj subset_UNIV] by (simp add: distinct_map)
  from map_order_distinct [OF assms(2) this] p have "distinct peers'" by (simp add: distinct_map)
  moreover have "inj_on fst (set peers')" using assms(3) same by (simp add: distinct_map)
  ultimately have d: "distinct (map fst peers')" by (simp add: distinct_map)
  have "auth_fromJSON nl ord (map ?f peers) = (Ok (), peers')"
    using fromJSON_peers_back [OF assms(1) d, of "[]"] p by (simp add: auth_fromJSON_def)
  moreover have "map_of peers' = map_of peers" using map_of_inject_set [OF d assms(3)] same by simp
  ultimately show ?thesis by blast
qed

end
