(* ===== verification/NatConfig.thy ===== *)
theory NatConfig
  imports Handles
begin

text \<open>
  The NAT configuration of a node (\<open>mc/nat.go\<close>): its text form, the public address it stands for,
  and asking the ifconfig services for the public IP. The services are a parameter, the answers
  to their HTTP requests.
\<close>

section \<open>Configurations\<close>

datatype nat_opt = NATConfigNone | NATConfigAuto | NATConfigManual

record 'a NATConfig =
  nc_Opt :: nat_opt
  nc_spec :: string
  nc_addr :: "'a option"

fun natConfigString :: "nat_opt \<Rightarrow> string" where
  "natConfigString NATConfigNone = ''none''"
| "natConfigString NATConfigAuto = ''auto''"
| "natConfigString NATConfigManual = ''manual''"

definition NATConfig_String :: "'a NATConfig \<Rightarrow> string" where
  "NATConfig_String cfg =
     (case nc_Opt cfg of NATConfigManual \<Rightarrow> nc_spec cfg | opt \<Rightarrow> natConfigString opt)"

text \<open>
  The regular expression \<open>natcfgrx\<close> matches anywhere in the text: a star, or four runs of one to three digits with
  dots between them, a colon and a digit. The alternative of a star with a port adds nothing.
\<close>

definition digits13 :: "string \<Rightarrow> string option" where
  "digits13 s = (let d = takeWhile is_digit s in if 1 \<le> length d \<and> length d \<le> 3 then Some (dropWhile is_digit s) else None)"

definition after :: "char \<Rightarrow> string \<Rightarrow> string option" where
  "after c s = (case s of [] \<Rightarrow> None | x # r \<Rightarrow> if x = c then Some r else None)"

definition ip_port_prefix :: "string \<Rightarrow> bool" where
  "ip_port_prefix s =
     (case Option.bind (digits13 s) (\<lambda>s. Option.bind (after (CHR ''.'') s) (\<lambda>s. Option.bind (digits13 s)
        (\<lambda>s. Option.bind (after (CHR ''.'') s) (\<lambda>s. Option.bind (digits13 s) (\<lambda>s. Option.bind (after (CHR ''.'') s)
        (\<lambda>s. Option.bind (digits13 s) (after (CHR '':'')))))))) of
        Some (c # r) \<Rightarrow> is_digit c
      | _ \<Rightarrow> False)"

definition natcfgrx :: "string \<Rightarrow> bool" where
  "natcfgrx s = (CHR ''*'' \<in> set s \<or> list_ex (\<lambda>i. ip_port_prefix (drop i s)) [0 ..< length s])"

definition NATConfigFromString :: "string \<Rightarrow> 'a NATConfig outcome" where
  "NATConfigFromString str =
     (if str = ''none'' then Ok \<lparr>nc_Opt = NATConfigNone, nc_spec = [], nc_addr = None\<rparr>
      else if str = ''auto'' then Ok \<lparr>nc_Opt = NATConfigAuto, nc_spec = [], nc_addr = None\<rparr>
      else if \<not> natcfgrx str then Err BadAddressSpec
      else Ok \<lparr>nc_Opt = NATConfigManual, nc_spec = str, nc_addr = None\<rparr>)"

definition NATConfig_Clear :: "'a NATConfig \<Rightarrow> 'a NATConfig" where
  "NATConfig_Clear cfg = cfg\<lparr>nc_addr := None\<rparr>"

section \<open>The public IP\<close>

text \<open>\<open>net.ParseIP\<close> on the IPv6 syntax: whether a text is an address; \<open>k\<close> groups are left.\<close>

definition hex_val :: "char \<Rightarrow> int option" where
  "hex_val c = (let n = (of_char c :: int) in
     if 48 \<le> n \<and> n \<le> 57 then Some (n - 48) else if 97 \<le> n \<and> n \<le> 102 then Some (n - 87)
     else if 65 \<le> n \<and> n \<le> 70 then Some (n - 55) else None)"

definition hex_number :: "string \<Rightarrow> int" where
  "hex_number s = foldl (\<lambda>acc c. 16 * acc + the (hex_val c)) 0 s"

fun ipv6_groups :: "nat \<Rightarrow> bool \<Rightarrow> string \<Rightarrow> bool" where
  "ipv6_groups 0 ellipsis s = False"
| "ipv6_groups (Suc k) ellipsis s =
     (let h = takeWhile (\<lambda>c. hex_val c \<noteq> None) s; r = dropWhile (\<lambda>c. hex_val c \<noteq> None) s in
      if h = [] \<or> hex_number h > 65535 then False
      else (case r of
              [] \<Rightarrow> (if k = 0 then \<not> ellipsis else ellipsis)
            | c # r' \<Rightarrow>
                (if c = CHR ''.'' then ParseIP s \<noteq> None \<and> (if k = 1 then \<not> ellipsis else 1 < k \<and> ellipsis)
                 else if c \<noteq> CHR '':'' then False
                 else (case r' of
                         [] \<Rightarrow> False
                       | c' # r'' \<Rightarrow>
                           (if c' = CHR '':'' then \<not> ellipsis \<and> (if r'' = [] then 0 < k else ipv6_groups k True r'')
                            else ipv6_groups k ellipsis r')))))"

definition is_ipv6 :: "string \<Rightarrow> bool" where
  "is_ipv6 s = (if take 2 s = ''::'' then drop 2 s = [] \<or> ipv6_groups 8 True (drop 2 s) else ipv6_groups 8 False s)"

type_synonym http = "string \<Rightarrow> (int \<times> string outcome) outcome"

definition doGetPublicIP :: "http \<Rightarrow> string \<Rightarrow> string outcome" where
  "doGetPublicIP get url =
     obind (get url) (\<lambda>(status, body).
     if status \<noteq> 200 then Err IfconfigError
     else obind body (\<lambda>b.
       if ParseIP (TrimSpace b) = None \<and> \<not> is_ipv6 (TrimSpace b) then Err IfconfigError else Ok (TrimSpace b)))"

definition ifconfigSvc :: "string list" where
  "ifconfigSvc = [''http://ifconfig.mediachain.io/ip'', ''http://ifconfig.co/ip'']"

fun getFirstIP :: "http \<Rightarrow> string list \<Rightarrow> string outcome" where
  "getFirstIP get [] = Err IfconfigError"
| "getFirstIP get (url # urls) =
     (case doGetPublicIP get url of Ok ip \<Rightarrow> Ok ip | Err e \<Rightarrow> getFirstIP get urls | Panic m \<Rightarrow> Panic m)"

definition GetPublicIP :: "http \<Rightarrow> string outcome" where
  "GetPublicIP get = getFirstIP get ifconfigSvc"

section \<open>The public address\<close>

text \<open>\<open>tcp\<close> is the \<open>P_TCP\<close> value of the base address. The address is kept in the configuration.\<close>

definition makePublicAddr :: "('p, 'a) net_lib \<Rightarrow> string \<Rightarrow> string \<Rightarrow> 'a NATConfig \<Rightarrow> 'a outcome \<times> 'a NATConfig" where
  "makePublicAddr nl addr port cfg =
     (case nl_NewMultiaddr nl (''/ip4/'' @ addr @ ''/tcp/'' @ port) of
        Ok maddr \<Rightarrow> (Ok maddr, cfg\<lparr>nc_addr := Some maddr\<rparr>)
      | Err e \<Rightarrow> (Err e, cfg)
      | Panic m \<Rightarrow> (Panic m, cfg))"

fun withPublicIP :: "string outcome \<Rightarrow> (string \<Rightarrow> 'a outcome \<times> 'a NATConfig) \<Rightarrow> 'a NATConfig \<Rightarrow> 'a outcome \<times> 'a NATConfig" where
  "withPublicIP (Ok addr) f cfg = f addr"
| "withPublicIP (Err e) f cfg = (Err e, cfg)"
| "withPublicIP (Panic m) f cfg = (Panic m, cfg)"

definition PublicAddr ::
  "('p, 'a) net_lib \<Rightarrow> http \<Rightarrow> string outcome \<Rightarrow> 'a NATConfig \<Rightarrow> 'a outcome \<times> 'a NATConfig" where
  "PublicAddr nl get tcp cfg =
     (if nc_Opt cfg \<noteq> NATConfigManual then (Err BadAddressSpec, cfg)
      else (case nc_addr cfg of
              Some a \<Rightarrow> (Ok a, cfg)
            | None \<Rightarrow>
                (case LastIndex (nc_spec cfg) (CHR '':'') of
                   None \<Rightarrow>
                     withPublicIP (GetPublicIP get) (\<lambda>addr. withPublicIP tcp (\<lambda>port. makePublicAddr nl addr port cfg) cfg) cfg
                 | Some ix \<Rightarrow>
                     (if take ix (nc_spec cfg) = ''*''
                      then withPublicIP (GetPublicIP get) (\<lambda>addr. makePublicAddr nl addr (drop (Suc ix) (nc_spec cfg)) cfg) cfg
                      else makePublicAddr nl (take ix (nc_spec cfg)) (drop (Suc ix) (nc_spec cfg)) cfg))))"

section \<open>Reading back\<close>

text \<open>A configuration the program can hold: one read from a text, with or without a known address.\<close>

definition nat_ok :: "'a NATConfig \<Rightarrow> bool" where
  "nat_ok cfg \<longleftrightarrow>
     (case nc_Opt cfg of NATConfigManual \<Rightarrow> natcfgrx (nc_spec cfg) | _ \<Rightarrow> nc_spec cfg = [] \<and> nc_addr cfg = None)"

lemma natcfgrx_words: "\<not> natcfgrx ''none''" "\<not> natcfgrx ''auto''" "\<not> natcfgrx []"
  by code_simp+

lemma NATConfig_read_back: "nat_ok cfg \<Longrightarrow> NATConfigFromString (NATConfig_String cfg) = Ok (NATConfig_Clear cfg)"
  using natcfgrx_words
  by (cases cfg) (auto simp: nat_ok_def NATConfig_String_def NATConfigFromString_def NATConfig_Clear_def split: nat_opt.splits)

lemma NATConfigFromString_ok:
  "NATConfigFromString s = Ok cfg \<Longrightarrow> nat_ok cfg \<and> NATConfig_String cfg = s \<and> nc_addr cfg = None"
  by (auto simp: NATConfigFromString_def nat_ok_def NATConfig_String_def split: if_splits)

text \<open>Asking for the public address fails without effect, or keeps the address it returns.\<close>

definition addr_result :: "'a NATConfig \<Rightarrow> 'a outcome \<times> 'a NATConfig \<Rightarrow> bool" where
  "addr_result cfg rc \<longleftrightarrow>
     (case rc of (Ok a, cfg') \<Rightarrow> nc_Opt cfg = NATConfigManual \<and> cfg' = cfg\<lparr>nc_addr := Some a\<rparr> | (r, cfg') \<Rightarrow> cfg' = cfg)"

lemma addr_result_make: "nc_Opt cfg = NATConfigManual \<Longrightarrow> addr_result cfg (makePublicAddr nl x y cfg)"
  by (simp add: addr_result_def makePublicAddr_def split: outcome.split)

lemma addr_result_withPublicIP: "(\<And>x. addr_result cfg (f x)) \<Longrightarrow> addr_result cfg (withPublicIP r f cfg)"
  by (cases r) (simp_all add: addr_result_def)

lemma PublicAddr_result: "addr_result cfg (PublicAddr nl get tcp cfg)"
proof (cases "nc_Opt cfg = NATConfigManual")
  case True
  show ?thesis
  proof (cases "nc_addr cfg")
    case None
    with True show ?thesis
      by (auto simp: PublicAddr_def intro!: addr_result_withPublicIP addr_result_make split: option.split)
  next
    case (Some a)
    with True show ?thesis by (cases cfg) (simp add: PublicAddr_def addr_result_def)
  qed
qed (simp add: PublicAddr_def addr_result_def)

lemma PublicAddr_ok: "nat_ok cfg \<Longrightarrow> nat_ok (snd (PublicAddr nl get tcp cfg))"
  using PublicAddr_result [of cfg nl get tcp]
  by (cases "PublicAddr nl get tcp cfg") (auto simp: addr_result_def nat_ok_def split: outcome.splits)

text \<open>
  Once known the public address stays the same until it is cleared, whatever the services answer
  and whatever the base address is.
\<close>

lemma PublicAddr_stable:
  assumes "PublicAddr nl get tcp cfg = (Ok a, cfg')"
  shows "PublicAddr nl get' tcp' cfg' = (Ok a, cfg')"
  using PublicAddr_result [of cfg nl get tcp] by (simp add: assms addr_result_def) (simp add: PublicAddr_def)

end
