(* ===== verification/Config.thy ===== *)
theory Config
  imports Manifest Auth NatConfig
begin

text \<open>
  The persistent configuration of a node (\<open>saveConfig\<close> and \<open>loadConfig\<close> in \<open>mcnode/node.go\<close>): what
  is written to the file and what is read from it. The file holds a JSON value. The JSON form of a
  manifest is that of a library, a parameter.
\<close>

section \<open>State and file\<close>

text \<open>The part of a node that is saved.\<close>

record ('p, 'a) node_conf =
  n_info :: string
  n_natCfg :: "'a NATConfig"
  n_dir :: "('p, 'a) peer_info list"
  n_auth :: "'p rules"
  n_mfs :: "manifest list"

record NodeConfig =
  cfg_Info :: string
  cfg_NAT :: string
  cfg_Dir :: string
  cfg_Dirs :: "string list"
  cfg_Auth :: "(string \<times> json) list"
  cfg_Manifest :: "manifest list"

record manifest_json =
  mj_marshal :: "manifest \<Rightarrow> json outcome"
  mj_unmarshal :: "json \<Rightarrow> manifest outcome"

text \<open>What the file holds: nothing, text that is no JSON, or a JSON value; or it cannot be read.\<close>

datatype conf_file = NoFile | BadFile | ConfFile json | Unreadable go_error

section \<open>Encoding\<close>

text \<open>\<open>omitempty\<close>: a member is left out when its value is empty.\<close>

definition json_member :: "string \<Rightarrow> bool \<Rightarrow> json \<Rightarrow> (string \<times> json) list" where
  "json_member name e v = (if e then [] else [(name, v)])"

definition marshalConfig :: "manifest_json \<Rightarrow> NodeConfig \<Rightarrow> json outcome" where
  "marshalConfig mj cfg =
     obind (omap (mj_marshal mj) (cfg_Manifest cfg)) (\<lambda>mfs.
     Ok (JObj (json_member ''info'' (cfg_Info cfg = []) (enc_string (cfg_Info cfg)) @
               json_member ''nat'' (cfg_NAT cfg = []) (enc_string (cfg_NAT cfg)) @
               json_member ''dir'' (cfg_Dir cfg = []) (enc_string (cfg_Dir cfg)) @
               json_member ''dirs'' (cfg_Dirs cfg = []) (JArr (map enc_string (cfg_Dirs cfg))) @
               json_member ''auth'' (cfg_Auth cfg = []) (JObj (cfg_Auth cfg)) @
               json_member ''manifest'' (cfg_Manifest cfg = []) (JArr mfs))))"

text \<open>The rules of a peer, a string slice, inside the map of the configuration.\<close>

definition enc_rules :: "(string \<times> string list) list \<Rightarrow> (string \<times> json) list" where
  "enc_rules rmap = map (\<lambda>(id58, rules). (coerce_utf8 id58, JArr (map enc_string rules))) rmap"

text \<open>\<open>write\<close> is the outcome of writing the file; a failed write may leave anything behind.\<close>

definition saveConfig ::
  "('p, 'a) net_lib \<Rightarrow> manifest_json \<Rightarrow> (json \<Rightarrow> unit outcome \<times> conf_file) \<Rightarrow> ('p, 'a) node_conf \<Rightarrow> conf_file \<Rightarrow>
   unit outcome \<times> conf_file" where
  "saveConfig nl mj write node file =
     (case marshalConfig mj
         \<lparr>cfg_Info = n_info node, cfg_NAT = NATConfig_String (n_natCfg node), cfg_Dir = [],
          cfg_Dirs = (if length (n_dir node) > 0 then map (FormatHandle nl) (n_dir node) else []),
          cfg_Auth = enc_rules (auth_toJSON nl (n_auth node)), cfg_Manifest = n_mfs node\<rparr> of
        Ok bytes \<Rightarrow> write bytes
      | Err e \<Rightarrow> (Err e, file)
      | Panic m \<Rightarrow> (Panic m, file))"

definition write_ok :: "json \<Rightarrow> unit outcome \<times> conf_file" where
  "write_ok v = (Ok (), ConfFile v)"

section \<open>Decoding\<close>

definition dec_manifests :: "manifest_json \<Rightarrow> json \<Rightarrow> manifest list outcome" where
  "dec_manifests mj v =
     (case v of JArr vs \<Rightarrow> omap (mj_unmarshal mj) vs | _ \<Rightarrow> json_err ''cannot unmarshal into []*proto.Manifest'')"

definition unmarshalConfig :: "manifest_json \<Rightarrow> json \<Rightarrow> NodeConfig outcome" where
  "unmarshalConfig mj v =
     obind (if v = JNull then Ok [] else dec_object v) (\<lambda>obj.
     obind (get_field dec_string [] ''info'' obj) (\<lambda>info.
     obind (get_field dec_string [] ''nat'' obj) (\<lambda>nat.
     obind (get_field dec_string [] ''dir'' obj) (\<lambda>dir.
     obind (get_field dec_strings [] ''dirs'' obj) (\<lambda>dirs.
     obind (get_field dec_object [] ''auth'' obj) (\<lambda>auth.
     obind (get_field (dec_manifests mj) [] ''manifest'' obj) (\<lambda>mfs.
     Ok \<lparr>cfg_Info = info, cfg_NAT = nat, cfg_Dir = dir, cfg_Dirs = dirs, cfg_Auth = auth, cfg_Manifest = mfs\<rparr>)))))))"

text \<open>The directories of a configuration; \<open>old\<close> when it names none.\<close>

definition configDirs ::
  "('p, 'a) net_lib \<Rightarrow> NodeConfig \<Rightarrow> ('p, 'a) peer_info list \<Rightarrow> ('p, 'a) peer_info list outcome" where
  "configDirs nl cfg old =
     (if cfg_Dir cfg \<noteq> [] then obind (ParseHandle nl (cfg_Dir cfg)) (\<lambda>pinfo. Ok [pinfo])
      else if length (cfg_Dirs cfg) > 0 then omap (ParseHandle nl) (cfg_Dirs cfg)
      else Ok old)"

text \<open>The assignments up to the first error stay.\<close>

definition applyConfig ::
  "('p, 'a) net_lib \<Rightarrow> ((string \<times> json) list \<Rightarrow> (string \<times> json) list) \<Rightarrow> NodeConfig \<Rightarrow> ('p, 'a) node_conf \<Rightarrow>
   unit outcome \<times> ('p, 'a) node_conf" where
  "applyConfig nl ord cfg node =
     (let node = node\<lparr>n_info := cfg_Info cfg\<rparr> in
      case NATConfigFromString (cfg_NAT cfg) of
        Err e \<Rightarrow> (Err e, node)
      | Panic m \<Rightarrow> (Panic m, node)
      | Ok natCfg \<Rightarrow>
          (let node = node\<lparr>n_natCfg := natCfg\<rparr> in
           case configDirs nl cfg (n_dir node) of
             Err e \<Rightarrow> (Err e, node)
           | Panic m \<Rightarrow> (Panic m, node)
           | Ok dirs \<Rightarrow>
               (let node = node\<lparr>n_dir := dirs\<rparr> in
                case auth_fromJSON nl ord (cfg_Auth cfg) of
                  (Ok u, peers) \<Rightarrow> (Ok (), node\<lparr>n_auth := peers, n_mfs := cfg_Manifest cfg\<rparr>)
                | (r, peers) \<Rightarrow> (r, node\<lparr>n_auth := peers\<rparr>))))"

definition loadConfig ::
  "('p, 'a) net_lib \<Rightarrow> manifest_json \<Rightarrow> ((string \<times> json) list \<Rightarrow> (string \<times> json) list) \<Rightarrow> conf_file \<Rightarrow> ('p, 'a) node_conf \<Rightarrow>
   unit outcome \<times> ('p, 'a) node_conf" where
  "loadConfig nl mj ord file node =
     (case file of
        NoFile \<Rightarrow> (Ok (), node)
      | Unreadable e \<Rightarrow> (Err e, node)
      | BadFile \<Rightarrow> (json_err ''invalid'', node)
      | ConfFile v \<Rightarrow>
          (case unmarshalConfig mj v of
             Ok cfg \<Rightarrow> applyConfig nl ord cfg node
           | Err e \<Rightarrow> (Err e, node)
           | Panic m \<Rightarrow> (Panic m, node)))"

text \<open>The node before its configuration is loaded.\<close>

definition fresh_conf :: "('p, 'a) node_conf" where
  "fresh_conf = \<lparr>n_info = [], n_natCfg = \<lparr>nc_Opt = NATConfigNone, nc_spec = [], nc_addr = None\<rparr>, n_dir = [], n_auth = [], n_mfs = []\<rparr>"

section \<open>Reading back\<close>

text \<open>
  The configurations that survive: the texts are UTF-8, a directory has at most one address, as those
  that are parsed from handles, the NAT configuration was read from a text, and the rules are a map.
\<close>

definition conf_ok :: "('p, 'a) net_lib \<Rightarrow> ('p, 'a) node_conf \<Rightarrow> bool" where
  "conf_ok nl node \<longleftrightarrow>
     valid_utf8 (n_info node) \<and>
     nat_ok (n_natCfg node) \<and> valid_utf8 (NATConfig_String (n_natCfg node)) \<and>
     (\<forall>d \<in> set (n_dir node). length (pi_Addrs d) \<le> 1 \<and> valid_utf8 (FormatHandle nl d)) \<and>
     distinct (map fst (n_auth node)) \<and>
     (\<forall>(pid, rules) \<in> set (n_auth node). valid_utf8 (nl_Pretty nl pid) \<and> (\<forall>r \<in> set rules. valid_utf8 r))"

definition manifest_json_ok :: "manifest_json \<Rightarrow> bool" where
  "manifest_json_ok mj \<longleftrightarrow> (\<forall>mf. \<exists>v. mj_marshal mj mf = Ok v \<and> mj_unmarshal mj v = Ok mf)"

lemma json_fields_append: "json_fields name (a @ b) = json_fields name a @ json_fields name b"
  by (simp add: json_fields_def)

lemma json_fields_member:
  "json_fields name (json_member n e v) = (if map lower_char n = map lower_char name \<and> \<not> e \<and> v \<noteq> JNull then [v] else [])"
  by (simp add: json_fields_def json_member_def)

lemma enc_string_not_null [simp]: "enc_string s \<noteq> JNull"
  by (simp add: enc_string_def)

lemma dec_enc_strings: "\<forall>s \<in> set xs. valid_utf8 s \<Longrightarrow> dec_strings (JArr (map enc_string xs)) = Ok xs"
  by (induction xs) (simp_all add: enc_string_valid)

lemma dec_enc_manifests: "manifest_json_ok mj \<Longrightarrow> \<exists>vs. omap (mj_marshal mj) mfs = Ok vs \<and> omap (mj_unmarshal mj) vs = Ok mfs"
proof (induction mfs)
  case (Cons mf mfs)
  then obtain v vs where "mj_marshal mj mf = Ok v" "mj_unmarshal mj v = Ok mf" "omap (mj_marshal mj) mfs = Ok vs" "omap (mj_unmarshal mj) vs = Ok mfs"
    unfolding manifest_json_ok_def by blast
  then have "omap (mj_marshal mj) (mf # mfs) = Ok (v # vs) \<and> omap (mj_unmarshal mj) (v # vs) = Ok (mf # mfs)" by simp
  then show ?case by blast
qed simp

lemma unmarshal_marshal:
  assumes "manifest_json_ok mj" "valid_utf8 (cfg_Info cfg)" "valid_utf8 (cfg_NAT cfg)" "cfg_Dir cfg = []" "\<forall>d \<in> set (cfg_Dirs cfg). valid_utf8 d"
  shows "\<exists>v. marshalConfig mj cfg = Ok v \<and> unmarshalConfig mj v = Ok cfg"
proof -
  obtain vs where vs: "omap (mj_marshal mj) (cfg_Manifest cfg) = Ok vs" "omap (mj_unmarshal mj) vs = Ok (cfg_Manifest cfg)"
    using dec_enc_manifests [OF assms(1)] by blast
  define obj where "obj = json_member ''info'' (cfg_Info cfg = []) (enc_string (cfg_Info cfg)) @
               json_member ''nat'' (cfg_NAT cfg = []) (enc_string (cfg_NAT cfg)) @
               json_member ''dir'' (cfg_Dir cfg = []) (enc_string (cfg_Dir cfg)) @
               json_member ''dirs'' (cfg_Dirs cfg = []) (JArr (map enc_string (cfg_Dirs cfg))) @
               json_member ''auth'' (cfg_Auth cfg = []) (JObj (cfg_Auth cfg)) @
               json_member ''manifest'' (cfg_Manifest cfg = []) (JArr vs)"
  have fields: "json_fields ''info'' obj = (if cfg_Info cfg = [] then [] else [enc_string (cfg_Info cfg)])"
    "json_fields ''nat'' obj = (if cfg_NAT cfg = [] then [] else [enc_string (cfg_NAT cfg)])"
    "json_fields ''dir'' obj = []"
    "json_fields ''dirs'' obj = (if cfg_Dirs cfg = [] then [] else [JArr (map enc_string (cfg_Dirs cfg))])"
    "json_fields ''auth'' obj = (if cfg_Auth cfg = [] then [] else [JObj (cfg_Auth cfg)])"
    "json_fields ''manifest'' obj = (if cfg_Manifest cfg = [] then [] else [JArr vs])"
    by (simp_all add: obj_def json_fields_append json_fields_member lower_char_def assms(4))
  have "get_field dec_string [] ''info'' obj = Ok (cfg_Info cfg)" "get_field dec_string [] ''nat'' obj = Ok (cfg_NAT cfg)"
    "get_field dec_string [] ''dir'' obj = Ok []"
    using assms(2,3) by (simp_all add: get_field_def fields enc_string_valid)
  moreover have "get_field dec_strings [] ''dirs'' obj = Ok (cfg_Dirs cfg)"
    using dec_enc_strings [OF assms(5)] by (simp add: get_field_def fields del: dec_strings.simps)
  moreover have "get_field dec_object [] ''auth'' obj = Ok (cfg_Auth cfg)" by (simp add: get_field_def fields)
  moreover have "get_field (dec_manifests mj) [] ''manifest'' obj = Ok (cfg_Manifest cfg)"
    using vs(2) by (simp add: get_field_def fields dec_manifests_def)
  ultimately have "unmarshalConfig mj (JObj obj) = Ok cfg" using assms(4) by (simp add: unmarshalConfig_def)
  moreover have "marshalConfig mj cfg = Ok (JObj obj)" by (simp add: marshalConfig_def vs(1) obj_def)
  ultimately show ?thesis by blast
qed

lemma auth_roundtrip:
  assumes "net_lib_ok nl" "map_order ord" "distinct (map fst peers)"
    and "\<forall>(pid, rules) \<in> set peers. valid_utf8 (nl_Pretty nl pid) \<and> (\<forall>r \<in> set rules. valid_utf8 r)"
  shows "\<exists>peers'. auth_fromJSON nl ord (enc_rules (auth_toJSON nl peers)) = (Ok (), peers') \<and> map_of peers' = map_of peers"
proof -
  have "enc_rules (auth_toJSON nl peers) = map (\<lambda>(pid, rules). (nl_Pretty nl pid, JArr (map JStr rules))) peers"
    using assms(4) unfolding auth_toJSON_eq [OF assms(1,3)] enc_rules_def
    by (auto simp: enc_string_def valid_utf8_def)
  then show ?thesis using fromJSON_any_order [OF assms(1-3)] by simp
qed

lemma save_load:
  assumes "net_lib_ok nl" "manifest_json_ok mj" "map_order ord" "conf_ok nl node"
  shows "\<exists>file peers. saveConfig nl mj write_ok node file0 = (Ok (), file) \<and>
    loadConfig nl mj ord file fresh_conf = (Ok (), node\<lparr>n_natCfg := NATConfig_Clear (n_natCfg node), n_auth := peers\<rparr>) \<and>
    map_of peers = map_of (n_auth node)"
proof -
  let ?auth = "enc_rules (auth_toJSON nl (n_auth node))"
  let ?cfg = "\<lparr>cfg_Info = n_info node, cfg_NAT = NATConfig_String (n_natCfg node), cfg_Dir = [],
     cfg_Dirs = (if length (n_dir node) > 0 then map (FormatHandle nl) (n_dir node) else []), cfg_Auth = ?auth, cfg_Manifest = n_mfs node\<rparr>"
  have "\<exists>v. marshalConfig mj ?cfg = Ok v \<and> unmarshalConfig mj v = Ok ?cfg"
    using assms(4) by (intro unmarshal_marshal [OF assms(2)]) (auto simp: conf_ok_def)
  then obtain v where v: "marshalConfig mj ?cfg = Ok v" "unmarshalConfig mj v = Ok ?cfg" by blast
  have dirs: "configDirs nl ?cfg [] = Ok (n_dir node)"
    using assms(4) by (auto simp: configDirs_def conf_ok_def omap_map_back ParseHandle_FormatHandle [OF assms(1)])
  from assms(4) have "distinct (map fst (n_auth node))"
    "\<forall>(pid, rules) \<in> set (n_auth node). valid_utf8 (nl_Pretty nl pid) \<and> (\<forall>r \<in> set rules. valid_utf8 r)"
    by (simp_all add: conf_ok_def)
  from auth_roundtrip [OF assms(1,3) this]
  obtain peers where peers: "auth_fromJSON nl ord ?auth = (Ok (), peers)" "map_of peers = map_of (n_auth node)" by blast
  have "loadConfig nl mj ord (ConfFile v) fresh_conf = (Ok (), node\<lparr>n_natCfg := NATConfig_Clear (n_natCfg node), n_auth := peers\<rparr>)"
    using v(2) dirs peers(1) assms(4)
    by (simp add: loadConfig_def applyConfig_def fresh_conf_def conf_ok_def NATConfig_read_back Let_def)
  moreover have "saveConfig nl mj write_ok node file0 = (Ok (), ConfFile v)" using v(1) by (simp add: saveConfig_def write_ok_def)
  ultimately show ?thesis using peers(2) by blast
qed

text \<open>What a node saves it loads again: after a successful save, a fresh node that loads the file has the same
  info, NAT configuration, directories and manifests, and the same rules for every peer, in whatever order the
  members are visited. Only the cached public address is forgotten.\<close>

theorem config_roundtrip:
  assumes "net_lib_ok nl" "manifest_json_ok mj" "map_order ord" "conf_ok nl node"
  shows "\<exists>file peers. saveConfig nl mj write_ok node file0 = (Ok (), file) \<and>
    loadConfig nl mj ord file fresh_conf = (Ok (), node\<lparr>n_natCfg := NATConfig_Clear (n_natCfg node), n_auth := peers\<rparr>) \<and>
    map_of peers = map_of (n_auth node)"
  using save_load [OF assms] .

text \<open>A configuration for the witness, with a library for manifests that shows their entity.\<close>

definition sample_mj :: manifest_json where
  "sample_mj = \<lparr>mj_marshal = (\<lambda>mf. Ok (JObj [(''entity'', JStr (mf_Entity mf)), (''keyId'', JStr (mf_KeyId mf)),
       (''peer'', case mf_Body mf of Some (ManifestBody (Some n)) \<Rightarrow> JArr [JStr (nm_Peer n), JStr (nm_Publisher n)]
          | Some (ManifestBody None) \<Rightarrow> JArr [] | None \<Rightarrow> JNull),
       (''timestamp'', JNum (int_str (mf_Timestamp mf))),
       (''signature'', case mf_Signature mf of None \<Rightarrow> JNull | Some s \<Rightarrow> JStr s)])),
     mj_unmarshal = (\<lambda>v. case v of
       JObj [(_, JStr e), (_, JStr k), (_, b), (_, JNum t), (_, s)] \<Rightarrow>
         Ok \<lparr>mf_Entity = e, mf_KeyId = k,
              mf_Body = (case b of JArr [JStr p, JStr q] \<Rightarrow> Some (ManifestBody (Some \<lparr>nm_Peer = p, nm_Publisher = q\<rparr>))
                | JArr _ \<Rightarrow> Some (ManifestBody None) | _ \<Rightarrow> None),
              mf_Timestamp = (case t of c # r \<Rightarrow> if c = CHR ''-'' then - the (digits_val 0 r) else the (digits_val 0 t) | [] \<Rightarrow> 0),
              mf_Signature = (case s of JStr x \<Rightarrow> Some x | _ \<Rightarrow> None)\<rparr>
     | _ \<Rightarrow> json_err ''manifest'')\<rparr>"

lemma int_str_read: "(case int_str t of c # r \<Rightarrow> if c = CHR ''-'' then - the (digits_val 0 r) else the (digits_val 0 (int_str t)) | [] \<Rightarrow> 0) = t"
proof (cases "t < 0")
  case True
  then show ?thesis by (simp add: int_str_def digits_val_nat_str)
next
  case False
  obtain c r where c: "nat_str (nat t) = c # r" by (metis nat_str_nonempty neq_Nil_conv)
  then have "is_digit c" using nat_str_digit_set [of c "nat t"] by simp
  then have "c \<noteq> CHR ''-''" by auto
  with False c show ?thesis using digits_val_nat_str [of "nat t"] by (simp add: int_str_def)
qed

lemma sample_mj_ok: "manifest_json_ok sample_mj"
  unfolding manifest_json_ok_def
proof
  fix mf :: manifest
  show "\<exists>v. mj_marshal sample_mj mf = Ok v \<and> mj_unmarshal sample_mj v = Ok mf"
    by (cases mf) (auto simp: sample_mj_def int_str_read split: option.split manifest_body.split)
qed

definition sample_conf :: "(nat, string) node_conf" where
  "sample_conf = \<lparr>n_info = ''a node'', n_natCfg = \<lparr>nc_Opt = NATConfigManual, nc_spec = ''*:9001'', nc_addr = Some ''ip4/1.2.3.4/tcp/9001''\<rparr>,
     n_dir = [\<lparr>pi_ID = 4, pi_Addrs = [''ip4/5.6.7.8/tcp/9000'']\<rparr>, \<lparr>pi_ID = 5, pi_Addrs = []\<rparr>],
     n_auth = [(7, [''images.*'']), (8, [''*'', ''foo''])], n_mfs = [sample_manifest ''keybase:vyzo'' ''Qabc'']\<rparr>"

lemma sample_conf_ok: "conf_ok text_lib sample_conf"
proof -
  have "valid_utf8 (NATConfig_String (n_natCfg sample_conf))" "nat_ok (n_natCfg sample_conf)" "valid_utf8 (n_info sample_conf)"
    by code_simp+
  moreover have "list_all (\<lambda>d. length (pi_Addrs d) \<le> 1 \<and> valid_utf8 (FormatHandle text_lib d)) (n_dir sample_conf)" by code_simp
  moreover have "list_all (\<lambda>(pid, rules). valid_utf8 (nl_Pretty text_lib pid) \<and> list_all valid_utf8 rules) (n_auth sample_conf)"
    by code_simp
  moreover have "distinct (map fst (n_auth sample_conf))" by code_simp
  ultimately show ?thesis by (auto simp: conf_ok_def list_all_iff)
qed

theorem config_roundtrip_witness:
  "\<exists>file peers. saveConfig text_lib sample_mj write_ok sample_conf NoFile = (Ok (), file) \<and>
    loadConfig text_lib sample_mj rev file fresh_conf =
      (Ok (), sample_conf\<lparr>n_natCfg := NATConfig_Clear (n_natCfg sample_conf), n_auth := peers\<rparr>) \<and>
    map_of peers = map_of (n_auth sample_conf)"
  by (rule config_roundtrip [OF text_lib_ok sample_mj_ok map_order_rev sample_conf_ok])

text \<open>A file that does not name a NAT configuration, as one with only the old \<open>dir\<close> member, does not load.\<close>

theorem config_needs_nat:
  "fst (loadConfig text_lib sample_mj rev (ConfFile (JObj [(''dir'', JStr ''/p2p/4'')])) fresh_conf) = Err BadAddressSpec"
  by code_simp

end
