(* ===== verification/Node.thy ===== *)
theory Node
  imports DBCorrect
begin

text \<open>
  The node's own statements (\<open>mcnode/node.go\<close>): making and signing a statement, checking and
  verifying one, publishing and importing. Parameters: the clock and the cryptography library, in
  the record \<open>crypto\<close>; \<open>PublisherKey\<close> is the function of \<open>mc/identity.go\<close>.
\<close>

section \<open>State\<close>

datatype node_status = StatusOffline | StatusOnline | StatusPublic

text \<open>
  The publisher's id and the statement counter, a Go \<open>int\<close> of 64 bits.
\<close>

record publisher =
  ID58 :: string
  counter :: "64 word"

record 'k crypto =
  cr_marshal :: "statement \<Rightarrow> string option"
  cr_sign :: "string \<Rightarrow> string outcome"
  cr_b58decode :: "string \<Rightarrow> string"
  cr_unmarshal_key :: "string \<Rightarrow> 'k outcome"
  cr_verify :: "'k \<Rightarrow> string \<Rightarrow> string option \<Rightarrow> bool outcome"

definition PublisherKey :: "'k crypto \<Rightarrow> string \<Rightarrow> 'k outcome" where
  "PublisherKey cr id58 = cr_unmarshal_key cr (cr_b58decode cr id58)"

definition stmtCounter :: "publisher \<Rightarrow> 64 word \<times> publisher" where
  "stmtCounter p = (counter p, p\<lparr>counter := counter p + 1\<rparr>)"

section \<open>Making statements\<close>

definition signStatement :: "'k crypto \<Rightarrow> statement \<Rightarrow> statement outcome" where
  "signStatement cr st =
     obind (of_option MarshalError (cr_marshal cr st)) (\<lambda>bytes.
     obind (cr_sign cr bytes) (\<lambda>sig.
     Ok (with_signature (Some sig) st)))"

text \<open>\<open>fmt.Sprintf("%s:%d:%d", pid, ts, counter)\<close>.\<close>

definition statement_id :: "string \<Rightarrow> int \<Rightarrow> 64 word \<Rightarrow> string" where
  "statement_id pid ts c = pid @ '':'' @ int_str ts @ '':'' @ int_str (sint c)"

text \<open>
  \<open>ts\<close> is the time of the call. The body argument has any type: \<open>None\<close> is a value of none of the
  four body types. A statement is made with a counter even when it then fails.
\<close>

definition makeStatement ::
  "'k crypto \<Rightarrow> int \<Rightarrow> string \<Rightarrow> body_oneof option \<Rightarrow> publisher \<Rightarrow> statement outcome \<times> publisher" where
  "makeStatement cr ts ns body p =
     (let (c, p') = stmtCounter p; pid = ID58 p in
      (case body of
         None \<Rightarrow> Err BadStatementBody
       | Some b \<Rightarrow> signStatement cr (Statement (statement_id pid ts c) pid ns (Some (StatementBody (Some b))) ts None),
       p'))"

fun makeStatements ::
  "'k crypto \<Rightarrow> (nat \<Rightarrow> int) \<Rightarrow> nat \<Rightarrow> string \<Rightarrow> body_oneof option list \<Rightarrow> publisher \<Rightarrow> statement list outcome \<times> publisher" where
  "makeStatements cr now x ns [] p = (Ok [], p)"
| "makeStatements cr now x ns (b # bs) p =
     (case makeStatement cr (now x) ns b p of
        (Ok st, p') \<Rightarrow>
          (case makeStatements cr now (Suc x) ns bs p' of
             (Ok sts, p'') \<Rightarrow> (Ok (st # sts), p'')
           | (Err e, p'') \<Rightarrow> (Err e, p'')
           | (Panic m, p'') \<Rightarrow> (Panic m, p''))
      | (Err e, p') \<Rightarrow> (Err e, p')
      | (Panic m, p') \<Rightarrow> (Panic m, p'))"

definition doPublish ::
  "'k crypto \<Rightarrow> faults \<Rightarrow> (string list \<Rightarrow> string list) \<Rightarrow> int \<Rightarrow> string \<Rightarrow> body_oneof option \<Rightarrow> publisher \<times> sqldb \<Rightarrow>
   string outcome \<times> publisher \<times> sqldb" where
  "doPublish cr fl rord ts ns body = (\<lambda>(p, db).
     (case makeStatement cr ts ns body p of
        (Ok st, p') \<Rightarrow>
          (case db_Put fl rord (cr_marshal cr) st db of
             (Ok u, db') \<Rightarrow> (Ok (Id st), p', db')
           | (Err e, db') \<Rightarrow> (Err e, p', db')
           | (Panic m, db') \<Rightarrow> (Panic m, p', db'))
      | (Err e, p') \<Rightarrow> (Err e, p', db)
      | (Panic m, p') \<Rightarrow> (Panic m, p', db)))"

definition doPublishBatch ::
  "'k crypto \<Rightarrow> faults \<Rightarrow> (string list \<Rightarrow> string list) \<Rightarrow> (nat \<Rightarrow> int) \<Rightarrow> string \<Rightarrow> body_oneof option list \<Rightarrow> publisher \<times> sqldb \<Rightarrow>
   string list outcome \<times> publisher \<times> sqldb" where
  "doPublishBatch cr fl rord now ns lst = (\<lambda>(p, db).
     (case makeStatements cr now 0 ns lst p of
        (Ok sts, p') \<Rightarrow>
          (case db_PutBatch fl rord (cr_marshal cr) sts db of
             (Ok u, db') \<Rightarrow> (Ok (map Id sts), p', db')
           | (Err e, db') \<Rightarrow> (Err e, p', db')
           | (Panic m, db') \<Rightarrow> (Panic m, p', db'))
      | (Err e, p') \<Rightarrow> (Err e, p', db)
      | (Panic m, p') \<Rightarrow> (Panic m, p', db)))"

section \<open>Checking statements\<close>

definition checkStatement :: "statement \<Rightarrow> bool" where
  "checkStatement st =
     (Id st \<noteq> [] \<and> Publisher st \<noteq> [] \<and> Namespace st \<noteq> [] \<and> Timestamp st > 0 \<and> Body st \<noteq> None \<and> Signature st \<noteq> None)"

text \<open>The signature is over the statement without it.\<close>

definition verifyStatementSig :: "'k crypto \<Rightarrow> statement \<Rightarrow> 'k \<Rightarrow> bool outcome" where
  "verifyStatementSig cr st pubk =
     obind (of_option MarshalError (cr_marshal cr (with_signature None st))) (\<lambda>bytes.
     cr_verify cr pubk bytes (Signature st))"

definition verifyStatement :: "'k crypto \<Rightarrow> statement \<Rightarrow> bool outcome" where
  "verifyStatement cr st = obind (PublisherKey cr (Publisher st)) (verifyStatementSig cr st)"

type_synonym 'k pkcache = "string \<Rightarrow> 'k option"

definition verifyStatementCacheKeys :: "'k crypto \<Rightarrow> statement \<Rightarrow> 'k pkcache \<Rightarrow> bool outcome \<times> 'k pkcache" where
  "verifyStatementCacheKeys cr st cache =
     (case cache (Publisher st) of
        Some pubk \<Rightarrow> (verifyStatementSig cr st pubk, cache)
      | None \<Rightarrow>
          (case PublisherKey cr (Publisher st) of
             Ok pubk \<Rightarrow> (verifyStatementSig cr st pubk, cache(Publisher st \<mapsto> pubk))
           | Err e \<Rightarrow> (Err e, cache)
           | Panic m \<Rightarrow> (Panic m, cache)))"

section \<open>Importing\<close>

text \<open>The check both the import and the merge make of every statement: \<open>checkStatement\<close>, then the signature.\<close>

definition admit :: "'k crypto \<Rightarrow> statement \<Rightarrow> 'k pkcache \<Rightarrow> 'k pkcache outcome" where
  "admit cr st cache =
     (if \<not> checkStatement st then Err BadStatement
      else (case verifyStatementCacheKeys cr st cache of
              (Ok verify, cache') \<Rightarrow> (if verify then Ok cache' else Err BadStatement)
            | (Err e, cache') \<Rightarrow> Err e
            | (Panic m, cache') \<Rightarrow> Panic m))"

definition doImport ::
  "'k crypto \<Rightarrow> faults \<Rightarrow> (string list \<Rightarrow> string list) \<Rightarrow> statement list \<Rightarrow> 'k pkcache \<Rightarrow> sqldb \<Rightarrow> int outcome \<times> sqldb" where
  "doImport cr fl rord stmts pkcache db =
     (case ofold (\<lambda>cache st. admit cr st cache) pkcache stmts of
        Ok cache \<Rightarrow> db_MergeBatch fl rord (cr_marshal cr) stmts db
      | Err e \<Rightarrow> (Err e, db)
      | Panic m \<Rightarrow> (Panic m, db))"

section \<open>The key cache is transparent\<close>

definition cache_ok :: "'k crypto \<Rightarrow> 'k pkcache \<Rightarrow> bool" where
  "cache_ok cr cache \<longleftrightarrow> (\<forall>p k. cache p = Some k \<longrightarrow> PublisherKey cr p = Ok k)"

text \<open>A statement that may be stored: complete, and signed by its publisher.\<close>

definition authentic :: "'k crypto \<Rightarrow> statement \<Rightarrow> bool" where
  "authentic cr st \<longleftrightarrow> checkStatement st \<and> verifyStatement cr st = Ok True"

lemma cache_ok_empty [simp]: "cache_ok cr Map.empty"
  by (simp add: cache_ok_def)

lemma verify_cache:
  assumes "cache_ok cr cache"
  shows "fst (verifyStatementCacheKeys cr st cache) = verifyStatement cr st" "cache_ok cr (snd (verifyStatementCacheKeys cr st cache))"
  using assms unfolding verifyStatementCacheKeys_def verifyStatement_def cache_ok_def
  by (auto split: option.splits outcome.splits)

lemma admit_iff:
  assumes "cache_ok cr cache"
  shows "(\<exists>cache'. admit cr st cache = Ok cache') \<longleftrightarrow> authentic cr st"
  using verify_cache(1) [OF assms, of st]
  by (cases "verifyStatementCacheKeys cr st cache") (auto simp: admit_def authentic_def split: outcome.splits)

lemma admit_cache: "cache_ok cr cache \<Longrightarrow> admit cr st cache = Ok cache' \<Longrightarrow> cache_ok cr cache' \<and> authentic cr st"
  using verify_cache [of cr cache st]
  by (cases "verifyStatementCacheKeys cr st cache") (auto simp: admit_def authentic_def split: if_splits outcome.splits)

lemma admit_all_iff:
  "cache_ok cr cache \<Longrightarrow> (\<exists>c. ofold (\<lambda>cache st. admit cr st cache) cache sts = Ok c) \<longleftrightarrow> list_all (authentic cr) sts"
proof (induction sts arbitrary: cache)
  case (Cons st sts)
  show ?case
  proof (cases "authentic cr st")
    case True
    with Cons.prems admit_iff obtain c where c: "admit cr st cache = Ok c" by blast
    with Cons.prems admit_cache have "cache_ok cr c" by blast
    from Cons.IH [OF this] c True show ?thesis by simp
  next
    case False
    with Cons.prems admit_iff [of cr cache st] show ?thesis by auto
  qed
qed simp

lemma doImport_spec:
  assumes "cache_ok cr cache" "doImport cr fl rord sts cache db = (r, db')"
  shows "(\<forall>n. r = Ok n \<longrightarrow> list_all (authentic cr) sts \<and> n = int (card (Id ` set sts - dom (stored db))) \<and>
      dom (stored db') = dom (stored db) \<union> Id ` set sts) \<and>
    (\<not> list_all (authentic cr) sts \<longrightarrow> db' = db \<and> (\<forall>n. r \<noteq> Ok n))"
proof (cases "list_all (authentic cr) sts")
  case True
  then obtain c where "ofold (\<lambda>cache st. admit cr st cache) cache sts = Ok c" using admit_all_iff [OF assms(1)] by blast
  with assms(2) have "db_MergeBatch fl rord (cr_marshal cr) sts db = (r, db')" by (simp add: doImport_def)
  with True show ?thesis using sqlite.merge_count [of fl rord "cr_marshal cr" sts db _ db'] by auto
next
  case False
  then have "\<nexists>c. ofold (\<lambda>cache st. admit cr st cache) cache sts = Ok c" using admit_all_iff [OF assms(1)] by blast
  with assms(2) False show ?thesis by (auto simp: doImport_def split: outcome.splits)
qed

text \<open>An import is all or nothing: it stores the batch, and counts the new ones, only when every
  statement is complete and its signature verifies under its publisher's key; otherwise the
  database is as before. The key cache never changes the answer.\<close>

theorem import_authentic:
  assumes "cache_ok cr cache" "doImport cr fl rord sts cache db = (r, db')"
  shows "(\<forall>n. r = Ok n \<longrightarrow> list_all (authentic cr) sts \<and> n = int (card (Id ` set sts - dom (stored db))) \<and>
      dom (stored db') = dom (stored db) \<union> Id ` set sts) \<and>
    (\<not> list_all (authentic cr) sts \<longrightarrow> db' = db \<and> (\<forall>n. r \<noteq> Ok n))"
  using doImport_spec [OF assms] .

section \<open>Publishing\<close>

lemma makeStatement_Ok:
  assumes "makeStatement cr ts ns body p = (Ok st, p')"
  shows "Id st = statement_id (ID58 p) ts (counter p)" "Publisher st = ID58 p" "Namespace st = ns" "Timestamp st = ts"
    "\<exists>b. body = Some b \<and> Body st = Some (StatementBody (Some b))"
    "\<exists>bytes sig. cr_marshal cr (with_signature None st) = Some bytes \<and> cr_sign cr bytes = Ok sig \<and> Signature st = Some sig"
    "p' = p\<lparr>counter := counter p + 1\<rparr>"
  using assms by (auto simp: makeStatement_def stmtCounter_def signStatement_def Let_def with_signature_def split: option.splits)

lemma makeStatements_Ok:
  "makeStatements cr now x ns bs p = (Ok sts, p') \<Longrightarrow>
   map Id sts = map (\<lambda>i. statement_id (ID58 p) (now (x + i)) (counter p + of_nat i)) [0 ..< length bs]"
proof (induction bs arbitrary: x p p' sts)
  case (Cons b bs)
  then obtain st p1 sts' where m: "makeStatement cr (now x) ns b p = (Ok st, p1)"
    "makeStatements cr now (Suc x) ns bs p1 = (Ok sts', p')" "sts = st # sts'"
    by (auto split: prod.splits outcome.splits)
  note st = makeStatement_Ok [OF m(1)]
  from Cons.IH [OF m(2)] st(1,7) m(3) show ?case
    by (simp add: upt_conv_Cons map_Suc_upt [symmetric] comp_def ac_simps del: upt_Suc)
qed simp

lemma statement_id_inject: "statement_id p t c = statement_id p t' c' \<Longrightarrow> c = c'"
proof -
  have colon: "CHR '':'' \<notin> set (int_str i)" for i
    using nat_str_digit_set [of "CHR '':''"] by (auto simp: int_str_def)
  assume "statement_id p t c = statement_id p t' c'"
  then have "int_str t @ CHR '':'' # int_str (sint c) = int_str t' @ CHR '':'' # int_str (sint c')"
    by (simp add: statement_id_def)
  then have "Split (int_str t @ CHR '':'' # int_str (sint c)) CHR '':'' = Split (int_str t' @ CHR '':'' # int_str (sint c')) CHR '':''"
    by simp
  then have "int_str (sint c) = int_str (sint c')" by (simp add: Split_append Split_no_sep colon)
  then show "c = c'" by (simp add: int_str_inject signed_word_eqI)
qed

text \<open>C15: The ids of a published batch are pairwise distinct, as long as the batch is shorter than the range of
  the 64-bit counter, whatever the clock does and even when the counter wraps around in it.\<close>

theorem publish_ids_distinct:
  assumes "length lst \<le> 2 ^ 64" "doPublishBatch cr fl rord now ns lst (p, db) = (Ok ids, p', db')"
  shows "distinct ids \<and> length ids = length lst"
proof -
  from assms(2) obtain sts p1 where "makeStatements cr now 0 ns lst p = (Ok sts, p1)" "ids = map Id sts"
    by (auto simp: doPublishBatch_def split: prod.splits outcome.splits)
  then have ids: "ids = map (\<lambda>i. statement_id (ID58 p) (now i) (counter p + of_nat i)) [0 ..< length lst]"
    using makeStatements_Ok by fastforce
  have "inj_on (\<lambda>i. statement_id (ID58 p) (now i) (counter p + of_nat i)) {0 ..< length lst}"
  proof (rule inj_onI)
    fix i j assume ij: "i \<in> {0 ..< length lst}" "j \<in> {0 ..< length lst}"
      and "statement_id (ID58 p) (now i) (counter p + of_nat i) = statement_id (ID58 p) (now j) (counter p + of_nat j)"
    then have "(of_nat i :: 64 word) = of_nat j" using statement_id_inject by fastforce
    moreover have "i < 2 ^ 64" "j < 2 ^ 64" using ij assms(1) by auto
    ultimately show "i = j" by (simp add: word_of_nat_eq_iff take_bit_nat_eq_self)
  qed
  then show ?thesis by (simp add: ids distinct_map)
qed

text \<open>
  A library for the witnesses: a signature is the signed bytes and the key's name is its owner; the
  bytes of a statement show its id, its publisher and whether it is signed.
\<close>

definition sample_crypto :: "string crypto" where
  "sample_crypto = \<lparr>cr_marshal = (\<lambda>st. Some (Id st @ '';'' @ Publisher st @ (if Signature st = None then [] else '';s''))),
     cr_sign = (\<lambda>b. Ok (''me'' @ b)), cr_b58decode = (\<lambda>s. s), cr_unmarshal_key = (\<lambda>s. Ok s),
     cr_verify = (\<lambda>k b sig. Ok (sig = Some (k @ b)))\<rparr>"

definition sample_body :: "body_oneof option" where
  "sample_body = Some (BodySimple \<lparr>s_Object = ''o'', s_Refs = [''r''], s_Tags = [], s_Deps = []\<rparr>)"

theorem publish_ids_distinct_witness:
  "\<exists>ids. fst (doPublishBatch sample_crypto (\<lambda>n. None) rev (\<lambda>n. 7) ''ns'' [sample_body, sample_body]
     (\<lparr>ID58 = ''me'', counter = - 1\<rparr>, empty_db)) = Ok ids \<and> distinct ids \<and> length ids = 2"
proof -
  let ?b = "[sample_body, sample_body]"
  let ?r = "doPublishBatch sample_crypto (\<lambda>n. None) rev (\<lambda>n. 7) ''ns'' ?b (\<lparr>ID58 = ''me'', counter = - 1\<rparr>, empty_db)"
  obtain ids where ids: "fst ?r = Ok ids" by (rule that [of "[''me:7:-1'', ''me:7:0'']"]) code_simp
  then have "?r = (Ok ids, fst (snd ?r), snd (snd ?r))" by (metis prod.collapse)
  from publish_ids_distinct [OF _ this] ids show ?thesis by simp
qed

definition sample_signed :: statement where
  "sample_signed = Statement ''Qa'' ''me'' ''ns'' (Some (StatementBody sample_body)) 7 (Some ''meQa;me'')"

theorem import_authentic_witness:
  "\<exists>n. fst (doImport sample_crypto (\<lambda>n. None) rev [sample_signed] Map.empty empty_db) = Ok n \<and>
     list_all (authentic sample_crypto) [sample_signed] \<and> n = int (card (Id ` set [sample_signed] - dom (stored empty_db)))"
proof -
  let ?r = "doImport sample_crypto (\<lambda>n. None) rev [sample_signed] Map.empty empty_db"
  obtain n where n: "fst ?r = Ok n" by (rule that [of 1]) code_simp
  then have "?r = (Ok n, snd ?r)" by (metis prod.collapse)
  from import_authentic [OF cache_ok_empty this] n show ?thesis by auto
qed

lemma published_authentic:
  assumes "\<And>b sig. cr_sign cr b = Ok sig \<Longrightarrow> \<exists>k. PublisherKey cr (ID58 p) = Ok k \<and> cr_verify cr k b (Some sig) = Ok True"
    and "\<And>st b. cr_marshal cr st = Some b \<Longrightarrow> unmarshal b = Ok st"
    and "doPublish cr fl rord ts ns body (p, db) = (Ok i, p', db')" "i \<noteq> []" "ID58 p \<noteq> []" "ns \<noteq> []" "0 < ts"
    and "fl (db_time db') = None"
  shows "\<exists>st. fst (db_Get fl unmarshal i db') = Ok st \<and> Id st = i \<and> Publisher st = ID58 p \<and> Namespace st = ns \<and> authentic cr st"
proof -
  from assms(3) obtain st where m: "makeStatement cr ts ns body p = (Ok st, p')" and i: "i = Id st"
    and put: "db_Put fl rord (cr_marshal cr) st db = (Ok (), db')"
    by (auto simp: doPublish_def split: prod.splits outcome.splits)
  note st = makeStatement_Ok [OF m]
  obtain b where b: "stored db' (Id st) = Some b" "cr_marshal cr st = Some b" using stored_Put [OF put] by blast
  have "fst (db_Get fl unmarshal i db') = Ok st"
    using b assms(2) [OF b(2)] by (simp add: db_Get_result [of fl db', OF assms(8)] i)
  moreover from st(6) obtain bytes sig where s: "cr_marshal cr (with_signature None st) = Some bytes" "cr_sign cr bytes = Ok sig" "Signature st = Some sig"
    by blast
  have "verifyStatement cr st = Ok True"
    using assms(1) [OF s(2)] s by (auto simp: verifyStatement_def verifyStatementSig_def st(2))
  moreover have "checkStatement st" using assms(4-7) s(3) st(2-5) i by (auto simp: checkStatement_def)
  ultimately show ?thesis using st(2,3) i by (auto simp: authentic_def)
qed

text \<open>Signing and verifying agree: what a node publishes under a non-empty namespace at a positive time passes
  the check and the signature verification that every import and merge makes, on every node, and
  Get returns it under the id the publisher was told. Hypotheses: the library verifies under the
  publisher's key what the private key signed, and unmarshals what it marshalled.\<close>

theorem publish_verifies:
  assumes "\<And>b sig. cr_sign cr b = Ok sig \<Longrightarrow> \<exists>k. PublisherKey cr (ID58 p) = Ok k \<and> cr_verify cr k b (Some sig) = Ok True"
    and "\<And>st b. cr_marshal cr st = Some b \<Longrightarrow> unmarshal b = Ok st"
    and "doPublish cr fl rord ts ns body (p, db) = (Ok i, p', db')" "i \<noteq> []" "ID58 p \<noteq> []" "ns \<noteq> []" "0 < ts"
    and "fl (db_time db') = None"
  shows "\<exists>st. fst (db_Get fl unmarshal i db') = Ok st \<and> Id st = i \<and> Namespace st = ns \<and> authentic cr st"
  using published_authentic [of cr p unmarshal fl rord ts ns body db i p' db'] assms by blast

definition sample_published :: "string option \<Rightarrow> statement" where
  "sample_published sig = Statement ''me:7:0'' ''me'' ''ns'' (Some (StatementBody sample_body)) 7 sig"

definition publish_crypto :: "string crypto" where
  "publish_crypto = sample_crypto\<lparr>cr_marshal := (\<lambda>st. if st = sample_published None then Some ''u''
     else if st = sample_published (Some ''meu'') then Some ''s'' else None)\<rparr>"

definition publish_unmarshal :: "string \<Rightarrow> statement outcome" where
  "publish_unmarshal b = (if b = ''u'' then Ok (sample_published None) else Ok (sample_published (Some ''meu'')))"

theorem publish_verifies_witness:
  "\<exists>st db'. doPublish publish_crypto (\<lambda>n. None) rev 7 ''ns'' sample_body (\<lparr>ID58 = ''me'', counter = 0\<rparr>, empty_db) =
       (Ok ''me:7:0'', \<lparr>ID58 = ''me'', counter = 1\<rparr>, db') \<and>
     fst (db_Get (\<lambda>n. None) publish_unmarshal ''me:7:0'' db') = Ok st \<and> authentic publish_crypto st"
proof -
  let ?p = "\<lparr>ID58 = ''me'', counter = 0\<rparr>"
  let ?r = "doPublish publish_crypto (\<lambda>n. None) rev 7 ''ns'' sample_body (?p, empty_db)"
  have keys: "cr_sign publish_crypto b = Ok sig \<Longrightarrow>
      \<exists>k. PublisherKey publish_crypto (ID58 ?p) = Ok k \<and> cr_verify publish_crypto k b (Some sig) = Ok True" for b sig
    by (simp add: publish_crypto_def sample_crypto_def PublisherKey_def)
  have trip: "cr_marshal publish_crypto st = Some b \<Longrightarrow> publish_unmarshal b = Ok st" for st b
    by (auto simp: publish_crypto_def publish_unmarshal_def split: if_splits)
  have "fst ?r = Ok ''me:7:0''" "fst (snd ?r) = \<lparr>ID58 = ''me'', counter = 1\<rparr>" by code_simp+
  then have r: "?r = (Ok ''me:7:0'', \<lparr>ID58 = ''me'', counter = 1\<rparr>, snd (snd ?r))" by (metis prod.collapse)
  show ?thesis using publish_verifies [where unmarshal = publish_unmarshal, OF keys trip r] r by auto
qed

end
