(* ===== verification/Objects.thy ===== *)
theory Objects
  imports Prelude "HOL-Library.AList"
begin

text \<open>
  Object keys (\<open>Hash\<close>, \<open>HashFromBytes\<close> of \<open>mc/util.go\<close>) and the datastore of \<open>mcnode/ds.go\<close>, which
  keeps a RocksDB table from digests to objects. Parameters: the SHA2-256 function \<open>digest\<close>, the
  oracle of failing RocksDB calls and the order of its iterator. The contract of the datastore is
  the locale \<open>object_store\<close>, in which the facts the merge and the collector need are proved once.
\<close>

section \<open>Keys\<close>

text \<open>A multihash: the code of the hash function (0x12 is SHA2-256), the length, the digest.\<close>

definition Hash :: "(string \<Rightarrow> string) \<Rightarrow> string \<Rightarrow> string" where
  "Hash digest data = CHR 0x12 # CHR 0x20 # digest data"

definition HashFromBytes :: "string \<Rightarrow> string" where
  "HashFromBytes hash = CHR 0x12 # CHR 0x20 # hash"

text \<open>\<open>key[2:]\<close>, which panics on a shorter key.\<close>

definition key_bytes :: "string \<Rightarrow> string outcome" where
  "key_bytes key = (if length key < 2 then Panic ''slice bounds out of range'' else Ok (drop 2 key))"

lemma key_bytes_Hash [simp]: "key_bytes (Hash digest data) = Ok (digest data)"
  by (simp add: key_bytes_def Hash_def)

lemma key_bytes_HashFromBytes [simp]: "key_bytes (HashFromBytes h) = Ok h"
  by (simp add: key_bytes_def HashFromBytes_def)

lemma HashFromBytes_inject [simp]: "HashFromBytes a = HashFromBytes b \<longleftrightarrow> a = b"
  by (simp add: HashFromBytes_def)

lemma HashFromBytes_digest: "HashFromBytes (digest data) = Hash digest data"
  by (simp add: HashFromBytes_def Hash_def)

section \<open>The datastore\<close>

text \<open>The table, and the number of calls made, which indexes the oracle of failing calls.\<close>

record rocksdb =
  rk_data :: "(string \<times> string) list"
  rk_time :: nat

definition RocksError :: "string \<Rightarrow> go_error" where
  "RocksError msg = ExtErr (''rocksdb: '' @ msg)"

text \<open>One call of the library: it fails as the oracle says, or has its effect on the table.\<close>

definition rk_call ::
  "(nat \<Rightarrow> string option) \<Rightarrow> ((string \<times> string) list \<Rightarrow> 'a \<times> (string \<times> string) list) \<Rightarrow> rocksdb \<Rightarrow> 'a outcome \<times> rocksdb" where
  "rk_call fl f ds =
     (case fl (rk_time ds) of
        Some msg \<Rightarrow> (Err (RocksError msg), ds\<lparr>rk_time := Suc (rk_time ds)\<rparr>)
      | None \<Rightarrow> (case f (rk_data ds) of (x, t) \<Rightarrow> (Ok x, \<lparr>rk_data = t, rk_time = Suc (rk_time ds)\<rparr>)))"

definition ds_Put :: "(nat \<Rightarrow> string option) \<Rightarrow> (string \<Rightarrow> string) \<Rightarrow> string \<Rightarrow> rocksdb \<Rightarrow> string outcome \<times> rocksdb" where
  "ds_Put fl digest data ds =
     (let key = Hash digest data in
      (case key_bytes key of
         Ok k \<Rightarrow> rk_call fl (\<lambda>t. (key, AList.update k data t)) ds
       | Err e \<Rightarrow> (Err e, ds)
       | Panic p \<Rightarrow> (Panic p, ds)))"

text \<open>A write batch is applied as a whole.\<close>

definition ds_PutBatch ::
  "(nat \<Rightarrow> string option) \<Rightarrow> (string \<Rightarrow> string) \<Rightarrow> string list \<Rightarrow> rocksdb \<Rightarrow> string list outcome \<times> rocksdb" where
  "ds_PutBatch fl digest batch ds =
     (case omap (\<lambda>data. key_bytes (Hash digest data)) batch of
        Ok ks \<Rightarrow> rk_call fl (\<lambda>t. (map (Hash digest) batch, fold (\<lambda>(k, d) t. AList.update k d t) (zip ks batch) t)) ds
      | Err e \<Rightarrow> (Err e, ds)
      | Panic p \<Rightarrow> (Panic p, ds))"

text \<open>\<open>Has\<close> looks at the size of the value: an empty object counts as absent.\<close>

definition ds_Has :: "(nat \<Rightarrow> string option) \<Rightarrow> string \<Rightarrow> rocksdb \<Rightarrow> bool outcome \<times> rocksdb" where
  "ds_Has fl key ds =
     (case key_bytes key of
        Ok k \<Rightarrow> rk_call fl (\<lambda>t. (case map_of t k of None \<Rightarrow> False | Some d \<Rightarrow> length d > 0, t)) ds
      | Err e \<Rightarrow> (Err e, ds)
      | Panic p \<Rightarrow> (Panic p, ds))"

definition ds_Get :: "(nat \<Rightarrow> string option) \<Rightarrow> string \<Rightarrow> rocksdb \<Rightarrow> string option outcome \<times> rocksdb" where
  "ds_Get fl key ds =
     (case key_bytes key of
        Ok k \<Rightarrow> rk_call fl (\<lambda>t. (map_of t k, t)) ds
      | Err e \<Rightarrow> (Err e, ds)
      | Panic p \<Rightarrow> (Panic p, ds))"

definition ds_Delete :: "(nat \<Rightarrow> string option) \<Rightarrow> string \<Rightarrow> rocksdb \<Rightarrow> unit outcome \<times> rocksdb" where
  "ds_Delete fl key ds =
     (case key_bytes key of
        Ok k \<Rightarrow> rk_call fl (\<lambda>t. ((), AList.delete k t)) ds
      | Err e \<Rightarrow> (Err e, ds)
      | Panic p \<Rightarrow> (Panic p, ds))"

definition ds_Sync :: "(nat \<Rightarrow> string option) \<Rightarrow> rocksdb \<Rightarrow> unit outcome \<times> rocksdb" where
  "ds_Sync fl ds = rk_call fl (\<lambda>t. ((), t)) ds"

text \<open>
  The iterator of the library: every move to a row is a call, and a call that fails makes the iterator invalid, which is how it
  ends after the last row, too. The code does not ask the iterator for its error.
\<close>

fun rk_iterate :: "(nat \<Rightarrow> string option) \<Rightarrow> nat \<Rightarrow> string list \<Rightarrow> string list \<times> nat" where
  "rk_iterate fl n [] = ([], Suc n)"
| "rk_iterate fl n (k # ks) =
     (case fl n of
        Some msg \<Rightarrow> ([], Suc n)
      | None \<Rightarrow> (case rk_iterate fl (Suc n) ks of (seen, m) \<Rightarrow> (k # seen, m)))"

text \<open>
  The keys that the goroutine of \<open>IterKeys\<close> sends, when all are received: an iterator reads a
  snapshot, in the order \<open>kord\<close> of the library.
\<close>

definition ds_IterKeys ::
  "(nat \<Rightarrow> string option) \<Rightarrow> (string list \<Rightarrow> string list) \<Rightarrow> rocksdb \<Rightarrow> string list outcome \<times> rocksdb" where
  "ds_IterKeys fl kord ds =
     (case ds_Sync fl ds of
        (Ok u, ds') \<Rightarrow>
          (case rk_iterate fl (rk_time ds') (kord (map fst (rk_data ds'))) of
             (keys, n) \<Rightarrow> (Ok (map HashFromBytes keys), ds'\<lparr>rk_time := n\<rparr>))
      | (Err e, ds') \<Rightarrow> (Err e, ds')
      | (Panic p, ds') \<Rightarrow> (Panic p, ds'))"

section \<open>Content addressing\<close>

text \<open>What the datastore holds under a digest, and that every object is under its own digest.\<close>

definition objects :: "rocksdb \<Rightarrow> string \<Rightarrow> string option" where
  "objects ds = map_of (rk_data ds)"

definition table_ok :: "(string \<Rightarrow> string) \<Rightarrow> (string \<times> string) list \<Rightarrow> bool" where
  "table_ok digest t \<longleftrightarrow> distinct (map fst t) \<and> (\<forall>(k, d) \<in> set t. k = digest d)"

definition ds_ok :: "(string \<Rightarrow> string) \<Rightarrow> rocksdb \<Rightarrow> bool" where
  "ds_ok digest ds = table_ok digest (rk_data ds)"

lemma rk_call_Ok: "rk_call fl f ds = (Ok x, ds') \<longleftrightarrow>
    fl (rk_time ds) = None \<and> f (rk_data ds) = (x, rk_data ds') \<and> rk_time ds' = Suc (rk_time ds)"
  by (cases ds') (auto simp: rk_call_def split: option.splits prod.splits)

lemma rk_call_fails: "rk_call fl f ds = (r, ds') \<Longrightarrow> (\<forall>x. r \<noteq> Ok x) \<Longrightarrow> rk_data ds' = rk_data ds"
  by (auto simp: rk_call_def split: option.splits prod.splits)

text \<open>An iteration yields the first keys, all of them unless one of its calls fails.\<close>

lemma rk_iterate_prefix:
  "rk_iterate fl n ks = (seen, m) \<Longrightarrow> n < m \<and> (\<exists>j \<le> length ks. seen = take j ks \<and> (j < length ks \<longrightarrow> fl (n + j) \<noteq> None \<and> n + j < m))"
proof (induction ks arbitrary: n seen)
  case (Cons k ks)
  show ?case
  proof (cases "fl n")
    case (Some msg)
    with Cons.prems show ?thesis by (intro conjI exI [of _ 0]) auto
  next
    case None
    with Cons.prems obtain rest where rest: "rk_iterate fl (Suc n) ks = (rest, m)" "seen = k # rest" by (auto split: prod.splits)
    from Cons.IH [OF rest(1)] obtain j where "Suc n < m" "j \<le> length ks" "rest = take j ks"
      "j < length ks \<longrightarrow> fl (Suc n + j) \<noteq> None \<and> Suc n + j < m" by blast
    with rest(2) show ?thesis by (intro conjI exI [of _ "Suc j"]) auto
  qed
qed simp

lemma ds_IterKeys_Ok:
  assumes "ds_IterKeys fl kord ds = (Ok keys, ds')"
  shows "rk_data ds' = rk_data ds \<and> rk_time ds < rk_time ds' \<and> (\<exists>j. keys = map HashFromBytes (take j (kord (map fst (rk_data ds)))) \<and>
    (j < length (kord (map fst (rk_data ds))) \<longrightarrow> (\<exists>m. rk_time ds < m \<and> m < rk_time ds' \<and> fl m \<noteq> None)))"
proof -
  obtain u ds1 where 1: "ds_Sync fl ds = (Ok u, ds1)" using assms by (auto simp: ds_IterKeys_def split: prod.splits outcome.splits)
  then have d: "rk_data ds1 = rk_data ds" "rk_time ds1 = Suc (rk_time ds)" by (auto simp: ds_Sync_def rk_call_def split: option.splits)
  obtain seen m where it: "rk_iterate fl (rk_time ds1) (kord (map fst (rk_data ds1))) = (seen, m)" by fastforce
  with 1 assms have k: "keys = map HashFromBytes seen" "ds' = ds1\<lparr>rk_time := m\<rparr>" by (simp_all add: ds_IterKeys_def)
  from rk_iterate_prefix [OF it] d obtain j where j: "rk_time ds1 < m" "seen = take j (kord (map fst (rk_data ds)))"
    "j < length (kord (map fst (rk_data ds))) \<longrightarrow> fl (rk_time ds1 + j) \<noteq> None \<and> rk_time ds1 + j < m" by auto
  have cut: "\<exists>m. rk_time ds < m \<and> m < rk_time ds' \<and> fl m \<noteq> None" if "j < length (kord (map fst (rk_data ds)))"
    using that j(3) d k by (intro exI [of _ "rk_time ds1 + j"]) simp
  have "rk_data ds' = rk_data ds" "rk_time ds < rk_time ds'" "keys = map HashFromBytes (take j (kord (map fst (rk_data ds))))"
    using j d k by simp_all
  with cut show ?thesis by blast
qed

lemma rk_call_not_panics: "\<not> panics (fst (rk_call fl f ds))"
  by (auto simp: rk_call_def split: option.splits prod.splits)

lemma ds_Put_Ok: "ds_Put fl digest data ds = (Ok key, ds') \<longleftrightarrow>
    fl (rk_time ds) = None \<and> key = Hash digest data \<and> rk_data ds' = AList.update (digest data) data (rk_data ds) \<and>
    rk_time ds' = Suc (rk_time ds)"
  by (auto simp: ds_Put_def rk_call_Ok Let_def)

lemma update_subset: "set (AList.update k d t) \<subseteq> insert (k, d) (set t)"
  by (induction t) auto

lemma update_ok: "table_ok digest t \<Longrightarrow> table_ok digest (AList.update (digest d) d t)"
  using update_subset [of "digest d" d t] distinct_update unfolding table_ok_def by fastforce

lemma fold_update_ok:
  "table_ok digest t \<Longrightarrow> table_ok digest (fold (\<lambda>(k, d) t. AList.update k d t) (zip (map digest batch) batch) t)"
  by (induction batch arbitrary: t) (simp_all add: update_ok)

lemma delete_ok: "table_ok digest t \<Longrightarrow> table_ok digest (AList.delete k t)"
  by (auto simp: table_ok_def AList.delete_eq distinct_map inj_on_def split_beta)

lemma keys_of_batch: "omap (\<lambda>data. key_bytes (Hash digest data)) batch = Ok (map digest batch)"
  by (induction batch) simp_all

text \<open>What a batch does: the last object of a digest wins.\<close>

fun add_all :: "(string \<Rightarrow> string) \<Rightarrow> string list \<Rightarrow> (string \<Rightarrow> string option) \<Rightarrow> string \<Rightarrow> string option" where
  "add_all digest [] m = m"
| "add_all digest (d # ds) m = add_all digest ds (m(digest d \<mapsto> d))"

lemma fold_update_objects:
  "map_of (fold (\<lambda>(k, d) t. AList.update k d t) (zip (map digest batch) batch) t) = add_all digest batch (map_of t)"
  by (induction batch arbitrary: t) (simp_all add: update_conv' del: fun_upd_apply)

lemma add_all_keeps: "\<exists>d. m i = Some d \<and> digest d = i \<Longrightarrow> \<exists>d. add_all digest batch m i = Some d \<and> digest d = i"
  by (induction batch arbitrary: m) auto

lemma add_all_stored: "d \<in> set batch \<Longrightarrow> \<exists>d'. add_all digest batch m (digest d) = Some d' \<and> digest d' = digest d"
proof (induction batch arbitrary: m)
  case (Cons x batch)
  show ?case
  proof (cases "d = x")
    case True
    then show ?thesis using add_all_keeps [of "m(digest x \<mapsto> x)" "digest d" digest batch] by simp
  next
    case False
    with Cons show ?thesis by simp
  qed
qed simp

section \<open>The contract\<close>

text \<open>
  What the merge and the collector rely on: the state is a map from digests to objects, an insertion
  binds the digest of its object and nothing else, a deletion unbinds the digest of its key and
  nothing else, reading changes nothing, and no call that fails does.
\<close>

locale object_store =
  fixes content :: "'ds \<Rightarrow> string \<Rightarrow> string option"
    and digest :: "string \<Rightarrow> string"
    and put :: "string \<Rightarrow> 'ds \<Rightarrow> string outcome \<times> 'ds"
    and has :: "string \<Rightarrow> 'ds \<Rightarrow> bool outcome \<times> 'ds"
    and get :: "string \<Rightarrow> 'ds \<Rightarrow> string option outcome \<times> 'ds"
    and delete :: "string \<Rightarrow> 'ds \<Rightarrow> unit outcome \<times> 'ds"
  assumes put_law: "put d s = (Ok k, s') \<Longrightarrow> k = Hash digest d \<and> content s' = (content s)(digest d \<mapsto> d)"
    and put_fails: "put d s = (rp, s') \<Longrightarrow> (\<forall>k. rp \<noteq> Ok k) \<Longrightarrow> content s' = content s"
    and has_law: "has k s = (Ok b, s') \<Longrightarrow> 2 \<le> length k \<and> (b \<longrightarrow> content s (drop 2 k) \<noteq> None)"
    and has_keeps: "has k s = (rb, s') \<Longrightarrow> content s' = content s"
    and get_law: "get k s = (Ok v, s') \<Longrightarrow> 2 \<le> length k \<and> v = content s (drop 2 k)"
    and get_keeps: "get k s = (rg, s') \<Longrightarrow> content s' = content s"
    and delete_law: "delete k s = (Ok u, s') \<Longrightarrow> 2 \<le> length k \<and> content s' = (content s)(drop 2 k := None)"
    and delete_fails: "delete k s = (rd, s') \<Longrightarrow> (\<forall>u. rd \<noteq> Ok u) \<Longrightarrow> content s' = content s"
begin

text \<open>Every object is under its own digest.\<close>

definition addressed :: "'ds \<Rightarrow> bool" where
  "addressed s \<longleftrightarrow> (\<forall>i d. content s i = Some d \<longrightarrow> i = digest d)"

lemma put_addressed: "put d s = (rp, s') \<Longrightarrow> addressed s \<Longrightarrow> addressed s'"
  using put_law put_fails by (cases rp) (force simp: addressed_def)+

lemma delete_addressed: "delete k s = (rd, s') \<Longrightarrow> addressed s \<Longrightarrow> addressed s'"
  using delete_law delete_fails by (cases rd) (force simp: addressed_def split: if_splits)+

lemma put_grows: "put d s = (rp, s') \<Longrightarrow> dom (content s) \<subseteq> dom (content s')"
  using put_law put_fails by (cases rp) fastforce+

lemma put_get: "put d s = (Ok k, s1) \<Longrightarrow> get k s1 = (Ok v, s2) \<Longrightarrow> v = Some d"
  using put_law [of d s k s1] get_law [of k s1 v s2] by (auto simp: Hash_def)

lemma get_authentic: "addressed s \<Longrightarrow> get k s = (Ok (Some d), s') \<Longrightarrow> drop 2 k = digest d"
  using get_law [of k s "Some d" s'] by (simp add: addressed_def)

end

lemma rk_call_keeps: "rk_call fl (\<lambda>t. (f t, t)) ds = (r, ds') \<Longrightarrow> rk_data ds' = rk_data ds"
  by (auto simp: rk_call_def split: option.splits)

interpretation rocks: object_store objects digest "ds_Put fl digest" "ds_Has fl" "ds_Get fl" "ds_Delete fl"
  for digest fl
proof
  show "ds_Put fl digest d s = (Ok k, s') \<Longrightarrow> k = Hash digest d \<and> objects s' = (objects s)(digest d \<mapsto> d)" for d s k s'
    by (simp add: ds_Put_Ok objects_def update_conv' del: fun_upd_apply)
  show "ds_Put fl digest d s = (rp, s') \<Longrightarrow> \<forall>k. rp \<noteq> Ok k \<Longrightarrow> objects s' = objects s" for d s rp s'
    using rk_call_fails by (fastforce simp: ds_Put_def Let_def objects_def)
  show "ds_Has fl k s = (Ok b, s') \<Longrightarrow> 2 \<le> length k \<and> (b \<longrightarrow> objects s (drop 2 k) \<noteq> None)" for k s b s'
    by (auto simp: ds_Has_def key_bytes_def rk_call_Ok objects_def split: if_splits option.splits)
  show "ds_Has fl k s = (rb, s') \<Longrightarrow> objects s' = objects s" for k s rb s'
    by (auto simp: ds_Has_def key_bytes_def objects_def dest: rk_call_keeps split: if_splits)
  show "ds_Get fl k s = (Ok v, s') \<Longrightarrow> 2 \<le> length k \<and> v = objects s (drop 2 k)" for k s v s'
    by (auto simp: ds_Get_def key_bytes_def rk_call_Ok objects_def split: if_splits)
  show "ds_Get fl k s = (rg, s') \<Longrightarrow> objects s' = objects s" for k s rg s'
    by (auto simp: ds_Get_def key_bytes_def objects_def dest: rk_call_keeps split: if_splits)
  show "ds_Delete fl k s = (Ok u, s') \<Longrightarrow> 2 \<le> length k \<and> objects s' = (objects s)(drop 2 k := None)" for k s u s'
    by (auto simp: ds_Delete_def key_bytes_def rk_call_Ok objects_def split: if_splits simp flip: delete_conv')
  show "ds_Delete fl k s = (rd, s') \<Longrightarrow> \<forall>u. rd \<noteq> Ok u \<Longrightarrow> objects s' = objects s" for k s rd s'
    using rk_call_fails by (fastforce simp: ds_Delete_def key_bytes_def objects_def split: if_splits)
qed

section \<open>Content addressing, whatever happens\<close>

datatype ds_op = DsPut string | DsPutBatch "string list" | DsHas string | DsGet string | DsDelete string | DsIter

text \<open>The result of an operation; of an iteration, the set of the keys it yields.\<close>

datatype ds_result = RKey string | RKeys "string list" | RHas bool | RGet "string option" | RDeleted | RIter "string set"

fun result_of :: "('a \<Rightarrow> ds_result) \<Rightarrow> 'a outcome \<times> rocksdb \<Rightarrow> ds_result outcome \<times> rocksdb" where
  "result_of f (Ok x, ds) = (Ok (f x), ds)"
| "result_of f (Err e, ds) = (Err e, ds)"
| "result_of f (Panic p, ds) = (Panic p, ds)"

fun ds_exec ::
  "(nat \<Rightarrow> string option) \<Rightarrow> (string \<Rightarrow> string) \<Rightarrow> (string list \<Rightarrow> string list) \<Rightarrow> ds_op \<Rightarrow> rocksdb \<Rightarrow> ds_result outcome \<times> rocksdb" where
  "ds_exec fl digest kord (DsPut d) ds = result_of RKey (ds_Put fl digest d ds)"
| "ds_exec fl digest kord (DsPutBatch batch) ds = result_of RKeys (ds_PutBatch fl digest batch ds)"
| "ds_exec fl digest kord (DsHas k) ds = result_of RHas (ds_Has fl k ds)"
| "ds_exec fl digest kord (DsGet k) ds = result_of RGet (ds_Get fl k ds)"
| "ds_exec fl digest kord (DsDelete k) ds = result_of (\<lambda>u. RDeleted) (ds_Delete fl k ds)"
| "ds_exec fl digest kord DsIter ds = result_of (RIter \<circ> set) (ds_IterKeys fl kord ds)"

lemma snd_result_of [simp]: "snd (result_of f p) = snd p"
  by (cases p; cases "fst p") auto

text \<open>The state after an operation; the caller goes on whatever its result.\<close>

definition ds_step ::
  "(nat \<Rightarrow> string option) \<Rightarrow> (string \<Rightarrow> string) \<Rightarrow> (string list \<Rightarrow> string list) \<Rightarrow> ds_op \<Rightarrow> rocksdb \<Rightarrow> rocksdb" where
  "ds_step fl digest kord oper ds = snd (ds_exec fl digest kord oper ds)"

text \<open>The specification: the same operations on a map from digests to objects.\<close>

fun spec_key :: "string \<Rightarrow> (string \<Rightarrow> 'a) \<Rightarrow> 'm \<Rightarrow> ('a \<Rightarrow> ds_result outcome \<times> 'm) \<Rightarrow> ds_result outcome \<times> 'm" where
  "spec_key k f m g = (if length k < 2 then (Panic ''slice bounds out of range'', m) else g (f (drop 2 k)))"

fun spec_exec :: "(string \<Rightarrow> string) \<Rightarrow> ds_op \<Rightarrow> (string \<Rightarrow> string option) \<Rightarrow> ds_result outcome \<times> (string \<Rightarrow> string option)" where
  "spec_exec digest (DsPut d) m = (Ok (RKey (Hash digest d)), m(digest d \<mapsto> d))"
| "spec_exec digest (DsPutBatch batch) m = (Ok (RKeys (map (Hash digest) batch)), add_all digest batch m)"
| "spec_exec digest (DsHas k) m = spec_key k m m (\<lambda>v. (Ok (RHas (v \<noteq> None \<and> v \<noteq> Some [])), m))"
| "spec_exec digest (DsGet k) m = spec_key k m m (\<lambda>v. (Ok (RGet v), m))"
| "spec_exec digest (DsDelete k) m = spec_key k (\<lambda>i. m(i := None)) m (\<lambda>m'. (Ok RDeleted, m'))"
| "spec_exec digest DsIter m = (Ok (RIter (HashFromBytes ` dom m)), m)"

definition ds_run where
  "ds_run fl digest kord ops ds = fold (ds_step fl digest kord) ops ds"

lemma rk_call_ok:
  "table_ok digest (rk_data ds) \<Longrightarrow> table_ok digest (snd (f (rk_data ds))) \<Longrightarrow> table_ok digest (rk_data (snd (rk_call fl f ds)))"
  by (auto simp: rk_call_def split: option.splits prod.splits)

lemma ds_step_ok: "ds_ok digest ds \<Longrightarrow> ds_ok digest (ds_step fl digest kord oper ds)"
  unfolding ds_ok_def ds_step_def
proof (induction oper)
  case (DsPut d)
  then show ?case by (simp add: ds_Put_def Let_def rk_call_ok update_ok)
next
  case (DsPutBatch batch)
  then show ?case unfolding ds_exec.simps snd_result_of ds_PutBatch_def keys_of_batch by (simp add: rk_call_ok fold_update_ok)
next
  case (DsDelete k)
  then show ?case by (auto simp: ds_Delete_def rk_call_ok delete_ok split: outcome.splits)
next
  case DsIter
  have "table_ok digest (rk_data (snd (ds_Sync fl ds)))" using DsIter by (simp add: ds_Sync_def rk_call_ok)
  then show ?case by (cases "ds_Sync fl ds"; cases "fst (ds_Sync fl ds)") (simp_all add: ds_IterKeys_def split: prod.split)
qed (auto simp: ds_Has_def ds_Get_def rk_call_ok split: outcome.splits)

lemma ds_run_ok: "ds_ok digest ds \<Longrightarrow> ds_ok digest (ds_run fl digest kord ops ds)"
  by (induction ops arbitrary: ds) (simp_all add: ds_run_def ds_step_ok)

lemma ds_ok_addressed: "ds_ok digest ds \<Longrightarrow> objects ds i = Some d \<Longrightarrow> i = digest d"
  by (auto simp: ds_ok_def table_ok_def objects_def dest: map_of_SomeD)

lemma ds_ok_rocks: "ds_ok digest ds \<Longrightarrow> rocks.addressed digest ds"
  using ds_ok_addressed by (auto simp: rocks.addressed_def)

lemma rk_call_refines:
  "(result_of g (rk_call fl f ds) = (Ok (g (fst (f (rk_data ds)))), \<lparr>rk_data = snd (f (rk_data ds)), rk_time = Suc (rk_time ds)\<rparr>) \<and>
     fl (rk_time ds) = None) \<or>
   (\<exists>msg. fl (rk_time ds) = Some msg \<and> result_of g (rk_call fl f ds) = (Err (RocksError msg), ds\<lparr>rk_time := Suc (rk_time ds)\<rparr>))"
  by (auto simp: rk_call_def split: option.splits prod.splits)

definition empty_ds :: rocksdb where
  "empty_ds = \<lparr>rk_data = [], rk_time = 0\<rparr>"

lemma empty_ds_ok: "ds_ok digest empty_ds"
  by (simp add: ds_ok_def table_ok_def empty_ds_def)

text \<open>C16: The datastore refines the map: an operation has the result of the specification on the abstract
  map and leaves the map the specification leaves, or it is an error of the engine that leaves the map
  as it was, and that happens only when the engine fails the call. An iteration over the keys may also be cut short without an error, with
  a part of the keys for its result, and that happens only when the engine fails a call of the iterator.\<close>

theorem datastore_refines_map:
  assumes "map_order kord"
  shows "map_prod id objects (ds_exec fl digest kord oper ds) = spec_exec digest oper (objects ds) \<or>
    (\<exists>msg. fl (rk_time ds) = Some msg \<and>
      map_prod id objects (ds_exec fl digest kord oper ds) = (Err (RocksError msg), objects ds)) \<or>
    (oper = DsIter \<and> (\<exists>part m. part \<subseteq> dom (objects ds) \<and> rk_time ds < m \<and> m < rk_time (snd (ds_exec fl digest kord oper ds)) \<and> fl m \<noteq> None \<and>
      map_prod id objects (ds_exec fl digest kord oper ds) = (Ok (RIter (HashFromBytes ` part)), objects ds)))"
proof (cases oper)
  case (DsPut d)
  then show ?thesis using rk_call_refines [of RKey fl "\<lambda>t. (Hash digest d, AList.update (digest d) d t)" ds]
    by (auto simp: ds_Put_def Let_def objects_def update_conv' simp del: fun_upd_apply)
next
  case (DsPutBatch batch)
  then show ?thesis
    using rk_call_refines [of RKeys fl "\<lambda>t. (map (Hash digest) batch, fold (\<lambda>(k, d) t. AList.update k d t) (zip (map digest batch) batch) t)" ds]
    unfolding DsPutBatch ds_exec.simps ds_PutBatch_def keys_of_batch outcome.case
    by (auto simp: objects_def fold_update_objects)
next
  case (DsHas k)
  show ?thesis
    using rk_call_refines [of RHas fl "\<lambda>t. (case map_of t (drop 2 k) of None \<Rightarrow> False | Some d \<Rightarrow> length d > 0, t)" ds]
    by (auto simp: DsHas ds_Has_def key_bytes_def objects_def split: option.splits)
next
  case (DsGet k)
  show ?thesis using rk_call_refines [of RGet fl "\<lambda>t. (map_of t (drop 2 k), t)" ds]
    by (auto simp: DsGet ds_Get_def key_bytes_def objects_def)
next
  case (DsDelete k)
  show ?thesis using rk_call_refines [of "\<lambda>u. RDeleted" fl "\<lambda>t. ((), AList.delete (drop 2 k) t)" ds]
    by (auto simp: DsDelete ds_Delete_def key_bytes_def objects_def delete_conv' simp del: fun_upd_apply)
next
  case DsIter
  obtain r ds' where it: "ds_IterKeys fl kord ds = (r, ds')" by fastforce
  have dom: "set (kord (map fst (rk_data ds))) = dom (objects ds)"
    by (simp add: objects_def dom_map_of_conv_image_fst map_order_set [OF assms])
  show ?thesis
  proof (cases r)
    case (Ok keys)
    let ?ks = "kord (map fst (rk_data ds))"
    from ds_IterKeys_Ok [OF it [unfolded Ok]] obtain j where j: "rk_data ds' = rk_data ds" "keys = map HashFromBytes (take j ?ks)"
      "j < length ?ks \<longrightarrow> (\<exists>m. rk_time ds < m \<and> m < rk_time ds' \<and> fl m \<noteq> None)" by blast
    then have ex: "map_prod id objects (ds_exec fl digest kord oper ds) = (Ok (RIter (HashFromBytes ` set (take j ?ks))), objects ds)"
      "snd (ds_exec fl digest kord oper ds) = ds'" using it Ok by (simp_all add: DsIter objects_def)
    have part: "set (take j ?ks) \<subseteq> dom (objects ds)" using set_take_subset dom by fast
    show ?thesis
    proof (cases "j < length ?ks")
      case True
      with j(3) obtain m where "rk_time ds < m" "m < rk_time ds'" "fl m \<noteq> None" by blast
      with ex part show ?thesis unfolding DsIter by blast
    next
      case False
      then have "map_prod id objects (ds_exec fl digest kord oper ds) = spec_exec digest oper (objects ds)" using ex dom by (simp add: DsIter)
      then show ?thesis ..
    qed
  qed (use it in \<open>auto simp: DsIter ds_IterKeys_def ds_Sync_def rk_call_def objects_def split: option.splits prod.splits outcome.splits\<close>)
qed

theorem datastore_refines_map_witness:
  "map_prod id objects (ds_exec (\<lambda>n. None) (\<lambda>d. d) rev (DsHas ''xxa'') \<lparr>rk_data = [(''a'', ''a'')], rk_time = 0\<rparr>) =
   spec_exec (\<lambda>d. d) (DsHas ''xxa'') (objects \<lparr>rk_data = [(''a'', ''a'')], rk_time = 0\<rparr>)"
  using datastore_refines_map [OF map_order_rev, of "\<lambda>n. None" _ "DsHas ''xxa''"] by simp

text \<open>The datastore is content addressed: after any sequence of operations from the empty store, whichever
  calls fail, what Get returns for a key hashes to the digest in the key, and what IterKeys sends
  are distinct SHA2-256 keys of objects that are there.\<close>

theorem datastore_content_addressed:
  assumes "map_order kord"
  shows "(ds_Get fl key (ds_run fl digest kord ops empty_ds) = (Ok (Some d), ds') \<longrightarrow> drop 2 key = digest d) \<and>
    (ds_IterKeys fl kord (ds_run fl digest kord ops empty_ds) = (Ok keys, ds'') \<longrightarrow>
      distinct keys \<and> (\<forall>k \<in> set keys. \<exists>d. k = Hash digest d \<and> objects ds'' (digest d) = Some d))"
proof (intro conjI impI)
  let ?ds = "ds_run fl digest kord ops empty_ds"
  note ok = ds_run_ok [OF empty_ds_ok, of digest fl kord ops]
  show "ds_Get fl key ?ds = (Ok (Some d), ds') \<Longrightarrow> drop 2 key = digest d"
    by (rule rocks.get_authentic [OF ds_ok_rocks [OF ok]])
  assume it: "ds_IterKeys fl kord ?ds = (Ok keys, ds'')"
  from ds_IterKeys_Ok [OF this] obtain j where "rk_data ds'' = rk_data ?ds" and k: "keys = map HashFromBytes (take j (kord (map fst (rk_data ds''))))"
    by auto
  with ok have t: "table_ok digest (rk_data ds'')" by (simp add: ds_ok_def)
  with assms k show "distinct keys"
    by (simp add: table_ok_def distinct_map map_order_distinct inj_on_def)
  show "\<forall>k \<in> set keys. \<exists>d. k = Hash digest d \<and> objects ds'' (digest d) = Some d"
  proof
    fix x assume "x \<in> set keys"
    with k obtain i d where "x = HashFromBytes i" "(i, d) \<in> set (rk_data ds'')"
      by (auto simp: map_order_set [OF assms] dest!: in_set_takeD)
    with t show "\<exists>d. x = Hash digest d \<and> objects ds'' (digest d) = Some d"
      by (auto simp: table_ok_def objects_def HashFromBytes_digest intro!: exI [of _ d])
  qed
qed

theorem datastore_content_addressed_witness:
  "fst (ds_Get (\<lambda>n. if n = 1 then Some ''io'' else None) (Hash (\<lambda>d. d) ''b'')
     (ds_run (\<lambda>n. if n = 1 then Some ''io'' else None) (\<lambda>d. d) rev [DsPut ''a'', DsPut ''b'', DsPutBatch [''b'', ''c'']] empty_ds)) =
   Ok (Some ''b'')"
proof -
  let ?fl = "\<lambda>n::nat. if n = 1 then Some ''io'' else None"
  let ?ds = "ds_run ?fl (\<lambda>d. d) rev [DsPut ''a'', DsPut ''b'', DsPutBatch [''b'', ''c'']] empty_ds"
  let ?g = "ds_Get ?fl (Hash (\<lambda>d. d) ''b'') ?ds"
  obtain d where d: "fst ?g = Ok (Some d)" by (rule that [of "''b''"]) code_simp
  then have "?g = (Ok (Some d), snd ?g)" by (metis prod.collapse)
  from datastore_content_addressed [OF map_order_rev, THEN conjunct1, rule_format, OF this] d show ?thesis by (simp add: Hash_def)
qed

end
