(* ===== verification/Merge.thy ===== *)
theory Merge
  imports Node Objects
begin

text \<open>
  The merge of a stream of statements (\<open>doMergeStream\<close> of \<open>mcnode/proto.go\<close>): the main loop checks
  and verifies every statement, collects its object keys, stores statements in batches and hands
  batches of keys to a pool of workers, which fetch the missing objects from the peer
  (\<open>doMergeDataAsync\<close>, \<open>doMergeDataImpl\<close>). The goroutines and their channels are a step relation;
  the processing of one value by the loop, and of one batch of keys by a worker, is one step.
  What the peer answers is arbitrary.
\<close>

section \<open>Object keys\<close>

text \<open>
  The parameters of a merge: the cryptography, the failing engine calls, the orders of the Go maps,
  \<open>multihash.FromB58String\<close>, the digest, the number of CPUs, and whether the context can be cancelled.
\<close>

record 'k merge_env =
  me_crypto :: "'k crypto"
  me_dbfl :: faults
  me_dsfl :: faults
  me_rord :: "string list \<Rightarrow> string list"
  me_kord :: "string list \<Rightarrow> string list"
  me_b58 :: "string \<Rightarrow> string outcome"
  me_digest :: "string \<Rightarrow> string"
  me_cpus :: nat
  me_cancel :: bool

text \<open>A \<open>map[string]Key\<close>, as the list of its entries.\<close>

type_synonym keymap = "(string \<times> string) list"

definition mergeObjectKey :: "'k merge_env \<Rightarrow> string \<Rightarrow> keymap \<Rightarrow> keymap outcome" where
  "mergeObjectKey E key58 keys =
     (if key58 \<in> fst ` set keys then Ok keys
      else obind (me_b58 E key58) (\<lambda>mhash. Ok (keys @ [(key58, mhash)])))"

definition mergeSimpleKeys :: "'k merge_env \<Rightarrow> simple_statement \<Rightarrow> keymap \<Rightarrow> keymap outcome" where
  "mergeSimpleKeys E s keys =
     obind (mergeObjectKey E (s_Object s) keys) (\<lambda>keys'.
     ofold (\<lambda>ks dep. mergeObjectKey E dep ks) keys' (s_Deps s))"

fun mergeStatementKeys :: "'k merge_env \<Rightarrow> statement \<Rightarrow> keymap \<Rightarrow> keymap outcome"
  and mergeEnvelopeKeys :: "'k merge_env \<Rightarrow> statement list \<Rightarrow> keymap \<Rightarrow> keymap outcome" where
  "mergeStatementKeys E (Statement i p n None t sg) keys = Panic ''nil Body''"
| "mergeStatementKeys E (Statement i p n (Some (StatementBody None)) t sg) keys = Err BadStatementBody"
| "mergeStatementKeys E (Statement i p n (Some (StatementBody (Some (BodySimple s)))) t sg) keys = mergeSimpleKeys E s keys"
| "mergeStatementKeys E (Statement i p n (Some (StatementBody (Some (BodyCompound ss)))) t sg) keys =
     ofold (\<lambda>ks s. mergeSimpleKeys E s ks) keys ss"
| "mergeStatementKeys E (Statement i p n (Some (StatementBody (Some (BodyEnvelope es)))) t sg) keys = mergeEnvelopeKeys E es keys"
| "mergeStatementKeys E (Statement i p n (Some (StatementBody (Some BodyArchive))) t sg) keys = Err BadStatementBody"
| "mergeEnvelopeKeys E [] keys = Ok keys"
| "mergeEnvelopeKeys E (e # es) keys = obind (mergeStatementKeys E e keys) (\<lambda>ks. mergeEnvelopeKeys E es ks)"

section \<open>Fetching objects\<close>

datatype data_msg = DataObj string string | DataEnd | DataError string | DataNone

text \<open>The keys that are not in the datastore, in the order of the Go map.\<close>

fun missingKeys :: "'k merge_env \<Rightarrow> keymap \<Rightarrow> string list \<Rightarrow> rocksdb \<Rightarrow> string list outcome \<times> rocksdb" where
  "missingKeys E keys [] ds = (Ok [], ds)"
| "missingKeys E keys (k58 # ks) ds =
     (case ds_Has (me_dsfl E) (the (map_of keys k58)) ds of
        (Ok have, ds') \<Rightarrow>
          (case missingKeys E keys ks ds' of
             (Ok rest, ds'') \<Rightarrow> (Ok (if have then rest else k58 # rest), ds'')
           | r \<Rightarrow> r)
      | (Err e, ds') \<Rightarrow> (Err e, ds')
      | (Panic m, ds') \<Rightarrow> (Panic m, ds'))"

text \<open>
  The loop over the answers: \<open>msgs\<close> is what the reads yield; when they run out the stream has
  ended. It returns the number of objects stored.
\<close>

definition EOF :: go_error where
  "EOF = ExtErr ''EOF''"

fun dataLoop ::
  "'k merge_env \<Rightarrow> int \<Rightarrow> keymap \<Rightarrow> data_msg outcome list \<Rightarrow> rocksdb \<Rightarrow> int \<times> unit outcome \<times> rocksdb" where
  "dataLoop E count keys [] ds = (count, Err EOF, ds)"
| "dataLoop E count keys (Err e # msgs) ds = (count, Err e, ds)"
| "dataLoop E count keys (Panic m # msgs) ds = (count, Panic m, ds)"
| "dataLoop E count keys (Ok (DataObj key58 data) # msgs) ds =
     (case map_of keys key58 of
        None \<Rightarrow> (count, Err UnexpectedData, ds)
      | Some key \<Rightarrow>
          (if key \<noteq> Hash (me_digest E) data then (count, Err BadData, ds)
           else (case ds_Put (me_dsfl E) (me_digest E) data ds of
                   (Ok k, ds') \<Rightarrow> dataLoop E (count + 1) (AList.delete key58 keys) msgs ds'
                 | (Err e, ds') \<Rightarrow> (count, Err e, ds')
                 | (Panic m, ds') \<Rightarrow> (count, Panic m, ds'))))"
| "dataLoop E count keys (Ok DataEnd # msgs) ds = (count, Ok (), ds)"
| "dataLoop E count keys (Ok (DataError msg) # msgs) ds = (count, Err (StreamError msg), ds)"
| "dataLoop E count keys (Ok DataNone # msgs) ds = (count, Err BadResult, ds)"

text \<open>\<open>wr\<close> is the error of writing the request.\<close>

definition doMergeDataImpl ::
  "'k merge_env \<Rightarrow> go_error option \<Rightarrow> data_msg outcome list \<Rightarrow> keymap \<Rightarrow> rocksdb \<Rightarrow> int \<times> unit outcome \<times> rocksdb" where
  "doMergeDataImpl E wr msgs keys ds =
     (case missingKeys E keys (me_kord E (map fst keys)) ds of
        (Err e, ds') \<Rightarrow> (0, Err e, ds')
      | (Panic m, ds') \<Rightarrow> (0, Panic m, ds')
      | (Ok keys58, ds') \<Rightarrow>
          (if keys58 = [] then (0, Ok (), ds')
           else (case wr of
                   Some e \<Rightarrow> (0, Err e, ds')
                 | None \<Rightarrow>
                     (case dataLoop E 0 keys msgs ds' of
                        (count, Ok u, ds'') \<Rightarrow>
                          (if count < int (length keys58) then (count, Err MissingData, ds'') else (count, Ok (), ds''))
                      | r \<Rightarrow> r))))"

section \<open>The merge\<close>

record worker =
  wk_open :: bool
  wk_count :: int

datatype phase = PLoop | PSend | PFlush | PCollect nat | PDone | PCrash string

record 'k mstate =
  m_in :: "stream_item list"
  m_pc :: phase
  m_cache :: "'k pkcache"
  m_keys :: keymap
  m_stmts :: "statement list"
  m_count :: int
  m_ocount :: int
  m_err :: "go_error option"
  m_workers :: nat
  m_work :: "keymap list"
  m_closed :: bool
  m_res :: "(int \<times> go_error option) list"
  m_pool :: "worker list"
  m_db :: sqldb
  m_ds :: rocksdb

definition merge_batch :: nat where
  "merge_batch = 1024"

definition workch_cap :: "'k merge_env \<Rightarrow> nat" where
  "workch_cap E = 64 * me_cpus E"

definition CtxErr :: go_error where
  "CtxErr = ExtErr ''context canceled''"

definition merge_init :: "'k merge_env \<Rightarrow> stream_item list \<Rightarrow> sqldb \<Rightarrow> rocksdb \<Rightarrow> 'k mstate" where
  "merge_init E items db ds =
     \<lparr>m_in = items, m_pc = PLoop, m_cache = Map.empty, m_keys = [], m_stmts = [], m_count = 0, m_ocount = 0, m_err = None,
      m_workers = me_cpus E, m_work = [], m_closed = False, m_res = [],
      m_pool = replicate (me_cpus E) \<lparr>wk_open = False, wk_count = 0\<rparr>, m_db = db, m_ds = ds\<rparr>"

text \<open>What the loop does with a value before it has to wait: check, verify, collect the keys.\<close>

fun mergeValue :: "'k merge_env \<Rightarrow> stream_item \<Rightarrow> 'k pkcache \<Rightarrow> keymap \<Rightarrow> (statement \<times> 'k pkcache \<times> keymap) outcome" where
  "mergeValue E (SVal (RStmt st)) cache keys =
     obind (admit (me_crypto E) st cache) (\<lambda>cache'.
     obind (mergeStatementKeys E st keys) (\<lambda>keys'. Ok (st, cache', keys')))"
| "mergeValue E (SErr msg) cache keys = Err (StreamError msg)"
| "mergeValue E (SVal v) cache keys = Err BadResult"

text \<open>\<open>MergeBatch\<close> of the pending statements; an error breaks the loop.\<close>

definition mergeStmts :: "'k merge_env \<Rightarrow> phase \<Rightarrow> phase \<Rightarrow> 'k mstate \<Rightarrow> 'k mstate" where
  "mergeStmts E pc_ok pc_err s =
     (case db_MergeBatch (me_dbfl E) (me_rord E) (cr_marshal (me_crypto E)) (m_stmts s) (m_db s) of
        (Ok n, db') \<Rightarrow> s\<lparr>m_db := db', m_count := m_count s + n, m_stmts := [], m_pc := pc_ok\<rparr>
      | (Err e, db') \<Rightarrow> s\<lparr>m_db := db', m_err := Some e, m_pc := pc_err\<rparr>
      | (Panic m, db') \<Rightarrow> s\<lparr>m_db := db', m_pc := PCrash m\<rparr>)"

definition mergeAppend :: "'k merge_env \<Rightarrow> statement \<Rightarrow> 'k mstate \<Rightarrow> 'k mstate" where
  "mergeAppend E st s =
     (let s' = s\<lparr>m_stmts := m_stmts s @ [st]\<rparr>
      in if merge_batch \<le> length (m_stmts s') then mergeStmts E PLoop PSend s' else s')"

text \<open>Receiving a result while sending keys.\<close>

definition takeResult :: "phase \<Rightarrow> 'k mstate \<Rightarrow> 'k mstate" where
  "takeResult pc s =
     s\<lparr>m_ocount := m_ocount s + fst (hd (m_res s)), m_err := snd (hd (m_res s)), m_workers := m_workers s - 1,
       m_res := tl (m_res s), m_pc := pc\<rparr>"

text \<open>
  A peer is honest in a batch when it sends only objects it was asked for; \<open>honest\<close> restricts the
  answers to that, and is otherwise no part of the code.
\<close>

definition answers_requested :: "'k merge_env \<Rightarrow> data_msg outcome list \<Rightarrow> keymap \<Rightarrow> rocksdb \<Rightarrow> bool" where
  "answers_requested E msgs keys ds =
     (case missingKeys E keys (me_kord E (map fst keys)) ds of
        (Ok keys58, ds') \<Rightarrow>
          list_all (\<lambda>m. case m of Ok (DataObj k d) \<Rightarrow> k \<in> set keys58 | _ \<Rightarrow> True) msgs
      | _ \<Rightarrow> True)"

inductive merge_step :: "'k merge_env \<Rightarrow> bool \<Rightarrow> 'k mstate \<Rightarrow> 'k mstate \<Rightarrow> bool" for E honest where
  loop_end: "m_pc s = PLoop \<Longrightarrow> m_in s = [] \<Longrightarrow> merge_step E honest s (s\<lparr>m_pc := PSend\<rparr>)"
| loop_break: "m_pc s = PLoop \<Longrightarrow> m_in s = v # vs \<Longrightarrow> mergeValue E v (m_cache s) (m_keys s) = Err e \<Longrightarrow>
    merge_step E honest s (s\<lparr>m_in := vs, m_err := Some e, m_pc := PSend\<rparr>)"
| loop_crash: "m_pc s = PLoop \<Longrightarrow> m_in s = v # vs \<Longrightarrow> mergeValue E v (m_cache s) (m_keys s) = Panic m \<Longrightarrow>
    merge_step E honest s (s\<lparr>m_pc := PCrash m\<rparr>)"
| loop_next: "m_pc s = PLoop \<Longrightarrow> m_in s = v # vs \<Longrightarrow> mergeValue E v (m_cache s) (m_keys s) = Ok (st, cache, keys) \<Longrightarrow>
    length keys < merge_batch \<Longrightarrow>
    merge_step E honest s (mergeAppend E st (s\<lparr>m_in := vs, m_cache := cache, m_keys := keys\<rparr>))"
| loop_send: "m_pc s = PLoop \<Longrightarrow> m_in s = v # vs \<Longrightarrow> mergeValue E v (m_cache s) (m_keys s) = Ok (st, cache, keys) \<Longrightarrow>
    merge_batch \<le> length keys \<Longrightarrow> length (m_work s) < workch_cap E \<Longrightarrow>
    merge_step E honest s (mergeAppend E st (s\<lparr>m_in := vs, m_cache := cache, m_keys := [], m_work := m_work s @ [keys]\<rparr>))"
| loop_result: "m_pc s = PLoop \<Longrightarrow> m_in s = v # vs \<Longrightarrow> mergeValue E v (m_cache s) (m_keys s) = Ok (st, cache, keys) \<Longrightarrow>
    merge_batch \<le> length keys \<Longrightarrow> m_res s \<noteq> [] \<Longrightarrow>
    merge_step E honest s (takeResult PSend (s\<lparr>m_in := vs, m_cache := cache, m_keys := keys\<rparr>))"
| loop_cancel: "m_pc s = PLoop \<Longrightarrow> m_in s = v # vs \<Longrightarrow> mergeValue E v (m_cache s) (m_keys s) = Ok (st, cache, keys) \<Longrightarrow>
    merge_batch \<le> length keys \<Longrightarrow> me_cancel E \<Longrightarrow>
    merge_step E honest s (s\<lparr>m_in := vs, m_cache := cache, m_keys := keys, m_err := Some CtxErr, m_pc := PSend\<rparr>)"
| send_skip: "m_pc s = PSend \<Longrightarrow> m_keys s = [] \<or> m_err s \<noteq> None \<Longrightarrow> merge_step E honest s (s\<lparr>m_pc := PFlush\<rparr>)"
| send_keys: "m_pc s = PSend \<Longrightarrow> m_keys s \<noteq> [] \<Longrightarrow> m_err s = None \<Longrightarrow> length (m_work s) < workch_cap E \<Longrightarrow>
    merge_step E honest s (s\<lparr>m_work := m_work s @ [m_keys s], m_pc := PFlush\<rparr>)"
| send_result: "m_pc s = PSend \<Longrightarrow> m_keys s \<noteq> [] \<Longrightarrow> m_err s = None \<Longrightarrow> m_res s \<noteq> [] \<Longrightarrow>
    merge_step E honest s (takeResult PFlush s)"
| send_cancel: "m_pc s = PSend \<Longrightarrow> m_keys s \<noteq> [] \<Longrightarrow> m_err s = None \<Longrightarrow> me_cancel E \<Longrightarrow>
    merge_step E honest s (s\<lparr>m_err := Some CtxErr, m_pc := PFlush\<rparr>)"
| flush: "m_pc s = PFlush \<Longrightarrow> merge_step E honest s
    ((if m_stmts s \<noteq> [] \<and> m_err s = None then mergeStmts E (PCollect (m_workers s)) (PCollect (m_workers s)) s
      else s\<lparr>m_pc := PCollect (m_workers s)\<rparr>)\<lparr>m_closed := True\<rparr>)"
| collect: "m_pc s = PCollect (Suc x) \<Longrightarrow> m_res s = (n, err) # rs \<Longrightarrow>
    merge_step E honest s (s\<lparr>m_ocount := m_ocount s + n, m_err := (if m_err s = None then err else m_err s), m_res := rs,
      m_pc := PCollect x\<rparr>)"
| collected: "m_pc s = PCollect 0 \<Longrightarrow> merge_step E honest s (s\<lparr>m_pc := PDone\<rparr>)"
| work: "\<forall>m. m_pc s \<noteq> PCrash m \<Longrightarrow> m_pool s = ps @ w # qs \<Longrightarrow> m_work s = keys # ks \<Longrightarrow>
    doMergeDataImpl E wr msgs keys (m_ds s) = (n, Ok (), ds') \<Longrightarrow> (honest \<Longrightarrow> answers_requested E msgs keys (m_ds s)) \<Longrightarrow>
    merge_step E honest s (s\<lparr>m_pool := ps @ \<lparr>wk_open = True, wk_count = wk_count w + n\<rparr> # qs, m_work := ks, m_ds := ds'\<rparr>)"
| work_fail: "\<forall>m. m_pc s \<noteq> PCrash m \<Longrightarrow> m_pool s = ps @ w # qs \<Longrightarrow> m_work s = keys # ks \<Longrightarrow>
    doMergeDataImpl E wr msgs keys (m_ds s) = (n, Err e, ds') \<Longrightarrow>
    merge_step E honest s (s\<lparr>m_pool := ps @ qs, m_work := ks, m_res := m_res s @ [(wk_count w + n, Some e)], m_ds := ds'\<rparr>)"
| work_crash: "\<forall>m. m_pc s \<noteq> PCrash m \<Longrightarrow> m_pool s = ps @ w # qs \<Longrightarrow> m_work s = keys # ks \<Longrightarrow>
    doMergeDataImpl E wr msgs keys (m_ds s) = (n, Panic m, ds') \<Longrightarrow>
    merge_step E honest s (s\<lparr>m_ds := ds', m_pc := PCrash m\<rparr>)"
| work_nostream: "\<forall>m. m_pc s \<noteq> PCrash m \<Longrightarrow> m_pool s = ps @ w # qs \<Longrightarrow> m_work s = keys # ks \<Longrightarrow> \<not> wk_open w \<Longrightarrow>
    merge_step E honest s (s\<lparr>m_pool := ps @ qs, m_work := ks, m_res := m_res s @ [(wk_count w, Some e)]\<rparr>)"
| work_end: "\<forall>m. m_pc s \<noteq> PCrash m \<Longrightarrow> m_pool s = ps @ w # qs \<Longrightarrow> m_work s = [] \<Longrightarrow> m_closed s \<Longrightarrow>
    merge_step E honest s (s\<lparr>m_pool := ps @ qs, m_res := m_res s @ [(wk_count w, None)]\<rparr>)"

text \<open>The states a merge of \<open>items\<close> reaches.\<close>

inductive merge_reach :: "'k merge_env \<Rightarrow> bool \<Rightarrow> stream_item list \<Rightarrow> sqldb \<Rightarrow> rocksdb \<Rightarrow> 'k mstate \<Rightarrow> bool"
  for E honest items db ds where
  start: "merge_reach E honest items db ds (merge_init E items db ds)"
| step: "merge_reach E honest items db ds s \<Longrightarrow> merge_step E honest s s' \<Longrightarrow> merge_reach E honest items db ds s'"

fun finished :: "phase \<Rightarrow> bool" where
  "finished PDone = True"
| "finished (PCrash m) = True"
| "finished _ = False"

end
