(* ===== verification/GC.thy ===== *)
theory GC
  imports Node Objects QueryParse
begin

text \<open>
  The garbage collector of \<open>mcnode/gc.go\<close>: it collects the keys that the statements of the database
  refer to in a temporary SQL table, in batches of 1024, then deletes every object of the datastore
  whose key is not in the table. Parameters: the base58 text of a key (\<open>b58\<close>), the rows of the
  query, the failing calls of the two engines.
\<close>

section \<open>The table of references\<close>

record gcdb =
  gc_refs :: "string list"
  gc_time :: nat

text \<open>
  \<open>addKeys\<close> adds to a Go map, which keeps what was added when it returns an error; a nil \<open>Body\<close>
  panics.
\<close>

definition addSimpleKeys :: "simple_statement \<Rightarrow> string list \<Rightarrow> string list" where
  "addSimpleKeys s keys = set_adds (s_Deps s) (set_add (s_Object s) keys)"

fun addKeys :: "statement \<Rightarrow> string list \<Rightarrow> (go_error option \<times> string list) outcome"
  and addEnvelopeKeys :: "statement list \<Rightarrow> string list \<Rightarrow> (go_error option \<times> string list) outcome" where
  "addKeys (Statement i p n None t sg) keys = Panic ''nil Body''"
| "addKeys (Statement i p n (Some (StatementBody None)) t sg) keys = Ok (Some BadStatementBody, keys)"
| "addKeys (Statement i p n (Some (StatementBody (Some (BodySimple s)))) t sg) keys = Ok (None, addSimpleKeys s keys)"
| "addKeys (Statement i p n (Some (StatementBody (Some (BodyCompound ss)))) t sg) keys =
     Ok (None, foldl (\<lambda>ks s. addSimpleKeys s ks) keys ss)"
| "addKeys (Statement i p n (Some (StatementBody (Some (BodyEnvelope es)))) t sg) keys = addEnvelopeKeys es keys"
| "addKeys (Statement i p n (Some (StatementBody (Some BodyArchive))) t sg) keys = Ok (Some BadStatementBody, keys)"
| "addEnvelopeKeys [] keys = Ok (None, keys)"
| "addEnvelopeKeys (e # es) keys =
     obind (addKeys e keys) (\<lambda>(err, keys').
       (case err of None \<Rightarrow> addEnvelopeKeys es keys' | Some x \<Rightarrow> Ok (Some x, keys')))"

text \<open>
  One engine call of the table: a failure, or the effect. An insertion of a key that is there
  violates the primary key.
\<close>

definition gc_call :: "faults \<Rightarrow> gcdb \<Rightarrow> unit outcome \<times> gcdb" where
  "gc_call fl gc =
     (case fl (gc_time gc) of
        Some msg \<Rightarrow> (Err (engine_error msg), gc\<lparr>gc_time := Suc (gc_time gc)\<rparr>)
      | None \<Rightarrow> (Ok (), gc\<lparr>gc_time := Suc (gc_time gc)\<rparr>))"

definition insertKey :: "faults \<Rightarrow> string \<Rightarrow> gcdb \<Rightarrow> unit outcome \<times> gcdb" where
  "insertKey fl key gc =
     (case gc_call fl gc of
        (Ok u, gc') \<Rightarrow> (if key \<in> set (gc_refs gc') then (Err ErrConstraintPrimaryKey, gc')
                         else (Ok (), gc'\<lparr>gc_refs := gc_refs gc' @ [key]\<rparr>))
      | (r, gc') \<Rightarrow> (r, gc'))"

fun insertKeys :: "faults \<Rightarrow> string list \<Rightarrow> gcdb \<Rightarrow> unit outcome \<times> gcdb" where
  "insertKeys fl [] gc = (Ok (), gc)"
| "insertKeys fl (k # ks) gc =
     (case insertKey fl k gc of
        (Ok u, gc') \<Rightarrow> insertKeys fl ks gc'
      | (Err e, gc') \<Rightarrow> (if e = ErrConstraintPrimaryKey then insertKeys fl ks gc' else (Err e, gc'))
      | (Panic m, gc') \<Rightarrow> (Panic m, gc'))"

text \<open>One transaction; when it does not commit, the table is as at its begin. \<open>ord\<close> is the order of the Go map.\<close>

definition mergeKeys :: "faults \<Rightarrow> (string list \<Rightarrow> string list) \<Rightarrow> string list \<Rightarrow> gcdb \<Rightarrow> unit outcome \<times> gcdb" where
  "mergeKeys fl ord keys gc =
     (case gc_call fl gc of
        (Ok u, gc1) \<Rightarrow>
          (case insertKeys fl (ord keys) gc1 of
             (Ok u, gc2) \<Rightarrow>
               (case gc_call fl gc2 of
                  (Ok u, gc3) \<Rightarrow> (Ok (), gc3)
                | (r, gc3) \<Rightarrow> (r, gc3\<lparr>gc_refs := gc_refs gc\<rparr>))
           | (r, gc2) \<Rightarrow> (r, gc2\<lparr>gc_refs := gc_refs gc\<rparr>))
      | (r, gc1) \<Rightarrow> (r, gc1))"

definition gc_batch :: nat where
  "gc_batch = 1024"

text \<open>The loop of \<open>Merge\<close>: the error of \<open>addKeys\<close> is not looked at.\<close>

fun gcMergeLoop :: "faults \<Rightarrow> (string list \<Rightarrow> string list) \<Rightarrow> string list \<Rightarrow> stream_item list \<Rightarrow> gcdb \<Rightarrow> unit outcome \<times> gcdb" where
  "gcMergeLoop fl ord keys [] gc = (if length keys > 0 then mergeKeys fl ord keys gc else (Ok (), gc))"
| "gcMergeLoop fl ord keys (SVal (RStmt st) # items) gc =
     (case addKeys st keys of
        Ok (err, keys') \<Rightarrow>
          (if gc_batch \<le> length keys'
           then (case mergeKeys fl ord keys' gc of
                   (Ok u, gc') \<Rightarrow> gcMergeLoop fl ord [] items gc'
                 | (r, gc') \<Rightarrow> (r, gc'))
           else gcMergeLoop fl ord keys' items gc)
      | Err e \<Rightarrow> (Err e, gc)
      | Panic m \<Rightarrow> (Panic m, gc))"
| "gcMergeLoop fl ord keys (SErr msg # items) gc = (Err (StreamError msg), gc)"
| "gcMergeLoop fl ord keys (SVal v # items) gc = (Err BadResult, gc)"

definition gcMerge ::
  "faults \<Rightarrow> (string list \<Rightarrow> string list) \<Rightarrow> engine \<Rightarrow> (string \<Rightarrow> statement outcome) \<Rightarrow> sqldb \<Rightarrow> gcdb \<Rightarrow> unit outcome \<times> gcdb" where
  "gcMerge fl ord eng unmarshal db gc =
     (case ParseQuery ''SELECT * FROM *'' of
        Ok q \<Rightarrow>
          (case db_QueryStream eng unmarshal q db of
             Ok items \<Rightarrow> gcMergeLoop fl ord [] items gc
           | Err e \<Rightarrow> (Err e, gc)
           | Panic m \<Rightarrow> (Panic m, gc))
      | Err e \<Rightarrow> (Err e, gc)
      | Panic m \<Rightarrow> (Panic m, gc))"

section \<open>The collection\<close>

text \<open>\<open>SELECT COUNT(1) FROM Refs WHERE key = ?\<close>.\<close>

definition validKey :: "faults \<Rightarrow> (string \<Rightarrow> string) \<Rightarrow> string \<Rightarrow> gcdb \<Rightarrow> bool outcome \<times> gcdb" where
  "validKey fl b58 key gc =
     (case gc_call fl gc of
        (Ok u, gc') \<Rightarrow> (Ok (length (filter (\<lambda>k. k = b58 key) (gc_refs gc')) > 0), gc')
      | (Err e, gc') \<Rightarrow> (Err e, gc')
      | (Panic m, gc') \<Rightarrow> (Panic m, gc'))"

text \<open>The count is a named result: an error returns it with what was counted so far.\<close>

fun gcLoop ::
  "faults \<Rightarrow> faults \<Rightarrow> (string \<Rightarrow> string) \<Rightarrow> int \<Rightarrow> string list \<Rightarrow> gcdb \<Rightarrow> rocksdb \<Rightarrow> int \<times> unit outcome \<times> gcdb \<times> rocksdb" where
  "gcLoop fl dsfl b58 count [] gc ds = (count, Ok (), gc, ds)"
| "gcLoop fl dsfl b58 count (key # keys) gc ds =
     (case validKey fl b58 key gc of
        (Err e, gc') \<Rightarrow> (count, Err e, gc', ds)
      | (Panic m, gc') \<Rightarrow> (count, Panic m, gc', ds)
      | (Ok valid, gc') \<Rightarrow>
          (if valid then gcLoop fl dsfl b58 count keys gc' ds
           else (case ds_Delete dsfl key ds of
                   (Ok u, ds') \<Rightarrow> gcLoop fl dsfl b58 (count + 1) keys gc' ds'
                 | (r, ds') \<Rightarrow> (count, r, gc', ds'))))"

text \<open>\<open>Compact\<close> does not change what is stored.\<close>

definition gcCollect ::
  "faults \<Rightarrow> faults \<Rightarrow> (string \<Rightarrow> string) \<Rightarrow> (string list \<Rightarrow> string list) \<Rightarrow> gcdb \<Rightarrow> rocksdb \<Rightarrow> int \<times> unit outcome \<times> gcdb \<times> rocksdb" where
  "gcCollect fl dsfl b58 kord gc ds =
     (case ds_IterKeys dsfl kord ds of
        (Ok keys, ds') \<Rightarrow> gcLoop fl dsfl b58 0 keys gc ds'
      | (Err e, ds') \<Rightarrow> (0, Err e, gc, ds')
      | (Panic m, ds') \<Rightarrow> (0, Panic m, gc, ds'))"

text \<open>The temporary table is new, and gone afterwards. \<open>Open\<close> makes four calls.\<close>

definition gcOpen :: "faults \<Rightarrow> unit outcome \<times> gcdb" where
  "gcOpen fl =
     (case gc_call fl \<lparr>gc_refs = [], gc_time = 0\<rparr> of
        (Ok u, gc) \<Rightarrow>
          (case gc_call fl gc of
             (Ok u, gc') \<Rightarrow>
               (case gc_call fl gc' of
                  (Ok u, gc'') \<Rightarrow> gc_call fl gc''
                | r \<Rightarrow> r)
           | r \<Rightarrow> r)
      | r \<Rightarrow> r)"

definition doGC ::
  "faults \<Rightarrow> faults \<Rightarrow> (string list \<Rightarrow> string list) \<Rightarrow> (string list \<Rightarrow> string list) \<Rightarrow> (string \<Rightarrow> string) \<Rightarrow> engine \<Rightarrow>
   (string \<Rightarrow> statement outcome) \<Rightarrow> node_status \<Rightarrow> sqldb \<Rightarrow> rocksdb \<Rightarrow> int \<times> unit outcome \<times> rocksdb" where
  "doGC fl dsfl ord kord b58 eng unmarshal status db ds =
     (if status \<noteq> StatusOffline then (0, Err NodeMustBeOffline, ds)
      else (case gcOpen fl of
              (Ok u, gc) \<Rightarrow>
                (case gcMerge fl ord eng unmarshal db gc of
                   (Ok u, gc') \<Rightarrow> (case gcCollect fl dsfl b58 kord gc' ds of (n, r, gc'', ds') \<Rightarrow> (n, r, ds'))
                 | (Err e, gc') \<Rightarrow> (0, Err e, ds)
                 | (Panic m, gc') \<Rightarrow> (0, Panic m, ds))
            | (Err e, gc) \<Rightarrow> (0, Err e, ds)
            | (Panic m, gc) \<Rightarrow> (0, Panic m, ds)))"

section \<open>Which keys are collected\<close>

text \<open>The keys a statement refers to: the objects and the dependencies of its simple statements.\<close>

definition object_keys :: "statement \<Rightarrow> string set" where
  "object_keys st = (\<Union>s \<in> set (simples st). insert (s_Object s) (set (s_Deps s)))"

lemma addSimpleKeys_set [simp]: "set (addSimpleKeys s keys) = insert (s_Object s) (set (s_Deps s) \<union> set keys)"
  by (auto simp: addSimpleKeys_def)

lemma addSimples_set: "set (foldl (\<lambda>ks s. addSimpleKeys s ks) keys ss) =
    set keys \<union> (\<Union>s \<in> set ss. insert (s_Object s) (set (s_Deps s)))"
  by (induction ss arbitrary: keys) auto

lemma addKeys_all:
  "bodies_set st \<Longrightarrow> no_archive st \<Longrightarrow> \<exists>ks. addKeys st keys = Ok (None, ks) \<and> set ks = set keys \<union> object_keys st"
  "list_all bodies_set es \<Longrightarrow> list_all no_archive es \<Longrightarrow>
   \<exists>ks. addEnvelopeKeys es keys = Ok (None, ks) \<and> set ks = set keys \<union> (\<Union>e \<in> set es. object_keys e)"
proof (induction st keys and es keys rule: addKeys_addEnvelopeKeys.induct)
  case (5 i p n es t sg keys)
  have "object_keys (Statement i p n (Some (StatementBody (Some (BodyEnvelope es)))) t sg) = (\<Union>e \<in> set es. object_keys e)"
    by (auto simp: object_keys_def)
  with 5 show ?case by simp
next
  case (8 e es keys)
  then obtain k1 where k1: "addKeys e keys = Ok (None, k1)" "set k1 = set keys \<union> object_keys e" by auto
  from 8(2) [OF refl, of k1] 8(3,4) obtain k2 where
    "addEnvelopeKeys es k1 = Ok (None, k2)" "set k2 = set k1 \<union> (\<Union>e \<in> set es. object_keys e)" by auto
  with k1 show ?case by auto
qed (auto simp: object_keys_def addSimples_set)

lemma addKeys_grows:
  "addKeys st keys = Ok (err, ks) \<Longrightarrow> set keys \<subseteq> set ks \<and> set ks \<subseteq> set keys \<union> object_keys st"
  "addEnvelopeKeys es keys = Ok (err, ks) \<Longrightarrow> set keys \<subseteq> set ks \<and> set ks \<subseteq> set keys \<union> (\<Union>e \<in> set es. object_keys e)"
proof (induction st keys and es keys arbitrary: err ks and err ks rule: addKeys_addEnvelopeKeys.induct)
  case (5 i p n es t sg keys)
  have "object_keys (Statement i p n (Some (StatementBody (Some (BodyEnvelope es)))) t sg) = (\<Union>e \<in> set es. object_keys e)"
    by (auto simp: object_keys_def)
  with 5 show ?case by simp
next
  case (8 e es keys)
  from 8(3) obtain err1 k1 where k1: "addKeys e keys = Ok (err1, k1)" by auto
  note 1 = 8(1) [OF k1]
  show ?case
  proof (cases err1)
    case None
    with 8(3) k1 have "addEnvelopeKeys es k1 = Ok (err, ks)" by simp
    from 8(2) [OF None this] 1 show ?thesis by auto
  next
    case (Some x)
    with 8(3) k1 1 show ?thesis by auto
  qed
qed (auto simp: object_keys_def addSimples_set)

section \<open>What the table holds after the merge\<close>

lemma gc_call_refs [simp]: "gc_refs (snd (gc_call fl gc)) = gc_refs gc"
  by (auto simp: gc_call_def split: option.splits)

lemma gc_call_cases:
  obtains gc' where "gc_call fl gc = (Ok (), gc')" "gc_refs gc' = gc_refs gc"
  | msg gc' where "gc_call fl gc = (Err (engine_error msg), gc')" "gc_refs gc' = gc_refs gc"
  by (cases "fl (gc_time gc)") (auto simp: gc_call_def)

lemma insertKeys_refs:
  "insertKeys fl ks gc = (r, gc') \<Longrightarrow>
   set (gc_refs gc) \<subseteq> set (gc_refs gc') \<and> set (gc_refs gc') \<subseteq> set (gc_refs gc) \<union> set ks \<and>
   (r = Ok () \<longrightarrow> set ks \<subseteq> set (gc_refs gc'))"
proof (induction ks arbitrary: gc)
  case (Cons k ks)
  show ?case
  proof (rule gc_call_cases [of fl gc])
    fix gc1 assume c: "gc_call fl gc = (Ok (), gc1)" "gc_refs gc1 = gc_refs gc"
    define gc2 where "gc2 = (if k \<in> set (gc_refs gc1) then gc1 else gc1\<lparr>gc_refs := gc_refs gc1 @ [k]\<rparr>)"
    have "insertKeys fl ks gc2 = (r, gc')"
      using Cons.prems c by (auto simp: insertKey_def gc2_def split: if_splits)
    moreover have "set (gc_refs gc2) = insert k (set (gc_refs gc))" using c(2) by (auto simp: gc2_def)
    ultimately show ?case using Cons.IH [of gc2] by auto
  next
    fix msg gc1 assume c: "gc_call fl gc = (Err (engine_error msg), gc1)" "gc_refs gc1 = gc_refs gc"
    with Cons.prems show ?case
      by (auto simp: insertKey_def engine_error_def ErrConstraintPrimaryKey_def)
  qed
qed simp

lemma mergeKeys_refs:
  assumes "mergeKeys fl ord keys gc = (r, gc')" "map_order ord"
  shows "(r = Ok () \<longrightarrow> set (gc_refs gc') = set (gc_refs gc) \<union> set keys) \<and> (r \<noteq> Ok () \<longrightarrow> gc_refs gc' = gc_refs gc)"
proof -
  obtain gc1 where 1: "gc_refs gc1 = gc_refs gc" "gc_call fl gc = (Ok (), gc1) \<or> (\<exists>m. gc_call fl gc = (Err (engine_error m), gc1))"
    by (rule gc_call_cases [of fl gc]) auto
  obtain r2 gc2 where 2: "insertKeys fl (ord keys) gc1 = (r2, gc2)" by fastforce
  obtain r3 gc3 where 3: "gc_call fl gc2 = (r3, gc3)" "gc_refs gc3 = gc_refs gc2" by (metis gc_call_refs prod.collapse)
  show ?thesis
    using assms(1) 1 2 3 insertKeys_refs [OF 2] map_order_set [OF assms(2), of keys]
    by (auto simp: mergeKeys_def split: outcome.splits)
qed

lemma gcMergeLoop_refs:
  "gcMergeLoop fl ord keys items gc = (Ok (), gc') \<Longrightarrow> map_order ord \<Longrightarrow>
   items = map (SVal \<circ> RStmt) sts \<Longrightarrow>
   set (gc_refs gc') \<subseteq> set (gc_refs gc) \<union> set keys \<union> (\<Union>st \<in> set sts. object_keys st) \<and>
   (list_all bodies_set sts \<and> list_all no_archive sts \<longrightarrow>
      set (gc_refs gc) \<union> set keys \<union> (\<Union>st \<in> set sts. object_keys st) \<subseteq> set (gc_refs gc'))"
proof (induction sts arbitrary: keys items gc)
  case Nil
  then show ?case using mergeKeys_refs [of fl ord keys gc "Ok ()" gc'] by (auto split: if_splits)
next
  case (Cons st sts)
  from Cons.prems obtain err ks where k: "addKeys st keys = Ok (err, ks)"
    by (auto split: outcome.splits)
  note g = addKeys_grows(1) [OF k]
  have all: "bodies_set st \<and> no_archive st \<Longrightarrow> set ks = set keys \<union> object_keys st"
    using addKeys_all(1) [of st keys] k by auto
  show ?case
  proof (cases "gc_batch \<le> length ks")
    case True
    with Cons.prems k obtain gc1 where m: "mergeKeys fl ord ks gc = (Ok (), gc1)"
      "gcMergeLoop fl ord [] (map (SVal \<circ> RStmt) sts) gc1 = (Ok (), gc')"
      by (cases "mergeKeys fl ord ks gc"; cases "fst (mergeKeys fl ord ks gc)") (auto simp: comp_def)
    have "set (gc_refs gc1) = set (gc_refs gc) \<union> set ks" using mergeKeys_refs [OF m(1) Cons.prems(2)] by simp
    with Cons.IH [OF m(2) Cons.prems(2) refl] g all show ?thesis by auto
  next
    case False
    with Cons.prems k have "gcMergeLoop fl ord ks (map (SVal \<circ> RStmt) sts) gc = (Ok (), gc')" by (simp add: comp_def)
    from Cons.IH [OF this Cons.prems(2) refl] g all show ?thesis by auto
  qed
qed

section \<open>What is deleted\<close>

lemma validKey_cases:
  assumes "validKey fl b58 key gc = (r, gc')"
  shows "gc_refs gc' = gc_refs gc" "\<forall>v. r = Ok v \<longrightarrow> v = (b58 key \<in> set (gc_refs gc))"
  using assms by (auto simp: validKey_def gc_call_def filter_empty_conv split: option.splits)

definition doomed :: "(string \<Rightarrow> string) \<Rightarrow> string set \<Rightarrow> string list \<Rightarrow> string list" where
  "doomed b58 R is = filter (\<lambda>i. b58 (HashFromBytes i) \<notin> R) is"

text \<open>
  The loop over the keys of the digests \<open>is\<close>: what is referred to stays, whatever the outcome, and
  when it returns without an error exactly the rest is gone and counted.
\<close>

lemma gcLoop_spec:
  "gcLoop fl dsfl b58 c (map HashFromBytes is) gc ds = (n, r, gc', ds') \<Longrightarrow> set (gc_refs gc) = R \<Longrightarrow>
   (\<forall>i. b58 (HashFromBytes i) \<in> R \<longrightarrow> objects ds' i = objects ds i) \<and>
   (r = Ok () \<longrightarrow> n = c + int (length (doomed b58 R is)) \<and>
      objects ds' = (\<lambda>i. if i \<in> set (doomed b58 R is) then None else objects ds i))"
proof (induction "is" arbitrary: c gc ds)
  case (Cons i "is")
  obtain v gc1 where v: "validKey fl b58 (HashFromBytes i) gc = (v, gc1)" by fastforce
  note vk = validKey_cases [OF v]
  show ?case
  proof (cases v)
    case (Ok valid)
    show ?thesis
    proof (cases valid)
      case True
      with Cons.prems v Ok have l: "gcLoop fl dsfl b58 c (map HashFromBytes is) gc1 ds = (n, r, gc', ds')" by simp
      from Cons.IH [OF l] Cons.prems(2) vk Ok True show ?thesis by (auto simp: doomed_def)
    next
      case False
      obtain rd ds1 where d: "ds_Delete dsfl (HashFromBytes i) ds = (rd, ds1)" by fastforce
      show ?thesis
      proof (cases rd)
        case u: (Ok u)
        with Cons.prems v Ok False d have l: "gcLoop fl dsfl b58 (c + 1) (map HashFromBytes is) gc1 ds1 = (n, r, gc', ds')" by simp
        have "objects ds1 = (objects ds)(i := None)"
          using rocks.delete_law [of dsfl "HashFromBytes i" ds u ds1] d u by (simp add: HashFromBytes_def)
        with Cons.IH [OF l] Cons.prems(2) vk Ok False show ?thesis by (auto simp: doomed_def fun_eq_iff)
      qed (use Cons.prems v Ok False d rocks.delete_fails [OF d] in auto)
    qed
  qed (use Cons.prems v in auto)
qed (simp add: doomed_def)

section \<open>The collector\<close>

definition gc_query :: Query where
  "gc_query = empty_query\<lparr>q_namespace := ''*'', q_selector := Some (SimpleSelector ''*'')\<rparr>"

lemma gc_query_parsed: "ParseQuery ''SELECT * FROM *'' = Ok gc_query"
  by code_simp

lemma gcOpen_refs: "gcOpen fl = (r, gc) \<Longrightarrow> gc_refs gc = []"
  by (auto simp: gcOpen_def gc_call_def split: option.splits)

text \<open>A collection that does not fail before it iterates: the table, and the loop over the digests.\<close>

lemma doGC_unfold:
  assumes "doGC fl dsfl ord kord b58 eng unmarshal status db ds = (n, r, ds')"
    and "db_QueryStream eng unmarshal gc_query db = Ok items"
  obtains (none) "objects ds' = objects ds" "r \<noteq> Ok ()"
  | (loop) gc0 gc gc' ds1 j where "rk_data ds1 = rk_data ds" "status = StatusOffline" "gc_refs gc0 = []"
    "gcMergeLoop fl ord [] items gc0 = (Ok (), gc)"
    "gcLoop fl dsfl b58 0 (map HashFromBytes (take j (kord (map fst (rk_data ds1))))) gc ds1 = (n, r, gc', ds')"
    "(\<forall>m. dsfl m = None) \<longrightarrow> length (kord (map fst (rk_data ds1))) \<le> j"
proof (cases "status = StatusOffline \<and> (\<exists>gc gc1. gcOpen fl = (Ok (), gc) \<and> gcMerge fl ord eng unmarshal db gc = (Ok (), gc1))")
  case True
  then obtain gc gc1 where o: "status = StatusOffline" "gcOpen fl = (Ok (), gc)" "gcMerge fl ord eng unmarshal db gc = (Ok (), gc1)" by blast
  then have m: "gcMergeLoop fl ord [] items gc = (Ok (), gc1)"
    by (simp add: gcMerge_def gc_query_parsed assms(2))
  obtain gc2 where c: "gcCollect fl dsfl b58 kord gc1 ds = (n, r, gc2, ds')"
    using assms(1) o by (auto simp: doGC_def split: prod.splits)
  obtain rs ds1 where it: "ds_IterKeys dsfl kord ds = (rs, ds1)" by fastforce
  show thesis
  proof (cases rs)
    case (Ok keys)
    from ds_IterKeys_Ok [OF it [unfolded Ok]] obtain j where j: "rk_data ds1 = rk_data ds"
      "keys = map HashFromBytes (take j (kord (map fst (rk_data ds1))))"
      "(\<forall>m. dsfl m = None) \<longrightarrow> length (kord (map fst (rk_data ds1))) \<le> j" by (metis not_less)
    from c it Ok j(2) have "gcLoop fl dsfl b58 0 (map HashFromBytes (take j (kord (map fst (rk_data ds1))))) gc1 ds1 = (n, r, gc2, ds')"
      by (simp add: gcCollect_def)
    with j loop o(1) m gcOpen_refs [OF o(2)] show thesis by blast
  qed (use c it none in \<open>auto simp: gcCollect_def ds_IterKeys_def ds_Sync_def rk_call_def objects_def split: option.splits prod.splits\<close>)
next
  case False
  have "ds' = ds \<and> r \<noteq> Ok ()"
    using assms(1) False by (auto simp: doGC_def split: if_splits prod.splits outcome.splits)
  with none show thesis by blast
qed

lemma live_keys:
  assumes "rk_data ds1 = rk_data ds" "map_order kord" "ds_ok digest ds"
  shows "set (kord (map fst (rk_data ds1))) = dom (objects ds)" "distinct (kord (map fst (rk_data ds1)))"
  using assms by (simp_all add: map_order_set objects_def dom_map_of_conv_image_fst map_order_distinct ds_ok_def table_ok_def)

text \<open>What SQL documents of a \<open>SELECT data FROM Statement\<close> that does not fail: the data of every row of the table.\<close>

definition selects_data :: "engine \<Rightarrow> tables \<Rightarrow> bool" where
  "selects_data eng t \<longleftrightarrow> (\<exists>data. eng ''SELECT data FROM Statement'' t = Ok (map (\<lambda>d dests. Ok [CRawBytes d]) data, None) \<and>
     set data = snd ` set (t_stmt t))"

text \<open>The statements that are stored, decoded.\<close>

definition stored_stmts :: "(string \<Rightarrow> statement outcome) \<Rightarrow> sqldb \<Rightarrow> statement set" where
  "stored_stmts unmarshal db = {st. \<exists>d \<in> snd ` set (t_stmt (db_tables db)). unmarshal d = Ok st}"

lemma gc_query_compiled: "CompileQuery gc_query = Ok (''SELECT data FROM Statement'', RowSelectSimple RowSelectStatement)"
  by code_simp

lemma stream_data:
  "\<forall>d \<in> set data. unmarshal d = Ok (f d) \<Longrightarrow>
   stream_rows unmarshal (RowSelectSimple RowSelectStatement) (map (\<lambda>d dests. Ok [CRawBytes d]) data) = Ok (map (SVal \<circ> RStmt \<circ> f) data)"
  by (induction data) simp_all

lemma gc_stream:
  assumes "selects_data eng (db_tables db)" "\<forall>d \<in> snd ` set (t_stmt (db_tables db)). \<exists>st. unmarshal d = Ok st"
  obtains sts where "db_QueryStream eng unmarshal gc_query db = Ok (map (SVal \<circ> RStmt) sts)" "set sts = stored_stmts unmarshal db"
proof -
  from assms(1) obtain data where data: "eng ''SELECT data FROM Statement'' (db_tables db) = Ok (map (\<lambda>d dests. Ok [CRawBytes d]) data, None)"
    "set data = snd ` set (t_stmt (db_tables db))" by (auto simp: selects_data_def)
  from assms(2) obtain f where f: "\<forall>d \<in> set data. unmarshal d = Ok (f d)" unfolding data(2) by metis
  show thesis
  proof (rule that [of "map f data"])
    show "db_QueryStream eng unmarshal gc_query db = Ok (map (SVal \<circ> RStmt) (map f data))"
      using data(1) stream_data [OF f] by (simp add: db_QueryStream_def gc_query_compiled)
    show "set (map f data) = stored_stmts unmarshal db" using f data(2) by (auto simp: stored_stmts_def)
  qed
qed

text \<open>C14: The collector is safe and complete when the SELECT delivers every row of the database and no statement body in it is nil or an
  archive: an object that some stored statement refers to is never deleted, whatever other call fails; a collection that succeeds has
  deleted and counted only objects that no statement refers to, and when the calls of the datastore do not
  fail it has deleted all of them.\<close>

theorem gc_exact:
  assumes "map_order ord" "map_order kord" "ds_ok digest ds" "selects_data eng (db_tables db)"
    and "\<forall>d \<in> snd ` set (t_stmt (db_tables db)). \<exists>st. unmarshal d = Ok st \<and> bodies_set st \<and> no_archive st"
    and "doGC fl dsfl ord kord b58 eng unmarshal status db ds = (n, r, ds')"
  defines "live \<equiv> {i. \<exists>st \<in> stored_stmts unmarshal db. b58 (HashFromBytes i) \<in> object_keys st}"
  shows "(\<forall>i \<in> live. objects ds' i = objects ds i) \<and>
    (r = Ok () \<longrightarrow> (\<exists>D \<subseteq> dom (objects ds) - live. objects ds' = objects ds |` (- D) \<and> n = int (card D) \<and>
       ((\<forall>m. dsfl m = None) \<longrightarrow> D = dom (objects ds) - live)))"
proof -
  have "\<forall>d \<in> snd ` set (t_stmt (db_tables db)). \<exists>st. unmarshal d = Ok st" using assms(5) by fast
  from gc_stream [OF assms(4) this] obtain sts where
    stream: "db_QueryStream eng unmarshal gc_query db = Ok (map (SVal \<circ> RStmt) sts)" and sts: "set sts = stored_stmts unmarshal db" .
  have "bodies_set st \<and> no_archive st" if "st \<in> set sts" for st
    using that assms(5) unfolding sts stored_stmts_def by fastforce
  then have bodies: "list_all bodies_set sts" "list_all no_archive sts" by (simp_all add: list_all_iff)
  from assms(6) stream show ?thesis
  proof (cases rule: doGC_unfold)
    case (loop gc0 gc gc' ds1 j)
    let ?ks = "kord (map fst (rk_data ds1))" and ?R = "set (gc_refs gc)"
    have obj: "objects ds1 = objects ds" using loop(1) by (simp add: objects_def)
    have R: "?R = (\<Union>st \<in> set sts. object_keys st)" using gcMergeLoop_refs [OF loop(4) assms(1) refl] loop(3) bodies by auto
    have live: "b58 (HashFromBytes i) \<in> ?R \<longleftrightarrow> i \<in> live" for i unfolding R sts live_def by simp
    note keys = live_keys [OF loop(1) assms(2,3)] and spec = gcLoop_spec [OF loop(5) refl]
    define D where "D = set (doomed b58 ?R (take j ?ks))"
    have D: "D = {i \<in> set (take j ?ks). i \<notin> live}" by (auto simp: D_def doomed_def live)
    have card: "length (doomed b58 ?R (take j ?ks)) = card D"
      unfolding D_def by (rule distinct_card [symmetric]) (simp add: doomed_def keys(2))
    have safe: "\<forall>i \<in> live. objects ds' i = objects ds i" using spec obj live by simp
    have "D \<subseteq> dom (objects ds) - live" using D keys(1) by (auto dest: in_set_takeD)
    moreover have "(\<forall>m. dsfl m = None) \<longrightarrow> D = dom (objects ds) - live" using D keys(1) loop(6) by auto
    moreover have "r = Ok () \<longrightarrow> objects ds' = objects ds |` (- D) \<and> n = int (card D)"
      using spec obj card by (auto simp: D_def restrict_map_def fun_eq_iff)
    ultimately show ?thesis by (intro conjI safe impI exI [of _ D]) simp_all
  qed auto
qed

definition sample_rows :: engine where
  "sample_rows = (\<lambda>sq t. Ok ([\<lambda>dests. Ok [CRawBytes ''1'']], None))"

definition sample_row_db :: sqldb where
  "sample_row_db = snd (db_Put (\<lambda>n. None) (\<lambda>xs. xs) sample_marshal (sample_stmt ''Qa'') empty_db)"

lemma sample_row_db_rows: "t_stmt (db_tables sample_row_db) = [(''Qa'', ''1'')]"
  by code_simp

lemma sample_rows_select: "selects_data sample_rows (db_tables sample_row_db)"
  by (auto simp: selects_data_def sample_rows_def sample_row_db_rows intro!: exI [of _ "[''1'']"])

definition two_objects :: rocksdb where
  "two_objects = \<lparr>rk_data = [(''o'', ''o''), (''z'', ''z'')], rk_time = 0\<rparr>"

theorem gc_exact_witness:
  "objects (snd (snd (doGC (\<lambda>n. None) (\<lambda>n. None) rev rev (drop 2) sample_rows sample_unmarshal StatusOffline sample_row_db two_objects))) =
   [''o'' \<mapsto> ''o'']"
proof -
  let ?r = "doGC (\<lambda>n. None) (\<lambda>n. None) rev rev (drop 2) sample_rows sample_unmarshal StatusOffline sample_row_db two_objects"
  have 1: "ds_ok (\<lambda>d. d) two_objects" by (simp add: ds_ok_def table_ok_def two_objects_def)
  have 2: "\<forall>d \<in> snd ` set (t_stmt (db_tables sample_row_db)). \<exists>st. sample_unmarshal d = Ok st \<and> bodies_set st \<and> no_archive st"
    by (simp add: sample_row_db_rows sample_unmarshal_def sample_stmt_def)
  have r: "fst (snd ?r) = Ok ()" by code_simp
  have "?r = (fst ?r, Ok (), snd (snd ?r))" unfolding r [symmetric] by simp
  from gc_exact [OF map_order_rev map_order_rev 1 sample_rows_select 2 this, THEN conjunct2]
  have "objects (snd (snd ?r)) = objects two_objects |` (- (dom (objects two_objects) -
      {i. \<exists>st \<in> stored_stmts sample_unmarshal sample_row_db. drop 2 (HashFromBytes i) \<in> object_keys st}))" by auto
  moreover have "stored_stmts sample_unmarshal sample_row_db = {sample_stmt ''Qa''}"
    by (auto simp: stored_stmts_def sample_row_db_rows sample_unmarshal_def)
  ultimately show ?thesis by (auto simp: object_keys_def sample_stmt_def HashFromBytes_def two_objects_def objects_def restrict_map_def fun_eq_iff)
qed

text \<open>One archive inside an envelope makes the collector lose data: the error of \<open>addKeys\<close> is ignored and
  what comes after the archive is not visited, so when the only statement is an envelope that starts
  with an archive, every object that its other statements refer to is deleted, and the collection
  reports success.\<close>

theorem gc_loses_objects:
  assumes "db_QueryStream eng unmarshal gc_query db = Ok [SVal (RStmt st)]"
    and "st = Statement i p ns (Some (StatementBody (Some (BodyEnvelope (e # es))))) t sg" "Body e = Some (StatementBody (Some BodyArchive))"
    and "map_order ord" "map_order kord" "ds_ok digest ds"
    and "doGC fl dsfl ord kord b58 eng unmarshal status db ds = (n, Ok (), ds')" "\<forall>m. dsfl m = None"
  shows "objects ds' = Map.empty \<and> n = int (card (dom (objects ds)))"
  using assms(7,1)
proof (cases rule: doGC_unfold)
  case (loop gc0 gc gc' ds1 j)
  have "addKeys e [] = Ok (Some BadStatementBody, [])" using assms(3) by (cases e rule: no_archive.cases) auto
  with loop(3,4) assms(2) have R: "set (gc_refs gc) = {}" by (simp add: gc_batch_def)
  note keys = live_keys [OF loop(1) assms(5,6)]
  have "objects ds1 = objects ds" using loop(1) by (simp add: objects_def)
  moreover have "take j (kord (map fst (rk_data ds1))) = kord (map fst (rk_data ds1))" using loop(6) assms(8) by simp
  ultimately show ?thesis using gcLoop_spec [OF loop(5) R] keys distinct_card [OF keys(2)]
    by (auto simp: doomed_def fun_eq_iff)
qed simp

definition archive_unmarshal :: "string \<Rightarrow> statement outcome" where
  "archive_unmarshal b = Ok (Statement ''Q'' ''p'' ''ns'' (Some (StatementBody (Some (BodyEnvelope
     [Statement ''Qc'' ''p'' ''ns'' (Some (StatementBody (Some BodyArchive))) 7 None, sample_stmt ''Qa''])))) 7 None)"

theorem gc_loses_objects_witness:
  "objects (snd (snd (doGC (\<lambda>n. None) (\<lambda>n. None) rev rev (drop 2) sample_rows archive_unmarshal StatusOffline empty_db two_objects))) = Map.empty"
proof -
  let ?r = "doGC (\<lambda>n. None) (\<lambda>n. None) rev rev (drop 2) sample_rows archive_unmarshal StatusOffline empty_db two_objects"
  have s: "db_QueryStream sample_rows archive_unmarshal gc_query empty_db = Ok [SVal (RStmt (Statement ''Q'' ''p'' ''ns''
      (Some (StatementBody (Some (BodyEnvelope [Statement ''Qc'' ''p'' ''ns'' (Some (StatementBody (Some BodyArchive))) 7 None, sample_stmt ''Qa''])))) 7 None))]"
    by (simp add: db_QueryStream_def gc_query_compiled sample_rows_def archive_unmarshal_def)
  have ok: "ds_ok (\<lambda>d. d) two_objects" by (simp add: ds_ok_def table_ok_def two_objects_def)
  have r: "fst (snd ?r) = Ok ()" by code_simp
  have "?r = (fst ?r, Ok (), snd (snd ?r))" unfolding r [symmetric] by simp
  from gc_loses_objects [OF s refl _ map_order_rev map_order_rev ok this] show ?thesis by simp
qed

end
