(* ===== verification/MergeCorrect.thy ===== *)
theory MergeCorrect
  imports Merge GC
begin

text \<open>
  Correctness of the merge of \<open>Merge\<close>: only statements that are complete and signed are ever stored,
  a merge that succeeds has stored every statement and has every object they refer to, provided
  the peer only sends what it was asked for, and a merge never deadlocks and always ends.
\<close>

section \<open>The keys of a statement\<close>

definition keys_ok :: "'k merge_env \<Rightarrow> keymap \<Rightarrow> bool" where
  "keys_ok E keys \<longleftrightarrow> distinct (map fst keys) \<and> (\<forall>(k, h) \<in> set keys. me_b58 E k = Ok h)"

lemma mergeObjectKey_Ok:
  assumes "mergeObjectKey E k keys = Ok keys'"
  shows "fst ` set keys' = insert k (fst ` set keys)" "keys_ok E keys \<Longrightarrow> keys_ok E keys'" "set keys \<subseteq> set keys'"
  using assms by (auto simp: mergeObjectKey_def keys_ok_def split: if_splits)

lemma mergeDeps_Ok:
  "ofold (\<lambda>ks dep. mergeObjectKey E dep ks) keys deps = Ok keys' \<Longrightarrow>
   fst ` set keys' = fst ` set keys \<union> set deps \<and> (keys_ok E keys \<longrightarrow> keys_ok E keys')"
proof (induction deps arbitrary: keys)
  case (Cons d deps)
  then obtain k1 where "mergeObjectKey E d keys = Ok k1" "ofold (\<lambda>ks dep. mergeObjectKey E dep ks) k1 deps = Ok keys'" by auto
  with Cons.IH mergeObjectKey_Ok [of E d keys k1] show ?case by auto
qed simp

lemma mergeSimpleKeys_Ok:
  assumes "mergeSimpleKeys E s keys = Ok keys'"
  shows "fst ` set keys' = fst ` set keys \<union> insert (s_Object s) (set (s_Deps s)) \<and> (keys_ok E keys \<longrightarrow> keys_ok E keys')"
proof -
  from assms obtain k1 where "mergeObjectKey E (s_Object s) keys = Ok k1"
    "ofold (\<lambda>ks dep. mergeObjectKey E dep ks) k1 (s_Deps s) = Ok keys'" by (auto simp: mergeSimpleKeys_def)
  with mergeDeps_Ok [of E k1 "s_Deps s" keys'] mergeObjectKey_Ok [of E "s_Object s" keys k1] show ?thesis by auto
qed

lemma mergeCompoundKeys_Ok:
  "ofold (\<lambda>ks s. mergeSimpleKeys E s ks) keys ss = Ok keys' \<Longrightarrow>
   fst ` set keys' = fst ` set keys \<union> (\<Union>s \<in> set ss. insert (s_Object s) (set (s_Deps s))) \<and> (keys_ok E keys \<longrightarrow> keys_ok E keys')"
proof (induction ss arbitrary: keys)
  case (Cons s ss)
  then obtain k1 where "mergeSimpleKeys E s keys = Ok k1" "ofold (\<lambda>ks s. mergeSimpleKeys E s ks) k1 ss = Ok keys'" by auto
  with Cons.IH mergeSimpleKeys_Ok [of E s keys k1] show ?case by auto
qed simp

lemma mergeStatementKeys_Ok:
  "mergeStatementKeys E st keys = Ok keys' \<Longrightarrow>
   fst ` set keys' = fst ` set keys \<union> object_keys st \<and> (keys_ok E keys \<longrightarrow> keys_ok E keys') \<and> bodies_set st"
  "mergeEnvelopeKeys E es keys = Ok keys' \<Longrightarrow>
   fst ` set keys' = fst ` set keys \<union> (\<Union>e \<in> set es. object_keys e) \<and> (keys_ok E keys \<longrightarrow> keys_ok E keys') \<and> list_all bodies_set es"
proof (induction E st keys and E es keys arbitrary: keys' and keys' rule: mergeStatementKeys_mergeEnvelopeKeys.induct)
  case (3 E i p n s t sg keys)
  then show ?case using mergeSimpleKeys_Ok [of E s keys keys'] by (simp add: object_keys_def)
next
  case (4 E i p n ss t sg keys)
  then show ?case using mergeCompoundKeys_Ok [of E keys ss keys'] by (simp add: object_keys_def)
next
  case (5 E i p n es t sg keys)
  have "object_keys (Statement i p n (Some (StatementBody (Some (BodyEnvelope es)))) t sg) = (\<Union>e \<in> set es. object_keys e)"
    by (auto simp: object_keys_def)
  with 5 show ?case by simp
next
  case (8 E e es keys)
  from 8(3) obtain k1 where k1: "mergeStatementKeys E e keys = Ok k1" "mergeEnvelopeKeys E es k1 = Ok keys'" by auto
  from 8(1) [OF k1(1)] 8(2) [OF k1(2)] show ?case by auto
qed auto

lemma mergeValue_Ok:
  assumes "mergeValue E v cache keys = Ok (st, cache', keys')" "cache_ok (me_crypto E) cache"
  shows "v = SVal (RStmt st)" "authentic (me_crypto E) st" "cache_ok (me_crypto E) cache'"
    "fst ` set keys' = fst ` set keys \<union> object_keys st" "keys_ok E keys \<Longrightarrow> keys_ok E keys'" "bodies_set st"
proof -
  from assms(1) show v: "v = SVal (RStmt st)" by (cases "(E, v, cache, keys)" rule: mergeValue.cases) auto
  with assms(1) have a: "admit (me_crypto E) st cache = Ok cache'" "mergeStatementKeys E st keys = Ok keys'" by auto
  from admit_cache [OF assms(2) a(1)] show "authentic (me_crypto E) st" "cache_ok (me_crypto E) cache'" by simp_all
  from mergeStatementKeys_Ok(1) [OF a(2)] show "fst ` set keys' = fst ` set keys \<union> object_keys st"
    "keys_ok E keys \<Longrightarrow> keys_ok E keys'" "bodies_set st" by simp_all
qed

section \<open>One batch of objects\<close>

text \<open>Nothing is lost from the datastore, and what is added is content addressed.\<close>

definition ds_grows :: "(string \<Rightarrow> string) \<Rightarrow> rocksdb \<Rightarrow> rocksdb \<Rightarrow> bool" where
  "ds_grows digest ds ds' \<longleftrightarrow> dom (objects ds) \<subseteq> dom (objects ds') \<and>
     (rocks.addressed digest ds \<longrightarrow> rocks.addressed digest ds')"

lemma ds_grows_refl [simp]: "ds_grows digest ds ds"
  by (simp add: ds_grows_def)

lemma ds_grows_trans: "ds_grows digest a b \<Longrightarrow> ds_grows digest b c \<Longrightarrow> ds_grows digest a c"
  unfolding ds_grows_def by blast

lemma ds_grows_same: "objects ds' = objects ds \<Longrightarrow> ds_grows digest ds ds'"
  by (simp add: ds_grows_def rocks.addressed_def)

lemma ds_grows_put: "ds_Put fl digest data ds = (r, ds') \<Longrightarrow> ds_grows digest ds ds'"
  unfolding ds_grows_def using rocks.put_grows rocks.put_addressed by blast

lemma missingKeys_objects: "missingKeys E keys ks ds = (r, ds') \<Longrightarrow> objects ds' = objects ds"
proof (induction ks arbitrary: ds r ds')
  case (Cons k ks)
  obtain h ds1 where h: "ds_Has (me_dsfl E) (the (map_of keys k)) ds = (h, ds1)" by fastforce
  obtain r2 ds2 where r: "missingKeys E keys ks ds1 = (r2, ds2)" by fastforce
  from rocks.has_keeps [OF h] Cons.IH [OF r] Cons.prems h r show ?case by (auto split: outcome.splits)
qed simp

text \<open>The keys that are not missing are in the datastore.\<close>

lemma missingKeys_present:
  "missingKeys E keys ks ds = (Ok miss, ds') \<Longrightarrow> set miss \<subseteq> set ks \<and>
   (\<forall>k \<in> set ks - set miss. drop 2 (the (map_of keys k)) \<in> dom (objects ds)) \<and> (distinct ks \<longrightarrow> distinct miss)"
proof (induction ks arbitrary: ds miss ds')
  case (Cons k ks)
  from Cons.prems obtain b ds1 rest where h: "ds_Has (me_dsfl E) (the (map_of keys k)) ds = (Ok b, ds1)"
    and r: "missingKeys E keys ks ds1 = (Ok rest, ds')" "miss = (if b then rest else k # rest)"
    by (auto split: prod.splits outcome.splits)
  from rocks.has_law [OF h] rocks.has_keeps [OF h] Cons.IH [OF r(1)] r(2) show ?case by auto
qed simp

text \<open>
  The loop over the answers: the objects it stored, the keys \<open>got\<close> it took off the map, are there
  under their digests.
\<close>

lemma dataLoop_spec:
  "dataLoop E c keys msgs ds = (n, r, ds') \<Longrightarrow> distinct (map fst keys) \<Longrightarrow>
   ds_grows (me_digest E) ds ds' \<and> c \<le> n \<and>
   (\<exists>got. distinct got \<and> n = c + int (length got) \<and> set got \<subseteq> fst ` set keys \<and>
      set got \<subseteq> {k. \<exists>d. Ok (DataObj k d) \<in> set msgs} \<and>
      (\<forall>k \<in> set got. drop 2 (the (map_of keys k)) \<in> dom (objects ds')))"
proof (induction E c keys msgs ds rule: dataLoop.induct)
  case (4 E c keys k d msgs ds)
  show ?case
  proof (cases "map_of keys k")
    case None
    with "4.prems" show ?thesis by (auto intro: exI [of _ "[]"])
  next
    case (Some key)
    show ?thesis
    proof (cases "key = Hash (me_digest E) d")
      case False
      with "4.prems" Some show ?thesis by (auto intro: exI [of _ "[]"])
    next
      case True
      obtain r1 ds1 where put: "ds_Put (me_dsfl E) (me_digest E) d ds = (r1, ds1)" by fastforce
      show ?thesis
      proof (cases r1)
        case (Ok x)
        let ?keys = "AList.delete k keys"
        have l: "dataLoop E (c + 1) ?keys msgs ds1 = (n, r, ds')" using "4.prems"(1) Some True put Ok by simp
        have dd: "distinct (map fst ?keys)" using "4.prems"(2) by (rule distinct_delete)
        from "4.IH" [OF Some _ put [symmetric] Ok l dd] True obtain got where
          IH: "ds_grows (me_digest E) ds1 ds'" "c + 1 \<le> n" "distinct got" "n = c + 1 + int (length got)"
          "set got \<subseteq> fst ` set ?keys" "set got \<subseteq> {k. \<exists>d. Ok (DataObj k d) \<in> set msgs}"
          "\<forall>k \<in> set got. drop 2 (the (map_of ?keys k)) \<in> dom (objects ds')" by auto
        have k: "drop 2 key \<in> dom (objects ds1)"
          using rocks.put_law [of "me_dsfl E" "me_digest E" d ds x ds1] put Ok True by (simp add: Hash_def)
        have dk: "fst ` set ?keys = fst ` set keys - {k}" by (metis delete_keys list.set_map set_removeAll)
        then have notin: "k \<notin> set got" using IH(5) by auto
        have same: "map_of ?keys j = map_of keys j" if "j \<in> set got" for j
          using that notin by (auto simp: delete_conv)
        have "ds_grows (me_digest E) ds ds'" using ds_grows_put [OF put] IH(1) by (rule ds_grows_trans)
        moreover have "k \<in> fst ` set keys" using Some by (force dest: map_of_SomeD)
        moreover have "fst ` set ?keys \<subseteq> fst ` set keys" using dk by auto
        moreover have "drop 2 key \<in> dom (objects ds')" using k IH(1) by (auto simp: ds_grows_def)
        ultimately show ?thesis using IH notin same Some
          by (intro conjI exI [of _ "k # got"]) auto
      qed (use "4.prems" Some True put ds_grows_put [OF put] in \<open>auto intro: exI [of _ "[]"]\<close>)
    qed
  qed
qed (auto intro: exI [of _ "[]"])

lemma doMergeDataImpl_grows:
  assumes "doMergeDataImpl E wr msgs keys ds = (n, r, ds')" "distinct (map fst keys)"
  shows "ds_grows (me_digest E) ds ds'"
proof -
  obtain rm ds1 where m: "missingKeys E keys (me_kord E (map fst keys)) ds = (rm, ds1)" by fastforce
  note g = ds_grows_same [OF missingKeys_objects [OF m]]
  obtain c rl ds2 where l: "dataLoop E 0 keys msgs ds1 = (c, rl, ds2)" by (cases "dataLoop E 0 keys msgs ds1") auto
  from dataLoop_spec [OF l assms(2)] g have "ds_grows (me_digest E) ds ds2" by (blast intro: ds_grows_trans)
  with assms(1) m l g show ?thesis
    by (auto simp: doMergeDataImpl_def split: outcome.splits option.splits if_splits)
qed

text \<open>
  A batch that succeeds, answered by a peer that sends only what it was asked for, leaves every key
  of the batch in the datastore: as many distinct requested objects arrived as were requested.
\<close>

lemma doMergeDataImpl_complete:
  assumes "doMergeDataImpl E wr msgs keys ds = (n, Ok (), ds')" "distinct (map fst keys)" "map_order (me_kord E)"
    and "answers_requested E msgs keys ds" "k \<in> fst ` set keys"
  shows "drop 2 (the (map_of keys k)) \<in> dom (objects ds')"
proof -
  from assms(1) obtain miss ds1 where m: "missingKeys E keys (me_kord E (map fst keys)) ds = (Ok miss, ds1)"
    by (auto simp: doMergeDataImpl_def split: prod.splits outcome.splits)
  note g = doMergeDataImpl_grows [OF assms(1,2)]
  note p = missingKeys_present [OF m]
  have ks: "set (me_kord E (map fst keys)) = fst ` set keys" "distinct (me_kord E (map fst keys))"
    using assms(2,3) by (simp_all add: map_order_set map_order_distinct)
  show ?thesis
  proof (cases "k \<in> set miss")
    case False
    with p ks(1) assms(5) have "drop 2 (the (map_of keys k)) \<in> dom (objects ds)" by blast
    with g show ?thesis by (auto simp: ds_grows_def)
  next
    case True
    with assms(1) m have l: "dataLoop E 0 keys msgs ds1 = (n, Ok (), ds')" and n: "int (length miss) \<le> n"
      by (auto simp: doMergeDataImpl_def split: option.splits prod.splits outcome.splits if_splits)
    from dataLoop_spec [OF l assms(2)] obtain got where got: "distinct got" "n = int (length got)"
      "set got \<subseteq> {k. \<exists>d. Ok (DataObj k d) \<in> set msgs}" "\<forall>k \<in> set got. drop 2 (the (map_of keys k)) \<in> dom (objects ds')"
      by auto
    have "set got \<subseteq> set miss" using got(3) assms(4) m by (force simp: answers_requested_def list_all_iff)
    moreover have "card (set miss) \<le> card (set got)" using p ks(2) got(1,2) n by (simp add: distinct_card)
    ultimately have "set got = set miss" by (metis List.finite_set card_seteq)
    with got(4) True show ?thesis by blast
  qed
qed

text \<open>A missing object can go unnoticed: the answers are looked up among all keys of the batch, not among
  the ones that were asked for, so a peer that sends again an object the node already has, in place of
  the one it lacks, makes the batch succeed without it.\<close>

theorem batch_misses_object:
  assumes "a \<noteq> b" "objects ds (me_digest E da) = Some da" "da \<noteq> []" "objects ds (me_digest E db) = None"
    and "\<And>n. me_dsfl E n = None" "me_kord E [a, b] = [a, b]"
  shows "\<exists>ds'. doMergeDataImpl E None [Ok (DataObj a da), Ok DataEnd]
      [(a, Hash (me_digest E) da), (b, Hash (me_digest E) db)] ds = (1, Ok (), ds') \<and> objects ds' (me_digest E db) = None"
proof -
  let ?keys = "[(a, Hash (me_digest E) da), (b, Hash (me_digest E) db)]"
  have h: "ds_Has (me_dsfl E) (Hash (me_digest E) d) s = (Ok (case objects s (me_digest E d) of None \<Rightarrow> False | Some d \<Rightarrow> d \<noteq> []),
      s\<lparr>rk_time := Suc (rk_time s)\<rparr>)" for d s
    by (auto simp: ds_Has_def rk_call_def assms(5) objects_def split: option.splits)
  have ne: "me_digest E da \<noteq> me_digest E db" using assms(2,4) by auto
  obtain ds1 where m: "missingKeys E ?keys [a, b] ds = (Ok [b], ds1)" "objects ds1 = objects ds"
    using h assms(1-4) by (simp add: objects_def)
  have put: "ds_Put (me_dsfl E) (me_digest E) da ds1 =
      (Ok (Hash (me_digest E) da), \<lparr>rk_data = AList.update (me_digest E da) da (rk_data ds1), rk_time = Suc (rk_time ds1)\<rparr>)"
    by (simp add: ds_Put_def Let_def rk_call_def assms(5))
  from m(2) assms(4) ne have "objects \<lparr>rk_data = AList.update (me_digest E da) da (rk_data ds1), rk_time = Suc (rk_time ds1)\<rparr> (me_digest E db) = None"
    by (simp add: objects_def update_conv)
  with m(1) put assms(1,6) show ?thesis by (simp add: doMergeDataImpl_def)
qed

section \<open>Only authentic statements are stored\<close>

definition admitted :: "'k merge_env \<Rightarrow> stream_item list \<Rightarrow> statement set" where
  "admitted E items = {st. SVal (RStmt st) \<in> set items \<and> authentic (me_crypto E) st}"

definition db_core :: "'k merge_env \<Rightarrow> stream_item list \<Rightarrow> sqldb \<Rightarrow> statement list \<Rightarrow> sqldb \<Rightarrow> int \<Rightarrow> bool" where
  "db_core E seen db0 stmts db c \<longleftrightarrow>
     set stmts \<subseteq> admitted E seen \<and>
     (\<forall>i \<in> dom (stored db) - dom (stored db0). \<exists>st \<in> admitted E seen. Id st = i \<and> cr_marshal (me_crypto E) st = stored db i) \<and>
     stored db0 \<subseteq>\<^sub>m stored db \<and> c = int (card (dom (stored db) - dom (stored db0)))"

lemma finite_stored [simp]: "finite (dom (stored db))"
  by (simp add: stored_def finite_dom_map_of)

lemma db_core_batch:
  assumes "db_core E seen db0 sts db c" "db_MergeBatch (me_dbfl E) (me_rord E) (cr_marshal (me_crypto E)) sts db = (r, db')"
  shows "r = Ok n \<Longrightarrow> db_core E seen db0 [] db' (c + n)" "(\<forall>n. r \<noteq> Ok n) \<Longrightarrow> db_core E seen db0 sts db' c"
proof -
  assume "r = Ok n"
  with assms(2) have m: "db_MergeBatch (me_dbfl E) (me_rord E) (cr_marshal (me_crypto E)) sts db = (Ok n, db')" by simp
  note mc = sqlite.merge_count [OF m]
  from assms(1) have le: "stored db0 \<subseteq>\<^sub>m stored db" by (simp add: db_core_def)
  then have sub: "dom (stored db0) \<subseteq> dom (stored db)" by (rule map_le_implies_dom_le)
  have "dom (stored db') - dom (stored db0) = (dom (stored db) - dom (stored db0)) \<union> (Id ` set sts - dom (stored db))"
    using mc(2) sub by auto
  moreover have "card \<dots> = card (dom (stored db) - dom (stored db0)) + card (Id ` set sts - dom (stored db))"
    by (rule card_Un_disjoint) auto
  moreover have "\<exists>st \<in> admitted E seen. Id st = i \<and> cr_marshal (me_crypto E) st = stored db' i"
    if i: "i \<in> dom (stored db') - dom (stored db0)" for i
  proof (cases "i \<in> dom (stored db)")
    case True
    with mc(3) have "stored db' i = stored db i" by (simp add: map_le_def)
    with True i assms(1) show ?thesis by (simp add: db_core_def del: domIff)
  next
    case False
    with i have "i \<in> dom (stored db') - dom (stored db)" by blast
    from sqlite.merge_new [OF m this] obtain st where "st \<in> set sts" "Id st = i" "cr_marshal (me_crypto E) st = Some (the (stored db' i))" .
    with i assms(1) show ?thesis by (force simp: db_core_def)
  qed
  ultimately show "db_core E seen db0 [] db' (c + n)"
    using assms(1) mc(1) map_le_trans [OF le mc(3)] by (simp add: db_core_def)
next
  assume "\<forall>n. r \<noteq> Ok n"
  with assms(1) sqlite.merge_batch_fails [OF assms(2)] show "db_core E seen db0 sts db' c" by (simp add: db_core_def)
qed

lemma db_core_more: "db_core E seen db0 sts db c \<Longrightarrow> db_core E (seen @ vs) db0 sts db c"
  by (auto simp: db_core_def admitted_def)

definition inv_db :: "'k merge_env \<Rightarrow> stream_item list \<Rightarrow> sqldb \<Rightarrow> 'k mstate \<Rightarrow> bool" where
  "inv_db E items db0 s \<longleftrightarrow> (\<exists>seen. items = seen @ m_in s \<and> cache_ok (me_crypto E) (m_cache s) \<and>
     db_core E seen db0 (m_stmts s) (m_db s) (m_count s))"

text \<open>What \<open>mergeStmts\<close> and \<open>mergeAppend\<close> leave alone, and how the loop goes on.\<close>

lemma mergeStmts_frame [simp]:
  "m_in (mergeStmts E a b s) = m_in s" "m_cache (mergeStmts E a b s) = m_cache s" "m_keys (mergeStmts E a b s) = m_keys s"
  "m_work (mergeStmts E a b s) = m_work s" "m_closed (mergeStmts E a b s) = m_closed s" "m_res (mergeStmts E a b s) = m_res s"
  "m_pool (mergeStmts E a b s) = m_pool s" "m_ds (mergeStmts E a b s) = m_ds s" "m_workers (mergeStmts E a b s) = m_workers s"
  "m_ocount (mergeStmts E a b s) = m_ocount s"
  by (auto simp: mergeStmts_def split: prod.splits outcome.splits)

lemma mergeAppend_frame [simp]:
  "m_in (mergeAppend E st s) = m_in s" "m_cache (mergeAppend E st s) = m_cache s" "m_keys (mergeAppend E st s) = m_keys s"
  "m_work (mergeAppend E st s) = m_work s" "m_closed (mergeAppend E st s) = m_closed s" "m_res (mergeAppend E st s) = m_res s"
  "m_pool (mergeAppend E st s) = m_pool s" "m_ds (mergeAppend E st s) = m_ds s" "m_workers (mergeAppend E st s) = m_workers s"
  by (simp_all add: mergeAppend_def Let_def)

lemma takeResult_frame [simp]:
  "m_in (takeResult pc s) = m_in s" "m_cache (takeResult pc s) = m_cache s" "m_keys (takeResult pc s) = m_keys s"
  "m_work (takeResult pc s) = m_work s" "m_closed (takeResult pc s) = m_closed s" "m_res (takeResult pc s) = tl (m_res s)"
  "m_pool (takeResult pc s) = m_pool s" "m_ds (takeResult pc s) = m_ds s" "m_workers (takeResult pc s) = m_workers s - 1"
  "m_stmts (takeResult pc s) = m_stmts s" "m_db (takeResult pc s) = m_db s" "m_count (takeResult pc s) = m_count s"
  "m_pc (takeResult pc s) = pc" "m_err (takeResult pc s) = snd (hd (m_res s))"
  by (simp_all add: takeResult_def)

lemma mergeStmts_core:
  "db_core E seen db0 (m_stmts s) (m_db s) (m_count s) \<Longrightarrow>
   db_core E seen db0 (m_stmts (mergeStmts E a b s)) (m_db (mergeStmts E a b s)) (m_count (mergeStmts E a b s))"
  by (auto simp: mergeStmts_def split: prod.splits outcome.splits dest: db_core_batch)

lemma mergeAppend_core:
  "db_core E seen db0 (m_stmts s @ [st]) (m_db s) (m_count s) \<Longrightarrow>
   db_core E seen db0 (m_stmts (mergeAppend E st s)) (m_db (mergeAppend E st s)) (m_count (mergeAppend E st s))"
  using mergeStmts_core [of E seen db0 "s\<lparr>m_stmts := m_stmts s @ [st]\<rparr>"] by (simp add: mergeAppend_def Let_def)

text \<open>Taking a value off the channel and appending its statement keeps the invariant.\<close>

lemma inv_db_value:
  assumes "inv_db E items db0 s" "m_in s = v # vs" "mergeValue E v (m_cache s) (m_keys s) = Ok (st, cache, keys)"
    and "m_in s' = vs" "m_cache s' = cache" "m_stmts s' = m_stmts s" "m_db s' = m_db s" "m_count s' = m_count s"
  shows "inv_db E items db0 (mergeAppend E st s')" "inv_db E items db0 s'"
proof -
  from assms(1) obtain seen where seen: "items = seen @ m_in s" "cache_ok (me_crypto E) (m_cache s)"
    "db_core E seen db0 (m_stmts s) (m_db s) (m_count s)" by (auto simp: inv_db_def)
  note v = mergeValue_Ok [OF assms(3) seen(2)]
  note core = db_core_more [OF seen(3), of "[v]"]
  from core v(1,2) have "db_core E (seen @ [v]) db0 (m_stmts s' @ [st]) (m_db s') (m_count s')"
    by (simp add: db_core_def admitted_def assms(6-8))
  from mergeAppend_core [OF this] seen(1) v(3) assms(2,4,5) show "inv_db E items db0 (mergeAppend E st s')"
    unfolding inv_db_def by (intro exI [of _ "seen @ [v]"]) simp
  from core seen(1) v(3) assms show "inv_db E items db0 s'"
    unfolding inv_db_def by (intro exI [of _ "seen @ [v]"]) simp
qed

lemma merge_step_db: "merge_step E honest s s' \<Longrightarrow> inv_db E items db0 s \<Longrightarrow> inv_db E items db0 s'"
proof (induction rule: merge_step.induct)
  case (loop_break s v vs e)
  then obtain seen where "items = seen @ v # vs" "cache_ok (me_crypto E) (m_cache s)"
    "db_core E seen db0 (m_stmts s) (m_db s) (m_count s)" by (auto simp: inv_db_def)
  then show ?case unfolding inv_db_def by (intro exI [of _ "seen @ [v]"]) (simp add: db_core_more)
next
  case (loop_next s v vs st cache keys)
  show ?case by (rule inv_db_value(1) [OF loop_next.prems loop_next(2,3)]) simp_all
next
  case (loop_send s v vs st cache keys)
  show ?case by (rule inv_db_value(1) [OF loop_send.prems loop_send(2,3)]) simp_all
next
  case (loop_result s v vs st cache keys)
  show ?case by (rule inv_db_value(2) [OF loop_result.prems loop_result(2,3)]) simp_all
next
  case (loop_cancel s v vs st cache keys)
  show ?case by (rule inv_db_value(2) [OF loop_cancel.prems loop_cancel(2,3)]) simp_all
next
  case (flush s)
  then show ?case using mergeStmts_core by (fastforce simp: inv_db_def)
qed (simp_all add: inv_db_def)

section \<open>The datastore and the key maps\<close>

definition inv_ds :: "'k merge_env \<Rightarrow> rocksdb \<Rightarrow> 'k mstate \<Rightarrow> bool" where
  "inv_ds E ds0 s \<longleftrightarrow> cache_ok (me_crypto E) (m_cache s) \<and> keys_ok E (m_keys s) \<and> list_all (keys_ok E) (m_work s) \<and>
     ds_grows (me_digest E) ds0 (m_ds s)"

lemma keys_ok_Nil [simp]: "keys_ok E []"
  by (simp add: keys_ok_def)

lemma keys_ok_distinct: "keys_ok E keys \<Longrightarrow> distinct (map fst keys)"
  by (simp add: keys_ok_def)

lemma merge_step_ds: "merge_step E honest s s' \<Longrightarrow> inv_ds E ds0 s \<Longrightarrow> inv_ds E ds0 s'"
proof (induction rule: merge_step.induct)
  case (work s ps w qs keys ks wr msgs n ds')
  then show ?case using doMergeDataImpl_grows [OF work(4)]
    by (auto simp: inv_ds_def keys_ok_distinct intro: ds_grows_trans)
next
  case (work_fail s ps w qs keys ks wr msgs n e ds')
  then show ?case using doMergeDataImpl_grows [OF work_fail(4)]
    by (auto simp: inv_ds_def keys_ok_distinct intro: ds_grows_trans)
next
  case (work_crash s ps w qs keys ks wr msgs n m ds')
  then show ?case using doMergeDataImpl_grows [OF work_crash(4)]
    by (auto simp: inv_ds_def keys_ok_distinct intro: ds_grows_trans)
qed (auto simp: inv_ds_def dest: mergeValue_Ok(3,5))

section \<open>The pool of workers\<close>

fun is_crash :: "phase \<Rightarrow> bool" where
  "is_crash (PCrash m) = True"
| "is_crash _ = False"

fun past_close :: "phase \<Rightarrow> bool" where
  "past_close (PCollect x) = True"
| "past_close PDone = True"
| "past_close _ = False"

lemma not_crash: "(\<forall>m. pc \<noteq> PCrash m) \<longleftrightarrow> \<not> is_crash pc"
  by (cases pc) auto

text \<open>An error of the merge, or one that a worker has reported and the loop has yet to see.\<close>

definition fails :: "'k mstate \<Rightarrow> bool" where
  "fails s \<longleftrightarrow> m_err s \<noteq> None \<or> (\<exists>n e. (n, Some e) \<in> set (m_res s))"

fun outstanding :: "phase \<Rightarrow> nat \<Rightarrow> nat" where
  "outstanding (PCollect x) n = x"
| "outstanding PDone n = 0"
| "outstanding _ n = n"

definition inv_pool :: "'k merge_env \<Rightarrow> 'k mstate \<Rightarrow> bool" where
  "inv_pool E s \<longleftrightarrow>
     is_crash (m_pc s) \<or>
     (m_closed s = past_close (m_pc s) \<and>
      (\<not> m_closed s \<longrightarrow> (\<forall>(n, e) \<in> set (m_res s). e \<noteq> None)) \<and>
      (\<not> fails s \<longrightarrow> length (m_pool s) = me_cpus E \<or> m_closed s \<and> m_work s = []) \<and>
      length (m_pool s) + length (m_res s) = outstanding (m_pc s) (m_workers s) \<and>
      (m_pc s = PLoop \<or> m_pc s = PSend \<and> m_err s = None \<longrightarrow> m_workers s = me_cpus E))"

lemma mergeStmts_phase:
  "m_pc (mergeStmts E a b s) = a \<and> m_err (mergeStmts E a b s) = m_err s \<and> m_stmts (mergeStmts E a b s) = [] \<or>
   m_pc (mergeStmts E a b s) = b \<and> m_err (mergeStmts E a b s) \<noteq> None \<or>
   is_crash (m_pc (mergeStmts E a b s))"
  by (auto simp: mergeStmts_def split: prod.splits outcome.splits)

lemma mergeAppend_phase:
  "m_pc s = PLoop \<Longrightarrow> m_pc (mergeAppend E st s) = PLoop \<and> m_err (mergeAppend E st s) = m_err s \<or>
   m_pc (mergeAppend E st s) = PSend \<and> m_err (mergeAppend E st s) \<noteq> None \<or>
   is_crash (m_pc (mergeAppend E st s))"
  using mergeStmts_phase [of E PLoop PSend "s\<lparr>m_stmts := m_stmts s @ [st]\<rparr>"] by (auto simp: mergeAppend_def Let_def)

lemma takeResult_fails:
  assumes "m_res s \<noteq> []" "\<forall>(n, e) \<in> set (m_res s). e \<noteq> None"
  shows "m_err (takeResult pc s) \<noteq> None"
  using assms by (cases "m_res s") auto

lemma merge_step_pool: "merge_step E honest s s' \<Longrightarrow> inv_pool E s \<Longrightarrow> inv_pool E s'"
proof (induction rule: merge_step.induct)
  case (loop_next s v vs st cache keys)
  then show ?case using mergeAppend_phase [of "s\<lparr>m_in := vs, m_cache := cache, m_keys := keys\<rparr>" E st]
    by (auto simp: inv_pool_def fails_def)
next
  case (loop_send s v vs st cache keys)
  then show ?case using mergeAppend_phase [of "s\<lparr>m_in := vs, m_cache := cache, m_keys := [], m_work := m_work s @ [keys]\<rparr>" E st]
    by (auto simp: inv_pool_def fails_def)
next
  case (loop_result s v vs st cache keys)
  then show ?case using takeResult_fails [of s PSend] by (cases "m_res s") (auto simp: inv_pool_def fails_def)
next
  case (send_result s)
  then show ?case using takeResult_fails [of s PFlush] by (cases "m_res s") (auto simp: inv_pool_def fails_def)
next
  case (flush s)
  then show ?case using mergeStmts_phase [of E "PCollect (m_workers s)" "PCollect (m_workers s)" s]
    by (auto simp: inv_pool_def fails_def)
next
  case (collect s x n err rs)
  then show ?case by (auto simp: inv_pool_def fails_def)
qed (auto simp: inv_pool_def fails_def not_crash)

section \<open>Progress and termination\<close>

fun phase_weight :: "phase \<Rightarrow> nat" where
  "phase_weight PLoop = 7"
| "phase_weight PSend = 6"
| "phase_weight PFlush = 3"
| "phase_weight (PCollect x) = 2"
| "phase_weight PDone = 1"
| "phase_weight (PCrash m) = 0"

text \<open>An upper bound of the number of steps that are left.\<close>

definition merge_bound :: "'k mstate \<Rightarrow> nat" where
  "merge_bound s = 3 * length (m_in s) + phase_weight (m_pc s) + 2 * length (m_work s) + 2 * length (m_pool s) + length (m_res s)"

lemma mergeStmts_weight: "phase_weight (m_pc (mergeStmts E a b s)) \<le> max (phase_weight a) (phase_weight b)"
  by (auto simp: mergeStmts_def split: prod.splits outcome.splits)

lemma mergeAppend_weight: "m_pc s = PLoop \<Longrightarrow> phase_weight (m_pc (mergeAppend E st s)) \<le> 7"
  using mergeStmts_weight [of E PLoop PSend "s\<lparr>m_stmts := m_stmts s @ [st]\<rparr>"] by (simp add: mergeAppend_def Let_def)

lemma merge_step_decreases: "merge_step E honest s s' \<Longrightarrow> merge_bound s' < merge_bound s"
proof (induction rule: merge_step.induct)
  case (loop_next s v vs st cache keys)
  then show ?case using mergeAppend_weight [of "s\<lparr>m_in := vs, m_cache := cache, m_keys := keys\<rparr>" E st]
    by (simp add: merge_bound_def)
next
  case (loop_send s v vs st cache keys)
  then show ?case using mergeAppend_weight [of "s\<lparr>m_in := vs, m_cache := cache, m_keys := [], m_work := m_work s @ [keys]\<rparr>" E st]
    by (simp add: merge_bound_def)
next
  case (flush s)
  then show ?case using mergeStmts_weight [of E "PCollect (m_workers s)" "PCollect (m_workers s)" s]
    by (auto simp: merge_bound_def)
next
  case (work_crash s ps w qs keys ks wr msgs n m ds')
  then show ?case by (cases "m_pc s") (auto simp: merge_bound_def)
qed (auto simp: merge_bound_def)

text \<open>A worker can move as long as there is one, and work for it or nothing more to come.\<close>

lemma worker_moves:
  assumes "\<not> is_crash (m_pc s)" "m_pool s \<noteq> []" "m_work s \<noteq> [] \<or> m_closed s"
  shows "\<exists>s'. merge_step E honest s s'"
proof -
  obtain w qs where p: "m_pool s = [] @ w # qs" using assms(2) by (cases "m_pool s") auto
  have c: "\<forall>m. m_pc s \<noteq> PCrash m" using assms(1) by (simp add: not_crash)
  show ?thesis
  proof (cases "m_work s")
    case Nil
    with assms(3) show ?thesis using work_end [OF c p] by blast
  next
    case (Cons keys ks)
    obtain n r ds' where d: "doMergeDataImpl E None [] keys (m_ds s) = (n, r, ds')" by (metis prod_cases3)
    have a: "answers_requested E [] keys (m_ds s)" by (simp add: answers_requested_def split: prod.split outcome.split)
    show ?thesis
    proof (cases r)
      case (Ok u)
      with d a work [OF c p Cons, of E None "[]" n ds' honest] show ?thesis by auto
    next
      case (Err e)
      with d work_fail [OF c p Cons, of E None "[]" n e ds' honest] show ?thesis by auto
    next
      case (Panic m)
      with d work_crash [OF c p Cons, of E None "[]" n m ds' honest] show ?thesis by auto
    qed
  qed
qed

lemma loop_moves:
  assumes "m_pc s = PLoop" "length (m_work s) < workch_cap E \<or> m_res s \<noteq> []"
  shows "\<exists>s'. merge_step E honest s s'"
proof (cases "m_in s")
  case (Cons v vs)
  show ?thesis
  proof (cases "mergeValue E v (m_cache s) (m_keys s)")
    case (Ok x)
    obtain st cache keys where x: "x = (st, cache, keys)" by (cases x) auto
    show ?thesis
      using assms loop_next [OF assms(1) Cons Ok [unfolded x]] loop_send [OF assms(1) Cons Ok [unfolded x]]
        loop_result [OF assms(1) Cons Ok [unfolded x]] by (cases "length keys < merge_batch") (auto simp: not_less)
  qed (use loop_break [OF assms(1) Cons] loop_crash [OF assms(1) Cons] in blast)+
qed (use loop_end [OF assms(1)] in blast)

lemma merge_progress:
  assumes "inv_pool E s" "\<not> finished (m_pc s)" "0 < me_cpus E"
  shows "\<exists>s'. merge_step E honest s s'"
proof -
  have c: "\<not> is_crash (m_pc s)" using assms(2) by (cases "m_pc s") auto
  with assms(1) have p: "length (m_pool s) + length (m_res s) = outstanding (m_pc s) (m_workers s)"
    "m_closed s = past_close (m_pc s)" "m_pc s = PLoop \<or> m_pc s = PSend \<and> m_err s = None \<longrightarrow> m_workers s = me_cpus E"
    by (auto simp: inv_pool_def)
  have full: "\<exists>s'. merge_step E honest s s'" if "\<not> length (m_work s) < workch_cap E" "m_res s = []" "m_workers s = me_cpus E"
    "outstanding (m_pc s) (m_workers s) = m_workers s"
    using that p(1) assms(3) by (intro worker_moves c) (auto simp: workch_cap_def)
  show ?thesis
  proof (cases "m_pc s")
    case PLoop
    then show ?thesis using loop_moves [OF PLoop] full p(3) by (cases "length (m_work s) < workch_cap E \<or> m_res s \<noteq> []") auto
  next
    case PSend
    show ?thesis
    proof (cases "m_keys s = [] \<or> m_err s \<noteq> None")
      case True
      then show ?thesis using send_skip [OF PSend] by blast
    next
      case False
      then show ?thesis using send_keys [OF PSend, where E = E] send_result [OF PSend, where E = E] full p(3) PSend
        by (metis outstanding.simps(4))
    qed
  next
    case PFlush
    then show ?thesis using merge_step.flush by blast
  next
    case (PCollect x)
    show ?thesis
    proof (cases x)
      case 0
      then show ?thesis using PCollect collected by blast
    next
      case (Suc y)
      show ?thesis
      proof (cases "m_res s")
        case Nil
        then show ?thesis using p(1,2) PCollect Suc by (intro worker_moves c) auto
      next
        case (Cons a rs)
        then show ?thesis using collect [of s y "fst a" "snd a" rs] PCollect Suc by auto
      qed
    qed
  qed (use assms(2) in auto)
qed

section \<open>A merge that succeeds is complete\<close>

text \<open>A statement is accounted for when it is pending or stored, a key when it is pending, handed to the pool or fetched.\<close>

definition key_fetched :: "'k merge_env \<Rightarrow> rocksdb \<Rightarrow> string \<Rightarrow> bool" where
  "key_fetched E ds k \<longleftrightarrow> (\<exists>h. me_b58 E k = Ok h \<and> drop 2 h \<in> dom (objects ds))"

definition key_pending :: "'k mstate \<Rightarrow> string set" where
  "key_pending s = (if m_pc s = PLoop \<or> m_pc s = PSend then fst ` set (m_keys s) else {}) \<union> (\<Union>b \<in> set (m_work s). fst ` set b)"

definition accounted :: "'k merge_env \<Rightarrow> 'k mstate \<Rightarrow> stream_item \<Rightarrow> bool" where
  "accounted E s v \<longleftrightarrow> (\<exists>st. v = SVal (RStmt st) \<and> authentic (me_crypto E) st \<and>
     (st \<in> set (m_stmts s) \<or> Id st \<in> dom (stored (m_db s))) \<and>
     (\<forall>k \<in> object_keys st. k \<in> key_pending s \<or> key_fetched E (m_ds s) k))"

definition inv_done :: "'k merge_env \<Rightarrow> stream_item list \<Rightarrow> 'k mstate \<Rightarrow> bool" where
  "inv_done E items s \<longleftrightarrow> is_crash (m_pc s) \<or> fails s \<or>
     (\<exists>seen. items = seen @ m_in s \<and> list_all (accounted E s) seen \<and>
        (m_pc s \<noteq> PLoop \<longrightarrow> m_in s = []) \<and> (past_close (m_pc s) \<longrightarrow> m_stmts s = []))"

lemma accounted_mono:
  assumes "accounted E s v" "set (m_stmts s) \<subseteq> set (m_stmts s') \<union> {st. Id st \<in> dom (stored (m_db s'))}"
    and "dom (stored (m_db s)) \<subseteq> dom (stored (m_db s'))"
    and "\<And>k. k \<in> key_pending s \<Longrightarrow> k \<in> key_pending s' \<or> key_fetched E (m_ds s') k"
    and "dom (objects (m_ds s)) \<subseteq> dom (objects (m_ds s'))"
  shows "accounted E s' v"
proof -
  from assms(1) obtain st where st: "v = SVal (RStmt st)" "authentic (me_crypto E) st"
    "st \<in> set (m_stmts s) \<or> Id st \<in> dom (stored (m_db s))"
    "\<And>k. k \<in> object_keys st \<Longrightarrow> k \<in> key_pending s \<or> key_fetched E (m_ds s) k" by (auto simp: accounted_def)
  have "key_fetched E (m_ds s) k \<Longrightarrow> key_fetched E (m_ds s') k" for k
    using assms(5) unfolding key_fetched_def by blast
  with st(4) assms(4) have "k \<in> object_keys st \<Longrightarrow> k \<in> key_pending s' \<or> key_fetched E (m_ds s') k" for k by blast
  moreover have "st \<in> set (m_stmts s') \<or> Id st \<in> dom (stored (m_db s'))" using st(3) assms(2,3) by blast
  ultimately show ?thesis using st(1,2) unfolding accounted_def by blast
qed

lemma accounted_all_mono:
  assumes "list_all (accounted E s) seen" "set (m_stmts s) \<subseteq> set (m_stmts s') \<union> {st. Id st \<in> dom (stored (m_db s'))}"
    and "dom (stored (m_db s)) \<subseteq> dom (stored (m_db s'))"
    and "\<And>k. k \<in> key_pending s \<Longrightarrow> k \<in> key_pending s' \<or> key_fetched E (m_ds s') k"
    and "dom (objects (m_ds s)) \<subseteq> dom (objects (m_ds s'))"
  shows "list_all (accounted E s') seen"
  using assms(1) unfolding list_all_iff by (auto intro: accounted_mono [OF _ assms(2-5)])

lemma mergeStmts_db:
  "dom (stored (m_db s)) \<subseteq> dom (stored (m_db (mergeStmts E a b s))) \<and>
   set (m_stmts s) \<subseteq> set (m_stmts (mergeStmts E a b s)) \<union> {st. Id st \<in> dom (stored (m_db (mergeStmts E a b s)))}"
proof -
  obtain r db' where m: "db_MergeBatch (me_dbfl E) (me_rord E) (cr_marshal (me_crypto E)) (m_stmts s) (m_db s) = (r, db')" by fastforce
  show ?thesis using sqlite.merge_count(2) [of "me_dbfl E" "me_rord E" "cr_marshal (me_crypto E)" "m_stmts s" "m_db s" _ db']
      sqlite.grows(4) [OF m] m map_le_implies_dom_le by (cases r) (fastforce simp: mergeStmts_def)+
qed

lemma mergeAppend_db:
  "dom (stored (m_db s)) \<subseteq> dom (stored (m_db (mergeAppend E st s))) \<and>
   insert st (set (m_stmts s)) \<subseteq> set (m_stmts (mergeAppend E st s)) \<union> {x. Id x \<in> dom (stored (m_db (mergeAppend E st s)))}"
  using mergeStmts_db [of "s\<lparr>m_stmts := m_stmts s @ [st]\<rparr>" E PLoop PSend]
  by (cases "merge_batch \<le> length (m_stmts s @ [st])") (auto simp: mergeAppend_def Let_def)

text \<open>The loop takes the next value: the keys that were pending still are, and so are those of the statement.\<close>

lemma inv_done_value:
  assumes "inv_done E items s" "m_pc s = PLoop" "\<not> fails s" "m_in s = v # vs"
    and "mergeValue E v (m_cache s) (m_keys s) = Ok (st, cache, keys)" "cache_ok (me_crypto E) (m_cache s)"
    and s1: "m_in s1 = vs" "m_pc s1 = PLoop" "m_stmts s1 = m_stmts s" "m_db s1 = m_db s" "m_ds s1 = m_ds s" "m_err s1 = m_err s"
    and keys: "fst ` set keys \<subseteq> fst ` set (m_keys s1) \<union> (\<Union>b \<in> set (m_work s1). fst ` set b)" "set (m_work s) \<subseteq> set (m_work s1)"
  shows "inv_done E items (mergeAppend E st s1)"
proof -
  let ?s = "mergeAppend E st s1"
  from assms(1-4) obtain seen where seen: "items = seen @ v # vs" "list_all (accounted E s) seen"
    by (auto simp: inv_done_def)
  note v = mergeValue_Ok [OF assms(5,6)]
  consider "m_pc ?s = PLoop" "m_err ?s = m_err s" | "fails ?s \<or> is_crash (m_pc ?s)"
    using mergeAppend_phase [OF s1(2), of E st] s1(6) by (auto simp: fails_def)
  then show ?thesis
  proof cases
    case 1
    have pend: "key_pending s \<union> object_keys st \<subseteq> key_pending ?s"
      using keys v(4) 1(1) assms(2) by (auto simp: key_pending_def)
    have "list_all (accounted E ?s) seen"
      using mergeAppend_db [of s1 E st] pend s1 by (intro accounted_all_mono [OF seen(2)]) auto
    moreover have "accounted E ?s v"
      using v(1,2) pend mergeAppend_db [of s1 E st] by (auto simp: accounted_def)
    ultimately show ?thesis using seen(1) s1(1) 1(1)
      unfolding inv_done_def by (intro disjI2 exI [of _ "seen @ [v]"]) simp
  qed (auto simp: inv_done_def)
qed

lemma batch_fetched:
  assumes "doMergeDataImpl E wr msgs keys ds = (n, Ok (), ds')" "keys_ok E keys" "map_order (me_kord E)"
    and "answers_requested E msgs keys ds" "k \<in> fst ` set keys"
  shows "key_fetched E ds' k"
proof -
  from assms(2,5) have "map_of keys k \<noteq> None" by (simp add: map_of_eq_None_iff)
  then obtain h where "map_of keys k = Some h" by blast
  moreover from this assms(2) have "me_b58 E k = Ok h" by (auto simp: keys_ok_def dest: map_of_SomeD)
  ultimately show ?thesis
    using doMergeDataImpl_complete [OF assms(1) keys_ok_distinct [OF assms(2)] assms(3,4,5)] by (simp add: key_fetched_def)
qed

lemma fails_stays: "merge_step E honest s s' \<Longrightarrow> inv_pool E s \<Longrightarrow> \<not> is_crash (m_pc s) \<Longrightarrow> fails s \<Longrightarrow> fails s' \<or> is_crash (m_pc s')"
proof (induction rule: merge_step.induct)
  case (loop_next s v vs st cache keys)
  then show ?case using mergeAppend_phase [of "s\<lparr>m_in := vs, m_cache := cache, m_keys := keys\<rparr>" E st]
    by (auto simp: fails_def)
next
  case (loop_send s v vs st cache keys)
  then show ?case using mergeAppend_phase [of "s\<lparr>m_in := vs, m_cache := cache, m_keys := [], m_work := m_work s @ [keys]\<rparr>" E st]
    by (auto simp: fails_def)
next
  case (loop_result s v vs st cache keys)
  then show ?case using takeResult_fails [of s PSend] by (auto simp: inv_pool_def fails_def)
next
  case (send_result s)
  then show ?case using takeResult_fails [of s PFlush] by (auto simp: inv_pool_def fails_def)
next
  case (flush s)
  then show ?case using mergeStmts_phase [of E "PCollect (m_workers s)" "PCollect (m_workers s)" s]
    by (auto simp: fails_def)
qed (auto simp: fails_def)

text \<open>The remaining steps of a merge that has not failed keep everything accounted for.\<close>

lemma inv_done_step:
  assumes "inv_done E items s" "\<not> is_crash (m_pc s)" "\<not> fails s"
    and "m_in s' = m_in s" "m_pc s = PLoop \<longrightarrow> m_pc s' = PLoop \<or> m_in s = []"
    and "past_close (m_pc s') \<longrightarrow> past_close (m_pc s) \<or> m_stmts s' = []" "past_close (m_pc s) \<longrightarrow> m_stmts s' = m_stmts s"
    and "set (m_stmts s) \<subseteq> set (m_stmts s') \<union> {st. Id st \<in> dom (stored (m_db s'))}"
    and "dom (stored (m_db s)) \<subseteq> dom (stored (m_db s'))"
    and "\<And>k. k \<in> key_pending s \<Longrightarrow> k \<in> key_pending s' \<or> key_fetched E (m_ds s') k"
    and "dom (objects (m_ds s)) \<subseteq> dom (objects (m_ds s'))"
  shows "inv_done E items s'"
proof -
  from assms(1-3) obtain seen where seen: "items = seen @ m_in s" "list_all (accounted E s) seen"
    "m_pc s \<noteq> PLoop \<longrightarrow> m_in s = []" "past_close (m_pc s) \<longrightarrow> m_stmts s = []" by (auto simp: inv_done_def)
  have "list_all (accounted E s') seen" by (rule accounted_all_mono [OF seen(2) assms(8-11)])
  with seen assms(4-7) show ?thesis unfolding inv_done_def by (intro disjI2 exI [of _ seen]) auto
qed

lemma merge_step_done:
  assumes "merge_step E True s s'" "inv_done E items s" "inv_pool E s" "inv_ds E ds0 s" "map_order (me_kord E)"
  shows "inv_done E items s'"
proof (cases "is_crash (m_pc s) \<or> fails s \<or> fails s' \<or> is_crash (m_pc s')")
  case True
  have "is_crash (m_pc s) \<Longrightarrow> False" using assms(1) by (cases rule: merge_step.cases) (auto simp: not_crash)
  with True fails_stays [OF assms(1,3)] show ?thesis by (auto simp: inv_done_def)
next
  case False
  then have ok: "\<not> is_crash (m_pc s)" "\<not> fails s" "\<not> fails s'" "\<not> is_crash (m_pc s')" by simp_all
  from assms(3) ok(1) have closed: "m_closed s = past_close (m_pc s)" "\<not> m_closed s \<longrightarrow> (\<forall>(n, e) \<in> set (m_res s). e \<noteq> None)"
    by (simp_all add: inv_pool_def)
  from assms(4) have c: "cache_ok (me_crypto E) (m_cache s)" by (simp add: inv_ds_def)
  note st = inv_done_step [OF assms(2) ok(1,2)]
  from assms(1) show ?thesis
  proof (cases rule: merge_step.cases)
    case (loop_next v vs st cache keys)
    show ?thesis unfolding loop_next(1)
      by (rule inv_done_value [OF assms(2) loop_next(2) ok(2) loop_next(3,4) c]) (use loop_next in auto)
  next
    case (loop_send v vs st cache keys)
    show ?thesis unfolding loop_send(1)
      by (rule inv_done_value [OF assms(2) loop_send(2) ok(2) loop_send(3,4) c]) (use loop_send in auto)
  next
    case (loop_result v vs st cache keys)
    with ok(3) closed takeResult_fails [of s PSend] show ?thesis by (auto simp: fails_def)
  next
    case send_result
    with ok(3) closed takeResult_fails [of s PFlush] show ?thesis by (auto simp: fails_def)
  next
    case flush
    have ph: "m_stmts s' = []" using flush ok(3,4) mergeStmts_phase [of E "PCollect (m_workers s)" "PCollect (m_workers s)" s]
      by (auto simp: fails_def split: if_splits)
    show ?thesis
      by (rule st) (use flush ph mergeStmts_db [of s E "PCollect (m_workers s)" "PCollect (m_workers s)"] in
        \<open>auto simp: key_pending_def split: if_splits\<close>)
  next
    case (work ps w qs keys ks wr msgs n ds')
    have k: "keys_ok E keys" using assms(4) work(4) by (simp add: inv_ds_def)
    then have g: "dom (objects (m_ds s)) \<subseteq> dom (objects ds')"
      using doMergeDataImpl_grows [OF work(5) keys_ok_distinct [OF k]] by (simp add: ds_grows_def)
    from k have f: "k \<in> fst ` set keys \<Longrightarrow> key_fetched E ds' k" for k using batch_fetched [OF work(5) _ assms(5)] work(6) by blast
    then have f: "(k, h) \<in> set keys \<Longrightarrow> key_fetched E ds' k" for k h by force
    show ?thesis by (rule st) (use work g f in \<open>auto simp: key_pending_def\<close>)
  qed (use ok in \<open>auto simp: fails_def intro!: st\<close>, (auto simp: key_pending_def split: if_splits)?)
qed

section \<open>Reachable states\<close>

lemma merge_init_inv:
  "inv_db E items db (merge_init E items db ds)" "inv_ds E ds (merge_init E items db ds)"
  "inv_pool E (merge_init E items db ds)" "inv_done E items (merge_init E items db ds)"
  by (simp_all add: merge_init_def inv_db_def db_core_def inv_ds_def inv_pool_def inv_done_def)

lemma merge_reach_inv:
  "merge_reach E honest items db ds s \<Longrightarrow> inv_db E items db s \<and> inv_ds E ds s \<and> inv_pool E s"
proof (induction rule: merge_reach.induct)
  case start
  show ?case by (simp add: merge_init_inv)
next
  case (step s s')
  then show ?case using merge_step_db merge_step_ds merge_step_pool by blast
qed

lemma merge_reach_done:
  assumes "merge_reach E True items db ds s" "map_order (me_kord E)"
  shows "inv_done E items s"
  using assms(1)
proof (induction rule: merge_reach.induct)
  case start
  show ?case by (simp add: merge_init_inv)
next
  case (step s s')
  from merge_reach_inv [OF step(1)] merge_step_done [OF step(2,3) _ _ assms(2)] show ?case by blast
qed

text \<open>When a merge has ended without an error nothing is pending any more.\<close>

lemma merge_done_accounted:
  assumes "inv_pool E s" "inv_done E items s" "m_pc s = PDone" "m_err s = None" "0 < me_cpus E"
  shows "list_all (accounted E s) items" "m_stmts s = []" "key_pending s = {}"
proof -
  from assms(1,3) have pool: "m_pool s = []" "m_res s = []" "\<not> fails s \<longrightarrow> length (m_pool s) = me_cpus E \<or> m_work s = []"
    by (auto simp: inv_pool_def)
  then have nf: "\<not> fails s" using assms(4) by (simp add: fails_def)
  with pool assms(5) have "m_work s = []" by simp
  then show "key_pending s = {}" using assms(3) by (simp add: key_pending_def)
  from assms(2,3) nf show "list_all (accounted E s) items" "m_stmts s = []" by (auto simp: inv_done_def)
qed

lemma merge_reach_stored:
  assumes "merge_reach E honest items db ds s"
  shows "(\<forall>i \<in> dom (stored (m_db s)) - dom (stored db).
        \<exists>st. SVal (RStmt st) \<in> set items \<and> authentic (me_crypto E) st \<and> Id st = i \<and> stored (m_db s) i = cr_marshal (me_crypto E) st) \<and>
    stored db \<subseteq>\<^sub>m stored (m_db s) \<and> m_count s = int (card (dom (stored (m_db s)) - dom (stored db))) \<and>
    dom (objects ds) \<subseteq> dom (objects (m_ds s)) \<and>
    ((\<forall>i d. objects ds i = Some d \<longrightarrow> i = me_digest E d) \<longrightarrow> (\<forall>i d. objects (m_ds s) i = Some d \<longrightarrow> i = me_digest E d))"
proof -
  from merge_reach_inv [OF assms] obtain seen where "items = seen @ m_in s" and core: "db_core E seen db (m_stmts s) (m_db s) (m_count s)"
    and grows: "ds_grows (me_digest E) ds (m_ds s)" by (auto simp: inv_db_def inv_ds_def)
  then have "admitted E seen \<subseteq> admitted E items" by (auto simp: admitted_def)
  with core have "\<forall>i \<in> dom (stored (m_db s)) - dom (stored db). \<exists>st \<in> admitted E items. Id st = i \<and> cr_marshal (me_crypto E) st = stored (m_db s) i"
    "stored db \<subseteq>\<^sub>m stored (m_db s)" "m_count s = int (card (dom (stored (m_db s)) - dom (stored db)))"
    unfolding db_core_def by blast+
  moreover from this(1) have "\<forall>i \<in> dom (stored (m_db s)) - dom (stored db).
      \<exists>st. SVal (RStmt st) \<in> set items \<and> authentic (me_crypto E) st \<and> Id st = i \<and> stored (m_db s) i = cr_marshal (me_crypto E) st"
    unfolding admitted_def by (metis (no_types, lifting) mem_Collect_eq)
  ultimately show ?thesis using grows unfolding ds_grows_def rocks.addressed_def by blast
qed

text \<open>C11: At every moment of a merge, whatever the peer sends and whatever fails, what is new in the database
  are the encodings of statements of the stream that are complete and carry a valid signature of their
  publisher, under their own ids, nothing that was stored is lost or changed, the count is the number of new statements, and the
  datastore only grows and stays content addressed.\<close>

theorem merge_authentic:
  assumes "merge_reach E honest items db ds s"
  shows "(\<forall>i \<in> dom (stored (m_db s)) - dom (stored db).
        \<exists>st. SVal (RStmt st) \<in> set items \<and> authentic (me_crypto E) st \<and> Id st = i \<and> stored (m_db s) i = cr_marshal (me_crypto E) st) \<and>
    stored db \<subseteq>\<^sub>m stored (m_db s) \<and> m_count s = int (card (dom (stored (m_db s)) - dom (stored db))) \<and>
    dom (objects ds) \<subseteq> dom (objects (m_ds s)) \<and>
    ((\<forall>i d. objects ds i = Some d \<longrightarrow> i = me_digest E d) \<longrightarrow> (\<forall>i d. objects (m_ds s) i = Some d \<longrightarrow> i = me_digest E d))"
  using assms by (rule merge_reach_stored)

text \<open>C12: A merge that returns without an error is complete, when the peer only sends objects it was asked for: every
  value of the stream is a complete and signed statement, all of them are stored, and every object
  they refer to is in the datastore.\<close>

theorem merge_complete:
  assumes "merge_reach E True items db ds s" "m_pc s = PDone" "m_err s = None" "0 < me_cpus E" "map_order (me_kord E)" "v \<in> set items"
  shows "\<exists>st. v = SVal (RStmt st) \<and> authentic (me_crypto E) st \<and> Id st \<in> dom (stored (m_db s)) \<and>
    (\<forall>k \<in> object_keys st. \<exists>h. me_b58 E k = Ok h \<and> drop 2 h \<in> dom (objects (m_ds s)))"
proof -
  from merge_reach_inv [OF assms(1)] have "inv_pool E s" by simp
  from merge_done_accounted [OF this merge_reach_done [OF assms(1,5)] assms(2-4)] assms(6) show ?thesis
    by (auto simp: list_all_iff accounted_def key_fetched_def)
qed

text \<open>C13: A merge never deadlocks and always ends: in every reachable state that is not final some goroutine can
  move without the context being cancelled, and every move decreases a bound that starts at three
  times the length of the stream plus seven plus twice the number of workers.\<close>

theorem merge_terminates:
  assumes "merge_reach E honest items db ds s" "0 < me_cpus E"
  shows "(\<not> finished (m_pc s) \<longrightarrow> (\<exists>s'. merge_step (E\<lparr>me_cancel := False\<rparr>) honest s s')) \<and>
    (\<forall>s'. merge_step E honest s s' \<longrightarrow> merge_bound s' < merge_bound s) \<and>
    merge_bound (merge_init E items db ds) = 3 * length items + 7 + 2 * me_cpus E"
proof -
  have "inv_pool (E\<lparr>me_cancel := False\<rparr>) s" using merge_reach_inv [OF assms(1)] by (simp add: inv_pool_def)
  then show ?thesis using merge_progress [of "E\<lparr>me_cancel := False\<rparr>" s honest] assms(2) merge_step_decreases
    by (auto simp: merge_bound_def merge_init_def)
qed

section \<open>A run\<close>

definition sample_env :: "string merge_env" where
  "sample_env = \<lparr>me_crypto = sample_crypto, me_dbfl = (\<lambda>n. None), me_dsfl = (\<lambda>n. None), me_rord = rev, me_kord = rev,
     me_b58 = (\<lambda>k. Ok (Hash (\<lambda>d. d) k)), me_digest = (\<lambda>d. d), me_cpus = 1, me_cancel = False\<rparr>"

definition sample_keys :: keymap where
  "sample_keys = [(''o'', Hash (\<lambda>d. d) ''o'')]"

definition sample_msgs :: "data_msg outcome list" where
  "sample_msgs = [Ok (DataObj ''o'' ''o''), Ok DataEnd]"

lemma sample_value: "\<exists>cache. mergeValue sample_env (SVal (RStmt sample_signed)) Map.empty [] = Ok (sample_signed, cache, sample_keys)"
proof -
  have "\<exists>c. admit sample_crypto sample_signed Map.empty = Ok c"
    unfolding admit_iff [OF cache_ok_empty] by code_simp
  then obtain c where "admit sample_crypto sample_signed Map.empty = Ok c" by blast
  moreover have "mergeStatementKeys sample_env sample_signed [] = Ok sample_keys" by code_simp
  ultimately show ?thesis by (simp add: sample_env_def)
qed

lemma sample_batch:
  "\<exists>n ds. doMergeDataImpl sample_env None sample_msgs sample_keys empty_ds = (n, Ok (), ds)"
  "answers_requested sample_env sample_msgs sample_keys empty_ds"
proof -
  have "fst (snd (doMergeDataImpl sample_env None sample_msgs sample_keys empty_ds)) = Ok ()" by code_simp
  then show "\<exists>n ds. doMergeDataImpl sample_env None sample_msgs sample_keys empty_ds = (n, Ok (), ds)" by (metis prod.collapse)
  show "answers_requested sample_env sample_msgs sample_keys empty_ds" by code_simp
qed

text \<open>An honest run is a run.\<close>

lemma merge_step_honest: "merge_step E True s s' \<Longrightarrow> merge_step E False s s'"
  by (induction rule: merge_step.induct) (rule merge_step.intros; (assumption | simp))+

lemma merge_reach_honest: "merge_reach E True items db ds s \<Longrightarrow> merge_reach E False items db ds s"
  by (induction rule: merge_reach.induct) (auto intro: merge_reach.intros merge_step_honest)

text \<open>The run of one worker and one statement that fetches its object: nine steps to a successful end.\<close>

lemma sample_run:
  "\<exists>s. merge_reach sample_env True [SVal (RStmt sample_signed)] empty_db empty_ds s \<and> m_pc s = PDone \<and> m_err s = None \<and> m_in s = []"
proof -
  let ?R = "merge_reach sample_env True [SVal (RStmt sample_signed)] empty_db empty_ds"
  obtain cache where v: "mergeValue sample_env (SVal (RStmt sample_signed)) Map.empty [] = Ok (sample_signed, cache, sample_keys)"
    using sample_value by blast
  obtain c db where b: "db_MergeBatch (\<lambda>n. None) rev (cr_marshal sample_crypto) [sample_signed] empty_db = (Ok c, db)"
  proof -
    have "fst (db_MergeBatch (\<lambda>n. None) rev (cr_marshal sample_crypto) [sample_signed] empty_db) = Ok 1" by code_simp
    with that show thesis by (metis prod.collapse)
  qed
  obtain n ds where d: "doMergeDataImpl sample_env None sample_msgs sample_keys empty_ds = (n, Ok (), ds)" using sample_batch(1) by blast
  define s where "s pc keys sts work closed res pool cnt db ds oc = \<lparr>m_in = [], m_pc = pc, m_cache = cache, m_keys = keys, m_stmts = sts,
    m_count = cnt, m_ocount = oc, m_err = None, m_workers = 1, m_work = work, m_closed = closed, m_res = res, m_pool = pool, m_db = db, m_ds = ds\<rparr>"
    for pc keys sts work closed res pool cnt db ds oc
  have k: "sample_keys \<noteq> []" "length sample_keys < merge_batch" by (simp_all add: sample_keys_def merge_batch_def)
  let ?w = "\<lparr>wk_open = False, wk_count = 0\<rparr>" and ?w' = "\<lparr>wk_open = True, wk_count = 0 + n\<rparr>"
  have 1: "?R (s PLoop sample_keys [sample_signed] [] False [] [?w] 0 empty_db empty_ds 0)"
    using merge_reach.step [OF merge_reach.start loop_next [where st = sample_signed and cache = cache and keys = sample_keys and E = sample_env and honest = True, OF _ _ _ k(2)]] v
    by (simp add: merge_init_def s_def mergeAppend_def merge_batch_def sample_env_def)
  have 2: "?R (s PSend sample_keys [sample_signed] [] False [] [?w] 0 empty_db empty_ds 0)"
    using merge_reach.step [OF 1 loop_end] by (simp add: s_def)
  have 3: "?R (s PFlush sample_keys [sample_signed] [sample_keys] False [] [?w] 0 empty_db empty_ds 0)"
    using merge_reach.step [OF 2 send_keys] k by (simp add: s_def workch_cap_def sample_env_def)
  have 4: "?R (s (PCollect 1) sample_keys [] [sample_keys] True [] [?w] c db empty_ds 0)"
    using merge_reach.step [OF 3 merge_step.flush] b by (simp add: s_def mergeStmts_def sample_env_def)
  have 5: "?R (s (PCollect 1) sample_keys [] [] True [] [?w'] c db ds 0)"
    using merge_reach.step [OF 4 work [where ps = "[]" and qs = "[]" and w = ?w and keys = sample_keys and ks = "[]" and wr = None and
      msgs = sample_msgs and n = n and ds' = ds]] d sample_batch(2) by (simp add: s_def)
  have 6: "?R (s (PCollect 1) sample_keys [] [] True [(0 + n, None)] [] c db ds 0)"
    using merge_reach.step [OF 5 work_end [where ps = "[]" and qs = "[]" and w = ?w']] by (simp add: s_def)
  have 7: "?R (s (PCollect 0) sample_keys [] [] True [] [] c db ds (0 + n))"
    using merge_reach.step [OF 6 collect [where x = 0 and n = "0 + n" and err = None and rs = "[]"]] by (simp add: s_def)
  have "?R (s PDone sample_keys [] [] True [] [] c db ds (0 + n))"
    using merge_reach.step [OF 7 collected] by (simp add: s_def)
  then show ?thesis by (auto simp: s_def)
qed

theorem merge_complete_witness:
  "\<exists>s. merge_reach sample_env True [SVal (RStmt sample_signed)] empty_db empty_ds s \<and> m_pc s = PDone \<and>
     ''Qa'' \<in> dom (stored (m_db s)) \<and> ''o'' \<in> dom (objects (m_ds s))"
proof -
  obtain s where s: "merge_reach sample_env True [SVal (RStmt sample_signed)] empty_db empty_ds s" "m_pc s = PDone" "m_err s = None"
    using sample_run by blast
  have "0 < me_cpus sample_env" "map_order (me_kord sample_env)" by (simp_all add: sample_env_def map_order_rev)
  from merge_complete [OF s this, of "SVal (RStmt sample_signed)"] s(1,2) show ?thesis
    by (auto simp: sample_env_def Hash_def sample_signed_def sample_body_def object_keys_def)
qed

theorem merge_authentic_witness:
  "\<exists>s. merge_reach sample_env True [SVal (RStmt sample_signed)] empty_db empty_ds s \<and> m_pc s = PDone \<and>
     m_count s = int (card (dom (stored (m_db s)) - dom (stored empty_db)))"
  using sample_run merge_authentic by blast

theorem merge_terminates_witness:
  "merge_bound (merge_init sample_env [SVal (RStmt sample_signed)] empty_db empty_ds) = 12 \<and>
   (\<exists>s. merge_step (sample_env\<lparr>me_cancel := False\<rparr>) True (merge_init sample_env [SVal (RStmt sample_signed)] empty_db empty_ds) s)"
proof -
  have "0 < me_cpus sample_env" by (simp add: sample_env_def)
  from merge_terminates [where honest = True and items = "[SVal (RStmt sample_signed)]" and db = empty_db and ds = empty_ds, OF merge_reach.start this] show ?thesis
    by (auto simp: merge_init_def sample_env_def)
qed

theorem batch_misses_object_witness:
  "\<exists>ds'. doMergeDataImpl (sample_env\<lparr>me_kord := (\<lambda>ks. ks)\<rparr>) None [Ok (DataObj ''o'' ''o''), Ok DataEnd]
      [(''o'', Hash (\<lambda>d. d) ''o''), (''y'', Hash (\<lambda>d. d) ''y'')] two_objects = (1, Ok (), ds') \<and> objects ds' ''y'' = None"
  using batch_misses_object [of "''o''" "''y''" two_objects "sample_env\<lparr>me_kord := (\<lambda>ks. ks)\<rparr>" "''o''" "''y''"]
  by (simp add: sample_env_def two_objects_def objects_def)

end
