(* ===== verification/DataServer.thy ===== *)
theory DataServer
  imports MergeCorrect
begin

text \<open>
  Serving objects (\<open>dataHandler\<close> of \<open>mcnode/proto.go\<close>) and the exchange of a batch of objects between two
  nodes: the handler on one side, \<open>doMergeDataImpl\<close> of \<open>Merge\<close> on the other. \<open>doRawMerge\<close> is that
  exchange alone.
\<close>

section \<open>The handler\<close>

text \<open>
  One request: the answers that are written, and whether the session goes on. \<open>fl\<close> are the failing calls of
  the datastore, \<open>b58\<close> decodes a key and \<open>wr\<close> is the outcome of writing a message.
\<close>

fun serveKeys ::
  "(nat \<Rightarrow> string option) \<Rightarrow> (string \<Rightarrow> string outcome) \<Rightarrow> (data_msg \<Rightarrow> go_error option) \<Rightarrow> string list \<Rightarrow> rocksdb \<Rightarrow>
   (data_msg list \<times> bool) outcome \<times> rocksdb" where
  "serveKeys fl b58 wr [] ds = (Ok (if wr DataEnd = None then ([DataEnd], True) else ([], False)), ds)"
| "serveKeys fl b58 wr (key58 # ks) ds =
     (let failed = (\<lambda>e. Ok (if wr (DataError (err_text e)) = None then ([DataError (err_text e)], False) else ([], False))) in
      case b58 key58 of
        Err e \<Rightarrow> (failed e, ds)
      | Panic p \<Rightarrow> (Panic p, ds)
      | Ok key \<Rightarrow>
          (case ds_Get fl key ds of
             (Err e, ds') \<Rightarrow> (failed e, ds')
           | (Panic p, ds') \<Rightarrow> (Panic p, ds')
           | (Ok None, ds') \<Rightarrow> serveKeys fl b58 wr ks ds'
           | (Ok (Some data), ds') \<Rightarrow>
               (if wr (DataObj key58 data) \<noteq> None then (Ok ([], False), ds')
                else (case serveKeys fl b58 wr ks ds' of
                        (Ok (msgs, goes), ds'') \<Rightarrow> (Ok (DataObj key58 data # msgs, goes), ds'')
                      | r \<Rightarrow> r))))"

text \<open>The session: the requests as they are read.\<close>

fun dataHandler ::
  "(nat \<Rightarrow> string option) \<Rightarrow> (string \<Rightarrow> string outcome) \<Rightarrow> (data_msg \<Rightarrow> go_error option) \<Rightarrow> string list outcome list \<Rightarrow> rocksdb \<Rightarrow>
   data_msg list outcome \<times> rocksdb" where
  "dataHandler fl b58 wr [] ds = (Ok [], ds)"
| "dataHandler fl b58 wr (Err e # reqs) ds = (Ok [], ds)"
| "dataHandler fl b58 wr (Panic p # reqs) ds = (Panic p, ds)"
| "dataHandler fl b58 wr (Ok ks # reqs) ds =
     (case serveKeys fl b58 wr ks ds of
        (Ok (msgs, goes), ds') \<Rightarrow>
          (if goes then (case dataHandler fl b58 wr reqs ds' of
                           (Ok msgs', ds'') \<Rightarrow> (Ok (msgs @ msgs'), ds'')
                         | r \<Rightarrow> r)
           else (Ok msgs, ds'))
      | (Err e, ds') \<Rightarrow> (Err e, ds')
      | (Panic p, ds') \<Rightarrow> (Panic p, ds'))"

text \<open>\<open>conn\<close> is the outcome of connecting to the peer.\<close>

definition doRawMerge ::
  "'k merge_env \<Rightarrow> unit outcome \<Rightarrow> go_error option \<Rightarrow> data_msg outcome list \<Rightarrow> keymap \<Rightarrow> rocksdb \<Rightarrow> int \<times> unit outcome \<times> rocksdb" where
  "doRawMerge E conn wr msgs keys ds =
     (case conn of
        Ok u \<Rightarrow> doMergeDataImpl E wr msgs keys ds
      | Err e \<Rightarrow> (0, Err e, ds)
      | Panic p \<Rightarrow> (0, Panic p, ds))"

section \<open>Serving does not change what is stored\<close>

lemma serveKeys_objects: "serveKeys fl b58 wr ks ds = (r, ds') \<Longrightarrow> objects ds' = objects ds"
proof (induction ks arbitrary: ds r ds')
  case (Cons k ks)
  show ?case
  proof (cases "b58 k")
    case (Ok key)
    obtain g ds1 where g: "ds_Get fl key ds = (g, ds1)" by fastforce
    obtain r2 ds2 where r: "serveKeys fl b58 wr ks ds1 = (r2, ds2)" by fastforce
    from rocks.get_keeps [OF g] Cons.IH [OF r] Cons.prems Ok g r show ?thesis
      by (auto simp: Let_def split: outcome.splits option.splits if_splits prod.splits)
  qed (use Cons.prems in \<open>simp_all add: Let_def\<close>)
qed simp

section \<open>The exchange\<close>

text \<open>A keymap of hashes whose objects the server has.\<close>

definition served :: "'k merge_env \<Rightarrow> rocksdb \<Rightarrow> keymap \<Rightarrow> bool" where
  "served E sds keys \<longleftrightarrow>
     (\<forall>(k, h) \<in> set keys. me_b58 E k = Ok h \<and> (\<exists>d. h = Hash (me_digest E) d \<and> objects sds (drop 2 h) = Some d))"

lemma ds_Get_served:
  assumes "h = Hash digest d" "objects sds (drop 2 h) = Some d"
  shows "\<exists>sds'. ds_Get (\<lambda>n. None) h sds = (Ok (Some d), sds') \<and> objects sds' = objects sds"
  using assms by (simp add: ds_Get_def key_bytes_def rk_call_def Hash_def objects_def)

lemma serveKeys_served:
  assumes "served E sds keys" "\<forall>m. wr m = None"
  shows "set ks \<subseteq> fst ` set keys \<Longrightarrow> distinct (map fst keys) \<Longrightarrow> objects sds' = objects sds \<Longrightarrow>
    \<exists>sds''. serveKeys (\<lambda>n. None) (me_b58 E) wr ks sds' =
      (Ok (map (\<lambda>k. DataObj k (the (objects sds (drop 2 (the (map_of keys k)))))) ks @ [DataEnd], True), sds'')"
proof (induction ks arbitrary: sds')
  case (Cons k ks)
  then obtain h where h: "(k, h) \<in> set keys" by auto
  with assms(1) obtain d where d: "me_b58 E k = Ok h" "h = Hash (me_digest E) d" "objects sds (drop 2 h) = Some d"
    by (auto simp: served_def)
  have m: "map_of keys k = Some h" using Cons.prems(2) h by simp
  from ds_Get_served [OF d(2)] d(3) Cons.prems(3) obtain s1 where
    s1: "ds_Get (\<lambda>n. None) h sds' = (Ok (Some d), s1)" "objects s1 = objects sds" by (metis (no_types))
  from Cons.IH [OF _ Cons.prems(2) s1(2)] Cons.prems(1) obtain s2 where
    "serveKeys (\<lambda>n. None) (me_b58 E) wr ks s1 =
      (Ok (map (\<lambda>k. DataObj k (the (objects sds (drop 2 (the (map_of keys k)))))) ks @ [DataEnd], True), s2)" by auto
  moreover have "wr (DataObj k d) = None" using assms(2) by simp
  ultimately show ?case using d m s1 by (simp add: Let_def)
qed (use assms(2) in auto)

lemma ds_Put_Ok_no_fault: "\<exists>ds'. ds_Put (\<lambda>n. None) digest d ds = (Ok (Hash digest d), ds')"
  by (simp add: ds_Put_def key_bytes_def rk_call_def Hash_def Let_def)

lemma drop_Hash [simp]: "drop 2 (Hash dg d) = dg d"
  by (simp add: Hash_def)

lemma dataLoop_served:
  assumes "me_dsfl E = (\<lambda>n. None)"
  shows "distinct ks \<Longrightarrow>
    \<forall>k \<in> set ks. \<exists>d. map_of keys k = Some (Hash (me_digest E) d) \<and> objects sds (me_digest E d) = Some d \<and> f k = d \<Longrightarrow>
    \<exists>ds'. dataLoop E c keys (map Ok (map (\<lambda>k. DataObj k (f k)) ks @ [DataEnd]) @ rest) ds = (c + int (length ks), Ok (), ds') \<and>
      objects ds' = objects ds ++ (objects sds |` ((\<lambda>k. drop 2 (the (map_of keys k))) ` set ks))"
proof (induction ks arbitrary: c keys ds)
  case (Cons k ks)
  from Cons.prems(2) obtain d where d: "map_of keys k = Some (Hash (me_digest E) d)" "objects sds (me_digest E d) = Some d" "f k = d" by auto
  obtain ds1 where put: "ds_Put (\<lambda>n. None) (me_digest E) d ds = (Ok (Hash (me_digest E) d), ds1)" using ds_Put_Ok_no_fault by blast
  have o1: "objects ds1 = (objects ds)(me_digest E d \<mapsto> d)" using rocks.put_law [OF put] by blast
  have "\<forall>j \<in> set ks. \<exists>d. map_of (AList.delete k keys) j = Some (Hash (me_digest E) d) \<and> objects sds (me_digest E d) = Some d \<and> f j = d"
    using Cons.prems by (auto simp: delete_conv')
  from Cons.IH [OF _ this, of "c + 1" ds1] Cons.prems(1) obtain ds' where
    rest: "dataLoop E (c + 1) (AList.delete k keys) (map Ok (map (\<lambda>k. DataObj k (f k)) ks @ [DataEnd]) @ rest) ds1 =
      (c + 1 + int (length ks), Ok (), ds')"
    and o2: "objects ds' = objects ds1 ++ (objects sds |` ((\<lambda>j. drop 2 (the (map_of (AList.delete k keys) j))) ` set ks))" by auto
  have same: "(\<lambda>j. drop 2 (the (map_of (AList.delete k keys) j))) ` set ks = (\<lambda>j. drop 2 (the (map_of keys j))) ` set ks"
    using Cons.prems(1) by (intro image_cong) (auto simp: delete_conv')
  have "objects ds' = objects ds ++ (objects sds |` ((\<lambda>k. drop 2 (the (map_of keys k))) ` set (k # ks)))"
    unfolding o2 o1 same using d by (auto simp: fun_eq_iff map_add_def restrict_map_def split: option.splits)
  with d put assms rest show ?case by simp
qed (auto simp: fun_eq_iff map_add_def)

text \<open>Whether a datastore has an object: it answers so when what it holds is not empty.\<close>

definition has_object :: "rocksdb \<Rightarrow> string \<Rightarrow> bool" where
  "has_object ds h \<longleftrightarrow> (case objects ds (drop 2 h) of None \<Rightarrow> False | Some d \<Rightarrow> d \<noteq> [])"

lemma missingKeys_served:
  assumes "me_dsfl E = (\<lambda>n. None)"
  shows "\<forall>k \<in> set ks. \<exists>d. map_of keys k = Some (Hash dg d) \<Longrightarrow>
    \<exists>ds'. missingKeys E keys ks ds = (Ok (filter (\<lambda>k. \<not> has_object ds (the (map_of keys k))) ks), ds') \<and> objects ds' = objects ds"
proof (induction ks arbitrary: ds)
  case (Cons k ks)
  then obtain d where d: "map_of keys k = Some (Hash dg d)" by auto
  obtain ds1 where h: "ds_Has (\<lambda>n. None) (Hash dg d) ds = (Ok (has_object ds (Hash dg d)), ds1)"
    by (auto simp: ds_Has_def key_bytes_def rk_call_def Hash_def has_object_def objects_def split: option.splits)
  have same: "objects ds1 = objects ds" using rocks.has_keeps [OF h] .
  from Cons obtain ds' where "missingKeys E keys ks ds1 = (Ok (filter (\<lambda>k. \<not> has_object ds1 (the (map_of keys k))) ks), ds')"
    "objects ds' = objects ds1" by fastforce
  with h d assms same show ?case by (simp add: has_object_def)
qed simp

text \<open>C24: Two nodes exchange objects: a node asks for those keys of a batch whose objects its datastore does not have (or has as
  empty), each once, and for no other; when the peer's handler answers from a datastore that holds them, the batch succeeds,
  as many objects are counted as were asked for, and the datastore afterwards is the one before with exactly the
  objects asked for added, so that every object of the batch is there and nothing else has changed; the
  peer's stays as it was. No call of the datastores and no write fails.\<close>

theorem data_transfer:
  assumes "served E sds keys" "distinct (map fst keys)" "map_order (me_kord E)" "me_dsfl E = (\<lambda>n. None)" "\<forall>m. wr m = None"
  shows "\<exists>miss ds1 msgs sds'. missingKeys E keys (me_kord E (map fst keys)) ds = (Ok miss, ds1) \<and>
    distinct miss \<and> set miss = {k. \<exists>h. (k, h) \<in> set keys \<and> \<not> has_object ds h} \<and>
    serveKeys (\<lambda>n. None) (me_b58 E) wr miss sds = (Ok (msgs, True), sds') \<and> objects sds' = objects sds \<and>
    (\<exists>ds'. doMergeDataImpl E None (map Ok msgs) keys ds = (int (length miss), Ok (), ds') \<and>
       objects ds' = objects ds ++ (objects sds |` {drop 2 h |h. \<exists>k. (k, h) \<in> set keys \<and> \<not> has_object ds h}) \<and>
       (\<forall>(k, h) \<in> set keys. drop 2 h \<in> dom (objects ds')))"
proof -
  let ?ks = "me_kord E (map fst keys)"
  let ?miss = "filter (\<lambda>k. \<not> has_object ds (the (map_of keys k))) ?ks"
  let ?f = "\<lambda>k. the (objects sds (drop 2 (the (map_of keys k))))"
  let ?msgs = "map (\<lambda>k. DataObj k (?f k)) ?miss @ [DataEnd]"
  let ?added = "objects sds |` {drop 2 h |h. \<exists>k. (k, h) \<in> set keys \<and> \<not> has_object ds h}"
  have ks: "set ?ks = fst ` set keys" "distinct ?ks"
    using assms(2,3) by (simp_all add: map_order_set map_order_distinct)
  have m: "set ?miss = {k. \<exists>h. (k, h) \<in> set keys \<and> \<not> has_object ds h}" using ks(1) assms(2) by force
  have lacking: "(\<lambda>k. drop 2 (the (map_of keys k))) ` set ?miss = {drop 2 h |h. \<exists>k. (k, h) \<in> set keys \<and> \<not> has_object ds h}"
    unfolding m using assms(2) by force
  have known: "\<forall>k \<in> set ?ks. \<exists>d. map_of keys k = Some (Hash (me_digest E) d) \<and> objects sds (me_digest E d) = Some d \<and> ?f k = d"
    using assms(1,2) unfolding ks(1) by (fastforce simp: served_def)
  then have "\<forall>k \<in> set ?ks. \<exists>d. map_of keys k = Some (Hash (me_digest E) d)" by blast
  from missingKeys_served [OF assms(4) this, of ds] obtain ds1 where
    miss: "missingKeys E keys ?ks ds = (Ok ?miss, ds1)" and ds1: "objects ds1 = objects ds" by blast
  have sub: "set ?miss \<subseteq> fst ` set keys" using ks(1) by auto
  obtain sds' where s: "serveKeys (\<lambda>n. None) (me_b58 E) wr ?miss sds = (Ok (?msgs, True), sds')"
    using serveKeys_served [OF assms(1,5) sub assms(2) refl] by blast
  have "\<forall>k \<in> set ?miss. \<exists>d. map_of keys k = Some (Hash (me_digest E) d) \<and> objects sds (me_digest E d) = Some d \<and> ?f k = d"
    using known by simp
  from dataLoop_served [OF assms(4) distinct_filter [OF ks(2)] this, of 0 "[]" ds1] obtain ds2 where
    loop: "dataLoop E 0 keys (map Ok ?msgs) ds1 = (int (length ?miss), Ok (), ds2)"
    and ds2: "objects ds2 = objects ds ++ ?added" unfolding lacking ds1 by auto
  have "\<exists>ds'. doMergeDataImpl E None (map Ok ?msgs) keys ds = (int (length ?miss), Ok (), ds') \<and> objects ds' = objects ds ++ ?added"
  proof (cases "?miss = []")
    case True
    with miss have "doMergeDataImpl E None (map Ok ?msgs) keys ds = (int (length ?miss), Ok (), ds1)" by (simp add: doMergeDataImpl_def)
    moreover have "?added = Map.empty" unfolding lacking [symmetric] True by simp
    ultimately show ?thesis using ds1 by simp
  next
    case False
    with miss loop have "doMergeDataImpl E None (map Ok ?msgs) keys ds = (int (length ?miss), Ok (), ds2)" by (simp add: doMergeDataImpl_def)
    with ds2 show ?thesis by blast
  qed
  then obtain ds' where impl: "doMergeDataImpl E None (map Ok ?msgs) keys ds = (int (length ?miss), Ok (), ds')"
    and ds': "objects ds' = objects ds ++ ?added" by blast
  have "answers_requested E (map Ok ?msgs) keys ds" using miss by (auto simp: answers_requested_def list_all_iff)
  from doMergeDataImpl_complete [OF impl assms(2,3) this]
  have "\<forall>(k, h) \<in> set keys. drop 2 h \<in> dom (objects ds')" using assms(2) by fastforce
  with miss m distinct_filter [OF ks(2)] s impl ds' serveKeys_objects [OF s] show ?thesis by blast
qed

theorem data_transfer_witness:
  "\<exists>ds'. doMergeDataImpl sample_env None [Ok (DataObj ''o'' ''o''), Ok DataEnd] sample_keys empty_ds = (1, Ok (), ds') \<and>
     ''o'' \<in> dom (objects ds')"
proof -
  have "served sample_env two_objects sample_keys" "distinct (map fst sample_keys)" "map_order (me_kord sample_env)"
    "me_dsfl sample_env = (\<lambda>n. None)"
    by (simp_all add: served_def sample_env_def sample_keys_def two_objects_def objects_def Hash_def map_order_rev)
  from data_transfer [OF this, of "\<lambda>_. None" empty_ds] obtain miss ds1 msgs sds' ds' where
    t: "missingKeys sample_env sample_keys (me_kord sample_env (map fst sample_keys)) empty_ds = (Ok miss, ds1)"
    "serveKeys (\<lambda>n. None) (me_b58 sample_env) (\<lambda>_. None) miss two_objects = (Ok (msgs, True), sds')"
    "doMergeDataImpl sample_env None (map Ok msgs) sample_keys empty_ds = (int (length miss), Ok (), ds')"
    "\<forall>(k, h) \<in> set sample_keys. drop 2 h \<in> dom (objects ds')" by auto
  have "fst (missingKeys sample_env sample_keys (me_kord sample_env (map fst sample_keys)) empty_ds) = Ok [''o'']" by code_simp
  with t(1) have miss: "miss = [''o'']" by simp
  have "fst (serveKeys (\<lambda>n. None) (me_b58 sample_env) (\<lambda>_. None) [''o''] two_objects) = Ok ([DataObj ''o'' ''o'', DataEnd], True)"
    by code_simp
  with t(2) miss have "msgs = [DataObj ''o'' ''o'', DataEnd]" by simp
  with t(3,4) miss show ?thesis by (auto simp: sample_keys_def Hash_def)
qed

end
