(* ===== verification/Remote.thy ===== *)
theory Remote
  imports QueryParse Merge
begin

text \<open>
  Queries over the network: the values of a result as messages (\<open>mc/message.go\<close>), the handler that
  serves queries and the stream the client reads from it (\<open>queryHandler\<close>, \<open>doRemoteQuery\<close> of
  \<open>mcnode/proto.go\<close>). A message that was read has no nil alternative; a key-value pair may lack its
  value, and any \<open>oneof\<close> may be unset.
\<close>

section \<open>Values as messages\<close>

datatype pb_simple =
    IntValue int
  | StringValue string
  | StmtValue statement
  | StmtBodyValue "statement_body option"
  | NoSimpleValue

datatype pb_query_value =
    QVSimple pb_simple
  | QVCompound "(string \<times> pb_simple option) list"
  | QVNone

datatype query_result = QRValue pb_query_value | QREnd | QRError string | QRNone

fun SimpleValue :: "row_value \<Rightarrow> pb_simple outcome" where
  "SimpleValue (RInt i) = Ok (IntValue i)"
| "SimpleValue (RInt64 i) = Ok (IntValue i)"
| "SimpleValue (RString s) = Ok (StringValue s)"
| "SimpleValue (RStmt st) = Ok (StmtValue st)"
| "SimpleValue (RBody b) = Ok (StmtBodyValue b)"
| "SimpleValue (RMap m) = Err (ValueError ''Unexpected value type: map[string]interface {}'')"

text \<open>\<open>keys\<close> lists the keys of a map in the order of the iteration.\<close>

type_synonym map_keys = "(string \<Rightarrow> row_value option) \<Rightarrow> string list"

definition map_keys_ok :: "map_keys \<Rightarrow> row_value \<Rightarrow> bool" where
  "map_keys_ok keys v \<longleftrightarrow> (case v of RMap m \<Rightarrow> set (keys m) = dom m \<and> distinct (keys m) | _ \<Rightarrow> True)"

definition CompoundValue :: "map_keys \<Rightarrow> (string \<Rightarrow> row_value option) \<Rightarrow> (string \<times> pb_simple option) list outcome" where
  "CompoundValue keys m =
     omap (\<lambda>k. obind (SimpleValue (the (m k))) (\<lambda>sv. Ok (k, Some sv))) (keys m)"

fun SimpleValueOf :: "pb_simple option \<Rightarrow> row_value outcome" where
  "SimpleValueOf None = Panic ''nil SimpleValue''"
| "SimpleValueOf (Some (IntValue i)) = Ok (RInt64 i)"
| "SimpleValueOf (Some (StringValue s)) = Ok (RString s)"
| "SimpleValueOf (Some (StmtValue st)) = Ok (RStmt st)"
| "SimpleValueOf (Some (StmtBodyValue b)) = Ok (RBody b)"
| "SimpleValueOf (Some NoSimpleValue) = Err (ValueError ''Unexpected value type: <nil>'')"

fun ValueOf :: "pb_query_value \<Rightarrow> row_value outcome" where
  "ValueOf (QVSimple sv) = SimpleValueOf (Some sv)"
| "ValueOf (QVCompound body) =
     obind (ofold (\<lambda>obj (k, v). obind (SimpleValueOf v) (\<lambda>sv. Ok (obj(k \<mapsto> sv)))) Map.empty body) (\<lambda>obj. Ok (RMap obj))"
| "ValueOf QVNone = Err (ValueError ''Unexpected value type: <nil>'')"

section \<open>The server\<close>

text \<open>
  What a handler does with one value: the message to write and the error after which it stops. A
  stream error in the result is no value either.
\<close>

fun writeValue :: "map_keys \<Rightarrow> stream_item \<Rightarrow> query_result \<times> go_error option" where
  "writeValue keys (SVal (RMap m)) =
     (case CompoundValue keys m of
        Ok cv \<Rightarrow> (QRValue (QVCompound cv), None)
      | Err e \<Rightarrow> (QRError (err_text e), Some e)
      | Panic p \<Rightarrow> (QRNone, None))"
| "writeValue keys (SVal v) =
     (case SimpleValue v of
        Ok sv \<Rightarrow> (QRValue (QVSimple sv), None)
      | Err e \<Rightarrow> (QRError (err_text e), Some e)
      | Panic p \<Rightarrow> (QRNone, None))"
| "writeValue keys (SErr msg) =
     (let e = ValueError ''Unexpected value type: main.StreamError'' in (QRError (err_text e), Some e))"

text \<open>
  \<open>wr\<close> is the outcome of writing a message. The result is what was written, and whether the session goes on.
\<close>

fun writeValues :: "map_keys \<Rightarrow> (query_result \<Rightarrow> go_error option) \<Rightarrow> stream_item list \<Rightarrow> query_result list \<times> bool" where
  "writeValues keys wr [] = (if wr QREnd = None then ([QREnd], True) else ([], False))"
| "writeValues keys wr (v # vs) =
     (case writeValue keys v of
        (msg, err) \<Rightarrow>
          (if wr msg \<noteq> None then ([], False)
           else if err \<noteq> None then ([msg], False)
           else (case writeValues keys wr vs of (msgs, goes) \<Rightarrow> (msg # msgs, goes))))"

definition writeError :: "(query_result \<Rightarrow> go_error option) \<Rightarrow> go_error \<Rightarrow> query_result list" where
  "writeError wr e = (if wr (QRError (err_text e)) = None then [QRError (err_text e)] else [])"

definition serveQuery ::
  "map_keys \<Rightarrow> engine \<Rightarrow> (string \<Rightarrow> statement outcome) \<Rightarrow> (query_result \<Rightarrow> go_error option) \<Rightarrow> sqldb \<Rightarrow> string \<Rightarrow>
   (query_result list \<times> bool) outcome" where
  "serveQuery keys eng unmarshal wr db qs =
     (case ParseQuery qs of
        Err e \<Rightarrow> Ok (writeError wr e, False)
      | Panic p \<Rightarrow> Panic p
      | Ok q \<Rightarrow>
          (if q_Op q \<noteq> OpSelect then Ok (writeError wr BadQuery, False)
           else (case db_QueryStream eng unmarshal q db of
                   Err e \<Rightarrow> Ok (writeError wr e, False)
                 | Panic p \<Rightarrow> Panic p
                 | Ok items \<Rightarrow> Ok (writeValues keys wr items))))"

text \<open>The session: a request after the other, as they are read, until a read fails.\<close>

fun queryHandler ::
  "map_keys \<Rightarrow> engine \<Rightarrow> (string \<Rightarrow> statement outcome) \<Rightarrow> (query_result \<Rightarrow> go_error option) \<Rightarrow> sqldb \<Rightarrow> string outcome list \<Rightarrow>
   query_result list outcome" where
  "queryHandler keys eng unmarshal wr db [] = Ok []"
| "queryHandler keys eng unmarshal wr db (Err e # reqs) = Ok []"
| "queryHandler keys eng unmarshal wr db (Panic p # reqs) = Panic p"
| "queryHandler keys eng unmarshal wr db (Ok qs # reqs) =
     obind (serveQuery keys eng unmarshal wr db qs) (\<lambda>(msgs, goes).
     if goes then obind (queryHandler keys eng unmarshal wr db reqs) (\<lambda>msgs'. Ok (msgs @ msgs')) else Ok msgs)"

section \<open>The client\<close>

text \<open>
  What the client's channel delivers for the messages it reads, when its context is not cancelled
  before the stream ends.
\<close>

fun doRemoteQueryStream :: "query_result outcome list \<Rightarrow> stream_item list outcome" where
  "doRemoteQueryStream [] = Ok [SErr (err_text EOF)]"
| "doRemoteQueryStream (Err e # msgs) = Ok [SErr (err_text e)]"
| "doRemoteQueryStream (Panic p # msgs) = Panic p"
| "doRemoteQueryStream (Ok (QRValue v) # msgs) =
     (case ValueOf v of
        Ok rv \<Rightarrow> obind (doRemoteQueryStream msgs) (\<lambda>items. Ok (SVal rv # items))
      | Err e \<Rightarrow> Ok [SErr (err_text e)]
      | Panic p \<Rightarrow> Panic p)"
| "doRemoteQueryStream (Ok QREnd # msgs) = Ok []"
| "doRemoteQueryStream (Ok (QRError e) # msgs) = Ok [SErr e]"
| "doRemoteQueryStream (Ok QRNone # msgs) = Ok [SErr ''Unexpected result'']"

text \<open>\<open>conn\<close> is the outcome of connecting and \<open>wr\<close> that of writing the request.\<close>

definition doRemoteQuery ::
  "unit outcome \<Rightarrow> (string \<Rightarrow> unit outcome) \<Rightarrow> (string \<Rightarrow> query_result outcome list) \<Rightarrow> string \<Rightarrow> stream_item list outcome" where
  "doRemoteQuery conn wr answers q =
     obind conn (\<lambda>_. obind (wr q) (\<lambda>_. doRemoteQueryStream (answers q)))"

section \<open>From the server's database to the client\<close>

text \<open>A value as it arrives: an \<open>int\<close> becomes an \<open>int64\<close>.\<close>

primrec received :: "row_value \<Rightarrow> row_value" where
  "received (RInt i) = RInt64 i"
| "received (RInt64 i) = RInt64 i"
| "received (RString s) = RString s"
| "received (RStmt st) = RStmt st"
| "received (RBody b) = RBody b"
| "received (RMap m) = RMap (map_option received \<circ> m)"

fun is_simple :: "row_value \<Rightarrow> bool" where
  "is_simple (RMap m) = False"
| "is_simple v = True"

text \<open>The values of result sets: maps are finite and hold simple values.\<close>

fun flat :: "row_value \<Rightarrow> bool" where
  "flat (RMap m) \<longleftrightarrow> finite (dom m) \<and> (\<forall>v \<in> ran m. is_simple v)"
| "flat v = True"

lemma SimpleValue_received: "is_simple v \<Longrightarrow> \<exists>sv. SimpleValue v = Ok sv \<and> SimpleValueOf (Some sv) = Ok (received v)"
  by (cases v) auto

lemma CompoundValue_received:
  assumes "map_keys_ok keys (RMap m)" "flat (RMap m)"
  shows "\<exists>cv. CompoundValue keys m = Ok cv \<and> ValueOf (QVCompound cv) = Ok (received (RMap m))"
proof -
  have dom: "set (keys m) = dom m" "distinct (keys m)" using assms by (auto simp: map_keys_ok_def)
  have one: "\<exists>sv. SimpleValue (the (m k)) = Ok sv \<and> SimpleValueOf (Some sv) = Ok (received (the (m k)))" if "k \<in> dom m" for k
    using that assms(2) by (intro SimpleValue_received) (auto simp: ran_def)
  have "\<exists>cv. omap (\<lambda>k. obind (SimpleValue (the (m k))) (\<lambda>sv. Ok (k, Some sv))) ks = Ok cv \<and>
      ofold (\<lambda>obj (k, v). obind (SimpleValueOf v) (\<lambda>sv. Ok (obj(k \<mapsto> sv)))) obj cv =
        Ok (\<lambda>k. if k \<in> set ks then map_option received (m k) else obj k)"
    if "set ks \<subseteq> dom m" for ks obj
    using that
  proof (induction ks arbitrary: obj)
    case (Cons k ks)
    then have "k \<in> dom m" by simp
    from one [OF this] obtain sv where sv: "SimpleValue (the (m k)) = Ok sv" "SimpleValueOf (Some sv) = Ok (received (the (m k)))" by blast
    from Cons.prems have "set ks \<subseteq> dom m" by simp
    from Cons.IH [OF this, of "obj(k \<mapsto> received (the (m k)))"] obtain cv where "omap (\<lambda>k. obind (SimpleValue (the (m k))) (\<lambda>sv. Ok (k, Some sv))) ks = Ok cv"
      "ofold (\<lambda>obj (k, v). obind (SimpleValueOf v) (\<lambda>sv. Ok (obj(k \<mapsto> sv)))) (obj(k \<mapsto> received (the (m k)))) cv =
        Ok (\<lambda>j. if j \<in> set ks then map_option received (m j) else (obj(k \<mapsto> received (the (m k)))) j)" by blast
    moreover have "(\<lambda>j. if j \<in> set ks then map_option received (m j) else (obj(k \<mapsto> received (the (m k)))) j) =
        (\<lambda>j. if j \<in> set (k # ks) then map_option received (m j) else obj j)" (is "?l = ?r")
      using \<open>k \<in> dom m\<close> by (intro ext) auto
    ultimately have "omap (\<lambda>k. obind (SimpleValue (the (m k))) (\<lambda>sv. Ok (k, Some sv))) (k # ks) = Ok ((k, Some sv) # cv)"
      "ofold (\<lambda>obj (k, v). obind (SimpleValueOf v) (\<lambda>sv. Ok (obj(k \<mapsto> sv)))) obj ((k, Some sv) # cv) = Ok ?r"
      using sv by (simp_all del: fun_upd_apply)
    then show ?case by blast
  qed simp
  from this [of "keys m" Map.empty] dom obtain cv where "CompoundValue keys m = Ok cv"
    "ofold (\<lambda>obj (k, v). obind (SimpleValueOf v) (\<lambda>sv. Ok (obj(k \<mapsto> sv)))) Map.empty cv =
      Ok (\<lambda>k. if k \<in> dom m then map_option received (m k) else None)"
    by (auto simp: CompoundValue_def)
  moreover have "(\<lambda>k. if k \<in> dom m then map_option received (m k) else None) = map_option received \<circ> m" by auto
  ultimately show ?thesis by auto
qed

lemma writeValue_received:
  assumes "map_keys_ok keys v" "flat v"
  shows "\<exists>qv. writeValue keys (SVal v) = (QRValue qv, None) \<and> ValueOf qv = Ok (received v)"
proof (cases "is_simple v")
  case True
  then obtain sv where "SimpleValue v = Ok sv" "SimpleValueOf (Some sv) = Ok (received v)" using SimpleValue_received by blast
  with True show ?thesis by (cases v) auto
next
  case False
  then obtain m where "v = RMap m" by (cases v) auto
  with CompoundValue_received [of keys m] assms show ?thesis by auto
qed

text \<open>What a scan yields is flat.\<close>

lemma rs_value_simple: "rs_value unmarshal rs cell = Ok v \<Longrightarrow> is_simple v"
  by (cases "(unmarshal, rs, cell)" rule: rs_value.cases) (auto split: option.splits)

lemma ran_map_upd_subset: "ran (t(k \<mapsto> v)) \<subseteq> insert v (ran t)"
  by (auto simp: ran_def)

lemma Scan_flat: "Scan unmarshal rsel src = Ok v \<Longrightarrow> flat v"
proof (cases rsel)
  case (RowSelectSimple rs)
  moreover assume "Scan unmarshal rsel src = Ok v"
  ultimately have "is_simple v" using rs_value_simple by auto
  then show ?thesis by (cases v) auto
next
  case (RowSelectCompound sels srs)
  assume "Scan unmarshal rsel src = Ok v"
  with RowSelectCompound obtain cells obj where
    o: "ofold (\<lambda>obj (sel, rs, cell). obind (rs_value unmarshal rs cell) (\<lambda>val. Ok (obj(sel \<mapsto> val)))) Map.empty
          (zip sels (zip srs cells)) = Ok obj" "v = RMap obj" by auto
  from o(1) have "flat (RMap obj)"
  proof (rule ofold_invariant [where I = "\<lambda>obj. flat (RMap obj)"])
    show "flat (RMap Map.empty)" by simp
    fix t x t' assume "flat (RMap t)"
      "(case x of (sel, rs, cell) \<Rightarrow> obind (rs_value unmarshal rs cell) (\<lambda>val. Ok (t(sel \<mapsto> val)))) = Ok t'"
    then obtain sel rs cell val where "rs_value unmarshal rs cell = Ok val" "t' = t(sel \<mapsto> val)" "finite (dom t)" "\<forall>v \<in> ran t. is_simple v"
      by (cases x) auto
    with rs_value_simple show "flat (RMap t')" using ran_map_upd_subset [of t sel val] by auto
  qed
  with o(2) show ?thesis by simp
qed

lemma stream_rows_flat: "stream_rows unmarshal rsel rows = Ok items \<Longrightarrow> SVal v \<in> set items \<Longrightarrow> flat v"
proof (induction rows arbitrary: items)
  case (Cons row rows)
  show ?case
  proof (cases "Scan unmarshal rsel row")
    case (Ok obj)
    with Cons.prems(1) obtain items' where "stream_rows unmarshal rsel rows = Ok items'" "items = SVal obj # items'" by auto
    with Cons.IH Cons.prems(2) Scan_flat [OF Ok] show ?thesis by auto
  qed (use Cons.prems in auto)
qed simp

text \<open>Only the last item of a stream may be an error.\<close>

lemma stream_rows_error: "stream_rows unmarshal rsel rows = Ok items \<Longrightarrow> items = xs @ SErr e # ys \<Longrightarrow> ys = []"
proof (induction rows arbitrary: items xs)
  case (Cons row rows)
  show ?case
  proof (cases "Scan unmarshal rsel row")
    case (Ok obj)
    with Cons.prems(1) obtain items' where i: "stream_rows unmarshal rsel rows = Ok items'" "items = SVal obj # items'" by auto
    with Cons.prems(2) obtain xs' where "items' = xs' @ SErr e # ys" by (cases xs) auto
    with Cons.IH [OF i(1)] show ?thesis by blast
  next
    case (Err e')
    with Cons.prems have "xs @ SErr e # ys = [SErr (err_text e')]" by simp
    then show ?thesis by (cases xs) auto
  qed (use Cons.prems in auto)
qed simp

text \<open>What can be marshalled: no body is nil.\<close>

fun simple_set :: "pb_simple option \<Rightarrow> bool" where
  "simple_set (Some (StmtBodyValue None)) = False"
| "simple_set v = True"

fun sendable :: "query_result \<Rightarrow> bool" where
  "sendable (QRValue (QVSimple sv)) = simple_set (Some sv)"
| "sendable (QRValue (QVCompound body)) = list_all (\<lambda>(k, v). simple_set v) body"
| "sendable _ = True"

fun no_nil_body :: "row_value \<Rightarrow> bool" where
  "no_nil_body (RBody None) = False"
| "no_nil_body (RMap m) = (RBody None \<notin> ran m)"
| "no_nil_body v = True"

lemma SimpleValue_set: "SimpleValue v = Ok sv \<Longrightarrow> v \<noteq> RBody None \<Longrightarrow> simple_set (Some sv)"
  by (cases v) auto

lemma omap_member: "omap f xs = Ok ys \<Longrightarrow> y \<in> set ys \<Longrightarrow> \<exists>x \<in> set xs. f x = Ok y"
  by (induction xs arbitrary: ys) auto

lemma writeValue_sendable:
  assumes "map_keys_ok keys v" "flat v" "no_nil_body v" "writeValue keys (SVal v) = (msg, None)"
  shows "sendable msg"
proof (cases "is_simple v")
  case True
  then obtain sv where "SimpleValue v = Ok sv" using SimpleValue_received by blast
  with True assms(3,4) SimpleValue_set [of v sv] show ?thesis by (cases v rule: no_nil_body.cases) auto
next
  case False
  then obtain m where v: "v = RMap m" by (cases v) auto
  with assms obtain cv where cv: "CompoundValue keys m = Ok cv" "msg = QRValue (QVCompound cv)" using CompoundValue_received [of keys m] by auto
  have dom: "set (keys m) = dom m" using assms(1,2) v by (auto simp: map_keys_ok_def)
  have "simple_set sv" if kv: "(k, sv) \<in> set cv" for k sv
  proof -
    from omap_member [OF cv(1) [unfolded CompoundValue_def] kv] dom obtain j where "j \<in> dom m" "obind (SimpleValue (the (m j))) (\<lambda>sv. Ok (j, Some sv)) = Ok (k, sv)"
      by blast
    then obtain x w where "m j = Some w" "SimpleValue w = Ok x" "sv = Some x" by auto
    with assms(3) v SimpleValue_set [of w x] show ?thesis by (auto simp: ran_def)
  qed
  with cv(2) show ?thesis by (auto simp: list_all_iff)
qed

text \<open>An item as it arrives at the client: the text of an error is lost.\<close>

fun arrives :: "stream_item \<Rightarrow> stream_item" where
  "arrives (SVal v) = SVal (received v)"
| "arrives (SErr msg) = SErr ''Unexpected value type: main.StreamError''"

lemma written_arrives:
  assumes wr: "\<forall>m. sendable m \<longrightarrow> wr m = None"
  shows "\<forall>v. SVal v \<in> set items \<longrightarrow> map_keys_ok keys v \<and> flat v \<and> no_nil_body v \<Longrightarrow> (\<And>xs e ys. items = xs @ SErr e # ys \<Longrightarrow> ys = []) \<Longrightarrow>
    doRemoteQueryStream (map Ok (fst (writeValues keys wr items)) @ rest) = Ok (map arrives items) \<and>
    (snd (writeValues keys wr items) \<longleftrightarrow> (\<forall>e. SErr e \<notin> set items))"
proof (induction items)
  case Nil
  then show ?case using wr by auto
next
  case (Cons i items)
  show ?case
  proof (cases i)
    case (SVal v)
    with Cons.prems(1) have v: "map_keys_ok keys v" "flat v" "no_nil_body v" by auto
    from writeValue_received [OF v(1,2)] obtain qv where qv: "writeValue keys (SVal v) = (QRValue qv, None)" "ValueOf qv = Ok (received v)"
      by blast
    with writeValue_sendable [OF v] wr have "wr (QRValue qv) = None" by blast
    moreover have "\<And>xs e ys. items = xs @ SErr e # ys \<Longrightarrow> ys = []" using Cons.prems(2) by (metis append_Cons)
    ultimately show ?thesis using Cons.IH Cons.prems(1) SVal qv
      by (cases "writeValues keys wr items") (auto simp del: writeValue.simps)
  next
    case (SErr e)
    with Cons.prems(2) [of "[]" e items] have "items = []" by simp
    with SErr wr show ?thesis by (auto simp: Let_def)
  qed
qed

text \<open>C23: A remote query returns what the database of the peer streams: the client's channel delivers the same values in the same
  order, with integers as 64-bit integers, and then ends. When the stream of the peer
  breaks off with an error the client gets the values before it and an error, but not its text, and
  the session is over.\<close>

theorem remote_query:
  assumes "\<forall>v. SVal v \<in> set items \<longrightarrow> map_keys_ok keys v" "\<forall>m. sendable m \<longrightarrow> wr m = None" "ParseQuery qs = Ok q" "q_Op q = OpSelect"
    and "db_QueryStream eng unmarshal q db = Ok items" "\<forall>v. SVal v \<in> set items \<longrightarrow> no_nil_body v"
  shows "\<exists>msgs. serveQuery keys eng unmarshal wr db qs = Ok (msgs, \<forall>e. SErr e \<notin> set items) \<and>
    doRemoteQueryStream (map Ok msgs @ rest) = Ok (map arrives items)"
proof -
  from assms(5) obtain rsel rows where s: "stream_rows unmarshal rsel rows = Ok items"
    by (auto simp: db_QueryStream_def split: prod.splits)
  have "\<forall>v. SVal v \<in> set items \<longrightarrow> map_keys_ok keys v \<and> flat v \<and> no_nil_body v"
    using stream_rows_flat [OF s] assms(1,6) by blast
  moreover have "\<And>xs e ys. items = xs @ SErr e # ys \<Longrightarrow> ys = []" by (rule stream_rows_error [OF s])
  ultimately have w: "doRemoteQueryStream (map Ok (fst (writeValues keys wr items)) @ rest) = Ok (map arrives items) \<and>
    (snd (writeValues keys wr items) \<longleftrightarrow> (\<forall>e. SErr e \<notin> set items))"
    by (rule written_arrives [OF assms(2)])
  have "serveQuery keys eng unmarshal wr db qs = Ok (writeValues keys wr items)"
    using assms(3-5) by (simp add: serveQuery_def)
  then have "serveQuery keys eng unmarshal wr db qs = Ok (fst (writeValues keys wr items), \<forall>e. SErr e \<notin> set items)"
    using w by (simp add: prod_eq_iff)
  with w show ?thesis by blast
qed

text \<open>Rows for the witness: an id and a counter.\<close>

definition two_rows :: engine where
  "two_rows sq t = Ok ([\<lambda>dests. Ok [CString ''Qa'', CInt64 3], \<lambda>dests. Ok [CString ''Qb'', CInt64 5]], None)"

definition two_keys :: map_keys where
  "two_keys m = [''counter'', ''id'']"

theorem remote_query_witness:
  "\<exists>msgs. serveQuery two_keys two_rows sample_unmarshal (\<lambda>_. None) empty_db ''SELECT (id, counter) FROM *'' = Ok (msgs, True) \<and>
    doRemoteQueryStream (map Ok msgs) =
      Ok [SVal (RMap [''id'' \<mapsto> RString ''Qa'', ''counter'' \<mapsto> RInt64 3]), SVal (RMap [''id'' \<mapsto> RString ''Qb'', ''counter'' \<mapsto> RInt64 5])]"
proof -
  let ?q = "\<lparr>q_Op = OpSelect, q_namespace = ''*'', q_selector = Some (CompoundSelector [''id'', ''counter'']), q_criteria = None,
    q_order = None, q_limit = 0\<rparr>"
  let ?items = "[SVal (RMap [''id'' \<mapsto> RString ''Qa'', ''counter'' \<mapsto> RInt64 3]), SVal (RMap [''id'' \<mapsto> RString ''Qb'', ''counter'' \<mapsto> RInt64 5])]"
  have p: "ParseQuery ''SELECT (id, counter) FROM *'' = Ok ?q" by code_simp
  have "case CompileQuery ?q of Ok (sq, rsel) \<Rightarrow> rsel = RowSelectCompound [''id'', ''counter''] [RowSelectString, RowSelectInt64] | _ \<Rightarrow> False"
    by code_simp
  then have "\<exists>sq. CompileQuery ?q = Ok (sq, RowSelectCompound [''id'', ''counter''] [RowSelectString, RowSelectInt64])"
    by (auto split: outcome.splits)
  then have i: "db_QueryStream two_rows sample_unmarshal ?q empty_db = Ok ?items"
    by (auto simp: db_QueryStream_def two_rows_def)
  have m: "map_option received \<circ> [''id'' \<mapsto> RString i, ''counter'' \<mapsto> RInt64 c] = [''id'' \<mapsto> RString i, ''counter'' \<mapsto> RInt64 c]" for i c
    by auto
  have "\<forall>v. SVal v \<in> set ?items \<longrightarrow> map_keys_ok two_keys v" "\<forall>v. SVal v \<in> set ?items \<longrightarrow> no_nil_body v"
    by (auto simp: map_keys_ok_def two_keys_def ran_def)
  from remote_query [OF this(1) _ p _ i this(2), of "\<lambda>_. None" "[]"] show ?thesis by (simp add: m del: comp_apply)
qed

end
