(* ===== verification/Push.thy ===== *)
theory Push
  imports MergeCorrect Auth Remote
begin

text \<open>
  Pushing statements to a peer (\<open>pushHandler\<close> and \<open>doPush\<close> of \<open>mcnode/proto.go\<close>): the receiver checks
  the requested namespaces against its rules, lets through the statements of these namespaces, and merges
  them while it reads; the sender streams the result of a query.
\<close>

section \<open>Messages\<close>

datatype push_value = PushStmt "statement option" | PushEndMark | PushNothing

datatype push_response = PushAccept | PushReject string | PushNoBody

record push_end =
  pe_Statements :: int
  pe_Objects :: int
  pe_Error :: string

section \<open>The receiver\<close>

text \<open>
  The loop: the statements handed to the merge, the error it ends with, and whether it ended because the merge
  did. The channel to the merge is not buffered, so each statement handed over has been received; \<open>k\<close> is the number of statements the
  merge receives before its result arrives, \<open>None\<close> when it does not end by itself.
\<close>

fun pushLoop :: "string list \<Rightarrow> push_value outcome list \<Rightarrow> nat option \<Rightarrow> statement list \<times> go_error option \<times> bool" where
  "pushLoop nsfilter [] k = ([], Some EOF, False)"
| "pushLoop nsfilter (Err e # msgs) k = ([], Some e, False)"
| "pushLoop nsfilter (Panic p # msgs) k = ([], Some (ExtErr p), False)"
| "pushLoop nsfilter (Ok (PushStmt None) # msgs) k = ([], Some BadPush, False)"
| "pushLoop nsfilter (Ok (PushStmt (Some st)) # msgs) k =
     (if Namespace st \<notin> set nsfilter then ([], Some BadPush, False)
      else (case k of
              Some 0 \<Rightarrow> ([], None, True)
            | Some (Suc n) \<Rightarrow> (case pushLoop nsfilter msgs (Some n) of (sts, r) \<Rightarrow> (st # sts, r))
            | None \<Rightarrow> (case pushLoop nsfilter msgs None of (sts, r) \<Rightarrow> (st # sts, r))))"
| "pushLoop nsfilter (Ok PushEndMark # msgs) k = ([], None, False)"
| "pushLoop nsfilter (Ok PushNothing # msgs) k = ([], Some BadPush, False)"

definition push_items :: "statement list \<Rightarrow> stream_item list" where
  "push_items sts = map (\<lambda>st. SVal (RStmt st)) sts"

text \<open>The answer at the end: the counts of the merge, and the error of the loop or of the merge.\<close>

definition pushEnd :: "go_error option \<Rightarrow> 'k mstate \<Rightarrow> push_end" where
  "pushEnd err s =
     \<lparr>pe_Statements = m_count s, pe_Objects = m_ocount s,
      pe_Error = (case err of Some e \<Rightarrow> err_text e | None \<Rightarrow> (case m_err s of Some e \<Rightarrow> err_text e | None \<Rightarrow> []))\<rparr>"

text \<open>
  The handler: \<open>req\<close> is the read of the request, \<open>msgs\<close> the reads that follow, \<open>wr\<close> the outcome of
  writing the response. It relates the databases before to what is written and the databases after. The merge
  is the one of \<open>Merge\<close>, on what the loop hands over; when it panics the node is gone.
\<close>

inductive pushHandler ::
  "'k merge_env \<Rightarrow> 'p rules \<Rightarrow> 'p \<Rightarrow> string list outcome \<Rightarrow> (push_response \<Rightarrow> go_error option) \<Rightarrow> push_value outcome list \<Rightarrow>
   sqldb \<times> rocksdb \<Rightarrow> push_response option \<times> push_end option \<Rightarrow> sqldb \<times> rocksdb \<Rightarrow> bool"
  for E auth pid req wr msgs where
  no_request: "(\<forall>nss. req \<noteq> Ok nss) \<Longrightarrow> pushHandler E auth pid req wr msgs db (None, None) db"
| reject: "req = Ok nss \<Longrightarrow> \<not> authorize auth pid nss \<Longrightarrow>
    pushHandler E auth pid req wr msgs db
      (if wr (PushReject ''Not authorized'') = None then Some (PushReject ''Not authorized'') else None, None) db"
| no_accept: "req = Ok nss \<Longrightarrow> authorize auth pid nss \<Longrightarrow> wr PushAccept \<noteq> None \<Longrightarrow>
    pushHandler E auth pid req wr msgs db (None, None) db"
| merged: "req = Ok nss \<Longrightarrow> authorize auth pid nss \<Longrightarrow> wr PushAccept = None \<Longrightarrow>
    pushLoop nss msgs k = (sts, err, mdone) \<Longrightarrow>
    merge_reach E False (push_items sts) db ds s \<Longrightarrow> m_pc s = PDone \<Longrightarrow> m_in s = [] \<Longrightarrow>
    pushHandler E auth pid req wr msgs (db, ds) (Some PushAccept, Some (pushEnd err s)) (m_db s, m_ds s)"
| crashed: "req = Ok nss \<Longrightarrow> authorize auth pid nss \<Longrightarrow> wr PushAccept = None \<Longrightarrow>
    pushLoop nss msgs k = (sts, err, mdone) \<Longrightarrow>
    merge_reach E False (push_items sts) db ds s \<Longrightarrow> m_pc s = PCrash m \<Longrightarrow>
    pushHandler E auth pid req wr msgs (db, ds) (Some PushAccept, None) (m_db s, m_ds s)"

inductive_cases pushHandler_cases: "pushHandler E auth pid req wr msgs db out db'"

lemma pushLoop_sent:
  "pushLoop nss msgs k = (sts, r) \<Longrightarrow> st \<in> set sts \<Longrightarrow> Ok (PushStmt (Some st)) \<in> set msgs \<and> Namespace st \<in> set nss"
proof (induction nss msgs k arbitrary: sts r rule: pushLoop.induct)
  case (5 nss st' msgs k)
  show ?case
  proof (cases k)
    case None
    with 5 show ?thesis by (auto split: if_splits prod.splits)
  next
    case (Some n)
    with 5 show ?thesis by (cases n) (fastforce split: if_splits prod.splits)+
  qed
qed auto

text \<open>What a peer may store: its statements, in namespaces it asked for and its rules allow.\<close>

definition may_push :: "'k merge_env \<Rightarrow> 'p rules \<Rightarrow> 'p \<Rightarrow> string list outcome \<Rightarrow> push_value outcome list \<Rightarrow> statement \<Rightarrow> bool" where
  "may_push E auth pid req msgs st \<longleftrightarrow>
     Ok (PushStmt (Some st)) \<in> set msgs \<and> authentic (me_crypto E) st \<and>
     (\<exists>nss. req = Ok nss \<and> Namespace st \<in> set nss) \<and> (\<exists>rule \<in> set (getRules pid auth). rule_allows rule (Namespace st))"

lemma push_merge_stores:
  assumes "req = Ok nss" "authorize auth pid nss" "pushLoop nss msgs k = (sts, r)" "merge_reach E False (push_items sts) db ds s"
  shows "(\<forall>i \<in> dom (stored (m_db s)) - dom (stored db).
      \<exists>st. may_push E auth pid req msgs st \<and> Id st = i \<and> stored (m_db s) i = cr_marshal (me_crypto E) st) \<and>
    stored db \<subseteq>\<^sub>m stored (m_db s) \<and> m_count s = int (card (dom (stored (m_db s)) - dom (stored db)))"
proof -
  note m = merge_reach_stored [OF assms(4)]
  have "may_push E auth pid req msgs st" if "SVal (RStmt st) \<in> set (push_items sts)" "authentic (me_crypto E) st" for st
  proof -
    from that(1) have "st \<in> set sts" by (auto simp: push_items_def)
    from pushLoop_sent [OF assms(3) this] have "Ok (PushStmt (Some st)) \<in> set msgs" "Namespace st \<in> set nss" by simp_all
    with assms(1,2) that(2) peer_auth.allowed_iff [of auth pid nss] show ?thesis by (auto simp: may_push_def)
  qed
  with m show ?thesis by meson
qed

text \<open>C17: A push cannot reach beyond its rules: whatever a peer sends and however the handler and its merge interleave, what is new in
  the database are signed statements the peer sent, in namespaces that it asked for and that its rules allow;
  nothing is lost; the final message counts the new statements; and a peer that is not authorised changes nothing.\<close>

theorem push_confined:
  assumes "pushHandler E auth pid req wr msgs (db, ds) (resp, fin) (db', ds')"
  shows "(\<forall>i \<in> dom (stored db') - dom (stored db).
      \<exists>st. may_push E auth pid req msgs st \<and> Id st = i \<and> stored db' i = cr_marshal (me_crypto E) st) \<and>
    stored db \<subseteq>\<^sub>m stored db' \<and>
    (\<forall>e. fin = Some e \<longrightarrow> pe_Statements e = int (card (dom (stored db') - dom (stored db)))) \<and>
    (\<forall>nss. req = Ok nss \<longrightarrow> \<not> authorize auth pid nss \<longrightarrow> db' = db \<and> ds' = ds \<and> resp \<noteq> Some PushAccept)"
  using assms
proof (cases rule: pushHandler.cases)
  case (merged nss k sts err mdone s)
  with push_merge_stores [OF merged(5,6,8,9)] show ?thesis by (simp add: pushEnd_def)
next
  case (crashed nss k sts err mdone s m)
  with push_merge_stores [OF crashed(5,6,8,9)] show ?thesis by simp
qed (auto split: if_splits)

section \<open>The sender\<close>

text \<open>
  What happens next in the loop of the sender: an item of the query arrives, the peer's final message
  does, or the context is cancelled. The list of choices ends with items.
\<close>

datatype push_event = FromQuery | FromPeer | Cancelled

datatype push_exit = ExitEnd | ExitPeer | ExitWrite go_error | ExitPanic

fun pushStream ::
  "(push_value \<Rightarrow> go_error option) \<Rightarrow> push_event list \<Rightarrow> stream_item list \<Rightarrow> statement list \<times> push_exit" where
  "pushStream wr (FromPeer # evs) items = ([], ExitPeer)"
| "pushStream wr (Cancelled # evs) items = ([], ExitEnd)"
| "pushStream wr evs [] = ([], ExitEnd)"
| "pushStream wr evs (SVal (RStmt st) # items) =
     (case wr (PushStmt (Some st)) of
        Some e \<Rightarrow> ([], ExitWrite e)
      | None \<Rightarrow> (case pushStream wr (tl evs) items of (sts, x) \<Rightarrow> (st # sts, x)))"
| "pushStream wr evs (i # items) = ([], ExitPanic)"

definition pushResult :: "push_end outcome \<Rightarrow> int \<times> int \<times> unit outcome" where
  "pushResult res =
     (case res of
        Ok e \<Rightarrow> (pe_Statements e, pe_Objects e, if pe_Error e \<noteq> [] then Err (PushError (pe_Error e)) else Ok ())
      | Err e \<Rightarrow> (-1, -1, Err e)
      | Panic p \<Rightarrow> (-1, -1, Panic p))"

fun as_string :: "row_value \<Rightarrow> string outcome" where
  "as_string (RString s) = Ok s"
| "as_string v = Panic ''interface conversion''"

text \<open>
  \<open>conn\<close> is the outcome of connecting, \<open>wreq\<close> of writing the request for the namespaces, \<open>resp\<close> the response read, and \<open>fin\<close> the
  final message read. The result is what was pushed, the counts and the error.
\<close>

definition doPush ::
  "engine \<Rightarrow> (string \<Rightarrow> statement outcome) \<Rightarrow> sqldb \<Rightarrow> unit outcome \<Rightarrow> (string list \<Rightarrow> unit outcome) \<Rightarrow> push_response outcome \<Rightarrow>
   (push_value \<Rightarrow> go_error option) \<Rightarrow> push_event list \<Rightarrow> push_end outcome \<Rightarrow> Query \<Rightarrow> statement list \<times> int \<times> int \<times> unit outcome" where
  "doPush eng unmarshal db conn wreq resp wr evs fin q =
     (case obind (db_Query eng unmarshal (WithSimpleSelect q ''namespace'') db) (omap as_string) of
        Err e \<Rightarrow> ([], 0, 0, Err e)
      | Panic p \<Rightarrow> ([], 0, 0, Panic p)
      | Ok nss \<Rightarrow>
          (if nss = [] then ([], 0, 0, Ok ())
           else (case obind conn (\<lambda>_. obind (wreq nss) (\<lambda>_. obind resp (\<lambda>body.
                   (case body of
                      PushAccept \<Rightarrow> db_QueryStream eng unmarshal q db
                    | PushReject msg \<Rightarrow> Err (PushError msg)
                    | PushNoBody \<Rightarrow> Err BadResponse)))) of
                   Err e \<Rightarrow> ([], 0, 0, Err e)
                 | Panic p \<Rightarrow> ([], 0, 0, Panic p)
                 | Ok items \<Rightarrow>
                     (case pushStream wr evs items of
                        (sts, ExitPeer) \<Rightarrow> (sts, pushResult fin)
                      | (sts, ExitWrite e) \<Rightarrow> (sts, -1, -1, Err e)
                      | (sts, ExitPanic) \<Rightarrow> (sts, 0, 0, Panic ''interface conversion'')
                      | (sts, ExitEnd) \<Rightarrow>
                          (case wr PushEndMark of
                             Some e \<Rightarrow> (sts, -1, -1, Err e)
                           | None \<Rightarrow> (sts, pushResult fin))))))"

text \<open>
  What a sender streams passes the receiver's filter, when it is in the namespaces that were
  requested, and reaches the merge as a whole.
\<close>

lemma pushStream_all: "\<forall>m. wr m = None \<Longrightarrow> pushStream wr [] (push_items sts) = (sts, ExitEnd)"
  by (induction sts) (simp_all add: push_items_def)

lemma pushLoop_all:
  "(\<forall>st \<in> set sts. Namespace st \<in> set nss) \<Longrightarrow>
   pushLoop nss (map (\<lambda>st. Ok (PushStmt (Some st))) sts @ [Ok PushEndMark]) None = (sts, None, False)"
  by (induction sts) simp_all

lemma push_passes:
  assumes "\<forall>m. wr m = None" "\<forall>st \<in> set sts. Namespace st \<in> set nss"
  shows "pushLoop nss (map (\<lambda>st. Ok (PushStmt (Some st))) (fst (pushStream wr [] (push_items sts))) @ [Ok PushEndMark]) None = (sts, None, False)"
  using pushStream_all [OF assms(1), of sts] pushLoop_all [OF assms(2)] by simp

text \<open>A read error of the database while a push streams its statements takes the sender down.\<close>

theorem push_stream_error_panics:
  assumes "wr (PushStmt (Some st)) = None"
  shows "snd (pushStream wr [] [SVal (RStmt st), SErr ''disk I/O error'']) = ExitPanic"
  using assms by simp

section \<open>A push\<close>

theorem push_confined_witness:
  "\<exists>db' ds' e. pushHandler sample_env [(7 :: nat, [''n.*''])] 7 (Ok [''ns'']) (\<lambda>_. None)
      [Ok (PushStmt (Some sample_signed)), Ok PushEndMark] (empty_db, empty_ds) (Some PushAccept, Some e) (db', ds') \<and>
    pe_Error e = [] \<and> pe_Statements e = int (card (dom (stored db') - dom (stored empty_db))) \<and> stored empty_db \<subseteq>\<^sub>m stored db'"
proof -
  obtain s where s: "merge_reach sample_env True [SVal (RStmt sample_signed)] empty_db empty_ds s" "m_pc s = PDone" "m_err s = None" "m_in s = []"
    using sample_run by blast
  have a: "authorize [(7 :: nat, [''n.*''])] 7 [''ns'']" by code_simp
  have l: "pushLoop [''ns''] [Ok (PushStmt (Some sample_signed)), Ok PushEndMark] None = ([sample_signed], None, False)" by code_simp
  have "merge_reach sample_env False (push_items [sample_signed]) empty_db empty_ds s"
    using merge_reach_honest [OF s(1)] by (simp add: push_items_def)
  from pushHandler.merged [OF refl a _ l this s(2,4), of "\<lambda>_. None"]
  have h: "pushHandler sample_env [(7 :: nat, [''n.*''])] 7 (Ok [''ns'']) (\<lambda>_. None) [Ok (PushStmt (Some sample_signed)), Ok PushEndMark]
     (empty_db, empty_ds) (Some PushAccept, Some (pushEnd None s)) (m_db s, m_ds s)" by simp
  have "pe_Error (pushEnd None s) = []" using s(3) by (simp add: pushEnd_def)
  with push_confined [OF h] h show ?thesis by blast
qed

end
