(* ===== verification/Directory.thy ===== *)
theory Directory
  imports Manifest Auth
begin

text \<open>
  The directory server (\<open>mcdir/dir.go\<close>, \<open>mcdir/proto.go\<close>): the table of registered peers, its lookups and
  lists, the handlers of the protocols, and the interleaving of register streams.
\<close>

section \<open>State\<close>

text \<open>\<open>pb.PublisherInfo\<close>.\<close>

record publisher_info =
  pub_Id :: string
  pub_Namespaces :: "string list"

record ('p, 'a) PeerRecord =
  pr_peer :: "('p, 'a) peer_info"
  pr_publisher :: "publisher_info option"

text \<open>The table of the directory, a Go map, is the list of its entries; \<open>'s\<close> is the manifest store.\<close>

record ('p, 'a, 's) Directory =
  dir_peers :: "('p \<times> ('p, 'a) PeerRecord) list"
  dir_mfs :: 's

definition dir_registerPeer :: "('p, 'a) PeerRecord \<Rightarrow> ('p, 'a, 's) Directory \<Rightarrow> ('p, 'a, 's) Directory" where
  "dir_registerPeer rec d = d\<lparr>dir_peers := AList.update (pi_ID (pr_peer rec)) rec (dir_peers d)\<rparr>"

definition unregisterPeer :: "'p \<Rightarrow> ('p, 'a, 's) Directory \<Rightarrow> ('p, 'a, 's) Directory" where
  "unregisterPeer pid d = d\<lparr>dir_peers := AList.delete pid (dir_peers d)\<rparr>"

definition lookupPeer :: "'p \<Rightarrow> ('p, 'a, 's) Directory \<Rightarrow> ('p, 'a) peer_info option" where
  "lookupPeer pid d = map_option pr_peer (map_of (dir_peers d) pid)"

text \<open>\<open>ord\<close> is the order of the iteration over the map.\<close>

definition listPeersFilter ::
  "('p, 'a) net_lib \<Rightarrow> ('p list \<Rightarrow> 'p list) \<Rightarrow> (('p, 'a) PeerRecord \<Rightarrow> bool) \<Rightarrow> ('p, 'a, 's) Directory \<Rightarrow> string list" where
  "listPeersFilter nl ord f d =
     map (nl_Pretty nl) (filter (\<lambda>pid. f (the (map_of (dir_peers d) pid))) (ord (map fst (dir_peers d))))"

definition publishes :: "(string \<Rightarrow> bool) \<Rightarrow> ('p, 'a) PeerRecord \<Rightarrow> bool" where
  "publishes test rec = (case pr_publisher rec of None \<Rightarrow> False | Some pub \<Rightarrow> list_ex test (pub_Namespaces pub))"

definition listPeers ::
  "('p, 'a) net_lib \<Rightarrow> ('p list \<Rightarrow> 'p list) \<Rightarrow> string \<Rightarrow> ('p, 'a, 's) Directory \<Rightarrow> string list" where
  "listPeers nl ord ns d =
     (if ns = [] \<or> ns = ''*'' then listPeersFilter nl ord (\<lambda>rec. True) d
      else if HasSuffix ns ''.*''
      then listPeersFilter nl ord (publishes (\<lambda>xns. HasPrefix xns (take (length ns - 2) ns))) d
      else listPeersFilter nl ord (publishes (\<lambda>xns. ns = xns)) d)"

definition listNamespaces ::
  "('p list \<Rightarrow> 'p list) \<Rightarrow> (string list \<Rightarrow> string list) \<Rightarrow> ('p, 'a, 's) Directory \<Rightarrow> string list" where
  "listNamespaces ord nord d =
     nord (foldl (\<lambda>nsset pid.
       case pr_publisher (the (map_of (dir_peers d) pid)) of
         None \<Rightarrow> nsset
       | Some pub \<Rightarrow> set_adds (pub_Namespaces pub) nsset) [] (ord (map fst (dir_peers d))))"

section \<open>Handlers\<close>

text \<open>\<open>pb.RegisterPeer\<close>.\<close>

record RegisterPeer =
  rp_Info :: "pb_peer_info option"
  rp_Publisher :: "publisher_info option"
  rp_Manifest :: "manifest list"

text \<open>
  What a register stream of \<open>pid\<close> does with one read: the record to register and the manifests to
  put, or \<open>None\<close> when the stream ends.
\<close>

definition register_read ::
  "('p, 'a) net_lib \<Rightarrow> 'p \<Rightarrow> RegisterPeer outcome \<Rightarrow> (('p, 'a) PeerRecord \<times> manifest list) option" where
  "register_read nl pid msg =
     (case msg of
        Ok req \<Rightarrow>
          (case rp_Info req of
             None \<Rightarrow> None
           | Some info \<Rightarrow>
               (case PBToPeerInfo nl info of
                  Ok pinfo \<Rightarrow>
                    (if pi_ID pinfo \<noteq> pid then None
                     else Some (\<lparr>pr_peer = pinfo, pr_publisher = rp_Publisher req\<rparr>, rp_Manifest req))
                | _ \<Rightarrow> None))
      | _ \<Rightarrow> None)"

text \<open>One round of the loop, and its end. \<open>put\<close> and \<open>remove\<close> are those of the manifest store.\<close>

definition register_round ::
  "('p \<Rightarrow> manifest list \<Rightarrow> 's \<Rightarrow> 's) \<Rightarrow> 'p \<Rightarrow> ('p, 'a) PeerRecord \<times> manifest list \<Rightarrow>
   ('p, 'a, 's) Directory \<Rightarrow> ('p, 'a, 's) Directory" where
  "register_round put pid rm d =
     (let d' = dir_registerPeer (fst rm) d in
      if length (snd rm) > 0 then d'\<lparr>dir_mfs := put pid (snd rm) (dir_mfs d')\<rparr> else d')"

definition register_end ::
  "('p \<Rightarrow> 's \<Rightarrow> 's) \<Rightarrow> 'p \<Rightarrow> ('p, 'a, 's) Directory \<Rightarrow> ('p, 'a, 's) Directory" where
  "register_end remove pid d = (let d' = unregisterPeer pid d in d'\<lparr>dir_mfs := remove pid (dir_mfs d')\<rparr>)"

text \<open>The whole handler, when no other stream runs.\<close>

fun registerHandler ::
  "('p, 'a) net_lib \<Rightarrow> ('p \<Rightarrow> manifest list \<Rightarrow> 's \<Rightarrow> 's) \<Rightarrow> ('p \<Rightarrow> 's \<Rightarrow> 's) \<Rightarrow> 'p \<Rightarrow> RegisterPeer outcome list \<Rightarrow>
   ('p, 'a, 's) Directory \<Rightarrow> ('p, 'a, 's) Directory" where
  "registerHandler nl put remove pid [] d = register_end remove pid d"
| "registerHandler nl put remove pid (msg # msgs) d =
     (case register_read nl pid msg of
        None \<Rightarrow> register_end remove pid d
      | Some rm \<Rightarrow> registerHandler nl put remove pid msgs (register_round put pid rm d))"

text \<open>One request of each of the other protocols, and its answer; \<open>None\<close> ends the stream.\<close>

definition lookupHandler :: "('p, 'a) net_lib \<Rightarrow> string \<Rightarrow> ('p, 'a, 's) Directory \<Rightarrow> pb_peer_info option option" where
  "lookupHandler nl reqId d =
     (case nl_IDB58Decode nl reqId of
        Ok xid \<Rightarrow>
          (case lookupPeer xid d of
             Some pinfo \<Rightarrow> Some (Some (PBFromPeerInfo nl pinfo))
           | None \<Rightarrow> Some None)
      | _ \<Rightarrow> None)"

definition listHandler ::
  "('p, 'a) net_lib \<Rightarrow> ('p list \<Rightarrow> 'p list) \<Rightarrow> string \<Rightarrow> ('p, 'a, 's) Directory \<Rightarrow> string list" where
  "listHandler nl ord reqNamespace d = listPeers nl ord reqNamespace d"

definition listnsHandler ::
  "('p list \<Rightarrow> 'p list) \<Rightarrow> (string list \<Rightarrow> string list) \<Rightarrow> ('p, 'a, 's) Directory \<Rightarrow> string list" where
  "listnsHandler ord nord d = listNamespaces ord nord d"

definition listmfHandler ::
  "(string list \<Rightarrow> string list) \<Rightarrow> string \<Rightarrow> ('p, 'a, ('p, 'k) manifest_store) Directory \<Rightarrow> manifest list" where
  "listmfHandler ord reqEntity d = mfs_Lookup ord reqEntity (dir_mfs d)"

section \<open>Streams\<close>

text \<open>
  The register streams that are open, each with the id of the peer at its other end, which the
  connection has authenticated. The rounds and the ends of the streams interleave.
\<close>

record ('p, 'a, 's) dir_state =
  ds_dir :: "('p, 'a, 's) Directory"
  ds_open :: "(nat \<times> 'p) list"

datatype ('p, 'a) dir_event = Registered nat 'p "('p, 'a) PeerRecord" "manifest list" | Closed nat 'p | Opened nat 'p

text \<open>\<open>w\<close> are the circumstances in which the store looks up keys.\<close>

inductive dir_step ::
  "('p, 'a) net_lib \<Rightarrow> ('w \<Rightarrow> bool) \<Rightarrow> ('w \<Rightarrow> 'p \<Rightarrow> manifest list \<Rightarrow> 's \<Rightarrow> 's) \<Rightarrow> ('p \<Rightarrow> 's \<Rightarrow> 's) \<Rightarrow>
   ('p, 'a) dir_event \<Rightarrow> ('p, 'a, 's) dir_state \<Rightarrow> ('p, 'a, 's) dir_state \<Rightarrow> bool"
  for nl fair put remove where
  open_stream: "i \<notin> fst ` set (ds_open s) \<Longrightarrow>
    dir_step nl fair put remove (Opened i pid) s (s\<lparr>ds_open := (i, pid) # ds_open s\<rparr>)"
| round: "(i, pid) \<in> set (ds_open s) \<Longrightarrow> register_read nl pid msg = Some (rec, ms) \<Longrightarrow> fair w \<Longrightarrow>
    dir_step nl fair put remove (Registered i pid rec ms) s (s\<lparr>ds_dir := register_round (put w) pid (rec, ms) (ds_dir s)\<rparr>)"
| close: "(i, pid) \<in> set (ds_open s) \<Longrightarrow> register_read nl pid msg = None \<Longrightarrow>
    dir_step nl fair put remove (Closed i pid) s
      (s\<lparr>ds_dir := register_end remove pid (ds_dir s), ds_open := filter (\<lambda>(j, p). j \<noteq> i) (ds_open s)\<rparr>)"

inductive_cases dir_step_cases: "dir_step nl fair put remove e s s'"

inductive dir_run ::
  "('p, 'a) net_lib \<Rightarrow> ('w \<Rightarrow> bool) \<Rightarrow> ('w \<Rightarrow> 'p \<Rightarrow> manifest list \<Rightarrow> 's \<Rightarrow> 's) \<Rightarrow> ('p \<Rightarrow> 's \<Rightarrow> 's) \<Rightarrow> 's \<Rightarrow>
   ('p, 'a) dir_event list \<Rightarrow> ('p, 'a, 's) dir_state \<Rightarrow> bool"
  for nl fair put remove mfs0 where
  start: "dir_run nl fair put remove mfs0 [] \<lparr>ds_dir = \<lparr>dir_peers = [], dir_mfs = mfs0\<rparr>, ds_open = []\<rparr>"
| step: "dir_run nl fair put remove mfs0 es s \<Longrightarrow> dir_step nl fair put remove e s s' \<Longrightarrow>
    dir_run nl fair put remove mfs0 (es @ [e]) s'"

section \<open>What the table holds\<close>

text \<open>The registrations that stand after a run: the last one of each peer, until one of its streams ends.\<close>

fun register_event :: "('p, 'a) dir_event \<Rightarrow> ('p \<Rightarrow> ('p, 'a) PeerRecord option) \<Rightarrow> 'p \<Rightarrow> ('p, 'a) PeerRecord option" where
  "register_event (Registered i pid rec ms) m = m(pid \<mapsto> rec)"
| "register_event (Closed i pid) m = m(pid := None)"
| "register_event (Opened i pid) m = m"

definition registrations :: "('p, 'a) dir_event list \<Rightarrow> 'p \<Rightarrow> ('p, 'a) PeerRecord option" where
  "registrations es = fold register_event es Map.empty"

lemma register_read_Some: "register_read nl pid msg = Some (rec, ms) \<Longrightarrow> pi_ID (pr_peer rec) = pid"
  by (auto simp: register_read_def split: outcome.splits option.splits if_splits)

lemma register_round_sel [simp]:
  "dir_peers (register_round put pid (rec, ms) d) = AList.update (pi_ID (pr_peer rec)) rec (dir_peers d)"
  "dir_mfs (register_round put pid (rec, ms) d) = (if ms = [] then dir_mfs d else put pid ms (dir_mfs d))"
  by (simp_all add: register_round_def dir_registerPeer_def Let_def)

lemma register_end_sel [simp]:
  "dir_peers (register_end remove pid d) = AList.delete pid (dir_peers d)"
  "dir_mfs (register_end remove pid d) = remove pid (dir_mfs d)"
  by (simp_all add: register_end_def unregisterPeer_def Let_def)

definition table_ok :: "('p, 'a) dir_event list \<Rightarrow> ('p, 'a, 's) dir_state \<Rightarrow> bool" where
  "table_ok es s \<longleftrightarrow>
     distinct (map fst (ds_open s)) \<and> distinct (map fst (dir_peers (ds_dir s))) \<and>
     map_of (dir_peers (ds_dir s)) = registrations es \<and>
     (\<forall>pid rec. registrations es pid = Some rec \<longrightarrow>
        pi_ID (pr_peer rec) = pid \<and> pid \<in> snd ` set (ds_open s) \<and> (\<exists>i ms. Registered i pid rec ms \<in> set es))"

lemma close_others: "distinct (map fst xs) \<Longrightarrow> (i, pid) \<in> set xs \<Longrightarrow>
  snd ` set xs \<subseteq> insert pid (snd ` set (filter (\<lambda>(j, p). j \<noteq> i) xs))"
proof
  fix q assume d: "distinct (map fst xs)" "(i, pid) \<in> set xs" and "q \<in> snd ` set xs"
  then obtain j where j: "(j, q) \<in> set xs" by auto
  show "q \<in> insert pid (snd ` set (filter (\<lambda>(j, p). j \<noteq> i) xs))"
  proof (cases "j = i")
    case True
    with d j show ?thesis by (auto dest: eq_key_imp_eq_value)
  next
    case False
    with j have "(j, q) \<in> set (filter (\<lambda>(j, p). j \<noteq> i) xs)" by simp
    then have "q \<in> snd ` set (filter (\<lambda>(j, p). j \<noteq> i) xs)" by (rule image_eqI [rotated]) simp
    then show ?thesis by simp
  qed
qed

lemma registrations_snoc: "registrations (es @ [e]) = register_event e (registrations es)"
  by (simp add: registrations_def)

lemma dir_step_table:
  assumes "dir_step nl fair put remove e s s'" "table_ok es s"
  shows "table_ok (es @ [e]) s'"
  using assms(1)
proof (cases rule: dir_step.cases)
  case (open_stream i pid)
  with assms(2) show ?thesis by (auto simp: table_ok_def registrations_snoc)
next
  case (round i pid msg rec ms w)
  from round(4) have "pi_ID (pr_peer rec) = pid" by (rule register_read_Some)
  moreover from round(3) have "pid \<in> snd ` set (ds_open s)" by (rule image_eqI [rotated]) simp
  ultimately show ?thesis
    using assms(2) round(1,2) by (auto simp: table_ok_def registrations_snoc update_conv' distinct_update)
next
  case (close i pid msg)
  from assms(2) have "distinct (map fst (ds_open s))" by (simp add: table_ok_def)
  note sub = close_others [OF this close(3)]
  have o: "ds_open s' = filter (\<lambda>(j, p). j \<noteq> i) (ds_open s)" using close(2) by simp
  have "q \<in> snd ` set (filter (\<lambda>(j, p). j \<noteq> i) (ds_open s))" if "q \<in> snd ` set (ds_open s)" "q \<noteq> pid" for q
    using that sub by blast
  with assms(2) show ?thesis
    unfolding close(1) table_ok_def registrations_snoc o
    by (simp add: close(2) delete_conv' distinct_delete distinct_map_filter del: set_filter)
qed

lemma dir_run_table: "dir_run nl fair put remove mfs0 es s \<Longrightarrow> table_ok es s"
  by (induction rule: dir_run.induct) (auto simp: table_ok_def [of "[]"] registrations_def dest: dir_step_table)

text \<open>The manifests of the directory are good ones, of peers that have a stream open.\<close>

context manifest_keeper
begin

lemma dir_step_mfs:
  assumes "dir_step nl fair put remove e s s'" "distinct (map fst (ds_open s))"
    and "inv (dir_mfs (ds_dir s)) \<and> snd ` records (dir_mfs (ds_dir s)) \<subseteq> snd ` set (ds_open s)"
  shows "inv (dir_mfs (ds_dir s')) \<and> snd ` records (dir_mfs (ds_dir s')) \<subseteq> snd ` set (ds_open s')"
  using assms(1)
proof (cases rule: dir_step.cases)
  case (open_stream i pid)
  with assms(3) show ?thesis by auto
next
  case (round i pid msg rec ms w)
  from round(3) have "pid \<in> snd ` set (ds_open s)" by force
  with round(2,5) assms(3) put_sources put_inv show ?thesis by auto
next
  case (close i pid msg)
  have "snd ` set (ds_open s) \<subseteq> insert pid (snd ` set (ds_open s'))"
    using close_others [OF assms(2) close(3)] close(2) by simp
  with assms(3) have "snd ` records (dir_mfs (ds_dir s)) \<subseteq> insert pid (snd ` set (ds_open s'))" by (meson order_trans)
  from remove_sources [OF this] close(2) assms(3) remove_inv show ?thesis by auto
qed

lemma dir_run_mfs:
  "dir_run nl fair put remove mfs0 es s \<Longrightarrow> inv mfs0 \<Longrightarrow> records mfs0 = {} \<Longrightarrow>
   inv (dir_mfs (ds_dir s)) \<and> snd ` records (dir_mfs (ds_dir s)) \<subseteq> snd ` set (ds_open s)"
proof (induction rule: dir_run.induct)
  case (step es s e s')
  from dir_run_table [OF step(1)] have "distinct (map fst (ds_open s))" by (simp add: table_ok_def)
  from dir_step_mfs [OF step(2) this] step show ?case by blast
qed simp

end

text \<open>C29: Peers only speak for themselves in the directory: however the streams interleave, a lookup returns what the
  peer itself registered last over a stream that it is still the end of, or nothing once one of its
  streams has ended; and every manifest is vouched for and comes from a peer with an open stream.\<close>

theorem directory_authentic:
  assumes "dir_run nl (\<lambda>env. \<forall>x. same_hashes (env x) env0) (put_alone ml) mfs_Remove NewManifestStore es s"
  shows "lookupPeer pid (ds_dir s) = map_option pr_peer (registrations es pid) \<and>
    (\<forall>pinfo. lookupPeer pid (ds_dir s) = Some pinfo \<longrightarrow> pi_ID pinfo = pid \<and> (\<exists>i. (i, pid) \<in> set (ds_open s)) \<and>
       (\<exists>i rec ms. Registered i pid rec ms \<in> set es \<and> pr_peer rec = pinfo)) \<and>
    (\<forall>(mf, src) \<in> store_records (dir_mfs (ds_dir s)). vouched ml env0 mf \<and> (\<exists>i. (i, src) \<in> set (ds_open s)))"
proof -
  note t = dir_run_table [OF assms]
  have look: "lookupPeer pid (ds_dir s) = map_option pr_peer (registrations es pid)"
    using t by (simp add: table_ok_def lookupPeer_def)
  have m: "store_ok ml env0 (dir_mfs (ds_dir s)) \<and> snd ` store_records (dir_mfs (ds_dir s)) \<subseteq> snd ` set (ds_open s)"
    by (rule mfs.dir_run_mfs [OF assms]) (simp_all add: store_records_def NewManifestStore_def store_ok_def)
  have "vouched ml env0 mf \<and> (\<exists>i. (i, src) \<in> set (ds_open s))"
    if "(mf, src) \<in> store_records (dir_mfs (ds_dir s))" for mf src
    using that m mfs.inv_good by fastforce
  moreover have "pi_ID pinfo = pid \<and> (\<exists>i. (i, pid) \<in> set (ds_open s)) \<and> (\<exists>i rec ms. Registered i pid rec ms \<in> set es \<and> pr_peer rec = pinfo)"
    if "lookupPeer pid (ds_dir s) = Some pinfo" for pinfo
  proof -
    from that look obtain rec where r: "registrations es pid = Some rec" "pr_peer rec = pinfo" by auto
    with t have "pi_ID (pr_peer rec) = pid" "pid \<in> snd ` set (ds_open s)" "\<exists>i ms. Registered i pid rec ms \<in> set es"
      unfolding table_ok_def by blast+
    with r(2) show ?thesis by auto
  qed
  ultimately show ?thesis using look by blast
qed

lemma collect_namespaces:
  "set (foldl (\<lambda>nsset pid. case g pid of None \<Rightarrow> nsset | Some pub \<Rightarrow> set_adds (pub_Namespaces pub) nsset) acc pids) =
   set acc \<union> {xns. \<exists>pid \<in> set pids. \<exists>pub. g pid = Some pub \<and> xns \<in> set (pub_Namespaces pub)}"
  by (induction pids arbitrary: acc) (auto split: option.splits)

lemma listPeers_run:
  assumes "dir_run nl fair put remove mfs0 es s" "map_order ord" "map_order nord" "net_lib_ok nl"
  shows "set (listPeers nl ord ns (ds_dir s)) = nl_Pretty nl ` {pid. \<exists>rec. registrations es pid = Some rec \<and>
      (ns = [] \<or> ns = ''*'' \<or> (\<exists>pub xns. pr_publisher rec = Some pub \<and> xns \<in> set (pub_Namespaces pub) \<and> rule_allows ns xns))} \<and>
    distinct (listPeers nl ord ns (ds_dir s)) \<and>
    set (listNamespaces ord nord (ds_dir s)) =
      {xns. \<exists>pid rec pub. registrations es pid = Some rec \<and> pr_publisher rec = Some pub \<and> xns \<in> set (pub_Namespaces pub)}"
proof (intro conjI)
  let ?d = "ds_dir s"
  note t = dir_run_table [OF assms(1)]
  then have dist: "distinct (map fst (dir_peers ?d))" and m: "map_of (dir_peers ?d) = registrations es"
    by (simp_all add: table_ok_def)
  have dom: "pid \<in> set (ord (map fst (dir_peers ?d))) \<longleftrightarrow> registrations es pid \<noteq> None" for pid
    using map_order_set [OF assms(2)] m by (metis dom_map_of_conv_image_fst domIff list.set_map)
  have filter_set: "set (listPeersFilter nl ord f ?d) = nl_Pretty nl ` {pid. \<exists>rec. registrations es pid = Some rec \<and> f rec}" for f
    using dom m by (auto simp: listPeersFilter_def)
  have filter_distinct: "distinct (listPeersFilter nl ord f ?d)" for f
    unfolding listPeersFilter_def
    using net_lib_inj [OF assms(4)] map_order_distinct [OF assms(2) dist] by (auto simp: distinct_map intro: inj_onI)
  have pub: "publishes f rec \<longleftrightarrow> (\<exists>pub xns. pr_publisher rec = Some pub \<and> xns \<in> set (pub_Namespaces pub) \<and> f xns)" for f rec
    by (auto simp: publishes_def list_ex_iff split: option.split)
  show "set (listPeers nl ord ns ?d) = nl_Pretty nl ` {pid. \<exists>rec. registrations es pid = Some rec \<and>
      (ns = [] \<or> ns = ''*'' \<or> (\<exists>pub xns. pr_publisher rec = Some pub \<and> xns \<in> set (pub_Namespaces pub) \<and> rule_allows ns xns))}"
    unfolding listPeers_def filter_set if_distrib [of set] rule_allows_code
    by (auto simp: pub)
  show "distinct (listPeers nl ord ns ?d)" by (simp add: listPeers_def filter_distinct)
  show "set (listNamespaces ord nord ?d) =
      {xns. \<exists>pid rec pub. registrations es pid = Some rec \<and> pr_publisher rec = Some pub \<and> xns \<in> set (pub_Namespaces pub)}"
  proof -
    have "(\<exists>pid \<in> set (ord (map fst (dir_peers ?d))). \<exists>pub. pr_publisher (the (registrations es pid)) = Some pub \<and> xns \<in> set (pub_Namespaces pub)) \<longleftrightarrow>
        (\<exists>pid rec pub. registrations es pid = Some rec \<and> pr_publisher rec = Some pub \<and> xns \<in> set (pub_Namespaces pub))" for xns
      unfolding Bex_def dom by force
    then show ?thesis by (simp add: listNamespaces_def map_order_set [OF assms(3)] collect_namespaces m)
  qed
qed

text \<open>The lists of the directory: the peers of a namespace pattern are exactly the registered ones that publish a namespace the
  pattern allows (all of them for the empty pattern and the star), each once; the namespaces are exactly
  those the registered peers publish.\<close>

theorem directory_lists:
  assumes "dir_run nl fair put remove mfs0 es s" "map_order ord" "map_order nord" "net_lib_ok nl"
  shows "set (listPeers nl ord ns (ds_dir s)) = nl_Pretty nl ` {pid. \<exists>rec. registrations es pid = Some rec \<and>
      (ns = [] \<or> ns = ''*'' \<or> (\<exists>pub xns. pr_publisher rec = Some pub \<and> xns \<in> set (pub_Namespaces pub) \<and> rule_allows ns xns))} \<and>
    distinct (listPeers nl ord ns (ds_dir s)) \<and>
    set (listNamespaces ord nord (ds_dir s)) =
      {xns. \<exists>pid rec pub. registrations es pid = Some rec \<and> pr_publisher rec = Some pub \<and> xns \<in> set (pub_Namespaces pub)}"
  using listPeers_run [OF assms] .

text \<open>A run for the witnesses: a peer opens a stream and registers with a manifest.\<close>

definition sample_reg :: "(nat, string) PeerRecord" where
  "sample_reg = \<lparr>pr_peer = \<lparr>pi_ID = 7, pi_Addrs = [''ip4/1.2.3.4/tcp/9001'']\<rparr>,
     pr_publisher = Some \<lparr>pub_Id = ''P'', pub_Namespaces = [''images.dpla'', ''museums'']\<rparr>\<rparr>"

definition sample_dir :: "(nat, string, (nat, string) manifest_store) dir_state" where
  "sample_dir = \<lparr>ds_dir = register_round (put_alone sample_ml (\<lambda>_. sample_providers)) 7
       (sample_reg, [sample_manifest ''keybase:vyzo'' ''Qabc'']) \<lparr>dir_peers = [], dir_mfs = NewManifestStore\<rparr>, ds_open = [(3, 7)]\<rparr>"

lemma sample_dir_run:
  "dir_run text_lib (\<lambda>env. \<forall>x. same_hashes (env x) sample_providers) (put_alone sample_ml) mfs_Remove NewManifestStore
     [Opened 3 7, Registered 3 7 sample_reg [sample_manifest ''keybase:vyzo'' ''Qabc'']] sample_dir"
proof -
  let ?run = "dir_run text_lib (\<lambda>env. \<forall>x. same_hashes (env x) sample_providers) (put_alone sample_ml) mfs_Remove NewManifestStore"
  let ?msg = "Ok \<lparr>rp_Info = Some (PBFromPeerInfo text_lib (pr_peer sample_reg)), rp_Publisher = pr_publisher sample_reg,
    rp_Manifest = [sample_manifest ''keybase:vyzo'' ''Qabc'']\<rparr>"
  have read: "register_read text_lib 7 ?msg = Some (sample_reg, [sample_manifest ''keybase:vyzo'' ''Qabc''])"
    by (simp add: register_read_def PBToPeerInfo_PBFromPeerInfo [OF text_lib_ok] sample_reg_def)
  have "?run [Opened 3 7] \<lparr>ds_dir = \<lparr>dir_peers = [], dir_mfs = NewManifestStore\<rparr>, ds_open = [(3, 7)]\<rparr>"
    using dir_run.step [OF dir_run.start dir_step.open_stream [of 3 _ _ _ _ _ 7]] by simp
  from dir_run.step [OF this dir_step.round [OF _ read, of 3 _ _ "\<lambda>_. sample_providers"]]
  show ?thesis by (simp add: sample_dir_def same_hashes_def)
qed

theorem directory_authentic_witness:
  "lookupPeer 7 (ds_dir sample_dir) = Some \<lparr>pi_ID = 7, pi_Addrs = [''ip4/1.2.3.4/tcp/9001'']\<rparr> \<and>
   store_records (dir_mfs (ds_dir sample_dir)) \<subseteq> Collect (vouched sample_ml sample_providers) \<times> {7}"
  using directory_authentic [OF sample_dir_run, of 7]
  by (auto simp: registrations_def sample_reg_def sample_dir_def)

theorem directory_lists_witness:
  "set (listPeers text_lib rev ''images.*'' (ds_dir sample_dir)) = {nat_str 7} \<and>
   set (listNamespaces rev rev (ds_dir sample_dir)) = {''images.dpla'', ''museums''}"
proof -
  have r: "registrations [Opened 3 7, Registered 3 7 sample_reg [sample_manifest ''keybase:vyzo'' ''Qabc'']] = [7 \<mapsto> sample_reg]"
    by (simp add: registrations_def)
  have "rule_allows ''images.*'' ''images.dpla''" by (simp add: rule_allows_code HasSuffix_def suffix_def HasPrefix_code)
  moreover have "pr_publisher sample_reg = Some \<lparr>pub_Id = ''P'', pub_Namespaces = [''images.dpla'', ''museums'']\<rparr>"
    "nl_Pretty text_lib = nat_str"
    by (simp_all add: sample_reg_def text_lib_def)
  ultimately show ?thesis
    using directory_lists [OF sample_dir_run map_order_rev map_order_rev text_lib_ok, of "''images.*''"]
    unfolding r by (auto split: if_splits)
qed

end
