(* ===== verification/Net.thy ===== *)
theory Net
  imports Push Directory NatConfig
begin

text \<open>
  The network side of a node (\<open>mcnode/net.go\<close>): going offline, online and public, the addresses a node
  announces, registering with directories, and looking up and connecting to peers. The host and the DHT are
  libraries: what their calls return is a parameter.
\<close>

section \<open>State\<close>

text \<open>
  \<open>'h\<close> is a running host. Contexts are numbered; \<open>ns_cancelled\<close> are those that were cancelled. \<open>ns_tasks\<close> are the
  goroutines that were started, with their context: they run until it is cancelled.
\<close>

datatype 'd net_task = TRegister 'd | TProvide

record ('p, 'a, 'h) net_state =
  ns_status :: node_status
  ns_host :: "'h option"
  ns_dht :: bool
  ns_ping :: bool
  ns_ctx :: nat
  ns_next :: nat
  ns_cancelled :: "nat set"
  ns_tasks :: "(nat \<times> ('p, 'a) peer_info net_task) list"
  ns_natCfg :: "'a NATConfig"
  ns_dir :: "('p, 'a) peer_info list"

text \<open>The outcomes of \<open>dht.Close\<close>, which is only logged, and of \<open>host.Close\<close>.\<close>

definition goOffline :: "unit outcome \<Rightarrow> ('p, 'a, 'h) net_state \<Rightarrow> unit outcome \<times> ('p, 'a, 'h) net_state" where
  "goOffline closed s =
     (if ns_status s = StatusPublic \<or> ns_status s = StatusOnline
      then (closed, s\<lparr>ns_cancelled := insert (ns_ctx s) (ns_cancelled s), ns_dht := False, ns_host := None, ns_ping := False,
              ns_status := StatusOffline, ns_natCfg := NATConfig_Clear (ns_natCfg s)\<rparr>)
      else (Ok (), s))"

text \<open>\<open>host\<close> is the outcome of \<open>NewHost\<close>, given whether it is to map ports.\<close>

definition goOnlineImpl :: "(bool \<Rightarrow> 'h outcome) \<Rightarrow> ('p, 'a, 'h) net_state \<Rightarrow> unit outcome \<times> ('p, 'a, 'h) net_state" where
  "goOnlineImpl host s =
     (let ctx = ns_next s; s' = s\<lparr>ns_next := Suc ctx\<rparr> in
      case host (nc_Opt (ns_natCfg s) = NATConfigAuto) of
        Ok h \<Rightarrow> (Ok (), s'\<lparr>ns_host := Some h, ns_ctx := ctx, ns_ping := True, ns_dht := True\<rparr>)
      | Err e \<Rightarrow> (Err e, s'\<lparr>ns_cancelled := insert ctx (ns_cancelled s)\<rparr>)
      | Panic p \<Rightarrow> (Panic p, s'))"

definition goOnline :: "(bool \<Rightarrow> 'h outcome) \<Rightarrow> ('p, 'a, 'h) net_state \<Rightarrow> unit outcome \<times> ('p, 'a, 'h) net_state" where
  "goOnline host s =
     (if ns_status s = StatusOffline
      then (case goOnlineImpl host s of
              (Ok u, s') \<Rightarrow> (Ok (), s'\<lparr>ns_status := StatusOnline\<rparr>)
            | (r, s') \<Rightarrow> (r, s'))
      else (Ok (), s))"

definition startPublic :: "('p, 'a, 'h) net_state \<Rightarrow> ('p, 'a, 'h) net_state" where
  "startPublic s =
     s\<lparr>ns_tasks := ns_tasks s @ map (\<lambda>dir. (ns_ctx s, TRegister dir)) (ns_dir s) @ [(ns_ctx s, TProvide)],
       ns_status := StatusPublic\<rparr>"

definition goPublic :: "(bool \<Rightarrow> 'h outcome) \<Rightarrow> ('p, 'a, 'h) net_state \<Rightarrow> unit outcome \<times> ('p, 'a, 'h) net_state" where
  "goPublic host s =
     (if length (ns_dir s) = 0 then (Err NoDirectory, s)
      else (case ns_status s of
              StatusOffline \<Rightarrow>
                (case goOnlineImpl host s of
                   (Ok u, s') \<Rightarrow> (Ok (), startPublic s')
                 | (r, s') \<Rightarrow> (r, s'))
            | StatusOnline \<Rightarrow> (Ok (), startPublic s)
            | StatusPublic \<Rightarrow> (Ok (), s)))"

section \<open>The status machine\<close>

definition fresh_net :: "'a NATConfig \<Rightarrow> ('p, 'a) peer_info list \<Rightarrow> ('p, 'a, 'h) net_state" where
  "fresh_net cfg dir = \<lparr>ns_status = StatusOffline, ns_host = None, ns_dht = False, ns_ping = False, ns_ctx = 0, ns_next = 1,
     ns_cancelled = {0}, ns_tasks = [], ns_natCfg = cfg, ns_dir = dir\<rparr>"

text \<open>The requests a node serves, in any order, with a change of the directories and of the NAT configuration at any time.\<close>

inductive net_step :: "('p, 'a, 'h) net_state \<Rightarrow> ('p, 'a, 'h) net_state \<Rightarrow> bool" where
  offline: "goOffline closed s = (r, s') \<Longrightarrow> net_step s s'"
| online: "goOnline host s = (r, s') \<Longrightarrow> (\<forall>m. r \<noteq> Panic m) \<Longrightarrow> net_step s s'"
| public: "goPublic host s = (r, s') \<Longrightarrow> (\<forall>m. r \<noteq> Panic m) \<Longrightarrow> net_step s s'"
| set_dir: "net_step s (s\<lparr>ns_dir := dirs\<rparr>)"
| set_nat: "net_step s (s\<lparr>ns_natCfg := cfg\<rparr>)"

inductive net_reach :: "('p, 'a, 'h) net_state \<Rightarrow> bool" where
  start: "net_reach (fresh_net cfg dir)"
| step: "net_reach s \<Longrightarrow> net_step s s' \<Longrightarrow> net_reach s'"

text \<open>The goroutines that still run.\<close>

definition live_tasks :: "('p, 'a, 'h) net_state \<Rightarrow> (nat \<times> ('p, 'a) peer_info net_task) list" where
  "live_tasks s = filter (\<lambda>(ctx, t). ctx \<notin> ns_cancelled s) (ns_tasks s)"

definition net_ok :: "('p, 'a, 'h) net_state \<Rightarrow> bool" where
  "net_ok s \<longleftrightarrow>
     (ns_status s = StatusOffline \<longleftrightarrow> ns_host s = None) \<and>
     (ns_dht s \<longleftrightarrow> ns_host s \<noteq> None) \<and> (ns_ping s \<longleftrightarrow> ns_host s \<noteq> None) \<and>
     (ns_ctx s \<in> ns_cancelled s \<longleftrightarrow> ns_status s = StatusOffline) \<and>
     ns_ctx s < ns_next s \<and> (\<forall>c \<in> ns_cancelled s. c < ns_next s) \<and> (\<forall>(c, t) \<in> set (ns_tasks s). c < ns_next s) \<and>
     (ns_status s \<noteq> StatusPublic \<longrightarrow> live_tasks s = []) \<and>
     (ns_status s = StatusPublic \<longrightarrow>
        (\<exists>dirs. dirs \<noteq> [] \<and> live_tasks s = map (\<lambda>dir. (ns_ctx s, TRegister dir)) dirs @ [(ns_ctx s, TProvide)]))"

lemma net_ok_fresh: "net_ok (fresh_net cfg dir)"
  by (simp add: net_ok_def fresh_net_def live_tasks_def)

lemma goOffline_cases:
  assumes "goOffline closed s = (r, s')"
  shows "ns_status s' = StatusOffline" "ns_status s = StatusOffline \<Longrightarrow> s' = s \<and> r = Ok ()"
    "ns_status s \<noteq> StatusOffline \<Longrightarrow> r = closed \<and> s' = s\<lparr>ns_cancelled := insert (ns_ctx s) (ns_cancelled s), ns_dht := False,
       ns_host := None, ns_ping := False, ns_status := StatusOffline, ns_natCfg := NATConfig_Clear (ns_natCfg s)\<rparr>"
  using assms by (cases "ns_status s"; auto simp: goOffline_def)+

lemma net_ok_offline: "net_ok s \<Longrightarrow> goOffline closed s = (r, s') \<Longrightarrow> net_ok s'"
proof -
  assume ok: "net_ok s" and off: "goOffline closed s = (r, s')"
  show "net_ok s'"
  proof (cases "ns_status s = StatusOffline")
    case True
    with ok goOffline_cases(2) [OF off] show ?thesis by simp
  next
    case False
    have "live_tasks s' = filter (\<lambda>(c, t). c \<noteq> ns_ctx s) (live_tasks s)"
      using goOffline_cases(3) [OF off False] by (auto simp: live_tasks_def intro: filter_cong)
    also have "\<dots> = []" using ok by (cases "ns_status s") (auto simp: net_ok_def filter_empty_conv)
    finally show ?thesis using goOffline_cases(3) [OF off False] ok by (simp add: net_ok_def)
  qed
qed

lemma goOnlineImpl_Ok:
  assumes "goOnlineImpl host s = (Ok u, s')" "net_ok s" "ns_status s = StatusOffline"
  shows "\<exists>h. s' = s\<lparr>ns_next := Suc (ns_next s), ns_host := Some h, ns_ctx := ns_next s, ns_ping := True, ns_dht := True\<rparr>"
    "live_tasks s' = []" "ns_next s \<notin> ns_cancelled s"
proof -
  from assms(1) obtain h where h: "s' = s\<lparr>ns_next := Suc (ns_next s), ns_host := Some h, ns_ctx := ns_next s, ns_ping := True, ns_dht := True\<rparr>"
    by (auto simp: goOnlineImpl_def Let_def split: outcome.splits)
  then show "\<exists>h. s' = s\<lparr>ns_next := Suc (ns_next s), ns_host := Some h, ns_ctx := ns_next s, ns_ping := True, ns_dht := True\<rparr>" by blast
  from assms(2,3) have "live_tasks s = []" "ns_next s \<notin> ns_cancelled s" by (auto simp: net_ok_def)
  with h show "live_tasks s' = []" "ns_next s \<notin> ns_cancelled s" by (simp_all add: live_tasks_def)
qed

lemma goOnlineImpl_Err: "goOnlineImpl host s = (Err e, s') \<Longrightarrow> net_ok s \<Longrightarrow> ns_status s = StatusOffline \<Longrightarrow> net_ok s'"
  by (auto simp: goOnlineImpl_def Let_def net_ok_def live_tasks_def filter_empty_conv case_prod_beta less_Suc_eq split: outcome.splits) force+

text \<open>A node that is up with no live goroutine can be made online or public.\<close>

lemma net_ok_up:
  assumes "net_ok s" "ns_status s = StatusOffline" "goOnlineImpl host s = (Ok u, s1)"
  shows "net_ok (s1\<lparr>ns_status := StatusOnline\<rparr>)"
  using goOnlineImpl_Ok [OF assms(3,1,2)] assms(1,2) by (auto simp: net_ok_def live_tasks_def less_Suc_eq)

lemma net_ok_startPublic:
  assumes "net_ok (s\<lparr>ns_status := StatusOnline\<rparr>)" "ns_dir s \<noteq> []"
  shows "net_ok (startPublic s)"
proof -
  have "live_tasks (startPublic s) = live_tasks (s\<lparr>ns_status := StatusOnline\<rparr>) @ map (\<lambda>dir. (ns_ctx s, TRegister dir)) (ns_dir s) @ [(ns_ctx s, TProvide)]"
    using assms(1) by (auto simp: startPublic_def live_tasks_def net_ok_def intro!: filter_True)
  with assms show ?thesis by (auto simp: net_ok_def startPublic_def)
qed

lemma net_ok_online: "net_ok s \<Longrightarrow> goOnline host s = (r, s') \<Longrightarrow> (\<forall>m. r \<noteq> Panic m) \<Longrightarrow> net_ok s'"
  using net_ok_up [of s host] goOnlineImpl_Err [of host s]
  by (auto simp: goOnline_def split: if_splits prod.splits outcome.splits)

lemma net_ok_public: "net_ok s \<Longrightarrow> goPublic host s = (r, s') \<Longrightarrow> (\<forall>m. r \<noteq> Panic m) \<Longrightarrow> net_ok s'"
proof -
  assume ok: "net_ok s" and g: "goPublic host s = (r, s')" "\<forall>m. r \<noteq> Panic m"
  show "net_ok s'"
  proof (cases "ns_dir s = [] \<or> ns_status s = StatusPublic")
    case True
    with ok g show ?thesis by (auto simp: goPublic_def split: if_splits)
  next
    case False
    show ?thesis
    proof (cases "ns_status s")
      case StatusOnline
      then have "s\<lparr>ns_status := StatusOnline\<rparr> = s" by simp
      with net_ok_startPublic [of s] ok False g StatusOnline show ?thesis by (simp add: goPublic_def)
    next
      case StatusOffline
      obtain r1 s1 where i: "goOnlineImpl host s = (r1, s1)" by fastforce
      show ?thesis
      proof (cases r1)
        case (Ok u)
        with i goOnlineImpl_Ok(1) [of host s u s1] ok StatusOffline have "ns_dir s1 = ns_dir s" by auto
        with net_ok_startPublic [of s1] net_ok_up [OF ok StatusOffline, of host u s1] i Ok False g StatusOffline
        show ?thesis by (simp add: goPublic_def)
      next
        case (Err e)
        with goOnlineImpl_Err [of host s e s1] i ok StatusOffline False g show ?thesis by (simp add: goPublic_def)
      qed (use i False g StatusOffline in \<open>auto simp: goPublic_def\<close>)
    qed (use False in simp)
  qed
qed

lemma net_ok_conf: "net_ok s \<Longrightarrow> net_ok (s\<lparr>ns_dir := dirs\<rparr>)" "net_ok s \<Longrightarrow> net_ok (s\<lparr>ns_natCfg := cfg\<rparr>)"
  by (simp_all add: net_ok_def live_tasks_def)

lemma net_reach_ok: "net_reach s \<Longrightarrow> net_ok s"
proof (induction rule: net_reach.induct)
  case (step s s')
  from step(2,3) show ?case
    by cases (auto intro: net_ok_offline net_ok_online net_ok_public net_ok_conf)
qed (rule net_ok_fresh)

text \<open>C18: The network status is what it says: in every state the requests can bring about, a node has a host, a DHT and a ping
  service exactly when it is not offline; goroutines run only while it is public, one for every directory
  it had when it became public and one for the DHT, all under the present context, and none survives going offline.
  Going offline, online or public has that effect, and a public node that goes online stays public.\<close>

theorem net_status_sound:
  assumes "net_reach s"
  shows "(ns_status s \<noteq> StatusOffline \<longleftrightarrow> ns_host s \<noteq> None) \<and> (ns_dht s \<longleftrightarrow> ns_host s \<noteq> None) \<and> (ns_ping s \<longleftrightarrow> ns_host s \<noteq> None) \<and>
    (ns_status s \<noteq> StatusPublic \<longrightarrow> live_tasks s = []) \<and>
    (ns_status s = StatusPublic \<longrightarrow>
       (\<exists>dirs. dirs \<noteq> [] \<and> live_tasks s = map (\<lambda>dir. (ns_ctx s, TRegister dir)) dirs @ [(ns_ctx s, TProvide)])) \<and>
    live_tasks (snd (goOffline closed s)) = [] \<and> ns_status (snd (goOffline closed s)) = StatusOffline \<and>
    (\<forall>s'. goOnline host s = (Ok (), s') \<longrightarrow>
       ns_status s' = (if ns_status s = StatusPublic then StatusPublic else StatusOnline)) \<and>
    (\<forall>s'. goPublic host s = (Ok (), s') \<longrightarrow> ns_status s' = StatusPublic \<and>
       (ns_status s \<noteq> StatusPublic \<longrightarrow> live_tasks s' = map (\<lambda>dir. (ns_ctx s', TRegister dir)) (ns_dir s) @ [(ns_ctx s', TProvide)]))"
proof (intro conjI allI impI)
  note ok = net_reach_ok [OF assms]
  then show "ns_status s \<noteq> StatusOffline \<longleftrightarrow> ns_host s \<noteq> None" "ns_dht s \<longleftrightarrow> ns_host s \<noteq> None" "ns_ping s \<longleftrightarrow> ns_host s \<noteq> None"
    by (simp_all add: net_ok_def)
  show "live_tasks s = []" if "ns_status s \<noteq> StatusPublic" using that ok by (simp add: net_ok_def)
  show "\<exists>dirs. dirs \<noteq> [] \<and> live_tasks s = map (\<lambda>dir. (ns_ctx s, TRegister dir)) dirs @ [(ns_ctx s, TProvide)]"
    if "ns_status s = StatusPublic" using that ok by (simp add: net_ok_def)
  obtain r s1 where off: "goOffline closed s = (r, s1)" by fastforce
  then show "live_tasks (snd (goOffline closed s)) = []" "ns_status (snd (goOffline closed s)) = StatusOffline"
    using net_ok_offline [OF ok off] goOffline_cases(1) [OF off] by (simp_all add: net_ok_def)
  show "ns_status s' = (if ns_status s = StatusPublic then StatusPublic else StatusOnline)" if "goOnline host s = (Ok (), s')" for s'
    using that by (cases "ns_status s") (auto simp: goOnline_def split: prod.splits outcome.splits)
  fix s' assume pub: "goPublic host s = (Ok (), s')"
  show "ns_status s' = StatusPublic"
    using pub by (cases "ns_status s") (auto simp: goPublic_def startPublic_def split: if_splits prod.splits outcome.splits)
  assume "ns_status s \<noteq> StatusPublic"
  with pub obtain s1 where s1: "s' = startPublic s1" "live_tasks s1 = []" "ns_dir s1 = ns_dir s" "ns_ctx s1 \<notin> ns_cancelled s1"
  proof (cases "ns_status s")
    case StatusOnline
    with pub ok that [of s] show thesis by (auto simp: goPublic_def net_ok_def split: if_splits)
  next
    case StatusOffline
    with pub obtain u s1 where i: "goOnlineImpl host s = (Ok u, s1)" "s' = startPublic s1"
      by (auto simp: goPublic_def split: if_splits prod.splits outcome.splits)
    from goOnlineImpl_Ok [OF i(1) ok StatusOffline] that [of s1] i(2) show thesis by auto
  qed simp
  then show "live_tasks s' = map (\<lambda>dir. (ns_ctx s', TRegister dir)) (ns_dir s) @ [(ns_ctx s', TProvide)]"
    by (auto simp: startPublic_def live_tasks_def intro!: filter_True)
qed

text \<open>A node that goes public, offline and online again.\<close>

definition sample_net :: "(nat, string, string) net_state" where
  "sample_net = snd (goPublic (\<lambda>nat. Ok ''host'')
     (fresh_net \<lparr>nc_Opt = NATConfigAuto, nc_spec = [], nc_addr = None\<rparr> [\<lparr>pi_ID = 4, pi_Addrs = [''ip4/5.6.7.8/tcp/9000'']\<rparr>]))"

lemma sample_net_reach: "net_reach sample_net"
proof -
  let ?s = "fresh_net \<lparr>nc_Opt = NATConfigAuto, nc_spec = [], nc_addr = None\<rparr> [\<lparr>pi_ID = 4, pi_Addrs = [''ip4/5.6.7.8/tcp/9000'']\<rparr>] :: (nat, string, string) net_state"
  have "goPublic (\<lambda>nat. Ok ''host'') ?s = (Ok (), sample_net)"
    by (simp add: sample_net_def goPublic_def fresh_net_def goOnlineImpl_def Let_def)
  from net_reach.step [OF net_reach.start net_step.public [OF this]] show ?thesis by simp
qed

theorem net_status_sound_witness:
  "ns_host sample_net \<noteq> None \<and>
   live_tasks sample_net = [(1, TRegister \<lparr>pi_ID = 4, pi_Addrs = [''ip4/5.6.7.8/tcp/9000'']\<rparr>), (1, TProvide)] \<and>
   live_tasks (snd (goOffline (Ok ()) sample_net)) = []"
proof -
  have "ns_status sample_net = StatusPublic" by code_simp
  moreover have "live_tasks sample_net = [(1, TRegister \<lparr>pi_ID = 4, pi_Addrs = [''ip4/5.6.7.8/tcp/9000'']\<rparr>), (1, TProvide)]" by code_simp
  ultimately show ?thesis using net_status_sound [OF sample_net_reach, of "Ok ()" "\<lambda>nat. Ok ''host''"] by simp
qed

end
