(* ===== verification/Peers.thy ===== *)
theory Peers
  imports Net
begin

text \<open>
  Reaching other peers (\<open>mcnode/net.go\<close>): the addresses a node announces to a directory, the
  registration it sends, looking a peer up in the directories and the DHT at once, connecting to it, and
  collecting lists from several directories. The operations of the host are parameters, in the record
  \<open>host_lib\<close>; results of concurrent lookups are taken in the order in which they arrive.
\<close>

record ('p, 'a, 'h) host_lib =
  hl_Addrs :: "'h \<Rightarrow> 'a list"
  hl_connected :: "'h \<Rightarrow> 'p \<Rightarrow> bool"
  hl_peer_addrs :: "'h \<Rightarrow> 'p \<Rightarrow> 'a list"
  hl_AddAddrs :: "'h \<Rightarrow> 'p \<Rightarrow> 'a list \<Rightarrow> 'h"
  hl_Connect :: "'h \<Rightarrow> ('p, 'a) peer_info \<Rightarrow> unit outcome"
  hl_NewStream :: "'h \<Rightarrow> 'p \<Rightarrow> string \<Rightarrow> unit outcome"

definition the_host :: "('p, 'a, 'h) net_state \<Rightarrow> 'h outcome" where
  "the_host s = (case ns_host s of Some h \<Rightarrow> Ok h | None \<Rightarrow> Panic ''nil host'')"

section \<open>Addresses\<close>

text \<open>An error of the public address is only logged, and no address results.\<close>

definition natAddr ::
  "('p, 'a) net_lib \<Rightarrow> http \<Rightarrow> string outcome \<Rightarrow> ('p, 'a, 'h) net_state \<Rightarrow> 'a option outcome \<times> ('p, 'a, 'h) net_state" where
  "natAddr nl get tcp s =
     (if nc_Opt (ns_natCfg s) \<noteq> NATConfigManual then (Ok None, s)
      else (case PublicAddr nl get tcp (ns_natCfg s) of
              (Ok a, cfg) \<Rightarrow> (Ok (Some a), s\<lparr>ns_natCfg := cfg\<rparr>)
            | (Err e, cfg) \<Rightarrow> (Ok None, s\<lparr>ns_natCfg := cfg\<rparr>)
            | (Panic p, cfg) \<Rightarrow> (Panic p, s\<lparr>ns_natCfg := cfg\<rparr>)))"

definition publicAddrs ::
  "('p, 'a) net_lib \<Rightarrow> ('p, 'a, 'h) host_lib \<Rightarrow> http \<Rightarrow> string outcome \<Rightarrow> ('p, 'a) peer_info \<Rightarrow> ('p, 'a, 'h) net_state \<Rightarrow>
   'a list outcome \<times> ('p, 'a, 'h) net_state" where
  "publicAddrs nl hl get tcp dir s =
     (if ns_status s = StatusOffline then (Ok [], s)
      else (case pi_Addrs dir of
              [] \<Rightarrow> (Panic ''index out of range'', s)
            | diraddr # _ \<Rightarrow>
                (if IsLocalhostAddr nl diraddr
                 then (obind (the_host s) (\<lambda>h. Ok (FilterAddrs (hl_Addrs hl h) (IsLocalhostAddr nl))), s)
                 else if IsPrivateAddr nl diraddr
                 then (obind (the_host s) (\<lambda>h. Ok (FilterAddrs (hl_Addrs hl h) (IsRoutableAddr nl))), s)
                 else if nc_Opt (ns_natCfg s) = NATConfigManual
                 then (case natAddr nl get tcp s of
                         (Ok (Some addr), s') \<Rightarrow> (Ok [addr], s')
                       | (Ok None, s') \<Rightarrow> (Ok [], s')
                       | (Err e, s') \<Rightarrow> (Err e, s')
                       | (Panic p, s') \<Rightarrow> (Panic p, s'))
                 else (obind (the_host s) (\<lambda>h. Ok (FilterAddrs (hl_Addrs hl h) (IsPublicAddr nl))), s))))"

definition netAddrs ::
  "('p, 'a) net_lib \<Rightarrow> ('p, 'a, 'h) host_lib \<Rightarrow> http \<Rightarrow> string outcome \<Rightarrow> ('p, 'a, 'h) net_state \<Rightarrow>
   'a list outcome \<times> ('p, 'a, 'h) net_state" where
  "netAddrs nl hl get tcp s =
     (if ns_status s = StatusOffline then (Ok [], s)
      else (case the_host s of
              Ok h \<Rightarrow>
                (case natAddr nl get tcp s of
                   (Ok (Some addr), s') \<Rightarrow> (Ok (FilterAddrs (hl_Addrs hl h) (IsRoutableAddr nl) @ [addr]), s')
                 | (Ok None, s') \<Rightarrow> (Ok (FilterAddrs (hl_Addrs hl h) (IsRoutableAddr nl)), s')
                 | (Err e, s') \<Rightarrow> (Err e, s')
                 | (Panic p, s') \<Rightarrow> (Panic p, s'))
            | Err e \<Rightarrow> (Err e, s)
            | Panic p \<Rightarrow> (Panic p, s)))"

definition netPeerAddrs :: "('p, 'a, 'h) host_lib \<Rightarrow> 'p \<Rightarrow> ('p, 'a, 'h) net_state \<Rightarrow> 'a list outcome" where
  "netPeerAddrs hl pid s =
     (if ns_status s = StatusOffline then Ok [] else obind (the_host s) (\<lambda>h. Ok (hl_peer_addrs hl h pid)))"

section \<open>Registering\<close>

text \<open>\<open>nsQuery\<close> is parsed when the program starts.\<close>

definition nsQuery :: "Query outcome" where
  "nsQuery = ParseQuery ''SELECT namespace FROM *''"

definition publicNamespaces :: "engine \<Rightarrow> (string \<Rightarrow> statement outcome) \<Rightarrow> sqldb \<Rightarrow> string list outcome" where
  "publicNamespaces eng unmarshal db =
     (case obind nsQuery (\<lambda>q. db_Query eng unmarshal q db) of
        Ok res \<Rightarrow> omap as_string res
      | Err e \<Rightarrow> Ok []
      | Panic p \<Rightarrow> Panic p)"

text \<open>
  One round of the registration loop: the message that is sent, or \<open>None\<close> when there is no public
  address. \<open>node\<close> is the id of the node, \<open>pub\<close> that of its publisher.
\<close>

definition registerRound ::
  "('p, 'a) net_lib \<Rightarrow> 'p \<Rightarrow> string \<Rightarrow> 'a list \<Rightarrow> string list \<Rightarrow> manifest list \<Rightarrow> RegisterPeer option" where
  "registerRound nl node pub addrs nss mfs =
     (if length addrs > 0
      then Some \<lparr>rp_Info = Some (PBFromPeerInfo nl \<lparr>pi_ID = node, pi_Addrs = addrs\<rparr>),
                 rp_Publisher = Some \<lparr>pub_Id = pub, pub_Namespaces = nss\<rparr>, rp_Manifest = mfs\<rparr>
      else None)"

section \<open>Lookups\<close>

text \<open>What the loop of a lookup receives: a result of one of its workers, or the end of its context.\<close>

datatype 'r arrival = Arrived "'r outcome" | CtxDone

fun lookupLoop :: "nat \<Rightarrow> nat \<Rightarrow> ('p, 'a) peer_info arrival list \<Rightarrow> ('p, 'a) peer_info outcome" where
  "lookupLoop workers errcount (Arrived (Ok res) # as) = Ok res"
| "lookupLoop workers errcount (Arrived (Err e) # as) =
     (if e \<noteq> UnknownPeer then lookupLoop workers (errcount + 1) as else lookupLoop workers errcount as)"
| "lookupLoop workers errcount (Arrived (Panic p) # as) = Panic p"
| "lookupLoop workers errcount (CtxDone # as) = (if errcount < workers then Err UnknownPeer else Err LookupError)"
| "lookupLoop workers errcount [] = (if errcount < workers then Err UnknownPeer else Err LookupError)"

definition doLookupImpl ::
  "('p, 'a) peer_info arrival list \<Rightarrow> ('p, 'a, 'h) net_state \<Rightarrow> ('p, 'a) peer_info outcome" where
  "doLookupImpl as s =
     (if ns_status s = StatusOffline then Err NodeOffline
      else (let workers = length (ns_dir s) + 1 in lookupLoop workers 0 (take workers as)))"

definition doLookup ::
  "('p, 'a, 'h) host_lib \<Rightarrow> ('p, 'a) peer_info arrival list \<Rightarrow> 'p \<Rightarrow> ('p, 'a, 'h) net_state \<Rightarrow>
   ('p, 'a) peer_info outcome \<times> ('p, 'a, 'h) net_state" where
  "doLookup hl as pid s =
     (case doLookupImpl as s of
        Ok pinfo \<Rightarrow>
          (case the_host s of
             Ok h \<Rightarrow> (Ok pinfo, s\<lparr>ns_host := Some (hl_AddAddrs hl h pid (pi_Addrs pinfo))\<rparr>)
           | Err e \<Rightarrow> (Err e, s)
           | Panic p \<Rightarrow> (Panic p, s))
      | r \<Rightarrow> (r, s))"

text \<open>One directory's answer: the stream, the request, the response.\<close>

definition doDirConnect ::
  "('p, 'a, 'h) host_lib \<Rightarrow> ('p, 'a) peer_info \<Rightarrow> string \<Rightarrow> ('p, 'a, 'h) net_state \<Rightarrow> unit outcome" where
  "doDirConnect hl dir proto s =
     (if ns_status s = StatusOffline then Err NodeOffline
      else obind (the_host s) (\<lambda>h. obind (hl_Connect hl h dir) (\<lambda>_. hl_NewStream hl h (pi_ID dir) proto)))"

definition doDirLookupImpl ::
  "('p, 'a) net_lib \<Rightarrow> ('p, 'a, 'h) host_lib \<Rightarrow> (string \<Rightarrow> unit outcome) \<Rightarrow> (string \<Rightarrow> pb_peer_info option outcome) \<Rightarrow>
   ('p, 'a) peer_info \<Rightarrow> 'p \<Rightarrow> ('p, 'a, 'h) net_state \<Rightarrow> ('p, 'a) peer_info outcome" where
  "doDirLookupImpl nl hl wr rd dir pid s =
     obind (doDirConnect hl dir ''/mediachain/dir/lookup'' s) (\<lambda>_.
     obind (wr (nl_Pretty nl pid)) (\<lambda>_.
     obind (rd (nl_Pretty nl pid)) (\<lambda>peer.
     (case peer of None \<Rightarrow> Err UnknownPeer | Some pbpi \<Rightarrow> PBToPeerInfo nl pbpi))))"

section \<open>Connecting\<close>

definition doConnectPeer ::
  "('p, 'a, 'h) host_lib \<Rightarrow> ('p, 'a) peer_info arrival list \<Rightarrow> 'p \<Rightarrow> ('p, 'a, 'h) net_state \<Rightarrow> unit outcome \<times> ('p, 'a, 'h) net_state" where
  "doConnectPeer hl as pid s =
     (if ns_status s = StatusOffline then (Err NodeOffline, s)
      else (case the_host s of
              Err e \<Rightarrow> (Err e, s)
            | Panic p \<Rightarrow> (Panic p, s)
            | Ok h \<Rightarrow>
                (if hl_connected hl h pid then (Ok (), s)
                 else if length (hl_peer_addrs hl h pid) > 0
                 then (hl_Connect hl h \<lparr>pi_ID = pid, pi_Addrs = hl_peer_addrs hl h pid\<rparr>, s)
                 else (case doLookup hl as pid s of
                         (Ok pinfo, s') \<Rightarrow> (obind (the_host s') (\<lambda>h'. hl_Connect hl h' pinfo), s')
                       | (Err e, s') \<Rightarrow> (Err e, s')
                       | (Panic p, s') \<Rightarrow> (Panic p, s')))))"

definition doConnect ::
  "('p, 'a, 'h) host_lib \<Rightarrow> ('p, 'a) peer_info arrival list \<Rightarrow> 'p \<Rightarrow> string \<Rightarrow> ('p, 'a, 'h) net_state \<Rightarrow> unit outcome \<times> ('p, 'a, 'h) net_state" where
  "doConnect hl as pid proto s =
     (case doConnectPeer hl as pid s of
        (Ok u, s') \<Rightarrow> (obind (the_host s') (\<lambda>h. hl_NewStream hl h pid proto), s')
      | r \<Rightarrow> r)"

section \<open>Lists from several directories\<close>

fun collectLoop :: "nat \<Rightarrow> string list arrival list \<Rightarrow> string list \<Rightarrow> nat \<Rightarrow> (string list \<times> nat \<times> go_error option) outcome" where
  "collectLoop 0 as vals errcount = Ok (vals, errcount, None)"
| "collectLoop (Suc n) [] vals errcount = Ok (vals, errcount, None)"
| "collectLoop (Suc n) (Arrived (Ok res) # as) vals errcount = collectLoop n as (set_adds res vals) errcount"
| "collectLoop (Suc n) (Arrived (Err e) # as) vals errcount = collectLoop n as vals (errcount + 1)"
| "collectLoop (Suc n) (Arrived (Panic p) # as) vals errcount = Panic p"
| "collectLoop (Suc n) (CtxDone # as) vals errcount = Ok (vals, errcount, Some CtxErr)"

text \<open>\<open>proc\<close> asks one directory; \<open>ord\<close> is the order of the iteration over the values.\<close>

definition doDirCollect ::
  "(string list \<Rightarrow> string list) \<Rightarrow> (('p, 'a) peer_info \<Rightarrow> string list outcome) \<Rightarrow> string list arrival list \<Rightarrow>
   ('p, 'a, 'h) net_state \<Rightarrow> string list outcome" where
  "doDirCollect ord proc as s =
     (case ns_dir s of
        [] \<Rightarrow> Err NoDirectory
      | [d] \<Rightarrow> proc d
      | dirs \<Rightarrow>
          obind (collectLoop (length dirs) as [] 0) (\<lambda>(vals, errcount, err).
          if length vals = 0
          then (if errcount < length dirs then (case err of None \<Rightarrow> Ok [] | Some e \<Rightarrow> Err e) else Err DirectoryError)
          else Ok (ord vals)))"

text \<open>
  What the loop receives: the directories in the order in which their answers arrive, each with what asking it gives, and
  \<open>None\<close> where the context ends.
\<close>

definition dir_arrivals :: "('d \<Rightarrow> 'r outcome) \<Rightarrow> 'd option list \<Rightarrow> 'r arrival list" where
  "dir_arrivals proc order = map (\<lambda>x. case x of Some dir \<Rightarrow> Arrived (proc dir) | None \<Rightarrow> CtxDone) order"

section \<open>What is announced\<close>

text \<open>The class of addresses a directory at \<open>d\<close> is told about, when none is configured by hand.\<close>

definition announce_class :: "('p, 'a) net_lib \<Rightarrow> 'a \<Rightarrow> 'a \<Rightarrow> bool" where
  "announce_class nl d =
     (if IsLocalhostAddr nl d then IsLocalhostAddr nl else if IsPrivateAddr nl d then IsRoutableAddr nl else IsPublicAddr nl)"

definition announces_manual :: "('p, 'a) net_lib \<Rightarrow> 'a \<Rightarrow> ('p, 'a, 'h) net_state \<Rightarrow> bool" where
  "announces_manual nl d s = (\<not> IsLocalhostAddr nl d \<and> \<not> IsPrivateAddr nl d \<and> nc_Opt (ns_natCfg s) = NATConfigManual)"

lemma the_host_Ok: "ns_host s = Some h \<Longrightarrow> the_host s = Ok h"
  by (simp add: the_host_def)

lemma natAddr_cases:
  assumes "\<forall>m. fst (PublicAddr nl get tcp (ns_natCfg s)) \<noteq> Panic m" "nc_Opt (ns_natCfg s) = NATConfigManual"
  obtains (none) "natAddr nl get tcp s = (Ok None, s)"
  | (addr) a where "natAddr nl get tcp s = (Ok (Some a), s\<lparr>ns_natCfg := (ns_natCfg s)\<lparr>nc_addr := Some a\<rparr>\<rparr>)"
proof -
  obtain r cfg where pa: "PublicAddr nl get tcp (ns_natCfg s) = (r, cfg)" by fastforce
  note res = PublicAddr_result [of "ns_natCfg s" nl get tcp, unfolded pa addr_result_def]
  show thesis
  proof (cases r)
    case (Ok a)
    with res have "cfg = (ns_natCfg s)\<lparr>nc_addr := Some a\<rparr>" by simp
    with Ok pa assms(2) have "natAddr nl get tcp s = (Ok (Some a), s\<lparr>ns_natCfg := (ns_natCfg s)\<lparr>nc_addr := Some a\<rparr>\<rparr>)"
      by (simp add: natAddr_def)
    then show thesis by (rule addr)
  next
    case (Err e)
    with res have "cfg = ns_natCfg s" by simp
    with Err pa assms(2) have "natAddr nl get tcp s = (Ok None, s)" by (simp add: natAddr_def)
    then show thesis by (rule none)
  qed (use assms(1) pa in simp)
qed

lemma natAddr_known:
  "nc_Opt (ns_natCfg s) = NATConfigManual \<Longrightarrow> nc_addr (ns_natCfg s) = Some a \<Longrightarrow> natAddr nl get tcp s = (Ok (Some a), s)"
  by (cases s) (simp add: natAddr_def PublicAddr_def)

lemma publicAddrs_host:
  assumes "ns_host s = Some h" "ns_status s \<noteq> StatusOffline" "pi_Addrs dir = d # ds" "\<not> announces_manual nl d s"
  shows "publicAddrs nl hl get tcp dir s = (Ok (filter (announce_class nl d) (hl_Addrs hl h)), s)"
  using assms by (auto simp: publicAddrs_def announce_class_def announces_manual_def FilterAddrs_def the_host_Ok)

lemma publicAddrs_manual:
  assumes "ns_status s \<noteq> StatusOffline" "pi_Addrs dir = d # ds" "announces_manual nl d s"
  shows "publicAddrs nl hl get tcp dir s =
    (case natAddr nl get tcp s of
       (Ok (Some addr), s') \<Rightarrow> (Ok [addr], s') | (Ok None, s') \<Rightarrow> (Ok [], s') | (Err e, s') \<Rightarrow> (Err e, s') | (Panic p, s') \<Rightarrow> (Panic p, s'))"
  using assms by (simp add: publicAddrs_def announces_manual_def)

text \<open>The internal networks, by the first octets of an IPv4 address.\<close>

definition internal_ip4 :: "8 word \<Rightarrow> 8 word \<Rightarrow> bool" where
  "internal_ip4 a b \<longleftrightarrow> a = 0 \<or> a = 10 \<or> a = 127 \<or> a = 100 \<and> 64 \<le> b \<and> b < 128 \<or> a = 169 \<and> b = 254 \<or>
     a = 172 \<and> 16 \<le> b \<and> b < 32 \<or> a = 192 \<and> b = 168"

lemma IsPublicAddr_external:
  "IsPublicAddr nl addr \<Longrightarrow> nl_IP4 nl addr = Ok ip \<Longrightarrow> ParseIP ip = Some [a, b, c, d] \<Longrightarrow> \<not> internal_ip4 a b"
  using address_classes [of nl addr ip a b c d addr] by (auto simp: internal_ip4_def)


text \<open>A host with a loopback, a private and a public address, and a node whose public address is configured by hand.\<close>

definition sample_hl :: "(nat, string, string) host_lib" where
  "sample_hl = \<lparr>hl_Addrs = (\<lambda>h. [''ip4/127.0.0.1/tcp/1'', ''ip4/10.0.0.7/tcp/1'', ''ip4/8.8.4.4/tcp/1'']),
     hl_connected = (\<lambda>h p. False), hl_peer_addrs = (\<lambda>h p. []), hl_AddAddrs = (\<lambda>h p as. h),
     hl_Connect = (\<lambda>h pi. Ok ()), hl_NewStream = (\<lambda>h p proto. Ok ())\<rparr>"

definition manual_net :: "(nat, string, string) net_state" where
  "manual_net = sample_net\<lparr>ns_natCfg := \<lparr>nc_Opt = NATConfigManual, nc_spec = ''8.7.6.5:9001'', nc_addr = None\<rparr>\<rparr>"

lemma manual_net_reach: "net_reach manual_net"
  unfolding manual_net_def by (rule net_reach.step [OF sample_net_reach net_step.set_nat])

definition no_http :: http where
  "no_http = (\<lambda>url. Err IfconfigError)"

definition dir_at :: "string \<Rightarrow> (nat, string) peer_info" where
  "dir_at a = \<lparr>pi_ID = 4, pi_Addrs = [a]\<rparr>"


section \<open>Registering and looking up\<close>

text \<open>The answer of a directory to a lookup, as the node that asks reads it.\<close>

definition dir_answer :: "('p, 'a) net_lib \<Rightarrow> ('p, 'a, 's) Directory \<Rightarrow> string \<Rightarrow> pb_peer_info option outcome" where
  "dir_answer nl d reqId = of_option (ExtErr ''EOF'') (lookupHandler nl reqId d)"

lemma doDirLookupImpl_answer:
  assumes "net_lib_ok nl" "doDirConnect hl dir ''/mediachain/dir/lookup'' s = Ok ()" "wr (nl_Pretty nl pid) = Ok ()"
  shows "doDirLookupImpl nl hl wr (dir_answer nl d) dir pid s =
    (case lookupPeer pid d of None \<Rightarrow> Err UnknownPeer | Some pinfo \<Rightarrow> Ok pinfo)"
proof -
  have "nl_IDB58Decode nl (nl_Pretty nl pid) = Ok pid" using assms(1) by (simp add: net_lib_ok_def)
  then show ?thesis
    using assms(2,3) PBToPeerInfo_PBFromPeerInfo [OF assms(1)]
    by (simp add: doDirLookupImpl_def dir_answer_def lookupHandler_def split: option.split)
qed

text \<open>The registration message of a node is accepted by the directory on the stream of that node, and only there;
  from then on every node that looks it up in the directory finds exactly the addresses it announced,
  and the lookups of other peers are as before. When its stream ends, it is an unknown peer.\<close>

theorem registration_found:
  assumes "net_lib_ok nl" and "registerRound nl node pub addrs nss ms = Some msg"
    and "doDirConnect hl dir ''/mediachain/dir/lookup'' s = Ok ()" and "\<forall>p. wr p = Ok ()"
  shows "\<exists>rm. register_read nl node (Ok msg) = Some rm \<and> (\<forall>pid. pid \<noteq> node \<longrightarrow> register_read nl pid (Ok msg) = None) \<and>
    doDirLookupImpl nl hl wr (dir_answer nl (register_round put node rm d)) dir node s = Ok \<lparr>pi_ID = node, pi_Addrs = addrs\<rparr> \<and>
    (\<forall>pid. pid \<noteq> node \<longrightarrow>
       doDirLookupImpl nl hl wr (dir_answer nl (register_round put node rm d)) dir pid s =
       doDirLookupImpl nl hl wr (dir_answer nl d) dir pid s) \<and>
    doDirLookupImpl nl hl wr (dir_answer nl (registerHandler nl put remove node [Ok msg] d)) dir node s = Err UnknownPeer"
proof -
  let ?pi = "\<lparr>pi_ID = node, pi_Addrs = addrs\<rparr>"
  let ?rm = "(\<lparr>pr_peer = ?pi, pr_publisher = Some \<lparr>pub_Id = pub, pub_Namespaces = nss\<rparr>\<rparr>, ms)"
  note ans = doDirLookupImpl_answer [OF assms(1,3), of wr]
  have rd: "register_read nl node (Ok msg) = Some ?rm" "pid \<noteq> node \<Longrightarrow> register_read nl pid (Ok msg) = None" for pid
    using assms(2) PBToPeerInfo_PBFromPeerInfo [OF assms(1), of ?pi]
    by (auto simp: registerRound_def register_read_def split: if_splits)
  show ?thesis
    using rd assms(4)
    by (intro exI [of _ ?rm])
      (simp add: ans lookupPeer_def update_conv' delete_conv' map_of_delete split: option.split)
qed

theorem registration_found_witness:
  "case registerRound text_lib 7 ''pub'' [''ip4/1.2.3.4/tcp/1''] [''scratch''] [] of
     None \<Rightarrow> False
   | Some msg \<Rightarrow>
       (case register_read text_lib 7 (Ok msg) of
          None \<Rightarrow> False
        | Some rm \<Rightarrow>
            doDirLookupImpl text_lib sample_hl (\<lambda>p. Ok ())
              (dir_answer text_lib (register_round (\<lambda>p ms u. u) 7 rm \<lparr>dir_peers = [], dir_mfs = ()\<rparr>))
              (dir_at ''ip4/5.6.7.8'') 7 sample_net = Ok \<lparr>pi_ID = 7, pi_Addrs = [''ip4/1.2.3.4/tcp/1'']\<rparr>)"
proof -
  obtain msg where msg: "registerRound text_lib 7 ''pub'' [''ip4/1.2.3.4/tcp/1''] [''scratch''] [] = Some msg"
    by (simp add: registerRound_def)
  have "doDirConnect sample_hl (dir_at ''ip4/5.6.7.8'') ''/mediachain/dir/lookup'' sample_net = Ok ()" by code_simp
  from registration_found [OF text_lib_ok msg this, of "\<lambda>p. Ok ()" "\<lambda>p ms u. u" "\<lparr>dir_peers = [], dir_mfs = ()\<rparr>" "\<lambda>p u. u"]
  show ?thesis by (auto simp: msg)
qed

text \<open>What the workers of a lookup answered before the context of the lookup ended.\<close>

definition before_end :: "'r arrival list \<Rightarrow> 'r arrival list" where
  "before_end as = takeWhile (\<lambda>a. case a of CtxDone \<Rightarrow> False | Arrived r \<Rightarrow> True) as"

fun found :: "'r arrival list \<Rightarrow> 'r option" where
  "found (Arrived (Ok res) # as) = Some res"
| "found (a # as) = found as"
| "found [] = None"

definition failed :: "'r arrival \<Rightarrow> bool" where
  "failed a = (case a of Arrived (Err e) \<Rightarrow> e \<noteq> UnknownPeer | _ \<Rightarrow> False)"

lemma before_end_simps [simp]:
  "before_end [] = []" "before_end (CtxDone # as) = []" "before_end (Arrived r # as) = Arrived r # before_end as"
  by (simp_all add: before_end_def)

lemma failed_simps [simp]:
  "\<not> failed CtxDone" "\<not> failed (Arrived (Ok x))" "failed (Arrived (Err e)) \<longleftrightarrow> e \<noteq> UnknownPeer" "\<not> failed (Arrived (Panic m))"
  by (simp_all add: failed_def)

lemma lookupLoop_result:
  "\<forall>m. Arrived (Panic m) \<notin> set as \<Longrightarrow> lookupLoop w n as =
    (case found (before_end as) of
       Some res \<Rightarrow> Ok res
     | None \<Rightarrow> if n + length (filter failed (before_end as)) < w then Err UnknownPeer else Err LookupError)"
  by (induction w n as rule: lookupLoop.induct) auto

lemma failed_le: "length (filter failed (before_end as)) \<le> length as"
  unfolding before_end_def by (rule le_trans [OF length_filter_le length_takeWhile_le])

lemma before_end_failed: "length (filter failed (before_end as)) = length as \<longleftrightarrow> (\<forall>a \<in> set as. failed a)"
proof (induction as)
  case (Cons a as)
  with failed_le [of as] show ?case by (cases a) auto
qed simp

text \<open>C21: A lookup asks every directory and the DHT at once and returns the first peer that one of them finds before its
  context ends, whatever the others answer and in whatever order. It reports a lookup error exactly when all
  of them failed, and that the peer is unknown otherwise. The addresses of a peer that was found are kept in
  the host; nothing is done to the host otherwise.\<close>

theorem lookup_outcome:
  assumes "ns_status s \<noteq> StatusOffline" and "ns_host s = Some h"
    and "length as = Suc (length (ns_dir s)) \<or> length as \<le> length (ns_dir s) \<and> CtxDone \<in> set as"
    and "\<forall>m. Arrived (Panic m) \<notin> set as"
  shows "doLookup hl as pid s =
    (case found (before_end as) of
       Some pinfo \<Rightarrow> (Ok pinfo, s\<lparr>ns_host := Some (hl_AddAddrs hl h pid (pi_Addrs pinfo))\<rparr>)
     | None \<Rightarrow>
         (if length as = Suc (length (ns_dir s)) \<and> (\<forall>a \<in> set as. failed a) then (Err LookupError, s) else (Err UnknownPeer, s)))"
proof -
  have take: "take (Suc (length (ns_dir s))) as = as" using assms(3) by auto
  have "doLookupImpl as s = (case found (before_end as) of Some res \<Rightarrow> Ok res
     | None \<Rightarrow> if length (filter failed (before_end as)) < Suc (length (ns_dir s)) then Err UnknownPeer else Err LookupError)"
    using assms(1) by (simp add: doLookupImpl_def Let_def take lookupLoop_result [OF assms(4)] split: option.split)
  moreover have "length (filter failed (before_end as)) < Suc (length (ns_dir s)) \<longleftrightarrow>
    \<not> (length as = Suc (length (ns_dir s)) \<and> (\<forall>a \<in> set as. failed a))"
    using failed_le [of as] assms(3) before_end_failed [of as] by auto
  ultimately show ?thesis
    using assms(2) by (auto simp: doLookup_def the_host_Ok split: option.split)
qed

theorem lookup_outcome_witness:
  "fst (doLookup sample_hl [Arrived (Err UnknownPeer), Arrived (Ok (dir_at ''ip4/1.2.3.4''))] 4 sample_net) = Ok (dir_at ''ip4/1.2.3.4'') \<and>
   doLookup sample_hl [Arrived (Err UnknownPeer), CtxDone] 4 sample_net = (Err UnknownPeer, sample_net) \<and>
   doLookup sample_hl [Arrived (Err NodeOffline), Arrived (Err DirectoryError)] 4 sample_net = (Err LookupError, sample_net)"
proof -
  have st: "ns_status sample_net \<noteq> StatusOffline" "ns_host sample_net = Some ''host''" "length (ns_dir sample_net) = 1" by code_simp+
  note l = lookup_outcome [OF st(1,2), of _ sample_hl 4]
  show ?thesis
    using l [of "[Arrived (Err UnknownPeer), Arrived (Ok (dir_at ''ip4/1.2.3.4''))]"] l [of "[Arrived (Err UnknownPeer), CtxDone]"]
      l [of "[Arrived (Err NodeOffline), Arrived (Err DirectoryError)]"]
    by (simp add: st(3))
qed

section \<open>Collecting\<close>

fun answer_set :: "'r list arrival \<Rightarrow> 'r set" where
  "answer_set (Arrived (Ok res)) = set res"
| "answer_set a = {}"

lemma collectLoop_result:
  assumes "length rs = n" and "\<forall>m. Panic m \<notin> set rs"
  shows "\<exists>vals'. collectLoop n (map Arrived rs) vals k = Ok (vals', k + length (filter (\<lambda>r. \<exists>e. r = Err e) rs), None) \<and>
    set vals' = set vals \<union> (\<Union>r \<in> set rs. answer_set (Arrived r)) \<and> (distinct vals \<longrightarrow> distinct vals')"
  using assms
proof (induction rs arbitrary: n vals k)
  case (Cons r rs)
  then obtain n' where [simp]: "n = Suc n'" "length rs = n'" by auto
  show ?case
  proof (cases r)
    case (Ok res)
    with Cons.IH [of n' "set_adds res vals" k] Cons.prems show ?thesis by auto
  next
    case (Err e)
    with Cons.IH [of n' vals "Suc k"] Cons.prems show ?thesis by auto
  qed (use Cons.prems in auto)
qed simp

lemma doDirCollect_many:
  assumes "ns_dir s = d # d' # ds" and "length rs = length (ns_dir s)" and "\<forall>m. Panic m \<notin> set rs"
    and "map_order ord"
  shows "if \<forall>r \<in> set rs. \<exists>e. r = Err e then doDirCollect ord proc (map Arrived rs) s = Err DirectoryError
    else \<exists>vals. doDirCollect ord proc (map Arrived rs) s = Ok vals \<and> distinct vals \<and>
      set vals = {v. \<exists>res. Ok res \<in> set rs \<and> v \<in> set res}"
proof -
  from collectLoop_result [OF assms(2,3), of "[]" 0] obtain vals where
    c: "collectLoop (length (ns_dir s)) (map Arrived rs) [] 0 = Ok (vals, length (filter (\<lambda>r. \<exists>e. r = Err e) rs), None)"
    and v: "set vals = (\<Union>r \<in> set rs. answer_set (Arrived r))" "distinct vals" by auto
  have all: "length (filter (\<lambda>r. \<exists>e. r = Err e) rs) < length (ns_dir s) \<longleftrightarrow> \<not> (\<forall>r \<in> set rs. \<exists>e. r = Err e)"
    unfolding assms(2) [symmetric] by (cases "\<forall>r \<in> set rs. \<exists>e. r = Err e") (auto simp: filter_True intro: length_filter_less)
  have "v \<in> answer_set (Arrived r) \<longleftrightarrow> (\<exists>res. r = Ok res \<and> v \<in> set res)" for r :: "string list outcome" and v
    by (cases r) auto
  with v(1) have v': "set vals = {v. \<exists>res. Ok res \<in> set rs \<and> v \<in> set res}" by auto
  have o: "set (ord vals) = set vals" "distinct (ord vals)"
    using v(2) assms(4) by (simp_all add: map_order_def)
  have dc: "doDirCollect ord proc (map Arrived rs) s =
    (if vals = [] then (if \<forall>r \<in> set rs. \<exists>e. r = Err e then Err DirectoryError else Ok []) else Ok (ord vals))"
    using c all assms(1) by (auto simp: doDirCollect_def)
  show ?thesis
  proof (cases "\<forall>r \<in> set rs. \<exists>e. r = Err e")
    case True
    then have "set vals = {}" unfolding v' by auto
    with True dc show ?thesis by simp
  next
    case False
    with dc o v(2) v' show ?thesis by (cases "vals = []") (simp_all del: set_empty)
  qed
qed

text \<open>One directory or several: \<open>order\<close> is the order in which their answers arrive.\<close>

lemma doDirCollect_all:
  assumes "ns_dir s \<noteq> []" and "set order = set (ns_dir s)" "length order = length (ns_dir s)"
    and "\<forall>d \<in> set (ns_dir s). \<not> panics (proc d)" and "map_order ord"
  defines "r \<equiv> doDirCollect ord proc (map (\<lambda>d. Arrived (proc d)) order) s"
  shows "(\<exists>vals. r = Ok vals) \<longleftrightarrow> (\<exists>d \<in> set (ns_dir s). \<exists>res. proc d = Ok res)"
    and "r = Ok vals \<Longrightarrow> set vals = {v. \<exists>d \<in> set (ns_dir s). \<exists>res. proc d = Ok res \<and> v \<in> set res}"
    and "\<not> panics r"
proof -
  have "((\<exists>vals. r = Ok vals) \<longleftrightarrow> (\<exists>d \<in> set (ns_dir s). \<exists>res. proc d = Ok res)) \<and>
    (\<forall>vals. r = Ok vals \<longrightarrow> set vals = {v. \<exists>d \<in> set (ns_dir s). \<exists>res. proc d = Ok res \<and> v \<in> set res}) \<and> \<not> panics r"
  proof (cases "\<exists>d. ns_dir s = [d]")
    case True
    with assms(4) show ?thesis by (auto simp: r_def doDirCollect_def)
  next
    case False
    with assms(1) obtain d d' ds where dirs: "ns_dir s = d # d' # ds" by (metis neq_Nil_conv)
    let ?rs = "map proc order"
    have np: "\<forall>m. Panic m \<notin> set ?rs" using assms(2,4) by (metis (no_types, lifting) imageE list.set_map panics.simps(1))
    have r: "r = doDirCollect ord proc (map Arrived ?rs) s" by (simp add: r_def comp_def)
    have ok: "(\<forall>x \<in> set ?rs. \<exists>e. x = Err e) \<longleftrightarrow> \<not> (\<exists>d \<in> set (ns_dir s). \<exists>res. proc d = Ok res)"
      using assms(2,4) by (auto simp del: panics.simps) (metis panics.simps(1) outcome.exhaust)
    have mem: "{v. \<exists>res. Ok res \<in> set ?rs \<and> v \<in> set res} = {v. \<exists>d \<in> set (ns_dir s). \<exists>res. proc d = Ok res \<and> v \<in> set res}"
      using assms(2) by (force simp: image_iff)
    from doDirCollect_many [OF dirs _ np assms(5), of proc] assms(3) show ?thesis
      unfolding r [symmetric] ok mem by (auto split: if_splits)
  qed
  then show "(\<exists>vals. r = Ok vals) \<longleftrightarrow> (\<exists>d \<in> set (ns_dir s). \<exists>res. proc d = Ok res)"
    "r = Ok vals \<Longrightarrow> set vals = {v. \<exists>d \<in> set (ns_dir s). \<exists>res. proc d = Ok res \<and> v \<in> set res}" "\<not> panics r" by blast+
qed

text \<open>The context ends before all the directories have answered.\<close>

lemma collectLoop_cut:
  assumes "length rs < n" and "\<forall>m. Panic m \<notin> set rs"
  shows "\<exists>vals' k'. collectLoop n (map Arrived rs @ CtxDone # rest) vals k = Ok (vals', k', Some CtxErr) \<and> k' \<le> k + length rs \<and>
    set vals' = set vals \<union> (\<Union>r \<in> set rs. answer_set (Arrived r)) \<and> (distinct vals \<longrightarrow> distinct vals')"
  using assms
proof (induction rs arbitrary: n vals k)
  case Nil
  then show ?case by (cases n) auto
next
  case (Cons r rs)
  then obtain n' where [simp]: "n = Suc n'" "length rs < n'" by (cases n) auto
  show ?case
  proof (cases r)
    case (Ok res)
    with Cons.IH [of n' "set_adds res vals" k] Cons.prems show ?thesis by force
  next
    case (Err e)
    with Cons.IH [of n' vals "Suc k"] Cons.prems show ?thesis by force
  qed (use Cons.prems in auto)
qed

lemma doDirCollect_cut:
  fixes rest :: "string list arrival list"
  assumes "length (ns_dir s) \<noteq> 1" "length heard < length (ns_dir s)" "\<forall>d \<in> set heard. \<not> panics (proc d)" "map_order ord"
  defines "r \<equiv> doDirCollect ord proc (map (\<lambda>d. Arrived (proc d)) heard @ CtxDone # rest) s"
    and "V \<equiv> {v. \<exists>d \<in> set heard. \<exists>res. proc d = Ok res \<and> v \<in> set res}"
  shows "if V = {} then r = Err CtxErr else \<exists>vals. r = Ok vals \<and> set vals = V"
proof -
  from assms(1,2) obtain d d' ds where dirs: "ns_dir s = d # d' # ds"
    by (metis One_nat_def length_0_conv length_Suc_conv less_nat_zero_code neq_Nil_conv)
  let ?rs = "map proc heard"
  have np: "\<forall>m. Panic m \<notin> set ?rs" using assms(3) by (metis (no_types, lifting) imageE list.set_map panics.simps(1))
  from collectLoop_cut [OF _ np, of "length (ns_dir s)" rest "[]" 0] assms(2) obtain vals k' where
    c: "collectLoop (length (ns_dir s)) (map Arrived ?rs @ CtxDone # rest) [] 0 = Ok (vals, k', Some CtxErr)" "k' \<le> length heard"
    and v: "set vals = (\<Union>r \<in> set ?rs. answer_set (Arrived r))" "distinct vals" by auto
  have "v \<in> answer_set (Arrived r) \<longleftrightarrow> (\<exists>res. r = Ok res \<and> v \<in> set res)" for r :: "string list outcome" and v
    by (cases r) auto
  with v(1) have V: "set vals = V" by (auto simp: V_def)
  have r: "r = (if vals = [] then Err CtxErr else Ok (ord vals))"
    using c assms(2) dirs by (auto simp: r_def doDirCollect_def comp_def)
  have "set (ord vals) = set vals" using v(2) assms(4) by (simp add: map_order_def)
  with r V show ?thesis by (cases "vals = []") auto
qed

text \<open>
  Both cases: \<open>heard\<close> are the directories that answer before the context ends. A single directory is asked
  directly, without the loop.
\<close>

definition asked_dirs :: "'d list \<Rightarrow> 'd list \<Rightarrow> 'd list" where
  "asked_dirs dirs heard = (if length dirs = 1 then dirs else heard)"

definition arrival_order :: "'d list \<Rightarrow> 'd list \<Rightarrow> 'd option list \<Rightarrow> bool" where
  "arrival_order dirs heard order \<longleftrightarrow> (\<forall>d. count_list heard d \<le> count_list dirs d) \<and>
     (if length heard < length dirs then \<exists>rest. order = map Some heard @ None # rest else order = map Some heard)"

lemma count_list_subset: "\<forall>d. count_list heard d \<le> count_list dirs d \<Longrightarrow> set heard \<subseteq> set dirs"
  by (metis count_list_0_iff le_zero_eq subsetI)

lemma arrival_order_all:
  assumes "arrival_order dirs heard order" "\<not> length heard < length dirs"
  shows "order = map Some heard" "set heard = set dirs" "length heard = length dirs"
proof -
  show "order = map Some heard" using assms by (simp add: arrival_order_def)
  have le: "\<forall>d. count_list heard d \<le> count_list dirs d" using assms(1) by (simp add: arrival_order_def)
  note sub = count_list_subset [OF le]
  have len: "length heard = (\<Sum>d \<in> set dirs. count_list heard d)" "length dirs = (\<Sum>d \<in> set dirs. count_list dirs d)"
    using sum_count_set [OF sub] by (simp_all add: sum_count_set)
  with sum_mono [of "set dirs" "count_list heard" "count_list dirs"] le assms(2) show "length heard = length dirs" by simp
  show "set heard = set dirs"
  proof (rule ccontr)
    assume "set heard \<noteq> set dirs"
    with sub obtain d where "d \<in> set dirs" "d \<notin> set heard" by blast
    then have "count_list heard d < count_list dirs d" by (metis count_list_0_iff gr0I)
    with \<open>d \<in> set dirs\<close> le have "(\<Sum>d \<in> set dirs. count_list heard d) < (\<Sum>d \<in> set dirs. count_list dirs d)"
      by (intro sum_strict_mono_ex1) auto
    with len assms(2) show False by simp
  qed
qed

lemma arrival_order_heard: "arrival_order dirs heard order \<Longrightarrow> set (asked_dirs dirs heard) \<subseteq> set dirs"
  using count_list_subset [of heard dirs] by (auto simp: arrival_order_def asked_dirs_def)

definition cut_short :: "'d list \<Rightarrow> 'd list \<Rightarrow> bool" where
  "cut_short dirs heard \<longleftrightarrow> length heard < length dirs \<and> length dirs \<noteq> 1"

lemma doDirCollect_heard:
  assumes "ns_dir s \<noteq> []" "arrival_order (ns_dir s) heard order" "\<forall>d \<in> set (ns_dir s). \<not> panics (proc d)" "map_order ord"
  defines "r \<equiv> doDirCollect ord proc (dir_arrivals proc order) s"
    and "V \<equiv> {v. \<exists>d \<in> set (asked_dirs (ns_dir s) heard). \<exists>res. proc d = Ok res \<and> v \<in> set res}"
  shows "if cut_short (ns_dir s) heard \<and> V = {} then r = Err CtxErr
    else (\<exists>vals. r = Ok vals) \<longleftrightarrow> (\<exists>d \<in> set (asked_dirs (ns_dir s) heard). \<exists>res. proc d = Ok res)"
    and "r = Ok vals \<Longrightarrow> set vals = V"
    and "\<not> panics r"
proof -
  have "(if cut_short (ns_dir s) heard \<and> V = {} then r = Err CtxErr
      else (\<exists>vals. r = Ok vals) \<longleftrightarrow> (\<exists>d \<in> set (asked_dirs (ns_dir s) heard). \<exists>res. proc d = Ok res)) \<and>
    (\<forall>vals. r = Ok vals \<longrightarrow> set vals = V) \<and> \<not> panics r"
  proof (cases "length (ns_dir s) = 1")
    case True
    then obtain d where "ns_dir s = [d]" by (metis One_nat_def length_0_conv length_Suc_conv)
    with assms(3) show ?thesis by (auto simp: r_def V_def doDirCollect_def asked_dirs_def cut_short_def)
  next
    case many: False
    then have asked: "asked_dirs (ns_dir s) heard = heard" by (simp add: asked_dirs_def)
    show ?thesis
    proof (cases "length heard < length (ns_dir s)")
      case True
      with assms(2) obtain rest where "order = map Some heard @ None # rest" by (auto simp: arrival_order_def)
      then have order: "dir_arrivals proc order = map (\<lambda>d. Arrived (proc d)) heard @ CtxDone # dir_arrivals proc rest"
        by (simp add: dir_arrivals_def)
      have np: "\<forall>d \<in> set heard. \<not> panics (proc d)" using assms(3) arrival_order_heard [OF assms(2)] asked by auto
      from doDirCollect_cut [OF many True np assms(4), where rest = "dir_arrivals proc rest"] show ?thesis
        unfolding order [symmetric] r_def [symmetric] using many True
        by (auto simp: V_def asked cut_short_def split: if_splits)
    next
      case False
      note all = arrival_order_all [OF assms(2) False]
      have "dir_arrivals proc order = map (\<lambda>d. Arrived (proc d)) heard" by (simp add: all(1) dir_arrivals_def)
      with doDirCollect_all [where proc = proc, OF assms(1) all(2,3) assms(3,4)] show ?thesis
        using False by (auto simp: r_def V_def asked cut_short_def all(2))
    qed
  qed
  then show "if cut_short (ns_dir s) heard \<and> V = {} then r = Err CtxErr
    else (\<exists>vals. r = Ok vals) \<longleftrightarrow> (\<exists>d \<in> set (asked_dirs (ns_dir s) heard). \<exists>res. proc d = Ok res)"
    "r = Ok vals \<Longrightarrow> set vals = V" "\<not> panics r" by blast+
qed

text \<open>A list that is asked of several directories, all of which answer, is an error exactly when all of them failed;
  otherwise it contains what any of them answered, each value once, and nothing else.\<close>

theorem collect_union:
  assumes "ns_dir s = d # d' # ds" and "length rs = length (ns_dir s)" and "\<forall>m. Panic m \<notin> set rs"
    and "map_order ord"
  shows "if \<forall>r \<in> set rs. \<exists>e. r = Err e then doDirCollect ord proc (map Arrived rs) s = Err DirectoryError
    else \<exists>vals. doDirCollect ord proc (map Arrived rs) s = Ok vals \<and> distinct vals \<and>
      set vals = {v. \<exists>res. Ok res \<in> set rs \<and> v \<in> set res}"
  using doDirCollect_many [OF assms] .

theorem collect_union_witness:
  "doDirCollect (\<lambda>xs. xs) (\<lambda>d. Ok []) [Arrived (Err NodeOffline), Arrived (Err BadQuery)] (sample_net\<lparr>ns_dir := [dir_at ''a'', dir_at ''b'']\<rparr>) =
     Err DirectoryError \<and>
   (case doDirCollect (\<lambda>xs. xs) (\<lambda>d. Ok []) [Arrived (Ok [''x'', ''y'']), Arrived (Ok [''y''])] (sample_net\<lparr>ns_dir := [dir_at ''a'', dir_at ''b'']\<rparr>) of
      Ok vals \<Rightarrow> set vals = {''x'', ''y''} \<and> distinct vals | Err e \<Rightarrow> False | Panic m \<Rightarrow> False)"
proof -
  have ord: "map_order (\<lambda>xs. xs :: string list)" by (simp add: map_order_def)
  note u = collect_union [of "sample_net\<lparr>ns_dir := [dir_at ''a'', dir_at ''b'']\<rparr>" "dir_at ''a''" "dir_at ''b''" "[]", OF _ _ _ ord, of _ "\<lambda>d. Ok []"]
  show ?thesis
    using u [of "[Err NodeOffline, Err BadQuery]"] u [of "[Ok [''x'', ''y''], Ok [''y'']]"] by (fastforce split: outcome.split)
qed

end
