(* ===== verification/Requests.thy ===== *)
theory Requests
  imports Peers
begin

text \<open>
  The small protocols between nodes and to the directories (\<open>mcnode/net.go\<close>, \<open>mcnode/proto.go\<close>): identity,
  manifests and pings, what a node knows of its connections, and the lists a node asks the directories for, with what
  the directories of \<open>Directory\<close> answer.
\<close>

section \<open>Handlers\<close>

record NodeInfo =
  ni_Peer :: string
  ni_Publisher :: string
  ni_Info :: string

text \<open>The answer, if any, to the request that is read.\<close>

definition idHandler :: "('p, 'a) net_lib \<Rightarrow> 'p \<Rightarrow> string \<Rightarrow> string \<Rightarrow> unit outcome \<Rightarrow> NodeInfo option" where
  "idHandler nl identity publisher info req =
     (case req of
        Ok u \<Rightarrow> Some \<lparr>ni_Peer = nl_Pretty nl identity, ni_Publisher = publisher, ni_Info = info\<rparr>
      | _ \<Rightarrow> None)"

definition manifestHandler :: "manifest list \<Rightarrow> unit outcome \<Rightarrow> manifest list option" where
  "manifestHandler mfs req = (case req of Ok u \<Rightarrow> Some mfs | _ \<Rightarrow> None)"

text \<open>The number of pongs for the reads, when \<open>wr i\<close> is the outcome of the write number \<open>i\<close>.\<close>

fun pingHandler :: "(nat \<Rightarrow> unit outcome) \<Rightarrow> nat \<Rightarrow> unit outcome list \<Rightarrow> nat" where
  "pingHandler wr n (Ok ping # reads) = (case wr n of Ok u \<Rightarrow> pingHandler wr (Suc n) reads | _ \<Rightarrow> n)"
| "pingHandler wr n reads = n"

section \<open>Requests to a node\<close>

text \<open>A stream, one message each way.\<close>

definition remote_call ::
  "('p, 'a, 'h) host_lib \<Rightarrow> ('p, 'a) peer_info arrival list \<Rightarrow> string \<Rightarrow> unit outcome \<Rightarrow> 'm outcome \<Rightarrow> 'p \<Rightarrow> ('p, 'a, 'h) net_state \<Rightarrow>
   'm outcome \<times> ('p, 'a, 'h) net_state" where
  "remote_call hl as proto wr rd pid s =
     (case doConnect hl as pid proto s of (conn, s') \<Rightarrow> (obind conn (\<lambda>_. obind wr (\<lambda>_. rd)), s'))"

definition doRemoteId ::
  "('p, 'a, 'h) host_lib \<Rightarrow> ('p, 'a) peer_info arrival list \<Rightarrow> unit outcome \<Rightarrow> NodeInfo outcome \<Rightarrow> 'p \<Rightarrow> ('p, 'a, 'h) net_state \<Rightarrow>
   NodeInfo outcome \<times> ('p, 'a, 'h) net_state" where
  "doRemoteId hl as wr rd pid s = remote_call hl as ''/mediachain/node/id'' wr rd pid s"

definition doRemoteManifest ::
  "('p, 'a, 'h) host_lib \<Rightarrow> ('p, 'a) peer_info arrival list \<Rightarrow> unit outcome \<Rightarrow> manifest list outcome \<Rightarrow> 'p \<Rightarrow> ('p, 'a, 'h) net_state \<Rightarrow>
   manifest list outcome \<times> ('p, 'a, 'h) net_state" where
  "doRemoteManifest hl as wr rd pid s = remote_call hl as ''/mediachain/node/manifest'' wr rd pid s"

definition doPing ::
  "('p, 'a, 'h) host_lib \<Rightarrow> ('p, 'a) peer_info arrival list \<Rightarrow> unit outcome \<Rightarrow> unit outcome \<Rightarrow> 'p \<Rightarrow> ('p, 'a, 'h) net_state \<Rightarrow>
   unit outcome \<times> ('p, 'a, 'h) net_state" where
  "doPing hl as wr rd pid s = remote_call hl as ''/mediachain/node/ping'' wr rd pid s"

section \<open>Connections\<close>

text \<open>What the host knows: its connections, and of a peer the bytes of its key, its versions and protocols.\<close>

record ('p, 'a, 'h) peerstore =
  ps_Conns :: "'h \<Rightarrow> ('p \<times> 'a) list"
  ps_PubKey :: "'h \<Rightarrow> 'p \<Rightarrow> string outcome option"
  ps_Get :: "'h \<Rightarrow> 'p \<Rightarrow> string \<Rightarrow> string option"
  ps_Protocols :: "'h \<Rightarrow> 'p \<Rightarrow> string list outcome"

definition netConns :: "('p, 'a, 'h) peerstore \<Rightarrow> ('p, 'a, 'h) net_state \<Rightarrow> ('p, 'a) peer_info list outcome" where
  "netConns ps s =
     (if ns_status s = StatusOffline then Ok []
      else obind (the_host s) (\<lambda>h. Ok (map (\<lambda>(pid, addr). \<lparr>pi_ID = pid, pi_Addrs = [addr]\<rparr>) (ps_Conns ps h))))"

text \<open>\<open>ping\<close> is the outcome of the ping service and what arrives then: the time, or the end of the context.\<close>

definition netPing ::
  "('p, 'a, 'h) host_lib \<Rightarrow> ('p, 'a) peer_info arrival list \<Rightarrow> int arrival outcome \<Rightarrow> 'p \<Rightarrow> ('p, 'a, 'h) net_state \<Rightarrow>
   int outcome \<times> ('p, 'a, 'h) net_state" where
  "netPing hl as ping pid s =
     (case doConnectPeer hl as pid s of
        (conn, s') \<Rightarrow>
          (obind conn (\<lambda>_. obind ping (\<lambda>ch. case ch of CtxDone \<Rightarrow> Err CtxErr | Arrived dt \<Rightarrow> dt)), s'))"

record NetIdentify =
  id_ID :: string
  id_PublicKey :: string
  id_Addresses :: "string list"
  id_AgentVersion :: string
  id_ProtocolVersion :: string
  id_Protocols :: "string list"

definition identify ::
  "('p, 'a) net_lib \<Rightarrow> ('p, 'a, 'h) host_lib \<Rightarrow> ('p, 'a, 'h) peerstore \<Rightarrow> 'p \<Rightarrow> 'h \<Rightarrow> NetIdentify outcome" where
  "identify nl hl ps pid h =
     obind (case ps_PubKey ps h pid of None \<Rightarrow> Ok [] | Some bytes \<Rightarrow> bytes) (\<lambda>pubk.
     obind (ps_Protocols ps h pid) (\<lambda>protos.
     Ok \<lparr>id_ID = nl_Pretty nl pid, id_PublicKey = pubk, id_Addresses = map (nl_String nl) (hl_peer_addrs hl h pid),
         id_AgentVersion = (case ps_Get ps h pid ''AgentVersion'' of Some v \<Rightarrow> v | None \<Rightarrow> []),
         id_ProtocolVersion = (case ps_Get ps h pid ''ProtocolVersion'' of Some v \<Rightarrow> v | None \<Rightarrow> []),
         id_Protocols = protos\<rparr>))"

definition netIdentify ::
  "('p, 'a) net_lib \<Rightarrow> ('p, 'a, 'h) host_lib \<Rightarrow> ('p, 'a, 'h) peerstore \<Rightarrow> ('p, 'a) peer_info arrival list \<Rightarrow> 'p \<Rightarrow>
   ('p, 'a, 'h) net_state \<Rightarrow> NetIdentify outcome \<times> ('p, 'a, 'h) net_state" where
  "netIdentify nl hl ps as pid s =
     (if ns_status s = StatusOffline then (Err NodeOffline, s)
      else (case the_host s of
              Err e \<Rightarrow> (Err e, s)
            | Panic p \<Rightarrow> (Panic p, s)
            | Ok h \<Rightarrow>
                (if hl_connected hl h pid then (identify nl hl ps pid h, s)
                 else (case doConnectPeer hl as pid s of
                         (conn, s') \<Rightarrow> (obind conn (\<lambda>_. obind (the_host s') (identify nl hl ps pid)), s')))))"

text \<open>
  The goroutine that passes on the peers the DHT finds: \<open>k\<close> is the number of peers the receiver takes before the
  context is done, \<open>None\<close> when it takes all.
\<close>

fun findLoop ::
  "('p, 'a, 'h) host_lib \<Rightarrow> 'p \<Rightarrow> nat option \<Rightarrow> ('p, 'a) peer_info list \<Rightarrow> 'h \<Rightarrow> ('p, 'a) peer_info list \<times> 'h" where
  "findLoop hl self k [] h = ([], h)"
| "findLoop hl self k (pinfo # ich) h =
     (if pi_ID pinfo = self then findLoop hl self k ich h
      else (let h' = hl_AddAddrs hl h (pi_ID pinfo) (pi_Addrs pinfo) in
            case k of
              Some 0 \<Rightarrow> ([], h')
            | Some (Suc n) \<Rightarrow> (case findLoop hl self (Some n) ich h' of (och, h'') \<Rightarrow> (pinfo # och, h''))
            | None \<Rightarrow> (case findLoop hl self None ich h' of (och, h'') \<Rightarrow> (pinfo # och, h''))))"

definition netFindPeers ::
  "('p, 'a, 'h) host_lib \<Rightarrow> 'p \<Rightarrow> nat option \<Rightarrow> ('p, 'a) peer_info list \<Rightarrow> ('p, 'a, 'h) net_state \<Rightarrow>
   ('p, 'a) peer_info list outcome \<times> ('p, 'a, 'h) net_state" where
  "netFindPeers hl self k ich s =
     (if ns_status s = StatusOffline then (Err NodeOffline, s)
      else (case the_host s of
              Err e \<Rightarrow> (Err e, s)
            | Panic p \<Rightarrow> (Panic p, s)
            | Ok h \<Rightarrow> (case findLoop hl self k ich h of (och, h') \<Rightarrow> (Ok och, s\<lparr>ns_host := Some h'\<rparr>))))"

lemma findLoop_all: "fst (findLoop hl self None ich h) = filter (\<lambda>pinfo. pi_ID pinfo \<noteq> self) ich"
  by (induction ich arbitrary: h) (auto simp: Let_def case_prod_beta)

section \<open>Lists of the directories\<close>

text \<open>One directory: the stream, the request and the response.\<close>

definition dir_call ::
  "('p, 'a, 'h) host_lib \<Rightarrow> string \<Rightarrow> unit outcome \<Rightarrow> 'm outcome \<Rightarrow> ('p, 'a) peer_info \<Rightarrow> ('p, 'a, 'h) net_state \<Rightarrow> 'm outcome" where
  "dir_call hl proto wr rd dir s = obind (doDirConnect hl dir proto s) (\<lambda>_. obind wr (\<lambda>_. rd))"

text \<open>In these, \<open>wr\<close> and \<open>rd\<close> give the outcome of the write and the answer that is read, for a directory and a request.\<close>

definition doDirListImpl ::
  "('p, 'a, 'h) host_lib \<Rightarrow> (('p, 'a) peer_info \<Rightarrow> unit outcome) \<Rightarrow> (('p, 'a) peer_info \<Rightarrow> string \<Rightarrow> string list outcome) \<Rightarrow>
   ('p, 'a) peer_info \<Rightarrow> string \<Rightarrow> ('p, 'a, 'h) net_state \<Rightarrow> string list outcome" where
  "doDirListImpl hl wr rd dir ns s = dir_call hl ''/mediachain/dir/list'' (wr dir) (rd dir ns) dir s"

definition doDirListNSImpl ::
  "('p, 'a, 'h) host_lib \<Rightarrow> (('p, 'a) peer_info \<Rightarrow> unit outcome) \<Rightarrow> (('p, 'a) peer_info \<Rightarrow> string list outcome) \<Rightarrow>
   ('p, 'a) peer_info \<Rightarrow> ('p, 'a, 'h) net_state \<Rightarrow> string list outcome" where
  "doDirListNSImpl hl wr rd dir s = dir_call hl ''/mediachain/dir/listns'' (wr dir) (rd dir) dir s"

definition doDirListMFImpl ::
  "('p, 'a, 'h) host_lib \<Rightarrow> (('p, 'a) peer_info \<Rightarrow> unit outcome) \<Rightarrow> (('p, 'a) peer_info \<Rightarrow> string \<Rightarrow> manifest list outcome) \<Rightarrow>
   ('p, 'a) peer_info \<Rightarrow> string \<Rightarrow> ('p, 'a, 'h) net_state \<Rightarrow> manifest list outcome" where
  "doDirListMFImpl hl wr rd dir entity s = dir_call hl ''/mediachain/dir/listmf'' (wr dir) (rd dir entity) dir s"

text \<open>In the following, \<open>order\<close> is what the context lets the node see: the directories in the order in which their answers arrive,
  and \<open>None\<close> where the context ends (the handlers of the API give it ten seconds).\<close>

definition doDirList ::
  "('p, 'a, 'h) host_lib \<Rightarrow> (('p, 'a) peer_info \<Rightarrow> unit outcome) \<Rightarrow> (('p, 'a) peer_info \<Rightarrow> string \<Rightarrow> string list outcome) \<Rightarrow>
   (string list \<Rightarrow> string list) \<Rightarrow> ('p, 'a) peer_info option list \<Rightarrow> string \<Rightarrow> ('p, 'a, 'h) net_state \<Rightarrow> string list outcome" where
  "doDirList hl wr rd ord order ns s =
     doDirCollect ord (\<lambda>dir. doDirListImpl hl wr rd dir ns s) (dir_arrivals (\<lambda>dir. doDirListImpl hl wr rd dir ns s) order) s"

definition doDirListNS ::
  "('p, 'a, 'h) host_lib \<Rightarrow> (('p, 'a) peer_info \<Rightarrow> unit outcome) \<Rightarrow> (('p, 'a) peer_info \<Rightarrow> string list outcome) \<Rightarrow>
   (string list \<Rightarrow> string list) \<Rightarrow> ('p, 'a) peer_info option list \<Rightarrow> ('p, 'a, 'h) net_state \<Rightarrow> string list outcome" where
  "doDirListNS hl wr rd ord order s =
     doDirCollect ord (\<lambda>dir. doDirListNSImpl hl wr rd dir s) (dir_arrivals (\<lambda>dir. doDirListNSImpl hl wr rd dir s) order) s"

text \<open>Manifests are collected by their JSON texts; \<open>marshal\<close> and \<open>unmarshal\<close> are those of the library.\<close>

definition listMF_strs ::
  "(manifest \<Rightarrow> string outcome) \<Rightarrow> ('p, 'a, 'h) host_lib \<Rightarrow> (('p, 'a) peer_info \<Rightarrow> unit outcome) \<Rightarrow>
   (('p, 'a) peer_info \<Rightarrow> string \<Rightarrow> manifest list outcome) \<Rightarrow> string \<Rightarrow> ('p, 'a, 'h) net_state \<Rightarrow> ('p, 'a) peer_info \<Rightarrow> string list outcome" where
  "listMF_strs marshal hl wr rd entity s dir = obind (doDirListMFImpl hl wr rd dir entity s) (omap marshal)"

definition doDirListMF ::
  "(manifest \<Rightarrow> string outcome) \<Rightarrow> (string \<Rightarrow> manifest outcome) \<Rightarrow> ('p, 'a, 'h) host_lib \<Rightarrow> (('p, 'a) peer_info \<Rightarrow> unit outcome) \<Rightarrow>
   (('p, 'a) peer_info \<Rightarrow> string \<Rightarrow> manifest list outcome) \<Rightarrow> (string list \<Rightarrow> string list) \<Rightarrow> ('p, 'a) peer_info option list \<Rightarrow> string \<Rightarrow>
   ('p, 'a, 'h) net_state \<Rightarrow> manifest list outcome" where
  "doDirListMF marshal unmarshal hl wr rd ord order entity s =
     obind (doDirCollect ord (listMF_strs marshal hl wr rd entity s)
       (dir_arrivals (listMF_strs marshal hl wr rd entity s) order) s) (omap unmarshal)"

section \<open>What the directories answer\<close>

text \<open>The request reaches the directory.\<close>

definition reached :: "('p, 'a, 'h) host_lib \<Rightarrow> string \<Rightarrow> (('p, 'a) peer_info \<Rightarrow> unit outcome) \<Rightarrow> ('p, 'a, 'h) net_state \<Rightarrow> ('p, 'a) peer_info \<Rightarrow> bool" where
  "reached hl proto wr s dir \<longleftrightarrow> doDirConnect hl dir proto s = Ok () \<and> wr dir = Ok ()"

lemma dir_call_Ok: "dir_call hl proto (wr dir) (Ok v) dir s = Ok res \<longleftrightarrow> reached hl proto wr s dir \<and> res = v"
  by (auto simp: dir_call_def reached_def)

text \<open>The peers that the directories \<open>dirs\<close> list for \<open>ns\<close>: those whose registration in one of them that was reached publishes a
  namespace of the pattern.\<close>

definition listed :: "(('p, 'a) peer_info \<Rightarrow> bool) \<Rightarrow> (('p, 'a) peer_info \<Rightarrow> ('p, 'a) dir_event list) \<Rightarrow> string \<Rightarrow> ('p, 'a) peer_info list \<Rightarrow> 'p set" where
  "listed there E ns dirs =
     {pid. \<exists>dir \<in> set dirs. there dir \<and> (\<exists>rec. registrations (E dir) pid = Some rec \<and>
        (ns = [] \<or> ns = ''*'' \<or> (\<exists>pub xns. pr_publisher rec = Some pub \<and> xns \<in> set (pub_Namespaces pub) \<and> rule_allows ns xns)))}"

text \<open>C22: A node that lists the peers of a namespace asks all its directories. When all of them answer in time, it gets a list when
  it reaches at least one of them; when its context ends before (and it has several directories), it gets a list when those that
  answered listed a peer, and the error of the context otherwise. The list contains exactly the peers that are
  registered in a directory it reached and heard from, and publish a namespace of the pattern, however the
  registrations in each directory interleaved and in whatever order the answers come.\<close>

theorem network_lists:
  fixes E :: "('p, 'a) peer_info \<Rightarrow> ('p, 'a) dir_event list"
  assumes "ns_dir s \<noteq> []" "arrival_order (ns_dir s) heard order" "map_order ord" "net_lib_ok nl"
    and "\<And>dir. dir \<in> set (ns_dir s) \<Longrightarrow> dir_run nl fair put remove mfs0 (E dir) (D dir) \<and> map_order (dord dir) \<and>
      rd dir ns = Ok (listHandler nl (dord dir) ns (ds_dir (D dir))) \<and>
      \<not> panics (doDirConnect hl dir ''/mediachain/dir/list'' s) \<and> \<not> panics (wr dir)"
  shows "(if cut_short (ns_dir s) heard \<and> listed (reached hl ''/mediachain/dir/list'' wr s) E ns (asked_dirs (ns_dir s) heard) = {}
      then doDirList hl wr rd ord order ns s = Err CtxErr
      else (\<exists>ids. doDirList hl wr rd ord order ns s = Ok ids) \<longleftrightarrow>
        (\<exists>dir \<in> set (asked_dirs (ns_dir s) heard). reached hl ''/mediachain/dir/list'' wr s dir)) \<and>
    (\<not> cut_short (ns_dir s) heard \<longrightarrow> set (asked_dirs (ns_dir s) heard) = set (ns_dir s)) \<and>
    (\<forall>ids. doDirList hl wr rd ord order ns s = Ok ids \<longrightarrow>
       set ids = nl_Pretty nl ` listed (reached hl ''/mediachain/dir/list'' wr s) E ns (asked_dirs (ns_dir s) heard))"
proof -
  let ?proc = "\<lambda>dir. doDirListImpl hl wr rd dir ns s"
  let ?there = "reached hl ''/mediachain/dir/list'' wr s"
  let ?V = "{v. \<exists>d \<in> set (asked_dirs (ns_dir s) heard). \<exists>res. ?proc d = Ok res \<and> v \<in> set res}"
  have proc: "?proc dir = Ok res \<longleftrightarrow> ?there dir \<and> res = listPeers nl (dord dir) ns (ds_dir (D dir))" if "dir \<in> set (ns_dir s)" for dir res
    using assms(5) [OF that] by (simp add: doDirListImpl_def dir_call_Ok listHandler_def)
  have np: "\<forall>dir \<in> set (ns_dir s). \<not> panics (?proc dir)"
  proof
    fix dir assume "dir \<in> set (ns_dir s)"
    from assms(5) [OF this] show "\<not> panics (?proc dir)"
      by (cases "doDirConnect hl dir ''/mediachain/dir/list'' s"; cases "wr dir") (simp_all add: doDirListImpl_def dir_call_def)
  qed
  note all = doDirCollect_heard [where proc = ?proc, OF assms(1,2) np assms(3), folded doDirList_def]
  note sub = arrival_order_heard [OF assms(2)]
  have "?V = (\<Union>dir \<in> {dir \<in> set (asked_dirs (ns_dir s) heard). ?there dir}. set (listPeers nl (dord dir) ns (ds_dir (D dir))))"
  proof (intro set_eqI)
    fix v
    have "(\<exists>res. ?proc d = Ok res \<and> v \<in> set res) \<longleftrightarrow> ?there d \<and> v \<in> set (listPeers nl (dord d) ns (ds_dir (D d)))"
      if "d \<in> set (asked_dirs (ns_dir s) heard)" for d using proc [of d] that sub by (simp add: subset_iff)
    then show "v \<in> ?V \<longleftrightarrow> v \<in> (\<Union>dir \<in> {dir \<in> set (asked_dirs (ns_dir s) heard). ?there dir}. set (listPeers nl (dord dir) ns (ds_dir (D dir))))"
      by auto
  qed
  also have "\<dots> = (\<Union>dir \<in> {dir \<in> set (asked_dirs (ns_dir s) heard). ?there dir}. nl_Pretty nl ` {pid. \<exists>rec. registrations (E dir) pid = Some rec \<and>
      (ns = [] \<or> ns = ''*'' \<or> (\<exists>pub xns. pr_publisher rec = Some pub \<and> xns \<in> set (pub_Namespaces pub) \<and> rule_allows ns xns))})"
  proof (intro SUP_cong refl)
    fix dir assume "dir \<in> {dir \<in> set (asked_dirs (ns_dir s) heard). ?there dir}"
    with sub have d: "dir \<in> set (ns_dir s)" by blast
    from listPeers_run [OF conjunct1 [OF assms(5) [OF d]] _ map_order_rev assms(4), of "dord dir" ns] assms(5) [OF d]
    show "set (listPeers nl (dord dir) ns (ds_dir (D dir))) = nl_Pretty nl ` {pid. \<exists>rec. registrations (E dir) pid = Some rec \<and>
      (ns = [] \<or> ns = ''*'' \<or> (\<exists>pub xns. pr_publisher rec = Some pub \<and> xns \<in> set (pub_Namespaces pub) \<and> rule_allows ns xns))}" by simp
  qed
  also have "\<dots> = nl_Pretty nl ` listed ?there E ns (asked_dirs (ns_dir s) heard)" unfolding listed_def by blast
  finally have V: "?V = nl_Pretty nl ` listed ?there E ns (asked_dirs (ns_dir s) heard)" .
  have some: "(\<exists>d \<in> set (asked_dirs (ns_dir s) heard). \<exists>res. ?proc d = Ok res) \<longleftrightarrow> (\<exists>d \<in> set (asked_dirs (ns_dir s) heard). ?there d)"
    using proc sub by blast
  have "set (asked_dirs (ns_dir s) heard) = set (ns_dir s)" if "\<not> cut_short (ns_dir s) heard"
    using that arrival_order_all(2) [OF assms(2)] by (auto simp: cut_short_def asked_dirs_def)
  with all(1,2) show ?thesis unfolding V some by simp
qed

text \<open>Manifests come through their texts unchanged.\<close>

lemma doDirListMF_Ok:
  assumes "ns_dir s \<noteq> []" "arrival_order (ns_dir s) heard order" "map_order ord"
    and "\<forall>dir \<in> set (ns_dir s). \<not> panics (doDirListMFImpl hl wr rd dir entity s)"
    and "\<And>mf. marshal mf = Ok (enc mf) \<and> unmarshal (enc mf) = Ok mf"
    and "doDirListMF marshal unmarshal hl wr rd ord order entity s = Ok mfs"
  shows "set mfs = {mf. \<exists>dir \<in> set (asked_dirs (ns_dir s) heard). \<exists>res. doDirListMFImpl hl wr rd dir entity s = Ok res \<and> mf \<in> set res}"
proof -
  let ?proc = "listMF_strs marshal hl wr rd entity s"
  have strs: "?proc dir = obind (doDirListMFImpl hl wr rd dir entity s) (\<lambda>res. Ok (map enc res))" for dir
    using omap_total [of _ marshal enc] assms(5) by (cases "doDirListMFImpl hl wr rd dir entity s") (simp_all add: listMF_strs_def)
  have np: "\<forall>dir \<in> set (ns_dir s). \<not> panics (?proc dir)"
  proof
    fix dir assume "dir \<in> set (ns_dir s)"
    with assms(4) have "\<not> panics (doDirListMFImpl hl wr rd dir entity s)" by blast
    then show "\<not> panics (?proc dir)" unfolding strs by (cases "doDirListMFImpl hl wr rd dir entity s") simp_all
  qed
  from assms(6) obtain vals where v:
    "doDirCollect ord ?proc (dir_arrivals ?proc order) s = Ok vals" "omap unmarshal vals = Ok mfs"
    by (auto simp: doDirListMF_def)
  have texts: "set vals = enc ` {mf. \<exists>dir \<in> set (asked_dirs (ns_dir s) heard). \<exists>res. doDirListMFImpl hl wr rd dir entity s = Ok res \<and> mf \<in> set res}"
    unfolding doDirCollect_heard(2) [where proc = ?proc, OF assms(1,2) np assms(3) v(1)] by (fastforce simp: strs)
  from v(2) have "list_all2 (\<lambda>x y. unmarshal x = Ok y) vals mfs" by (simp add: omap_Ok_iff)
  then have "Ok ` set mfs = unmarshal ` set vals"
    by (induction rule: list_all2_induct) auto
  also have "\<dots> = Ok ` {mf. \<exists>dir \<in> set (asked_dirs (ns_dir s) heard). \<exists>res. doDirListMFImpl hl wr rd dir entity s = Ok res \<and> mf \<in> set res}"
    unfolding texts image_image using assms(5) by simp
  finally show ?thesis by (simp add: inj_image_eq_iff inj_on_def)
qed

text \<open>A node with two directories, one of which cannot be asked.\<close>

definition two_dirs :: "(nat, string, string) net_state" where
  "two_dirs = sample_net\<lparr>ns_dir := [dir_at ''a'', dir_at ''b'']\<rparr>"

definition wr_a :: "(nat, string) peer_info \<Rightarrow> unit outcome" where
  "wr_a dir = (if dir = dir_at ''a'' then Ok () else Err EOF)"

lemma two_dirs_order: "arrival_order (ns_dir two_dirs) [dir_at ''b'', dir_at ''a''] [Some (dir_at ''b''), Some (dir_at ''a'')]"
  "arrival_order (ns_dir two_dirs) [dir_at ''b''] [Some (dir_at ''b''), None]"
  by (simp_all add: arrival_order_def two_dirs_def)

theorem network_lists_witness:
  "(case doDirList sample_hl wr_a (\<lambda>dir ns. Ok (listHandler text_lib rev ns (ds_dir sample_dir))) rev
      [Some (dir_at ''b''), Some (dir_at ''a'')] ''images.*'' two_dirs of
     Ok ids \<Rightarrow> set ids = {nat_str 7} | Err e \<Rightarrow> False | Panic m \<Rightarrow> False) \<and>
   doDirList sample_hl wr_a (\<lambda>dir ns. Ok (listHandler text_lib rev ns (ds_dir sample_dir))) rev
      [Some (dir_at ''b''), None] ''images.*'' two_dirs = Err CtxErr"
proof -
  have st: "ns_dir two_dirs = [dir_at ''a'', dir_at ''b'']" by (simp add: two_dirs_def)
  have conn: "doDirConnect sample_hl dir ''/mediachain/dir/list'' two_dirs = Ok ()" for dir
  proof -
    have "ns_status sample_net = StatusPublic" "ns_host sample_net = Some ''host''" by code_simp+
    then show ?thesis by (simp add: doDirConnect_def two_dirs_def sample_hl_def the_host_def)
  qed
  have ab: "dir_at ''a'' \<noteq> dir_at ''b''" by (simp add: dir_at_def)
  have r: "reached sample_hl ''/mediachain/dir/list'' wr_a two_dirs dir \<longleftrightarrow> dir = dir_at ''a''" for dir
    by (simp add: reached_def conn wr_a_def)
  have reg: "registrations [Opened 3 7, Registered 3 7 sample_reg [sample_manifest ''keybase:vyzo'' ''Qabc'']] = [7 \<mapsto> sample_reg]"
    by (simp add: registrations_def)
  have allows: "rule_allows ''images.*'' ''images.dpla''" by (simp add: rule_allows_code HasSuffix_def suffix_def HasPrefix_code)
  have rec: "pr_publisher sample_reg = Some \<lparr>pub_Id = ''P'', pub_Namespaces = [''images.dpla'', ''museums'']\<rparr>"
    "nl_Pretty text_lib = nat_str"
    by (simp_all add: sample_reg_def text_lib_def)
  have "ns_dir two_dirs \<noteq> []" by (simp add: st)
  note n = network_lists [where E = "\<lambda>_. [Opened 3 7, Registered 3 7 sample_reg [sample_manifest ''keybase:vyzo'' ''Qabc'']]"
      and D = "\<lambda>_. sample_dir" and dord = "\<lambda>_. rev" and fair = "\<lambda>env. \<forall>x. same_hashes (env x) sample_providers"
      and put = "put_alone sample_ml" and remove = mfs_Remove and ?mfs0.0 = NewManifestStore and hl = sample_hl and wr = wr_a
      and rd = "\<lambda>dir ns. Ok (listHandler text_lib rev ns (ds_dir sample_dir))" and ns = "''images.*''",
      OF this _ map_order_rev text_lib_ok, unfolded listed_def r reg]
  have np: "\<not> panics (wr_a dir)" for dir by (simp add: wr_a_def)
  have run: "dir_run text_lib (\<lambda>env. \<forall>x. same_hashes (env x) sample_providers) (put_alone sample_ml) mfs_Remove NewManifestStore
      [Opened 3 7, Registered 3 7 sample_reg [sample_manifest ''keybase:vyzo'' ''Qabc'']] sample_dir" by (rule sample_dir_run)
  note n1 = n [OF two_dirs_order(1)] and n2 = n [OF two_dirs_order(2)]
  note facts = st conn np run map_order_rev cut_short_def asked_dirs_def
  show ?thesis
  proof
    show "case doDirList sample_hl wr_a (\<lambda>dir ns. Ok (listHandler text_lib rev ns (ds_dir sample_dir))) rev
      [Some (dir_at ''b''), Some (dir_at ''a'')] ''images.*'' two_dirs of
     Ok ids \<Rightarrow> set ids = {nat_str 7} | Err e \<Rightarrow> False | Panic m \<Rightarrow> False"
      using n1 allows rec by (auto simp: facts split: outcome.split if_splits)
    show "doDirList sample_hl wr_a (\<lambda>dir ns. Ok (listHandler text_lib rev ns (ds_dir sample_dir))) rev
      [Some (dir_at ''b''), None] ''images.*'' two_dirs = Err CtxErr"
      using n2 ab by (simp add: facts)
  qed
qed

end
