(* ===== verification/Identity.thy ===== *)
theory Identity
  imports Node
begin

text \<open>
  The identities of a node (\<open>mc/identity.go\<close>): generated when its home directory has none, and loaded from it
  afterwards. Key pairs, their encodings, peer ids and base58 are those of libraries, in the record
  \<open>key_lib\<close>; the home directory maps file names to what is found under them.
\<close>

section \<open>Libraries and files\<close>

text \<open>\<open>'r\<close> are private keys, \<open>'k\<close> public ones and \<open>'p\<close> peer ids.\<close>

record ('r, 'k, 'p) key_lib =
  kl_GetPublic :: "'r \<Rightarrow> 'k"
  kl_privBytes :: "'r \<Rightarrow> string outcome"
  kl_UnmarshalPrivateKey :: "string \<Rightarrow> 'r outcome"
  kl_pubBytes :: "'k \<Rightarrow> string outcome"
  kl_UnmarshalPublicKey :: "string \<Rightarrow> 'k outcome"
  kl_IDFromPublicKey :: "'k \<Rightarrow> 'p outcome"
  kl_IDFromPrivateKey :: "'r \<Rightarrow> 'p outcome"
  kl_Encode58 :: "string \<Rightarrow> string"
  kl_Decode58 :: "string \<Rightarrow> string"
  kl_Sign :: "'r \<Rightarrow> string \<Rightarrow> string outcome"
  kl_Verify :: "'k \<Rightarrow> string \<Rightarrow> string option \<Rightarrow> bool outcome"

text \<open>
  The documented laws: what is marshalled unmarshals, base58 reads back, the id of a private key is that of its public key,
  and a public key verifies the signatures of its private key.
\<close>

definition key_lib_ok :: "('r, 'k, 'p) key_lib \<Rightarrow> bool" where
  "key_lib_ok kl \<longleftrightarrow>
     (\<forall>r b. kl_privBytes kl r = Ok b \<longrightarrow> kl_UnmarshalPrivateKey kl b = Ok r) \<and>
     (\<forall>k b. kl_pubBytes kl k = Ok b \<longrightarrow> kl_UnmarshalPublicKey kl b = Ok k) \<and>
     (\<forall>r. kl_IDFromPrivateKey kl r = kl_IDFromPublicKey kl (kl_GetPublic kl r)) \<and>
     (\<forall>s. kl_Decode58 kl (kl_Encode58 kl s) = s) \<and>
     (\<forall>r b sig. kl_Sign kl r b = Ok sig \<longrightarrow> kl_Verify kl (kl_GetPublic kl r) b (Some sig) = Ok True)"

datatype disk_file = Absent | Contents string | NoRead go_error | NoStat go_error

type_synonym home_dir = "string \<Rightarrow> disk_file"

fun read_file :: "disk_file \<Rightarrow> string outcome" where
  "read_file (Contents b) = Ok b"
| "read_file (NoRead e) = Err e"
| "read_file (NoStat e) = Err e"
| "read_file Absent = Err (ExtErr ''no such file or directory'')"

text \<open>What is left of a file after writing it: the outcome, and the file when the write failed.\<close>

type_synonym write_outcome = "go_error option \<times> disk_file"

definition WriteFile :: "write_outcome \<Rightarrow> string \<Rightarrow> string \<Rightarrow> home_dir \<Rightarrow> unit outcome \<times> home_dir" where
  "WriteFile wr name bytes disk =
     (case wr of
        (None, f) \<Rightarrow> (Ok (), disk(name := Contents bytes))
      | (Some e, f) \<Rightarrow> (Err e, disk(name := f)))"

section \<open>Keys\<close>

definition PublisherID58 :: "('r, 'k, 'p) key_lib \<Rightarrow> 'k \<Rightarrow> string outcome" where
  "PublisherID58 kl pubk = obind (kl_pubBytes kl pubk) (\<lambda>bytes. Ok (kl_Encode58 kl bytes))"

definition publisher_key :: "('r, 'k, 'p) key_lib \<Rightarrow> string \<Rightarrow> 'k outcome" where
  "publisher_key kl id58 = kl_UnmarshalPublicKey kl (kl_Decode58 kl id58)"

definition loadKey :: "('r, 'k, 'p) key_lib \<Rightarrow> string \<Rightarrow> home_dir \<Rightarrow> 'r outcome" where
  "loadKey kl name disk = obind (read_file (disk name)) (kl_UnmarshalPrivateKey kl)"

definition saveKey :: "('r, 'k, 'p) key_lib \<Rightarrow> write_outcome \<Rightarrow> 'r \<Rightarrow> string \<Rightarrow> home_dir \<Rightarrow> unit outcome \<times> home_dir" where
  "saveKey kl wr privk name disk =
     (case kl_privBytes kl privk of
        Ok bytes \<Rightarrow> WriteFile wr name bytes disk
      | Err e \<Rightarrow> (Err e, disk)
      | Panic m \<Rightarrow> (Panic m, disk))"

section \<open>Identities\<close>

text \<open>
  Peer and publisher identities, an id and a private key, are made alike: \<open>idof\<close> is the id of a public key and \<open>idpriv\<close> that of a
  private key. \<open>gen\<close> is the outcome of generating a key pair.
\<close>

definition generate_identity ::
  "('r, 'k, 'p) key_lib \<Rightarrow> ('k \<Rightarrow> 'i outcome) \<Rightarrow> ('r \<times> 'k) outcome \<Rightarrow> write_outcome \<Rightarrow> string \<Rightarrow> home_dir \<Rightarrow>
   ('i \<times> 'r) outcome \<times> home_dir" where
  "generate_identity kl idof gen wr name disk =
     (case obind gen (\<lambda>(privk, pubk). obind (idof pubk) (\<lambda>i. Ok (i, privk))) of
        Ok (i, privk) \<Rightarrow>
          (case saveKey kl wr privk name disk of
             (Ok u, disk') \<Rightarrow> (Ok (i, privk), disk')
           | (Err e, disk') \<Rightarrow> (Err e, disk')
           | (Panic m, disk') \<Rightarrow> (Panic m, disk'))
      | Err e \<Rightarrow> (Err e, disk)
      | Panic m \<Rightarrow> (Panic m, disk))"

definition load_identity ::
  "('r, 'k, 'p) key_lib \<Rightarrow> ('r \<Rightarrow> 'i outcome) \<Rightarrow> string \<Rightarrow> home_dir \<Rightarrow> ('i \<times> 'r) outcome" where
  "load_identity kl idpriv name disk =
     obind (loadKey kl name disk) (\<lambda>privk. obind (idpriv privk) (\<lambda>i. Ok (i, privk)))"

text \<open>\<open>generatePeerIdentity\<close>, \<open>loadPeerIdentity\<close> and their publisher counterparts.\<close>

definition generatePeerIdentity ::
  "('r, 'k, 'p) key_lib \<Rightarrow> ('r \<times> 'k) outcome \<Rightarrow> write_outcome \<Rightarrow> string \<Rightarrow> home_dir \<Rightarrow> ('p \<times> 'r) outcome \<times> home_dir" where
  "generatePeerIdentity kl gen wr kpath disk = generate_identity kl (kl_IDFromPublicKey kl) gen wr kpath disk"

definition loadPeerIdentity :: "('r, 'k, 'p) key_lib \<Rightarrow> string \<Rightarrow> home_dir \<Rightarrow> ('p \<times> 'r) outcome" where
  "loadPeerIdentity kl kpath disk = load_identity kl (kl_IDFromPrivateKey kl) kpath disk"

definition generatePublisherIdentity ::
  "('r, 'k, 'p) key_lib \<Rightarrow> ('r \<times> 'k) outcome \<Rightarrow> write_outcome \<Rightarrow> string \<Rightarrow> home_dir \<Rightarrow> (string \<times> 'r) outcome \<times> home_dir" where
  "generatePublisherIdentity kl gen wr kpath disk = generate_identity kl (PublisherID58 kl) gen wr kpath disk"

definition loadPublisherIdentity :: "('r, 'k, 'p) key_lib \<Rightarrow> string \<Rightarrow> home_dir \<Rightarrow> (string \<times> 'r) outcome" where
  "loadPublisherIdentity kl kpath disk = load_identity kl (\<lambda>privk. PublisherID58 kl (kl_GetPublic kl privk)) kpath disk"

definition make_identity ::
  "(home_dir \<Rightarrow> 'i outcome \<times> home_dir) \<Rightarrow> (home_dir \<Rightarrow> 'i outcome) \<Rightarrow> string \<Rightarrow> home_dir \<Rightarrow> 'i outcome \<times> home_dir" where
  "make_identity generate load name disk =
     (case disk name of
        Absent \<Rightarrow> generate disk
      | NoStat e \<Rightarrow> (Err e, disk)
      | _ \<Rightarrow> (load disk, disk))"

definition MakePeerIdentity ::
  "('r, 'k, 'p) key_lib \<Rightarrow> ('r \<times> 'k) outcome \<Rightarrow> write_outcome \<Rightarrow> home_dir \<Rightarrow> ('p \<times> 'r) outcome \<times> home_dir" where
  "MakePeerIdentity kl gen wr disk =
     make_identity (generatePeerIdentity kl gen wr ''identity.node'') (loadPeerIdentity kl ''identity.node'') ''identity.node'' disk"

definition MakePublisherIdentity ::
  "('r, 'k, 'p) key_lib \<Rightarrow> ('r \<times> 'k) outcome \<Rightarrow> write_outcome \<Rightarrow> home_dir \<Rightarrow> (string \<times> 'r) outcome \<times> home_dir" where
  "MakePublisherIdentity kl gen wr disk =
     make_identity (generatePublisherIdentity kl gen wr ''identity.publisher'') (loadPublisherIdentity kl ''identity.publisher'')
       ''identity.publisher'' disk"

section \<open>An identity stays\<close>

lemma make_identity_stays:
  assumes "key_lib_ok kl" and "\<forall>r. idpriv r = idof (kl_GetPublic kl r)" and "\<forall>r k. gen = Ok (r, k) \<longrightarrow> k = kl_GetPublic kl r"
    and "make_identity (generate_identity kl idof gen wr name) (load_identity kl idpriv name) name disk = (Ok (i, r), disk')"
  shows "disk' name \<noteq> Absent" "\<forall>e. disk' name \<noteq> NoStat e" "load_identity kl idpriv name disk' = Ok (i, r)"
    "idof (kl_GetPublic kl r) = Ok i" "\<forall>n. n \<noteq> name \<longrightarrow> disk' n = disk n" "disk name \<noteq> Absent \<Longrightarrow> disk' = disk"
proof -
  have "disk' name \<noteq> Absent \<and> (\<forall>e. disk' name \<noteq> NoStat e) \<and> load_identity kl idpriv name disk' = Ok (i, r) \<and> idof (kl_GetPublic kl r) = Ok i \<and>
    (\<forall>n. n \<noteq> name \<longrightarrow> disk' n = disk n) \<and> (disk name \<noteq> Absent \<longrightarrow> disk' = disk)"
  proof (cases "disk name = Absent")
    case True
    with assms(4) have gi: "generate_identity kl idof gen wr name disk = (Ok (i, r), disk')" by (simp add: make_identity_def)
    then obtain k where k: "gen = Ok (r, k)" "idof k = Ok i" and sv: "saveKey kl wr r name disk = (Ok (), disk')"
      by (auto simp: generate_identity_def split: outcome.splits prod.splits)
    from sv obtain bytes where sv: "kl_privBytes kl r = Ok bytes" "disk' = disk(name := Contents bytes)"
      by (auto simp: saveKey_def WriteFile_def split: outcome.splits option.splits prod.splits)
    from k assms(3) have "k = kl_GetPublic kl r" by blast
    with k sv have g: "gen = Ok (r, kl_GetPublic kl r)" "idof (kl_GetPublic kl r) = Ok i"
      "kl_privBytes kl r = Ok bytes" "disk' = disk(name := Contents bytes)" by simp_all
    with assms(1) have "kl_UnmarshalPrivateKey kl bytes = Ok r" by (simp add: key_lib_ok_def)
    with g True assms(2) show ?thesis by (simp add: load_identity_def loadKey_def)
  next
    case False
    with assms(4) have "disk' = disk" "load_identity kl idpriv name disk = Ok (i, r)" "\<forall>e. disk name \<noteq> NoStat e"
      by (auto simp: make_identity_def split: disk_file.splits)
    with False assms(2) show ?thesis by (auto simp: load_identity_def)
  qed
  then show "disk' name \<noteq> Absent" "\<forall>e. disk' name \<noteq> NoStat e" "load_identity kl idpriv name disk' = Ok (i, r)"
    "idof (kl_GetPublic kl r) = Ok i" "\<forall>n. n \<noteq> name \<longrightarrow> disk' n = disk n" "disk name \<noteq> Absent \<Longrightarrow> disk' = disk" by blast+
qed

lemma make_identity_loads: "disk name \<noteq> Absent \<Longrightarrow> \<forall>e. disk name \<noteq> NoStat e \<Longrightarrow> make_identity generate load name disk = (load disk, disk)"
  by (auto simp: make_identity_def split: disk_file.split)

lemmas peer_identity_defs = MakePeerIdentity_def generatePeerIdentity_def [abs_def] loadPeerIdentity_def [abs_def]
lemmas publisher_identity_defs = MakePublisherIdentity_def generatePublisherIdentity_def [abs_def] loadPublisherIdentity_def [abs_def]

lemma PublisherID58_key: "key_lib_ok kl \<Longrightarrow> PublisherID58 kl k = Ok id58 \<Longrightarrow> publisher_key kl id58 = Ok k"
  by (auto simp: PublisherID58_def publisher_key_def key_lib_ok_def)

text \<open>Both identities of a node, made one after the other: any later start finds them.\<close>

lemma identities_stay:
  assumes "key_lib_ok kl" and "\<forall>r k. gen = Ok (r, k) \<or> pgen = Ok (r, k) \<longrightarrow> k = kl_GetPublic kl r"
    and "MakePeerIdentity kl gen wr disk = (Ok (i, r), disk1)" and "MakePublisherIdentity kl pgen pwr disk1 = (Ok (id58, q), disk2)"
  shows "MakePeerIdentity kl gen' wr' disk2 = (Ok (i, r), disk2)" "MakePublisherIdentity kl pgen' pwr' disk2 = (Ok (id58, q), disk2)"
    "kl_IDFromPublicKey kl (kl_GetPublic kl r) = Ok i" "PublisherID58 kl (kl_GetPublic kl q) = Ok id58"
proof -
  have gens: "\<forall>r k. gen = Ok (r, k) \<longrightarrow> k = kl_GetPublic kl r" "\<forall>r k. pgen = Ok (r, k) \<longrightarrow> k = kl_GetPublic kl r"
    using assms(2) by blast+
  have "\<forall>r. kl_IDFromPrivateKey kl r = kl_IDFromPublicKey kl (kl_GetPublic kl r)" using assms(1) by (simp add: key_lib_ok_def)
  note node = make_identity_stays [OF assms(1) this gens(1) assms(3) [unfolded peer_identity_defs]]
  note pub = make_identity_stays [OF assms(1) allI [OF refl] gens(2) assms(4) [unfolded publisher_identity_defs]]
  have same: "disk2 ''identity.node'' = disk1 ''identity.node''" using pub(5) by simp
  have "load_identity kl (kl_IDFromPrivateKey kl) ''identity.node'' disk2 = Ok (i, r)"
    using node(3) same by (simp add: load_identity_def loadKey_def)
  with node(1,2) same show "MakePeerIdentity kl gen' wr' disk2 = (Ok (i, r), disk2)"
    by (simp add: peer_identity_defs make_identity_loads)
  from pub(1,2,3) show "MakePublisherIdentity kl pgen' pwr' disk2 = (Ok (id58, q), disk2)"
    by (simp add: publisher_identity_defs make_identity_loads)
  from node(4) show "kl_IDFromPublicKey kl (kl_GetPublic kl r) = Ok i" .
  from pub(4) show "PublisherID58 kl (kl_GetPublic kl q) = Ok id58" .
qed

text \<open>A node keeps its identities: once it has made them, every later start, whatever keys it would generate then, finds the
  same peer id, publisher id and private keys and leaves the home directory as it is; the peer id is that of
  the node's key and the publisher id stands for the publisher's public key.\<close>

theorem identity_persistent:
  assumes "key_lib_ok kl" and "\<forall>r k. gen = Ok (r, k) \<or> pgen = Ok (r, k) \<longrightarrow> k = kl_GetPublic kl r"
    and "MakePeerIdentity kl gen wr disk = (Ok (i, r), disk1)" and "MakePublisherIdentity kl pgen pwr disk1 = (Ok (id58, q), disk2)"
  shows "MakePeerIdentity kl gen' wr' disk2 = (Ok (i, r), disk2) \<and> MakePublisherIdentity kl pgen' pwr' disk2 = (Ok (id58, q), disk2) \<and>
    kl_IDFromPublicKey kl (kl_GetPublic kl r) = Ok i \<and> publisher_key kl id58 = Ok (kl_GetPublic kl q)"
  using identities_stay [OF assms] PublisherID58_key [OF assms(1)] by blast

text \<open>Keys for the witnesses: a key pair is a name, and a signature is the name before the signed bytes.\<close>

definition sample_kl :: "(string, string, nat) key_lib" where
  "sample_kl = \<lparr>kl_GetPublic = (\<lambda>r. r), kl_privBytes = Ok, kl_UnmarshalPrivateKey = Ok, kl_pubBytes = Ok, kl_UnmarshalPublicKey = Ok,
     kl_IDFromPublicKey = (\<lambda>k. Ok (length k)), kl_IDFromPrivateKey = (\<lambda>r. Ok (length r)), kl_Encode58 = (\<lambda>s. s), kl_Decode58 = (\<lambda>s. s),
     kl_Sign = (\<lambda>r b. Ok (r @ b)), kl_Verify = (\<lambda>k b sig. Ok (sig = Some (k @ b)))\<rparr>"

lemma sample_kl_ok: "key_lib_ok sample_kl"
  by (simp add: key_lib_ok_def sample_kl_def)

theorem identity_persistent_witness:
  "\<exists>disk1 disk2. MakePeerIdentity sample_kl (Ok (''node'', ''node'')) (None, Absent) (\<lambda>n. Absent) = (Ok (4, ''node''), disk1) \<and>
     MakePublisherIdentity sample_kl (Ok (''me'', ''me'')) (None, Absent) disk1 = (Ok (''me'', ''me''), disk2) \<and>
     MakePeerIdentity sample_kl (Ok (''other'', ''other'')) (None, Absent) disk2 = (Ok (4, ''node''), disk2)"
proof -
  let ?d1 = "(\<lambda>n. Absent)(''identity.node'' := Contents ''node'')"
  let ?d2 = "?d1(''identity.publisher'' := Contents ''me'')"
  have 1: "MakePeerIdentity sample_kl (Ok (''node'', ''node'')) (None, Absent) (\<lambda>n. Absent) = (Ok (4, ''node''), ?d1)"
    by (simp add: peer_identity_defs make_identity_def generate_identity_def saveKey_def WriteFile_def sample_kl_def)
  have 2: "MakePublisherIdentity sample_kl (Ok (''me'', ''me'')) (None, Absent) ?d1 = (Ok (''me'', ''me''), ?d2)"
    by (simp add: publisher_identity_defs make_identity_def generate_identity_def saveKey_def WriteFile_def sample_kl_def PublisherID58_def)
  have "\<forall>r k. Ok (''node'', ''node'') = Ok (r, k) \<or> Ok (''me'', ''me'') = Ok (r, k) \<longrightarrow> k = kl_GetPublic sample_kl r"
    by (auto simp: sample_kl_def)
  from identity_persistent [OF sample_kl_ok this 1 2, of "Ok (''other'', ''other'')" "(None, Absent)"] 1 2 show ?thesis by blast
qed

section \<open>Signing with an identity\<close>

text \<open>The cryptography of a node that signs with the key \<open>privk\<close>.\<close>

definition identity_crypto :: "('r, 'k, 'p) key_lib \<Rightarrow> (statement \<Rightarrow> string option) \<Rightarrow> 'r \<Rightarrow> 'k crypto" where
  "identity_crypto kl marshal privk = \<lparr>cr_marshal = marshal, cr_sign = kl_Sign kl privk, cr_b58decode = kl_Decode58 kl,
     cr_unmarshal_key = kl_UnmarshalPublicKey kl, cr_verify = kl_Verify kl\<rparr>"

lemma authentic_anywhere: "authentic (identity_crypto kl marshal r) st \<longleftrightarrow> authentic (identity_crypto kl marshal r') st"
  by (simp add: authentic_def verifyStatement_def verifyStatementSig_def PublisherKey_def identity_crypto_def)

text \<open>What a node publishes with an identity it has made is accepted everywhere: the statement is returned by Get and passes the
  check and the signature verification of every other node, whatever key that node signs with itself.\<close>

theorem identity_signs:
  assumes "key_lib_ok kl" and "\<forall>r k. gen = Ok (r, k) \<longrightarrow> k = kl_GetPublic kl r"
    and "MakePublisherIdentity kl gen wr disk = (Ok (id58, q), disk')" and "\<And>st b. marshal st = Some b \<Longrightarrow> unmarshal b = Ok st"
    and "doPublish (identity_crypto kl marshal q) fl rord ts ns body (\<lparr>ID58 = id58, counter = c\<rparr>, db) = (Ok i, p', db')"
    and "i \<noteq> []" "id58 \<noteq> []" "ns \<noteq> []" "0 < ts" and "fl (db_time db') = None"
  shows "\<exists>st. fst (db_Get fl unmarshal i db') = Ok st \<and> Id st = i \<and> Publisher st = id58 \<and> Namespace st = ns \<and>
    authentic (identity_crypto kl marshal q') st"
proof -
  let ?cr = "identity_crypto kl marshal q"
  note pub = make_identity_stays [OF assms(1) allI [OF refl] assms(2) assms(3) [unfolded publisher_identity_defs]]
  have "PublisherKey ?cr id58 = Ok (kl_GetPublic kl q)"
    using PublisherID58_key [OF assms(1) pub(4)] by (simp add: PublisherKey_def publisher_key_def identity_crypto_def)
  then have "\<And>b sig. cr_sign ?cr b = Ok sig \<Longrightarrow> \<exists>k. PublisherKey ?cr (ID58 \<lparr>ID58 = id58, counter = c\<rparr>) = Ok k \<and> cr_verify ?cr k b (Some sig) = Ok True"
    using assms(1) by (simp add: key_lib_ok_def identity_crypto_def)
  from published_authentic [OF this _ assms(5), where unmarshal = unmarshal] assms(4,6-10)
  have "\<exists>st. fst (db_Get fl unmarshal i db') = Ok st \<and> Id st = i \<and> Publisher st = id58 \<and> Namespace st = ns \<and> authentic ?cr st"
    by (simp add: identity_crypto_def)
  with authentic_anywhere [of kl marshal q _ q'] show ?thesis by blast
qed

theorem identity_signs_witness:
  "\<exists>st db'. doPublish (identity_crypto sample_kl (cr_marshal publish_crypto) ''me'') (\<lambda>n. None) rev 7 ''ns'' sample_body
       (\<lparr>ID58 = ''me'', counter = 0\<rparr>, empty_db) = (Ok ''me:7:0'', \<lparr>ID58 = ''me'', counter = 1\<rparr>, db') \<and>
     fst (db_Get (\<lambda>n. None) publish_unmarshal ''me:7:0'' db') = Ok st \<and>
     authentic (identity_crypto sample_kl (cr_marshal publish_crypto) ''other'') st"
proof -
  let ?r = "doPublish (identity_crypto sample_kl (cr_marshal publish_crypto) ''me'') (\<lambda>n. None) rev 7 ''ns'' sample_body
    (\<lparr>ID58 = ''me'', counter = 0\<rparr>, empty_db)"
  have gen: "\<forall>r k. Ok (''me'', ''me'') = Ok (r, k) \<longrightarrow> k = kl_GetPublic sample_kl r" by (simp add: sample_kl_def)
  have pub: "MakePublisherIdentity sample_kl (Ok (''me'', ''me'')) (None, Absent) (\<lambda>n. Absent) =
      (Ok (''me'', ''me''), (\<lambda>n. Absent)(''identity.publisher'' := Contents ''me''))"
    by (simp add: publisher_identity_defs make_identity_def generate_identity_def saveKey_def WriteFile_def sample_kl_def PublisherID58_def)
  have trip: "cr_marshal publish_crypto st = Some b \<Longrightarrow> publish_unmarshal b = Ok st" for st b
    by (auto simp: publish_crypto_def publish_unmarshal_def split: if_splits)
  have "fst ?r = Ok ''me:7:0''" "fst (snd ?r) = \<lparr>ID58 = ''me'', counter = 1\<rparr>" by code_simp+
  then have r: "?r = (Ok ''me:7:0'', \<lparr>ID58 = ''me'', counter = 1\<rparr>, snd (snd ?r))" by (metis prod.collapse)
  show ?thesis
    using identity_signs [where unmarshal = publish_unmarshal and q' = "''other''", OF sample_kl_ok gen pub trip r] r by auto
qed

end
