(* ===== verification/Mcid.thy ===== *)
theory Mcid
  imports Identity Manifest Config Objects
begin

text \<open>
  The identity tool (\<open>mcid/main.go\<close>): the key pair of an entity in a passphrase protected file, signing
  manifests with it and verifying them. Key derivation and encryption, the prompts, the clock and the random bytes are
  parameters; a manifest file is the outcome of decoding it. What ends the program with a message is an error.
\<close>

section \<open>State\<close>

record ScryptParams =
  sp_N :: int
  sp_R :: int
  sp_P :: int

record PrivateId =
  pr_Params :: ScryptParams
  pr_Salt :: string
  pr_Nonce :: string
  pr_Data :: string

record Identity =
  id_Public :: EntityId
  id_Private :: PrivateId

definition ScryptN :: int where "ScryptN = 16384"
definition ScryptR :: int where "ScryptR = 8"
definition ScryptP :: int where "ScryptP = 1"

text \<open>Key derivation (passphrase, salt, parameters, length) and the secret box (text, nonce, key).\<close>

record secret_lib =
  sl_Key :: "string \<Rightarrow> string \<Rightarrow> int \<Rightarrow> int \<Rightarrow> int \<Rightarrow> int \<Rightarrow> string outcome"
  sl_Seal :: "string \<Rightarrow> string \<Rightarrow> string \<Rightarrow> string"
  sl_Open :: "string \<Rightarrow> string \<Rightarrow> string \<Rightarrow> string option"

definition secret_lib_ok :: "secret_lib \<Rightarrow> bool" where
  "secret_lib_ok sl \<longleftrightarrow> (\<forall>d n k. sl_Open sl (sl_Seal sl d n k) n k = Some d)"

text \<open>\<open>copy\<close> into a zeroed array of \<open>n\<close> bytes.\<close>

definition copy_into :: "nat \<Rightarrow> string \<Rightarrow> string" where
  "copy_into n bs = take n bs @ replicate (n - length bs) (CHR 0x00)"

lemma copy_into_same: "length bs = n \<Longrightarrow> copy_into n bs = bs"
  by (simp add: copy_into_def)

section \<open>Passphrases\<close>

text \<open>The list holds the results of the prompts, one after the other.\<close>

fun getEncryptionPass :: "string outcome list \<Rightarrow> string outcome" where
  "getEncryptionPass (Ok pass1 # Ok pass2 # prompts) = (if pass1 = pass2 then Ok pass1 else getEncryptionPass prompts)"
| "getEncryptionPass (Ok pass1 # Err e # prompts) = Err e"
| "getEncryptionPass (Ok pass1 # Panic m # prompts) = Panic m"
| "getEncryptionPass (Err e # prompts) = Err e"
| "getEncryptionPass (Panic m # prompts) = Panic m"
| "getEncryptionPass prompts = Err (ExtErr ''EOF'')"

fun getDecryptionPass :: "string outcome list \<Rightarrow> string outcome" where
  "getDecryptionPass (pass # prompts) = pass"
| "getDecryptionPass [] = Err (ExtErr ''EOF'')"

section \<open>The private key\<close>

definition encryptPrivateId ::
  "secret_lib \<Rightarrow> string outcome \<Rightarrow> string outcome \<Rightarrow> string outcome list \<Rightarrow> string \<Rightarrow> PrivateId outcome" where
  "encryptPrivateId sl rsalt rnonce prompts data =
     obind rsalt (\<lambda>salt.
     obind rnonce (\<lambda>nonce.
     obind (getEncryptionPass prompts) (\<lambda>pass.
     obind (sl_Key sl pass salt ScryptN ScryptR ScryptP 32) (\<lambda>xkey.
     Ok \<lparr>pr_Params = \<lparr>sp_N = ScryptN, sp_R = ScryptR, sp_P = ScryptP\<rparr>, pr_Salt = salt, pr_Nonce = nonce,
         pr_Data = sl_Seal sl data nonce (copy_into 32 xkey)\<rparr>))))"

definition decryptPrivateId :: "secret_lib \<Rightarrow> string outcome list \<Rightarrow> PrivateId \<Rightarrow> string outcome" where
  "decryptPrivateId sl prompts priv =
     obind (getDecryptionPass prompts) (\<lambda>pass.
     obind (sl_Key sl pass (pr_Salt priv) (sp_N (pr_Params priv)) (sp_R (pr_Params priv)) (sp_P (pr_Params priv)) 32) (\<lambda>xkey.
     (case sl_Open sl (pr_Data priv) (copy_into 24 (pr_Nonce priv)) (copy_into 32 xkey) of
        None \<Rightarrow> Err DecryptionError
      | Some bytes \<Rightarrow> Ok bytes)))"

definition getPrivateKey :: "('r, 'k, 'p) key_lib \<Rightarrow> secret_lib \<Rightarrow> string outcome list \<Rightarrow> PrivateId \<Rightarrow> 'r outcome" where
  "getPrivateKey kl sl prompts priv = obind (decryptPrivateId sl prompts priv) (kl_UnmarshalPrivateKey kl)"

section \<open>The identity file\<close>

definition enc_int :: "int \<Rightarrow> json" where
  "enc_int i = JNum (int_str i)"

fun dec_int :: "json \<Rightarrow> int outcome" where
  "dec_int (JNum s) = (case Atoi s of Ok i \<Rightarrow> Ok i | _ \<Rightarrow> json_err ''cannot unmarshal number into int'')"
| "dec_int v = json_err ''cannot unmarshal into int''"

definition enc_Identity :: "Identity \<Rightarrow> json" where
  "enc_Identity i =
     JObj [(''public'', enc_EntityId (id_Public i)),
           (''private'', JObj
             [(''params'', JObj [(''N'', enc_int (sp_N (pr_Params (id_Private i)))), (''R'', enc_int (sp_R (pr_Params (id_Private i)))),
                                (''P'', enc_int (sp_P (pr_Params (id_Private i))))]),
              (''salt'', JStr (b64_encode (pr_Salt (id_Private i)))), (''nonce'', JStr (b64_encode (pr_Nonce (id_Private i)))),
              (''data'', JStr (b64_encode (pr_Data (id_Private i))))])]"

text \<open>A struct is decoded onto the value the field has: its members that are present are set.\<close>

definition get_struct :: "('a \<Rightarrow> json \<Rightarrow> 'a outcome) \<Rightarrow> 'a \<Rightarrow> string \<Rightarrow> (string \<times> json) list \<Rightarrow> 'a outcome" where
  "get_struct dec zero name obj = ofold dec zero (json_fields name obj)"

definition dec_public :: "EntityId \<Rightarrow> json \<Rightarrow> EntityId outcome" where
  "dec_public e v =
     obind (dec_object v) (\<lambda>obj.
     obind (get_field dec_string (ei_KeyId e) ''keyId'' obj) (\<lambda>kid.
     obind (get_field dec_bytes (ei_Key e) ''key'' obj) (\<lambda>key. Ok \<lparr>ei_KeyId = kid, ei_Key = key\<rparr>)))"

definition dec_params :: "ScryptParams \<Rightarrow> json \<Rightarrow> ScryptParams outcome" where
  "dec_params p v =
     obind (dec_object v) (\<lambda>obj.
     obind (get_field dec_int (sp_N p) ''N'' obj) (\<lambda>n.
     obind (get_field dec_int (sp_R p) ''R'' obj) (\<lambda>r.
     obind (get_field dec_int (sp_P p) ''P'' obj) (\<lambda>q. Ok \<lparr>sp_N = n, sp_R = r, sp_P = q\<rparr>))))"

definition dec_private :: "PrivateId \<Rightarrow> json \<Rightarrow> PrivateId outcome" where
  "dec_private p v =
     obind (dec_object v) (\<lambda>obj.
     obind (get_struct dec_params (pr_Params p) ''params'' obj) (\<lambda>params.
     obind (get_field dec_bytes (pr_Salt p) ''salt'' obj) (\<lambda>salt.
     obind (get_field dec_bytes (pr_Nonce p) ''nonce'' obj) (\<lambda>nonce.
     obind (get_field dec_bytes (pr_Data p) ''data'' obj) (\<lambda>data.
     Ok \<lparr>pr_Params = params, pr_Salt = salt, pr_Nonce = nonce, pr_Data = data\<rparr>)))))"

definition zero_Identity :: Identity where
  "zero_Identity = \<lparr>id_Public = \<lparr>ei_KeyId = [], ei_Key = []\<rparr>,
     id_Private = \<lparr>pr_Params = \<lparr>sp_N = 0, sp_R = 0, sp_P = 0\<rparr>, pr_Salt = [], pr_Nonce = [], pr_Data = []\<rparr>\<rparr>"

definition dec_Identity :: "json \<Rightarrow> Identity outcome" where
  "dec_Identity v =
     (if v = JNull then Ok zero_Identity
      else obind (dec_object v) (\<lambda>obj.
           obind (get_struct dec_public (id_Public zero_Identity) ''public'' obj) (\<lambda>public.
           obind (get_struct dec_private (id_Private zero_Identity) ''private'' obj) (\<lambda>private.
           Ok \<lparr>id_Public = public, id_Private = private\<rparr>))))"

section \<open>Commands\<close>

definition generateIdentity ::
  "('r, 'k, 'p) key_lib \<Rightarrow> secret_lib \<Rightarrow> (string \<Rightarrow> string) \<Rightarrow> unit outcome \<Rightarrow> ('r \<times> 'k) outcome \<Rightarrow> string outcome \<Rightarrow> string outcome \<Rightarrow>
   string outcome list \<Rightarrow> (json \<Rightarrow> unit outcome \<times> conf_file) \<Rightarrow> conf_file \<Rightarrow> Identity outcome \<times> conf_file" where
  "generateIdentity kl sl digest mkdir gen rsalt rnonce prompts write file =
     (case obind mkdir (\<lambda>_. obind gen (\<lambda>(privk, pubk).
             obind (kl_pubBytes kl pubk) (\<lambda>pubbytes.
             obind (kl_privBytes kl privk) (\<lambda>privbytes.
             obind (encryptPrivateId sl rsalt rnonce prompts privbytes) (\<lambda>priv.
             Ok \<lparr>id_Public = \<lparr>ei_KeyId = kl_Encode58 kl (Hash digest pubbytes), ei_Key = pubbytes\<rparr>, id_Private = priv\<rparr>))))) of
        Ok i \<Rightarrow>
          (case write (enc_Identity i) of
             (Ok u, file') \<Rightarrow> (Ok i, file')
           | (Err e, file') \<Rightarrow> (Err e, file')
           | (Panic m, file') \<Rightarrow> (Panic m, file'))
      | Err e \<Rightarrow> (Err e, file)
      | Panic m \<Rightarrow> (Panic m, file))"

fun loadIdentity :: "conf_file \<Rightarrow> Identity outcome" where
  "loadIdentity (ConfFile v) = dec_Identity v"
| "loadIdentity BadFile = json_err ''invalid''"
| "loadIdentity (Config.Unreadable e) = Err e"
| "loadIdentity NoFile = Err (ExtErr ''no such file or directory'')"

text \<open>\<open>generate\<close> is the generation of an identity, \<open>generateIdentity\<close>. Whether reading the file fails is known when it is looked at.\<close>

definition getIdentity ::
  "(conf_file \<Rightarrow> Identity outcome \<times> conf_file) \<Rightarrow> bool \<Rightarrow> conf_file \<Rightarrow> Identity outcome \<times> conf_file" where
  "getIdentity generate genid file =
     (if file = NoFile \<and> genid then generate file else (loadIdentity file, file))"

definition fatal :: "string \<Rightarrow> 'a outcome \<Rightarrow> 'a outcome" where
  "fatal what r = (case r of Err e \<Rightarrow> Err (ExtErr (what @ '': '' @ err_text e)) | _ \<Rightarrow> r)"

definition doId :: "(conf_file \<Rightarrow> Identity outcome \<times> conf_file) \<Rightarrow> conf_file \<Rightarrow> json outcome \<times> conf_file" where
  "doId generate file =
     (case getIdentity generate True file of
        (r, file') \<Rightarrow> (obind (fatal ''Error retrieving identity'' r) (\<lambda>i. Ok (enc_EntityId (id_Public i))), file'))"

text \<open>The library signs with the private key what the manifest marshals to without a signature.\<close>

definition doSign ::
  "('r, 'k, 'p) key_lib \<Rightarrow> secret_lib \<Rightarrow> 'k manifest_lib \<Rightarrow> int \<Rightarrow> string outcome list \<Rightarrow> conf_file \<Rightarrow> string \<Rightarrow> manifest_body outcome \<Rightarrow>
   manifest outcome" where
  "doSign kl sl ml now prompts file entity body =
     obind (fatal ''Error decoding manifest body'' body) (\<lambda>manifestBody.
     obind (fatal ''Bad entity'' (CheckEntityId entity)) (\<lambda>_.
     obind (fatal ''Error retrieving identity'' (fst (getIdentity (\<lambda>f. (loadIdentity f, f)) False file))) (\<lambda>i.
     obind (fatal ''Error decrypting private key'' (getPrivateKey kl sl prompts (id_Private i))) (\<lambda>privk.
     let mf = \<lparr>mf_Entity = entity, mf_KeyId = ei_KeyId (id_Public i), mf_Body = Some manifestBody, mf_Timestamp = now, mf_Signature = None\<rparr> in
     obind (fatal ''Error marshalling manifest'' (ml_marshal ml mf)) (\<lambda>bytes.
     obind (fatal ''Error signing manifest'' (kl_Sign kl privk bytes)) (\<lambda>sig.
     Ok (mf\<lparr>mf_Signature := Some sig\<rparr>)))))))"

definition doVerify :: "'k manifest_lib \<Rightarrow> 'k entity_env \<Rightarrow> manifest outcome \<Rightarrow> unit outcome" where
  "doVerify ml env mf =
     obind (fatal ''Error decoding manifest'' mf) (\<lambda>m.
     obind (fatal ''Error looking up entity key'' (LookupEntityKey env (mf_Entity m) (mf_KeyId m))) (\<lambda>pubk.
     obind (fatal ''Error marshalling manifest'' (ml_marshal ml (m\<lparr>mf_Signature := None\<rparr>))) (\<lambda>bytes.
     obind (fatal ''Error verifying manifest'' (ml_verify ml pubk bytes (mf_Signature m))) (\<lambda>v.
     if v then Ok () else Err (ExtErr ''Manifest verification failed'')))))"

section \<open>Correctness\<close>

lemma fatal_Ok [simp]: "fatal what r = Ok x \<longleftrightarrow> r = Ok x" "fatal what (Ok x) = Ok x"
  by (cases r; simp add: fatal_def) (simp add: fatal_def)

lemma Atoi_enc_int: "0 \<le> i \<Longrightarrow> i \<le> int64_max \<Longrightarrow> dec_int (enc_int i) = Ok i"
  by (simp add: enc_int_def Atoi_int_str)

definition identity_ok :: "Identity \<Rightarrow> bool" where
  "identity_ok i \<longleftrightarrow> valid_utf8 (ei_KeyId (id_Public i)) \<and>
     (\<forall>n \<in> {sp_N (pr_Params (id_Private i)), sp_R (pr_Params (id_Private i)), sp_P (pr_Params (id_Private i))}. 0 \<le> n \<and> n \<le> int64_max)"

lemma dec_enc_Identity: "identity_ok i \<Longrightarrow> dec_Identity (enc_Identity i) = Ok i"
  by (simp add: dec_Identity_def enc_Identity_def get_struct_def get_field_def json_fields_def lower_char_def dec_public_def
      dec_private_def dec_params_def enc_EntityId_def enc_string_def valid_utf8_def b64_roundtrip identity_ok_def Atoi_enc_int enc_int_def Atoi_int_str)

lemma LookupEntityKey_keybase:
  assumes "CheckEntityId (''keybase:'' @ user) = Ok ()"
  shows "LookupEntityKey env (''keybase:'' @ user) keyId = lookupKeybase env user keyId"
proof -
  have "Index (''keybase:'' @ user) (CHR '':'') = Some 7" using Index_append [of "CHR '':''" "''keybase''" user] by simp
  then show ?thesis using assms by (simp add: LookupEntityKey_def)
qed

text \<open>The identity that is generated: its key, and that its passphrase opens it.\<close>

lemma generateIdentity_Ok:
  assumes "generateIdentity kl sl digest mkdir gen rsalt rnonce prompts write_ok file = (Ok i, file')"
    and "key_lib_ok kl" "secret_lib_ok sl" "\<forall>nonce. rnonce = Ok nonce \<longrightarrow> length nonce = 24"
    and "gen = Ok (r, kl_GetPublic kl r)" and "getDecryptionPass prompts' = getEncryptionPass prompts"
  shows "file' = ConfFile (enc_Identity i) \<and>
    (\<exists>bytes. ei_Key (id_Public i) = bytes \<and> kl_pubBytes kl (kl_GetPublic kl r) = Ok bytes \<and>
       ei_KeyId (id_Public i) = kl_Encode58 kl (Hash digest bytes) \<and> getPrivateKey kl sl prompts' (id_Private i) = Ok r) \<and>
    pr_Params (id_Private i) = \<lparr>sp_N = ScryptN, sp_R = ScryptR, sp_P = ScryptP\<rparr>"
proof -
  from assms(1) obtain privk pubk pubbytes privbytes priv where g: "gen = Ok (privk, pubk)" "kl_pubBytes kl pubk = Ok pubbytes"
    "kl_privBytes kl privk = Ok privbytes" "encryptPrivateId sl rsalt rnonce prompts privbytes = Ok priv"
    "i = \<lparr>id_Public = \<lparr>ei_KeyId = kl_Encode58 kl (Hash digest pubbytes), ei_Key = pubbytes\<rparr>, id_Private = priv\<rparr>"
    "file' = ConfFile (enc_Identity i)"
    by (auto simp: generateIdentity_def write_ok_def split: outcome.splits prod.splits)
  from g(4) obtain salt nonce pass xkey where e: "rnonce = Ok nonce" "getEncryptionPass prompts = Ok pass"
    "sl_Key sl pass salt ScryptN ScryptR ScryptP 32 = Ok xkey"
    "priv = \<lparr>pr_Params = \<lparr>sp_N = ScryptN, sp_R = ScryptR, sp_P = ScryptP\<rparr>, pr_Salt = salt, pr_Nonce = nonce,
         pr_Data = sl_Seal sl privbytes nonce (copy_into 32 xkey)\<rparr>"
    by (auto simp: encryptPrivateId_def)
  have [simp]: "privk = r" "pubk = kl_GetPublic kl r" using g(1) assms(5) by auto
  moreover have "getPrivateKey kl sl prompts' priv = Ok privk"
    using e assms(2,3,4,6) g(3) by (simp add: getPrivateKey_def decryptPrivateId_def copy_into_same secret_lib_ok_def key_lib_ok_def)
  ultimately show ?thesis using g(2,5,6) e(4) by auto
qed

text \<open>The manifest of an entity before it is signed.\<close>

definition draft :: "string \<Rightarrow> manifest_body \<Rightarrow> int \<Rightarrow> string \<Rightarrow> manifest" where
  "draft entity body now kid = \<lparr>mf_Entity = entity, mf_KeyId = kid, mf_Body = Some body, mf_Timestamp = now, mf_Signature = None\<rparr>"

text \<open>C27: The identity tool, the key providers and the directory fit together: when an entity generates an identity and publishes the
  output of \<open>id\<close> on its Keybase page, then every later run prints the same page and, given the passphrase, recovers from the file the very
  private key that was generated; a manifest that is signed with it (whenever marshalling and the signature itself succeed) carries
  the entity, the body and the time it was given, \<open>verify\<close> accepts it, and a directory that
  looks up the key of the manifest finds the public key of that private key, under which it verifies.\<close>

theorem mcid_sign_verifies:
  assumes "key_lib_ok kl" "secret_lib_ok sl" "gen = Ok (r, kl_GetPublic kl r)"
    and "\<forall>nonce. rnonce = Ok nonce \<longrightarrow> length nonce = 24" "getDecryptionPass prompts' = getEncryptionPass prompts"
    and "doId (generateIdentity kl sl digest mkdir gen rsalt rnonce prompts write_ok) NoFile = (Ok page, file)"
    and "CheckEntityId (''keybase:'' @ user) = Ok ()"
    and "\<forall>kid. \<exists>bytes sig. ml_marshal ml (draft (''keybase:'' @ user) manifestBody now kid) = Ok bytes \<and> kl_Sign kl r bytes = Ok sig"
    and "\<forall>k b. kl_pubBytes kl k = Ok b \<longrightarrow> valid_utf8 (kl_Encode58 kl (Hash digest b))"
    and "ee_get env (''https://'' @ user @ ''.keybase.pub/mediachain.json'') = Ok (200, ''200 OK'', Some page)"
    and "\<And>b. ee_FromB58 env (kl_Encode58 kl (Hash digest b)) = Ok (Hash digest b) \<and> ee_Sum env b (CHR 0x12) = Ok (Hash digest b)"
    and "ee_UnmarshalKey env = kl_UnmarshalPublicKey kl" "ml_verify ml = kl_Verify kl"
  shows "(\<forall>gen'. doId gen' file = (Ok page, file)) \<and>
    (\<exists>i. loadIdentity file = Ok i \<and> getPrivateKey kl sl prompts' (id_Private i) = Ok r) \<and>
    (\<exists>mf. doSign kl sl ml now prompts' file (''keybase:'' @ user) (Ok manifestBody) = Ok mf \<and>
       mf\<lparr>mf_Signature := None\<rparr> = draft (''keybase:'' @ user) manifestBody now (mf_KeyId mf) \<and>
       doVerify ml env (Ok mf) = Ok () \<and>
       LookupEntityKey env (mf_Entity mf) (mf_KeyId mf) = Ok (kl_GetPublic kl r) \<and>
       verifyManifest ml mf (kl_GetPublic kl r) = Ok True)"
proof -
  from assms(6) obtain i where i: "generateIdentity kl sl digest mkdir gen rsalt rnonce prompts write_ok NoFile = (Ok i, file)"
    "page = enc_EntityId (id_Public i)"
    by (auto simp: doId_def getIdentity_def split: prod.splits)
  let ?k = "kl_GetPublic kl r"
  from generateIdentity_Ok [OF i(1) assms(1,2,4,3,5)] obtain bytes where conf: "file = ConfFile (enc_Identity i)"
    and key: "ei_Key (id_Public i) = bytes" "kl_pubBytes kl ?k = Ok bytes"
      "ei_KeyId (id_Public i) = kl_Encode58 kl (Hash digest bytes)" "getPrivateKey kl sl prompts' (id_Private i) = Ok r"
    and params: "pr_Params (id_Private i) = \<lparr>sp_N = ScryptN, sp_R = ScryptR, sp_P = ScryptP\<rparr>" by blast
  have "identity_ok i"
    using assms(9) key(2) by (auto simp: identity_ok_def key(3) params ScryptN_def ScryptR_def ScryptP_def int64_max_def)
  then have load: "loadIdentity file = Ok i" by (simp add: conf dec_enc_Identity)
  let ?kid = "ei_KeyId (id_Public i)"
  from assms(8) obtain b sig where sg: "ml_marshal ml (draft (''keybase:'' @ user) manifestBody now ?kid) = Ok b" "kl_Sign kl r b = Ok sig" by blast
  let ?mf = "(draft (''keybase:'' @ user) manifestBody now ?kid)\<lparr>mf_Signature := Some sig\<rparr>"
  have unsig: "?mf\<lparr>mf_Signature := None\<rparr> = draft (''keybase:'' @ user) manifestBody now ?kid" "mf_KeyId ?mf = ?kid" "mf_Entity ?mf = ''keybase:'' @ user" "mf_Signature ?mf = Some sig"
    by (simp_all add: draft_def)
  have signed: "doSign kl sl ml now prompts' file (''keybase:'' @ user) (Ok manifestBody) = Ok ?mf"
    using load key(4) assms(7) sg by (simp add: doSign_def getIdentity_def Let_def conf flip: draft_def)
  have "ee_UnmarshalKey env bytes = Ok ?k" using assms(1,12) key(2) by (simp add: key_lib_ok_def)
  then have "lookupKeybase env user ?kid = Ok ?k"
    using lookupKeybase_finds [of env ?kid "CHR 0x12" "CHR 0x20 # digest bytes" bytes ?k user] assms(9-11) key i(2)
    by (cases "id_Public i") (simp add: Hash_def)
  then have look: "LookupEntityKey env (mf_Entity ?mf) (mf_KeyId ?mf) = Ok ?k"
    using LookupEntityKey_keybase [OF assms(7), of env] unsig by simp
  have ver: "ml_verify ml ?k b (mf_Signature ?mf) = Ok True"
    using sg(2) assms(1,13) unsig by (simp add: key_lib_ok_def)
  have same: "doId gen' file = (Ok page, file)" for gen'
    using load i(2) by (simp add: doId_def getIdentity_def conf)
  have "doVerify ml env (Ok ?mf) = Ok ()" using look sg(1) ver unsig by (simp add: doVerify_def)
  moreover have "verifyManifest ml ?mf ?k = Ok True" using sg(1) ver unsig by (simp add: verifyManifest_def)
  ultimately show ?thesis using same load key(4) signed look unsig(1,2) by metis
qed

text \<open>A secret box that is the key, the nonce and the text, and a digest that is constant.\<close>

definition sample_sl :: secret_lib where
  "sample_sl = \<lparr>sl_Key = (\<lambda>pass salt n r p len. Ok (pass @ salt)), sl_Seal = (\<lambda>d n k. k @ n @ d),
     sl_Open = (\<lambda>c n k. if HasPrefix c (k @ n) then Some (drop (length (k @ n)) c) else None)\<rparr>"

lemma sample_sl_ok: "secret_lib_ok sample_sl"
  by (simp add: secret_lib_ok_def sample_sl_def HasPrefix_code)

definition mcid_generate :: "conf_file \<Rightarrow> Identity outcome \<times> conf_file" where
  "mcid_generate = generateIdentity sample_kl sample_sl (\<lambda>b. ''d'') (Ok ()) (Ok (''key'', ''key'')) (Ok ''salt'') (Ok (replicate 24 (CHR ''n'')))
     [Ok ''typo'', Ok ''pass'', Ok ''pass'', Ok ''pass''] write_ok"

definition mcid_lib :: "string manifest_lib" where
  "mcid_lib = \<lparr>ml_marshal = (\<lambda>mf. Ok (mf_Entity mf)), ml_hash58 = (\<lambda>b. b), ml_verify = kl_Verify sample_kl\<rparr>"

definition mcid_page :: json where
  "mcid_page = enc_EntityId \<lparr>ei_KeyId = Hash (\<lambda>b. ''d'') ''key'', ei_Key = ''key''\<rparr>"

definition mcid_env :: "string entity_env" where
  "mcid_env = sample_providers\<lparr>ee_Sum := (\<lambda>key code. Ok (Hash (\<lambda>b. ''d'') key)), ee_UnmarshalKey := kl_UnmarshalPublicKey sample_kl,
     ee_get := (\<lambda>url. Ok (200, ''200 OK'', Some mcid_page))\<rparr>"

definition mcid_signed :: "manifest outcome" where
  "mcid_signed = doSign sample_kl sample_sl mcid_lib 7 [Ok ''pass''] (snd (mcid_generate NoFile)) (''keybase:'' @ ''vyzo'')
     (Ok (ManifestBody (Some \<lparr>nm_Peer = ''QmA'', nm_Publisher = ''P''\<rparr>)))"

theorem mcid_sign_verifies_witness:
  "\<exists>mf. mcid_signed = Ok mf \<and> mf_Timestamp mf = 7 \<and> doVerify mcid_lib mcid_env (Ok mf) = Ok ()"
proof -
  have gen: "Ok (''key'', ''key'') = Ok (''key'', kl_GetPublic sample_kl ''key'')" by (simp add: sample_kl_def)
  have pass: "getDecryptionPass [Ok ''pass''] = getEncryptionPass [Ok ''typo'', Ok ''pass'', Ok ''pass'', Ok ''pass'']" by code_simp
  have id: "doId mcid_generate NoFile = (Ok mcid_page, snd (mcid_generate NoFile))"
    by (simp add: doId_def getIdentity_def mcid_generate_def generateIdentity_def encryptPrivateId_def sample_kl_def sample_sl_def write_ok_def mcid_page_def)
  have check: "CheckEntityId (''keybase:'' @ ''vyzo'') = Ok ()" by code_simp
  have lib: "\<forall>kid. \<exists>bytes sig. ml_marshal mcid_lib
      (draft (''keybase:'' @ ''vyzo'') (ManifestBody (Some \<lparr>nm_Peer = ''QmA'', nm_Publisher = ''P''\<rparr>)) 7 kid) = Ok bytes \<and>
      kl_Sign sample_kl ''key'' bytes = Ok sig"
    by (simp add: mcid_lib_def sample_kl_def)
  have utf: "\<forall>k b. kl_pubBytes sample_kl k = Ok b \<longrightarrow> valid_utf8 (kl_Encode58 sample_kl (Hash (\<lambda>b. ''d'') b))"
    by (simp add: sample_kl_def Hash_def) (simp add: ascii_valid is_ascii_def)
  have nonce: "\<forall>nonce. Ok (replicate 24 (CHR ''n'')) = Ok nonce \<longrightarrow> length nonce = 24" by auto
  have env: "ee_get mcid_env (''https://'' @ ''vyzo'' @ ''.keybase.pub/mediachain.json'') = Ok (200, ''200 OK'', Some mcid_page)"
    "ee_FromB58 mcid_env (kl_Encode58 sample_kl (Hash (\<lambda>b. ''d'') b)) = Ok (Hash (\<lambda>b. ''d'') b) \<and>
      ee_Sum mcid_env b (CHR 0x12) = Ok (Hash (\<lambda>b. ''d'') b)"
    "ee_UnmarshalKey mcid_env = kl_UnmarshalPublicKey sample_kl" "ml_verify mcid_lib = kl_Verify sample_kl" for b
    by (simp_all add: mcid_env_def sample_providers_def sample_kl_def mcid_lib_def)
  from mcid_sign_verifies [OF sample_kl_ok sample_sl_ok gen nonce pass id [unfolded mcid_generate_def] check lib utf env]
  obtain mf where "doSign sample_kl sample_sl mcid_lib 7 [Ok ''pass''] (snd (mcid_generate NoFile)) (''keybase:'' @ ''vyzo'')
      (Ok (ManifestBody (Some \<lparr>nm_Peer = ''QmA'', nm_Publisher = ''P''\<rparr>))) = Ok mf"
    "doVerify mcid_lib mcid_env (Ok mf) = Ok ()" "mf\<lparr>mf_Signature := None\<rparr> = draft (''keybase:'' @ ''vyzo'') (ManifestBody (Some \<lparr>nm_Peer = ''QmA'', nm_Publisher = ''P''\<rparr>)) 7 (mf_KeyId mf)"
    unfolding mcid_generate_def by blast
  moreover from this(3) have "mf_Timestamp mf = 7" by (cases mf) (simp add: draft_def)
  ultimately show ?thesis unfolding mcid_signed_def by blast
qed

end
