(* ===== verification/Dht.thy ===== *)
theory Dht
  imports Peers Objects
begin

text \<open>
  The node's use of the DHT (\<open>mcnode/dht.go\<close>): keeping connections to bootstrap peers, and its lookups. The Kademlia client,
  the host and the random permutation are parameters.
\<close>

section \<open>Bootstrap peers\<close>

definition DHTMinPeers :: nat where "DHTMinPeers = 4"
definition DHTMinBootstrapPeers :: nat where "DHTMinBootstrapPeers = 2"

definition DHTBootstrapPeers :: "string list" where
  "DHTBootstrapPeers =
    [''/ip4/104.131.131.82/tcp/4001/p2p/QmaCpDMGvV2BGHeYERUEnRQAwe3N8SzbUtfsmvsqQLuvuJ'',
     ''/ip4/104.236.176.52/tcp/4001/p2p/QmSoLnSGccFuZQJzRadHn95W2CrSFmZuTdDWP8HXaHca9z'',
     ''/ip4/104.236.179.241/tcp/4001/p2p/QmSoLPppuBtQSGwKDZT2M73ULpjvfd3aZ6ha4oFGL1KrGM'',
     ''/ip4/162.243.248.213/tcp/4001/p2p/QmSoLueR4xBeUbY9WZ9xGUUxunbKWcrNFTDAadQJmocnWm'',
     ''/ip4/128.199.219.111/tcp/4001/p2p/QmSoLSafTMBsPKadTEgaXctDQVcqN88CNLHXMkTNwMKPnu'',
     ''/ip4/104.236.76.40/tcp/4001/p2p/QmSoLV4Bbm51jM9C4gDYZQ9Cy3U6aXMJDAbzgu2fzaDs64'',
     ''/ip4/178.62.158.247/tcp/4001/p2p/QmSoLer265NRgSp2LA3dPaeykiS1J6DifTC88f5uVQKNAd'',
     ''/ip4/178.62.61.185/tcp/4001/p2p/QmSoLMeWqB7YGVLJN3pNLQpmmEk35v6wYtsMGLzSr5QBU3'',
     ''/ip4/104.236.151.122/tcp/4001/p2p/QmSoLju6m7xTh3DuokvT3886QRYqxAzb1kShaanJgW36yx'']"

text \<open>The parsed peers; a failure ends the program when it starts.\<close>

definition DHTBootstrapPeerInfo :: "('p, 'a) net_lib \<Rightarrow> ('p, 'a) peer_info list outcome" where
  "DHTBootstrapPeerInfo nl = omap (ParseHandle nl) DHTBootstrapPeers"

definition countBootstrapPeers :: "('p, 'a) peer_info list \<Rightarrow> 'p list \<Rightarrow> nat" where
  "countBootstrapPeers boot peers = foldl (\<lambda>count pid. if pid \<in> pi_ID ` set boot then count + 1 else count) 0 peers"

text \<open>\<open>perm\<close> is what \<open>rand.Perm\<close> returns.\<close>

definition randomBootstrapPeers :: "nat list \<Rightarrow> ('p, 'a) peer_info list \<Rightarrow> nat \<Rightarrow> ('p, 'a) peer_info list" where
  "randomBootstrapPeers perm boot count =
     (if count \<ge> length boot then boot else map (\<lambda>y. boot ! y) (take count perm))"

definition perm_ok :: "nat list \<Rightarrow> nat \<Rightarrow> bool" where
  "perm_ok perm n \<longleftrightarrow> length perm = n \<and> distinct perm \<and> set perm = {0 ..< n}"

section \<open>Staying connected\<close>

text \<open>
  The list holds the peers the host is connected to. \<open>connect\<close> is the outcome of connecting to a peer,
  which is only logged.
\<close>

fun bootstrapConnect :: "(('p, 'a) peer_info \<Rightarrow> unit outcome) \<Rightarrow> ('p, 'a) peer_info list \<Rightarrow> 'p list \<Rightarrow> 'p list" where
  "bootstrapConnect connect [] conns = conns"
| "bootstrapConnect connect (peer # peers) conns =
     bootstrapConnect connect peers
       (case connect peer of Ok u \<Rightarrow> (if pi_ID peer \<in> set conns then conns else pi_ID peer # conns) | _ \<Rightarrow> conns)"

definition bootstrapTick ::
  "nat list \<Rightarrow> (('p, 'a) peer_info \<Rightarrow> unit outcome) \<Rightarrow> ('p, 'a) peer_info list \<Rightarrow> 'p list \<Rightarrow> 'p list" where
  "bootstrapTick perm connect boot peers =
     (if length peers < DHTMinPeers
      then bootstrapConnect connect (randomBootstrapPeers perm boot DHTMinPeers) peers
      else if countBootstrapPeers boot peers < DHTMinBootstrapPeers
      then bootstrapConnect connect (randomBootstrapPeers perm boot DHTMinBootstrapPeers) peers
      else peers)"

section \<open>Operations\<close>

text \<open>The client and the process that ticks; \<open>closed\<close> is the outcome of closing the client.\<close>

record dht_state =
  dht_bootp :: bool
  dht_closed :: bool

definition dht_Bootstrap :: "unit outcome \<Rightarrow> dht_state \<Rightarrow> unit outcome \<times> dht_state" where
  "dht_Bootstrap r s = (case r of Ok u \<Rightarrow> (Ok (), s\<lparr>dht_bootp := True\<rparr>) | _ \<Rightarrow> (r, s))"

definition dht_Close :: "unit outcome \<Rightarrow> dht_state \<Rightarrow> unit outcome \<times> dht_state" where
  "dht_Close closed s = (closed, s\<lparr>dht_bootp := False, dht_closed := True\<rparr>)"

definition ErrNotFound :: go_error where
  "ErrNotFound = ExtErr ''routing: not found''"

definition dht_Lookup :: "('p, 'a) net_lib \<Rightarrow> ('p \<Rightarrow> ('p, 'a) peer_info outcome) \<Rightarrow> 'p \<Rightarrow> ('p, 'a) peer_info outcome" where
  "dht_Lookup nl FindPeer pid =
     (case FindPeer pid of
        Ok pinfo \<Rightarrow> Ok (pinfo\<lparr>pi_Addrs := FilterAddrs (pi_Addrs pinfo) (IsRoutableAddr nl)\<rparr>)
      | Err e \<Rightarrow> Err (if e = ErrNotFound then UnknownPeer else e)
      | Panic m \<Rightarrow> Panic m)"

text \<open>A rendezvous is the content id of the hash of its name. \<open>cid\<close> makes one of a hash.\<close>

definition dht_Provide :: "(string \<Rightarrow> string) \<Rightarrow> (string \<Rightarrow> 'c) \<Rightarrow> ('c \<Rightarrow> unit outcome) \<Rightarrow> string \<Rightarrow> unit outcome" where
  "dht_Provide digest cid provide key = provide (cid (Hash digest key))"

definition dht_FindProviders :: "(string \<Rightarrow> string) \<Rightarrow> (string \<Rightarrow> 'c) \<Rightarrow> ('c \<Rightarrow> ('p, 'a) peer_info list) \<Rightarrow> string \<Rightarrow> ('p, 'a) peer_info list" where
  "dht_FindProviders digest cid findp key = findp (cid (Hash digest key))"

section \<open>Correctness\<close>

lemma countBootstrapPeers_filter: "countBootstrapPeers boot peers = length (filter (\<lambda>pid. pid \<in> pi_ID ` set boot) peers)"
proof -
  have "foldl (\<lambda>count pid. if pid \<in> pi_ID ` set boot then count + 1 else count) n peers =
    n + length (filter (\<lambda>pid. pid \<in> pi_ID ` set boot) peers)" for n :: nat
    by (induction peers arbitrary: n) simp_all
  then show ?thesis by (simp add: countBootstrapPeers_def)
qed

lemma bootstrapConnect_set:
  "set (bootstrapConnect connect peers conns) = set conns \<union> pi_ID ` {peer \<in> set peers. connect peer = Ok ()}"
  by (induction connect peers conns rule: bootstrapConnect.induct) (auto split: outcome.split)

lemma bootstrapConnect_distinct: "distinct conns \<Longrightarrow> distinct (bootstrapConnect connect peers conns)"
  by (induction connect peers conns rule: bootstrapConnect.induct) (auto split: outcome.split)

lemma randomBootstrapPeers_ok:
  assumes "perm_ok perm (length boot)" "distinct boot"
  shows "set (randomBootstrapPeers perm boot count) \<subseteq> set boot" "distinct (randomBootstrapPeers perm boot count)"
    "length (randomBootstrapPeers perm boot count) = min count (length boot)"
proof -
  have perm: "set (take count perm) \<subseteq> {0 ..< length boot}" "distinct (take count perm)"
    using assms(1) set_take_subset [of count perm] by (auto simp: perm_ok_def)
  show "set (randomBootstrapPeers perm boot count) \<subseteq> set boot"
    using perm(1) by (auto simp: randomBootstrapPeers_def)
  show "distinct (randomBootstrapPeers perm boot count)"
    using perm assms(2) by (auto simp: randomBootstrapPeers_def distinct_map intro!: inj_onI) (metis nth_eq_iff_index_eq subset_eq atLeastLessThan_iff)
  show "length (randomBootstrapPeers perm boot count) = min count (length boot)"
    using assms(1) by (auto simp: randomBootstrapPeers_def perm_ok_def)
qed

text \<open>The peers that are connected to after asking for \<open>count\<close> of them.\<close>

lemma connected_count:
  assumes "perm_ok perm (length boot)" "distinct (map pi_ID boot)" "\<forall>peer \<in> set boot. connect peer = Ok ()" "distinct conns" "count \<le> length boot"
  shows "count \<le> countBootstrapPeers boot (bootstrapConnect connect (randomBootstrapPeers perm boot count) conns)"
proof -
  let ?chosen = "randomBootstrapPeers perm boot count" and ?conns = "bootstrapConnect connect (randomBootstrapPeers perm boot count) conns"
  from assms(2) have "distinct boot" by (simp add: distinct_map)
  note chosen = randomBootstrapPeers_ok [OF assms(1) this, of count]
  have "inj_on pi_ID (set boot)" using assms(2) by (simp add: distinct_map)
  then have "card (pi_ID ` set ?chosen) = card (set ?chosen)" using chosen(1) by (auto intro: card_image inj_on_subset)
  also have "\<dots> = count" using chosen(2,3) assms(5) by (simp add: distinct_card)
  finally have "count = card (pi_ID ` set ?chosen)" by simp
  also have "\<dots> \<le> card {pid \<in> set ?conns. pid \<in> pi_ID ` set boot}"
    using chosen(1) assms(3) by (intro card_mono) (auto simp: bootstrapConnect_set)
  also have "\<dots> = countBootstrapPeers boot ?conns"
    using distinct_card [OF distinct_filter [OF bootstrapConnect_distinct [OF assms(4)]]] by (simp add: countBootstrapPeers_filter)
  finally show ?thesis .
qed

text \<open>C28: One tick keeps a node in the network: when the bootstrap peers can be reached the host has at least four peers after it, two of them
  bootstrap peers, unless it had enough before and nothing is done; no connection is lost, only bootstrap
  peers are connected to, and the next tick does nothing.\<close>

theorem bootstrap_tick:
  assumes "perm_ok perm (length boot)" "distinct (map pi_ID boot)" "4 \<le> length boot" "\<forall>peer \<in> set boot. connect peer = Ok ()" "distinct conns"
  defines "conns' \<equiv> bootstrapTick perm connect boot conns"
  shows "4 \<le> length conns' \<and> 2 \<le> countBootstrapPeers boot conns' \<and> set conns \<subseteq> set conns' \<and> set conns' \<subseteq> set conns \<union> pi_ID ` set boot \<and>
    distinct conns' \<and> bootstrapTick perm' connect' boot conns' = conns' \<and>
    (4 \<le> length conns \<and> 2 \<le> countBootstrapPeers boot conns \<longrightarrow> conns' = conns)"
proof -
  have len: "countBootstrapPeers boot cs \<le> length cs" for cs by (simp add: countBootstrapPeers_filter)
  have sub: "set (randomBootstrapPeers perm boot count) \<subseteq> set boot" for count
    using randomBootstrapPeers_ok(1) [OF assms(1)] assms(2) by (simp add: distinct_map)
  have grow: "length conns \<le> length (bootstrapConnect connect ps conns)" for ps
  proof -
    have "card (set conns) \<le> card (set (bootstrapConnect connect ps conns))" by (intro card_mono) (auto simp: bootstrapConnect_set)
    then show ?thesis by (simp only: distinct_card [OF assms(5)] distinct_card [OF bootstrapConnect_distinct [OF assms(5)]])
  qed
  have four: "4 \<le> countBootstrapPeers boot (bootstrapConnect connect (randomBootstrapPeers perm boot 4) conns)"
    and two: "2 \<le> countBootstrapPeers boot (bootstrapConnect connect (randomBootstrapPeers perm boot 2) conns)"
    using connected_count [OF assms(1,2,4,5)] assms(3) by simp_all
  have "4 \<le> length conns' \<and> 2 \<le> countBootstrapPeers boot conns'"
    using four two grow [of "randomBootstrapPeers perm boot 2"] len [of "bootstrapConnect connect (randomBootstrapPeers perm boot 4) conns"]
    by (auto simp: conns'_def bootstrapTick_def DHTMinPeers_def DHTMinBootstrapPeers_def)
  moreover from this have "bootstrapTick perm' connect' boot conns' = conns'"
    by (simp add: bootstrapTick_def DHTMinPeers_def DHTMinBootstrapPeers_def)
  moreover have "set conns \<subseteq> set conns'" "set conns' \<subseteq> set conns \<union> pi_ID ` set boot" "distinct conns'"
    using sub assms(5) by (auto simp: conns'_def bootstrapTick_def bootstrapConnect_set bootstrapConnect_distinct)
  moreover have "4 \<le> length conns \<and> 2 \<le> countBootstrapPeers boot conns \<longrightarrow> conns' = conns"
    by (simp add: conns'_def bootstrapTick_def DHTMinPeers_def DHTMinBootstrapPeers_def)
  ultimately show ?thesis by blast
qed

text \<open>A lookup never yields an address that is not routable, and an absent peer is an unknown one.\<close>

lemma dht_Lookup_routable: "dht_Lookup nl findPeer pid = Ok pinfo \<Longrightarrow> \<forall>a \<in> set (pi_Addrs pinfo). IsRoutableAddr nl a"
  by (auto simp: dht_Lookup_def FilterAddrs_def split: outcome.splits)

text \<open>A library that takes every text for an id, and a permutation that reverses.\<close>

definition id_lib :: "(string, string) net_lib" where
  "id_lib = \<lparr>nl_Pretty = (\<lambda>p. p), nl_IDB58Decode = Ok, nl_String = (\<lambda>a. a), nl_NewMultiaddr = Ok, nl_Bytes = (\<lambda>a. a),
     nl_NewMultiaddrBytes = Ok, nl_IP4 = (\<lambda>a. Err (ExtErr ''protocol''))\<rparr>"

theorem bootstrap_tick_witness:
  "case DHTBootstrapPeerInfo id_lib of
     Ok boot \<Rightarrow> 4 \<le> length (bootstrapTick [8, 7, 6, 5, 4, 3, 2, 1, 0] (\<lambda>peer. Ok ()) boot [''me'']) \<and>
       ''me'' \<in> set (bootstrapTick [8, 7, 6, 5, 4, 3, 2, 1, 0] (\<lambda>peer. Ok ()) boot [''me''])
   | Err e \<Rightarrow> False | Panic m \<Rightarrow> False"
proof -
  let ?perm = "[8, 7, 6, 5, 4, 3, 2, 1, 0]"
  have "case DHTBootstrapPeerInfo id_lib of Ok boot \<Rightarrow> distinct (map pi_ID boot) \<and> length boot = 9 | _ \<Rightarrow> False" by code_simp
  then obtain boot where boot: "DHTBootstrapPeerInfo id_lib = Ok boot" "distinct (map pi_ID boot)" "length boot = 9"
    by (auto split: outcome.splits)
  have "perm_ok ?perm (length boot)" by (auto simp: perm_ok_def boot(3))
  from bootstrap_tick [OF this boot(2), of "\<lambda>peer. Ok ()" "[''me'']"] boot show ?thesis by simp
qed

end
