(* ===== verification/Registration.thy ===== *)
theory Registration
  imports Requests Dht
begin

text \<open>
  The goroutines of a public node (\<open>mcnode/net.go\<close>): one for each directory, which connects to it, announces the node
  every few minutes and starts over when the connection or a message fails, and one that announces the node in the
  DHT. What a round finds is given: the node as it is then, the services that tell the public address, the
  database and the outcome of writing. A list of rounds, or of attempts, ends when the context is done.
\<close>

section \<open>The goroutines\<close>

record ('p, 'a, 'h) reg_round =
  rr_net :: "('p, 'a, 'h) net_state"
  rr_get :: http
  rr_tcp :: "string outcome"
  rr_db :: sqldb
  rr_mfs :: "manifest list"
  rr_write :: "unit outcome"

record ('k, 'p, 'a, 'h) reg_env =
  re_nl :: "('p, 'a) net_lib"
  re_hl :: "('p, 'a, 'h) host_lib"
  re_eng :: engine
  re_unmarshal :: "string \<Rightarrow> statement outcome"
  re_node :: 'p
  re_pub :: string

text \<open>The message of a round; none is sent while there is no public address.\<close>

definition registerMsg :: "('k, 'p, 'a, 'h) reg_env \<Rightarrow> ('p, 'a) peer_info \<Rightarrow> ('p, 'a, 'h) reg_round \<Rightarrow> RegisterPeer option outcome" where
  "registerMsg R dir rr =
     obind (fst (publicAddrs (re_nl R) (re_hl R) (rr_get rr) (rr_tcp rr) dir (rr_net rr))) (\<lambda>addrs.
     if length addrs > 0
     then obind (publicNamespaces (re_eng R) (re_unmarshal R) (rr_db rr)) (\<lambda>nss.
          Ok (registerRound (re_nl R) (re_node R) (re_pub R) addrs nss (rr_mfs rr)))
     else Ok None)"

text \<open>The loop: the messages that were sent, and how it ends.\<close>

fun registerRounds ::
  "('k, 'p, 'a, 'h) reg_env \<Rightarrow> ('p, 'a) peer_info \<Rightarrow> ('p, 'a, 'h) reg_round list \<Rightarrow> RegisterPeer list \<times> unit outcome" where
  "registerRounds R dir [] = ([], Ok ())"
| "registerRounds R dir (rr # rrs) =
     (case registerMsg R dir rr of
        Err e \<Rightarrow> ([], Err e)
      | Panic m \<Rightarrow> ([], Panic m)
      | Ok None \<Rightarrow> registerRounds R dir rrs
      | Ok (Some msg) \<Rightarrow>
          (case rr_write rr of
             Err e \<Rightarrow> ([], Err e)
           | Panic m \<Rightarrow> ([], Panic m)
           | Ok u \<Rightarrow> (case registerRounds R dir rrs of (msgs, r) \<Rightarrow> (msg # msgs, r))))"

text \<open>One attempt, from the connection on.\<close>

definition registerPeerImpl ::
  "('k, 'p, 'a, 'h) reg_env \<Rightarrow> ('p, 'a) peer_info \<Rightarrow> ('p, 'a, 'h) net_state \<Rightarrow> ('p, 'a, 'h) reg_round list \<Rightarrow> RegisterPeer list \<times> unit outcome" where
  "registerPeerImpl R dir net rrs =
     (case doDirConnect (re_hl R) dir ''/mediachain/dir/register'' net of
        Ok u \<Rightarrow> registerRounds R dir rrs
      | Err e \<Rightarrow> ([], Err e)
      | Panic m \<Rightarrow> ([], Panic m))"

text \<open>The attempts that were made, with what each sent.\<close>

fun registerPeer ::
  "('k, 'p, 'a, 'h) reg_env \<Rightarrow> ('p, 'a) peer_info \<Rightarrow> (('p, 'a, 'h) net_state \<times> ('p, 'a, 'h) reg_round list) list \<Rightarrow>
   RegisterPeer list list \<times> unit outcome" where
  "registerPeer R dir [] = ([], Ok ())"
| "registerPeer R dir ((net, rrs) # as) =
     (case registerPeerImpl R dir net rrs of
        (msgs, Ok u) \<Rightarrow> ([msgs], Ok ())
      | (msgs, Err e) \<Rightarrow> (case registerPeer R dir as of (mss, r) \<Rightarrow> (msgs # mss, r))
      | (msgs, Panic m) \<Rightarrow> ([msgs], Panic m))"

text \<open>\<open>ticks\<close> is the number of hours before the context is done; an error is only logged.\<close>

definition registerPeerDHT :: "(string \<Rightarrow> string) \<Rightarrow> (string \<Rightarrow> 'c) \<Rightarrow> (nat \<Rightarrow> 'c \<Rightarrow> unit outcome) \<Rightarrow> nat \<Rightarrow> unit outcome list" where
  "registerPeerDHT digest cid provide ticks = map (\<lambda>t. dht_Provide digest cid (provide t) ''/mediachain/node'') [0 ..< Suc ticks]"

section \<open>What the directory knows\<close>

text \<open>The directory after it has read messages on the stream of a peer.\<close>

definition dir_after ::
  "('p, 'a) net_lib \<Rightarrow> ('p \<Rightarrow> manifest list \<Rightarrow> 's \<Rightarrow> 's) \<Rightarrow> 'p \<Rightarrow> RegisterPeer list \<Rightarrow> ('p, 'a, 's) Directory \<Rightarrow> ('p, 'a, 's) Directory" where
  "dir_after nl put pid msgs d =
     fold (\<lambda>msg d. case register_read nl pid (Ok msg) of Some rm \<Rightarrow> register_round put pid rm d | None \<Rightarrow> d) msgs d"

lemma dir_after_snoc [simp]:
  "dir_after nl put pid (msgs @ [msg]) d =
     (case register_read nl pid (Ok msg) of Some rm \<Rightarrow> register_round put pid rm (dir_after nl put pid msgs d) | None \<Rightarrow> dir_after nl put pid msgs d)"
  unfolding dir_after_def by simp

text \<open>A message of a node that announces the addresses.\<close>

definition announces :: "('k, 'p, 'a, 'h) reg_env \<Rightarrow> 'a list \<Rightarrow> RegisterPeer \<Rightarrow> bool" where
  "announces R addrs msg \<longleftrightarrow> addrs \<noteq> [] \<and> (\<exists>nss mfs. registerRound (re_nl R) (re_node R) (re_pub R) addrs nss mfs = Some msg)"

lemma announces_read:
  assumes "net_lib_ok (re_nl R)" "announces R addrs msg"
  shows "\<exists>pub mfs. register_read (re_nl R) (re_node R) (Ok msg) = Some (\<lparr>pr_peer = \<lparr>pi_ID = re_node R, pi_Addrs = addrs\<rparr>, pr_publisher = pub\<rparr>, mfs)"
  using assms PBToPeerInfo_PBFromPeerInfo [OF assms(1), of "\<lparr>pi_ID = re_node R, pi_Addrs = addrs\<rparr>"]
  by (auto simp: announces_def registerRound_def register_read_def split: if_splits)

text \<open>The addresses that are determined in a round, and whether there are any.\<close>

definition round_addrs :: "('k, 'p, 'a, 'h) reg_env \<Rightarrow> ('p, 'a) peer_info \<Rightarrow> ('p, 'a, 'h) reg_round \<Rightarrow> 'a list outcome" where
  "round_addrs R dir rr = fst (publicAddrs (re_nl R) (re_hl R) (rr_get rr) (rr_tcp rr) dir (rr_net rr))"

definition announcing :: "('k, 'p, 'a, 'h) reg_env \<Rightarrow> ('p, 'a) peer_info \<Rightarrow> ('p, 'a, 'h) reg_round \<Rightarrow> bool" where
  "announcing R dir rr = (case round_addrs R dir rr of Ok addrs \<Rightarrow> addrs \<noteq> [] | _ \<Rightarrow> False)"

lemma registerMsg_announces:
  "registerMsg R dir rr = Ok (Some msg) \<Longrightarrow> announcing R dir rr \<and> (\<exists>addrs. round_addrs R dir rr = Ok addrs \<and> announces R addrs msg)"
  by (auto simp: registerMsg_def announces_def announcing_def round_addrs_def split: if_splits)

lemma registerMsg_None: "registerMsg R dir rr = Ok None \<Longrightarrow> \<not> announcing R dir rr"
  by (auto simp: registerMsg_def registerRound_def announcing_def round_addrs_def split: if_splits)

text \<open>
  What an attempt sends are announcements: the message at a place is that of the round at the same place among
  those that have an address, and there is one for each of them when nothing fails.
\<close>

lemma registerRounds_sent:
  "registerRounds R dir rrs = (msgs, r) \<Longrightarrow>
   list_all2 (\<lambda>rr msg. \<exists>addrs. round_addrs R dir rr = Ok addrs \<and> announces R addrs msg)
     (take (length msgs) (filter (announcing R dir) rrs)) msgs \<and>
   (r = Ok () \<longrightarrow> length msgs = length (filter (announcing R dir) rrs))"
proof (induction rrs arbitrary: msgs r)
  case (Cons rr rrs)
  obtain msgs' r' where rest: "registerRounds R dir rrs = (msgs', r')" by fastforce
  note IH = Cons.IH [OF rest]
  show ?case
  proof (cases "registerMsg R dir rr")
    case (Ok m)
    show ?thesis
    proof (cases m)
      case None
      with Ok Cons.prems rest IH registerMsg_None [OF Ok [unfolded None]] show ?thesis by simp
    next
      case (Some msg)
      with Ok Cons.prems rest IH registerMsg_announces [OF Ok [unfolded Some]] show ?thesis by (cases "rr_write rr") auto
    qed
  qed (use Cons.prems in auto)
qed simp

lemma registerPeerImpl_sent:
  assumes "registerPeerImpl R dir net rrs = (msgs, r)"
  shows "k < length msgs \<Longrightarrow> k < length (filter (announcing R dir) rrs) \<and>
      (\<exists>addrs. round_addrs R dir (filter (announcing R dir) rrs ! k) = Ok addrs \<and> announces R addrs (msgs ! k))"
    and "r = Ok () \<Longrightarrow> length msgs = length (filter (announcing R dir) rrs)"
proof -
  obtain msgs' r' where rr: "registerRounds R dir rrs = (msgs', r')" by fastforce
  note sent = registerRounds_sent [OF rr]
  from assms rr have m: "msgs = msgs' \<and> r = r' \<or> msgs = [] \<and> r \<noteq> Ok ()" by (auto simp: registerPeerImpl_def split: outcome.splits)
  then show "r = Ok () \<Longrightarrow> length msgs = length (filter (announcing R dir) rrs)" using sent by blast
  assume k: "k < length msgs"
  with m have "msgs = msgs'" by auto
  with sent k show "k < length (filter (announcing R dir) rrs) \<and>
      (\<exists>addrs. round_addrs R dir (filter (announcing R dir) rrs ! k) = Ok addrs \<and> announces R addrs (msgs ! k))"
    by (auto simp: list_all2_conv_all_nth)
qed

text \<open>The directory accepts announcements, and knows the last one.\<close>

lemma registerHandler_accepts:
  assumes "net_lib_ok (re_nl R)" "\<forall>msg \<in> set msgs. \<exists>addrs. announces R addrs msg"
  shows "registerHandler (re_nl R) put remove (re_node R) (map Ok msgs @ rest) d =
    registerHandler (re_nl R) put remove (re_node R) rest (dir_after (re_nl R) put (re_node R) msgs d)"
  using assms(2)
proof (induction msgs arbitrary: d)
  case (Cons msg msgs)
  then obtain addrs where "announces R addrs msg" by auto
  from announces_read [OF assms(1) this] Cons show ?case by (auto simp: dir_after_def)
qed (simp add: dir_after_def)

lemma dir_after_lookup:
  assumes "net_lib_ok (re_nl R)" "\<forall>msg \<in> set msgs. \<exists>addrs. announces R addrs msg"
  shows "(\<forall>pid. pid \<noteq> re_node R \<longrightarrow> lookupPeer pid (dir_after (re_nl R) put (re_node R) msgs d) = lookupPeer pid d) \<and>
    (\<forall>addrs. msgs \<noteq> [] \<longrightarrow> announces R addrs (last msgs) \<longrightarrow>
      lookupPeer (re_node R) (dir_after (re_nl R) put (re_node R) msgs d) = Some \<lparr>pi_ID = re_node R, pi_Addrs = addrs\<rparr>)"
  using assms(2)
proof (induction msgs rule: rev_induct)
  case (snoc msg msgs)
  have reg: "lookupPeer pid (register_round put (re_node R) (\<lparr>pr_peer = \<lparr>pi_ID = re_node R, pi_Addrs = a\<rparr>, pr_publisher = pub\<rparr>, mfs) d') =
      (if pid = re_node R then Some \<lparr>pi_ID = re_node R, pi_Addrs = a\<rparr> else lookupPeer pid d')" for pid a pub mfs d'
    by (simp add: lookupPeer_def update_conv')
  from snoc.prems obtain a where a: "announces R a msg" by auto
  from announces_read [OF assms(1) a] obtain pub mfs where
    "register_read (re_nl R) (re_node R) (Ok msg) = Some (\<lparr>pr_peer = \<lparr>pi_ID = re_node R, pi_Addrs = a\<rparr>, pr_publisher = pub\<rparr>, mfs)" by blast
  moreover have "b = a" if "announces R b msg" for b
    using announces_read [OF assms(1) that] announces_read [OF assms(1) a] by auto
  ultimately show ?case using snoc.IH snoc.prems by (auto simp: reg)
qed (simp add: dir_after_def)

text \<open>C20: While a node is public the directory names it by the addresses it announced last: whatever rounds an attempt to
  register goes through, its messages are those of the rounds that found a public address, one for each and in their order (all of them
  when nothing fails), and every one is accepted on its stream. After the message of a round a lookup in the directory,
  by whatever node, finds exactly the addresses that were determined in that very round, and the lookups of other peers are as before; when
  the stream ends the node is unknown. The stream is the only one the node has open at the directory.\<close>

theorem registration_kept:
  assumes "net_lib_ok (re_nl R)" "registerPeerImpl R dir net rrs = (msgs, r)"
    and "doDirConnect hl dir' ''/mediachain/dir/lookup'' s = Ok ()" "\<forall>p. wr p = Ok ()" "k < length msgs"
  shows "(k < length (filter (announcing R dir) rrs) \<and>
      (\<exists>addrs. round_addrs R dir (filter (announcing R dir) rrs ! k) = Ok addrs \<and> addrs \<noteq> [] \<and>
        doDirLookupImpl (re_nl R) hl wr (dir_answer (re_nl R) (dir_after (re_nl R) put (re_node R) (take (Suc k) msgs) d)) dir' (re_node R) s =
          Ok \<lparr>pi_ID = re_node R, pi_Addrs = addrs\<rparr>)) \<and>
    (r = Ok () \<longrightarrow> length msgs = length (filter (announcing R dir) rrs)) \<and>
    (\<forall>pid. pid \<noteq> re_node R \<longrightarrow>
      doDirLookupImpl (re_nl R) hl wr (dir_answer (re_nl R) (dir_after (re_nl R) put (re_node R) (take (Suc k) msgs) d)) dir' pid s =
      doDirLookupImpl (re_nl R) hl wr (dir_answer (re_nl R) d) dir' pid s) \<and>
    (\<forall>rest. registerHandler (re_nl R) put remove (re_node R) (map Ok msgs @ rest) d =
      registerHandler (re_nl R) put remove (re_node R) rest (dir_after (re_nl R) put (re_node R) msgs d)) \<and>
    doDirLookupImpl (re_nl R) hl wr (dir_answer (re_nl R) (registerHandler (re_nl R) put remove (re_node R) (map Ok msgs) d)) dir' (re_node R) s =
      Err UnknownPeer"
proof -
  note sent = registerPeerImpl_sent [OF assms(2)]
  have ann: "\<forall>msg \<in> set msgs. \<exists>addrs. announces R addrs msg"
  proof
    fix msg assume "msg \<in> set msgs"
    then obtain j where "j < length msgs" "msgs ! j = msg" by (auto simp: in_set_conv_nth)
    with sent(1) [of j] show "\<exists>addrs. announces R addrs msg" by blast
  qed
  then have anns: "\<forall>msg \<in> set (take (Suc k) msgs). \<exists>addrs. announces R addrs msg" by (auto dest: in_set_takeD)
  have last: "take (Suc k) msgs \<noteq> []" "last (take (Suc k) msgs) = msgs ! k" using assms(5) by (simp_all add: take_Suc_conv_app_nth)
  note look = dir_after_lookup [OF assms(1) anns, of put d]
  note ans = doDirLookupImpl_answer [OF assms(1,3), of wr]
  from sent(1) [OF assms(5)] obtain addrs where rr: "k < length (filter (announcing R dir) rrs)"
    "round_addrs R dir (filter (announcing R dir) rrs ! k) = Ok addrs" "announces R addrs (msgs ! k)" by blast
  have fin: "registerHandler (re_nl R) put remove (re_node R) (map Ok msgs) d =
      register_end remove (re_node R) (dir_after (re_nl R) put (re_node R) msgs d)"
    using registerHandler_accepts [OF assms(1) ann, of put remove "[]"] by simp
  have gone: "lookupPeer (re_node R) (register_end remove (re_node R) (dir_after (re_nl R) put (re_node R) msgs d)) = None"
    by (simp add: lookupPeer_def delete_conv' map_of_delete)
  from rr look last have "addrs \<noteq> []" "lookupPeer (re_node R) (dir_after (re_nl R) put (re_node R) (take (Suc k) msgs) d) =
      Some \<lparr>pi_ID = re_node R, pi_Addrs = addrs\<rparr>" by (auto simp: announces_def)
  with rr(1,2) look sent(2) registerHandler_accepts [OF assms(1) ann, of put remove] assms(4) show ?thesis
    by (simp add: ans fin gone)
qed

text \<open>An attempt that fails is followed by another one, as long as the context is not done.\<close>

lemma registerPeer_retries:
  "registerPeer R dir as = (mss, r) \<Longrightarrow> \<forall>net rrs m. (net, rrs) \<in> set as \<longrightarrow> snd (registerPeerImpl R dir net rrs) \<noteq> Panic m \<Longrightarrow>
   r = Ok () \<and> mss = map (\<lambda>(net, rrs). fst (registerPeerImpl R dir net rrs)) (take (length mss) as) \<and>
   (length mss < length as \<longrightarrow> mss \<noteq> [] \<and> snd (registerPeerImpl R dir (fst (as ! (length mss - 1))) (snd (as ! (length mss - 1)))) = Ok ())"
proof (induction R dir as arbitrary: mss r rule: registerPeer.induct)
  case (2 R dir net rrs as)
  obtain msgs ri where i: "registerPeerImpl R dir net rrs = (msgs, ri)" by fastforce
  obtain mss' r' where rest: "registerPeer R dir as = (mss', r')" by fastforce
  show ?case
  proof (cases ri)
    case (Err e)
    from "2.IH" [OF i [symmetric] Err rest] "2.prems"(2) have IH: "r' = Ok ()"
      "mss' = map (\<lambda>(net, rrs). fst (registerPeerImpl R dir net rrs)) (take (length mss') as)"
      "length mss' < length as \<longrightarrow> mss' \<noteq> [] \<and> snd (registerPeerImpl R dir (fst (as ! (length mss' - 1))) (snd (as ! (length mss' - 1)))) = Ok ()"
      by auto
    from "2.prems"(1) i Err rest have m: "mss = msgs # mss'" "r = r'" by simp_all
    from IH m i show ?thesis by (auto simp: nth_Cons')
  qed (use "2.prems" i in auto)
qed simp

text \<open>A node registers with a public directory: it announces its public address.\<close>

definition sample_reg_env :: "(nat, nat, string, string) reg_env" where
  "sample_reg_env = \<lparr>re_nl = text_lib, re_hl = sample_hl, re_eng = (\<lambda>sql t. Err NoResult), re_unmarshal = (\<lambda>b. Err NoResult),
     re_node = 7, re_pub = ''pub''\<rparr>"

definition sample_round :: "(nat, string, string) reg_round" where
  "sample_round = \<lparr>rr_net = sample_net, rr_get = no_http, rr_tcp = Ok ''9000'', rr_db = empty_db, rr_mfs = [], rr_write = Ok ()\<rparr>"

theorem registration_kept_witness:
  "case registerPeerImpl sample_reg_env (dir_at ''ip4/5.6.7.8/tcp/9000'') sample_net [sample_round, sample_round\<lparr>rr_net := manual_net\<rparr>] of
     (msgs, r) \<Rightarrow> length msgs = 2 \<and> r = Ok () \<and>
       doDirLookupImpl text_lib sample_hl (\<lambda>p. Ok ()) (dir_answer text_lib (dir_after text_lib (\<lambda>p ms u. u) 7 msgs \<lparr>dir_peers = [], dir_mfs = ()\<rparr>))
         (dir_at ''ip4/5.6.7.8'') 7 sample_net = Ok \<lparr>pi_ID = 7, pi_Addrs = [''ip4/8.7.6.5/tcp/9001'']\<rparr>"
proof -
  let ?dir = "dir_at ''ip4/5.6.7.8/tcp/9000''" and ?rrs = "[sample_round, sample_round\<lparr>rr_net := manual_net\<rparr>]"
  have n: "length (fst (registerPeerImpl sample_reg_env ?dir sample_net ?rrs)) = 2"
    "snd (registerPeerImpl sample_reg_env ?dir sample_net ?rrs) = Ok ()" by code_simp+
  obtain msgs r where i: "registerPeerImpl sample_reg_env ?dir sample_net ?rrs = (msgs, r)" by fastforce
  have conn: "doDirConnect sample_hl (dir_at ''ip4/5.6.7.8'') ''/mediachain/dir/lookup'' sample_net = Ok ()" by code_simp
  have pub: "round_addrs sample_reg_env ?dir sample_round = Ok [''ip4/8.8.4.4/tcp/1'']"
    "round_addrs sample_reg_env ?dir (sample_round\<lparr>rr_net := manual_net\<rparr>) = Ok [''ip4/8.7.6.5/tcp/9001'']" by code_simp+
  then have f: "filter (announcing sample_reg_env ?dir) ?rrs = ?rrs" by (simp add: announcing_def)
  have env: "re_nl sample_reg_env = text_lib" "re_node sample_reg_env = 7" by (simp_all add: sample_reg_env_def)
  have nl: "net_lib_ok (re_nl sample_reg_env)" by (simp add: env text_lib_ok)
  have "1 < length msgs" using n(1) i by simp
  from registration_kept [OF nl i conn _ this, of "\<lambda>p. Ok ()" "\<lambda>p ms u. u" "\<lparr>dir_peers = [], dir_mfs = ()\<rparr>" "\<lambda>p u. u", unfolded f env] n i pub(2)
  show ?thesis by simp
qed

end
