(* ===== verification/OpenDB.thy ===== *)
theory OpenDB
  imports StatementDB
begin

text \<open>
  Opening the statement database (\<open>mcnode/db.go\<close>): making the file with its tables when there is none, and preparing
  the statements. The file is its schema, the names of the tables and indexes it has, and the rows; a call of the engine
  fails when the oracle says so, when a table to be created is there already, or when a table a
  statement refers to is not.
\<close>

section \<open>Opening\<close>

datatype db_file = DbAbsent | DbFile "string list" tables | DbNoStat go_error

definition no_rows :: tables where
  "no_rows = \<lparr>t_stmt = [], t_env = [], t_refs = [], t_next = 1\<rparr>"

text \<open>A call: it fails, or it succeeds. \<open>n\<close> is the number of calls so far.\<close>

definition open_call :: "faults \<Rightarrow> nat \<Rightarrow> unit outcome" where
  "open_call fl n = (case fl n of Some msg \<Rightarrow> Err (engine_error msg) | None \<Rightarrow> Ok ())"

fun createObjects :: "faults \<Rightarrow> string list \<Rightarrow> nat \<Rightarrow> string list \<Rightarrow> unit outcome \<times> nat \<times> string list" where
  "createObjects fl [] n schema = (Ok (), n, schema)"
| "createObjects fl (x # xs) n schema =
     (if x \<in> set schema then (Err (engine_error (''already exists: '' @ x)), Suc n, schema)
      else (case open_call fl n of
              Ok u \<Rightarrow> createObjects fl xs (Suc n) (schema @ [x])
            | Err e \<Rightarrow> (Err e, Suc n, schema)
            | Panic m \<Rightarrow> (Panic m, Suc n, schema)))"

definition db_createTables :: "faults \<Rightarrow> nat \<Rightarrow> string list \<Rightarrow> unit outcome \<times> nat \<times> string list" where
  "db_createTables fl n schema =
     createObjects fl [''Statement'', ''Envelope'', ''EnvelopeId'', ''EnvelopeNS'', ''Refs'', ''RefsId'', ''RefsWki''] n schema"

text \<open>The tables of the seven statements that are prepared, in their order.\<close>

fun prepareAll :: "faults \<Rightarrow> string list \<Rightarrow> nat \<Rightarrow> string list \<Rightarrow> unit outcome \<times> nat" where
  "prepareAll fl [] n schema = (Ok (), n)"
| "prepareAll fl (x # xs) n schema =
     (if x \<notin> set schema then (Err (engine_error (''no such table: '' @ x)), Suc n)
      else (case open_call fl n of
              Ok u \<Rightarrow> prepareAll fl xs (Suc n) schema
            | Err e \<Rightarrow> (Err e, Suc n)
            | Panic m \<Rightarrow> (Panic m, Suc n)))"

definition prepareStatements :: "faults \<Rightarrow> nat \<Rightarrow> string list \<Rightarrow> unit outcome \<times> nat" where
  "prepareStatements fl n schema =
     prepareAll fl [''Statement'', ''Envelope'', ''Refs'', ''Statement'', ''Statement'', ''Envelope'', ''Refs''] n schema"

text \<open>The first of the two pragmas makes the file.\<close>

definition tuneDB :: "faults \<Rightarrow> nat \<Rightarrow> db_file \<Rightarrow> unit outcome \<times> nat \<times> db_file" where
  "tuneDB fl n file =
     (let file' = (case file of DbFile schema t \<Rightarrow> file | _ \<Rightarrow> DbFile [] no_rows) in
      case open_call fl n of
        Ok u \<Rightarrow> (open_call fl (Suc n), Suc (Suc n), file')
      | r \<Rightarrow> (r, Suc n, file))"

definition makeDB :: "faults \<Rightarrow> nat \<Rightarrow> db_file \<Rightarrow> unit outcome \<times> nat \<times> db_file" where
  "makeDB fl n file =
     (case tuneDB fl n file of
        (Ok u, n', DbFile schema t) \<Rightarrow>
          (case db_createTables fl n' schema of
             (Ok u, n'', schema') \<Rightarrow> (case prepareStatements fl n'' schema' of (r, m) \<Rightarrow> (r, m, DbFile schema' t))
           | (r, n'', schema') \<Rightarrow> (r, n'', DbFile schema' t))
      | r \<Rightarrow> r)"

text \<open>\<open>mkdir\<close> is the outcome of making the directory; \<open>sql.Open\<close> is the first call.\<close>

definition db_Open :: "faults \<Rightarrow> unit outcome \<Rightarrow> string \<Rightarrow> nat \<Rightarrow> db_file \<Rightarrow> unit outcome \<times> nat \<times> db_file" where
  "db_Open fl mkdir home n file =
     (case (if home = '':memory:'' then Ok True
            else obind mkdir (\<lambda>u. case file of DbAbsent \<Rightarrow> Ok True | DbFile schema t \<Rightarrow> Ok False | DbNoStat e \<Rightarrow> Err e)) of
        Err e \<Rightarrow> (Err e, n, file)
      | Panic m \<Rightarrow> (Panic m, n, file)
      | Ok mktables \<Rightarrow>
          (case open_call fl n of
             Ok u \<Rightarrow>
               (if mktables then makeDB fl (Suc n) (if home = '':memory:'' then DbAbsent else file)
                else (case file of
                        DbFile schema t \<Rightarrow> (case prepareStatements fl (Suc n) schema of (r, m) \<Rightarrow> (r, m, file))
                      | _ \<Rightarrow> (Ok (), Suc n, file)))
           | r \<Rightarrow> (r, Suc n, file)))"

section \<open>Complete or stuck\<close>

definition has_tables :: "string list \<Rightarrow> bool" where
  "has_tables schema \<longleftrightarrow> {''Statement'', ''Envelope'', ''Refs''} \<subseteq> set schema"

lemma createObjects_Ok: "createObjects fl xs n schema = (Ok (), n', schema') \<Longrightarrow> schema' = schema @ xs"
  by (induction fl xs n schema rule: createObjects.induct) (auto split: if_splits outcome.splits)

lemma prepareAll_Ok: "prepareAll fl xs n schema = (Ok (), n') \<Longrightarrow> set xs \<subseteq> set schema"
  by (induction fl xs n schema rule: prepareAll.induct) (auto split: if_splits outcome.splits)

lemma prepareAll_works: "set xs \<subseteq> set schema \<Longrightarrow> \<forall>n. fl n = None \<Longrightarrow> fst (prepareAll fl xs n schema) = Ok ()"
  by (induction fl xs n schema rule: prepareAll.induct) (auto simp: open_call_def)

lemma prepareStatements_Ok: "prepareStatements fl n schema = (Ok (), n') \<Longrightarrow> has_tables schema"
  unfolding prepareStatements_def has_tables_def by (drule prepareAll_Ok) simp

lemma prepareStatements_works: "has_tables schema \<Longrightarrow> \<forall>n. fl n = None \<Longrightarrow> fst (prepareStatements fl n schema) = Ok ()"
  unfolding prepareStatements_def by (rule prepareAll_works) (auto simp: has_tables_def)

text \<open>Opening a file: whether it works is decided by the tables it has, unless the engine fails.\<close>

theorem db_open_complete:
  assumes "home \<noteq> '':memory:''" "db_Open fl mkdir home n disk = (r, n', disk')"
  shows "(r = Ok () \<longrightarrow> (\<exists>schema t. disk' = DbFile schema t \<and> has_tables schema \<and> (disk = DbAbsent \<longrightarrow> t = no_rows) \<and> (disk \<noteq> DbAbsent \<longrightarrow> disk' = disk))) \<and>
    (\<forall>schema t. disk' = DbFile schema t \<and> has_tables schema \<longrightarrow>
      (\<forall>m. fst (db_Open (\<lambda>k. None) (Ok ()) home m disk') = Ok () \<and> snd (snd (db_Open (\<lambda>k. None) (Ok ()) home m disk')) = disk')) \<and>
    (\<forall>schema t. disk' = DbFile schema t \<and> \<not> has_tables schema \<longrightarrow> (\<forall>fl' mkdir' m. fst (db_Open fl' mkdir' home m disk') \<noteq> Ok ()))"
proof (intro conjI allI impI)
  assume r: "r = Ok ()"
  show "\<exists>schema t. disk' = DbFile schema t \<and> has_tables schema \<and> (disk = DbAbsent \<longrightarrow> t = no_rows) \<and> (disk \<noteq> DbAbsent \<longrightarrow> disk' = disk)"
  proof (cases disk)
    case DbAbsent
    with assms r show ?thesis
      by (auto simp: db_Open_def makeDB_def tuneDB_def Let_def split: outcome.splits prod.splits db_file.splits dest: prepareStatements_Ok)
  next
    case (DbFile schema t)
    with assms r show ?thesis by (auto simp: db_Open_def split: outcome.splits prod.splits dest: prepareStatements_Ok)
  qed (use assms r in \<open>auto simp: db_Open_def split: outcome.splits\<close>)
next
  fix schema t m assume "disk' = DbFile schema t \<and> has_tables schema"
  with assms(1) prepareStatements_works [of schema "\<lambda>k. None"]
  show "fst (db_Open (\<lambda>k. None) (Ok ()) home m disk') = Ok ()" "snd (snd (db_Open (\<lambda>k. None) (Ok ()) home m disk')) = disk'"
    by (simp_all add: db_Open_def open_call_def case_prod_beta)
next
  fix schema t fl' mkdir' m assume f: "disk' = DbFile schema t \<and> \<not> has_tables schema"
  obtain rp k where p: "prepareStatements fl' (Suc m) schema = (rp, k)" by fastforce
  with f prepareStatements_Ok [of fl' "Suc m" schema k] have "rp \<noteq> Ok ()" by auto
  with f p assms(1) show "fst (db_Open fl' mkdir' home m disk') \<noteq> Ok ()"
    by (cases mkdir'; cases "open_call fl' m") (auto simp: db_Open_def)
qed

text \<open>A first start that is interrupted before all tables are made leaves a file that never opens again.\<close>

theorem db_open_stuck:
  "db_Open (\<lambda>k. if k = 4 then Some ''disk full'' else None) (Ok ()) ''home'' 0 DbAbsent = (Err (engine_error ''disk full''), 5, DbFile [''Statement''] no_rows) \<and>
   fst (db_Open (\<lambda>k. None) (Ok ()) ''home'' 0 (DbFile [''Statement''] no_rows)) = Err (engine_error ''no such table: Envelope'')"
  by code_simp

end
