(* ===== verification/Http.thy ===== *)
theory Http
  imports Config DataServer Requests
begin

text \<open>
  What the handlers of the REST API share (\<open>mcnode/api.go\<close>): responses and their errors, the ways a body is
  read (whole, by lines, as a stream of JSON values), the check of a namespace, the choice by method, and
  the node the handlers act on.

  A response is a status and the lines written, each by one \<open>Fprintln\<close> or one \<open>Encode\<close>; a handler that panics
  is recovered by the HTTP server, which drops the connection.
\<close>

section \<open>Responses\<close>

datatype response = Response nat "string list" | Aborted string

definition apiError :: "nat \<Rightarrow> go_error \<Rightarrow> response" where
  "apiError status e = Response status [''Error: '' @ err_text e]"

definition apiNetError :: "go_error \<Rightarrow> response" where
  "apiNetError e = (if e = UnknownPeer then apiError 404 e else apiError 500 e)"

text \<open>The response to an outcome, with the response to an error and to a value.\<close>

fun respond :: "(go_error \<Rightarrow> response) \<Rightarrow> ('x \<Rightarrow> response) \<Rightarrow> 'x outcome \<Rightarrow> response" where
  "respond err f (Ok x) = f x"
| "respond err f (Err e) = err e"
| "respond err f (Panic m) = Aborted m"

text \<open>The lines encoded for a list of values, up to one that fails to encode, which is only logged.\<close>

fun encode_lines :: "('x \<Rightarrow> string option) \<Rightarrow> 'x list \<Rightarrow> string list" where
  "encode_lines enc [] = []"
| "encode_lines enc (x # xs) = (case enc x of Some l \<Rightarrow> l # encode_lines enc xs | None \<Rightarrow> [])"

text \<open>Lines that follow the error, for what was done before it.\<close>

fun add_lines :: "response \<Rightarrow> string list \<Rightarrow> response" where
  "add_lines (Response status ls) ls' = Response status (ls @ ls')"
| "add_lines (Aborted m) ls' = Aborted m"

section \<open>Bodies\<close>

text \<open>
  A \<open>bufio.Scanner\<close> splits at newlines, drops one carriage return at the end of a line, takes a last line that
  is not ended when it is not empty, and stops at a line that does not fit in its buffer. The body is what was
  read before its end or a failure. (Whether a last line of exactly 65536 bytes fits depends on the reader.)
\<close>

definition MaxScanTokenSize :: nat where "MaxScanTokenSize = 65536"

definition dropCR :: "string \<Rightarrow> string" where
  "dropCR l = (if l \<noteq> [] \<and> last l = CHR 0x0D then butlast l else l)"

definition scan_lines :: "string \<Rightarrow> string list" where
  "scan_lines body =
     (let ps = Split body (CHR 0x0A); ls = (if last ps = [] then butlast ps else ps)
      in map dropCR (takeWhile (\<lambda>l. length l < MaxScanTokenSize) ls))"

text \<open>
  A stream of JSON values is the list of what its calls of \<open>Decode\<close> return, until the end of the file; the
  loops stop at the first error.
\<close>

definition decode_all :: "'x outcome list \<Rightarrow> 'x list outcome" where
  "decode_all vals = omap (\<lambda>v. v) vals"

text \<open>\<open>^[a-zA-Z0-9-]+([.][a-zA-Z0-9-]+)*$\<close>.\<close>

definition nsrx_char :: "char \<Rightarrow> bool" where
  "nsrx_char c = (let n = (of_char c :: nat) in in_range 97 122 n \<or> in_range 65 90 n \<or> in_range 48 57 n \<or> n = 45)"

definition nsrx :: "string \<Rightarrow> bool" where
  "nsrx ns = list_all (\<lambda>seg. seg \<noteq> [] \<and> list_all nsrx_char seg) (Split ns (CHR ''.''))"

definition apiConfigMethod :: "string \<Rightarrow> response \<times> 's \<Rightarrow> response \<times> 's \<Rightarrow> 's \<Rightarrow> response \<times> 's" where
  "apiConfigMethod meth getf setf s =
     (if meth = ''HEAD'' then (Response 200 [], s)
      else if meth = ''GET'' then getf
      else if meth = ''POST'' then setf
      else (apiError 400 BadMethod, s))"

section \<open>The node\<close>

text \<open>The fields of \<open>Node\<close>, and the configuration file in its home directory.\<close>

record ('p, 'a, 'h) node =
  nd_identity :: 'p
  nd_publisher :: publisher
  nd_info :: string
  nd_net :: "('p, 'a, 'h) net_state"
  nd_auth :: "'p rules"
  nd_mfs :: "manifest list"
  nd_db :: sqldb
  nd_ds :: rocksdb
  nd_file :: conf_file

text \<open>A node that has just started, with empty stores.\<close>

definition fresh_node :: "'p \<Rightarrow> publisher \<Rightarrow> ('p, 'a) node_conf \<Rightarrow> conf_file \<Rightarrow> ('p, 'a, 'h) node" where
  "fresh_node identity pub conf fl =
     \<lparr>nd_identity = identity, nd_publisher = pub, nd_info = n_info conf, nd_net = fresh_net (n_natCfg conf) (n_dir conf),
      nd_auth = n_auth conf, nd_mfs = n_mfs conf, nd_db = empty_db, nd_ds = empty_ds, nd_file = fl\<rparr>"

text \<open>
  What the handlers call: the cryptography, the stores and the base58 decoder (as for a merge), the SQL engine,
  the protocol buffers, the network, the JSON encoders, the writing of the configuration file and the
  base58 encoder.
\<close>

record ('k, 'p, 'a, 'h) api_env =
  ae_m :: "'k merge_env"
  ae_eng :: engine
  ae_unmarshal :: "string \<Rightarrow> statement outcome"
  ae_nl :: "('p, 'a) net_lib"
  ae_hl :: "('p, 'a, 'h) host_lib"
  ae_ps :: "('p, 'a, 'h) peerstore"
  ae_mj :: manifest_json
  ae_write :: "json \<Rightarrow> unit outcome \<times> conf_file"
  ae_B58String :: "string \<Rightarrow> string"
  ae_stmt_json :: "statement \<Rightarrow> string option"
  ae_item_json :: "stream_item \<Rightarrow> string option"
  ae_data_json :: "string option \<Rightarrow> string option"
  ae_info_json :: "NodeInfo \<Rightarrow> string option"
  ae_identify_json :: "NetIdentify \<Rightarrow> string option"
  ae_mf_json :: "manifest \<Rightarrow> string option"
  ae_mfbody_json :: "manifest_body \<Rightarrow> string option"
  ae_rules_json :: "(string \<times> string list) list \<Rightarrow> string option"

text \<open>The part of a node that is saved, and its save.\<close>

definition node_config :: "('p, 'a, 'h) node \<Rightarrow> ('p, 'a) node_conf" where
  "node_config s =
     \<lparr>n_info = nd_info s, n_natCfg = ns_natCfg (nd_net s), n_dir = ns_dir (nd_net s), n_auth = nd_auth s, n_mfs = nd_mfs s\<rparr>"

definition node_saveConfig :: "('k, 'p, 'a, 'h) api_env \<Rightarrow> ('p, 'a, 'h) node \<Rightarrow> unit outcome \<times> ('p, 'a, 'h) node" where
  "node_saveConfig A s =
     (case saveConfig (ae_nl A) (ae_mj A) (ae_write A) (node_config s) (nd_file s) of
        (r, file) \<Rightarrow> (r, s\<lparr>nd_file := file\<rparr>))"

text \<open>The response of a handler whose last step may fail.\<close>

definition the_error :: "nat \<Rightarrow> unit outcome \<Rightarrow> string list \<Rightarrow> response" where
  "the_error status r ls = respond (apiError status) (\<lambda>u. Response 200 ls) r"

section \<open>Lines and streams\<close>

lemma decode_all_Ok: "decode_all vals = Ok xs \<longleftrightarrow> vals = map Ok xs"
proof (induction vals arbitrary: xs)
  case (Cons v vals)
  then show ?case by (cases v; cases xs; cases "decode_all vals") (auto simp: decode_all_def)
qed (auto simp: decode_all_def)

lemma decode_all_map_Ok [simp]: "decode_all (map Ok xs) = Ok xs"
  by (simp add: decode_all_Ok)

lemma encode_lines_all: "(\<And>x. x \<in> set xs \<Longrightarrow> enc x = Some (f x)) \<Longrightarrow> encode_lines enc xs = map f xs"
  by (induction xs) simp_all

text \<open>The body whose lines are the given ones, each ended by a newline.\<close>

definition unlines :: "string list \<Rightarrow> string" where
  "unlines ls = concat (map (\<lambda>l. l @ [CHR 0x0A]) ls)"

lemma Split_line: "CHR 0x0A \<notin> set l \<Longrightarrow> Split (l @ CHR 0x0A # r) (CHR 0x0A) = l # Split r (CHR 0x0A)"
  by (simp add: Split_append Split_no_sep)

lemma Split_unlines: "\<forall>l \<in> set ls. CHR 0x0A \<notin> set l \<Longrightarrow> Split (unlines ls) (CHR 0x0A) = ls @ [[]]"
  by (induction ls) (simp_all add: unlines_def Split_line)

definition plain_line :: "string \<Rightarrow> bool" where
  "plain_line l \<longleftrightarrow> CHR 0x0A \<notin> set l \<and> CHR 0x0D \<notin> set l \<and> length l < MaxScanTokenSize"

lemma scan_unlines: "list_all plain_line ls \<Longrightarrow> scan_lines (unlines ls) = ls"
proof -
  assume ls: "list_all plain_line ls"
  then have sp: "Split (unlines ls) (CHR 0x0A) = ls @ [[]]" by (intro Split_unlines) (auto simp: list_all_iff plain_line_def)
  have tw: "takeWhile (\<lambda>l. length l < MaxScanTokenSize) ls = ls"
    using ls by (auto simp: list_all_iff plain_line_def takeWhile_eq_all_conv)
  have cr: "map dropCR ls = ls"
    using ls by (intro map_idI) (auto simp: list_all_iff plain_line_def dropCR_def dest: last_in_set)
  show ?thesis by (simp add: scan_lines_def Let_def sp tw cr)
qed

lemma nsrx_nonempty: "nsrx ns \<Longrightarrow> ns \<noteq> []"
  by (auto simp: nsrx_def)

lemma apiError_not_200 [simp]: "status \<noteq> 200 \<Longrightarrow> apiError status e \<noteq> Response 200 ls"
  by (simp add: apiError_def)

lemma apiNetError_not_200 [simp]: "apiNetError e \<noteq> Response 200 ls"
  by (simp add: apiNetError_def apiError_def)

section \<open>A node for the witnesses\<close>

definition sample_api :: "(string, nat, string, string) api_env" where
  "sample_api =
     \<lparr>ae_m = sample_env\<lparr>me_crypto := publish_crypto\<rparr>, ae_eng = sample_engine, ae_unmarshal = publish_unmarshal,
      ae_nl = text_lib, ae_hl = sample_hl,
      ae_ps = \<lparr>ps_Conns = (\<lambda>h. []), ps_PubKey = (\<lambda>h p. None), ps_Get = (\<lambda>h p key. None),
        ps_Protocols = (\<lambda>h p. Ok [])\<rparr>,
      ae_mj = sample_mj, ae_write = write_ok, ae_B58String = drop 2, ae_stmt_json = (\<lambda>st. Some (Id st)),
      ae_item_json = (\<lambda>v. case v of SErr msg \<Rightarrow> Some msg | SVal rv \<Rightarrow> None),
      ae_data_json = (\<lambda>d. case d of None \<Rightarrow> Some ''null'' | Some x \<Rightarrow> Some x), ae_info_json = (\<lambda>v. Some (ni_Peer v)),
      ae_identify_json = (\<lambda>v. Some (id_ID v)), ae_mf_json = (\<lambda>mf. Some (mf_Entity mf)), ae_mfbody_json = (\<lambda>b. None),
      ae_rules_json = (\<lambda>rs. None)\<rparr>"

lemma sample_api_simps [simp]:
  "me_crypto (ae_m sample_api) = publish_crypto" "me_dbfl (ae_m sample_api) n = None" "me_dsfl (ae_m sample_api) n = None"
  "me_digest (ae_m sample_api) = (\<lambda>d. d)" "me_b58 (ae_m sample_api) k = Ok (Hash (\<lambda>d. d) k)" "ae_B58String sample_api = drop 2"
  "ae_unmarshal sample_api = publish_unmarshal" "ae_stmt_json sample_api st = Some (Id st)"
  "ae_nl sample_api = text_lib" "ae_mj sample_api = sample_mj" "ae_write sample_api = write_ok"
  "ae_data_json sample_api d = Some (case d of None \<Rightarrow> ''null'' | Some x \<Rightarrow> x)"
  by (simp_all add: sample_api_def sample_env_def split: option.split)

definition sample_node :: "(nat, string, string) node" where
  "sample_node = fresh_node 4 \<lparr>ID58 = ''me'', counter = 0\<rparr> sample_conf NoFile"

definition sample_posted :: "simple_statement outcome list" where
  "sample_posted = [Ok \<lparr>s_Object = ''o'', s_Refs = [''r''], s_Tags = [], s_Deps = []\<rparr>]"

lemma publish_unmarshals: "cr_marshal publish_crypto st = Some b \<Longrightarrow> publish_unmarshal b = Ok st"
  by (auto simp: publish_crypto_def publish_unmarshal_def split: if_splits)

end
