(* ===== verification/ApiData.thy ===== *)
theory ApiData
  imports Http
begin

text \<open>
  The handlers of the REST API for statements and objects (\<open>mcnode/api.go\<close>): publishing, importing, reading,
  querying, deleting, merging and pushing statements, and the datastore. A handler takes what the request
  holds and the node, and yields the response and the node; one that needs no state but the database's
  contents yields the response alone.
\<close>

section \<open>Publishing\<close>

text \<open>What the two handlers do with the bodies they decoded; \<open>now\<close> is the clock.\<close>

definition publishDecoded ::
  "('k, 'p, 'a, 'h) api_env \<Rightarrow> (nat \<Rightarrow> int) \<Rightarrow> string \<Rightarrow> body_oneof list outcome \<Rightarrow> ('p, 'a, 'h) node \<Rightarrow> response \<times> ('p, 'a, 'h) node" where
  "publishDecoded A now ns stmts s =
     (case stmts of
        Err e \<Rightarrow> (apiError 400 e, s)
      | Panic m \<Rightarrow> (Aborted m, s)
      | Ok lst \<Rightarrow>
          (if length lst = 0 then (Response 200 [], s)
           else (case doPublishBatch (me_crypto (ae_m A)) (me_dbfl (ae_m A)) (me_rord (ae_m A)) now ns (map Some lst) (nd_publisher s, nd_db s) of
                   (r, p, db) \<Rightarrow>
                     (respond (apiError 500) (Response 200) r, s\<lparr>nd_publisher := p, nd_db := db\<rparr>))))"

definition httpPublish ::
  "('k, 'p, 'a, 'h) api_env \<Rightarrow> (nat \<Rightarrow> int) \<Rightarrow> string \<Rightarrow> simple_statement outcome list \<Rightarrow> ('p, 'a, 'h) node \<Rightarrow> response \<times> ('p, 'a, 'h) node" where
  "httpPublish A now ns body s =
     (if \<not> nsrx ns then (apiError 400 BadNamespace, s)
      else publishDecoded A now ns (obind (decode_all body) (\<lambda>sbs. Ok (map BodySimple sbs))) s)"

text \<open>
  The loop that groups: the statements so far and the simple statements of the next one, which hold less than
  \<open>clen\<close>.
\<close>

fun compoundLoop :: "nat \<Rightarrow> body_oneof list \<Rightarrow> simple_statement list \<Rightarrow> simple_statement outcome list \<Rightarrow> body_oneof list outcome" where
  "compoundLoop clen stmts body [] = Ok (if length body > 0 then stmts @ [BodyCompound body] else stmts)"
| "compoundLoop clen stmts body (Err e # vals) = Err e"
| "compoundLoop clen stmts body (Panic m # vals) = Panic m"
| "compoundLoop clen stmts body (Ok sbody # vals) =
     (let body' = body @ [sbody] in
      if length body' < clen then compoundLoop clen stmts body' vals
      else compoundLoop clen (stmts @ [BodyCompound body']) [] vals)"

text \<open>
  A group length of zero divides by zero, and a negative one is no capacity of a slice. (A length no memory can
  hold is not modelled.)
\<close>

definition httpPublishCompound ::
  "('k, 'p, 'a, 'h) api_env \<Rightarrow> (nat \<Rightarrow> int) \<Rightarrow> string \<Rightarrow> string \<Rightarrow> simple_statement outcome list \<Rightarrow> ('p, 'a, 'h) node \<Rightarrow>
   response \<times> ('p, 'a, 'h) node" where
  "httpPublishCompound A now ns comb body s =
     (if \<not> nsrx ns then (apiError 400 BadNamespace, s)
      else (case Atoi comb of
              Err e \<Rightarrow> (apiError 400 e, s)
            | Panic m \<Rightarrow> (Aborted m, s)
            | Ok clen \<Rightarrow>
                (if clen = 0 then (Aborted ''integer divide by zero'', s)
                 else if clen < 0 then (Aborted ''makeslice: cap out of range'', s)
                 else publishDecoded A now ns (compoundLoop (nat clen) [] [] body) s)))"

section \<open>Importing\<close>

definition import_batch :: nat where "import_batch = 1024"

text \<open>The keys that are cached when an import has checked its statements.\<close>

definition importCache :: "'k crypto \<Rightarrow> statement list \<Rightarrow> 'k pkcache \<Rightarrow> 'k pkcache" where
  "importCache cr stmts cache = (case ofold (\<lambda>cache st. admit cr st cache) cache stmts of Ok cache' \<Rightarrow> cache' | _ \<Rightarrow> cache)"

text \<open>The loop, with the batch that is being filled: the count, the error and the database.\<close>

fun importLoop ::
  "'k merge_env \<Rightarrow> 'k pkcache \<Rightarrow> statement list \<Rightarrow> int \<Rightarrow> statement outcome list \<Rightarrow> sqldb \<Rightarrow> int \<times> unit outcome \<times> sqldb" where
  "importLoop E pkcache stmts count [] db =
     (if length stmts > 0
      then (case doImport (me_crypto E) (me_dbfl E) (me_rord E) stmts pkcache db of
              (Ok xcount, db') \<Rightarrow> (count + xcount, Ok (), db')
            | (Err e, db') \<Rightarrow> (count, Err e, db')
            | (Panic m, db') \<Rightarrow> (count, Panic m, db'))
      else (count, Ok (), db))"
| "importLoop E pkcache stmts count (Err e # vals) db = (count, Err e, db)"
| "importLoop E pkcache stmts count (Panic m # vals) db = (count, Panic m, db)"
| "importLoop E pkcache stmts count (Ok stmt # vals) db =
     (let stmts' = stmts @ [stmt] in
      if import_batch \<le> length stmts'
      then (case doImport (me_crypto E) (me_dbfl E) (me_rord E) stmts' pkcache db of
              (Ok xcount, db') \<Rightarrow> importLoop E (importCache (me_crypto E) stmts' pkcache) [] (count + xcount) vals db'
            | (Err e, db') \<Rightarrow> (count, Err e, db')
            | (Panic m, db') \<Rightarrow> (count, Panic m, db'))
      else importLoop E pkcache stmts' count vals db)"

text \<open>The line for what was done before an error.\<close>

definition partial_line :: "string \<Rightarrow> int \<Rightarrow> string \<Rightarrow> string list" where
  "partial_line what n rest = (if n > 0 then [what @ int_str n @ rest] else [])"

definition httpImport ::
  "('k, 'p, 'a, 'h) api_env \<Rightarrow> statement outcome list \<Rightarrow> ('p, 'a, 'h) node \<Rightarrow> response \<times> ('p, 'a, 'h) node" where
  "httpImport A body s =
     (case importLoop (ae_m A) Map.empty [] 0 body (nd_db s) of
        (count, r, db) \<Rightarrow>
          (respond (\<lambda>e. add_lines (apiError 400 e) (partial_line ''Partial import: '' count '' statements merged''))
             (\<lambda>u. Response 200 [int_str count]) r,
           s\<lparr>nd_db := db\<rparr>))"

section \<open>Reading and querying\<close>

definition httpStatement :: "('k, 'p, 'a, 'h) api_env \<Rightarrow> string \<Rightarrow> ('p, 'a, 'h) node \<Rightarrow> response \<times> ('p, 'a, 'h) node" where
  "httpStatement A i s =
     (case db_Get (me_dbfl (ae_m A)) (ae_unmarshal A) i (nd_db s) of
        (r, db) \<Rightarrow>
          (respond (\<lambda>e. if e = UnknownStatement then apiError 404 e else apiError 500 e)
             (\<lambda>stmt. Response 200 (encode_lines (ae_stmt_json A) [stmt])) r,
           s\<lparr>nd_db := db\<rparr>))"

text \<open>
  How the handlers that take a query begin: they read the body, which when it fails is only logged, parse it, and
  refuse a query of the wrong kind. On the left, the response that ends the request.
\<close>

definition read_query :: "(Query \<Rightarrow> bool) \<Rightarrow> string outcome \<Rightarrow> response + string \<times> Query" where
  "read_query okq body =
     (case body of
        Err e \<Rightarrow> Inl (Response 200 [])
      | Panic m \<Rightarrow> Inl (Aborted m)
      | Ok qs \<Rightarrow>
          (case ParseQuery qs of
             Err e \<Rightarrow> Inl (apiError 400 e)
           | Panic m \<Rightarrow> Inl (Aborted m)
           | Ok q \<Rightarrow> if okq q then Inr (qs, q) else Inl (apiError 400 BadQuery)))"

definition httpQuery :: "('k, 'p, 'a, 'h) api_env \<Rightarrow> string outcome \<Rightarrow> ('p, 'a, 'h) node \<Rightarrow> response" where
  "httpQuery A body s =
     (case read_query (\<lambda>q. q_Op q = OpSelect) body of
        Inl r \<Rightarrow> r
      | Inr (qs, q) \<Rightarrow>
          respond (apiError 500) (\<lambda>items. Response 200 (encode_lines (ae_item_json A) items))
            (db_QueryStream (ae_eng A) (ae_unmarshal A) q (nd_db s)))"

text \<open>
  A peer is asked: \<open>as\<close> are the arrivals of a lookup, \<open>wr\<close> the outcome of writing the request and \<open>answers\<close> what is read.
\<close>

definition askPeer ::
  "('k, 'p, 'a, 'h) api_env \<Rightarrow> ('p, 'a) peer_info arrival list \<Rightarrow> (string \<Rightarrow> unit outcome) \<Rightarrow> (string \<Rightarrow> query_result outcome list) \<Rightarrow>
   'p \<Rightarrow> string \<Rightarrow> ('p, 'a, 'h) node \<Rightarrow> stream_item list outcome \<times> ('p, 'a, 'h) node" where
  "askPeer A as wr answers pid qs s =
     (case doConnect (ae_hl A) as pid ''/mediachain/node/query'' (nd_net s) of
        (conn, net) \<Rightarrow> (doRemoteQuery conn wr answers qs, s\<lparr>nd_net := net\<rparr>))"

definition httpRemoteQuery ::
  "('k, 'p, 'a, 'h) api_env \<Rightarrow> ('p, 'a) peer_info arrival list \<Rightarrow> (string \<Rightarrow> unit outcome) \<Rightarrow> (string \<Rightarrow> query_result outcome list) \<Rightarrow>
   string \<Rightarrow> string outcome \<Rightarrow> ('p, 'a, 'h) node \<Rightarrow> response \<times> ('p, 'a, 'h) node" where
  "httpRemoteQuery A as wr answers peerId body s =
     (case read_query (\<lambda>q. q_Op q = OpSelect) body of
        Inl r \<Rightarrow> (r, s)
      | Inr (qs, q) \<Rightarrow>
          (case nl_IDB58Decode (ae_nl A) peerId of
             Err e \<Rightarrow> (apiError 400 e, s)
           | Panic m \<Rightarrow> (Aborted m, s)
           | Ok pid \<Rightarrow>
               (case askPeer A as wr answers pid qs s of
                  (r, s') \<Rightarrow> (respond apiNetError (\<lambda>items. Response 200 (encode_lines (ae_item_json A) items)) r, s'))))"

section \<open>Merging and pushing\<close>

text \<open>The response to a merge that ended with the counts and the error.\<close>

definition mergeResponse :: "int \<Rightarrow> int \<Rightarrow> go_error option \<Rightarrow> response" where
  "mergeResponse count ocount err =
     (case err of
        Some e \<Rightarrow> add_lines (apiNetError e)
                  (partial_line ''Partial merge: '' count '' statements merged'' @
                   partial_line ''Partial merge: '' ocount '' objects merged'')
      | None \<Rightarrow> Response 200 [int_str count, int_str ocount])"

text \<open>
  A merge runs as \<open>Merge\<close> says, so the handler is a relation between the node before, the response and the
  node after. The answers of the peer that serves the objects are the choices of that run.
\<close>

inductive httpMerge ::
  "('k, 'p, 'a, 'h) api_env \<Rightarrow> ('p, 'a) peer_info arrival list \<Rightarrow> (string \<Rightarrow> unit outcome) \<Rightarrow> (string \<Rightarrow> query_result outcome list) \<Rightarrow>
   string \<Rightarrow> string outcome \<Rightarrow> ('p, 'a, 'h) node \<Rightarrow> response \<Rightarrow> ('p, 'a, 'h) node \<Rightarrow> bool"
  for A as wr answers peerId body s where
  no_query: "read_query (\<lambda>q. IsSimpleSelect q ''*'') body = Inl r \<Longrightarrow> httpMerge A as wr answers peerId body s r s"
| no_peer: "read_query (\<lambda>q. IsSimpleSelect q ''*'') body = Inr (qs, q) \<Longrightarrow> nl_IDB58Decode (ae_nl A) peerId = r \<Longrightarrow>
    (\<forall>pid. r \<noteq> Ok pid) \<Longrightarrow>
    httpMerge A as wr answers peerId body s (respond (apiError 400) (\<lambda>pid. Response 200 []) r) s"
| no_stream: "read_query (\<lambda>q. IsSimpleSelect q ''*'') body = Inr (qs, q) \<Longrightarrow> nl_IDB58Decode (ae_nl A) peerId = Ok pid \<Longrightarrow>
    askPeer A as wr answers pid qs s = (r, s') \<Longrightarrow> (\<forall>items. r \<noteq> Ok items) \<Longrightarrow>
    httpMerge A as wr answers peerId body s (respond apiNetError (\<lambda>items. Response 200 []) r) s'"
| merged: "read_query (\<lambda>q. IsSimpleSelect q ''*'') body = Inr (qs, q) \<Longrightarrow> nl_IDB58Decode (ae_nl A) peerId = Ok pid \<Longrightarrow>
    askPeer A as wr answers pid qs s = (Ok items, s') \<Longrightarrow>
    merge_reach (ae_m A) False items (nd_db s) (nd_ds s) t \<Longrightarrow> m_pc t = PDone \<Longrightarrow>
    httpMerge A as wr answers peerId body s (mergeResponse (m_count t) (m_ocount t) (m_err t)) (s'\<lparr>nd_db := m_db t, nd_ds := m_ds t\<rparr>)"
| crashed: "read_query (\<lambda>q. IsSimpleSelect q ''*'') body = Inr (qs, q) \<Longrightarrow> nl_IDB58Decode (ae_nl A) peerId = Ok pid \<Longrightarrow>
    askPeer A as wr answers pid qs s = (Ok items, s') \<Longrightarrow>
    merge_reach (ae_m A) False items (nd_db s) (nd_ds s) t \<Longrightarrow> m_pc t = PCrash m \<Longrightarrow>
    httpMerge A as wr answers peerId body s (Aborted m) (s'\<lparr>nd_db := m_db t, nd_ds := m_ds t\<rparr>)"

inductive_cases httpMerge_cases: "httpMerge A as wr answers peerId body s r s'"

text \<open>The connection of a push, which is made when the query has a namespace at all.\<close>

definition pushConnect ::
  "('k, 'p, 'a, 'h) api_env \<Rightarrow> ('p, 'a) peer_info arrival list \<Rightarrow> 'p \<Rightarrow> Query \<Rightarrow> ('p, 'a, 'h) node \<Rightarrow> unit outcome \<times> ('p, 'a, 'h) node" where
  "pushConnect A as pid q s =
     (case obind (db_Query (ae_eng A) (ae_unmarshal A) (WithSimpleSelect q ''namespace'') (nd_db s)) (omap as_string) of
        Ok (ns # nss) \<Rightarrow>
          (case doConnect (ae_hl A) as pid ''/mediachain/node/push'' (nd_net s) of (conn, net) \<Rightarrow> (conn, s\<lparr>nd_net := net\<rparr>))
      | _ \<Rightarrow> (Ok (), s))"

definition httpPush ::
  "('k, 'p, 'a, 'h) api_env \<Rightarrow> ('p, 'a) peer_info arrival list \<Rightarrow> (string list \<Rightarrow> unit outcome) \<Rightarrow> push_response outcome \<Rightarrow>
   (push_value \<Rightarrow> go_error option) \<Rightarrow> push_event list \<Rightarrow> push_end outcome \<Rightarrow> string \<Rightarrow> string outcome \<Rightarrow> ('p, 'a, 'h) node \<Rightarrow>
   response \<times> ('p, 'a, 'h) node" where
  "httpPush A as wreq resp wr evs fin peerId body s =
     (case read_query (\<lambda>q. IsSimpleSelect q ''*'') body of
        Inl r \<Rightarrow> (r, s)
      | Inr (qs, q) \<Rightarrow>
          (case nl_IDB58Decode (ae_nl A) peerId of
             Err e \<Rightarrow> (apiError 400 e, s)
           | Panic m \<Rightarrow> (Aborted m, s)
           | Ok pid \<Rightarrow>
               (case pushConnect A as pid q s of
                  (conn, s') \<Rightarrow>
                    (case doPush (ae_eng A) (ae_unmarshal A) (nd_db s) conn wreq resp wr evs fin q of
                       (sts, count, ocount, r) \<Rightarrow>
                         (respond
                            (\<lambda>e. add_lines (apiNetError e)
                               (partial_line ''Partial push: '' count '' statements merged'' @
                                partial_line ''Partial push: '' ocount '' objects merged'' @
                                (if count < 0 then [''Incomplete push: some statements may have been merged''] else [])))
                            (\<lambda>u. Response 200 [int_str count, int_str ocount]) r,
                          s')))))"

section \<open>Deleting and vacuuming\<close>

text \<open>A delete that fails has deleted nothing, so that there is no line for a partial one.\<close>

definition httpDelete :: "('k, 'p, 'a, 'h) api_env \<Rightarrow> string outcome \<Rightarrow> ('p, 'a, 'h) node \<Rightarrow> response \<times> ('p, 'a, 'h) node" where
  "httpDelete A body s =
     (case read_query (\<lambda>q. q_Op q = OpDelete) body of
        Inl r \<Rightarrow> (r, s)
      | Inr (qs, q) \<Rightarrow>
          (case db_Delete (me_dbfl (ae_m A)) (ae_eng A) (ae_unmarshal A) q (nd_db s) of
             (r, db) \<Rightarrow> (respond (apiError 500) (\<lambda>count. Response 200 [int_str count]) r, s\<lparr>nd_db := db\<rparr>)))"

text \<open>A call of the engine that leaves the tables alone: a pragma or the vacuum itself.\<close>

definition db_call :: "faults \<Rightarrow> sqldb \<Rightarrow> unit outcome \<times> sqldb" where
  "db_call fl db =
     ((case fl (db_time db) of Some msg \<Rightarrow> Err (engine_error msg) | None \<Rightarrow> Ok ()), db\<lparr>db_time := Suc (db_time db)\<rparr>)"

definition vacuumFull :: "faults \<Rightarrow> sqldb \<Rightarrow> unit outcome \<times> sqldb" where
  "vacuumFull fl db = (case db_call fl db of (Ok u, db') \<Rightarrow> db_call fl db' | r \<Rightarrow> r)"

text \<open>\<open>autovac\<close> is the value of the pragma.\<close>

definition vacuumIncremental :: "faults \<Rightarrow> int \<Rightarrow> sqldb \<Rightarrow> unit outcome \<times> sqldb" where
  "vacuumIncremental fl autovac db =
     (case db_call fl db of
        (Ok u, db') \<Rightarrow>
          (if autovac \<noteq> 2
           then (Err (ExtErr ''Incremental vacuum not enabled in the database; run a full vacuum first''), db')
           else db_call fl db')
      | r \<Rightarrow> r)"

definition db_Vacuum :: "faults \<Rightarrow> int \<Rightarrow> bool \<Rightarrow> sqldb \<Rightarrow> unit outcome \<times> sqldb" where
  "db_Vacuum fl autovac full db = (if full then vacuumFull fl db else vacuumIncremental fl autovac db)"

definition httpVacuumIncremental :: "('k, 'p, 'a, 'h) api_env \<Rightarrow> int \<Rightarrow> ('p, 'a, 'h) node \<Rightarrow> response \<times> ('p, 'a, 'h) node" where
  "httpVacuumIncremental A autovac s =
     (case db_Vacuum (me_dbfl (ae_m A)) autovac False (nd_db s) of
        (r, db) \<Rightarrow> (the_error 500 r [''OK''], s\<lparr>nd_db := db\<rparr>))"

definition httpVacuumFull :: "('k, 'p, 'a, 'h) api_env \<Rightarrow> int \<Rightarrow> ('p, 'a, 'h) node \<Rightarrow> response \<times> ('p, 'a, 'h) node" where
  "httpVacuumFull A autovac s =
     (case db_Vacuum (me_dbfl (ae_m A)) autovac True (nd_db s) of
        (r, db) \<Rightarrow> (the_error 500 r [''OK''], s\<lparr>nd_db := db\<rparr>))"

section \<open>Objects\<close>

definition httpGetData :: "('k, 'p, 'a, 'h) api_env \<Rightarrow> string \<Rightarrow> ('p, 'a, 'h) node \<Rightarrow> response \<times> ('p, 'a, 'h) node" where
  "httpGetData A key58 s =
     (case me_b58 (ae_m A) key58 of
        Err e \<Rightarrow> (apiError 400 e, s)
      | Panic m \<Rightarrow> (Aborted m, s)
      | Ok key \<Rightarrow>
          (case ds_Get (me_dsfl (ae_m A)) key (nd_ds s) of
             (r, ds) \<Rightarrow>
               (respond (apiError 500)
                  (\<lambda>data. if data = None then apiError 404 UnknownObject else Response 200 (encode_lines (ae_data_json A) [data])) r,
                s\<lparr>nd_ds := ds\<rparr>)))"

text \<open>The lines for the keys, up to an error, which is the last line. An object that is not there is null.\<close>

fun getBatch :: "('k, 'p, 'a, 'h) api_env \<Rightarrow> string list \<Rightarrow> rocksdb \<Rightarrow> string list outcome \<times> rocksdb" where
  "getBatch A [] ds = (Ok [], ds)"
| "getBatch A (key58 # ls) ds =
     (case me_b58 (ae_m A) key58 of
        Err e \<Rightarrow> (Ok (encode_lines (ae_item_json A) [SErr (err_text e)]), ds)
      | Panic m \<Rightarrow> (Panic m, ds)
      | Ok key \<Rightarrow>
          (case ds_Get (me_dsfl (ae_m A)) key ds of
             (Err e, ds') \<Rightarrow> (Ok (encode_lines (ae_item_json A) [SErr (err_text e)]), ds')
           | (Panic m, ds') \<Rightarrow> (Panic m, ds')
           | (Ok data, ds') \<Rightarrow>
               (case ae_data_json A data of
                  None \<Rightarrow> (Ok [], ds')
                | Some l \<Rightarrow> (case getBatch A ls ds' of (r, ds'') \<Rightarrow> (obind r (\<lambda>ls'. Ok (l # ls')), ds'')))))"

definition httpGetDataBatch :: "('k, 'p, 'a, 'h) api_env \<Rightarrow> string \<Rightarrow> ('p, 'a, 'h) node \<Rightarrow> response \<times> ('p, 'a, 'h) node" where
  "httpGetDataBatch A body s =
     (case getBatch A (scan_lines body) (nd_ds s) of (r, ds) \<Rightarrow> (respond (apiError 500) (Response 200) r, s\<lparr>nd_ds := ds\<rparr>))"

fun putEach :: "'k merge_env \<Rightarrow> string list \<Rightarrow> rocksdb \<Rightarrow> string list outcome \<times> rocksdb" where
  "putEach E [] ds = (Ok [], ds)"
| "putEach E (data # batch) ds =
     (case ds_Put (me_dsfl E) (me_digest E) data ds of
        (Ok key, ds') \<Rightarrow> (case putEach E batch ds' of (r, ds'') \<Rightarrow> (obind r (\<lambda>keys. Ok (key # keys)), ds''))
      | (Err e, ds') \<Rightarrow> (Err e, ds')
      | (Panic m, ds') \<Rightarrow> (Panic m, ds'))"

definition httpPutData :: "('k, 'p, 'a, 'h) api_env \<Rightarrow> string outcome list \<Rightarrow> ('p, 'a, 'h) node \<Rightarrow> response \<times> ('p, 'a, 'h) node" where
  "httpPutData A body s =
     (case decode_all body of
        Err e \<Rightarrow> (apiError 400 e, s)
      | Panic m \<Rightarrow> (Aborted m, s)
      | Ok batch \<Rightarrow>
          (case putEach (ae_m A) batch (nd_ds s) of
             (r, ds) \<Rightarrow> (respond (apiError 500) (\<lambda>keys. Response 200 (map (ae_B58String A) keys)) r, s\<lparr>nd_ds := ds\<rparr>)))"

text \<open>\<open>wr\<close> is the outcome of writing the request for the objects and \<open>msgs\<close> what the peer sends.\<close>

definition httpMergeData ::
  "('k, 'p, 'a, 'h) api_env \<Rightarrow> ('p, 'a) peer_info arrival list \<Rightarrow> go_error option \<Rightarrow> data_msg outcome list \<Rightarrow> string \<Rightarrow> string \<Rightarrow>
   ('p, 'a, 'h) node \<Rightarrow> response \<times> ('p, 'a, 'h) node" where
  "httpMergeData A as wr msgs peerId body s =
     (case nl_IDB58Decode (ae_nl A) peerId of
        Err e \<Rightarrow> (apiError 400 e, s)
      | Panic m \<Rightarrow> (Aborted m, s)
      | Ok pid \<Rightarrow>
          (case ofold (\<lambda>keys l. mergeObjectKey (ae_m A) l keys) [] (scan_lines body) of
             Err e \<Rightarrow> (apiError 400 e, s)
           | Panic m \<Rightarrow> (Aborted m, s)
           | Ok keys \<Rightarrow>
               (case doConnect (ae_hl A) as pid ''/mediachain/node/data'' (nd_net s) of
                  (conn, net) \<Rightarrow>
                    (case doRawMerge (ae_m A) conn wr msgs keys (nd_ds s) of
                       (count, r, ds) \<Rightarrow>
                         (respond (\<lambda>e. add_lines (apiNetError e) (partial_line ''Partial merge: '' count '' objects merged''))
                            (\<lambda>u. Response 200 [int_str count]) r,
                          s\<lparr>nd_net := net, nd_ds := ds\<rparr>)))))"

text \<open>\<open>gcfl\<close> says which calls of the collector's own database fail.\<close>

definition httpGCData :: "('k, 'p, 'a, 'h) api_env \<Rightarrow> faults \<Rightarrow> ('p, 'a, 'h) node \<Rightarrow> response \<times> ('p, 'a, 'h) node" where
  "httpGCData A gcfl s =
     (case doGC gcfl (me_dsfl (ae_m A)) (me_rord (ae_m A)) (me_kord (ae_m A)) (ae_B58String A) (ae_eng A) (ae_unmarshal A)
             (ns_status (nd_net s)) (nd_db s) (nd_ds s) of
        (count, r, ds) \<Rightarrow>
          (respond (\<lambda>e. add_lines (apiError 500 e) (partial_line ''Partial GC: '' count '' objects deleted''))
             (\<lambda>u. Response 200 [int_str count]) r,
           s\<lparr>nd_ds := ds\<rparr>))"

text \<open>A compaction does not change what is stored and reports no error.\<close>

definition doCompact :: "rocksdb \<Rightarrow> unit outcome \<times> rocksdb" where
  "doCompact ds = (Ok (), ds)"

definition httpCompactData :: "('p, 'a, 'h) node \<Rightarrow> response \<times> ('p, 'a, 'h) node" where
  "httpCompactData s = (case doCompact (nd_ds s) of (r, ds) \<Rightarrow> (the_error 500 r [''OK''], s\<lparr>nd_ds := ds\<rparr>))"

definition httpSyncData :: "('k, 'p, 'a, 'h) api_env \<Rightarrow> ('p, 'a, 'h) node \<Rightarrow> response \<times> ('p, 'a, 'h) node" where
  "httpSyncData A s = (case ds_Sync (me_dsfl (ae_m A)) (nd_ds s) of (r, ds) \<Rightarrow> (the_error 500 r [''OK''], s\<lparr>nd_ds := ds\<rparr>))"

definition httpDataKeys :: "('k, 'p, 'a, 'h) api_env \<Rightarrow> ('p, 'a, 'h) node \<Rightarrow> response \<times> ('p, 'a, 'h) node" where
  "httpDataKeys A s =
     (case ds_IterKeys (me_dsfl (ae_m A)) (me_kord (ae_m A)) (nd_ds s) of
        (r, ds) \<Rightarrow> (respond (apiError 500) (\<lambda>keys. Response 200 (map (ae_B58String A) keys)) r, s\<lparr>nd_ds := ds\<rparr>))"

end
