(* ===== verification/ApiCorrect.thy ===== *)
theory ApiCorrect
  imports ApiData
begin

text \<open>
  What the data requests of the REST API do: a published batch can be read back under the ids in the response,
  grouped or not; an import of any length counts what is new, also when it fails in the middle; and the
  objects that are put are got back under the keys in the response.
\<close>

section \<open>Statements made for a request\<close>

text \<open>A statement the node made for a body at some time, signed by its key.\<close>

definition made :: "'k crypto \<Rightarrow> string \<Rightarrow> string \<Rightarrow> int set \<Rightarrow> body_oneof option \<Rightarrow> statement \<Rightarrow> bool" where
  "made cr pid ns ts b st \<longleftrightarrow>
     (\<exists>c. Id st = statement_id pid (Timestamp st) c) \<and> Publisher st = pid \<and> Namespace st = ns \<and> Timestamp st \<in> ts \<and>
     b \<noteq> None \<and> Body st = Some (StatementBody b) \<and>
     (\<exists>bytes sig. cr_marshal cr (with_signature None st) = Some bytes \<and> cr_sign cr bytes = Ok sig \<and> Signature st = Some sig)"

lemma makeStatement_made:
  "makeStatement cr t ns b p = (Ok st, p') \<Longrightarrow> t \<in> ts \<Longrightarrow> made cr (ID58 p) ns ts b st \<and> ID58 p' = ID58 p"
  using makeStatement_Ok [of cr t ns b p st p'] by (auto simp: made_def)

lemma makeStatements_made:
  "makeStatements cr now x ns bs p = (Ok sts, p') \<Longrightarrow> list_all2 (made cr (ID58 p) ns (range now)) bs sts"
proof (induction bs arbitrary: x p p' sts)
  case (Cons b bs)
  then obtain st p1 sts' where m: "makeStatement cr (now x) ns b p = (Ok st, p1)"
    "makeStatements cr now (Suc x) ns bs p1 = (Ok sts', p')" "sts = st # sts'"
    by (auto split: prod.splits outcome.splits)
  from makeStatement_made [OF m(1) rangeI [of now]] Cons.IH [OF m(2)] m(3) show ?case by simp
qed simp

lemma makeStatements_ID58: "makeStatements cr now x ns bs p = (r, p') \<Longrightarrow> ID58 p' = ID58 p"
proof (induction bs arbitrary: x p p' r)
  case (Cons b bs)
  have "ID58 (snd (makeStatement cr (now x) ns b p)) = ID58 p"
    by (simp add: makeStatement_def stmtCounter_def Let_def)
  with Cons show ?case by (fastforce split: prod.splits outcome.splits)
qed simp

lemma made_authentic:
  assumes "made cr pid ns ts b st" "pid \<noteq> []" "ns \<noteq> []" "\<forall>t \<in> ts. 0 < t"
    and "\<And>b sig. cr_sign cr b = Ok sig \<Longrightarrow> \<exists>k. PublisherKey cr pid = Ok k \<and> cr_verify cr k b (Some sig) = Ok True"
  shows "authentic cr st"
proof -
  from assms(1) obtain bytes sig where s: "cr_marshal cr (with_signature None st) = Some bytes" "cr_sign cr bytes = Ok sig" "Signature st = Some sig"
    by (auto simp: made_def)
  have "verifyStatement cr st = Ok True"
    using assms(5) [OF s(2)] s assms(1) by (auto simp: verifyStatement_def verifyStatementSig_def made_def)
  moreover have "checkStatement st"
    using assms(1-4) s(3) by (auto simp: checkStatement_def made_def statement_id_def)
  ultimately show ?thesis by (simp add: authentic_def)
qed

text \<open>A batch that was published: its statements and where they are.\<close>

lemma doPublishBatch_made:
  assumes "doPublishBatch cr fl rord now ns bs (p, db) = (Ok ids, p', db')"
  obtains sts where "list_all2 (made cr (ID58 p) ns (range now)) bs sts" "ids = map Id sts"
    "db_PutBatch fl rord (cr_marshal cr) sts db = (Ok (), db')"
  using assms by (auto simp: doPublishBatch_def split: prod.splits outcome.splits dest: makeStatements_made)

lemma publishDecoded_made:
  assumes "publishDecoded A now ns stmts s = (Response 200 ids, s')"
  obtains lst sts where "stmts = Ok lst" "list_all2 (made (me_crypto (ae_m A)) (ID58 (nd_publisher s)) ns (range now)) (map Some lst) sts"
    "ids = map Id sts" "\<forall>st \<in> set sts. \<exists>b. stored (nd_db s') (Id st) = Some b \<and> cr_marshal (me_crypto (ae_m A)) st = Some b"
proof -
  from assms obtain lst where lst: "stmts = Ok lst" by (cases stmts) (auto simp: publishDecoded_def)
  show thesis
  proof (cases "lst = []")
    case True
    with assms lst that [of "[]" "[]"] show thesis by (auto simp: publishDecoded_def)
  next
    case False
    obtain r p db where b: "doPublishBatch (me_crypto (ae_m A)) (me_dbfl (ae_m A)) (me_rord (ae_m A)) now ns (map Some lst)
        (nd_publisher s, nd_db s) = (r, p, db)" by (metis prod_cases3)
    with assms lst False have r: "r = Ok ids" "nd_db s' = db" by (cases r; auto simp: publishDecoded_def)+
    from doPublishBatch_made [OF b [unfolded r(1)]]
    obtain sts where sts: "list_all2 (made (me_crypto (ae_m A)) (ID58 (nd_publisher s)) ns (range now)) (map Some lst) sts" "ids = map Id sts"
      and put: "db_PutBatch (me_dbfl (ae_m A)) (me_rord (ae_m A)) (cr_marshal (me_crypto (ae_m A))) sts (nd_db s) = (Ok (), db)" by blast
    have "\<forall>st \<in> set sts. \<exists>b. stored (nd_db s') (Id st) = Some b \<and> cr_marshal (me_crypto (ae_m A)) st = Some b"
      using sqlite.put_batch_new(4) [OF put] unfolding r(2) by force
    with that [OF lst sts] show thesis .
  qed
qed

text \<open>Reading a stored statement.\<close>

lemma httpStatement_stored:
  assumes "stored (nd_db s) (Id st) = Some b" "cr_marshal (me_crypto (ae_m A)) st = Some b"
    and "\<And>st b. cr_marshal (me_crypto (ae_m A)) st = Some b \<Longrightarrow> ae_unmarshal A b = Ok st"
    and "me_dbfl (ae_m A) (db_time (nd_db s)) = None" "ae_stmt_json A st = Some l"
  shows "fst (httpStatement A (Id st) s) = Response 200 [l]"
proof -
  have "fst (db_Get (me_dbfl (ae_m A)) (ae_unmarshal A) (Id st) (nd_db s)) = Ok st"
    using assms(1) assms(3) [OF assms(2)] by (simp add: db_Get_result [of "me_dbfl (ae_m A)", OF assms(4)])
  then show ?thesis using assms(5) by (simp add: httpStatement_def case_prod_beta)
qed

text \<open>C4: What POST /publish answers can be read back: the response lists one id for each simple statement of the body, in
  its order, and GET /stmt of each id answers the statement with that very body, in the namespace of the request,
  by this node's publisher. Hypotheses: the library unmarshals what it marshalled, a statement has a JSON
  text, and the engine does not fail the read.\<close>

theorem publish_readable:
  assumes "\<And>st b. cr_marshal (me_crypto (ae_m A)) st = Some b \<Longrightarrow> ae_unmarshal A b = Ok st" "\<And>st. ae_stmt_json A st = Some (js st)"
    and "httpPublish A now ns body s = (Response 200 ids, s')" "me_dbfl (ae_m A) (db_time (nd_db s')) = None"
  shows "nsrx ns \<and> (\<exists>sts sbs. body = map Ok sbs \<and> ids = map Id sts \<and> length sts = length sbs \<and>
    (\<forall>i < length sts. Body (sts ! i) = Some (StatementBody (Some (BodySimple (sbs ! i)))) \<and> Namespace (sts ! i) = ns \<and>
       Publisher (sts ! i) = ID58 (nd_publisher s) \<and> fst (httpStatement A (ids ! i) s') = Response 200 [js (sts ! i)]))"
proof -
  from assms(3) have ns: "nsrx ns" and pub: "publishDecoded A now ns (obind (decode_all body) (\<lambda>sbs. Ok (map BodySimple sbs))) s = (Response 200 ids, s')"
    by (auto simp: httpPublish_def split: if_splits)
  from publishDecoded_made [OF pub] obtain lst sts where d: "obind (decode_all body) (\<lambda>sbs. Ok (map BodySimple sbs)) = Ok lst"
    and m: "list_all2 (made (me_crypto (ae_m A)) (ID58 (nd_publisher s)) ns (range now)) (map Some lst) sts" "ids = map Id sts"
      "\<forall>st \<in> set sts. \<exists>b. stored (nd_db s') (Id st) = Some b \<and> cr_marshal (me_crypto (ae_m A)) st = Some b" by blast
  from d obtain sbs where sbs: "body = map Ok sbs" "lst = map BodySimple sbs" by (cases "decode_all body") (auto simp: decode_all_Ok)
  have "Body (sts ! i) = Some (StatementBody (Some (BodySimple (sbs ! i)))) \<and> Namespace (sts ! i) = ns \<and>
       Publisher (sts ! i) = ID58 (nd_publisher s) \<and> fst (httpStatement A (ids ! i) s') = Response 200 [js (sts ! i)]"
    if i: "i < length sts" for i
  proof -
    from m(3) i obtain b where "stored (nd_db s') (Id (sts ! i)) = Some b" "cr_marshal (me_crypto (ae_m A)) (sts ! i) = Some b"
      by (meson nth_mem)
    from httpStatement_stored [OF this assms(1,4,2)] m(1,2) i sbs(2) show ?thesis by (auto simp: list_all2_conv_all_nth made_def)
  qed
  moreover have "length sts = length sbs" using list_all2_lengthD [OF m(1)] sbs(2) by simp
  ultimately show ?thesis using ns sbs(1) m(2) by blast
qed

section \<open>Groups\<close>

lemma compoundLoop_groups:
  "compoundLoop clen stmts body vals = Ok lst \<Longrightarrow> length body < clen \<Longrightarrow>
   \<exists>groups sbs. vals = map Ok sbs \<and> lst = stmts @ map BodyCompound groups \<and> concat groups = body @ sbs \<and>
     (\<forall>g \<in> set groups. g \<noteq> [] \<and> length g \<le> clen) \<and> (\<forall>g \<in> set (butlast groups). length g = clen)"
proof (induction clen stmts body vals rule: compoundLoop.induct)
  case (1 clen stmts body)
  then show ?case by (cases "body = []") (auto intro: exI [of _ "[]"] exI [of _ "[body]"])
next
  case (4 clen stmts body sbody vals)
  show ?case
  proof (cases "length (body @ [sbody]) < clen")
    case True
    from "4.IH"(1) [OF refl True] "4.prems" True obtain groups sbs where
      "vals = map Ok sbs" "lst = stmts @ map BodyCompound groups" "concat groups = (body @ [sbody]) @ sbs"
      "\<forall>g \<in> set groups. g \<noteq> [] \<and> length g \<le> clen" "\<forall>g \<in> set (butlast groups). length g = clen" by auto
    then show ?thesis by (intro exI [of _ groups] exI [of _ "sbody # sbs"]) simp
  next
    case False
    with "4.prems" have len: "length (body @ [sbody]) = clen" "0 < clen" by auto
    from "4.IH"(2) [OF refl False] "4.prems" False obtain groups sbs where
      g: "vals = map Ok sbs" "lst = (stmts @ [BodyCompound (body @ [sbody])]) @ map BodyCompound groups" "concat groups = [] @ sbs"
      "\<forall>g \<in> set groups. g \<noteq> [] \<and> length g \<le> clen" "\<forall>g \<in> set (butlast groups). length g = clen" by auto
    then show ?thesis using len by (intro exI [of _ "(body @ [sbody]) # groups"] exI [of _ "sbody # sbs"]) auto
  qed
qed simp_all

text \<open>C5: What POST /publish/{namespace}/{combine} answers are ids of compound statements that together hold the simple
  statements of the body in their order: none of them empty, all but the last of exactly the length asked for and
  the last of at most that, and GET /stmt of each id answers the statement with its group.\<close>

theorem compound_publish_readable:
  assumes "\<And>st b. cr_marshal (me_crypto (ae_m A)) st = Some b \<Longrightarrow> ae_unmarshal A b = Ok st" "\<And>st. ae_stmt_json A st = Some (js st)"
    and "httpPublishCompound A now ns comb body s = (Response 200 ids, s')" "me_dbfl (ae_m A) (db_time (nd_db s')) = None"
  shows "\<exists>clen groups sts. Atoi comb = Ok (int clen) \<and> body = map Ok (concat groups) \<and>
    (\<forall>g \<in> set groups. g \<noteq> [] \<and> length g \<le> clen) \<and> (\<forall>g \<in> set (butlast groups). length g = clen) \<and>
    ids = map Id sts \<and> length sts = length groups \<and>
    (\<forall>i < length sts. Body (sts ! i) = Some (StatementBody (Some (BodyCompound (groups ! i)))) \<and>
       fst (httpStatement A (ids ! i) s') = Response 200 [js (sts ! i)])"
proof -
  from assms(3) obtain c where c: "Atoi comb = Ok c" "0 < c"
    and pub: "publishDecoded A now ns (compoundLoop (nat c) [] [] body) s = (Response 200 ids, s')"
    by (auto simp: httpPublishCompound_def split: if_splits outcome.splits)
  from publishDecoded_made [OF pub] obtain lst sts where d: "compoundLoop (nat c) [] [] body = Ok lst"
    and m: "list_all2 (made (me_crypto (ae_m A)) (ID58 (nd_publisher s)) ns (range now)) (map Some lst) sts" "ids = map Id sts"
      "\<forall>st \<in> set sts. \<exists>b. stored (nd_db s') (Id st) = Some b \<and> cr_marshal (me_crypto (ae_m A)) st = Some b" by blast
  from compoundLoop_groups [OF d] c(2) obtain groups where g: "body = map Ok (concat groups)" "lst = map BodyCompound groups"
    "\<forall>g \<in> set groups. g \<noteq> [] \<and> length g \<le> nat c" "\<forall>g \<in> set (butlast groups). length g = nat c" by auto
  have "Body (sts ! i) = Some (StatementBody (Some (BodyCompound (groups ! i)))) \<and> fst (httpStatement A (ids ! i) s') = Response 200 [js (sts ! i)]"
    if i: "i < length sts" for i
  proof -
    from m(3) i obtain b where "stored (nd_db s') (Id (sts ! i)) = Some b" "cr_marshal (me_crypto (ae_m A)) (sts ! i) = Some b"
      by (meson nth_mem)
    from httpStatement_stored [OF this assms(1,4,2)] m(1,2) i g(2) show ?thesis by (auto simp: list_all2_conv_all_nth made_def)
  qed
  moreover have "length sts = length groups" using list_all2_lengthD [OF m(1)] g(2) by simp
  ultimately show ?thesis using c g m(2) by (intro exI [of _ "nat c"] exI [of _ groups] exI [of _ sts]) auto
qed

text \<open>A group length that is not positive makes the handler panic, rather than answer that the request is bad.\<close>

theorem compound_length_panics:
  "nsrx ns \<Longrightarrow> Atoi comb = Ok clen \<Longrightarrow> clen \<le> 0 \<Longrightarrow> \<exists>m. httpPublishCompound A now ns comb body s = (Aborted m, s)"
  by (auto simp: httpPublishCompound_def)

section \<open>Imports of any length\<close>

text \<open>What some batches added: authentic statements of \<open>S\<close>, counted once.\<close>

definition imported :: "'k crypto \<Rightarrow> statement set \<Rightarrow> sqldb \<Rightarrow> sqldb \<Rightarrow> int \<Rightarrow> bool" where
  "imported cr S db0 db n \<longleftrightarrow>
     (\<forall>i \<in> dom (stored db) - dom (stored db0). \<exists>st \<in> S. authentic cr st \<and> Id st = i \<and> cr_marshal cr st = stored db i) \<and>
     stored db0 \<subseteq>\<^sub>m stored db \<and> n = int (card (dom (stored db) - dom (stored db0)))"

lemma imported_refl: "imported cr S db db 0"
  by (simp add: imported_def)

lemma imported_trans:
  assumes "imported cr S db0 db1 m" "imported cr S db1 db2 n"
  shows "imported cr S db0 db2 (m + n)"
proof -
  have le: "stored db0 \<subseteq>\<^sub>m stored db1" "stored db1 \<subseteq>\<^sub>m stored db2" using assms by (simp_all add: imported_def)
  then have sub: "dom (stored db0) \<subseteq> dom (stored db1)" "dom (stored db1) \<subseteq> dom (stored db2)" by (auto dest: map_le_implies_dom_le)
  then have split: "dom (stored db2) - dom (stored db0) = (dom (stored db1) - dom (stored db0)) \<union> (dom (stored db2) - dom (stored db1))" by blast
  have "card (dom (stored db2) - dom (stored db0)) = card (dom (stored db1) - dom (stored db0)) + card (dom (stored db2) - dom (stored db1))"
    unfolding split using sub by (intro card_Un_disjoint) auto
  moreover have "\<exists>st \<in> S. authentic cr st \<and> Id st = i \<and> cr_marshal cr st = stored db2 i" if i: "i \<in> dom (stored db2) - dom (stored db0)" for i
  proof (cases "i \<in> dom (stored db1)")
    case True
    with i have "i \<in> dom (stored db1) - dom (stored db0)" by blast
    with assms(1) obtain st where "st \<in> S" "authentic cr st" "Id st = i" "cr_marshal cr st = stored db1 i" unfolding imported_def by blast
    moreover have "stored db1 i = stored db2 i" using le(2) True by (simp add: map_le_def)
    ultimately show ?thesis by auto
  next
    case False
    with assms(2) i show ?thesis by (auto simp: imported_def)
  qed
  ultimately show ?thesis using assms map_le_trans [OF le] by (simp add: imported_def)
qed

lemma imported_mono: "imported cr S db0 db n \<Longrightarrow> S \<subseteq> T \<Longrightarrow> imported cr T db0 db n"
  unfolding imported_def by blast

lemma doImport_imported:
  assumes "cache_ok cr cache" "doImport cr fl rord sts cache db = (r, db')"
  shows "case r of Ok n \<Rightarrow> imported cr (set sts) db db' n \<and> list_all (authentic cr) sts \<and> Id ` set sts \<subseteq> dom (stored db')
    | _ \<Rightarrow> imported cr (set sts) db db' 0"
proof (cases r)
  case (Ok n)
  with doImport_spec [OF assms] have sp: "list_all (authentic cr) sts" "n = int (card (Id ` set sts - dom (stored db)))"
    "dom (stored db') = dom (stored db) \<union> Id ` set sts" by auto
  from assms(2) Ok have m: "db_MergeBatch fl rord (cr_marshal cr) sts db = (Ok n, db')"
    by (auto simp: doImport_def split: outcome.splits)
  have "\<exists>st \<in> set sts. authentic cr st \<and> Id st = i \<and> cr_marshal cr st = stored db' i" if i: "i \<in> dom (stored db') - dom (stored db)" for i
    using sqlite.merge_new [OF m i] sp(1) i by (metis DiffD1 domD list_all_iff option.sel)
  moreover have "dom (stored db') - dom (stored db) = Id ` set sts - dom (stored db)" using sp(3) by blast
  ultimately show ?thesis using Ok sp sqlite.grows(4) [OF m] by (simp add: imported_def)
next
  case (Err e)
  with assms(2) have "stored db' = stored db"
    by (auto simp: doImport_def split: outcome.splits dest: sqlite.merge_batch_fails)
  with Err show ?thesis by (simp add: imported_def)
next
  case (Panic m)
  with assms(2) have "stored db' = stored db"
    by (auto simp: doImport_def split: outcome.splits dest: sqlite.merge_batch_fails)
  with Panic show ?thesis by (simp add: imported_def)
qed

lemma importCache_ok: "cache_ok cr cache \<Longrightarrow> cache_ok cr (importCache cr sts cache)"
proof -
  have "cache_ok cr cache \<Longrightarrow> ofold (\<lambda>cache st. admit cr st cache) cache sts = Ok cache' \<Longrightarrow> cache_ok cr cache'" for cache'
  proof (induction sts arbitrary: cache)
    case (Cons st sts)
    then show ?case by (cases "admit cr st cache") (auto dest: admit_cache)
  qed simp
  then show "cache_ok cr cache \<Longrightarrow> cache_ok cr (importCache cr sts cache)" by (simp add: importCache_def split: outcome.splits)
qed

lemma imported_dom: "imported cr S db0 db n \<Longrightarrow> dom (stored db0) \<subseteq> dom (stored db)"
  unfolding imported_def using map_le_implies_dom_le by blast

lemma importLoop_imported:
  assumes "importLoop E cache stmts count vals db = (n, r, db')" "cache_ok (me_crypto E) cache"
  shows "imported (me_crypto E) {st. st \<in> set stmts \<or> Ok st \<in> set vals} db db' (n - count) \<and>
    (\<forall>u. r = Ok u \<longrightarrow> (\<exists>sts. vals = map Ok sts \<and> (\<forall>st \<in> set stmts \<union> set sts. authentic (me_crypto E) st \<and> Id st \<in> dom (stored db'))))"
  using assms
proof (induction E cache stmts count vals db arbitrary: n r db' rule: importLoop.induct)
  case (1 E cache stmts count db)
  obtain ri db1 where i: "doImport (me_crypto E) (me_dbfl E) (me_rord E) stmts cache db = (ri, db1)" by fastforce
  from doImport_imported [OF "1.prems"(2) i] "1.prems"(1) i show ?case
    by (cases ri) (auto simp: imported_refl list_all_iff image_subset_iff split: if_splits)
next
  case (4 E cache stmts count stmt vals db)
  let ?cr = "me_crypto E" and ?S = "{st. st \<in> set stmts \<or> Ok st \<in> set (Ok stmt # vals)}"
  show ?case
  proof (cases "import_batch \<le> length (stmts @ [stmt])")
    case False
    with "4.IH"(2) [OF refl False] "4.prems" have
      "imported ?cr {st. st \<in> set (stmts @ [stmt]) \<or> Ok st \<in> set vals} db db' (n - count)"
      "\<forall>u. r = Ok u \<longrightarrow> (\<exists>sts. vals = map Ok sts \<and> (\<forall>st \<in> set (stmts @ [stmt]) \<union> set sts. authentic ?cr st \<and> Id st \<in> dom (stored db')))"
      by (auto simp: Let_def)
    moreover have "{st. st \<in> set (stmts @ [stmt]) \<or> Ok st \<in> set vals} = ?S" by auto
    ultimately show ?thesis by (fastforce intro: exI [of _ "stmt # sts" for sts])
  next
    case True
    obtain ri db1 where i: "doImport ?cr (me_dbfl E) (me_rord E) (stmts @ [stmt]) cache db = (ri, db1)" by fastforce
    note imp = doImport_imported [OF "4.prems"(2) i]
    have sub: "set (stmts @ [stmt]) \<subseteq> ?S" "{st. st \<in> set [] \<or> Ok st \<in> set vals} \<subseteq> ?S" by auto
    show ?thesis
    proof (cases ri)
      case (Ok xcount)
      note first = imp [unfolded Ok, simplified outcome.case]
      have "importLoop E (importCache ?cr (stmts @ [stmt]) cache) [] (count + xcount) vals db1 = (n, r, db')"
        using "4.prems"(1) True i Ok by (simp add: Let_def)
      from "4.IH"(1) [OF refl True i [symmetric] Ok this importCache_ok [OF "4.prems"(2)]] have
        rest: "imported ?cr {st. st \<in> set [] \<or> Ok st \<in> set vals} db1 db' (n - (count + xcount))"
        "\<forall>u. r = Ok u \<longrightarrow> (\<exists>sts. vals = map Ok sts \<and> (\<forall>st \<in> set [] \<union> set sts. authentic ?cr st \<and> Id st \<in> dom (stored db')))"
        by blast+
      have "imported ?cr ?S db db' (xcount + (n - (count + xcount)))"
        using first imported_trans [OF imported_mono [OF _ sub(1)] imported_mono [OF rest(1) sub(2)]] by blast
      moreover have "\<exists>sts. Ok stmt # vals = map Ok sts \<and> (\<forall>st \<in> set stmts \<union> set sts. authentic ?cr st \<and> Id st \<in> dom (stored db'))"
        if r: "r = Ok u" for u
      proof -
        from rest(2) r obtain sts where sts: "vals = map Ok sts" "\<forall>st \<in> set sts. authentic ?cr st \<and> Id st \<in> dom (stored db')" by auto
        have "dom (stored db1) \<subseteq> dom (stored db')" by (rule imported_dom [OF rest(1)])
        with first have "\<forall>st \<in> set (stmts @ [stmt]). authentic ?cr st \<and> Id st \<in> dom (stored db')"
          unfolding list_all_iff by blast
        with sts show ?thesis by (intro exI [of _ "stmt # sts"]) auto
      qed
      ultimately show ?thesis by simp
    qed (use "4.prems"(1) True i imp in \<open>auto elim: imported_mono\<close>)
  qed
qed (simp_all add: imported_refl)

text \<open>C6: POST /import of any number of statements, in batches of 1024: nothing that was stored is lost; what is new in
  the database are statements of the body that are complete and signed by their publisher; the count in the
  response is the number of new statements, also in the line that follows an error in a later batch; and when the
  response is a success, every value of the body is such a statement and all of them are stored.\<close>

theorem import_request:
  assumes "httpImport A body s = (r, s')"
  shows "\<exists>n. imported (me_crypto (ae_m A)) {st. Ok st \<in> set body} (nd_db s) (nd_db s') n \<and>
    (\<forall>ls. r = Response 200 ls \<longrightarrow> ls = [int_str n] \<and>
       (\<exists>sts. body = map Ok sts \<and> (\<forall>st \<in> set sts. authentic (me_crypto (ae_m A)) st \<and> Id st \<in> dom (stored (nd_db s'))))) \<and>
    (\<forall>ls. r = Response 400 ls \<longrightarrow> (\<exists>e. ls = (''Error: '' @ err_text e) # partial_line ''Partial import: '' n '' statements merged''))"
proof -
  obtain n ri db where l: "importLoop (ae_m A) Map.empty [] 0 body (nd_db s) = (n, ri, db)" by (metis prod_cases3)
  with assms have s': "nd_db s' = db" and r: "r = respond (\<lambda>e. add_lines (apiError 400 e) (partial_line ''Partial import: '' n '' statements merged''))
      (\<lambda>u. Response 200 [int_str n]) ri" by (auto simp: httpImport_def)
  from importLoop_imported [OF l cache_ok_empty] s' r show ?thesis
    by (intro exI [of _ n]; cases ri) (auto simp: apiError_def)
qed

section \<open>Objects\<close>

lemma add_all_other: "k \<notin> digest ` set batch \<Longrightarrow> add_all digest batch m k = m k"
  by (induction batch arbitrary: m) auto

lemma add_all_found: "inj_on digest (set batch) \<Longrightarrow> d \<in> set batch \<Longrightarrow> add_all digest batch m (digest d) = Some d"
proof (induction batch arbitrary: m)
  case (Cons x batch)
  show ?case
  proof (cases "d \<in> set batch")
    case True
    with Cons show ?thesis by simp
  next
    case False
    with Cons.prems have "digest d \<notin> digest ` set batch" "d = x" by (auto simp: inj_on_def)
    then show ?thesis by (simp add: add_all_other)
  qed
qed simp

lemma putEach_Ok:
  "putEach E batch ds = (Ok keys, ds') \<Longrightarrow> keys = map (Hash (me_digest E)) batch \<and> objects ds' = add_all (me_digest E) batch (objects ds)"
proof (induction batch arbitrary: ds keys)
  case (Cons d batch)
  obtain rk ds1 where put: "ds_Put (me_dsfl E) (me_digest E) d ds = (rk, ds1)" by fastforce
  with Cons.prems obtain key where key: "rk = Ok key" by (cases rk) auto
  with Cons.prems put obtain ks where ks: "putEach E batch ds1 = (Ok ks, ds')" "keys = key # ks"
    by (cases "fst (putEach E batch ds1)") (auto split: prod.splits)
  from rocks.put_law [OF put [unfolded key]] Cons.IH [OF ks(1)] ks(2) show ?case by (simp del: fun_upd_apply)
qed simp

text \<open>Reading with an engine that has stopped failing.\<close>

lemma ds_Get_found:
  assumes "objects ds (digest d) = Some d" "\<And>n. rk_time ds \<le> n \<Longrightarrow> fl n = None"
  shows "ds_Get fl (Hash digest d) ds = (Ok (Some d), ds\<lparr>rk_time := Suc (rk_time ds)\<rparr>)"
  using assms by (simp add: ds_Get_def rk_call_def objects_def)

lemma getBatch_found:
  assumes "\<And>d. d \<in> set batch \<Longrightarrow> objects ds (me_digest (ae_m A) d) = Some d"
    "\<And>n. rk_time ds \<le> n \<Longrightarrow> me_dsfl (ae_m A) n = None"
    "\<And>d. d \<in> set batch \<Longrightarrow> me_b58 (ae_m A) (k58 d) = Ok (Hash (me_digest (ae_m A)) d)"
    "\<And>x. ae_data_json A x = Some (dj x)"
  shows "fst (getBatch A (map k58 batch) ds) = Ok (map (\<lambda>d. dj (Some d)) batch)"
  using assms(1-3)
proof (induction batch arbitrary: ds)
  case (Cons d batch)
  let ?ds = "ds\<lparr>rk_time := Suc (rk_time ds)\<rparr>"
  have "fst (getBatch A (map k58 batch) ?ds) = Ok (map (\<lambda>d. dj (Some d)) batch)"
    by (rule Cons.IH) (use Cons.prems in \<open>auto simp: objects_def\<close>)
  then show ?case
    using ds_Get_found [of ds "me_digest (ae_m A)" d "me_dsfl (ae_m A)"] Cons.prems(1) Cons.prems(2) Cons.prems(3) assms(4)
    by (simp add: case_prod_beta)
qed simp

text \<open>C7: What POST /data/put answers gets the objects back: the response lists a key for each object of the body; the
  response taken as the body of POST /data/get answers exactly these objects, in the same order, and so does
  GET /data/get of each key. Hypotheses: the digests of the objects differ, base58 reads back the keys it prints and
  prints them on a line, an object has a JSON text, and the engine does not fail the reads.\<close>

theorem put_get_objects:
  assumes "inj_on (me_digest (ae_m A)) {d. Ok d \<in> set body}"
    and "\<And>d k. Ok d \<in> set body \<Longrightarrow> k = Hash (me_digest (ae_m A)) d \<Longrightarrow>
      me_b58 (ae_m A) (ae_B58String A k) = Ok k \<and> plain_line (ae_B58String A k)"
    and "\<And>x. ae_data_json A x = Some (dj x)"
    and "httpPutData A body s = (Response 200 keys, s')" "\<And>n. rk_time (nd_ds s') \<le> n \<Longrightarrow> me_dsfl (ae_m A) n = None"
  shows "\<exists>batch. body = map Ok batch \<and> length keys = length batch \<and>
    fst (httpGetDataBatch A (unlines keys) s') = Response 200 (map (\<lambda>d. dj (Some d)) batch) \<and>
    (\<forall>i < length batch. fst (httpGetData A (keys ! i) s') = Response 200 [dj (Some (batch ! i))])"
proof -
  let ?k58 = "\<lambda>d. ae_B58String A (Hash (me_digest (ae_m A)) d)"
  from assms(4) obtain batch r ds where b: "body = map Ok batch" "putEach (ae_m A) batch (nd_ds s) = (r, ds)"
    and resp: "respond (apiError 500) (\<lambda>keys. Response 200 (map (ae_B58String A) keys)) r = Response 200 keys" "s' = s\<lparr>nd_ds := ds\<rparr>"
    by (auto simp: httpPutData_def decode_all_Ok split: outcome.splits prod.splits)
  then obtain ks where r: "r = Ok ks" by (cases r) auto
  note put = putEach_Ok [OF b(2) [unfolded r]]
  with resp(1) r have keys: "keys = map ?k58 batch" by (auto simp: comp_def)
  have ds: "nd_ds s' = ds" using resp(2) by simp
  have obj: "objects (nd_ds s') (me_digest (ae_m A) d) = Some d" if "d \<in> set batch" for d
    using put add_all_found [OF _ that] assms(1) b(1) ds by (simp add: image_iff)
  have b58: "me_b58 (ae_m A) (?k58 d) = Ok (Hash (me_digest (ae_m A)) d)" "plain_line (?k58 d)" if "d \<in> set batch" for d
    using assms(2) [of d] that b(1) by simp_all
  have "list_all plain_line keys" using b58(2) keys by (simp add: list_all_iff)
  then have "fst (httpGetDataBatch A (unlines keys) s') = Response 200 (map (\<lambda>d. dj (Some d)) batch)"
    using getBatch_found [of batch "nd_ds s'" A ?k58 dj, OF obj assms(5) b58(1) assms(3)] keys
    by (simp add: httpGetDataBatch_def scan_unlines case_prod_beta)
  moreover have "fst (httpGetData A (keys ! i) s') = Response 200 [dj (Some (batch ! i))]" if i: "i < length batch" for i
    using ds_Get_found [of "nd_ds s'" "me_digest (ae_m A)" "batch ! i" "me_dsfl (ae_m A)", OF obj [OF nth_mem [OF i]] assms(5)] b58(1) [OF nth_mem [OF i]] keys i assms(3) by (simp add: httpGetData_def case_prod_beta)
  ultimately show ?thesis using b(1) keys by auto
qed

section \<open>Requests for the witnesses\<close>

theorem publish_readable_witness:
  "fst (httpPublish sample_api (\<lambda>x. 7) ''ns'' sample_posted sample_node) = Response 200 [''me:7:0''] \<and>
   fst (httpStatement sample_api ''me:7:0'' (snd (httpPublish sample_api (\<lambda>x. 7) ''ns'' sample_posted sample_node))) =
     Response 200 [''me:7:0'']"
proof -
  let ?r = "httpPublish sample_api (\<lambda>x. 7) ''ns'' sample_posted sample_node"
  have r: "fst ?r = Response 200 [''me:7:0'']" by code_simp
  then have "?r = (Response 200 [''me:7:0''], snd ?r)" by (metis prod.collapse)
  moreover have "ae_unmarshal sample_api b = Ok st" if "cr_marshal (me_crypto (ae_m sample_api)) st = Some b" for st b
    using that by (simp add: publish_unmarshals)
  ultimately have "nsrx ''ns'' \<and> (\<exists>sts sbs. sample_posted = map Ok sbs \<and> [''me:7:0''] = map Id sts \<and> length sts = length sbs \<and>
    (\<forall>i < length sts. Body (sts ! i) = Some (StatementBody (Some (BodySimple (sbs ! i)))) \<and> Namespace (sts ! i) = ''ns'' \<and>
       Publisher (sts ! i) = ID58 (nd_publisher sample_node) \<and>
       fst (httpStatement sample_api ([''me:7:0''] ! i) (snd ?r)) = Response 200 [Id (sts ! i)]))"
    by (intro publish_readable) simp_all
  then obtain sts :: "statement list" where
    "[''me:7:0''] = map Id sts" "\<forall>i < length sts. fst (httpStatement sample_api ([''me:7:0''] ! i) (snd ?r)) = Response 200 [Id (sts ! i)]"
    by (elim conjE exE) (rule that, assumption, simp)
  with r show ?thesis by (cases sts) auto
qed

text \<open>A library for one compound statement, whose encodings are those of the sample.\<close>

definition compound_published :: "string option \<Rightarrow> statement" where
  "compound_published sig = Statement ''me:7:0'' ''me'' ''ns''
     (Some (StatementBody (Some (BodyCompound [\<lparr>s_Object = ''o'', s_Refs = [''r''], s_Tags = [], s_Deps = []\<rparr>])))) 7 sig"

definition compound_api :: "(string, nat, string, string) api_env" where
  "compound_api = sample_api
     \<lparr>ae_m := sample_env\<lparr>me_crypto := sample_crypto\<lparr>cr_marshal := (\<lambda>st. if st = compound_published None then Some ''u''
        else if st = compound_published (Some ''meu'') then Some ''s'' else None)\<rparr>\<rparr>,
      ae_unmarshal := (\<lambda>b. if b = ''u'' then Ok (compound_published None) else Ok (compound_published (Some ''meu'')))\<rparr>"

lemma compound_api_simps:
  "ae_stmt_json compound_api st = Some (Id st)" "me_dbfl (ae_m compound_api) n = None"
  "cr_marshal (me_crypto (ae_m compound_api)) st =
     (if st = compound_published None then Some ''u'' else if st = compound_published (Some ''meu'') then Some ''s'' else None)"
  "ae_unmarshal compound_api b = (if b = ''u'' then Ok (compound_published None) else Ok (compound_published (Some ''meu'')))"
  by (simp_all add: compound_api_def sample_env_def sample_api_def)

theorem compound_publish_readable_witness:
  "fst (httpPublishCompound compound_api (\<lambda>x. 7) ''ns'' ''2'' sample_posted sample_node) = Response 200 [''me:7:0''] \<and>
   fst (httpStatement compound_api ''me:7:0'' (snd (httpPublishCompound compound_api (\<lambda>x. 7) ''ns'' ''2'' sample_posted sample_node))) =
     Response 200 [''me:7:0'']"
proof -
  let ?r = "httpPublishCompound compound_api (\<lambda>x. 7) ''ns'' ''2'' sample_posted sample_node"
  have r: "fst ?r = Response 200 [''me:7:0'']" by code_simp
  then have "?r = (Response 200 [''me:7:0''], snd ?r)" by (metis prod.collapse)
  moreover have "ae_unmarshal compound_api b = Ok st" if "cr_marshal (me_crypto (ae_m compound_api)) st = Some b" for st b
    using that unfolding compound_api_simps by (auto split: if_splits)
  ultimately have "\<exists>clen groups sts. Atoi ''2'' = Ok (int clen) \<and> sample_posted = map Ok (concat groups) \<and>
    (\<forall>g \<in> set groups. g \<noteq> [] \<and> length g \<le> clen) \<and> (\<forall>g \<in> set (butlast groups). length g = clen) \<and>
    [''me:7:0''] = map Id sts \<and> length sts = length groups \<and>
    (\<forall>i < length sts. Body (sts ! i) = Some (StatementBody (Some (BodyCompound (groups ! i)))) \<and>
       fst (httpStatement compound_api ([''me:7:0''] ! i) (snd ?r)) = Response 200 [Id (sts ! i)])"
    by (intro compound_publish_readable) (simp_all only: compound_api_simps)
  then obtain sts :: "statement list" where
    "[''me:7:0''] = map Id sts" "\<forall>i < length sts. fst (httpStatement compound_api ([''me:7:0''] ! i) (snd ?r)) = Response 200 [Id (sts ! i)]"
    by (elim conjE exE) (rule that, assumption, simp)
  with r show ?thesis by (cases sts) auto
qed

theorem import_request_witness:
  "fst (httpImport sample_api [Ok (sample_published (Some ''meu''))] sample_node) = Response 200 [''1''] \<and>
   authentic publish_crypto (sample_published (Some ''meu''))"
proof -
  let ?r = "httpImport sample_api [Ok (sample_published (Some ''meu''))] sample_node"
  have r: "fst ?r = Response 200 [''1'']" by code_simp
  then have "?r = (Response 200 [''1''], snd ?r)" by (metis prod.collapse)
  from import_request [OF this] obtain n where "\<forall>ls. Response 200 [''1''] = Response 200 ls \<longrightarrow> ls = [int_str n] \<and>
      (\<exists>sts. [Ok (sample_published (Some ''meu''))] = map Ok sts \<and>
        (\<forall>st \<in> set sts. authentic publish_crypto st \<and> Id st \<in> dom (stored (nd_db (snd ?r)))))"
    unfolding sample_api_simps by (elim conjE exE)
  from this [THEN spec, of "[''1'']", THEN mp, OF refl] obtain sts where "[Ok (sample_published (Some ''meu''))] = map Ok sts"
    "\<forall>st \<in> set sts. authentic publish_crypto st \<and> Id st \<in> dom (stored (nd_db (snd ?r)))" by (elim conjE exE)
  then have "authentic publish_crypto (sample_published (Some ''meu''))" by (metis list.set_intros(1) map_eq_Cons_conv outcome.inject(1))
  with r show ?thesis by blast
qed

theorem put_get_objects_witness:
  "fst (httpPutData sample_api [Ok ''abc'', Ok ''d''] sample_node) = Response 200 [''abc'', ''d''] \<and>
   fst (httpGetDataBatch sample_api (unlines [''abc'', ''d'']) (snd (httpPutData sample_api [Ok ''abc'', Ok ''d''] sample_node))) =
     Response 200 [''abc'', ''d'']"
proof -
  let ?r = "httpPutData sample_api [Ok ''abc'', Ok ''d''] sample_node"
  have r: "fst ?r = Response 200 [''abc'', ''d'']" by code_simp
  then have eq: "?r = (Response 200 [''abc'', ''d''], snd ?r)" by (metis prod.collapse)
  have "\<exists>batch. [Ok ''abc'', Ok ''d''] = map Ok batch \<and> length [''abc'', ''d''] = length batch \<and>
    fst (httpGetDataBatch sample_api (unlines [''abc'', ''d'']) (snd ?r)) =
      Response 200 (map (\<lambda>d. (case Some d of None \<Rightarrow> ''null'' | Some x \<Rightarrow> x)) batch) \<and>
    (\<forall>i < length batch. fst (httpGetData sample_api ([''abc'', ''d''] ! i) (snd ?r)) =
      Response 200 [case Some (batch ! i) of None \<Rightarrow> ''null'' | Some x \<Rightarrow> x])"
    by (rule put_get_objects [OF _ _ _ eq])
      (auto simp: Hash_def plain_line_def MaxScanTokenSize_def)
  with r show ?thesis by (auto simp: map_eq_Cons_conv)
qed

end
