(* ===== verification/ApiNet.thy ===== *)
theory ApiNet
  imports Http
begin

text \<open>
  The handlers of the REST API for the network (\<open>mcnode/api.go\<close>): the node and its peers, addresses, connections,
  pings, and the lists of the directories. A request that names a peer first reads its id.
\<close>

section \<open>Requests to peers\<close>

text \<open>
  What follows the id of a peer: an operation of the network, which may leave the network changed. \<open>err\<close> is the
  response to its error and \<open>f\<close> what is printed of its result.
\<close>

definition with_net ::
  "(go_error \<Rightarrow> response) \<Rightarrow> ('x \<Rightarrow> string list) \<Rightarrow> (('p, 'a, 'h) net_state \<Rightarrow> 'x outcome \<times> ('p, 'a, 'h) net_state) \<Rightarrow> ('p, 'a, 'h) node \<Rightarrow>
   response \<times> ('p, 'a, 'h) node" where
  "with_net err f oper s = (case oper (nd_net s) of (r, net) \<Rightarrow> (respond err (\<lambda>x. Response 200 (f x)) r, s\<lparr>nd_net := net\<rparr>))"

definition with_peer ::
  "('k, 'p, 'a, 'h) api_env \<Rightarrow> string \<Rightarrow> ('p \<Rightarrow> ('p, 'a, 'h) node \<Rightarrow> response \<times> ('p, 'a, 'h) node) \<Rightarrow> ('p, 'a, 'h) node \<Rightarrow>
   response \<times> ('p, 'a, 'h) node" where
  "with_peer A peerId f s =
     (case nl_IDB58Decode (ae_nl A) peerId of
        Err e \<Rightarrow> (apiError 400 e, s)
      | Panic m \<Rightarrow> (Aborted m, s)
      | Ok pid \<Rightarrow> f pid s)"

definition httpId :: "('k, 'p, 'a, 'h) api_env \<Rightarrow> ('p, 'a, 'h) node \<Rightarrow> response" where
  "httpId A s =
     Response 200 (encode_lines (ae_info_json A)
       [\<lparr>ni_Peer = nl_Pretty (ae_nl A) (nd_identity s), ni_Publisher = ID58 (nd_publisher s), ni_Info = nd_info s\<rparr>])"

text \<open>In these, \<open>as\<close> are the arrivals of a lookup, \<open>wr\<close> and \<open>rd\<close> the outcomes of writing the request and reading the answer.\<close>

definition httpRemoteId ::
  "('k, 'p, 'a, 'h) api_env \<Rightarrow> ('p, 'a) peer_info arrival list \<Rightarrow> unit outcome \<Rightarrow> NodeInfo outcome \<Rightarrow> string \<Rightarrow> ('p, 'a, 'h) node \<Rightarrow>
   response \<times> ('p, 'a, 'h) node" where
  "httpRemoteId A as wr rd peerId =
     with_peer A peerId (\<lambda>pid. with_net apiNetError (\<lambda>ninfo. encode_lines (ae_info_json A) [ninfo]) (doRemoteId (ae_hl A) as wr rd pid))"

definition httpManifestPeer ::
  "('k, 'p, 'a, 'h) api_env \<Rightarrow> ('p, 'a) peer_info arrival list \<Rightarrow> unit outcome \<Rightarrow> manifest list outcome \<Rightarrow> string \<Rightarrow> ('p, 'a, 'h) node \<Rightarrow>
   response \<times> ('p, 'a, 'h) node" where
  "httpManifestPeer A as wr rd peerId =
     with_peer A peerId (\<lambda>pid. with_net apiNetError (encode_lines (ae_mf_json A)) (doRemoteManifest (ae_hl A) as wr rd pid))"

definition httpPing ::
  "('k, 'p, 'a, 'h) api_env \<Rightarrow> ('p, 'a) peer_info arrival list \<Rightarrow> unit outcome \<Rightarrow> unit outcome \<Rightarrow> string \<Rightarrow> ('p, 'a, 'h) node \<Rightarrow>
   response \<times> ('p, 'a, 'h) node" where
  "httpPing A as wr rd peerId =
     with_peer A peerId (\<lambda>pid. with_net apiNetError (\<lambda>u. [''OK'']) (doPing (ae_hl A) as wr rd pid))"

section \<open>The network\<close>

text \<open>\<open>get\<close> and \<open>tcp\<close> are the services that tell the public IP and the port.\<close>

definition httpNetAddr ::
  "('k, 'p, 'a, 'h) api_env \<Rightarrow> http \<Rightarrow> string outcome \<Rightarrow> ('p, 'a, 'h) node \<Rightarrow> response \<times> ('p, 'a, 'h) node" where
  "httpNetAddr A get tcp = with_net (apiError 500) (map (nl_String (ae_nl A))) (netAddrs (ae_nl A) (ae_hl A) get tcp)"

definition httpNetPeerAddr :: "('k, 'p, 'a, 'h) api_env \<Rightarrow> string \<Rightarrow> ('p, 'a, 'h) node \<Rightarrow> response \<times> ('p, 'a, 'h) node" where
  "httpNetPeerAddr A peerId =
     with_peer A peerId (\<lambda>pid. with_net (apiError 500) (map (nl_String (ae_nl A))) (\<lambda>net. (netPeerAddrs (ae_hl A) pid net, net)))"

definition httpNetConns :: "('k, 'p, 'a, 'h) api_env \<Rightarrow> ('p, 'a, 'h) node \<Rightarrow> response \<times> ('p, 'a, 'h) node" where
  "httpNetConns A = with_net (apiError 500) (map (FormatHandle (ae_nl A))) (\<lambda>net. (netConns (ae_ps A) net, net))"

definition httpNetLookup ::
  "('k, 'p, 'a, 'h) api_env \<Rightarrow> ('p, 'a) peer_info arrival list \<Rightarrow> string \<Rightarrow> ('p, 'a, 'h) node \<Rightarrow> response \<times> ('p, 'a, 'h) node" where
  "httpNetLookup A as peerId =
     with_peer A peerId
       (\<lambda>pid. with_net apiNetError (\<lambda>pinfo. map (nl_String (ae_nl A)) (pi_Addrs pinfo)) (doLookup (ae_hl A) as pid))"

definition httpNetIdentify ::
  "('k, 'p, 'a, 'h) api_env \<Rightarrow> ('p, 'a) peer_info arrival list \<Rightarrow> string \<Rightarrow> ('p, 'a, 'h) node \<Rightarrow> response \<times> ('p, 'a, 'h) node" where
  "httpNetIdentify A as peerId =
     with_peer A peerId
       (\<lambda>pid. with_net apiNetError (\<lambda>nid. encode_lines (ae_identify_json A) [nid]) (netIdentify (ae_nl A) (ae_hl A) (ae_ps A) as pid))"

text \<open>A duration prints as \<open>dur\<close> says.\<close>

definition httpNetPing ::
  "('k, 'p, 'a, 'h) api_env \<Rightarrow> (int \<Rightarrow> string) \<Rightarrow> ('p, 'a) peer_info arrival list \<Rightarrow> int arrival outcome \<Rightarrow> string \<Rightarrow> ('p, 'a, 'h) node \<Rightarrow>
   response \<times> ('p, 'a, 'h) node" where
  "httpNetPing A dur as ping peerId =
     with_peer A peerId (\<lambda>pid. with_net apiNetError (\<lambda>dt. [dur dt]) (netPing (ae_hl A) as ping pid))"

definition httpNetFindPeers ::
  "('k, 'p, 'a, 'h) api_env \<Rightarrow> nat option \<Rightarrow> ('p, 'a) peer_info list \<Rightarrow> ('p, 'a, 'h) node \<Rightarrow> response \<times> ('p, 'a, 'h) node" where
  "httpNetFindPeers A k ich s =
     with_net apiNetError (map (\<lambda>pinfo. nl_Pretty (ae_nl A) (pi_ID pinfo))) (netFindPeers (ae_hl A) (nd_identity s) k ich) s"

section \<open>The directories\<close>

text \<open>
  \<open>wr\<close> and \<open>rd\<close> are the outcomes of asking a directory, \<open>order\<close> the directories in the order of their
  answers, up to the end of the context, and \<open>ord\<close> the
  order of the iteration over a Go map.
\<close>

definition httpDirListImpl ::
  "('k, 'p, 'a, 'h) api_env \<Rightarrow> (('p, 'a) peer_info \<Rightarrow> unit outcome) \<Rightarrow> (('p, 'a) peer_info \<Rightarrow> string \<Rightarrow> string list outcome) \<Rightarrow>
   (string list \<Rightarrow> string list) \<Rightarrow> ('p, 'a) peer_info option list \<Rightarrow> string \<Rightarrow> bool \<Rightarrow> ('p, 'a, 'h) node \<Rightarrow> response" where
  "httpDirListImpl A wr rd ord order ns inclSelf s =
     respond (apiError 500)
       (\<lambda>peers. Response 200 (filter (\<lambda>peer. peer \<noteq> nl_Pretty (ae_nl A) (nd_identity s) \<or> inclSelf) peers))
       (doDirList (ae_hl A) wr rd ord order ns (nd_net s))"

definition httpDirList ::
  "('k, 'p, 'a, 'h) api_env \<Rightarrow> (('p, 'a) peer_info \<Rightarrow> unit outcome) \<Rightarrow> (('p, 'a) peer_info \<Rightarrow> string \<Rightarrow> string list outcome) \<Rightarrow>
   (string list \<Rightarrow> string list) \<Rightarrow> ('p, 'a) peer_info option list \<Rightarrow> string \<Rightarrow> ('p, 'a, 'h) node \<Rightarrow> response" where
  "httpDirList A wr rd ord order ns s = httpDirListImpl A wr rd ord order ns False s"

definition httpDirListAll ::
  "('k, 'p, 'a, 'h) api_env \<Rightarrow> (('p, 'a) peer_info \<Rightarrow> unit outcome) \<Rightarrow> (('p, 'a) peer_info \<Rightarrow> string \<Rightarrow> string list outcome) \<Rightarrow>
   (string list \<Rightarrow> string list) \<Rightarrow> ('p, 'a) peer_info option list \<Rightarrow> string \<Rightarrow> ('p, 'a, 'h) node \<Rightarrow> response" where
  "httpDirListAll A wr rd ord order ns s = httpDirListImpl A wr rd ord order ns True s"

definition httpDirListNS ::
  "('k, 'p, 'a, 'h) api_env \<Rightarrow> (('p, 'a) peer_info \<Rightarrow> unit outcome) \<Rightarrow> (('p, 'a) peer_info \<Rightarrow> string list outcome) \<Rightarrow>
   (string list \<Rightarrow> string list) \<Rightarrow> ('p, 'a) peer_info option list \<Rightarrow> ('p, 'a, 'h) node \<Rightarrow> response" where
  "httpDirListNS A wr rd ord order s =
     respond (apiError 500) (Response 200) (doDirListNS (ae_hl A) wr rd ord order (nd_net s))"

definition httpDirListMF ::
  "('k, 'p, 'a, 'h) api_env \<Rightarrow> (manifest \<Rightarrow> string outcome) \<Rightarrow> (string \<Rightarrow> manifest outcome) \<Rightarrow> (('p, 'a) peer_info \<Rightarrow> unit outcome) \<Rightarrow>
   (('p, 'a) peer_info \<Rightarrow> string \<Rightarrow> manifest list outcome) \<Rightarrow> (string list \<Rightarrow> string list) \<Rightarrow> ('p, 'a) peer_info option list \<Rightarrow> string \<Rightarrow>
   ('p, 'a, 'h) node \<Rightarrow> response" where
  "httpDirListMF A marshal unmarshal wr rd ord order entity s =
     respond (apiError 500) (\<lambda>mfs. Response 200 (encode_lines (ae_mf_json A) mfs))
       (doDirListMF marshal unmarshal (ae_hl A) wr rd ord order entity (nd_net s))"

end
