(* ===== verification/ApiConfig.thy ===== *)
theory ApiConfig
  imports Http
begin

text \<open>
  The handlers of the REST API for the status and the configuration of the node (\<open>mcnode/api.go\<close>): the network
  status, the directories, the NAT configuration, the info, the rules for pushes and the manifests. A change
  of the configuration is saved before it is answered.
\<close>

section \<open>Status\<close>

fun statusString :: "node_status \<Rightarrow> string" where
  "statusString StatusOffline = ''offline''"
| "statusString StatusOnline = ''online''"
| "statusString StatusPublic = ''public''"

definition httpStatus :: "('p, 'a, 'h) node \<Rightarrow> response" where
  "httpStatus s = Response 200 [statusString (ns_status (nd_net s))]"

text \<open>\<open>closed\<close> is the outcome of closing the host and \<open>host\<close> that of making one.\<close>

definition httpStatusSet :: "unit outcome \<Rightarrow> (bool \<Rightarrow> 'h outcome) \<Rightarrow> string \<Rightarrow> ('p, 'a, 'h) node \<Rightarrow> response \<times> ('p, 'a, 'h) node" where
  "httpStatusSet closed host state s =
     (if state \<in> {''offline'', ''online'', ''public''}
      then (case (if state = ''offline'' then goOffline closed (nd_net s)
                  else if state = ''online'' then goOnline host (nd_net s)
                  else goPublic host (nd_net s)) of
              (r, net) \<Rightarrow> (the_error 500 r [statusString (ns_status net)], s\<lparr>nd_net := net\<rparr>))
      else (apiError 400 BadState, s))"

section \<open>Configuration\<close>

text \<open>How the setters end: the file is written, and the change stays when it is not.\<close>

definition save_response :: "('k, 'p, 'a, 'h) api_env \<Rightarrow> ('p, 'a, 'h) node \<Rightarrow> response \<times> ('p, 'a, 'h) node" where
  "save_response A s = (case node_saveConfig A s of (r, s') \<Rightarrow> (the_error 500 r [''OK''], s'))"

definition httpConfigDirGet :: "('k, 'p, 'a, 'h) api_env \<Rightarrow> ('p, 'a, 'h) node \<Rightarrow> response" where
  "httpConfigDirGet A s = Response 200 (map (FormatHandle (ae_nl A)) (ns_dir (nd_net s)))"

definition httpConfigDirSet :: "('k, 'p, 'a, 'h) api_env \<Rightarrow> string \<Rightarrow> ('p, 'a, 'h) node \<Rightarrow> response \<times> ('p, 'a, 'h) node" where
  "httpConfigDirSet A body s =
     (case omap (ParseHandle (ae_nl A)) (scan_lines body) of
        Err e \<Rightarrow> (apiError 400 e, s)
      | Panic m \<Rightarrow> (Aborted m, s)
      | Ok dirs \<Rightarrow> save_response A (s\<lparr>nd_net := (nd_net s)\<lparr>ns_dir := dirs\<rparr>\<rparr>))"

definition httpConfigDir :: "('k, 'p, 'a, 'h) api_env \<Rightarrow> string \<Rightarrow> string \<Rightarrow> ('p, 'a, 'h) node \<Rightarrow> response \<times> ('p, 'a, 'h) node" where
  "httpConfigDir A meth body s = apiConfigMethod meth (httpConfigDirGet A s, s) (httpConfigDirSet A body s) s"

definition httpConfigNATGet :: "('p, 'a, 'h) node \<Rightarrow> response" where
  "httpConfigNATGet s = Response 200 [NATConfig_String (ns_natCfg (nd_net s))]"

text \<open>A body that cannot be read is only logged.\<close>

definition httpConfigNATSet :: "('k, 'p, 'a, 'h) api_env \<Rightarrow> string outcome \<Rightarrow> ('p, 'a, 'h) node \<Rightarrow> response \<times> ('p, 'a, 'h) node" where
  "httpConfigNATSet A body s =
     (case body of
        Err e \<Rightarrow> (Response 200 [], s)
      | Panic m \<Rightarrow> (Aborted m, s)
      | Ok str \<Rightarrow>
          (case NATConfigFromString (TrimSpace str) of
             Err e \<Rightarrow> (apiError 400 e, s)
           | Panic m \<Rightarrow> (Aborted m, s)
           | Ok cfg \<Rightarrow> save_response A (s\<lparr>nd_net := (nd_net s)\<lparr>ns_natCfg := cfg\<rparr>\<rparr>)))"

definition httpConfigNAT :: "('k, 'p, 'a, 'h) api_env \<Rightarrow> string \<Rightarrow> string outcome \<Rightarrow> ('p, 'a, 'h) node \<Rightarrow> response \<times> ('p, 'a, 'h) node" where
  "httpConfigNAT A meth body s = apiConfigMethod meth (httpConfigNATGet s, s) (httpConfigNATSet A body s) s"

definition httpConfigInfoGet :: "('p, 'a, 'h) node \<Rightarrow> response" where
  "httpConfigInfoGet s = Response 200 [nd_info s]"

definition httpConfigInfoSet :: "('k, 'p, 'a, 'h) api_env \<Rightarrow> string outcome \<Rightarrow> ('p, 'a, 'h) node \<Rightarrow> response \<times> ('p, 'a, 'h) node" where
  "httpConfigInfoSet A body s =
     (case body of
        Err e \<Rightarrow> (Response 200 [], s)
      | Panic m \<Rightarrow> (Aborted m, s)
      | Ok str \<Rightarrow> save_response A (s\<lparr>nd_info := TrimSpace str\<rparr>))"

definition httpConfigInfo :: "('k, 'p, 'a, 'h) api_env \<Rightarrow> string \<Rightarrow> string outcome \<Rightarrow> ('p, 'a, 'h) node \<Rightarrow> response \<times> ('p, 'a, 'h) node" where
  "httpConfigInfo A meth body s = apiConfigMethod meth (httpConfigInfoGet s, s) (httpConfigInfoSet A body s) s"

section \<open>Rules for pushes\<close>

definition httpAuth :: "('k, 'p, 'a, 'h) api_env \<Rightarrow> ('p, 'a, 'h) node \<Rightarrow> response" where
  "httpAuth A s = Response 200 (encode_lines (ae_rules_json A) [auth_toJSON (ae_nl A) (nd_auth s)])"

definition httpAuthPeerGet :: "('k, 'p, 'a, 'h) api_env \<Rightarrow> string \<Rightarrow> ('p, 'a, 'h) node \<Rightarrow> response" where
  "httpAuthPeerGet A peerId s =
     respond (apiError 400)
       (\<lambda>pid. let rules = getRules pid (nd_auth s) in Response 200 (if length rules > 0 then [Join rules '','' ] else []))
       (nl_IDB58Decode (ae_nl A) peerId)"

definition httpAuthPeerSet ::
  "('k, 'p, 'a, 'h) api_env \<Rightarrow> string \<Rightarrow> string outcome \<Rightarrow> ('p, 'a, 'h) node \<Rightarrow> response \<times> ('p, 'a, 'h) node" where
  "httpAuthPeerSet A peerId body s =
     (case nl_IDB58Decode (ae_nl A) peerId of
        Err e \<Rightarrow> (apiError 400 e, s)
      | Panic m \<Rightarrow> (Aborted m, s)
      | Ok pid \<Rightarrow>
          (case body of
             Err e \<Rightarrow> (Response 200 [], s)
           | Panic m \<Rightarrow> (Aborted m, s)
           | Ok str \<Rightarrow>
               (let rbody = TrimSpace str in
                save_response A
                  (s\<lparr>nd_auth := if rbody = [] then clearRules pid (nd_auth s)
                                else setRules pid (Split rbody (CHR '','')) (nd_auth s)\<rparr>))))"

definition httpAuthPeer ::
  "('k, 'p, 'a, 'h) api_env \<Rightarrow> string \<Rightarrow> string \<Rightarrow> string outcome \<Rightarrow> ('p, 'a, 'h) node \<Rightarrow> response \<times> ('p, 'a, 'h) node" where
  "httpAuthPeer A meth peerId body s = apiConfigMethod meth (httpAuthPeerGet A peerId s, s) (httpAuthPeerSet A peerId body s) s"

section \<open>Manifests\<close>

definition httpManifestGet :: "('k, 'p, 'a, 'h) api_env \<Rightarrow> ('p, 'a, 'h) node \<Rightarrow> response" where
  "httpManifestGet A s = Response 200 (encode_lines (ae_mf_json A) (nd_mfs s))"

definition httpManifestSet :: "('k, 'p, 'a, 'h) api_env \<Rightarrow> manifest outcome list \<Rightarrow> ('p, 'a, 'h) node \<Rightarrow> response \<times> ('p, 'a, 'h) node" where
  "httpManifestSet A body s =
     (case decode_all body of
        Err e \<Rightarrow> (apiError 400 e, s)
      | Panic m \<Rightarrow> (Aborted m, s)
      | Ok mfs \<Rightarrow> save_response A (s\<lparr>nd_mfs := mfs\<rparr>))"

definition httpManifest ::
  "('k, 'p, 'a, 'h) api_env \<Rightarrow> string \<Rightarrow> manifest outcome list \<Rightarrow> ('p, 'a, 'h) node \<Rightarrow> response \<times> ('p, 'a, 'h) node" where
  "httpManifest A meth body s = apiConfigMethod meth (httpManifestGet A s, s) (httpManifestSet A body s) s"

definition httpManifestSelf :: "('k, 'p, 'a, 'h) api_env \<Rightarrow> ('p, 'a, 'h) node \<Rightarrow> response" where
  "httpManifestSelf A s =
     Response 200 (encode_lines (ae_mfbody_json A)
       [ManifestBody (Some \<lparr>nm_Peer = nl_Pretty (ae_nl A) (nd_identity s), nm_Publisher = ID58 (nd_publisher s)\<rparr>)])"

section \<open>What is answered OK is saved\<close>

lemma node_config_file [simp]: "node_config (s\<lparr>nd_file := fl\<rparr>) = node_config s"
  by (simp add: node_config_def)

lemma save_response_OK:
  assumes "save_response A s = (Response 200 ls, s')"
  obtains fl where "saveConfig (ae_nl A) (ae_mj A) (ae_write A) (node_config s) (nd_file s) = (Ok (), fl)" "s' = s\<lparr>nd_file := fl\<rparr>"
proof -
  obtain r fl where r: "saveConfig (ae_nl A) (ae_mj A) (ae_write A) (node_config s) (nd_file s) = (r, fl)" by fastforce
  with assms that show thesis by (cases r) (auto simp: save_response_def node_saveConfig_def the_error_def)
qed

text \<open>What a setter does when it answers that it is done: it saves the changed node.\<close>

lemma setters_save:
  "httpConfigDirSet A dirs s = (Response 200 [''OK''], s') \<Longrightarrow> \<exists>s1. save_response A s1 = (Response 200 [''OK''], s')"
  "httpConfigNATSet A natcfg s = (Response 200 [''OK''], s') \<Longrightarrow> \<exists>s1. save_response A s1 = (Response 200 [''OK''], s')"
  "httpConfigInfoSet A info s = (Response 200 [''OK''], s') \<Longrightarrow> \<exists>s1. save_response A s1 = (Response 200 [''OK''], s')"
  "httpManifestSet A mfs s = (Response 200 [''OK''], s') \<Longrightarrow> \<exists>s1. save_response A s1 = (Response 200 [''OK''], s')"
  by (auto simp: httpConfigDirSet_def httpConfigNATSet_def httpConfigInfoSet_def httpManifestSet_def split: outcome.splits)

lemma auth_setter_saves:
  "httpAuthPeerSet A peerId rules s = (Response 200 [''OK''], s') \<Longrightarrow> \<exists>s1. save_response A s1 = (Response 200 [''OK''], s')"
  unfolding httpAuthPeerSet_def Let_def by (cases "nl_IDB58Decode (ae_nl A) peerId"; cases rules) auto

text \<open>C25: What a request to change the configuration answers with OK survives a restart: when a POST of the directories, the
  NAT configuration, the info, the rules of a peer or the manifests is answered OK, the file then holds the whole
  configuration of the node: a fresh node that loads it has the same info, NAT configuration, directories and
  manifests, and the same rules for every peer; only the cached public address is forgotten. Hypotheses: ids and
  addresses and manifests print and parse back, what is written is what the file holds, and the texts are UTF-8.\<close>

theorem config_posts_survive:
  assumes "net_lib_ok (ae_nl A)" "manifest_json_ok (ae_mj A)" "map_order ord" "ae_write A = write_ok"
    and "(Response 200 [''OK''], s') \<in> {httpConfigDirSet A dirs s, httpConfigNATSet A natcfg s, httpConfigInfoSet A info s,
      httpAuthPeerSet A peerId rules s, httpManifestSet A mfs s}"
    and "conf_ok (ae_nl A) (node_config s')"
  shows "\<exists>peers. loadConfig (ae_nl A) (ae_mj A) ord (nd_file s') fresh_conf =
      (Ok (), (node_config s')\<lparr>n_natCfg := NATConfig_Clear (ns_natCfg (nd_net s')), n_auth := peers\<rparr>) \<and>
    map_of peers = map_of (nd_auth s')"
proof -
  from assms(5) obtain s1 where "save_response A s1 = (Response 200 [''OK''], s')"
    using setters_save auth_setter_saves by (metis empty_iff insert_iff)
  then obtain fl where f: "saveConfig (ae_nl A) (ae_mj A) write_ok (node_config s1) (nd_file s1) = (Ok (), fl)" "s' = s1\<lparr>nd_file := fl\<rparr>"
    unfolding assms(4) [symmetric] by (rule save_response_OK)
  with assms(6) have "conf_ok (ae_nl A) (node_config s1)" by simp
  from save_load [OF assms(1-3) this, of "nd_file s1"] f show ?thesis by (auto simp: node_config_def)
qed

text \<open>C26: The rules that are posted for a peer are the ones in force: after POST /auth/{peerId}, whether or not it could be saved,
  GET answers the text that was posted, without the white space around it; a push of some namespaces by the peer
  is authorised exactly when each is allowed by one of the rules between the commas, and never after an empty post;
  and the rules of all other peers are as before.\<close>

theorem auth_posts_apply:
  assumes "httpAuthPeerSet A peerId (Ok str) s = (r, s')" "nl_IDB58Decode (ae_nl A) peerId = Ok pid"
  shows "httpAuthPeerGet A peerId s' = Response 200 (if TrimSpace str = [] then [] else [TrimSpace str]) \<and>
    (authorize (nd_auth s') pid nss \<longleftrightarrow> nss \<noteq> [] \<and> TrimSpace str \<noteq> [] \<and>
       (\<forall>ns \<in> set nss. \<exists>rule \<in> set (Split (TrimSpace str) (CHR '','')). rule_allows rule ns)) \<and>
    (p \<noteq> pid \<longrightarrow> getRules p (nd_auth s') = getRules p (nd_auth s))"
proof -
  from assms have auth: "nd_auth s' = (if TrimSpace str = [] then clearRules pid (nd_auth s)
      else setRules pid (Split (TrimSpace str) (CHR '','')) (nd_auth s))"
    by (auto simp: httpAuthPeerSet_def save_response_def node_saveConfig_def Let_def split: prod.splits)
  have "getRules pid (nd_auth s') = (if TrimSpace str = [] then [] else Split (TrimSpace str) (CHR '',''))"
    by (simp add: auth peer_auth.get_put peer_auth.get_clear)
  then have "httpAuthPeerGet A peerId s' = Response 200 (if TrimSpace str = [] then [] else [TrimSpace str])"
    by (simp add: httpAuthPeerGet_def assms(2) Let_def Join_Split)
  then show ?thesis
    by (auto simp: auth peer_auth.get_put peer_auth.get_clear peer_auth.allowed_put peer_auth.allowed_cleared)
qed

text \<open>A node whose info is set, and one whose rules for a peer are.\<close>

theorem config_posts_survive_witness:
  "let s' = snd (httpConfigInfoSet sample_api (Ok '' a node '') sample_node)
   in n_info (snd (loadConfig text_lib sample_mj rev (nd_file s') fresh_conf)) = ''a node''"
proof -
  let ?s = "snd (httpConfigInfoSet sample_api (Ok '' a node '') sample_node)"
  have trim: "TrimSpace '' a node '' = ''a node''" by code_simp
  have lib: "ae_nl sample_api = text_lib" "ae_mj sample_api = sample_mj" "ae_write sample_api = write_ok" by (simp_all add: sample_api_def)
  have conf: "node_config (sample_node\<lparr>nd_info := ''a node''\<rparr>) = sample_conf"
    by (simp add: node_config_def sample_node_def fresh_node_def fresh_net_def sample_conf_def)
  from save_load [OF text_lib_ok sample_mj_ok map_order_rev sample_conf_ok, of "nd_file (sample_node\<lparr>nd_info := ''a node''\<rparr>)"]
  obtain fl where fl: "saveConfig text_lib sample_mj write_ok sample_conf (nd_file (sample_node\<lparr>nd_info := ''a node''\<rparr>)) = (Ok (), fl)" by blast
  have "httpConfigInfoSet sample_api (Ok '' a node '') sample_node = (Response 200 [''OK''], sample_node\<lparr>nd_info := ''a node'', nd_file := fl\<rparr>)"
    using fl by (simp add: httpConfigInfoSet_def trim save_response_def node_saveConfig_def lib conf the_error_def)
  then have info: "(Response 200 [''OK''], ?s) = httpConfigInfoSet sample_api (Ok '' a node '') sample_node" "node_config ?s = sample_conf"
    using conf by (simp_all add: node_config_def)
  have "(Response 200 [''OK''], ?s) \<in> {httpConfigDirSet sample_api [] sample_node, httpConfigNATSet sample_api (Ok []) sample_node,
      httpConfigInfoSet sample_api (Ok '' a node '') sample_node, httpAuthPeerSet sample_api [] (Ok []) sample_node,
      httpManifestSet sample_api [] sample_node}" unfolding info(1) by blast
  from config_posts_survive [of sample_api rev, unfolded lib, OF text_lib_ok sample_mj_ok map_order_rev refl this, unfolded info(2), OF sample_conf_ok]
  obtain peers where "loadConfig text_lib sample_mj rev (nd_file ?s) fresh_conf =
      (Ok (), sample_conf\<lparr>n_natCfg := NATConfig_Clear (ns_natCfg (nd_net ?s)), n_auth := peers\<rparr>)" by blast
  then have "n_info (snd (loadConfig text_lib sample_mj rev (nd_file ?s) fresh_conf)) = n_info sample_conf" by simp
  then show ?thesis by (simp add: Let_def sample_conf_def)
qed

theorem auth_posts_apply_witness:
  "let s' = snd (httpAuthPeerSet sample_api ''7'' (Ok '' images.*,foo '') sample_node)
   in httpAuthPeerGet sample_api ''7'' s' = Response 200 [''images.*,foo''] \<and> authorize (nd_auth s') 7 [''images.cats'', ''foo'']"
proof -
  let ?r = "httpAuthPeerSet sample_api ''7'' (Ok '' images.*,foo '') sample_node"
  have pid: "nl_IDB58Decode (ae_nl sample_api) ''7'' = Ok 7" "TrimSpace '' images.*,foo '' = ''images.*,foo''"
    "Split ''images.*,foo'' (CHR '','') = [''images.*'', ''foo'']" by code_simp+
  have "?r = (fst ?r, snd ?r)" by simp
  note a = auth_posts_apply [OF this pid(1), of "[''images.cats'', ''foo'']"]
  have "rule_allows ''images.*'' ''images.cats''" unfolding rule_allows_def
    by (intro disjI2 disjI1 exI [of _ "''images''"]) (simp add: prefix_def)
  moreover have "rule_allows ''foo'' ''foo''" by (simp add: rule_allows_def HasSuffix_def suffix_def)
  ultimately show ?thesis using a by (simp add: pid Let_def)
qed

end
