(* ===== verification/Daemon.thy ===== *)
theory Daemon
  imports ApiCorrect ApiNet ApiConfig
begin

text \<open>
  The node as a whole: the steps it makes for the requests of its API and for those of its peers, in any order,
  and their effects on the stores and the network. A step is a whole request; requests that overlap are the subject of
  \<open>Overlap\<close>.
\<close>

section \<open>Steps\<close>

text \<open>
  A request of the API that can change the node, or a peer that pushes statements or asks for objects. A request
  whose handler panics while it changes the network status is left out. The clock shows a time after 1970.
\<close>

inductive node_step :: "('k, 'p, 'a, 'h) api_env \<Rightarrow> ('p, 'a, 'h) node \<Rightarrow> ('p, 'a, 'h) node \<Rightarrow> bool" for A where
  publish: "httpPublish A now ns body s = (r, s') \<Longrightarrow> (\<forall>x. 0 < now x) \<Longrightarrow> node_step A s s'"
| compound: "httpPublishCompound A now ns comb body s = (r, s') \<Longrightarrow> (\<forall>x. 0 < now x) \<Longrightarrow> node_step A s s'"
| import: "httpImport A stmts s = (r, s') \<Longrightarrow> node_step A s s'"
| stmt: "httpStatement A i s = (r, s') \<Longrightarrow> node_step A s s'"
| remote_query: "httpRemoteQuery A as wr answers peerId q s = (r, s') \<Longrightarrow> node_step A s s'"
| merge: "httpMerge A as wr answers peerId q s r s' \<Longrightarrow> node_step A s s'"
| push: "httpPush A as wreq resp wrp evs fin peerId q s = (r, s') \<Longrightarrow> node_step A s s'"
| delete: "httpDelete A q s = (r, s') \<Longrightarrow> node_step A s s'"
| vacuum_incremental: "httpVacuumIncremental A autovac s = (r, s') \<Longrightarrow> node_step A s s'"
| vacuum_full: "httpVacuumFull A autovac s = (r, s') \<Longrightarrow> node_step A s s'"
| data_get: "httpGetData A key58 s = (r, s') \<Longrightarrow> node_step A s s'"
| data_get_batch: "httpGetDataBatch A ls s = (r, s') \<Longrightarrow> node_step A s s'"
| data_put: "httpPutData A objs s = (r, s') \<Longrightarrow> node_step A s s'"
| data_merge: "httpMergeData A as wrd msgs peerId ls s = (r, s') \<Longrightarrow> node_step A s s'"
| data_gc: "httpGCData A gcfl s = (r, s') \<Longrightarrow> node_step A s s'"
| data_compact: "httpCompactData s = (r, s') \<Longrightarrow> node_step A s s'"
| data_sync: "httpSyncData A s = (r, s') \<Longrightarrow> node_step A s s'"
| data_keys: "httpDataKeys A s = (r, s') \<Longrightarrow> node_step A s s'"
| remote_id: "httpRemoteId A as wru rdi peerId s = (r, s') \<Longrightarrow> node_step A s s'"
| remote_manifest: "httpManifestPeer A as wru rdm peerId s = (r, s') \<Longrightarrow> node_step A s s'"
| ping: "httpPing A as wru rdu peerId s = (r, s') \<Longrightarrow> node_step A s s'"
| net_addr: "httpNetAddr A get tcp s = (r, s') \<Longrightarrow> node_step A s s'"
| net_lookup: "httpNetLookup A as peerId s = (r, s') \<Longrightarrow> node_step A s s'"
| net_identify: "httpNetIdentify A as peerId s = (r, s') \<Longrightarrow> node_step A s s'"
| net_ping: "httpNetPing A dur as pong peerId s = (r, s') \<Longrightarrow> node_step A s s'"
| net_find: "httpNetFindPeers A k ich s = (r, s') \<Longrightarrow> node_step A s s'"
| status: "httpStatusSet closed host state s = (r, s') \<Longrightarrow> (\<forall>m. r \<noteq> Aborted m) \<Longrightarrow> node_step A s s'"
| config_dir: "httpConfigDir A meth ls s = (r, s') \<Longrightarrow> node_step A s s'"
| config_nat: "httpConfigNAT A meth q s = (r, s') \<Longrightarrow> node_step A s s'"
| config_info: "httpConfigInfo A meth q s = (r, s') \<Longrightarrow> node_step A s s'"
| config_auth: "httpAuthPeer A meth peerId q s = (r, s') \<Longrightarrow> node_step A s s'"
| config_manifest: "httpManifest A meth mfs s = (r, s') \<Longrightarrow> node_step A s s'"
| pushed: "pushHandler (ae_m A) (nd_auth s) pid req wrr pmsgs (nd_db s, nd_ds s) out (db, ds) \<Longrightarrow>
    node_step A s (s\<lparr>nd_db := db, nd_ds := ds\<rparr>)"
| asked: "dataHandler (me_dsfl (ae_m A)) (me_b58 (ae_m A)) wrm reqs (nd_ds s) = (rm, ds) \<Longrightarrow> node_step A s (s\<lparr>nd_ds := ds\<rparr>)"

section \<open>Effects on the database\<close>

text \<open>Imports and merges keep the tables in agreement.\<close>

lemma doImport_tables_ok: "tables_ok (db_tables db) \<Longrightarrow> tables_ok (db_tables (snd (doImport cr fl rord sts cache db)))"
  by (auto simp: doImport_def MergeBatch_tables_ok split: outcome.split)

lemma importLoop_tables_ok:
  "importLoop E cache stmts count vals db = (n, r, db') \<Longrightarrow> tables_ok (db_tables db) \<Longrightarrow> tables_ok (db_tables db')"
proof (induction E cache stmts count vals db arbitrary: n r db' rule: importLoop.induct)
  case (1 E cache stmts count db)
  then show ?case using doImport_tables_ok [of db "me_crypto E" "me_dbfl E" "me_rord E" stmts cache]
    by (auto split: if_splits prod.splits outcome.splits)
next
  case (4 E cache stmts count stmt vals db)
  obtain ri db1 where i: "doImport (me_crypto E) (me_dbfl E) (me_rord E) (stmts @ [stmt]) cache db = (ri, db1)" by fastforce
  then have "tables_ok (db_tables db1)"
    using doImport_tables_ok [of db "me_crypto E" "me_dbfl E" "me_rord E" "stmts @ [stmt]" cache] "4.prems"(2) by simp
  with "4.IH" "4.prems" i show ?case
    by (cases "import_batch \<le> length (stmts @ [stmt])"; cases ri) (auto simp: Let_def)
qed auto

lemma mergeStmts_tables_ok: "tables_ok (db_tables (m_db s)) \<Longrightarrow> tables_ok (db_tables (m_db (mergeStmts E a b s)))"
  using MergeBatch_tables_ok [of "m_db s" "me_dbfl E" "me_rord E" "cr_marshal (me_crypto E)" "m_stmts s"]
  by (auto simp: mergeStmts_def split: prod.splits outcome.splits)

lemma mergeAppend_tables_ok: "tables_ok (db_tables (m_db s)) \<Longrightarrow> tables_ok (db_tables (m_db (mergeAppend E st s)))"
  using mergeStmts_tables_ok [of "s\<lparr>m_stmts := m_stmts s @ [st]\<rparr>"] by (simp add: mergeAppend_def Let_def)

lemma merge_step_tables_ok:
  "merge_step E honest s s' \<Longrightarrow> tables_ok (db_tables (m_db s)) \<Longrightarrow> tables_ok (db_tables (m_db s'))"
  by (induction rule: merge_step.induct) (simp_all add: mergeAppend_tables_ok mergeStmts_tables_ok takeResult_def)

lemma merge_reach_tables_ok:
  "merge_reach E honest items db ds s \<Longrightarrow> tables_ok (db_tables db) \<Longrightarrow> tables_ok (db_tables (m_db s))"
  by (induction rule: merge_reach.induct) (simp_all add: merge_init_def merge_step_tables_ok)

text \<open>
  What is new in the database is authentic or was made by the node itself, in a namespace that is well formed; and
  the tables stay in agreement.
\<close>

definition acceptable :: "('k, 'p, 'a, 'h) api_env \<Rightarrow> string \<Rightarrow> statement \<Rightarrow> bool" where
  "acceptable A pid st \<longleftrightarrow>
     authentic (me_crypto (ae_m A)) st \<or> (\<exists>ns x. nsrx ns \<and> made (me_crypto (ae_m A)) pid ns {t. 0 < t} x st)"

definition db_effect :: "('k, 'p, 'a, 'h) api_env \<Rightarrow> string \<Rightarrow> sqldb \<Rightarrow> sqldb \<Rightarrow> bool" where
  "db_effect A pid db db' \<longleftrightarrow>
     (tables_ok (db_tables db) \<longrightarrow> tables_ok (db_tables db')) \<and>
     (\<forall>i b. stored db' i = Some b \<longrightarrow> stored db i = Some b \<or>
        (\<exists>st. acceptable A pid st \<and> Id st = i \<and> cr_marshal (me_crypto (ae_m A)) st = Some b))"

lemma db_effect_same: "db_tables db' = db_tables db \<Longrightarrow> db_effect A pid db db'"
  by (simp add: db_effect_def stored_def)

lemma db_effect_grow:
  assumes "tables_ok (db_tables db) \<Longrightarrow> tables_ok (db_tables db')" "stored db \<subseteq>\<^sub>m stored db'"
    and "\<forall>i \<in> dom (stored db') - dom (stored db). \<exists>st. acceptable A pid st \<and> Id st = i \<and> cr_marshal (me_crypto (ae_m A)) st = stored db' i"
  shows "db_effect A pid db db'"
proof -
  have "stored db i = Some b \<or> (\<exists>st. acceptable A pid st \<and> Id st = i \<and> cr_marshal (me_crypto (ae_m A)) st = Some b)"
    if b: "stored db' i = Some b" for i b
  proof (cases "stored db i")
    case None
    with b assms(3) show ?thesis by (metis DiffI domIff option.distinct(1))
  next
    case (Some c)
    with assms(2) b show ?thesis by (metis domI map_le_def)
  qed
  with assms(1) show ?thesis by (simp add: db_effect_def)
qed

lemma db_effect_publish:
  assumes "doPublishBatch (me_crypto (ae_m A)) fl rord now ns bs (p, db) = (r, p', db')" "nsrx ns" "\<forall>x. 0 < now x"
  shows "db_effect A (ID58 p) db db' \<and> ID58 p' = ID58 p"
proof -
  let ?marshal = "cr_marshal (me_crypto (ae_m A))"
  obtain rs p1 where m: "makeStatements (me_crypto (ae_m A)) now 0 ns bs p = (rs, p1)" by fastforce
  have p': "ID58 p' = ID58 p"
    using assms(1) m makeStatements_ID58 [OF m] by (cases rs) (auto simp: doPublishBatch_def split: prod.splits outcome.splits)
  show ?thesis
  proof (cases rs)
    case (Ok sts)
    obtain ru where put: "db_PutBatch fl rord ?marshal sts db = (ru, db')"
      using assms(1) m Ok by (auto simp: doPublishBatch_def split: prod.splits outcome.splits)
    have tabs: "tables_ok (db_tables db) \<Longrightarrow> tables_ok (db_tables db')"
      using PutBatch_tables_ok [of db fl rord ?marshal sts] put by simp
    have "\<exists>st. acceptable A (ID58 p) st \<and> Id st = i \<and> ?marshal st = stored db' i" if i: "i \<in> dom (stored db') - dom (stored db)" for i
    proof (cases ru)
      case (Ok u)
      note sp = put_all_spec [OF sqlite.put_batch_law [OF put [unfolded Ok]]]
      with i obtain st where st: "st \<in> set sts" "Id st = i" by blast
      with sp i have ms: "?marshal st = stored db' i" by auto
      from makeStatements_made [OF m [unfolded \<open>rs = Ok sts\<close>]] st(1) obtain x where "made (me_crypto (ae_m A)) (ID58 p) ns (range now) x st"
        by (auto simp: list_all2_conv_all_nth in_set_conv_nth)
      with assms(3) have "made (me_crypto (ae_m A)) (ID58 p) ns {t. 0 < t} x st" by (auto simp: made_def)
      with st ms assms(2) show ?thesis by (auto simp: acceptable_def)
    qed (use sqlite.put_batch_fails [OF put] i in simp_all)
    with db_effect_grow [OF tabs sqlite.grows(2) [OF put]] p' show ?thesis by blast
  qed (use assms(1) m p' in \<open>auto simp: doPublishBatch_def db_effect_same\<close>)
qed

lemma db_effect_import:
  assumes "importLoop (ae_m A) cache stmts count vals db = (n, r, db')" "cache_ok (me_crypto (ae_m A)) cache"
  shows "db_effect A pid db db'"
proof (rule db_effect_grow)
  from importLoop_imported [OF assms] have imp: "imported (me_crypto (ae_m A)) {st. st \<in> set stmts \<or> Ok st \<in> set vals} db db' (n - count)" ..
  then show "stored db \<subseteq>\<^sub>m stored db'" by (simp add: imported_def)
  from imp show "\<forall>i \<in> dom (stored db') - dom (stored db). \<exists>st. acceptable A pid st \<and> Id st = i \<and> cr_marshal (me_crypto (ae_m A)) st = stored db' i"
    unfolding imported_def acceptable_def by blast
  show "tables_ok (db_tables db')" if "tables_ok (db_tables db)" by (rule importLoop_tables_ok [OF assms(1) that])
qed

lemma db_effect_merge:
  assumes "merge_reach (ae_m A) honest items db ds s"
  shows "db_effect A pid db (m_db s)"
proof (rule db_effect_grow)
  note m = merge_reach_stored [OF assms]
  from m show "stored db \<subseteq>\<^sub>m stored (m_db s)" by blast
  from m show "\<forall>i \<in> dom (stored (m_db s)) - dom (stored db).
      \<exists>st. acceptable A pid st \<and> Id st = i \<and> cr_marshal (me_crypto (ae_m A)) st = stored (m_db s) i"
    unfolding acceptable_def by metis
  show "tables_ok (db_tables (m_db s))" if "tables_ok (db_tables db)" by (rule merge_reach_tables_ok [OF assms that])
qed

lemma db_effect_delete: "db_effect A pid db (snd (db_Delete fl eng unmarshal q db))"
proof -
  obtain r db' where d: "db_Delete fl eng unmarshal q db = (r, db')" by fastforce
  have "stored db' i = Some b \<Longrightarrow> stored db i = Some b" for i b
  proof (cases r)
    case (Ok c)
    from d [unfolded Ok] obtain ids where "db_tables db' = fold delete_tables ids (db_tables db)" by (rule Delete_Ok)
    then have "t_stmt (db_tables db') = filter (\<lambda>r. fst r \<notin> set ids) (t_stmt (db_tables db))" by (simp add: fold_delete_tables)
    moreover have "map_of (filter (\<lambda>r. fst r \<notin> set ids) xs) i = (if i \<in> set ids then None else map_of xs i)"
      for xs :: "(string \<times> string) list" by (induction xs) auto
    ultimately show "stored db' i = Some b \<Longrightarrow> stored db i = Some b" by (simp add: stored_def split: if_splits)
  qed (use db_Delete_fails [OF d] in \<open>simp_all add: stored_def\<close>)
  with d Delete_tables_ok [of db fl eng unmarshal q] show ?thesis by (simp add: db_effect_def)
qed

section \<open>Effects on the network\<close>

text \<open>Asking peers changes at most the addresses the host knows, and a host is there when that happens.\<close>

definition host_only :: "('p, 'a, 'h) net_state \<Rightarrow> ('p, 'a, 'h) net_state \<Rightarrow> bool" where
  "host_only s s' \<longleftrightarrow> s' = s \<or> (\<exists>h h'. ns_host s = Some h \<and> s' = s\<lparr>ns_host := Some h'\<rparr>)"

lemma host_only_refl [simp]: "host_only s s"
  by (simp add: host_only_def)

lemma host_only_net_ok: "host_only s s' \<Longrightarrow> net_ok s \<Longrightarrow> net_ok s'"
  by (auto simp: host_only_def net_ok_def live_tasks_def)

lemma doLookup_host: "doLookup hl as pid s = (r, s') \<Longrightarrow> host_only s s'"
  by (auto simp: doLookup_def the_host_def host_only_def split: outcome.splits option.splits)

lemma doConnectPeer_host: "doConnectPeer hl as pid s = (r, s') \<Longrightarrow> host_only s s'"
  by (auto simp: doConnectPeer_def split: if_splits outcome.splits prod.splits dest: doLookup_host)

lemma doConnect_host: "doConnect hl as pid proto s = (r, s') \<Longrightarrow> host_only s s'"
  by (auto simp: doConnect_def split: outcome.splits prod.splits dest: doConnectPeer_host)

lemma remote_call_host: "remote_call hl as proto wr rd pid s = (r, s') \<Longrightarrow> host_only s s'"
  by (auto simp: remote_call_def split: prod.splits dest: doConnect_host)

lemma netPing_host: "netPing hl as ping pid s = (r, s') \<Longrightarrow> host_only s s'"
  by (auto simp: netPing_def split: prod.splits dest: doConnectPeer_host)

lemma netIdentify_host: "netIdentify nl hl ps as pid s = (r, s') \<Longrightarrow> host_only s s'"
  by (auto simp: netIdentify_def split: if_splits outcome.splits prod.splits dest: doConnectPeer_host)

lemma netFindPeers_host: "netFindPeers hl self k ich s = (r, s') \<Longrightarrow> host_only s s'"
  by (auto simp: netFindPeers_def the_host_def host_only_def split: if_splits outcome.splits option.splits prod.splits)

lemma netAddrs_conf: "netAddrs nl hl get tcp s = (r, s') \<Longrightarrow> \<exists>cfg. s' = s\<lparr>ns_natCfg := cfg\<rparr>"
proof -
  have same: "\<exists>cfg. s = s\<lparr>ns_natCfg := cfg\<rparr>" by (rule exI [of _ "ns_natCfg s"]) simp
  have "\<exists>cfg. snd (natAddr nl get tcp s) = s\<lparr>ns_natCfg := cfg\<rparr>"
    using same by (auto simp: natAddr_def split: prod.splits outcome.splits)
  then show "netAddrs nl hl get tcp s = (r, s') \<Longrightarrow> \<exists>cfg. s' = s\<lparr>ns_natCfg := cfg\<rparr>"
    using same by (auto simp: netAddrs_def split: if_splits outcome.splits option.splits prod.splits)
qed

section \<open>Effects on the datastore\<close>

definition ds_effect :: "(string \<Rightarrow> string) \<Rightarrow> rocksdb \<Rightarrow> rocksdb \<Rightarrow> bool" where
  "ds_effect digest ds ds' \<longleftrightarrow> (rocks.addressed digest ds \<longrightarrow> rocks.addressed digest ds')"

lemma ds_effect_grows: "ds_grows digest ds ds' \<Longrightarrow> ds_effect digest ds ds'"
  by (simp add: ds_grows_def ds_effect_def)

lemma ds_effect_trans: "ds_effect digest a b \<Longrightarrow> ds_effect digest b c \<Longrightarrow> ds_effect digest a c"
  by (simp add: ds_effect_def)

lemma ds_effect_same: "objects ds' = objects ds \<Longrightarrow> ds_effect digest ds ds'"
  by (simp add: ds_effect_grows ds_grows_same)

lemma ds_effect_refl [simp]: "ds_effect digest ds ds"
  by (simp add: ds_effect_def)

lemma ds_Sync_effect: "ds_Sync fl ds = (r, ds') \<Longrightarrow> ds_effect digest ds ds'"
  by (auto simp: ds_Sync_def objects_def dest: rk_call_keeps intro!: ds_effect_same)

lemma ds_IterKeys_effect: "ds_IterKeys fl kord ds = (r, ds') \<Longrightarrow> ds_effect digest ds ds'"
  by (auto simp: ds_IterKeys_def ds_Sync_def objects_def split: prod.splits outcome.splits dest: rk_call_keeps intro!: ds_effect_same)

lemma ds_Get_effect: "ds_Get fl key ds = (r, ds') \<Longrightarrow> ds_effect digest ds ds'"
  by (rule ds_effect_same) (rule rocks.get_keeps)

lemma getBatch_effect: "getBatch A ls ds = (r, ds') \<Longrightarrow> ds_effect digest ds ds'"
proof (induction ls arbitrary: ds r ds')
  case (Cons key58 ls)
  show ?case
  proof (cases "me_b58 (ae_m A) key58")
    case (Ok key)
    obtain g ds1 where g: "ds_Get (me_dsfl (ae_m A)) key ds = (g, ds1)" by fastforce
    obtain r2 ds2 where rest: "getBatch A ls ds1 = (r2, ds2)" by fastforce
    have "ds' = ds1 \<or> ds' = ds2" using Cons.prems Ok g rest by (auto split: outcome.splits option.splits)
    with ds_Get_effect [OF g] Cons.IH [OF rest] show ?thesis by (blast intro: ds_effect_trans)
  qed (use Cons.prems in auto)
qed simp

lemma putEach_effect: "putEach E batch ds = (r, ds') \<Longrightarrow> ds_effect (me_digest E) ds ds'"
proof (induction batch arbitrary: ds r ds')
  case (Cons d batch)
  obtain rk ds1 where put: "ds_Put (me_dsfl E) (me_digest E) d ds = (rk, ds1)" by fastforce
  obtain r2 ds2 where rest: "putEach E batch ds1 = (r2, ds2)" by fastforce
  have "ds' = ds1 \<or> ds' = ds2" using Cons.prems put rest by (auto split: outcome.splits)
  with ds_effect_grows [OF ds_grows_put [OF put]] Cons.IH [OF rest] show ?case by (blast intro: ds_effect_trans)
qed simp

lemma gcLoop_effect: "gcLoop fl dsfl b58 c ks gc ds = (n, r, gc', ds') \<Longrightarrow> ds_effect digest ds ds'"
proof (induction ks arbitrary: c gc ds)
  case (Cons k ks)
  obtain v gc1 where v: "validKey fl b58 k gc = (v, gc1)" by fastforce
  obtain rd ds1 where d: "ds_Delete dsfl k ds = (rd, ds1)" by fastforce
  have e: "ds_effect digest ds ds1" unfolding ds_effect_def using rocks.delete_addressed [OF d] by blast
  from Cons.prems v d have "ds' = ds \<or> ds' = ds1 \<or> gcLoop fl dsfl b58 c ks gc1 ds = (n, r, gc', ds') \<or>
      gcLoop fl dsfl b58 (c + 1) ks gc1 ds1 = (n, r, gc', ds')" by (auto split: outcome.splits if_splits)
  with e Cons.IH show ?case by (blast intro: ds_effect_trans ds_effect_refl)
qed simp

lemma doGC_effect:
  assumes "doGC fl dsfl ord kord b58 eng unmarshal st db ds = (n, r, ds')"
  shows "ds_effect digest ds ds'"
proof -
  have collect: "gcCollect fl dsfl b58 kord gc ds = (n', r', gc', ds'') \<Longrightarrow> ds_effect digest ds ds''" for gc n' r' gc' ds''
  proof -
    assume c: "gcCollect fl dsfl b58 kord gc ds = (n', r', gc', ds'')"
    obtain rk ds1 where i: "ds_IterKeys dsfl kord ds = (rk, ds1)" by fastforce
    from c i ds_IterKeys_effect [OF i, of digest] show "ds_effect digest ds ds''"
      by (cases rk) (auto simp: gcCollect_def dest: gcLoop_effect [where digest = digest] intro: ds_effect_trans)
  qed
  show ?thesis using assms
    by (auto simp: doGC_def split: if_splits prod.splits outcome.splits dest: collect)
qed

lemma doRawMerge_effect:
  assumes "doRawMerge E conn wr msgs keys ds = (n, r, ds')" "distinct (map fst keys)"
  shows "ds_effect (me_digest E) ds ds'"
  using assms by (auto simp: doRawMerge_def split: outcome.splits dest: doMergeDataImpl_grows intro: ds_effect_grows)

lemma dataHandler_objects: "dataHandler fl b58 wr reqs ds = (r, ds') \<Longrightarrow> objects ds' = objects ds"
proof (induction fl b58 wr reqs ds arbitrary: r ds' rule: dataHandler.induct)
  case (4 fl b58 wr ks reqs ds)
  obtain rs ds1 where s: "serveKeys fl b58 wr ks ds = (rs, ds1)" by fastforce
  note same = serveKeys_objects [OF s]
  show ?case
  proof (cases rs)
    case (Ok mg)
    obtain msgs goes where mg: "mg = (msgs, goes)" by fastforce
    obtain r2 ds2 where rest: "dataHandler fl b58 wr reqs ds1 = (r2, ds2)" by fastforce
    show ?thesis
    proof (cases goes)
      case True
      have "ds' = ds2" using "4.prems" s Ok mg rest True by (cases r2) auto
      with "4.IH" [OF s [symmetric] Ok mg [symmetric] True rest] same show ?thesis by simp
    qed (use "4.prems" s Ok mg same in simp)
  qed (use "4.prems" s same in simp_all)
qed auto

section \<open>Effects of the steps\<close>

definition node_effect :: "('k, 'p, 'a, 'h) api_env \<Rightarrow> ('p, 'a, 'h) node \<Rightarrow> ('p, 'a, 'h) node \<Rightarrow> bool" where
  "node_effect A s s' \<longleftrightarrow>
     ID58 (nd_publisher s') = ID58 (nd_publisher s) \<and> nd_identity s' = nd_identity s \<and>
     (net_ok (nd_net s) \<longrightarrow> net_ok (nd_net s')) \<and>
     db_effect A (ID58 (nd_publisher s)) (nd_db s) (nd_db s') \<and>
     ds_effect (me_digest (ae_m A)) (nd_ds s) (nd_ds s')"

lemma node_effect_simps [simp]:
  "node_effect A s s"
  "node_effect A s (s\<lparr>nd_net := net\<rparr>) \<longleftrightarrow> (net_ok (nd_net s) \<longrightarrow> net_ok net)"
  "node_effect A s (s\<lparr>nd_db := db\<rparr>) \<longleftrightarrow> db_effect A (ID58 (nd_publisher s)) (nd_db s) db"
  "node_effect A s (s\<lparr>nd_ds := ds\<rparr>) \<longleftrightarrow> ds_effect (me_digest (ae_m A)) (nd_ds s) ds"
  "node_effect A s (s\<lparr>nd_net := net, nd_ds := ds\<rparr>) \<longleftrightarrow>
     (net_ok (nd_net s) \<longrightarrow> net_ok net) \<and> ds_effect (me_digest (ae_m A)) (nd_ds s) ds"
  "node_effect A s (s\<lparr>nd_db := db, nd_ds := ds\<rparr>) \<longleftrightarrow>
     db_effect A (ID58 (nd_publisher s)) (nd_db s) db \<and> ds_effect (me_digest (ae_m A)) (nd_ds s) ds"
  "node_effect A s (s\<lparr>nd_net := net, nd_db := db, nd_ds := ds\<rparr>) \<longleftrightarrow>
     (net_ok (nd_net s) \<longrightarrow> net_ok net) \<and> db_effect A (ID58 (nd_publisher s)) (nd_db s) db \<and> ds_effect (me_digest (ae_m A)) (nd_ds s) ds"
  by (simp_all add: node_effect_def db_effect_same)

lemma publishDecoded_effect:
  "publishDecoded A now ns stmts s = (r, s') \<Longrightarrow> nsrx ns \<Longrightarrow> \<forall>x. 0 < now x \<Longrightarrow> node_effect A s s'"
  by (auto simp: publishDecoded_def node_effect_def split: outcome.splits if_splits prod.splits dest!: db_effect_publish intro: db_effect_same)

lemma httpPublish_effect: "httpPublish A now ns body s = (r, s') \<Longrightarrow> \<forall>x. 0 < now x \<Longrightarrow> node_effect A s s'"
  by (auto simp: httpPublish_def split: if_splits dest: publishDecoded_effect)

lemma httpPublishCompound_effect:
  "httpPublishCompound A now ns comb body s = (r, s') \<Longrightarrow> \<forall>x. 0 < now x \<Longrightarrow> node_effect A s s'"
  by (auto simp: httpPublishCompound_def split: if_splits outcome.splits dest: publishDecoded_effect)

lemma httpImport_effect: "httpImport A stmts s = (r, s') \<Longrightarrow> node_effect A s s'"
  by (auto simp: httpImport_def split: prod.splits intro: db_effect_import [OF _ cache_ok_empty])

lemma askPeer_effect: "askPeer A as wr answers pid qs s = (r, s') \<Longrightarrow> \<exists>net. s' = s\<lparr>nd_net := net\<rparr> \<and> (net_ok (nd_net s) \<longrightarrow> net_ok net)"
  by (auto simp: askPeer_def split: prod.splits dest: doConnect_host host_only_net_ok)

lemma merge_effect:
  assumes "merge_reach (ae_m A) honest items db ds s"
  shows "db_effect A p db (m_db s)" "ds_effect (me_digest (ae_m A)) ds (m_ds s)"
proof -
  show "db_effect A p db (m_db s)" by (rule db_effect_merge [OF assms])
  from merge_reach_stored [OF assms] show "ds_effect (me_digest (ae_m A)) ds (m_ds s)"
    unfolding ds_effect_def rocks.addressed_def by blast
qed

lemma httpMerge_effect: "httpMerge A as wr answers peerId q s r s' \<Longrightarrow> node_effect A s s'"
proof (induction rule: httpMerge.induct)
  case (no_stream qs q pid r s')
  from askPeer_effect [OF no_stream(3)] show ?case by auto
next
  case (merged qs q pid items s' t)
  from askPeer_effect [OF merged(3)] merge_effect [OF merged(4)] show ?case by auto
next
  case (crashed qs q pid items s' t m)
  from askPeer_effect [OF crashed(3)] merge_effect [OF crashed(4)] show ?case by auto
qed simp_all

lemma pushHandler_effect:
  assumes "pushHandler (ae_m A) auth pid req wr msgs (db, ds) out (db', ds')"
  shows "db_effect A p db db'" "ds_effect (me_digest (ae_m A)) ds ds'"
  using assms by (cases rule: pushHandler.cases; auto simp: db_effect_same dest: merge_effect)+

lemma httpRemoteQuery_effect: "httpRemoteQuery A as wr answers peerId q s = (r, s') \<Longrightarrow> node_effect A s s'"
  by (auto simp: httpRemoteQuery_def split: sum.splits outcome.splits prod.splits dest: askPeer_effect)

lemma httpPush_effect: "httpPush A as wreq resp wr evs fin peerId q s = (r, s') \<Longrightarrow> node_effect A s s'"
proof -
  have "node_effect A s (snd (pushConnect A as pid q s))" for pid q
    by (auto simp: pushConnect_def split: outcome.splits list.splits prod.splits dest: doConnect_host host_only_net_ok)
  then show "httpPush A as wreq resp wr evs fin peerId q s = (r, s') \<Longrightarrow> node_effect A s s'"
    by (auto simp: httpPush_def split: sum.splits outcome.splits prod.splits) (metis snd_conv)
qed

lemma stmt_requests_effect:
  "httpStatement A i s = (r, s') \<Longrightarrow> node_effect A s s'"
  "httpDelete A q s = (r, s') \<Longrightarrow> node_effect A s s'"
  "httpVacuumIncremental A autovac s = (r, s') \<Longrightarrow> node_effect A s s'"
  "httpVacuumFull A autovac s = (r, s') \<Longrightarrow> node_effect A s s'"
proof -
  have del: "db_Delete fl eng unmarshal q db = (r, db') \<Longrightarrow> db_effect A p db db'" for fl eng unmarshal q db r db' p
    using db_effect_delete [of A p db fl eng unmarshal q] by simp
  show "httpDelete A q s = (r, s') \<Longrightarrow> node_effect A s s'"
    by (auto simp: httpDelete_def split: sum.splits prod.splits dest: del)
  show "httpStatement A i s = (r, s') \<Longrightarrow> node_effect A s s'"
    by (auto simp: httpStatement_def db_Get_def Let_def split: prod.splits option.splits intro!: db_effect_same)
  show "httpVacuumIncremental A autovac s = (r, s') \<Longrightarrow> node_effect A s s'" "httpVacuumFull A autovac s = (r, s') \<Longrightarrow> node_effect A s s'"
    by (auto simp: httpVacuumIncremental_def httpVacuumFull_def db_Vacuum_def vacuumFull_def vacuumIncremental_def db_call_def
        split: prod.splits outcome.splits option.splits if_splits intro!: db_effect_same)
qed

lemma data_requests_effect:
  "httpGetData A key58 s = (r, s') \<Longrightarrow> node_effect A s s'"
  "httpGetDataBatch A ls s = (r, s') \<Longrightarrow> node_effect A s s'"
  "httpPutData A objs s = (r, s') \<Longrightarrow> node_effect A s s'"
  "httpGCData A gcfl s = (r, s') \<Longrightarrow> node_effect A s s'"
  "httpCompactData s = (r, s') \<Longrightarrow> node_effect A s s'"
  "httpSyncData A s = (r, s') \<Longrightarrow> node_effect A s s'"
  "httpDataKeys A s = (r, s') \<Longrightarrow> node_effect A s s'"
  by (auto simp: httpGetData_def httpGetDataBatch_def httpPutData_def httpGCData_def httpCompactData_def doCompact_def
      httpSyncData_def httpDataKeys_def split: outcome.splits prod.splits
      intro: ds_Get_effect getBatch_effect putEach_effect doGC_effect ds_Sync_effect ds_IterKeys_effect)

lemma httpMergeData_effect: "httpMergeData A as wr msgs peerId ls s = (r, s') \<Longrightarrow> node_effect A s s'"
proof (cases "nl_IDB58Decode (ae_nl A) peerId"; cases "ofold (\<lambda>keys l. mergeObjectKey (ae_m A) l keys) [] (scan_lines ls)")
  fix pid keys
  assume a: "httpMergeData A as wr msgs peerId ls s = (r, s')" "nl_IDB58Decode (ae_nl A) peerId = Ok pid"
    and k: "ofold (\<lambda>keys l. mergeObjectKey (ae_m A) l keys) [] (scan_lines ls) = Ok keys"
  obtain conn net where c: "doConnect (ae_hl A) as pid ''/mediachain/node/data'' (nd_net s) = (conn, net)" by fastforce
  obtain n ri ds where m: "doRawMerge (ae_m A) conn wr msgs keys (nd_ds s) = (n, ri, ds)" by (metis prod_cases3)
  from mergeDeps_Ok [OF k] have "keys_ok (ae_m A) keys" by simp
  then have "distinct (map fst keys)" by (rule keys_ok_distinct)
  with doRawMerge_effect [OF m] host_only_net_ok [OF doConnect_host [OF c]] a k c m show ?thesis
    by (auto simp: httpMergeData_def)
qed (auto simp: httpMergeData_def)

lemma with_net_effect:
  assumes "with_net err f oper s = (r, s')" "\<And>r net. oper (nd_net s) = (r, net) \<Longrightarrow> net_ok (nd_net s) \<Longrightarrow> net_ok net"
  shows "node_effect A s s'"
  using assms by (auto simp: with_net_def split: prod.splits)

lemma with_peer_net_effect:
  assumes "with_peer A peerId (\<lambda>pid. with_net err f (oper pid)) s = (r, s')"
    and "\<And>pid r net. oper pid (nd_net s) = (r, net) \<Longrightarrow> host_only (nd_net s) net"
  shows "node_effect A s s'"
  using assms(1) host_only_net_ok [OF assms(2)] by (auto simp: with_peer_def split: outcome.splits intro: with_net_effect)

lemma net_requests_effect:
  "httpRemoteId A as wru rdi peerId s = (r, s') \<Longrightarrow> node_effect A s s'"
  "httpManifestPeer A as wru rdm peerId s = (r, s') \<Longrightarrow> node_effect A s s'"
  "httpPing A as wru rdu peerId s = (r, s') \<Longrightarrow> node_effect A s s'"
  "httpNetLookup A as peerId s = (r, s') \<Longrightarrow> node_effect A s s'"
  "httpNetIdentify A as peerId s = (r, s') \<Longrightarrow> node_effect A s s'"
  "httpNetPing A dur as pong peerId s = (r, s') \<Longrightarrow> node_effect A s s'"
  unfolding httpRemoteId_def httpManifestPeer_def httpPing_def httpNetLookup_def httpNetIdentify_def httpNetPing_def
    doRemoteId_def doRemoteManifest_def doPing_def
  by (erule with_peer_net_effect, erule remote_call_host doLookup_host netIdentify_host netPing_host)+

lemma net_own_requests_effect:
  "httpNetFindPeers A k ich s = (r, s') \<Longrightarrow> node_effect A s s'"
  "httpNetAddr A get tcp s = (r, s') \<Longrightarrow> node_effect A s s'"
  unfolding httpNetFindPeers_def httpNetAddr_def
  by (erule with_net_effect, rule host_only_net_ok, erule netFindPeers_host, assumption)
    (erule with_net_effect, drule netAddrs_conf, auto simp: net_ok_conf)

text \<open>The status and the configuration.\<close>

lemma httpStatusSet_effect:
  assumes "httpStatusSet closed host state s = (r, s')" "\<forall>m. r \<noteq> Aborted m"
  shows "node_effect A s s'"
proof -
  obtain rn net where oper: "(if state = ''offline'' then goOffline closed (nd_net s)
      else if state = ''online'' then goOnline host (nd_net s) else goPublic host (nd_net s)) = (rn, net)" by fastforce
  show ?thesis
  proof (cases "state \<in> {''offline'', ''online'', ''public''}")
    case True
    with assms(1) oper have s': "s' = s\<lparr>nd_net := net\<rparr>" "r = the_error 500 rn [statusString (ns_status net)]"
      unfolding httpStatusSet_def by (simp_all del: insert_iff)
    with assms(2) have "\<forall>m. rn \<noteq> Panic m" by (cases rn) (simp_all add: the_error_def)
    moreover from oper have "goOffline closed (nd_net s) = (rn, net) \<or> goOnline host (nd_net s) = (rn, net) \<or> goPublic host (nd_net s) = (rn, net)"
      by (simp split: if_splits)
    ultimately show ?thesis unfolding s' by (auto intro: net_ok_offline net_ok_online net_ok_public)
  next
    case False
    with assms(1) show ?thesis unfolding httpStatusSet_def by (simp del: insert_iff)
  qed
qed

lemma save_response_effect: "save_response A s1 = (r, s') \<Longrightarrow> node_effect A s s1 \<Longrightarrow> node_effect A s s'"
  by (auto simp: save_response_def node_saveConfig_def node_effect_def split: prod.splits)

lemma set_effect [simp]:
  "node_effect A s (s\<lparr>nd_info := info\<rparr>)" "node_effect A s (s\<lparr>nd_auth := rules\<rparr>)" "node_effect A s (s\<lparr>nd_mfs := mfs\<rparr>)"
  by (simp_all add: node_effect_def db_effect_same)

lemma apiConfigMethod_effect:
  "apiConfigMethod meth (g, s) setf s = (r, s') \<Longrightarrow> (\<And>r s'. setf = (r, s') \<Longrightarrow> node_effect A s s') \<Longrightarrow> node_effect A s s'"
  unfolding apiConfigMethod_def by (auto split: if_splits)

lemma config_requests_effect:
  "httpConfigDir A meth ls s = (r, s') \<Longrightarrow> node_effect A s s'"
  "httpConfigNAT A meth q s = (r, s') \<Longrightarrow> node_effect A s s'"
  "httpConfigInfo A meth q s = (r, s') \<Longrightarrow> node_effect A s s'"
  "httpAuthPeer A meth peerId q s = (r, s') \<Longrightarrow> node_effect A s s'"
  "httpManifest A meth mfs s = (r, s') \<Longrightarrow> node_effect A s s'"
proof -
  have "httpConfigDirSet A ls s = (r, s') \<Longrightarrow> node_effect A s s'" for r s'
    by (auto simp: httpConfigDirSet_def net_ok_conf split: outcome.splits elim!: save_response_effect)
  then show "httpConfigDir A meth ls s = (r, s') \<Longrightarrow> node_effect A s s'"
    unfolding httpConfigDir_def using apiConfigMethod_effect [of meth "httpConfigDirGet A s" s "httpConfigDirSet A ls s"] by blast
  have "httpConfigNATSet A q s = (r, s') \<Longrightarrow> node_effect A s s'" for r s'
    by (auto simp: httpConfigNATSet_def net_ok_conf split: outcome.splits elim!: save_response_effect)
  then show "httpConfigNAT A meth q s = (r, s') \<Longrightarrow> node_effect A s s'"
    unfolding httpConfigNAT_def using apiConfigMethod_effect [of meth "httpConfigNATGet s" s "httpConfigNATSet A q s"] by blast
  have "httpConfigInfoSet A q s = (r, s') \<Longrightarrow> node_effect A s s'" for r s'
    by (auto simp: httpConfigInfoSet_def split: outcome.splits elim!: save_response_effect)
  then show "httpConfigInfo A meth q s = (r, s') \<Longrightarrow> node_effect A s s'"
    unfolding httpConfigInfo_def using apiConfigMethod_effect [of meth "httpConfigInfoGet s" s "httpConfigInfoSet A q s"] by blast
  have "httpAuthPeerSet A peerId q s = (r, s') \<Longrightarrow> node_effect A s s'" for r s'
    by (auto simp: httpAuthPeerSet_def Let_def split: outcome.splits elim!: save_response_effect)
  then show "httpAuthPeer A meth peerId q s = (r, s') \<Longrightarrow> node_effect A s s'"
    unfolding httpAuthPeer_def using apiConfigMethod_effect [of meth "httpAuthPeerGet A peerId s" s "httpAuthPeerSet A peerId q s"] by blast
  have "httpManifestSet A mfs s = (r, s') \<Longrightarrow> node_effect A s s'" for r s'
    by (auto simp: httpManifestSet_def split: outcome.splits elim!: save_response_effect)
  then show "httpManifest A meth mfs s = (r, s') \<Longrightarrow> node_effect A s s'"
    unfolding httpManifest_def using apiConfigMethod_effect [of meth "httpManifestGet A s" s "httpManifestSet A mfs s"] by blast
qed

lemmas request_effects = httpPublish_effect httpPublishCompound_effect httpImport_effect stmt_requests_effect
  httpRemoteQuery_effect httpMerge_effect httpPush_effect data_requests_effect httpMergeData_effect net_requests_effect
  net_own_requests_effect httpStatusSet_effect config_requests_effect

lemma node_step_effect: "node_step A s s' \<Longrightarrow> node_effect A s s'"
proof (induction rule: node_step.induct)
  case (pushed s pid req wrr pmsgs out db ds)
  from pushHandler_effect [OF this] show ?case by simp
next
  case (asked wrm reqs s rm ds)
  from dataHandler_objects [OF this] show ?case by (simp add: ds_effect_same)
qed (assumption | erule request_effects)+

end
