(* ===== verification/Overlap.thy ===== *)
theory Overlap
  imports Daemon
begin

text \<open>
  The node while its requests overlap: merges, pushes it receives, imports and puts run in steps, between which
  anything else may happen, and the program may be restarted. A merge is that of \<open>Merge\<close>, on the databases as the
  other requests leave them; an import stores one batch at a time, a put one object. The other
  requests change the stores with a single call, or run by themselves (\<open>Daemon\<close>).
\<close>

section \<open>Steps\<close>

text \<open>
  What is running. A merge keeps its stream, and whether its peer is one that only sends what it was asked for; the copies
  of the databases in its state are those of its last step.
\<close>

datatype 'k task =
  Merging bool "stream_item list" "'k mstate"
| Importing "'k pkcache" "statement outcome list"
| Putting "string list"
| Ended

type_synonym ('k, 'p, 'a, 'h) daemon = "('p, 'a, 'h) node \<times> 'k task list"

text \<open>
  A restart: the identities, the configuration file and the stores stay on the disk, everything else starts afresh. A
  configuration that does not load ends the program. Opening the stores makes some calls, too.
\<close>

definition restart ::
  "('k, 'p, 'a, 'h) api_env \<Rightarrow> ((string \<times> json) list \<Rightarrow> (string \<times> json) list) \<Rightarrow> ('p, 'a, 'h) node \<Rightarrow> unit outcome \<times> ('p, 'a, 'h) node" where
  "restart A ord s =
     (case loadConfig (ae_nl A) (ae_mj A) ord (nd_file s) fresh_conf of
        (Ok u, conf) \<Rightarrow>
          (Ok (), (fresh_node (nd_identity s) \<lparr>ID58 = ID58 (nd_publisher s), counter = 0\<rparr> conf (nd_file s))\<lparr>nd_db := (nd_db s)\<lparr>db_open := 0\<rparr>, nd_ds := nd_ds s\<rparr>)
      | (r, conf) \<Rightarrow> (r, s))"


text \<open>
  A task is named by its place in the list. An import that meets a value it cannot decode, and a put or an import that fails, goes no further.
  A panic of a merge ends the whole program in some cases (a worker), and only the request in others;
  both are covered, as the other tasks may stop at any point anyway.
\<close>

inductive daemon_step :: "('k, 'p, 'a, 'h) api_env \<Rightarrow> ('k, 'p, 'a, 'h) daemon \<Rightarrow> ('k, 'p, 'a, 'h) daemon \<Rightarrow> bool" for A where
  request: "node_step A s s' \<Longrightarrow> daemon_step A (s, ts) (s', ts)"
| merge_starts: "read_query (\<lambda>q. IsSimpleSelect q ''*'') body = Inr (qs, q) \<Longrightarrow> nl_IDB58Decode (ae_nl A) peerId = Ok pid \<Longrightarrow>
    askPeer A as wr answers pid qs s = (Ok items, s') \<Longrightarrow>
    daemon_step A (s, ts) (s', ts @ [Merging honest items (merge_init (ae_m A) items (nd_db s') (nd_ds s'))])"
| push_starts: "authorize (nd_auth s) pid nss \<Longrightarrow> pushLoop nss msgs k = (sts, err, mdone) \<Longrightarrow>
    daemon_step A (s, ts) (s, ts @ [Merging honest (push_items sts) (merge_init (ae_m A) (push_items sts) (nd_db s) (nd_ds s))])"
| import_starts: "daemon_step A (s, ts) (s, ts @ [Importing Map.empty vals])"
| put_starts: "decode_all objs = Ok batch \<Longrightarrow> daemon_step A (s, ts) (s, ts @ [Putting batch])"
| merge_moves: "i < length ts \<Longrightarrow> ts ! i = Merging honest items t \<Longrightarrow>
    merge_step (ae_m A) honest (t\<lparr>m_db := nd_db s, m_ds := nd_ds s\<rparr>) t' \<Longrightarrow>
    daemon_step A (s, ts) (s\<lparr>nd_db := m_db t', nd_ds := m_ds t'\<rparr>, ts[i := Merging honest items t'])"
| import_moves: "i < length ts \<Longrightarrow> ts ! i = Importing cache vals \<Longrightarrow> take import_batch vals = map Ok sts \<Longrightarrow> sts \<noteq> [] \<Longrightarrow>
    doImport (me_crypto (ae_m A)) (me_dbfl (ae_m A)) (me_rord (ae_m A)) sts cache (nd_db s) = (r, db) \<Longrightarrow>
    daemon_step A (s, ts) (s\<lparr>nd_db := db\<rparr>,
      ts[i := (case r of Ok n \<Rightarrow> Importing (importCache (me_crypto (ae_m A)) sts cache) (drop import_batch vals) | _ \<Rightarrow> Ended)])"
| put_moves: "i < length ts \<Longrightarrow> ts ! i = Putting (data # batch) \<Longrightarrow>
    ds_Put (me_dsfl (ae_m A)) (me_digest (ae_m A)) data (nd_ds s) = (r, ds) \<Longrightarrow>
    daemon_step A (s, ts) (s\<lparr>nd_ds := ds\<rparr>, ts[i := (case r of Ok key \<Rightarrow> Putting batch | _ \<Rightarrow> Ended)])"
| restarted: "restart A ord s = (Ok (), s') \<Longrightarrow>
    daemon_step A (s, ts) (s'\<lparr>nd_db := (nd_db s')\<lparr>db_time := m\<rparr>, nd_ds := (nd_ds s')\<lparr>rk_time := k\<rparr>\<rparr>, map (\<lambda>t. Ended) ts)"

text \<open>The states of a node that was first started with empty stores.\<close>

inductive daemon_reach :: "('k, 'p, 'a, 'h) api_env \<Rightarrow> string \<Rightarrow> ('k, 'p, 'a, 'h) daemon \<Rightarrow> bool" for A pid where
  start: "ID58 pub = pid \<Longrightarrow> daemon_reach A pid (fresh_node identity pub conf fl, [])"
| step: "daemon_reach A pid S \<Longrightarrow> daemon_step A S S' \<Longrightarrow> daemon_reach A pid S'"

section \<open>A merge that is interrupted\<close>

text \<open>What one step of a merge adds, whatever the databases are.\<close>

definition adds :: "'k merge_env \<Rightarrow> statement set \<Rightarrow> sqldb \<Rightarrow> sqldb \<Rightarrow> bool" where
  "adds E S db db' \<longleftrightarrow> stored db \<subseteq>\<^sub>m stored db' \<and>
     (\<forall>i \<in> dom (stored db') - dom (stored db). \<exists>st \<in> S. Id st = i \<and> cr_marshal (me_crypto E) st = stored db' i)"

lemma adds_refl [simp]: "adds E S db db"
  by (simp add: adds_def)

lemma adds_mono: "adds E S db db' \<Longrightarrow> S \<subseteq> T \<Longrightarrow> adds E T db db'"
  unfolding adds_def by blast

lemma MergeBatch_adds:
  assumes "db_MergeBatch (me_dbfl E) (me_rord E) (cr_marshal (me_crypto E)) sts db = (r, db')"
  shows "adds E (set sts) db db'"
proof (cases r)
  case (Ok n)
  from sqlite.merge_new [OF assms [unfolded Ok]] sqlite.grows(4) [OF assms] show ?thesis
    unfolding adds_def by (metis DiffD1 domD option.sel)
qed (use sqlite.merge_batch_fails [OF assms] in \<open>simp_all add: adds_def\<close>)

lemma mergeStmts_adds:
  "adds E (set (m_stmts t)) (m_db t) (m_db (mergeStmts E a b t)) \<and> set (m_stmts (mergeStmts E a b t)) \<subseteq> set (m_stmts t)"
  by (auto simp: mergeStmts_def split: prod.splits outcome.splits dest: MergeBatch_adds)

lemma mergeAppend_adds:
  "adds E (insert st (set (m_stmts t))) (m_db t) (m_db (mergeAppend E st t)) \<and> set (m_stmts (mergeAppend E st t)) \<subseteq> insert st (set (m_stmts t))"
  using mergeStmts_adds [of E "t\<lparr>m_stmts := m_stmts t @ [st]\<rparr>" PLoop PSend] by (simp add: mergeAppend_def Let_def)

text \<open>The part of a merge's invariant that no other request can break: what is pending was admitted.\<close>

definition pending_ok :: "'k merge_env \<Rightarrow> stream_item list \<Rightarrow> 'k mstate \<Rightarrow> bool" where
  "pending_ok E items t \<longleftrightarrow> (\<exists>seen. items = seen @ m_in t \<and> set (m_stmts t) \<subseteq> admitted E seen)"

definition task_ok :: "'k merge_env \<Rightarrow> 'k task \<Rightarrow> bool" where
  "task_ok E task = (case task of
     Merging honest items t \<Rightarrow> pending_ok E items t \<and> inv_ds E (m_ds t) t \<and> inv_pool E t
   | Importing cache vals \<Rightarrow> cache_ok (me_crypto E) cache
   | _ \<Rightarrow> True)"

lemma task_ok_simps [simp]:
  "task_ok E (Importing cache vals) \<longleftrightarrow> cache_ok (me_crypto E) cache" "task_ok E (Putting batch)" "task_ok E Ended"
  by (simp_all add: task_ok_def)

lemma pending_ok_admitted: "pending_ok E items t \<Longrightarrow> set (m_stmts t) \<subseteq> admitted E items"
  by (auto simp: pending_ok_def admitted_def)

lemma pending_ok_value:
  assumes "pending_ok E items t" "m_in t = v # vs" "mergeValue E v (m_cache t) (m_keys t) = Ok (st, cache, keys)" "cache_ok (me_crypto E) (m_cache t)"
    and "m_in t' = vs" "set (m_stmts t') \<subseteq> insert st (set (m_stmts t))"
  shows "pending_ok E items t'" "insert st (set (m_stmts t)) \<subseteq> admitted E items"
proof -
  from assms(1,2) obtain seen where seen: "items = seen @ v # vs" "set (m_stmts t) \<subseteq> admitted E seen" by (auto simp: pending_ok_def)
  from mergeValue_Ok [OF assms(3,4)] have v: "v = SVal (RStmt st)" "authentic (me_crypto E) st" by simp_all
  with seen have "insert st (set (m_stmts t)) \<subseteq> admitted E (seen @ [v])" by (auto simp: admitted_def)
  with seen(1) assms(5,6) show "pending_ok E items t'" unfolding pending_ok_def by (intro exI [of _ "seen @ [v]"]) auto
  from \<open>insert st _ \<subseteq> _\<close> seen(1) show "insert st (set (m_stmts t)) \<subseteq> admitted E items" by (auto simp: admitted_def)
qed

lemma merge_step_pending:
  "merge_step E honest t t' \<Longrightarrow> pending_ok E items t \<Longrightarrow> cache_ok (me_crypto E) (m_cache t) \<Longrightarrow>
   pending_ok E items t' \<and> adds E (admitted E items) (m_db t) (m_db t')"
proof (induction rule: merge_step.induct)
  case (loop_break t v vs e)
  then obtain seen where "items = seen @ v # vs" "set (m_stmts t) \<subseteq> admitted E seen" by (auto simp: pending_ok_def)
  then show ?case unfolding pending_ok_def by (intro conjI exI [of _ "seen @ [v]"]) (auto simp: admitted_def)
next
  case (loop_next t v vs st cache keys)
  let ?t = "t\<lparr>m_in := vs, m_cache := cache, m_keys := keys\<rparr>"
  from mergeAppend_adds [of E st ?t] pending_ok_value [OF loop_next(5,2,3,6), of "mergeAppend E st ?t"] show ?case
    by (auto intro: adds_mono)
next
  case (loop_send t v vs st cache keys)
  let ?t = "t\<lparr>m_in := vs, m_cache := cache, m_keys := [], m_work := m_work t @ [keys]\<rparr>"
  from mergeAppend_adds [of E st ?t] pending_ok_value [OF loop_send(6,2,3,7), of "mergeAppend E st ?t"] show ?case
    by (auto intro: adds_mono)
next
  case (loop_result t v vs st cache keys)
  from pending_ok_value(1) [OF loop_result(6,2,3,7), of "takeResult PSend (t\<lparr>m_in := vs, m_cache := cache, m_keys := keys\<rparr>)"]
  show ?case by auto
next
  case (loop_cancel t v vs st cache keys)
  from pending_ok_value(1) [OF loop_cancel(6,2,3,7), of "t\<lparr>m_in := vs, m_cache := cache, m_keys := keys, m_err := Some CtxErr, m_pc := PSend\<rparr>"]
  show ?case by auto
next
  case (flush t)
  from mergeStmts_adds [of E t "PCollect (m_workers t)" "PCollect (m_workers t)"] pending_ok_admitted [OF flush(2)] flush(2) show ?case
    by (auto simp: pending_ok_def intro: adds_mono)
qed (simp_all add: pending_ok_def)

lemma task_ok_moves:
  assumes "task_ok E (Merging honest items t)" "merge_step E honest (t\<lparr>m_db := db, m_ds := ds\<rparr>) t'"
  shows "task_ok E (Merging honest items t')" "adds E (admitted E items) db (m_db t')" "ds_grows (me_digest E) ds (m_ds t')"
proof -
  let ?t = "t\<lparr>m_db := db, m_ds := ds\<rparr>"
  from assms(1) have t: "pending_ok E items ?t" "inv_ds E ds ?t" "inv_pool E ?t" "cache_ok (me_crypto E) (m_cache ?t)"
    by (simp_all add: task_ok_def pending_ok_def inv_ds_def inv_pool_def fails_def)
  from merge_step_pending [OF assms(2) t(1,4)] have p: "pending_ok E items t'" "adds E (admitted E items) db (m_db t')" by simp_all
  from merge_step_ds [OF assms(2) t(2)] have d: "inv_ds E ds t'" .
  from p(2) show "adds E (admitted E items) db (m_db t')" .
  from d show "ds_grows (me_digest E) ds (m_ds t')" by (simp add: inv_ds_def)
  from p(1) d merge_step_pool [OF assms(2) t(3)] show "task_ok E (Merging honest items t')" by (simp add: task_ok_def inv_ds_def)
qed

lemma task_ok_starts: "task_ok E (Merging honest items (merge_init E items db ds))"
  using merge_init_inv [where E = E and items = items and db = db and ds = ds] by (simp add: task_ok_def pending_ok_def merge_init_def)

section \<open>What holds in every state\<close>

lemma restart_effect:
  "restart A ord s = (Ok (), s') \<Longrightarrow> node_effect A s (s'\<lparr>nd_db := (nd_db s')\<lparr>db_time := m\<rparr>, nd_ds := (nd_ds s')\<lparr>rk_time := k\<rparr>\<rparr>)"
  by (auto simp: restart_def fresh_node_def node_effect_def net_ok_fresh db_effect_same objects_def intro: ds_effect_same
      split: prod.splits outcome.splits)

text \<open>Everything that is stored is under its own id, and complete and signed or made by the node.\<close>

definition all_stored :: "(statement \<Rightarrow> bool) \<Rightarrow> ('k, 'p, 'a, 'h) api_env \<Rightarrow> sqldb \<Rightarrow> bool" where
  "all_stored P A db \<longleftrightarrow>
     (\<forall>i b. stored db i = Some b \<longrightarrow> (\<exists>st. P st \<and> Id st = i \<and> cr_marshal (me_crypto (ae_m A)) st = Some b))"


lemma all_stored_effect: "all_stored (acceptable A pid) A db \<Longrightarrow> db_effect A pid db db' \<Longrightarrow> all_stored (acceptable A pid) A db'"
  unfolding all_stored_def db_effect_def by meson

lemma db_effect_adds:
  assumes "adds (ae_m A) S db db'" "\<forall>st \<in> S. authentic (me_crypto (ae_m A)) st" "tables_ok (db_tables db) \<Longrightarrow> tables_ok (db_tables db')"
  shows "db_effect A pid db db'"
proof (rule db_effect_grow)
  from assms(1,2) show "\<forall>i \<in> dom (stored db') - dom (stored db). \<exists>st. acceptable A pid st \<and> Id st = i \<and> cr_marshal (me_crypto (ae_m A)) st = stored db' i"
    unfolding adds_def acceptable_def by blast
qed (use assms in \<open>simp_all add: adds_def\<close>)

text \<open>A step of a running task has the effects of a request, and leaves every task in order.\<close>

lemma tasks_update: "list_all P ts \<Longrightarrow> P x \<Longrightarrow> list_all P (ts[i := x])"
  by (auto simp: list_all_iff dest!: set_update_subset_insert [THEN subsetD])

lemma daemon_step_effect:
  assumes "daemon_step A (s, ts) (s', ts')" "list_all (task_ok (ae_m A)) ts"
  shows "node_effect A s s' \<and> list_all (task_ok (ae_m A)) ts'"
  using assms(1)
proof (cases rule: daemon_step.cases)
  case request
  with assms(2) show ?thesis by (simp add: node_step_effect)
next
  case (merge_starts body qs q peerId pid as wr answers items honest)
  with assms(2) askPeer_effect [OF merge_starts(4)] show ?thesis by (auto simp: task_ok_starts)
next
  case (merge_moves i honest items t t')
  from assms(2) merge_moves(3,4) have "task_ok (ae_m A) (Merging honest items t)" by (metis list_all_length)
  note m = task_ok_moves [OF this merge_moves(5)]
  have "db_effect A p (nd_db s) (m_db t')" for p
    using db_effect_adds [OF m(2)] merge_step_tables_ok [OF merge_moves(5)] by (simp add: admitted_def)
  with m(1,3) merge_moves assms(2) show ?thesis by (simp add: tasks_update ds_effect_grows)
next
  case (import_moves i cache vals sts r db)
  from assms(2) import_moves(3,4) have c: "cache_ok (me_crypto (ae_m A)) cache" unfolding list_all_length by fastforce
  from doImport_imported [OF this import_moves(7)] have "adds (ae_m A) {st. authentic (me_crypto (ae_m A)) st} (nd_db s) db"
    by (cases r) (auto simp: imported_def adds_def)
  from db_effect_adds [OF this] doImport_tables_ok [of "nd_db s" "me_crypto (ae_m A)" "me_dbfl (ae_m A)" "me_rord (ae_m A)" sts cache] import_moves(7)
  have "db_effect A p (nd_db s) db" for p by simp
  with import_moves assms(2) importCache_ok [OF c] show ?thesis
    by (auto intro!: tasks_update split: outcome.split)
next
  case (put_moves i data batch r ds)
  with assms(2) show ?thesis
    by (auto intro!: tasks_update ds_effect_grows ds_grows_put split: outcome.split)
next
  case (restarted ord s'' m k)
  then show ?thesis by (simp add: restart_effect list_all_iff)
qed (use assms(2) in \<open>simp_all add: task_ok_starts\<close>)

lemma daemon_reach_inv:
  "daemon_reach A pid S \<Longrightarrow> ID58 (nd_publisher (fst S)) = pid \<and> net_ok (nd_net (fst S)) \<and> tables_ok (db_tables (nd_db (fst S))) \<and>
     all_stored (acceptable A pid) A (nd_db (fst S)) \<and> rocks.addressed (me_digest (ae_m A)) (nd_ds (fst S)) \<and> list_all (task_ok (ae_m A)) (snd S)"
proof (induction rule: daemon_reach.induct)
  case (start pub identity conf fl)
  have "stored empty_db = Map.empty" by (simp add: stored_def empty_db_def)
  then show ?case using start
    by (simp add: fresh_node_def net_ok_fresh empty_db_ok all_stored_def ds_ok_rocks empty_ds_ok)
next
  case (step S S')
  from daemon_step_effect [of A "fst S" "snd S" "fst S'" "snd S'"] step
  have e: "node_effect A (fst S) (fst S')" "list_all (task_ok (ae_m A)) (snd S')" by simp_all
  with step.IH all_stored_effect [of A pid "nd_db (fst S)" "nd_db (fst S')"] show ?case
    by (simp add: node_effect_def db_effect_def ds_effect_def)
qed

section \<open>A merge that is interrupted is complete\<close>

text \<open>A run in which nothing is lost: it may hold every request but those that delete.\<close>

definition loses_nothing :: "('p, 'a, 'h) node \<Rightarrow> ('p, 'a, 'h) node \<Rightarrow> bool" where
  "loses_nothing s s' \<longleftrightarrow> dom (stored (nd_db s)) \<subseteq> dom (stored (nd_db s')) \<and> dom (objects (nd_ds s)) \<subseteq> dom (objects (nd_ds s'))"

inductive daemon_run :: "('k, 'p, 'a, 'h) api_env \<Rightarrow> ('k, 'p, 'a, 'h) daemon \<Rightarrow> ('k, 'p, 'a, 'h) daemon \<Rightarrow> bool" for A S where
  start: "daemon_run A S S"
| step: "daemon_run A S S' \<Longrightarrow> daemon_step A S' S'' \<Longrightarrow> loses_nothing (fst S') (fst S'') \<Longrightarrow> daemon_run A S S''"

lemma loses_nothing_refl [simp]: "loses_nothing s s"
  by (simp add: loses_nothing_def)

text \<open>Requests that lose nothing.\<close>

lemma publishDecoded_keeps: "publishDecoded A now ns stmts s = (r, s') \<Longrightarrow> loses_nothing s s'"
  by (auto simp: publishDecoded_def doPublishBatch_def loses_nothing_def split: outcome.splits if_splits prod.splits
      dest!: sqlite.grows(2) map_le_implies_dom_le)

lemma putEach_keeps: "putEach E batch ds = (r, ds') \<Longrightarrow> dom (objects ds) \<subseteq> dom (objects ds')"
proof (induction batch arbitrary: ds r ds')
  case (Cons d batch)
  obtain rk ds1 where put: "ds_Put (me_dsfl E) (me_digest E) d ds = (rk, ds1)" by fastforce
  obtain r2 ds2 where rest: "putEach E batch ds1 = (r2, ds2)" by fastforce
  have "ds' = ds1 \<or> ds' = ds2" using Cons.prems put rest by (auto split: outcome.splits)
  moreover have "dom (objects ds) \<subseteq> dom (objects ds1)" using ds_grows_put [OF put] by (simp add: ds_grows_def)
  ultimately show ?case using Cons.IH [OF rest] by blast
qed simp

lemma requests_keep:
  "httpPublish A now ns body s = (r, s') \<Longrightarrow> loses_nothing s s'"
  "httpPublishCompound A now ns comb body s = (r, s') \<Longrightarrow> loses_nothing s s'"
  "httpImport A stmts s = (r, s') \<Longrightarrow> loses_nothing s s'"
  "httpPutData A objs s = (r, s') \<Longrightarrow> loses_nothing s s'"
proof -
  show "httpPublish A now ns body s = (r, s') \<Longrightarrow> loses_nothing s s'"
    by (auto simp: httpPublish_def split: if_splits dest: publishDecoded_keeps)
  show "httpPublishCompound A now ns comb body s = (r, s') \<Longrightarrow> loses_nothing s s'"
    by (auto simp: httpPublishCompound_def split: if_splits outcome.splits dest: publishDecoded_keeps)
  show "httpImport A stmts s = (r, s') \<Longrightarrow> loses_nothing s s'"
    by (auto simp: httpImport_def loses_nothing_def split: prod.splits dest!: importLoop_imported [OF _ cache_ok_empty, THEN conjunct1] imported_dom)
  show "httpPutData A objs s = (r, s') \<Longrightarrow> loses_nothing s s'"
    by (auto simp: httpPutData_def loses_nothing_def split: outcome.splits prod.splits dest!: putEach_keeps)
qed

text \<open>The merge's invariants on the databases as they are now.\<close>

definition merging_ok :: "('k, 'p, 'a, 'h) api_env \<Rightarrow> stream_item list \<Rightarrow> ('p, 'a, 'h) node \<Rightarrow> 'k task \<Rightarrow> bool" where
  "merging_ok A items s task \<longleftrightarrow> (\<forall>honest items' t. task = Merging honest items' t \<longrightarrow>
     honest \<and> items' = items \<and> task_ok (ae_m A) (Merging True items t) \<and> inv_done (ae_m A) items (t\<lparr>m_db := nd_db s, m_ds := nd_ds s\<rparr>))"

lemma merging_ok_simps [simp]:
  "merging_ok A items s (Importing cache vals)" "merging_ok A items s (Putting batch)" "merging_ok A items s Ended"
  by (simp_all add: merging_ok_def)

lemma key_pending_other [simp]: "key_pending (t\<lparr>m_db := db, m_ds := ds\<rparr>) = key_pending t"
  by (simp add: key_pending_def cong: if_cong)

lemma inv_done_other:
  assumes "inv_done E items (t\<lparr>m_db := db, m_ds := ds\<rparr>)"
    and "dom (stored db) \<subseteq> dom (stored db')" "dom (objects ds) \<subseteq> dom (objects ds')"
  shows "inv_done E items (t\<lparr>m_db := db', m_ds := ds'\<rparr>)"
proof (cases "is_crash (m_pc t) \<or> fails t")
  case False
  with assms(1) obtain seen where "items = seen @ m_in t" "list_all (accounted E (t\<lparr>m_db := db, m_ds := ds\<rparr>)) seen"
    "m_pc t \<noteq> PLoop \<longrightarrow> m_in t = []" "past_close (m_pc t) \<longrightarrow> m_stmts t = []" by (auto simp: inv_done_def fails_def)
  moreover from accounted_all_mono [OF this(2), of "t\<lparr>m_db := db', m_ds := ds'\<rparr>"] assms(2,3)
  have "list_all (accounted E (t\<lparr>m_db := db', m_ds := ds'\<rparr>)) seen" by simp
  ultimately show ?thesis by (auto simp: inv_done_def)
qed (auto simp: inv_done_def fails_def)

lemma merging_ok_other:
  assumes "merging_ok A items s task" "loses_nothing s s'"
  shows "merging_ok A items s' task"
  unfolding merging_ok_def
proof (intro allI impI)
  fix honest items' t assume "task = Merging honest items' t"
  with assms(1) have "honest" "items' = items" "task_ok (ae_m A) (Merging True items t)" "inv_done (ae_m A) items (t\<lparr>m_db := nd_db s, m_ds := nd_ds s\<rparr>)"
    by (simp_all add: merging_ok_def)
  with inv_done_other [OF this(4)] assms(2)
  show "honest \<and> items' = items \<and> task_ok (ae_m A) (Merging True items t) \<and> inv_done (ae_m A) items (t\<lparr>m_db := nd_db s', m_ds := nd_ds s'\<rparr>)"
    by (simp add: loses_nothing_def)
qed

lemma merging_ok_moves:
  assumes "merging_ok A items s (Merging honest items' t)" "merge_step (ae_m A) honest (t\<lparr>m_db := nd_db s, m_ds := nd_ds s\<rparr>) t'"
    and "map_order (me_kord (ae_m A))"
  shows "merging_ok A items (s\<lparr>nd_db := m_db t', nd_ds := m_ds t'\<rparr>) (Merging honest items' t')"
proof -
  from assms(1) have m: "honest" "items' = items" "task_ok (ae_m A) (Merging True items t)"
    "inv_done (ae_m A) items (t\<lparr>m_db := nd_db s, m_ds := nd_ds s\<rparr>)" by (simp_all add: merging_ok_def)
  from m(3) have i: "inv_pool (ae_m A) (t\<lparr>m_db := nd_db s, m_ds := nd_ds s\<rparr>)" "inv_ds (ae_m A) (nd_ds s) (t\<lparr>m_db := nd_db s, m_ds := nd_ds s\<rparr>)"
    by (simp_all add: task_ok_def inv_pool_def inv_ds_def fails_def)
  from merge_step_done [OF _ m(4) i assms(3), of t'] assms(2) m(1) have "inv_done (ae_m A) items t'" by simp
  with m(1,2) task_ok_moves(1) [OF m(3)] assms(2) show ?thesis by (simp add: merging_ok_def)
qed

text \<open>Every step keeps the task at a place in order.\<close>

lemma daemon_step_merging:
  assumes "daemon_step A (s, ts) (s', ts')" "loses_nothing s s'" "j < length ts" "merging_ok A items s (ts ! j)" "map_order (me_kord (ae_m A))"
  shows "j < length ts' \<and> merging_ok A items s' (ts' ! j)"
proof -
  note other = merging_ok_other [OF assms(4,2)]
  from assms(1) show ?thesis
  proof (cases rule: daemon_step.cases)
    case (merge_moves i honest items' t t')
    with assms(3) other merging_ok_moves [of A items s honest items' t t'] assms(4,5) show ?thesis
      by (cases "i = j") simp_all
  next
    case (import_moves i cache vals sts r db)
    with assms(3) other show ?thesis by (cases "i = j") (simp_all split: outcome.split)
  next
    case (put_moves i data batch r ds)
    with assms(3) other show ?thesis by (cases "i = j") (simp_all split: outcome.split)
  qed (use assms(3) other in \<open>simp_all add: nth_append\<close>)
qed

lemma daemon_run_merging:
  assumes "daemon_run A (s0, ts0 @ [Merging True items (merge_init (ae_m A) items (nd_db s0) (nd_ds s0))]) S" "map_order (me_kord (ae_m A))"
  shows "length ts0 < length (snd S) \<and> merging_ok A items (fst S) (snd S ! length ts0)"
  using assms(1)
proof (induction rule: daemon_run.induct)
  case start
  have "merge_init (ae_m A) items (nd_db s0) (nd_ds s0)\<lparr>m_db := nd_db s0, m_ds := nd_ds s0\<rparr> = merge_init (ae_m A) items (nd_db s0) (nd_ds s0)"
    by (simp add: merge_init_def)
  then show ?case using merge_init_inv(4) [of "ae_m A" items "nd_db s0" "nd_ds s0"] by (simp add: merging_ok_def task_ok_starts)
next
  case (step S' S'')
  from daemon_step_merging [of A "fst S'" "snd S'" "fst S''" "snd S''" "length ts0" items] step assms(2) show ?case by simp
qed

text \<open>C3: The node stays consistent: in every state that requests of the API, pushes of peers, requests for objects and restarts
  can bring about, overlapping in any way and whatever fails, the three tables of the statement database agree, every object in the
  datastore is under the digest of its content, and the network parts are what the status says: a host, a DHT and a
  ping service exactly when the node is not offline, and goroutines only while it is public.\<close>

theorem node_consistent:
  assumes "daemon_reach A pid (s, ts)"
  shows "tables_ok (db_tables (nd_db s)) \<and>
    (\<forall>i d. objects (nd_ds s) i = Some d \<longrightarrow> i = me_digest (ae_m A) d) \<and>
    (ns_host (nd_net s) \<noteq> None \<longleftrightarrow> ns_status (nd_net s) \<noteq> StatusOffline) \<and>
    (ns_dht (nd_net s) \<longleftrightarrow> ns_status (nd_net s) \<noteq> StatusOffline) \<and> (ns_ping (nd_net s) \<longleftrightarrow> ns_status (nd_net s) \<noteq> StatusOffline) \<and>
    (ns_status (nd_net s) \<noteq> StatusPublic \<longrightarrow> live_tasks (nd_net s) = [])"
  using daemon_reach_inv [OF assms] by (simp add: net_ok_def rocks.addressed_def)

text \<open>Only authentic statements are ever stored: in every such state, every entry of the statement database is the encoding,
  under its own id, of a statement that is complete and whose signature verifies under the key of its publisher,
  whether it was published here, imported, merged from a peer or pushed by one. Hypotheses: the node has a publisher
  id, and what its private key signs verifies under the key of that id.\<close>

theorem stored_authentic:
  assumes "daemon_reach A pid (s, ts)" "pid \<noteq> []" "stored (nd_db s) i = Some b"
    and "\<And>b sig. cr_sign (me_crypto (ae_m A)) b = Ok sig \<Longrightarrow>
      \<exists>k. PublisherKey (me_crypto (ae_m A)) pid = Ok k \<and> cr_verify (me_crypto (ae_m A)) k b (Some sig) = Ok True"
  shows "\<exists>st. cr_marshal (me_crypto (ae_m A)) st = Some b \<and> Id st = i \<and> authentic (me_crypto (ae_m A)) st"
proof -
  from daemon_reach_inv [OF assms(1)] assms(3) obtain st where st: "acceptable A pid st" "Id st = i" "cr_marshal (me_crypto (ae_m A)) st = Some b"
    by (auto simp: all_stored_def)
  have "authentic (me_crypto (ae_m A)) st"
    using st(1) made_authentic [OF _ assms(2) nsrx_nonempty _ assms(4), of _ "{t. 0 < t}" _ st] unfolding acceptable_def by blast
  with st show ?thesis by blast
qed

text \<open>A node that has published a statement.\<close>

definition published_node :: "(nat, string, string) node" where
  "published_node = snd (httpPublish sample_api (\<lambda>x. 7) ''ns'' sample_posted sample_node)"

lemma published_node_reach: "daemon_reach sample_api ''me'' (published_node, [])"
proof (rule daemon_reach.step)
  show "daemon_reach sample_api ''me'' (sample_node, [])" unfolding sample_node_def by (rule daemon_reach.start) simp
  have "httpPublish sample_api (\<lambda>x. 7) ''ns'' sample_posted sample_node = (fst (httpPublish sample_api (\<lambda>x. 7) ''ns'' sample_posted sample_node), published_node)"
    by (simp add: published_node_def)
  then have "node_step sample_api sample_node published_node" by (rule node_step.publish) simp
  then show "daemon_step sample_api (sample_node, []) (published_node, [])" by (rule daemon_step.request)
qed

theorem node_consistent_witness:
  "tables_ok (db_tables (nd_db published_node)) \<and> t_stmt (db_tables (nd_db published_node)) = [(''me:7:0'', ''s'')]"
proof -
  have "t_stmt (db_tables (nd_db published_node)) = [(''me:7:0'', ''s'')]" unfolding published_node_def by code_simp
  with node_consistent [OF published_node_reach] show ?thesis by blast
qed

theorem stored_authentic_witness:
  "\<exists>st. cr_marshal publish_crypto st = Some ''s'' \<and> Id st = ''me:7:0'' \<and> authentic publish_crypto st"
proof -
  have cr: "me_crypto (ae_m sample_api) = publish_crypto" by (simp add: sample_api_def)
  have "stored (nd_db published_node) ''me:7:0'' = Some ''s''" unfolding published_node_def by code_simp
  moreover have "\<exists>k. PublisherKey publish_crypto ''me'' = Ok k \<and> cr_verify publish_crypto k b (Some sig) = Ok True"
    if "cr_sign publish_crypto b = Ok sig" for b sig
    using that by (simp add: publish_crypto_def sample_crypto_def PublisherKey_def)
  ultimately show ?thesis using stored_authentic [OF published_node_reach, of "''me:7:0''" "''s''"] unfolding cr by simp
qed

text \<open>C8: A merge is complete although other requests overlap with it: from the moment it starts, let publishes, imports, puts, merges,
  pushes and any other requests that delete nothing take place between its steps; when it has ended without an error, and its
  peer only sent objects it was asked for, then every value of its stream is a complete and signed statement that is in
  the database now, and every object that it refers to is in the datastore now.\<close>

theorem overlapped_merge_complete:
  assumes "daemon_run A (s0, ts0 @ [Merging True items (merge_init (ae_m A) items (nd_db s0) (nd_ds s0))]) (s, ts)"
    and "ts ! length ts0 = Merging honest items' t" "m_pc t = PDone" "m_err t = None"
    and "0 < me_cpus (ae_m A)" "map_order (me_kord (ae_m A))" "v \<in> set items"
  shows "\<exists>st. v = SVal (RStmt st) \<and> authentic (me_crypto (ae_m A)) st \<and> Id st \<in> dom (stored (nd_db s)) \<and>
    (\<forall>k \<in> object_keys st. \<exists>h. me_b58 (ae_m A) k = Ok h \<and> drop 2 h \<in> dom (objects (nd_ds s)))"
proof -
  let ?t = "t\<lparr>m_db := nd_db s, m_ds := nd_ds s\<rparr>"
  from daemon_run_merging [OF assms(1,6)] assms(2) have m: "task_ok (ae_m A) (Merging True items t)" "inv_done (ae_m A) items ?t"
    by (simp_all add: merging_ok_def)
  from m(1) have "inv_pool (ae_m A) ?t" by (simp add: task_ok_def inv_pool_def fails_def)
  from merge_done_accounted [OF this m(2) _ _ assms(5)] assms(3,4) have
    "list_all (accounted (ae_m A) ?t) items" "m_stmts ?t = []" "key_pending ?t = {}" by simp_all
  with assms(7) show ?thesis by (auto simp: list_all_iff accounted_def key_fetched_def)
qed

text \<open>The run of a merge by itself is one of the daemon.\<close>

lemma merge_reach_daemon:
  assumes "merge_reach (ae_m A) honest items (nd_db s) (nd_ds s) t"
  shows "daemon_run A (s, [Merging honest items (merge_init (ae_m A) items (nd_db s) (nd_ds s))])
    (s\<lparr>nd_db := m_db t, nd_ds := m_ds t\<rparr>, [Merging honest items t])"
  using assms
proof (induction rule: merge_reach.induct)
  case start
  have "s\<lparr>nd_db := m_db (merge_init (ae_m A) items (nd_db s) (nd_ds s)), nd_ds := m_ds (merge_init (ae_m A) items (nd_db s) (nd_ds s))\<rparr> = s"
    by (simp add: merge_init_def)
  then show ?case by (simp add: daemon_run.start)
next
  case (step t t')
  let ?s = "s\<lparr>nd_db := m_db t, nd_ds := m_ds t\<rparr>"
  have ms: "merge_step (ae_m A) honest (t\<lparr>m_db := nd_db ?s, m_ds := nd_ds ?s\<rparr>) t'" using step(2) by simp
  from daemon_step.merge_moves [of 0 "[Merging honest items t]", OF _ _ ms] have
    d: "daemon_step A (?s, [Merging honest items t]) (s\<lparr>nd_db := m_db t', nd_ds := m_ds t'\<rparr>, [Merging honest items t'])" by simp
  from merge_reach_inv [OF step(1)] have "task_ok (ae_m A) (Merging honest items t)"
    by (auto simp: task_ok_def pending_ok_def inv_db_def db_core_def inv_ds_def)
  note grow = task_ok_moves [OF this ms]
  have "dom (stored (m_db t)) \<subseteq> dom (stored (m_db t'))" "dom (objects (m_ds t)) \<subseteq> dom (objects (m_ds t'))"
    using grow(2,3) by (simp_all add: adds_def ds_grows_def map_le_implies_dom_le)
  then have "loses_nothing ?s (s\<lparr>nd_db := m_db t', nd_ds := m_ds t'\<rparr>)" by (simp add: loses_nothing_def)
  from daemon_run.step [OF step.IH d] this show ?case by simp
qed

theorem overlapped_merge_complete_witness:
  "\<exists>s ts. daemon_run (sample_api\<lparr>ae_m := sample_env\<rparr>) (sample_node, [Merging True [SVal (RStmt sample_signed)]
       (merge_init sample_env [SVal (RStmt sample_signed)] empty_db empty_ds)]) (s, ts) \<and>
     ''Qa'' \<in> dom (stored (nd_db s)) \<and> ''o'' \<in> dom (objects (nd_ds s))"
proof -
  let ?A = "sample_api\<lparr>ae_m := sample_env\<rparr>" and ?items = "[SVal (RStmt sample_signed)]"
  obtain t where t: "merge_reach sample_env True ?items empty_db empty_ds t" "m_pc t = PDone" "m_err t = None"
    using sample_run by blast
  have n: "nd_db sample_node = empty_db" "nd_ds sample_node = empty_ds" by (simp_all add: sample_node_def fresh_node_def)
  have e: "0 < me_cpus sample_env" "map_order (me_kord sample_env)" by (simp_all add: sample_env_def map_order_rev)
  let ?s = "sample_node\<lparr>nd_db := m_db t, nd_ds := m_ds t\<rparr>"
  have run: "daemon_run ?A (sample_node, [] @ [Merging True ?items (merge_init (ae_m ?A) ?items (nd_db sample_node) (nd_ds sample_node))])
      (?s, [Merging True ?items t])"
    using merge_reach_daemon [of ?A True ?items sample_node t] t(1) n by simp
  from overlapped_merge_complete [OF run, of True ?items t "SVal (RStmt sample_signed)"] t(2,3) e
  have "''Qa'' \<in> dom (stored (nd_db ?s)) \<and> ''o'' \<in> dom (objects (nd_ds ?s))"
    by (auto simp: sample_env_def Hash_def sample_signed_def sample_body_def object_keys_def)
  with run n show ?thesis by auto
qed

end
