(* ===== verification/Sql.thy ===== *)
theory Sql
  imports CompileCorrect DBCorrect "HOL-Library.Multiset"
begin

text \<open>
  The SELECT statements the query compiler emits, as SQL documents them: a parser from tokens with the
  precedence of the operators, what a statement returns over the tables, and the promise the SQLite
  engine makes (\<open>sql_engine\<close>), which is a hypothesis of the theorems on queries. Nothing here models
  code of the repository. \<open>reference_engine\<close> is an engine that keeps the promise.
\<close>

section \<open>Values\<close>

datatype sql_val = VNull | VInteger int | VText string | VBlob string

text \<open>
  The order of values: NULL, integers, texts by their bytes, blobs by their bytes.
\<close>

fun bytes_less :: "string \<Rightarrow> string \<Rightarrow> bool" where
  "bytes_less s [] = False"
| "bytes_less [] (d # t) = True"
| "bytes_less (c # s) (d # t) = ((of_char c :: nat) < of_char d \<or> c = d \<and> bytes_less s t)"

fun val_less :: "sql_val \<Rightarrow> sql_val \<Rightarrow> bool" where
  "val_less v VNull = False"
| "val_less VNull v = True"
| "val_less (VInteger i) (VInteger j) = (i < j)"
| "val_less (VInteger i) v = True"
| "val_less (VText s) (VInteger j) = False"
| "val_less (VText s) (VText t) = bytes_less s t"
| "val_less (VText s) (VBlob t) = True"
| "val_less (VBlob s) (VBlob t) = bytes_less s t"
| "val_less (VBlob s) v = False"

lemma bytes_less_irrefl: "\<not> bytes_less s s"
  by (induction s) auto

lemma bytes_less_trans: "bytes_less s t \<Longrightarrow> bytes_less t u \<Longrightarrow> bytes_less s u"
  by (induction s t arbitrary: u rule: bytes_less.induct) (case_tac u; auto)+

lemma bytes_less_total: "bytes_less s t \<or> s = t \<or> bytes_less t s"
proof (induction s t rule: bytes_less.induct)
  case (1 s)
  show ?case by (cases s) auto
next
  case (3 c s d t)
  have "(of_char c :: nat) = of_char d \<Longrightarrow> c = d" by (simp add: of_char_eq_iff)
  with 3 show ?case by fastforce
qed simp

lemma val_less_irrefl: "\<not> val_less v v"
  by (cases v) (auto simp: bytes_less_irrefl)

lemma val_less_trans: "val_less u v \<Longrightarrow> val_less v w \<Longrightarrow> val_less u w"
  by (cases u; cases v; cases w) (auto intro: bytes_less_trans)

lemma val_less_total: "val_less v w \<or> v = w \<or> val_less w v"
  using bytes_less_total by (cases v; cases w) auto

text \<open>Lists of sort keys, each with whether it is descending.\<close>

fun keys_le :: "bool list \<Rightarrow> sql_val list \<Rightarrow> sql_val list \<Rightarrow> bool" where
  "keys_le (d # ds) (a # as) (b # bs) = ((if d then val_less b a else val_less a b) \<or> a = b \<and> keys_le ds as bs)"
| "keys_le _ _ _ = True"

lemma keys_le_total: "keys_le ds as bs \<or> keys_le ds bs as"
  by (induction ds as bs rule: keys_le.induct) (use val_less_total in auto)

lemma keys_le_trans:
  "keys_le ds as bs \<Longrightarrow> keys_le ds bs cs \<Longrightarrow> length as = length ds \<Longrightarrow> length bs = length ds \<Longrightarrow> length cs = length ds \<Longrightarrow>
   keys_le ds as cs"
proof (induction ds as bs arbitrary: cs rule: keys_le.induct)
  case (1 d ds a as b bs)
  then obtain c cs' where "cs = c # cs'" by (cases cs) auto
  with 1 show ?case using val_less_trans by (auto split: if_splits)
qed auto

section \<open>Statements\<close>

datatype sql_operand = OCol "string option" string | OText string | ONum int

text \<open>A pattern of LIKE is here a prefix before a final percent sign.\<close>

datatype sql_cond =
    CCmp string sql_operand sql_operand
  | CLike sql_operand string
  | CNot sql_cond
  | CAnd sql_cond sql_cond
  | COr sql_cond sql_cond

text \<open>The columns of the result, or one aggregate; the flags are DISTINCT.\<close>

datatype sql_items = Columns bool "sql_operand list" | Aggregate string bool sql_operand

record sql_select =
  sel_items :: sql_items
  sel_from :: string
  sel_joins :: "(string \<times> sql_operand \<times> sql_operand) list"
  sel_where :: "sql_cond option"
  sel_order :: "(sql_operand \<times> bool) list"
  sel_limit :: "int option"

section \<open>Parsing\<close>

definition read_number :: "string \<Rightarrow> int option" where
  "read_number w = (case digits_val 0 w of Some n \<Rightarrow> if n \<le> int64_max then Some n else None | None \<Rightarrow> None)"

fun read_operand :: "sql_token \<Rightarrow> sql_operand option" where
  "read_operand (TLit s) = Some (OText s)"
| "read_operand (TWord w) =
     (if w \<in> set sql_keywords then None
      else if list_all is_digit w then map_option ONum (read_number w)
      else (case Split w (CHR ''.'') of
              [c] \<Rightarrow> Some (OCol None c)
            | [t, c] \<Rightarrow> Some (OCol (Some t) c)
            | _ \<Rightarrow> None))"
| "read_operand _ = None"

definition read_like :: "string \<Rightarrow> string option" where
  "read_like p =
     (if p \<noteq> [] \<and> last p = CHR ''%'' \<and> CHR ''%'' \<notin> set (butlast p) \<and> CHR ''_'' \<notin> set p then Some (butlast p) else None)"

definition sql_comparisons :: "string list" where
  "sql_comparisons = [''<='', ''<'', ''='', ''!='', ''>='', ''>'']"

fun read_prim :: "sql_token list \<Rightarrow> (sql_cond \<times> sql_token list) option" where
  "read_prim (a # TOp op # b # ts) =
     (if op \<in> set sql_comparisons
      then Option.bind (read_operand a) (\<lambda>x. Option.bind (read_operand b) (\<lambda>y. Some (CCmp op x y, ts)))
      else None)"
| "read_prim (a # TWord w # TLit p # ts) =
     (if w = ''LIKE''
      then Option.bind (read_operand a) (\<lambda>x. Option.bind (read_like p) (\<lambda>pre. Some (CLike x pre, ts)))
      else None)"
| "read_prim _ = None"

text \<open>
  OR binds weaker than AND, AND weaker than NOT, NOT weaker than a comparison. The tests of lengths
  only serve the termination: a parser leaves fewer tokens than it is given.
\<close>

function read_or :: "sql_token list \<Rightarrow> (sql_cond \<times> sql_token list) option"
  and read_and :: "sql_token list \<Rightarrow> (sql_cond \<times> sql_token list) option"
  and read_not :: "sql_token list \<Rightarrow> (sql_cond \<times> sql_token list) option" where
  "read_or ts =
     (case read_and ts of
        Some (a, TWord w # r) \<Rightarrow>
          if w = ''OR'' \<and> length r < length ts
          then map_option (apfst (COr a)) (read_or r) else Some (a, TWord w # r)
      | m \<Rightarrow> m)"
| "read_and ts =
     (case read_not ts of
        Some (a, TWord w # r) \<Rightarrow>
          if w = ''AND'' \<and> length r < length ts
          then map_option (apfst (CAnd a)) (read_and r) else Some (a, TWord w # r)
      | m \<Rightarrow> m)"
| "read_not ts =
     (case ts of
        TSym s # r \<Rightarrow>
          if s = CHR ''(''
          then (case read_or r of
                  Some (c, TSym e # r') \<Rightarrow> if e = CHR '')'' then Some (c, r') else None
                | _ \<Rightarrow> None)
          else None
      | TWord w # r \<Rightarrow> if w = ''NOT'' then map_option (apfst CNot) (read_not r) else read_prim ts
      | _ \<Rightarrow> read_prim ts)"
  by pat_completeness auto
termination
  by (relation "measure (\<lambda>x. case x of Inl ts \<Rightarrow> 3 * length ts + 2 | Inr (Inl ts) \<Rightarrow> 3 * length ts + 1 | Inr (Inr ts) \<Rightarrow> 3 * length ts)")
     auto

declare read_or.simps [simp del] read_and.simps [simp del] read_not.simps [simp del]

fun read_operands :: "sql_token list \<Rightarrow> (sql_operand list \<times> sql_token list) option" where
  "read_operands [] = None"
| "read_operands (t # TSym s # ts) =
     Option.bind (read_operand t) (\<lambda>x.
       if s = CHR '','' then map_option (apfst (Cons x)) (read_operands ts) else Some ([x], TSym s # ts))"
| "read_operands (t # ts) = map_option (\<lambda>x. ([x], ts)) (read_operand t)"

fun read_call :: "string \<Rightarrow> sql_token list \<Rightarrow> (sql_items \<times> sql_token list) option" where
  "read_call f (TWord w # t # TSym e # ts) =
     (if w = ''DISTINCT'' \<and> e = CHR '')'' then map_option (\<lambda>x. (Aggregate f True x, ts)) (read_operand t) else None)"
| "read_call f (t # TSym e # ts) =
     (if e = CHR '')'' then map_option (\<lambda>x. (Aggregate f False x, ts)) (read_operand t) else None)"
| "read_call f _ = None"

definition read_columns :: "bool \<Rightarrow> sql_token list \<Rightarrow> (sql_items \<times> sql_token list) option" where
  "read_columns d ts = map_option (apfst (Columns d)) (read_operands ts)"

fun read_items :: "sql_token list \<Rightarrow> (sql_items \<times> sql_token list) option" where
  "read_items (TWord w # TSym s # ts) =
     (if w \<in> {''COUNT'', ''MIN'', ''MAX''} \<and> s = CHR ''('' then read_call w ts else read_columns False (TWord w # TSym s # ts))"
| "read_items (TWord w # ts) =
     (if w = ''DISTINCT'' then read_columns True ts else read_columns False (TWord w # ts))"
| "read_items ts = read_columns False ts"

fun read_joins :: "sql_token list \<Rightarrow> ((string \<times> sql_operand \<times> sql_operand) list \<times> sql_token list) option" where
  "read_joins (TWord j # TWord tab # TWord n # a # TOp e # b # ts) =
     (if j = ''JOIN'' \<and> n = ''ON'' \<and> e = ''=''
      then Option.bind (read_operand a) (\<lambda>x. Option.bind (read_operand b) (\<lambda>y.
        map_option (apfst (Cons (tab, x, y))) (read_joins ts)))
      else Some ([], TWord j # TWord tab # TWord n # a # TOp e # b # ts))"
| "read_joins ts = Some ([], ts)"

fun read_where :: "sql_token list \<Rightarrow> (sql_cond option \<times> sql_token list) option" where
  "read_where (TWord w # ts) =
     (if w = ''WHERE'' then map_option (apfst Some) (read_or ts) else Some (None, TWord w # ts))"
| "read_where ts = Some (None, ts)"

fun read_dir :: "sql_token list \<Rightarrow> bool \<times> sql_token list" where
  "read_dir (TWord w # ts) =
     (if w = ''ASC'' then (False, ts) else if w = ''DESC'' then (True, ts) else (False, TWord w # ts))"
| "read_dir ts = (False, ts)"

lemma read_dir_length: "length (snd (read_dir ts)) \<le> length ts"
  by (induction ts rule: read_dir.induct) auto

function read_keys :: "sql_token list \<Rightarrow> ((sql_operand \<times> bool) list \<times> sql_token list) option" where
  "read_keys [] = None"
| "read_keys (t # ts) =
     Option.bind (read_operand t) (\<lambda>x.
       (case snd (read_dir ts) of
          TSym s # r \<Rightarrow>
            if s = CHR '','' then map_option (apfst (Cons (x, fst (read_dir ts)))) (read_keys r)
            else Some ([(x, fst (read_dir ts))], TSym s # r)
        | r \<Rightarrow> Some ([(x, fst (read_dir ts))], r)))"
  by pat_completeness auto
termination
proof (relation "measure length")
  fix t ts x y r s
  assume "snd (read_dir ts) = y # r" "y = TSym s"
  with read_dir_length [of ts] show "(r, t # ts) \<in> measure length" by simp
qed simp

fun read_order :: "sql_token list \<Rightarrow> ((sql_operand \<times> bool) list \<times> sql_token list) option" where
  "read_order (TWord n # TWord b # ts) =
     (if n = ''ORDER'' \<and> b = ''BY'' then read_keys ts else Some ([], TWord n # TWord b # ts))"
| "read_order ts = Some ([], ts)"

text \<open>Nothing may follow the limit.\<close>

fun read_limit :: "sql_token list \<Rightarrow> int option option" where
  "read_limit [] = Some None"
| "read_limit [TWord l, TWord n] = (if l = ''LIMIT'' \<and> list_all is_digit n then map_option Some (read_number n) else None)"
| "read_limit _ = None"

fun read_from :: "sql_token list \<Rightarrow> (string \<times> sql_token list) option" where
  "read_from (TWord f # TWord tab # ts) = (if f = ''FROM'' then Some (tab, ts) else None)"
| "read_from _ = None"

fun sql_parse :: "sql_token list \<Rightarrow> sql_select option" where
  "sql_parse (TWord s # ts) =
     (if s \<noteq> ''SELECT'' then None
      else
        Option.bind (read_items ts) (\<lambda>(items, ts1).
        Option.bind (read_from ts1) (\<lambda>(tab, ts2).
        Option.bind (read_joins ts2) (\<lambda>(joins, ts3).
        Option.bind (read_where ts3) (\<lambda>(cond, ts4).
        Option.bind (read_order ts4) (\<lambda>(keys, ts5).
        Option.bind (read_limit ts5) (\<lambda>lim.
        Some \<lparr>sel_items = items, sel_from = tab, sel_joins = joins, sel_where = cond, sel_order = keys, sel_limit = lim\<rparr>)))))))"
| "sql_parse _ = None"

section \<open>Names\<close>

text \<open>
  The columns in scope, table by table. A name must be a column of exactly one of the tables, which are
  those of \<open>createTables\<close>; the condition of a join sees the tables up to its own.
\<close>

type_synonym scope = "(string \<times> string) list"

definition table_scope :: "string \<Rightarrow> scope" where
  "table_scope tab = map (Pair tab) (case createTables tab of Some cols \<Rightarrow> cols | None \<Rightarrow> [])"

definition names :: "string option \<Rightarrow> string \<Rightarrow> string \<times> string \<Rightarrow> bool" where
  "names q c = (\<lambda>(tab, col). col = c \<and> (case q of None \<Rightarrow> True | Some t \<Rightarrow> t = tab))"

fun in_scope :: "scope \<Rightarrow> sql_operand \<Rightarrow> bool" where
  "in_scope sc (OCol q c) \<longleftrightarrow> length (filter (names q c) sc) = 1"
| "in_scope sc _ \<longleftrightarrow> True"

fun joins_named :: "scope \<Rightarrow> (string \<times> sql_operand \<times> sql_operand) list \<Rightarrow> scope option" where
  "joins_named sc [] = Some sc"
| "joins_named sc ((tab, a, b) # js) =
     (let sc' = sc @ table_scope tab in
      if createTables tab \<noteq> None \<and> in_scope sc' a \<and> in_scope sc' b then joins_named sc' js else None)"

fun cond_operands :: "sql_cond \<Rightarrow> sql_operand list" where
  "cond_operands (CCmp op a b) = [a, b]"
| "cond_operands (CLike a p) = [a]"
| "cond_operands (CNot c) = cond_operands c"
| "cond_operands (CAnd c d) = cond_operands c @ cond_operands d"
| "cond_operands (COr c d) = cond_operands c @ cond_operands d"

fun item_operands :: "sql_items \<Rightarrow> sql_operand list" where
  "item_operands (Columns d as) = as"
| "item_operands (Aggregate f d a) = [a]"

definition sql_names :: "sql_select \<Rightarrow> bool" where
  "sql_names s \<longleftrightarrow>
     createTables (sel_from s) \<noteq> None \<and>
     (case joins_named (table_scope (sel_from s)) (sel_joins s) of
        None \<Rightarrow> False
      | Some sc \<Rightarrow>
          list_all (in_scope sc)
            (item_operands (sel_items s) @ (case sel_where s of None \<Rightarrow> [] | Some c \<Rightarrow> cond_operands c) @ map fst (sel_order s)))"

section \<open>Rows\<close>

text \<open>A row names its values. The columns of the three tables are never NULL.\<close>

type_synonym sql_row = "((string \<times> string) \<times> sql_val) list"

definition named :: "string \<Rightarrow> sql_val list \<Rightarrow> sql_row" where
  "named tab vs = zip (table_scope tab) vs"

definition table_rows :: "tables \<Rightarrow> string \<Rightarrow> sql_row list" where
  "table_rows t tab =
     (if tab = ''Statement'' then map (\<lambda>(i, d). named tab [VText i, VBlob d]) (t_stmt t)
      else if tab = ''Envelope'' then
        map (\<lambda>r. named tab [VInteger (e_counter r), VText (e_id r), VText (e_namespace r), VText (e_publisher r),
                            VText (e_source r), VInteger (e_timestamp r)]) (t_env t)
      else map (\<lambda>(i, w). named tab [VText i, VText w]) (t_refs t))"

fun operand_val :: "sql_row \<Rightarrow> sql_operand \<Rightarrow> sql_val" where
  "operand_val row (OCol q c) = (case filter (\<lambda>(n, v). names q c n) row of (n, v) # _ \<Rightarrow> v | [] \<Rightarrow> VNull)"
| "operand_val row (OText s) = VText s"
| "operand_val row (ONum n) = VInteger n"

text \<open>
  The comparisons the model speaks of: integers, and texts for equality; and LIKE with a prefix, which
  does not tell the letters of ASCII apart by their case.
\<close>

fun compare_val :: "string \<Rightarrow> sql_val \<Rightarrow> sql_val \<Rightarrow> bool option" where
  "compare_val op (VInteger i) (VInteger j) = Some (range_op op i j)"
| "compare_val op (VText s) (VText t) = (if op \<in> {''='', ''!=''} then Some (value_op op s t) else None)"
| "compare_val op _ _ = None"

definition ascii_lower :: "char \<Rightarrow> nat" where
  "ascii_lower c = (let n = of_char c in if 65 \<le> n \<and> n \<le> 90 then n + 32 else n)"

definition like_prefix :: "string \<Rightarrow> string \<Rightarrow> bool" where
  "like_prefix pre s \<longleftrightarrow> length pre \<le> length s \<and> map ascii_lower (take (length pre) s) = map ascii_lower pre"

fun like_val :: "sql_val \<Rightarrow> string \<Rightarrow> bool option" where
  "like_val (VText s) pre = Some (like_prefix pre s)"
| "like_val _ pre = None"

fun cond_val :: "sql_row \<Rightarrow> sql_cond \<Rightarrow> bool option" where
  "cond_val row (CCmp op a b) = compare_val op (operand_val row a) (operand_val row b)"
| "cond_val row (CLike a pre) = like_val (operand_val row a) pre"
| "cond_val row (CNot c) = map_option Not (cond_val row c)"
| "cond_val row (CAnd c d) = Option.bind (cond_val row c) (\<lambda>x. map_option (\<lambda>y. x \<and> y) (cond_val row d))"
| "cond_val row (COr c d) = Option.bind (cond_val row c) (\<lambda>x. map_option (\<lambda>y. x \<or> y) (cond_val row d))"


text \<open>The rows a condition holds of; \<open>None\<close> when it compares what the model does not speak of.\<close>

definition select_rows :: "('a \<Rightarrow> bool option) \<Rightarrow> 'a list \<Rightarrow> 'a list option" where
  "select_rows f rows =
     (if list_all (\<lambda>r. f r \<noteq> None) rows then Some (filter (\<lambda>r. f r = Some True) rows) else None)"

fun join_rows :: "tables \<Rightarrow> (string \<times> sql_operand \<times> sql_operand) list \<Rightarrow> sql_row list \<Rightarrow> sql_row list option" where
  "join_rows t [] rows = Some rows"
| "join_rows t ((tab, a, b) # js) rows =
     Option.bind (select_rows (\<lambda>r. cond_val r (CCmp ''='' a b)) (concat (map (\<lambda>r. map (\<lambda>r'. r @ r') (table_rows t tab)) rows)))
       (join_rows t js)"

definition sql_source :: "sql_select \<Rightarrow> tables \<Rightarrow> sql_row list option" where
  "sql_source s t =
     Option.bind (join_rows t (sel_joins s) (table_rows t (sel_from s))) (\<lambda>rows.
       (case sel_where s of None \<Rightarrow> Some rows | Some c \<Rightarrow> select_rows (\<lambda>r. cond_val r c) rows))"

section \<open>Results\<close>

definition row_le :: "(sql_operand \<times> bool) list \<Rightarrow> sql_row \<Rightarrow> sql_row \<Rightarrow> bool" where
  "row_le keys r r' = keys_le (map snd keys) (map (operand_val r \<circ> fst) keys) (map (operand_val r' \<circ> fst) keys)"

definition limited :: "int option \<Rightarrow> 'a list \<Rightarrow> 'a list" where
  "limited lim xs = (case lim of None \<Rightarrow> xs | Some n \<Rightarrow> take (nat n) xs)"

text \<open>\<open>MIN\<close> and \<open>MAX\<close> are NULL over no rows.\<close>

definition aggregate :: "string \<Rightarrow> bool \<Rightarrow> sql_val list \<Rightarrow> sql_val" where
  "aggregate f d vs =
     (if f = ''COUNT'' then VInteger (int (length (if d then remdups vs else vs)))
      else (case vs of
              [] \<Rightarrow> VNull
            | v # vs' \<Rightarrow> foldl (\<lambda>m w. if (if f = ''MIN'' then val_less w m else val_less m w) then w else m) v vs'))"

text \<open>
  What a statement may return for the rows of its source: the columns of the rows in an order that
  respects the sort keys, or one aggregate, up to the limit. In which order distinct rows come is
  left open.
\<close>

fun returns :: "sql_items \<Rightarrow> (sql_operand \<times> bool) list \<Rightarrow> int option \<Rightarrow> sql_row list \<Rightarrow> sql_val list list \<Rightarrow> bool" where
  "returns (Columns d as) keys lim src out \<longleftrightarrow>
     (\<exists>ps ds. mset ps = mset src \<and> sorted_wrt (row_le keys) ps \<and>
        (if d then distinct ds \<and> set ds = (\<lambda>r. map (operand_val r) as) ` set ps
         else ds = map (\<lambda>r. map (operand_val r) as) ps) \<and>
        out = limited lim ds)"
| "returns (Aggregate f d a) keys lim src out \<longleftrightarrow>
     (\<exists>ps. mset ps = mset src \<and> out = limited lim [[aggregate f d (map (\<lambda>r. operand_val r a) ps)]])"

section \<open>The engine\<close>

text \<open>
  A row delivers its values into the destinations the caller passes, as \<open>database/sql\<close> converts them.
\<close>

fun to_cell :: "sql_val \<Rightarrow> dest \<Rightarrow> cell option" where
  "to_cell (VText s) DString = Some (CString s)"
| "to_cell (VText s) DRawBytes = Some (CRawBytes s)"
| "to_cell (VBlob s) DRawBytes = Some (CRawBytes s)"
| "to_cell (VInteger i) DInt = Some (CInt i)"
| "to_cell (VInteger i) DInt64 = Some (CInt64 i)"
| "to_cell (VInteger i) DNullInt64 = Some (CNullInt64 (Some i))"
| "to_cell VNull DNullInt64 = Some (CNullInt64 None)"
| "to_cell _ _ = None"

definition cells_of :: "sql_val list \<Rightarrow> dest list \<Rightarrow> cell list option" where
  "cells_of vs dests = (if length vs = length dests then those (map2 to_cell vs dests) else None)"

definition delivers :: "RowScanner \<Rightarrow> sql_val list \<Rightarrow> bool" where
  "delivers row vs \<longleftrightarrow> (\<forall>dests cells. cells_of vs dests = Some cells \<longrightarrow> row dests = Ok cells)"

text \<open>
  The promise of the engine, when it does not fail: a text that is a statement of this subset, all of
  whose names resolve, returns what the statement may return.
\<close>

definition sql_engine :: "engine \<Rightarrow> bool" where
  "sql_engine eng \<longleftrightarrow>
     (\<forall>sq toks s t src. sql_lex sq = Some toks \<longrightarrow> sql_parse toks = Some s \<longrightarrow> sql_names s \<longrightarrow> sql_source s t = Some src \<longrightarrow>
        (\<exists>rows out. eng sq t = Ok (rows, None) \<and> list_all2 delivers rows out \<and>
           returns (sel_items s) (sel_order s) (sel_limit s) src out))"

section \<open>A reference engine\<close>

fun insert_row :: "('a \<Rightarrow> 'a \<Rightarrow> bool) \<Rightarrow> 'a \<Rightarrow> 'a list \<Rightarrow> 'a list" where
  "insert_row le x [] = [x]"
| "insert_row le x (y # ys) = (if le x y then x # y # ys else y # insert_row le x ys)"

definition sort_rows :: "('a \<Rightarrow> 'a \<Rightarrow> bool) \<Rightarrow> 'a list \<Rightarrow> 'a list" where
  "sort_rows le xs = foldr (insert_row le) xs []"

fun result_rows :: "sql_items \<Rightarrow> (sql_operand \<times> bool) list \<Rightarrow> int option \<Rightarrow> sql_row list \<Rightarrow> sql_val list list" where
  "result_rows (Columns d as) keys lim src =
     (let vs = map (\<lambda>r. map (operand_val r) as) (sort_rows (row_le keys) src) in limited lim (if d then remdups vs else vs))"
| "result_rows (Aggregate f d a) keys lim src = limited lim [[aggregate f d (map (\<lambda>r. operand_val r a) src)]]"

definition reference_row :: "sql_val list \<Rightarrow> RowScanner" where
  "reference_row vs dests = of_option (ExtErr ''sql: Scan error'') (cells_of vs dests)"

definition reference_engine :: engine where
  "reference_engine sq t =
     (case Option.bind (sql_lex sq) sql_parse of
        None \<Rightarrow> Err (ExtErr ''sqlite: syntax error'')
      | Some s \<Rightarrow>
          if sql_names s
          then (case sql_source s t of
                  None \<Rightarrow> Err (ExtErr ''sqlite: not modelled'')
                | Some src \<Rightarrow> Ok (map reference_row (result_rows (sel_items s) (sel_order s) (sel_limit s) src), None))
          else Err (ExtErr ''sqlite: no such column''))"

lemma insert_row_mset [simp]: "mset (insert_row le x ys) = add_mset x (mset ys)"
  by (induction ys) auto

lemma sort_rows_mset [simp]: "mset (sort_rows le xs) = mset xs"
  by (induction xs) (auto simp: sort_rows_def)

lemma sort_rows_set [simp]: "set (sort_rows le xs) = set xs"
  by (rule mset_eq_setD) simp

lemma insert_row_sorted:
  assumes "\<And>a b. le a b \<or> le b a" "\<And>a b c. le a b \<Longrightarrow> le b c \<Longrightarrow> le a c"
  shows "sorted_wrt le ys \<Longrightarrow> sorted_wrt le (insert_row le x ys)"
proof (induction ys)
  case (Cons y ys)
  have "set (insert_row le x ys) = insert x (set ys)" by (metis insert_row_mset set_mset_add_mset_insert set_mset_mset)
  with Cons assms(1) [of x y] assms(2) [of x y] show ?case by auto
qed simp

lemma sort_rows_sorted:
  assumes "\<And>a b. le a b \<or> le b a" "\<And>a b c. le a b \<Longrightarrow> le b c \<Longrightarrow> le a c"
  shows "sorted_wrt le (sort_rows le xs)"
proof -
  have step: "sorted_wrt le ys \<Longrightarrow> sorted_wrt le (insert_row le x ys)" for x ys
    by (rule insert_row_sorted) (use assms in blast)+
  show ?thesis unfolding sort_rows_def by (induction xs) (simp_all add: step)
qed

lemma row_le_total: "row_le keys r r' \<or> row_le keys r' r"
  by (simp add: row_le_def keys_le_total)

lemma row_le_trans: "row_le keys a b \<Longrightarrow> row_le keys b c \<Longrightarrow> row_le keys a c"
  unfolding row_le_def by (erule keys_le_trans) simp_all

lemma result_rows_returned: "returns items keys lim src (result_rows items keys lim src)"
proof (cases items)
  case (Columns d as)
  let ?ps = "sort_rows (row_le keys) src"
  let ?vs = "map (\<lambda>r. map (operand_val r) as) ?ps"
  have "sorted_wrt (row_le keys) ?ps" by (rule sort_rows_sorted [OF row_le_total row_le_trans])
  then have "mset ?ps = mset src \<and> sorted_wrt (row_le keys) ?ps \<and>
      (if d then distinct (if d then remdups ?vs else ?vs) \<and>
           set (if d then remdups ?vs else ?vs) = (\<lambda>r. map (operand_val r) as) ` set ?ps
       else (if d then remdups ?vs else ?vs) = ?vs) \<and>
      result_rows items keys lim src = limited lim (if d then remdups ?vs else ?vs)"
    by (simp add: Columns Let_def)
  then show ?thesis unfolding Columns returns.simps by blast
next
  case (Aggregate f d a)
  show ?thesis unfolding Aggregate returns.simps result_rows.simps by blast
qed

lemma reference_row_delivers: "delivers (reference_row vs) vs"
  by (simp add: delivers_def reference_row_def)

lemma reference_engine_ok: "sql_engine reference_engine"
  unfolding sql_engine_def
proof (intro allI impI)
  fix sq toks s t src
  assume "sql_lex sq = Some toks" "sql_parse toks = Some s" "sql_names s" "sql_source s t = Some src"
  then have "reference_engine sq t = Ok (map reference_row (result_rows (sel_items s) (sel_order s) (sel_limit s) src), None)"
    by (simp add: reference_engine_def)
  moreover have "list_all2 delivers (map reference_row vs) vs" for vs
    by (simp add: list_all2_map1 list_all2_same reference_row_delivers)
  ultimately show "\<exists>rows out. reference_engine sq t = Ok (rows, None) \<and> list_all2 delivers rows out \<and>
      returns (sel_items s) (sel_order s) (sel_limit s) src out"
    using result_rows_returned by blast
qed

end
