(* ===== verification/QuerySql.thy ===== *)
theory QuerySql
  imports Sql
begin

text \<open>
  What the compiled queries return from the statement database, for an engine that keeps the promise
  of \<open>Sql\<close>. The tables are those of a list of entries (\<open>represents\<close>), which every operation of the database
  maintains. A query is read as a test and a selection on entries, or, when it mentions \<open>wki\<close>, on the pairs
  of an entry and one of its references (\<open>answers\<close>), and the compiled text is
  shown to mean just that; then what the queries of the evaluator and of DELETE have of it.
\<close>

section \<open>Entries\<close>

record entry =
  en_counter :: int
  en_stmt :: statement
  en_wkis :: "string list"

definition source_of :: "statement \<Rightarrow> string" where
  "source_of st = (case StatementSource st of Ok s \<Rightarrow> s | _ \<Rightarrow> [])"

abbreviation en_id :: "entry \<Rightarrow> string" where
  "en_id e \<equiv> Id (en_stmt e)"

definition entry_env :: "entry \<Rightarrow> env_row" where
  "entry_env e = env_row_of (en_counter e) (source_of (en_stmt e)) (en_stmt e)"

definition entry_tables :: "(statement \<Rightarrow> string option) \<Rightarrow> entry list \<Rightarrow> int \<Rightarrow> tables" where
  "entry_tables marshal es n =
     \<lparr>t_stmt = map (\<lambda>e. (en_id e, the (marshal (en_stmt e)))) es, t_env = map entry_env es,
      t_refs = concat (map (\<lambda>e. map (Pair (en_id e)) (en_wkis e)) es), t_next = n\<rparr>"

lemma entry_tables_sel [simp]:
  "t_stmt (entry_tables marshal es n) = map (\<lambda>e. (en_id e, the (marshal (en_stmt e)))) es"
  "t_env (entry_tables marshal es n) = map entry_env es"
  "t_refs (entry_tables marshal es n) = concat (map (\<lambda>e. map (Pair (en_id e)) (en_wkis e)) es)"
  "t_next (entry_tables marshal es n) = n"
  by (simp_all add: entry_tables_def)

definition entry_ok :: "(statement \<Rightarrow> string option) \<Rightarrow> entry \<Rightarrow> bool" where
  "entry_ok marshal e \<longleftrightarrow>
     marshal (en_stmt e) \<noteq> None \<and> bodies_set (en_stmt e) \<and> distinct (en_wkis e) \<and>
     set (en_wkis e) = set (refs_of (en_stmt e))"

definition represents :: "(statement \<Rightarrow> string option) \<Rightarrow> tables \<Rightarrow> entry list \<Rightarrow> bool" where
  "represents marshal t es \<longleftrightarrow>
     t = entry_tables marshal es (t_next t) \<and> distinct (map en_id es) \<and> list_all (entry_ok marshal) es \<and>
     distinct (map en_counter es) \<and> list_all (\<lambda>e. en_counter e < t_next t) es"

lemma represents_ids:
  assumes "represents marshal t es"
  shows "stmt_ids t = en_id ` set es"
proof -
  from assms have "t_stmt t = t_stmt (entry_tables marshal es (t_next t))" by (metis represents_def)
  then show ?thesis by (simp add: stmt_ids_def image_image)
qed

text \<open>A statement whose references are found has all its bodies.\<close>

lemma mergeStatement_bodies:
  "mergeStatement refs st = Ok rs \<Longrightarrow> bodies_set st"
  "mergeEnvelope refs es = Ok rs \<Longrightarrow> list_all bodies_set es"
proof (induction refs st and refs es arbitrary: rs and rs rule: mergeStatement_mergeEnvelope.induct)
  case (8 refs e es)
  then show ?case by (cases "mergeStatement refs e") auto
qed auto

lemma source_of_Ok: "StatementSource st = Ok s \<Longrightarrow> source_of st = s"
  by (simp add: source_of_def)

lemma represents_put:
  assumes "represents marshal t es" "marshal st = Some bytes" "StatementSource st = Ok src" "StatementRefs st = Ok refs"
    and "Id st \<notin> stmt_ids t" "map_order rord"
  shows "represents marshal (put_tables rord bytes src refs st t)
    (es @ [\<lparr>en_counter = t_next t, en_stmt = st, en_wkis = rord refs\<rparr>])"
proof -
  let ?e = "\<lparr>en_counter = t_next t, en_stmt = st, en_wkis = rord refs\<rparr>"
  have b: "bodies_set st" using assms(4) mergeStatement_bodies(1) by (simp add: StatementRefs_def)
  then have r: "set refs = set (refs_of st)" "distinct refs" using assms(4) StatementRefs_Ok [OF b] by auto
  have t: "t = entry_tables marshal es (t_next t)" using assms(1) by (simp add: represents_def)
  have "put_tables rord bytes src refs st t = entry_tables marshal (es @ [?e]) (t_next t + 1)"
    by (subst t) (simp add: put_tables_def entry_tables_def entry_env_def assms(2) source_of_Ok [OF assms(3)])
  moreover have "t_next (put_tables rord bytes src refs st t) = t_next t + 1" by (simp add: put_tables_def)
  moreover have "entry_ok marshal ?e"
    using b r map_order_set [OF assms(6)] map_order_distinct [OF assms(6)] by (simp add: entry_ok_def assms(2))
  ultimately show ?thesis
    using assms(1,5) represents_ids [OF assms(1)] by (auto simp: represents_def list_all_iff)
qed

lemma represents_delete:
  assumes "represents marshal t es"
  shows "represents marshal (fold delete_tables ids t) (filter (\<lambda>e. en_id e \<notin> set ids) es)"
proof -
  have t: "t = entry_tables marshal es (t_next t)" using assms by (simp add: represents_def)
  have refs: "filter (\<lambda>r. fst r \<notin> I) (concat (map (\<lambda>e. map (Pair (en_id e)) (en_wkis e)) es)) =
      concat (map (\<lambda>e. map (Pair (en_id e)) (en_wkis e)) (filter (\<lambda>e. en_id e \<notin> I) es))" for I
    by (induction es) (auto simp: filter_map comp_def)
  have eq: "fold delete_tables ids t = entry_tables marshal (filter (\<lambda>e. en_id e \<notin> set ids) es) (t_next t)"
    by (subst t) (simp add: fold_delete_tables entry_tables_def refs filter_map comp_def entry_env_def env_row_of_def)
  show ?thesis using assms unfolding eq by (auto simp: represents_def list_all_iff distinct_map_filter)
qed

section \<open>Views\<close>

text \<open>
  What a query tests and selects from: an entry, with one of its references when the query mentions \<open>wki\<close>.
\<close>

type_synonym view = "entry \<times> string option"

definition views :: "Query \<Rightarrow> entry list \<Rightarrow> view list" where
  "views q es =
     (if has_index q then concat (map (\<lambda>e. map (\<lambda>w. (e, Some w)) (en_wkis e)) es) else map (\<lambda>e. (e, None)) es)"

definition ns_view :: "string \<Rightarrow> string \<Rightarrow> bool" where
  "ns_view ns s =
     (if ns = ''*'' then True else if last ns = CHR ''*'' then like_prefix (take (length ns - 2) ns) s else s = ns)"

fun crit_view :: "QueryCriteria \<Rightarrow> view \<Rightarrow> bool" where
  "crit_view (ValueCriteria op sel val) (e, w) =
     value_op op (if sel = ''id'' then en_id e else if sel = ''publisher'' then Publisher (en_stmt e) else source_of (en_stmt e)) val"
| "crit_view (RangeCriteria op sel val) (e, w) =
     range_op op (if sel = ''timestamp'' then Timestamp (en_stmt e) else en_counter e) val"
| "crit_view (IndexCriteria sel val) (e, w) = (w = Some val)"
| "crit_view (CompoundCriteria op l r) v =
     (if op = ''AND'' then crit_view l v \<and> crit_view r v else crit_view l v \<or> crit_view r v)"
| "crit_view (NegatedCriteria c) v = (\<not> crit_view c v)"

definition view_holds :: "Query \<Rightarrow> view \<Rightarrow> bool" where
  "view_holds q v \<longleftrightarrow>
     ns_view (q_namespace q) (Namespace (en_stmt (fst v))) \<and>
     (case q_criteria q of None \<Rightarrow> True | Some c \<Rightarrow> crit_view c v)"

definition entry_value :: "string \<Rightarrow> entry \<Rightarrow> row_value" where
  "entry_value s e =
     (if s = ''*'' then RStmt (en_stmt e)
      else if s = ''body'' then RBody (Body (en_stmt e))
      else if s = ''id'' then RString (en_id e)
      else if s = ''publisher'' then RString (Publisher (en_stmt e))
      else if s = ''namespace'' then RString (Namespace (en_stmt e))
      else if s = ''source'' then RString (source_of (en_stmt e))
      else if s = ''timestamp'' then RInt64 (Timestamp (en_stmt e))
      else RInt64 (en_counter e))"

definition entry_object :: "string list \<Rightarrow> entry \<Rightarrow> row_value" where
  "entry_object ss e = RMap (\<lambda>s. if s \<in> set ss then Some (entry_value s e) else None)"

definition distinct_ops :: "string list" where
  "distinct_ops = [''namespace'', ''publisher'', ''source'']"

definition entry_int :: "string \<Rightarrow> entry \<Rightarrow> int" where
  "entry_int s e = (if s = ''timestamp'' then Timestamp (en_stmt e) else en_counter e)"

text \<open>The answer of a function over the selected views.\<close>

definition function_answer :: "string \<Rightarrow> string \<Rightarrow> view list \<Rightarrow> row_value" where
  "function_answer op s vs =
     (if op = ''COUNT''
      then RInt (if s \<in> set distinct_ops then int (card ((\<lambda>v. entry_value s (fst v)) ` set vs)) else int (length vs))
      else if vs = [] then RInt 0
      else RInt64 ((if op = ''MIN'' then Min else Max) ((\<lambda>v. entry_int s (fst v)) ` set vs)))"

text \<open>The keys of ORDER BY.\<close>

definition entry_key :: "string \<Rightarrow> entry \<Rightarrow> sql_val" where
  "entry_key s e =
     (if s = ''id'' then VText (en_id e)
      else if s = ''publisher'' then VText (Publisher (en_stmt e))
      else if s = ''namespace'' then VText (Namespace (en_stmt e))
      else if s = ''source'' then VText (source_of (en_stmt e))
      else if s = ''timestamp'' then VInteger (Timestamp (en_stmt e))
      else VInteger (en_counter e))"

definition view_le :: "Query \<Rightarrow> view \<Rightarrow> view \<Rightarrow> bool" where
  "view_le q v w =
     (case q_order q of
        None \<Rightarrow> True
      | Some specs \<Rightarrow>
          keys_le (map (\<lambda>sp. o_dir sp = ''DESC'') specs) (map (\<lambda>sp. entry_key (o_sel sp) (fst v)) specs)
            (map (\<lambda>sp. entry_key (o_sel sp) (fst w)) specs))"

definition up_to_limit :: "Query \<Rightarrow> 'a list \<Rightarrow> 'a list" where
  "up_to_limit q xs = (if q_limit q > 0 then take (nat (q_limit q)) xs else xs)"

text \<open>
  \<open>res\<close> answers the query over the entries: the values of the views that hold, in the order asked for, each
  once when the selector is one of \<open>distinct_ops\<close>, up to the limit.
\<close>

definition answers :: "Query \<Rightarrow> entry list \<Rightarrow> row_value list \<Rightarrow> bool" where
  "answers q es res \<longleftrightarrow>
     (\<exists>vs. mset vs = mset (filter (view_holds q) (views q es)) \<and>
       (case q_selector q of
          None \<Rightarrow> False
        | Some (FunctionSelector op s) \<Rightarrow> res = [function_answer op s vs]
        | Some (SimpleSelector s) \<Rightarrow>
            sorted_wrt (view_le q) vs \<and>
            (if s \<in> set distinct_ops
             then \<exists>ds. distinct ds \<and> set ds = (\<lambda>v. entry_value s (fst v)) ` set vs \<and> res = up_to_limit q ds
             else res = up_to_limit q (map (\<lambda>v. entry_value s (fst v)) vs))
        | Some (CompoundSelector ss) \<Rightarrow>
            sorted_wrt (view_le q) vs \<and>
            (if length ss = 1 \<and> hd ss \<in> set distinct_ops
             then \<exists>ds. distinct ds \<and> set ds = (\<lambda>v. entry_object ss (fst v)) ` set vs \<and> res = up_to_limit q ds
             else res = up_to_limit q (map (\<lambda>v. entry_object ss (fst v)) vs))))"


section \<open>The parsed text\<close>

definition col_operand :: "bool \<Rightarrow> string \<Rightarrow> sql_operand" where
  "col_operand join c = (if join \<and> c = ''id'' then OCol (Some ''Envelope'') ''id'' else OCol None c)"

fun crit_ast :: "bool \<Rightarrow> QueryCriteria \<Rightarrow> sql_cond" where
  "crit_ast join (ValueCriteria op sel val) = CCmp op (col_operand join sel) (OText val)"
| "crit_ast join (RangeCriteria op sel val) = CCmp op (OCol None sel) (ONum val)"
| "crit_ast join (IndexCriteria sel val) = CCmp ''='' (OCol None sel) (OText val)"
| "crit_ast join (CompoundCriteria op l r) =
     (if op = ''AND'' then CAnd (crit_ast join l) (crit_ast join r) else COr (crit_ast join l) (crit_ast join r))"
| "crit_ast join (NegatedCriteria e) = CNot (crit_ast join e)"

definition ns_ast :: "string \<Rightarrow> sql_cond option" where
  "ns_ast ns =
     (if ns = ''*'' then None
      else Some (if last ns = CHR ''*'' then CLike (OCol None ''namespace'') (take (length ns - 2) ns)
                 else CCmp ''='' (OCol None ''namespace'') (OText ns)))"

definition where_ast :: "bool \<Rightarrow> Query \<Rightarrow> sql_cond option" where
  "where_ast join q =
     (case ns_ast (q_namespace q) of
        None \<Rightarrow> map_option (crit_ast join) (q_criteria q)
      | Some a \<Rightarrow> Some (case q_criteria q of None \<Rightarrow> a | Some c \<Rightarrow> CAnd a (crit_ast join c)))"

definition data_column :: "string \<Rightarrow> string" where
  "data_column s = (if s \<in> {''*'', ''body''} then ''data'' else s)"

definition simple_items :: "bool \<Rightarrow> string \<Rightarrow> sql_items" where
  "simple_items join s = Columns (s \<in> set distinct_ops) [col_operand join (data_column s)]"

fun items_ast :: "bool \<Rightarrow> QuerySelector \<Rightarrow> sql_items" where
  "items_ast join (SimpleSelector s) = simple_items join s"
| "items_ast join (CompoundSelector ss) =
     (if length ss = 1 then simple_items join (ss ! 0) else Columns False (map (\<lambda>s. col_operand join (data_column s)) ss))"
| "items_ast join (FunctionSelector op s) =
     Aggregate op (s \<in> set distinct_ops) (if s \<in> {''*'', ''body''} then ONum 1 else col_operand join s)"

definition uses_stmt :: "Query \<Rightarrow> bool" where
  "uses_stmt q \<longleftrightarrow> isStatementQuery q \<or> \<not> isEnvelopeQuery q"

definition uses_env :: "Query \<Rightarrow> bool" where
  "uses_env q \<longleftrightarrow> \<not> isStatementQuery q"

definition joined :: "Query \<Rightarrow> bool" where
  "joined q \<longleftrightarrow> snd (compileFrom q) \<or> has_index q"

definition joins_ast :: "Query \<Rightarrow> (string \<times> sql_operand \<times> sql_operand) list" where
  "joins_ast q =
     (if uses_stmt q \<and> uses_env q then [(''Envelope'', OCol (Some ''Statement'') ''id'', OCol (Some ''Envelope'') ''id'')] else []) @
     (if has_index q then [(''Refs'', OCol (Some ''Envelope'') ''id'', OCol (Some ''Refs'') ''id'')] else [])"

definition order_ast :: "bool \<Rightarrow> QueryOrderSpec list option \<Rightarrow> (sql_operand \<times> bool) list" where
  "order_ast join order =
     (case order of None \<Rightarrow> [] | Some specs \<Rightarrow> map (\<lambda>sp. (col_operand join (o_sel sp), o_dir sp = ''DESC'')) specs)"

definition query_ast :: "Query \<Rightarrow> sql_select" where
  "query_ast q =
     \<lparr>sel_items = items_ast (joined q) (the (q_selector q)), sel_from = (if uses_stmt q then ''Statement'' else ''Envelope''),
      sel_joins = joins_ast q, sel_where = where_ast (joined q) q, sel_order = order_ast (joined q) (q_order q),
      sel_limit = (if q_limit q > 0 then Some (q_limit q) else None)\<rparr>"

definition named_column :: "string \<Rightarrow> bool" where
  "named_column c \<longleftrightarrow>
     c \<in> {''id'', ''publisher'', ''namespace'', ''source'', ''timestamp'', ''counter'', ''wki'', ''data''}"

lemma name_letters:
  "\<not> is_digit (CHR ''i'')" "\<not> is_digit (CHR ''p'')" "\<not> is_digit (CHR ''n'')" "\<not> is_digit (CHR ''s'')"
  "\<not> is_digit (CHR ''t'')" "\<not> is_digit (CHR ''c'')" "\<not> is_digit (CHR ''w'')" "\<not> is_digit (CHR ''d'')" "\<not> is_digit (CHR ''E'')"
  by (simp_all add: is_digit_def digit_val_def)

lemma names_no_keywords:
  "list_all (\<lambda>c. c \<notin> set sql_keywords)
     [''id'', ''publisher'', ''namespace'', ''source'', ''timestamp'', ''counter'', ''wki'', ''data'', ''Envelope.id'']"
  by (simp add: sql_keywords_def)

lemma read_column:
  assumes "named_column c"
  shows "read_operand (TWord (disambigSelector c join)) = Some (col_operand join c)"
proof -
  have c: "read_operand (TWord c) = Some (OCol None c)"
    using assms names_no_keywords unfolding named_column_def by (elim insertE emptyE) (simp_all add: name_letters)
  have e: "read_operand (TWord ''Envelope.id'') = Some (OCol (Some ''Envelope'') ''id'')"
    using names_no_keywords by (simp add: name_letters)
  show ?thesis
  proof (cases "join \<and> c = ''id''")
    case True
    with e show ?thesis by (simp only: disambigSelector_def col_operand_def) simp
  next
    case False
    then have "disambigSelector c join = c" "col_operand join c = OCol None c" by (simp_all add: disambigSelector_def col_operand_def)
    with c show ?thesis by (simp only:)
  qed
qed

lemma read_plain_column: "named_column c \<Longrightarrow> read_operand (TWord c) = Some (OCol None c)"
  using read_column [of c False] by (simp add: disambigSelector_def col_operand_def)

lemma keywords_no_digits: "list_all (\<lambda>w. \<not> list_all is_digit w) sql_keywords"
  by code_simp

lemma read_number_int_str:
  assumes "0 \<le> i" "i \<le> int64_max"
  shows "read_number (int_str i) = Some i" "list_all is_digit (int_str i)"
  using assms digits_val_nat_str [of "nat i"] nat_str_digits by (simp_all add: read_number_def int_str_def)

lemma read_int: "0 \<le> i \<Longrightarrow> i \<le> int64_max \<Longrightarrow> read_operand (TWord (int_str i)) = Some (ONum i)"
  using keywords_no_digits read_number_int_str [of i] by (auto simp: list_all_iff)

declare read_operand.simps(2) [simp del]

lemma read_not_prim: "w \<noteq> ''NOT'' \<Longrightarrow> read_not (TWord w # ts) = read_prim (TWord w # ts)"
  by (subst read_not.simps) simp

text \<open>\<open>stops\<close>: what follows a condition does not continue it.\<close>

definition stops :: "sql_token list \<Rightarrow> bool" where
  "stops ts \<longleftrightarrow> (case ts of TWord w # r \<Rightarrow> w \<notin> {''AND'', ''OR''} | _ \<Rightarrow> True)"

lemma read_and_stop: "read_not ts = Some (a, r) \<Longrightarrow> stops r \<or> (\<exists>r'. r = TWord ''OR'' # r') \<Longrightarrow> read_and ts = Some (a, r)"
  by (subst read_and.simps) (auto simp: stops_def split: list.splits sql_token.splits)

lemma read_or_stop: "read_and ts = Some (a, r) \<Longrightarrow> stops r \<Longrightarrow> read_or ts = Some (a, r)"
  by (subst read_or.simps) (auto simp: stops_def split: list.splits sql_token.splits)

lemma read_and_step:
  "read_not ts = Some (a, TWord ''AND'' # r) \<Longrightarrow> length r < length ts \<Longrightarrow> read_and r = Some (b, r') \<Longrightarrow>
   read_and ts = Some (CAnd a b, r')"
  by (subst read_and.simps) simp

lemma read_or_step:
  "read_and ts = Some (a, TWord ''OR'' # r) \<Longrightarrow> length r < length ts \<Longrightarrow> read_or r = Some (b, r') \<Longrightarrow>
   read_or ts = Some (COr a b, r')"
  by (subst read_or.simps) simp

lemma read_not_paren: "read_or ts = Some (c, TSym (CHR '')'') # r) \<Longrightarrow> read_not (TSym (CHR ''('') # ts) = Some (c, r)"
  by (subst read_not.simps) simp

lemma read_criteria: "wf_criteria c \<Longrightarrow> read_not (crit_tokens join c @ ts) = Some (crit_ast join c, ts)"
proof (induction c arbitrary: ts)
  case (ValueCriteria op sel val)
  then have "named_column sel" "op \<in> set sql_comparisons" by (auto simp: named_column_def sql_comparisons_def)
  moreover have "disambigSelector sel join \<noteq> ''NOT''" using ValueCriteria by (auto simp: disambigSelector_def)
  ultimately show ?case by (simp add: read_not_prim read_column)
next
  case (RangeCriteria op sel val)
  then have "named_column sel" "op \<in> set sql_comparisons" "sel \<noteq> ''NOT''" by (auto simp: named_column_def sql_comparisons_def)
  with RangeCriteria show ?case by (simp add: read_not_prim read_plain_column read_int)
next
  case (IndexCriteria sel val)
  then have "named_column sel" "sel \<noteq> ''NOT''" by (auto simp: named_column_def)
  then show ?case by (simp add: read_not_prim read_plain_column sql_comparisons_def)
next
  case (CompoundCriteria op l r)
  let ?closing = "TSym (CHR '')'') # ts"
  have stop: "stops ?closing" by (simp add: stops_def)
  from CompoundCriteria have l: "read_not (crit_tokens join l @ TWord op # crit_tokens join r @ ?closing) =
      Some (crit_ast join l, TWord op # crit_tokens join r @ ?closing)"
    and r: "read_and (crit_tokens join r @ ?closing) = Some (crit_ast join r, ?closing)"
    using read_and_stop stop by simp_all
  have "crit_tokens join l \<noteq> []" by (cases l) auto
  then have len: "length (crit_tokens join r @ ?closing) < length (crit_tokens join l @ TWord op # crit_tokens join r @ ?closing)" by simp
  have "read_or (crit_tokens join l @ TWord op # crit_tokens join r @ ?closing) = Some (crit_ast join (CompoundCriteria op l r), ?closing)"
  proof (cases "op = ''AND''")
    case True
    with read_or_stop [OF read_and_step [OF l [unfolded True] len [unfolded True] r] stop] show ?thesis by simp
  next
    case False
    with CompoundCriteria.prems have op: "op = ''OR''" by simp
    from read_or_step [OF read_and_stop [OF l [unfolded op]] len [unfolded op] read_or_stop [OF r stop]] op show ?thesis by simp
  qed
  from read_not_paren [OF this] show ?case by simp
next
  case (NegatedCriteria e)
  then show ?case by (subst read_not.simps) simp
qed

lemma like_of_prefix:
  assumes "wf_namespace ns" "ns \<noteq> ''*''" "last ns = CHR ''*''"
  shows "read_like (take (length ns - 2) ns @ ''%'') = Some (take (length ns - 2) ns)"
proof -
  have "c \<notin> set (take (length ns - 2) ns)" if "c \<in> {CHR ''%'', CHR ''_''}" for c
  proof
    assume "c \<in> set (take (length ns - 2) ns)"
    then have "c \<in> set ns" by (rule in_set_takeD)
    from wf_namespace_chars [OF assms(1) this] that show False
      by (auto simp: ns_char_def is_alnum_def is_alpha_def is_digit_def digit_val_def)
  qed
  then show ?thesis by (auto simp: read_like_def)
qed

lemma read_ns:
  assumes "wf_namespace ns" "ns \<noteq> ''*''"
  shows "read_not (ns_tokens ns @ ts) = Some (the (ns_ast ns), ts)" "ns_tokens ns \<noteq> []"
proof -
  have "read_operand (TWord ''namespace'') = Some (OCol None ''namespace'')"
    by (rule read_plain_column) (simp add: named_column_def)
  then show "read_not (ns_tokens ns @ ts) = Some (the (ns_ast ns), ts)"
    using like_of_prefix [OF assms] assms(2) by (simp add: ns_tokens_def ns_ast_def read_not_prim sql_comparisons_def)
qed (use assms in \<open>simp add: ns_tokens_def\<close>)

lemma read_where_tokens:
  assumes "wf_query q" "where_tokens join q \<noteq> []" "stops ts"
  shows "\<exists>c. where_ast join q = Some c \<and> read_or (where_tokens join q @ ts) = Some (c, ts)"
proof -
  have ns: "wf_namespace (q_namespace q)" using assms(1) by (simp add: wf_query_def)
  show ?thesis
  proof (cases "q_criteria q")
    case None
    with assms(2) have star: "q_namespace q \<noteq> ''*''" by (auto simp: where_tokens_def ns_tokens_def)
    have "read_or (ns_tokens (q_namespace q) @ ts) = Some (the (ns_ast (q_namespace q)), ts)"
      using assms(3) by (intro read_or_stop [OF read_and_stop [OF read_ns(1) [OF ns star]]]) simp_all
    with star None show ?thesis by (simp add: where_ast_def where_tokens_def ns_ast_def)
  next
    case (Some c)
    with assms(1) have c: "wf_criteria c" by (simp add: wf_query_def)
    have r: "read_and (crit_tokens join c @ ts) = Some (crit_ast join c, ts)"
      by (rule read_and_stop [OF read_criteria [OF c]]) (use assms(3) in blast)
    show ?thesis
    proof (cases "q_namespace q = ''*''")
      case True
      with read_or_stop [OF r assms(3)] Some show ?thesis by (simp add: where_ast_def where_tokens_def ns_ast_def ns_tokens_def)
    next
      case False
      have "read_or (ns_tokens (q_namespace q) @ TWord ''AND'' # crit_tokens join c @ ts) =
          Some (CAnd (the (ns_ast (q_namespace q))) (crit_ast join c), ts)"
        by (rule read_or_stop [OF read_and_step [OF read_ns(1) [OF ns False] _ r] assms(3)])
           (use read_ns(2) [OF ns False] in simp)
      with False Some show ?thesis by (simp add: where_ast_def where_tokens_def ns_ast_def)
    qed
  qed
qed

lemma crit_tokens_nonempty: "crit_tokens join c \<noteq> []"
  by (cases c) simp_all

lemma where_ast_empty: "where_tokens join q = [] \<Longrightarrow> where_ast join q = None"
  using crit_tokens_nonempty
  by (cases "q_criteria q"; cases "q_namespace q = ''*''") (simp_all add: where_tokens_def where_ast_def ns_tokens_def ns_ast_def split: if_splits)

section \<open>Columns, tables, order\<close>

lemma column_forms:
  "list_all (\<lambda>j. list_all (\<lambda>s.
     const_tokens (disambigSelector (selectorColumn s selectorColumnSimple) j) =
       (if s \<in> set distinct_ops then [TWord ''DISTINCT''] else []) @ [TWord (disambigSelector (data_column s) j)] \<and>
     const_tokens (disambigSelector (selectorColumn s selectorColumnCompound) j) = [TWord (disambigSelector (data_column s) j)] \<and>
     const_tokens (disambigSelector (selectorColumn s selectorColumnFun) j) =
       (if s \<in> set distinct_ops then [TWord ''DISTINCT''] else []) @
       [TWord (if s \<in> {''*'', ''body''} then ''1'' else disambigSelector s j)]) simple_ops) [True, False]"
  by code_simp

lemma column_form:
  assumes "s \<in> set simple_ops"
  shows "const_tokens (disambigSelector (selectorColumn s selectorColumnSimple) j) =
      (if s \<in> set distinct_ops then [TWord ''DISTINCT''] else []) @ [TWord (disambigSelector (data_column s) j)]"
    and "const_tokens (disambigSelector (selectorColumn s selectorColumnCompound) j) = [TWord (disambigSelector (data_column s) j)]"
    and "const_tokens (disambigSelector (selectorColumn s selectorColumnFun) j) =
      (if s \<in> set distinct_ops then [TWord ''DISTINCT''] else []) @
      [TWord (if s \<in> {''*'', ''body''} then ''1'' else disambigSelector s j)]"
proof -
  note forms = column_forms [unfolded list_all_iff, THEN bspec, of j, THEN bspec, OF _ assms]
  show "const_tokens (disambigSelector (selectorColumn s selectorColumnSimple) j) =
      (if s \<in> set distinct_ops then [TWord ''DISTINCT''] else []) @ [TWord (disambigSelector (data_column s) j)]"
    and "const_tokens (disambigSelector (selectorColumn s selectorColumnCompound) j) = [TWord (disambigSelector (data_column s) j)]"
    and "const_tokens (disambigSelector (selectorColumn s selectorColumnFun) j) =
      (if s \<in> set distinct_ops then [TWord ''DISTINCT''] else []) @
      [TWord (if s \<in> {''*'', ''body''} then ''1'' else disambigSelector s j)]"
    using forms by (cases j; simp)+
qed

lemma named_data_column: "s \<in> set simple_ops \<Longrightarrow> named_column (data_column s)"
  by (auto simp: simple_ops_def named_column_def data_column_def)

lemma no_keyword_column:
  "named_column c \<Longrightarrow> disambigSelector c j \<notin> {''DISTINCT'', ''COUNT'', ''MIN'', ''MAX'', ''FROM''}"
  by (auto simp: named_column_def disambigSelector_def)

lemma read_one_column:
  assumes "named_column c"
  shows "read_operands (TWord (disambigSelector c j) # TWord w # ts) = Some ([col_operand j c], TWord w # ts)"
  by (simp add: read_column [OF assms])

lemma read_simple_items:
  assumes "s \<in> set simple_ops"
  shows "read_items (const_tokens (disambigSelector (selectorColumn s selectorColumnSimple) j) @ TWord w # ts) =
    Some (simple_items j s, TWord w # ts)"
  using read_one_column [OF named_data_column [OF assms]] no_keyword_column [OF named_data_column [OF assms], of j]
  by (simp add: column_form(1) [OF assms] simple_items_def read_columns_def)

lemma read_many_columns:
  assumes "set ss \<subseteq> set simple_ops" "ss \<noteq> []"
  shows "read_operands (comma_tokens (map (\<lambda>s. [TWord (disambigSelector (data_column s) j)]) ss) @ TWord w # ts) =
    Some (map (\<lambda>s. col_operand j (data_column s)) ss, TWord w # ts)"
  using assms
proof (induction ss)
  case (Cons s ss)
  then show ?case
    by (cases ss) (simp_all add: read_column named_data_column)
qed simp

lemma read_items_tokens:
  assumes "wf_selector sel" "w \<noteq> ''DISTINCT''"
  shows "read_items (column_tokens j sel @ TWord w # ts) = Some (items_ast j sel, TWord w # ts)"
proof (cases sel)
  case (SimpleSelector s)
  with assms show ?thesis by (simp add: read_simple_items)
next
  case (CompoundSelector ss)
  with assms have ss: "set ss \<subseteq> set simple_ops" "ss \<noteq> []" by simp_all
  show ?thesis
  proof (cases "length ss = 1")
    case True
    then have "ss ! 0 \<in> set simple_ops" using ss by (metis nth_mem subsetD zero_less_one)
    with True CompoundSelector show ?thesis by (simp add: read_simple_items)
  next
    case False
    then obtain s s' ss' where s: "ss = s # s' # ss'" using ss(2) by (metis One_nat_def length_Cons list.exhaust list.size(3))
    have cols: "map (\<lambda>s. const_tokens (disambigSelector (selectorColumn s selectorColumnCompound) j)) ss =
        map (\<lambda>s. [TWord (disambigSelector (data_column s) j)]) ss"
      using ss(1) column_form(2) by (intro map_cong) auto
    have "disambigSelector (data_column s) j \<notin> {''DISTINCT'', ''COUNT'', ''MIN'', ''MAX'', ''FROM''}"
      using ss(1) s by (intro no_keyword_column named_data_column) auto
    then have "read_items (column_tokens j sel @ TWord w # ts) =
        read_columns False (comma_tokens (map (\<lambda>s. [TWord (disambigSelector (data_column s) j)]) ss) @ TWord w # ts)"
      unfolding CompoundSelector column_tokens.simps cols using False s by simp
    also have "\<dots> = Some (items_ast j sel, TWord w # ts)"
      unfolding read_columns_def read_many_columns [OF ss] using False CompoundSelector by simp
    finally show ?thesis .
  qed
next
  case (FunctionSelector op s)
  with assms have op: "op \<in> {''COUNT'', ''MIN'', ''MAX''}" and s: "s \<in> set simple_ops" by (auto simp: function_ops_def)
  have one: "read_operand (TWord ''1'') = Some (ONum 1)" by code_simp
  have "read_operand (TWord (if s \<in> {''*'', ''body''} then ''1'' else disambigSelector s j)) =
      Some (if s \<in> {''*'', ''body''} then ONum 1 else col_operand j s)"
    using one read_column [OF named_data_column [OF s], of j] by (auto simp: data_column_def split: if_splits)
  moreover have "(if s \<in> {''*'', ''body''} then ''1'' else disambigSelector s j) \<noteq> ''DISTINCT''"
    using no_keyword_column [OF named_data_column [OF s], of j] by (auto simp: data_column_def split: if_splits)
  ultimately have "read_call op (const_tokens (disambigSelector (selectorColumn s selectorColumnFun) j) @ TSym (CHR '')'') # TWord w # ts) =
      Some (items_ast j sel, TWord w # ts)"
    unfolding column_form(3) [OF s] FunctionSelector items_ast.simps by simp
  with op show ?thesis unfolding FunctionSelector by auto
qed

lemma from_tokens:
  "const_tokens ''FROM Statement'' = [TWord ''FROM'', TWord ''Statement'']"
  "const_tokens ''FROM Envelope'' = [TWord ''FROM'', TWord ''Envelope'']"
  "const_tokens ''FROM Statement JOIN Envelope ON Statement.id = Envelope.id'' =
     [TWord ''FROM'', TWord ''Statement'', TWord ''JOIN'', TWord ''Envelope'', TWord ''ON'', TWord ''Statement.id'',
      TOp ''='', TWord ''Envelope.id'']"
  "const_tokens (tl index_join) =
     [TWord ''JOIN'', TWord ''Refs'', TWord ''ON'', TWord ''Envelope.id'', TOp ''='', TWord ''Refs.id'']"
  by code_simp+

lemma read_qualified:
  "read_operand (TWord ''Statement.id'') = Some (OCol (Some ''Statement'') ''id'')"
  "read_operand (TWord ''Envelope.id'') = Some (OCol (Some ''Envelope'') ''id'')"
  "read_operand (TWord ''Refs.id'') = Some (OCol (Some ''Refs'') ''id'')"
  by code_simp+

text \<open>\<open>tail_start\<close>: what may follow the tables.\<close>

definition tail_start :: "sql_token list \<Rightarrow> bool" where
  "tail_start ts \<longleftrightarrow> (case ts of [] \<Rightarrow> True | TWord w # r \<Rightarrow> w \<in> {''WHERE'', ''ORDER'', ''LIMIT''} | _ \<Rightarrow> False)"

lemma read_joins_end: "tail_start ts \<Longrightarrow> read_joins ts = Some ([], ts)"
  by (induction ts rule: read_joins.induct) (auto simp: tail_start_def)

lemma read_joins_step:
  "read_operand a = Some x \<Longrightarrow> read_operand b = Some y \<Longrightarrow>
   read_joins (TWord ''JOIN'' # TWord tab # TWord ''ON'' # a # TOp ''='' # b # ts) = map_option (apfst (Cons (tab, x, y))) (read_joins ts)"
  by simp

lemma statement_query_no_index: "isStatementQuery q \<Longrightarrow> \<not> has_index q"
proof -
  have "isStatementCriteria c \<Longrightarrow> \<not> isIndexCriteria c" for c by (induction c) auto
  then show "isStatementQuery q \<Longrightarrow> \<not> has_index q"
    by (auto simp: isStatementQuery_def has_index_def split: option.splits)
qed

lemma joined_iff: "joined q \<longleftrightarrow> (uses_stmt q \<and> uses_env q) \<or> has_index q"
  by (auto simp: joined_def uses_stmt_def uses_env_def compileFrom_def)

lemma compileFrom_uses:
  "fst (compileFrom q) =
     (if uses_stmt q \<and> uses_env q then '' FROM Statement JOIN Envelope ON Statement.id = Envelope.id''
      else if uses_stmt q then '' FROM Statement'' else '' FROM Envelope'')"
  by (simp add: compileFrom_def uses_stmt_def uses_env_def)

lemma read_tables:
  assumes "tail_start ts"
  shows "Option.bind (read_from (const_tokens (tl (fst (compileFrom q))) @ (if has_index q then const_tokens (tl index_join) else []) @ ts))
      (\<lambda>(tab, r). Option.bind (read_joins r) (\<lambda>(js, r'). Some (tab, js, r'))) =
    Some (if uses_stmt q then ''Statement'' else ''Envelope'', joins_ast q, ts)"
  using statement_query_no_index [of q]
  by (auto simp: compileFrom_uses from_tokens read_joins_step read_qualified read_joins_end [OF assms] joins_ast_def uses_stmt_def uses_env_def)

lemma order_column: "s \<in> set order_ops \<Longrightarrow> named_column s"
  by (auto simp: order_ops_def named_column_def)

lemma read_keys_tokens:
  assumes "list_all (\<lambda>sp. o_sel sp \<in> set order_ops \<and> o_dir sp \<in> {[], ''ASC'', ''DESC''}) specs" "specs \<noteq> []"
    and "ts = [] \<or> (\<exists>r. ts = TWord ''LIMIT'' # r)"
  shows "read_keys (order_tokens join specs @ ts) = Some (order_ast join (Some specs), ts)"
  using assms(1,2)
proof (induction specs)
  case (Cons sp specs)
  then have col: "read_operand (TWord (disambigSelector (o_sel sp) join)) = Some (col_operand join (o_sel sp))"
    and dir: "o_dir sp = [] \<or> o_dir sp = ''ASC'' \<or> o_dir sp = ''DESC''"
    by (simp_all add: read_column order_column)
  show ?case
  proof (cases "specs = []")
    case True
    with dir assms(3) col show ?thesis by (auto simp: order_tokens_def order_ast_def)
  next
    case False
    then obtain sp' specs' where "specs = sp' # specs'" by (cases specs) auto
    with Cons dir col show ?thesis by (auto simp: order_tokens_def order_ast_def)
  qed
qed simp

lemma read_order_tokens:
  assumes "pred_option wf_order order" "ts = [] \<or> (\<exists>r. ts = TWord ''LIMIT'' # r)"
  shows "read_order ((case order of None \<Rightarrow> [] | Some specs \<Rightarrow> [TWord ''ORDER''] @ [TWord ''BY''] @ order_tokens join specs) @ ts) =
    Some (order_ast join order, ts)"
proof (cases order)
  case None
  have "read_order (TWord ''LIMIT'' # r) = Some ([], TWord ''LIMIT'' # r)" for r
    by (cases r rule: list.exhaust; cases "hd r") auto
  with None assms(2) show ?thesis by (auto simp: order_ast_def)
next
  case (Some specs)
  with assms(1) read_keys_tokens [OF _ _ assms(2), of specs join] show ?thesis by (simp add: wf_order_def)
qed

lemma query_parses:
  assumes "wf_query q"
  shows "sql_parse (query_tokens q) = Some (query_ast q)"
proof -
  let ?j = "joined q"
  obtain sel where sel: "q_selector q = Some sel" "wf_selector sel" using assms by (rule wf_query_selector)
  have ord: "pred_option wf_order (q_order q)" using assms by (auto simp: wf_query_def split: QueryOp.splits)
  have lim: "0 \<le> q_limit q" "q_limit q \<le> int64_max" using assms by (simp_all add: wf_query_def)
  let ?l = "if q_limit q > 0 then [TWord ''LIMIT''] @ [TWord (int_str (q_limit q))] else []"
  let ?o = "(case q_order q of None \<Rightarrow> [] | Some specs \<Rightarrow> [TWord ''ORDER''] @ [TWord ''BY''] @ order_tokens ?j specs) @ ?l"
  let ?w = "(if where_tokens ?j q = [] then [] else [TWord ''WHERE''] @ where_tokens ?j q) @ ?o"
  let ?t = "const_tokens (tl (fst (compileFrom q))) @ (if has_index q then const_tokens (tl index_join) else []) @ ?w"
  have toks: "query_tokens q = TWord ''SELECT'' # column_tokens ?j sel @ ?t"
    unfolding query_tokens_def Let_def joined_def [symmetric] sel(1) option.sel by simp
  have L: "read_limit ?l = Some (if q_limit q > 0 then Some (q_limit q) else None)"
    using read_number_int_str [OF lim] by simp
  have O: "read_order ?o = Some (order_ast ?j (q_order q), ?l)"
    by (rule read_order_tokens [OF ord]) auto
  have stops: "stops ?o" by (auto simp: stops_def split: option.splits)
  have W: "read_where ?w = Some (where_ast ?j q, ?o)"
  proof (cases "where_tokens ?j q = []")
    case True
    have "read_where ?o = Some (None, ?o)" by (auto split: option.splits)
    with True where_ast_empty [OF True] show ?thesis by simp
  next
    case False
    with read_where_tokens [OF assms False stops] show ?thesis by auto
  qed
  have tail: "tail_start ?w" by (auto simp: tail_start_def split: option.splits)
  have "\<exists>r. const_tokens (tl (fst (compileFrom q))) = TWord ''FROM'' # r" by (simp add: compileFrom_uses from_tokens)
  then obtain r where T: "?t = TWord ''FROM'' # r" by auto
  have I: "read_items (column_tokens ?j sel @ ?t) = Some (items_ast ?j sel, ?t)"
    unfolding T by (rule read_items_tokens [OF sel(2)]) simp
  from read_tables [OF tail, of q] obtain tj where
    F: "read_from ?t = Some (if uses_stmt q then ''Statement'' else ''Envelope'', tj)" "read_joins tj = Some (joins_ast q, ?w)"
    by (auto simp: bind_eq_Some_conv split: prod.splits simp del: append.simps append_assoc)
  show ?thesis
    unfolding toks sql_parse.simps I F(1) F(2) W O L by (simp add: I F W O L query_ast_def sel(1))
qed

section \<open>Names and values\<close>

definition available :: "Query \<Rightarrow> string \<Rightarrow> bool" where
  "available q c \<longleftrightarrow>
     c = ''id'' \<or> c = ''data'' \<and> uses_stmt q \<or> c = ''wki'' \<and> has_index q \<or>
     uses_env q \<and> (c = ''publisher'' \<or> c = ''namespace'' \<or> c = ''source'' \<or> c = ''timestamp'' \<or> c = ''counter'')"

definition query_scope :: "Query \<Rightarrow> scope" where
  "query_scope q =
     (if uses_stmt q then table_scope ''Statement'' else []) @ (if uses_env q then table_scope ''Envelope'' else []) @
     (if has_index q then table_scope ''Refs'' else [])"

lemma table_scopes:
  "table_scope ''Statement'' = [(''Statement'', ''id''), (''Statement'', ''data'')]"
  "table_scope ''Envelope'' = [(''Envelope'', ''counter''), (''Envelope'', ''id''), (''Envelope'', ''namespace''),
     (''Envelope'', ''publisher''), (''Envelope'', ''source''), (''Envelope'', ''timestamp'')]"
  "table_scope ''Refs'' = [(''Refs'', ''id''), (''Refs'', ''wki'')]"
  by (simp_all add: table_scope_def createTables_def)

lemma uses_some: "uses_stmt q \<or> uses_env q" "\<not> uses_env q \<Longrightarrow> \<not> has_index q"
  using statement_query_no_index by (auto simp: uses_stmt_def uses_env_def)

lemma available_cases:
  assumes "available q c"
  obtains "c = ''id''" | "c = ''data''" "uses_stmt q" | "c = ''wki''" "has_index q"
  | "c = ''publisher''" "uses_env q" | "c = ''namespace''" "uses_env q" | "c = ''source''" "uses_env q"
  | "c = ''timestamp''" "uses_env q" | "c = ''counter''" "uses_env q"
  using assms unfolding available_def by (elim disjE conjE) (assumption | rule that; assumption)+

lemmas query_shape = query_scope_def table_scopes col_operand_def joined_iff names_def

lemma in_scope_column:
  assumes "available q c"
  shows "in_scope (query_scope q) (col_operand (joined q) c)"
  by (rule available_cases [OF assms]) (use uses_some [of q] in \<open>auto simp: query_shape\<close>)

definition stmt_row :: "(statement \<Rightarrow> string option) \<Rightarrow> entry \<Rightarrow> sql_row" where
  "stmt_row marshal e = named ''Statement'' [VText (en_id e), VBlob (the (marshal (en_stmt e)))]"

definition env_vals :: "entry \<Rightarrow> sql_row" where
  "env_vals e = named ''Envelope'' [VInteger (en_counter e), VText (en_id e), VText (Namespace (en_stmt e)),
     VText (Publisher (en_stmt e)), VText (source_of (en_stmt e)), VInteger (Timestamp (en_stmt e))]"

definition ref_row :: "entry \<Rightarrow> string \<Rightarrow> sql_row" where
  "ref_row e w = named ''Refs'' [VText (en_id e), VText w]"

definition view_row :: "(statement \<Rightarrow> string option) \<Rightarrow> Query \<Rightarrow> view \<Rightarrow> sql_row" where
  "view_row marshal q v =
     (if uses_stmt q then stmt_row marshal (fst v) else []) @ (if uses_env q then env_vals (fst v) else []) @
     (case snd v of None \<Rightarrow> [] | Some w \<Rightarrow> ref_row (fst v) w)"

definition view_val :: "(statement \<Rightarrow> string option) \<Rightarrow> view \<Rightarrow> string \<Rightarrow> sql_val" where
  "view_val marshal v c =
     (if c = ''data'' then VBlob (the (marshal (en_stmt (fst v))))
      else if c = ''wki'' then (case snd v of Some w \<Rightarrow> VText w | None \<Rightarrow> VNull)
      else entry_key c (fst v))"

lemmas row_simps = stmt_row_def env_vals_def ref_row_def named_def table_scopes names_def

lemma operand_val_view:
  assumes "available q c" "has_index q \<longleftrightarrow> snd v \<noteq> None"
  shows "operand_val (view_row marshal q v) (col_operand (joined q) c) = view_val marshal v c"
  by (rule available_cases [OF assms(1)])
     (use assms(2) uses_some [of q] in \<open>auto simp: view_row_def view_val_def entry_key_def row_simps query_shape\<close>)

lemma crit_view_cond:
  assumes "wf_criteria c" "\<forall>s \<in> set (crit_sels c). available q s" "has_index q \<longleftrightarrow> snd v \<noteq> None"
  shows "cond_val (view_row marshal q v) (crit_ast (joined q) c) = Some (crit_view c v)"
  using assms(1,2)
proof (induction c)
  case (ValueCriteria op sel val)
  with operand_val_view [OF _ assms(3), of sel marshal] show ?case
    by (cases v) (auto simp: view_val_def entry_key_def value_op_def)
next
  case (RangeCriteria op sel val)
  moreover from this have "col_operand (joined q) sel = OCol None sel" by (auto simp: col_operand_def)
  ultimately show ?case
    using operand_val_view [OF _ assms(3), of sel marshal]
    by (cases v) (auto simp: view_val_def entry_key_def)
next
  case (IndexCriteria sel val)
  moreover from this have "col_operand (joined q) sel = OCol None sel" by (auto simp: col_operand_def)
  moreover from IndexCriteria have "available q sel" by simp
  ultimately show ?case
    using operand_val_view [OF _ assms(3), of sel marshal] assms(3)
    by (cases v) (auto simp: view_val_def value_op_def available_def)
next
  case (CompoundCriteria op l r)
  then show ?case by auto
next
  case (NegatedCriteria c)
  then show ?case by (cases v) auto
qed

lemma ns_view_cond:
  assumes "ns_ast ns = Some a" "uses_env q" "has_index q \<longleftrightarrow> snd v \<noteq> None"
  shows "cond_val (view_row marshal q v) a = Some (ns_view ns (Namespace (en_stmt (fst v))))"
proof -
  have "OCol None ''namespace'' = col_operand (joined q) ''namespace''" by (simp add: col_operand_def)
  then have "operand_val (view_row marshal q v) (OCol None ''namespace'') = VText (Namespace (en_stmt (fst v)))"
    using operand_val_view [of q "''namespace''" v marshal] assms(2,3) by (simp add: available_def view_val_def entry_key_def)
  with assms(1) show ?thesis
    by (auto simp: ns_ast_def ns_view_def value_op_def split: if_splits)
qed

text \<open>The columns a query mentions are those of its tables.\<close>

lemma crit_available:
  assumes "wf_query q" "q_criteria q = Some c"
  shows "\<forall>s \<in> set (crit_sels c). available q s"
proof
  fix s assume s: "s \<in> set (crit_sels c)"
  from assms have c: "wf_criteria c" by (simp add: wf_query_def)
  show "available q s"
  proof (cases "isStatementQuery q")
    case True
    with assms(2) have "isStatementCriteria c" by (simp add: isStatementQuery_def)
    from subsetD [OF crit_sels_statement [OF c this] s] have "s = ''id''" by (rule singletonD)
    then show ?thesis by (simp add: available_def)
  next
    case False
    then have env: "uses_env q" by (simp add: uses_env_def)
    have sels: "s \<in> {''id'', ''publisher'', ''source'', ''timestamp'', ''counter'', ''wki''}" by (rule subsetD [OF crit_sels_wf [OF c] s])
    show ?thesis
    proof (cases "s = ''wki''")
      case True
      with s crit_sels_index [OF c] have "isIndexCriteria c" by metis
      with assms(2) True show ?thesis by (simp add: available_def has_index_def)
    next
      case False
      with sels env show ?thesis unfolding available_def by (elim insertE emptyE) simp_all
    qed
  qed
qed

lemma where_env:
  assumes "ns_ast (q_namespace q) = Some a"
  shows "uses_env q"
  using assms by (auto simp: ns_ast_def uses_env_def isStatementQuery_def)

lemma where_cond:
  assumes "wf_query q" "where_ast (joined q) q = Some a" "has_index q \<longleftrightarrow> snd v \<noteq> None"
  shows "cond_val (view_row marshal q v) a = Some (view_holds q v)"
proof -
  have crit: "cond_val (view_row marshal q v) (crit_ast (joined q) c) = Some (crit_view c v)" if "q_criteria q = Some c" for c
    using assms(1) that by (intro crit_view_cond crit_available assms(3)) (simp_all add: wf_query_def)
  show ?thesis
  proof (cases "ns_ast (q_namespace q)")
    case None
    then have "q_namespace q = ''*''" by (simp add: ns_ast_def split: if_splits)
    with assms(2) None crit show ?thesis by (auto simp: where_ast_def view_holds_def ns_view_def)
  next
    case (Some b)
    note ns = ns_view_cond [OF Some where_env [OF Some] assms(3), of marshal]
    show ?thesis
      using assms(2) Some ns crit by (cases "q_criteria q") (auto simp: where_ast_def view_holds_def)
  qed
qed

lemma where_none: "where_ast join q = None \<Longrightarrow> view_holds q v"
  by (auto simp: where_ast_def view_holds_def ns_ast_def ns_view_def split: option.splits if_splits)

fun plain_sels :: "QuerySelector \<Rightarrow> string list" where
  "plain_sels (SimpleSelector s) = [s]"
| "plain_sels (CompoundSelector ss) = ss"
| "plain_sels (FunctionSelector op s) = []"

lemma selectorp_sels: "selectorp (Some sel) tbl f \<Longrightarrow> s \<in> set (plain_sels sel) \<Longrightarrow> tbl s"
  by (cases sel) (auto simp: list_all_iff)

lemma selector_available:
  assumes "wf_query q" "q_selector q = Some sel"
  shows "\<forall>a \<in> set (item_operands (items_ast (joined q) sel)). a = ONum 1 \<or> (\<exists>c. available q c \<and> a = col_operand (joined q) c)"
proof -
  have wf: "wf_selector sel" by (rule wf_query_wf_selector [OF assms])
  have env: "available q s" if "s \<in> set simple_ops" "s \<notin> {''*'', ''body''}" "uses_env q" for s
    using that unfolding simple_ops_def list.set available_def by (elim insertE emptyE) simp_all
  have stmt: "s \<in> {''*'', ''body'', ''id''}" if "isStatementSelector (Some sel)" "s \<in> set (plain_sels sel)" for s
    using selectorp_sels [OF that [unfolded isStatementSelector_def]] by (simp add: statementSelectorp_def)
  have envs: "s \<notin> {''*'', ''body''}" if "isEnvelopeSelector (Some sel)" "s \<in> set (plain_sels sel)" for s
  proof -
    have "envelopeSelectorp s" by (rule selectorp_sels [OF that [unfolded isEnvelopeSelector_def]])
    then show ?thesis unfolding envelopeSelectorp_def by (elim insertE emptyE) simp_all
  qed
  have col: "available q (data_column s)"
    if "s \<in> set (plain_sels sel)" "s \<in> set simple_ops" for s
  proof (cases "isStatementQuery q")
    case True
    with assms(2) have "s \<in> {''*'', ''body'', ''id''}" "uses_stmt q"
      using stmt that(1) by (auto simp: isStatementQuery_def uses_stmt_def)
    then show ?thesis unfolding data_column_def available_def by (elim insertE emptyE) simp_all
  next
    case False
    then have e: "uses_env q" by (simp add: uses_env_def)
    show ?thesis
    proof (cases "s \<in> {''*'', ''body''}")
      case True
      with envs [OF _ that(1)] have "\<not> isEnvelopeQuery q" using assms(2) by (auto simp: isEnvelopeQuery_def)
      with True show ?thesis by (simp add: data_column_def available_def uses_stmt_def)
    next
      case F: False
      then have "data_column s = s" by (simp add: data_column_def)
      with env [OF that(2) F e] show ?thesis by simp
    qed
  qed
  show ?thesis
  proof (cases sel)
    case (SimpleSelector s)
    with wf col [of s] show ?thesis by (auto simp: simple_items_def)
  next
    case (CompoundSelector ss)
    then have "\<forall>s \<in> set ss. available q (data_column s)" using wf col by auto
    moreover have "ss ! 0 \<in> set ss" using CompoundSelector wf by (cases ss) auto
    ultimately show ?thesis using CompoundSelector by (auto simp: simple_items_def)
  next
    case (FunctionSelector op s)
    then have "uses_env q" using assms(2) by (auto simp: uses_env_def isStatementQuery_def isStatementSelector_def)
    moreover have "s \<in> set simple_ops" using FunctionSelector wf by simp
    ultimately have "s \<notin> {''*'', ''body''} \<Longrightarrow> available q s" using env [of s] by blast
    then show ?thesis unfolding FunctionSelector items_ast.simps item_operands.simps by (auto split: if_splits)
  qed
qed

lemma order_available:
  assumes "wf_query q" "q_order q = Some specs" "sp \<in> set specs"
  shows "available q (o_sel sp)"
proof -
  have "o_sel sp \<in> set order_ops" using assms by (auto simp: wf_query_def wf_order_def list_all_iff split: QueryOp.splits)
  moreover have "uses_env q" using assms(2) by (simp add: uses_env_def isStatementQuery_def)
  ultimately show ?thesis by (auto simp: order_ops_def available_def)
qed

lemma crit_operands_ast:
  "wf_criteria c \<Longrightarrow> a \<in> set (cond_operands (crit_ast j c)) \<Longrightarrow>
   (\<exists>s \<in> set (crit_sels c). a = col_operand j s) \<or> (\<exists>t. a = OText t) \<or> (\<exists>n. a = ONum n)"
proof (induction c)
  case (RangeCriteria op sel val)
  then have "OCol None sel = col_operand j sel" by (auto simp: col_operand_def)
  with RangeCriteria show ?case by auto
next
  case (IndexCriteria sel val)
  then have "OCol None sel = col_operand j sel" by (auto simp: col_operand_def)
  with IndexCriteria show ?case by auto
qed (auto split: if_splits)

lemma query_named:
  assumes "wf_query q"
  shows "sql_names (query_ast q)"
proof -
  obtain sel where sel: "q_selector q = Some sel" "wf_selector sel" using assms by (rule wf_query_selector)
  have scope: "joins_named (table_scope (sel_from (query_ast q))) (sel_joins (query_ast q)) = Some (query_scope q)"
    using uses_some [of q] by (auto simp: query_ast_def joins_ast_def query_shape createTables_def)
  have items: "list_all (in_scope (query_scope q)) (item_operands (sel_items (query_ast q)))"
    using selector_available [OF assms sel(1)] in_scope_column by (auto simp: list_all_iff query_ast_def sel(1))
  have order: "list_all (in_scope (query_scope q)) (map fst (sel_order (query_ast q)))"
  proof (cases "q_order q")
    case (Some specs)
    with order_available [OF assms Some] in_scope_column show ?thesis by (simp add: list_all_iff query_ast_def order_ast_def)
  qed (simp add: query_ast_def order_ast_def)
  have ns: "in_scope (query_scope q) a'" if "ns_ast (q_namespace q) = Some a" "a' \<in> set (cond_operands a)" for a a'
  proof -
    have "available q ''namespace''" using where_env [OF that(1)] by (simp add: available_def)
    from in_scope_column [OF this] that show ?thesis by (auto simp: ns_ast_def col_operand_def split: if_splits)
  qed
  have crit: "in_scope (query_scope q) a" if "q_criteria q = Some c" "a \<in> set (cond_operands (crit_ast (joined q) c))" for c a
  proof -
    have "wf_criteria c" using assms that(1) by (simp add: wf_query_def)
    from crit_operands_ast [OF this that(2)] crit_available [OF assms that(1)] in_scope_column show ?thesis by auto
  qed
  have "list_all (in_scope (query_scope q)) (case sel_where (query_ast q) of None \<Rightarrow> [] | Some c \<Rightarrow> cond_operands c)"
    using ns crit
    by (cases "ns_ast (q_namespace q)"; cases "q_criteria q") (auto simp: list_all_iff query_ast_def where_ast_def)
  with items order scope show ?thesis
    by (simp add: sql_names_def) (simp add: query_ast_def createTables_def)
qed

end
