(* ===== verification/QueryAnswers.thy ===== *)
theory QueryAnswers
  imports QuerySql
begin

text \<open>
  The rows of a compiled query are the rows of its views (\<open>query_source\<close>), what its row selector
  reads from them are the values of the entries, and so a query of the database answers the query over
  the entries (\<open>db_query_answers\<close>). From this: it agrees with the evaluator, and a
  DELETE removes the entries that its criteria hold of.
\<close>

section \<open>Source rows\<close>

lemma concat_keyed:
  "distinct (map key es) \<Longrightarrow> e \<in> set es \<Longrightarrow> concat (map (\<lambda>e'. if key e = key e' then h e' else []) es) = h e"
proof (induction es)
  case (Cons a es)
  show ?case
  proof (cases "key e = key a")
    case True
    with Cons.prems have "e = a" by (auto simp: rev_image_eqI)
    moreover have "concat (map (\<lambda>e'. if key a = key e' then h e' else []) es) = []" using Cons.prems by (auto simp: rev_image_eqI)
    ultimately show ?thesis by simp
  next
    case False
    with Cons show ?thesis by auto
  qed
qed simp

text \<open>Joining two tables on the id of their entries, of which the first has one row for an entry.\<close>

lemma join_by_id:
  assumes "distinct (map key es)" "\<And>e e' w. C (f e @ g e' w) = Some (key e = key e')"
  shows "select_rows C (concat (map (\<lambda>r. map (\<lambda>r'. r @ r') (concat (map (\<lambda>e'. map (g e') (items e')) es))) (map f es))) =
    Some (concat (map (\<lambda>e. map (\<lambda>w. f e @ g e w) (items e)) es))"
proof -
  have "filter (\<lambda>r. C r = Some True) (map (\<lambda>r'. f e @ r') (concat (map (\<lambda>e'. map (g e') (items e')) es))) =
      map (\<lambda>w. f e @ g e w) (items e)" if "e \<in> set es" for e
  proof -
    have "filter (\<lambda>r. C r = Some True) (map (\<lambda>r'. f e @ r') (concat (map (\<lambda>e'. map (g e') (items e')) es))) =
        concat (map (\<lambda>e'. if key e = key e' then map (\<lambda>w. f e @ g e' w) (items e') else []) es)"
      by (induction es) (auto simp: assms(2) filter_map comp_def)
    then show ?thesis using concat_keyed [OF assms(1) that, where h = "\<lambda>e'. map (\<lambda>w. f e @ g e' w) (items e')"] by simp
  qed
  then have "filter (\<lambda>r. C r = Some True) (concat (map (\<lambda>r. map (\<lambda>r'. r @ r') (concat (map (\<lambda>e'. map (g e') (items e')) es))) (map f es))) =
      concat (map (\<lambda>e. map (\<lambda>w. f e @ g e w) (items e)) es)"
    by (simp add: filter_concat comp_def cong: map_cong)
  then show ?thesis by (auto simp: select_rows_def list_all_iff assms(2))
qed

lemma table_rows_entries:
  "table_rows (entry_tables marshal es n) ''Statement'' = map (stmt_row marshal) es"
  "table_rows (entry_tables marshal es n) ''Envelope'' = map env_vals es"
  "table_rows (entry_tables marshal es n) ''Refs'' = concat (map (\<lambda>e. map (ref_row e) (en_wkis e)) es)"
proof -
  show "table_rows (entry_tables marshal es n) ''Statement'' = map (stmt_row marshal) es"
    by (simp add: table_rows_def stmt_row_def)
  show "table_rows (entry_tables marshal es n) ''Envelope'' = map env_vals es"
    by (simp add: table_rows_def env_vals_def entry_env_def env_row_of_def)
  show "table_rows (entry_tables marshal es n) ''Refs'' = concat (map (\<lambda>e. map (ref_row e) (en_wkis e)) es)"
    by (simp add: table_rows_def map_concat comp_def flip: ref_row_def)
qed

lemma query_joins:
  assumes "represents marshal t es"
  shows "join_rows t (sel_joins (query_ast q)) (table_rows t (sel_from (query_ast q))) = Some (map (view_row marshal q) (views q es))"
proof -
  have t: "t = entry_tables marshal es (t_next t)" and d: "distinct (map en_id es)" using assms by (simp_all add: represents_def)
  let ?on = "\<lambda>a b r. cond_val r (CCmp ''='' (OCol (Some a) ''id'') (OCol (Some b) ''id''))"
  let ?es = "concat (map (\<lambda>e. map (\<lambda>u. env_vals e) [()]) es)"
  have one: "map env_vals es = ?es" by (induction es) auto
  have J: "select_rows (?on ''Statement'' ''Envelope'') (concat (map (\<lambda>r. map (\<lambda>r'. r @ r') (map env_vals es)) (map (stmt_row marshal) es))) =
      Some (map (\<lambda>e. stmt_row marshal e @ env_vals e) es)"
    unfolding one
    by (subst join_by_id [where key = en_id and g = "\<lambda>e u. env_vals e" and items = "\<lambda>e. [()]", OF d])
       (simp_all add: row_simps value_op_def concat_map_singleton)
  have R: "select_rows (?on ''Envelope'' ''Refs'')
      (concat (map (\<lambda>r. map (\<lambda>r'. r @ r') (concat (map (\<lambda>e. map (ref_row e) (en_wkis e)) es))) (map f es))) =
      Some (concat (map (\<lambda>e. map (\<lambda>w. f e @ ref_row e w) (en_wkis e)) es))"
    if "f = env_vals \<or> f = (\<lambda>e. stmt_row marshal e @ env_vals e)" for f
    by (rule join_by_id [where key = en_id, OF d]) (use that in \<open>auto simp: row_simps value_op_def\<close>)
  note tab = table_rows_entries [of marshal es "t_next t", folded t]
  show ?thesis
    using uses_some [of q] J R [of env_vals] R [of "\<lambda>e. stmt_row marshal e @ env_vals e"]
    by (cases "uses_stmt q"; cases "uses_env q"; cases "has_index q")
       (simp_all add: query_ast_def joins_ast_def tab views_def view_row_def map_concat comp_def)
qed

lemma views_index: "v \<in> set (views q es) \<Longrightarrow> has_index q \<longleftrightarrow> snd v \<noteq> None"
  by (auto simp: views_def split: if_splits)

lemma query_source:
  assumes "wf_query q" "represents marshal t es"
  shows "sql_source (query_ast q) t = Some (map (view_row marshal q) (filter (view_holds q) (views q es)))"
proof (cases "where_ast (joined q) q")
  case None
  then have "filter (view_holds q) (views q es) = views q es" using where_none by (simp add: filter_id_conv)
  with None query_joins [OF assms(2)] show ?thesis by (simp add: sql_source_def) (simp add: query_ast_def)
next
  case (Some a)
  have "\<forall>v \<in> set (views q es). cond_val (view_row marshal q v) a = Some (view_holds q v)"
    using where_cond [OF assms(1) Some views_index] by blast
  then have "select_rows (\<lambda>r. cond_val r a) (map (view_row marshal q) (views q es)) =
      Some (map (view_row marshal q) (filter (view_holds q) (views q es)))"
    by (auto simp: select_rows_def list_all_iff filter_map comp_def intro!: arg_cong [where f = "map _"] filter_cong)
  with Some query_joins [OF assms(2)] show ?thesis by (simp add: sql_source_def) (simp add: query_ast_def)
qed

section \<open>Reading rows\<close>

lemma mset_unmap: "mset ps = mset (map f xs) \<Longrightarrow> \<exists>vs. mset vs = mset xs \<and> ps = map f vs"
proof (induction ps arbitrary: xs)
  case (Cons p ps)
  then have "p \<in> f ` set xs" by (metis list.set_intros(1) mset_eq_setD set_map)
  then obtain x where x: "x \<in> set xs" "p = f x" by blast
  then have "mset xs = add_mset x (mset (remove1 x xs))" by simp
  with Cons.prems x(2) have "mset ps = mset (map f (remove1 x xs))" by (simp del: mset_remove1)
  then obtain vs where "mset vs = mset (remove1 x xs)" "ps = map f vs" using Cons.IH by blast
  with x show ?case by (intro exI [of _ "x # vs"]) simp
qed simp

lemma omap_list_all2:
  "list_all2 P rows out \<Longrightarrow> (\<And>row d. P row d \<Longrightarrow> d \<in> set out \<Longrightarrow> f row = Ok (G d)) \<Longrightarrow> omap f rows = Ok (map G out)"
  by (induction rows out rule: list_all2_induct) auto

definition entry_vals :: "(statement \<Rightarrow> string option) \<Rightarrow> string list \<Rightarrow> entry \<Rightarrow> sql_val list" where
  "entry_vals marshal ss e = map (\<lambda>s. if s \<in> {''*'', ''body''} then VBlob (the (marshal (en_stmt e))) else entry_key s e) ss"

lemma simple_op_cases:
  assumes "s \<in> set simple_ops"
  obtains "s = ''*''" | "s = ''body''" | "s = ''id''" | "s = ''publisher''" | "s = ''namespace''" | "s = ''source''"
  | "s = ''timestamp''" | "s = ''counter''"
  using assms unfolding simple_ops_def list.set by (elim insertE emptyE) (rule that; assumption)+

lemma view_val_entry:
  assumes "s \<in> set simple_ops"
  shows "[view_val marshal v (data_column s)] = entry_vals marshal [s] (fst v)"
  by (rule simple_op_cases [OF assms]) (simp_all add: view_val_def data_column_def entry_vals_def)

lemma read_cell:
  assumes "s \<in> set simple_ops" "makeSimpleRowSelector s = Some rs" "unmarshal (the (marshal (en_stmt e))) = Ok (en_stmt e)"
  obtains c where "to_cell (hd (entry_vals marshal [s] e)) (rs_ptr rs) = Some c"
    "rs_value unmarshal rs c = Ok (entry_value s e)"
  by (rule simple_op_cases [OF assms(1)])
     (use assms(2,3) that in \<open>simp_all add: makeSimpleRowSelector_def entry_vals_def entry_key_def entry_value_def\<close>)

lemma cells_of_map:
  "\<forall>s \<in> set ss. to_cell (f s) (g s) = Some (c s) \<Longrightarrow> cells_of (map f ss) (map g ss) = Some (map c ss)"
  unfolding cells_of_def by (induction ss) auto

lemma scan_simple:
  assumes "s \<in> set simple_ops" "makeSimpleRowSelector s = Some rs" "unmarshal (the (marshal (en_stmt e))) = Ok (en_stmt e)"
    and "delivers row (entry_vals marshal [s] e)"
  shows "Scan unmarshal (RowSelectSimple rs) row = Ok (entry_value s e)"
proof -
  from read_cell [where marshal = marshal and unmarshal = unmarshal, OF assms(1-3)] obtain c where
    c: "to_cell (hd (entry_vals marshal [s] e)) (rs_ptr rs) = Some c" "rs_value unmarshal rs c = Ok (entry_value s e)" by blast
  then have "cells_of (entry_vals marshal [s] e) [rs_ptr rs] = Some [c]" by (simp add: cells_of_def entry_vals_def)
  with assms(4) have "row [rs_ptr rs] = Ok [c]" by (simp add: delivers_def)
  with c show ?thesis by simp
qed

lemma scan_compound:
  assumes "set ss \<subseteq> set simple_ops" "unmarshal (the (marshal (en_stmt e))) = Ok (en_stmt e)"
    and "delivers row (entry_vals marshal ss e)"
  shows "Scan unmarshal (RowSelectCompound ss (map (\<lambda>s. the (makeSimpleRowSelector s)) ss)) row = Ok (entry_object ss e)"
proof -
  let ?rs = "\<lambda>s. the (makeSimpleRowSelector s)"
  have "\<forall>s \<in> set ss. \<exists>c. to_cell (hd (entry_vals marshal [s] e)) (rs_ptr (?rs s)) = Some c \<and>
      rs_value unmarshal (?rs s) c = Ok (entry_value s e)"
  proof
    fix s assume "s \<in> set ss"
    then have s: "s \<in> set simple_ops" using assms(1) by blast
    then obtain rs where "makeSimpleRowSelector s = Some rs" using simple_tables by blast
    with read_cell [where marshal = marshal and unmarshal = unmarshal, OF s this assms(2)] show "\<exists>c. to_cell (hd (entry_vals marshal [s] e)) (rs_ptr (?rs s)) = Some c \<and>
      rs_value unmarshal (?rs s) c = Ok (entry_value s e)" by auto
  qed
  then obtain c where c: "\<forall>s \<in> set ss. to_cell (hd (entry_vals marshal [s] e)) (rs_ptr (?rs s)) = Some (c s) \<and>
      rs_value unmarshal (?rs s) (c s) = Ok (entry_value s e)" by metis
  have "entry_vals marshal ss e = map (\<lambda>s. hd (entry_vals marshal [s] e)) ss" by (simp add: entry_vals_def)
  then have "cells_of (entry_vals marshal ss e) (map rs_ptr (map ?rs ss)) = Some (map c ss)"
    using c cells_of_map [of ss "\<lambda>s. hd (entry_vals marshal [s] e)" "\<lambda>s. rs_ptr (?rs s)" c] by (simp add: comp_def)
  with assms(3) have "row (map rs_ptr (map ?rs ss)) = Ok (map c ss)" by (simp only: delivers_def)
  moreover have "ofold (\<lambda>obj (sel, rs, cell). obind (rs_value unmarshal rs cell) (\<lambda>val. Ok (obj(sel \<mapsto> val)))) Map.empty
      (zip ss (zip (map ?rs ss) (map c ss))) = Ok (\<lambda>s. if s \<in> set ss then Some (entry_value s e) else None)"
    using scan_fold [of ss unmarshal c "\<lambda>s. entry_value s e" Map.empty] c by simp
  ultimately show ?thesis by (simp add: entry_object_def)
qed

lemma distinct_value:
  assumes "s \<in> set distinct_ops"
  obtains x where "entry_vals marshal [s] e = [VText x]" "entry_value s e = RString x"
  using assms unfolding distinct_ops_def list.set
  by (elim insertE emptyE) (simp_all add: entry_vals_def entry_key_def entry_value_def)

lemma distinct_value_iff:
  assumes "s \<in> set distinct_ops"
  shows "entry_vals marshal [s] e = entry_vals marshal [s] e' \<longleftrightarrow> entry_value s e = entry_value s e'"
proof -
  obtain x where "entry_vals marshal [s] e = [VText x]" "entry_value s e = RString x" using assms by (rule distinct_value)
  moreover obtain y where "entry_vals marshal [s] e' = [VText y]" "entry_value s e' = RString y" using assms by (rule distinct_value)
  ultimately show ?thesis by simp
qed

section \<open>Results\<close>

lemma limited_set: "set (limited lim xs) \<subseteq> set xs"
  by (auto simp: limited_def split: option.splits dest: in_set_takeD)

lemma limited_map: "map f (limited lim xs) = limited lim (map f xs)"
  by (simp add: limited_def take_map split: option.splits)

lemma limited_query: "limited (if q_limit q > 0 then Some (q_limit q) else None) xs = up_to_limit q xs"
  by (simp add: limited_def up_to_limit_def)

lemma row_le_view:
  assumes "wf_query q" "v \<in> set (views q es)" "w \<in> set (views q es)"
  shows "row_le (sel_order (query_ast q)) (view_row marshal q v) (view_row marshal q w) = view_le q v w"
proof (cases "q_order q")
  case None
  then show ?thesis by (simp add: row_le_def view_le_def query_ast_def order_ast_def)
next
  case (Some specs)
  have key: "operand_val (view_row marshal q u) (col_operand (joined q) (o_sel sp)) = entry_key (o_sel sp) (fst u)"
    if "u \<in> set (views q es)" "sp \<in> set specs" for u sp
  proof -
    have "o_sel sp \<in> set order_ops"
      using assms(1) Some that(2) by (auto simp: wf_query_def wf_order_def list_all_iff split: QueryOp.splits)
    then have "o_sel sp \<notin> {''data'', ''wki''}" by (auto simp: order_ops_def)
    with operand_val_view [OF order_available [OF assms(1) Some that(2)] views_index [OF that(1)], of marshal]
    show ?thesis by (simp add: view_val_def)
  qed
  have "map (operand_val (view_row marshal q u) \<circ> fst) (order_ast (joined q) (Some specs)) = map (\<lambda>sp. entry_key (o_sel sp) (fst u)) specs"
    if "u \<in> set (views q es)" for u
    using key [OF that] by (simp add: order_ast_def)
  moreover have "map snd (order_ast (joined q) (Some specs)) = map (\<lambda>sp. o_dir sp = ''DESC'') specs" by (simp add: order_ast_def)
  ultimately show ?thesis using assms(2,3) Some by (simp add: row_le_def view_le_def query_ast_def)
qed

lemma column_rows:
  assumes ret: "returns (Columns d as) keys lim (map rowf VS) out" and rows: "list_all2 delivers rows out"
    and vals: "\<And>v. v \<in> set VS \<Longrightarrow> map (operand_val (rowf v)) as = h v"
    and scan: "\<And>v row. v \<in> set VS \<Longrightarrow> delivers row (h v) \<Longrightarrow> Scan unmarshal rsel row = Ok (g v)"
    and inj: "\<And>v w. d \<Longrightarrow> v \<in> set VS \<Longrightarrow> w \<in> set VS \<Longrightarrow> g v = g w \<Longrightarrow> h v = h w"
    and le: "\<And>v w. v \<in> set VS \<Longrightarrow> w \<in> set VS \<Longrightarrow> row_le keys (rowf v) (rowf w) = le v w"
  shows "\<exists>vs res. mset vs = mset VS \<and> sorted_wrt le vs \<and> omap (Scan unmarshal rsel) rows = Ok res \<and>
    (if d then \<exists>ds. distinct ds \<and> set ds = g ` set vs \<and> res = limited lim ds else res = limited lim (map g vs))"
proof -
  from ret obtain ps ds where ps: "mset ps = mset (map rowf VS)" "sorted_wrt (row_le keys) ps" and
    ds: "if d then distinct ds \<and> set ds = (\<lambda>r. map (operand_val r) as) ` set ps else ds = map (\<lambda>r. map (operand_val r) as) ps"
      "out = limited lim ds" by auto
  from mset_unmap [OF ps(1)] obtain vs where vs: "mset vs = mset VS" "ps = map rowf vs" by blast
  from mset_eq_setD [OF vs(1)] have set_vs: "set vs = set VS" .
  from ps(2) have "sorted_wrt (\<lambda>v w. row_le keys (rowf v) (rowf w)) vs" by (simp add: vs(2) sorted_wrt_map)
  then have sorted: "sorted_wrt le vs"
    by (rule sorted_wrt_mono_rel [rotated]) (use le set_vs in simp)
  define G where "G x = (case Scan unmarshal rsel (reference_row x) of Ok r \<Rightarrow> r | _ \<Rightarrow> RInt 0)" for x
  have G: "G (h v) = g v" if "v \<in> set VS" for v
    using scan [OF that reference_row_delivers] by (simp add: G_def)
  have hs: "map (\<lambda>r. map (operand_val r) as) ps = map h vs" "(\<lambda>r. map (operand_val r) as) ` set ps = h ` set VS"
    using vals set_vs by (auto simp: vs(2) image_image)
  have sub: "set ds \<subseteq> h ` set VS" using ds(1) hs set_vs by (auto split: if_splits)
  have "omap (Scan unmarshal rsel) rows = Ok (map G out)"
  proof (rule omap_list_all2 [OF rows])
    fix row x assume x: "delivers row x" "x \<in> set out"
    then obtain v where "v \<in> set VS" "x = h v" using sub limited_set [of lim ds] ds(2) by blast
    with scan [OF this(1)] x(1) G show "Scan unmarshal rsel row = Ok (G x)" by simp
  qed
  moreover have "map G out = limited lim (map G ds)" by (simp add: ds(2) limited_map)
  moreover have "distinct (map G ds)" "set (map G ds) = g ` set vs" if d
  proof -
    have "inj_on G (h ` set VS)"
    proof (rule inj_onI)
      fix x y assume eq: "G x = G y" and "x \<in> h ` set VS" "y \<in> h ` set VS"
      then obtain v w where v: "v \<in> set VS" "x = h v" and w: "w \<in> set VS" "y = h w" by blast
      have "g v = g w" using eq unfolding v(2) w(2) G [OF v(1)] G [OF w(1)] .
      from inj [OF that v(1) w(1) this] show "x = y" by (simp only: v(2) w(2))
    qed
    with that ds(1) hs(2) show "distinct (map G ds)" by (simp add: distinct_map)
    have "G ` h ` set VS = g ` set VS" using G by (simp add: image_image)
    with that ds(1) hs(2) set_vs show "set (map G ds) = g ` set vs" by simp
  qed
  moreover have "map G ds = map g vs" if "\<not> d"
    using that ds(1) hs(1) G set_vs by simp
  ultimately show ?thesis using vs(1) sorted by (intro exI [of _ vs] exI [of _ "map G out"]) auto
qed

lemma fold_min_ints:
  "foldl (\<lambda>m w. if val_less w m then w else m) (VInteger i) (map VInteger is) = VInteger (Min (insert i (set is)))"
proof (induction "is" arbitrary: i)
  case (Cons j js)
  have "Min (insert (min i j) (set js)) = Min (insert i (insert j (set js)))"
    by (cases "js = []") (simp_all add: min.assoc)
  moreover have "(if val_less (VInteger j) (VInteger i) then VInteger j else VInteger i) = VInteger (min i j)" by auto
  ultimately show ?case using Cons [of "min i j"] by simp
qed simp

lemma fold_max_ints:
  "foldl (\<lambda>m w. if val_less m w then w else m) (VInteger i) (map VInteger is) = VInteger (Max (insert i (set is)))"
proof (induction "is" arbitrary: i)
  case (Cons j js)
  have "Max (insert (max i j) (set js)) = Max (insert i (insert j (set js)))"
    by (cases "js = []") (simp_all add: max.assoc)
  moreover have "(if val_less (VInteger i) (VInteger j) then VInteger j else VInteger i) = VInteger (max i j)" by auto
  ultimately show ?case using Cons [of "max i j"] by simp
qed simp

lemma aggregate_ints:
  assumes "f \<in> {''MIN'', ''MAX''}"
  shows "aggregate f d (map VInteger is) = (if is = [] then VNull else VInteger ((if f = ''MIN'' then Min else Max) (set is)))"
  using assms by (cases "is") (auto simp: aggregate_def fold_min_ints fold_max_ints)

section \<open>The answer of the database\<close>

lemma column_available:
  assumes "wf_query q" "q_selector q = Some sel" "col_operand (joined q) c \<in> set (item_operands (items_ast (joined q) sel))"
  shows "available q c"
  using selector_available [OF assms(1,2)] assms(3) by (auto simp: col_operand_def split: if_splits)

lemma view_column:
  assumes "wf_query q" "q_selector q = Some sel" "v \<in> set (views q es)"
    and "col_operand (joined q) (data_column s) \<in> set (item_operands (items_ast (joined q) sel))" "s \<in> set simple_ops"
  shows "operand_val (view_row marshal q v) (col_operand (joined q) (data_column s)) = hd (entry_vals marshal [s] (fst v))"
  using operand_val_view [OF column_available [OF assms(1,2,4)] views_index [OF assms(3)], of marshal]
    view_val_entry [OF assms(5), of marshal v] by (metis list.sel(1))

lemma compile_parts:
  assumes "CompileQuery q = Ok (sq, rsel)"
  obtains j cols where "compileQueryColumns q j = Ok cols" "compileQueryRowSelector q = Ok rsel"
proof -
  from assms obtain x where "compileJoins q = Ok x" by (auto simp: CompileQuery_def)
  then obtain tables j where "compileJoins q = Ok (tables, j)" by (cases x) auto
  with assms that show thesis by (auto simp: CompileQuery_def Let_def)
qed

text \<open>What the engine delivers for a compiled query.\<close>

lemma query_engine:
  assumes "wf_query q" "CompileQuery q = Ok (sq, rsel)" "represents marshal t es" "sql_engine eng" "q_selector q = Some sel"
  obtains rows out where "eng sq t = Ok (rows, None)" "list_all2 delivers rows out"
    "returns (items_ast (joined q) sel) (sel_order (query_ast q)) (if q_limit q > 0 then Some (q_limit q) else None)
       (map (view_row marshal q) (filter (view_holds q) (views q es))) out"
proof -
  have "\<exists>rows out. eng sq t = Ok (rows, None) \<and> list_all2 delivers rows out \<and>
      returns (sel_items (query_ast q)) (sel_order (query_ast q)) (sel_limit (query_ast q))
        (map (view_row marshal q) (filter (view_holds q) (views q es))) out"
    using assms(4) CompileQuery_tokens [OF assms(1,2)] query_parses [OF assms(1)] query_named [OF assms(1)]
      query_source [OF assms(1,3)] unfolding sql_engine_def by blast
  with that show thesis by (simp add: query_ast_def assms(5)) blast
qed

lemma simple_answers:
  assumes "wf_query q" "q_selector q = Some sel" "sel = SimpleSelector s \<or> sel = CompoundSelector [s]"
    and "compileQueryRowSelector q = Ok rsel"
    and "\<And>e. e \<in> set es \<Longrightarrow> unmarshal (the (marshal (en_stmt e))) = Ok (en_stmt e)"
    and "list_all2 delivers rows out"
    and "returns (items_ast (joined q) sel) (sel_order (query_ast q)) (if q_limit q > 0 then Some (q_limit q) else None)
       (map (view_row marshal q) (filter (view_holds q) (views q es))) out"
  shows "\<exists>res. omap (Scan unmarshal rsel) rows = Ok res \<and> answers q es res"
proof -
  let ?VS = "filter (view_holds q) (views q es)" and ?j = "joined q"
  let ?g = "\<lambda>v. if sel = SimpleSelector s then entry_value s (fst v) else entry_object [s] (fst v)"
  have s: "s \<in> set simple_ops" using wf_query_wf_selector [OF assms(1,2)] assms(3) by auto
  have items: "items_ast ?j sel = Columns (s \<in> set distinct_ops) [col_operand ?j (data_column s)]"
    using assms(3) by (auto simp: simple_items_def)
  obtain rs where rs: "makeSimpleRowSelector s = Some rs" using simple_tables [OF s] by blast
  have rsel: "rsel = (if sel = SimpleSelector s then RowSelectSimple rs else RowSelectCompound [s] [rs])"
    using assms(2,3,4) rs by (auto simp: compileQueryRowSelector_def)
  have entry: "fst v \<in> set es" if "v \<in> set ?VS" for v
    using that by (auto simp: views_def split: if_splits)
  have scan: "Scan unmarshal rsel row = Ok (?g v)" if "v \<in> set ?VS" "delivers row (entry_vals marshal [s] (fst v))" for v row
    using scan_simple [where unmarshal = unmarshal, OF s rs assms(5) [OF entry [OF that(1)]] that(2)]
      scan_compound [where unmarshal = unmarshal and ss = "[s]", OF _ assms(5) [OF entry [OF that(1)]] that(2)] s rs
    by (auto simp: rsel)
  have "\<exists>vs res. mset vs = mset ?VS \<and> sorted_wrt (view_le q) vs \<and> omap (Scan unmarshal rsel) rows = Ok res \<and>
      (if s \<in> set distinct_ops then \<exists>ds. distinct ds \<and> set ds = ?g ` set vs \<and> res = limited (if q_limit q > 0 then Some (q_limit q) else None) ds
       else res = limited (if q_limit q > 0 then Some (q_limit q) else None) (map ?g vs))"
  proof (rule column_rows [OF assms(7) [unfolded items] assms(6) _ scan])
    fix v assume "v \<in> set ?VS"
    then show "map (operand_val (view_row marshal q v)) [col_operand ?j (data_column s)] = entry_vals marshal [s] (fst v)"
      using view_column [OF assms(1,2) _ _ s, of v es marshal] items by (simp add: entry_vals_def)
  next
    fix v w assume "s \<in> set distinct_ops" "?g v = ?g w"
    then show "entry_vals marshal [s] (fst v) = entry_vals marshal [s] (fst w)"
      using distinct_value_iff [of s marshal "fst v" "fst w"] by (auto simp: entry_object_def fun_eq_iff split: if_splits)
  next
    fix v w assume "v \<in> set ?VS" "w \<in> set ?VS"
    then show "row_le (sel_order (query_ast q)) (view_row marshal q v) (view_row marshal q w) = view_le q v w"
      by (intro row_le_view [OF assms(1), of v es w]) simp_all
  qed
  then obtain vs res where vs: "mset vs = mset ?VS" "sorted_wrt (view_le q) vs" "omap (Scan unmarshal rsel) rows = Ok res"
    "if s \<in> set distinct_ops then \<exists>ds. distinct ds \<and> set ds = ?g ` set vs \<and> res = up_to_limit q ds
     else res = up_to_limit q (map ?g vs)" unfolding limited_query by blast
  then have "answers q es res"
    using assms(2,3) unfolding answers_def by (intro exI [of _ vs]) auto
  with vs(3) show ?thesis by blast
qed

lemma compound_answers:
  assumes "wf_query q" "q_selector q = Some (CompoundSelector ss)" "length ss \<noteq> 1" "compileQueryRowSelector q = Ok rsel"
    and "\<And>e. e \<in> set es \<Longrightarrow> unmarshal (the (marshal (en_stmt e))) = Ok (en_stmt e)"
    and "list_all2 delivers rows out"
    and "returns (items_ast (joined q) (CompoundSelector ss)) (sel_order (query_ast q)) (if q_limit q > 0 then Some (q_limit q) else None)
       (map (view_row marshal q) (filter (view_holds q) (views q es))) out"
  shows "\<exists>res. omap (Scan unmarshal rsel) rows = Ok res \<and> answers q es res"
proof -
  let ?VS = "filter (view_holds q) (views q es)" and ?j = "joined q"
  have ss: "set ss \<subseteq> set simple_ops" using wf_query_wf_selector [OF assms(1,2)] by simp
  have items: "items_ast ?j (CompoundSelector ss) = Columns False (map (\<lambda>s. col_operand ?j (data_column s)) ss)"
    using assms(3) by simp
  have "omap (\<lambda>s. of_option e (makeSimpleRowSelector s)) ss = Ok (map (\<lambda>s. the (makeSimpleRowSelector s)) ss)" for e
    using ss simple_tables by (intro omap_total) fastforce
  with assms(2,4) have rsel: "rsel = RowSelectCompound ss (map (\<lambda>s. the (makeSimpleRowSelector s)) ss)"
    by (simp add: compileQueryRowSelector_def)
  have scan: "Scan unmarshal rsel row = Ok (entry_object ss (fst v))"
    if "v \<in> set ?VS" "delivers row (entry_vals marshal ss (fst v))" for v row
  proof -
    have "fst v \<in> set es" using that(1) by (auto simp: views_def split: if_splits)
    from scan_compound [where unmarshal = unmarshal, OF ss assms(5) [OF this] that(2)] show ?thesis unfolding rsel .
  qed
  have "\<exists>vs res. mset vs = mset ?VS \<and> sorted_wrt (view_le q) vs \<and> omap (Scan unmarshal rsel) rows = Ok res \<and>
      (if False then \<exists>ds. distinct ds \<and> set ds = (\<lambda>v. entry_object ss (fst v)) ` set vs \<and> res = limited (if q_limit q > 0 then Some (q_limit q) else None) ds
       else res = limited (if q_limit q > 0 then Some (q_limit q) else None) (map (\<lambda>v. entry_object ss (fst v)) vs))"
  proof (rule column_rows [OF assms(7) [unfolded items] assms(6) _ scan])
    fix v assume v: "v \<in> set ?VS"
    have "operand_val (view_row marshal q v) (col_operand ?j (data_column s)) = hd (entry_vals marshal [s] (fst v))" if "s \<in> set ss" for s
      using v that ss by (intro view_column [OF assms(1,2), of v es s marshal]) (auto simp only: items item_operands.simps set_map set_filter)
    then show "map (operand_val (view_row marshal q v)) (map (\<lambda>s. col_operand ?j (data_column s)) ss) = entry_vals marshal ss (fst v)"
      by (simp add: entry_vals_def)
  next
    fix v w assume "v \<in> set ?VS" "w \<in> set ?VS"
    then show "row_le (sel_order (query_ast q)) (view_row marshal q v) (view_row marshal q w) = view_le q v w"
      by (intro row_le_view [OF assms(1), of v es w]) simp_all
  next
    fix v w :: view assume False
    then show "entry_vals marshal ss (fst v) = entry_vals marshal ss (fst w)" ..
  qed
  then obtain vs res where vs: "mset vs = mset ?VS" "sorted_wrt (view_le q) vs" "omap (Scan unmarshal rsel) rows = Ok res"
    "res = up_to_limit q (map (\<lambda>v. entry_object ss (fst v)) vs)" unfolding limited_query by auto
  then have "answers q es res"
    using assms(2,3) unfolding answers_def by (intro exI [of _ vs]) auto
  with vs(3) show ?thesis by blast
qed

lemma count_distinct:
  assumes "s \<in> set distinct_ops"
  shows "card ((\<lambda>v. entry_key s (fst v)) ` V) = card ((\<lambda>v. entry_value s (fst v)) ` V)"
proof -
  define key where "key e = (case entry_key s e of VText x \<Rightarrow> x | _ \<Rightarrow> [])" for e
  have "entry_key s e = VText (key e) \<and> entry_value s e = RString (key e)" for e
    using assms unfolding distinct_ops_def list.set key_def
    by (elim insertE emptyE) (simp_all add: entry_key_def entry_value_def)
  then have "(\<lambda>v. entry_key s (fst v)) ` V = VText ` (\<lambda>v. key (fst v)) ` V"
    "(\<lambda>v. entry_value s (fst v)) ` V = RString ` (\<lambda>v. key (fst v)) ` V" by (simp_all add: image_image)
  then show ?thesis by (simp add: card_image inj_on_def)
qed

lemma function_answers:
  assumes "wf_query q" "q_selector q = Some (FunctionSelector op s)" "compileQueryColumns q j = Ok cols"
    and "compileQueryRowSelector q = Ok rsel" and "list_all2 delivers rows out"
    and "returns (items_ast (joined q) (FunctionSelector op s)) (sel_order (query_ast q)) (if q_limit q > 0 then Some (q_limit q) else None)
       (map (view_row marshal q) (filter (view_holds q) (views q es))) out"
  shows "\<exists>res. omap (Scan unmarshal rsel) rows = Ok res \<and> answers q es res"
proof -
  let ?VS = "filter (view_holds q) (views q es)"
  let ?a = "if s \<in> {''*'', ''body''} then ONum 1 else col_operand (joined q) s" and ?d = "s \<in> set distinct_ops"
  from assms(6) obtain ps where ps: "mset ps = mset (map (view_row marshal q) ?VS)"
    and out: "out = limited (if q_limit q > 0 then Some (q_limit q) else None) [[aggregate op ?d (map (\<lambda>r. operand_val r ?a) ps)]]"
    by auto
  have out: "out = [[aggregate op ?d (map (\<lambda>r. operand_val r ?a) ps)]]"
    using out by (simp add: limited_def take_Cons')
  from mset_unmap [OF ps] obtain vs where vs: "mset vs = mset ?VS" "ps = map (view_row marshal q) vs" by blast
  from mset_eq_setD [OF vs(1)] have set_vs: "set vs = set ?VS" .
  have key: "operand_val (view_row marshal q v) (col_operand (joined q) s) = entry_key s (fst v)"
    if "s \<in> set simple_ops" "s \<notin> {''*'', ''body''}" "v \<in> set vs" for v
  proof -
    have "v \<in> set (views q es)" using that(3) set_vs by simp
    from view_column [OF assms(1,2) this, of s marshal] that show ?thesis by (auto simp: data_column_def entry_vals_def)
  qed
  from assms(5) out obtain row where row: "rows = [row]" "delivers row [aggregate op ?d (map (\<lambda>r. operand_val r ?a) ps)]"
    by (auto simp: list_all2_Cons2)
  from assms(2,3) have check: "checkFunctionSelector op s" by (auto simp: compileQueryColumns_def split: if_splits)
  have s: "s \<in> set simple_ops" "op \<in> {''COUNT'', ''MIN'', ''MAX''}"
    using wf_query_wf_selector [OF assms(1,2)] by (simp_all add: function_ops_def)
  have "Scan unmarshal rsel row = Ok (function_answer op s vs)"
  proof (cases "op = ''COUNT''")
    case True
    have "aggregate op ?d (map (\<lambda>r. operand_val r ?a) ps) = VInteger (if ?d then int (card ((\<lambda>v. entry_value s (fst v)) ` set vs)) else int (length vs))"
    proof (cases ?d)
      case d: True
      then have "s \<notin> {''*'', ''body''}" by (auto simp: distinct_ops_def)
      with key [OF s(1)] have "set (map (\<lambda>r. operand_val r ?a) ps) = (\<lambda>v. entry_key s (fst v)) ` set vs"
        by (auto simp: vs(2) image_image)
      then have "length (remdups (map (\<lambda>r. operand_val r ?a) ps)) = card ((\<lambda>v. entry_value s (fst v)) ` set vs)"
        by (simp only: length_remdups_card_conv count_distinct [OF d])
      then show ?thesis using True d by (simp only: aggregate_def if_True refl)
    next
      case False
      with True show ?thesis by (simp add: aggregate_def vs(2))
    qed
    moreover have "rsel = RowSelectSimple RowSelectInt" using assms(2,4) True by (simp add: compileQueryRowSelector_def makeFunRowSelector_def)
    ultimately show ?thesis using row(2) True by (simp add: delivers_def cells_of_def function_answer_def)
  next
    case False
    with s(2) have op: "op \<in> {''MIN'', ''MAX''}" by simp
    with check have "s \<in> {''timestamp'', ''counter''}" by (auto simp: checkFunctionSelector_def functionAllowedSelectors_def)
    then have plain: "s \<notin> {''*'', ''body''}" and ints: "entry_key s (fst v) = VInteger (entry_int s (fst v))" for v :: view
      by (auto simp: entry_key_def entry_int_def)
    have "map (\<lambda>r. operand_val r ?a) ps = map VInteger (map (\<lambda>v. entry_int s (fst v)) vs)"
      using key [OF s(1) plain] plain by (simp add: vs(2) ints)
    from aggregate_ints [OF op, of ?d "map (\<lambda>v. entry_int s (fst v)) vs"]
    have "aggregate op ?d (map (\<lambda>r. operand_val r ?a) ps) =
        (if vs = [] then VNull else VInteger ((if op = ''MIN'' then Min else Max) ((\<lambda>v. entry_int s (fst v)) ` set vs)))"
      unfolding \<open>map (\<lambda>r. operand_val r ?a) ps = _\<close> by simp
    moreover have "rsel = RowSelectSimple RowSelectNullInt64" using assms(2,4) op by (auto simp: compileQueryRowSelector_def makeFunRowSelector_def)
    ultimately show ?thesis using row(2) False by (cases "vs = []") (simp_all add: delivers_def cells_of_def function_answer_def)
  qed
  with row(1) vs(1) assms(2) show ?thesis by (auto simp: answers_def)
qed

lemma query_answered:
  assumes "wf_query q" "CompileQuery q = Ok (sq, rsel)" "represents marshal (db_tables db) es" "sql_engine eng"
    and "\<And>st b. marshal st = Some b \<Longrightarrow> unmarshal b = Ok st"
  shows "\<exists>res. db_Query eng unmarshal q db = Ok res \<and> answers q es res"
proof -
  obtain sel where sel: "q_selector q = Some sel" using assms(1) by (rule wf_query_selector)
  obtain j cols where parts: "compileQueryColumns q j = Ok cols" "compileQueryRowSelector q = Ok rsel"
    using assms(2) by (rule compile_parts)
  obtain rows out where eng: "eng sq (db_tables db) = Ok (rows, None)" and out: "list_all2 delivers rows out"
    "returns (items_ast (joined q) sel) (sel_order (query_ast q)) (if q_limit q > 0 then Some (q_limit q) else None)
       (map (view_row marshal q) (filter (view_holds q) (views q es))) out"
    using query_engine [OF assms(1-4) sel] by blast
  have st: "unmarshal (the (marshal (en_stmt e))) = Ok (en_stmt e)" if "e \<in> set es" for e
    using assms(3,5) that by (auto simp: represents_def list_all_iff entry_ok_def)
  have "\<exists>res. omap (Scan unmarshal rsel) rows = Ok res \<and> answers q es res"
  proof (cases sel)
    case (SimpleSelector s)
    from simple_answers [OF assms(1) sel disjI1 [OF SimpleSelector] parts(2) st out] show ?thesis .
  next
    case (CompoundSelector ss)
    show ?thesis
    proof (cases "length ss = 1")
      case True
      then obtain s where "ss = [s]" by (cases ss) auto
      with CompoundSelector have "sel = CompoundSelector [s]" by simp
      from simple_answers [OF assms(1) sel disjI2 [OF this] parts(2) st out] show ?thesis .
    next
      case False
      from compound_answers [OF assms(1) sel [unfolded CompoundSelector] False parts(2) st out(1) out(2) [unfolded CompoundSelector]]
      show ?thesis .
    qed
  next
    case (FunctionSelector op s)
    from function_answers [OF assms(1) sel [unfolded FunctionSelector] parts out(1) out(2) [unfolded FunctionSelector]] show ?thesis .
  qed
  with eng assms(2) show ?thesis by (simp add: db_Query_def)
qed


section \<open>The entries under the operations\<close>

lemma entries_invariant:
  assumes "map_order rord"
  shows "table_invariant marshal rord (\<lambda>t. \<exists>es. represents marshal t es)"
proof
  fix t st bytes src refs
  assume "\<exists>es. represents marshal t es" "marshal st = Some bytes" "StatementSource st = Ok src" "StatementRefs st = Ok refs"
    "Id st \<notin> stmt_ids t"
  then show "\<exists>es. represents marshal (put_tables rord bytes src refs st t) es" using represents_put [OF _ _ _ _ _ assms] by blast
next
  fix t i assume "\<exists>es. represents marshal t es"
  then show "\<exists>es. represents marshal (delete_tables i t) es" using represents_delete [where ids = "[i]"] by fastforce
qed

lemma represents_empty: "represents marshal (db_tables empty_db) []"
  by (simp add: represents_def empty_db_def entry_tables_def)

text \<open>The tables are at all times those of a list of entries: an empty database is, and every operation,
  whether it succeeds or fails, leaves such tables when it finds them.\<close>

theorem db_keeps_entries:
  assumes "map_order rord" "\<exists>es. represents marshal (db_tables db) es"
  shows "(\<exists>es. represents marshal (db_tables (snd (db_Put fl rord marshal st db))) es) \<and>
    (\<exists>es. represents marshal (db_tables (snd (db_PutBatch fl rord marshal sts db))) es) \<and>
    (\<exists>es. represents marshal (db_tables (snd (db_Merge fl rord marshal st db))) es) \<and>
    (\<exists>es. represents marshal (db_tables (snd (db_MergeBatch fl rord marshal sts db))) es) \<and>
    (\<exists>es. represents marshal (db_tables (snd (db_Delete fl eng unmarshal q db))) es)"
proof -
  note inv = entries_invariant [OF assms(1), of marshal]
  show ?thesis
    using table_invariant.Put_keeps [OF inv assms(2)] table_invariant.PutBatch_keeps [OF inv assms(2)]
      table_invariant.Merge_keeps [OF inv assms(2)] table_invariant.MergeBatch_keeps [OF inv assms(2)]
      table_invariant.Delete_keeps [OF inv assms(2)] by blast
qed

section \<open>Agreement with the evaluator\<close>

text \<open>
  The criteria both read alike: the evaluator takes the publisher for the source and zero for the counter, and tests
  each reference criterion on all references of a statement.
\<close>

fun shared_criteria :: "QueryCriteria \<Rightarrow> bool" where
  "shared_criteria (ValueCriteria op sel val) = (sel \<noteq> ''source'')"
| "shared_criteria (RangeCriteria op sel val) = (sel \<noteq> ''counter'')"
| "shared_criteria (IndexCriteria sel val) = False"
| "shared_criteria (CompoundCriteria op l r) = (shared_criteria l \<and> shared_criteria r)"
| "shared_criteria (NegatedCriteria c) = shared_criteria c"

lemma shared_crit_view:
  "wf_criteria c \<Longrightarrow> shared_criteria c \<Longrightarrow> crit_view c (e, w) = crit_holds c (en_stmt e)"
  by (induction c) auto

lemma shared_no_index: "shared_criteria c \<Longrightarrow> \<not> isIndexCriteria c"
  by (induction c) auto

definition no_upper :: "string \<Rightarrow> bool" where
  "no_upper s \<longleftrightarrow> list_all (\<lambda>c. ascii_lower c = of_char c) s"

lemma no_upper_take: "no_upper s \<Longrightarrow> no_upper (take n s)"
  by (auto simp: no_upper_def list_all_iff dest: in_set_takeD)

lemma no_upper_lower: "no_upper s \<Longrightarrow> map ascii_lower s = map of_char s"
  by (simp add: no_upper_def list_all_iff)

lemma like_prefix_lower:
  assumes "no_upper pre" "no_upper s"
  shows "like_prefix pre s = HasPrefix s pre"
proof -
  have "inj (of_char :: char \<Rightarrow> nat)" by (simp add: inj_def)
  then have "map ascii_lower (take (length pre) s) = map ascii_lower pre \<longleftrightarrow> take (length pre) s = pre"
    unfolding no_upper_lower [OF no_upper_take [OF assms(2)]] no_upper_lower [OF assms(1)] by (rule inj_map_eq_map)
  then show ?thesis by (auto simp: like_prefix_def HasPrefix_code) (metis length_take min.absorb_iff2 nle_le)
qed

lemma ns_view_lower:
  assumes "no_upper ns" "no_upper s"
  shows "ns_view ns s = ns_holds ns s"
proof -
  from like_prefix_lower [OF no_upper_take [OF assms(1)] assms(2)] show ?thesis by (simp add: ns_view_def ns_holds_def)
qed

lemma entry_value_strip:
  assumes "s \<in> set simple_ops" "s \<noteq> ''counter''" "p_stmt p = en_stmt e" "bodies_set (en_stmt e)"
  shows "entry_value s e = strip (sel_value s p)"
proof -
  obtain src where src: "StatementSource (en_stmt e) = Ok src" using StatementSource_Ok [OF assms(4)] by blast
  show ?thesis
    by (rule simple_op_cases [OF assms(1)])
       (use assms(2,3) src in \<open>simp_all add: entry_value_def sel_value_def ok_value_def simpleSelectors_def source_of_def
          simpleSelectorAll_def simpleSelectorBody_def simpleSelectorId_def simpleSelectorPublisher_def
          simpleSelectorNamespace_def simpleSelectorSource_def simpleSelectorTimestamp_def option.map_comp comp_def option.map_ident\<close>)
qed

text \<open>The values of an answer without a limit.\<close>

lemma answers_set:
  assumes "answers q es res" "q_limit q = 0"
  shows "q_selector q = Some (SimpleSelector s) \<Longrightarrow>
      set res = (\<lambda>v. entry_value s (fst v)) ` set (filter (view_holds q) (views q es))"
    and "q_selector q = Some (CompoundSelector ss) \<Longrightarrow>
      set res = (\<lambda>v. entry_object ss (fst v)) ` set (filter (view_holds q) (views q es))"
proof -
  from assms(1) obtain vs where vs: "mset vs = mset (filter (view_holds q) (views q es))"
    and sel: "case q_selector q of
          None \<Rightarrow> False
        | Some (FunctionSelector op s) \<Rightarrow> res = [function_answer op s vs]
        | Some (SimpleSelector s) \<Rightarrow>
            sorted_wrt (view_le q) vs \<and>
            (if s \<in> set distinct_ops
             then \<exists>ds. distinct ds \<and> set ds = (\<lambda>v. entry_value s (fst v)) ` set vs \<and> res = up_to_limit q ds
             else res = up_to_limit q (map (\<lambda>v. entry_value s (fst v)) vs))
        | Some (CompoundSelector ss) \<Rightarrow>
            sorted_wrt (view_le q) vs \<and>
            (if length ss = 1 \<and> hd ss \<in> set distinct_ops
             then \<exists>ds. distinct ds \<and> set ds = (\<lambda>v. entry_object ss (fst v)) ` set vs \<and> res = up_to_limit q ds
             else res = up_to_limit q (map (\<lambda>v. entry_object ss (fst v)) vs))"
    unfolding answers_def by blast
  note set_vs = mset_eq_setD [OF vs]
  show "q_selector q = Some (SimpleSelector s) \<Longrightarrow>
      set res = (\<lambda>v. entry_value s (fst v)) ` set (filter (view_holds q) (views q es))"
    using sel assms(2) unfolding set_vs [symmetric] by (auto simp: up_to_limit_def split: if_splits)
  show "q_selector q = Some (CompoundSelector ss) \<Longrightarrow>
      set res = (\<lambda>v. entry_object ss (fst v)) ` set (filter (view_holds q) (views q es))"
    using sel assms(2) unfolding set_vs [symmetric] by (auto simp: up_to_limit_def split: if_splits)
qed

lemma shared_views:
  assumes "wf_query q" "pred_option shared_criteria (q_criteria q)" "no_upper (q_namespace q)"
    and "\<forall>e \<in> set es. no_upper (Namespace (en_stmt e))"
  shows "fst ` set (filter (view_holds q) (views q es)) = {e \<in> set es. ns_holds (q_namespace q) (Namespace (en_stmt e)) \<and>
      (case q_criteria q of None \<Rightarrow> True | Some c \<Rightarrow> crit_holds c (en_stmt e))}"
proof -
  have idx: "\<not> has_index q" using assms(2) shared_no_index by (auto simp: has_index_def split: option.splits)
  have "view_holds q (e, None) \<longleftrightarrow> ns_holds (q_namespace q) (Namespace (en_stmt e)) \<and>
      (case q_criteria q of None \<Rightarrow> True | Some c \<Rightarrow> crit_holds c (en_stmt e))" if "e \<in> set es" for e
  proof -
    have "wf_criteria c" "shared_criteria c" if "q_criteria q = Some c" for c using assms(1,2) that by (simp_all add: wf_query_def)
    with that assms(3,4) show ?thesis
      by (auto simp: view_holds_def ns_view_lower shared_crit_view split: option.splits)
  qed
  moreover have "fst ` set (filter (view_holds q) (views q es)) = {e \<in> set es. view_holds q (e, None)}"
    using idx by (auto simp: views_def image_iff)
  ultimately show ?thesis by auto
qed

lemma matching_views:
  assumes "wf_query q" "p_stmt ` set stmts = en_stmt ` set es" "pred_option shared_criteria (q_criteria q)"
    and "no_upper (q_namespace q)" "\<forall>e \<in> set es. no_upper (Namespace (en_stmt e))"
  shows "p_stmt ` set (matching q stmts) = en_stmt ` fst ` set (filter (view_holds q) (views q es))"
proof -
  let ?P = "\<lambda>st. ns_holds (q_namespace q) (Namespace st) \<and> (case q_criteria q of None \<Rightarrow> True | Some c \<Rightarrow> crit_holds c st)"
  have "p_stmt ` set (matching q stmts) = {st \<in> p_stmt ` set stmts. ?P st}" by (auto simp: matching_def query_holds_def)
  moreover have "en_stmt ` {e \<in> set es. ?P (en_stmt e)} = {st \<in> en_stmt ` set es. ?P st}" by auto
  ultimately show ?thesis using assms(2) shared_views [OF assms(1,3-5)] by simp
qed

lemma image_transfer:
  assumes "k ` A = l ` B" "\<And>e p. k p = l e \<Longrightarrow> e \<in> B \<Longrightarrow> f e = h (g p)"
  shows "f ` B = h ` g ` A"
proof (intro equalityI subsetI)
  fix x assume "x \<in> f ` B"
  then obtain e where e: "e \<in> B" "x = f e" by blast
  with assms(1) obtain p where p: "p \<in> A" "k p = l e" by (metis image_iff)
  from assms(2) [OF p(2) e(1)] e(2) p(1) show "x \<in> h ` g ` A" by simp
next
  fix x assume "x \<in> h ` g ` A"
  then obtain p where p: "p \<in> A" "x = h (g p)" by blast
  with assms(1) obtain e where e: "e \<in> B" "k p = l e" by blast
  from assms(2) [OF e(2,1)] p(2) e(1) show "x \<in> f ` B" by (metis image_eqI)
qed

text \<open>C39: The database and the in-memory evaluator agree: for a simple or compound select without a limit,
  over the same statements, the values the compiled SQL returns are the values the evaluator returns, as sets.
  The query uses neither the counter nor the criteria the two read differently, and
  its namespace and those of the statements have no upper-case letters, because LIKE ignores their case.\<close>

theorem query_agrees_with_eval:
  assumes "wf_query q" "CompileQuery q = Ok (sq, rsel)" "represents marshal (db_tables db) es" "sql_engine eng"
    and "\<And>st b. marshal st = Some b \<Longrightarrow> unmarshal b = Ok st"
    and "map_order sord" "map_order vord" "p_stmt ` set stmts = en_stmt ` set es"
    and "q_selector q = Some (CompoundSelector ss) \<or> (\<exists>s. ss = [s] \<and> q_selector q = Some (SimpleSelector s))"
    and "''counter'' \<notin> set ss" "q_limit q = 0" "pred_option shared_criteria (q_criteria q)"
    and "no_upper (q_namespace q)" "\<forall>e \<in> set es. no_upper (Namespace (en_stmt e))"
  shows "\<exists>res vals. db_Query eng unmarshal q db = Ok res \<and> EvalQuery sord vord q stmts = Ok vals \<and> set res = strip ` set vals"
proof -
  let ?V = "filter (view_holds q) (views q es)"
  obtain res where res: "db_Query eng unmarshal q db = Ok res" "answers q es res"
    using query_answered [where unmarshal = unmarshal and marshal = marshal, OF assms(1-5)] by blast
  have entries: "\<forall>e \<in> set es. bodies_set (en_stmt e)" using assms(3) by (simp add: represents_def list_all_iff entry_ok_def)
  then have bodies: "\<forall>p \<in> set stmts. bodies_set (p_stmt p)" using assms(8) by (metis image_iff)
  have sels: "set ss \<subseteq> set simple_ops" using assms(9) wf_query_wf_selector [OF assms(1)] by fastforce
  note match = matching_views [OF assms(1,8,12-14)]
  have vals: "entry_value s e = strip (sel_value s p)"
    if "p_stmt p = en_stmt e" "e \<in> fst ` set ?V" "s \<in> set ss" for s e p
  proof -
    have "e \<in> set es" using that(2) by (auto simp: views_def split: if_splits)
    with that sels assms(10) entries show ?thesis by (intro entry_value_strip) auto
  qed
  note transfer = image_transfer [OF match]
  from assms(9) show ?thesis
  proof
    assume sel: "q_selector q = Some (CompoundSelector ss)"
    have "entry_object ss e = strip (compound_value ss p)" if "p_stmt p = en_stmt e" "e \<in> fst ` set ?V" for e p
      using vals [OF that] by (auto simp: entry_object_def compound_value_def fun_eq_iff)
    then have "set res = strip ` compound_value ss ` set (matching q stmts)"
      using answers_set(2) [OF res(2) assms(11) sel] transfer [of "entry_object ss" strip "compound_value ss"] by (simp add: image_image)
    with res(1) EvalQuery_compound [OF assms(1,6) bodies sel] show ?thesis by auto
  next
    assume "\<exists>s. ss = [s] \<and> q_selector q = Some (SimpleSelector s)"
    then obtain s where s: "ss = [s]" and sel: "q_selector q = Some (SimpleSelector s)" by blast
    have "set res = strip ` sel_value s ` set (matching q stmts)"
      using answers_set(1) [OF res(2) assms(11) sel] transfer [of "entry_value s" strip "sel_value s"] vals s by (simp add: image_image)
    moreover have "EvalQuery sord vord q stmts = Ok (vord (foldl (keep_limited 0) [] (map (sel_value s) (matching q stmts))))"
      using EvalQuery_simple [OF assms(1,6) bodies sel] assms(11) by simp
    ultimately show ?thesis using res(1) by (simp add: map_order_set [OF assms(7)] keep_unlimited_set)
  qed
qed

section \<open>Deletion\<close>

lemma stream_omap: "omap (Scan unmarshal rsel) rows = Ok res \<Longrightarrow> stream_rows unmarshal rsel rows = Ok (map SVal res)"
  by (induction rows arbitrary: res) auto

lemma delete_loop_total:
  "\<exists>n'. deleteLoop (\<lambda>n. None) c (map (SVal \<circ> RString) ids) (Active t, n) = (Ok (c + int (length ids)), Active (fold delete_tables ids t), n')"
proof (induction ids arbitrary: c t n)
  case (Cons i ids)
  have "deleteOne (\<lambda>n. None) i (Active t, n) = (Ok (), Active (delete_tables i t), Suc (Suc (Suc n)))"
    by (simp add: deleteOne_def tx_bind_def or_rollback_None deleteStmtData_def deleteStmtEnvelope_def deleteStmtRefs_def delete_tables_def)
  with Cons.IH [of "c + 1" "delete_tables i t" "Suc (Suc (Suc n))"] show ?case by (auto simp: tx_bind_def)
qed (simp add: tx_return_def)

text \<open>What a DELETE streams: the ids of the matching entries.\<close>

lemma delete_stream:
  assumes "wf_query q" "q_Op q = OpDelete" "represents marshal (db_tables db) es" "sql_engine eng"
    and "\<And>st b. marshal st = Some b \<Longrightarrow> unmarshal b = Ok st"
  obtains vs where "mset vs = mset (filter (view_holds q) (views q es))"
    "db_QueryStream eng unmarshal q db = Ok (map (SVal \<circ> RString) (map (\<lambda>v. en_id (fst v)) (up_to_limit q vs)))"
proof -
  from assms(1,2) have sel: "q_selector q = Some (SimpleSelector ''id'')" by (simp add: wf_query_def)
  then have "\<exists>rs. makeResultSet q = Ok rs" by (simp add: makeResultSet_def simpleSelectors_def)
  with compile_accepts [OF assms(1)] obtain sq rsel where c: "CompileQuery q = Ok (sq, rsel)" by (metis surj_pair)
  from query_answered [where unmarshal = unmarshal and marshal = marshal, OF assms(1) c assms(3-5)] obtain res where res: "db_Query eng unmarshal q db = Ok res" "answers q es res"
    by blast
  from res(2) sel obtain vs where vs: "mset vs = mset (filter (view_holds q) (views q es))"
    "res = up_to_limit q (map (\<lambda>v. RString (en_id (fst v))) vs)"
    by (auto simp: answers_def entry_value_def distinct_ops_def)
  have "db_QueryStream eng unmarshal q db = Ok (map SVal res)"
    using res(1) c stream_omap by (auto simp: db_Query_def db_QueryStream_def)
  then show thesis by (intro that [OF vs(1)]) (simp add: vs(2) up_to_limit_def take_map)
qed

lemma deleted_views:
  assumes "wf_query q" "q_Op q = OpDelete" "represents marshal (db_tables db) es" "sql_engine eng"
    and "\<And>st b. marshal st = Some b \<Longrightarrow> unmarshal b = Ok st"
  obtains vs where "mset vs = mset (filter (view_holds q) (views q es))"
    "\<forall>fl c db'. db_Delete fl eng unmarshal q db = (Ok c, db') \<longrightarrow>
       c = int (length (up_to_limit q vs)) \<and>
       represents marshal (db_tables db') (filter (\<lambda>e. e \<notin> fst ` set (up_to_limit q vs)) es)"
    "db_open db = 0 \<longrightarrow> (\<exists>c. fst (db_Delete (\<lambda>n. None) eng unmarshal q db) = Ok c)"
proof -
  obtain vs where vs: "mset vs = mset (filter (view_holds q) (views q es))"
    and stream: "db_QueryStream eng unmarshal q db = Ok (map (SVal \<circ> RString) (map (\<lambda>v. en_id (fst v)) (up_to_limit q vs)))"
    using delete_stream [where unmarshal = unmarshal and marshal = marshal, OF assms] .
  let ?ids = "map (\<lambda>v. en_id (fst v)) (up_to_limit q vs)"
  have items: "string_items (map (SVal \<circ> RString) ids) = Some ids" for ids by (induction ids) simp_all
  have "distinct (map en_id es)" using assms(3) by (simp add: represents_def)
  then have inj: "inj_on en_id (set es)" by (simp add: distinct_map)
  have "set (up_to_limit q vs) \<subseteq> set (views q es)"
    using mset_eq_setD [OF vs] by (auto simp: up_to_limit_def split: if_splits dest: in_set_takeD)
  then have sub: "fst ` set (up_to_limit q vs) \<subseteq> set es" by (auto simp: views_def split: if_splits)
  have keep: "filter (\<lambda>e. en_id e \<notin> set ?ids) es = filter (\<lambda>e. e \<notin> fst ` set (up_to_limit q vs)) es"
  proof (rule filter_cong)
    fix e assume "e \<in> set es"
    then have "en_id e \<in> en_id ` fst ` set (up_to_limit q vs) \<longleftrightarrow> e \<in> fst ` set (up_to_limit q vs)"
      by (rule inj_on_image_mem_iff [OF inj _ sub])
    then show "(en_id e \<notin> set ?ids) = (e \<notin> fst ` set (up_to_limit q vs))" by (simp add: image_image)
  qed simp
  have one: "c = int (length (up_to_limit q vs)) \<and> represents marshal (db_tables db') (filter (\<lambda>e. e \<notin> fst ` set (up_to_limit q vs)) es)"
    if "db_Delete fl eng unmarshal q db = (Ok c, db')" for fl c db'
  proof -
    from that obtain ids where "string_items (map (SVal \<circ> RString) ?ids) = Some ids" "c = int (length ids)"
      "db_tables db' = fold delete_tables ids (db_tables db)" by (rule Delete_Ok) (auto simp: stream)
    then have "c = int (length ?ids)" "db_tables db' = fold delete_tables ?ids (db_tables db)" using items [of ?ids] by simp_all
    then show ?thesis using represents_delete [OF assms(3), of ?ids] unfolding keep by simp
  qed
  have total: "\<exists>c. fst (db_Delete (\<lambda>n. None) eng unmarshal q db) = Ok c" if "db_open db = 0"
  proof -
    have "\<exists>n'. deleteLoop (\<lambda>n. None) 0 (map (SVal \<circ> RString) ?ids) (Active (db_tables db), n) =
        (Ok (0 + int (length ?ids)), Active (fold delete_tables ?ids (db_tables db)), n')" for n by (rule delete_loop_total)
    from with_tx_total [where m = "deleteLoop (\<lambda>n. None) 0 (map (SVal \<circ> RString) ?ids)" and db = db, OF this that] show ?thesis using assms(2) stream by (auto simp: db_Delete_def)
  qed
  show thesis by (rule that [OF vs]) (use one total in simp_all)
qed

text \<open>C10: DELETE removes the statements of the rows its compiled SELECT selects: the entries of the selected views, up to the
  limit, are removed with their envelopes and references, every other entry is kept, the answer counts the views, and without a
  failure of the engine, and no transaction left open, the deletion succeeds. These are the statements whose namespace and criteria hold, as the
  evaluator reads them, when the query has no limit and no criterion on references or of those SQL reads otherwise, and no
  upper-case letters meet a wildcard; \<open>delete_takes_more\<close> shows where SQL selects more.\<close>

theorem db_delete_matching:
  assumes "wf_query q" "q_Op q = OpDelete" "represents marshal (db_tables db) es" "sql_engine eng"
    and "\<And>st b. marshal st = Some b \<Longrightarrow> unmarshal b = Ok st"
  shows "\<exists>vs. mset vs = mset (filter (view_holds q) (views q es)) \<and>
    (\<forall>fl c db'. db_Delete fl eng unmarshal q db = (Ok c, db') \<longrightarrow>
       c = int (length (up_to_limit q vs)) \<and>
       represents marshal (db_tables db') (filter (\<lambda>e. e \<notin> fst ` set (up_to_limit q vs)) es)) \<and>
    (db_open db = 0 \<longrightarrow> (\<exists>c. fst (db_Delete (\<lambda>n. None) eng unmarshal q db) = Ok c)) \<and>
    (q_limit q = 0 \<and> pred_option shared_criteria (q_criteria q) \<and> no_upper (q_namespace q) \<and>
       (\<forall>e \<in> set es. no_upper (Namespace (en_stmt e))) \<longrightarrow>
       fst ` set (up_to_limit q vs) = {e \<in> set es. ns_holds (q_namespace q) (Namespace (en_stmt e)) \<and>
         (case q_criteria q of None \<Rightarrow> True | Some c \<Rightarrow> crit_holds c (en_stmt e))})"
proof -
  obtain vs where vs: "mset vs = mset (filter (view_holds q) (views q es))"
    and del: "\<forall>fl c db'. db_Delete fl eng unmarshal q db = (Ok c, db') \<longrightarrow>
       c = int (length (up_to_limit q vs)) \<and>
       represents marshal (db_tables db') (filter (\<lambda>e. e \<notin> fst ` set (up_to_limit q vs)) es)"
    "db_open db = 0 \<longrightarrow> (\<exists>c. fst (db_Delete (\<lambda>n. None) eng unmarshal q db) = Ok c)"
    by (rule deleted_views [where unmarshal = unmarshal and marshal = marshal, OF assms])
  have shared: "fst ` set (up_to_limit q vs) = {e \<in> set es. ns_holds (q_namespace q) (Namespace (en_stmt e)) \<and>
         (case q_criteria q of None \<Rightarrow> True | Some c \<Rightarrow> crit_holds c (en_stmt e))}"
    if "q_limit q = 0" "pred_option shared_criteria (q_criteria q)" "no_upper (q_namespace q)" "\<forall>e \<in> set es. no_upper (Namespace (en_stmt e))"
    using shared_views [OF assms(1) that(2-4)] mset_eq_setD [OF vs] that(1) by (simp add: up_to_limit_def)
  show ?thesis
  proof (intro exI [of _ vs] conjI)
    show "\<forall>fl c db'. db_Delete fl eng unmarshal q db = (Ok c, db') \<longrightarrow>
       c = int (length (up_to_limit q vs)) \<and>
       represents marshal (db_tables db') (filter (\<lambda>e. e \<notin> fst ` set (up_to_limit q vs)) es)" by (rule del(1))
    show "db_open db = 0 \<longrightarrow> (\<exists>c. fst (db_Delete (\<lambda>n. None) eng unmarshal q db) = Ok c)" by (rule del(2))
    show "q_limit q = 0 \<and> pred_option shared_criteria (q_criteria q) \<and> no_upper (q_namespace q) \<and>
       (\<forall>e \<in> set es. no_upper (Namespace (en_stmt e))) \<longrightarrow>
       fst ` set (up_to_limit q vs) = {e \<in> set es. ns_holds (q_namespace q) (Namespace (en_stmt e)) \<and>
         (case q_criteria q of None \<Rightarrow> True | Some c \<Rightarrow> crit_holds c (en_stmt e))}" using shared by blast
  qed (rule vs)
qed

text \<open>Two ways in which a DELETE takes more than its text says. A criterion NOT \<open>wki = a\<close> holds of a statement that
  refers to \<open>a\<close> as soon as it refers to anything else, since the join tests one reference at a time; and a wildcard
  namespace is matched by LIKE, which does not look at the case of letters.\<close>

theorem delete_takes_more:
  assumes "wf_query q" "q_Op q = OpDelete" "q_limit q = 0" "represents marshal (db_tables db) es" "sql_engine eng"
    and "\<And>st b. marshal st = Some b \<Longrightarrow> unmarshal b = Ok st"
    and "db_Delete fl eng unmarshal q db = (Ok c, db')" "e \<in> set es"
    and "q_namespace q = ''*'' \<and> q_criteria q = Some (NegatedCriteria (IndexCriteria ''wki'' a)) \<and> b \<in> set (en_wkis e) \<and> b \<noteq> a \<or>
      q_namespace q = pre @ ''.*'' \<and> pre \<noteq> [] \<and> q_criteria q = None \<and>
        map ascii_lower (take (length pre) (Namespace (en_stmt e))) = map ascii_lower pre \<and> length pre \<le> length (Namespace (en_stmt e))"
  shows "en_id e \<notin> stmt_ids (db_tables db')"
proof -
  have v: "\<exists>w. (e, w) \<in> set (views q es) \<and> view_holds q (e, w)"
    using assms(9)
  proof (elim disjE conjE)
    assume "q_namespace q = ''*''" "q_criteria q = Some (NegatedCriteria (IndexCriteria ''wki'' a))" "b \<in> set (en_wkis e)" "b \<noteq> a"
    with assms(8) show ?thesis
      by (intro exI [of _ "Some b"]) (auto simp: views_def has_index_def view_holds_def ns_view_def)
  next
    assume "q_namespace q = pre @ ''.*''" "pre \<noteq> []" "q_criteria q = None"
      "map ascii_lower (take (length pre) (Namespace (en_stmt e))) = map ascii_lower pre" "length pre \<le> length (Namespace (en_stmt e))"
    with assms(8) show ?thesis
      by (intro exI [of _ None]) (auto simp: views_def has_index_def view_holds_def ns_view_def like_prefix_def)
  qed
  obtain vs where vs: "mset vs = mset (filter (view_holds q) (views q es))"
    and del: "\<forall>fl c db'. db_Delete fl eng unmarshal q db = (Ok c, db') \<longrightarrow>
       c = int (length (up_to_limit q vs)) \<and>
       represents marshal (db_tables db') (filter (\<lambda>e. e \<notin> fst ` set (up_to_limit q vs)) es)"
    by (rule deleted_views [where unmarshal = unmarshal and marshal = marshal, OF assms(1,2,4-6)])
  note rep = conjunct2 [OF del [rule_format, OF assms(7)]]
  have "e \<in> fst ` set (up_to_limit q vs)"
    using v mset_eq_setD [OF vs] assms(3) by (force simp: up_to_limit_def)
  moreover have "inj_on en_id (set es)" using assms(4) by (simp add: represents_def distinct_map)
  ultimately show ?thesis
    using represents_ids [OF rep] assms(8) by (auto simp: inj_on_def)
qed

section \<open>Examples\<close>

definition sample_entries :: "entry list" where
  "sample_entries =
     [\<lparr>en_counter = 1, en_stmt = DBCorrect.sample_stmt ''Qa'', en_wkis = [''r'']\<rparr>,
      \<lparr>en_counter = 2, en_stmt = DBCorrect.sample_stmt ''Qb'', en_wkis = [''r'']\<rparr>]"

definition sample_db :: sqldb where
  "sample_db = snd (db_PutBatch (\<lambda>n. None) (\<lambda>xs. xs) sample_marshal [DBCorrect.sample_stmt ''Qa'', DBCorrect.sample_stmt ''Qb''] empty_db)"

lemma sample_represents: "represents sample_marshal (db_tables sample_db) sample_entries"
proof -
  have "db_tables sample_db = entry_tables sample_marshal sample_entries 3" by code_simp
  then show ?thesis
    by (simp add: represents_def sample_entries_def entry_ok_def DBCorrect.sample_stmt_def sample_marshal_def refs_of_def)
qed

text \<open>SELECT COUNT(*) FROM * WHERE (wki = r AND NOT id = Qa).\<close>

definition count_query :: Query where
  "count_query = \<lparr>q_Op = OpSelect, q_namespace = ''*'', q_selector = Some (FunctionSelector ''COUNT'' ''*''),
     q_criteria = Some (CompoundCriteria ''AND'' (IndexCriteria ''wki'' ''r'') (NegatedCriteria (ValueCriteria ''='' ''id'' ''Qa''))),
     q_order = None, q_limit = 0\<rparr>"

lemma count_query_wf: "wf_query count_query"
  by (simp add: wf_query_def count_query_def wf_namespace_def function_ops_def simple_ops_def word_of_def wki_char_def id_char_def
      is_alnum_def is_alpha_def int64_max_def)


text \<open>SELECT id FROM ns WHERE publisher != q.\<close>

definition id_query :: Query where
  "id_query = \<lparr>q_Op = OpSelect, q_namespace = ''ns'', q_selector = Some (SimpleSelector ''id''),
     q_criteria = Some (ValueCriteria ''!='' ''publisher'' ''q''), q_order = None, q_limit = 0\<rparr>"

lemma id_query_wf: "wf_query id_query"
proof -
  have "wf_namespace ''ns''"
    unfolding wf_namespace_def
    by (intro disjI2 exI [of _ "[''ns'']"] exI [of _ False]) (simp add: ns_render_def word_of_def ns_char_def is_alnum_def is_alpha_def)
  then show ?thesis
    by (simp add: wf_query_def id_query_def simple_ops_def word_of_def is_alnum_def is_alpha_def int64_max_def)
qed

theorem query_agrees_with_eval_witness:
  "\<exists>res vals. db_Query reference_engine sample_unmarshal id_query sample_db = Ok res \<and>
     EvalQuery (\<lambda>xs. xs) rev id_query [\<lparr>p_addr = 1, p_body = 10, p_stmt = DBCorrect.sample_stmt ''Qb''\<rparr>,
       \<lparr>p_addr = 2, p_body = 20, p_stmt = DBCorrect.sample_stmt ''Qa''\<rparr>] = Ok vals \<and>
     set res = strip ` set vals"
proof -
  obtain sq where c: "CompileQuery id_query = Ok (sq, RowSelectSimple RowSelectString)"
  proof -
    have "(case CompileQuery id_query of Ok (sq, rs) \<Rightarrow> rs = RowSelectSimple RowSelectString | _ \<Rightarrow> False)" by code_simp
    with that show thesis by (auto split: outcome.splits prod.splits)
  qed
  have low: "no_upper ''ns''" by code_simp
  show ?thesis
    by (rule query_agrees_with_eval [where marshal = sample_marshal and es = sample_entries and ss = "[''id'']",
        OF id_query_wf c sample_represents reference_engine_ok sample_roundtrip map_order_id map_order_rev])
       (use low in \<open>auto simp: sample_entries_def id_query_def DBCorrect.sample_stmt_def\<close>)
qed

text \<open>DELETE FROM * WHERE id = Qa.\<close>

definition delete_query :: Query where
  "delete_query = \<lparr>q_Op = OpDelete, q_namespace = ''*'', q_selector = Some (SimpleSelector ''id''),
     q_criteria = Some (ValueCriteria ''='' ''id'' ''Qa''), q_order = None, q_limit = 0\<rparr>"

lemma delete_query_wf: "wf_query delete_query"
  by (simp add: wf_query_def delete_query_def wf_namespace_def simple_ops_def word_of_def id_char_def is_alnum_def is_alpha_def int64_max_def)

theorem db_delete_matching_witness:
  "let r = db_Delete (\<lambda>n. None) reference_engine sample_unmarshal delete_query sample_db
   in fst r = Ok 1 \<and> represents sample_marshal (db_tables (snd r)) [sample_entries ! 1]"
proof -
  let ?r = "db_Delete (\<lambda>n. None) reference_engine sample_unmarshal delete_query sample_db"
  have "q_Op delete_query = OpDelete" by (simp add: delete_query_def)
  moreover have "db_open sample_db = 0" by code_simp
  ultimately obtain vs c where vs: "mset vs = mset (filter (view_holds delete_query) (views delete_query sample_entries))" and c: "fst ?r = Ok c"
    and del: "\<And>fl c db'. db_Delete fl reference_engine sample_unmarshal delete_query sample_db = (Ok c, db') \<Longrightarrow>
       c = int (length (up_to_limit delete_query vs)) \<and>
       represents sample_marshal (db_tables db') (filter (\<lambda>e. e \<notin> fst ` set (up_to_limit delete_query vs)) sample_entries)"
    using db_delete_matching [where unmarshal = sample_unmarshal and marshal = sample_marshal, OF delete_query_wf _ sample_represents
      reference_engine_ok sample_roundtrip] by blast
  have F: "filter (view_holds delete_query) (views delete_query sample_entries) = [(sample_entries ! 0, None)]" by code_simp
  from vs [unfolded F] have "vs = [(sample_entries ! 0, None)]" by simp
  then have v: "up_to_limit delete_query vs = [(sample_entries ! 0, None)]" by (simp add: up_to_limit_def delete_query_def)
  have "filter (\<lambda>e. e \<noteq> sample_entries ! 0) sample_entries = [sample_entries ! 1]"
    by (simp add: sample_entries_def DBCorrect.sample_stmt_def)
  with del [of "\<lambda>n. None" c "snd ?r"] c v show ?thesis by (simp add: Let_def prod_eq_iff)
qed

text \<open>DELETE FROM * WHERE NOT wki = a, of a statement that refers to a and b.\<close>

definition refs_stmt :: statement where
  "refs_stmt = Statement ''Q1'' ''p'' ''ns'' (Some (StatementBody (Some (BodySimple
     \<lparr>s_Object = ''o'', s_Refs = [''a'', ''b''], s_Tags = [], s_Deps = []\<rparr>)))) 7 None"

definition refs_marshal :: "statement \<Rightarrow> string option" where
  "refs_marshal st = (if st = refs_stmt then Some ''1'' else None)"

definition refs_db :: sqldb where
  "refs_db = snd (db_Put (\<lambda>n. None) (\<lambda>xs. xs) refs_marshal refs_stmt empty_db)"

definition not_a_query :: Query where
  "not_a_query = \<lparr>q_Op = OpDelete, q_namespace = ''*'', q_selector = Some (SimpleSelector ''id''),
     q_criteria = Some (NegatedCriteria (IndexCriteria ''wki'' ''a'')), q_order = None, q_limit = 0\<rparr>"

theorem delete_takes_more_witness:
  "let r = db_Delete (\<lambda>n. None) reference_engine (\<lambda>b. Ok refs_stmt) not_a_query refs_db
   in fst r = Ok 1 \<and> ''a'' \<in> set (refs_of refs_stmt) \<and> ''Q1'' \<notin> stmt_ids (db_tables (snd r))"
proof -
  let ?r = "db_Delete (\<lambda>n. None) reference_engine (\<lambda>b. Ok refs_stmt) not_a_query refs_db"
  let ?e = "\<lparr>en_counter = 1, en_stmt = refs_stmt, en_wkis = [''a'', ''b'']\<rparr>"
  have wf: "wf_query not_a_query"
    by (simp add: wf_query_def not_a_query_def wf_namespace_def simple_ops_def word_of_def wki_char_def is_alnum_def is_alpha_def int64_max_def)
  have q: "q_Op not_a_query = OpDelete" "q_limit not_a_query = 0" "q_namespace not_a_query = ''*''"
    "q_criteria not_a_query = Some (NegatedCriteria (IndexCriteria ''wki'' ''a''))" by (simp_all add: not_a_query_def)
  have "db_tables refs_db = entry_tables refs_marshal [?e] 2" by code_simp
  then have rep: "represents refs_marshal (db_tables refs_db) [?e]"
    by (simp add: represents_def entry_ok_def refs_of_def refs_marshal_def) (simp add: refs_stmt_def)
  have m: "refs_marshal st = Some b \<Longrightarrow> Ok refs_stmt = Ok st" for st b by (simp add: refs_marshal_def split: if_splits)
  have r: "fst ?r = Ok 1" by code_simp
  then have "?r = (Ok 1, snd ?r)" by (metis prod.collapse)
  from delete_takes_more [where marshal = refs_marshal and unmarshal = "\<lambda>b. Ok refs_stmt" and e = ?e and a = "''a''" and b = "''b''",
      OF wf q(1,2) rep reference_engine_ok m this]
  have "Id refs_stmt \<notin> stmt_ids (db_tables (snd ?r))" by (simp add: q)
  with r show ?thesis by (simp add: Let_def refs_of_def refs_stmt_def)
qed

end
