(* ===== verification/Flags.thy ===== *)
theory Flags
  imports Prelude "HOL-Library.AList"
begin

text \<open>
  The command line of the daemons (\<open>mcnode/main.go\<close>, \<open>mcdir/main.go\<close>), parsed by Go's package \<open>flag\<close>: options of the types
  int, string and bool, their defaults, and what ends the parsing. Numbers are read in base 8, 10 or 16, as
  their prefix says.
\<close>

section \<open>Values\<close>

datatype flag_value = FInt int | FStr string | FBool bool

type_synonym flag_set = "(string \<times> flag_value) list"

text \<open>The value of a digit or a letter.\<close>

definition digit_of :: "char \<Rightarrow> int option" where
  "digit_of c =
     (let n = (of_char c :: int) in
      if 48 \<le> n \<and> n \<le> 57 then Some (n - 48)
      else if 97 \<le> n \<and> n \<le> 122 then Some (n - 87)
      else if 65 \<le> n \<and> n \<le> 90 then Some (n - 55)
      else None)"

fun digits_in :: "int \<Rightarrow> int \<Rightarrow> string \<Rightarrow> int option" where
  "digits_in base acc [] = Some acc"
| "digits_in base acc (c # s) =
     (case digit_of c of Some d \<Rightarrow> (if d < base then digits_in base (base * acc + d) s else None) | None \<Rightarrow> None)"

text \<open>The base of a number, and its digits.\<close>

fun number_base :: "string \<Rightarrow> int \<times> string" where
  "number_base (z # x # s) =
     (if z = CHR ''0'' then (if x = CHR ''x'' \<or> x = CHR ''X'' then (16, s) else (8, x # s)) else (10, z # x # s))"
| "number_base [z] = (if z = CHR ''0'' then (8, []) else (10, [z]))"
| "number_base [] = (10, [])"

text \<open>\<open>strconv.ParseInt(s, 0, 64)\<close>.\<close>

definition ParseInt :: "string \<Rightarrow> int outcome" where
  "ParseInt s =
     (let (neg, body) = (case s of c # r \<Rightarrow> (if c = CHR ''-'' then (True, r) else if c = CHR ''+'' then (False, r) else (False, s))
                           | [] \<Rightarrow> (False, []));
          (base, digits) = number_base body
      in if body = [] \<or> base = 16 \<and> digits = [] then Err (StrconvError s)
         else (case digits_in base 0 digits of
                 None \<Rightarrow> Err (StrconvError s)
               | Some n \<Rightarrow> (let i = (if neg then - n else n) in if in_int64 i then Ok i else Err (StrconvError s))))"

definition ParseBool :: "string \<Rightarrow> bool outcome" where
  "ParseBool s =
     (if s \<in> set [''1'', ''t'', ''T'', ''true'', ''TRUE'', ''True''] then Ok True
      else if s \<in> set [''0'', ''f'', ''F'', ''false'', ''FALSE'', ''False''] then Ok False
      else Err (StrconvError s))"

fun flag_Set :: "flag_value \<Rightarrow> string \<Rightarrow> flag_value outcome" where
  "flag_Set (FInt i) s = obind (ParseInt s) (\<lambda>n. Ok (FInt n))"
| "flag_Set (FStr t) s = Ok (FStr s)"
| "flag_Set (FBool b) s = obind (ParseBool s) (\<lambda>v. Ok (FBool v))"

section \<open>Parsing\<close>

text \<open>What one argument is: no flag, the end of the flags, or a flag with or without a value.\<close>

datatype arg_form = NoFlag | EndFlags | BadSyntax | FlagArg string "string option"

text \<open>The name and the value, split at the first \<open>=\<close> but not before the second character.\<close>

definition split_value :: "string \<Rightarrow> string \<times> string option" where
  "split_value name =
     (case Index (tl name) (CHR ''='') of None \<Rightarrow> (name, None) | Some i \<Rightarrow> (take (Suc i) name, Some (drop (Suc (Suc i)) name)))"

definition arg_form :: "string \<Rightarrow> arg_form" where
  "arg_form s =
     (if length s < 2 \<or> hd s \<noteq> CHR ''-'' then NoFlag
      else if s = ''--'' then EndFlags
      else (let name = (if s ! 1 = CHR ''-'' then drop 2 s else drop 1 s) in
            if name = [] \<or> hd name = CHR ''-'' \<or> hd name = CHR ''='' then BadSyntax
            else (case split_value name of (n, v) \<Rightarrow> FlagArg n v)))"

text \<open>The flags and the remaining arguments, or the complaint with which the program ends.\<close>

datatype flag_result = Parsed flag_set "string list" | BadFlags string

fun flag_Parse :: "flag_set \<Rightarrow> string list \<Rightarrow> flag_result" where
  "flag_Parse fs [] = Parsed fs []"
| "flag_Parse fs (s # args) =
     (case arg_form s of
        NoFlag \<Rightarrow> Parsed fs (s # args)
      | EndFlags \<Rightarrow> Parsed fs args
      | BadSyntax \<Rightarrow> BadFlags (''bad flag syntax: '' @ s)
      | FlagArg name val \<Rightarrow>
          (case map_of fs name of
             None \<Rightarrow> BadFlags (if name = ''help'' \<or> name = ''h'' then [] else ''flag provided but not defined: -'' @ name)
           | Some f \<Rightarrow>
               (case val of
                  Some v \<Rightarrow>
                    (case flag_Set f v of
                       Ok f' \<Rightarrow> flag_Parse (AList.update name f' fs) args
                     | _ \<Rightarrow> BadFlags (''invalid value for flag -'' @ name))
                | None \<Rightarrow>
                    (case (f, args) of
                       (FBool b, _) \<Rightarrow> flag_Parse (AList.update name (FBool True) fs) args
                     | (_, []) \<Rightarrow> BadFlags (''flag needs an argument: -'' @ name)
                     | (_, v # args') \<Rightarrow>
                         (case flag_Set f v of
                            Ok f' \<Rightarrow> flag_Parse (AList.update name f' fs) args'
                          | _ \<Rightarrow> BadFlags (''invalid value for flag -'' @ name))))))"

text \<open>Reading the variables the flags are bound to; a flag keeps its type, so the other cases do not arise.\<close>

definition flag_int :: "string \<Rightarrow> flag_set \<Rightarrow> int" where
  "flag_int name fs = (case map_of fs name of Some (FInt i) \<Rightarrow> i | _ \<Rightarrow> 0)"

definition flag_str :: "string \<Rightarrow> flag_set \<Rightarrow> string" where
  "flag_str name fs = (case map_of fs name of Some (FStr s) \<Rightarrow> s | _ \<Rightarrow> [])"

definition flag_bool :: "string \<Rightarrow> flag_set \<Rightarrow> bool" where
  "flag_bool name fs = (case map_of fs name of Some (FBool b) \<Rightarrow> b | _ \<Rightarrow> False)"

section \<open>Flags keep their names and types\<close>

fun same_kind :: "flag_value \<Rightarrow> flag_value \<Rightarrow> bool" where
  "same_kind (FInt i) (FInt j) = True"
| "same_kind (FStr s) (FStr t) = True"
| "same_kind (FBool b) (FBool c) = True"
| "same_kind _ _ = False"

lemma flag_Set_kind: "flag_Set f s = Ok f' \<Longrightarrow> same_kind f f'"
  by (cases f) auto

lemma same_kind_refl [simp]: "same_kind f f"
  by (cases f) simp_all

lemma same_kind_trans: "same_kind f g \<Longrightarrow> same_kind g h \<Longrightarrow> same_kind f h"
  by (cases f; cases g; cases h) simp_all

definition same_kinds :: "flag_set \<Rightarrow> flag_set \<Rightarrow> bool" where
  "same_kinds fs fs' \<longleftrightarrow> (\<forall>name. rel_option same_kind (map_of fs name) (map_of fs' name))"

lemma same_kinds_update:
  "map_of fs name = Some f \<Longrightarrow> same_kind f f' \<Longrightarrow> same_kinds (AList.update name f' fs) fs' \<Longrightarrow> same_kinds fs fs'"
proof -
  assume a: "map_of fs name = Some f" "same_kind f f'" and u: "same_kinds (AList.update name f' fs) fs'"
  have "rel_option same_kind (map_of fs n) (map_of fs' n)" for n
  proof (cases "n = name")
    case True
    with u have "rel_option same_kind (Some f') (map_of fs' name)" by (metis same_kinds_def update_conv fun_upd_same)
    with a True show ?thesis by (auto simp: option_rel_Some1 intro: same_kind_trans)
  next
    case False
    with u show ?thesis by (metis same_kinds_def update_conv fun_upd_other)
  qed
  then show ?thesis by (simp add: same_kinds_def)
qed

text \<open>Whatever the arguments are, the flags a program reads are those it has declared, with their types.\<close>

theorem flags_keep_types: "flag_Parse fs args = Parsed fs' rest \<Longrightarrow> same_kinds fs fs'"
proof (induction fs args rule: flag_Parse.induct)
  case (1 fs)
  then show ?case by (simp add: same_kinds_def option.rel_refl)
next
  case (2 fs s args)
  show ?case
  proof (cases "arg_form s")
    case (FlagArg name val)
    then obtain f where f: "map_of fs name = Some f" using "2.prems" by (auto split: option.splits)
    show ?thesis
    proof (cases val)
      case (Some v)
      with "2.prems" FlagArg f obtain f' where "flag_Set f v = Ok f'" "flag_Parse (AList.update name f' fs) args = Parsed fs' rest"
        by (auto split: outcome.splits)
      with "2.IH"(4) [OF FlagArg f Some] same_kinds_update [OF f flag_Set_kind] show ?thesis by blast
    next
      case None
      show ?thesis
      proof (cases "\<exists>b. f = FBool b")
        case True
        then obtain b where b: "f = FBool b" ..
        with "2.prems" FlagArg f None have "flag_Parse (AList.update name (FBool True) fs) args = Parsed fs' rest" by simp
        with "2.IH"(3) FlagArg f None b same_kinds_update [OF f, of "FBool True"] show ?thesis by simp
      next
        case False
        with "2.prems" FlagArg f None obtain v args' f' where a: "args = v # args'" "flag_Set f v = Ok f'"
          and p: "flag_Parse (AList.update name f' fs) args' = Parsed fs' rest"
          by (cases f; cases args) (auto split: outcome.splits)
        have "same_kinds (AList.update name f' fs) fs'"
        proof (cases f)
          case (FInt i)
          show ?thesis by (rule "2.IH"(1) [OF FlagArg f None refl FInt a p])
        next
          case (FStr t)
          show ?thesis by (rule "2.IH"(2) [OF FlagArg f None refl FStr a p])
        qed (use False in simp)
        with same_kinds_update [OF f flag_Set_kind [OF a(2)]] show ?thesis by blast
      qed
    qed
  qed (use "2.prems" in \<open>auto simp: same_kinds_def option.rel_refl\<close>)
qed

end
