(* ===== verification/Start.thy ===== *)
theory Start
  imports Flags Overlap OpenDB Mcid
begin

text \<open>
  The programs: what \<open>main\<close> does in \<open>mcnode/main.go\<close>, \<open>mcdir/main.go\<close> and \<open>mcid/main.go\<close>, from the command line to
  the state in which requests are served, with what it calls in \<open>mc/util.go\<close> and \<open>mc/version.go\<close>, and the end of a node
  (\<open>doShutdown\<close>). The home directory of a node is the state that outlives the process. What the
  operating system answers and the keys that are generated are parameters of every start. The machine of this
  theory starts, runs, stops and starts again; it refines the model of \<open>Overlap\<close>, which knows of restarts
  only that they happen.
\<close>

section \<open>Versions, addresses and hosts\<close>

definition ConcatVersion :: string where "ConcatVersion = ''1.7''"
definition Libp2pVersion :: string where "Libp2pVersion = ''go-libp2p/4.3.1''"

text \<open>The client version, under which a program identifies itself to its peers.\<close>

definition SetLibp2pClient :: "string \<Rightarrow> string" where
  "SetLibp2pClient prog = prog @ ''/'' @ ConcatVersion @ '' ('' @ Libp2pVersion @ '')''"

definition ParseAddress :: "('p, 'a) net_lib \<Rightarrow> string \<Rightarrow> 'a outcome" where
  "ParseAddress nl str = nl_NewMultiaddr nl str"

text \<open>The address a program listens on, at a port.\<close>

definition tcp_addr :: "int \<Rightarrow> string" where
  "tcp_addr port = ''/ip4/0.0.0.0/tcp/'' @ int_str port"

text \<open>
  A host: its peer store knows the keys of its own identity, and it listens on the address it was given, if any. Making the network
  and the host of it are calls of the library.
\<close>

record ('r, 'k, 'p) pstore =
  ks_priv :: "'p \<Rightarrow> 'r option"
  ks_pub :: "'p \<Rightarrow> 'k option"

definition NewHost ::
  "('r, 'k, 'p) key_lib \<Rightarrow> ('a list \<Rightarrow> 'p \<Rightarrow> ('r, 'k, 'p) pstore \<Rightarrow> 'n outcome) \<Rightarrow> ('n \<Rightarrow> 'o list \<Rightarrow> 'h) \<Rightarrow> 'p \<times> 'r \<Rightarrow> 'a option \<Rightarrow>
   'o list \<Rightarrow> 'h outcome" where
  "NewHost kl NewNetwork bhost_New i laddr opts =
     (case i of (pid, privk) \<Rightarrow>
        obind (NewNetwork (case laddr of Some a \<Rightarrow> [a] | None \<Rightarrow> []) pid
                 \<lparr>ks_priv = [pid \<mapsto> privk], ks_pub = [pid \<mapsto> kl_GetPublic kl privk]\<rparr>)
          (\<lambda>netw. Ok (bhost_New netw opts)))"

section \<open>Programs\<close>

text \<open>A program ends with a code and the lines it has printed, or it serves.\<close>

datatype 's program = Exit int "string list" | Running 's

text \<open>\<open>log.Fatal\<close> on an error; \<open>'d\<close> is what outlives the process. A panic ends it with code 2.\<close>

definition or_fatal :: "'x outcome \<times> 'd \<Rightarrow> ('x \<Rightarrow> 'd \<Rightarrow> 's program \<times> 'd) \<Rightarrow> 's program \<times> 'd" where
  "or_fatal r k =
     (case r of
        (Ok x, disk) \<Rightarrow> k x disk
      | (Err e, disk) \<Rightarrow> (Exit 1 [err_text e], disk)
      | (Panic m, disk) \<Rightarrow> (Exit 2 [m], disk))"

lemma or_fatal_simps [simp]:
  "or_fatal (Ok x, disk) k = k x disk" "or_fatal (Err e, disk) k = (Exit 1 [err_text e], disk)" "or_fatal (Panic m, disk) k = (Exit 2 [m], disk)"
  by (simp_all add: or_fatal_def)

text \<open>
  What a program is started with: its arguments, the expansion of \<open>~\<close>, the outcome of making its home directory,
  the key pair it generates for its identity when it needs one and the outcome of writing that.
\<close>

record ('r, 'k) launch =
  la_args :: "string list"
  la_expand :: "string \<Rightarrow> string outcome"
  la_mkdir :: "string \<Rightarrow> unit outcome"
  la_gen :: "('r \<times> 'k) outcome"
  la_write :: write_outcome

text \<open>The command line: usage errors, a wrong number of arguments, the version, or a start with the flags.\<close>

definition with_flags :: "flag_set \<Rightarrow> string list \<Rightarrow> (flag_set \<Rightarrow> 's program \<times> 'd) \<Rightarrow> 'd \<Rightarrow> 's program \<times> 'd" where
  "with_flags defaults args start disk =
     (case flag_Parse defaults args of
        BadFlags msg \<Rightarrow> (Exit 2 [msg], disk)
      | Parsed fs rest \<Rightarrow>
          (if length rest \<noteq> 0 then (Exit 1 [''Usage''], disk)
           else if flag_bool ''version'' fs then (Exit 0 [ConcatVersion], disk)
           else start fs))"

section \<open>The node\<close>

definition mcnode_flags :: flag_set where
  "mcnode_flags = [(''l'', FInt 9001), (''c'', FInt 9002), (''b'', FStr ''127.0.0.1''), (''d'', FStr ''~/.mediachain/mcnode''), (''version'', FBool False)]"

text \<open>The home directory: the key files, the configuration, the statement database and the datastore, with the calls made on them so far.\<close>

record node_home =
  dk_keys :: home_dir
  dk_conf :: conf_file
  dk_db :: db_file
  dk_dbtime :: nat
  dk_ds :: rocksdb

definition empty_home :: node_home where
  "empty_home = \<lparr>dk_keys = (\<lambda>name. Absent), dk_conf = NoFile, dk_db = DbAbsent, dk_dbtime = 0, dk_ds = empty_ds\<rparr>"

text \<open>
  The block cache of the datastore, in megabytes, from the variable \<open>MCBLOCKCACHESZ\<close> of the environment. It
  passes through a conversion to an unsigned word unchanged.
\<close>

definition block_cache :: "string \<Rightarrow> int" where
  "block_cache ev =
     (if ev \<noteq> [] then (case Atoi ev of Ok mb \<Rightarrow> if mb > 0 then mb else 64 | _ \<Rightarrow> 64) else 64)"

theorem block_cache_bounds: "0 < block_cache ev \<and> uint (word_of_int (block_cache ev) :: 64 word) = block_cache ev"
proof -
  have "0 < block_cache ev" by (auto simp: block_cache_def split: outcome.split)
  moreover have "block_cache ev \<le> int64_max"
    by (auto simp: block_cache_def int64_max_def in_int64_def dest!: Atoi_range split: outcome.split)
  ultimately show ?thesis by (simp add: uint_word_of_int int64_max_def)
qed

text \<open>\<open>rocks\<close> is the outcome of opening RocksDB, which makes an empty table when there is none.\<close>

definition ds_Open :: "(64 word \<Rightarrow> string \<Rightarrow> go_error option) \<Rightarrow> string \<Rightarrow> string \<Rightarrow> rocksdb \<Rightarrow> rocksdb outcome" where
  "ds_Open rocks ev home ds =
     (case rocks (word_of_int (block_cache ev)) home of Some e \<Rightarrow> Err e | None \<Rightarrow> Ok ds)"

record ('r, 'k) node_launch = "('r, 'k) launch" +
  la_pubgen :: "('r \<times> 'k) outcome"
  la_pubwrite :: write_outcome
  la_ord :: "(string \<times> json) list \<Rightarrow> (string \<times> json) list"
  la_mkdb :: "unit outcome"
  la_rocks :: "64 word \<Rightarrow> string \<Rightarrow> go_error option"
  la_env :: string
  la_listen :: "string \<Rightarrow> go_error option"

definition on_keys :: "(home_dir \<Rightarrow> 'x outcome \<times> home_dir) \<Rightarrow> node_home \<Rightarrow> 'x outcome \<times> node_home" where
  "on_keys f disk = (case f (dk_keys disk) of (r, keys) \<Rightarrow> (r, disk\<lparr>dk_keys := keys\<rparr>))"

definition rows_of :: "db_file \<Rightarrow> tables" where
  "rows_of file = (case file of DbFile schema t \<Rightarrow> t | _ \<Rightarrow> no_rows)"

text \<open>\<open>node.openDB\<close> and \<open>node.openDS\<close>. A database in memory is none of the disk.\<close>

definition openDB :: "faults \<Rightarrow> unit outcome \<Rightarrow> string \<Rightarrow> node_home \<Rightarrow> sqldb outcome \<times> node_home" where
  "openDB fl mkdir home disk =
     (case db_Open fl mkdir home (dk_dbtime disk) (dk_db disk) of
        (r, n, file) \<Rightarrow>
          (obind r (\<lambda>u. Ok \<lparr>db_tables = rows_of file, db_time = n, db_open = 0\<rparr>),
           disk\<lparr>dk_db := (if home = '':memory:'' then dk_db disk else file), dk_dbtime := n\<rparr>))"

definition openDS :: "(64 word \<Rightarrow> string \<Rightarrow> go_error option) \<Rightarrow> string \<Rightarrow> string \<Rightarrow> node_home \<Rightarrow> rocksdb outcome \<times> node_home" where
  "openDS rocks ev home disk = (ds_Open rocks ev home (dk_ds disk), disk)"

text \<open>A node that serves: its state, its private keys, its listening address and that of its API.\<close>

record ('r, 'p, 'a, 'h) started =
  st_node :: "('p, 'a, 'h) node"
  st_identity :: 'r
  st_publisher :: 'r
  st_laddr :: 'a
  st_haddr :: string

definition mcnode_start ::
  "('r, 'k, 'p) key_lib \<Rightarrow> ('k, 'p, 'a, 'h) api_env \<Rightarrow> ('r, 'k) node_launch \<Rightarrow> flag_set \<Rightarrow> node_home \<Rightarrow>
   ('r, 'p, 'a, 'h) started program \<times> node_home" where
  "mcnode_start kl A la fs disk =
     or_fatal (ParseAddress (ae_nl A) (tcp_addr (flag_int ''l'' fs)), disk) (\<lambda>addr disk.
     or_fatal (la_expand la (flag_str ''d'' fs), disk) (\<lambda>home disk.
     or_fatal (la_mkdir la home, disk) (\<lambda>u disk.
     or_fatal (on_keys (MakePeerIdentity kl (la_gen la) (la_write la)) disk) (\<lambda>(pid, privk) disk.
     or_fatal (on_keys (MakePublisherIdentity kl (la_pubgen la) (la_pubwrite la)) disk) (\<lambda>(id58, pubprivk) disk.
     or_fatal (case loadConfig (ae_nl A) (ae_mj A) (la_ord la) (dk_conf disk) fresh_conf of (r, conf) \<Rightarrow> (obind r (\<lambda>u. Ok conf), disk)) (\<lambda>conf disk.
     or_fatal (openDB (me_dbfl (ae_m A)) (la_mkdb la) home disk) (\<lambda>db disk.
     or_fatal (openDS (la_rocks la) (la_env la) home disk) (\<lambda>ds disk.
     let node = (fresh_node pid \<lparr>ID58 = id58, counter = 0\<rparr> conf (dk_conf disk))\<lparr>nd_db := db, nd_ds := ds\<rparr>;
         haddr = flag_str ''b'' fs @ '':'' @ int_str (flag_int ''c'' fs)
     in case la_listen la haddr of
          Some e \<Rightarrow> (Exit 1 [err_text e], disk)
        | None \<Rightarrow> (Running \<lparr>st_node = node, st_identity = privk, st_publisher = pubprivk, st_laddr = addr, st_haddr = haddr\<rparr>, disk)))))))))"

definition mcnode_main ::
  "('r, 'k, 'p) key_lib \<Rightarrow> ('k, 'p, 'a, 'h) api_env \<Rightarrow> ('r, 'k) node_launch \<Rightarrow> node_home \<Rightarrow>
   ('r, 'p, 'a, 'h) started program \<times> node_home" where
  "mcnode_main kl A la disk = with_flags mcnode_flags (la_args la) (\<lambda>fs. mcnode_start kl A la fs disk) disk"

text \<open>
  \<open>POST /shutdown\<close>: \<open>closed\<close> is the outcome of closing the statement database, which is only logged. What the stores
  hold stays on the disk; it stays, too, when the process is killed.
\<close>

definition doShutdown :: "go_error option \<Rightarrow> 's program" where
  "doShutdown closed =
     (case closed of
        Some e \<Rightarrow> Exit 0 [''Node shutdown'', ''Error closing StatementDB: '' @ err_text e]
      | None \<Rightarrow> Exit 0 [''Node shutdown''])"

definition httpShutdown :: "go_error option \<Rightarrow> 's program" where
  "httpShutdown closed = doShutdown closed"

definition left_on :: "node_home \<Rightarrow> ('p, 'a, 'h) node \<Rightarrow> node_home" where
  "left_on disk s =
     disk\<lparr>dk_conf := nd_file s,
          dk_db := (case dk_db disk of DbFile schema t \<Rightarrow> DbFile schema (db_tables (nd_db s)) | file \<Rightarrow> file),
          dk_dbtime := db_time (nd_db s), dk_ds := nd_ds s\<rparr>"

section \<open>The directory and the identity tool\<close>

definition mcdir_flags :: flag_set where
  "mcdir_flags = [(''l'', FInt 9000), (''d'', FStr ''~/.mediachain/mcdir''), (''version'', FBool False)]"

text \<open>A directory that serves: its state, its host, the protocols it handles and the addresses it has logged.\<close>

record ('p, 'a, 's, 'h) dir_started =
  sd_dir :: "('p, 'a, 's) Directory"
  sd_host :: 'h
  sd_protocols :: "string list"
  sd_log :: "string list"

text \<open>\<open>addrs\<close> are the addresses of a host.\<close>

definition mcdir_start ::
  "('r, 'k, 'p) key_lib \<Rightarrow> ('p, 'a) net_lib \<Rightarrow> ('a list \<Rightarrow> 'p \<Rightarrow> ('r, 'k, 'p) pstore \<Rightarrow> 'n outcome) \<Rightarrow> ('n \<Rightarrow> unit list \<Rightarrow> 'h) \<Rightarrow> ('h \<Rightarrow> 'a list) \<Rightarrow>
   ('r, 'k) launch \<Rightarrow> flag_set \<Rightarrow> home_dir \<Rightarrow> ('p, 'a, ('p, 'k) manifest_store, 'h) dir_started program \<times> home_dir" where
  "mcdir_start kl nl NewNetwork bhost_New addrs la fs disk =
     or_fatal (la_expand la (flag_str ''d'' fs), disk) (\<lambda>home disk.
     or_fatal (la_mkdir la home, disk) (\<lambda>u disk.
     or_fatal (MakePeerIdentity kl (la_gen la) (la_write la) disk) (\<lambda>(pid, privk) disk.
     or_fatal (ParseAddress nl (tcp_addr (flag_int ''l'' fs)), disk) (\<lambda>addr disk.
     or_fatal (NewHost kl NewNetwork bhost_New (pid, privk) (Some addr) [], disk) (\<lambda>host disk.
       (Running \<lparr>sd_dir = \<lparr>dir_peers = [], dir_mfs = NewManifestStore\<rparr>, sd_host = host,
          sd_protocols = [''/mediachain/dir/register'', ''/mediachain/dir/lookup'', ''/mediachain/dir/list'', ''/mediachain/dir/listns'', ''/mediachain/dir/listmf''],
          sd_log = map (\<lambda>a. ''I am '' @ nl_String nl a @ ''/p2p/'' @ nl_Pretty nl pid) (filter (\<lambda>a. \<not> IsLinkLocalAddr nl a) (addrs host))\<rparr>, disk))))))"

definition mcdir_main ::
  "('r, 'k, 'p) key_lib \<Rightarrow> ('p, 'a) net_lib \<Rightarrow> ('a list \<Rightarrow> 'p \<Rightarrow> ('r, 'k, 'p) pstore \<Rightarrow> 'n outcome) \<Rightarrow> ('n \<Rightarrow> unit list \<Rightarrow> 'h) \<Rightarrow> ('h \<Rightarrow> 'a list) \<Rightarrow>
   ('r, 'k) launch \<Rightarrow> home_dir \<Rightarrow> ('p, 'a, ('p, 'k) manifest_store, 'h) dir_started program \<times> home_dir" where
  "mcdir_main kl nl NewNetwork bhost_New addrs la disk =
     with_flags mcdir_flags (la_args la) (\<lambda>fs. mcdir_start kl nl NewNetwork bhost_New addrs la fs disk) disk"

text \<open>
  The commands of \<open>mcid\<close>, as the command line library reads them; a file that cannot be opened ends the program there. What a command prints is the
  text of a value that a library has encoded.
\<close>

datatype mcid_command = McidId | McidSign string "manifest_body outcome" | McidVerify "manifest outcome"

definition mcid_exit :: "('x \<Rightarrow> string) \<Rightarrow> 'x outcome \<times> 'd \<Rightarrow> unit program \<times> 'd" where
  "mcid_exit text r = or_fatal r (\<lambda>x disk. (Exit 0 [text x], disk))"

definition mcid_main ::
  "('r, 'k, 'p) key_lib \<Rightarrow> secret_lib \<Rightarrow> 'k manifest_lib \<Rightarrow> 'k entity_env \<Rightarrow> (json \<Rightarrow> string) \<Rightarrow> (manifest \<Rightarrow> string) \<Rightarrow>
   (conf_file \<Rightarrow> Identity outcome \<times> conf_file) \<Rightarrow> int \<Rightarrow> string outcome list \<Rightarrow> mcid_command \<Rightarrow> conf_file \<Rightarrow> unit program \<times> conf_file" where
  "mcid_main kl sl ml env json_text mf_text generate now prompts cmd file =
     (case cmd of
        McidId \<Rightarrow> mcid_exit json_text (doId generate file)
      | McidSign entity body \<Rightarrow> mcid_exit mf_text (doSign kl sl ml now prompts file entity body, file)
      | McidVerify mf \<Rightarrow> mcid_exit (\<lambda>u. ''OK'') (doVerify ml env mf, file))"

end
