(* ===== verification/Lifecycle.thy ===== *)
theory Lifecycle
  imports Start
begin

text \<open>
  The life of a node: it is started with a home directory, serves, stops or is killed between any two steps, and is
  started again, with other arguments or other luck, any number of times. What \<open>Overlap\<close> shows of a node holds for
  this machine, whose node signs with the key it has made and kept in its home.
\<close>

section \<open>The machine\<close>

text \<open>The environment of a node that signs with the key \<open>q\<close>.\<close>

definition keyed :: "('r, 'k, 'p) key_lib \<Rightarrow> ('k, 'p, 'a, 'h) api_env \<Rightarrow> 'r \<Rightarrow> ('k, 'p, 'a, 'h) api_env" where
  "keyed kl A q = A\<lparr>ae_m := (ae_m A)\<lparr>me_crypto := identity_crypto kl (cr_marshal (me_crypto (ae_m A))) q\<rparr>\<rparr>"

text \<open>A key pair that is generated belongs together. The flag for the home directory, expanded.\<close>

definition launch_ok :: "('r, 'k, 'p) key_lib \<Rightarrow> ('r, 'k) node_launch \<Rightarrow> bool" where
  "launch_ok kl la \<longleftrightarrow> (\<forall>r k. la_gen la = Ok (r, k) \<or> la_pubgen la = Ok (r, k) \<longrightarrow> k = kl_GetPublic kl r)"

definition home_arg :: "('r, 'k) node_launch \<Rightarrow> string outcome" where
  "home_arg la =
     (case flag_Parse mcnode_flags (la_args la) of
        Parsed fs rest \<Rightarrow> la_expand la (flag_str ''d'' fs)
      | BadFlags msg \<Rightarrow> Err (ExtErr msg))"

datatype ('r, 'k, 'p, 'a, 'h) machine =
  Stopped node_home
| Serving node_home 'r "('p, 'a, 'h) node" "'k task list"

inductive machine_step ::
  "('r, 'k, 'p) key_lib \<Rightarrow> ('k, 'p, 'a, 'h) api_env \<Rightarrow> string \<Rightarrow> ('r, 'k, 'p, 'a, 'h) machine \<Rightarrow> ('r, 'k, 'p, 'a, 'h) machine \<Rightarrow> bool"
  for kl A H where
  exits: "launch_ok kl la \<Longrightarrow> home_arg la = Ok H \<Longrightarrow> mcnode_main kl A la disk = (Exit c ls, disk') \<Longrightarrow>
    machine_step kl A H (Stopped disk) (Stopped disk')"
| starts: "launch_ok kl la \<Longrightarrow> home_arg la = Ok H \<Longrightarrow> mcnode_main kl A la disk = (Running st, disk') \<Longrightarrow>
    machine_step kl A H (Stopped disk) (Serving disk' (st_publisher st) (st_node st) [])"
| serves: "daemon_step (keyed kl A q) (s, ts) (s', ts') \<Longrightarrow> machine_step kl A H (Serving disk q s ts) (Serving disk q s' ts')"
| stops: "machine_step kl A H (Serving disk q s ts) (Stopped (left_on disk s))"

inductive machine_reach :: "('r, 'k, 'p) key_lib \<Rightarrow> ('k, 'p, 'a, 'h) api_env \<Rightarrow> string \<Rightarrow> ('r, 'k, 'p, 'a, 'h) machine \<Rightarrow> bool"
  for kl A H where
  new: "machine_reach kl A H (Stopped empty_home)"
| step: "machine_reach kl A H M \<Longrightarrow> machine_step kl A H M M' \<Longrightarrow> machine_reach kl A H M'"

lemma keyed_simps [simp]:
  "ae_nl (keyed kl A q) = ae_nl A" "ae_mj (keyed kl A q) = ae_mj A"
  "me_crypto (ae_m (keyed kl A q)) = identity_crypto kl (cr_marshal (me_crypto (ae_m A))) q"
  by (simp_all add: keyed_def)

section \<open>A start that works\<close>

lemma or_fatal_Running [simp]:
  "or_fatal r k = (Running st, d) \<longleftrightarrow> (\<exists>x d'. r = (Ok x, d') \<and> k x d' = (Running st, d))"
  by (auto simp: or_fatal_def split: prod.splits outcome.splits)

lemma no_rows_empty: "no_rows = db_tables empty_db"
  by (simp add: no_rows_def empty_db_def)

lemma rows_of_simps [simp]: "rows_of (DbFile schema t) = t" "rows_of DbAbsent = no_rows" "rows_of (DbNoStat e) = no_rows"
  by (simp_all add: rows_of_def)

lemma on_keys_Ok: "on_keys f disk = (r, disk') \<longleftrightarrow> (\<exists>keys. f (dk_keys disk) = (r, keys) \<and> disk' = disk\<lparr>dk_keys := keys\<rparr>)"
  by (auto simp: on_keys_def split: prod.splits)

text \<open>Opening a database on the disk: what it holds is what it held.\<close>

lemma db_Open_same: "home \<noteq> '':memory:'' \<Longrightarrow> db_Open fl mkdir home n (DbFile schema t) = (r, m, f) \<Longrightarrow> f = DbFile schema t"
  by (auto simp: db_Open_def split: outcome.splits prod.splits)

lemma db_Open_rows: "home \<noteq> '':memory:'' \<Longrightarrow> db_Open fl mkdir home n disk = (r, m, f) \<Longrightarrow> rows_of f = rows_of disk"
proof (cases disk)
  case DbAbsent
  then show "home \<noteq> '':memory:'' \<Longrightarrow> db_Open fl mkdir home n disk = (r, m, f) \<Longrightarrow> rows_of f = rows_of disk"
    by (auto simp: db_Open_def makeDB_def tuneDB_def Let_def split: outcome.splits prod.splits db_file.splits)
next
  case (DbNoStat e)
  then show "home \<noteq> '':memory:'' \<Longrightarrow> db_Open fl mkdir home n disk = (r, m, f) \<Longrightarrow> rows_of f = rows_of disk"
    by (auto simp: db_Open_def split: outcome.splits prod.splits)
qed (auto dest: db_Open_same)

definition kept_data :: "node_home \<Rightarrow> node_home \<Rightarrow> bool" where
  "kept_data disk disk' \<longleftrightarrow> dk_conf disk' = dk_conf disk \<and> rows_of (dk_db disk') = rows_of (dk_db disk) \<and>
     (\<forall>schema t. dk_db disk = DbFile schema t \<longrightarrow> dk_db disk' = dk_db disk) \<and> dk_ds disk' = dk_ds disk"

lemma openDB_kept:
  assumes "home \<noteq> '':memory:''" "openDB fl mkdir home disk = (r, disk')"
  shows "kept_data disk disk'" "dk_keys disk' = dk_keys disk"
    "\<And>db. r = Ok db \<Longrightarrow> db_tables db = rows_of (dk_db disk) \<and> (\<exists>schema. dk_db disk' = DbFile schema (rows_of (dk_db disk)) \<and> has_tables schema)"
proof -
  obtain r0 n f where o: "db_Open fl mkdir home (dk_dbtime disk) (dk_db disk) = (r0, n, f)" by (metis prod_cases3)
  with assms have d: "disk' = disk\<lparr>dk_db := f, dk_dbtime := n\<rparr>" and r: "r = obind r0 (\<lambda>u. Ok \<lparr>db_tables = rows_of f, db_time = n, db_open = 0\<rparr>)"
    by (simp_all add: openDB_def)
  from db_Open_rows [OF assms(1) o] have rows: "rows_of f = rows_of (dk_db disk)" .
  show "kept_data disk disk'" using d rows o db_Open_same [OF assms(1)] by (auto simp: kept_data_def)
  show "dk_keys disk' = dk_keys disk" using d by simp
  show "db_tables db = rows_of (dk_db disk) \<and> (\<exists>schema. dk_db disk' = DbFile schema (rows_of (dk_db disk)) \<and> has_tables schema)" if "r = Ok db" for db
  proof -
    from that r have r0: "r0 = Ok ()" and db: "db = \<lparr>db_tables = rows_of f, db_time = n, db_open = 0\<rparr>" by (cases r0; simp)+
    from conjunct1 [OF db_open_complete [OF assms(1) o]] r0 obtain schema t where "f = DbFile schema t" "has_tables schema" by blast
    with db d rows show ?thesis by auto
  qed
qed

text \<open>What a program that serves has done on its way.\<close>

lemma with_flags_Running [simp]:
  "with_flags defaults args start disk = (Running st, d) \<longleftrightarrow>
     (\<exists>fs. flag_Parse defaults args = Parsed fs [] \<and> \<not> flag_bool ''version'' fs \<and> start fs = (Running st, d))"
  by (auto simp: with_flags_def split: flag_result.splits)

lemma start_steps:
  "(case lc of (r, conf) \<Rightarrow> (obind r (\<lambda>u. Ok conf), disk)) = (Ok x, d) \<longleftrightarrow> lc = (Ok (), x) \<and> d = disk"
  "openDS rocks ev home disk = (Ok ds, d) \<longleftrightarrow> rocks (word_of_int (block_cache ev)) home = None \<and> ds = dk_ds disk \<and> d = disk"
  "(case l of Some e \<Rightarrow> (Exit 1 [err_text e], disk) | None \<Rightarrow> (Running sv, disk)) = (Running st, d) \<longleftrightarrow> l = None \<and> st = sv \<and> d = disk"
  by (cases lc; auto) (auto simp: openDS_def ds_Open_def split: option.splits)

lemma mcnode_main_Running:
  assumes "mcnode_main kl A la disk = (Running st, disk')" "home_arg la = Ok H" "H \<noteq> '':memory:''"
  obtains keys1 conf m schema where
    "MakePeerIdentity kl (la_gen la) (la_write la) (dk_keys disk) = (Ok (nd_identity (st_node st), st_identity st), keys1)"
    "MakePublisherIdentity kl (la_pubgen la) (la_pubwrite la) keys1 = (Ok (ID58 (nd_publisher (st_node st)), st_publisher st), dk_keys disk')"
    "loadConfig (ae_nl A) (ae_mj A) (la_ord la) (dk_conf disk) fresh_conf = (Ok (), conf)"
    "st_node st = (fresh_node (nd_identity (st_node st)) \<lparr>ID58 = ID58 (nd_publisher (st_node st)), counter = 0\<rparr> conf (dk_conf disk))
       \<lparr>nd_db := \<lparr>db_tables = rows_of (dk_db disk), db_time = m, db_open = 0\<rparr>, nd_ds := dk_ds disk\<rparr>"
    "kept_data disk disk'" "dk_db disk' = DbFile schema (rows_of (dk_db disk))" "has_tables schema"
proof -
  from assms(1) obtain fs where fs: "flag_Parse mcnode_flags (la_args la) = Parsed fs []" "mcnode_start kl A la fs disk = (Running st, disk')"
    by (auto simp: mcnode_main_def)
  from assms(2) fs(1) have "la_expand la (flag_str ''d'' fs) = Ok H" by (simp add: home_arg_def)
  with fs(2) obtain addr pid r keys1 id58 q keys2 conf db disk1 where
    k: "MakePeerIdentity kl (la_gen la) (la_write la) (dk_keys disk) = (Ok (pid, r), keys1)"
      "MakePublisherIdentity kl (la_pubgen la) (la_pubwrite la) keys1 = (Ok (id58, q), keys2)"
    and c: "loadConfig (ae_nl A) (ae_mj A) (la_ord la) (dk_conf disk) fresh_conf = (Ok (), conf)"
    and o: "openDB (me_dbfl (ae_m A)) (la_mkdb la) H (disk\<lparr>dk_keys := keys2\<rparr>) = (Ok db, disk')"
    and st: "st_node st = (fresh_node pid \<lparr>ID58 = id58, counter = 0\<rparr> conf (dk_conf disk'))\<lparr>nd_db := db, nd_ds := dk_ds disk'\<rparr>"
      "st_identity st = r" "st_publisher st = q"
    by (auto simp: mcnode_start_def on_keys_Ok start_steps Let_def)
  note ok = openDB_kept [OF assms(3) o]
  have kept: "kept_data disk disk'" using ok(1) by (simp add: kept_data_def)
  have nopen: "db_open db = 0" using o by (auto simp: openDB_def split: outcome.splits prod.splits)
  from ok(3) obtain schema where db: "db_tables db = rows_of (dk_db disk)"
    and sc: "dk_db disk' = DbFile schema (rows_of (dk_db disk))" "has_tables schema" by auto
  have ids: "nd_identity (st_node st) = pid" "nd_publisher (st_node st) = \<lparr>ID58 = id58, counter = 0\<rparr>" by (simp_all add: st fresh_node_def)
  show ?thesis
  proof (rule that [OF _ _ c _ kept sc])
    show "MakePeerIdentity kl (la_gen la) (la_write la) (dk_keys disk) = (Ok (nd_identity (st_node st), st_identity st), keys1)"
      using k ids st by simp
    show "MakePublisherIdentity kl (la_pubgen la) (la_pubwrite la) keys1 = (Ok (ID58 (nd_publisher (st_node st)), st_publisher st), dk_keys disk')"
      using k ids st ok(2) by simp
    show "st_node st = (fresh_node (nd_identity (st_node st)) \<lparr>ID58 = ID58 (nd_publisher (st_node st)), counter = 0\<rparr> conf (dk_conf disk))
       \<lparr>nd_db := \<lparr>db_tables = rows_of (dk_db disk), db_time = db_time db, db_open = 0\<rparr>, nd_ds := dk_ds disk\<rparr>"
      unfolding ids unfolding st(1) using kept db nopen by (cases db) (simp add: kept_data_def)
  qed
qed

section \<open>A start that fails\<close>

text \<open>The identities are made and kept in the home.\<close>

definition keeps_keys :: "('r, 'k, 'p) key_lib \<Rightarrow> home_dir \<Rightarrow> 'p \<Rightarrow> string \<Rightarrow> 'r \<Rightarrow> bool" where
  "keeps_keys kl keys pid id58 q \<longleftrightarrow>
     (\<exists>r. \<forall>gen wr. MakePeerIdentity kl gen wr keys = (Ok (pid, r), keys)) \<and>
     (\<forall>gen wr. MakePublisherIdentity kl gen wr keys = (Ok (id58, q), keys)) \<and> PublisherID58 kl (kl_GetPublic kl q) = Ok id58"

lemma keeps_keysD:
  "keeps_keys kl keys pid id58 q \<Longrightarrow> MakePeerIdentity kl gen wr keys = (Ok (i, r), keys') \<Longrightarrow> i = pid \<and> keys' = keys"
  "keeps_keys kl keys pid id58 q \<Longrightarrow> MakePublisherIdentity kl gen wr keys = (Ok (j, p), keys') \<Longrightarrow> j = id58 \<and> p = q \<and> keys' = keys"
  unfolding keeps_keys_def by (metis (no_types) outcome.inject(1) prod.inject)+

definition undisturbed :: "('r, 'k, 'p) key_lib \<Rightarrow> node_home \<Rightarrow> node_home \<Rightarrow> bool" where
  "undisturbed kl disk disk' \<longleftrightarrow> kept_data disk disk' \<and> (\<forall>pid id58 q. keeps_keys kl (dk_keys disk) pid id58 q \<longrightarrow> dk_keys disk' = dk_keys disk)"

lemma undisturbed_refl: "undisturbed kl disk disk"
  by (simp add: undisturbed_def kept_data_def)

lemma or_fatal_undisturbed:
  "undisturbed kl disk (snd r) \<Longrightarrow> (\<And>x d. r = (Ok x, d) \<Longrightarrow> undisturbed kl disk d \<Longrightarrow> undisturbed kl disk (snd (k x d))) \<Longrightarrow>
   undisturbed kl disk (snd (or_fatal r k))"
  by (cases r; cases "fst r") (auto simp: or_fatal_def)

lemma on_keys_undisturbed:
  assumes "undisturbed kl disk d"
    and "\<And>pid id58 q. keeps_keys kl (dk_keys disk) pid id58 q \<Longrightarrow> snd (f (dk_keys disk)) = dk_keys disk"
  shows "undisturbed kl disk (snd (on_keys f d))"
  using assms by (auto simp: undisturbed_def kept_data_def on_keys_def split: prod.split)

lemma make_identities_undisturbed:
  assumes "undisturbed kl disk d"
  shows "undisturbed kl disk (snd (on_keys (MakePeerIdentity kl gen wr) d))" "undisturbed kl disk (snd (on_keys (MakePublisherIdentity kl gen wr) d))"
proof -
  show "undisturbed kl disk (snd (on_keys (MakePeerIdentity kl gen wr) d))"
    by (rule on_keys_undisturbed [OF assms]) (metis keeps_keys_def snd_conv)
  show "undisturbed kl disk (snd (on_keys (MakePublisherIdentity kl gen wr) d))"
    by (rule on_keys_undisturbed [OF assms]) (metis keeps_keys_def snd_conv)
qed

lemma openDB_undisturbed:
  assumes "home \<noteq> '':memory:''" "undisturbed kl disk d"
  shows "undisturbed kl disk (snd (openDB fl mkdir home d))"
proof -
  obtain r d' where o: "openDB fl mkdir home d = (r, d')" by fastforce
  from openDB_kept(1,2) [OF assms(1) o] assms(2) o show ?thesis
    by (cases "dk_db disk") (auto simp: undisturbed_def kept_data_def)
qed

lemma mcnode_start_undisturbed:
  assumes "la_expand la (flag_str ''d'' fs) = Ok H" "H \<noteq> '':memory:''"
  shows "undisturbed kl disk (snd (mcnode_start kl A la fs disk))"
  unfolding mcnode_start_def Let_def
  by (intro or_fatal_undisturbed)
    (auto simp: undisturbed_refl make_identities_undisturbed assms openDS_def
      split: prod.splits option.splits intro!: openDB_undisturbed or_fatal_undisturbed)

lemma mcnode_main_undisturbed:
  "home_arg la = Ok H \<Longrightarrow> H \<noteq> '':memory:'' \<Longrightarrow> undisturbed kl disk (snd (mcnode_main kl A la disk))"
  by (auto simp: mcnode_main_def with_flags_def home_arg_def mcnode_start_undisturbed undisturbed_refl split: flag_result.splits)

section \<open>The machine refines the daemon\<close>

text \<open>A home holds the data of a node.\<close>

definition holds :: "node_home \<Rightarrow> ('p, 'a, 'h) node \<Rightarrow> bool" where
  "holds disk s \<longleftrightarrow> dk_conf disk = nd_file s \<and> rk_data (dk_ds disk) = rk_data (nd_ds s) \<and>
     (\<exists>schema. dk_db disk = DbFile schema (db_tables (nd_db s)) \<and> has_tables schema)"

text \<open>A daemon with tasks that have ended before the others makes the same steps.\<close>

lemma daemon_step_shift:
  assumes "daemon_step A (s, ts) (s', ts')"
  shows "daemon_step A (s, replicate n Ended @ ts) (s', replicate n Ended @ ts')"
  using assms
proof (cases rule: daemon_step.cases)
  case (merge_moves i honest items t t')
  with daemon_step.merge_moves [of "n + i" "replicate n Ended @ ts" honest items t A s t'] show ?thesis
    by (simp add: nth_append list_update_append)
next
  case (import_moves i cache vals sts r db)
  with daemon_step.import_moves [of "n + i" "replicate n Ended @ ts" cache vals sts A s r db] show ?thesis
    by (simp add: nth_append list_update_append)
next
  case (put_moves i data batch r ds)
  with daemon_step.put_moves [of "n + i" "replicate n Ended @ ts" data batch A s r ds] show ?thesis
    by (simp add: nth_append list_update_append)
next
  case (restarted ord s'' m k)
  with daemon_step.restarted [of A ord s s'' "replicate n Ended @ ts" m k] show ?thesis by (simp add: map_replicate_const replicate_add)
next
  case request
  with daemon_step.request [of A s s' "replicate n Ended @ ts"] show ?thesis by simp
next
  case (merge_starts body qs q peerId pid as wr answers items honest)
  with daemon_step.merge_starts [of body qs q A peerId pid as wr answers s items s' "replicate n Ended @ ts" honest] show ?thesis by simp
next
  case (push_starts pid nss msgs k sts err mdone honest)
  with daemon_step.push_starts [of s pid nss msgs k sts err mdone A "replicate n Ended @ ts" honest] show ?thesis by simp
next
  case (import_starts vals)
  with daemon_step.import_starts [of A s "replicate n Ended @ ts" vals] show ?thesis by simp
next
  case (put_starts objs batch)
  with daemon_step.put_starts [of objs batch A s "replicate n Ended @ ts"] show ?thesis by simp
qed

text \<open>A node that was reached, with the tasks \<open>ts\<close> of this run after those of earlier ones.\<close>

definition reached :: "('k, 'p, 'a, 'h) api_env \<Rightarrow> ('p, 'a, 'h) node \<Rightarrow> 'k task list \<Rightarrow> bool" where
  "reached E s ts \<longleftrightarrow> (\<exists>n. daemon_reach E (ID58 (nd_publisher s)) (s, replicate n Ended @ ts))"

lemma restart_Ok:
  assumes "loadConfig (ae_nl A) (ae_mj A) ord (nd_file s) fresh_conf = (Ok (), conf)"
  shows "restart A ord s =
    (Ok (), (fresh_node (nd_identity s) \<lparr>ID58 = ID58 (nd_publisher s), counter = 0\<rparr> conf (nd_file s))\<lparr>nd_db := (nd_db s)\<lparr>db_open := 0\<rparr>, nd_ds := nd_ds s\<rparr>)"
  by (simp add: restart_def assms)

text \<open>A start on the data of a node, the first one of a new node among them, is a restart.\<close>

lemma daemon_restarts:
  assumes "reached E s ts" "loadConfig (ae_nl E) (ae_mj E) ord (nd_file s) fresh_conf = (Ok (), conf)"
    and "db_tables db = db_tables (nd_db s)" "db_open db = 0" "rk_data ds = rk_data (nd_ds s)"
  shows "reached E ((fresh_node (nd_identity s) \<lparr>ID58 = ID58 (nd_publisher s), counter = 0\<rparr> conf (nd_file s))\<lparr>nd_db := db, nd_ds := ds\<rparr>) []"
proof -
  from assms(1) obtain n where r: "daemon_reach E (ID58 (nd_publisher s)) (s, replicate n Ended @ ts)" by (auto simp: reached_def)
  have "(nd_db s)\<lparr>db_open := 0, db_time := db_time db\<rparr> = db" "(nd_ds s)\<lparr>rk_time := rk_time ds\<rparr> = ds" using assms(3-5) by simp_all
  with daemon_reach.step [OF r daemon_step.restarted [OF restart_Ok [OF assms(2)], where m = "db_time db" and k = "rk_time ds"]]
  have "daemon_reach E (ID58 (nd_publisher s))
    ((fresh_node (nd_identity s) \<lparr>ID58 = ID58 (nd_publisher s), counter = 0\<rparr> conf (nd_file s))\<lparr>nd_db := db, nd_ds := ds\<rparr>, replicate (n + length ts) Ended @ [])"
    by (simp add: map_replicate_const replicate_add)
  then show ?thesis unfolding reached_def by (intro exI) (simp add: fresh_node_def)
qed

lemma reached_step:
  assumes "reached A s ts" "daemon_step A (s, ts) (s', ts')"
  shows "reached A s' ts'" "ID58 (nd_publisher s') = ID58 (nd_publisher s)" "nd_identity s' = nd_identity s"
proof -
  from assms(1) obtain n where r: "daemon_reach A (ID58 (nd_publisher s)) (s, replicate n Ended @ ts)" by (auto simp: reached_def)
  from daemon_reach_inv [OF r] have "list_all (task_ok (ae_m A)) (replicate n Ended @ ts)" by simp
  from daemon_step_effect [OF daemon_step_shift [OF assms(2)] this]
  show i: "ID58 (nd_publisher s') = ID58 (nd_publisher s)" "nd_identity s' = nd_identity s" by (simp_all add: node_effect_def)
  from daemon_reach.step [OF r daemon_step_shift [OF assms(2)]] i(1) show "reached A s' ts'" by (auto simp: reached_def)
qed

text \<open>Stopped, a home holds no data yet or what a reachable node has left; a node that serves is reachable.\<close>

fun machine_ok :: "('r, 'k, 'p) key_lib \<Rightarrow> ('k, 'p, 'a, 'h) api_env \<Rightarrow> ('r, 'k, 'p, 'a, 'h) machine \<Rightarrow> bool" where
  "machine_ok kl A (Stopped disk) \<longleftrightarrow>
     rows_of (dk_db disk) = no_rows \<and> rk_data (dk_ds disk) = [] \<or>
     (\<exists>q s ts. reached (keyed kl A q) s ts \<and>
        keeps_keys kl (dk_keys disk) (nd_identity s) (ID58 (nd_publisher s)) q \<and> holds disk s)"
| "machine_ok kl A (Serving disk q s ts) \<longleftrightarrow>
     reached (keyed kl A q) s ts \<and> keeps_keys kl (dk_keys disk) (nd_identity s) (ID58 (nd_publisher s)) q \<and>
     (\<exists>schema t. dk_db disk = DbFile schema t \<and> has_tables schema)"

lemma start_ok:
  assumes "key_lib_ok kl" "H \<noteq> '':memory:''" "launch_ok kl la" "home_arg la = Ok H" "mcnode_main kl A la disk = (Running st, disk')"
    and "machine_ok kl A (Stopped disk)"
  shows "machine_ok kl A (Serving disk' (st_publisher st) (st_node st) [])"
proof -
  obtain keys1 conf m schema where
    k: "MakePeerIdentity kl (la_gen la) (la_write la) (dk_keys disk) = (Ok (nd_identity (st_node st), st_identity st), keys1)"
      "MakePublisherIdentity kl (la_pubgen la) (la_pubwrite la) keys1 = (Ok (ID58 (nd_publisher (st_node st)), st_publisher st), dk_keys disk')"
    and c: "loadConfig (ae_nl A) (ae_mj A) (la_ord la) (dk_conf disk) fresh_conf = (Ok (), conf)"
    and st: "st_node st = (fresh_node (nd_identity (st_node st)) \<lparr>ID58 = ID58 (nd_publisher (st_node st)), counter = 0\<rparr> conf (dk_conf disk))
       \<lparr>nd_db := \<lparr>db_tables = rows_of (dk_db disk), db_time = m, db_open = 0\<rparr>, nd_ds := dk_ds disk\<rparr>"
    and d: "kept_data disk disk'" "dk_db disk' = DbFile schema (rows_of (dk_db disk))" "has_tables schema"
    by (rule mcnode_main_Running [OF assms(5,4,2)])
  from identities_stay [OF assms(1) _ k] assms(3)
  have keys: "keeps_keys kl (dk_keys disk') (nd_identity (st_node st)) (ID58 (nd_publisher (st_node st))) (st_publisher st)"
    unfolding keeps_keys_def launch_ok_def by blast
  have "reached (keyed kl A (st_publisher st)) (st_node st) []"
  proof (cases "rows_of (dk_db disk) = no_rows \<and> rk_data (dk_ds disk) = []")
    case True
    let ?new = "fresh_node (nd_identity (st_node st)) \<lparr>ID58 = ID58 (nd_publisher (st_node st)), counter = 0\<rparr> conf (dk_conf disk)"
    have "reached (keyed kl A (st_publisher st)) ?new []"
      unfolding reached_def by (rule exI [of _ 0]) (simp add: fresh_node_def [of _ "\<lparr>ID58 = _, counter = 0\<rparr>"] daemon_reach.start [unfolded fresh_node_def])
    from daemon_restarts [OF this, of "la_ord la" conf "\<lparr>db_tables = rows_of (dk_db disk), db_time = m, db_open = 0\<rparr>" "dk_ds disk"] c True
    show ?thesis by (subst st) (simp add: fresh_node_def no_rows_empty empty_ds_def)
  next
    case False
    with assms(6) obtain q s ts where r: "reached (keyed kl A q) s ts"
      "keeps_keys kl (dk_keys disk) (nd_identity s) (ID58 (nd_publisher s)) q" "holds disk s" by auto
    from r(2) k have same: "nd_identity (st_node st) = nd_identity s" "ID58 (nd_publisher (st_node st)) = ID58 (nd_publisher s)" "st_publisher st = q"
      by (auto dest: keeps_keysD)
    from daemon_restarts [OF r(1), of "la_ord la" conf "\<lparr>db_tables = rows_of (dk_db disk), db_time = m, db_open = 0\<rparr>" "dk_ds disk"] c r(3) same
    show ?thesis by (subst st) (auto simp: holds_def)
  qed
  with keys d show ?thesis by auto
qed

lemma machine_step_ok:
  assumes "machine_step kl A H M M'" "key_lib_ok kl" "H \<noteq> '':memory:''" "machine_ok kl A M"
  shows "machine_ok kl A M'"
  using assms(1)
proof (cases rule: machine_step.cases)
  case (exits la disk c ls disk')
  with mcnode_main_undisturbed [OF exits(4) assms(3), of kl disk A] have u: "undisturbed kl disk disk'" by simp
  show ?thesis
  proof (cases "rows_of (dk_db disk) = no_rows \<and> rk_data (dk_ds disk) = []")
    case True
    with u exits show ?thesis by (simp add: undisturbed_def kept_data_def)
  next
    case False
    with assms(4) exits obtain q s ts where "reached (keyed kl A q) s ts"
      "keeps_keys kl (dk_keys disk) (nd_identity s) (ID58 (nd_publisher s)) q" "holds disk s" by auto
    moreover from this u have "keeps_keys kl (dk_keys disk') (nd_identity s) (ID58 (nd_publisher s)) q" "holds disk' s"
      by (auto simp: undisturbed_def kept_data_def holds_def)
    ultimately show ?thesis using exits by auto
  qed
next
  case (starts la disk st disk')
  with start_ok [OF assms(2,3) starts(3,4,5)] assms(4) show ?thesis by simp
next
  case (serves q s ts s' ts' disk)
  with assms(4) reached_step [OF _ serves(3)] show ?thesis by simp
next
  case (stops disk q s ts)
  with assms(4) have "reached (keyed kl A q) s ts" "keeps_keys kl (dk_keys (left_on disk s)) (nd_identity s) (ID58 (nd_publisher s)) q"
    "holds (left_on disk s) s" by (auto simp: left_on_def holds_def)
  with stops show ?thesis by auto
qed

lemma machine_reach_ok: "machine_reach kl A H M \<Longrightarrow> key_lib_ok kl \<Longrightarrow> H \<noteq> '':memory:'' \<Longrightarrow> machine_ok kl A M"
  by (induction rule: machine_reach.induct) (auto simp: empty_home_def empty_ds_def dest: machine_step_ok)

section \<open>What a node stores in its life\<close>

text \<open>C1: Only authentic statements are ever stored: from the first start with an empty home on, however often the node stops, is killed,
  fails to start or is started again, and however its requests overlap and whatever fails meanwhile, every entry of its statement
  database is the encoding, under its own id, of a statement that is complete and whose signature verifies
  under the key of its publisher, whether it was published here, imported, merged from a peer or pushed by one. Hypotheses: the
  documented laws of the key library, and that base58 of the publisher's key is not empty.\<close>

theorem machine_authentic:
  assumes "key_lib_ok kl" "\<And>b. kl_pubBytes kl (kl_GetPublic kl q) = Ok b \<Longrightarrow> kl_Encode58 kl b \<noteq> []" "H \<noteq> '':memory:''"
    and "machine_reach kl A H (Serving disk q s ts)" "stored (nd_db s) i = Some b"
  shows "\<exists>st. cr_marshal (me_crypto (ae_m A)) st = Some b \<and> Id st = i \<and> authentic (identity_crypto kl (cr_marshal (me_crypto (ae_m A))) q) st"
proof -
  let ?E = "keyed kl A q"
  from machine_reach_ok [OF assms(4,1,3)] obtain n where r: "daemon_reach ?E (ID58 (nd_publisher s)) (s, replicate n Ended @ ts)"
    and k: "PublisherID58 kl (kl_GetPublic kl q) = Ok (ID58 (nd_publisher s))" by (auto simp: reached_def keeps_keys_def)
  from k assms(2) have "ID58 (nd_publisher s) \<noteq> []" by (auto simp: PublisherID58_def)
  moreover have "\<exists>k. PublisherKey (me_crypto (ae_m ?E)) (ID58 (nd_publisher s)) = Ok k \<and> cr_verify (me_crypto (ae_m ?E)) k m (Some sig) = Ok True"
    if "cr_sign (me_crypto (ae_m ?E)) m = Ok sig" for m sig
    using that PublisherID58_key [OF assms(1) k] assms(1) by (simp add: PublisherKey_def publisher_key_def identity_crypto_def key_lib_ok_def)
  ultimately show ?thesis using stored_authentic [OF r _ assms(5)] by (simp add: identity_crypto_def)
qed

section \<open>Starting again\<close>

text \<open>A start loses nothing: wherever it fails, the configuration, the statements and the objects in the home stay as they are, the database
  file is left alone once there is one, and so are the keys once both identities have been made.\<close>

theorem start_loses_nothing:
  assumes "home_arg la = Ok H" "H \<noteq> '':memory:''" "mcnode_main kl A la disk = (r, disk')"
  shows "dk_conf disk' = dk_conf disk \<and> rows_of (dk_db disk') = rows_of (dk_db disk) \<and> dk_ds disk' = dk_ds disk \<and>
    (dk_db disk = DbFile schema t \<longrightarrow> dk_db disk' = DbFile schema t) \<and> (keeps_keys kl (dk_keys disk) pid id58 q \<longrightarrow> dk_keys disk' = dk_keys disk)"
  using mcnode_main_undisturbed [OF assms(1,2), of kl disk A] assms(3) by (auto simp: undisturbed_def kept_data_def)

text \<open>C2: Starting a node again with its home is the restart of the model: with good arguments, and when nothing fails, what serves after
  the start is the node it was, with the same identities and keys, its statements and objects, the configuration
  it has saved, offline and with no task; or the program ends with the error that loading the saved configuration gives.\<close>

theorem start_again:
  assumes "key_lib_ok kl" "H \<noteq> '':memory:''" "machine_reach kl A H (Serving disk q s ts)"
    and "flag_Parse mcnode_flags (la_args la) = Parsed fs []" "\<not> flag_bool ''version'' fs" "la_expand la (flag_str ''d'' fs) = Ok H"
    and "nl_NewMultiaddr (ae_nl A) (tcp_addr (flag_int ''l'' fs)) = Ok addr"
    and "la_mkdir la H = Ok ()" "la_mkdb la = Ok ()" "\<And>n. me_dbfl (ae_m A) n = None" "\<And>n. la_rocks la n H = None" "\<And>a. la_listen la a = None"
  shows "case restart (keyed kl A q) (la_ord la) s of
      (Ok u, s') \<Rightarrow> (\<exists>st m disk'. mcnode_main kl A la (left_on disk s) = (Running st, disk') \<and> st_publisher st = q \<and>
        st_node st = s'\<lparr>nd_db := (nd_db s')\<lparr>db_time := m\<rparr>\<rparr>)
    | (Err e, s') \<Rightarrow> fst (mcnode_main kl A la (left_on disk s)) = Exit 1 [err_text e]
    | (Panic p, s') \<Rightarrow> fst (mcnode_main kl A la (left_on disk s)) = Exit 2 [p]"
proof -
  let ?disk = "left_on disk s"
  from machine_reach_ok [OF assms(3,1,2)] obtain schema t r where
    k: "\<And>gen wr. MakePeerIdentity kl gen wr (dk_keys ?disk) = (Ok (nd_identity s, r), dk_keys ?disk)"
      "\<And>gen wr. MakePublisherIdentity kl gen wr (dk_keys ?disk) = (Ok (ID58 (nd_publisher s), q), dk_keys ?disk)"
    and d: "dk_conf ?disk = nd_file s" "dk_db ?disk = DbFile schema (db_tables (nd_db s))" "has_tables schema" "dk_ds ?disk = nd_ds s"
    by (auto simp: keeps_keys_def left_on_def)
  have fl: "me_dbfl (ae_m A) = (\<lambda>n. None)" using assms(10) by (rule ext)
  have "fst (prepareStatements (\<lambda>n. None) (Suc (dk_dbtime ?disk)) schema) = Ok ()" by (rule prepareStatements_works [OF d(3)]) simp
  then obtain m where o: "db_Open (\<lambda>n. None) (Ok ()) H (dk_dbtime ?disk) (dk_db ?disk) = (Ok (), m, dk_db ?disk)"
    using assms(2) d(2) by (cases "prepareStatements (\<lambda>n. None) (Suc (dk_dbtime ?disk)) schema") (simp add: db_Open_def open_call_def)
  then have opened: "openDB (\<lambda>n. None) (Ok ()) H ?disk = (Ok \<lparr>db_tables = db_tables (nd_db s), db_time = m, db_open = 0\<rparr>, ?disk\<lparr>dk_dbtime := m\<rparr>)"
    using assms(2) d(2) by (simp add: openDB_def)
  obtain rc conf where c: "loadConfig (ae_nl A) (ae_mj A) (la_ord la) (nd_file s) fresh_conf = (rc, conf)" by fastforce
  note main = mcnode_main_def with_flags_def mcnode_start_def ParseAddress_def on_keys_def openDS_def ds_Open_def
  show ?thesis
  proof (cases rc)
    case (Ok u)
    with c have r: "restart (keyed kl A q) (la_ord la) s = (Ok (), (fresh_node (nd_identity s) \<lparr>ID58 = ID58 (nd_publisher s), counter = 0\<rparr> conf (nd_file s))
      \<lparr>nd_db := (nd_db s)\<lparr>db_open := 0\<rparr>, nd_ds := nd_ds s\<rparr>)" by (simp add: restart_Ok)
    show ?thesis unfolding r using c Ok assms(2)
      by (simp add: main assms(4-9,11,12) k fl opened d) (rule exI [of _ m], simp add: fresh_node_def)
  next
    case (Err e)
    with c have "restart (keyed kl A q) (la_ord la) s = (Err e, s)" by (simp add: restart_def)
    with c Err show ?thesis by (simp add: main assms(4-9,11,12) k d)
  next
    case (Panic p)
    with c have "restart (keyed kl A q) (la_ord la) s = (Panic p, s)" by (simp add: restart_def)
    with c Panic show ?thesis by (simp add: main assms(4-9,11,12) k d)
  qed
qed

section \<open>A first start\<close>

definition sample_launch :: "(string, string) node_launch" where
  "sample_launch = \<lparr>la_args = [], la_expand = (\<lambda>d. Ok ''home''), la_mkdir = (\<lambda>h. Ok ()), la_gen = Ok (''node'', ''node''), la_write = (None, Absent),
     la_pubgen = Ok (''me'', ''me''), la_pubwrite = (None, Absent), la_ord = (\<lambda>xs. xs), la_mkdb = Ok (), la_rocks = (\<lambda>n h. None), la_env = [],
     la_listen = (\<lambda>a. None)\<rparr>"

definition first_node :: "(nat, string, string) node" where
  "first_node = (fresh_node 4 \<lparr>ID58 = ''me'', counter = 0\<rparr> fresh_conf NoFile)\<lparr>nd_db := \<lparr>db_tables = no_rows, db_time = 17, db_open = 0\<rparr>\<rparr>"

lemma sample_launch_simps [simp]:
  "la_args sample_launch = []" "la_expand sample_launch d = Ok ''home''" "la_mkdir sample_launch h = Ok ()" "la_mkdb sample_launch = Ok ()"
  "la_rocks sample_launch n h = None" "la_listen sample_launch a = None" "la_ord sample_launch = (\<lambda>xs. xs)"
  by (simp_all add: sample_launch_def)

lemma sample_launch_ok: "launch_ok sample_kl sample_launch" "home_arg sample_launch = Ok ''home''"
  by (auto simp: launch_ok_def home_arg_def sample_launch_def sample_kl_def)

lemma sample_identity: "identity_crypto sample_kl (cr_marshal publish_crypto) ''me'' = publish_crypto"
  by (simp add: identity_crypto_def sample_kl_def publish_crypto_def sample_crypto_def)

lemma sample_keyed: "keyed sample_kl sample_api ''me'' = sample_api"
  by (simp add: keyed_def sample_identity sample_api_def)

lemma first_start:
  "\<exists>st disk. mcnode_main sample_kl sample_api sample_launch empty_home = (Running st, disk) \<and> st_publisher st = ''me'' \<and> st_node st = first_node"
proof -
  have fl: "me_dbfl (ae_m sample_api) = (\<lambda>n. None)" by (rule ext) simp
  have peer: "MakePeerIdentity sample_kl (Ok (''node'', ''node'')) (None, Absent) (\<lambda>n. Absent) = (Ok (4, ''node''), (\<lambda>n. Absent)(''identity.node'' := Contents ''node''))"
    by (simp add: peer_identity_defs make_identity_def generate_identity_def saveKey_def WriteFile_def sample_kl_def)
  have pub: "MakePublisherIdentity sample_kl (Ok (''me'', ''me'')) (None, Absent) ((\<lambda>n. Absent)(''identity.node'' := Contents ''node'')) =
      (Ok (''me'', ''me''), (\<lambda>n. Absent)(''identity.node'' := Contents ''node'', ''identity.publisher'' := Contents ''me''))"
    by (simp add: publisher_identity_defs make_identity_def generate_identity_def saveKey_def WriteFile_def sample_kl_def PublisherID58_def)
  have "(case db_Open (\<lambda>n. None) (Ok ()) ''home'' 0 DbAbsent of (r, n, f) \<Rightarrow> r = Ok () \<and> n = 17 \<and> rows_of f = no_rows)" by code_simp
  then obtain f where opened: "db_Open (\<lambda>n. None) (Ok ()) ''home'' 0 DbAbsent = (Ok (), 17, f)" "rows_of f = no_rows" by auto
  show ?thesis
    by (simp add: mcnode_main_def with_flags_def mcnode_flags_def flag_bool_def flag_int_def flag_str_def mcnode_start_def sample_launch_def empty_home_def
        ParseAddress_def text_lib_def on_keys_def peer pub loadConfig_def openDB_def opened openDS_def ds_Open_def fl first_node_def fresh_node_def)
qed

definition first_published :: "(nat, string, string) node" where
  "first_published = snd (httpPublish sample_api (\<lambda>x. 7) ''ns'' sample_posted first_node)"

lemma first_life: "\<exists>disk. machine_reach sample_kl sample_api ''home'' (Serving disk ''me'' first_published [])"
proof -
  from first_start obtain st disk where st: "mcnode_main sample_kl sample_api sample_launch empty_home = (Running st, disk)"
    "st_publisher st = ''me''" "st_node st = first_node" by blast
  have "machine_reach sample_kl sample_api ''home'' (Serving disk ''me'' first_node [])"
    using machine_reach.step [OF machine_reach.new machine_step.starts [OF sample_launch_ok st(1)]] st(2,3) by simp
  moreover have "httpPublish sample_api (\<lambda>x. 7) ''ns'' sample_posted first_node =
      (fst (httpPublish sample_api (\<lambda>x. 7) ''ns'' sample_posted first_node), first_published)" by (simp add: first_published_def)
  then have "node_step sample_api first_node first_published" by (rule node_step.publish) simp
  then have "daemon_step sample_api (first_node, []) (first_published, [])" by (rule daemon_step.request)
  ultimately have "machine_reach sample_kl sample_api ''home'' (Serving disk ''me'' first_published [])"
    using machine_reach.step [OF _ machine_step.serves [of sample_kl sample_api "''me''" first_node "[]" first_published "[]", unfolded sample_keyed]] by blast
  then show ?thesis by blast
qed

theorem machine_authentic_witness:
  "\<exists>st. cr_marshal publish_crypto st = Some ''s'' \<and> Id st = ''me:7:0'' \<and> authentic publish_crypto st"
proof -
  from first_life obtain disk where r: "machine_reach sample_kl sample_api ''home'' (Serving disk ''me'' first_published [])" ..
  have "stored (nd_db first_published) ''me:7:0'' = Some ''s''" unfolding first_published_def by code_simp
  from machine_authentic [OF sample_kl_ok _ _ r this] show ?thesis by (simp add: sample_identity) (simp add: sample_kl_def)
qed

theorem start_loses_nothing_witness:
  "\<exists>e disk'. mcnode_main sample_kl sample_api (sample_launch\<lparr>la_pubgen := Err (ExtErr ''entropy'')\<rparr>) empty_home = (Exit 1 [''entropy''], disk') \<and>
     dk_conf disk' = NoFile \<and> rows_of (dk_db disk') = no_rows \<and> dk_ds disk' = empty_ds"
proof -
  let ?la = "sample_launch\<lparr>la_pubgen := Err (ExtErr ''entropy'')\<rparr>"
  have "fst (mcnode_main sample_kl sample_api ?la empty_home) = Exit 1 [''entropy'']"
    by (simp add: mcnode_main_def with_flags_def mcnode_flags_def flag_bool_def flag_int_def flag_str_def mcnode_start_def sample_launch_def empty_home_def
        ParseAddress_def text_lib_def on_keys_def peer_identity_defs publisher_identity_defs make_identity_def generate_identity_def saveKey_def
        WriteFile_def sample_kl_def)
  moreover have "home_arg ?la = Ok ''home''" by (simp add: home_arg_def sample_launch_def)
  ultimately show ?thesis
    using start_loses_nothing [of ?la "''home''" sample_kl sample_api empty_home] by (cases "mcnode_main sample_kl sample_api ?la empty_home") (auto simp: empty_home_def)
qed

theorem start_again_witness:
  "\<exists>disk st disk'. mcnode_main sample_kl sample_api sample_launch (left_on disk first_published) = (Running st, disk') \<and>
     stored (nd_db (st_node st)) ''me:7:0'' = Some ''s'' \<and> ID58 (nd_publisher (st_node st)) = ''me'' \<and> st_publisher st = ''me''"
proof -
  from first_life obtain disk where r: "machine_reach sample_kl sample_api ''home'' (Serving disk ''me'' first_published [])" ..
  have "nd_file first_published = NoFile" "stored (nd_db first_published) ''me:7:0'' = Some ''s''" "ID58 (nd_publisher first_published) = ''me''"
    unfolding first_published_def by code_simp+
  note node = this
  obtain fs addr where "flag_Parse mcnode_flags (la_args sample_launch) = Parsed fs []" "\<not> flag_bool ''version'' fs"
    "nl_NewMultiaddr (ae_nl sample_api) (tcp_addr (flag_int ''l'' fs)) = Ok addr"
    by (simp add: mcnode_flags_def flag_bool_def text_lib_def)
  note again = start_again [OF sample_kl_ok _ r this(1,2) _ this(3)]
  from again node(1) obtain st m disk' where "mcnode_main sample_kl sample_api sample_launch (left_on disk first_published) = (Running st, disk')"
    "st_publisher st = ''me''"
    "st_node st = (fresh_node (nd_identity first_published) \<lparr>ID58 = ''me'', counter = 0\<rparr> fresh_conf NoFile)
       \<lparr>nd_db := (nd_db first_published)\<lparr>db_open := 0, db_time := m\<rparr>, nd_ds := nd_ds first_published\<rparr>"
    by (auto simp: sample_keyed restart_def loadConfig_def node(3) fresh_node_def)
  with node(2) show ?thesis by (intro exI conjI) (simp_all add: fresh_node_def stored_def)
qed

end
