(* ===== verification/ParseTree.thy ===== *)
theory ParseTree
  imports ParseRoundTrip
begin

text \<open>
  The generated parser as it runs (\<open>mc/query/query.peg.go\<close>): a position in a buffer, a token array that grows and is written over after
  backtracking, the depth of the rules and the furthest token, from which a parse error takes its
  position. The grammar is a value; it has two meanings, the parsers of \<open>QueryParse\<close> and the code that runs on the
  array, and the second refines the first.
\<close>

section \<open>Rules and tokens\<close>

definition rul3s :: "string list" where
  "rul3s =
    [''Unknown'', ''Grammar'', ''Select'', ''Delete'', ''Selector'', ''SimpleSelector'', ''SimpleSelectorOp'', ''CompoundSelector'',
     ''FunctionSelector'', ''Function'', ''FunctionOp'', ''Source'', ''Namespace'', ''NamespacePart'', ''Wildcard'', ''Criteria'',
     ''MultiCriteria'', ''CompoundCriteria'', ''SimpleCriteria'', ''ValueCriteria'', ''IdCriteria'', ''PublisherCriteria'', ''SourceCriteria'',
     ''ValueCompare'', ''ValueCompareOp'', ''RangeCriteria'', ''RangeSelector'', ''RangeSelectorOp'', ''Boolean'', ''BooleanOp'', ''Comparison'',
     ''ComparisonOp'', ''IndexCriteria'', ''WKICriteria'', ''Order'', ''OrderSpec'', ''OrderSelectorSpec'', ''OrderSelector'',
     ''OrderSelectorOp'', ''OrderDir'', ''OrderDirOp'', ''Limit'', ''StatementId'', ''PublisherId'', ''WKI'', ''UInt'', ''WS'', ''WSX'',
     ''WhiteSpace'', ''EOL'', ''EOF'', ''Action0'', ''Action1'', ''Action2'', ''Action3'', ''Action4'', ''PegText'', ''Action5'', ''Action6'',
     ''Action7'', ''Action8'', ''Action9'', ''Action10'', ''Action11'', ''Action12'', ''Action13'', ''Action14'', ''Action15'', ''Action16'',
     ''Action17'', ''Action18'', ''Action19'', ''Action20'', ''Action21'', ''Action22'', ''Action23'', ''Action24'', ''Action25'', ''Action26'',
     ''Action27'', ''Action28'', ''Action29'', ''Action30'', ''Action31'', ''Action32'', ''Pre_'', ''_In_'', ''_Suf'']"

text \<open>The rules are constants that number this list. Here a token carries its rule; \<open>rule_index\<close> is the number.\<close>

datatype pegRule = ruleUnknown | rulePegText | ruleAction nat | ruleNamed string

fun rule_name :: "pegRule \<Rightarrow> string" where
  "rule_name ruleUnknown = ''Unknown''"
| "rule_name rulePegText = ''PegText''"
| "rule_name (ruleAction i) = ''Action'' @ nat_str i"
| "rule_name (ruleNamed n) = n"

definition rule_index :: "pegRule \<Rightarrow> nat" where
  "rule_index r = length (takeWhile (\<lambda>n. n \<noteq> rule_name r) rul3s)"

lemma takeWhile_index: "n \<in> set names \<Longrightarrow> names ! length (takeWhile (\<lambda>m. m \<noteq> n) names) = n"
  by (induction names) auto

lemma rule_index_name: "rule_name r \<in> set rul3s \<Longrightarrow> rul3s ! rule_index r = rule_name r"
  by (simp add: rule_index_def takeWhile_index)

record token32 =
  tk_rule :: pegRule
  tk_begin :: nat
  tk_end :: nat
  tk_next :: nat

definition zero_token :: token32 where
  "zero_token = \<lparr>tk_rule = ruleUnknown, tk_begin = 0, tk_end = 0, tk_next = 0\<rparr>"

text \<open>The array doubles when the index has reached its end. The parser starts with one of 32767 tokens.\<close>

definition Expand :: "nat \<Rightarrow> token32 list \<Rightarrow> token32 list" where
  "Expand index tree = (if index \<ge> length tree then tree @ replicate (length tree) zero_token else tree)"

definition Add :: "pegRule \<Rightarrow> nat \<Rightarrow> nat \<Rightarrow> nat \<Rightarrow> nat \<Rightarrow> token32 list \<Rightarrow> token32 list" where
  "Add rule start end_pos depth index tree = tree[index := \<lparr>tk_rule = rule, tk_begin = start, tk_end = end_pos, tk_next = depth\<rparr>]"

definition trim :: "nat \<Rightarrow> token32 list \<Rightarrow> token32 list" where
  "trim n tree = take n tree"

text \<open>The variables of the parser. The end symbol is the end of the buffer.\<close>

record peg =
  pg_buffer :: string
  pg_position :: nat
  pg_depth :: nat
  pg_index :: nat
  pg_tree :: "token32 list"
  pg_max :: token32

definition next_char :: "peg \<Rightarrow> char option" where
  "next_char s = (if pg_position s < length (pg_buffer s) then Some (pg_buffer s ! pg_position s) else None)"

definition advance :: "peg \<Rightarrow> peg" where
  "advance s = s\<lparr>pg_position := pg_position s + 1\<rparr>"

definition matchDot :: "peg \<Rightarrow> bool \<times> peg" where
  "matchDot s = (if next_char s \<noteq> None then (True, advance s) else (False, s))"

definition add_token :: "pegRule \<Rightarrow> nat \<Rightarrow> peg \<Rightarrow> peg" where
  "add_token rule start s =
     s\<lparr>pg_tree := Add rule start (pg_position s) (pg_depth s) (pg_index s) (Expand (pg_index s) (pg_tree s)),
       pg_index := pg_index s + 1,
       pg_max := (if start \<noteq> pg_position s \<and> pg_position s > tk_end (pg_max s)
                  then \<lparr>tk_rule = rule, tk_begin = start, tk_end = pg_position s, tk_next = pg_depth s\<rparr> else pg_max s)\<rparr>"

text \<open>\<open>position, tokenIndex, depth = position0, tokenIndex0, depth0\<close>.\<close>

definition restore :: "peg \<Rightarrow> peg \<Rightarrow> peg" where
  "restore s0 s = s\<lparr>pg_position := pg_position s0, pg_index := pg_index s0, pg_depth := pg_depth s0\<rparr>"

definition deeper :: "peg \<Rightarrow> peg" where
  "deeper s = s\<lparr>pg_depth := pg_depth s + 1\<rparr>"

definition shallower :: "peg \<Rightarrow> peg" where
  "shallower s = s\<lparr>pg_depth := pg_depth s - 1\<rparr>"

section \<open>Grammars\<close>

text \<open>
  The shapes the generator emits. \<open>GCase\<close> is one case of a \<open>switch\<close> on the next character, with what
  follows it; \<open>GText\<close> is the capture \<open>< ... >\<close>, \<open>GAct\<close> an action by its number and \<open>GRule\<close> a named rule.
\<close>

datatype gram =
  GEmpty | GLit string | GClass "char \<Rightarrow> bool" | GSeq gram gram | GAlt gram gram | GOpt gram | GStar gram
| GCase "char list" gram gram | GText gram | GAct nat | GRule string gram | GEof

definition actions :: "action list" where
  "actions = [ASetSelectOp, ASetDeleteOp, ASetSimpleSelector, ASetCompoundSelector, ASetFunctionSelector, APush, APush, ASetNamespace, ASetCriteria,
     AAddCompoundCriteria, AAddNegatedCriteria, AAddValueCriteria, AAddRangeCriteria, AAddIndexCriteria, APush, APush, APush, APush, APush, APush,
     APush, APush, APush, APush, APush, APush, APush, ASetOrder, AAddOrderSelector, ASetOrderDir, APush, APush, ASetLimit]"

text \<open>The first meaning.\<close>

primrec p_sem :: "gram \<Rightarrow> parser" where
  "p_sem GEmpty = p_empty"
| "p_sem (GLit w) = p_lit w"
| "p_sem (GClass P) = p_class P"
| "p_sem (GSeq a b) = p_seq (p_sem a) (p_sem b)"
| "p_sem (GAlt a b) = p_alt (p_sem a) (p_sem b)"
| "p_sem (GOpt a) = p_opt (p_sem a)"
| "p_sem (GStar a) = p_star (p_sem a)"
| "p_sem (GCase cs a b) = p_switch [(cs, p_sem a)] (p_sem b)"
| "p_sem (GText a) = p_text (p_sem a)"
| "p_sem (GAct i) = p_act (actions ! i)"
| "p_sem (GRule n a) = p_sem a"
| "p_sem GEof = p_EOF"

text \<open>
  The second meaning, the code: it says whether it has matched. A failed match leaves the variables as they
  are then, and the choice, option or loop around it restores them. A loop stops on a match that consumes nothing, which
  no loop of the grammar has (\<open>grammar_loops\<close>, \<open>i_star_loop\<close>). Positions are natural numbers; the code has them at 32 bits, enough for any
  text shorter than 4 G characters.
\<close>

fun i_lit :: "string \<Rightarrow> peg \<Rightarrow> bool \<times> peg" where
  "i_lit [] s = (True, s)"
| "i_lit (c # w) s = (if next_char s = Some c then i_lit w (advance s) else (False, s))"

definition remaining :: "peg \<Rightarrow> nat" where
  "remaining s = length (pg_buffer s) - pg_position s"

function i_star :: "(peg \<Rightarrow> bool \<times> peg) \<Rightarrow> peg \<Rightarrow> peg" where
  "i_star p s = (case p s of (b, s1) \<Rightarrow> if b \<and> remaining s1 < remaining s then i_star p s1 else restore s s1)"
  by pat_completeness auto
termination by (relation "measure (\<lambda>(p, s). remaining s)") auto

declare i_star.simps [simp del]

primrec i_sem :: "gram \<Rightarrow> peg \<Rightarrow> bool \<times> peg" where
  "i_sem GEmpty s = (True, s)"
| "i_sem (GLit w) s = i_lit w s"
| "i_sem (GClass P) s = (case next_char s of Some c \<Rightarrow> (if P c then (True, advance s) else (False, s)) | None \<Rightarrow> (False, s))"
| "i_sem (GSeq a b) s = (case i_sem a s of (m, s1) \<Rightarrow> if m then i_sem b s1 else (False, s1))"
| "i_sem (GAlt a b) s = (case i_sem a s of (m, s1) \<Rightarrow> if m then (True, s1) else i_sem b (restore s s1))"
| "i_sem (GOpt a) s = (case i_sem a s of (m, s1) \<Rightarrow> (True, if m then s1 else restore s s1))"
| "i_sem (GStar a) s = (True, i_star (i_sem a) s)"
| "i_sem (GCase cs a b) s = (case next_char s of Some c \<Rightarrow> (if c \<in> set cs then i_sem a s else i_sem b s) | None \<Rightarrow> i_sem b s)"
| "i_sem (GText a) s =
     (case i_sem a (deeper s) of (m, s1) \<Rightarrow>
        if m then (True, add_token rulePegText (pg_position s) (shallower s1)) else (False, s1))"
| "i_sem (GAct i) s = (True, add_token (ruleAction i) (pg_position s) s)"
| "i_sem (GRule n a) s =
     (case i_sem a (deeper s) of (m, s1) \<Rightarrow>
        if m then (True, add_token (ruleNamed n) (pg_position s) (shallower s1)) else (False, s1))"
| "i_sem GEof s = (case matchDot s of (m, s1) \<Rightarrow> (if m then (False, s1) else (True, restore s s1)))"

section \<open>The grammar\<close>

fun g_seqs :: "gram list \<Rightarrow> gram" where
  "g_seqs [] = GEmpty"
| "g_seqs [g] = g"
| "g_seqs (g # gs) = GSeq g (g_seqs gs)"

definition g_plus :: "gram \<Rightarrow> gram" where
  "g_plus g = GSeq g (GStar g)"

fun g_switch :: "(char list \<times> gram) list \<Rightarrow> gram \<Rightarrow> gram" where
  "g_switch [] d = d"
| "g_switch ((cs, g) # cases) d = GCase cs g (g_switch cases d)"

definition g_EOL :: gram where
  "g_EOL = GRule ''EOL'' (GAlt (GLit [CHR 0x0D, CHR 0x0A]) (GAlt (GLit [CHR 0x0A]) (GLit [CHR 0x0D])))"

definition g_WhiteSpace :: gram where
  "g_WhiteSpace = GRule ''WhiteSpace'' (g_switch [([CHR 0x09], GLit [CHR 0x09]), ('' '', GLit '' '')] g_EOL)"

definition g_WS :: gram where
  "g_WS = GRule ''WS'' (g_plus g_WhiteSpace)"

definition g_WSX :: gram where
  "g_WSX = GRule ''WSX'' (GStar g_WhiteSpace)"

definition g_EOF :: gram where
  "g_EOF = GRule ''EOF'' GEof"

definition g_StatementId :: gram where
  "g_StatementId = GRule ''StatementId'' (GText (g_plus (GClass id_char)))"

definition g_PublisherId :: gram where
  "g_PublisherId = GRule ''PublisherId'' (GText (g_plus (GClass is_alnum)))"

definition g_WKI :: gram where
  "g_WKI = GRule ''WKI'' (GText (g_plus (GClass wki_char)))"

definition g_UInt :: gram where
  "g_UInt = GRule ''UInt'' (GText (g_plus (GClass is_digit)))"

definition g_SimpleSelector :: gram where
  "g_SimpleSelector = GRule ''SimpleSelector'' (g_seqs
     [GText (GRule ''SimpleSelectorOp'' (g_switch
        [(''c'', GLit ''counter''), (''t'', GLit ''timestamp''), (''s'', GLit ''source''), (''n'', GLit ''namespace''), (''p'', GLit ''publisher''),
         (''i'', GLit ''id''), (''b'', GLit ''body'')] (GLit ''*''))),
      GAct 5])"

definition g_CompoundSelector :: gram where
  "g_CompoundSelector = GRule ''CompoundSelector'' (g_seqs
     [GLit ''('', g_SimpleSelector, GStar (g_seqs [GLit '','', g_WSX, g_SimpleSelector]), GLit '')''])"

definition g_Function :: gram where
  "g_Function = GRule ''Function'' (g_seqs
     [GText (GRule ''FunctionOp'' (GAlt (GLit ''COUNT'') (GAlt (GLit ''MIN'') (GLit ''MAX'')))), GAct 6])"

definition g_FunctionSelector :: gram where
  "g_FunctionSelector = GRule ''FunctionSelector'' (g_seqs [g_Function, GLit ''('', g_SimpleSelector, GLit '')''])"

definition g_Selector :: gram where
  "g_Selector = GRule ''Selector'' (g_switch
     [(''CM'', g_seqs [g_FunctionSelector, GAct 4]), (''('', g_seqs [g_CompoundSelector, GAct 3])]
     (g_seqs [g_SimpleSelector, GAct 2]))"

definition g_NamespacePart :: gram where
  "g_NamespacePart = GRule ''NamespacePart'' (g_plus (GClass ns_char))"

definition g_Wildcard :: gram where
  "g_Wildcard = GRule ''Wildcard'' (GLit ''*'')"

definition g_Namespace :: gram where
  "g_Namespace = GRule ''Namespace'' (GAlt
     (GText (g_seqs [g_NamespacePart, GStar (g_seqs [GLit ''.'', g_NamespacePart]), GOpt (g_seqs [GLit ''.'', g_Wildcard])]))
     (GText g_Wildcard))"

definition g_Source :: gram where
  "g_Source = GRule ''Source'' (g_seqs [GLit ''FROM'', g_WS, g_Namespace, GAct 7])"

definition g_ValueCompare :: gram where
  "g_ValueCompare = GRule ''ValueCompare'' (g_seqs [GText (GRule ''ValueCompareOp'' (GAlt (GLit ''='') (GLit ''!=''))), GAct 20])"

definition g_IdCriteria :: gram where
  "g_IdCriteria = GRule ''IdCriteria'' (g_seqs
     [GText (GLit ''id''), GAct 14, g_WSX, g_ValueCompare, g_WSX, g_StatementId, GAct 15])"

definition g_PublisherCriteria :: gram where
  "g_PublisherCriteria = GRule ''PublisherCriteria'' (g_seqs
     [GText (GLit ''publisher''), GAct 16, g_WSX, g_ValueCompare, g_WSX, g_PublisherId, GAct 17])"

definition g_SourceCriteria :: gram where
  "g_SourceCriteria = GRule ''SourceCriteria'' (g_seqs
     [GText (GLit ''source''), GAct 18, g_WSX, g_ValueCompare, g_WSX, g_PublisherId, GAct 19])"

definition g_ValueCriteria :: gram where
  "g_ValueCriteria = GRule ''ValueCriteria'' (g_switch [(''s'', g_SourceCriteria), (''p'', g_PublisherCriteria)] g_IdCriteria)"

definition g_RangeSelector :: gram where
  "g_RangeSelector = GRule ''RangeSelector'' (g_seqs [GText (GRule ''RangeSelectorOp'' (GAlt (GLit ''timestamp'') (GLit ''counter''))), GAct 22])"

definition g_Comparison :: gram where
  "g_Comparison = GRule ''Comparison'' (g_seqs
     [GText (GRule ''ComparisonOp'' (GAlt (GLit ''<='') (GAlt (GLit ''>='')
        (g_switch [(''>'', GLit ''>''), (''!'', GLit ''!=''), (''='', GLit ''='')] (GLit ''<''))))),
      GAct 24])"

definition g_RangeCriteria :: gram where
  "g_RangeCriteria = GRule ''RangeCriteria'' (g_seqs [g_RangeSelector, g_WSX, g_Comparison, g_WSX, g_UInt, GAct 21])"

definition g_WKICriteria :: gram where
  "g_WKICriteria = GRule ''WKICriteria'' (g_seqs
     [GText (GLit ''wki''), GAct 25, g_WSX, GLit ''='', g_WSX, g_WKI, GAct 26])"

definition g_SimpleCriteria :: gram where
  "g_SimpleCriteria = GRule ''SimpleCriteria'' (g_switch
     [(''w'', g_seqs [GRule ''IndexCriteria'' g_WKICriteria, GAct 13]), (''ct'', g_seqs [g_RangeCriteria, GAct 12])]
     (g_seqs [g_ValueCriteria, GAct 11]))"

definition g_Boolean :: gram where
  "g_Boolean = GRule ''Boolean'' (g_seqs [GText (GRule ''BooleanOp'' (GAlt (GLit ''AND'') (GLit ''OR''))), GAct 23])"

text \<open>The nesting of criteria is bounded by a number, as in \<open>QueryParse\<close>; more than the length of the input is enough.\<close>

definition g_MultiCriteria :: "gram \<Rightarrow> gram" where
  "g_MultiCriteria compound = GRule ''MultiCriteria'' (g_seqs
     [compound, GStar (g_seqs [g_WS, g_Boolean, g_WS, compound, GAct 9])])"

text \<open>A literal no input has, for criteria that are nested too deep.\<close>

primrec g_CompoundCriteria :: "nat \<Rightarrow> gram" where
  "g_CompoundCriteria 0 = GClass (\<lambda>c. False)"
| "g_CompoundCriteria (Suc n) = GRule ''CompoundCriteria'' (g_switch
     [(''N'', g_seqs [GLit ''NOT'', g_WS, g_CompoundCriteria n, GAct 10]),
      (''('', g_seqs [GLit ''('', g_MultiCriteria (g_CompoundCriteria n), GLit '')''])]
     g_SimpleCriteria)"

definition g_Criteria :: "nat \<Rightarrow> gram" where
  "g_Criteria n = GRule ''Criteria'' (g_seqs [GLit ''WHERE'', g_WS, g_MultiCriteria (g_CompoundCriteria n), GAct 8])"

definition g_OrderSelector :: gram where
  "g_OrderSelector = GRule ''OrderSelector'' (g_seqs
     [GText (GRule ''OrderSelectorOp'' (g_switch
        [(''c'', GLit ''counter''), (''t'', GLit ''timestamp''), (''s'', GLit ''source''), (''p'', GLit ''publisher''), (''n'', GLit ''namespace'')] (GLit ''id''))),
      GAct 30])"

definition g_OrderDir :: gram where
  "g_OrderDir = GRule ''OrderDir'' (g_seqs [GText (GRule ''OrderDirOp'' (GAlt (GLit ''ASC'') (GLit ''DESC''))), GAct 31])"

definition g_OrderSelectorSpec :: gram where
  "g_OrderSelectorSpec = GRule ''OrderSelectorSpec'' (g_seqs
     [g_OrderSelector, GAct 28, GOpt (g_seqs [g_WS, g_OrderDir, GAct 29])])"

definition g_OrderSpec :: gram where
  "g_OrderSpec = GRule ''OrderSpec'' (g_seqs
     [g_OrderSelectorSpec, GStar (g_seqs [GLit '','', g_WSX, g_OrderSelectorSpec])])"

definition g_Order :: gram where
  "g_Order = GRule ''Order'' (g_seqs [GLit ''ORDER'', g_WS, GLit ''BY'', g_WS, g_OrderSpec, GAct 27])"

definition g_Limit :: gram where
  "g_Limit = GRule ''Limit'' (g_seqs [GLit ''LIMIT'', g_WS, g_UInt, GAct 32])"

definition g_Select :: "nat \<Rightarrow> gram" where
  "g_Select n = GRule ''Select'' (g_seqs
     [GLit ''SELECT'', g_WS, g_Selector, g_WS, g_Source, GOpt (g_seqs [g_WS, g_Criteria n]),
      GOpt (g_seqs [g_WS, g_Order]), GOpt (g_seqs [g_WS, g_Limit])])"

definition g_Delete :: "nat \<Rightarrow> gram" where
  "g_Delete n = GRule ''Delete'' (g_seqs
     [GLit ''DELETE'', g_WS, g_Source, GOpt (g_seqs [g_WS, g_Criteria n]), GOpt (g_seqs [g_WS, g_Limit])])"

definition g_Grammar :: "nat \<Rightarrow> gram" where
  "g_Grammar n = GRule ''Grammar'' (GAlt (g_seqs [g_Select n, g_WSX, g_EOF, GAct 0]) (g_seqs [g_Delete n, g_WSX, g_EOF, GAct 1]))"

section \<open>The parser\<close>

text \<open>
  \<open>Init\<close> and \<open>Parse\<close>: the buffer, an array of \<open>math.MaxInt16\<close> tokens, the first rule. The result is the tokens of the match, or the
  furthest token.
\<close>

definition init_peg :: "string \<Rightarrow> peg" where
  "init_peg qs = \<lparr>pg_buffer = qs, pg_position = 0, pg_depth = 0, pg_index = 0, pg_tree = replicate 32767 zero_token, pg_max = zero_token\<rparr>"

definition Parse :: "string \<Rightarrow> token32 + token32 list" where
  "Parse qs =
     (case i_sem (g_Grammar (Suc (length qs))) (init_peg qs) of (m, s) \<Rightarrow>
        if m then Inr (trim (pg_index s) (pg_tree s)) else Inl (pg_max s))"

text \<open>\<open>Execute\<close> on the array.\<close>

fun exec_token32 :: "string \<Rightarrow> string \<times> ParseState \<Rightarrow> token32 \<Rightarrow> (string \<times> ParseState) outcome" where
  "exec_token32 buffer (t, ps) tk =
     (case tk_rule tk of
        rulePegText \<Rightarrow> Ok (take (tk_end tk - tk_begin tk) (drop (tk_begin tk) buffer), ps)
      | ruleAction i \<Rightarrow> obind (run_action (actions ! i) t ps) (\<lambda>ps'. Ok (t, ps'))
      | _ \<Rightarrow> Ok (t, ps))"

definition Execute32 :: "string \<Rightarrow> token32 list \<Rightarrow> ParseState \<Rightarrow> ParseState outcome" where
  "Execute32 buffer tree ps = obind (ofold (exec_token32 buffer) ([], ps) tree) (\<lambda>(t, ps'). Ok ps')"

text \<open>\<open>ParseQuery\<close> with this parser.\<close>

definition ParseQuery32 :: "string \<Rightarrow> Query outcome" where
  "ParseQuery32 qs =
     (case Parse qs of
        Inl furthest \<Rightarrow> Err ParseError
      | Inr tree \<Rightarrow>
          obind (Execute32 qs tree init_ParseState) (\<lambda>ps. (case ps_err ps of Some e \<Rightarrow> Err e | None \<Rightarrow> Ok (ps_query ps))))"

section \<open>The code refines the parsers\<close>

definition rest :: "peg \<Rightarrow> string" where
  "rest s = drop (pg_position s) (pg_buffer s)"

definition token_within :: "string \<Rightarrow> token32 \<Rightarrow> bool" where
  "token_within buffer tk \<longleftrightarrow> tk_begin tk \<le> tk_end tk \<and> tk_end tk \<le> length buffer"

definition peg_ok :: "peg \<Rightarrow> bool" where
  "peg_ok s \<longleftrightarrow> pg_position s \<le> length (pg_buffer s) \<and> pg_index s \<le> length (pg_tree s) \<and> pg_tree s \<noteq> [] \<and>
     token_within (pg_buffer s) (pg_max s) \<and> list_all (token_within (pg_buffer s)) (take (pg_index s) (pg_tree s))"

text \<open>What \<open>Execute\<close> looks at: the captures and the actions among the tokens that count.\<close>

definition view :: "string \<Rightarrow> token32 \<Rightarrow> token list" where
  "view buffer tk =
     (case tk_rule tk of
        rulePegText \<Rightarrow> [PegText (take (tk_end tk - tk_begin tk) (drop (tk_begin tk) buffer))]
      | ruleAction i \<Rightarrow> [Act (actions ! i)]
      | _ \<Rightarrow> [])"

definition seen :: "peg \<Rightarrow> token list" where
  "seen s = concat (map (view (pg_buffer s)) (take (pg_index s) (pg_tree s)))"

text \<open>The code only goes on: what was in the array before stays.\<close>

definition onward :: "peg \<Rightarrow> peg \<Rightarrow> bool" where
  "onward s s' \<longleftrightarrow> peg_ok s' \<and> pg_buffer s' = pg_buffer s \<and> pg_position s \<le> pg_position s' \<and> pg_index s \<le> pg_index s' \<and>
     take (pg_index s) (pg_tree s') = take (pg_index s) (pg_tree s)"

lemma onward_refl: "peg_ok s \<Longrightarrow> onward s s"
  by (simp add: onward_def)

lemma onward_trans: "onward a b \<Longrightarrow> onward b c \<Longrightarrow> onward a c"
  by (auto simp: onward_def) (metis min.absorb1 take_take)

lemma onward_ok: "onward s s' \<Longrightarrow> peg_ok s'"
  by (simp add: onward_def)

lemma onward_restore:
  assumes "peg_ok s" "onward s s1"
  shows "onward s (restore s s1)" "rest (restore s s1) = rest s" "seen (restore s s1) = seen s" "pg_depth (restore s s1) = pg_depth s"
    "peg_ok (restore s s1)" "remaining (restore s s1) = remaining s"
  using assms by (auto simp: onward_def restore_def peg_ok_def rest_def seen_def remaining_def)

lemma onward_depth:
  "onward (deeper s) s1 \<longleftrightarrow> onward s s1" "onward s (shallower s1) \<longleftrightarrow> onward s s1" "peg_ok (deeper s) \<longleftrightarrow> peg_ok s" "rest (deeper s) = rest s"
  "seen (shallower s) = seen s" "seen (deeper s) = seen s" "rest (shallower s) = rest s" "pg_depth (deeper s) = Suc (pg_depth s)"
  "pg_depth (shallower s) = pg_depth s - 1" "peg_ok (shallower s) \<longleftrightarrow> peg_ok s" "pg_position (shallower s) = pg_position s" "pg_buffer (shallower s) = pg_buffer s"
  by (simp_all add: onward_def peg_ok_def deeper_def shallower_def rest_def seen_def)

lemma Expand_fits:
  assumes "index \<le> length tree" "tree \<noteq> []"
  shows "index < length (Expand index tree)" "take index (Expand index tree) = take index tree"
  using assms by (auto simp: Expand_def)

lemma take_Add: "index < length tree \<Longrightarrow> take (Suc index) (Add r b e d index tree) = take index tree @ [\<lparr>tk_rule = r, tk_begin = b, tk_end = e, tk_next = d\<rparr>]"
  by (simp add: Add_def take_Suc_conv_app_nth list_update_beyond)

lemma add_token_ok:
  assumes "peg_ok s" "start \<le> pg_position s"
  shows "peg_ok (add_token r start s)"
proof -
  have fits: "pg_index s < length (Expand (pg_index s) (pg_tree s))" "take (pg_index s) (Expand (pg_index s) (pg_tree s)) = take (pg_index s) (pg_tree s)"
    using assms(1) by (simp_all add: peg_ok_def Expand_fits)
  have "length (Add r start e d i t) = length t" "Add r start e d i t = [] \<longleftrightarrow> t = []" for e d i t by (simp_all add: Add_def)
  with fits assms show ?thesis
    by (auto simp: peg_ok_def add_token_def token_within_def take_Add Suc_le_eq)
qed

lemma add_token_step:
  assumes "peg_ok s" "start \<le> pg_position s"
  shows "onward s (add_token r start s)"
    "seen (add_token r start s) = seen s @ view (pg_buffer s) \<lparr>tk_rule = r, tk_begin = start, tk_end = pg_position s, tk_next = pg_depth s\<rparr>"
    "rest (add_token r start s) = rest s" "pg_depth (add_token r start s) = pg_depth s"
proof -
  have fits: "pg_index s < length (Expand (pg_index s) (pg_tree s))" "take (pg_index s) (Expand (pg_index s) (pg_tree s)) = take (pg_index s) (pg_tree s)"
    using assms(1) by (simp_all add: peg_ok_def Expand_fits)
  have keep: "take (pg_index s) (Add r start e d (pg_index s) t) = take (pg_index s) t" for e d t by (simp add: Add_def)
  with fits add_token_ok [OF assms] show "onward s (add_token r start s)" by (simp add: onward_def add_token_def)
  show "seen (add_token r start s) = seen s @ view (pg_buffer s) \<lparr>tk_rule = r, tk_begin = start, tk_end = pg_position s, tk_next = pg_depth s\<rparr>"
    by (simp add: seen_def add_token_def take_Add [OF fits(1)] fits(2))
  show "rest (add_token r start s) = rest s" "pg_depth (add_token r start s) = pg_depth s" by (simp_all add: rest_def add_token_def)
qed

lemma next_char_rest: "peg_ok s \<Longrightarrow> next_char s = (case rest s of [] \<Rightarrow> None | c # r \<Rightarrow> Some c)"
  by (cases "rest s") (auto simp: next_char_def rest_def peg_ok_def Cons_nth_drop_Suc [symmetric] not_less split: list.split)

lemma advance_step:
  assumes "peg_ok s" "rest s = c # r"
  shows "onward s (advance s)" "rest (advance s) = r" "seen (advance s) = seen s" "pg_depth (advance s) = pg_depth s" "peg_ok (advance s)"
proof -
  have "pg_position s < length (pg_buffer s)" using assms(2) by (metis drop_eq_Nil leI list.distinct(1) rest_def)
  then show "onward s (advance s)" "peg_ok (advance s)" using assms(1) by (simp_all add: onward_def advance_def peg_ok_def)
  show "rest (advance s) = r" using assms(2) by (simp add: rest_def advance_def) (metis drop_Suc list.sel(3) tl_drop)
  show "seen (advance s) = seen s" "pg_depth (advance s) = pg_depth s" by (simp_all add: seen_def advance_def)
qed

text \<open>The relation of the two meanings at one point of the input.\<close>

definition follows :: "peg \<Rightarrow> (token list \<times> string) option \<Rightarrow> bool \<times> peg \<Rightarrow> bool" where
  "follows s r out \<longleftrightarrow> (case out of (m, s') \<Rightarrow> onward s s' \<and>
     (case r of None \<Rightarrow> \<not> m | Some (t, w) \<Rightarrow> m \<and> rest s' = w \<and> pg_depth s' = pg_depth s \<and> seen s' = seen s @ t))"

lemma followsE:
  assumes "follows s r (m, s')"
  shows "onward s s'" "peg_ok s'" "r = None \<longleftrightarrow> \<not> m"
    "\<And>t w. r = Some (t, w) \<Longrightarrow> m \<and> rest s' = w \<and> pg_depth s' = pg_depth s \<and> seen s' = seen s @ t"
  using assms by (auto simp: follows_def onward_def split: option.splits)

lemma follows_lit: "peg_ok s \<Longrightarrow> follows s (p_lit w (rest s)) (i_lit w s)"
proof (induction w arbitrary: s)
  case Nil
  then show ?case by (simp add: follows_def p_lit_def onward_refl HasPrefix_def)
next
  case (Cons c w)
  show ?case
  proof (cases "next_char s = Some c")
    case True
    then obtain r where r: "rest s = c # r" using next_char_rest [OF Cons.prems] by (auto split: list.splits)
    note a = advance_step [OF Cons.prems r]
    have "p_lit (c # w) (rest s) = p_lit w (rest (advance s))" by (simp add: p_lit_def HasPrefix_def r a)
    with Cons.IH [OF a(5)] a True show ?thesis
      by (auto simp: follows_def split: option.splits prod.splits intro: onward_trans)
  next
    case False
    with next_char_rest [OF Cons.prems] have "p_lit (c # w) (rest s) = None" by (auto simp: p_lit_def HasPrefix_def split: list.splits)
    with False Cons.prems show ?thesis by (simp add: follows_def onward_refl)
  qed
qed

lemma rest_length: "peg_ok s \<Longrightarrow> length (rest s) = remaining s"
  by (simp add: rest_def remaining_def)

lemma follows_star:
  assumes "\<And>s. peg_ok s \<Longrightarrow> follows s (p (rest s)) (f s)" "peg_ok s"
  shows "follows s (p_star p (rest s)) (True, i_star f s)"
  using assms(2)
proof (induction s rule: measure_induct_rule [where f = remaining])
  case (less s)
  obtain m s1 where f: "f s = (m, s1)" by fastforce
  note e = followsE [OF assms(1) [OF less.prems, unfolded f]]
  show ?case
  proof (cases "m \<and> remaining s1 < remaining s")
    case True
    then obtain t w where p: "p (rest s) = Some (t, w)" using e(3) by fastforce
    with e(4) have s1: "rest s1 = w" "pg_depth s1 = pg_depth s" "seen s1 = seen s @ t" by blast+
    have len: "length w < length (rest s)" using True s1(1) rest_length [OF less.prems] rest_length [OF e(2)] by simp
    from less.IH [OF _ e(2)] True have ih: "follows s1 (p_star p w) (True, i_star f s1)" using s1(1) by simp
    from followsE(3) [OF ih] obtain u w' where u: "p_star p w = Some (u, w')" by fastforce
    have i: "i_star f s = i_star f s1" using f True by (simp add: i_star.simps [of f s])
    have r: "p_star p (rest s) = Some (t @ u, w')" using p u len by (simp add: p_star.simps [of p "rest s"])
    from followsE(1) [OF ih] followsE(4) [OF ih u] e(1) s1 show ?thesis
      unfolding i r by (auto simp: follows_def intro: onward_trans)
  next
    case False
    have "p_star p (rest s) = Some ([], rest s)"
    proof (cases "p (rest s)")
      case None
      then show ?thesis by (simp add: p_star.simps [of p "rest s"])
    next
      case (Some q)
      then obtain t w where p: "p (rest s) = Some (t, w)" by (cases q) simp
      with e(4) have "m" "rest s1 = w" by blast+
      then have "\<not> length w < length (rest s)" using False rest_length [OF less.prems] rest_length [OF e(2)] by auto
      with p show ?thesis by (simp add: p_star.simps [of p "rest s"])
    qed
    moreover have "i_star f s = restore s s1" using f False by (auto simp: i_star.simps [of f s])
    ultimately show ?thesis using onward_restore [OF less.prems e(1)] by (simp add: follows_def)
  qed
qed

lemma p_switch_one: "p_switch [(cs, p)] q s = (case s of [] \<Rightarrow> q s | c # r \<Rightarrow> if c \<in> set cs then p s else q s)"
  by (cases s) simp_all

theorem i_sem_follows: "peg_ok s \<Longrightarrow> follows s (p_sem g (rest s)) (i_sem g s)"
proof (induction g arbitrary: s)
  case GEmpty
  then show ?case by (simp add: follows_def p_empty_def onward_refl)
next
  case (GLit w)
  then show ?case by (simp add: follows_lit)
next
  case (GClass P)
  show ?case
  proof (cases "rest s")
    case Nil
    with GClass next_char_rest show ?thesis by (simp add: follows_def p_class_def onward_refl)
  next
    case (Cons c r)
    with GClass next_char_rest advance_step [OF GClass Cons] show ?thesis by (simp add: follows_def p_class_def onward_refl)
  qed
next
  case (GSeq a b)
  obtain m s1 where a: "i_sem a s = (m, s1)" by fastforce
  note e = followsE [OF GSeq.IH(1) [OF GSeq.prems, unfolded a]]
  show ?case
  proof (cases m)
    case True
    then obtain t w where p: "p_sem a (rest s) = Some (t, w)" using e(3) by fastforce
    with e(4) have s1: "rest s1 = w" "pg_depth s1 = pg_depth s" "seen s1 = seen s @ t" by blast+
    obtain m2 s2 where b: "i_sem b s1 = (m2, s2)" by fastforce
    note f = followsE [OF GSeq.IH(2) [OF e(2), unfolded b]]
    from a b True p s1 f onward_trans [OF e(1) f(1)] show ?thesis
      by (cases "p_sem b w") (auto simp: follows_def p_seq_def)
  qed (use a e in \<open>auto simp: follows_def p_seq_def\<close>)
next
  case (GAlt a b)
  obtain m s1 where a: "i_sem a s = (m, s1)" by fastforce
  note e = followsE [OF GAlt.IH(1) [OF GAlt.prems, unfolded a]]
  note undo = onward_restore [OF GAlt.prems e(1)]
  show ?case
  proof (cases m)
    case True
    then obtain t w where "p_sem a (rest s) = Some (t, w)" using e(3) by fastforce
    with e a True show ?thesis by (auto simp: follows_def p_alt_def)
  next
    case False
    obtain m2 s2 where b: "i_sem b (restore s s1) = (m2, s2)" by fastforce
    note f = followsE [OF GAlt.IH(2) [OF undo(5), unfolded b]]
    from False e(3) a b f undo onward_trans [OF undo(1) f(1)] show ?thesis
      by (cases "p_sem b (rest s)") (auto simp: follows_def p_alt_def)
  qed
next
  case (GOpt a)
  obtain m s1 where a: "i_sem a s = (m, s1)" by fastforce
  note e = followsE [OF GOpt.IH [OF GOpt.prems, unfolded a]]
  from a e onward_restore [OF GOpt.prems e(1)] show ?case
    by (cases "p_sem a (rest s)") (auto simp: follows_def p_opt_def)
next
  case (GStar a)
  then show ?case by (simp add: follows_star)
next
  case (GCase cs a b)
  show ?case
  proof (cases "rest s")
    case Nil
    with GCase.IH(2) [OF GCase.prems] next_char_rest [OF GCase.prems] show ?thesis by (simp add: p_switch_one)
  next
    case (Cons c r)
    with GCase.IH(1,2) [OF GCase.prems] next_char_rest [OF GCase.prems] show ?thesis by (simp add: p_switch_one)
  qed
next
  case (GText a)
  obtain m s1 where a: "i_sem a (deeper s) = (m, s1)" by fastforce
  note e = followsE [OF GText.IH [of "deeper s", unfolded a onward_depth, OF GText.prems]]
  show ?case
  proof (cases m)
    case True
    then obtain t w where p: "p_sem a (rest s) = Some (t, w)" using e(3) by fastforce
    with e(4) have s1: "rest s1 = w" "pg_depth s1 = Suc (pg_depth s)" "seen s1 = seen s @ t" by (auto simp: onward_depth)
    from e(1) have o: "onward s s1" by (simp add: onward_depth)
    then have pos: "pg_position s \<le> pg_position s1" "pg_buffer s1 = pg_buffer s" "pg_position s1 \<le> length (pg_buffer s)"
      by (auto simp: onward_def peg_ok_def)
    have ok: "peg_ok (shallower s1)" using onward_ok [OF o] by (simp add: onward_depth)
    have cap: "take (length (rest s) - length w) (rest s) = take (pg_position s1 - pg_position s) (drop (pg_position s) (pg_buffer s))"
      using pos s1(1) by (auto simp: rest_def)
    note t = add_token_step [OF ok, of "pg_position s" rulePegText, unfolded onward_depth, OF pos(1)]
    from t o have "onward s (add_token rulePegText (pg_position s) (shallower s1))" by (meson onward_depth onward_trans)
    with a True p s1 t pos show ?thesis by (simp add: follows_def p_text_def cap view_def)
  qed (use a e in \<open>auto simp: follows_def p_text_def onward_depth\<close>)
next
  case (GAct i)
  from add_token_step [OF GAct order_refl, of "ruleAction i"] show ?case by (simp add: follows_def p_act_def view_def)
next
  case (GRule n a)
  obtain m s1 where a: "i_sem a (deeper s) = (m, s1)" by fastforce
  note e = followsE [OF GRule.IH [of "deeper s", unfolded a onward_depth, OF GRule.prems]]
  show ?case
  proof (cases m)
    case True
    then obtain t w where p: "p_sem a (rest s) = Some (t, w)" using e(3) by fastforce
    with e(4) have s1: "rest s1 = w" "pg_depth s1 = Suc (pg_depth s)" "seen s1 = seen s @ t" by (auto simp: onward_depth)
    from e(1) have o: "onward s s1" by (simp add: onward_depth)
    then have pos: "pg_position s \<le> pg_position s1" by (simp add: onward_def)
    have ok: "peg_ok (shallower s1)" using onward_ok [OF o] by (simp add: onward_depth)
    note t = add_token_step [OF ok, of "pg_position s" "ruleNamed n", unfolded onward_depth, OF pos]
    from t o have "onward s (add_token (ruleNamed n) (pg_position s) (shallower s1))" by (meson onward_depth onward_trans)
    with a True p s1 t show ?thesis by (simp add: follows_def view_def)
  qed (use a e in \<open>auto simp: follows_def onward_depth\<close>)
next
  case GEof
  show ?case
  proof (cases "rest s")
    case Nil
    with GEof next_char_rest onward_restore [OF GEof onward_refl [OF GEof]] show ?thesis
      by (simp add: follows_def p_EOF_def matchDot_def)
  next
    case (Cons c r)
    with GEof next_char_rest advance_step [OF GEof Cons] show ?thesis by (simp add: follows_def p_EOF_def matchDot_def)
  qed
qed

section \<open>The parser is the grammar's\<close>

lemma p_switch_Nil_input: "p_switch cases d [] = d []"
  by (cases cases) auto

lemma p_sem_switch: "p_sem (g_switch cases d) = p_switch (map (\<lambda>(cs, g). (cs, p_sem g)) cases) (p_sem d)"
proof (induction cases d rule: g_switch.induct)
  case (2 cs g cases d)
  show ?case
  proof
    fix s show "p_sem (g_switch ((cs, g) # cases) d) s = p_switch (map (\<lambda>(cs, g). (cs, p_sem g)) ((cs, g) # cases)) (p_sem d) s"
      using 2 by (cases s) (simp_all add: p_switch_Nil_input)
  qed
qed (rule ext, simp)

lemma p_sem_seqs: "p_sem (g_seqs gs) = p_seqs (map p_sem gs)"
  by (induction gs rule: g_seqs.induct) simp_all

lemma p_sem_plus: "p_sem (g_plus g) = p_plus (p_sem g)"
  by (simp add: g_plus_def p_plus_def)

declare g_switch.simps [simp del] g_seqs.simps [simp del]

lemmas sems = p_sem_switch p_sem_seqs p_sem_plus actions_def

lemma sem_EOL [simp]: "p_sem g_EOL = p_EOL"
  by (simp add: g_EOL_def p_EOL_def sems)

lemma sem_WhiteSpace [simp]: "p_sem g_WhiteSpace = p_WhiteSpace"
  by (simp add: g_WhiteSpace_def p_WhiteSpace_def sems)

lemma sem_WS [simp]: "p_sem g_WS = p_WS"
  by (simp add: g_WS_def p_WS_def sems)

lemma sem_WSX [simp]: "p_sem g_WSX = p_WSX"
  by (simp add: g_WSX_def p_WSX_def sems)

lemma sem_EOF [simp]: "p_sem g_EOF = p_EOF"
  by (simp add: g_EOF_def)

lemma sem_StatementId [simp]: "p_sem g_StatementId = p_StatementId"
  by (simp add: g_StatementId_def p_StatementId_def sems)

lemma sem_PublisherId [simp]: "p_sem g_PublisherId = p_PublisherId"
  by (simp add: g_PublisherId_def p_PublisherId_def sems)

lemma sem_WKI [simp]: "p_sem g_WKI = p_WKI"
  by (simp add: g_WKI_def p_WKI_def sems)

lemma sem_UInt [simp]: "p_sem g_UInt = p_UInt"
  by (simp add: g_UInt_def p_UInt_def sems)

lemma sem_SimpleSelector [simp]: "p_sem g_SimpleSelector = p_SimpleSelector"
  by (simp add: g_SimpleSelector_def p_SimpleSelector_def sems)

lemma sem_CompoundSelector [simp]: "p_sem g_CompoundSelector = p_CompoundSelector"
  by (simp add: g_CompoundSelector_def p_CompoundSelector_def sems)

lemma sem_Function [simp]: "p_sem g_Function = p_Function"
  by (simp add: g_Function_def p_Function_def sems)

lemma sem_FunctionSelector [simp]: "p_sem g_FunctionSelector = p_FunctionSelector"
  by (simp add: g_FunctionSelector_def p_FunctionSelector_def sems)

lemma sem_Selector [simp]: "p_sem g_Selector = p_Selector"
  by (simp add: g_Selector_def p_Selector_def sems)

lemma sem_NamespacePart [simp]: "p_sem g_NamespacePart = p_NamespacePart"
  by (simp add: g_NamespacePart_def p_NamespacePart_def sems)

lemma sem_Wildcard [simp]: "p_sem g_Wildcard = p_Wildcard"
  by (simp add: g_Wildcard_def p_Wildcard_def sems)

lemma sem_Namespace [simp]: "p_sem g_Namespace = p_Namespace"
  by (simp add: g_Namespace_def p_Namespace_def sems)

lemma sem_Source [simp]: "p_sem g_Source = p_Source"
  by (simp add: g_Source_def p_Source_def sems)

lemma sem_ValueCompare [simp]: "p_sem g_ValueCompare = p_ValueCompare"
  by (simp add: g_ValueCompare_def p_ValueCompare_def sems)

lemma sem_IdCriteria [simp]: "p_sem g_IdCriteria = p_IdCriteria"
  by (simp add: g_IdCriteria_def p_IdCriteria_def sems)

lemma sem_PublisherCriteria [simp]: "p_sem g_PublisherCriteria = p_PublisherCriteria"
  by (simp add: g_PublisherCriteria_def p_PublisherCriteria_def sems)

lemma sem_SourceCriteria [simp]: "p_sem g_SourceCriteria = p_SourceCriteria"
  by (simp add: g_SourceCriteria_def p_SourceCriteria_def sems)

lemma sem_ValueCriteria [simp]: "p_sem g_ValueCriteria = p_ValueCriteria"
  by (simp add: g_ValueCriteria_def p_ValueCriteria_def sems)

lemma sem_RangeSelector [simp]: "p_sem g_RangeSelector = p_RangeSelector"
  by (simp add: g_RangeSelector_def p_RangeSelector_def sems)

lemma sem_Comparison [simp]: "p_sem g_Comparison = p_Comparison"
  by (simp add: g_Comparison_def p_Comparison_def sems)

lemma sem_RangeCriteria [simp]: "p_sem g_RangeCriteria = p_RangeCriteria"
  by (simp add: g_RangeCriteria_def p_RangeCriteria_def sems)

lemma sem_WKICriteria [simp]: "p_sem g_WKICriteria = p_WKICriteria"
  by (simp add: g_WKICriteria_def p_WKICriteria_def sems)

lemma sem_SimpleCriteria [simp]: "p_sem g_SimpleCriteria = p_SimpleCriteria"
  by (simp add: g_SimpleCriteria_def p_SimpleCriteria_def sems)

lemma sem_Boolean [simp]: "p_sem g_Boolean = p_Boolean"
  by (simp add: g_Boolean_def p_Boolean_def sems)

lemma sem_MultiCriteria [simp]: "p_sem (g_MultiCriteria g) = p_MultiCriteria (p_sem g)"
  by (simp add: g_MultiCriteria_def p_MultiCriteria_def sems)

lemma sem_CompoundCriteria [simp]: "p_sem (g_CompoundCriteria n) = p_CompoundCriteria n"
proof (induction n)
  case 0
  show ?case by (rule ext) (simp add: p_class_def split: list.split)
next
  case (Suc n)
  then show ?case by (simp add: CompoundCriteria_Suc compound_step_def sems)
qed

lemma sem_OrderSelector [simp]: "p_sem g_OrderSelector = p_OrderSelector"
  by (simp add: g_OrderSelector_def p_OrderSelector_def sems)

lemma sem_OrderDir [simp]: "p_sem g_OrderDir = p_OrderDir"
  by (simp add: g_OrderDir_def p_OrderDir_def sems)

lemma sem_OrderSelectorSpec [simp]: "p_sem g_OrderSelectorSpec = p_OrderSelectorSpec"
  by (simp add: g_OrderSelectorSpec_def p_OrderSelectorSpec_def sems)

lemma sem_OrderSpec [simp]: "p_sem g_OrderSpec = p_OrderSpec"
  by (simp add: g_OrderSpec_def p_OrderSpec_def sems)

lemma sem_Order [simp]: "p_sem g_Order = p_Order"
  by (simp add: g_Order_def p_Order_def sems)

lemma sem_Limit [simp]: "p_sem g_Limit = p_Limit"
  by (simp add: g_Limit_def p_Limit_def sems)

lemma shrinks_sem: "shrinks (p_sem g)"
proof (induction g)
  case (GLit w)
  then show ?case by (simp add: shrinks_tr_pieces)
next
  case (GCase cs a b)
  show ?case unfolding p_sem.simps by (intro shrinks_switch_Cons shrinks_switch_Nil GCase)
next
  case (GSeq a b)
  then show ?case by (simp add: shrinks_seq)
next
  case (GStar a)
  then show ?case by (simp add: shrinks_star)
next
  case (GAct i)
  show ?case by (simp add: shrinks_act)
qed (auto simp: shrinks_def p_empty_def p_class_def p_alt_def p_opt_def p_text_def p_EOF_def
    split: list.splits option.splits if_splits)

text \<open>
  No loop of the grammar has a body that matches without consuming, so the loops of the model are the loops of the code.
\<close>

primrec consuming :: "gram \<Rightarrow> bool" where
  "consuming GEmpty = False"
| "consuming (GLit w) = (w \<noteq> [])"
| "consuming (GClass P) = True"
| "consuming (GSeq a b) = (consuming a \<or> consuming b)"
| "consuming (GAlt a b) = (consuming a \<and> consuming b)"
| "consuming (GOpt a) = False"
| "consuming (GStar a) = False"
| "consuming (GCase cs a b) = (consuming a \<and> consuming b)"
| "consuming (GText a) = consuming a"
| "consuming (GAct i) = False"
| "consuming (GRule n a) = consuming a"
| "consuming GEof = False"

primrec loops_consume :: "gram \<Rightarrow> bool" where
  "loops_consume GEmpty = True"
| "loops_consume (GLit w) = True"
| "loops_consume (GClass P) = True"
| "loops_consume (GSeq a b) = (loops_consume a \<and> loops_consume b)"
| "loops_consume (GAlt a b) = (loops_consume a \<and> loops_consume b)"
| "loops_consume (GOpt a) = loops_consume a"
| "loops_consume (GStar a) = (consuming a \<and> loops_consume a)"
| "loops_consume (GCase cs a b) = (loops_consume a \<and> loops_consume b)"
| "loops_consume (GText a) = loops_consume a"
| "loops_consume (GAct i) = True"
| "loops_consume (GRule n a) = loops_consume a"
| "loops_consume GEof = True"

lemma consuming_sem: "consuming g \<Longrightarrow> p_sem g r = Some (t, w) \<Longrightarrow> length w < length r"
proof (induction g arbitrary: r t w)
  case (GLit v)
  then show ?case by (cases r) (auto simp: p_lit_def HasPrefix_def neq_Nil_conv split: if_splits)
next
  case (GSeq a b)
  then obtain t1 w1 t2 where "p_sem a r = Some (t1, w1)" "p_sem b w1 = Some (t2, w)" by (auto simp: p_seq_def split: option.splits)
  with GSeq shrinks_sem [of a] shrinks_sem [of b] show ?case by (fastforce simp: shrinks_def)
next
  case (GCase cs a b)
  have "p_sem a r = Some (t, w) \<or> p_sem b r = Some (t, w)"
    using GCase.prems(2) by (cases r) (auto split: if_splits)
  with GCase show ?case by auto
qed (auto simp: p_class_def p_alt_def p_text_def split: list.splits option.splits if_splits)

lemma i_star_loop:
  assumes "peg_ok s" "consuming g"
  shows "i_star (i_sem g) s = (case i_sem g s of (b, s1) \<Rightarrow> if b then i_star (i_sem g) s1 else restore s s1)"
proof -
  obtain b s1 where i: "i_sem g s = (b, s1)" by fastforce
  note e = followsE [OF i_sem_follows [OF assms(1), of g, unfolded i]]
  have "remaining s1 < remaining s" if b
  proof -
    from that e(3) obtain t w where p: "p_sem g (rest s) = Some (t, w)" by fastforce
    with e(4) have "rest s1 = w" by blast
    with consuming_sem [OF assms(2) p] rest_length [OF assms(1)] rest_length [OF e(2)] show ?thesis by simp
  qed
  with i show ?thesis by (simp add: i_star.simps [of "i_sem g" s])
qed

lemma consuming_parts: "consuming g_WhiteSpace" "loops_consume g_WhiteSpace" "loops_consume g_WS" "loops_consume g_WSX" "loops_consume g_EOF"
  by (simp_all add: g_WhiteSpace_def g_EOL_def g_WS_def g_WSX_def g_EOF_def g_plus_def g_switch.simps)

lemmas g_tokens = g_StatementId_def g_PublisherId_def g_WKI_def g_UInt_def g_NamespacePart_def g_Wildcard_def

lemma loops_selectors: "loops_consume g_Selector" "loops_consume g_Source" "loops_consume g_Order" "loops_consume g_Limit"
  by (simp_all add: g_Selector_def g_FunctionSelector_def g_Function_def g_CompoundSelector_def g_SimpleSelector_def g_Source_def g_Namespace_def
      g_Order_def g_OrderSpec_def g_OrderSelectorSpec_def g_OrderSelector_def g_OrderDir_def g_Limit_def g_tokens g_plus_def
      g_switch.simps g_seqs.simps consuming_parts)

lemma loops_criteria: "loops_consume g_SimpleCriteria"
  by (simp add: g_SimpleCriteria_def g_ValueCriteria_def g_IdCriteria_def g_PublisherCriteria_def g_SourceCriteria_def g_ValueCompare_def
      g_RangeCriteria_def g_RangeSelector_def g_Comparison_def g_WKICriteria_def g_tokens g_plus_def
      g_switch.simps g_seqs.simps consuming_parts)

lemma loops_compound: "loops_consume (g_CompoundCriteria n)"
  by (induction n) (simp_all add: g_MultiCriteria_def g_Boolean_def g_WS_def g_plus_def g_switch.simps g_seqs.simps consuming_parts loops_criteria)

lemma grammar_loops: "loops_consume (g_Grammar n)"
  by (simp add: g_Grammar_def g_Select_def g_Delete_def g_Criteria_def g_MultiCriteria_def g_Boolean_def g_seqs.simps g_WS_def g_plus_def consuming_parts
      loops_selectors loops_compound)

lemma agree_opt: "agree k p p' \<Longrightarrow> agree k (p_opt p) (p_opt p')"
  by (simp add: agree_def p_opt_def)

lemma agree_alt: "agree k p p' \<Longrightarrow> agree k q q' \<Longrightarrow> agree k (p_alt p q) (p_alt p' q')"
  by (simp add: agree_def p_alt_def split: option.split)

lemmas sem_shrinks = shrinks_sem [of g_Selector, simplified] shrinks_sem [of g_Source, simplified] shrinks_sem [of g_WS, simplified]
  shrinks_sem [of "GLit w" for w, simplified] shrinks_CompoundCriteria

lemma agree_Criteria: "agree n (p_sem (g_Criteria (Suc n))) p_Criteria"
  unfolding g_Criteria_def p_Criteria_def p_sem.simps p_sem_seqs list.map sem_MultiCriteria sem_CompoundCriteria sem_WS p_seqs.simps
    actions_def
  by (simp del: p_CompoundCriteria.simps add: agree_seq agree_Multi agree_Compound sem_shrinks shrinks_Multi)

lemma shrinks_opt: "shrinks p \<Longrightarrow> shrinks (p_opt p)"
  by (auto simp: shrinks_def p_opt_def split: option.splits)

lemma agree_Grammar: "agree n (p_sem (g_Grammar (Suc n))) p_Grammar"
proof -
  have crit: "agree n (p_opt (p_seq p_WS (p_sem (g_Criteria (Suc n))))) (p_opt (p_seq p_WS p_Criteria))"
    by (intro agree_opt agree_seq sem_shrinks agree_refl agree_Criteria)
  have shrink: "shrinks (p_opt (p_seq p_WS (p_sem (g_Criteria (Suc n)))))" by (intro shrinks_opt shrinks_seq sem_shrinks shrinks_sem)
  have sel: "agree n (p_sem (g_Select (Suc n))) p_Select" "agree n (p_sem (g_Delete (Suc n))) p_Delete"
    unfolding g_Select_def p_Select_def g_Delete_def p_Delete_def p_sem.simps p_sem_seqs list.map p_seqs.simps sem_WS sem_Selector sem_Source
      sem_Order sem_Limit
    by (intro agree_seq sem_shrinks crit shrink agree_refl)+
  have ends: "p_sem (g_seqs [g_Select (Suc n), g_WSX, g_EOF, GAct 0]) = p_seq (p_sem (g_Select (Suc n))) (p_seqs [p_WSX, p_EOF, p_act ASetSelectOp])"
    "p_sem (g_seqs [g_Delete (Suc n), g_WSX, g_EOF, GAct 1]) = p_seq (p_sem (g_Delete (Suc n))) (p_seqs [p_WSX, p_EOF, p_act ASetDeleteOp])"
    by (simp_all add: sems)
  have "p_Grammar = p_alt (p_seq p_Select (p_seqs [p_WSX, p_EOF, p_act ASetSelectOp])) (p_seq p_Delete (p_seqs [p_WSX, p_EOF, p_act ASetDeleteOp]))"
    by (simp add: p_Grammar_def)
  then show ?thesis
    unfolding g_Grammar_def p_sem.simps ends by (metis agree_alt agree_refl agree_seq sel shrinks_sem)
qed

lemma exec_view: "ofold (exec_token32 buffer) st tree = run_tokens st (concat (map (view buffer) tree))"
proof (induction tree arbitrary: st)
  case (Cons tk tree)
  obtain t ps where st: "st = (t, ps)" by fastforce
  show ?case
    by (cases "tk_rule tk") (simp_all add: st Cons view_def run_tokens_append run_tokens_Cons split: outcome.split)
qed simp

lemma init_ok: "peg_ok (init_peg qs)" "rest (init_peg qs) = qs" "seen (init_peg qs) = []"
  by (simp_all add: peg_ok_def init_peg_def rest_def seen_def zero_token_def token_within_def)

section \<open>Errors\<close>

text \<open>
  \<open>translatePositions\<close>: lines and symbols of the sorted positions, in one pass over the buffer; the end symbol, \<open>None\<close>, is its
  last element. With no position left the loop would panic; \<open>Error\<close> gives it two.
\<close>

definition full_buffer :: "string \<Rightarrow> char option list" where
  "full_buffer qs = map Some qs @ [None]"

fun translate_loop :: "char option list \<Rightarrow> nat \<Rightarrow> nat \<Rightarrow> nat \<Rightarrow> nat list \<Rightarrow> (nat \<Rightarrow> (nat \<times> nat) option) \<Rightarrow> nat \<Rightarrow> (nat \<times> nat) option" where
  "translate_loop [] i line symbol positions m = m"
| "translate_loop (c # cs) i line symbol positions m =
     (let line' = (if c = Some (CHR 0x0A) then line + 1 else line); symbol' = (if c = Some (CHR 0x0A) then 0 else symbol + 1) in
      case positions of
        [] \<Rightarrow> m
      | p # ps \<Rightarrow>
          (if i = p
           then (let left = dropWhile (\<lambda>q. q = i) ps; m2 = m(p \<mapsto> (line', symbol')) in
                 if left = [] then m2 else translate_loop cs (i + 1) line' symbol' left m2)
           else translate_loop cs (i + 1) line' symbol' (p # ps) m))"

definition translatePositions :: "char option list \<Rightarrow> nat list \<Rightarrow> nat \<Rightarrow> (nat \<times> nat) option" where
  "translatePositions buffer positions = translate_loop buffer 0 1 0 (sort positions) Map.empty"

text \<open>The line of a position counts the newlines up to it, its symbol the characters after the last of them, both included.\<close>

definition text_position :: "char option list \<Rightarrow> nat \<Rightarrow> nat \<times> nat" where
  "text_position buffer p =
     (1 + length (filter (\<lambda>c. c = Some (CHR 0x0A)) (take (Suc p) buffer)), length (takeWhile (\<lambda>c. c \<noteq> Some (CHR 0x0A)) (rev (take (Suc p) buffer))))"

lemma translate_loop_spec:
  assumes "line = 1 + length (filter (\<lambda>c. c = Some (CHR 0x0A)) pre)" "symbol = length (takeWhile (\<lambda>c. c \<noteq> Some (CHR 0x0A)) (rev pre))"
    and "sorted positions" "\<forall>p \<in> set positions. length pre \<le> p" "positions \<noteq> []"
  shows "translate_loop suf (length pre) line symbol positions m p =
    (if p \<in> set positions \<and> p < length (pre @ suf) then Some (text_position (pre @ suf) p) else m p)"
  using assms
proof (induction suf arbitrary: pre line symbol positions m)
  case Nil
  then show ?case by force
next
  case (Cons c cs)
  let ?nl = "Some (CHR 0x0A)"
  let ?line = "if c = ?nl then line + 1 else line" and ?symbol = "if c = ?nl then 0 else symbol + 1"
  obtain q ps where pos: "positions = q # ps" using Cons.prems(5) by (cases positions) auto
  have here: "(?line, ?symbol) = text_position (pre @ c # cs) (length pre)"
    using Cons.prems(1,2) by (simp add: text_position_def)
  have grown: "?line = 1 + length (filter (\<lambda>c. c = ?nl) (pre @ [c]))" "?symbol = length (takeWhile (\<lambda>c. c \<noteq> ?nl) (rev (pre @ [c])))"
    using Cons.prems(1,2) by simp_all
  show ?case
  proof (cases "length pre = q")
    case False
    with Cons.prems(3,4) pos have "\<forall>p \<in> set positions. length (pre @ [c]) \<le> p" by fastforce
    from Cons.IH [OF grown Cons.prems(3) this Cons.prems(5)] False pos show ?thesis by (simp add: Let_def)
  next
    case True
    define left where "left = dropWhile (\<lambda>p. p = length pre) ps"
    then have dq: "dropWhile (\<lambda>p. p = q) ps = left" using True by simp
    have sorted: "sorted left" using Cons.prems(3) pos by (simp add: left_def sorted_dropWhile)
    have mem: "p \<in> set positions \<longleftrightarrow> p = length pre \<or> p \<in> set left" for p
      using True pos set_dropWhileD [of p "\<lambda>p. p = length pre" ps]
      by (auto simp: left_def) (metis set_takeWhileD takeWhile_dropWhile_id UnE set_append)
    have above: "\<forall>p \<in> set left. length (pre @ [c]) \<le> p"
    proof (cases left)
      case (Cons r rs)
      then have "r \<noteq> length pre" by (metis (full_types) left_def hd_dropWhile list.distinct(1) list.sel(1))
      moreover have "length pre \<le> r" using Cons.prems(4) mem Cons by auto
      ultimately show ?thesis using sorted Cons by auto
    qed simp
    show ?thesis
    proof (cases "left = []")
      case True
      with \<open>length pre = q\<close> pos mem here dq show ?thesis by (auto simp: Let_def)
    next
      case False
      have "translate_loop (c # cs) (length pre) line symbol positions m p =
          translate_loop cs (length (pre @ [c])) ?line ?symbol left (m(q \<mapsto> (?line, ?symbol))) p"
        using \<open>length pre = q\<close> False pos dq by (simp add: Let_def del: dropWhile_eq_Nil_conv)
      also have "\<dots> = (if p \<in> set left \<and> p < length ((pre @ [c]) @ cs) then Some (text_position ((pre @ [c]) @ cs) p) else (m(q \<mapsto> (?line, ?symbol))) p)"
        by (rule Cons.IH [OF grown sorted above False])
      also have "\<dots> = (if p \<in> set positions \<and> p < length (pre @ c # cs) then Some (text_position (pre @ c # cs) p) else m p)"
        unfolding here using mem \<open>length pre = q\<close> above by auto
      finally show ?thesis .
    qed
  qed
qed

theorem translate_positions:
  assumes "positions \<noteq> []"
  shows "translatePositions buffer positions p = (if p \<in> set positions \<and> p < length buffer then Some (text_position buffer p) else None)"
proof -
  have "translate_loop buffer (length ([] :: char option list)) 1 0 (sort positions) Map.empty p =
    (if p \<in> set (sort positions) \<and> p < length ([] @ buffer) then Some (text_position ([] @ buffer) p) else Map.empty p)"
    by (rule translate_loop_spec) (use assms in \<open>simp_all, metis set_empty set_sort\<close>)
  then show ?thesis by (simp add: translatePositions_def)
qed

text \<open>\<open>strconv.Quote\<close>; a character that is no ASCII character is printed as it is.\<close>

definition hex_digit :: "nat \<Rightarrow> char" where
  "hex_digit d = (if d < 10 then char_of (48 + d) else char_of (87 + d))"

definition quote_char :: "char \<Rightarrow> string" where
  "quote_char c =
     (let n = (of_char c :: nat) in
      case map_of [(7, CHR ''a''), (8, CHR ''b''), (9, CHR ''t''), (10, CHR ''n''), (11, CHR ''v''), (12, CHR ''f''), (13, CHR ''r''),
                   (34, CHR 0x22), (92, CHR 0x5C)] n of
        Some e \<Rightarrow> [CHR 0x5C, e]
      | None \<Rightarrow> (if n < 32 \<or> n = 127 then [CHR 0x5C, CHR ''x'', hex_digit (n div 16), hex_digit (n mod 16)] else [c]))"

definition Quote :: "string \<Rightarrow> string" where
  "Quote s = CHR 0x22 # concat (map quote_char s) @ [CHR 0x22]"

definition newline :: string where
  "newline = [CHR 0x0A]"

text \<open>\<open>parseError.Error\<close>; a position that is not in the map is the zero one.\<close>

definition error_at :: "(nat \<times> nat) option \<Rightarrow> string" where
  "error_at m = (case m of Some (l, n) \<Rightarrow> ''line '' @ nat_str l @ '' symbol '' @ nat_str n | None \<Rightarrow> ''line 0 symbol 0'')"

definition parseError_Error :: "bool \<Rightarrow> string \<Rightarrow> token32 \<Rightarrow> string" where
  "parseError_Error pretty qs furthest =
     (let m = translatePositions (full_buffer qs) [tk_begin furthest, tk_end furthest];
          name = rul3s ! rule_index (tk_rule furthest) in
      newline @ ''parse error near '' @ (if pretty then CHR 0x1B # ''[34m'' @ name @ CHR 0x1B # ''[m'' else name) @
      '' ('' @ error_at (m (tk_begin furthest)) @ '' - '' @ error_at (m (tk_end furthest)) @ ''):'' @ newline @
      Quote (take (tk_end furthest - tk_begin furthest) (drop (tk_begin furthest) qs)) @ newline)"

section \<open>Correctness\<close>

text \<open>C36: The parser as it runs is the parser of the grammar: whatever the query, running the generated code on its token array, with
  tokens written over after a failed alternative and the array grown on the way, and executing the tokens that are left, gives the
  result of \<open>ParseQuery\<close>. Every token of a match lies in the text, so no slice that \<open>Execute\<close> takes is out of range. When there is no match, the furthest
  token lies in the text, and the error message gives the true lines and symbols of its two ends.\<close>

theorem array_parser_correct:
  "ParseQuery32 qs = ParseQuery qs \<and>
   (case Parse qs of
      Inl furthest \<Rightarrow> token_within qs furthest \<and>
        parseError_Error False qs furthest =
          newline @ ''parse error near '' @ rul3s ! rule_index (tk_rule furthest) @
          '' ('' @ error_at (Some (text_position (full_buffer qs) (tk_begin furthest))) @
          '' - '' @ error_at (Some (text_position (full_buffer qs) (tk_end furthest))) @ ''):'' @ newline @
          Quote (take (tk_end furthest - tk_begin furthest) (drop (tk_begin furthest) qs)) @ newline
    | Inr tree \<Rightarrow> list_all (token_within qs) tree)"
proof
  obtain m s where run: "i_sem (g_Grammar (Suc (length qs))) (init_peg qs) = (m, s)" by fastforce
  from i_sem_follows [OF init_ok(1) [of qs], of "g_Grammar (Suc (length qs))"] agree_Grammar [of "length qs"]
  have f: "follows (init_peg qs) (p_Grammar qs) (m, s)" by (simp add: init_ok agree_def run)
  note e = followsE [OF f]
  have buf: "pg_buffer s = qs" using e(1) by (simp add: onward_def init_peg_def)
  show "ParseQuery32 qs = ParseQuery qs"
  proof (cases "p_Grammar qs")
    case None
    with e(3) run show ?thesis by (simp add: ParseQuery32_def ParseQuery_def Parse_def)
  next
    case (Some q)
    then obtain t w where p: "p_Grammar qs = Some (t, w)" by (cases q) simp
    with e(4) have "m" "seen s = t" by (auto simp: init_ok)
    with run buf have "Parse qs = Inr (trim (pg_index s) (pg_tree s))" "concat (map (view qs) (trim (pg_index s) (pg_tree s))) = t"
      by (simp_all add: Parse_def trim_def seen_def)
    with p show ?thesis by (simp add: ParseQuery32_def ParseQuery_def Execute32_def Execute_def exec_view)
  qed
  show "case Parse qs of
      Inl furthest \<Rightarrow> token_within qs furthest \<and>
        parseError_Error False qs furthest =
          newline @ ''parse error near '' @ rul3s ! rule_index (tk_rule furthest) @
          '' ('' @ error_at (Some (text_position (full_buffer qs) (tk_begin furthest))) @
          '' - '' @ error_at (Some (text_position (full_buffer qs) (tk_end furthest))) @ ''):'' @ newline @
          Quote (take (tk_end furthest - tk_begin furthest) (drop (tk_begin furthest) qs)) @ newline
    | Inr tree \<Rightarrow> list_all (token_within qs) tree"
  proof (cases m)
    case False
    from e(2) buf have b: "token_within qs (pg_max s)" by (simp add: peg_ok_def)
    with False run show ?thesis
      by (simp add: Parse_def parseError_Error_def Let_def translate_positions full_buffer_def token_within_def)
  qed (use run e(2) buf in \<open>simp add: Parse_def trim_def peg_ok_def\<close>)
qed

end
