(* ===== verification/DhtStore.thy ===== *)
theory DhtStore
  imports Dht "HOL-Library.Multiset"
begin

text \<open>
  The datastore of the DHT client (\<open>IPFSDatastore\<close> in \<open>mcnode/dht.go\<close>): a map of a library that is not safe for
  goroutines, behind a mutex. A method is the sequence of what its body does; goroutines take turns between any two of these steps,
  and a call of the map takes two, so that two of them can meet inside it.
\<close>

section \<open>The methods\<close>

text \<open>The calls of the map. What one of them does to the map, and what it answers, is the library's.\<close>

datatype ('k, 'v, 'q) tab_call = TabPut 'k 'v | TabGet 'k | TabHas 'k | TabDelete 'k | TabQuery 'q

datatype 'c guarded_stmt = MxLock | DeferUnlock | ReturnTab 'c

definition IPFSDatastore_Put :: "'k \<Rightarrow> 'v \<Rightarrow> ('k, 'v, 'q) tab_call guarded_stmt list" where
  "IPFSDatastore_Put key v = [MxLock, DeferUnlock, ReturnTab (TabPut key v)]"

definition IPFSDatastore_Get :: "'k \<Rightarrow> ('k, 'v, 'q) tab_call guarded_stmt list" where
  "IPFSDatastore_Get key = [MxLock, DeferUnlock, ReturnTab (TabGet key)]"

definition IPFSDatastore_Has :: "'k \<Rightarrow> ('k, 'v, 'q) tab_call guarded_stmt list" where
  "IPFSDatastore_Has key = [MxLock, DeferUnlock, ReturnTab (TabHas key)]"

definition IPFSDatastore_Delete :: "'k \<Rightarrow> ('k, 'v, 'q) tab_call guarded_stmt list" where
  "IPFSDatastore_Delete key = [MxLock, DeferUnlock, ReturnTab (TabDelete key)]"

definition IPFSDatastore_Query :: "'q \<Rightarrow> ('k, 'v, 'q) tab_call guarded_stmt list" where
  "IPFSDatastore_Query q = [MxLock, DeferUnlock, ReturnTab (TabQuery q)]"

fun ds_method :: "('k, 'v, 'q) tab_call \<Rightarrow> ('k, 'v, 'q) tab_call guarded_stmt list" where
  "ds_method (TabPut key v) = IPFSDatastore_Put key v"
| "ds_method (TabGet key) = IPFSDatastore_Get key"
| "ds_method (TabHas key) = IPFSDatastore_Has key"
| "ds_method (TabDelete key) = IPFSDatastore_Delete key"
| "ds_method (TabQuery q) = IPFSDatastore_Query q"

section \<open>Goroutines\<close>

text \<open>What is left of a call: its statements, whether it is inside the map, whether the unlocking is deferred, and its answer.\<close>

record ('c, 'a) tab_request =
  dc_todo :: "'c guarded_stmt list"
  dc_inside :: bool
  dc_deferred :: bool
  dc_answer :: "('c \<times> 'a) option"

record ('c, 'a, 't) guarded_ds =
  dm_tab :: 't
  dm_mx :: bool
  dm_calls :: "('c, 'a) tab_request list"
  dm_history :: "('c \<times> 'a) list"

text \<open>One step of a call: what becomes of it, of the map, of the mutex, and the answer the map has just given.\<close>

inductive call_step :: "('c \<Rightarrow> 't \<Rightarrow> 'a \<times> 't) \<Rightarrow> 't \<Rightarrow> bool \<Rightarrow> ('c, 'a) tab_request \<Rightarrow> 't \<Rightarrow> bool \<Rightarrow> ('c, 'a) tab_request \<Rightarrow> ('c \<times> 'a) list \<Rightarrow> bool"
  for tab :: "'c \<Rightarrow> 't \<Rightarrow> 'a \<times> 't" where
  locked: "dc_todo d = MxLock # todo \<Longrightarrow> call_step tab t False d t True (d\<lparr>dc_todo := todo\<rparr>) []"
| deferred: "dc_todo d = DeferUnlock # todo \<Longrightarrow> call_step tab t mx d t mx (d\<lparr>dc_todo := todo, dc_deferred := True\<rparr>) []"
| entered: "dc_todo d = ReturnTab c # todo \<Longrightarrow> \<not> dc_inside d \<Longrightarrow> call_step tab t mx d t mx (d\<lparr>dc_inside := True\<rparr>) []"
| answered: "dc_todo d = ReturnTab c # todo \<Longrightarrow> dc_inside d \<Longrightarrow> tab c t = (a, t') \<Longrightarrow>
    call_step tab t mx d t' mx (d\<lparr>dc_todo := [], dc_inside := False, dc_answer := Some (c, a)\<rparr>) [(c, a)]"
| unlocked: "dc_todo d = [] \<Longrightarrow> dc_deferred d \<Longrightarrow> call_step tab t mx d t False (d\<lparr>dc_deferred := False\<rparr>) []"

inductive guarded_step :: "('c \<Rightarrow> 't \<Rightarrow> 'a \<times> 't) \<Rightarrow> ('c, 'a, 't) guarded_ds \<Rightarrow> ('c, 'a, 't) guarded_ds \<Rightarrow> bool"
  for tab :: "'c \<Rightarrow> 't \<Rightarrow> 'a \<times> 't" where
  "i < length (dm_calls s) \<Longrightarrow> call_step tab (dm_tab s) (dm_mx s) (dm_calls s ! i) t mx d h \<Longrightarrow>
   guarded_step tab s \<lparr>dm_tab = t, dm_mx = mx, dm_calls = (dm_calls s)[i := d], dm_history = dm_history s @ h\<rparr>"

text \<open>A new goroutine may call a method at any time.\<close>

definition new_call :: "('k, 'v, 'q) tab_call \<Rightarrow> (('k, 'v, 'q) tab_call, 'a) tab_request" where
  "new_call c = \<lparr>dc_todo = ds_method c, dc_inside = False, dc_deferred = False, dc_answer = None\<rparr>"

text \<open>\<open>NewDHT\<close> makes the store, around the empty map \<open>t0\<close> of the library.\<close>

definition NewDHT_store :: "'t \<Rightarrow> ('c, 'a, 't) guarded_ds" where
  "NewDHT_store t0 = \<lparr>dm_tab = t0, dm_mx = False, dm_calls = [], dm_history = []\<rparr>"

inductive guarded_reach :: "(('k, 'v, 'q) tab_call \<Rightarrow> 't \<Rightarrow> 'a \<times> 't) \<Rightarrow> 't \<Rightarrow> (('k, 'v, 'q) tab_call, 'a, 't) guarded_ds \<Rightarrow> bool"
  for tab :: "('k, 'v, 'q) tab_call \<Rightarrow> 't \<Rightarrow> 'a \<times> 't" and t0 :: 't where
  fresh: "guarded_reach tab t0 (NewDHT_store t0)"
| called: "guarded_reach tab t0 s \<Longrightarrow> guarded_reach tab t0 (s\<lparr>dm_calls := dm_calls s @ [new_call c]\<rparr>)"
| stepped: "guarded_reach tab t0 s \<Longrightarrow> guarded_step tab s s' \<Longrightarrow> guarded_reach tab t0 s'"

section \<open>Correctness\<close>

text \<open>The answers of a sequence of calls, one after the other.\<close>

fun in_turn :: "('c \<Rightarrow> 't \<Rightarrow> 'a \<times> 't) \<Rightarrow> 't \<Rightarrow> 'c list \<Rightarrow> 'a list \<times> 't" where
  "in_turn tab t [] = ([], t)"
| "in_turn tab t (c # cs) = (case tab c t of (a, t1) \<Rightarrow> (case in_turn tab t1 cs of (as, t2) \<Rightarrow> (a # as, t2)))"

lemma in_turn_snoc: "in_turn tab t (cs @ [c]) = (case in_turn tab t cs of (as, t1) \<Rightarrow> (case tab c t1 of (a, t2) \<Rightarrow> (as @ [a], t2)))"
  by (induction cs arbitrary: t) (auto split: prod.split)

text \<open>The shapes a call goes through, and whether it holds the mutex there.\<close>

definition call_ok :: "(('k, 'v, 'q) tab_call, 'a) tab_request \<Rightarrow> bool" where
  "call_ok d \<longleftrightarrow> (\<exists>c.
     (dc_todo d = [MxLock, DeferUnlock, ReturnTab c] \<and> \<not> dc_inside d \<and> \<not> dc_deferred d \<and> dc_answer d = None) \<or>
     (dc_todo d = [DeferUnlock, ReturnTab c] \<and> \<not> dc_inside d \<and> \<not> dc_deferred d \<and> dc_answer d = None) \<or>
     (dc_todo d = [ReturnTab c] \<and> dc_deferred d \<and> dc_answer d = None)) \<or>
   (dc_todo d = [] \<and> \<not> dc_inside d \<and> dc_answer d \<noteq> None)"

definition holds_mutex :: "('c, 'a) tab_request \<Rightarrow> bool" where
  "holds_mutex d \<longleftrightarrow> (case dc_todo d of MxLock # todo \<Rightarrow> False | [] \<Rightarrow> dc_deferred d | _ \<Rightarrow> True)"

definition call_answers :: "('c, 'a) tab_request \<Rightarrow> ('c \<times> 'a) multiset" where
  "call_answers d = (case dc_answer d of Some x \<Rightarrow> {#x#} | None \<Rightarrow> {#})"

lemma new_call_ok: "call_ok (new_call c) \<and> \<not> holds_mutex (new_call c) \<and> call_answers (new_call c) = {#}"
  by (cases c) (simp_all add: new_call_def call_ok_def holds_mutex_def call_answers_def IPFSDatastore_Put_def IPFSDatastore_Get_def IPFSDatastore_Has_def
      IPFSDatastore_Delete_def IPFSDatastore_Query_def)

lemma call_step_ok:
  assumes "call_step tab t mx d t' mx' d' h" "call_ok d" "holds_mutex d \<longrightarrow> mx"
  shows "call_ok d'" "holds_mutex d' \<longrightarrow> mx'" "mx' \<noteq> mx \<longrightarrow> holds_mutex d' \<noteq> holds_mutex d" "mx' = mx \<longrightarrow> holds_mutex d' = holds_mutex d"
    "call_answers d' = call_answers d + mset h" "h = [] \<and> t' = t \<or> (\<exists>c a. h = [(c, a)] \<and> tab c t = (a, t'))"
  using assms by (cases rule: call_step.cases; auto simp: call_ok_def holds_mutex_def call_answers_def)+

text \<open>What holds in every state that is reached.\<close>

definition guarded_ok :: "(('k, 'v, 'q) tab_call \<Rightarrow> 't \<Rightarrow> 'a \<times> 't) \<Rightarrow> 't \<Rightarrow> (('k, 'v, 'q) tab_call, 'a, 't) guarded_ds \<Rightarrow> bool" where
  "guarded_ok tab t0 s \<longleftrightarrow> (\<forall>d \<in> set (dm_calls s). call_ok d) \<and>
     size (filter_mset holds_mutex (mset (dm_calls s))) = (if dm_mx s then 1 else 0) \<and>
     (\<Sum>d \<in># mset (dm_calls s). call_answers d) = mset (dm_history s) \<and>
     in_turn tab t0 (map fst (dm_history s)) = (map snd (dm_history s), dm_tab s)"

lemma mset_split: "i < length xs \<Longrightarrow> mset xs = add_mset (xs ! i) (mset (take i xs @ drop (Suc i) xs))"
  by (metis id_take_nth_drop mset.simps(2) mset_append union_mset_add_mset_right)

lemma mset_update_split: "i < length xs \<Longrightarrow> mset (xs[i := x]) = add_mset x (mset (take i xs @ drop (Suc i) xs))"
  by (simp add: upd_conv_take_nth_drop)

lemma guarded_step_ok:
  assumes "guarded_ok tab t0 s" "guarded_step tab s s'"
  shows "guarded_ok tab t0 s'"
  using assms(2)
proof cases
  case (1 i t mx d h)
  let ?d = "dm_calls s ! i" and ?others = "mset (take i (dm_calls s) @ drop (Suc i) (dm_calls s))"
  note split = mset_split [OF 1(2)] mset_update_split [OF 1(2)]
  have d: "call_ok ?d" using assms(1) 1(2) by (simp add: guarded_ok_def)
  have size: "size (filter_mset holds_mutex (add_mset ?d ?others)) = (if dm_mx s then 1 else 0)"
    using assms(1) split(1) by (simp add: guarded_ok_def)
  then have "holds_mutex ?d \<longrightarrow> dm_mx s" by (auto split: if_splits)
  note st = call_step_ok [OF 1(3) d this]
  have size': "size (filter_mset holds_mutex (add_mset d ?others)) = (if mx then 1 else 0)"
    using size st(2-4) by (cases mx; cases "dm_mx s"; cases "holds_mutex d"; cases "holds_mutex ?d") auto
  have all: "\<forall>e \<in> set ((dm_calls s)[i := d]). call_ok e"
    using assms(1) st(1) set_update_subset_insert [of "dm_calls s" i d] by (auto simp: guarded_ok_def)
  have "(\<Sum>e \<in># mset (dm_calls s). call_answers e) = mset (dm_history s)" using assms(1) by (simp add: guarded_ok_def)
  then have ans: "(\<Sum>e \<in># mset ((dm_calls s)[i := d]). call_answers e) = mset (dm_history s @ h)"
    using st(5) by (simp add: split ac_simps)
  have "in_turn tab t0 (map fst (dm_history s @ h)) = (map snd (dm_history s @ h), t)"
    using assms(1) st(6) by (auto simp: guarded_ok_def in_turn_snoc)
  with all size' ans 1(1) show ?thesis by (simp add: guarded_ok_def split(2))
qed

lemma guarded_reach_ok: "guarded_reach tab t0 s \<Longrightarrow> guarded_ok tab t0 s"
proof (induction rule: guarded_reach.induct)
  case fresh
  then show ?case by (simp add: guarded_ok_def NewDHT_store_def)
next
  case (called s c)
  then show ?case by (simp add: guarded_ok_def new_call_ok)
qed (rule guarded_step_ok)

text \<open>Whenever a call has not returned, some call can go on.\<close>

lemma guarded_progress:
  assumes "guarded_reach tab t0 s" "d \<in> set (dm_calls s)" "dc_todo d \<noteq> [] \<or> dc_deferred d"
  shows "\<exists>s'. guarded_step tab s s'"
proof -
  note ok = guarded_reach_ok [OF assms(1)]
  have go: "\<exists>s'. guarded_step tab s s'" if "e \<in> set (dm_calls s)" "call_step tab (dm_tab s) (dm_mx s) e t mx e' h" for e t mx e' h
    using that by (metis guarded_step.intros in_set_conv_nth)
  have act: "\<exists>t mx e' h. call_step tab (dm_tab s) (dm_mx s) e t mx e' h"
    if "e \<in> set (dm_calls s)" "holds_mutex e \<or> \<not> dm_mx s" "dc_todo e \<noteq> [] \<or> dc_deferred e" for e
  proof -
    from ok that(1) have e: "call_ok e" by (simp add: guarded_ok_def)
    show ?thesis
    proof (cases "dc_todo e")
      case Nil
      with that(3) show ?thesis by (blast intro: unlocked)
    next
      case (Cons m todo)
      show ?thesis
      proof (cases m)
        case MxLock
        with Cons that(2) have "dm_mx s = False" by (simp add: holds_mutex_def)
        then show ?thesis using locked [of e todo tab "dm_tab s"] Cons MxLock by metis
      next
        case DeferUnlock
        with Cons show ?thesis by (blast intro: deferred)
      next
        case (ReturnTab c)
        obtain a t' where "tab c (dm_tab s) = (a, t')" by fastforce
        with Cons ReturnTab show ?thesis by (cases "dc_inside e") (blast intro: entered answered)+
      qed
    qed
  qed
  show ?thesis
  proof (cases "dm_mx s")
    case True
    then have "size (filter_mset holds_mutex (mset (dm_calls s))) = Suc 0" using ok by (simp add: guarded_ok_def)
    from size_eq_Suc_imp_elem [OF this] obtain e where "e \<in> set (dm_calls s)" "holds_mutex e" by auto
    moreover from this have "dc_todo e \<noteq> [] \<or> dc_deferred e" by (auto simp: holds_mutex_def)
    ultimately show ?thesis using act go by blast
  next
    case False
    with act [OF assms(2) _ assms(3)] go assms(2) show ?thesis by blast
  qed
qed

text \<open>C35: The mutex makes the store of the DHT client safe for goroutines: however their calls interleave, no two goroutines
  are ever inside the map, the answers the calls have are those of the calls made one after the other in the order of the
  history, each call with an answer once, and whenever a call has not returned, some goroutine can go on.\<close>

theorem dht_store_linearizable:
  assumes "guarded_reach tab t0 s"
  shows "in_turn tab t0 (map fst (dm_history s)) = (map snd (dm_history s), dm_tab s) \<and>
    (\<Sum>d \<in># mset (dm_calls s). call_answers d) = mset (dm_history s) \<and>
    size (filter_mset dc_inside (mset (dm_calls s))) \<le> 1 \<and>
    ((\<exists>d \<in> set (dm_calls s). dc_todo d \<noteq> [] \<or> dc_deferred d) \<longrightarrow> (\<exists>s'. guarded_step tab s s'))"
proof -
  note ok = guarded_reach_ok [OF assms]
  have inside: "holds_mutex d" if "d \<in># mset (dm_calls s)" "dc_inside d" for d
    using that ok by (auto simp: guarded_ok_def call_ok_def holds_mutex_def)
  have "size (filter_mset dc_inside (mset (dm_calls s))) \<le> size (filter_mset holds_mutex (mset (dm_calls s)))"
    by (rule size_mset_mono, rule filter_mset_mono_strong [OF subset_mset.order_refl inside])
  also have "\<dots> \<le> 1" using ok by (simp add: guarded_ok_def)
  finally have "size (filter_mset dc_inside (mset (dm_calls s))) \<le> 1" .
  with ok guarded_progress [OF assms] show ?thesis by (simp add: guarded_ok_def) blast
qed

text \<open>Two goroutines that put a value each: while the first is inside the map the second waits for the mutex.\<close>

definition two_puts :: "((nat, nat, unit) tab_call, unit, nat \<Rightarrow> nat option) guarded_ds" where
  "two_puts = \<lparr>dm_tab = Map.empty, dm_mx = True,
     dm_calls = [\<lparr>dc_todo = [ReturnTab (TabPut 1 7)], dc_inside = True, dc_deferred = True, dc_answer = None\<rparr>, new_call (TabPut 2 8)],
     dm_history = []\<rparr>"

definition sample_tab :: "(nat, nat, unit) tab_call \<Rightarrow> (nat \<Rightarrow> nat option) \<Rightarrow> unit \<times> (nat \<Rightarrow> nat option)" where
  "sample_tab c t = (case c of TabPut k v \<Rightarrow> ((), t(k \<mapsto> v)) | _ \<Rightarrow> ((), t))"

lemma two_puts_reach: "guarded_reach sample_tab Map.empty two_puts"
proof -
  let ?R = "guarded_reach sample_tab Map.empty" and ?c = "\<lambda>todo ins def. \<lparr>dc_todo = todo, dc_inside = ins, dc_deferred = def, dc_answer = None\<rparr>"
  let ?s = "\<lambda>mx d. \<lparr>dm_tab = Map.empty, dm_mx = mx, dm_calls = [d, new_call (TabPut 2 8)], dm_history = []\<rparr>"
  let ?body = "[DeferUnlock, ReturnTab (TabPut 1 7)]"
  have go: "?R (?s mx d) \<Longrightarrow> call_step sample_tab Map.empty mx d Map.empty mx' d' [] \<Longrightarrow> ?R (?s mx' d')" for mx d mx' d'
    by (drule guarded_reach.stepped [where s' = "?s mx' d'"], rule guarded_step.intros [of 0 "?s mx d" sample_tab Map.empty mx' d' "[]", simplified])
  have "?R (?s False (?c (MxLock # ?body) False False))"
    using guarded_reach.called [OF guarded_reach.called [OF guarded_reach.fresh, of sample_tab Map.empty "TabPut 1 7"], of "TabPut 2 8"]
    by (simp add: NewDHT_store_def new_call_def IPFSDatastore_Put_def)
  then have "?R (?s True (?c ?body False False))"
    by (rule go) (use call_step.locked [where d = "?c (MxLock # ?body) False False" and todo = ?body and tab = sample_tab and t = Map.empty] in simp)
  then have "?R (?s True (?c [ReturnTab (TabPut 1 7)] False True))"
    by (rule go) (use call_step.deferred [where d = "?c ?body False False" and todo = "[ReturnTab (TabPut 1 7)]" and tab = sample_tab and t = Map.empty and mx = True] in simp)
  then have "?R (?s True (?c [ReturnTab (TabPut 1 7)] True True))"
    by (rule go) (use call_step.entered [where d = "?c [ReturnTab (TabPut 1 7)] False True" and c = "TabPut 1 7" and todo = "[]" and tab = sample_tab and t = Map.empty and mx = True] in simp)
  then show ?thesis by (simp add: two_puts_def)
qed

theorem dht_store_linearizable_witness:
  "size (filter_mset dc_inside (mset (dm_calls two_puts))) \<le> 1 \<and> (\<exists>s'. guarded_step sample_tab two_puts s')"
  using dht_store_linearizable [OF two_puts_reach] by (simp add: two_puts_def)

end
