(* ===== verification/Spec2Isabelle.thy ===== *)
theory Spec2Isabelle
  imports EvalCorrect ParseRoundTrip CompileCorrect DBCorrect Config DataServer Requests Mcid Registration OpenDB Overlap QueryAnswers Lifecycle ParseTree DhtStore
begin

text \<open>
  A verification library of concat, the peer-to-peer node and directory daemons of mediachain, written in Go.

  \<^bold>\<open>The program.\<close> A node (\<open>mcnode\<close>) stores signed statements in an SQL database and the objects they refer to in a
  key-value store. Its user publishes, imports, queries and deletes statements over a REST API; nodes query each
  other, merge the results of queries, push statements to nodes that authorise them, and fetch objects. They find
  each other through directories (\<open>mcdir\<close>), which keep the peers that hold a registration open and the
  manifests entities have signed for them, and through a DHT. A tool (\<open>mcid\<close>) makes the identities of entities and
  signs manifests. \<open>mc\<close> holds what they share: the query language, handles and addresses, identities.

  \<^bold>\<open>Theories and code.\<close> Each theory models the code its opening text names; the definitions have the names of the
  functions and types they model. A handler, its guards and early returns are one definition; what the code calls
  in a library is an argument or a record of functions.

  \<^item> \<open>Prelude\<close>: outcomes (a value, an error or a panic) and their composition, the errors of the programs, Go's strings,
    integers and loops over slices. \<open>Json\<close>: JSON values and base64.
  \<^item> The query language (\<open>mc/query\<close>): \<open>Statement\<close> (\<open>stmt.go\<close>), \<open>Query\<close> (\<open>query.go\<close>: the syntax tree and its printer),
    \<open>QueryParse\<close> (\<open>parse.go\<close>, \<open>query.peg.go\<close>: every rule of the grammar, and the stack machine of its actions),
    \<open>QueryEval\<close> (\<open>eval.go\<close>), \<open>QueryCompile\<close> (\<open>compile.go\<close>: queries to SQL text). Their correctness is in
    \<open>ParseSafe\<close>, \<open>ParseRoundTrip\<close>, \<open>EvalCorrect\<close> and \<open>CompileCorrect\<close>. \<open>ParseTree\<close> is the generated parser as it runs,
    on its token array, with the positions of parse errors.
  \<^item> What a query means of the tables: \<open>Sql\<close> (the SQL that queries compile to, read and evaluated), \<open>QuerySql\<close> (compiled text parses back
    to the query's condition) and \<open>QueryAnswers\<close> (what the database answers, against the meaning of a query and the evaluator).
  \<^item> The stores: \<open>StatementDB\<close> (\<open>mcnode/db.go\<close>: three tables, transactions, every operation), with \<open>DBCorrect\<close>,
    and \<open>OpenDB\<close> (opening it);
    \<open>Objects\<close> (\<open>mcnode/ds.go\<close>); \<open>GC\<close> (\<open>mcnode/gc.go\<close>).
  \<^item> Statements of a node: \<open>Node\<close> (\<open>mcnode/node.go\<close>: making, signing, checking, importing).
  \<^item> Exchange between nodes (\<open>mcnode/proto.go\<close>): \<open>Merge\<close> and \<open>MergeCorrect\<close>, \<open>DataServer\<close>, \<open>Remote\<close> (queries, with
    \<open>mc/message.go\<close>), \<open>Push\<close>.
  \<^item> The network (\<open>mcnode/net.go\<close>): \<open>Handles\<close> and \<open>NatConfig\<close> (\<open>mc/util.go\<close>, \<open>mc/nat.go\<close>), \<open>Net\<close> (the status),
    \<open>Peers\<close> (addresses, lookups, connections), \<open>Requests\<close> (identities, pings, lists),
    \<open>Dht\<close> and \<open>DhtStore\<close> (\<open>mcnode/dht.go\<close>), \<open>Registration\<close> (the goroutines that keep a node announced).
  \<^item> Directories (\<open>mcdir\<close>): \<open>Entity\<close> (\<open>mc/entity.go\<close>: the keys of entities), \<open>Manifest\<close> (\<open>mfs.go\<close>), \<open>Directory\<close>
    (\<open>dir.go\<close>, \<open>proto.go\<close>).
  \<^item> Configuration and keys: \<open>Auth\<close> (the rules for pushes), \<open>Config\<close> (\<open>mcnode/node.go\<close>: saving and loading),
    \<open>Identity\<close> (\<open>mc/identity.go\<close>), \<open>Mcid\<close> (\<open>mcid/main.go\<close>).
  \<^item> The REST API (\<open>mcnode/api.go\<close>): \<open>Http\<close> (responses, bodies, the state of a node), \<open>ApiData\<close> with \<open>ApiCorrect\<close>,
    \<open>ApiNet\<close> and \<open>ApiConfig\<close>; \<open>Daemon\<close> composes all of them into the steps of one node, and \<open>Overlap\<close> lets them overlap.
  \<^item> The programs (\<open>main.go\<close> of \<open>mcnode\<close>, \<open>mcdir\<close> and \<open>mcid\<close>): \<open>Flags\<close> (Go's command line flags), \<open>Start\<close> (from the command line and the
    home directory to a node that serves, and its shutdown) and \<open>Lifecycle\<close> (the machine that starts, runs, ends and starts again).

  \<^bold>\<open>State and errors.\<close> State is passed explicitly, as records with the fields of the structs. A run-time panic is the
  outcome \<open>Panic\<close>, apart from \<open>Err\<close>. Calls of an engine (SQL, RocksDB) are counted, and an oracle says for each
  call whether it fails, so that a theorem without a hypothesis on the oracle holds whatever fails when. Transactions end only by the
  Commit and Rollback calls of the code. A map's
  iteration order is a parameter, too. Goroutines are step relations where their interleaving matters: \<open>merge_step\<close>
  (the reader, the workers and their bounded channel), \<open>dir_step\<close> (streams of a directory), \<open>guarded_step\<close> (calls of the mutex-guarded store of the DHT client), \<open>daemon_step\<close> (merges, received pushes, imports and puts of one
  node, moving between each other's steps and those of all other requests). A lookup
  takes the answers of its workers in their order of arrival.

  \<^bold>\<open>What is shown.\<close> In \<open>Overlap\<close>: whatever requests, pushes, engine failures and restarts a node has seen, and however they overlap, only
  statements that are complete and signed are in its database, its tables agree, its datastore is content
  addressed and its network parts fit its status; and a merge that ends without an error, with a peer that sends only what it was asked for, is
  complete whatever else happens meanwhile, unless something is
  deleted. In \<open>Lifecycle\<close>: the machine that starts with an empty home refines those steps, so the same holds of it, and a new start gives back the
  node there was. For the API: what it publishes, imports and puts is what it
  answers afterwards; what it answers OK to is saved; posted rules are those in force. For the exchange: a merge
  stores only authentic statements at every moment, ends, and when it succeeds has everything its peer was honest about; a push is confined to what
  the rules allow; a remote query delivers the local result; a transfer asks for exactly the missing objects and stores nothing else. For
  the stores: a write that returns an error has rolled its transaction back and left the tables as they were, one that succeeds has committed all of its
  effect (a DELETE that of the ids the engine streamed, also when the engine stopped early, which the code does not notice: \<open>delete_stops_early\<close>); the
  datastore refines a map, except that an iteration may be cut short by a failure that is not noticed either; the collector deletes no object that a
  stored statement refers to, as long as its SELECT delivers every row and no body is nil or an archive (\<open>gc_loses_objects\<close> shows what happens
  otherwise). For the query language: the parser never panics and inverts the printer, compiled SQL contains a query's
  values only as literals and only columns that resolve, the database answers a query as its SQL reads, which for queries without a limit, counters,
  source or reference criteria and upper-case letters is what the evaluator answers; DELETE removes the statements its SELECT
  selects, sometimes more than the criteria say (\<open>delete_takes_more\<close>); the code of the generated parser is the parser of the grammar, and its errors name the true positions. For the
  network and directories: what is announced is of the class of addresses the directory may know (addresses without an IPv4 part count as
  public), each announcement of a registration is that of its own round, a list contains what the directories answered
  before the context ended, and a directory names a
  peer only as the peer registered itself; the store of the DHT client is linearizable. For keys: entity keys match their ids, manifests verify, identities persist.

  \<^bold>\<open>Interfaces.\<close> \<open>statement_store\<close> (interpreted by the database for every fault oracle), \<open>object_store\<close> (the
  datastore), \<open>table_invariant\<close> (properties of the tables that every write keeps, interpreted by the agreement of the three tables), \<open>query_result_set\<close> (the three result sets of the evaluator), \<open>manifest_keeper\<close> (the manifest store),
  \<open>push_rules\<close> (the rules of a node): their laws are proved for the models, and the theorems on their clients
  use the facts of these interpretations.

  \<^bold>\<open>Bounds and fuel.\<close> Only the parser has fuel: the nesting of criteria. It is one more than the length of the
  input, and \<open>criteria_fuel_enough\<close> shows that more does not change the result. Loops over slices and streams are
  structural recursions over what they read. The counter of statements is a 64-bit word; timestamps, limits and
  integers of the query language are kept in their ranges by the parser and the decoders.

  \<^bold>\<open>Not modelled.\<close> The overlap of two requests inside a single call of an engine, of two changes of the configuration or the status, and of a collection
  of garbage with other requests (each is one step); time limits and
  contexts that are cancelled from outside, except for lookups and lists of the directories, where they end the answers; the interleaving of a DELETE with the stream of the ids it deletes; the timer of the DHT client;
  the routes of the REST API; the debugging output of the generated parser; the generated messages and their
  marshalling, and the JSON texts of messages, which are parameters with the documented round-trip laws; the
  cryptography, the host and the Kademlia client, which are parameters with theirs. The SQL engine is a parameter as well: \<open>sql_engine\<close> states what SQL documents of a SELECT, that
  it returns the rows of the joined tables that satisfy its condition, with their order, distinctness and limit.
\<close>

end
